(* ===== verification/Prelude.thy ===== *)
theory Prelude
  imports Main "HOL-Library.Product_Lexorder"
begin

text \<open>
  Shared vocabulary of the development: identifiers and times, errors as the left side of a sum,
  and SQL tables as lists of rows.

  The backend keeps its state in SQLite tables that it reads and writes through SQLAlchemy
  statements. A table is modelled as the list of its rows. The statements become list functions:
  \<open>session.get\<close> is \<open>tab_get\<close>, \<open>UPDATE ... WHERE\<close> is \<open>tab_update\<close> with its \<open>rowcount\<close>
  \<open>tab_count\<close>, \<open>SELECT ... WHERE ... ORDER BY\<close> is a \<open>filter\<close> under a \<open>sort_key\<close>, \<open>LIMIT n\<close> is
  \<open>take n\<close>, \<open>INSERT\<close> appends and \<open>DELETE\<close> filters. Lemmas about them are collected in
  \<open>table_simps\<close>, so that the component proofs are rewriting with that collection.
\<close>

type_synonym uuid = nat       \<comment> \<open>\<open>uuid.UUID\<close>: compared and ordered by its 128-bit number\<close>
type_synonym time = int       \<comment> \<open>\<open>datetime\<close> (UTC) and \<open>timedelta\<close>, in microseconds\<close>

named_theorems table_simps "reading a table after a statement wrote it"

section \<open>Tables\<close>

definition tab_get :: "('r \<Rightarrow> 'k) \<Rightarrow> 'r list \<Rightarrow> 'k \<Rightarrow> 'r option" where
  "tab_get key t i = find (\<lambda>r. key r = i) t"

definition tab_update :: "('r \<Rightarrow> bool) \<Rightarrow> ('r \<Rightarrow> 'r) \<Rightarrow> 'r list \<Rightarrow> 'r list" where
  "tab_update p f t = map (\<lambda>r. if p r then f r else r) t"

definition tab_count :: "('r \<Rightarrow> bool) \<Rightarrow> 'r list \<Rightarrow> nat" where
  "tab_count p t = length (filter p t)"

definition tab_keyed :: "('r \<Rightarrow> 'k) \<Rightarrow> 'r list \<Rightarrow> bool" where
  "tab_keyed key t \<longleftrightarrow> distinct (map key t)"

lemma tab_get_Nil [simp]: "tab_get key [] i = None"
  by (simp add: tab_get_def)

lemma tab_get_Cons: "tab_get key (r # t) i = (if key r = i then Some r else tab_get key t i)"
  by (simp add: tab_get_def)

lemma tab_get_append:
  "tab_get key (t @ u) i = (case tab_get key t i of None \<Rightarrow> tab_get key u i | Some r \<Rightarrow> Some r)"
  by (induction t) (auto simp: tab_get_Cons)

lemma tab_get_SomeD: "tab_get key t i = Some r \<Longrightarrow> r \<in> set t \<and> key r = i"
  by (induction t) (auto simp: tab_get_Cons split: if_splits)

lemma tab_get_None_iff: "tab_get key t i = None \<longleftrightarrow> i \<notin> key ` set t"
  by (induction t) (auto simp: tab_get_Cons)

lemma tab_get_in: "tab_keyed key t \<Longrightarrow> r \<in> set t \<Longrightarrow> tab_get key t (key r) = Some r"
  by (induction t) (auto simp: tab_get_Cons tab_keyed_def)

lemma tab_keyed_inj: "tab_keyed key t \<Longrightarrow> r \<in> set t \<Longrightarrow> r' \<in> set t \<Longrightarrow> key r = key r' \<Longrightarrow> r = r'"
  by (metis tab_get_in option.inject)

lemma tab_update_Nil [simp]: "tab_update p f [] = []"
  by (simp add: tab_update_def)

lemma tab_update_Cons [simp]:
  "tab_update p f (r # t) = (if p r then f r else r) # tab_update p f t"
  by (simp add: tab_update_def)

lemma tab_update_append: "tab_update p f (t @ u) = tab_update p f t @ tab_update p f u"
  by (simp add: tab_update_def)

lemma set_tab_update: "set (tab_update p f t) = (\<lambda>r. if p r then f r else r) ` set t"
  by (simp add: tab_update_def)

lemma in_tab_updateE:
  assumes "r' \<in> set (tab_update p f t)"
  obtains r where "r \<in> set t" "r' = (if p r then f r else r)"
  using assms by (auto simp: set_tab_update)

lemma length_tab_update [simp]: "length (tab_update p f t) = length t"
  by (simp add: tab_update_def)

lemma map_key_tab_update:
  assumes "\<And>r. r \<in> set t \<Longrightarrow> p r \<Longrightarrow> key (f r) = key r"
  shows "map key (tab_update p f t) = map key t"
  using assms by (induction t) auto

lemma tab_keyed_update:
  assumes "\<And>r. key (f r) = key r"
  shows "tab_keyed key (tab_update p f t) = tab_keyed key t"
  using map_key_tab_update [of t p key f] assms by (simp add: tab_keyed_def)

lemma tab_get_update:
  assumes "\<And>r. key (f r) = key r"
  shows "tab_get key (tab_update p f t) i =
    map_option (\<lambda>r. if p r then f r else r) (tab_get key t i)"
  using assms by (induction t) (auto simp: tab_get_Cons)

lemma tab_update_none: "(\<And>r. r \<in> set t \<Longrightarrow> \<not> p r) \<Longrightarrow> tab_update p f t = t"
  by (induction t) auto

lemma tab_update_id: "(\<And>r. r \<in> set t \<Longrightarrow> p r \<Longrightarrow> f r = r) \<Longrightarrow> tab_update p f t = t"
  by (induction t) auto

text \<open>An update that takes rows out of a selection.\<close>

lemma filter_tab_update_out:
  "(\<And>r. r \<in> set t \<Longrightarrow> p r \<Longrightarrow> \<not> q (f r)) \<Longrightarrow>
     filter q (tab_update p f t) = filter (\<lambda>r. \<not> p r) (filter q t)"
  by (induction t) auto

lemma tab_count_zero: "tab_count p t = 0 \<longleftrightarrow> (\<forall>r\<in>set t. \<not> p r)"
  by (auto simp: tab_count_def filter_empty_conv)

lemma tab_count_le_one:
  assumes "tab_keyed key t" and "\<And>r. p r \<Longrightarrow> key r = i"
  shows "tab_count p t \<le> 1"
  using assms
proof (induction t)
  case Nil
  then show ?case by (simp add: tab_count_def)
next
  case (Cons r t)
  have keyed: "tab_keyed key t" and new: "key r \<notin> key ` set t"
    using Cons.prems(1) by (auto simp: tab_keyed_def)
  show ?case
  proof (cases "p r")
    case True
    have "\<not> p r'" if "r' \<in> set t" for r'
      using that True Cons.prems(2) new by (metis imageI)
    then have "filter p t = []" by (simp add: filter_empty_conv)
    with True show ?thesis by (simp add: tab_count_def)
  next
    case False
    with Cons.IH [OF keyed Cons.prems(2)] show ?thesis by (simp add: tab_count_def)
  qed
qed

lemma tab_keyed_append1:
  "tab_keyed key (t @ [r]) \<longleftrightarrow> tab_keyed key t \<and> key r \<notin> key ` set t"
  by (auto simp: tab_keyed_def)

lemma tab_keyed_filter: "tab_keyed key t \<Longrightarrow> tab_keyed key (filter p t)"
  by (induction t) (auto simp: tab_keyed_def)

lemma tab_get_map_option_state:
  "tab_get key t i = Some r \<Longrightarrow> tab_keyed key t \<Longrightarrow> r' \<in> set t \<Longrightarrow> key r' = i \<Longrightarrow> r' = r"
  by (metis tab_get_in option.inject)

text \<open>Reading a table as a map: what an update of one row and an insert do to it.\<close>

lemma tab_get_update_at:
  assumes "tab_get key t i = Some r" and "p r" and "\<And>r'. key (f r') = key r'"
    and "tab_keyed key t" and "\<And>r'. p r' \<Longrightarrow> key r' = i"
  shows "tab_get key (tab_update p f t) = (tab_get key t)(i \<mapsto> f r)"
proof
  fix k
  show "tab_get key (tab_update p f t) k = ((tab_get key t)(i \<mapsto> f r)) k"
  proof (cases "k = i")
    case True
    with assms show ?thesis by (simp add: tab_get_update)
  next
    case False
    have "\<not> p r'" if "tab_get key t k = Some r'" for r'
      using assms(5) [of r'] False tab_get_SomeD [OF that] by auto
    with False assms(3) show ?thesis
      by (cases "tab_get key t k") (auto simp: tab_get_update)
  qed
qed

lemma tab_get_insert:
  "tab_get key t (key r) = None \<Longrightarrow> tab_get key (t @ [r]) = (tab_get key t)(key r \<mapsto> r)"
  by (rule ext) (auto simp: tab_get_append tab_get_Cons split: option.splits)

lemma ex_in_table: "tab_keyed key t \<Longrightarrow> (\<exists>r\<in>set t. P r) \<longleftrightarrow> (\<exists>i r. tab_get key t i = Some r \<and> P r)"
  by (metis tab_get_SomeD tab_get_in)

lemma all_in_table: "tab_keyed key t \<Longrightarrow> (\<forall>r\<in>set t. P r) \<longleftrightarrow> (\<forall>i r. tab_get key t i = Some r \<longrightarrow> P r)"
  by (metis tab_get_SomeD tab_get_in)

text \<open>An update of one row, in place.\<close>

lemma tab_update_one:
  assumes "tab_keyed key t" and "tab_get key t i = Some r" and "p r" and "\<And>x. p x \<Longrightarrow> key x = i"
  obtains u v where "t = u @ r # v" "tab_update p f t = u @ f r # v"
    "\<And>x. x \<in> set u \<union> set v \<Longrightarrow> key x \<noteq> i"
proof -
  have r: "r \<in> set t" "key r = i" using tab_get_SomeD [OF assms(2)] by auto
  then obtain u v where t: "t = u @ r # v" by (auto dest: split_list)
  have "key r \<notin> key ` (set u \<union> set v)" using assms(1) by (auto simp: t tab_keyed_def)
  then have other: "key x \<noteq> i" if "x \<in> set u \<union> set v" for x
    using that r(2) by (metis imageI)
  then have "tab_update p f u = u" "tab_update p f v = v"
    using assms(4) by (auto intro!: tab_update_none)
  then have "tab_update p f t = u @ f r # v" using assms(3) by (simp add: t tab_update_append)
  with t other show ?thesis by (intro that)
qed

lemmas [table_simps] = tab_get_append tab_get_Cons tab_update_append tab_keyed_append1

section \<open>Ordered reads\<close>

text \<open>\<open>ORDER BY key LIMIT 1\<close>: the first row of the sorted list is a least one.\<close>

definition first_by :: "('r \<Rightarrow> 'o::linorder) \<Rightarrow> 'r list \<Rightarrow> 'r option" where
  "first_by o_key t = (case sort_key o_key t of [] \<Rightarrow> None | r # _ \<Rightarrow> Some r)"

lemma first_by_None: "first_by o_key t = None \<longleftrightarrow> t = []"
proof -
  have "sort_key o_key t = [] \<longleftrightarrow> t = []"
    by (metis length_0_conv length_sort)
  then show ?thesis by (auto simp: first_by_def split: list.splits)
qed

lemma first_by_Some:
  assumes "first_by o_key t = Some r"
  shows "r \<in> set t" and "\<And>r'. r' \<in> set t \<Longrightarrow> o_key r \<le> o_key r'"
proof -
  from assms obtain rest where eq: "sort_key o_key t = r # rest"
    by (auto simp: first_by_def split: list.splits)
  then show "r \<in> set t" by (metis list.set_intros(1) set_sort)
  fix r' assume "r' \<in> set t"
  then have "r' \<in> set (r # rest)" by (metis eq set_sort)
  moreover have "sorted (map o_key (r # rest))"
    by (metis eq sorted_sort_key)
  ultimately show "o_key r \<le> o_key r'" by auto
qed

lemma insort_key_map: "insort_key k (f x) (map f xs) = map f (insort_key (\<lambda>y. k (f y)) x xs)"
  by (induction xs) auto

lemma sort_key_map: "sort_key k (map f xs) = map f (sort_key (\<lambda>y. k (f y)) xs)"
  by (induction xs) (auto simp: insort_key_map sort_key_def)

text \<open>\<open>dict.fromkeys(xs)\<close>: the first occurrence of each element, in order.\<close>

fun dedup :: "'a list \<Rightarrow> 'a list" where
  "dedup [] = []"
| "dedup (x # xs) = x # filter (\<lambda>y. y \<noteq> x) (dedup xs)"

lemma set_dedup [simp]: "set (dedup xs) = set xs"
  by (induction xs) auto

lemma distinct_dedup [simp]: "distinct (dedup xs)"
  by (induction xs) auto

lemma dedup_distinct: "distinct xs \<Longrightarrow> dedup xs = xs"
  by (induction xs) (auto simp: filter_id_conv)

section \<open>Statements split into chunks\<close>

text \<open>
  Long id lists are bound to SQL statements a chunk at a time:
  \<open>[ids[start : start + n] for start in range(0, len(ids), n)]\<close>.
\<close>

function chunks :: "nat \<Rightarrow> 'a list \<Rightarrow> 'a list list" where
  "chunks n xs = (if n = 0 \<or> xs = [] then [] else take n xs # chunks n (drop n xs))"
  by pat_completeness auto
termination
  by (relation "measure (\<lambda>(n, xs). length xs)") auto

declare chunks.simps [simp del]

lemma concat_chunks: "0 < n \<Longrightarrow> concat (chunks n xs) = xs"
proof (induction n xs rule: chunks.induct)
  case (1 n xs)
  show ?case
  proof (cases "xs = []")
    case False
    with "1" show ?thesis by (subst chunks.simps) (simp add: append_take_drop_id)
  qed (simp add: chunks.simps)
qed

lemma chunk_length: "c \<in> set (chunks n xs) \<Longrightarrow> length c \<le> n"
proof (induction n xs rule: chunks.induct)
  case (1 n xs)
  then show ?case
    by (cases "n = 0 \<or> xs = []") (auto simp: chunks.simps [of n xs])
qed

section \<open>Results\<close>

text \<open>\<open>Inl e\<close> is a raised exception, \<open>Inr x\<close> a returned value.\<close>

definition bindE :: "'e + 'a \<Rightarrow> ('a \<Rightarrow> 'e + 'b) \<Rightarrow> 'e + 'b" where
  "bindE m f = (case m of Inl e \<Rightarrow> Inl e | Inr x \<Rightarrow> f x)"

lemma bindE_simps [simp]: "bindE (Inl e) f = Inl e" "bindE (Inr x) f = f x"
  by (simp_all add: bindE_def)

lemma bindE_Inr_iff: "bindE m f = Inr y \<longleftrightarrow> (\<exists>x. m = Inr x \<and> f x = Inr y)"
  by (cases m) auto

lemma map_sum_Inr [simp]: "map_sum f id m = Inr y \<longleftrightarrow> m = Inr y"
  by (cases m) auto

lemma map_sum_Inr_map [simp]: "map_sum id f m = Inr y \<longleftrightarrow> (\<exists>x. m = Inr x \<and> y = f x)"
  by (cases m) auto

lemma bindE_assoc: "bindE (bindE m f) g = bindE m (\<lambda>x. bindE (f x) g)"
  by (cases m) auto

end
