(* ===== verification/Schema.thy ===== *)
theory Schema
  imports Prelude Complex_Main "HOL-Library.Word"
begin

text \<open>
  The data model: the enumerations and table rows of \<open>backend/app/*/models.py\<close> and the database
  \<open>db\<close> that the services read and write. Each record holds the columns of one table that some
  modelled operation reads or writes, under a prefix (\<open>i_\<close> identities, \<open>r_\<close> representations, ...).
  Columns nothing here touches (bounding boxes, landmarks, quality payloads, media facts, frame
  ranges, calibration profiles) are left out. Enumerations are datatypes, so the \<open>enum_check\<close>
  constraints hold by typing; the other CHECK and UNIQUE constraints are the predicates at the end
  of the theory, which the component theories prove preserved.
\<close>

section \<open>JSON values\<close>

text \<open>
  What a JSON column or document can hold. \<open>JUuid u\<close> is the string \<open>str(u)\<close> and \<open>JTime t\<close> the
  string \<open>t.isoformat()\<close> (each injective);
  \<open>JObj\<close> keeps the members in insertion order.
\<close>

datatype json =
    JNull
  | JBool bool
  | JInt int
  | JFloat real
  | JStr string
  | JUuid uuid
  | JTime time
  | JList "json list"
  | JObj "(string \<times> json) list"

fun json_uuid_opt :: "uuid option \<Rightarrow> json" where
  "json_uuid_opt None = JNull"
| "json_uuid_opt (Some u) = JUuid u"

section \<open>Jobs\<close>

datatype job_type =
  PROCESS_SOURCE | REPROCESS_SOURCE | REBUILD_INDEX | RETRAIN_MODEL | INSTALL_RUNTIME | CLEAN_STORAGE

datatype job_state =
  J_QUEUED | J_RUNNING | J_PAUSING | J_PAUSED | J_CANCELLING | J_CANCELLED | J_COMPLETED | J_FAILED
  | J_INTERRUPTED

datatype job_priority = INTERACTIVE | HIGH | NORMAL | LOW | MAINTENANCE

text \<open>\<open>PRIORITY_RANK\<close>: the position in the enumeration, most urgent first.\<close>

fun priority_rank :: "job_priority \<Rightarrow> int" where
  "priority_rank INTERACTIVE = 0"
| "priority_rank HIGH = 1"
| "priority_rank NORMAL = 2"
| "priority_rank LOW = 3"
| "priority_rank MAINTENANCE = 4"

datatype progress_mode = DETERMINATE | INDETERMINATE

record job =
  j_id :: uuid
  j_type :: job_type
  j_run :: "uuid option"
  j_previous :: "uuid option"
  j_state :: job_state
  j_priority :: job_priority
  j_rank :: int
  j_payload_version :: int
  j_payload :: "json option"
  j_mode :: progress_mode
  j_completed :: "int option"
  j_total :: "int option"
  j_owner :: "string option"
  j_expires :: "time option"
  j_heartbeat :: "time option"
  j_attempt :: int
  j_code :: "string option"
  j_detail :: "string option"
  j_created :: time
  j_updated :: time
  j_started :: "time option"
  j_ended :: "time option"

section \<open>Processing runs\<close>

record snapshot =
  n_id :: uuid
  n_version :: int
  n_json :: json
  n_created :: time
  n_action :: "string option"

datatype run_state =
  P_PENDING | P_RUNNING | P_PAUSING | P_PAUSED | P_CANCELLING | P_CANCELLED | P_FINALIZING
  | P_COMPLETED | P_FAILED | P_INTERRUPTED | P_NOT_RESUMABLE

definition transient_run_states :: "run_state list" where
  "transient_run_states =
     [P_PENDING, P_RUNNING, P_PAUSING, P_PAUSED, P_CANCELLING, P_FINALIZING, P_INTERRUPTED]"

record run =
  p_id :: uuid
  p_source :: uuid
  p_snapshot :: uuid
  p_parent :: "uuid option"
  p_state :: run_state
  p_requested :: time
  p_started :: "time option"
  p_completed :: "time option"
  p_failed :: "time option"
  p_code :: "string option"
  p_detail :: "string option"
  p_checkpoint :: "uuid option"
  p_rev :: int
  p_created :: time
  p_updated :: time

datatype segment_state = G_RUNNING | G_COMPLETED | G_FAILED | G_INTERRUPTED | G_ABANDONED

datatype segment_end =
  END_NORMAL | END_FALLBACK | END_CUDA_OOM | END_WORKER_CRASH | END_CANCELLED | END_SHUTDOWN

record segment =
  g_id :: uuid
  g_run :: uuid
  g_variant :: "uuid option"
  g_ordinal :: int
  g_state :: segment_state
  g_started :: time
  g_ended :: "time option"
  g_reason :: "segment_end option"
  g_details :: json
  g_created :: time

datatype checkpoint_kind = K_INTERMEDIATE | K_FINAL

datatype checkpoint_state = K_VALID | K_INVALIDATED

record checkpoint =
  k_id :: uuid
  k_run :: uuid
  k_segment :: "uuid option"
  k_ordinal :: int
  k_kind :: checkpoint_kind
  k_state :: checkpoint_state
  k_version :: int
  k_payload :: json
  k_created :: time
  k_invalidated :: "time option"
  k_reason :: "string option"

section \<open>Sources and artifacts\<close>

datatype source_kind = S_IMAGE | S_VIDEO

datatype source_state = S_ACTIVE | S_RECYCLED | S_DELETING | S_DELETED | S_UNAVAILABLE

record source =
  c_id :: uuid
  c_kind :: source_kind
  c_state :: source_state
  c_name :: string
  c_original :: uuid
  c_thumbnail :: "uuid option"
  c_run :: "uuid option"    \<comment> \<open>\<open>current_processing_run_id\<close>\<close>
  c_rev :: int
  c_created :: time
  c_updated :: time
  c_recycled :: "time option"
  c_captured :: "time option"
  c_duration :: "int option"
  c_width :: "int option"
  c_height :: "int option"
  c_rate :: "int option \<times> int option"    \<comment> \<open>\<open>frame_rate_num\<close>, \<open>frame_rate_den\<close>\<close>

datatype artifact_kind = SOURCE_ORIGINAL | FACE_CROP | THUMBNAIL | MODEL_EXPORT | RUNTIME_PACKAGE

datatype storage_mode = MANAGED | REFERENCED

datatype artifact_state =
  A_PENDING | A_AVAILABLE | A_MISSING | A_DELETING | A_DELETE_FAILED | A_DELETED


type_synonym byte = "8 word"

record artifact =
  f_id :: uuid
  f_kind :: artifact_kind
  f_mode :: storage_mode
  f_state :: artifact_state
  f_key :: "string option"
  f_path :: "string option"
  f_sha :: "byte list option"
  f_size :: "int option"
  f_created :: time
  f_available :: "time option"
  f_delete_requested :: "time option"
  f_deleted :: "time option"
  f_code :: "string option"
  f_detail :: "string option"
  f_mime :: "string option"
  f_filename :: "string option"    \<comment> \<open>\<open>original_filename\<close>\<close>

section \<open>Memory\<close>

datatype space_state = SP_ACTIVE | SP_DEPRECATED

datatype space_metric = COSINE

record space =
  s_id :: uuid
  s_state :: space_state
  s_dim :: nat
  s_metric :: space_metric
  s_normalization :: string
  s_key :: string                  \<comment> \<open>\<open>semantic_key\<close>\<close>
  s_component :: uuid              \<comment> \<open>\<open>component_version_id\<close>\<close>
  s_contract_version :: int
  s_contract :: json

record ann_sequence =
  q_space :: uuid
  q_next :: int

datatype observation_state = O_PENDING | O_ACTIVE | O_SUPERSEDED | O_REJECTED | O_DELETED

record observation =
  o_id :: uuid
  o_source :: uuid
  o_run :: uuid
  o_segment :: uuid
  o_crop :: "uuid option"
  o_state :: observation_state
  o_sequence :: int
  o_created :: time
  o_superseded_by :: "uuid option"
  o_box :: "real \<times> real \<times> real \<times> real"   \<comment> \<open>\<open>bbox_x\<close>, \<open>bbox_y\<close>, \<open>bbox_width\<close>, \<open>bbox_height\<close>\<close>
  o_landmarks :: json
  o_quality :: json
  o_component :: uuid              \<comment> \<open>\<open>detector_component_version_id\<close>\<close>
  o_variant :: "uuid option"

datatype rep_state = R_PENDING | R_ACTIVE | R_SUPERSEDED | R_ERASING | R_ERASED | R_DELETED

record rep =
  r_id :: uuid
  r_obs :: uuid
  r_identity :: "uuid option"
  r_run :: uuid
  r_segment :: uuid
  r_space :: uuid
  r_state :: rep_state
  r_key :: "int option"
  r_vector :: "byte list option"
  r_dim :: nat
  r_created :: time
  r_activated :: "time option"
  r_erased :: "time option"
  r_quality :: json
  r_variant :: "uuid option"

datatype occurrence_kind = OC_IMAGE | OC_TRACK | OC_SEGMENT

datatype occurrence_state = OC_PENDING | OC_ACTIVE | OC_SUPERSEDED | OC_DELETED

record occurrence =
  oc_id :: uuid
  oc_source :: uuid
  oc_identity :: uuid
  oc_run :: uuid
  oc_face :: "uuid option"   \<comment> \<open>\<open>representative_observation_id\<close>\<close>
  oc_kind :: occurrence_kind
  oc_state :: occurrence_state
  oc_created :: time
  oc_activated :: "time option"

record occurrence_observation =
  oo_occurrence :: uuid
  oo_observation :: uuid
  oo_ordinal :: nat

datatype op_kind = ADD | REMOVE

datatype op_state = X_PENDING | X_APPLIED | X_FAILED

record index_op =
  x_id :: uuid
  x_rep :: uuid
  x_space :: uuid
  x_kind :: op_kind
  x_state :: op_state
  x_attempts :: int
  x_not_before :: time
  x_last :: "time option"
  x_applied :: "time option"
  x_code :: "string option"
  x_detail :: "string option"
  x_created :: time
  x_updated :: time

section \<open>Identities, evidence and people\<close>

datatype identity_state = I_PENDING | I_ACTIVE | I_MERGED | I_FORGOTTEN | I_DELETED

record identity =
  i_id :: uuid
  i_state :: identity_state
  i_run :: "uuid option"
  i_face :: "uuid option"    \<comment> \<open>\<open>representative_observation_id\<close>\<close>
  i_merged_into :: "uuid option"
  i_rev :: int
  i_created :: time
  i_activated :: "time option"
  i_forgotten :: "time option"
  i_updated :: time

datatype lineage_kind = MERGED_INTO | SPLIT_FROM

record lineage =
  l_id :: uuid
  l_from :: uuid
  l_to :: uuid
  l_kind :: lineage_kind
  l_evidence :: uuid
  l_created :: time

datatype evidence_kind =
  IDENTITY_CREATED | IDENTITY_MATCHED | RECOGNITION_ABSTAINED | IDENTITY_ASSIGNED_TO_PERSON
  | IDENTITY_REMOVED_FROM_PERSON | IDENTITY_MERGED | IDENTITY_SPLIT | IDENTITY_FORGOTTEN
  | USER_CORRECTION | PERSON_RENAMED | SOURCE_PERMANENTLY_DELETED

record evidence =
  e_id :: uuid
  e_kind :: evidence_kind
  e_run :: "uuid option"
  e_source :: "uuid option"
  e_identity :: "uuid option"
  e_person :: "uuid option"
  e_version :: int
  e_payload :: json
  e_created :: time
  e_superseded :: "time option"

datatype evidence_role = ROLE_SUBJECT | ROLE_SELECTED_CANDIDATE | ROLE_CANDIDATE | ROLE_SUPPORTING

record evidence_rep =
  er_evidence :: uuid
  er_rep :: uuid
  er_role :: evidence_role

record evidence_candidate =
  ec_evidence :: uuid
  ec_rank :: int
  ec_rep :: "uuid option"
  ec_identity :: "uuid option"
  ec_similarity :: real
  ec_decision :: string
  ec_details :: json

datatype person_state = H_ACTIVE | H_RECYCLED | H_DELETED

record person =
  h_id :: uuid
  h_state :: person_state
  h_name :: string
  h_normalized :: "string option"
  h_rev :: int
  h_created :: time
  h_updated :: time
  h_recycled :: "time option"

datatype association_state = AS_ACTIVE | AS_REMOVED | AS_SUPERSEDED

record association =
  a_id :: uuid
  a_identity :: uuid
  a_person :: uuid
  a_state :: association_state
  a_evidence :: "uuid option"
  a_created :: time
  a_ended :: "time option"
  a_rev :: int

record app_state =
  v_key :: string
  v_value :: string
  v_updated :: time

section \<open>The database\<close>

record db =
  jobs :: "job list"
  runs :: "run list"
  snapshots :: "snapshot list"
  segments :: "segment list"
  checkpoints :: "checkpoint list"
  sources :: "source list"
  artifacts :: "artifact list"
  spaces :: "space list"
  ann_sequences :: "ann_sequence list"
  observations :: "observation list"
  reps :: "rep list"
  occurrences :: "occurrence list"
  occ_obs :: "occurrence_observation list"
  index_ops :: "index_op list"
  identities :: "identity list"
  lineages :: "lineage list"
  evidences :: "evidence list"
  ev_reps :: "evidence_rep list"
  ev_candidates :: "evidence_candidate list"
  people :: "person list"
  associations :: "association list"
  app_states :: "app_state list"

definition empty_db :: db where
  "empty_db = \<lparr>jobs = [], runs = [], snapshots = [], segments = [], checkpoints = [], sources = [],
     artifacts = [], spaces = [], ann_sequences = [], observations = [], reps = [],
     occurrences = [], occ_obs = [], index_ops = [], identities = [], lineages = [],
     evidences = [], ev_reps = [], ev_candidates = [], people = [], associations = [],
     app_states = []\<rparr>"

text \<open>
  The injected \<open>new_id\<close> callable: \<open>ids n\<close> is the value of its \<open>n\<close>-th call in the operation. The
  code relies on \<open>uuid4\<close> never repeating; where that matters it is the hypothesis \<open>fresh_ids\<close>.
  The injected \<open>clock\<close> is an argument \<open>now\<close>, one for each call the operation makes.
\<close>

type_synonym id_supply = "nat \<Rightarrow> uuid"

definition fresh_ids :: "id_supply \<Rightarrow> uuid set \<Rightarrow> bool" where
  "fresh_ids ids used \<longleftrightarrow> inj ids \<and> range ids \<inter> used = {}"

lemma fresh_ids_notin: "fresh_ids ids used \<Longrightarrow> ids n \<notin> used"
  by (auto simp: fresh_ids_def)

lemma fresh_ids_eq: "fresh_ids ids used \<Longrightarrow> ids m = ids n \<longleftrightarrow> m = n"
  by (auto simp: fresh_ids_def inj_def)

section \<open>The constraints of the schema\<close>

text \<open>
  CHECK constraints, UNIQUE indexes and primary keys, as predicates on the tables. Where an
  operation could violate one, SQLite would refuse the transaction with an \<open>IntegrityError\<close>; the
  theorems that an operation preserves them say that this does not happen.
\<close>

definition rep_row_ok :: "rep \<Rightarrow> bool" where
  "rep_row_ok r \<longleftrightarrow>
     (case r_key r of None \<Rightarrow> True | Some k \<Rightarrow> 0 < k) \<and> 0 < r_dim r \<and>
     ((r_state r = R_ERASED \<and> r_vector r = None \<and> r_key r = None)
      \<or> (r_state r \<noteq> R_ERASED \<and> r_vector r \<noteq> None)) \<and>
     (case r_vector r of None \<Rightarrow> True | Some v \<Rightarrow> length v = 4 * r_dim r) \<and>
     (r_state r = R_ACTIVE \<longrightarrow> r_key r \<noteq> None)"

definition identity_row_ok :: "identity \<Rightarrow> bool" where
  "identity_row_ok i \<longleftrightarrow>
     1 \<le> i_rev i \<and> (i_state i = I_MERGED \<longrightarrow> i_merged_into i \<noteq> None) \<and>
     i_merged_into i \<noteq> Some (i_id i)"

definition association_row_ok :: "association \<Rightarrow> bool" where
  "association_row_ok a \<longleftrightarrow> (a_state a = AS_ACTIVE \<longleftrightarrow> a_ended a = None) \<and> 1 \<le> a_rev a"

definition artifact_row_ok :: "artifact \<Rightarrow> bool" where
  "artifact_row_ok f \<longleftrightarrow>
     ((f_mode f = MANAGED \<and> f_key f \<noteq> None \<and> f_path f = None) \<or>
      (f_mode f = REFERENCED \<and> f_path f \<noteq> None \<and> f_key f = None) \<or> f_state f = A_DELETED) \<and>
     \<not> (f_state f = A_AVAILABLE \<and> f_mode f = MANAGED \<and> (f_sha f = None \<or> f_size f = None)) \<and>
     (case f_sha f of None \<Rightarrow> True | Some h \<Rightarrow> length h = 32) \<and>
     (case f_size f of None \<Rightarrow> True | Some n \<Rightarrow> 0 \<le> n)"

definition index_op_row_ok :: "index_op \<Rightarrow> bool" where
  "index_op_row_ok x \<longleftrightarrow> 0 \<le> x_attempts x \<and> (x_state x = X_APPLIED \<longrightarrow> x_applied x \<noteq> None)"

definition job_row_ok :: "job \<Rightarrow> bool" where
  "job_row_ok j \<longleftrightarrow>
     (case j_completed j of None \<Rightarrow> True | Some c \<Rightarrow> 0 \<le> c) \<and>
     (case j_total j of None \<Rightarrow> True | Some t \<Rightarrow> 0 \<le> t) \<and>
     (case (j_completed j, j_total j) of (Some c, Some t) \<Rightarrow> c \<le> t | _ \<Rightarrow> True) \<and>
     1 \<le> j_attempt j \<and> j_rank j = priority_rank (j_priority j)"

text \<open>A UNIQUE (partial) index: no two rows that satisfy \<open>p\<close> agree on \<open>key\<close>.\<close>

definition unique_where :: "('r \<Rightarrow> bool) \<Rightarrow> ('r \<Rightarrow> 'k) \<Rightarrow> 'r list \<Rightarrow> bool" where
  "unique_where p key t \<longleftrightarrow> distinct (map key (filter p t))"

lemma unique_where_Nil [simp]: "unique_where p key []"
  by (simp add: unique_where_def)

lemma unique_where_Cons:
  "unique_where p key (r # t) \<longleftrightarrow>
     unique_where p key t \<and> (p r \<longrightarrow> (\<forall>r'\<in>set t. p r' \<longrightarrow> key r' \<noteq> key r))"
  by (auto simp: unique_where_def image_iff)

lemma unique_where_append1:
  "unique_where p key (t @ [r]) \<longleftrightarrow>
     unique_where p key t \<and> (p r \<longrightarrow> (\<forall>r'\<in>set t. p r' \<longrightarrow> key r' \<noteq> key r))"
  by (auto simp: unique_where_def image_iff)

lemma unique_where_filter: "unique_where p key t \<Longrightarrow> unique_where p key (filter q t)"
  by (induction t) (auto simp: unique_where_Cons)

text \<open>An update that brings no new row under the index keeps it.\<close>

lemma unique_where_update:
  assumes "unique_where p key t" and "\<And>r. r \<in> set t \<Longrightarrow> q r \<Longrightarrow> p (f r) \<Longrightarrow> p r \<and> key (f r) = key r"
  shows "unique_where p key (tab_update q f t)"
  using assms
proof (induction t)
  case (Cons r t)
  have IH: "unique_where p key (tab_update q f t)"
    using Cons by (auto simp: unique_where_Cons)
  have "key r'' \<noteq> key (if q r then f r else r)"
    if "r'' \<in> set (tab_update q f t)" "p r''" "p (if q r then f r else r)" for r''
  proof -
    from that(1) obtain r' where r': "r' \<in> set t" "r'' = (if q r' then f r' else r')"
      by (rule in_tab_updateE)
    then have "p r' \<and> key r'' = key r'"
      using that(2) Cons.prems(2) [of r'] by (auto split: if_splits)
    moreover have "p r \<and> key (if q r then f r else r) = key r"
      using that(3) Cons.prems(2) [of r] by (auto split: if_splits)
    ultimately show ?thesis
      using Cons.prems(1) r'(1) by (auto simp: unique_where_Cons)
  qed
  with IH show ?case by (auto simp: unique_where_Cons)
qed simp

text \<open>At most one row of a uniquely indexed table has a given key: \<open>one_or_none\<close> finds it.\<close>

lemma unique_where_find:
  assumes "unique_where p key t" and "r \<in> set t" and "p r"
  shows "find (\<lambda>r'. key r' = key r \<and> p r') t = Some r"
  using assms by (induction t) (auto simp: unique_where_Cons)

end
