(* ===== verification/Transactions.thy ===== *)
theory Transactions
  imports Schema
begin

text \<open>
  The write path of \<open>backend/infrastructure/db\<close>: the optimistic-locked update every revisioned
  aggregate uses (\<open>optimistic.py\<close>) and the unit of work that runs a write transaction whole, and
  again when SQLite reports a busy database (\<open>unit_of_work.py\<close>).
\<close>

unbundle bit_operations_syntax

section \<open>Optimistic locking\<close>

text \<open>
  \<open>UPDATE model SET values, revision = revision + 1 WHERE id = row_id AND revision = expected AND
  extra_where\<close>, with its row count. A \<open>model\<close> is the primary key and the revision column of a
  table: \<open>key\<close>, \<open>rv\<close>, and \<open>bump\<close>, which writes \<open>revision + 1\<close>.
\<close>

definition opt_where :: "('r \<Rightarrow> uuid) \<Rightarrow> ('r \<Rightarrow> int) \<Rightarrow> uuid \<Rightarrow> int \<Rightarrow> ('r \<Rightarrow> bool) \<Rightarrow> 'r \<Rightarrow> bool" where
  "opt_where key rv row_id expected extra r \<longleftrightarrow> key r = row_id \<and> rv r = expected \<and> extra r"

definition optimistic_locked_update ::
  "('r \<Rightarrow> uuid) \<Rightarrow> ('r \<Rightarrow> int) \<Rightarrow> ('r \<Rightarrow> 'r) \<Rightarrow> uuid \<Rightarrow> int \<Rightarrow> ('r \<Rightarrow> 'r) \<Rightarrow> ('r \<Rightarrow> bool)
   \<Rightarrow> 'r list \<Rightarrow> nat \<times> 'r list" where
  "optimistic_locked_update key rv bump row_id expected values extra t =
     (tab_count (opt_where key rv row_id expected extra) t,
      tab_update (opt_where key rv row_id expected extra) (\<lambda>r. bump (values r)) t)"

text \<open>
  The contract of a revisioned model: writing columns keeps the key, and the bump raises the
  revision by one and touches nothing else that the contract speaks of.
\<close>

locale revisioned =
  fixes key :: "'r \<Rightarrow> uuid" and rv :: "'r \<Rightarrow> int" and bump :: "'r \<Rightarrow> 'r"
  assumes key_bump: "key (bump r) = key r" and rev_bump: "rv (bump r) = rv r + 1"
begin

abbreviation upd where "upd \<equiv> optimistic_locked_update key rv bump"

definition keeps :: "('r \<Rightarrow> 'r) \<Rightarrow> bool" where
  "keeps v \<longleftrightarrow> (\<forall>r. key (v r) = key r \<and> rv (v r) = rv r)"

lemma rowcount_le_one: "tab_keyed key t \<Longrightarrow> fst (upd i e v x t) \<le> 1"
  using tab_count_le_one [of key t "opt_where key rv i e x" i]
  by (simp add: optimistic_locked_update_def opt_where_def)

lemma refused_changes_nothing: "fst (upd i e v x t) = 0 \<Longrightarrow> snd (upd i e v x t) = t"
  by (auto simp: optimistic_locked_update_def tab_count_zero intro: tab_update_none)

lemma keeps_keys: "keeps v \<Longrightarrow> tab_keyed key (snd (upd i e v x t)) = tab_keyed key t"
  by (simp add: optimistic_locked_update_def tab_keyed_update keeps_def key_bump)

lemma get_after:
  "keeps v \<Longrightarrow> tab_get key (snd (upd i e v x t)) k =
     map_option (\<lambda>r. if opt_where key rv i e x r then bump (v r) else r) (tab_get key t k)"
  by (simp add: optimistic_locked_update_def tab_get_update keeps_def key_bump)

lemma rowcount_iff:
  assumes "tab_keyed key t"
  shows "fst (upd i e v x t) = (case tab_get key t i of None \<Rightarrow> 0
     | Some r \<Rightarrow> if rv r = e \<and> x r then 1 else 0)"
proof (cases "tab_get key t i")
  case None
  then have "\<forall>r\<in>set t. \<not> opt_where key rv i e x r"
    by (auto simp: opt_where_def tab_get_None_iff)
  with None show ?thesis
    by (simp add: optimistic_locked_update_def flip: tab_count_zero)
next
  case (Some r)
  then have r: "r \<in> set t" "key r = i" by (auto dest: tab_get_SomeD)
  show ?thesis
  proof (cases "rv r = e \<and> x r")
    case True
    then have "fst (upd i e v x t) \<noteq> 0"
      using r by (auto simp: optimistic_locked_update_def tab_count_zero opt_where_def)
    with rowcount_le_one [OF assms, of i e v x] True Some show ?thesis by simp
  next
    case False
    have "\<not> opt_where key rv i e x r'" if "r' \<in> set t" for r'
      using that r False tab_keyed_inj [OF assms, of r' r] by (auto simp: opt_where_def)
    then show ?thesis
      using False Some by (auto simp: optimistic_locked_update_def tab_count_zero)
  qed
qed

text \<open>The point of the revision: two writers that read the same revision cannot both win.\<close>

lemma second_writer_refused:
  assumes keyed: "tab_keyed key t" and keeps: "keeps v"
    and won: "fst (upd i e v x t) = 1"
  shows "fst (upd i e w y (snd (upd i e v x t))) = 0"
proof -
  obtain r where r: "tab_get key t i = Some r" "rv r = e" "x r"
    using won by (auto simp: rowcount_iff [OF keyed] split: option.splits if_splits)
  then have "key r = i" by (auto dest: tab_get_SomeD)
  with r keeps have "tab_get key (snd (upd i e v x t)) i = Some (bump (v r))"
    by (simp add: get_after opt_where_def)
  moreover have "rv (bump (v r)) \<noteq> e"
    using r keeps by (simp add: rev_bump keeps_def)
  ultimately show ?thesis
    using keyed keeps by (simp add: rowcount_iff keeps_keys)
qed

end

section \<open>Guarded updates\<close>

text \<open>
  What the repositories raise: \<open>ValueError\<close> for a call that breaks a rule of the repository itself,
  \<open>IntegrityError\<close> where the database refuses a row.
\<close>

datatype repo_error = ValueError | IntegrityError

text \<open>
  One guarded \<open>UPDATE\<close>: the rows in which the guard holds are written, and the caller is told
  whether there was one (\<open>bool(result.rowcount)\<close>).
\<close>

definition guarded_update :: "('r \<Rightarrow> bool) \<Rightarrow> ('r \<Rightarrow> 'r) \<Rightarrow> 'r list \<Rightarrow> bool \<times> 'r list" where
  "guarded_update guard values t = (0 < tab_count guard t, tab_update guard values t)"

lemma guarded_update_False: "guarded_update g v t = (False, t') \<Longrightarrow> t' = t"
  by (auto simp: guarded_update_def tab_count_zero intro: tab_update_none)

lemma guarded_update_True: "guarded_update g v t = (True, t') \<Longrightarrow> \<exists>r\<in>set t. g r"
  by (auto simp: guarded_update_def tab_count_def filter_empty_conv)

lemma guarded_update_snd: "snd (guarded_update g v t) = tab_update g v t"
  by (simp add: guarded_update_def)

text \<open>
  A state column moved by guarded updates keyed on the row and its state: a compare-and-set.
\<close>

locale state_column =
  fixes key :: "'r \<Rightarrow> uuid" and st :: "'r \<Rightarrow> 's" and put :: "'s \<Rightarrow> 'r \<Rightarrow> 'r"
  assumes key_put: "key (put x r) = key r" and st_put: "st (put x r) = x"
begin

definition cas :: "uuid \<Rightarrow> 's list \<Rightarrow> ('r \<Rightarrow> 'r) \<Rightarrow> 'r list \<Rightarrow> bool \<times> 'r list" where
  "cas i from v t = guarded_update (\<lambda>r. key r = i \<and> st r \<in> set from) v t"

lemma cas_True_iff:
  assumes "tab_keyed key t"
  shows "fst (cas i from v t) \<longleftrightarrow> (\<exists>r. tab_get key t i = Some r \<and> st r \<in> set from)"
proof
  assume "fst (cas i from v t)"
  then obtain r where "r \<in> set t" "key r = i" "st r \<in> set from"
    by (auto simp: cas_def guarded_update_def tab_count_def filter_empty_conv)
  with tab_get_in [OF assms] show "\<exists>r. tab_get key t i = Some r \<and> st r \<in> set from" by blast
next
  assume "\<exists>r. tab_get key t i = Some r \<and> st r \<in> set from"
  then show "fst (cas i from v t)"
    by (auto simp: cas_def guarded_update_def tab_count_def filter_empty_conv dest: tab_get_SomeD)
qed

text \<open>Two compare-and-sets from the same states to a state outside them: only one succeeds.\<close>

lemma cas_once:
  assumes keyed: "tab_keyed key t" and keeps: "\<And>r. key (v r) = key r \<and> st (v r) = x"
    and out: "x \<notin> set from" and won: "fst (cas i from v t)"
  shows "\<not> fst (cas i from w (snd (cas i from v t)))"
proof -
  obtain r where r: "tab_get key t i = Some r" "st r \<in> set from"
    using won by (auto simp: cas_True_iff [OF keyed])
  let ?t = "snd (cas i from v t)"
  have "tab_keyed key ?t"
    using keyed keeps by (simp add: cas_def guarded_update_snd tab_keyed_update)
  moreover have "tab_get key ?t i = Some (v r)"
    using r keeps tab_get_SomeD [OF r(1)]
    by (simp add: cas_def guarded_update_snd tab_get_update)
  ultimately show ?thesis using keeps out by (auto simp: cas_True_iff)
qed

end

section \<open>The unit of work\<close>

text \<open>
  What one attempt of a write transaction can raise: an \<open>OperationalError\<close> of SQLite with its
  result code, or any other exception. \<open>is_busy\<close> looks at the primary code, the low byte:
  \<open>SQLITE_BUSY\<close> is 5 and \<open>SQLITE_LOCKED\<close> is 6.
\<close>

datatype 'e sql_error = Operational "int option" | Raised 'e

fun is_busy :: "'e sql_error \<Rightarrow> bool" where
  "is_busy (Operational (Some code)) = (code AND 0xFF \<in> {5, 6})"
| "is_busy (Operational None) = False"
| "is_busy (Raised e) = False"

datatype 'e write_error = DatabaseBusy | NotBusy "'e sql_error"

text \<open>
  \<open>attempt n s\<close> is the \<open>n\<close>-th run of the callback (counted from 0) in a fresh transaction that
  sees the database \<open>s\<close>, including beginning and committing it: an error, or the result and the
  committed database. A failed attempt is rolled back, so the next one starts from \<open>s\<close> again. The
  loop \<open>while True\<close> ends because \<open>failed\<close> grows to \<open>max_attempts\<close>; it returns the outcome, the
  database, and the arguments of the \<open>sleep\<close> calls it made.
\<close>

function write_loop ::
  "nat \<Rightarrow> (nat \<Rightarrow> time) \<Rightarrow> (nat \<Rightarrow> 's \<Rightarrow> 'e sql_error + 'a \<times> 's) \<Rightarrow> nat \<Rightarrow> time list \<Rightarrow> 's
   \<Rightarrow> ('e write_error + 'a) \<times> 's \<times> time list" where
  "write_loop max_attempts backoff attempt failed slept s =
     (case attempt failed s of
        Inr (result, s') \<Rightarrow> (Inr result, s', slept)
      | Inl error \<Rightarrow>
          if \<not> is_busy error then (Inl (NotBusy error), s, slept)
          else if max_attempts \<le> Suc failed then (Inl DatabaseBusy, s, slept)
          else write_loop max_attempts backoff attempt (Suc failed)
                 (slept @ [backoff (Suc failed)]) s)"
  by pat_completeness auto
termination
  by (relation "measure (\<lambda>(m, b, a, f, l, s). m - f)") auto

declare write_loop.simps [simp del]

definition uow_write ::
  "nat \<Rightarrow> (nat \<Rightarrow> time) \<Rightarrow> (nat \<Rightarrow> 's \<Rightarrow> 'e sql_error + 'a \<times> 's) \<Rightarrow> 's
   \<Rightarrow> ('e write_error + 'a) \<times> 's \<times> time list" where
  "uow_write max_attempts backoff attempt s = write_loop max_attempts backoff attempt 0 [] s"

definition uow_read :: "('s \<Rightarrow> 'e + 'a \<times> 's) \<Rightarrow> 's \<Rightarrow> ('e + 'a) \<times> 's" where
  "uow_read work s = (map_sum id fst (work s), s)"

lemma is_busy_iff_low_byte:
  "is_busy (Operational (Some code)) \<longleftrightarrow> code mod 256 = 5 \<or> code mod 256 = 6"
proof -
  have "code AND 0xFF = code mod 256"
    using take_bit_eq_mask [of 8 code] by (simp add: take_bit_eq_mod mask_eq_exp_minus_1)
  then show ?thesis by simp
qed

text \<open>The attempts before \<open>n\<close> that the loop got through: all busy.\<close>

definition busy_upto :: "(nat \<Rightarrow> 's \<Rightarrow> 'e sql_error + 'b) \<Rightarrow> 's \<Rightarrow> nat \<Rightarrow> nat \<Rightarrow> bool" where
  "busy_upto attempt s m n \<longleftrightarrow> (\<forall>k\<in>{m..<n}. \<exists>e. attempt k s = Inl e \<and> is_busy e)"

lemma busy_upto_step:
  "attempt m s = Inl e \<Longrightarrow> is_busy e \<Longrightarrow> busy_upto attempt s (Suc m) n \<Longrightarrow> busy_upto attempt s m n"
  unfolding busy_upto_def by (metis Suc_leI atLeastLessThan_iff nat_less_le)

text \<open>
  The specification: the outcome of the unit of work is that of one attempt, the first that is not
  busy or the last one allowed.
\<close>

definition settle_attempt ::
  "(nat \<Rightarrow> 's \<Rightarrow> 'e sql_error + 'a \<times> 's) \<Rightarrow> 's \<Rightarrow> nat \<Rightarrow> ('e write_error + 'a) \<times> 's" where
  "settle_attempt attempt s n =
     (case attempt n s of
        Inr (result, s') \<Rightarrow> (Inr result, s')
      | Inl error \<Rightarrow> (Inl (if is_busy error then DatabaseBusy else NotBusy error), s))"

definition decisive :: "nat \<Rightarrow> (nat \<Rightarrow> 's \<Rightarrow> 'e sql_error + 'b) \<Rightarrow> 's \<Rightarrow> nat \<Rightarrow> bool" where
  "decisive max_attempts attempt s n \<longleftrightarrow>
     Suc n = max_attempts \<or> (\<forall>e. attempt n s = Inl e \<longrightarrow> \<not> is_busy e)"

lemma write_loop_outcome:
  assumes "failed < max_attempts"
  shows "\<exists>n. failed \<le> n \<and> n < max_attempts \<and> busy_upto attempt s failed n \<and>
    decisive max_attempts attempt s n \<and>
    write_loop max_attempts backoff attempt failed slept s =
      (fst (settle_attempt attempt s n), snd (settle_attempt attempt s n),
       slept @ map backoff [Suc failed..<Suc n])"
  using assms
proof (induction "max_attempts - failed" arbitrary: failed slept rule: less_induct)
  case less
  show ?case
  proof (cases "\<exists>e. attempt failed s = Inl e \<and> is_busy e \<and> Suc failed < max_attempts")
    case False
    then have "write_loop max_attempts backoff attempt failed slept s =
      (fst (settle_attempt attempt s failed), snd (settle_attempt attempt s failed), slept)"
      by (subst write_loop.simps)
        (auto simp: settle_attempt_def split: sum.splits)
    moreover have "decisive max_attempts attempt s failed"
      using False less.prems by (auto simp: decisive_def)
    ultimately show ?thesis
      using less.prems by (intro exI [of _ failed]) (simp add: busy_upto_def)
  next
    case True
    then obtain e where e: "attempt failed s = Inl e" "is_busy e" "Suc failed < max_attempts" by blast
    then obtain n where n: "Suc failed \<le> n" "n < max_attempts" "busy_upto attempt s (Suc failed) n"
        "decisive max_attempts attempt s n"
        "write_loop max_attempts backoff attempt (Suc failed) (slept @ [backoff (Suc failed)]) s =
          (fst (settle_attempt attempt s n), snd (settle_attempt attempt s n),
           (slept @ [backoff (Suc failed)]) @ map backoff [Suc (Suc failed)..<Suc n])"
      using less.hyps [of "Suc failed" "slept @ [backoff (Suc failed)]"] by force
    have "[Suc failed..<Suc n] = Suc failed # [Suc (Suc failed)..<Suc n]"
      using n(1) by (simp add: upt_conv_Cons)
    moreover have "write_loop max_attempts backoff attempt failed slept s =
      write_loop max_attempts backoff attempt (Suc failed) (slept @ [backoff (Suc failed)]) s"
      by (subst write_loop.simps) (use e in simp)
    moreover have "busy_upto attempt s failed n"
      using e n(3) by (blast intro: busy_upto_step)
    ultimately show ?thesis
      using n by (intro exI [of _ n]) simp
  qed
qed

lemmas uow_write_outcome = write_loop_outcome [where failed = 0 and slept = "[]", folded uow_write_def]

text \<open>
  C9. A write unit of work returns after at most \<open>max_attempts\<close> runs of its callback, with the
  outcome of a single run: every earlier run was busy and left no trace, the deciding one is the
  first that was not busy or the last allowed, it slept once, with the caller's back-off, between
  two runs, and an error of any kind leaves the database as it was.
\<close>

theorem uow_write_runs_whole:
  assumes "0 < max_attempts"
    and "uow_write max_attempts backoff attempt s = (outcome, s', slept)"
  shows "(\<exists>n < max_attempts. busy_upto attempt s 0 n \<and> decisive max_attempts attempt s n \<and>
      (outcome, s') = settle_attempt attempt s n \<and> slept = map backoff [1..<Suc n]) \<and>
    ((\<exists>e. outcome = Inl e) \<longrightarrow> s' = s)"
proof -
  obtain n where n: "n < max_attempts" "busy_upto attempt s 0 n" "decisive max_attempts attempt s n"
      "(outcome, s', slept) = (fst (settle_attempt attempt s n), snd (settle_attempt attempt s n),
         map backoff [Suc 0..<Suc n])"
    using uow_write_outcome [OF assms(1), of attempt s backoff] assms(2)
    by (auto simp del: upt_Suc)
  then have out: "(outcome, s') = settle_attempt attempt s n" and "slept = map backoff [1..<Suc n]"
    by (simp_all del: upt_Suc)
  moreover have "(\<exists>e. outcome = Inl e) \<longrightarrow> s' = s"
    using out by (auto simp: settle_attempt_def split: sum.splits prod.splits)
  ultimately show ?thesis using n(1-3) by blast
qed

lemma uow_write_runs_whole_witness:
  "let attempt = (\<lambda>n s. if n = 0 then Inl (Operational (Some 517)) else Inr (s + 1, s + 10));
       r = uow_write 3 (\<lambda>n. 50 * int n) attempt (7::int)
   in r = (Inr 8 :: unit write_error + int, 17, [50]) \<and>
      (\<exists>n < 3. busy_upto attempt 7 0 n \<and> decisive 3 attempt 7 n \<and>
        (fst r, fst (snd r)) = settle_attempt attempt 7 n \<and>
        snd (snd r) = map (\<lambda>n. 50 * int n) [1..<Suc n])"
proof -
  let ?attempt = "\<lambda>n s. if n = 0 then Inl (Operational (Some 517)) else Inr (s + 1, s + 10)"
  have "uow_write 3 (\<lambda>n. 50 * int n) ?attempt (7::int) = (Inr 8 :: unit write_error + int, 17, [50])"
    by (simp add: uow_write_def write_loop.simps)
  with uow_write_runs_whole [OF _ this] show ?thesis by (simp add: Let_def del: upt_Suc)
qed

end
