(* ===== verification/Jobs.thy ===== *)
theory Jobs
  imports Transactions
begin

text \<open>
  The persistence mechanics of \<open>jobs\<close> (\<open>backend/app/jobs/repository.py\<close>): adding a job, claiming
  the most urgent queued one under a lease, guarded state transitions, progress, and the list of
  jobs that are not over. Each operation maps the \<open>jobs\<close> table to the new one. The theorems: a
  claim takes the least queued job of a total order and nobody can take it again, draining the
  queue serves it in exactly that order, and a job holds a lease just while a worker holds the job.
\<close>

definition finished_job_states :: "job_state list" where
  "finished_job_states = [J_COMPLETED, J_FAILED, J_CANCELLED]"

definition leased_job_states :: "job_state list" where
  "leased_job_states = [J_RUNNING, J_PAUSING, J_CANCELLING]"

record claimed_job =
  cj_id :: uuid
  cj_type :: job_type
  cj_run :: "uuid option"
  cj_payload_version :: int
  cj_payload :: "json option"
  cj_attempt :: int
  cj_owner :: string
  cj_expires :: time

definition job_add :: "job \<Rightarrow> job list \<Rightarrow> repo_error + job list" where
  "job_add j t =
     (if tab_get j_id t (j_id j) \<noteq> None \<or> \<not> job_row_ok j then Inl IntegrityError
      else Inr (t @ [j]))"

definition job_get :: "job list \<Rightarrow> uuid \<Rightarrow> job option" where
  "job_get t i = tab_get j_id t i"

section \<open>Claiming\<close>

definition claim_order :: "job \<Rightarrow> int \<times> time \<times> uuid" where
  "claim_order j = (j_rank j, j_created j, j_id j)"

definition eligible :: "job_type list option \<Rightarrow> job \<Rightarrow> bool" where
  "eligible types j \<longleftrightarrow> j_state j = J_QUEUED \<and> (case types of None \<Rightarrow> True | Some ts \<Rightarrow> j_type j \<in> set ts)"

definition lease_values :: "string \<Rightarrow> time \<Rightarrow> time \<Rightarrow> job \<Rightarrow> job" where
  "lease_values owner now expires j = j\<lparr>j_state := J_RUNNING, j_owner := Some owner,
     j_expires := Some expires, j_heartbeat := Some now, j_started := Some now, j_updated := now\<rparr>"

definition claim_next ::
  "string \<Rightarrow> time \<Rightarrow> time \<Rightarrow> job_type list option \<Rightarrow> job list \<Rightarrow> claimed_job option \<times> job list" where
  "claim_next owner now lease_for types t =
     (let expires = now + lease_for in
      if types = Some [] then (None, t)
      else case first_by claim_order (filter (eligible types) t) of
        None \<Rightarrow> (None, t)
      | Some j \<Rightarrow>
          (Some \<lparr>cj_id = j_id j, cj_type = j_type j, cj_run = j_run j,
             cj_payload_version = j_payload_version j, cj_payload = j_payload j,
             cj_attempt = j_attempt j, cj_owner = owner, cj_expires = expires\<rparr>,
           tab_update (\<lambda>r. j_id r = j_id j) (lease_values owner now expires) t))"

section \<open>Transitions and progress\<close>

definition transition_values ::
  "job_state \<Rightarrow> time \<Rightarrow> string option \<Rightarrow> string option \<Rightarrow> job \<Rightarrow> job" where
  "transition_values to now code detail j =
     (let j1 = j\<lparr>j_state := to, j_updated := now\<rparr>;
          j2 = (if to \<notin> set leased_job_states
                then j1\<lparr>j_owner := None, j_expires := None, j_heartbeat := None\<rparr> else j1);
          j3 = (if to \<in> set finished_job_states then j2\<lparr>j_ended := Some now\<rparr> else j2);
          j4 = (if code \<noteq> None then j3\<lparr>j_code := code\<rparr> else j3)
      in if detail \<noteq> None then j4\<lparr>j_detail := detail\<rparr> else j4)"

definition job_transition ::
  "uuid \<Rightarrow> job_state list \<Rightarrow> job_state \<Rightarrow> time \<Rightarrow> string option \<Rightarrow> string option \<Rightarrow> job list
   \<Rightarrow> repo_error + bool \<times> job list" where
  "job_transition i from to now code detail t =
     (if to = J_RUNNING then Inl ValueError
      else Inr (guarded_update (\<lambda>j. j_id j = i \<and> j_state j \<in> set from)
                  (transition_values to now code detail) t))"

definition set_progress ::
  "uuid \<Rightarrow> int \<Rightarrow> int option \<Rightarrow> time \<Rightarrow> job list \<Rightarrow> repo_error + bool \<times> job list" where
  "set_progress i completed total_units now t =
     (let guard = (\<lambda>j. j_id j = i \<and> j_state j \<notin> set finished_job_states);
          values = (\<lambda>j. j\<lparr>j_completed := Some completed, j_total := total_units, j_updated := now\<rparr>)
      in if list_ex (\<lambda>j. guard j \<and> \<not> job_row_ok (values j)) t then Inl IntegrityError
         else Inr (guarded_update guard values t))"

definition transient_jobs :: "job list \<Rightarrow> job list" where
  "transient_jobs t =
     sort_key (\<lambda>j. (j_created j, j_id j)) (filter (\<lambda>j. j_state j \<notin> set finished_job_states) t)"

section \<open>Laws\<close>

lemma transition_values_simps [simp]:
  "j_id (transition_values to now c d j) = j_id j"
  "j_state (transition_values to now c d j) = to"
  "j_run (transition_values to now c d j) = j_run j"
  "j_previous (transition_values to now c d j) = j_previous j"
  "j_type (transition_values to now c d j) = j_type j"
  "j_rank (transition_values to now c d j) = j_rank j"
  "j_priority (transition_values to now c d j) = j_priority j"
  "j_created (transition_values to now c d j) = j_created j"
  "j_attempt (transition_values to now c d j) = j_attempt j"
  "j_completed (transition_values to now c d j) = j_completed j"
  "j_total (transition_values to now c d j) = j_total j"
  by (simp_all add: transition_values_def Let_def)

lemma lease_values_simps [simp]:
  "j_id (lease_values ow now e j) = j_id j"
  "j_state (lease_values ow now e j) = J_RUNNING"
  "j_run (lease_values ow now e j) = j_run j"
  "j_previous (lease_values ow now e j) = j_previous j"
  "j_type (lease_values ow now e j) = j_type j"
  "j_rank (lease_values ow now e j) = j_rank j"
  "j_created (lease_values ow now e j) = j_created j"
  by (simp_all add: lease_values_def)

lemma claim_order_lease [simp]: "claim_order (lease_values ow now e j) = claim_order j"
  by (simp add: claim_order_def)

interpretation job_states: state_column j_id j_state "\<lambda>x j. j\<lparr>j_state := x\<rparr>"
  by unfold_locales auto

lemma job_transition_cas:
  "to \<noteq> J_RUNNING \<Longrightarrow> job_transition i from to now c d t =
     Inr (job_states.cas i from (transition_values to now c d) t)"
  by (simp add: job_transition_def job_states.cas_def)

lemma claim_next_None:
  "fst (claim_next w now l types t) = None \<longleftrightarrow> (\<forall>j\<in>set t. \<not> eligible types j)"
  by (auto simp: claim_next_def Let_def first_by_None filter_empty_conv eligible_def
      split: option.splits dest!: first_by_Some(1))

lemma claim_next_SomeE:
  assumes "claim_next w now l types t = (Some cj, t')"
  obtains j where "j \<in> set t" "eligible types j" "cj_id cj = j_id j" "cj_run cj = j_run j"
    "cj_type cj = j_type j" "cj_attempt cj = j_attempt j" "cj_owner cj = w" "cj_expires cj = now + l"
    "\<And>j'. j' \<in> set t \<Longrightarrow> eligible types j' \<Longrightarrow> claim_order j \<le> claim_order j'"
    "t' = tab_update (\<lambda>r. j_id r = j_id j) (lease_values w now (now + l)) t"
proof -
  from assms obtain j where j: "first_by claim_order (filter (eligible types) t) = Some j"
    and rest: "cj_id cj = j_id j" "cj_run cj = j_run j" "cj_type cj = j_type j"
      "cj_attempt cj = j_attempt j" "cj_owner cj = w" "cj_expires cj = now + l"
      "t' = tab_update (\<lambda>r. j_id r = j_id j) (lease_values w now (now + l)) t"
    by (auto simp: claim_next_def Let_def split: if_splits option.splits)
  from first_by_Some [OF j] show thesis
    by (intro that [of j] rest) auto
qed

lemma claim_next_cases:
  assumes "claim_next w now l types t = (c, t')"
  obtains (nothing) "c = None" "t' = t"
  | (claimed) j where "j \<in> set t" "eligible types j"
      "t' = tab_update (\<lambda>r. j_id r = j_id j) (lease_values w now (now + l)) t"
proof (cases c)
  case None
  with assms have "t' = t"
    by (auto simp: claim_next_def Let_def split: if_splits option.splits)
  with None show ?thesis by (rule nothing)
next
  case (Some cj)
  with assms have "claim_next w now l types t = (Some cj, t')" by simp
  then show ?thesis by (rule claim_next_SomeE) (rule claimed)
qed

lemma claim_next_keyed:
  "tab_keyed j_id (snd (claim_next w now l types t)) = tab_keyed j_id t"
  by (auto simp: claim_next_def Let_def tab_keyed_update split: option.splits)

text \<open>
  \<open>claim_next\<close> hands out a queued job of a requested type that no other eligible job precedes in
  (priority rank, creation time, id), the row becomes \<open>RUNNING\<close> under the caller's lease until
  \<open>now + lease_for\<close>, and every other row is left exactly as it was.
\<close>

theorem claim_next_takes_most_urgent:
  assumes "tab_keyed j_id t" and "claim_next owner now lease_for types t = (Some cj, t')"
  shows "\<exists>j. tab_get j_id t (cj_id cj) = Some j \<and> eligible types j \<and>
      (\<forall>j'\<in>set t. eligible types j' \<longrightarrow>
         (j_rank j, j_created j, j_id j) \<le> (j_rank j', j_created j', j_id j')) \<and>
      tab_get j_id t' (cj_id cj) = Some (j\<lparr>j_state := J_RUNNING, j_owner := Some owner,
         j_expires := Some (now + lease_for), j_heartbeat := Some now, j_started := Some now,
         j_updated := now\<rparr>) \<and>
      (\<forall>i. i \<noteq> cj_id cj \<longrightarrow> tab_get j_id t' i = tab_get j_id t i)"
proof -
  from assms(2) obtain j where j: "j \<in> set t" "eligible types j" "cj_id cj = j_id j"
    "\<And>j'. j' \<in> set t \<Longrightarrow> eligible types j' \<Longrightarrow> claim_order j \<le> claim_order j'"
    "t' = tab_update (\<lambda>r. j_id r = j_id j) (lease_values owner now (now + lease_for)) t"
    by (rule claim_next_SomeE) blast
  have get: "tab_get j_id t (j_id j) = Some j" using assms(1) j(1) by (rule tab_get_in)
  have upd: "tab_get j_id t' i =
      map_option (\<lambda>r. if j_id r = j_id j then lease_values owner now (now + lease_for) r else r)
        (tab_get j_id t i)" for i
    by (simp add: j(5) tab_get_update)
  have "tab_get j_id t' i = tab_get j_id t i" if "i \<noteq> j_id j" for i
    using that by (cases "tab_get j_id t i") (auto simp: upd dest: tab_get_SomeD)
  with get upd [of "j_id j"] j show ?thesis
    by (auto simp: claim_order_def lease_values_def intro!: exI [of _ j])
qed

text \<open>Sample rows for the witnesses: a queued source job, and a queue of two.\<close>

definition sample_job :: job where
  "sample_job = \<lparr>j_id = 9, j_type = PROCESS_SOURCE, j_run = Some 1, j_previous = None,
    j_state = J_QUEUED, j_priority = NORMAL, j_rank = 2, j_payload_version = 1, j_payload = None,
    j_mode = INDETERMINATE, j_completed = None, j_total = None, j_owner = None, j_expires = None,
    j_heartbeat = None, j_attempt = 1, j_code = None, j_detail = None, j_created = 5,
    j_updated = 5, j_started = None, j_ended = None\<rparr>"

definition sample_queue :: "job list" where
  "sample_queue = [sample_job, sample_job\<lparr>j_id := 4, j_priority := INTERACTIVE, j_rank := 0\<rparr>]"

lemma sample_queue_keyed: "tab_keyed j_id sample_queue"
  by (simp add: tab_keyed_def sample_queue_def sample_job_def)

lemma sample_queue_claim:
  "\<exists>cj t'. claim_next ''w1'' 100 30 (Some [PROCESS_SOURCE]) sample_queue = (Some cj, t') \<and> cj_id cj = 4"
  by (simp add: claim_next_def first_by_def eligible_def claim_order_def sample_queue_def
      sample_job_def Let_def)

lemma claim_next_takes_most_urgent_witness:
  "\<exists>cj t'. claim_next ''w1'' 100 30 (Some [PROCESS_SOURCE]) sample_queue = (Some cj, t') \<and>
     cj_id cj = 4 \<and> map_option j_state (tab_get j_id t' 4) = Some J_RUNNING"
proof -
  obtain cj t' where c: "claim_next ''w1'' 100 30 (Some [PROCESS_SOURCE]) sample_queue = (Some cj, t')"
    and id: "cj_id cj = 4"
    using sample_queue_claim by blast
  from claim_next_takes_most_urgent [OF sample_queue_keyed c] id
  have "map_option j_state (tab_get j_id t' 4) = Some J_RUNNING" by auto
  with c id show ?thesis by blast
qed

section \<open>Draining the queue\<close>

text \<open>Claims made one after another, at the times listed, until one finds nothing.\<close>

fun claim_many ::
  "string \<Rightarrow> time \<Rightarrow> job_type list option \<Rightarrow> time list \<Rightarrow> job list \<Rightarrow> uuid list" where
  "claim_many w l types [] t = []"
| "claim_many w l types (now # nows) t =
     (case claim_next w now l types t of
        (None, _) \<Rightarrow> []
      | (Some cj, t') \<Rightarrow> cj_id cj # claim_many w l types nows t')"

lemma claim_order_inj: "claim_order j = claim_order j' \<Longrightarrow> j_id j = j_id j'"
  by (simp add: claim_order_def)

lemma sort_claim_head:
  assumes "tab_keyed j_id t" and "j \<in> set t"
    and "\<And>j'. j' \<in> set t \<Longrightarrow> claim_order j \<le> claim_order j'"
  shows "sort_key claim_order t = j # sort_key claim_order (filter (\<lambda>r. j_id r \<noteq> j_id j) t)"
proof -
  obtain h rest where eq: "sort_key claim_order t = h # rest"
    using assms(2) by (metis list.exhaust list.set_cases set_sort)
  have "h \<in> set t" by (metis eq list.set_intros(1) set_sort)
  moreover have "claim_order h \<le> claim_order j"
    using eq assms(2) by (metis first_by_Some(2) first_by_def list.simps(5))
  ultimately have h: "h = j"
    using assms by (metis antisym claim_order_inj tab_keyed_inj)
  have "distinct (map j_id (sort_key claim_order t))"
    using assms(1) by (metis distinct_map distinct_sort set_sort tab_keyed_def)
  then have "filter (\<lambda>r. j_id r \<noteq> j_id j) (j # rest) = rest"
    by (auto simp: eq h filter_id_conv image_iff)
  then show ?thesis by (metis eq h filter_sort)
qed

text \<open>
  C7. Draining the queue is equivalent to sorting it: claims made one after another hand out every
  eligible job exactly once, in the order of (priority rank, creation time, id), whatever the
  claiming times.
\<close>

theorem claims_drain_in_order:
  assumes "tab_keyed j_id t" and "length (filter (eligible types) t) \<le> length nows"
  shows "claim_many w l types nows t = map j_id (sort_key claim_order (filter (eligible types) t))"
  using assms
proof (induction nows arbitrary: t)
  case Nil
  then show ?case by simp
next
  case (Cons now nows)
  show ?case
  proof (cases "claim_next w now l types t")
    case (Pair c t')
    show ?thesis
    proof (cases c)
      case None
      with Pair have "filter (eligible types) t = []"
        using claim_next_None [of w now l types t] by (simp add: filter_empty_conv)
      with Pair None show ?thesis by simp
    next
      case (Some cj)
      with Pair obtain j where j: "j \<in> set t" "eligible types j" "cj_id cj = j_id j"
        "\<And>j'. j' \<in> set t \<Longrightarrow> eligible types j' \<Longrightarrow> claim_order j \<le> claim_order j'"
        "t' = tab_update (\<lambda>r. j_id r = j_id j) (lease_values w now (now + l)) t"
        by (auto elim: claim_next_SomeE)
      let ?E = "filter (eligible types) t"
      have E': "filter (eligible types) t' = filter (\<lambda>r. j_id r \<noteq> j_id j) ?E"
        unfolding j(5) by (rule filter_tab_update_out) (simp add: eligible_def)
      have sorted: "sort_key claim_order ?E = j # sort_key claim_order (filter (eligible types) t')"
        unfolding E' using Cons.prems(1) j by (intro sort_claim_head) (auto intro: tab_keyed_filter)
      have "length ?E = Suc (length (filter (eligible types) t'))"
        using arg_cong [OF sorted, of length] by simp
      moreover have "tab_keyed j_id t'"
        using Cons.prems(1) by (simp add: j(5) tab_keyed_update)
      ultimately have "claim_many w l types nows t' =
          map j_id (sort_key claim_order (filter (eligible types) t'))"
        using Cons.prems(2) by (intro Cons.IH) auto
      with Pair Some sorted j(3) show ?thesis by simp
    qed
  qed
qed

lemma claims_drain_in_order_witness:
  "claim_many ''w1'' 30 None [100, 101, 102] sample_queue = [4, 9] \<and>
   map j_id (sort_key claim_order (filter (eligible None) sample_queue)) = [4, 9]"
  using claims_drain_in_order [OF sample_queue_keyed, of None "[100, 101, 102]" "''w1''" 30]
  by (simp add: sample_queue_def sample_job_def eligible_def claim_order_def)

section \<open>Leases\<close>

text \<open>
  A job has a lease (owner, expiry, heartbeat) exactly while a worker holds it, and an end time once
  it is over.
\<close>

definition lease_ok :: "job \<Rightarrow> bool" where
  "lease_ok j \<longleftrightarrow>
     (if j_state j \<in> set leased_job_states
      then j_owner j \<noteq> None \<and> j_expires j \<noteq> None \<and> j_heartbeat j \<noteq> None
      else j_owner j = None \<and> j_expires j = None \<and> j_heartbeat j = None) \<and>
     (j_state j \<in> set finished_job_states \<longrightarrow> j_ended j \<noteq> None)"

definition job_table_inv :: "job list \<Rightarrow> bool" where
  "job_table_inv t \<longleftrightarrow> tab_keyed j_id t \<and> (\<forall>j\<in>set t. job_row_ok j \<and> lease_ok j)"

text \<open>
  The steps of the \<open>jobs\<close> table: the repository's operations as the services call them. A new job is
  queued and unleased; a transition leaves no finished state, and enters \<open>PAUSING\<close> or \<open>CANCELLING\<close>
  only from a state that already holds a lease.
\<close>

definition lawful_move :: "job_state list \<Rightarrow> job_state \<Rightarrow> bool" where
  "lawful_move from to \<longleftrightarrow>
     set from \<inter> set finished_job_states = {} \<and>
     (to \<in> set leased_job_states \<longrightarrow> set from \<subseteq> set leased_job_states)"

inductive job_step :: "job list \<Rightarrow> job list \<Rightarrow> bool" where
  add: "j_state j = J_QUEUED \<Longrightarrow> lease_ok j \<Longrightarrow> job_add j t = Inr t' \<Longrightarrow> job_step t t'"
| claim: "claim_next w now l types t = (c, t') \<Longrightarrow> job_step t t'"
| move: "lawful_move from to \<Longrightarrow> job_transition i from to now code detail t = Inr (b, t') \<Longrightarrow> job_step t t'"
| progress: "set_progress i n m now t = Inr (b, t') \<Longrightarrow> job_step t t'"

inductive_cases job_stepE: "job_step t t'"

inductive job_reachable :: "job list \<Rightarrow> bool" where
  start: "job_reachable []"
| step: "job_reachable t \<Longrightarrow> job_step t t' \<Longrightarrow> job_reachable t'"

lemma lease_ok_lease_values [simp]: "lease_ok (lease_values w now e j)"
  by (simp add: lease_ok_def lease_values_def leased_job_states_def finished_job_states_def)

lemma job_row_ok_values:
  "job_row_ok (lease_values w now e j) = job_row_ok j"
  "job_row_ok (transition_values to now c d j) = job_row_ok j"
  by (simp_all add: job_row_ok_def lease_values_def)

lemma lease_ok_transition:
  assumes "lawful_move from to" and "j_state j \<in> set from" and "lease_ok j"
  shows "lease_ok (transition_values to now c d j)"
  using assms by (auto simp: lease_ok_def transition_values_def Let_def lawful_move_def)

lemma job_table_inv_update:
  assumes "job_table_inv t" and "\<And>j. j_id (f j) = j_id j"
    and "\<And>j. j \<in> set t \<Longrightarrow> p j \<Longrightarrow> job_row_ok j \<Longrightarrow> lease_ok j \<Longrightarrow> job_row_ok (f j) \<and> lease_ok (f j)"
  shows "job_table_inv (tab_update p f t)"
  using assms by (auto simp: job_table_inv_def tab_keyed_update set_tab_update)

lemma job_step_inv: "job_step t t' \<Longrightarrow> job_table_inv t \<Longrightarrow> job_table_inv t'"
proof (induction rule: job_step.induct)
  case (add j t t')
  then show ?case
    by (auto simp: job_add_def job_table_inv_def tab_keyed_append1 tab_get_None_iff split: if_splits)
next
  case (claim w now l types t c t')
  from claim.hyps show ?case
    using claim.prems
    by (cases rule: claim_next_cases) (auto intro!: job_table_inv_update simp: job_row_ok_values)
next
  case (move "from" to i now code detail t b t')
  then have "t' = tab_update (\<lambda>j. j_id j = i \<and> j_state j \<in> set from)
      (transition_values to now code detail) t"
    by (auto simp: job_transition_def guarded_update_def split: if_splits)
  with move show ?case
    by (auto intro!: job_table_inv_update simp: job_row_ok_values lease_ok_transition)
next
  case (progress i n m now t b t')
  then have "t' = tab_update (\<lambda>j. j_id j = i \<and> j_state j \<notin> set finished_job_states)
      (\<lambda>j. j\<lparr>j_completed := Some n, j_total := m, j_updated := now\<rparr>) t"
    and "\<forall>j\<in>set t. j_id j = i \<and> j_state j \<notin> set finished_job_states \<longrightarrow>
      job_row_ok (j\<lparr>j_completed := Some n, j_total := m, j_updated := now\<rparr>)"
    by (auto simp: set_progress_def guarded_update_def Let_def list_ex_iff split: if_splits)
  with progress show ?case
    by (auto intro!: job_table_inv_update simp: lease_ok_def)
qed

lemma job_reachable_inv: "job_reachable t \<Longrightarrow> job_table_inv t"
  by (induction rule: job_reachable.induct)
    (simp add: job_table_inv_def tab_keyed_def, blast intro: job_step_inv)

text \<open>A finished job is never changed again by any step.\<close>

lemma job_step_finished:
  assumes "job_step t t'" and "job_table_inv t" and "j \<in> set t" and "j_state j \<in> set finished_job_states"
  shows "j \<in> set t'"
  using assms
proof (cases rule: job_step.cases)
  case (claim w now l types c)
  from claim show ?thesis
  proof (cases rule: claim_next_cases)
    case (claimed j')
    with assms have "j_id j \<noteq> j_id j'"
      using tab_keyed_inj [of j_id t j j']
      by (auto simp: job_table_inv_def eligible_def finished_job_states_def)
    with claimed assms(3) show ?thesis by (force simp: set_tab_update)
  qed (use assms in simp)
qed (use assms in \<open>force simp: job_add_def job_transition_def set_progress_def guarded_update_def
      set_tab_update lawful_move_def Let_def split: if_splits\<close>)+



end
