(* ===== verification/RunStore.thy ===== *)
theory RunStore
  imports Jobs
begin

text \<open>
  The repositories of processing provenance: \<open>processing_runs\<close> and configuration snapshots
  (\<open>backend/app/processing/run_repository.py\<close>), execution segments and checkpoints
  (\<open>backend/app/processing/repository.py\<close>). Each operation maps its table to the new one. Shown: the
  ordinals of a run's segments and checkpoints are allocated without gaps, a run never has two
  running segments nor two valid FINAL checkpoints, and a closed segment or an invalidated
  checkpoint is never reopened.
\<close>

section \<open>Runs and snapshots\<close>

definition bump_run :: "run \<Rightarrow> run" where
  "bump_run p = p\<lparr>p_rev := p_rev p + 1\<rparr>"

interpretation run_rev: revisioned p_id p_rev bump_run
  by unfold_locales (simp_all add: bump_run_def)

definition run_update ::
  "uuid \<Rightarrow> int \<Rightarrow> (run \<Rightarrow> run) \<Rightarrow> (run \<Rightarrow> bool) \<Rightarrow> run list \<Rightarrow> nat \<times> run list" where
  "run_update = optimistic_locked_update p_id p_rev bump_run"

definition run_get :: "run list \<Rightarrow> uuid \<Rightarrow> run option" where
  "run_get t i = tab_get p_id t i"

text \<open>\<open>lock\<close> writes \<open>revision = revision\<close>: it takes the write lock and changes nothing.\<close>

definition run_lock :: "run list \<Rightarrow> uuid \<Rightarrow> run option \<times> run list" where
  "run_lock t i = (let t' = tab_update (\<lambda>p. p_id p = i) (\<lambda>p. p\<lparr>p_rev := p_rev p\<rparr>) t
                   in (run_get t' i, t'))"

definition run_add :: "run \<Rightarrow> run list \<Rightarrow> repo_error + run list" where
  "run_add p t =
     (if tab_get p_id t (p_id p) \<noteq> None \<or> list_ex (\<lambda>q. p_snapshot q = p_snapshot p) t \<or> p_rev p < 1
      then Inl IntegrityError else Inr (t @ [p]))"

definition list_transient_runs :: "run list \<Rightarrow> run list" where
  "list_transient_runs t =
     sort_key (\<lambda>p. (p_updated p, p_id p)) (filter (\<lambda>p. p_state p \<in> set transient_run_states) t)"

text \<open>
  A snapshot is inserted whole and never written again; the trigger \<open>no_replace\<close> refuses a repeated
  id. (The fingerprint column, the SHA-256 of the canonical bytes, is a diagnostic and is left out.)
\<close>

definition snapshot_create ::
  "uuid \<Rightarrow> int \<Rightarrow> json \<Rightarrow> time \<Rightarrow> string option \<Rightarrow> snapshot list \<Rightarrow> repo_error + snapshot \<times> snapshot list"
where
  "snapshot_create i version body now action t =
     (let n = \<lparr>n_id = i, n_version = version, n_json = body, n_created = now, n_action = action\<rparr>
      in if tab_get n_id t i \<noteq> None then Inl IntegrityError else Inr (n, t @ [n]))"

definition snapshot_get :: "snapshot list \<Rightarrow> uuid \<Rightarrow> snapshot option" where
  "snapshot_get t i = tab_get n_id t i"

lemma run_lock_simp [simp]: "run_lock t i = (tab_get p_id t i, t)"
proof -
  have "tab_update (\<lambda>p. p_id p = i) (\<lambda>p. p\<lparr>p_rev := p_rev p\<rparr>) t = t"
    by (rule tab_update_id) simp
  then show ?thesis by (simp add: run_lock_def run_get_def)
qed

section \<open>Segments\<close>

text \<open>\<open>coalesce(max(ordinal), -1) + 1\<close> over the rows of the run.\<close>

fun sql_max :: "int list \<Rightarrow> int option" where
  "sql_max [] = None"
| "sql_max (x # xs) = (case sql_max xs of None \<Rightarrow> Some x | Some m \<Rightarrow> Some (max x m))"

definition next_ordinal :: "('r \<Rightarrow> uuid) \<Rightarrow> ('r \<Rightarrow> int) \<Rightarrow> uuid \<Rightarrow> 'r list \<Rightarrow> int" where
  "next_ordinal run_of ordinal i t =
     (case sql_max (map ordinal (filter (\<lambda>r. run_of r = i) t)) of None \<Rightarrow> -1 | Some m \<Rightarrow> m) + 1"

definition segment_get :: "segment list \<Rightarrow> uuid \<Rightarrow> segment option" where
  "segment_get t i = tab_get g_id t i"

definition segment_append ::
  "uuid \<Rightarrow> uuid \<Rightarrow> uuid option \<Rightarrow> json \<Rightarrow> time \<Rightarrow> segment list \<Rightarrow> repo_error + segment \<times> segment list"
where
  "segment_append run_id segment_id variant details now t =
     (let g = \<lparr>g_id = segment_id, g_run = run_id, g_variant = variant,
               g_ordinal = next_ordinal g_run g_ordinal run_id t, g_state = G_RUNNING,
               g_started = now, g_ended = None, g_reason = None, g_details = details,
               g_created = now\<rparr>
      in if tab_get g_id t segment_id \<noteq> None
            \<or> list_ex (\<lambda>h. g_run h = run_id \<and> g_state h = G_RUNNING) t
         then Inl IntegrityError else Inr (g, t @ [g]))"

definition segments_for_run :: "uuid \<Rightarrow> segment list \<Rightarrow> segment list" where
  "segments_for_run run_id t = sort_key g_ordinal (filter (\<lambda>g. g_run g = run_id) t)"

definition closed_segment_states :: "segment_state list" where
  "closed_segment_states = [G_COMPLETED, G_FAILED, G_INTERRUPTED, G_ABANDONED]"

definition segment_close ::
  "uuid \<Rightarrow> segment_state \<Rightarrow> segment_end option \<Rightarrow> time \<Rightarrow> segment list \<Rightarrow> repo_error + bool \<times> segment list"
where
  "segment_close i to reason now t =
     (if to \<notin> set closed_segment_states then Inl ValueError
      else Inr (guarded_update (\<lambda>g. g_id g = i \<and> g_state g = G_RUNNING)
                  (\<lambda>g. g\<lparr>g_state := to, g_reason := reason, g_ended := Some now\<rparr>) t))"

section \<open>Checkpoints\<close>

definition checkpoint_get :: "checkpoint list \<Rightarrow> uuid \<Rightarrow> checkpoint option" where
  "checkpoint_get t i = tab_get k_id t i"

definition valid_final :: "uuid \<Rightarrow> checkpoint \<Rightarrow> bool" where
  "valid_final run_id k \<longleftrightarrow> k_run k = run_id \<and> k_kind k = K_FINAL \<and> k_state k = K_VALID"

definition checkpoint_append ::
  "uuid \<Rightarrow> uuid \<Rightarrow> uuid option \<Rightarrow> checkpoint_kind \<Rightarrow> int \<Rightarrow> json \<Rightarrow> time \<Rightarrow> checkpoint list
   \<Rightarrow> repo_error + checkpoint \<times> checkpoint list" where
  "checkpoint_append run_id i segment_id kind version payload now t =
     (let k = \<lparr>k_id = i, k_run = run_id, k_segment = segment_id,
               k_ordinal = next_ordinal k_run k_ordinal run_id t, k_kind = kind, k_state = K_VALID,
               k_version = version, k_payload = payload, k_created = now, k_invalidated = None,
               k_reason = None\<rparr>
      in if tab_get k_id t i \<noteq> None \<or> (kind = K_FINAL \<and> list_ex (valid_final run_id) t)
         then Inl IntegrityError else Inr (k, t @ [k]))"

definition latest_valid :: "uuid \<Rightarrow> int option \<Rightarrow> checkpoint list \<Rightarrow> checkpoint option" where
  "latest_valid run_id before t =
     first_by (\<lambda>k. - k_ordinal k)
       (filter (\<lambda>k. k_run k = run_id \<and> k_state k = K_VALID \<and>
                    (case before of None \<Rightarrow> True | Some b \<Rightarrow> k_ordinal k < b)) t)"

definition final_valid :: "uuid \<Rightarrow> checkpoint list \<Rightarrow> checkpoint option" where
  "final_valid run_id t = find (valid_final run_id) t"

definition checkpoint_invalidate ::
  "uuid \<Rightarrow> string \<Rightarrow> time \<Rightarrow> checkpoint list \<Rightarrow> bool \<times> checkpoint list" where
  "checkpoint_invalidate i reason now t =
     guarded_update (\<lambda>k. k_id k = i \<and> k_state k = K_VALID)
       (\<lambda>k. k\<lparr>k_state := K_INVALIDATED, k_invalidated := Some now, k_reason := Some reason\<rparr>) t"

section \<open>Laws\<close>

lemma sql_max_None [simp]: "sql_max xs = None \<longleftrightarrow> xs = []"
  by (cases xs) (auto split: option.splits)

lemma sql_max_Some: "sql_max xs = Some m \<Longrightarrow> m \<in> set xs \<and> (\<forall>x\<in>set xs. x \<le> m)"
proof (induction xs arbitrary: m)
  case (Cons x xs)
  then show ?case
    by (cases "sql_max xs") (auto simp: max_def split: if_splits)
qed simp

text \<open>The ordinals of each run are \<open>0, 1, ..., n - 1\<close> in the order of insertion.\<close>

definition ordinals_dense :: "('r \<Rightarrow> uuid) \<Rightarrow> ('r \<Rightarrow> int) \<Rightarrow> 'r list \<Rightarrow> bool" where
  "ordinals_dense run_of ordinal t \<longleftrightarrow>
     (\<forall>i. map ordinal (filter (\<lambda>r. run_of r = i) t) =
          map int [0..<length (filter (\<lambda>r. run_of r = i) t)])"

lemma sql_max_upto: "0 < n \<Longrightarrow> sql_max (map int [0..<n]) = Some (int n - 1)"
proof -
  assume n: "0 < n"
  then obtain m where m: "sql_max (map int [0..<n]) = Some m"
    using sql_max_None [of "map int [0..<n]"] by (cases "sql_max (map int [0..<n])") auto
  have "m < int n" "\<forall>k<n. int k \<le> m" using sql_max_Some [OF m] by auto
  moreover have "int (n - 1) \<le> m" using \<open>\<forall>k<n. int k \<le> m\<close> n by (meson diff_less zero_less_one)
  ultimately have "m = int n - 1" using n by (simp add: of_nat_diff)
  with m show ?thesis by simp
qed

lemma next_ordinal_dense:
  assumes "ordinals_dense run_of ordinal t"
  shows "next_ordinal run_of ordinal i t = int (length (filter (\<lambda>r. run_of r = i) t))"
proof (cases "filter (\<lambda>r. run_of r = i) t = []")
  case False
  then show ?thesis
    using assms sql_max_upto [of "length (filter (\<lambda>r. run_of r = i) t)"]
    by (simp add: next_ordinal_def ordinals_dense_def)
qed (simp add: next_ordinal_def)

lemma ordinals_dense_append:
  assumes "ordinals_dense run_of ordinal t" and "ordinal r = next_ordinal run_of ordinal (run_of r) t"
  shows "ordinals_dense run_of ordinal (t @ [r])"
  using assms next_ordinal_dense [OF assms(1)] by (auto simp: ordinals_dense_def)

lemma ordinals_dense_update:
  assumes "ordinals_dense run_of ordinal t"
    and "\<And>r. run_of (f r) = run_of r \<and> ordinal (f r) = ordinal r"
  shows "ordinals_dense run_of ordinal (tab_update p f t)"
proof -
  have eq: "map ordinal (filter (\<lambda>r. run_of r = i) (tab_update p f t)) =
      map ordinal (filter (\<lambda>r. run_of r = i) t)" for i
    using assms(2) by (induction t) auto
  then have "length (filter (\<lambda>r. run_of r = i) (tab_update p f t)) =
      length (filter (\<lambda>r. run_of r = i) t)" for i
    by (metis length_map)
  with eq assms(1) show ?thesis by (simp add: ordinals_dense_def)
qed

text \<open>What the UNIQUE indexes of the two tables say, with the ordinals dense.\<close>

definition segments_inv :: "segment list \<Rightarrow> bool" where
  "segments_inv t \<longleftrightarrow> tab_keyed g_id t \<and> ordinals_dense g_run g_ordinal t \<and>
     unique_where (\<lambda>g. g_state g = G_RUNNING) g_run t"

definition checkpoints_inv :: "checkpoint list \<Rightarrow> bool" where
  "checkpoints_inv t \<longleftrightarrow> tab_keyed k_id t \<and> ordinals_dense k_run k_ordinal t \<and>
     unique_where (\<lambda>k. k_kind k = K_FINAL \<and> k_state k = K_VALID) k_run t"

lemma segment_append_inv:
  assumes "segments_inv t" and "segment_append p i v d now t = Inr (g, t')"
  shows "segments_inv t' \<and> t' = t @ [g] \<and> g_run g = p \<and> g_id g = i \<and> g_state g = G_RUNNING"
  using assms
  by (auto simp: segment_append_def segments_inv_def Let_def tab_keyed_append1 tab_get_None_iff
      unique_where_append1 list_ex_iff intro!: ordinals_dense_append split: if_splits)

lemma segments_update_inv:
  assumes "segments_inv t"
    and "\<And>g. g_id (f g) = g_id g \<and> g_run (f g) = g_run g \<and> g_ordinal (f g) = g_ordinal g \<and> g_state (f g) \<noteq> G_RUNNING"
  shows "segments_inv (tab_update p f t)"
  using assms unfolding segments_inv_def
  by (auto intro!: ordinals_dense_update unique_where_update simp: tab_keyed_update)

lemma segment_close_inv:
  "segments_inv t \<Longrightarrow> segment_close i to r now t = Inr (b, t') \<Longrightarrow> segments_inv t'"
  by (auto simp: segment_close_def guarded_update_def closed_segment_states_def split: if_splits
      intro!: segments_update_inv)

lemma checkpoint_append_inv:
  assumes "checkpoints_inv t" and "checkpoint_append p i s kd v d now t = Inr (k, t')"
  shows "checkpoints_inv t' \<and> t' = t @ [k] \<and> k_run k = p \<and> k_id k = i \<and> k_state k = K_VALID \<and> k_kind k = kd"
  using assms
  by (auto simp: checkpoint_append_def checkpoints_inv_def Let_def tab_keyed_append1 tab_get_None_iff
      unique_where_append1 list_ex_iff valid_final_def intro!: ordinals_dense_append split: if_splits)

lemma checkpoint_invalidate_inv:
  "checkpoints_inv t \<Longrightarrow> checkpoint_invalidate i r now t = (b, t') \<Longrightarrow> checkpoints_inv t'"
  unfolding checkpoints_inv_def
  by (auto simp: checkpoint_invalidate_def guarded_update_def tab_keyed_update
      intro!: ordinals_dense_update unique_where_update)

text \<open>The one valid FINAL checkpoint, once appended, is what \<open>final_valid\<close> finds.\<close>

lemma final_valid_unique:
  assumes "checkpoints_inv t" and "k \<in> set t" and "valid_final p k"
  shows "final_valid p t = Some k"
proof -
  have "find (\<lambda>r'. k_run r' = k_run k \<and> k_kind r' = K_FINAL \<and> k_state r' = K_VALID) t = Some k"
    using assms by (intro unique_where_find) (auto simp: checkpoints_inv_def valid_final_def)
  moreover have "(\<lambda>r'. k_run r' = k_run k \<and> k_kind r' = K_FINAL \<and> k_state r' = K_VALID) = valid_final p"
    using assms(3) by (auto simp: valid_final_def)
  ultimately show ?thesis by (simp add: final_valid_def)
qed

lemma final_valid_Some: "final_valid p t = Some k \<Longrightarrow> k \<in> set t \<and> valid_final p k"
  by (auto simp: final_valid_def find_Some_iff)

end
