(* ===== verification/Runs.thy ===== *)
theory Runs
  imports RunStore
begin

text \<open>
  The life of a source-processing attempt, a job and its run moved together: requesting one
  (\<open>processing/process_source.py\<close>), claiming and starting it (\<open>processing/scheduler.py\<close>), the request
  to cancel it (\<open>processing/cancel.py\<close>), the settlements of the executor
  (\<open>processing/execute_job.py\<close>: \<open>_finalize\<close>, \<open>_cancel\<close>, \<open>_fail\<close>), the last writes of acceptance and
  of a refused FINAL (\<open>processing/accept_run.py\<close>, \<open>processing/runner.py\<close>), what startup recovery does
  to work a crash left behind (\<open>recovery/startup.py\<close>), and retrying it as a new job and run
  (\<open>processing/retry.py\<close>). Each operation is one write transaction on the database: an exception is
  \<open>Inl\<close> and nothing is written. The theorems are about every interleaving of these transactions:
  a job and its run always agree, a run is executed by one segment at a time, and an attempt that is
  over is never changed again.
\<close>

datatype run_error =
    Repo repo_error
  | AssertionError
  | MultipleResults
  | RunNotFound uuid
  | CannotCancel uuid run_state
  | UnknownSource uuid
  | NotAnImage uuid
  | SourceNotActive uuid
  | OriginalNotAvailable uuid
  | UnknownPriority string
  | ConfigurationRefused
  | NotASourceJob uuid
  | JobNotRetryable uuid job_state
  | RunNotRetryable uuid run_state
  | AlreadyRetried uuid
  | ExecutionError string
  | Acceptance string

abbreviation lift_repo :: "repo_error + 'a \<Rightarrow> run_error + 'a" where
  "lift_repo \<equiv> map_sum Repo id"

section \<open>Requesting\<close>

definition require_processable_image :: "uuid \<Rightarrow> db \<Rightarrow> run_error + unit" where
  "require_processable_image source_id s =
     (case tab_get c_id (sources s) source_id of
        None \<Rightarrow> Inl (UnknownSource source_id)
      | Some c \<Rightarrow>
          (case tab_get f_id (artifacts s) (c_original c) of
             None \<Rightarrow> Inl (UnknownSource source_id)
           | Some f \<Rightarrow>
               if c_kind c \<noteq> S_IMAGE then Inl (NotAnImage source_id)
               else if c_state c \<noteq> S_ACTIVE then Inl (SourceNotActive source_id)
               else if f_state f \<noteq> A_AVAILABLE then Inl (OriginalNotAvailable source_id)
               else Inr ()))"

definition priority_of :: "string \<Rightarrow> job_priority option" where
  "priority_of name =
     map_of [(''INTERACTIVE'', INTERACTIVE), (''HIGH'', HIGH), (''NORMAL'', NORMAL), (''LOW'', LOW),
             (''MAINTENANCE'', MAINTENANCE)] name"

record scheduled =
  sc_source :: uuid
  sc_run :: uuid
  sc_job :: uuid

definition pending_run :: "uuid \<Rightarrow> uuid \<Rightarrow> uuid \<Rightarrow> uuid option \<Rightarrow> time \<Rightarrow> run" where
  "pending_run i source_id snapshot_id parent now =
     \<lparr>p_id = i, p_source = source_id, p_snapshot = snapshot_id, p_parent = parent,
      p_state = P_PENDING, p_requested = now, p_started = None, p_completed = None, p_failed = None,
      p_code = None, p_detail = None, p_checkpoint = None, p_rev = 1, p_created = now,
      p_updated = now\<rparr>"

definition queued_job ::
  "uuid \<Rightarrow> uuid \<Rightarrow> uuid option \<Rightarrow> job_priority \<Rightarrow> int \<Rightarrow> json option \<Rightarrow> progress_mode \<Rightarrow> int \<Rightarrow> time \<Rightarrow> job"
where
  "queued_job i run_id previous priority version payload mode attempt now =
     \<lparr>j_id = i, j_type = PROCESS_SOURCE, j_run = Some run_id, j_previous = previous,
      j_state = J_QUEUED, j_priority = priority, j_rank = priority_rank priority,
      j_payload_version = version, j_payload = payload, j_mode = mode, j_completed = None,
      j_total = None, j_owner = None, j_expires = None, j_heartbeat = None, j_attempt = attempt,
      j_code = None, j_detail = None, j_created = now, j_updated = now, j_started = None,
      j_ended = None\<rparr>"

text \<open>
  The three inserts that a first request and a retry share: a snapshot, a \<open>PENDING\<close> run that freezes
  it, and a \<open>QUEUED\<close> job that names the run. \<open>ids 0\<close>, \<open>ids 1\<close> and \<open>ids 2\<close> are their new ids.
\<close>

definition insert_attempt ::
  "id_supply \<Rightarrow> time \<Rightarrow> uuid \<Rightarrow> int \<Rightarrow> json \<Rightarrow> string option \<Rightarrow> uuid option \<Rightarrow> (uuid \<Rightarrow> uuid \<Rightarrow> job) \<Rightarrow> db
   \<Rightarrow> run_error + scheduled \<times> db" where
  "insert_attempt ids now source_id version body action parent job_for s =
     bindE (lift_repo (snapshot_create (ids 0) version body now action (snapshots s)))
       (\<lambda>(n, snapshots').
     bindE (lift_repo (run_add (pending_run (ids 1) source_id (n_id n) parent now) (runs s)))
       (\<lambda>runs'.
     bindE (lift_repo (job_add (job_for (ids 2) (ids 1)) (jobs s)))
       (\<lambda>jobs'.
     Inr (\<lparr>sc_source = source_id, sc_run = ids 1, sc_job = ids 2\<rparr>,
          s\<lparr>snapshots := snapshots', runs := runs', jobs := jobs'\<rparr>))))"

text \<open>
  \<open>ProcessSourceUseCase._schedule\<close>. \<open>resolved\<close> is the outcome of \<open>resolve(session, request)\<close>
  (\<open>processing/configuration.py\<close>): the canonical configuration, or \<open>None\<close> where the request is refused.
\<close>

definition schedule_source ::
  "id_supply \<Rightarrow> time \<Rightarrow> uuid \<Rightarrow> string \<Rightarrow> json option \<Rightarrow> string option \<Rightarrow> db \<Rightarrow> run_error + scheduled \<times> db"
where
  "schedule_source ids now source_id priority resolved action s =
     bindE (require_processable_image source_id s) (\<lambda>_.
       case priority_of priority of
         None \<Rightarrow> Inl (UnknownPriority priority)
       | Some pr \<Rightarrow>
           (case resolved of
              None \<Rightarrow> Inl ConfigurationRefused
            | Some body \<Rightarrow>
                insert_attempt ids now source_id 1 body action None
                  (\<lambda>i run_id. queued_job i run_id None pr 1 None INDETERMINATE 1 now) s))"

section \<open>Claiming and starting\<close>

record started =
  st_job :: claimed_job
  st_segment :: uuid

definition claim_fail ::
  "claimed_job \<Rightarrow> time \<Rightarrow> string \<Rightarrow> db \<Rightarrow> run_error + started option \<times> db" where
  "claim_fail cj now code s =
     bindE (lift_repo (job_transition (cj_id cj) [J_RUNNING] J_FAILED now (Some code)
              (Some ''the claimed job cannot start a pending processing run'') (jobs s)))
       (\<lambda>(changed, jobs'). if changed then Inr (None, s\<lparr>jobs := jobs'\<rparr>) else Inl AssertionError)"

definition start_run ::
  "claimed_job \<Rightarrow> run \<Rightarrow> time \<Rightarrow> uuid \<Rightarrow> db \<Rightarrow> run_error + started option \<times> db" where
  "start_run cj p now segment_id s =
     (case run_update (p_id p) (p_rev p)
             (\<lambda>r. r\<lparr>p_state := P_RUNNING, p_started := Some now, p_updated := now\<rparr>)
             (\<lambda>r. p_state r = P_PENDING) (runs s) of
        (changed, runs') \<Rightarrow>
          if changed \<noteq> 1 then Inl AssertionError
          else bindE (lift_repo (segment_append (p_id p) segment_id None
                        (JObj [(''schema_version'', JInt 1)]) now (segments s)))
                 (\<lambda>(g, segments').
                    Inr (Some \<lparr>st_job = cj, st_segment = g_id g\<rparr>,
                         s\<lparr>runs := runs', segments := segments'\<rparr>)))"

definition claim_source_job ::
  "string \<Rightarrow> time \<Rightarrow> time \<Rightarrow> uuid \<Rightarrow> db \<Rightarrow> run_error + started option \<times> db" where
  "claim_source_job owner now lease_for segment_id s =
     (if owner = [] then Inl (Repo ValueError)
      else case claim_next owner now lease_for (Some [PROCESS_SOURCE]) (jobs s) of
        (None, jobs') \<Rightarrow> Inr (None, s\<lparr>jobs := jobs'\<rparr>)
      | (Some cj, jobs') \<Rightarrow>
          (let s1 = s\<lparr>jobs := jobs'\<rparr> in
           case cj_run cj of
             None \<Rightarrow> claim_fail cj now ''PROCESSING_RUN_MISSING'' s1
           | Some run_id \<Rightarrow>
               (case run_lock (runs s1) run_id of
                  (None, _) \<Rightarrow> claim_fail cj now ''PROCESSING_RUN_NOT_PENDING'' s1
                | (Some p, runs') \<Rightarrow>
                    if p_state p \<noteq> P_PENDING
                    then claim_fail cj now ''PROCESSING_RUN_NOT_PENDING'' s1
                    else start_run cj p now segment_id (s1\<lparr>runs := runs'\<rparr>))))"

section \<open>Requesting a cancellation\<close>

datatype cancel_outcome = CANCELLED | REQUESTED | ALREADY

definition cancel_settle ::
  "run \<Rightarrow> job \<Rightarrow> job_state \<Rightarrow> job_state \<Rightarrow> run_state \<Rightarrow> time \<Rightarrow> db \<Rightarrow> run_error + db" where
  "cancel_settle p j job_from job_to run_to now s =
     bindE (lift_repo (job_transition (j_id j) [job_from] job_to now None None (jobs s)))
       (\<lambda>(moved, jobs').
          case run_update (p_id p) (p_rev p) (\<lambda>r. r\<lparr>p_state := run_to, p_updated := now\<rparr>) (\<lambda>_. True)
                 (runs s) of
            (updated, runs') \<Rightarrow>
              if moved \<and> updated = 1 then Inr (s\<lparr>jobs := jobs', runs := runs'\<rparr>)
              else Inl AssertionError)"

text \<open>\<open>.one_or_none()\<close> raises when two rows match.\<close>

definition one_or_none :: "'r list \<Rightarrow> run_error + 'r option" where
  "one_or_none rows =
     (case rows of [] \<Rightarrow> Inr None | [r] \<Rightarrow> Inr (Some r) | _ \<Rightarrow> Inl MultipleResults)"

definition cancel_run :: "uuid \<Rightarrow> time \<Rightarrow> db \<Rightarrow> run_error + cancel_outcome \<times> db" where
  "cancel_run run_id now s =
     (case run_lock (runs s) run_id of
        (None, _) \<Rightarrow> Inl (RunNotFound run_id)
      | (Some p, runs') \<Rightarrow>
          (let s1 = s\<lparr>runs := runs'\<rparr> in
           if p_state p \<in> {P_CANCELLING, P_CANCELLED} then Inr (ALREADY, s1)
           else bindE (one_or_none (filter (\<lambda>j. j_run j = Some run_id) (jobs s1)))
             (\<lambda>found.
                case found of
                  None \<Rightarrow> Inl (CannotCancel run_id (p_state p))
                | Some j \<Rightarrow>
                    if j_state j = J_QUEUED
                    then map_sum id (Pair CANCELLED)
                           (cancel_settle p j J_QUEUED J_CANCELLED P_CANCELLED now s1)
                    else if p_state p = P_RUNNING \<and> j_state j = J_RUNNING
                    then map_sum id (Pair REQUESTED)
                           (cancel_settle p j J_RUNNING J_CANCELLING P_CANCELLING now s1)
                    else Inl (CannotCancel run_id (p_state p)))))"

section \<open>Settling the executor's work\<close>

text \<open>
  \<open>_input\<close> and \<open>_revalidate_settlement_context\<close>: everything the claim rests on is read again in the
  transaction that writes. A claim whose run was cancelled or interrupted meanwhile writes nothing.
\<close>

definition executor_input :: "started \<Rightarrow> run_state list \<Rightarrow> db \<Rightarrow> run_error + run" where
  "executor_input st run_states s =
     (case cj_run (st_job st) of
        None \<Rightarrow> Inl (ExecutionError ''the claimed job has no processing run'')
      | Some run_id \<Rightarrow>
          (case tab_get p_id (runs s) run_id of
             None \<Rightarrow> Inl (ExecutionError ''the processing run/source/original is missing'')
           | Some p \<Rightarrow>
               (case (snapshot_get (snapshots s) (p_snapshot p), tab_get c_id (sources s) (p_source p)) of
                  (Some _, Some c) \<Rightarrow>
                    (case tab_get f_id (artifacts s) (c_original c) of
                       None \<Rightarrow> Inl (ExecutionError ''the processing run/source/original is missing'')
                     | Some f \<Rightarrow>
                         if p_state p \<notin> set run_states
                         then Inl (ExecutionError ''the processing run is not RUNNING'')
                         else if c_kind c \<noteq> S_IMAGE \<or> c_state c \<noteq> S_ACTIVE
                         then Inl (ExecutionError ''the source is no longer an active image'')
                         else if f_state f \<noteq> A_AVAILABLE
                         then Inl (ExecutionError ''the source original is not available'')
                         else Inr p)
                | _ \<Rightarrow> Inl (ExecutionError ''the processing run/source/original is missing''))))"

definition settlement_context :: "started \<Rightarrow> bool \<Rightarrow> db \<Rightarrow> run_error + run \<times> segment \<times> job" where
  "settlement_context st allow_cancelling s =
     bindE (executor_input st (if allow_cancelling then [P_RUNNING, P_CANCELLING] else [P_RUNNING]) s)
       (\<lambda>p. case segment_get (segments s) (st_segment st) of
          None \<Rightarrow> Inl (ExecutionError ''the execution segment is no longer running'')
        | Some g \<Rightarrow>
            if g_run g \<noteq> p_id p \<or> g_state g \<noteq> G_RUNNING
            then Inl (ExecutionError ''the execution segment is no longer running'')
            else (case job_get (jobs s) (cj_id (st_job st)) of
                    None \<Rightarrow> Inl (ExecutionError ''the processing job is no longer running'')
                  | Some j \<Rightarrow>
                      if j_run j \<noteq> Some (p_id p) \<or>
                         j_state j \<notin> (if allow_cancelling then {J_RUNNING, J_CANCELLING} else {J_RUNNING})
                      then Inl (ExecutionError ''the processing job is no longer running'')
                      else Inr (p, g, j)))"

text \<open>
  \<open>_finalize\<close>: the FINAL checkpoint naming the private output, the segment closed, the run
  \<open>FINALIZING\<close>. The job stays \<open>RUNNING\<close> until acceptance. \<open>entries\<close> are the decisions' JSON
  objects; \<open>clk n\<close> is the \<open>n\<close>-th call of the clock.
\<close>

definition final_payload :: "uuid list \<Rightarrow> json list \<Rightarrow> json" where
  "final_payload obs_ids entries =
     JObj [(''schema_version'', JInt 1), (''observations'', JList (map JUuid obs_ids)),
           (''decisions'', JList entries)]"

definition finalize ::
  "started \<Rightarrow> uuid list \<Rightarrow> json list \<Rightarrow> uuid \<Rightarrow> (nat \<Rightarrow> time) \<Rightarrow> db \<Rightarrow> run_error + uuid \<times> db" where
  "finalize st obs_ids entries new_id clk s =
     bindE (settlement_context st False s) (\<lambda>(p, g, _).
     bindE (lift_repo (checkpoint_append (p_id p) new_id (Some (g_id g)) K_FINAL 1
              (final_payload obs_ids entries) (clk 0) (checkpoints s))) (\<lambda>(k, checkpoints').
     bindE (lift_repo (segment_close (g_id g) G_COMPLETED (Some END_NORMAL) (clk 1) (segments s)))
       (\<lambda>(closed, segments').
     if \<not> closed then Inl (ExecutionError ''the execution segment could not close'')
     else case run_update (p_id p) (p_rev p)
                 (\<lambda>r. r\<lparr>p_state := P_FINALIZING, p_checkpoint := Some (k_id k), p_updated := clk 2\<rparr>)
                 (\<lambda>r. p_state r = P_RUNNING) (runs s) of
            (changed, runs') \<Rightarrow>
              if changed \<noteq> 1
              then Inl (ExecutionError ''the processing run changed while finalizing'')
              else Inr (k_id k, s\<lparr>checkpoints := checkpoints', segments := segments', runs := runs'\<rparr>))))"

text \<open>
  The common shape of \<open>_cancel\<close> and of the \<open>settle\<close> of \<open>_fail\<close>: under the run's lock, close the
  segment of this claim if it is still running, and if that closed it and the run is in one of
  \<open>run_from\<close>, move run and job together. Where the claim no longer holds, nothing is moved.
\<close>

definition settle_claim ::
  "started \<Rightarrow> job_state list \<Rightarrow> run_state list \<Rightarrow> segment_state \<Rightarrow> segment_end option
   \<Rightarrow> (run \<Rightarrow> run) \<Rightarrow> job_state \<Rightarrow> string option \<Rightarrow> string option \<Rightarrow> string \<Rightarrow> time \<Rightarrow> db
   \<Rightarrow> run_error + db" where
  "settle_claim st job_from run_from seg_to reason run_values job_to code detail changed_message now s =
     (case cj_run (st_job st) of
        None \<Rightarrow> Inr s
      | Some run_id \<Rightarrow>
          (case (tab_get p_id (runs s) run_id, job_get (jobs s) (cj_id (st_job st))) of
             (Some p, Some j) \<Rightarrow>
               if j_run j = Some (p_id p) \<and> j_state j \<in> set job_from then
                 (case segment_get (segments s) (st_segment st) of
                    Some g \<Rightarrow>
                      if g_run g = p_id p then
                        bindE (lift_repo (segment_close (g_id g) seg_to reason now (segments s)))
                          (\<lambda>(closed, segments').
                           let s1 = s\<lparr>segments := segments'\<rparr> in
                           if closed \<and> p_state p \<in> set run_from then
                             (case run_update (p_id p) (p_rev p) run_values
                                     (\<lambda>r. p_state r \<in> set run_from) (runs s1) of
                                (n, runs') \<Rightarrow>
                                  if n = 1 then
                                    bindE (lift_repo (job_transition (cj_id (st_job st)) job_from job_to
                                             now code detail (jobs s1)))
                                      (\<lambda>(moved, jobs').
                                         if moved then Inr (s1\<lparr>runs := runs', jobs := jobs'\<rparr>)
                                         else Inl (ExecutionError changed_message))
                                  else Inr s1)
                           else Inr s1)
                      else Inr s
                  | None \<Rightarrow> Inr s)
               else Inr s
           | _ \<Rightarrow> Inr s))"

definition executor_cancel :: "started \<Rightarrow> time \<Rightarrow> db \<Rightarrow> run_error + db" where
  "executor_cancel st now s =
     settle_claim st [J_RUNNING, J_CANCELLING] [P_RUNNING, P_CANCELLING] G_COMPLETED
       (Some END_CANCELLED) (\<lambda>r. r\<lparr>p_state := P_CANCELLED, p_updated := now\<rparr>) J_CANCELLED None None
       ''the processing job changed while cancelling'' now s"

definition cancellation_requested :: "started \<Rightarrow> db \<Rightarrow> bool" where
  "cancellation_requested st s \<longleftrightarrow>
     (case job_get (jobs s) (cj_id (st_job st)) of None \<Rightarrow> False | Some j \<Rightarrow> j_state j = J_CANCELLING) \<or>
     (case cj_run (st_job st) of None \<Rightarrow> False
      | Some run_id \<Rightarrow> (case tab_get p_id (runs s) run_id of None \<Rightarrow> False
                        | Some p \<Rightarrow> p_state p = P_CANCELLING))"

text \<open>\<open>_fail\<close> is best effort: an error of its settlement is swallowed with its writes.\<close>

definition executor_fail :: "started \<Rightarrow> string \<Rightarrow> time \<Rightarrow> db \<Rightarrow> db" where
  "executor_fail st code now s =
     (case settle_claim st [J_RUNNING] [P_RUNNING] G_FAILED None
        (\<lambda>r. r\<lparr>p_state := P_FAILED, p_failed := Some now, p_updated := now, p_code := Some code,
             p_detail := Some ''source processing failed''\<rparr>)
        J_FAILED (Some code) (Some ''source processing failed'')
        ''the processing job changed while failing'' now s of
        Inl _ \<Rightarrow> s | Inr s' \<Rightarrow> s')"

section \<open>Acceptance, and a FINAL that is refused\<close>

text \<open>The last two writes of \<open>_accept\<close>: the run \<open>COMPLETED\<close> and its job with it.\<close>

definition accept_settle :: "run \<Rightarrow> job \<Rightarrow> time \<Rightarrow> db \<Rightarrow> run_error + db" where
  "accept_settle p j now s =
     (case run_update (p_id p) (p_rev p)
             (\<lambda>r. r\<lparr>p_state := P_COMPLETED, p_completed := Some now, p_updated := now\<rparr>)
             (\<lambda>r. p_state r = P_FINALIZING) (runs s) of
        (changed, runs') \<Rightarrow>
          if changed \<noteq> 1 then Inl (Acceptance ''processing run changed while accepting'')
          else bindE (lift_repo (job_transition (j_id j) [J_RUNNING] J_COMPLETED now None None (jobs s)))
                 (\<lambda>(moved, jobs').
                    if moved then Inr (s\<lparr>runs := runs', jobs := jobs'\<rparr>)
                    else Inl (Acceptance ''processing job changed while accepting'')))"

definition mark_run_not_resumable :: "uuid \<Rightarrow> string \<Rightarrow> time \<Rightarrow> db \<Rightarrow> db" where
  "mark_run_not_resumable run_id detail now s =
     s\<lparr>runs := tab_update (\<lambda>p. p_id p = run_id \<and> p_state p = P_FINALIZING)
        (\<lambda>p. p\<lparr>p_state := P_NOT_RESUMABLE, p_rev := p_rev p + 1,
               p_code := Some ''FINAL_NOT_ACCEPTABLE'', p_detail := Some detail, p_updated := now\<rparr>)
        (runs s)\<rparr>"

text \<open>\<open>ProcessingRunner._refuse_final\<close>; the result of the job's transition is not looked at.\<close>

definition runner_refuse_final :: "uuid \<Rightarrow> uuid \<Rightarrow> string \<Rightarrow> time \<Rightarrow> db \<Rightarrow> run_error + db" where
  "runner_refuse_final run_id job_id detail now s =
     (let s1 = mark_run_not_resumable run_id detail now s in
      bindE (lift_repo (job_transition job_id [J_RUNNING] J_FAILED now (Some ''FINAL_NOT_ACCEPTABLE'')
               (Some ''the FINAL checkpoint was not acceptable'') (jobs s1)))
        (\<lambda>(_, jobs'). Inr (s1\<lparr>jobs := jobs'\<rparr>)))"

section \<open>Startup recovery of work in flight\<close>

text \<open>\<open>UPDATE ... WHERE ... RETURNING id\<close>.\<close>

definition update_returning :: "('r \<Rightarrow> uuid) \<Rightarrow> ('r \<Rightarrow> bool) \<Rightarrow> ('r \<Rightarrow> 'r) \<Rightarrow> 'r list \<Rightarrow> uuid list \<times> 'r list" where
  "update_returning key p f t = (map key (filter p t), tab_update p f t)"

record interrupted_work =
  iw_jobs :: "uuid list"
  iw_runs :: "uuid list"
  iw_segments :: "uuid list"
  iw_leases_cleared :: "uuid list"
  iw_jobs_paused :: "uuid list"
  iw_jobs_cancelled :: "uuid list"
  iw_runs_paused :: "uuid list"
  iw_runs_cancelled :: "uuid list"

definition move_jobs :: "job_state \<Rightarrow> job_state \<Rightarrow> time \<Rightarrow> job list \<Rightarrow> uuid list \<times> job list" where
  "move_jobs from to now =
     update_returning j_id (\<lambda>j. j_state j = from)
       (\<lambda>j. let j1 = j\<lparr>j_state := to, j_owner := None, j_expires := None, j_updated := now\<rparr>
            in if to \<in> set finished_job_states then j1\<lparr>j_ended := Some now\<rparr> else j1)"

definition move_runs :: "run_state \<Rightarrow> run_state \<Rightarrow> time \<Rightarrow> run list \<Rightarrow> uuid list \<times> run list" where
  "move_runs from to now =
     update_returning p_id (\<lambda>p. p_state p = from)
       (\<lambda>p. p\<lparr>p_state := to, p_rev := p_rev p + 1, p_updated := now\<rparr>)"

definition finalizing_run_ids :: "run list \<Rightarrow> uuid list" where
  "finalizing_run_ids t = map p_id (filter (\<lambda>p. p_state p = P_FINALIZING) t)"

definition interrupt :: "time \<Rightarrow> db \<Rightarrow> interrupted_work \<times> db" where
  "interrupt now s =
     (let (job_ids, jobs1) = update_returning j_id
            (\<lambda>j. j_state j = J_RUNNING \<and>
                 (case j_run j of None \<Rightarrow> True | Some r \<Rightarrow> r \<notin> set (finalizing_run_ids (runs s))))
            (\<lambda>j. j\<lparr>j_state := J_INTERRUPTED, j_owner := None, j_expires := None, j_updated := now\<rparr>)
            (jobs s);
          (run_ids, runs1) = move_runs P_RUNNING P_INTERRUPTED now (runs s);
          (segment_ids, segments1) = update_returning g_id (\<lambda>g. g_state g = G_RUNNING)
            (\<lambda>g. g\<lparr>g_state := G_INTERRUPTED, g_ended := Some now\<rparr>) (segments s);
          (jobs_paused, jobs2) = move_jobs J_PAUSING J_PAUSED now jobs1;
          (jobs_cancelled, jobs3) = move_jobs J_CANCELLING J_CANCELLED now jobs2;
          (runs_paused, runs2) = move_runs P_PAUSING P_PAUSED now runs1;
          (runs_cancelled, runs3) = move_runs P_CANCELLING P_CANCELLED now runs2;
          (leased, jobs4) = update_returning j_id (\<lambda>j. j_owner j \<noteq> None \<or> j_expires j \<noteq> None)
            (\<lambda>j. j\<lparr>j_owner := None, j_expires := None, j_updated := now\<rparr>) jobs3
      in (\<lparr>iw_jobs = sort job_ids, iw_runs = sort run_ids, iw_segments = sort segment_ids,
           iw_leases_cleared = sort leased, iw_jobs_paused = sort jobs_paused,
           iw_jobs_cancelled = sort jobs_cancelled, iw_runs_paused = sort runs_paused,
           iw_runs_cancelled = sort runs_cancelled\<rparr>,
          s\<lparr>jobs := jobs4, runs := runs3, segments := segments1\<rparr>))"

definition jobs_that_may_resume :: "db \<Rightarrow> uuid set" where
  "jobs_that_may_resume s =
     set (map j_id (filter (\<lambda>j. j_state j \<notin> set finished_job_states \<or>
       (case j_run j of None \<Rightarrow> False
        | Some r \<Rightarrow> (case tab_get p_id (runs s) r of None \<Rightarrow> False
                     | Some p \<Rightarrow> p_state p \<in> set transient_run_states))) (jobs s)))"

section \<open>Retrying\<close>

definition retryable_job_states :: "job_state list" where
  "retryable_job_states = [J_INTERRUPTED, J_FAILED]"

definition retryable_run_states :: "run_state list" where
  "retryable_run_states = [P_INTERRUPTED, P_FAILED, P_NOT_RESUMABLE]"

definition retry_job :: "id_supply \<Rightarrow> time \<Rightarrow> uuid \<Rightarrow> db \<Rightarrow> run_error + scheduled \<times> db" where
  "retry_job ids now job_id s =
     (case job_get (jobs s) job_id of
        None \<Rightarrow> Inl (NotASourceJob job_id)
      | Some old \<Rightarrow>
          if j_type old \<noteq> PROCESS_SOURCE then Inl (NotASourceJob job_id)
          else case (j_state old \<in> set retryable_job_states, j_run old) of
            (True, Some old_run_id) \<Rightarrow>
              (case run_lock (runs s) old_run_id of
                 (None, _) \<Rightarrow> Inl AssertionError
               | (Some p, runs') \<Rightarrow>
                   if p_state p \<notin> set retryable_run_states
                   then Inl (RunNotRetryable (p_id p) (p_state p))
                   else if list_ex (\<lambda>j. j_previous j = Some (j_id old)) (jobs s)
                   then Inl (AlreadyRetried job_id)
                   else bindE (require_processable_image (p_source p) s) (\<lambda>_.
                     case snapshot_get (snapshots s) (p_snapshot p) of
                       None \<Rightarrow> Inl AssertionError
                     | Some n \<Rightarrow>
                         insert_attempt ids now (p_source p) (n_version n) (n_json n) (n_action n)
                           (Some (p_id p))
                           (\<lambda>i run_id. queued_job i run_id (Some (j_id old)) (j_priority old)
                              (j_payload_version old) (j_payload old) (j_mode old)
                              (j_attempt old + 1) now)
                           (s\<lparr>runs := runs'\<rparr>)))
          | _ \<Rightarrow> Inl (JobNotRetryable job_id (j_state old)))"

end
