(* ===== verification/RunLife.thy ===== *)
theory RunLife
  imports Runs
begin

text \<open>
  The life of an attempt. The abstract machine \<open>attempt_step\<close> says how the triple (state of the job,
  state of its run, whether a segment of the run is running) may move; the concrete machine
  \<open>db_step\<close> is every transaction of \<open>Runs\<close>, in any order and any interleaving. The refinement: each
  transaction moves every attempt along one abstract step or leaves it alone, so what holds of the
  abstract machine (eleven lawful triples, states that are over, no way back) holds of the database.
\<close>

section \<open>The abstract machine\<close>

type_synonym attempt = "job_state option \<times> run_state option \<times> bool"

abbreviation no_attempt :: attempt where
  "no_attempt \<equiv> (None, None, False)"

abbreviation att :: "job_state \<Rightarrow> run_state \<Rightarrow> bool \<Rightarrow> attempt" where
  "att j p running \<equiv> (Some j, Some p, running)"

inductive attempt_step :: "attempt \<Rightarrow> attempt \<Rightarrow> bool" where
  request: "attempt_step no_attempt (att J_QUEUED P_PENDING False)"
| start: "attempt_step (att J_QUEUED P_PENDING False) (att J_RUNNING P_RUNNING True)"
| withdraw: "attempt_step (att J_QUEUED P_PENDING False) (att J_CANCELLED P_CANCELLED False)"
| ask_cancel: "attempt_step (att J_RUNNING P_RUNNING True) (att J_CANCELLING P_CANCELLING True)"
| cancel_unasked: "attempt_step (att J_RUNNING P_RUNNING True) (att J_CANCELLED P_CANCELLED False)"
| cancel: "attempt_step (att J_CANCELLING P_CANCELLING True) (att J_CANCELLED P_CANCELLED False)"
| fail: "attempt_step (att J_RUNNING P_RUNNING True) (att J_FAILED P_FAILED False)"
| finalize: "attempt_step (att J_RUNNING P_RUNNING True) (att J_RUNNING P_FINALIZING False)"
| accept: "attempt_step (att J_RUNNING P_FINALIZING False) (att J_COMPLETED P_COMPLETED False)"
| refuse: "attempt_step (att J_RUNNING P_FINALIZING False) (att J_FAILED P_NOT_RESUMABLE False)"
| refuse_run: "attempt_step (att J_RUNNING P_FINALIZING False) (att J_RUNNING P_NOT_RESUMABLE False)"
| refuse_job: "attempt_step (att J_RUNNING P_NOT_RESUMABLE False) (att J_FAILED P_NOT_RESUMABLE False)"
| crash: "attempt_step (att J_RUNNING P_RUNNING True) (att J_INTERRUPTED P_INTERRUPTED False)"
| crash_refused: "attempt_step (att J_RUNNING P_NOT_RESUMABLE False) (att J_INTERRUPTED P_NOT_RESUMABLE False)"

inductive_simps attempt_step_from [simp]: "attempt_step (att j p b) x"

definition lawful_attempts :: "attempt set" where
  "lawful_attempts =
     {no_attempt, att J_QUEUED P_PENDING False, att J_RUNNING P_RUNNING True,
      att J_CANCELLING P_CANCELLING True, att J_RUNNING P_FINALIZING False,
      att J_RUNNING P_NOT_RESUMABLE False, att J_CANCELLED P_CANCELLED False,
      att J_COMPLETED P_COMPLETED False, att J_FAILED P_FAILED False,
      att J_FAILED P_NOT_RESUMABLE False, att J_INTERRUPTED P_INTERRUPTED False,
      att J_INTERRUPTED P_NOT_RESUMABLE False}"

lemma attempt_step_lawful: "attempt_step x y \<Longrightarrow> y \<in> lawful_attempts"
  by (induction rule: attempt_step.induct) (simp_all add: lawful_attempts_def)

definition moves :: "attempt \<Rightarrow> attempt \<Rightarrow> bool" where
  "moves x y \<longleftrightarrow> y = x \<or> attempt_step x y"

lemma moves_refl [simp]: "moves x x"
  by (simp add: moves_def)

lemma moves_lawful: "moves x y \<Longrightarrow> x \<in> lawful_attempts \<Longrightarrow> y \<in> lawful_attempts"
  by (auto simp: moves_def attempt_step_lawful)

section \<open>The attempts of a database\<close>

definition job_of :: "job list \<Rightarrow> uuid \<Rightarrow> job option" where
  "job_of t r = find (\<lambda>j. j_run j = Some r) t"

definition running_segment :: "segment list \<Rightarrow> uuid \<Rightarrow> bool" where
  "running_segment t r \<longleftrightarrow> (\<exists>g\<in>set t. g_run g = r \<and> g_state g = G_RUNNING)"

definition attempt_of :: "db \<Rightarrow> uuid \<Rightarrow> attempt" where
  "attempt_of s r = (map_option j_state (job_of (jobs s) r),
     map_option p_state (tab_get p_id (runs s) r), running_segment (segments s) r)"

definition coherent :: "db \<Rightarrow> bool" where
  "coherent s \<longleftrightarrow> tab_keyed j_id (jobs s) \<and> unique_where (\<lambda>j. j_run j \<noteq> None) j_run (jobs s) \<and>
     tab_keyed p_id (runs s) \<and> segments_inv (segments s) \<and> range (attempt_of s) \<subseteq> lawful_attempts"

lemma job_of_in:
  assumes "unique_where (\<lambda>j. j_run j \<noteq> None) j_run t" and "j \<in> set t" and "j_run j = Some r"
  shows "job_of t r = Some j"
  using assms by (induction t) (force simp: unique_where_Cons job_of_def)+

lemma job_of_SomeD: "job_of t r = Some j \<Longrightarrow> j \<in> set t \<and> j_run j = Some r"
  by (auto simp: job_of_def find_Some_iff)

lemma job_of_update:
  "(\<And>j. j_run (f j) = j_run j) \<Longrightarrow>
     job_of (tab_update p f t) r = map_option (\<lambda>j. if p j then f j else j) (job_of t r)"
  by (induction t) (auto simp: job_of_def)

lemma job_of_append: "job_of (t @ [j]) r =
    (case job_of t r of None \<Rightarrow> if j_run j = Some r then Some j else None | Some j' \<Rightarrow> Some j')"
  by (induction t) (auto simp: job_of_def)

text \<open>A guarded update of one job seen through the runs: its own run's entry, or none.\<close>

lemma job_of_update_at:
  assumes "tab_keyed j_id t" and "unique_where (\<lambda>j. j_run j \<noteq> None) j_run t"
    and "tab_get j_id t i = Some j" and "p j" and "\<And>j'. p j' \<Longrightarrow> j_id j' = i"
    and "\<And>j. j_run (f j) = j_run j"
  shows "job_of (tab_update p f t) =
    (case j_run j of None \<Rightarrow> job_of t | Some r \<Rightarrow> (job_of t)(r \<mapsto> f j))"
proof
  fix q
  have j: "j \<in> set t" "j_id j = i" using tab_get_SomeD [OF assms(3)] by auto
  show "job_of (tab_update p f t) q =
      (case j_run j of None \<Rightarrow> job_of t | Some r \<Rightarrow> (job_of t)(r \<mapsto> f j)) q"
  proof (cases "job_of t q")
    case None
    then have "j_run j \<noteq> Some q" using job_of_in [OF assms(2) j(1), of q] by auto
    with None show ?thesis by (auto simp: job_of_update assms(6) split: option.splits)
  next
    case (Some k)
    then have k: "k \<in> set t" "j_run k = Some q" using job_of_SomeD by auto
    show ?thesis
    proof (cases "k = j")
      case True
      with Some k assms(4) show ?thesis by (simp add: job_of_update assms(6))
    next
      case False
      then have "\<not> p k" using assms(5) [of k] tab_keyed_inj [OF assms(1) k(1) j(1)] j(2) by auto
      moreover have "j_run j \<noteq> Some q"
        using job_of_in [OF assms(2) j(1), of q] Some False by auto
      ultimately show ?thesis
        using Some by (auto simp: job_of_update assms(6) split: option.splits)
    qed
  qed
qed

section \<open>One row of a table written\<close>

lemma run_update_at:
  assumes "tab_keyed p_id t" and "tab_get p_id t i = Some p"
    and "\<And>q. p_id (v q) = p_id q"
  shows "run_update i (p_rev p) v x t =
    (if x p then (1, tab_update (opt_where p_id p_rev i (p_rev p) x) (\<lambda>q. bump_run (v q)) t) else (0, t)) \<and>
    (x p \<longrightarrow> tab_get p_id (tab_update (opt_where p_id p_rev i (p_rev p) x) (\<lambda>q. bump_run (v q)) t) =
       (tab_get p_id t)(i \<mapsto> bump_run (v p)))"
proof -
  let ?w = "opt_where p_id p_rev i (p_rev p) x"
  have i: "p_id p = i" using assms(2) by (auto dest: tab_get_SomeD)
  have count: "tab_count ?w t = (if x p then 1 else 0)"
    using run_rev.rowcount_iff [OF assms(1), of i "p_rev p" v x] assms(2)
    by (simp add: optimistic_locked_update_def)
  have "tab_update ?w (\<lambda>q. bump_run (v q)) t = t" if "\<not> x p"
    using count that by (intro tab_update_none) (auto simp: tab_count_zero)
  moreover have "tab_get p_id (tab_update ?w (\<lambda>q. bump_run (v q)) t) =
      (tab_get p_id t)(i \<mapsto> bump_run (v p))" if "x p"
    by (rule tab_get_update_at [OF assms(2) _ _ assms(1)])
      (use that i assms(3) in \<open>auto simp: opt_where_def bump_run_def\<close>)
  ultimately show ?thesis
    using count by (auto simp: run_update_def optimistic_locked_update_def)
qed

lemma job_transition_at:
  assumes "tab_keyed j_id t" and "tab_get j_id t i = Some j" and "to \<noteq> J_RUNNING"
  shows "job_transition i from to now c d t =
    (if j_state j \<in> set from
     then Inr (True, tab_update (\<lambda>j. j_id j = i \<and> j_state j \<in> set from) (transition_values to now c d) t)
     else Inr (False, t))"
proof -
  have j: "j \<in> set t" "j_id j = i" using assms(2) by (auto dest: tab_get_SomeD)
  have only: "k = j" if "k \<in> set t" "j_id k = i" for k
    using assms(1) that j by (metis tab_keyed_inj)
  show ?thesis
  proof (cases "j_state j \<in> set from")
    case True
    then have "tab_count (\<lambda>j. j_id j = i \<and> j_state j \<in> set from) t \<noteq> 0"
      using j by (auto simp: tab_count_zero)
    with True assms(3) show ?thesis by (simp add: job_transition_def guarded_update_def)
  next
    case False
    then have no: "\<not> (j_id k = i \<and> j_state k \<in> set from)" if "k \<in> set t" for k
      using only that by auto
    then have "tab_count (\<lambda>j. j_id j = i \<and> j_state j \<in> set from) t = 0"
      by (auto simp: tab_count_zero)
    with False no assms(3) show ?thesis
      by (auto simp: job_transition_def guarded_update_def intro!: tab_update_none)
  qed
qed

section \<open>Segments\<close>

lemma running_segment_append:
  "g_state g = G_RUNNING \<Longrightarrow> running_segment (t @ [g]) = (running_segment t)(g_run g := True)"
  by (rule ext) (auto simp: running_segment_def)

lemma running_segment_close:
  assumes "segments_inv t" and "tab_get g_id t i = Some g" and "g_state g = G_RUNNING"
    and "to \<noteq> G_RUNNING"
  shows "running_segment (tab_update (\<lambda>g. g_id g = i \<and> g_state g = G_RUNNING)
      (\<lambda>g. g\<lparr>g_state := to, g_reason := reason, g_ended := e\<rparr>) t) = (running_segment t)(g_run g := False)"
    (is "running_segment ?t = _")
proof
  fix r
  have g: "g \<in> set t" "g_id g = i" using assms(2) by (auto dest: tab_get_SomeD)
  have same: "h = g" if "h \<in> set t" "g_id h = i" for h
    using assms(1) g that by (auto simp: segments_inv_def dest: tab_keyed_inj)
  have one: "h = g" if "h \<in> set t" "g_state h = G_RUNNING" "g_run h = g_run g" for h
  proof -
    have "find (\<lambda>r'. g_run r' = g_run g \<and> g_state r' = G_RUNNING) t = Some h"
      using unique_where_find [of "\<lambda>g. g_state g = G_RUNNING" g_run t h] assms(1) that
      by (simp add: segments_inv_def)
    moreover have "find (\<lambda>r'. g_run r' = g_run g \<and> g_state r' = G_RUNNING) t = Some g"
      using unique_where_find [of "\<lambda>g. g_state g = G_RUNNING" g_run t g] assms(1,3) g
      by (simp add: segments_inv_def)
    ultimately show ?thesis by simp
  qed
  have close: "running_segment ?t r \<longleftrightarrow> (\<exists>h\<in>set t. g_run h = r \<and> g_state h = G_RUNNING \<and> g_id h \<noteq> i)"
    using assms(4) by (auto simp: running_segment_def set_tab_update split: if_splits)
  show "running_segment ?t r = ((running_segment t)(g_run g := False)) r"
  proof (cases "r = g_run g")
    case True
    with one g(2) show ?thesis unfolding close by auto
  next
    case False
    then have "g_id h \<noteq> i" if "h \<in> set t" "g_run h = r" for h
      using same [of h] that by auto
    then have "running_segment ?t r \<longleftrightarrow> running_segment t r"
      unfolding close by (auto simp: running_segment_def)
    with False show ?thesis by simp
  qed
qed

lemma segment_close_cases:
  assumes "segments_inv t" and "tab_get g_id t i = Some g" and "segment_close i to reason now t = Inr (shut, t')"
  obtains (closed) "shut" "g_state g = G_RUNNING" "segments_inv t'"
      "running_segment t (g_run g)" "running_segment t' = (running_segment t)(g_run g := False)"
  | (kept) "\<not> shut" "g_state g \<noteq> G_RUNNING" "t' = t"
proof -
  have to: "to \<in> set closed_segment_states" and eq: "(shut, t') =
      guarded_update (\<lambda>g. g_id g = i \<and> g_state g = G_RUNNING)
        (\<lambda>g. g\<lparr>g_state := to, g_reason := reason, g_ended := Some now\<rparr>) t"
    using assms(3) by (auto simp: segment_close_def split: if_splits)
  have g: "g \<in> set t" "g_id g = i" using assms(2) by (auto dest: tab_get_SomeD)
  show ?thesis
  proof (cases "g_state g = G_RUNNING")
    case True
    then have "shut" using eq g by (auto simp: guarded_update_def tab_count_def filter_empty_conv)
    moreover have "to \<noteq> G_RUNNING" using to by (auto simp: closed_segment_states_def)
    then have "running_segment t' = (running_segment t)(g_run g := False)"
      using running_segment_close [OF assms(1,2) True] eq by (simp add: guarded_update_def)
    moreover have "running_segment t (g_run g)" using g True by (auto simp: running_segment_def)
    moreover have "segments_inv t'" using segment_close_inv [OF assms(1,3)] .
    ultimately show ?thesis using True by (intro closed)
  next
    case False
    have "\<not> (g_id h = i \<and> g_state h = G_RUNNING)" if "h \<in> set t" for h
      using that False g tab_keyed_inj [of g_id t h g] assms(1) by (auto simp: segments_inv_def)
    then have "tab_count (\<lambda>g. g_id g = i \<and> g_state g = G_RUNNING) t = 0" by (simp add: tab_count_zero)
    then have no: "\<not> shut" using eq by (simp add: guarded_update_def)
    have "t' = t" by (rule guarded_update_False) (use eq no in simp)
    with no False show ?thesis by (intro kept)
  qed
qed

section \<open>A transaction and the attempts\<close>

definition refines :: "db \<Rightarrow> db \<Rightarrow> bool" where
  "refines s s' \<longleftrightarrow> coherent s' \<and> (\<forall>r. moves (attempt_of s r) (attempt_of s' r))"

definition job_table_ok :: "job list \<Rightarrow> bool" where
  "job_table_ok t \<longleftrightarrow> tab_keyed j_id t \<and> unique_where (\<lambda>j. j_run j \<noteq> None) j_run t"

lemma coherent_facts:
  assumes "coherent s"
  shows "tab_keyed j_id (jobs s)" "unique_where (\<lambda>j. j_run j \<noteq> None) j_run (jobs s)"
    "tab_keyed p_id (runs s)" "segments_inv (segments s)" "attempt_of s r \<in> lawful_attempts"
    "job_table_ok (jobs s)"
  using assms by (auto simp: coherent_def job_table_ok_def)

lemma job_table_ok_update:
  "job_table_ok t \<Longrightarrow> (\<And>j. j_id (f j) = j_id j \<and> j_run (f j) = j_run j) \<Longrightarrow> job_table_ok (tab_update p f t)"
  unfolding job_table_ok_def by (intro conjI unique_where_update) (auto simp: tab_keyed_update)

lemma refines_refl: "coherent s \<Longrightarrow> refines s s"
  by (simp add: refines_def)

lemma refinesI:
  assumes "coherent s" and "job_table_ok (jobs s')" and "tab_keyed p_id (runs s')"
    and "segments_inv (segments s')" and "\<And>r. moves (attempt_of s r) (attempt_of s' r)"
  shows "refines s s'"
proof -
  have "attempt_of s' r \<in> lawful_attempts" for r
    using moves_lawful [OF assms(5) coherent_facts(5) [OF assms(1)]] .
  with assms show ?thesis by (simp add: refines_def coherent_def job_table_ok_def image_subset_iff)
qed

text \<open>One attempt written, whole.\<close>

lemma refines_one:
  assumes "coherent s" and "job_table_ok (jobs s')" and "tab_keyed p_id (runs s')"
    and "segments_inv (segments s')"
    and "job_of (jobs s') = (job_of (jobs s))(r := J)"
    and "tab_get p_id (runs s') = (tab_get p_id (runs s))(r := P)"
    and "running_segment (segments s') = (running_segment (segments s))(r := b)"
    and "moves (attempt_of s r) (map_option j_state J, map_option p_state P, b)"
  shows "refines s s'"
  using assms(8) by (intro refinesI [OF assms(1-4)]) (auto simp: attempt_of_def assms(5-7))

text \<open>
  A job and its run moved by their guarded updates, and the run's segment opened or closed with them.
\<close>

lemma refines_settle:
  assumes s: "coherent s" and p: "tab_get p_id (runs s) r = Some p"
    and j: "tab_get j_id (jobs s) i = Some j" "j_run j = Some r" "j_state j \<in> set sts"
    and v: "\<And>q. p_id (v q) = p_id q" "x p"
    and jobs': "jobs s' = tab_update (\<lambda>j. j_id j = i \<and> j_state j \<in> set sts) (transition_values to now c d) (jobs s)"
    and runs': "runs s' = tab_update (opt_where p_id p_rev r (p_rev p) x) (\<lambda>q. bump_run (v q)) (runs s)"
    and seg: "segments_inv (segments s')" "running_segment (segments s') = (running_segment (segments s))(r := b)"
    and step: "moves (att (j_state j) (p_state p) (running_segment (segments s) r)) (att to (p_state (v p)) b)"
  shows "refines s s'"
proof (rule refines_one [where r = r and J = "Some (transition_values to now c d j)" and P = "Some (bump_run (v p))" and b = b])
  note keyed = coherent_facts [OF s]
  have jr: "job_of (jobs s) r = Some j"
    using job_of_in [OF keyed(2)] tab_get_SomeD [OF j(1)] j(2) by auto
  show "job_table_ok (jobs s')" unfolding jobs' by (simp add: job_table_ok_update keyed)
  show "tab_keyed p_id (runs s')" unfolding runs' using keyed v by (simp add: tab_keyed_update bump_run_def)
  show "job_of (jobs s') = (job_of (jobs s))(r := Some (transition_values to now c d j))"
    unfolding jobs' using job_of_update_at [OF keyed(1,2) j(1), of "\<lambda>j. j_id j = i \<and> j_state j \<in> set sts" "transition_values to now c d"]
      tab_get_SomeD [OF j(1)] j(2,3) by auto
  show "tab_get p_id (runs s') = (tab_get p_id (runs s))(r := Some (bump_run (v p)))"
    unfolding runs' using run_update_at [OF keyed(3) p v(1), of x] v(2) by simp
  show "moves (attempt_of s r) (map_option j_state (Some (transition_values to now c d j)),
      map_option p_state (Some (bump_run (v p))), b)"
    using step by (simp add: attempt_of_def jr p bump_run_def)
qed (use s seg in auto)

lemma attempt_of_known:
  assumes "coherent s" and "tab_get j_id (jobs s) i = Some j" and "j_run j = Some r"
    and "tab_get p_id (runs s) r = Some p"
  shows "att (j_state j) (p_state p) (running_segment (segments s) r) \<in> lawful_attempts"
proof -
  have "job_of (jobs s) r = Some j"
    using job_of_in [OF coherent_facts(2) [OF assms(1)]] tab_get_SomeD [OF assms(2)] assms(3) by auto
  then show ?thesis
    using coherent_facts(5) [OF assms(1), of r] assms(4) by (simp add: attempt_of_def)
qed

lemma attempt_of_job:
  assumes "coherent s" and "tab_get j_id (jobs s) i = Some j" and "j_run j = Some r"
  shows "\<exists>p. tab_get p_id (runs s) r = Some p \<and>
    att (j_state j) (p_state p) (running_segment (segments s) r) \<in> lawful_attempts"
proof -
  have "job_of (jobs s) r = Some j"
    using job_of_in [OF coherent_facts(2) [OF assms(1)]] tab_get_SomeD [OF assms(2)] assms(3) by auto
  then show ?thesis
    using coherent_facts(5) [OF assms(1), of r]
    by (cases "tab_get p_id (runs s) r") (auto simp: attempt_of_def lawful_attempts_def)
qed

section \<open>Every transaction refines the machine\<close>

lemma insert_attempt_effect:
  assumes "insert_attempt ids now src version body action parent job_for s = Inr (sc, s')"
  obtains n where "n_id n = ids 0" "n_version n = version" "n_json n = body"
    "tab_get n_id (snapshots s) (ids 0) = None"
    "tab_get p_id (runs s) (ids 1) = None" "tab_get j_id (jobs s) (j_id (job_for (ids 2) (ids 1))) = None"
    "s' = s\<lparr>snapshots := snapshots s @ [n],
       runs := runs s @ [pending_run (ids 1) src (ids 0) parent now],
       jobs := jobs s @ [job_for (ids 2) (ids 1)]\<rparr>"
    "sc = \<lparr>sc_source = src, sc_run = ids 1, sc_job = ids 2\<rparr>"
  using assms
  by (intro that [of "\<lparr>n_id = ids 0, n_version = version, n_json = body, n_created = now, n_action = action\<rparr>"])
    (auto simp: insert_attempt_def bindE_Inr_iff snapshot_create_def run_add_def job_add_def Let_def
      pending_run_def split: if_splits)

lemma insert_attempt_refines:
  assumes s: "coherent s" and ins: "insert_attempt ids now src version body action parent job_for s = Inr (sc, s')"
    and job: "j_run (job_for (ids 2) (ids 1)) = Some (ids 1)" "j_state (job_for (ids 2) (ids 1)) = J_QUEUED"
  shows "refines s s'"
proof -
  let ?j = "job_for (ids 2) (ids 1)" and ?r = "ids 1"
  from ins obtain n where
    new: "tab_get p_id (runs s) ?r = None" "tab_get j_id (jobs s) (j_id ?j) = None"
    and s': "s' = s\<lparr>snapshots := snapshots s @ [n],
       runs := runs s @ [pending_run (ids 1) src (ids 0) parent now], jobs := jobs s @ [?j]\<rparr>"
    by (rule insert_attempt_effect)
  let ?p = "pending_run (ids 1) src (ids 0) parent now"
  have "attempt_of s ?r \<in> lawful_attempts" using coherent_facts [OF s] by blast
  then have none: "job_of (jobs s) ?r = None" "\<not> running_segment (segments s) ?r"
    using new(1) by (auto simp: attempt_of_def lawful_attempts_def)
  have p: "p_id ?p = ?r" "p_state ?p = P_PENDING" by (simp_all add: pending_run_def)
  have fresh: "j_run j \<noteq> Some ?r" if "j \<in> set (jobs s)" for j
    using job_of_in [OF coherent_facts(2) [OF s] that] none(1) by auto
  show ?thesis
  proof (rule refines_one [OF s, where r = ?r and J = "Some ?j" and P = "Some ?p" and b = False])
    show "job_table_ok (jobs s')"
      using coherent_facts [OF s] new(2) fresh job(1)
      by (auto simp: s' job_table_ok_def tab_keyed_append1 unique_where_append1 tab_get_None_iff)
    show "tab_keyed p_id (runs s')"
      using coherent_facts [OF s] new(1) p(1) by (simp add: s' tab_keyed_append1 tab_get_None_iff)
    show "job_of (jobs s') = (job_of (jobs s))(?r := Some ?j)"
      using none(1) job(1) by (auto simp: s' job_of_append fun_eq_iff split: option.splits)
    show "tab_get p_id (runs s') = (tab_get p_id (runs s))(?r := Some ?p)"
      using tab_get_insert [of p_id "runs s" ?p] new(1) p(1) by (simp add: s')
    show "running_segment (segments s') = (running_segment (segments s))(?r := False)"
      using none(2) by (auto simp: s' fun_eq_iff)
    show "moves (attempt_of s ?r) (map_option j_state (Some ?j), map_option p_state (Some ?p), False)"
      using none new(1) job(2) p(2) by (simp add: moves_def attempt_of_def attempt_step.request)
  qed (use coherent_facts [OF s] in \<open>simp add: s'\<close>)
qed

lemma schedule_source_refines:
  "coherent s \<Longrightarrow> schedule_source ids now src prio resolved action s = Inr (sc, s') \<Longrightarrow> refines s s'"
  by (auto simp: schedule_source_def bindE_Inr_iff queued_job_def split: option.splits
      elim!: insert_attempt_refines)

lemma retry_job_refines:
  "coherent s \<Longrightarrow> retry_job ids now i s = Inr (sc, s') \<Longrightarrow> refines s s'"
  by (auto simp: retry_job_def bindE_Inr_iff queued_job_def split: option.splits if_splits bool.splits
      elim!: insert_attempt_refines)

lemma settle_claim_refines:
  assumes s: "coherent s"
    and settle: "settle_claim st job_from run_from seg_to reason v job_to code detail msg now s = Inr s'"
    and v: "\<And>q. p_id (v q) = p_id q"
    and to: "job_to \<noteq> J_RUNNING"
    and step: "\<And>j p. j \<in> set job_from \<Longrightarrow> att j p True \<in> lawful_attempts \<Longrightarrow>
        p \<in> set run_from \<and> (\<forall>q. p_state q = p \<longrightarrow> moves (att j p True) (att job_to (p_state (v q)) False))"
  shows "refines s s'"
proof (cases "s' = s")
  case True
  with s show ?thesis by (simp add: refines_refl)
next
  case False
  with settle obtain r p j g shut segments' where
    r: "cj_run (st_job st) = Some r" and p: "tab_get p_id (runs s) r = Some p"
    and j: "tab_get j_id (jobs s) (cj_id (st_job st)) = Some j" "j_run j = Some (p_id p)" "j_state j \<in> set job_from"
    and g: "tab_get g_id (segments s) (st_segment st) = Some g" "g_run g = p_id p"
    and close: "segment_close (g_id g) seg_to reason now (segments s) = Inr (shut, segments')"
    and rest: "(let s1 = s\<lparr>segments := segments'\<rparr> in
       if shut \<and> p_state p \<in> set run_from then
         (case run_update (p_id p) (p_rev p) v (\<lambda>r. p_state r \<in> set run_from) (runs s1) of
            (n, runs') \<Rightarrow>
              if n = 1 then
                bindE (lift_repo (job_transition (cj_id (st_job st)) job_from job_to now code detail (jobs s1)))
                  (\<lambda>(moved, jobs').
                     if moved then Inr (s1\<lparr>runs := runs', jobs := jobs'\<rparr>) else Inl (ExecutionError msg))
              else Inr s1)
       else Inr s1) = Inr s'"
    by (auto simp: settle_claim_def job_get_def segment_get_def bindE_Inr_iff
        split: option.splits if_splits sum.splits)
  note facts = coherent_facts [OF s]
  have rp: "p_id p = r" using p by (auto dest: tab_get_SomeD)
  have gi: "g_id g = st_segment st" using g(1) by (auto dest: tab_get_SomeD)
  have gg: "tab_get g_id (segments s) (g_id g) = Some g" using g(1) gi by simp
  from facts(4) gg close show ?thesis
  proof (cases rule: segment_close_cases)
    case closed
    have lawful: "att (j_state j) (p_state p) (running_segment (segments s) r) \<in> lawful_attempts"
      using attempt_of_known [OF s j(1)] j(2) rp p by simp
    have live: "running_segment (segments s) r" using closed(4) g(2) rp by simp
    then have pj: "p_state p \<in> set run_from"
      and mv: "moves (att (j_state j) (p_state p) True) (att job_to (p_state (v p)) False)"
      using step [OF j(3), of "p_state p"] lawful by auto
    have upd: "run_update r (p_rev p) v (\<lambda>r. p_state r \<in> set run_from) (runs s) =
        (1, tab_update (opt_where p_id p_rev r (p_rev p) (\<lambda>r. p_state r \<in> set run_from)) (\<lambda>q. bump_run (v q)) (runs s))"
      using run_update_at [OF facts(3) p v, of "\<lambda>r. p_state r \<in> set run_from"] pj by simp
    have s': "s' = s\<lparr>segments := segments',
        runs := tab_update (opt_where p_id p_rev r (p_rev p) (\<lambda>r. p_state r \<in> set run_from)) (\<lambda>q. bump_run (v q)) (runs s),
        jobs := tab_update (\<lambda>k. j_id k = cj_id (st_job st) \<and> j_state k \<in> set job_from)
          (transition_values job_to now code detail) (jobs s)\<rparr>"
      using rest closed(1) pj upd job_transition_at [OF facts(1) j(1) to] j(3) rp
      by (simp add: Let_def)
    have seg: "running_segment (segments s') = (running_segment (segments s))(r := False)"
      using closed(5) g(2) rp by (simp add: s')
    show ?thesis
      by (rule refines_settle [OF s p j(1) _ j(3) v, where b = False])
        (use j(2) rp pj closed(3) seg mv live in \<open>simp_all add: s'\<close>)
  next
    case kept
    with rest False show ?thesis by (simp add: Let_def)
  qed
qed

lemma executor_cancel_refines:
  "coherent s \<Longrightarrow> executor_cancel st now s = Inr s' \<Longrightarrow> refines s s'"
  unfolding executor_cancel_def
  by (erule settle_claim_refines, assumption) (auto simp: lawful_attempts_def moves_def)

lemma executor_fail_refines:
  assumes s: "coherent s"
  shows "refines s (executor_fail st code now s)"
proof -
  let ?v = "\<lambda>r. r\<lparr>p_state := P_FAILED, p_failed := Some now, p_updated := now, p_code := Some code,
             p_detail := Some ''source processing failed''\<rparr>"
  have "refines s s'" if "settle_claim st [J_RUNNING] [P_RUNNING] G_FAILED None ?v J_FAILED (Some code)
      (Some ''source processing failed'') ''the processing job changed while failing'' now s = Inr s'" for s'
    using that by (rule settle_claim_refines [OF s]) (auto simp: lawful_attempts_def moves_def)
  with s show ?thesis by (auto simp: executor_fail_def refines_refl split: sum.splits)
qed

lemma cancel_settle_refines:
  assumes s: "coherent s" and p: "tab_get p_id (runs s) r = Some p"
    and j: "j \<in> set (jobs s)" "j_run j = Some r"
    and settle: "cancel_settle p j from to run_to now s = Inr s'" and to: "to \<noteq> J_RUNNING"
    and step: "\<And>b. att from (p_state p) b \<in> lawful_attempts \<Longrightarrow> moves (att from (p_state p) b) (att to run_to b)"
  shows "refines s s' \<and> j_state j = from"
proof -
  note facts = coherent_facts [OF s]
  have rp: "p_id p = r" using p by (auto dest: tab_get_SomeD)
  have get: "tab_get j_id (jobs s) (j_id j) = Some j" using tab_get_in [OF facts(1) j(1)] .
  obtain n runs' where
    u: "run_update r (p_rev p) (\<lambda>r. r\<lparr>p_state := run_to, p_updated := now\<rparr>) (\<lambda>_. True) (runs s) = (n, runs')"
    by (cases "run_update r (p_rev p) (\<lambda>r. r\<lparr>p_state := run_to, p_updated := now\<rparr>) (\<lambda>_. True) (runs s)")
  from settle obtain moved jobs' where
    t: "job_transition (j_id j) [from] to now None None (jobs s) = Inr (moved, jobs')"
    and m: "moved" and s': "s' = s\<lparr>jobs := jobs', runs := runs'\<rparr>"
    by (auto simp: cancel_settle_def bindE_Inr_iff rp u split: if_splits)
  have st: "j_state j = from" "jobs' = tab_update (\<lambda>k. j_id k = j_id j \<and> j_state k \<in> set [from]) (transition_values to now None None) (jobs s)"
    using t m job_transition_at [OF facts(1) get to, of "[from]" now None None] by (auto split: if_splits)
  have runs': "runs' = tab_update (opt_where p_id p_rev r (p_rev p) (\<lambda>_. True)) (\<lambda>q. bump_run (q\<lparr>p_state := run_to, p_updated := now\<rparr>)) (runs s)"
    using u run_update_at [OF facts(3) p, of "\<lambda>r. r\<lparr>p_state := run_to, p_updated := now\<rparr>" "\<lambda>_. True"] by simp
  have "att from (p_state p) (running_segment (segments s) r) \<in> lawful_attempts"
    using attempt_of_known [OF s get j(2) p] st(1) by simp
  from step [OF this] have "refines s s'"
    by (intro refines_settle [OF s p get j(2), where b = "running_segment (segments s) r" and v = "\<lambda>q. q\<lparr>p_state := run_to, p_updated := now\<rparr>" and to = to and sts = "[from]" and now = now and c = None and d = None])
      (use st runs' facts in \<open>auto simp: s'\<close>)
  with st(1) show ?thesis by simp
qed

lemma filter_singleD: "filter q t = [x] \<Longrightarrow> x \<in> set t \<and> q x"
  by (metis Cons_eq_filterD in_set_conv_decomp)

lemma one_or_none_Some: "one_or_none rows = Inr (Some r) \<longleftrightarrow> rows = [r]"
  by (auto simp: one_or_none_def split: list.splits)

lemma one_or_none_None: "one_or_none rows = Inr None \<longleftrightarrow> rows = []"
  by (auto simp: one_or_none_def split: list.splits)

lemma cancel_run_cases:
  assumes "cancel_run r now s = Inr (outcome, s')"
  obtains (already) p where "tab_get p_id (runs s) r = Some p" "p_state p \<in> {P_CANCELLING, P_CANCELLED}"
      "outcome = ALREADY" "s' = s"
  | (withdrawn) p j where "tab_get p_id (runs s) r = Some p" "filter (\<lambda>j. j_run j = Some r) (jobs s) = [j]"
      "j_state j = J_QUEUED" "outcome = CANCELLED"
      "cancel_settle p j J_QUEUED J_CANCELLED P_CANCELLED now s = Inr s'"
  | (requested) p j where "tab_get p_id (runs s) r = Some p" "filter (\<lambda>j. j_run j = Some r) (jobs s) = [j]"
      "j_state j = J_RUNNING" "p_state p = P_RUNNING" "outcome = REQUESTED"
      "cancel_settle p j J_RUNNING J_CANCELLING P_CANCELLING now s = Inr s'"
  using assms
  by (auto simp: cancel_run_def Let_def bindE_Inr_iff one_or_none_Some one_or_none_None
      split: option.splits if_splits)

lemma cancel_run_refines:
  assumes s: "coherent s" and c: "cancel_run r now s = Inr (outcome, s')"
  shows "refines s s'"
  using c
proof (cases rule: cancel_run_cases)
  case already
  with s show ?thesis by (simp add: refines_refl)
next
  case (withdrawn p j)
  from withdrawn(2) have "j \<in> set (jobs s)" "j_run j = Some r"
    by (auto dest: filter_singleD)
  from cancel_settle_refines [OF s withdrawn(1) this withdrawn(5)] show ?thesis
    by (auto simp: lawful_attempts_def moves_def)
next
  case (requested p j)
  from requested(2) have "j \<in> set (jobs s)" "j_run j = Some r"
    by (auto dest: filter_singleD)
  from cancel_settle_refines [OF s requested(1) this requested(6)] requested(4) show ?thesis
    by (auto simp: lawful_attempts_def moves_def)
qed

lemma executor_input_facts:
  assumes "executor_input st states s = Inr p"
  shows "cj_run (st_job st) = Some (p_id p) \<and> tab_get p_id (runs s) (p_id p) = Some p \<and> p_state p \<in> set states"
proof -
  obtain r where r: "cj_run (st_job st) = Some r"
    using assms by (cases "cj_run (st_job st)") (auto simp: executor_input_def)
  with assms obtain q where q: "tab_get p_id (runs s) r = Some q"
    by (cases "tab_get p_id (runs s) r") (auto simp: executor_input_def)
  with assms r have "q = p \<and> p_state p \<in> set states"
    by (auto simp: executor_input_def split: option.splits if_splits)
  with r q show ?thesis by (auto dest: tab_get_SomeD)
qed

lemma settlement_context_facts:
  assumes "settlement_context st allow s = Inr (p, g, j)"
  shows "tab_get p_id (runs s) (p_id p) = Some p" "tab_get g_id (segments s) (st_segment st) = Some g"
    "g_run g = p_id p" "g_state g = G_RUNNING" "tab_get j_id (jobs s) (cj_id (st_job st)) = Some j"
    "j_run j = Some (p_id p)" "cj_run (st_job st) = Some (p_id p)"
    "j_state j \<in> (if allow then {J_RUNNING, J_CANCELLING} else {J_RUNNING})"
    "p_state p \<in> (if allow then {P_RUNNING, P_CANCELLING} else {P_RUNNING})"
proof -
  let ?runs = "if allow then [P_RUNNING, P_CANCELLING] else [P_RUNNING]"
  from assms obtain q where q: "executor_input st ?runs s = Inr q"
    and rest: "(case segment_get (segments s) (st_segment st) of
          None \<Rightarrow> Inl (ExecutionError ''the execution segment is no longer running'')
        | Some g \<Rightarrow>
            if g_run g \<noteq> p_id q \<or> g_state g \<noteq> G_RUNNING
            then Inl (ExecutionError ''the execution segment is no longer running'')
            else (case job_get (jobs s) (cj_id (st_job st)) of
                    None \<Rightarrow> Inl (ExecutionError ''the processing job is no longer running'')
                  | Some j \<Rightarrow>
                      if j_run j \<noteq> Some (p_id q) \<or>
                         j_state j \<notin> (if allow then {J_RUNNING, J_CANCELLING} else {J_RUNNING})
                      then Inl (ExecutionError ''the processing job is no longer running'')
                      else Inr (q, g, j))) = Inr (p, g, j)"
    unfolding settlement_context_def bindE_Inr_iff by blast
  from rest have "q = p" "segment_get (segments s) (st_segment st) = Some g"
    "g_run g = p_id p" "g_state g = G_RUNNING" "job_get (jobs s) (cj_id (st_job st)) = Some j"
    "j_run j = Some (p_id p)" "j_state j \<in> (if allow then {J_RUNNING, J_CANCELLING} else {J_RUNNING})"
    by (auto split: option.splits if_split_asm)
  with executor_input_facts [OF q] show
    "tab_get p_id (runs s) (p_id p) = Some p" "tab_get g_id (segments s) (st_segment st) = Some g"
    "g_run g = p_id p" "g_state g = G_RUNNING" "tab_get j_id (jobs s) (cj_id (st_job st)) = Some j"
    "j_run j = Some (p_id p)" "cj_run (st_job st) = Some (p_id p)"
    "j_state j \<in> (if allow then {J_RUNNING, J_CANCELLING} else {J_RUNNING})"
    "p_state p \<in> (if allow then {P_RUNNING, P_CANCELLING} else {P_RUNNING})"
    by (auto simp: segment_get_def job_get_def)
qed

text \<open>A run moved alone, with its segment.\<close>

lemma refines_run:
  assumes s: "coherent s" and p: "tab_get p_id (runs s) r = Some p"
    and j: "tab_get j_id (jobs s) i = Some j" "j_run j = Some r"
    and runs': "tab_get p_id (runs s') = (tab_get p_id (runs s))(r \<mapsto> p')" "tab_keyed p_id (runs s')"
    and jobs': "jobs s' = jobs s"
    and seg: "segments_inv (segments s')" "running_segment (segments s') = (running_segment (segments s))(r := b)"
    and step: "moves (att (j_state j) (p_state p) (running_segment (segments s) r)) (att (j_state j) (p_state p') b)"
  shows "refines s s'"
proof (rule refines_one [OF s, where r = r and J = "Some j" and P = "Some p'" and b = b])
  have jr: "job_of (jobs s) r = Some j"
    using job_of_in [OF coherent_facts(2) [OF s]] tab_get_SomeD [OF j(1)] j(2) by auto
  then show "job_of (jobs s') = (job_of (jobs s))(r := Some j)" by (auto simp: jobs')
  show "moves (attempt_of s r) (map_option j_state (Some j), map_option p_state (Some p'), b)"
    using step by (simp add: attempt_of_def jr p)
qed (use runs' seg coherent_facts [OF s] in \<open>simp_all add: jobs'\<close>)

lemma finalize_effect:
  assumes "finalize st obs entries i clk s = Inr (k, s')"
  obtains p g j c segments' runs' where "settlement_context st False s = Inr (p, g, j)"
    "checkpoint_append (p_id p) i (Some (g_id g)) K_FINAL 1 (final_payload obs entries) (clk 0) (checkpoints s) = Inr (c, checkpoints s')"
    "k_id c = k"
    "segment_close (g_id g) G_COMPLETED (Some END_NORMAL) (clk 1) (segments s) = Inr (True, segments')"
    "run_update (p_id p) (p_rev p) (\<lambda>r. r\<lparr>p_state := P_FINALIZING, p_checkpoint := Some k, p_updated := clk 2\<rparr>)
       (\<lambda>r. p_state r = P_RUNNING) (runs s) = (1, runs')"
    "s' = s\<lparr>checkpoints := checkpoints s', segments := segments', runs := runs'\<rparr>"
  using assms
  by (auto simp: finalize_def bindE_Inr_iff split: if_splits prod.splits)

lemma finalize_refines:
  assumes s: "coherent s" and f: "finalize st obs entries i clk s = Inr (k, s')"
  shows "refines s s'"
  using f
proof (rule finalize_effect)
  fix p g j c segments' runs'
  assume ctx: "settlement_context st False s = Inr (p, g, j)"
    and close: "segment_close (g_id g) G_COMPLETED (Some END_NORMAL) (clk 1) (segments s) = Inr (True, segments')"
    and upd: "run_update (p_id p) (p_rev p) (\<lambda>r. r\<lparr>p_state := P_FINALIZING, p_checkpoint := Some k, p_updated := clk 2\<rparr>)
       (\<lambda>r. p_state r = P_RUNNING) (runs s) = (1, runs')"
    and s': "s' = s\<lparr>checkpoints := checkpoints s', segments := segments', runs := runs'\<rparr>"
  note c = settlement_context_facts [OF ctx] and facts = coherent_facts [OF s]
  have jobs': "jobs s' = jobs s" and seg': "segments s' = segments'" and runs': "runs s' = runs'"
    using arg_cong [OF s', of jobs] arg_cong [OF s', of segments] arg_cong [OF s', of runs] by simp_all
  let ?v = "\<lambda>r. r\<lparr>p_state := P_FINALIZING, p_checkpoint := Some k, p_updated := clk 2\<rparr>"
  have r: "runs' = tab_update (opt_where p_id p_rev (p_id p) (p_rev p) (\<lambda>r. p_state r = P_RUNNING)) (\<lambda>q. bump_run (?v q)) (runs s)"
    "tab_get p_id runs' = (tab_get p_id (runs s))(p_id p \<mapsto> bump_run (?v p))"
    using run_update_at [OF facts(3) c(1), of ?v "\<lambda>r. p_state r = P_RUNNING"] upd c(9) by auto
  have gg: "tab_get g_id (segments s) (g_id g) = Some g" using c(2) tab_get_SomeD [OF c(2)] by simp
  from facts(4) gg close show "refines s s'"
  proof (cases rule: segment_close_cases)
    case closed
    show ?thesis
      by (rule refines_run [OF s c(1,5,6), where p' = "bump_run (?v p)" and b = False])
        (use r closed c(3,8,9) facts in \<open>auto simp: jobs' seg' runs' tab_keyed_update bump_run_def moves_def\<close>)
  qed simp
qed

lemma accept_settle_refines:
  assumes s: "coherent s" and p: "tab_get p_id (runs s) (p_id p) = Some p"
    and j: "tab_get j_id (jobs s) (j_id j) = Some j" "j_run j = Some (p_id p)"
    and a: "accept_settle p j now s = Inr s'"
  shows "refines s s'"
proof -
  note facts = coherent_facts [OF s]
  let ?v = "\<lambda>r. r\<lparr>p_state := P_COMPLETED, p_completed := Some now, p_updated := now\<rparr>"
  from a obtain runs' jobs' where
    u: "run_update (p_id p) (p_rev p) ?v (\<lambda>r. p_state r = P_FINALIZING) (runs s) = (1, runs')"
    and t: "job_transition (j_id j) [J_RUNNING] J_COMPLETED now None None (jobs s) = Inr (True, jobs')"
    and s': "s' = s\<lparr>jobs := jobs', runs := runs'\<rparr>"
    by (auto simp: accept_settle_def bindE_Inr_iff split: prod.splits if_splits)
  have r: "p_state p = P_FINALIZING"
    "runs' = tab_update (opt_where p_id p_rev (p_id p) (p_rev p) (\<lambda>r. p_state r = P_FINALIZING)) (\<lambda>q. bump_run (?v q)) (runs s)"
    using run_update_at [OF facts(3) p, of ?v "\<lambda>r. p_state r = P_FINALIZING"] u by (auto split: if_splits)
  have t': "j_state j = J_RUNNING"
    "jobs' = tab_update (\<lambda>k. j_id k = j_id j \<and> j_state k \<in> set [J_RUNNING]) (transition_values J_COMPLETED now None None) (jobs s)"
    using t job_transition_at [OF facts(1) j(1), of J_COMPLETED "[J_RUNNING]" now None None]
    by (auto split: if_splits)
  have "\<not> running_segment (segments s) (p_id p)"
    using attempt_of_known [OF s j p] t'(1) r(1) by (auto simp: lawful_attempts_def)
  then show ?thesis
    by (intro refines_settle [OF s p j, where b = False and v = ?v and to = J_COMPLETED and sts = "[J_RUNNING]" and now = now and c = None and d = None])
      (use r t' facts in \<open>auto simp: s' moves_def fun_eq_iff\<close>)
qed

text \<open>What a claim does to a coherent database: nothing, a job without a run failed, or a start.\<close>

definition claimed :: "string \<Rightarrow> time \<Rightarrow> time \<Rightarrow> job \<Rightarrow> claimed_job" where
  "claimed owner now lease_for j =
     \<lparr>cj_id = j_id j, cj_type = j_type j, cj_run = j_run j, cj_payload_version = j_payload_version j,
      cj_payload = j_payload j, cj_attempt = j_attempt j, cj_owner = owner, cj_expires = now + lease_for\<rparr>"

definition next_source_job :: "db \<Rightarrow> job option" where
  "next_source_job s = first_by claim_order (filter (eligible (Some [PROCESS_SOURCE])) (jobs s))"

lemma claim_next_next:
  "claim_next owner now l (Some [PROCESS_SOURCE]) (jobs s) =
     (case next_source_job s of None \<Rightarrow> (None, jobs s)
      | Some j \<Rightarrow> (Some (claimed owner now l j),
          tab_update (\<lambda>r. j_id r = j_id j) (lease_values owner now (now + l)) (jobs s)))"
  by (auto simp: claim_next_def next_source_job_def claimed_def Let_def split: option.split)

lemma next_source_job_SomeD:
  "next_source_job s = Some j \<Longrightarrow> j \<in> set (jobs s) \<and> j_state j = J_QUEUED \<and> j_type j = PROCESS_SOURCE"
  by (auto simp: next_source_job_def eligible_def dest!: first_by_Some(1))

definition start_values :: "time \<Rightarrow> run \<Rightarrow> run" where
  "start_values now p = p\<lparr>p_state := P_RUNNING, p_started := Some now, p_updated := now\<rparr>"

lemma start_values_simps [simp]:
  "p_id (start_values now p) = p_id p" "p_state (start_values now p) = P_RUNNING"
  by (simp_all add: start_values_def)

lemma claim_source_job_nothing:
  "owner \<noteq> [] \<Longrightarrow> next_source_job s = None \<Longrightarrow> claim_source_job owner now l i s = Inr (None, s)"
  by (simp add: claim_source_job_def claim_next_next)

lemma claim_source_job_no_run:
  assumes s: "coherent s" and j: "next_source_job s = Some j" "j_run j = None" and "owner \<noteq> []"
  shows "claim_source_job owner now l i s = Inr (None, s\<lparr>jobs :=
      tab_update (\<lambda>k. j_id k = j_id j \<and> j_state k \<in> set [J_RUNNING])
        (transition_values J_FAILED now (Some ''PROCESSING_RUN_MISSING'')
          (Some ''the claimed job cannot start a pending processing run''))
        (tab_update (\<lambda>r. j_id r = j_id j) (lease_values owner now (now + l)) (jobs s))\<rparr>)"
proof -
  let ?t = "tab_update (\<lambda>r. j_id r = j_id j) (lease_values owner now (now + l)) (jobs s)"
  have in_t: "j \<in> set (jobs s)" using next_source_job_SomeD [OF j(1)] by simp
  note facts = coherent_facts [OF s]
  have get: "tab_get j_id ?t (j_id j) = Some (lease_values owner now (now + l) j)"
    using tab_get_in [OF facts(1) in_t] by (simp add: tab_get_update)
  have keyed: "tab_keyed j_id ?t" using facts(1) by (simp add: tab_keyed_update)
  show ?thesis
    using job_transition_at [OF keyed get, of J_FAILED "[J_RUNNING]" now "Some ''PROCESSING_RUN_MISSING''"
        "Some ''the claimed job cannot start a pending processing run''"] assms(4)
    by (simp add: claim_source_job_def claim_next_next j claimed_def claim_fail_def)
qed

lemma claim_source_job_start:
  assumes s: "coherent s" and j: "next_source_job s = Some j" "j_run j = Some r" and owner: "owner \<noteq> []"
    and fresh: "tab_get g_id (segments s) i = None"
  obtains p g where "tab_get p_id (runs s) r = Some p" "p_state p = P_PENDING"
    "segment_append r i None (JObj [(''schema_version'', JInt 1)]) now (segments s) = Inr (g, segments s @ [g])"
    "claim_source_job owner now l i s = Inr (Some \<lparr>st_job = claimed owner now l j, st_segment = i\<rparr>,
       s\<lparr>jobs := tab_update (\<lambda>k. j_id k = j_id j) (lease_values owner now (now + l)) (jobs s),
         runs := tab_update (opt_where p_id p_rev r (p_rev p) (\<lambda>q. p_state q = P_PENDING))
                   (\<lambda>q. bump_run (start_values now q)) (runs s),
         segments := segments s @ [g]\<rparr>)"
proof -
  note facts = coherent_facts [OF s] and jd = next_source_job_SomeD [OF j(1)]
  obtain p where p: "tab_get p_id (runs s) r = Some p"
    and lawful: "att (j_state j) (p_state p) (running_segment (segments s) r) \<in> lawful_attempts"
    using attempt_of_job [OF s tab_get_in [OF facts(1)] j(2)] jd by blast
  then have pend: "p_state p = P_PENDING" and idle: "\<not> running_segment (segments s) r"
    using jd by (auto simp: lawful_attempts_def)
  have rp: "p_id p = r" using p by (auto dest: tab_get_SomeD)
  define g where "g = \<lparr>g_id = i, g_run = r, g_variant = None,
     g_ordinal = next_ordinal g_run g_ordinal r (segments s), g_state = G_RUNNING, g_started = now,
     g_ended = None, g_reason = None, g_details = JObj [(''schema_version'', JInt 1)], g_created = now\<rparr>"
  have app: "segment_append r i None (JObj [(''schema_version'', JInt 1)]) now (segments s) = Inr (g, segments s @ [g])"
    using idle fresh by (auto simp: segment_append_def Let_def g_def running_segment_def list_ex_iff)
  have sv: "(\<lambda>q. q\<lparr>p_state := P_RUNNING, p_started := Some now, p_updated := now\<rparr>) = start_values now"
    by (rule ext) (simp add: start_values_def)
  have upd: "run_update r (p_rev p) (start_values now) (\<lambda>q. p_state q = P_PENDING) (runs s) =
      (1, tab_update (opt_where p_id p_rev r (p_rev p) (\<lambda>q. p_state q = P_PENDING))
        (\<lambda>q. bump_run (start_values now q)) (runs s))"
    using run_update_at [OF facts(3) p, of "start_values now" "\<lambda>q. p_state q = P_PENDING"] pend by simp
  show ?thesis
    by (rule that [OF p pend app])
      (use owner p pend rp app upd in \<open>simp add: claim_source_job_def claim_next_next j claimed_def start_run_def sv g_def\<close>)
qed

lemma claim_source_job_fresh:
  assumes s: "coherent s" and c: "claim_source_job owner now l i s = Inr (st, s')"
    and j: "next_source_job s = Some j" "j_run j = Some r"
  shows "tab_get g_id (segments s) i = None"
proof (rule ccontr)
  note jd = next_source_job_SomeD [OF j(1)]
  have "\<exists>p. tab_get p_id (runs s) r = Some p \<and> p_state p = P_PENDING"
    using attempt_of_job [OF s tab_get_in [OF coherent_facts(1) [OF s]] j(2)] jd
    by (auto simp: lawful_attempts_def)
  moreover assume "tab_get g_id (segments s) i \<noteq> None"
  ultimately show False
    using c j
    by (auto simp: claim_source_job_def claim_next_next claimed_def start_run_def claim_fail_def
        segment_append_def bindE_Inr_iff Let_def split: option.splits if_splits prod.splits)
qed

lemma claim_source_job_refines:
  assumes s: "coherent s" and c: "claim_source_job owner now l i s = Inr (st, s')"
  shows "refines s s'"
proof -
  have owner: "owner \<noteq> []" using c by (auto simp: claim_source_job_def)
  note facts = coherent_facts [OF s]
  show ?thesis
  proof (cases "next_source_job s")
    case None
    with c s owner show ?thesis by (simp add: claim_source_job_nothing refines_refl)
  next
    case (Some j)
    note jd = next_source_job_SomeD [OF Some]
    have get: "tab_get j_id (jobs s) (j_id j) = Some j" using tab_get_in [OF facts(1), of j] jd by simp
    let ?t = "tab_update (\<lambda>r. j_id r = j_id j) (lease_values owner now (now + l)) (jobs s)"
    have t: "job_table_ok ?t" using facts(6) by (simp add: job_table_ok_update)
    have job_t: "job_of ?t = (case j_run j of None \<Rightarrow> job_of (jobs s)
        | Some r \<Rightarrow> (job_of (jobs s))(r \<mapsto> lease_values owner now (now + l) j))"
      by (rule job_of_update_at [OF facts(1,2) get]) simp_all
    show ?thesis
    proof (cases "j_run j")
      case None
      let ?f = "transition_values J_FAILED now (Some ''PROCESSING_RUN_MISSING'')
          (Some ''the claimed job cannot start a pending processing run'')"
      let ?u = "tab_update (\<lambda>k. j_id k = j_id j \<and> j_state k \<in> set [J_RUNNING]) ?f ?t"
      have s': "s' = s\<lparr>jobs := ?u\<rparr>"
        using c claim_source_job_no_run [OF s Some None owner, of now l i] by simp
      have "tab_get j_id ?t (j_id j) = Some (lease_values owner now (now + l) j)"
        using get by (simp add: tab_get_update)
      then have "job_of ?u = job_of ?t"
        using job_of_update_at [of ?t "j_id j" _ "\<lambda>k. j_id k = j_id j \<and> j_state k \<in> set [J_RUNNING]" ?f] t None
        by (simp add: job_table_ok_def)
      then have "job_of (jobs s') = job_of (jobs s)" using job_t None by (simp add: s')
      then have "attempt_of s' r = attempt_of s r" for r by (simp add: attempt_of_def s')
      moreover have "job_table_ok ?u" using t by (rule job_table_ok_update) simp
      ultimately show ?thesis
        by (intro refinesI [OF s]) (use facts in \<open>simp_all add: s'\<close>)
    next
      case (Some r)
      have fresh: "tab_get g_id (segments s) i = None"
        using claim_source_job_fresh [OF s c \<open>next_source_job s = Some j\<close> Some] .
      show ?thesis
      proof (rule claim_source_job_start [OF s \<open>next_source_job s = Some j\<close> Some owner fresh])
        fix p g assume p: "tab_get p_id (runs s) r = Some p" "p_state p = P_PENDING"
          and app: "segment_append r i None (JObj [(''schema_version'', JInt 1)]) now (segments s) = Inr (g, segments s @ [g])"
          and res: "claim_source_job owner now l i s = Inr (Some \<lparr>st_job = claimed owner now l j, st_segment = i\<rparr>,
             s\<lparr>jobs := ?t, runs := tab_update (opt_where p_id p_rev r (p_rev p) (\<lambda>q. p_state q = P_PENDING))
                   (\<lambda>q. bump_run (start_values now q)) (runs s), segments := segments s @ [g]\<rparr>)"
        note g = segment_append_inv [OF facts(4) app]
        have s': "s' = s\<lparr>jobs := ?t, runs := tab_update (opt_where p_id p_rev r (p_rev p) (\<lambda>q. p_state q = P_PENDING))
                   (\<lambda>q. bump_run (start_values now q)) (runs s), segments := segments s @ [g]\<rparr>"
          using c res by simp
        have r': "tab_get p_id (runs s') = (tab_get p_id (runs s))(r \<mapsto> bump_run (start_values now p))"
          using run_update_at [OF facts(3) p(1), of "start_values now" "\<lambda>q. p_state q = P_PENDING"] p(2)
          by (simp add: s')
        have jr: "job_of (jobs s) r = Some j" using job_of_in [OF facts(2)] jd Some by blast
        have "att (j_state j) (p_state p) (running_segment (segments s) r) \<in> lawful_attempts"
          using attempt_of_known [OF s get Some p(1)] .
        then have "\<not> running_segment (segments s) r" using p(2) by (auto simp: lawful_attempts_def)
        then show "refines s s'"
          by (intro refines_one [OF s, where r = r and J = "Some (lease_values owner now (now + l) j)"
                and P = "Some (bump_run (start_values now p))" and b = True])
            (use t job_t r' g Some jr jd p facts in
              \<open>simp_all add: s' tab_keyed_update bump_run_def running_segment_append attempt_of_def moves_def\<close>)
      qed
    qed
  qed
qed

lemma mark_run_not_resumable_refines:
  assumes s: "coherent s"
  shows "refines s (mark_run_not_resumable r detail now s)"
proof (rule refinesI [OF s])
  note facts = coherent_facts [OF s]
  fix q show "moves (attempt_of s q) (attempt_of (mark_run_not_resumable r detail now s) q)"
    using facts(5) [of q]
    by (cases "tab_get p_id (runs s) q")
      (auto simp: attempt_of_def mark_run_not_resumable_def tab_get_update lawful_attempts_def moves_def)
qed (use coherent_facts [OF s] in \<open>simp_all add: mark_run_not_resumable_def tab_keyed_update\<close>)

lemma runner_refuse_final_refines:
  assumes s: "coherent s" and j: "tab_get j_id (jobs s) i = Some j" "j_run j = Some r"
    and p: "tab_get p_id (runs s) r = Some p" "p_state p \<noteq> P_RUNNING"
    and f: "runner_refuse_final r i detail now s = Inr s'"
  shows "refines s s'"
proof -
  note facts = coherent_facts [OF s]
  let ?s = "mark_run_not_resumable r detail now s"
  have same: "jobs ?s = jobs s" "segments ?s = segments s" by (simp_all add: mark_run_not_resumable_def)
  have lawful: "att (j_state j) (p_state p) (running_segment (segments s) r) \<in> lawful_attempts"
    using attempt_of_known [OF s j p(1)] .
  have jr: "job_of (jobs s) r = Some j" using job_of_in [OF facts(2)] tab_get_SomeD [OF j(1)] j(2) by auto
  show ?thesis
  proof (cases "j_state j = J_RUNNING")
    case False
    then have "s' = ?s"
      using f job_transition_at [OF facts(1) j(1), of J_FAILED "[J_RUNNING]"]
      by (simp add: runner_refuse_final_def Let_def same) (simp add: mark_run_not_resumable_def)
    with mark_run_not_resumable_refines [OF s] show ?thesis by simp
  next
    case True
    let ?f = "transition_values J_FAILED now (Some ''FINAL_NOT_ACCEPTABLE'') (Some ''the FINAL checkpoint was not acceptable'')"
    let ?t = "tab_update (\<lambda>j. j_id j = i \<and> j_state j \<in> set [J_RUNNING]) ?f (jobs s)"
    have s': "s' = ?s\<lparr>jobs := ?t\<rparr>"
      using f True job_transition_at [OF facts(1) j(1), of J_FAILED "[J_RUNNING]"]
      by (simp add: runner_refuse_final_def Let_def same)
    have t: "job_of (jobs s') = (job_of (jobs s))(r \<mapsto> ?f j)"
      unfolding s' using job_of_update_at [OF facts(1,2) j(1), of "\<lambda>j. j_id j = i \<and> j_state j \<in> set [J_RUNNING]" ?f]
        True j(2) tab_get_SomeD [OF j(1)] by auto
    have runs': "tab_get p_id (runs s') q = map_option (\<lambda>p. if p_id p = r \<and> p_state p = P_FINALIZING
        then p\<lparr>p_state := P_NOT_RESUMABLE, p_rev := p_rev p + 1, p_code := Some ''FINAL_NOT_ACCEPTABLE'',
               p_detail := Some detail, p_updated := now\<rparr> else p) (tab_get p_id (runs s) q)" for q
      by (simp add: s' mark_run_not_resumable_def tab_get_update)
    have seg': "segments s' = segments s" by (simp add: s' same)
    have rp: "p_id p = r" using tab_get_SomeD [OF p(1)] by simp
    have "p_state p \<in> {P_FINALIZING, P_NOT_RESUMABLE} \<and> \<not> running_segment (segments s) r"
      using lawful True p(2) by (auto simp: lawful_attempts_def)
    then have "moves (attempt_of s r) (attempt_of s' r)"
      using True by (auto simp: attempt_of_def t runs' seg' jr p(1) rp moves_def)
    moreover have "attempt_of s' q = attempt_of s q" if "q \<noteq> r" for q
      using that by (cases "tab_get p_id (runs s) q")
        (auto simp: attempt_of_def t runs' seg' dest: tab_get_SomeD)
    ultimately have "moves (attempt_of s q) (attempt_of s' q)" for q by (cases "q = r") simp_all
    moreover have "job_table_ok ?t" using facts(6) by (rule job_table_ok_update) simp
    moreover have "tab_keyed p_id (runs s')"
      using facts(3) by (simp add: s' mark_run_not_resumable_def tab_keyed_update)
    ultimately show ?thesis
      by (intro refinesI [OF s]) (use facts in \<open>simp_all add: s' same\<close>)
  qed
qed

lemma finalizing_run_ids_iff:
  "tab_keyed p_id t \<Longrightarrow> r \<in> set (finalizing_run_ids t) \<longleftrightarrow>
     (\<exists>p. tab_get p_id t r = Some p \<and> p_state p = P_FINALIZING)"
  by (auto simp: finalizing_run_ids_def dest: tab_get_SomeD tab_get_in)

text \<open>The three tables after \<open>_interrupt\<close>, row by row.\<close>

definition settled_job_state :: "bool \<Rightarrow> job_state \<Rightarrow> job_state" where
  "settled_job_state finalizing x =
     (if x = J_RUNNING \<and> \<not> finalizing then J_INTERRUPTED else if x = J_PAUSING then J_PAUSED
      else if x = J_CANCELLING then J_CANCELLED else x)"

definition settled_run_state :: "run_state \<Rightarrow> run_state" where
  "settled_run_state x =
     (if x = P_RUNNING then P_INTERRUPTED else if x = P_PAUSING then P_PAUSED
      else if x = P_CANCELLING then P_CANCELLED else x)"

lemmas interrupt_tables_defs = interrupt_def update_returning_def move_jobs_def move_runs_def Let_def

lemma interrupt_runs:
  "runs (snd (interrupt now s)) = snd (move_runs P_CANCELLING P_CANCELLED now
     (snd (move_runs P_PAUSING P_PAUSED now (snd (move_runs P_RUNNING P_INTERRUPTED now (runs s))))))"
  by (simp add: interrupt_tables_defs)

lemma interrupt_jobs:
  "jobs (snd (interrupt now s)) =
     tab_update (\<lambda>j. j_owner j \<noteq> None \<or> j_expires j \<noteq> None)
       (\<lambda>j. j\<lparr>j_owner := None, j_expires := None, j_updated := now\<rparr>)
     (snd (move_jobs J_CANCELLING J_CANCELLED now (snd (move_jobs J_PAUSING J_PAUSED now
       (tab_update (\<lambda>j. j_state j = J_RUNNING \<and>
           (case j_run j of None \<Rightarrow> True | Some r \<Rightarrow> r \<notin> set (finalizing_run_ids (runs s))))
         (\<lambda>j. j\<lparr>j_state := J_INTERRUPTED, j_owner := None, j_expires := None, j_updated := now\<rparr>)
         (jobs s))))))"
  by (simp add: interrupt_tables_defs)

lemma interrupt_segments:
  "segments (snd (interrupt now s)) = tab_update (\<lambda>g. g_state g = G_RUNNING)
     (\<lambda>g. g\<lparr>g_state := G_INTERRUPTED, g_ended := Some now\<rparr>) (segments s)"
  by (simp add: interrupt_tables_defs)

lemma interrupt_run:
  "tab_get p_id (runs (snd (interrupt now s))) r = map_option
     (\<lambda>p. if settled_run_state (p_state p) = p_state p then p
          else p\<lparr>p_state := settled_run_state (p_state p), p_rev := p_rev p + 1, p_updated := now\<rparr>)
     (tab_get p_id (runs s) r)"
  unfolding interrupt_runs move_runs_def update_returning_def
  by (cases "tab_get p_id (runs s) r") (auto simp: tab_get_update settled_run_state_def)

lemma interrupt_job_of:
  "map_option j_state (job_of (jobs (snd (interrupt now s))) r) = map_option
     (\<lambda>j. settled_job_state (r \<in> set (finalizing_run_ids (runs s))) (j_state j)) (job_of (jobs s) r)"
proof (cases "job_of (jobs s) r")
  case (Some j)
  then have "j_run j = Some r" using job_of_SomeD by blast
  with Some show ?thesis
    unfolding interrupt_jobs move_jobs_def update_returning_def
    by (auto simp: Let_def job_of_update settled_job_state_def)
qed (simp add: interrupt_jobs move_jobs_def update_returning_def Let_def job_of_update)

lemma interrupt_no_running_segment: "\<not> running_segment (segments (snd (interrupt now s))) r"
  by (auto simp: running_segment_def interrupt_segments set_tab_update)

lemma interrupt_refines:
  assumes s: "coherent s"
  shows "refines s (snd (interrupt now s))"
proof (rule refinesI [OF s])
  note facts = coherent_facts [OF s]
  show "job_table_ok (jobs (snd (interrupt now s)))"
    unfolding interrupt_jobs move_jobs_def update_returning_def snd_conv
    by (intro job_table_ok_update facts(6)) (simp_all add: Let_def)
  show "tab_keyed p_id (runs (snd (interrupt now s)))"
    using facts(3) by (simp add: interrupt_runs update_returning_def move_runs_def tab_keyed_update)
  show "segments_inv (segments (snd (interrupt now s)))"
    unfolding interrupt_segments using facts(4) by (rule segments_update_inv) simp
  fix r show "moves (attempt_of s r) (attempt_of (snd (interrupt now s)) r)"
    using facts(5) [of r] finalizing_run_ids_iff [OF facts(3), of r]
    by (auto simp: attempt_of_def interrupt_run interrupt_job_of interrupt_no_running_segment
        lawful_attempts_def moves_def settled_run_state_def settled_job_state_def)
qed

section \<open>Reachable databases\<close>

text \<open>
  The transactions that write jobs, runs and segments. Where a rule has a premise beside the result,
  it is what its only caller has read in the same transaction (acceptance), or what it knows because
  the executor has returned from \<open>_finalize\<close> (\<open>_refuse_final\<close>: the claimed job, whose run has left
  \<open>RUNNING\<close>).
\<close>

inductive db_step :: "db \<Rightarrow> db \<Rightarrow> bool" where
  requested: "schedule_source ids now src prio resolved action s = Inr (sc, s') \<Longrightarrow> db_step s s'"
| claimed: "claim_source_job owner now l i s = Inr (st, s') \<Longrightarrow> db_step s s'"
| cancelled: "cancel_run r now s = Inr (outcome, s') \<Longrightarrow> db_step s s'"
| finalized: "finalize st obs entries i clk s = Inr (k, s') \<Longrightarrow> db_step s s'"
| settled_cancel: "executor_cancel st now s = Inr s' \<Longrightarrow> db_step s s'"
| settled_failure: "db_step s (executor_fail st code now s)"
| accepted: "tab_get p_id (runs s) (p_id p) = Some p \<Longrightarrow> tab_get j_id (jobs s) (j_id j) = Some j \<Longrightarrow>
    j_run j = Some (p_id p) \<Longrightarrow> accept_settle p j now s = Inr s' \<Longrightarrow> db_step s s'"
| refused_at_startup: "db_step s (mark_run_not_resumable r detail now s)"
| refused: "tab_get j_id (jobs s) i = Some j \<Longrightarrow> j_run j = Some r \<Longrightarrow> tab_get p_id (runs s) r = Some p \<Longrightarrow>
    p_state p \<noteq> P_RUNNING \<Longrightarrow> runner_refuse_final r i detail now s = Inr s' \<Longrightarrow> db_step s s'"
| restarted: "db_step s (snd (interrupt now s))"
| retried: "retry_job ids now i s = Inr (sc, s') \<Longrightarrow> db_step s s'"

inductive_cases db_stepE: "db_step s s'"

inductive reachable :: "db \<Rightarrow> bool" where
  start: "jobs s = [] \<Longrightarrow> runs s = [] \<Longrightarrow> segments s = [] \<Longrightarrow> reachable s"
| step: "reachable s \<Longrightarrow> db_step s s' \<Longrightarrow> reachable s'"

lemmas transaction_refines =
  schedule_source_refines claim_source_job_refines cancel_run_refines finalize_refines
  executor_cancel_refines executor_fail_refines accept_settle_refines mark_run_not_resumable_refines
  runner_refuse_final_refines interrupt_refines retry_job_refines

lemma db_step_refines: "db_step s s' \<Longrightarrow> coherent s \<Longrightarrow> refines s s'"
  by (induction rule: db_step.induct) (auto intro: transaction_refines)

lemma reachable_coherent: "reachable s \<Longrightarrow> coherent s"
proof (induction rule: reachable.induct)
  case (start s)
  then show ?case
    by (auto simp: coherent_def tab_keyed_def segments_inv_def ordinals_dense_def attempt_of_def
        job_of_def running_segment_def lawful_attempts_def)
next
  case (step s s')
  then show ?case using db_step_refines refines_def by blast
qed

section \<open>What a run keeps\<close>

definition run_edges :: "(run_state \<times> run_state) set" where
  "run_edges =
     {(P_PENDING, P_RUNNING), (P_PENDING, P_CANCELLED), (P_RUNNING, P_CANCELLING),
      (P_RUNNING, P_CANCELLED), (P_RUNNING, P_FAILED), (P_RUNNING, P_FINALIZING),
      (P_RUNNING, P_INTERRUPTED), (P_CANCELLING, P_CANCELLED), (P_PAUSING, P_PAUSED),
      (P_FINALIZING, P_COMPLETED), (P_FINALIZING, P_NOT_RESUMABLE)}"

definition over_run_states :: "run_state set" where
  "over_run_states = {P_CANCELLED, P_COMPLETED, P_FAILED, P_INTERRUPTED, P_NOT_RESUMABLE}"

definition run_moved :: "run \<Rightarrow> run \<Rightarrow> bool" where
  "run_moved p p' \<longleftrightarrow> (p_state p, p_state p') \<in> run_edges \<and> p_rev p' = p_rev p + 1 \<and>
     p_id p' = p_id p \<and> p_source p' = p_source p \<and> p_snapshot p' = p_snapshot p \<and>
     p_parent p' = p_parent p \<and> p_requested p' = p_requested p \<and> p_created p' = p_created p"

definition keeps_runs :: "db \<Rightarrow> db \<Rightarrow> bool" where
  "keeps_runs s s' \<longleftrightarrow>
     (\<forall>r p. tab_get p_id (runs s) r = Some p \<longrightarrow>
        (\<exists>p'. tab_get p_id (runs s') r = Some p' \<and> (p' = p \<or> run_moved p p'))) \<and>
     (\<forall>i n. tab_get n_id (snapshots s) i = Some n \<longrightarrow> tab_get n_id (snapshots s') i = Some n)"

lemma keeps_runs_update:
  assumes "runs s' = tab_update w f (runs s)" and "snapshots s' = snapshots s"
    and "\<And>p. p_id (f p) = p_id p"
    and "\<And>p. p \<in> set (runs s) \<Longrightarrow> w p \<Longrightarrow> run_moved p (f p)"
  shows "keeps_runs s s'"
  using assms(4) by (auto simp: keeps_runs_def assms(1-3) tab_get_update dest: tab_get_SomeD)

lemma keeps_runs_same: "runs s' = runs s \<Longrightarrow> snapshots s' = snapshots s \<Longrightarrow> keeps_runs s s'"
  by (simp add: keeps_runs_def)

lemma run_update_keeps:
  assumes "tab_keyed p_id (runs s)" and "tab_get p_id (runs s) r = Some p"
    and "run_update r (p_rev p) v x (runs s) = (n, runs')" and "runs s' = runs'"
    and "snapshots s' = snapshots s" and "\<And>q. p_id (v q) = p_id q"
    and "x p \<Longrightarrow> run_moved p (bump_run (v p))"
  shows "keeps_runs s s'"
proof (rule keeps_runs_update [where w = "opt_where p_id p_rev r (p_rev p) x" and f = "\<lambda>q. bump_run (v q)"])
  show "runs s' = tab_update (opt_where p_id p_rev r (p_rev p) x) (\<lambda>q. bump_run (v q)) (runs s)"
    using assms(3,4) by (simp add: run_update_def optimistic_locked_update_def)
  fix q assume "q \<in> set (runs s)" "opt_where p_id p_rev r (p_rev p) x q"
  moreover then have "q = p"
    using assms(1,2) by (auto simp: opt_where_def dest: tab_get_SomeD tab_keyed_inj)
  ultimately show "run_moved q (bump_run (v q))" using assms(7) by (simp add: opt_where_def)
qed (use assms in \<open>simp_all add: bump_run_def\<close>)

lemma insert_attempt_keeps:
  assumes "insert_attempt ids now src version body action parent job_for s = Inr (sc, s')"
  shows "keeps_runs s s'"
  using assms
  by (rule insert_attempt_effect) (auto simp: keeps_runs_def tab_get_append)

lemma settle_claim_keeps:
  assumes s: "coherent s"
    and settle: "settle_claim st job_from run_from seg_to reason v job_to code detail msg now s = Inr s'"
    and v: "\<And>q. p_id (v q) = p_id q" "\<And>q. p_state q \<in> set run_from \<Longrightarrow> run_moved q (bump_run (v q))"
  shows "keeps_runs s s'"
proof -
  have "\<exists>w. runs s' = tab_update w (\<lambda>q. bump_run (v q)) (runs s) \<and> snapshots s' = snapshots s \<and>
      (\<forall>q. w q \<longrightarrow> p_state q \<in> set run_from)"
  proof (cases "runs s' = runs s \<and> snapshots s' = snapshots s")
    case True
    moreover have "runs s = tab_update (\<lambda>_. False) (\<lambda>q. bump_run (v q)) (runs s)"
      by (simp add: tab_update_none)
    ultimately show ?thesis by metis
  next
    case False
    with settle obtain i e n where "snapshots s' = snapshots s"
      "run_update i e v (\<lambda>r. p_state r \<in> set run_from) (runs s) = (n, runs s')"
      by (auto simp: settle_claim_def bindE_Inr_iff Let_def split: option.splits if_splits prod.splits)
    then show ?thesis
      by (intro exI [of _ "opt_where p_id p_rev i e (\<lambda>r. p_state r \<in> set run_from)"])
        (simp add: run_update_def optimistic_locked_update_def opt_where_def)
  qed
  then obtain w where "runs s' = tab_update w (\<lambda>q. bump_run (v q)) (runs s)" "snapshots s' = snapshots s"
    "\<And>q. w q \<Longrightarrow> p_state q \<in> set run_from" by blast
  with v show ?thesis
    by (intro keeps_runs_update [where w = w and f = "\<lambda>q. bump_run (v q)"]) (auto simp: bump_run_def)
qed

lemma interrupt_keeps: "keeps_runs s (snd (interrupt now s))"
proof -
  have "snapshots (snd (interrupt now s)) = snapshots s" by (simp add: interrupt_tables_defs)
  moreover have "settled_run_state x \<noteq> x \<Longrightarrow> (x, settled_run_state x) \<in> run_edges" for x
    by (auto simp: settled_run_state_def run_edges_def split: if_splits)
  ultimately show ?thesis
    by (auto simp: keeps_runs_def interrupt_run run_moved_def)
qed

lemma claim_source_job_keeps:
  assumes s: "coherent s" and c: "claim_source_job owner now l i s = Inr (st, s')"
  shows "keeps_runs s s'"
proof -
  have owner: "owner \<noteq> []" using c by (auto simp: claim_source_job_def)
  show ?thesis
  proof (cases "snapshots s' = snapshots s \<and> runs s' = runs s")
    case False
    obtain j where j: "next_source_job s = Some j"
      using False c owner by (cases "next_source_job s") (auto simp: claim_source_job_nothing)
    obtain r where r: "j_run j = Some r"
      using False c claim_source_job_no_run [OF s j _ owner] by (cases "j_run j") auto
    obtain p where p: "tab_get p_id (runs s) r = Some p" "p_state p = P_PENDING"
      and "runs s' = snd (run_update r (p_rev p) (start_values now) (\<lambda>q. p_state q = P_PENDING) (runs s))"
      and "snapshots s' = snapshots s"
      by (rule claim_source_job_start [OF s j r owner claim_source_job_fresh [OF s c j r], where now = now and l = l])
        (use c in \<open>simp add: run_update_def optimistic_locked_update_def\<close>)
    then show ?thesis
      by (intro run_update_keeps [OF coherent_facts(3) [OF s] p(1), where v = "start_values now"
            and x = "\<lambda>q. p_state q = P_PENDING", OF prod.collapse [symmetric]])
        (auto simp: run_moved_def run_edges_def start_values_def bump_run_def)
  qed (auto intro: keeps_runs_same)
qed

lemma cancel_settle_effect:
  assumes "cancel_settle p j job_from job_to run_to now s = Inr s'"
  shows "snapshots s' = snapshots s \<and> runs s' = snd (run_update (p_id p) (p_rev p)
    (\<lambda>r. r\<lparr>p_state := run_to, p_updated := now\<rparr>) (\<lambda>_. True) (runs s))"
  using assms
  by (cases "run_update (p_id p) (p_rev p) (\<lambda>r. r\<lparr>p_state := run_to, p_updated := now\<rparr>) (\<lambda>_. True) (runs s)")
    (auto simp: cancel_settle_def bindE_Inr_iff split: if_splits)

lemma db_step_keeps_runs:
  assumes "db_step s s'" and s: "coherent s"
  shows "keeps_runs s s'"
  using assms(1)
proof (cases rule: db_step.cases)
  case (requested ids now src prio resolved action sc)
  then show ?thesis
    by (auto simp: schedule_source_def bindE_Inr_iff split: option.splits elim: insert_attempt_keeps)
next
  case (claimed owner now l i st)
  then show ?thesis using claim_source_job_keeps [OF s] by blast
next
  case (cancelled r now outcome)
  from cancelled(1) show ?thesis
  proof (cases rule: cancel_run_cases)
    case already
    then show ?thesis by (simp add: keeps_runs_same)
  next
    case (withdrawn p j)
    have rp: "p_id p = r" using tab_get_SomeD [OF withdrawn(1)] by simp
    have "p_state p = P_PENDING"
      using cancel_settle_refines [OF s withdrawn(1) _ _ withdrawn(5)] filter_singleD [OF withdrawn(2)]
        attempt_of_known [OF s tab_get_in [OF coherent_facts(1) [OF s]], of j r p] withdrawn(1,3)
      by (auto simp: lawful_attempts_def)
    with cancel_settle_effect [OF withdrawn(5)] show ?thesis
      by (intro run_update_keeps [OF coherent_facts(3) [OF s] withdrawn(1), where v = "\<lambda>r. r\<lparr>p_state := P_CANCELLED, p_updated := now\<rparr>" and x = "\<lambda>_. True", OF prod.collapse [symmetric]])
        (auto simp: rp run_moved_def run_edges_def bump_run_def)
  next
    case (requested p j)
    have rp: "p_id p = r" using tab_get_SomeD [OF requested(1)] by simp
    with requested(4) cancel_settle_effect [OF requested(6)] show ?thesis
      by (intro run_update_keeps [OF coherent_facts(3) [OF s] requested(1), where v = "\<lambda>r. r\<lparr>p_state := P_CANCELLING, p_updated := now\<rparr>" and x = "\<lambda>_. True", OF prod.collapse [symmetric]])
        (auto simp: rp run_moved_def run_edges_def bump_run_def)
  qed
next
  case (finalized st obs entries i clk k)
  from finalized show ?thesis
  proof (rule finalize_effect)
    fix p g j c segments' runs'
    assume ctx: "settlement_context st False s = Inr (p, g, j)"
      and upd: "run_update (p_id p) (p_rev p) (\<lambda>r. r\<lparr>p_state := P_FINALIZING, p_checkpoint := Some k, p_updated := clk 2\<rparr>)
         (\<lambda>r. p_state r = P_RUNNING) (runs s) = (1, runs')"
      and s': "s' = s\<lparr>checkpoints := checkpoints s', segments := segments', runs := runs'\<rparr>"
    have "runs s' = runs'" "snapshots s' = snapshots s"
      using arg_cong [OF s', of runs] arg_cong [OF s', of snapshots] by simp_all
    then show "keeps_runs s s'"
      by (intro run_update_keeps [OF coherent_facts(3) [OF s] settlement_context_facts(1) [OF ctx] upd])
        (auto simp: run_moved_def run_edges_def bump_run_def)
  qed
next
  case (settled_cancel st now)
  then show ?thesis
    unfolding executor_cancel_def
    by (elim settle_claim_keeps [OF s]) (auto simp: run_moved_def run_edges_def bump_run_def)
next
  case (settled_failure st code now)
  then show ?thesis
    by (auto simp: executor_fail_def keeps_runs_same run_moved_def run_edges_def bump_run_def
        split: sum.splits elim!: settle_claim_keeps [OF s])
next
  case (accepted p j now)
  then show ?thesis
    by (intro run_update_keeps [OF coherent_facts(3) [OF s] accepted(1), where v = "\<lambda>r. r\<lparr>p_state := P_COMPLETED, p_completed := Some now, p_updated := now\<rparr>" and x = "\<lambda>r. p_state r = P_FINALIZING", OF prod.collapse [symmetric]])
      (auto simp: accept_settle_def bindE_Inr_iff run_moved_def run_edges_def bump_run_def split: prod.splits if_splits)
next
  case (refused_at_startup r detail now)
  then show ?thesis
    by (intro keeps_runs_update [where w = "\<lambda>p. p_id p = r \<and> p_state p = P_FINALIZING"
        and f = "\<lambda>p. p\<lparr>p_state := P_NOT_RESUMABLE, p_rev := p_rev p + 1,
               p_code := Some ''FINAL_NOT_ACCEPTABLE'', p_detail := Some detail, p_updated := now\<rparr>"])
      (auto simp: mark_run_not_resumable_def run_moved_def run_edges_def)
next
  case (refused i j r p detail now)
  then show ?thesis
    by (intro keeps_runs_update [where w = "\<lambda>p. p_id p = r \<and> p_state p = P_FINALIZING"
        and f = "\<lambda>p. p\<lparr>p_state := P_NOT_RESUMABLE, p_rev := p_rev p + 1,
               p_code := Some ''FINAL_NOT_ACCEPTABLE'', p_detail := Some detail, p_updated := now\<rparr>"])
      (auto simp: runner_refuse_final_def mark_run_not_resumable_def bindE_Inr_iff Let_def run_moved_def run_edges_def)
next
  case (restarted now)
  then show ?thesis using interrupt_keeps by simp
next
  case (retried ids now i sc)
  then show ?thesis
    by (auto simp: retry_job_def bindE_Inr_iff keeps_runs_def split: option.splits if_splits bool.splits
        dest!: insert_attempt_keeps)
qed

text \<open>The attempts after a claim.\<close>

lemma claim_without_run:
  assumes s: "coherent s" and j: "next_source_job s = Some j" "j_run j = None" and owner: "owner \<noteq> []"
  shows "\<exists>s'. claim_source_job owner now l i s = Inr (None, s') \<and>
    map_option j_state (tab_get j_id (jobs s') (j_id j)) = Some J_FAILED \<and> attempt_of s' = attempt_of s"
proof -
  note facts = coherent_facts [OF s] and jd = next_source_job_SomeD [OF j(1)]
  let ?t = "tab_update (\<lambda>r. j_id r = j_id j) (lease_values owner now (now + l)) (jobs s)"
  let ?f = "transition_values J_FAILED now (Some ''PROCESSING_RUN_MISSING'')
      (Some ''the claimed job cannot start a pending processing run'')"
  let ?u = "tab_update (\<lambda>k. j_id k = j_id j \<and> j_state k \<in> set [J_RUNNING]) ?f ?t"
  have get: "tab_get j_id (jobs s) (j_id j) = Some j" using tab_get_in [OF facts(1), of j] jd by simp
  have t: "job_table_ok ?t" using facts(6) by (simp add: job_table_ok_update)
  have get_t: "tab_get j_id ?t (j_id j) = Some (lease_values owner now (now + l) j)"
    using get by (simp add: tab_get_update)
  have "job_of ?t = job_of (jobs s)"
    using job_of_update_at [OF facts(1,2) get, of "\<lambda>r. j_id r = j_id j" "lease_values owner now (now + l)"] j(2)
    by simp
  moreover have "job_of ?u = job_of ?t"
    using job_of_update_at [of ?t "j_id j" _ "\<lambda>k. j_id k = j_id j \<and> j_state k \<in> set [J_RUNNING]" ?f] t get_t j(2)
    by (simp add: job_table_ok_def)
  ultimately have "attempt_of (s\<lparr>jobs := ?u\<rparr>) r = attempt_of s r" for r by (simp add: attempt_of_def)
  moreover have "map_option j_state (tab_get j_id ?u (j_id j)) = Some J_FAILED"
    using get by (simp add: tab_get_update)
  ultimately show ?thesis
    using claim_source_job_no_run [OF s j owner, of now l i] by auto
qed

lemma claim_with_run:
  assumes s: "coherent s" and j: "next_source_job s = Some j" "j_run j = Some r" and owner: "owner \<noteq> []"
    and fresh: "tab_get g_id (segments s) i = None"
  shows "\<exists>p s'. tab_get p_id (runs s) r = Some p \<and> p_state p = P_PENDING \<and>
    claim_source_job owner now l i s = Inr (Some \<lparr>st_job = claimed owner now l j, st_segment = i\<rparr>, s') \<and>
    tab_get j_id (jobs s') (j_id j) = Some (lease_values owner now (now + l) j) \<and>
    tab_get p_id (runs s') r = Some (p\<lparr>p_state := P_RUNNING, p_started := Some now, p_updated := now,
      p_rev := p_rev p + 1\<rparr>) \<and>
    attempt_of s' = (attempt_of s)(r := att J_RUNNING P_RUNNING True)"
proof (rule claim_source_job_start [OF s j owner fresh, where now = now and l = l])
  note facts = coherent_facts [OF s] and jd = next_source_job_SomeD [OF j(1)]
  let ?lease = "lease_values owner now (now + l)"
  let ?t = "tab_update (\<lambda>k. j_id k = j_id j) ?lease (jobs s)"
  fix p :: run and g
  let ?u = "tab_update (opt_where p_id p_rev r (p_rev p) (\<lambda>q. p_state q = P_PENDING))
      (\<lambda>q. bump_run (start_values now q)) (runs s)"
  let ?s = "s\<lparr>jobs := ?t, runs := ?u, segments := segments s @ [g]\<rparr>"
  assume p: "tab_get p_id (runs s) r = Some p" "p_state p = P_PENDING"
    and app: "segment_append r i None (JObj [(''schema_version'', JInt 1)]) now (segments s) = Inr (g, segments s @ [g])"
    and res: "claim_source_job owner now l i s = Inr (Some \<lparr>st_job = claimed owner now l j, st_segment = i\<rparr>, ?s)"
  have get: "tab_get j_id (jobs s) (j_id j) = Some j" using tab_get_in [OF facts(1), of j] jd by simp
  have "job_of (jobs ?s) = (job_of (jobs s))(r \<mapsto> ?lease j)"
    using job_of_update_at [OF facts(1,2) get, of "\<lambda>k. j_id k = j_id j" ?lease] j(2) by simp
  moreover have u: "tab_get p_id (runs ?s) = (tab_get p_id (runs s))(r \<mapsto> bump_run (start_values now p))"
    using run_update_at [OF facts(3) p(1), of "start_values now" "\<lambda>q. p_state q = P_PENDING"] p(2) by simp
  moreover have "running_segment (segments ?s) = (running_segment (segments s))(r := True)"
    using segment_append_inv [OF facts(4) app] running_segment_append [of g "segments s"] by simp
  ultimately have "attempt_of ?s q = ((attempt_of s)(r := att J_RUNNING P_RUNNING True)) q" for q
    unfolding attempt_of_def by (auto simp: bump_run_def)
  moreover have "tab_get j_id (jobs ?s) (j_id j) = Some (?lease j)" using get by (simp add: tab_get_update)
  moreover have "tab_get p_id (runs ?s) r = Some (p\<lparr>p_state := P_RUNNING, p_started := Some now,
      p_updated := now, p_rev := p_rev p + 1\<rparr>)"
    using u by (simp add: bump_run_def start_values_def)
  ultimately show ?thesis using p res by blast
qed

section \<open>Properties of attempts\<close>

lemma rtranclp_reachable: "db_step\<^sup>*\<^sup>* s s' \<Longrightarrow> reachable s \<Longrightarrow> reachable s'"
  by (induction rule: rtranclp_induct) (auto intro: reachable.step)

text \<open>A run as it was and as it may be later.\<close>

definition run_later :: "run \<Rightarrow> run \<Rightarrow> bool" where
  "run_later p p' \<longleftrightarrow> p_rev p \<le> p_rev p' \<and> (p_rev p' = p_rev p \<longrightarrow> p' = p) \<and>
     (p_state p \<in> over_run_states \<longrightarrow> p' = p) \<and> p_source p' = p_source p \<and>
     p_snapshot p' = p_snapshot p \<and> p_parent p' = p_parent p"

lemma run_later_step: "run_later p p' \<Longrightarrow> p'' = p' \<or> run_moved p' p'' \<Longrightarrow> run_later p p''"
proof (elim disjE)
  assume later: "run_later p p'" and moved: "run_moved p' p''"
  then have "p_state p' \<notin> over_run_states"
    by (auto simp: run_moved_def run_edges_def over_run_states_def)
  with later moved show "run_later p p''"
    unfolding run_later_def run_moved_def by force
qed simp

lemma steps_keep_runs:
  assumes "db_step\<^sup>*\<^sup>* s s'" and "reachable s" and "tab_get p_id (runs s) r = Some p"
  shows "(\<exists>p'. tab_get p_id (runs s') r = Some p' \<and> run_later p p') \<and>
    (\<forall>i n. tab_get n_id (snapshots s) i = Some n \<longrightarrow> tab_get n_id (snapshots s') i = Some n)"
  using assms
proof (induction rule: rtranclp_induct)
  case base
  then show ?case by (simp add: run_later_def)
next
  case (step s' s'')
  have "coherent s'" using rtranclp_reachable [OF step.hyps(1)] step.prems(1) reachable_coherent by blast
  then have "keeps_runs s' s''" using step.hyps(2) db_step_keeps_runs by blast
  then have keep: "\<And>q. tab_get p_id (runs s') r = Some q \<Longrightarrow>
      \<exists>q'. tab_get p_id (runs s'') r = Some q' \<and> (q' = q \<or> run_moved q q')"
    "\<And>i n. tab_get n_id (snapshots s') i = Some n \<Longrightarrow> tab_get n_id (snapshots s'') i = Some n"
    by (simp_all add: keeps_runs_def)
  from step.IH [OF step.prems] obtain p' where p': "tab_get p_id (runs s') r = Some p'" "run_later p p'"
    and snap: "\<forall>i n. tab_get n_id (snapshots s) i = Some n \<longrightarrow> tab_get n_id (snapshots s') i = Some n"
    by blast
  from keep(1) [OF p'(1)] obtain p'' where "tab_get p_id (runs s'') r = Some p''" "p'' = p' \<or> run_moved p' p''"
    by blast
  with run_later_step [OF p'(2)] snap keep(2) show ?case by blast
qed

lemma single_job_of:
  assumes "coherent s" and "job_of (jobs s) r = Some j"
  shows "filter (\<lambda>j. j_run j = Some r) (jobs s) = [j]"
proof -
  have "unique_where (\<lambda>j. j_run j \<noteq> None) j_run t \<Longrightarrow> job_of t r = Some j \<Longrightarrow>
      filter (\<lambda>j. j_run j = Some r) t = [j]" for t
    by (induction t)
      (auto simp: unique_where_Cons job_of_def filter_empty_conv split: if_splits dest: spec [of _ r])
  then show ?thesis using assms coherent_facts(2) by blast
qed

lemma cancel_settle_succeeds:
  assumes s: "coherent s" and p: "tab_get p_id (runs s) r = Some p" and j: "job_of (jobs s) r = Some j"
    and st: "j_state j = from" and to: "to \<noteq> J_RUNNING"
  shows "\<exists>s'. cancel_settle p j from to run_to now s = Inr s' \<and>
    attempt_of s' = (attempt_of s)(r := att to run_to (running_segment (segments s) r))"
proof -
  note facts = coherent_facts [OF s] and jd = job_of_SomeD [OF j]
  have rp: "p_id p = r" using tab_get_SomeD [OF p] by simp
  have get: "tab_get j_id (jobs s) (j_id j) = Some j" using tab_get_in [OF facts(1)] jd by blast
  let ?f = "transition_values to now None None"
  let ?t = "tab_update (\<lambda>k. j_id k = j_id j \<and> j_state k \<in> set [from]) ?f (jobs s)"
  have t: "job_transition (j_id j) [from] to now None None (jobs s) = Inr (True, ?t)"
    using job_transition_at [OF facts(1) get to, of "[from]"] st by simp
  let ?v = "\<lambda>q. q\<lparr>p_state := run_to, p_updated := now\<rparr>"
  let ?u = "tab_update (opt_where p_id p_rev r (p_rev p) (\<lambda>_. True)) (\<lambda>q. bump_run (?v q)) (runs s)"
  have u: "run_update r (p_rev p) ?v (\<lambda>_. True) (runs s) = (1, ?u)"
    "tab_get p_id ?u = (tab_get p_id (runs s))(r \<mapsto> bump_run (?v p))"
    using run_update_at [OF facts(3) p, of ?v "\<lambda>_. True"] by auto
  have jt: "job_of ?t = (job_of (jobs s))(r \<mapsto> ?f j)"
    using job_of_update_at [OF facts(1,2) get, of "\<lambda>k. j_id k = j_id j \<and> j_state k \<in> set [from]" ?f] st jd by auto
  let ?s = "s\<lparr>jobs := ?t, runs := ?u\<rparr>"
  have "cancel_settle p j from to run_to now s = Inr ?s"
    using t u(1) rp by (simp add: cancel_settle_def)
  moreover have "job_of (jobs ?s) = (job_of (jobs s))(r \<mapsto> ?f j)"
    "tab_get p_id (runs ?s) = (tab_get p_id (runs s))(r \<mapsto> bump_run (?v p))" "segments ?s = segments s"
    using jt u(2) by simp_all
  then have "attempt_of ?s q = ((attempt_of s)(r := att to run_to (running_segment (segments s) r))) q" for q
    unfolding attempt_of_def by (auto simp: bump_run_def)
  ultimately show ?thesis by blast
qed

lemma cancel_run_on:
  assumes s: "coherent s" and p: "tab_get p_id (runs s) r = Some p"
  shows "(p_state p = P_PENDING \<longrightarrow> (\<exists>s'. cancel_run r now s = Inr (CANCELLED, s') \<and>
        attempt_of s' = (attempt_of s)(r := att J_CANCELLED P_CANCELLED False))) \<and>
    (p_state p = P_RUNNING \<longrightarrow> (\<exists>s'. cancel_run r now s = Inr (REQUESTED, s') \<and>
        attempt_of s' = (attempt_of s)(r := att J_CANCELLING P_CANCELLING True))) \<and>
    (p_state p \<in> {P_CANCELLING, P_CANCELLED} \<longrightarrow> cancel_run r now s = Inr (ALREADY, s)) \<and>
    (p_state p \<notin> {P_PENDING, P_RUNNING, P_CANCELLING, P_CANCELLED} \<longrightarrow>
        cancel_run r now s = Inl (CannotCancel r (p_state p)))"
proof -
  have lawful: "attempt_of s r \<in> lawful_attempts" using coherent_facts [OF s] by blast
  then obtain j where j: "job_of (jobs s) r = Some j"
    using p by (cases "job_of (jobs s) r") (auto simp: attempt_of_def lawful_attempts_def)
  with lawful p have at: "att (j_state j) (p_state p) (running_segment (segments s) r) \<in> lawful_attempts"
    by (simp add: attempt_of_def)
  have one: "filter (\<lambda>j. j_run j = Some r) (jobs s) = [j]" by (rule single_job_of [OF s j])
  have run: "cancel_run r now s =
      (if p_state p \<in> {P_CANCELLING, P_CANCELLED} then Inr (ALREADY, s)
       else if j_state j = J_QUEUED then map_sum id (Pair CANCELLED) (cancel_settle p j J_QUEUED J_CANCELLED P_CANCELLED now s)
       else if p_state p = P_RUNNING \<and> j_state j = J_RUNNING
       then map_sum id (Pair REQUESTED) (cancel_settle p j J_RUNNING J_CANCELLING P_CANCELLING now s)
       else Inl (CannotCancel r (p_state p)))"
    using p one by (simp add: cancel_run_def Let_def one_or_none_def)
  show ?thesis
    using at cancel_settle_succeeds [OF s p j, of J_QUEUED J_CANCELLED P_CANCELLED now]
      cancel_settle_succeeds [OF s p j, of J_RUNNING J_CANCELLING P_CANCELLING now]
    unfolding run by (auto simp: lawful_attempts_def)
qed

text \<open>A library with one image, for the witnesses, and a first request for it.\<close>

definition sample_library :: db where
  "sample_library = empty_db
     \<lparr>sources := [\<lparr>c_id = 1, c_kind = S_IMAGE, c_state = S_ACTIVE, c_name = ''a'', c_original = 2, c_thumbnail = None,
        c_run = None, c_rev = 1, c_created = 0, c_updated = 0, c_recycled = None,
        c_captured = None, c_duration = None, c_width = None, c_height = None, c_rate = (None, None)\<rparr>],
      artifacts := [\<lparr>f_id = 2, f_kind = SOURCE_ORIGINAL, f_mode = MANAGED, f_state = A_AVAILABLE, f_key = Some ''k'',
        f_path = None, f_sha = None, f_size = None, f_created = 0, f_available = None, f_delete_requested = None,
        f_deleted = None, f_code = None, f_detail = None, f_mime = None, f_filename = None\<rparr>]\<rparr>"

definition sample_requested :: db where
  "sample_requested = (case schedule_source (\<lambda>n. 10 + n) 5 1 ''NORMAL'' (Some JNull) None sample_library of
     Inr (sc, s) \<Rightarrow> s | Inl e \<Rightarrow> sample_library)"

definition sample_started :: db where
  "sample_started = (case claim_source_job ''w'' 6 30 20 sample_requested of
     Inr (st, s) \<Rightarrow> s | Inl e \<Rightarrow> sample_requested)"

lemma sample_requested_step:
  "schedule_source (\<lambda>n. 10 + n) 5 1 ''NORMAL'' (Some JNull) None sample_library =
     Inr (\<lparr>sc_source = 1, sc_run = 11, sc_job = 12\<rparr>, sample_requested)"
  by code_simp

lemma sample_requested_reachable: "reachable sample_requested"
proof -
  have "reachable sample_library"
    by (rule reachable.start) (simp_all add: sample_library_def empty_db_def)
  then show ?thesis by (blast intro: reachable.step db_step.requested sample_requested_step)
qed

definition sample_claim :: started where
  "sample_claim = \<lparr>st_job = \<lparr>cj_id = 12, cj_type = PROCESS_SOURCE, cj_run = Some 11,
     cj_payload_version = 1, cj_payload = None, cj_attempt = 1, cj_owner = ''w'', cj_expires = 36\<rparr>,
     st_segment = 20\<rparr>"

lemma sample_started_step:
  "claim_source_job ''w'' 6 30 20 sample_requested = Inr (Some sample_claim, sample_started)"
  by code_simp

lemma sample_started_reachable: "reachable sample_started"
  by (rule reachable.step [OF sample_requested_reachable db_step.claimed [OF sample_started_step]])





text \<open>
  Claiming in a reachable database, on every branch: nothing queued changes nothing; the most
  urgent queued source job without a run is failed and no work is returned; with a run, that run is \<open>PENDING\<close> and the claim returns
  the job under the caller's lease with a new segment, job and run are \<open>RUNNING\<close>, the run's start and
  revision are written, and every other attempt is as it was. It never raises.
\<close>

theorem claim_source_job_starts:
  assumes "reachable s" and "owner \<noteq> []" and "tab_get g_id (segments s) segment_id = None"
  shows "case first_by claim_order (filter (eligible (Some [PROCESS_SOURCE])) (jobs s)) of
      None \<Rightarrow> claim_source_job owner now lease_for segment_id s = Inr (None, s)
    | Some j \<Rightarrow>
        (case j_run j of
           None \<Rightarrow> \<exists>s'. claim_source_job owner now lease_for segment_id s = Inr (None, s') \<and>
             map_option j_state (tab_get j_id (jobs s') (j_id j)) = Some J_FAILED \<and>
             attempt_of s' = attempt_of s
         | Some r \<Rightarrow> \<exists>p s'. tab_get p_id (runs s) r = Some p \<and> p_state p = P_PENDING \<and>
             claim_source_job owner now lease_for segment_id s =
               Inr (Some \<lparr>st_job = claimed owner now lease_for j, st_segment = segment_id\<rparr>, s') \<and>
             tab_get j_id (jobs s') (j_id j) = Some (lease_values owner now (now + lease_for) j) \<and>
             tab_get p_id (runs s') r = Some (p\<lparr>p_state := P_RUNNING, p_started := Some now,
               p_updated := now, p_rev := p_rev p + 1\<rparr>) \<and>
             attempt_of s' = (attempt_of s)(r := att J_RUNNING P_RUNNING True))"
proof (cases "next_source_job s")
  case None
  with assms(2) show ?thesis by (simp add: claim_source_job_nothing flip: next_source_job_def)
next
  case (Some j)
  note s = reachable_coherent [OF assms(1)]
  show ?thesis
    using claim_without_run [OF s Some _ assms(2)] claim_with_run [OF s Some _ assms(2,3)] Some
    by (cases "j_run j") (simp_all flip: next_source_job_def)
qed

lemma claim_source_job_starts_witness:
  "\<exists>s'. claim_source_job ''w'' 6 30 20 sample_requested = Inr (Some sample_claim, s') \<and>
     attempt_of s' 11 = att J_RUNNING P_RUNNING True"
proof -
  have next_job: "first_by claim_order (filter (eligible (Some [PROCESS_SOURCE])) (jobs sample_requested)) =
      Some (queued_job 12 11 None NORMAL 1 None INDETERMINATE 1 5)" by code_simp
  have free: "tab_get g_id (segments sample_requested) 20 = None" by code_simp
  have "\<lparr>st_job = claimed ''w'' 6 30 (queued_job 12 11 None NORMAL 1 None INDETERMINATE 1 5), st_segment = 20\<rparr> = sample_claim"
    by code_simp
  moreover have "j_run (queued_job 12 11 None NORMAL 1 None INDETERMINATE 1 5) = Some 11"
    by (simp add: queued_job_def)
  ultimately show ?thesis
    using claim_source_job_starts [OF sample_requested_reachable _ free, of "''w''" 6 30] next_job by auto
qed

text \<open>
  The request to cancel a run of a reachable database, on every branch: a run that does not
  exist is reported; a \<open>PENDING\<close> run is cancelled outright with its queued job; a \<open>RUNNING\<close> one is
  only asked to stop (job and run \<open>CANCELLING\<close>, the segment still running); a repeated request
  changes nothing; every other state is refused with the state. No other attempt is touched.
\<close>

theorem cancel_run_outcomes:
  assumes "reachable s"
  shows "case tab_get p_id (runs s) r of
      None \<Rightarrow> cancel_run r now s = Inl (RunNotFound r)
    | Some p \<Rightarrow>
        (if p_state p = P_PENDING
         then \<exists>s'. cancel_run r now s = Inr (CANCELLED, s') \<and>
           attempt_of s' = (attempt_of s)(r := att J_CANCELLED P_CANCELLED False)
         else if p_state p = P_RUNNING
         then \<exists>s'. cancel_run r now s = Inr (REQUESTED, s') \<and>
           attempt_of s' = (attempt_of s)(r := att J_CANCELLING P_CANCELLING True)
         else if p_state p = P_CANCELLING \<or> p_state p = P_CANCELLED
         then cancel_run r now s = Inr (ALREADY, s)
         else cancel_run r now s = Inl (CannotCancel r (p_state p)))"
  using cancel_run_on [OF reachable_coherent [OF assms], of r]
  by (cases "tab_get p_id (runs s) r") (auto simp: cancel_run_def)

lemma cancel_run_outcomes_witness:
  "(\<exists>s'. cancel_run 11 7 sample_started = Inr (REQUESTED, s') \<and>
      attempt_of s' 11 = att J_CANCELLING P_CANCELLING True) \<and>
   cancel_run 99 7 sample_started = Inl (RunNotFound 99)"
proof -
  have "map_option p_state (tab_get p_id (runs sample_started) 11) = Some P_RUNNING"
    "tab_get p_id (runs sample_started) 99 = None" by code_simp+
  with cancel_run_outcomes [OF sample_started_reachable, of 11 7]
    cancel_run_outcomes [OF sample_started_reachable, of 99 7]
  show ?thesis by auto
qed

section \<open>Restarting\<close>

lemma settled_twice:
  "settled_run_state (settled_run_state x) = settled_run_state x"
  "settled_run_state x \<notin> {P_RUNNING, P_PAUSING, P_CANCELLING}"
  by (auto simp: settled_run_state_def)

lemma move_runs_finalizing:
  "from \<noteq> P_FINALIZING \<Longrightarrow> to \<noteq> P_FINALIZING \<Longrightarrow>
     finalizing_run_ids (snd (move_runs from to now t)) = finalizing_run_ids t"
  by (induction t) (auto simp: move_runs_def update_returning_def finalizing_run_ids_def)

lemma finalizing_run_ids_interrupt:
  "finalizing_run_ids (runs (snd (interrupt now s))) = finalizing_run_ids (runs s)"
  by (simp add: interrupt_runs move_runs_finalizing)

lemma move_jobs_row:
  assumes "j \<in> set (snd (move_jobs from to now t))" and "from \<noteq> to"
  shows "j_state j \<noteq> from \<and>
    (\<exists>j0\<in>set t. j_run j = j_run j0 \<and> (j_state j = j_state j0 \<or> j_state j = to))"
  using assms
  by (auto simp: move_jobs_def update_returning_def set_tab_update Let_def)

lemma interrupt_jobs_settled:
  assumes "j \<in> set (jobs (snd (interrupt now s)))"
  shows "j_owner j = None \<and> j_expires j = None \<and> j_state j \<noteq> J_PAUSING \<and> j_state j \<noteq> J_CANCELLING \<and>
    (j_state j = J_RUNNING \<longrightarrow> (\<exists>r. j_run j = Some r \<and> r \<in> set (finalizing_run_ids (runs s))))"
proof -
  let ?t1 = "tab_update (\<lambda>j. j_state j = J_RUNNING \<and>
           (case j_run j of None \<Rightarrow> True | Some r \<Rightarrow> r \<notin> set (finalizing_run_ids (runs s))))
         (\<lambda>j. j\<lparr>j_state := J_INTERRUPTED, j_owner := None, j_expires := None, j_updated := now\<rparr>) (jobs s)"
  obtain j3 where j3: "j3 \<in> set (snd (move_jobs J_CANCELLING J_CANCELLED now (snd (move_jobs J_PAUSING J_PAUSED now ?t1))))"
    "j_owner j = None" "j_expires j = None" "j_state j = j_state j3" "j_run j = j_run j3"
    using assms unfolding interrupt_jobs by (auto simp: set_tab_update split: if_splits)
  obtain j2 where j2: "j2 \<in> set (snd (move_jobs J_PAUSING J_PAUSED now ?t1))" "j_state j3 \<noteq> J_CANCELLING"
    "j_run j3 = j_run j2" "j_state j3 = j_state j2 \<or> j_state j3 = J_CANCELLED"
    using move_jobs_row [OF j3(1)] by auto
  obtain j1 where j1: "j1 \<in> set ?t1" "j_state j2 \<noteq> J_PAUSING" "j_run j2 = j_run j1"
    "j_state j2 = j_state j1 \<or> j_state j2 = J_PAUSED"
    using move_jobs_row [OF j2(1)] by auto
  have "j_state j1 = J_RUNNING \<Longrightarrow> \<exists>r. j_run j1 = Some r \<and> r \<in> set (finalizing_run_ids (runs s))"
    using j1(1) by (auto simp: set_tab_update split: if_splits option.splits)
  with j1 j2 j3 show ?thesis by auto
qed

lemma interrupt_runs_settled:
  "p \<in> set (runs (snd (interrupt now s))) \<Longrightarrow> p_state p \<notin> {P_RUNNING, P_PAUSING, P_CANCELLING}"
  unfolding interrupt_runs move_runs_def update_returning_def snd_conv
  by (auto simp: set_tab_update)

lemma interrupt_settled:
  assumes "\<And>j. j \<in> set (jobs s) \<Longrightarrow> j_owner j = None \<and> j_expires j = None \<and> j_state j \<noteq> J_PAUSING \<and>
      j_state j \<noteq> J_CANCELLING \<and>
      (j_state j = J_RUNNING \<longrightarrow> (\<exists>r. j_run j = Some r \<and> r \<in> set (finalizing_run_ids (runs s))))"
    and "\<And>p. p \<in> set (runs s) \<Longrightarrow> p_state p \<notin> {P_RUNNING, P_PAUSING, P_CANCELLING}"
    and "\<And>g. g \<in> set (segments s) \<Longrightarrow> g_state g \<noteq> G_RUNNING"
  shows "snd (interrupt now s) = s"
proof -
  have j: "tab_update (\<lambda>j. j_state j = J_RUNNING \<and>
        (case j_run j of None \<Rightarrow> True | Some r \<Rightarrow> r \<notin> set (finalizing_run_ids (runs s)))) f (jobs s) = jobs s"
    "tab_update (\<lambda>j. j_state j = J_PAUSING) f (jobs s) = jobs s"
    "tab_update (\<lambda>j. j_state j = J_CANCELLING) f (jobs s) = jobs s"
    "tab_update (\<lambda>j. j_owner j \<noteq> None \<or> j_expires j \<noteq> None) f (jobs s) = jobs s" for f
    using assms(1) by (fastforce intro!: tab_update_none split: option.splits)+
  have p: "tab_update (\<lambda>p. p_state p = P_RUNNING) f (runs s) = runs s"
    "tab_update (\<lambda>p. p_state p = P_PAUSING) f (runs s) = runs s"
    "tab_update (\<lambda>p. p_state p = P_CANCELLING) f (runs s) = runs s" for f
    using assms(2) by (auto intro!: tab_update_none)
  have g: "tab_update (\<lambda>g. g_state g = G_RUNNING) f (segments s) = segments s" for f
    using assms(3) by (auto intro!: tab_update_none)
  have "tab_update (\<lambda>j. (\<exists>y. j_owner j = Some y) \<or> (\<exists>y. j_expires j = Some y)) f (jobs s) = jobs s" for f
    using j(4) [of f] by simp
  with j p g show ?thesis by (simp add: interrupt_tables_defs)
qed



section \<open>Retrying\<close>

lemma retry_job_cases:
  assumes "retry_job ids now i s = Inr (sc, s')"
  obtains old p n where "tab_get j_id (jobs s) i = Some old" "j_type old = PROCESS_SOURCE"
    "j_state old \<in> set retryable_job_states" "j_run old = Some (p_id p)"
    "tab_get p_id (runs s) (p_id p) = Some p" "p_state p \<in> set retryable_run_states"
    "\<And>j. j \<in> set (jobs s) \<Longrightarrow> j_previous j \<noteq> Some i"
    "require_processable_image (p_source p) s = Inr ()"
    "tab_get n_id (snapshots s) (p_snapshot p) = Some n"
    "insert_attempt ids now (p_source p) (n_version n) (n_json n) (n_action n) (Some (p_id p))
       (\<lambda>k run_id. queued_job k run_id (Some i) (j_priority old) (j_payload_version old)
          (j_payload old) (j_mode old) (j_attempt old + 1) now) s = Inr (sc, s')"
proof -
  obtain old where old: "tab_get j_id (jobs s) i = Some old"
    using assms by (cases "tab_get j_id (jobs s) i") (auto simp: retry_job_def job_get_def)
  have oi: "j_id old = i" using tab_get_SomeD [OF old] by simp
  with assms old obtain r where r: "j_type old = PROCESS_SOURCE" "j_state old \<in> set retryable_job_states"
    "j_run old = Some r"
    by (auto simp: retry_job_def job_get_def split: if_splits bool.splits option.splits)
  with assms old obtain p where p: "tab_get p_id (runs s) r = Some p"
    by (cases "tab_get p_id (runs s) r") (auto simp: retry_job_def job_get_def)
  have rp: "p_id p = r" using tab_get_SomeD [OF p] by simp
  from assms old r p oi obtain n where
    "p_state p \<in> set retryable_run_states" "\<not> list_ex (\<lambda>j. j_previous j = Some i) (jobs s)"
    "require_processable_image (p_source p) s = Inr ()"
    "tab_get n_id (snapshots s) (p_snapshot p) = Some n"
    "insert_attempt ids now (p_source p) (n_version n) (n_json n) (n_action n) (Some (p_id p))
       (\<lambda>k run_id. queued_job k run_id (Some i) (j_priority old) (j_payload_version old)
          (j_payload old) (j_mode old) (j_attempt old + 1) now) s = Inr (sc, s')"
    by (auto simp: retry_job_def job_get_def snapshot_get_def bindE_Inr_iff split: if_splits option.splits)
  with old r p rp show thesis by (intro that) (auto simp: list_ex_iff)
qed

text \<open>
  A retry accepted in a reachable database reopens nothing: no row is changed or removed, a new
  \<open>QUEUED\<close> job one attempt further and a new \<open>PENDING\<close> run are added, the run names the old run as its parent and
  freezes the same configuration, the job names the old job; and that job can never be retried again.
\<close>

theorem retry_adds_a_new_attempt:
  assumes "reachable s" and "retry_job ids now i s = Inr (sc, s')"
  shows "\<exists>old p n. tab_get j_id (jobs s) i = Some old \<and> tab_get p_id (runs s) (p_id p) = Some p \<and>
      tab_get n_id (snapshots s) (p_snapshot p) = Some n \<and> j_run old = Some (p_id p) \<and>
      j_state old \<in> {J_INTERRUPTED, J_FAILED} \<and> p_state p \<in> {P_INTERRUPTED, P_FAILED, P_NOT_RESUMABLE} \<and>
      jobs s' = jobs s @ [queued_job (sc_job sc) (sc_run sc) (Some i) (j_priority old)
        (j_payload_version old) (j_payload old) (j_mode old) (j_attempt old + 1) now] \<and>
      (\<exists>n'. n_json n' = n_json n \<and> n_version n' = n_version n \<and> snapshots s' = snapshots s @ [n'] \<and>
         runs s' = runs s @ [pending_run (sc_run sc) (p_source p) (n_id n') (Some (p_id p)) now]) \<and>
      segments s' = segments s \<and> checkpoints s' = checkpoints s \<and>
      attempt_of s' (sc_run sc) = att J_QUEUED P_PENDING False \<and>
      (\<forall>ids' now'. retry_job ids' now' i s' = Inl (AlreadyRetried i))"
  using assms(2)
proof (rule retry_job_cases)
  fix old :: job and p :: run and n
  let ?job = "\<lambda>k run_id. queued_job k run_id (Some i) (j_priority old) (j_payload_version old)
          (j_payload old) (j_mode old) (j_attempt old + 1) now"
  assume old: "tab_get j_id (jobs s) i = Some old" "j_type old = PROCESS_SOURCE"
      "j_state old \<in> set retryable_job_states" "j_run old = Some (p_id p)"
    and p: "tab_get p_id (runs s) (p_id p) = Some p" "p_state p \<in> set retryable_run_states"
    and n: "tab_get n_id (snapshots s) (p_snapshot p) = Some n"
    and ins: "insert_attempt ids now (p_source p) (n_version n) (n_json n) (n_action n) (Some (p_id p)) ?job s = Inr (sc, s')"
  note s = reachable_coherent [OF assms(1)]
  from ins obtain n' where n': "n_id n' = ids 0" "n_version n' = n_version n" "n_json n' = n_json n"
    "tab_get p_id (runs s) (ids 1) = None" "tab_get j_id (jobs s) (j_id (?job (ids 2) (ids 1))) = None"
    "s' = s\<lparr>snapshots := snapshots s @ [n'],
       runs := runs s @ [pending_run (ids 1) (p_source p) (ids 0) (Some (p_id p)) now],
       jobs := jobs s @ [?job (ids 2) (ids 1)]\<rparr>"
    and sc: "sc = \<lparr>sc_source = p_source p, sc_run = ids 1, sc_job = ids 2\<rparr>"
    by (rule insert_attempt_effect)
  have "attempt_of s (ids 1) \<in> lawful_attempts" using coherent_facts [OF s] by blast
  then have fresh: "job_of (jobs s) (ids 1) = None" "\<not> running_segment (segments s) (ids 1)"
    using n'(4) by (auto simp: attempt_of_def lawful_attempts_def)
  then have "attempt_of s' (sc_run sc) = att J_QUEUED P_PENDING False"
    using n'(4) by (simp add: attempt_of_def n'(6) sc job_of_append tab_get_append tab_get_Cons
        queued_job_def pending_run_def)
  moreover have "retry_job ids' now' i s' = Inl (AlreadyRetried i)" for ids' now'
  proof -
    have oi: "j_id old = i" using tab_get_SomeD [OF old(1)] by simp
    have "tab_get j_id (jobs s') i = Some old" "tab_get p_id (runs s') (p_id p) = Some p"
      using old(1) p(1) by (simp_all add: n'(6) tab_get_append)
    moreover have "list_ex (\<lambda>j. j_previous j = Some i) (jobs s')"
      by (simp add: n'(6) queued_job_def)
    ultimately show ?thesis using old p(2) oi by (simp add: retry_job_def job_get_def)
  qed
  ultimately show ?thesis
    using old p n n'(1-3)
    by (intro exI [of _ old] exI [of _ p] exI [of _ n] conjI exI [of _ n'] allI)
      (simp_all add: n'(6) sc retryable_job_states_def retryable_run_states_def)
qed

definition sample_failed :: db where
  "sample_failed = executor_fail sample_claim ''CORRUPT'' 8 sample_started"

lemma sample_failed_reachable: "reachable sample_failed"
  unfolding sample_failed_def
  by (rule reachable.step [OF sample_started_reachable db_step.settled_failure])

lemma retry_adds_a_new_attempt_witness:
  "\<exists>sc s'. retry_job (\<lambda>n. 30 + n) 9 12 sample_failed = Inr (sc, s') \<and>
     attempt_of s' (sc_run sc) = att J_QUEUED P_PENDING False \<and>
     retry_job (\<lambda>n. 40 + n) 10 12 s' = Inl (AlreadyRetried 12)"
proof -
  have "case retry_job (\<lambda>n. 30 + n) 9 12 sample_failed of Inr _ \<Rightarrow> True | Inl _ \<Rightarrow> False" by code_simp
  then obtain sc s' where r: "retry_job (\<lambda>n. 30 + n) 9 12 sample_failed = Inr (sc, s')"
    by (cases "retry_job (\<lambda>n. 30 + n) 9 12 sample_failed") auto
  from retry_adds_a_new_attempt [OF sample_failed_reachable r] r show ?thesis by blast
qed

section \<open>A failure while a cancellation is pending\<close>

text \<open>
  If the executor fails after the cancellation of its run was requested (the job \<open>CANCELLING\<close>),
  the settlement of the failure changes nothing: job and run stay \<open>CANCELLING\<close> with a running
  segment, whatever the failure code, until recovery at the next start settles them.
\<close>

theorem failure_under_cancellation_settles_nothing:
  assumes "tab_get j_id (jobs s) (cj_id (st_job st)) = Some j" and "j_state j = J_CANCELLING"
  shows "executor_fail st code now s = s"
proof -
  have "settle_claim st [J_RUNNING] run_from seg_to reason v job_to c d msg now s = Inr s"
    for run_from seg_to reason v job_to c d msg
    using assms by (auto simp: settle_claim_def job_get_def split: option.splits)
  then show ?thesis by (simp add: executor_fail_def)
qed

definition sample_cancelling :: db where
  "sample_cancelling = (case cancel_run 11 7 sample_started of Inr (how, s) \<Rightarrow> s | Inl e \<Rightarrow> sample_started)"

lemma failure_under_cancellation_settles_nothing_witness:
  "executor_fail sample_claim ''CORRUPT'' 8 sample_cancelling = sample_cancelling \<and>
   attempt_of sample_cancelling 11 = att J_CANCELLING P_CANCELLING True"
proof -
  have "map_option j_state (tab_get j_id (jobs sample_cancelling) (cj_id (st_job sample_claim))) = Some J_CANCELLING"
    "attempt_of sample_cancelling 11 = att J_CANCELLING P_CANCELLING True" by code_simp+
  then show ?thesis
    using failure_under_cancellation_settles_nothing [of sample_cancelling sample_claim _ "''CORRUPT''" 8] by auto
qed

end
