(* ===== verification/Floats.thy ===== *)
theory Floats
  imports Complex_Main
begin

text \<open>
  Python's \<open>float\<close> subtraction. The recognition code subtracts similarities and distances, which
  are finite doubles, and compares the rounded result with a policy threshold. \<open>fl x\<close> is the real
  \<open>x\<close> rounded to 53 significant bits, ties to even, with an unbounded exponent: on the operands the
  code subtracts (finite, of magnitude far below the overflow limit, and with an exact result
  wherever it is subnormal) this is IEEE 754 binary64 rounding. \<open>fsub\<close> is the subtraction.
\<close>

definition round_half_even :: "real \<Rightarrow> int" where
  "round_half_even x =
     (let f = \<lfloor>x\<rfloor>; d = x - of_int f
      in if d < 1/2 then f else if 1/2 < d then f + 1 else if even f then f else f + 1)"

definition fl_exp :: "real \<Rightarrow> int" where
  "fl_exp x = \<lfloor>log 2 \<bar>x\<bar>\<rfloor> - 52"

definition fl :: "real \<Rightarrow> real" where
  "fl x = (if x = 0 then 0
           else of_int (round_half_even (x / 2 powi fl_exp x)) * 2 powi fl_exp x)"

definition fsub :: "real \<Rightarrow> real \<Rightarrow> real" where
  "fsub a b = fl (a - b)"

lemma round_half_even_of_int [simp]: "round_half_even (of_int n) = n"
  by (simp add: round_half_even_def Let_def)

lemma round_half_even_nonneg: "0 \<le> x \<Longrightarrow> 0 \<le> round_half_even x"
  by (auto simp: round_half_even_def Let_def)

lemma round_half_even_nonpos:
  assumes "x \<le> 0"
  shows "round_half_even x \<le> 0"
proof (cases "x = of_int \<lfloor>x\<rfloor>")
  case True
  then show ?thesis using assms by (metis of_int_le_0_iff round_half_even_of_int)
next
  case False
  then have "\<lfloor>x\<rfloor> \<le> -1"
    using assms by linarith
  then show ?thesis by (auto simp: round_half_even_def Let_def)
qed

lemma fl_zero [simp]: "fl 0 = 0"
  by (simp add: fl_def)

lemma fl_nonneg: "0 \<le> x \<Longrightarrow> 0 \<le> fl x"
  by (simp add: fl_def round_half_even_nonneg)

lemma fl_nonpos:
  assumes "x \<le> 0"
  shows "fl x \<le> 0"
proof (cases "x = 0")
  case False
  have "round_half_even (x / 2 powi fl_exp x) \<le> 0"
    using assms by (intro round_half_even_nonpos) (simp add: divide_le_0_iff)
  then show ?thesis
    using False by (simp add: fl_def mult_le_0_iff)
qed simp

text \<open>A rounded difference keeps the order of its operands.\<close>

lemma fsub_pos_less: "0 < fsub a b \<Longrightarrow> b < a"
  using fl_nonpos [of "a - b"] by (fastforce simp: fsub_def not_less)

lemma fsub_nonneg: "b \<le> a \<Longrightarrow> 0 \<le> fsub a b"
  by (simp add: fsub_def fl_nonneg)

lemma fsub_same [simp]: "fsub a a = 0"
  by (simp add: fsub_def)

text \<open>An exactly representable value is not changed: this evaluates \<open>fsub\<close> at concrete doubles.\<close>

lemma powi_shift: "0 \<le> d \<Longrightarrow> (2::real) powi e * 2 ^ nat d = 2 powi (e + d)"
proof -
  assume "0 \<le> d"
  then have "(2::real) ^ nat d = 2 powi d" by (simp add: power_int_def)
  then show ?thesis by (simp add: power_int_add)
qed

lemma fl_exact:
  assumes "x = of_int m * 2 powi e" and "e \<le> fl_exp x \<Longrightarrow> 2 ^ nat (fl_exp x - e) dvd m"
    and "x \<noteq> 0"
  shows "fl x = x"
proof -
  define k where "k = fl_exp x"
  have "\<exists>n. of_int m * 2 powi e = (of_int n * 2 powi k :: real)"
  proof (cases "e \<le> k")
    case True
    with assms(2) obtain q where q: "m = 2 ^ nat (k - e) * q" unfolding k_def by blast
    have "(2::real) powi e * 2 ^ nat (k - e) = 2 powi k"
      using powi_shift [of "k - e" e] True by simp
    then have "of_int m * 2 powi e = (of_int q * 2 powi k :: real)"
      by (simp add: q mult.assoc mult.commute [of "2 ^ nat (k - e)"])
    then show ?thesis ..
  next
    case False
    then have "(2::real) powi k * 2 ^ nat (e - k) = 2 powi e"
      using powi_shift [of "e - k" k] by simp
    then have "of_int m * 2 powi e = (of_int (m * 2 ^ nat (e - k)) * 2 powi k :: real)"
      by (simp add: mult.assoc mult.commute)
    then show ?thesis ..
  qed
  then obtain n where n: "x = of_int n * 2 powi k" using assms(1) by auto
  then have "x / 2 powi k = of_int n" by (simp add: field_simps)
  then have "fl x = of_int n * 2 powi k"
    using assms(3) by (simp add: fl_def k_def)
  with n show ?thesis by simp
qed

lemma fl_pow2: "fl (2 powi e) = 2 powi e"
proof (rule fl_exact [where m = 1 and e = e])
  have "log 2 (2 powi e) = (e :: real)"
    by (subst powr_real_of_int' [symmetric]) simp_all
  then show "e \<le> fl_exp (2 powi e) \<Longrightarrow> 2 ^ nat (fl_exp (2 powi e) - e) dvd (1::int)"
    by (simp add: fl_exp_def)
qed auto

end
