(* ===== verification/Recognition.thy ===== *)
theory Recognition
  imports Schema Floats "HOL-Library.Multiset"
begin

text \<open>
  From a shortlist of candidates to a proposal: grouping and ranking
  (\<open>recognition/assessment.py\<close>) and the reasoner with its policy (\<open>recognition/reasoner.py\<close>). Scores
  are finite doubles, held as reals; the two subtractions the code makes (a similarity from a
  distance, a margin from two similarities) are the rounded \<open>fsub\<close>. The theorems say exactly when a
  face is matched or a new identity is proposed, that grouping loses no candidate, and that the
  proposal does not depend on the order in which the candidates were listed.
\<close>

section \<open>Candidates\<close>

datatype pool = GLOBAL | RUN_LOCAL

text \<open>A \<open>StrEnum\<close> is ordered as its strings are: \<open>"GLOBAL" < "RUN_LOCAL"\<close>.\<close>

instantiation pool :: linorder
begin

definition less_eq_pool :: "pool \<Rightarrow> pool \<Rightarrow> bool" where
  "less_eq_pool x y \<longleftrightarrow> x = GLOBAL \<or> y = RUN_LOCAL"

definition less_pool :: "pool \<Rightarrow> pool \<Rightarrow> bool" where
  "less_pool x y \<longleftrightarrow> x = GLOBAL \<and> y = RUN_LOCAL"

instance
proof
  fix x y z :: pool
  show "(x < y) = (x \<le> y \<and> \<not> y \<le> x)" "x \<le> x" "x \<le> y \<Longrightarrow> y \<le> z \<Longrightarrow> x \<le> z"
    "x \<le> y \<Longrightarrow> y \<le> x \<Longrightarrow> x = y" "x \<le> y \<or> y \<le> x"
    by (cases x; cases y; cases z; simp add: less_eq_pool_def less_pool_def)+
qed

end

record candidate =
  cd_pool :: pool
  cd_rep :: uuid
  cd_identity :: "uuid option"
  cd_distance :: real

definition similarity :: "candidate \<Rightarrow> real" where
  "similarity c = max (-1) (min 1 (fsub 1 (cd_distance c)))"

record retrieval =
  rv_space :: uuid
  rv_k :: nat
  rv_candidates :: "candidate list"
  rv_dropped :: int
  rv_converged :: bool

section \<open>Grouping\<close>

record member =
  m_rep :: uuid
  m_pool :: pool
  m_similarity :: real

record grp =
  gr_identity :: "uuid option"
  gr_members :: "member list"

text \<open>\<open>max\<close> over a group's members; a group is never empty.\<close>

fun list_max :: "real list \<Rightarrow> real" where
  "list_max [] = 0"
| "list_max [x] = x"
| "list_max (x # y # zs) = max x (list_max (y # zs))"

definition best_similarity :: "grp \<Rightarrow> real" where
  "best_similarity g = list_max (map m_similarity (gr_members g))"

record assessment =
  as_version :: string
  as_interpretation :: string
  as_space :: uuid
  as_quality :: real           \<comment> \<open>\<open>quality.detection_score\<close>\<close>
  as_k :: nat
  as_returned :: nat
  as_dropped :: int
  as_converged :: bool
  as_groups :: "grp list"

definition complete :: "assessment \<Rightarrow> bool" where
  "complete a \<longleftrightarrow> as_dropped a = 0 \<and> as_converged a"

definition margin :: "assessment \<Rightarrow> real option" where
  "margin a = (case as_groups a of
     g # h # _ \<Rightarrow> Some (fsub (best_similarity g) (best_similarity h)) | _ \<Rightarrow> None)"

text \<open>The key of a candidate's group: its identity, or itself alone.\<close>

datatype group_key = ByIdentity uuid | Alone uuid

definition key_of :: "candidate \<Rightarrow> group_key" where
  "key_of c = (case cd_identity c of Some i \<Rightarrow> ByIdentity i | None \<Rightarrow> Alone (cd_rep c))"

fun key_identity :: "group_key \<Rightarrow> uuid option" where
  "key_identity (ByIdentity i) = Some i"
| "key_identity (Alone r) = None"

definition member_of :: "candidate \<Rightarrow> member" where
  "member_of c = \<lparr>m_rep = cd_rep c, m_pool = cd_pool c, m_similarity = similarity c\<rparr>"

definition member_order :: "member \<Rightarrow> real \<times> pool \<times> uuid" where
  "member_order m = (- m_similarity m, m_pool m, m_rep m)"

definition group_of :: "candidate list \<Rightarrow> group_key \<Rightarrow> grp" where
  "group_of cs k = \<lparr>gr_identity = key_identity k,
     gr_members = sort_key member_order (map member_of (filter (\<lambda>c. key_of c = k) cs))\<rparr>"

definition group_order :: "grp \<Rightarrow> real \<times> uuid" where
  "group_order g = (- best_similarity g, m_rep (hd (gr_members g)))"

definition assess :: "retrieval \<Rightarrow> real \<Rightarrow> assessment" where
  "assess rv quality =
     \<lparr>as_version = ''recognition-assessment-v2'', as_interpretation = ''COSINE_UNCALIBRATED'',
      as_space = rv_space rv, as_quality = quality, as_k = rv_k rv,
      as_returned = length (rv_candidates rv), as_dropped = rv_dropped rv,
      as_converged = rv_converged rv,
      as_groups = sort_key group_order
        (map (group_of (rv_candidates rv)) (dedup (map key_of (rv_candidates rv))))\<rparr>"

section \<open>Deciding\<close>

datatype outcome = MATCH_EXISTING | CREATE_NEW | ABSTAIN

datatype reason =
  MATCHED | NO_CANDIDATE | NOT_SIMILAR | LOW_QUALITY | RETRIEVAL_INCOMPLETE | AMBIGUOUS_CANDIDATES
  | UNRESOLVED_NEIGHBOUR | UNCERTAIN_SIMILARITY

record policy =
  po_version :: string
  po_gate :: real        \<comment> \<open>\<open>min_detection_score\<close>\<close>
  po_match :: real       \<comment> \<open>\<open>match_threshold\<close>\<close>
  po_margin :: real
  po_ceiling :: real     \<comment> \<open>\<open>new_identity_ceiling\<close>\<close>

text \<open>\<open>__post_init__\<close>: what a constructed policy satisfies.\<close>

definition policy_ok :: "policy \<Rightarrow> bool" where
  "policy_ok p \<longleftrightarrow> po_version p \<noteq> [] \<and>
     -1 \<le> po_ceiling p \<and> po_ceiling p \<le> po_match p \<and> po_match p \<le> 2 \<and>
     0 < po_margin p \<and> po_margin p \<le> 2 \<and> 0 \<le> po_gate p \<and> po_gate p \<le> 1"

definition automatic_matching :: "policy \<Rightarrow> bool" where
  "automatic_matching p \<longleftrightarrow> po_match p \<le> 1"

record decision =
  d_outcome :: outcome
  d_reason :: reason
  d_identity :: "uuid option"
  d_assessment :: assessment
  d_policy :: policy

definition abstain :: "policy \<Rightarrow> assessment \<Rightarrow> reason \<Rightarrow> decision" where
  "abstain p a r = \<lparr>d_outcome = ABSTAIN, d_reason = r, d_identity = None, d_assessment = a, d_policy = p\<rparr>"

definition create :: "policy \<Rightarrow> assessment \<Rightarrow> reason \<Rightarrow> decision" where
  "create p a r = \<lparr>d_outcome = CREATE_NEW, d_reason = r, d_identity = None, d_assessment = a, d_policy = p\<rparr>"

definition decide :: "policy \<Rightarrow> assessment \<Rightarrow> decision" where
  "decide p a =
     (if as_quality a < po_gate p then abstain p a LOW_QUALITY
      else if \<not> complete a then abstain p a RETRIEVAL_INCOMPLETE
      else case as_groups a of
        [] \<Rightarrow> create p a NO_CANDIDATE
      | first # _ \<Rightarrow>
          if po_match p \<le> best_similarity first then
            (if (case margin a of Some m \<Rightarrow> m < po_margin p | None \<Rightarrow> False)
             then abstain p a AMBIGUOUS_CANDIDATES
             else case gr_identity first of
               None \<Rightarrow> abstain p a UNRESOLVED_NEIGHBOUR
             | Some i \<Rightarrow> \<lparr>d_outcome = MATCH_EXISTING, d_reason = MATCHED, d_identity = Some i,
                 d_assessment = a, d_policy = p\<rparr>)
          else if best_similarity first < po_ceiling p then create p a NOT_SIMILAR
          else abstain p a UNCERTAIN_SIMILARITY)"

section \<open>The evidence of a decision\<close>

fun outcome_value :: "outcome \<Rightarrow> string" where
  "outcome_value MATCH_EXISTING = ''MATCH_EXISTING''"
| "outcome_value CREATE_NEW = ''CREATE_NEW''"
| "outcome_value ABSTAIN = ''ABSTAIN''"

fun reason_value :: "reason \<Rightarrow> string" where
  "reason_value MATCHED = ''MATCHED''"
| "reason_value NO_CANDIDATE = ''NO_CANDIDATE''"
| "reason_value NOT_SIMILAR = ''NOT_SIMILAR''"
| "reason_value LOW_QUALITY = ''LOW_QUALITY''"
| "reason_value RETRIEVAL_INCOMPLETE = ''RETRIEVAL_INCOMPLETE''"
| "reason_value AMBIGUOUS_CANDIDATES = ''AMBIGUOUS_CANDIDATES''"
| "reason_value UNRESOLVED_NEIGHBOUR = ''UNRESOLVED_NEIGHBOUR''"
| "reason_value UNCERTAIN_SIMILARITY = ''UNCERTAIN_SIMILARITY''"

fun pool_value :: "pool \<Rightarrow> string" where
  "pool_value GLOBAL = ''GLOBAL''"
| "pool_value RUN_LOCAL = ''RUN_LOCAL''"

definition member_json :: "member \<Rightarrow> json" where
  "member_json m = JObj [(''representation_id'', JUuid (m_rep m)), (''pool'', JStr (pool_value (m_pool m))),
     (''similarity'', JFloat (m_similarity m))]"

definition group_json :: "nat \<Rightarrow> grp \<Rightarrow> json" where
  "group_json rank g = JObj [(''rank'', JInt (int rank)), (''identity_id'', json_uuid_opt (gr_identity g)),
     (''similarity'', JFloat (best_similarity g)),
     (''members'', JList (map member_json (gr_members g)))]"

definition policy_json :: "policy \<Rightarrow> json" where
  "policy_json p = JObj [(''version'', JStr (po_version p)), (''min_detection_score'', JFloat (po_gate p)),
     (''match_threshold'', JFloat (po_match p)), (''margin'', JFloat (po_margin p)),
     (''new_identity_ceiling'', JFloat (po_ceiling p))]"

definition evidence_payload :: "decision \<Rightarrow> json" where
  "evidence_payload d = (let a = d_assessment d in
     JObj [(''schema_version'', JInt 1), (''outcome'', JStr (outcome_value (d_outcome d))),
       (''reason'', JStr (reason_value (d_reason d))), (''identity_id'', json_uuid_opt (d_identity d)),
       (''assessment_version'', JStr (as_version a)), (''interpretation'', JStr (as_interpretation a)),
       (''representation_space_id'', JUuid (as_space a)),
       (''quality'', JObj [(''detection_score'', JFloat (as_quality a))]),
       (''retrieval'', JObj [(''requested_k'', JInt (int (as_k a))),
          (''returned'', JInt (int (as_returned a))), (''dropped'', JInt (as_dropped a)),
          (''converged'', JBool (as_converged a))]),
       (''candidates'', JList (map (\<lambda>(rank, g). group_json rank g)
          (zip [1..<Suc (length (as_groups a))] (as_groups a)))),
       (''margin'', case margin a of None \<Rightarrow> JNull | Some m \<Rightarrow> JFloat m),
       (''policy'', policy_json (d_policy d))])"

text \<open>\<open>RecognitionService\<close>: a shortlist of one could never show a runner-up, so it is refused.\<close>

definition recognition_service :: "nat \<Rightarrow> string + nat" where
  "recognition_service k =
     (if k < 2 then Inl ''the shortlist needs at least two candidates to measure a margin'' else Inr k)"

section \<open>Laws of grouping\<close>

lemma list_max_in: "xs \<noteq> [] \<Longrightarrow> list_max xs \<in> set xs"
  by (induction xs rule: list_max.induct) (auto simp: max_def)

lemma list_max_ge: "x \<in> set xs \<Longrightarrow> x \<le> list_max xs"
  by (induction xs rule: list_max.induct) (auto simp: le_max_iff_disj)

lemma list_max_unique: "x \<in> set xs \<Longrightarrow> (\<And>y. y \<in> set xs \<Longrightarrow> y \<le> x) \<Longrightarrow> list_max xs = x"
  by (metis antisym list_max_ge list_max_in empty_iff list.set(1))

lemma similarity_le_one: "similarity c \<le> 1" and similarity_ge: "-1 \<le> similarity c"
  by (simp_all add: similarity_def)

lemma set_groups:
  "set (as_groups (assess rv q)) = group_of (rv_candidates rv) ` key_of ` set (rv_candidates rv)"
  by (simp add: assess_def)

lemma sorted_groups: "sorted (map group_order (as_groups (assess rv q)))"
  by (simp add: assess_def)

lemma set_members:
  "set (gr_members (group_of cs k)) = member_of ` {c \<in> set cs. key_of c = k}"
  by (simp add: group_of_def)

lemma group_of_nonempty: "c \<in> set cs \<Longrightarrow> gr_members (group_of cs (key_of c)) \<noteq> []"
  using set_members [of cs "key_of c"] by force

lemma best_similarity_ge:
  "c \<in> set cs \<Longrightarrow> similarity c \<le> best_similarity (group_of cs (key_of c))"
  unfolding best_similarity_def by (rule list_max_ge) (auto simp: set_members member_of_def image_iff)

lemma best_similarity_attained:
  assumes "c \<in> set cs"
  obtains c' where "c' \<in> set cs" "key_of c' = key_of c"
    "best_similarity (group_of cs (key_of c)) = similarity c'"
proof -
  have "list_max (map m_similarity (gr_members (group_of cs (key_of c)))) \<in>
      set (map m_similarity (gr_members (group_of cs (key_of c))))"
    using group_of_nonempty [OF assms] by (intro list_max_in) simp
  then show thesis
    using that by (auto simp: best_similarity_def set_members member_of_def)
qed

lemma gr_identity_group_of: "gr_identity (group_of cs k) = key_identity k"
  by (simp add: group_of_def)

lemma key_identity_key_of: "key_identity (key_of c) = cd_identity c"
  by (simp add: key_of_def split: option.splits)

text \<open>Groups in order: the first is a best one, and the margin is measured against the second best.\<close>

lemma groups_best_first:
  assumes "as_groups (assess rv q) = g # gs" and "h \<in> set gs"
  shows "best_similarity h \<le> best_similarity g"
  using sorted_groups [of rv q] assms by (auto simp: group_order_def less_eq_prod_def)

lemma group_of_inj:
  assumes "group_of cs k = group_of cs k'" and "k \<in> key_of ` set cs" and "k' \<in> key_of ` set cs"
  shows "k = k'"
proof -
  have id: "key_identity k = key_identity k'" using assms(1) by (metis gr_identity_group_of)
  from assms(2,3) obtain c c' where c: "c \<in> set cs" "k = key_of c" and c': "c' \<in> set cs" "k' = key_of c'"
    by auto
  have "member_of c \<in> member_of ` {c \<in> set cs. key_of c = k'}"
    using c assms(1) set_members [of cs k] set_members [of cs k'] by auto
  then obtain e where e: "e \<in> set cs" "key_of e = k'" "cd_rep e = cd_rep c"
    by (auto simp: member_of_def)
  show ?thesis
    using id e c by (auto simp: key_of_def split: option.splits)
qed

lemma distinct_groups: "distinct (as_groups (assess rv q))"
  by (auto simp: assess_def distinct_map inj_on_def intro: group_of_inj)

lemma decide_match_iff:
  "d_outcome (decide p a) = MATCH_EXISTING \<longleftrightarrow>
     po_gate p \<le> as_quality a \<and> complete a \<and>
     (\<exists>first rest i. as_groups a = first # rest \<and> po_match p \<le> best_similarity first \<and>
        (\<forall>m. margin a = Some m \<longrightarrow> po_margin p \<le> m) \<and> gr_identity first = Some i \<and>
        d_identity (decide p a) = Some i)"
  by (auto simp: decide_def abstain_def create_def not_less split: list.splits option.splits)

lemma decide_create_iff:
  "d_outcome (decide p a) = CREATE_NEW \<longleftrightarrow>
     po_gate p \<le> as_quality a \<and> complete a \<and>
     (case as_groups a of [] \<Rightarrow> True
      | first # _ \<Rightarrow> best_similarity first < po_match p \<and> best_similarity first < po_ceiling p)"
  by (auto simp: decide_def abstain_def create_def not_less split: list.splits option.splits)

section \<open>When a face is matched\<close>

lemma second_best:
  assumes "as_groups (assess rv q) = g # gs" and "c \<in> set (rv_candidates rv)"
    and "group_of (rv_candidates rv) (key_of c) \<noteq> g"
  obtains h rest where "gs = h # rest" "similarity c \<le> best_similarity h"
    "margin (assess rv q) = Some (fsub (best_similarity g) (best_similarity h))"
proof -
  let ?h = "group_of (rv_candidates rv) (key_of c)"
  have "?h \<in> set gs"
    using assms set_groups [of rv q] by auto
  then obtain h rest where gs: "gs = h # rest" by (cases gs) auto
  have "best_similarity ?h \<le> best_similarity h"
    using \<open>?h \<in> set gs\<close> sorted_groups [of rv q] assms(1) gs
    by (auto simp: group_order_def less_eq_prod_def)
  with best_similarity_ge [OF assms(2)] gs assms(1) show thesis
    by (intro that) (auto simp: margin_def)
qed

text \<open>
  C24. A face is matched to an identity only if the observation passes the quality gate, nothing
  stale was dropped and the index had caught up, some candidate of that very identity is at least as
  similar as the threshold, and every candidate of the shortlist that is not of that identity is strictly less similar,
  with a runner-up that the policy's margin was measured against.
\<close>

theorem match_needs_quality_completeness_and_lead:
  assumes "policy_ok p" and "d_outcome (decide p (assess rv q)) = MATCH_EXISTING"
  shows "po_gate p \<le> q \<and> rv_dropped rv = 0 \<and> rv_converged rv \<and> automatic_matching p \<and>
    (\<exists>i c. d_identity (decide p (assess rv q)) = Some i \<and>
       c \<in> set (rv_candidates rv) \<and> cd_identity c = Some i \<and> po_match p \<le> similarity c \<and>
       (\<forall>c'\<in>set (rv_candidates rv). cd_identity c' \<noteq> Some i \<longrightarrow>
          (\<exists>r. similarity c' \<le> r \<and> r < similarity c \<and> po_margin p \<le> fsub (similarity c) r)))"
proof -
  let ?a = "assess rv q" and ?cs = "rv_candidates rv"
  from assms(2) obtain g gs i where g: "as_groups ?a = g # gs" "po_match p \<le> best_similarity g"
    "\<And>m. margin ?a = Some m \<Longrightarrow> po_margin p \<le> m" "gr_identity g = Some i"
    "d_identity (decide p ?a) = Some i"
    and gate: "po_gate p \<le> as_quality ?a" "complete ?a"
    unfolding decide_match_iff by blast
  have "g \<in> set (as_groups ?a)" using g(1) by simp
  then obtain c0 where c0: "c0 \<in> set ?cs" "g = group_of ?cs (key_of c0)"
    unfolding set_groups by blast
  obtain c where c: "c \<in> set ?cs" "key_of c = key_of c0" "best_similarity g = similarity c"
    using best_similarity_attained [OF c0(1)] c0(2) by metis
  have ci: "cd_identity c = Some i"
    using g(4) c0(2) c(2) by (metis gr_identity_group_of key_identity_key_of)
  have lead: "\<exists>r. similarity c' \<le> r \<and> r < similarity c \<and> po_margin p \<le> fsub (similarity c) r"
    if c': "c' \<in> set ?cs" and other: "cd_identity c' \<noteq> Some i" for c'
  proof -
    have "group_of ?cs (key_of c') \<noteq> g"
      using other g(4) by (metis gr_identity_group_of key_identity_key_of)
    then obtain h rest where h: "gs = h # rest" "similarity c' \<le> best_similarity h"
      "margin ?a = Some (fsub (best_similarity g) (best_similarity h))"
      using second_best [OF g(1) c'] by blast
    then have "po_margin p \<le> fsub (similarity c) (best_similarity h)" using g(3) c(3) by simp
    moreover have "0 < po_margin p" using assms(1) by (simp add: policy_ok_def)
    ultimately show ?thesis using h(2) fsub_pos_less by (meson less_le_trans)
  qed
  have "automatic_matching p"
    using g(2) c(3) similarity_le_one [of c] by (simp add: automatic_matching_def)
  with gate g(2,5) c ci lead show ?thesis
    by (auto simp: assess_def complete_def)
qed

text \<open>Concrete scores for the witnesses: dyadic, so that the subtractions are exact.\<close>

lemma fsub_one_half: "fsub 1 (1/2) = 1/2"
  using fl_pow2 [of "-1"] by (simp add: fsub_def power_int_minus)

lemma fsub_one_quarter: "fsub (1/2) (1/4) = 1/4"
  using fl_pow2 [of "-2"] by (simp add: fsub_def power_int_minus)

lemma fsub_one_zero: "fsub 1 0 = 1"
  using fl_pow2 [of 0] by (simp add: fsub_def)

lemma fsub_one_one: "fsub 1 1 = 0"
  by simp

definition sample_policy :: policy where
  "sample_policy = \<lparr>po_version = ''v1'', po_gate = 1/2, po_match = 1/2, po_margin = 1/4, po_ceiling = 1/4\<rparr>"

definition sample_retrieval :: retrieval where
  "sample_retrieval = \<lparr>rv_space = 3, rv_k = 5, rv_candidates =
     [\<lparr>cd_pool = GLOBAL, cd_rep = 21, cd_identity = Some 7, cd_distance = 1/2\<rparr>,
      \<lparr>cd_pool = GLOBAL, cd_rep = 22, cd_identity = Some 8, cd_distance = 1\<rparr>],
     rv_dropped = 0, rv_converged = True\<rparr>"

lemma sample_policy_ok: "policy_ok sample_policy"
  by (simp add: policy_ok_def sample_policy_def)

lemma fsub_half_zero: "fsub (1/2) 0 = 1/2"
  using fl_pow2 [of "-1"] by (simp add: fsub_def power_int_minus)

lemmas decide_eval =
  decide_def assess_def complete_def margin_def key_of_def group_of_def member_of_def similarity_def
  group_order_def member_order_def best_similarity_def fsub_one_half fsub_half_zero fsub_one_zero

lemma sample_match:
  "decide sample_policy (assess sample_retrieval 1) =
     \<lparr>d_outcome = MATCH_EXISTING, d_reason = MATCHED, d_identity = Some 7,
      d_assessment = assess sample_retrieval 1, d_policy = sample_policy\<rparr>"
  by (simp add: decide_eval sample_policy_def sample_retrieval_def)

lemma match_needs_quality_completeness_and_lead_witness:
  "d_identity (decide sample_policy (assess sample_retrieval 1)) = Some 7 \<and>
   (\<exists>c\<in>set (rv_candidates sample_retrieval). cd_identity c = Some 7 \<and> 1/2 \<le> similarity c)"
proof -
  have "d_outcome (decide sample_policy (assess sample_retrieval 1)) = MATCH_EXISTING"
    by (simp add: sample_match)
  from match_needs_quality_completeness_and_lead [OF sample_policy_ok this] obtain i c where
    "d_identity (decide sample_policy (assess sample_retrieval 1)) = Some i"
    "c \<in> set (rv_candidates sample_retrieval)" "cd_identity c = Some i"
    "po_match sample_policy \<le> similarity c"
    by blast
  moreover have "po_match sample_policy = 1/2" by (simp add: sample_policy_def)
  ultimately show ?thesis by (auto simp: sample_match)
qed

text \<open>
  Automatic matching is off under a policy whose threshold is above 1: no retrieval at all, with
  whatever distances the index reports, is matched to an identity.
\<close>

theorem threshold_above_one_never_matches:
  assumes "\<not> automatic_matching p"
  shows "d_outcome (decide p (assess rv q)) \<noteq> MATCH_EXISTING"
proof
  assume "d_outcome (decide p (assess rv q)) = MATCH_EXISTING"
  then obtain g gs where g: "as_groups (assess rv q) = g # gs" "po_match p \<le> best_similarity g"
    unfolding decide_match_iff by blast
  then have "g \<in> set (as_groups (assess rv q))" by simp
  then obtain c where "c \<in> set (rv_candidates rv)" "g = group_of (rv_candidates rv) (key_of c)"
    unfolding set_groups by blast
  then obtain c' where "best_similarity g = similarity c'" using best_similarity_attained by metis
  with g(2) similarity_le_one [of c'] assms show False by (simp add: automatic_matching_def)
qed

lemma threshold_above_one_never_matches_witness:
  "policy_ok (sample_policy\<lparr>po_match := 3/2\<rparr>) \<and>
   d_outcome (decide (sample_policy\<lparr>po_match := 3/2\<rparr>) (assess sample_retrieval 1)) \<noteq> MATCH_EXISTING"
  using threshold_above_one_never_matches [of "sample_policy\<lparr>po_match := 3/2\<rparr>" sample_retrieval 1]
  by (simp add: policy_ok_def sample_policy_def automatic_matching_def)

text \<open>
  A new identity is proposed exactly when the face passes the quality gate, the shortlist is
  complete, and every candidate in it is less similar than both the ceiling and the match threshold
  (none at all included).
\<close>

theorem create_exactly_for_strangers:
  "d_outcome (decide p (assess rv q)) = CREATE_NEW \<longleftrightarrow>
     po_gate p \<le> q \<and> rv_dropped rv = 0 \<and> rv_converged rv \<and>
     (\<forall>c\<in>set (rv_candidates rv). similarity c < po_ceiling p \<and> similarity c < po_match p)"
proof (cases "as_groups (assess rv q)")
  case Nil
  then have "set (rv_candidates rv) = {}" using set_groups [of rv q] by simp
  with Nil show ?thesis unfolding decide_create_iff by (simp add: assess_def complete_def)
next
  case (Cons g gs)
  then have "g \<in> set (as_groups (assess rv q))" by simp
  then obtain c0 where c0: "c0 \<in> set (rv_candidates rv)" "g = group_of (rv_candidates rv) (key_of c0)"
    unfolding set_groups by blast
  then obtain c where c: "c \<in> set (rv_candidates rv)" "best_similarity g = similarity c"
    using best_similarity_attained by metis
  have "similarity c' \<le> best_similarity g" if c': "c' \<in> set (rv_candidates rv)" for c'
  proof -
    let ?h = "group_of (rv_candidates rv) (key_of c')"
    have "?h = g \<or> ?h \<in> set gs" using c' Cons set_groups [of rv q] by auto
    then have "best_similarity ?h \<le> best_similarity g" using groups_best_first [OF Cons] by auto
    with best_similarity_ge [OF c'] show ?thesis by linarith
  qed
  then have "(\<forall>c\<in>set (rv_candidates rv). similarity c < po_ceiling p \<and> similarity c < po_match p) \<longleftrightarrow>
      best_similarity g < po_match p \<and> best_similarity g < po_ceiling p"
    using c by (metis le_less_trans)
  with Cons show ?thesis unfolding decide_create_iff by (simp add: assess_def complete_def)
qed

lemma create_exactly_for_strangers_witness:
  "d_outcome (decide sample_policy (assess (sample_retrieval\<lparr>rv_candidates := []\<rparr>) 1)) = CREATE_NEW"
  unfolding create_exactly_for_strangers by (simp add: sample_policy_def sample_retrieval_def)

section \<open>Grouping loses nothing and ignores the listing order\<close>

lemma mset_group: "mset (gr_members (group_of cs k)) = image_mset member_of (filter_mset (\<lambda>c. key_of c = k) (mset cs))"
  by (simp add: group_of_def flip: mset_filter)

lemma sum_filter_keys:
  assumes "distinct ks" and "key_of ` set cs \<subseteq> set ks"
  shows "(\<Sum>k\<leftarrow>ks. filter_mset (\<lambda>c. key_of c = k) (mset cs)) = mset cs"
  using assms
proof (induction ks arbitrary: cs)
  case (Cons k ks)
  let ?rest = "filter (\<lambda>c. key_of c \<noteq> k) cs"
  have "(\<Sum>k'\<leftarrow>ks. filter_mset (\<lambda>c. key_of c = k') (mset cs)) =
      (\<Sum>k'\<leftarrow>ks. filter_mset (\<lambda>c. key_of c = k') (mset ?rest))"
    using Cons.prems(1)
    by (intro arg_cong [where f = sum_list] map_cong refl) (auto simp: filter_filter_mset intro!: filter_mset_cong)
  also have "\<dots> = mset ?rest"
    using Cons.prems by (intro Cons.IH) auto
  finally show ?case by (simp flip: multiset_partition)
qed simp

lemma sum_list_image_mset: "(\<Sum>k\<leftarrow>ks. image_mset f (h k)) = image_mset f (\<Sum>k\<leftarrow>ks. h k)"
  by (induction ks) auto

lemma mset_concat_groups:
  "mset (concat (map gr_members gs)) = (\<Sum>g\<in>#mset gs. mset (gr_members g))"
  by (induction gs) auto

text \<open>
  Assessing loses and invents no candidate: the groups' members are exactly the candidates of
  the retrieval (each with its own representation, pool and similarity), every group holds the
  candidates of one identity or one candidate without an identity, no identity has two groups, and
  the groups are listed best first.
\<close>

theorem assess_partitions_the_candidates:
  "mset (concat (map gr_members (as_groups (assess rv q)))) = image_mset member_of (mset (rv_candidates rv)) \<and>
   (\<forall>i. length (filter (\<lambda>g. gr_identity g = Some i) (as_groups (assess rv q))) \<le> 1) \<and>
   (\<forall>g\<in>set (as_groups (assess rv q)). \<forall>m\<in>set (gr_members g).
      \<exists>c\<in>set (rv_candidates rv). m = member_of c \<and> cd_identity c = gr_identity g \<and>
        (gr_identity g = None \<longrightarrow> (\<forall>m'\<in>set (gr_members g). m_rep m' = m_rep m))) \<and>
   sorted (map (\<lambda>g. - best_similarity g) (as_groups (assess rv q)))"
proof (intro conjI)
  let ?cs = "rv_candidates rv" and ?gs = "as_groups (assess rv q)"
  have gs: "mset ?gs = mset (map (group_of ?cs) (dedup (map key_of ?cs)))" by (simp add: assess_def)
  have "(\<Sum>g\<in>#mset ?gs. mset (gr_members g)) =
      (\<Sum>k\<leftarrow>dedup (map key_of ?cs). image_mset member_of (filter_mset (\<lambda>c. key_of c = k) (mset ?cs)))"
    unfolding gs by (simp add: mset_group o_def multiset.map_comp sum_mset_sum_list flip: mset_map)
  also have "\<dots> = image_mset member_of (\<Sum>k\<leftarrow>dedup (map key_of ?cs). filter_mset (\<lambda>c. key_of c = k) (mset ?cs))"
    by (rule sum_list_image_mset)
  also have "\<dots> = image_mset member_of (mset ?cs)"
    by (subst sum_filter_keys) simp_all
  finally show "mset (concat (map gr_members ?gs)) = image_mset member_of (mset ?cs)"
    by (simp only: mset_concat_groups)
  show "\<forall>i. length (filter (\<lambda>g. gr_identity g = Some i) ?gs) \<le> 1"
  proof
    fix i
    have "set (filter (\<lambda>g. gr_identity g = Some i) ?gs) \<subseteq> {group_of ?cs (ByIdentity i)}"
    proof
      fix g assume "g \<in> set (filter (\<lambda>g. gr_identity g = Some i) ?gs)"
      then obtain c where "c \<in> set ?cs" "g = group_of ?cs (key_of c)" "cd_identity c = Some i"
        using set_groups [of rv q] by (auto simp: gr_identity_group_of key_identity_key_of)
      then show "g \<in> {group_of ?cs (ByIdentity i)}" by (simp add: key_of_def)
    qed
    then have "card (set (filter (\<lambda>g. gr_identity g = Some i) ?gs)) \<le> 1"
      by (metis card.empty card_insert_disjoint card_mono empty_iff finite.emptyI finite.insertI One_nat_def)
    moreover have "distinct (filter (\<lambda>g. gr_identity g = Some i) ?gs)" using distinct_groups by auto
    ultimately show "length (filter (\<lambda>g. gr_identity g = Some i) ?gs) \<le> 1"
      by (metis distinct_card)
  qed
  show "sorted (map (\<lambda>g. - best_similarity g) ?gs)"
    using sorted_groups [of rv q] by (auto simp: sorted_map group_order_def less_eq_prod_def elim: sorted_wrt_mono_rel [rotated])
  show "\<forall>g\<in>set ?gs. \<forall>m\<in>set (gr_members g).
      \<exists>c\<in>set ?cs. m = member_of c \<and> cd_identity c = gr_identity g \<and>
        (gr_identity g = None \<longrightarrow> (\<forall>m'\<in>set (gr_members g). m_rep m' = m_rep m))"
    unfolding set_groups
    by (auto simp: set_members gr_identity_group_of key_identity_key_of member_of_def key_of_def
        split: option.splits) (metis)
qed

lemma assess_partitions_the_candidates_witness:
  "image_mset m_rep (mset (concat (map gr_members (as_groups (assess sample_retrieval 1))))) = {#21, 22#} \<and>
   length (filter (\<lambda>g. gr_identity g = Some 7) (as_groups (assess sample_retrieval 1))) \<le> 1"
proof -
  have "image_mset member_of (mset (rv_candidates sample_retrieval)) =
      {#member_of c. c \<in># mset (rv_candidates sample_retrieval)#}" by simp
  moreover have "image_mset m_rep (image_mset member_of (mset (rv_candidates sample_retrieval))) = {#21, 22#}"
    by (simp add: sample_retrieval_def member_of_def)
  ultimately show ?thesis
    using assess_partitions_the_candidates [of sample_retrieval 1] by metis
qed

text \<open>
  C25. The assessment, and so the decision and its evidence, is a function of the set of candidates:
  listing the same candidates (no representation twice) in another order gives the same assessment.
\<close>

theorem assessment_ignores_listing_order:
  assumes "distinct (map cd_rep cs)" and "mset cs' = mset cs"
  shows "assess (rv\<lparr>rv_candidates := cs'\<rparr>) q = assess (rv\<lparr>rv_candidates := cs\<rparr>) q"
proof -
  have set': "set cs' = set cs" using assms(2) by (rule mset_eq_setD)
  have inj: "inj_on cd_rep (set cs)" using assms(1) by (simp add: distinct_map)
  have group: "group_of cs' k = group_of cs k" for k
  proof -
    let ?m = "\<lambda>cs. map member_of (filter (\<lambda>c. key_of c = k) cs)"
    have "mset (?m cs') = mset (?m cs)" using assms(2) by simp
    moreover have "inj_on member_order (set (?m cs))"
      by (auto simp: inj_on_def member_order_def member_of_def)
    ultimately have "sort_key member_order (?m cs') = sort_key member_order (?m cs)"
      by (metis mset_sort properties_for_sort_key sorted_sort_key sort_key_inj_key_eq mset_eq_setD)
    then show ?thesis by (simp add: group_of_def)
  qed
  let ?gs = "\<lambda>cs. map (group_of cs) (dedup (map key_of cs))"
  have "mset (dedup (map key_of cs')) = mset (dedup (map key_of cs))"
    using set' by (simp add: set_eq_iff_mset_eq_distinct [symmetric])
  then have "mset (?gs cs') = mset (?gs cs)" by (simp add: group [abs_def])
  moreover have "inj_on group_order (set (?gs cs))"
  proof (rule inj_onI)
    fix g g' assume "g \<in> set (?gs cs)" "g' \<in> set (?gs cs)" and eq: "group_order g = group_order g'"
    then obtain c c' where c: "c \<in> set cs" "g = group_of cs (key_of c)"
      and c': "c' \<in> set cs" "g' = group_of cs (key_of c')" by auto
    have "hd (gr_members g) \<in> set (gr_members g)" "hd (gr_members g') \<in> set (gr_members g')"
      using group_of_nonempty c c' by auto
    then obtain e e' where "e \<in> set cs" "key_of e = key_of c" "hd (gr_members g) = member_of e"
      and "e' \<in> set cs" "key_of e' = key_of c'" "hd (gr_members g') = member_of e'"
      using c c' by (auto simp: set_members)
    moreover from this eq have "cd_rep e = cd_rep e'" by (simp add: group_order_def member_of_def)
    ultimately show "g = g'" using inj c(2) c'(2) by (metis inj_onD)
  qed
  ultimately have "sort_key group_order (?gs cs') = sort_key group_order (?gs cs)"
    by (metis mset_sort sorted_sort_key sort_key_inj_key_eq)
  moreover have "length cs' = length cs" using assms(2) by (rule mset_eq_length)
  ultimately show ?thesis by (simp add: assess_def)
qed

lemma assessment_ignores_listing_order_witness:
  "assess (sample_retrieval\<lparr>rv_candidates := rev (rv_candidates sample_retrieval)\<rparr>) 1 =
     assess sample_retrieval 1"
  using assessment_ignores_listing_order [of "rv_candidates sample_retrieval" "rev (rv_candidates sample_retrieval)" sample_retrieval 1]
  by (simp add: sample_retrieval_def)

section \<open>A shortlist filled by one identity\<close>

text \<open>
  Where every candidate of the shortlist is of one identity, the margin is never measured: the
  face is matched however near a candidate of another identity is that the cut at \<open>k\<close> left out, and
  for every \<open>k\<close> there are such shortlists.
\<close>

theorem full_shortlist_hides_the_runner_up:
  assumes "po_gate p \<le> q" and "po_match p \<le> s" and "s \<le> 1" and "-1 \<le> s"
    and "fsub 1 d = s" and "0 < k"
    and shortlist: "rv_candidates rv =
      take k (map (\<lambda>r. \<lparr>cd_pool = GLOBAL, cd_rep = r, cd_identity = Some i, cd_distance = d\<rparr>) [0..<k] @
              [\<lparr>cd_pool = GLOBAL, cd_rep = k, cd_identity = Some j, cd_distance = d\<rparr>])"
    and "rv_dropped rv = 0" and "rv_converged rv"
  shows "d_outcome (decide p (assess rv q)) = MATCH_EXISTING \<and> d_identity (decide p (assess rv q)) = Some i \<and>
    margin (assess rv q) = None"
proof -
  let ?c = "\<lambda>r. \<lparr>cd_pool = GLOBAL, cd_rep = r, cd_identity = Some i, cd_distance = d\<rparr>"
  have cs: "rv_candidates rv = map ?c [0..<k]" using shortlist by simp
  have key: "key_of ` set (rv_candidates rv) = {ByIdentity i}"
    using assms(6) by (auto simp: cs key_of_def image_iff)
  let ?g = "group_of (rv_candidates rv) (ByIdentity i)"
  have "set (as_groups (assess rv q)) = {?g}" using key by (simp add: set_groups)
  then have groups: "as_groups (assess rv q) = [?g]"
    using distinct_groups [of rv q]
    by (metis distinct_length_2_or_more empty_set list.exhaust list.set_intros(1,2) singletonD insert_not_empty)
  have "?c 0 \<in> set (rv_candidates rv)" using assms(6) by (auto simp: cs)
  then obtain c where c: "c \<in> set (rv_candidates rv)" "best_similarity ?g = similarity c"
    using best_similarity_attained [of "?c 0"] by (auto simp: key_of_def)
  then have "best_similarity ?g = s" using assms(3-5) by (auto simp: cs similarity_def)
  with groups assms show ?thesis
    by (simp add: decide_def margin_def complete_def group_of_def) (simp add: assess_def)
qed

lemma full_shortlist_hides_the_runner_up_witness:
  "let rv = \<lparr>rv_space = 3, rv_k = 5, rv_candidates =
       take 5 (map (\<lambda>r. \<lparr>cd_pool = GLOBAL, cd_rep = r, cd_identity = Some 7, cd_distance = 1/2\<rparr>) [0..<5] @
               [\<lparr>cd_pool = GLOBAL, cd_rep = 5, cd_identity = Some 8, cd_distance = 1/2\<rparr>]),
       rv_dropped = 0, rv_converged = True\<rparr>
   in d_identity (decide sample_policy (assess rv 1)) = Some 7"
  unfolding Let_def
  by (rule conjunct1 [OF conjunct2 [OF full_shortlist_hides_the_runner_up
        [where p = sample_policy and q = 1 and s = "1/2" and d = "1/2" and k = 5 and i = 7 and j = 8]]])
    (simp_all add: sample_policy_def fsub_one_half)

end
