(* ===== verification/Paging.thy ===== *)
theory Paging
  imports Schema
begin

text \<open>
  Keyset pagination, as every repository that pages a table does it: the selected rows after the
  cursor, in order, one more than asked for to know whether there is a next page. The interface
  \<open>keyset\<close> is what the order and the cursor of a table promise; its lemmas say that a page never
  repeats or skips a row and that following the cursors reads everything once, in order. It is
  interpreted for occurrences and evidence (newest first) and representations (oldest first).
\<close>

definition keyset_page ::
  "('r \<Rightarrow> 'o::linorder) \<Rightarrow> ('c \<Rightarrow> 'r \<Rightarrow> bool) \<Rightarrow> ('r \<Rightarrow> 'c) \<Rightarrow> nat \<Rightarrow> 'c option \<Rightarrow> 'r list \<Rightarrow> 'r list \<times> 'c option"
where
  "keyset_page order beyond cursor_of limit after t =
     (let rows = take (limit + 1) (sort_key order
            (filter (\<lambda>r. case after of None \<Rightarrow> True | Some c \<Rightarrow> beyond c r) t))
      in (take limit rows,
          if length rows \<le> limit then None else Some (cursor_of (rows ! (limit - 1)))))"

text \<open>A client that follows the cursors, for at most \<open>n\<close> pages.\<close>

fun read_pages ::
  "nat \<Rightarrow> ('c option \<Rightarrow> 'r list \<times> 'c option) \<Rightarrow> 'c option \<Rightarrow> 'r list" where
  "read_pages 0 page after = []"
| "read_pages (Suc n) page after =
     (case page after of (rows, None) \<Rightarrow> rows | (rows, Some c) \<Rightarrow> rows @ read_pages n page (Some c))"

locale keyset =
  fixes order :: "'r \<Rightarrow> 'o::linorder" and beyond :: "'c \<Rightarrow> 'r \<Rightarrow> bool" and cursor_of :: "'r \<Rightarrow> 'c"
  assumes beyond_cursor: "beyond (cursor_of r) r' \<longleftrightarrow> order r < order r'"
    and beyond_up: "beyond c r \<Longrightarrow> order r < order r' \<Longrightarrow> beyond c r'"
begin

abbreviation page where "page \<equiv> keyset_page order beyond cursor_of"

definition ahead :: "'c option \<Rightarrow> 'r list \<Rightarrow> 'r list" where
  "ahead after t = sort_key order (filter (\<lambda>r. case after of None \<Rightarrow> True | Some c \<Rightarrow> beyond c r) t)"

lemma page_ahead:
  "page limit after t = (take limit (ahead after t),
     if length (ahead after t) \<le> limit then None else Some (cursor_of (ahead after t ! (limit - 1))))"
  by (auto simp: keyset_page_def Let_def ahead_def min_def)

lemma page_sorted: "sorted (map order (fst (page limit after t)))"
  by (simp add: page_ahead ahead_def take_map [symmetric] sorted_wrt_take)

lemma page_length: "length (fst (page limit after t)) \<le> limit"
  by (simp add: page_ahead)

lemma page_beyond: "r \<in> set (fst (page limit (Some c) t)) \<Longrightarrow> r \<in> set t \<and> beyond c r"
  by (auto simp: page_ahead ahead_def dest: in_set_takeD)

text \<open>
  Whatever is written to the table between two requests, the next page repeats no row of the page
  its cursor came from, nor any row before it.
\<close>

lemma next_page_repeats_nothing:
  assumes "page limit after t = (rows, Some c)" and "0 < limit"
    and "r \<in> set rows" and "r' \<in> set (fst (page limit (Some c) t'))"
  shows "order r < order r'"
proof -
  let ?xs = "ahead after t"
  have rows: "rows = take limit ?xs" and c: "c = cursor_of (?xs ! (limit - 1))" and len: "limit < length ?xs"
    using assms(1) by (auto simp: page_ahead not_le split: if_splits)
  have "order (?xs ! (limit - 1)) < order r'"
    using page_beyond [OF assms(4)] beyond_cursor c by auto
  moreover have "order r \<le> order (?xs ! (limit - 1))"
  proof -
    obtain k where k: "k < limit" "r = ?xs ! k"
      using assms(3) len by (auto simp: rows in_set_conv_nth)
    then have "map order ?xs ! k \<le> map order ?xs ! (limit - 1)"
      using len by (intro sorted_nth_mono) (auto simp: ahead_def)
    with k len assms(2) show ?thesis by simp
  qed
  ultimately show ?thesis by simp
qed

lemma strict_drop:
  assumes "sorted_wrt (\<lambda>x y. order x < order y) xs" and "0 < n" and "n < length xs"
  shows "filter (\<lambda>r. order (xs ! (n - 1)) < order r) xs = drop n xs"
proof -
  let ?m = "xs ! (n - 1)"
  have "\<not> order ?m < order r" if r: "r \<in> set (take n xs)" for r
  proof -
    obtain k where "k < n" "r = xs ! k" using r assms(3) by (auto simp: in_set_conv_nth)
    show ?thesis
    proof (cases "k = n - 1")
      case False
      with \<open>k < n\<close> have "k < n - 1" by simp
      then have "order (xs ! k) < order ?m"
        using sorted_wrt_nth_less [OF assms(1), of k "n - 1"] assms(3) by simp
      with \<open>r = xs ! k\<close> show ?thesis by (simp add: less_imp_not_less)
    qed (simp add: \<open>r = xs ! k\<close>)
  qed
  moreover have "order ?m < order r" if r: "r \<in> set (drop n xs)" for r
  proof -
    obtain k where "k < length (drop n xs)" "r = drop n xs ! k" using r by (metis in_set_conv_nth)
    then have "n + k < length xs" "r = xs ! (n + k)" by auto
    with assms show ?thesis using sorted_wrt_nth_less [OF assms(1), of "n - 1" "n + k"] by auto
  qed
  ultimately have "filter (\<lambda>r. order ?m < order r) (take n xs @ drop n xs) = drop n xs"
    unfolding filter_append by (auto simp: filter_empty_conv filter_id_conv)
  then show ?thesis by (simp only: append_take_drop_id)
qed

lemma ahead_strict:
  assumes "inj_on order (set t)" and "distinct t"
  shows "sorted_wrt (\<lambda>x y. order x < order y) (ahead after t)"
proof -
  have "distinct (map order (ahead after t))"
    using assms by (auto simp: ahead_def distinct_map intro: inj_on_subset)
  moreover have "sorted (map order (ahead after t))" by (simp add: ahead_def)
  ultimately have "sorted_wrt (<) (map order (ahead after t))" by (simp add: strict_sorted_iff)
  then show ?thesis by (simp add: sorted_wrt_map)
qed

lemma ahead_after_page:
  assumes "inj_on order (set t)" and "distinct t" and "0 < limit" and "limit < length (ahead after t)"
  shows "ahead (Some (cursor_of (ahead after t ! (limit - 1)))) t = drop limit (ahead after t)"
proof -
  let ?xs = "ahead after t" and ?m = "ahead after t ! (limit - 1)"
  let ?sel = "\<lambda>r. case after of None \<Rightarrow> True | Some c \<Rightarrow> beyond c r"
  have "?m \<in> set ?xs" using assms(3,4) by simp
  then have up: "?sel r" if "order ?m < order r" for r
    using that beyond_up by (auto simp: ahead_def split: option.splits)
  have "ahead (Some (cursor_of ?m)) t = sort_key order (filter (\<lambda>r. order ?m < order r) t)"
    by (simp add: ahead_def beyond_cursor)
  also have "filter (\<lambda>r. order ?m < order r) t = filter (\<lambda>r. order ?m < order r) (filter ?sel t)"
    using up by (simp add: filter_filter conj_commute) (metis (no_types, lifting))
  also have "sort_key order \<dots> = filter (\<lambda>r. order ?m < order r) ?xs"
    by (simp add: ahead_def filter_sort)
  also have "\<dots> = drop limit ?xs" by (rule strict_drop [OF ahead_strict [OF assms(1,2)] assms(3,4)])
  finally show ?thesis .
qed

text \<open>Following the cursors to the end reads every selected row once, in order.\<close>

lemma read_pages_all:
  assumes "inj_on order (set t)" and "distinct t" and "0 < limit" and "0 < n"
    and "length (ahead after t) \<le> n * limit"
  shows "read_pages n (\<lambda>c. page limit c t) after = ahead after t"
  using assms(4,5)
proof (induction n arbitrary: after)
  case (Suc n)
  show ?case
  proof (cases "length (ahead after t) \<le> limit")
    case True
    then show ?thesis by (simp add: page_ahead)
  next
    case False
    let ?c = "cursor_of (ahead after t ! (limit - 1))"
    have rest: "ahead (Some ?c) t = drop limit (ahead after t)"
      using False by (intro ahead_after_page assms) simp
    then have "length (ahead (Some ?c) t) \<le> n * limit" using Suc.prems(2) by simp
    moreover have "0 < n" using False Suc.prems(2) by (cases n) auto
    ultimately have "read_pages n (\<lambda>c. page limit c t) (Some ?c) = drop limit (ahead after t)"
      using Suc.IH [of "Some ?c"] rest by simp
    with False show ?thesis by (simp add: page_ahead)
  qed
qed simp

end

text \<open>The two orders the tables use: newest first and oldest first, ties by id.\<close>

record cursor =
  cu_created :: time
  cu_id :: uuid

definition newest_first :: "('r \<Rightarrow> time) \<Rightarrow> ('r \<Rightarrow> uuid) \<Rightarrow> 'r \<Rightarrow> int \<times> int" where
  "newest_first created key r = (- created r, - int (key r))"

definition older_than :: "('r \<Rightarrow> time) \<Rightarrow> ('r \<Rightarrow> uuid) \<Rightarrow> cursor \<Rightarrow> 'r \<Rightarrow> bool" where
  "older_than created key c r \<longleftrightarrow>
     created r < cu_created c \<or> (created r = cu_created c \<and> key r < cu_id c)"

definition oldest_first :: "('r \<Rightarrow> time) \<Rightarrow> ('r \<Rightarrow> uuid) \<Rightarrow> 'r \<Rightarrow> int \<times> int" where
  "oldest_first created key r = (created r, int (key r))"

definition newer_than :: "('r \<Rightarrow> time) \<Rightarrow> ('r \<Rightarrow> uuid) \<Rightarrow> cursor \<Rightarrow> 'r \<Rightarrow> bool" where
  "newer_than created key c r \<longleftrightarrow>
     cu_created c < created r \<or> (created r = cu_created c \<and> cu_id c < key r)"

definition cursor_at :: "('r \<Rightarrow> time) \<Rightarrow> ('r \<Rightarrow> uuid) \<Rightarrow> 'r \<Rightarrow> cursor" where
  "cursor_at created key r = \<lparr>cu_created = created r, cu_id = key r\<rparr>"

lemma keyset_newest: "keyset (newest_first created key) (older_than created key) (cursor_at created key)"
  by unfold_locales (auto simp: newest_first_def older_than_def cursor_at_def less_prod_def)

lemma keyset_oldest: "keyset (oldest_first created key) (newer_than created key) (cursor_at created key)"
  by unfold_locales (auto simp: oldest_first_def newer_than_def cursor_at_def less_prod_def)

lemma inj_newest: "tab_keyed key t \<Longrightarrow> inj_on (newest_first created key) (set t)"
  by (auto simp: inj_on_def newest_first_def tab_keyed_def distinct_map)

lemma inj_oldest: "tab_keyed key t \<Longrightarrow> inj_on (oldest_first created key) (set t)"
  by (auto simp: inj_on_def oldest_first_def tab_keyed_def distinct_map)

lemma tab_keyed_distinct: "tab_keyed key t \<Longrightarrow> distinct t"
  by (simp add: tab_keyed_def distinct_map)

end
