(* ===== verification/Memory.thy ===== *)
theory Memory
  imports Paging Transactions
begin

text \<open>
  The repositories of observations and representations
  (\<open>backend/app/memory/repository.py\<close>). A representation's permanent index key comes from one
  sequence per space; its erasure states are out of reach of a plain state change. Shown: keys are
  never handed out twice, the constraints of the table are kept, the chunked key lookup is one
  lookup per key, and paging reads every representation of a run once.
\<close>

section \<open>Observations\<close>

definition observations_ok :: "observation list \<Rightarrow> bool" where
  "observations_ok t \<longleftrightarrow> tab_keyed o_id t \<and> distinct (map (\<lambda>o'. (o_run o', o_sequence o')) t) \<and>
     (\<forall>o'\<in>set t. 0 \<le> o_sequence o')"

definition observation_add_batch ::
  "observation list \<Rightarrow> observation list \<Rightarrow> repo_error + observation list \<times> observation list" where
  "observation_add_batch new t =
     (if observations_ok (t @ new) then Inr (new, t @ new) else Inl IntegrityError)"

definition observation_get :: "observation list \<Rightarrow> uuid \<Rightarrow> observation option" where
  "observation_get t i = tab_get o_id t i"

definition observation_page_for_run ::
  "uuid \<Rightarrow> int \<Rightarrow> int option \<Rightarrow> observation list \<Rightarrow> repo_error + observation list" where
  "observation_page_for_run run_id limit after t =
     (if limit < 1 then Inl ValueError
      else Inr (take (nat limit) (sort_key o_sequence
             (filter (\<lambda>o'. o_run o' = run_id \<and>
                (case after of None \<Rightarrow> True | Some s \<Rightarrow> s < o_sequence o')) t))))"

definition observation_transition ::
  "uuid \<Rightarrow> observation_state list \<Rightarrow> observation_state \<Rightarrow> uuid option \<Rightarrow> observation list
   \<Rightarrow> bool \<times> observation list" where
  "observation_transition i from_states to superseded_by t =
     guarded_update (\<lambda>o'. o_id o' = i \<and> o_state o' \<in> set from_states)
       (\<lambda>o'. o'\<lparr>o_state := to,
              o_superseded_by := (case superseded_by of None \<Rightarrow> o_superseded_by o' | Some r \<Rightarrow> Some r)\<rparr>) t"

interpretation obs_state: state_column o_id o_state "\<lambda>s o'. o'\<lparr>o_state := s\<rparr>"
  by unfold_locales simp_all

section \<open>Representations\<close>

record rep_summary =
  z_id :: uuid
  z_obs :: uuid
  z_identity :: "uuid option"
  z_space :: uuid
  z_state :: rep_state
  z_key :: "int option"
  z_created :: time

definition summary_of :: "rep \<Rightarrow> rep_summary" where
  "summary_of r = \<lparr>z_id = r_id r, z_obs = r_obs r, z_identity = r_identity r, z_space = r_space r,
     z_state = r_state r, z_key = r_key r, z_created = r_created r\<rparr>"

definition reps_ok :: "rep list \<Rightarrow> bool" where
  "reps_ok t \<longleftrightarrow> tab_keyed r_id t \<and> (\<forall>r\<in>set t. rep_row_ok r) \<and>
     distinct (map (\<lambda>r. (r_obs r, r_space r)) t) \<and>
     unique_where (\<lambda>r. r_key r \<noteq> None) (\<lambda>r. (r_space r, r_key r)) t"

definition rep_add_batch :: "rep list \<Rightarrow> rep list \<Rightarrow> repo_error + rep list \<times> rep list" where
  "rep_add_batch new t = (if reps_ok (t @ new) then Inr (new, t @ new) else Inl IntegrityError)"

definition rep_get :: "rep list \<Rightarrow> uuid \<Rightarrow> rep option" where
  "rep_get t i = tab_get r_id t i"

definition rep_page_for_run ::
  "uuid \<Rightarrow> int \<Rightarrow> cursor option \<Rightarrow> rep_state list option \<Rightarrow> rep list
   \<Rightarrow> repo_error + rep_summary list \<times> cursor option" where
  "rep_page_for_run run_id limit after states t =
     (if limit < 1 then Inl ValueError
      else let (page, next_page) =
             keyset_page (oldest_first r_created r_id) (newer_than r_created r_id) (cursor_at r_created r_id)
               (nat limit) after
               (filter (\<lambda>r. r_run r = run_id \<and>
                  (case states of None \<Rightarrow> True | Some ss \<Rightarrow> r_state r \<in> set ss)) t)
           in Inr (map summary_of page, next_page))"

definition keys_per_query :: nat where
  "keys_per_query = 500"

definition by_ann_keys :: "uuid \<Rightarrow> int list \<Rightarrow> rep list \<Rightarrow> int \<rightharpoonup> rep_summary" where
  "by_ann_keys space_id keys t =
     fold (\<lambda>chunk found.
         fold (\<lambda>r m. m(the (r_key r) \<mapsto> summary_of r))
           (filter (\<lambda>r. r_space r = space_id \<and> r_key r \<in> Some ` set chunk) t) found)
       (chunks keys_per_query (dedup keys)) Map.empty"

definition erasure_states :: "rep_state list" where
  "erasure_states = [R_ERASING, R_ERASED]"

definition rep_transition ::
  "uuid \<Rightarrow> rep_state list \<Rightarrow> rep_state \<Rightarrow> time \<Rightarrow> rep list \<Rightarrow> repo_error + bool \<times> rep list" where
  "rep_transition i from_states to now t =
     (let guard = \<lambda>r. r_id r = i \<and> r_state r \<in> set from_states;
          values = \<lambda>r. r\<lparr>r_state := to,
                        r_activated := (if to = R_ACTIVE then Some now else r_activated r)\<rparr>
      in if to \<in> set erasure_states \<or> list_ex (\<lambda>s. s \<in> set erasure_states) from_states
         then Inl ValueError
         else if list_ex (\<lambda>r. guard r \<and> \<not> rep_row_ok (values r)) t then Inl IntegrityError
         else Inr (guarded_update guard values t))"

text \<open>
  \<open>INSERT OR IGNORE\<close> of the sequence row, then \<open>UPDATE ... RETURNING next_ann_key - 1\<close>. The row
  the update targets is there, so \<open>scalar_one\<close> finds it.
\<close>

definition allocate_ann_key :: "uuid \<Rightarrow> ann_sequence list \<Rightarrow> int \<times> ann_sequence list" where
  "allocate_ann_key space_id t =
     (let t1 = (if tab_get q_space t space_id = None then t @ [\<lparr>q_space = space_id, q_next = 1\<rparr>] else t);
          t2 = tab_update (\<lambda>q. q_space q = space_id) (\<lambda>q. q\<lparr>q_next := q_next q + 1\<rparr>) t1
      in (q_next (the (tab_get q_space t2 space_id)) - 1, t2))"

interpretation rep_state: state_column r_id r_state "\<lambda>s r. r\<lparr>r_state := s\<rparr>"
  by unfold_locales simp_all

section \<open>Keys\<close>

text \<open>The next key of a space: of its sequence row, or 1 while it has none.\<close>

definition next_key :: "ann_sequence list \<Rightarrow> uuid \<Rightarrow> int" where
  "next_key t s = (case tab_get q_space t s of None \<Rightarrow> 1 | Some q \<Rightarrow> q_next q)"

lemma allocate_ann_key_result:
  "fst (allocate_ann_key s t) = next_key t s"
  "next_key (snd (allocate_ann_key s t)) = (next_key t)(s := next_key t s + 1)"
  by (auto simp: allocate_ann_key_def next_key_def Let_def tab_get_update tab_get_append tab_get_Cons
      fun_eq_iff split: option.splits dest: tab_get_SomeD)

text \<open>Keys in use are below the next key of their space and the sequences are positive.\<close>

definition keys_below :: "rep list \<Rightarrow> ann_sequence list \<Rightarrow> bool" where
  "keys_below t qs \<longleftrightarrow> (\<forall>s. 0 < next_key qs s) \<and>
     (\<forall>r\<in>set t. case r_key r of None \<Rightarrow> True | Some k \<Rightarrow> k < next_key qs (r_space r))"

lemma keys_below_allocate: "keys_below t qs \<Longrightarrow> keys_below t (snd (allocate_ann_key s qs))"
  unfolding keys_below_def allocate_ann_key_result
  by (auto split: option.splits) (smt (verit) fun_upd_apply)+

lemma allocated_key_new:
  assumes "keys_below t qs" and "r \<in> set t" and "r_space r = s"
  shows "r_key r \<noteq> Some (fst (allocate_ann_key s qs))" and "0 < fst (allocate_ann_key s qs)"
  using assms by (auto simp: keys_below_def allocate_ann_key_result split: option.splits)

fun allocate_many :: "uuid list \<Rightarrow> ann_sequence list \<Rightarrow> int list \<times> ann_sequence list" where
  "allocate_many [] t = ([], t)"
| "allocate_many (s # ss) t =
     (let (k, t1) = allocate_ann_key s t; (ks, t2) = allocate_many ss t1 in (k # ks, t2))"

lemma allocate_many_ge:
  assumes "allocate_many ss t = (ks, t')" and "i < length ss"
  shows "length ks = length ss \<and> next_key t (ss ! i) \<le> ks ! i"
  using assms
proof (induction ss arbitrary: t ks t' i)
  case (Cons s ss)
  obtain ks1 where ks: "allocate_many ss (snd (allocate_ann_key s t)) = (ks1, t')" "ks = next_key t s # ks1"
    using Cons.prems(1) allocate_ann_key_result(1) [of s t]
    by (auto simp: Let_def case_prod_beta prod_eq_iff)
  have len: "length ks1 = length ss"
    using Cons.IH [OF ks(1), of 0] ks(1) by (cases ss) auto
  show ?case
  proof (cases i)
    case (Suc j)
    have "next_key (snd (allocate_ann_key s t)) (ss ! j) \<le> ks1 ! j"
      using Cons.IH [OF ks(1), of j] Cons.prems(2) Suc by simp
    then show ?thesis using len ks(2) Suc by (auto simp: allocate_ann_key_result split: if_splits)
  qed (use len ks(2) in simp)
qed simp

text \<open>
  The keys a run of allocations hands out, whatever spaces they are for and in whatever order,
  never repeat within a space: a later allocation for the same space gets a strictly larger key, and
  every key is at least 1 in a database whose sequences start there.
\<close>

theorem ann_keys_never_repeat:
  assumes "allocate_many ss t = (ks, t')" and "i < j" and "j < length ss" and "ss ! i = ss ! j"
    and "\<And>s. 0 < next_key t s"
  shows "0 < ks ! i \<and> ks ! i < ks ! j"
  using assms
proof (induction ss arbitrary: t ks t' i j)
  case (Cons s ss)
  obtain ks1 where ks: "allocate_many ss (snd (allocate_ann_key s t)) = (ks1, t')" "ks = next_key t s # ks1"
    using Cons.prems(1) allocate_ann_key_result(1) [of s t]
    by (auto simp: Let_def case_prod_beta prod_eq_iff)
  obtain j' where j: "j = Suc j'" "j' < length ss" using Cons.prems(2,3) by (cases j) auto
  have pos: "0 < next_key (snd (allocate_ann_key s t)) x" for x
    using Cons.prems(5) [of x] Cons.prems(5) [of s] by (simp add: allocate_ann_key_result)
  show ?case
  proof (cases i)
    case 0
    then have "ss ! j' = s" using Cons.prems(4) j by simp
    then have "next_key t s + 1 \<le> ks1 ! j'"
      using allocate_many_ge [OF ks(1) j(2)] by (simp add: allocate_ann_key_result)
    with 0 j ks(2) Cons.prems(5) [of s] show ?thesis by simp
  next
    case (Suc i')
    have "0 < ks1 ! i' \<and> ks1 ! i' < ks1 ! j'"
      using Cons.IH [OF ks(1), of i' j'] Cons.prems(2,4) j Suc pos by simp
    with Suc j ks(2) show ?thesis by simp
  qed
qed simp

lemma ann_keys_never_repeat_witness:
  "allocate_many [7, 8, 7] [] = ([1, 1, 2], [\<lparr>q_space = 7, q_next = 3\<rparr>, \<lparr>q_space = 8, q_next = 2\<rparr>]) \<and>
   0 < [1, 1, 2::int] ! 0 \<and> [1, 1, 2::int] ! 0 < [1, 1, 2] ! 2"
proof -
  have run: "allocate_many [7, 8, 7] [] = ([1, 1, 2], [\<lparr>q_space = 7, q_next = 3\<rparr>, \<lparr>q_space = 8, q_next = 2\<rparr>])"
    by code_simp
  have "0 < next_key [] s" for s by (simp add: next_key_def)
  with run show ?thesis
    using ann_keys_never_repeat [OF run, of 0 2] by simp
qed

section \<open>What the repository keeps\<close>

lemma reps_ok_update:
  assumes "reps_ok t" and "\<And>r. r \<in> set t \<Longrightarrow> p r \<Longrightarrow> rep_row_ok (f r)"
    and "\<And>r. r_id (f r) = r_id r \<and> r_obs (f r) = r_obs r \<and> r_space (f r) = r_space r"
    and "\<And>r. r_key (f r) = r_key r \<or> r_key (f r) = None"
  shows "reps_ok (tab_update p f t)"
proof -
  have "map (\<lambda>r. (r_obs r, r_space r)) (tab_update p f t) = map (\<lambda>r. (r_obs r, r_space r)) t"
    using assms(3) by (intro map_key_tab_update) simp
  moreover have "r_key (f r) = r_key r" if "r_key (f r) \<noteq> None" for r
    using that assms(4) [of r] by auto
  then have "unique_where (\<lambda>r. r_key r \<noteq> None) (\<lambda>r. (r_space r, r_key r)) (tab_update p f t)"
    using assms(1,3) by (intro unique_where_update) (auto simp: reps_ok_def)
  ultimately show ?thesis
    using assms by (auto simp: reps_ok_def tab_keyed_update set_tab_update)
qed

text \<open>
  A plain state change of a representation is refused as soon as either side is an erasure
  state; otherwise a representation that was being erased or is erased keeps its state, its vector
  and its key, no representation gets into an erasure state, no vector, key, owner or space is
  written, and the constraints of the table hold after it.
\<close>

theorem plain_transitions_never_touch_erasure:
  assumes "reps_ok t" and "rep_transition i from_states to now t = Inr (moved, t')"
  shows "reps_ok t' \<and> map (\<lambda>r. (r_id r, r_vector r, r_key r, r_identity r, r_space r)) t' =
      map (\<lambda>r. (r_id r, r_vector r, r_key r, r_identity r, r_space r)) t \<and>
    (\<forall>n<length t. r_state (t ! n) \<in> set erasure_states \<or> r_state (t' ! n) \<in> set erasure_states \<longrightarrow> t' ! n = t ! n) \<and>
    (moved \<longleftrightarrow> (\<exists>r. tab_get r_id t i = Some r \<and> r_state r \<in> set from_states))"
proof -
  let ?p = "\<lambda>r. r_id r = i \<and> r_state r \<in> set from_states"
  let ?f = "\<lambda>r. r\<lparr>r_state := to, r_activated := (if to = R_ACTIVE then Some now else r_activated r)\<rparr>"
  have ok: "to \<notin> set erasure_states" "\<And>s. s \<in> set from_states \<Longrightarrow> s \<notin> set erasure_states"
    "\<And>r. r \<in> set t \<Longrightarrow> ?p r \<Longrightarrow> rep_row_ok (?f r)"
    and res: "guarded_update ?p ?f t = (moved, t')"
    using assms(2) by (auto simp: rep_transition_def Let_def list_ex_iff split: if_splits)
  have t': "t' = tab_update ?p ?f t" using res by (simp add: guarded_update_def)
  have "reps_ok t'" unfolding t' using assms(1) ok(3) by (intro reps_ok_update) auto
  moreover have "map (\<lambda>r. (r_id r, r_vector r, r_key r, r_identity r, r_space r)) t' =
      map (\<lambda>r. (r_id r, r_vector r, r_key r, r_identity r, r_space r)) t"
    unfolding t' by (intro map_key_tab_update) simp
  moreover have "t' ! n = t ! n"
    if "n < length t" "r_state (t ! n) \<in> set erasure_states \<or> r_state (t' ! n) \<in> set erasure_states" for n
    using that ok(1,2) by (auto simp: t' tab_update_def split: if_splits)
  moreover have "moved \<longleftrightarrow> (\<exists>r. tab_get r_id t i = Some r \<and> r_state r \<in> set from_states)"
    using rep_state.cas_True_iff [of t i from_states ?f] assms(1) res
    by (simp add: rep_state.cas_def reps_ok_def)
  ultimately show ?thesis by blast
qed

lemma plain_transitions_never_touch_erasure_witness:
  "\<exists>t t'. rep_transition 1 [R_PENDING] R_SUPERSEDED 9 t = Inr (True, t') \<and> reps_ok t' \<and>
     r_state (t ! 1) = R_ERASED \<and> t' ! 1 = t ! 1 \<and> t' ! 0 \<noteq> t ! 0"
proof -
  let ?r = "\<lparr>r_id = 1, r_obs = 2, r_identity = None, r_run = 3, r_segment = 4, r_space = 5, r_state = R_PENDING,
      r_key = None, r_vector = Some [0, 0, 0, 0], r_dim = 1, r_created = 0, r_activated = None, r_erased = None,
        r_quality = JNull, r_variant = None\<rparr>"
  let ?e = "\<lparr>r_id = 2, r_obs = 3, r_identity = None, r_run = 3, r_segment = 4, r_space = 5, r_state = R_ERASED,
      r_key = None, r_vector = None, r_dim = 1, r_created = 0, r_activated = None, r_erased = Some 1,
        r_quality = JNull, r_variant = None\<rparr>"
  have run: "rep_transition 1 [R_PENDING] R_SUPERSEDED 9 [?r, ?e] = Inr (True, [?r\<lparr>r_state := R_SUPERSEDED\<rparr>, ?e])"
    by code_simp
  have ok: "reps_ok [?r, ?e]" by code_simp
  have "reps_ok [?r\<lparr>r_state := R_SUPERSEDED\<rparr>, ?e] \<and> [?r\<lparr>r_state := R_SUPERSEDED\<rparr>, ?e] ! 1 = [?r, ?e] ! 1"
    using plain_transitions_never_touch_erasure [OF ok run] by (simp add: erasure_states_def)
  with run show ?thesis by (intro exI [of _ "[?r, ?e]"] exI [of _ "[?r\<lparr>r_state := R_SUPERSEDED\<rparr>, ?e]"]) simp
qed

section \<open>Looking keys up\<close>

text \<open>The one representation of a space under a key.\<close>

definition rep_at :: "uuid \<Rightarrow> int \<Rightarrow> rep list \<Rightarrow> rep option" where
  "rep_at s k t = find (\<lambda>r. r_space r = s \<and> r_key r = Some k) t"

lemma rep_at_iff:
  assumes "reps_ok t"
  shows "rep_at s k t = Some r \<longleftrightarrow> r \<in> set t \<and> r_space r = s \<and> r_key r = Some k"
proof
  assume "rep_at s k t = Some r"
  then show "r \<in> set t \<and> r_space r = s \<and> r_key r = Some k"
    by (auto simp: rep_at_def find_Some_iff)
next
  assume r: "r \<in> set t \<and> r_space r = s \<and> r_key r = Some k"
  then have "find (\<lambda>r'. (r_space r', r_key r') = (r_space r, r_key r) \<and> r_key r' \<noteq> None) t = Some r"
    using assms by (intro unique_where_find) (auto simp: reps_ok_def)
  moreover have "find (\<lambda>r'. (r_space r', r_key r') = (r_space r, r_key r) \<and> r_key r' \<noteq> None) t = rep_at s k t"
    unfolding rep_at_def using r by (intro find_cong) auto
  ultimately show "rep_at s k t = Some r" by simp
qed

text \<open>The rows of one space under given keys are told apart by their key.\<close>

lemma keyed_by_key:
  assumes "reps_ok t"
  shows "distinct (map (\<lambda>r. the (r_key r)) (filter (\<lambda>r. r_space r = s \<and> r_key r \<in> Some ` set c) t))"
proof -
  let ?sel = "filter (\<lambda>r. r_space r = s \<and> r_key r \<in> Some ` set c) t"
  have "distinct ?sel" using assms by (auto simp: reps_ok_def tab_keyed_def distinct_map)
  moreover have "r = r'" if r: "r \<in> set ?sel" "r' \<in> set ?sel" "the (r_key r) = the (r_key r')" for r r'
  proof -
    have "rep_at s (the (r_key r)) t = Some r" "rep_at s (the (r_key r)) t = Some r'"
      using r by (auto simp: rep_at_iff [OF assms])
    then show ?thesis by simp
  qed
  ultimately show ?thesis by (simp only: distinct_map inj_on_def) blast
qed

text \<open>Storing the rows of a table under their keys, when no two rows share one.\<close>

lemma fold_store:
  assumes "distinct (map key t)"
  shows "fold (\<lambda>r m. m(key r \<mapsto> val r)) t m k = (case tab_get key t k of None \<Rightarrow> m k | Some r \<Rightarrow> Some (val r))"
  using assms
proof (induction t arbitrary: m)
  case (Cons r t)
  then have "tab_get key t (key r) = None" by (simp add: tab_get_None_iff)
  with Cons show ?case by (simp add: tab_get_Cons)
qed simp

lemma fold_stores:
  assumes "\<And>c. c \<in> set cs \<Longrightarrow> distinct (map key (sel c))"
    and "\<And>c k r. c \<in> set cs \<Longrightarrow> tab_get key (sel c) k = Some r \<longleftrightarrow> k \<in> set c \<and> look k = Some r"
  shows "fold (\<lambda>c m. fold (\<lambda>r m. m(key r \<mapsto> val r)) (sel c) m) cs m k =
    (if k \<in> set (concat cs) \<and> look k \<noteq> None then map_option val (look k) else m k)"
  using assms
proof (induction cs arbitrary: m)
  case (Cons c cs)
  let ?m = "fold (\<lambda>r m. m(key r \<mapsto> val r)) (sel c) m"
  have IH: "fold (\<lambda>c m. fold (\<lambda>r m. m(key r \<mapsto> val r)) (sel c) m) cs ?m k =
    (if k \<in> set (concat cs) \<and> look k \<noteq> None then map_option val (look k) else ?m k)"
    using Cons.prems by (intro Cons.IH) auto
  have "tab_get key (sel c) k = (if k \<in> set c then look k else None)"
  proof (cases "tab_get key (sel c) k")
    case None
    with Cons.prems(2) [of c k "the (look k)"] show ?thesis by (cases "look k") auto
  next
    case (Some r)
    with Cons.prems(2) [of c k r] show ?thesis by simp
  qed
  moreover have "distinct (map key (sel c))" using Cons.prems(1) by simp
  ultimately have m: "?m k = (case if k \<in> set c then look k else None of None \<Rightarrow> m k | Some r \<Rightarrow> Some (val r))"
    by (simp only: fold_store)
  show ?case
    unfolding fold.simps comp_apply IH m by (cases "k \<in> set c"; cases "look k") simp_all
qed simp

text \<open>
  \<open>by_ann_keys\<close> reads the keys five hundred to a statement and yet is one lookup per key: for
  any list of keys, repeated or not, it answers exactly the keys asked for that some representation
  of that space holds, each with its own row.
\<close>

theorem by_ann_keys_is_a_lookup:
  assumes "reps_ok t"
  shows "by_ann_keys s keys t k = (if k \<in> set keys then map_option summary_of (rep_at s k t) else None)"
proof -
  let ?sel = "\<lambda>c. filter (\<lambda>r. r_space r = s \<and> r_key r \<in> Some ` set c) t"
  have distinct: "distinct (map (\<lambda>r. the (r_key r)) (?sel c))" for c
    by (rule keyed_by_key [OF assms])
  have look: "tab_get (\<lambda>r. the (r_key r)) (?sel c) k = Some r \<longleftrightarrow> k \<in> set c \<and> rep_at s k t = Some r" for c k r
  proof
    assume "tab_get (\<lambda>r. the (r_key r)) (?sel c) k = Some r"
    then show "k \<in> set c \<and> rep_at s k t = Some r"
      by (auto dest!: tab_get_SomeD simp: rep_at_iff [OF assms])
  next
    assume "k \<in> set c \<and> rep_at s k t = Some r"
    then have "r \<in> set (?sel c)" "the (r_key r) = k" by (auto simp: rep_at_iff [OF assms])
    with tab_get_in [of "\<lambda>r. the (r_key r)" "?sel c" r] distinct [of c]
    show "tab_get (\<lambda>r. the (r_key r)) (?sel c) k = Some r" by (simp add: tab_keyed_def)
  qed
  have "by_ann_keys s keys t k = (if k \<in> set (concat (chunks keys_per_query (dedup keys))) \<and> rep_at s k t \<noteq> None
      then map_option summary_of (rep_at s k t) else Map.empty k)"
    unfolding by_ann_keys_def
    by (rule fold_stores [where look = "\<lambda>k. rep_at s k t"]) (simp_all only: distinct look)
  then show ?thesis by (simp add: concat_chunks keys_per_query_def)
qed

lemma by_ann_keys_is_a_lookup_witness:
  "\<exists>t r. reps_ok t \<and> by_ann_keys 5 [3, 1, 3] t 3 = Some (summary_of r) \<and> by_ann_keys 5 [3, 1, 3] t 1 = None"
proof -
  let ?r = "\<lparr>r_id = 1, r_obs = 2, r_identity = None, r_run = 3, r_segment = 4, r_space = 5, r_state = R_ACTIVE,
      r_key = Some 3, r_vector = Some [0, 0, 0, 0], r_dim = 1, r_created = 0, r_activated = None, r_erased = None,
        r_quality = JNull, r_variant = None\<rparr>"
  have ok: "reps_ok [?r]" by code_simp
  have "by_ann_keys 5 [3, 1, 3] [?r] 3 = Some (summary_of ?r)"
    using by_ann_keys_is_a_lookup [OF ok, of 5 "[3, 1, 3]" 3] by (simp add: rep_at_def)
  moreover have "by_ann_keys 5 [3, 1, 3] [?r] 1 = None"
    using by_ann_keys_is_a_lookup [OF ok, of 5 "[3, 1, 3]" 1] by (simp add: rep_at_def)
  ultimately show ?thesis using ok by blast
qed

section \<open>Paging\<close>

interpretation rep_pages: keyset "oldest_first r_created r_id" "newer_than r_created r_id" "cursor_at r_created r_id"
  by (rule keyset_oldest)

text \<open>
  A client that follows the cursors of \<open>page_for_run\<close>, with pages of any size from one row up and
  for enough pages, reads every representation of the run that is in the states asked for exactly
  once, oldest first with ties by id.
\<close>

theorem run_pages_read_every_representation_once:
  assumes "tab_keyed r_id t" and "1 \<le> limit" and "length t < pages"
  shows "read_pages pages
      (\<lambda>c. case rep_page_for_run run_id limit c states t of Inr page \<Rightarrow> page | Inl _ \<Rightarrow> ([], None)) None =
    map summary_of (sort_key (oldest_first r_created r_id)
      (filter (\<lambda>r. r_run r = run_id \<and> (case states of None \<Rightarrow> True | Some ss \<Rightarrow> r_state r \<in> set ss)) t))"
proof -
  let ?t = "filter (\<lambda>r. r_run r = run_id \<and> (case states of None \<Rightarrow> True | Some ss \<Rightarrow> r_state r \<in> set ss)) t"
  have keyed: "tab_keyed r_id ?t" using assms(1) by (rule tab_keyed_filter)
  have len: "length (rep_pages.ahead None ?t) \<le> pages * nat limit"
  proof -
    have "length (rep_pages.ahead None ?t) \<le> length t" by (simp add: rep_pages.ahead_def)
    also have "\<dots> \<le> pages * 1" using assms(3) by simp
    also have "\<dots> \<le> pages * nat limit" using assms(2) by (intro mult_le_mono) auto
    finally show ?thesis .
  qed
  have mapped: "read_pages n (\<lambda>c. case rep_page_for_run run_id limit c states t of Inr page \<Rightarrow> page | Inl _ \<Rightarrow> ([], None)) c
      = map summary_of (read_pages n (\<lambda>c. rep_pages.page (nat limit) c ?t) c)" for n c
    using assms(2)
    by (induction n arbitrary: c) (auto simp: rep_page_for_run_def split: prod.splits option.splits)
  have "read_pages pages (\<lambda>c. rep_pages.page (nat limit) c ?t) None = rep_pages.ahead None ?t"
    using assms(2,3) by (intro rep_pages.read_pages_all inj_oldest [OF keyed] tab_keyed_distinct [OF keyed] len) auto
  then show ?thesis unfolding mapped by (simp add: rep_pages.ahead_def)
qed

lemma run_pages_read_every_representation_once_witness:
  "\<exists>t r. read_pages 2
      (\<lambda>c. case rep_page_for_run 3 1 c None t of Inr page \<Rightarrow> page | Inl _ \<Rightarrow> ([], None)) None = [summary_of r]"
proof -
  let ?r = "\<lparr>r_id = 1, r_obs = 2, r_identity = None, r_run = 3, r_segment = 4, r_space = 5, r_state = R_ACTIVE,
      r_key = Some 3, r_vector = Some [0, 0, 0, 0], r_dim = 1, r_created = 0, r_activated = None, r_erased = None,
        r_quality = JNull, r_variant = None\<rparr>"
  have "read_pages 2 (\<lambda>c. case rep_page_for_run 3 1 c None [?r] of Inr page \<Rightarrow> page | Inl _ \<Rightarrow> ([], None)) None = [summary_of ?r]"
    by (subst run_pages_read_every_representation_once) (simp_all add: tab_keyed_def)
  then show ?thesis by blast
qed

end
