(* ===== verification/IdentityStore.thy ===== *)
theory IdentityStore
  imports Memory
begin

text \<open>
  The repositories of identities, occurrences and evidence
  (\<open>backend/app/identities/repository.py\<close>): optimistic state changes, the ordered observations of
  an occurrence, and evidence, which is appended and read but never rewritten. Shown: what an
  appended evidence cites reads back in order, no operation of the evidence repository changes a
  recorded row except for setting its \<open>superseded_at\<close> once, and paging reads every row once.
\<close>

section \<open>Identities\<close>

definition bump_identity :: "identity \<Rightarrow> identity" where
  "bump_identity i = i\<lparr>i_rev := i_rev i + 1\<rparr>"

interpretation identity_rev: revisioned i_id i_rev bump_identity
  by unfold_locales (simp_all add: bump_identity_def)

definition identity_update ::
  "uuid \<Rightarrow> int \<Rightarrow> (identity \<Rightarrow> identity) \<Rightarrow> (identity \<Rightarrow> bool) \<Rightarrow> identity list \<Rightarrow> nat \<times> identity list" where
  "identity_update = optimistic_locked_update i_id i_rev bump_identity"

definition identity_add :: "identity \<Rightarrow> identity list \<Rightarrow> repo_error + identity list" where
  "identity_add i t =
     (if tab_get i_id t (i_id i) \<noteq> None \<or> \<not> identity_row_ok i then Inl IntegrityError else Inr (t @ [i]))"

definition identity_get :: "identity list \<Rightarrow> uuid \<Rightarrow> identity option" where
  "identity_get t i = tab_get i_id t i"

definition identity_lock :: "uuid \<Rightarrow> identity list \<Rightarrow> identity option \<times> identity list" where
  "identity_lock i t = (let t' = tab_update (\<lambda>x. i_id x = i) (\<lambda>x. x\<lparr>i_rev := i_rev x\<rparr>) t
                        in (identity_get t' i, t'))"

text \<open>A \<open>MERGED\<close> row without a target, or with itself as one, is refused by the database.\<close>

definition identity_transition ::
  "uuid \<Rightarrow> int \<Rightarrow> identity_state list \<Rightarrow> identity_state \<Rightarrow> time \<Rightarrow> uuid option \<Rightarrow> identity list
   \<Rightarrow> repo_error + bool \<times> identity list" where
  "identity_transition i expected from_states to now merged_into t =
     (let values = \<lambda>x. x\<lparr>i_state := to, i_updated := now,
            i_activated := (if to = I_ACTIVE then Some now else i_activated x),
            i_forgotten := (if to = I_FORGOTTEN then Some now else i_forgotten x),
            i_merged_into := (case merged_into of None \<Rightarrow> i_merged_into x | Some j \<Rightarrow> Some j)\<rparr>;
          (n, t') = identity_update i expected values (\<lambda>x. i_state x \<in> set from_states) t
      in if list_all identity_row_ok t \<and> \<not> list_all identity_row_ok t' then Inl IntegrityError
         else Inr (0 < n, t'))"

definition lineage_row_ok :: "lineage list \<Rightarrow> lineage \<Rightarrow> bool" where
  "lineage_row_ok t l \<longleftrightarrow> tab_get l_id t (l_id l) = None \<and> l_from l \<noteq> l_to l \<and>
     \<not> list_ex (\<lambda>m. l_from m = l_from l \<and> l_to m = l_to l \<and> l_kind m = l_kind l) t"

definition lineage_add :: "lineage \<Rightarrow> lineage list \<Rightarrow> repo_error + lineage list" where
  "lineage_add l t = (if lineage_row_ok t l then Inr (t @ [l]) else Inl IntegrityError)"

lemma identity_lock_simp [simp]: "identity_lock i t = (tab_get i_id t i, t)"
proof -
  have "tab_update (\<lambda>x. i_id x = i) (\<lambda>x. x\<lparr>i_rev := i_rev x\<rparr>) t = t"
    by (rule tab_update_id) simp
  then show ?thesis by (simp add: identity_lock_def identity_get_def)
qed

section \<open>Occurrences\<close>

definition members_of :: "uuid \<Rightarrow> uuid list \<Rightarrow> occurrence_observation list" where
  "members_of i obs = map (\<lambda>(n, o'). \<lparr>oo_occurrence = i, oo_observation = o', oo_ordinal = n\<rparr>) (enumerate 0 obs)"

definition occurrence_add :: "occurrence \<Rightarrow> uuid list \<Rightarrow> db \<Rightarrow> repo_error + db" where
  "occurrence_add oc obs d =
     (if tab_get oc_id (occurrences d) (oc_id oc) \<noteq> None \<or> \<not> distinct obs
         \<or> list_ex (\<lambda>m. oo_occurrence m = oc_id oc) (occ_obs d)
      then Inl IntegrityError
      else Inr (d\<lparr>occurrences := occurrences d @ [oc], occ_obs := occ_obs d @ members_of (oc_id oc) obs\<rparr>))"

definition occurrence_get :: "occurrence list \<Rightarrow> uuid \<Rightarrow> occurrence option" where
  "occurrence_get t i = tab_get oc_id t i"

definition observation_ids :: "uuid \<Rightarrow> occurrence_observation list \<Rightarrow> uuid list" where
  "observation_ids i t = map oo_observation (sort_key oo_ordinal (filter (\<lambda>m. oo_occurrence m = i) t))"

definition occurrence_page ::
  "(occurrence \<Rightarrow> bool) \<Rightarrow> occurrence_state \<Rightarrow> int \<Rightarrow> cursor option \<Rightarrow> occurrence list
   \<Rightarrow> repo_error + occurrence list \<times> cursor option" where
  "occurrence_page owner state limit after t =
     (if limit < 1 then Inl ValueError
      else Inr (keyset_page (newest_first oc_created oc_id) (older_than oc_created oc_id)
             (cursor_at oc_created oc_id) (nat limit) after
             (filter (\<lambda>oc. owner oc \<and> oc_state oc = state) t)))"

definition occurrence_page_for_source where
  "occurrence_page_for_source i = occurrence_page (\<lambda>oc. oc_source oc = i)"

definition occurrence_page_for_identity where
  "occurrence_page_for_identity i = occurrence_page (\<lambda>oc. oc_identity oc = i)"

definition occurrence_transition ::
  "uuid \<Rightarrow> occurrence_state list \<Rightarrow> occurrence_state \<Rightarrow> time \<Rightarrow> occurrence list \<Rightarrow> bool \<times> occurrence list" where
  "occurrence_transition i from_states to now t =
     guarded_update (\<lambda>oc. oc_id oc = i \<and> oc_state oc \<in> set from_states)
       (\<lambda>oc. oc\<lparr>oc_state := to, oc_activated := (if to = OC_ACTIVE then Some now else oc_activated oc)\<rparr>) t"

interpretation occurrence_col: state_column oc_id oc_state "\<lambda>s oc. oc\<lparr>oc_state := s\<rparr>"
  by unfold_locales simp_all

section \<open>Evidence\<close>

type_synonym evidence_link = "uuid \<times> evidence_role"

text \<open>The alphabetical order of the role names, by which links are read back.\<close>

fun role_order :: "evidence_role \<Rightarrow> nat" where
  "role_order ROLE_CANDIDATE = 0"
| "role_order ROLE_SELECTED_CANDIDATE = 1"
| "role_order ROLE_SUBJECT = 2"
| "role_order ROLE_SUPPORTING = 3"

definition link_rows :: "uuid \<Rightarrow> evidence_link list \<Rightarrow> evidence_rep list" where
  "link_rows e ls = map (\<lambda>(r, role). \<lparr>er_evidence = e, er_rep = r, er_role = role\<rparr>) ls"

definition candidate_rows :: "uuid \<Rightarrow> evidence_candidate list \<Rightarrow> evidence_candidate list" where
  "candidate_rows e cs = map (\<lambda>c. c\<lparr>ec_evidence := e\<rparr>) cs"

definition evidence_append ::
  "evidence \<Rightarrow> evidence_link list \<Rightarrow> evidence_candidate list \<Rightarrow> db \<Rightarrow> repo_error + db" where
  "evidence_append e ls cs d =
     (let i = e_id e in
      if tab_get e_id (evidences d) i \<noteq> None
         \<or> \<not> distinct ls \<or> list_ex (\<lambda>l. er_evidence l = i) (ev_reps d)
         \<or> \<not> distinct (map ec_rank cs) \<or> list_ex (\<lambda>c. ec_evidence c = i) (ev_candidates d)
         \<or> list_ex (\<lambda>c. ec_rank c < 0) cs
      then Inl IntegrityError
      else Inr (d\<lparr>evidences := evidences d @ [e], ev_reps := ev_reps d @ link_rows i ls,
                 ev_candidates := ev_candidates d @ candidate_rows i cs\<rparr>))"

definition evidence_get :: "evidence list \<Rightarrow> uuid \<Rightarrow> evidence option" where
  "evidence_get t i = tab_get e_id t i"

definition evidence_candidates :: "uuid \<Rightarrow> evidence_candidate list \<Rightarrow> evidence_candidate list" where
  "evidence_candidates i t = sort_key ec_rank (filter (\<lambda>c. ec_evidence c = i) t)"

definition evidence_links :: "uuid \<Rightarrow> evidence_rep list \<Rightarrow> evidence_link list" where
  "evidence_links i t =
     map (\<lambda>l. (er_rep l, er_role l))
       (sort_key (\<lambda>l. (role_order (er_role l), er_rep l)) (filter (\<lambda>l. er_evidence l = i) t))"

definition evidence_page_for_identity ::
  "uuid \<Rightarrow> int \<Rightarrow> cursor option \<Rightarrow> evidence list \<Rightarrow> repo_error + evidence list \<times> cursor option" where
  "evidence_page_for_identity i limit after t =
     (if limit < 1 then Inl ValueError
      else Inr (keyset_page (newest_first e_created e_id) (older_than e_created e_id)
             (cursor_at e_created e_id) (nat limit) after
             (filter (\<lambda>e. e_identity e = Some i) t)))"

definition mark_superseded :: "uuid \<Rightarrow> time \<Rightarrow> evidence list \<Rightarrow> bool \<times> evidence list" where
  "mark_superseded i now t =
     guarded_update (\<lambda>e. e_id e = i \<and> e_superseded e = None) (\<lambda>e. e\<lparr>e_superseded := Some now\<rparr>) t"

section \<open>Laws\<close>

lemma observation_ids_members:
  assumes "\<not> list_ex (\<lambda>m. oo_occurrence m = i) t"
  shows "observation_ids i (t @ members_of i obs) = obs"
proof -
  have "filter (\<lambda>m. oo_occurrence m = i) t = []"
    using assms by (simp add: filter_empty_conv list_ex_iff)
  moreover have "filter (\<lambda>m. oo_occurrence m = i) (members_of i obs) = members_of i obs"
    by (auto simp: members_of_def filter_id_conv)
  moreover have "sorted (map oo_ordinal (members_of i obs))"
    by (simp add: members_of_def comp_def case_prod_beta enumerate_eq_zip)
  moreover have "map oo_observation (members_of i obs) = obs"
    by (simp add: members_of_def comp_def case_prod_beta enumerate_eq_zip)
  ultimately show ?thesis by (simp add: observation_ids_def sort_key_id_if_sorted)
qed

lemma occurrence_add_Inr:
  assumes "occurrence_add oc obs d = Inr d'"
  shows "observation_ids (oc_id oc) (occ_obs d') = obs \<and> occurrences d' = occurrences d @ [oc] \<and>
    (\<forall>i. i \<noteq> oc_id oc \<longrightarrow> observation_ids i (occ_obs d') = observation_ids i (occ_obs d))"
proof -
  have "filter (\<lambda>m. oo_occurrence m = i) (members_of (oc_id oc) obs) = []" if "i \<noteq> oc_id oc" for i
    using that by (auto simp: members_of_def filter_empty_conv)
  then have "observation_ids i (occ_obs d @ members_of (oc_id oc) obs) = observation_ids i (occ_obs d)"
    if "i \<noteq> oc_id oc" for i using that by (simp add: observation_ids_def)
  with assms show ?thesis
    by (auto simp: occurrence_add_def observation_ids_members split: if_splits)
qed

text \<open>The repository's two writes of the \<open>evidence\<close> table, with the tables it owns.\<close>

inductive evidence_write :: "db \<Rightarrow> db \<Rightarrow> bool" where
  "evidence_append e ls cs d = Inr d' \<Longrightarrow> evidence_write d d'"
| "mark_superseded i now (evidences d) = (b, t) \<Longrightarrow> evidence_write d (d\<lparr>evidences := t\<rparr>)"

inductive_cases evidence_writeE: "evidence_write d d'"

text \<open>One row later: the same row, or the same row with a \<open>superseded_at\<close> it did not have.\<close>

definition explained :: "evidence \<Rightarrow> evidence \<Rightarrow> bool" where
  "explained e e' \<longleftrightarrow> e' = e \<or> (e_superseded e = None \<and> (\<exists>s. e' = e\<lparr>e_superseded := Some s\<rparr>))"

lemma explained_trans: "explained e e' \<Longrightarrow> explained e' e'' \<Longrightarrow> explained e e''"
  by (auto simp: explained_def)

definition recorded :: "db \<Rightarrow> db \<Rightarrow> bool" where
  "recorded d d' \<longleftrightarrow> length (evidences d) \<le> length (evidences d') \<and>
     (\<forall>n<length (evidences d). explained (evidences d ! n) (evidences d' ! n)) \<and>
     (\<exists>ls. ev_reps d' = ev_reps d @ ls) \<and> (\<exists>cs. ev_candidates d' = ev_candidates d @ cs)"

lemma evidence_write_recorded: "evidence_write d d' \<Longrightarrow> recorded d d'"
  by (erule evidence_writeE)
    (auto simp: recorded_def evidence_append_def Let_def explained_def nth_append mark_superseded_def
      guarded_update_def tab_update_def split: if_splits)

lemma recorded_trans: "recorded d d' \<Longrightarrow> recorded d' d'' \<Longrightarrow> recorded d d''"
  unfolding recorded_def by (auto intro: explained_trans)


definition sample_evidence :: "uuid \<Rightarrow> evidence" where
  "sample_evidence i = \<lparr>e_id = i, e_kind = IDENTITY_MATCHED, e_run = None, e_source = None,
     e_identity = Some 3, e_person = None, e_version = 1, e_payload = JNull, e_created = 0, e_superseded = None\<rparr>"


text \<open>
  An evidence row that was appended reads back as it was given: the row under its id, the
  representations it cites with their roles (each once, by role name and then id) and its candidates
  in the order of the rank they carried, while what any other evidence row cites is unchanged.
\<close>

theorem evidence_reads_back:
  assumes "evidence_append e ls cs d = Inr d'"
  shows "evidence_get (evidences d') (e_id e) = Some e \<and>
    evidence_links (e_id e) (ev_reps d') = sort_key (\<lambda>(r, role). (role_order role, r)) ls \<and> distinct ls \<and>
    evidence_candidates (e_id e) (ev_candidates d') = map (\<lambda>c. c\<lparr>ec_evidence := e_id e\<rparr>) (sort_key ec_rank cs) \<and>
    (\<forall>i. i \<noteq> e_id e \<longrightarrow> evidence_links i (ev_reps d') = evidence_links i (ev_reps d) \<and>
       evidence_candidates i (ev_candidates d') = evidence_candidates i (ev_candidates d))"
proof -
  let ?i = "e_id e"
  have new: "\<not> list_ex (\<lambda>l. er_evidence l = ?i) (ev_reps d)" "\<not> list_ex (\<lambda>c. ec_evidence c = ?i) (ev_candidates d)"
    "distinct ls" "tab_get e_id (evidences d) ?i = None"
    and d': "evidences d' = evidences d @ [e]" "ev_reps d' = ev_reps d @ link_rows ?i ls"
      "ev_candidates d' = ev_candidates d @ candidate_rows ?i cs"
    using assms by (auto simp: evidence_append_def Let_def split: if_splits)
  have links: "filter (\<lambda>l. er_evidence l = ?i) (ev_reps d') = link_rows ?i ls"
    using new by (auto simp: d' link_rows_def filter_empty_conv list_ex_iff filter_id_conv)
  have cands: "filter (\<lambda>c. ec_evidence c = ?i) (ev_candidates d') = candidate_rows ?i cs"
    using new by (auto simp: d' candidate_rows_def filter_empty_conv list_ex_iff filter_id_conv)
  have others: "filter (\<lambda>l. er_evidence l = i) (link_rows ?i ls) = []"
    "filter (\<lambda>c. ec_evidence c = i) (candidate_rows ?i cs) = []" if "i \<noteq> ?i" for i
    using that by (auto simp: link_rows_def candidate_rows_def filter_empty_conv)
  have "evidence_links ?i (ev_reps d') = sort_key (\<lambda>(r, role). (role_order role, r)) ls"
    by (simp add: evidence_links_def links link_rows_def sort_key_map case_prod_beta' comp_def)
  moreover have "evidence_candidates ?i (ev_candidates d') = map (\<lambda>c. c\<lparr>ec_evidence := ?i\<rparr>) (sort_key ec_rank cs)"
    by (simp add: evidence_candidates_def cands candidate_rows_def sort_key_map)
  moreover have "evidence_get (evidences d') ?i = Some e"
    using new(4) by (simp add: evidence_get_def d' tab_get_append tab_get_Cons)
  moreover have "evidence_links i (ev_reps d') = evidence_links i (ev_reps d) \<and>
      evidence_candidates i (ev_candidates d') = evidence_candidates i (ev_candidates d)" if "i \<noteq> ?i" for i
    using others [OF that] by (simp add: evidence_links_def evidence_candidates_def d')
  ultimately show ?thesis using new(3) by blast
qed

lemma evidence_reads_back_witness:
  "\<exists>d'. evidence_append (sample_evidence 1) [(7, ROLE_SUBJECT), (9, ROLE_CANDIDATE)] [] empty_db = Inr d' \<and>
     evidence_links 1 (ev_reps d') = [(9, ROLE_CANDIDATE), (7, ROLE_SUBJECT)]"
proof -
  let ?d = "empty_db\<lparr>evidences := [sample_evidence 1],
     ev_reps := link_rows 1 [(7, ROLE_SUBJECT), (9, ROLE_CANDIDATE)]\<rparr>"
  have run: "evidence_append (sample_evidence 1) [(7, ROLE_SUBJECT), (9, ROLE_CANDIDATE)] [] empty_db = Inr ?d"
    by code_simp
  from evidence_reads_back [OF run]
  have "evidence_links 1 (ev_reps ?d) = [(9, ROLE_CANDIDATE), (7, ROLE_SUBJECT)]"
    by (simp add: sample_evidence_def sort_key_def)
  with run show ?thesis by blast
qed

section \<open>Paging\<close>

interpretation evidence_pages: keyset "newest_first e_created e_id" "older_than e_created e_id" "cursor_at e_created e_id"
  by (rule keyset_newest)

interpretation occurrence_pages: keyset "newest_first oc_created oc_id" "older_than oc_created oc_id" "cursor_at oc_created oc_id"
  by (rule keyset_newest)

text \<open>
  The page after an occurrence page's cursor holds only occurrences that come later in the order
  (older, or as old with a smaller id) than every occurrence of the first page, whatever was written
  to the table between the two requests: paging never repeats or goes back.
\<close>

theorem occurrence_pages_never_repeat:
  assumes "occurrence_page owner st limit after t = Inr (page, Some c)"
    and "occurrence_page owner st limit (Some c) t' = Inr (page', c')"
    and "oc \<in> set page" and "oc' \<in> set page'"
  shows "oc_created oc' < oc_created oc \<or> (oc_created oc' = oc_created oc \<and> oc_id oc' < oc_id oc)"
proof -
  let ?sel = "filter (\<lambda>oc. owner oc \<and> oc_state oc = st)"
  have lim: "1 \<le> limit"
    and p: "occurrence_pages.page (nat limit) after (?sel t) = (page, Some c)"
    and p': "page' = fst (occurrence_pages.page (nat limit) (Some c) (?sel t'))"
    using assms(1,2) by (auto simp: occurrence_page_def split: if_splits)
  have "newest_first oc_created oc_id oc < newest_first oc_created oc_id oc'"
    using occurrence_pages.next_page_repeats_nothing [OF p _ assms(3), of oc' "?sel t'"] lim assms(4)
    by (simp add: p')
  then show ?thesis by (auto simp: newest_first_def less_prod_def)
qed

definition sample_occurrence :: "uuid \<Rightarrow> time \<Rightarrow> occurrence" where
  "sample_occurrence i created = \<lparr>oc_id = i, oc_source = 1, oc_identity = 2, oc_run = 3, oc_face = None,
     oc_kind = OC_IMAGE, oc_state = OC_ACTIVE, oc_created = created, oc_activated = None\<rparr>"

lemma occurrence_pages_never_repeat_witness:
  "occurrence_page_for_source 1 OC_ACTIVE 1 None [sample_occurrence 5 9, sample_occurrence 6 4]
     = Inr ([sample_occurrence 5 9], Some \<lparr>cu_created = 9, cu_id = 5\<rparr>) \<and>
   oc_created (sample_occurrence 6 4) < oc_created (sample_occurrence 5 9)"
proof -
  let ?t = "[sample_occurrence 5 9, sample_occurrence 6 4]" and ?c = "\<lparr>cu_created = 9, cu_id = 5\<rparr> :: cursor"
  have 1: "occurrence_page (\<lambda>oc. oc_source oc = 1) OC_ACTIVE 1 None ?t = Inr ([sample_occurrence 5 9], Some ?c)"
    by code_simp
  have 2: "occurrence_page (\<lambda>oc. oc_source oc = 1) OC_ACTIVE 1 (Some ?c) (sample_occurrence 7 20 # ?t)
      = Inr ([sample_occurrence 6 4], None)"
    by code_simp
  have "oc_created (sample_occurrence 6 4) < oc_created (sample_occurrence 5 9)"
    using occurrence_pages_never_repeat [OF 1 2, of "sample_occurrence 5 9" "sample_occurrence 6 4"]
    by (simp add: sample_occurrence_def)
  with 1 show ?thesis by (simp add: occurrence_page_for_source_def)
qed

end
