(* ===== verification/IndexQueue.thy ===== *)
theory IndexQueue
  imports Transactions
begin

text \<open>
  The queue between SQLite and the vector index, table \<open>index_operations\<close>
  (\<open>backend/app/memory/index_operation_repository.py\<close>): a representation that becomes eligible
  queues an \<open>ADD\<close>, one that is erased a \<open>REMOVE\<close>, and the coordinator settles what is due. The
  abstract view of the queue is \<open>desired\<close>, the changes still owed to a representation; appending a
  batch makes the last change of each representation its only one. The uniqueness of pending
  operations, which the schema promises, is an invariant of every operation.
\<close>

section \<open>Operations\<close>

record new_operation =
  w_rep :: uuid
  w_space :: uuid
  w_kind :: op_kind

record due_operation =
  y_id :: uuid
  y_rep :: uuid
  y_space :: uuid
  y_kind :: op_kind

fun opposite :: "op_kind \<Rightarrow> op_kind" where
  "opposite ADD = REMOVE"
| "opposite REMOVE = ADD"

definition pending_op :: "uuid \<Rightarrow> op_kind \<Rightarrow> index_op \<Rightarrow> bool" where
  "pending_op r k x \<longleftrightarrow> x_rep x = r \<and> x_kind x = k \<and> x_state x = X_PENDING"

definition fresh_op :: "new_operation \<Rightarrow> time \<Rightarrow> uuid \<Rightarrow> index_op" where
  "fresh_op w now i =
     \<lparr>x_id = i, x_rep = w_rep w, x_space = w_space w, x_kind = w_kind w, x_state = X_PENDING,
      x_attempts = 0, x_not_before = now, x_last = None, x_applied = None, x_code = None,
      x_detail = None, x_created = now, x_updated = now\<rparr>"

text \<open>
  One operation of a batch, on the tables \<open>d\<close>: the opposite pending operation is deleted, then this
  one is inserted unless the partial unique index already holds it. Only an insert that happens
  meets the primary key and the foreign keys. The new id is drawn whether it is used or not.
\<close>

definition append_op ::
  "new_operation \<Rightarrow> time \<Rightarrow> uuid \<Rightarrow> db \<Rightarrow> repo_error + uuid list \<times> db" where
  "append_op w now i d =
     (let t = filter (\<lambda>x. \<not> pending_op (w_rep w) (opposite (w_kind w)) x) (index_ops d)
      in if list_ex (pending_op (w_rep w) (w_kind w)) t then Inr ([], d\<lparr>index_ops := t\<rparr>)
         else if tab_get x_id t i \<noteq> None \<or> tab_get r_id (reps d) (w_rep w) = None
                 \<or> tab_get s_id (spaces d) (w_space w) = None
         then Inl IntegrityError
         else Inr ([i], d\<lparr>index_ops := t @ [fresh_op w now i]\<rparr>))"

fun append_batch ::
  "new_operation list \<Rightarrow> time \<Rightarrow> id_supply \<Rightarrow> db \<Rightarrow> repo_error + uuid list \<times> db" where
  "append_batch [] now ids d = Inr ([], d)"
| "append_batch (w # ws) now ids d =
     bindE (append_op w now (ids 0) d) (\<lambda>(is, d').
     bindE (append_batch ws now (\<lambda>n. ids (Suc n)) d') (\<lambda>(js, d''). Inr (is @ js, d'')))"

definition due :: "time \<Rightarrow> nat \<Rightarrow> index_op list \<Rightarrow> due_operation list" where
  "due now limit t =
     map (\<lambda>x. \<lparr>y_id = x_id x, y_rep = x_rep x, y_space = x_space x, y_kind = x_kind x\<rparr>)
       (take limit (sort_key (\<lambda>x. (x_not_before x, x_created x, x_id x))
          (filter (\<lambda>x. x_state x = X_PENDING \<and> x_not_before x \<le> now) t)))"

definition failed_ids :: "index_op list \<Rightarrow> uuid list" where
  "failed_ids t = map x_id (sort_key (\<lambda>x. (- x_created x, x_id x))
                              (filter (\<lambda>x. x_state x = X_FAILED) t))"

definition attempt_count_chunk :: nat where
  "attempt_count_chunk = 500"

definition attempt_counts :: "uuid list \<Rightarrow> index_op list \<Rightarrow> uuid \<rightharpoonup> int" where
  "attempt_counts is t =
     fold (\<lambda>chunk counts. counts ++
             map_of (map (\<lambda>x. (x_id x, x_attempts x)) (filter (\<lambda>x. x_id x \<in> set chunk) t)))
       (chunks attempt_count_chunk is) Map.empty"

definition requeue :: "uuid \<Rightarrow> time \<Rightarrow> index_op list \<Rightarrow> bool \<times> index_op list" where
  "requeue i now t =
     guarded_update
       (\<lambda>x. x_id x = i \<and> x_state x = X_FAILED \<and> \<not> list_ex (pending_op (x_rep x) (x_kind x)) t)
       (\<lambda>x. x\<lparr>x_state := X_PENDING, x_attempts := 0, x_not_before := now, x_updated := now\<rparr>) t"

definition settle_op ::
  "uuid \<Rightarrow> int \<Rightarrow> time \<Rightarrow> (index_op \<Rightarrow> index_op) \<Rightarrow> index_op list \<Rightarrow> bool \<times> index_op list" where
  "settle_op i attempts now values t =
     guarded_update (\<lambda>x. x_id x = i \<and> x_state x = X_PENDING)
       (\<lambda>x. values (x\<lparr>x_attempts := attempts, x_last := Some now, x_updated := now\<rparr>)) t"

section \<open>The constraints of the table\<close>

definition queue_inv :: "index_op list \<Rightarrow> bool" where
  "queue_inv t \<longleftrightarrow> tab_keyed x_id t \<and> (\<forall>x\<in>set t. index_op_row_ok x) \<and>
     unique_where (\<lambda>x. x_state x = X_PENDING) (\<lambda>x. (x_rep x, x_kind x)) t"

lemma queue_inv_filter: "queue_inv t \<Longrightarrow> queue_inv (filter p t)"
  by (auto simp: queue_inv_def tab_keyed_filter unique_where_filter)

lemma queue_inv_append:
  assumes "queue_inv t" and "index_op_row_ok x" and "x_id x \<notin> x_id ` set t"
    and "x_state x = X_PENDING \<Longrightarrow> \<not> list_ex (pending_op (x_rep x) (x_kind x)) t"
  shows "queue_inv (t @ [x])"
  using assms by (auto simp: queue_inv_def tab_keyed_append1 unique_where_append1 list_ex_iff pending_op_def)

lemma append_op_inv:
  assumes "queue_inv (index_ops d)" and "append_op w now i d = Inr (is, d')"
  shows "queue_inv (index_ops d')"
proof -
  have "queue_inv (filter (\<lambda>x. \<not> pending_op (w_rep w) (opposite (w_kind w)) x) (index_ops d))"
    using assms(1) by (rule queue_inv_filter)
  with assms(2) show ?thesis
    by (auto simp: append_op_def Let_def fresh_op_def index_op_row_ok_def tab_get_None_iff
        split: if_splits intro!: queue_inv_append)
qed

lemma append_batch_inv:
  "queue_inv (index_ops d) \<Longrightarrow> append_batch ws now ids d = Inr (is, d') \<Longrightarrow> queue_inv (index_ops d')"
  by (induction ws arbitrary: ids d "is") (auto simp: bindE_Inr_iff dest: append_op_inv)

lemma requeue_inv:
  assumes "queue_inv t" and "requeue i now t = (b, t')"
  shows "queue_inv t'"
proof -
  let ?q = "\<lambda>x. x_id x = i \<and> x_state x = X_FAILED \<and> \<not> list_ex (pending_op (x_rep x) (x_kind x)) t"
  let ?f = "\<lambda>x. x\<lparr>x_state := X_PENDING, x_attempts := 0, x_not_before := now, x_updated := now\<rparr>"
  have t': "t' = tab_update ?q ?f t" using assms(2) by (simp add: requeue_def guarded_update_def)
  have keyed: "tab_keyed x_id t" using assms(1) by (simp add: queue_inv_def)
  have "unique_where (\<lambda>x. x_state x = X_PENDING) (\<lambda>x. (x_rep x, x_kind x)) t'"
  proof (cases "\<exists>x\<in>set t. ?q x")
    case False
    with assms(1) show ?thesis by (simp add: t' tab_update_none queue_inv_def)
  next
    case True
    then obtain x where x: "x \<in> set t" "?q x" by blast
    then have only: "?q y \<Longrightarrow> y = x" if "y \<in> set t" for y
      using tab_keyed_inj [OF keyed that x(1)] by simp
    obtain u v where t: "t = u @ x # v" using x(1) by (auto dest: split_list)
    have "x \<notin> set u \<union> set v" using keyed t by (auto simp: tab_keyed_def)
    then have "t' = u @ ?f x # v"
      using only x(2) unfolding t' t by (auto simp: tab_update_append intro!: tab_update_none)
    then show ?thesis
      using assms(1) x(2) t by (auto simp: queue_inv_def unique_where_def list_ex_iff pending_op_def)
  qed
  with assms(1) show ?thesis
    by (auto simp: queue_inv_def t' tab_keyed_update set_tab_update index_op_row_ok_def)
qed

text \<open>
  What the coordinator writes through \<open>settle\<close>: the outcome's own columns of a pending row, a state that
  says when it was applied, never another row's identity.
\<close>

definition outcome_values :: "(index_op \<Rightarrow> index_op) \<Rightarrow> bool" where
  "outcome_values v \<longleftrightarrow>
     (\<forall>x. x_id (v x) = x_id x \<and> x_rep (v x) = x_rep x \<and> x_kind (v x) = x_kind x \<and>
          x_attempts (v x) = x_attempts x \<and> (x_state x = X_PENDING \<longrightarrow> x_state (v x) = X_APPLIED \<longrightarrow> x_applied (v x) \<noteq> None))"

lemma settle_op_inv:
  assumes "queue_inv t" and "settle_op i attempts now v t = (b, t')" and "outcome_values v" and "0 \<le> attempts"
  shows "queue_inv t'"
  using assms
  by (auto simp: queue_inv_def settle_op_def guarded_update_def outcome_values_def tab_keyed_update
      set_tab_update index_op_row_ok_def intro!: unique_where_update)

section \<open>What a representation is owed\<close>

definition desired :: "index_op list \<Rightarrow> uuid \<Rightarrow> op_kind set" where
  "desired t r = {k. list_ex (pending_op r k) t}"

lemma append_op_desired:
  assumes "append_op w now i d = Inr (is, d')"
  shows "desired (index_ops d') = (desired (index_ops d))(w_rep w := {w_kind w})"
proof -
  have kinds: "k = w_kind w \<or> k = opposite (w_kind w)" for k
    by (cases k; cases "w_kind w") auto
  have other: "opposite (w_kind w) \<noteq> w_kind w" by (cases "w_kind w") auto
  have "desired (index_ops d') r = ((desired (index_ops d))(w_rep w := {w_kind w})) r" for r
  proof (cases "r = w_rep w")
    case True
    have "k \<in> desired (index_ops d') r \<longleftrightarrow> k = w_kind w" for k
      using assms kinds [of k] other True
      by (auto simp: append_op_def Let_def desired_def list_ex_iff pending_op_def fresh_op_def
          split: if_splits)
    with True show ?thesis by auto
  next
    case False
    with assms show ?thesis
      by (auto simp: append_op_def Let_def desired_def list_ex_iff pending_op_def fresh_op_def
          split: if_splits)
  qed
  then show ?thesis by blast
qed

lemma append_op_settled:
  assumes "append_op w now i d = Inr (is, d')"
  shows "filter (\<lambda>x. x_state x \<noteq> X_PENDING) (index_ops d') =
         filter (\<lambda>x. x_state x \<noteq> X_PENDING) (index_ops d) \<and> (\<exists>t. d' = d\<lparr>index_ops := t\<rparr>)"
proof -
  have "filter (\<lambda>x. x_state x \<noteq> X_PENDING) (filter (\<lambda>x. \<not> pending_op r k x) t) =
      filter (\<lambda>x. x_state x \<noteq> X_PENDING) t" for r k t
    by (induction t) (auto simp: pending_op_def)
  with assms show ?thesis
    by (auto simp: append_op_def Let_def fresh_op_def split: if_splits)
qed

lemma append_batch_settled:
  "append_batch ws now ids d = Inr (is, d') \<Longrightarrow>
     filter (\<lambda>x. x_state x \<noteq> X_PENDING) (index_ops d') =
     filter (\<lambda>x. x_state x \<noteq> X_PENDING) (index_ops d) \<and> (\<exists>t. d' = d\<lparr>index_ops := t\<rparr>)"
proof (induction ws arbitrary: ids d "is")
  case (Cons w ws)
  then obtain is1 d1 is2 where
    1: "append_op w now (ids 0) d = Inr (is1, d1)"
       "append_batch ws now (\<lambda>n. ids (Suc n)) d1 = Inr (is2, d')"
    by (auto simp: bindE_Inr_iff)
  obtain t1 t2 where "d1 = d\<lparr>index_ops := t1\<rparr>" "d' = d1\<lparr>index_ops := t2\<rparr>"
    using append_op_settled [OF 1(1)] Cons.IH [OF 1(2)] by blast
  then have "d' = d\<lparr>index_ops := t2\<rparr>" by simp
  then have "\<exists>t. d' = d\<lparr>index_ops := t\<rparr>" by blast
  with append_op_settled [OF 1(1)] Cons.IH [OF 1(2)] show ?case by simp
qed (auto intro: exI [of _ "index_ops d'"])

text \<open>
  C26. Appending a batch makes the queue owe each representation exactly the last change the batch
  asked for it, whatever was pending for it before, so \<open>REMOVE\<close> and \<open>ADD\<close> are never both left
  owing; representations the batch does not name keep what they were owed, operations that were
  applied or failed are untouched, only the queue is written, and no two pending operations say the
  same thing.
\<close>

theorem append_batch_keeps_last_wish:
  assumes "queue_inv (index_ops d)" and "append_batch ws now ids d = Inr (is, d')"
  shows "desired (index_ops d') = fold (\<lambda>w owed. owed(w_rep w := {w_kind w})) ws (desired (index_ops d)) \<and>
    filter (\<lambda>x. x_state x \<noteq> X_PENDING) (index_ops d') = filter (\<lambda>x. x_state x \<noteq> X_PENDING) (index_ops d) \<and>
    d' = d\<lparr>index_ops := index_ops d'\<rparr> \<and> queue_inv (index_ops d')"
proof (intro conjI)
  show "desired (index_ops d') = fold (\<lambda>w owed. owed(w_rep w := {w_kind w})) ws (desired (index_ops d))"
    using assms(2)
    by (induction ws arbitrary: ids d "is") (auto simp: bindE_Inr_iff dest!: append_op_desired)
  show "d' = d\<lparr>index_ops := index_ops d'\<rparr>"
    using append_batch_settled [OF assms(2)] by (elim conjE exE) simp
qed (use append_batch_settled [OF assms(2)] append_batch_inv [OF assms] in simp_all)

lemma append_batch_keeps_last_wish_witness:
  "\<exists>d is d'. queue_inv (index_ops d) \<and>
     append_batch [\<lparr>w_rep = 1, w_space = 5, w_kind = REMOVE\<rparr>, \<lparr>w_rep = 1, w_space = 5, w_kind = ADD\<rparr>] 9 (\<lambda>n. 40 + n) d
       = Inr (is, d') \<and> desired (index_ops d) 1 = {ADD} \<and> desired (index_ops d') 1 = {ADD}"
proof -
  let ?r = "\<lparr>r_id = 1, r_obs = 2, r_identity = None, r_run = 3, r_segment = 4, r_space = 5, r_state = R_ACTIVE,
      r_key = Some 1, r_vector = Some [0, 0, 0, 0], r_dim = 1, r_created = 0, r_activated = None, r_erased = None,
        r_quality = JNull, r_variant = None\<rparr>"
  let ?s = "\<lparr>s_id = 5, s_state = SP_ACTIVE, s_dim = 1, s_metric = COSINE, s_normalization = ''L2_NORMALIZED'', s_key = ''s'', s_component = 6,
       s_contract_version = 1, s_contract = JNull\<rparr>"
  let ?ws = "[\<lparr>w_rep = 1, w_space = 5, w_kind = REMOVE\<rparr>, \<lparr>w_rep = 1, w_space = 5, w_kind = ADD\<rparr>]"
  let ?d = "empty_db\<lparr>reps := [?r], spaces := [?s], index_ops := [fresh_op (\<lparr>w_rep = 1, w_space = 5, w_kind = ADD\<rparr>) 3 11]\<rparr>"
  let ?d' = "?d\<lparr>index_ops := [fresh_op (\<lparr>w_rep = 1, w_space = 5, w_kind = ADD\<rparr>) 9 41]\<rparr>"
  have run: "append_batch ?ws 9 (\<lambda>n. 40 + n) ?d = Inr ([40, 41], ?d')" by code_simp
  have inv: "queue_inv (index_ops ?d)" by code_simp
  have owed: "desired (index_ops ?d) 1 = {ADD}"
    by (auto simp: desired_def pending_op_def fresh_op_def)
  have "desired (index_ops ?d') 1 = {ADD}"
    using append_batch_keeps_last_wish [OF inv run] by (simp add: owed)
  with run inv owed show ?thesis by blast
qed

text \<open>The chunked read of attempt counts is one lookup per id.\<close>

lemma attempt_counts_fold:
  "fold (\<lambda>chunk counts. counts ++ map_of (map (\<lambda>x. (key x, val x)) (filter (\<lambda>x. key x \<in> set chunk) t))) cs m
   = m ++ (\<lambda>i. if i \<in> set (concat cs) then map_of (map (\<lambda>x. (key x, val x)) t) i else None)"
proof -
  have chunk: "map_of (map (\<lambda>x. (key x, val x)) (filter (\<lambda>x. key x \<in> set c) t)) =
      (\<lambda>i. if i \<in> set c then map_of (map (\<lambda>x. (key x, val x)) t) i else None)" for c
    by (rule ext, induction t) auto
  show ?thesis
    by (induction cs arbitrary: m) (auto simp: chunk map_add_def fun_eq_iff split: option.splits)
qed

lemma map_of_table: "map_of (map (\<lambda>x. (key x, val x)) t) i = map_option val (tab_get key t i)"
  by (induction t) (auto simp: tab_get_Cons)

text \<open>
  \<open>attempt_counts\<close> reads its ids five hundred to a statement, and for any number of ids, repeated
  or not, answers each with the row's own attempt count and no other id at all.
\<close>

theorem attempt_counts_is_a_lookup:
  "attempt_counts is t =
     (\<lambda>i. if i \<in> set is then map_option x_attempts (tab_get x_id t i) else None)"
  by (rule ext) (simp add: attempt_counts_def attempt_counts_fold concat_chunks attempt_count_chunk_def map_of_table)

end
