(* ===== verification/Identities.thy ===== *)
theory Identities
  imports IdentityStore IndexQueue "HOL-Library.AList"
begin

text \<open>
  The Identity Manager (\<open>backend/app/identities/use_cases.py\<close>), the one place that changes what an
  identity is and owns: create and activate, assign a representation, merge, split, and the
  revalidation of what a vector index returned. Every operation maps the database to a new one or
  raises; a raise leaves the caller's transaction to be rolled back, so its database is not
  returned. \<open>ids\<close> and \<open>now\<close> are the injected \<open>new_id\<close> and \<open>clock\<close>.
\<close>

datatype identity_error =
    IdentityManagerError
  | SplitConflictError "uuid list"
  | StaleRevisionError
  | DatabaseRefused

type_synonym 'a outcome_of = "identity_error + 'a"

definition refused :: "repo_error + 'a \<Rightarrow> 'a outcome_of" where
  "refused m = (case m of Inl _ \<Rightarrow> Inl DatabaseRefused | Inr x \<Rightarrow> Inr x)"

lemma refused_simps [simp]: "refused (Inl e) = Inl DatabaseRefused" "refused (Inr x) = Inr x"
  by (simp_all add: refused_def)

lemma refused_Inr_iff [simp]: "refused m = Inr x \<longleftrightarrow> m = Inr x"
  by (cases m) auto

section \<open>Create and activate\<close>

definition new_identity :: "uuid \<Rightarrow> identity_state \<Rightarrow> uuid option \<Rightarrow> uuid option \<Rightarrow> time \<Rightarrow> time option \<Rightarrow> time \<Rightarrow> identity" where
  "new_identity i st run face created activated updated =
     \<lparr>i_id = i, i_state = st, i_run = run, i_face = face, i_merged_into = None, i_rev = 1,
      i_created = created, i_activated = activated, i_forgotten = None, i_updated = updated\<rparr>"

definition create_pending_identity ::
  "uuid \<Rightarrow> uuid option \<Rightarrow> uuid \<Rightarrow> time \<Rightarrow> time \<Rightarrow> db \<Rightarrow> (identity \<times> db) outcome_of" where
  "create_pending_identity run face i created updated d =
     (let x = new_identity i I_PENDING (Some run) face created None updated
      in bindE (refused (identity_add x (identities d))) (\<lambda>t. Inr (x, d\<lparr>identities := t\<rparr>)))"

definition activation_conflict :: "uuid \<Rightarrow> int \<Rightarrow> db \<Rightarrow> identity_error" where
  "activation_conflict i expected d =
     (case identity_get (identities d) i of
        None \<Rightarrow> IdentityManagerError
      | Some x \<Rightarrow> if i_rev x \<noteq> expected then StaleRevisionError else IdentityManagerError)"

definition activate_identity :: "uuid \<Rightarrow> int \<Rightarrow> time \<Rightarrow> db \<Rightarrow> (identity \<times> db) outcome_of" where
  "activate_identity i expected now d =
     (let (n, t) = identity_update i expected
            (\<lambda>x. x\<lparr>i_state := I_ACTIVE, i_activated := Some now, i_updated := now\<rparr>)
            (\<lambda>x. i_state x = I_PENDING) (identities d)
      in if n = 0 then Inl (activation_conflict i expected d)
         else Inr (the (identity_get t i), d\<lparr>identities := t\<rparr>))"

text \<open>
  \<open>touch_identity\<close>: without an expected revision a plain increment, with one a compare-and-set.
\<close>

definition touch_identity :: "uuid \<Rightarrow> time \<Rightarrow> int option \<Rightarrow> db \<Rightarrow> db outcome_of" where
  "touch_identity i now expected d =
     (case expected of
        None \<Rightarrow> Inr (d\<lparr>identities := tab_update (\<lambda>x. i_id x = i)
                         (\<lambda>x. x\<lparr>i_rev := i_rev x + 1, i_updated := now\<rparr>) (identities d)\<rparr>)
      | Some e \<Rightarrow>
          let (n, t) = identity_update i e (\<lambda>x. x\<lparr>i_updated := now\<rparr>) (\<lambda>_. True) (identities d)
          in if n = 0 then Inl StaleRevisionError else Inr (d\<lparr>identities := t\<rparr>))"

section \<open>Assign\<close>

definition has_creation_evidence :: "uuid \<Rightarrow> db \<Rightarrow> bool" where
  "has_creation_evidence i d \<longleftrightarrow>
     list_ex (\<lambda>e. e_identity e = Some i \<and> e_kind e = IDENTITY_CREATED) (evidences d)"

definition new_evidence ::
  "uuid \<Rightarrow> evidence_kind \<Rightarrow> uuid option \<Rightarrow> uuid option \<Rightarrow> uuid option \<Rightarrow> uuid option \<Rightarrow> int \<Rightarrow> json \<Rightarrow> time \<Rightarrow> evidence" where
  "new_evidence i kind run source ident person version payload now =
     \<lparr>e_id = i, e_kind = kind, e_run = run, e_source = source, e_identity = ident, e_person = person,
      e_version = version, e_payload = payload, e_created = now, e_superseded = None\<rparr>"

text \<open>\<open>{**base, **extra}\<close>: a repeated member is overwritten at its place.\<close>

definition json_merge :: "(string \<times> json) list \<Rightarrow> (string \<times> json) list \<Rightarrow> (string \<times> json) list" where
  "json_merge base extra = fold (\<lambda>(k, v). AList.update k v) extra base"

text \<open>
  The new \<open>ADD\<close> is inserted plainly: the partial unique index refuses it if one is still pending.
\<close>

definition queue_add :: "rep \<Rightarrow> uuid \<Rightarrow> time \<Rightarrow> db \<Rightarrow> db outcome_of" where
  "queue_add r i now d =
     (if tab_get x_id (index_ops d) i \<noteq> None \<or> list_ex (pending_op (r_id r) ADD) (index_ops d)
      then Inl DatabaseRefused
      else Inr (d\<lparr>index_ops := index_ops d @
             [fresh_op \<lparr>w_rep = r_id r, w_space = r_space r, w_kind = ADD\<rparr> now i]\<rparr>))"

definition assign_representation_to_identity ::
  "uuid \<Rightarrow> uuid \<Rightarrow> evidence_kind \<Rightarrow> int \<Rightarrow> uuid option \<Rightarrow> (string \<times> json) list option
   \<Rightarrow> evidence_candidate list \<Rightarrow> id_supply \<Rightarrow> time \<Rightarrow> db \<Rightarrow> (rep \<times> db) outcome_of" where
  "assign_representation_to_identity rep_id ident kind version source payload cands ids now d =
     (if kind \<notin> {IDENTITY_CREATED, IDENTITY_MATCHED} then Inl IdentityManagerError
      else case tab_get r_id (reps d) rep_id of
        None \<Rightarrow> Inl IdentityManagerError
      | Some r \<Rightarrow>
          if r_state r \<noteq> R_PENDING then Inl IdentityManagerError
          else case tab_get i_id (identities d) ident of
            None \<Rightarrow> Inl IdentityManagerError
          | Some x \<Rightarrow>
              if i_state x \<noteq> I_ACTIVE then Inl IdentityManagerError
              else if kind = IDENTITY_CREATED \<and> has_creation_evidence ident d then Inl IdentityManagerError
              else
                let (k, qs) = allocate_ann_key (r_space r) (ann_sequences d);
                    r' = r\<lparr>r_state := R_ACTIVE, r_identity := Some ident, r_key := Some k, r_activated := Some now\<rparr>;
                    d1 = d\<lparr>ann_sequences := qs,
                           reps := tab_update (\<lambda>s. r_id s = rep_id)
                             (\<lambda>s. s\<lparr>r_state := R_ACTIVE, r_identity := Some ident, r_key := Some k,
                                   r_activated := Some now\<rparr>) (reps d)\<rparr>;
                    body = json_merge [(''representation_id'', JUuid rep_id), (''ann_key'', JInt k)]
                             (case payload of None \<Rightarrow> [] | Some p \<Rightarrow> p);
                    e = new_evidence (ids 0) kind (Some (r_run r)) source (Some ident) None version (JObj body) now
                in bindE (touch_identity ident now None d1) (\<lambda>d2.
                   bindE (refused (evidence_append e [(rep_id, ROLE_SUBJECT)] cands d2)) (\<lambda>d3.
                   bindE (queue_add r' (ids 1) now d3) (\<lambda>d4. Inr (r', d4)))))"

section \<open>Merge\<close>

definition active_association :: "uuid \<Rightarrow> db \<Rightarrow> association option" where
  "active_association i d = find (\<lambda>a. a_identity a = i \<and> a_state a = AS_ACTIVE) (associations d)"

definition end_association :: "uuid \<Rightarrow> association_state \<Rightarrow> time \<Rightarrow> db \<Rightarrow> db" where
  "end_association i st now d =
     d\<lparr>associations := tab_update (\<lambda>a. a_id a = i)
         (\<lambda>a. a\<lparr>a_state := st, a_ended := Some now, a_rev := a_rev a + 1\<rparr>) (associations d)\<rparr>"

definition new_association :: "uuid \<Rightarrow> uuid \<Rightarrow> uuid \<Rightarrow> uuid \<Rightarrow> time \<Rightarrow> association" where
  "new_association i ident person ev now =
     \<lparr>a_id = i, a_identity = ident, a_person = person, a_state = AS_ACTIVE, a_evidence = Some ev,
      a_created = now, a_ended = None, a_rev = 1\<rparr>"

definition association_add :: "association \<Rightarrow> db \<Rightarrow> db outcome_of" where
  "association_add a d =
     (if tab_get a_id (associations d) (a_id a) \<noteq> None \<or> active_association (a_identity a) d \<noteq> None
      then Inl DatabaseRefused else Inr (d\<lparr>associations := associations d @ [a]\<rparr>))"

text \<open>It returns how many ids it drew. The survivor's own naming wins.\<close>

definition carry_person_over ::
  "uuid \<Rightarrow> uuid \<Rightarrow> uuid \<Rightarrow> id_supply \<Rightarrow> time \<Rightarrow> db \<Rightarrow> (nat \<times> db) outcome_of" where
  "carry_person_over loser survivor person ids now d =
     (let e = new_evidence (ids 0) IDENTITY_ASSIGNED_TO_PERSON None None (Some survivor)
            (Some person) 1 (JObj [(''carried_over_from_identity_id'', JUuid loser)]) now
      in bindE (refused (evidence_append e [] [] d)) (\<lambda>d1.
         bindE (association_add (new_association (ids 1) survivor person (ids 0) now) d1)
           (\<lambda>d2. Inr (2, d2))))"

definition reconcile_person_on_merge ::
  "uuid \<Rightarrow> uuid \<Rightarrow> id_supply \<Rightarrow> time \<Rightarrow> db \<Rightarrow> (nat \<times> db) outcome_of" where
  "reconcile_person_on_merge loser survivor ids now d =
     (case active_association loser d of
        None \<Rightarrow> Inr (0, d)
      | Some a \<Rightarrow>
          bindE (if active_association survivor d = None
                 then carry_person_over loser survivor (a_person a) ids now d else Inr (0, d))
            (\<lambda>(n, d'). Inr (n, end_association (a_id a) AS_SUPERSEDED now d')))"

definition uuid_list :: "uuid list \<Rightarrow> json" where
  "uuid_list is = JList (map JUuid is)"

text \<open>
  The rows move in one \<open>UPDATE\<close> each; the survivor takes the loser's face if it has none; the loser
  is closed by a compare-and-set on the revision the caller read.
\<close>

definition move_reps :: "(rep \<Rightarrow> bool) \<Rightarrow> uuid \<Rightarrow> db \<Rightarrow> db" where
  "move_reps p to d = d\<lparr>reps := tab_update p (\<lambda>r. r\<lparr>r_identity := Some to\<rparr>) (reps d)\<rparr>"

definition move_occurrences :: "(occurrence \<Rightarrow> bool) \<Rightarrow> uuid \<Rightarrow> db \<Rightarrow> db" where
  "move_occurrences p to d = d\<lparr>occurrences := tab_update p (\<lambda>oc. oc\<lparr>oc_identity := to\<rparr>) (occurrences d)\<rparr>"

definition set_face :: "uuid \<Rightarrow> uuid option \<Rightarrow> db \<Rightarrow> db" where
  "set_face i face d =
     d\<lparr>identities := tab_update (\<lambda>x. i_id x = i) (\<lambda>x. x\<lparr>i_face := face\<rparr>) (identities d)\<rparr>"

definition owned_reps :: "uuid \<Rightarrow> db \<Rightarrow> rep list" where
  "owned_reps i d = filter (\<lambda>r. r_identity r = Some i \<and> r_state r = R_ACTIVE) (reps d)"

definition owned_occurrences :: "uuid \<Rightarrow> db \<Rightarrow> occurrence list" where
  "owned_occurrences i d = filter (\<lambda>oc. oc_identity oc = i \<and> oc_state oc = OC_ACTIVE) (occurrences d)"

definition merge_move :: "uuid \<Rightarrow> uuid \<Rightarrow> uuid option \<Rightarrow> uuid option \<Rightarrow> db \<Rightarrow> db" where
  "merge_move loser survivor loser_face survivor_face d =
     (let d1 = move_reps (\<lambda>r. r_identity r = Some loser \<and> r_state r = R_ACTIVE) survivor d;
          d2 = move_occurrences (\<lambda>oc. oc_id oc \<in> set (map oc_id (owned_occurrences loser d))) survivor d1
      in if survivor_face = None then set_face survivor loser_face d2 else d2)"

definition merge_record ::
  "uuid \<Rightarrow> uuid \<Rightarrow> uuid list \<Rightarrow> uuid list \<Rightarrow> int \<Rightarrow> id_supply \<Rightarrow> time \<Rightarrow> db \<Rightarrow> db outcome_of" where
  "merge_record loser survivor rep_ids occ_ids version ids now d =
     (let e = new_evidence (ids 0) IDENTITY_MERGED None None (Some loser) None version
            (JObj [(''merged_into_identity_id'', JUuid survivor),
                   (''moved_representation_ids'', uuid_list rep_ids),
                   (''moved_occurrence_ids'', uuid_list occ_ids)]) now
      in bindE (refused (evidence_append e (map (\<lambda>r. (r, ROLE_SUBJECT)) rep_ids) [] d)) (\<lambda>d1.
         bindE (refused (lineage_add \<lparr>l_id = ids 1, l_from = loser, l_to = survivor, l_kind = MERGED_INTO,
                           l_evidence = ids 0, l_created = now\<rparr> (lineages d1)))
           (\<lambda>ls. Inr (d1\<lparr>lineages := ls\<rparr>))))"

definition merge_close :: "uuid \<Rightarrow> uuid \<Rightarrow> int \<Rightarrow> time \<Rightarrow> db \<Rightarrow> db outcome_of" where
  "merge_close loser survivor expected now d =
     (let (n, t) = identity_update loser expected
            (\<lambda>x. x\<lparr>i_state := I_MERGED, i_merged_into := Some survivor, i_updated := now\<rparr>)
            (\<lambda>x. i_state x = I_ACTIVE) (identities d)
      in if n = 0 then Inl StaleRevisionError else Inr (d\<lparr>identities := t\<rparr>))"

definition merge_identities ::
  "uuid \<Rightarrow> uuid \<Rightarrow> int \<Rightarrow> int option \<Rightarrow> int \<Rightarrow> id_supply \<Rightarrow> time \<Rightarrow> time \<Rightarrow> db \<Rightarrow> (identity \<times> db) outcome_of"
where
  "merge_identities loser survivor expected expected_survivor version ids now0 now d =
     (if loser = survivor then Inl IdentityManagerError
      else case tab_get i_id (identities d) survivor of
        None \<Rightarrow> Inl IdentityManagerError
      | Some s \<Rightarrow>
          if i_state s \<noteq> I_ACTIVE then Inl IdentityManagerError
          else case tab_get i_id (identities d) loser of
            None \<Rightarrow> Inl IdentityManagerError
          | Some l \<Rightarrow>
              if i_state l \<noteq> I_ACTIVE then Inl IdentityManagerError
              else
                bindE (reconcile_person_on_merge loser survivor ids now0 d) (\<lambda>(n, d1).
                bindE (touch_identity survivor now expected_survivor d1) (\<lambda>d2.
                bindE (merge_record loser survivor (map r_id (owned_reps loser d2))
                         (map oc_id (owned_occurrences loser d2)) version (\<lambda>k. ids (n + k)) now
                         (merge_move loser survivor (i_face l) (i_face s) d2)) (\<lambda>d3.
                bindE (merge_close loser survivor expected now d3) (\<lambda>d4.
                  Inr (the (tab_get i_id (identities d4) survivor), d4))))))"

section \<open>Split\<close>

text \<open>The observations an occurrence rests on: its members and its representative.\<close>

definition occurrence_observations :: "occurrence \<Rightarrow> db \<Rightarrow> uuid list" where
  "occurrence_observations oc d =
     dedup (map oo_observation (filter (\<lambda>m. oo_occurrence m = oc_id oc) (occ_obs d)) @
            (case oc_face oc of None \<Rightarrow> [] | Some f \<Rightarrow> [f]))"

definition occurrence_support :: "uuid \<Rightarrow> db \<Rightarrow> (occurrence \<times> uuid list) list" where
  "occurrence_support i d =
     map (\<lambda>oc. (oc, map r_id (filter (\<lambda>r. r_obs r \<in> set (occurrence_observations oc d)) (owned_reps i d))))
       (owned_occurrences i d)"

definition face_of_identity :: "uuid \<Rightarrow> db \<Rightarrow> uuid option" where
  "face_of_identity i d =
     (case first_by (\<lambda>oc. (oc_created oc, oc_id oc))
             (filter (\<lambda>oc. list_ex (\<lambda>r. oc_face oc = Some (r_obs r)) (owned_reps i d)) (owned_occurrences i d)) of
        None \<Rightarrow> None | Some oc \<Rightarrow> oc_face oc)"

definition refresh_representative :: "uuid \<Rightarrow> uuid list \<Rightarrow> time \<Rightarrow> db \<Rightarrow> db" where
  "refresh_representative i moved now d =
     (case tab_get i_id (identities d) i of
        None \<Rightarrow> d
      | Some x \<Rightarrow>
          if i_face x \<notin> Some ` set moved then d
          else d\<lparr>identities := tab_update (\<lambda>y. i_id y = i)
                 (\<lambda>y. y\<lparr>i_face := face_of_identity i d, i_updated := now\<rparr>) (identities d)\<rparr>)"

definition splittable :: "uuid \<Rightarrow> db \<Rightarrow> uuid \<Rightarrow> bool" where
  "splittable i d rep_id \<longleftrightarrow>
     (case tab_get r_id (reps d) rep_id of
        None \<Rightarrow> False | Some r \<Rightarrow> r_identity r = Some i \<and> r_state r = R_ACTIVE)"

definition split_conflicts :: "uuid list \<Rightarrow> (occurrence \<times> uuid list) list \<Rightarrow> uuid list" where
  "split_conflicts selected supports =
     map (oc_id \<circ> fst) (filter (\<lambda>(oc, rs). set rs \<inter> set selected \<noteq> {} \<and> \<not> set rs \<subseteq> set selected) supports)"

definition split_moving :: "uuid list \<Rightarrow> (occurrence \<times> uuid list) list \<Rightarrow> occurrence list" where
  "split_moving selected supports = map fst (filter (\<lambda>(oc, rs). set rs \<inter> set selected \<noteq> {}) supports)"

fun first_face :: "occurrence list \<Rightarrow> uuid option" where
  "first_face [] = None"
| "first_face (oc # ocs) = (case oc_face oc of None \<Rightarrow> first_face ocs | Some f \<Rightarrow> Some f)"

definition split_record ::
  "uuid \<Rightarrow> uuid \<Rightarrow> uuid list \<Rightarrow> uuid list \<Rightarrow> int \<Rightarrow> id_supply \<Rightarrow> time \<Rightarrow> db \<Rightarrow> db outcome_of" where
  "split_record src target rep_ids occ_ids version ids now d =
     (let e = new_evidence (ids 0) IDENTITY_SPLIT None None (Some target) None version
            (JObj [(''split_from_identity_id'', JUuid src),
                   (''moved_representation_ids'', uuid_list rep_ids),
                   (''moved_occurrence_ids'', uuid_list occ_ids)]) now
      in bindE (refused (evidence_append e (map (\<lambda>r. (r, ROLE_SUBJECT)) rep_ids) [] d)) (\<lambda>d1.
         bindE (refused (lineage_add \<lparr>l_id = ids 1, l_from = src, l_to = target, l_kind = SPLIT_FROM,
                           l_evidence = ids 0, l_created = now\<rparr> (lineages d1)))
           (\<lambda>ls. Inr (d1\<lparr>lineages := ls\<rparr>))))"

definition split_identity ::
  "uuid \<Rightarrow> uuid list \<Rightarrow> int option \<Rightarrow> int \<Rightarrow> id_supply \<Rightarrow> time \<Rightarrow> db \<Rightarrow> (uuid \<times> db) outcome_of" where
  "split_identity src rep_ids expected version ids now d =
     (case tab_get i_id (identities d) src of
        None \<Rightarrow> Inl IdentityManagerError
      | Some s \<Rightarrow>
          if i_state s \<noteq> I_ACTIVE \<or> rep_ids = [] \<or> \<not> list_all (splittable src d) rep_ids
          then Inl IdentityManagerError
          else let supports = occurrence_support src d in
            if split_conflicts rep_ids supports \<noteq> []
            then Inl (SplitConflictError (split_conflicts rep_ids supports))
            else let moving = split_moving rep_ids supports in
              bindE (touch_identity src now expected d) (\<lambda>d1.
              bindE (refused (identity_add (new_identity (ids 0) I_ACTIVE None None now (Some now) now) (identities d1)))
                (\<lambda>t.
              bindE (split_record src (ids 0) rep_ids (map oc_id moving) version (\<lambda>k. ids (Suc k)) now
                       (d1\<lparr>identities := t\<rparr>)) (\<lambda>d2.
                let d3 = move_reps (\<lambda>r. r_id r \<in> set rep_ids) (ids 0) d2;
                    d4 = set_face (ids 0) (first_face moving)
                           (move_occurrences (\<lambda>oc. oc_id oc \<in> oc_id ` set moving) (ids 0) d3);
                    moved = concat (map (\<lambda>oc. occurrence_observations oc d) moving)
                in Inr (ids 0, refresh_representative src moved now d4)))))"

section \<open>Revalidating candidates\<close>

record ann_candidate =
  ac_key :: int
  ac_rep :: uuid
  ac_identity :: "uuid option"

text \<open>\<open>OUTER JOIN identities\<close>, keeping a row without an identity or with an active one.\<close>

definition eligible :: "db \<Rightarrow> rep \<Rightarrow> bool" where
  "eligible d r \<longleftrightarrow> r_state r = R_ACTIVE \<and>
     (case r_identity r of None \<Rightarrow> True
      | Some i \<Rightarrow> (case tab_get i_id (identities d) i of None \<Rightarrow> False | Some x \<Rightarrow> i_state x = I_ACTIVE))"

definition resolve_ann_candidates :: "uuid \<Rightarrow> int list \<Rightarrow> db \<Rightarrow> ann_candidate list" where
  "resolve_ann_candidates space_id keys d =
     (let wanted = dedup keys;
          found = fold (\<lambda>chunk m.
              fold (\<lambda>r m. m(the (r_key r) \<mapsto>
                     \<lparr>ac_key = the (r_key r), ac_rep = r_id r, ac_identity = r_identity r\<rparr>))
                (filter (\<lambda>r. r_space r = space_id \<and> r_key r \<in> Some ` set chunk \<and> eligible d r) (reps d)) m)
            (chunks keys_per_query wanted) Map.empty
      in List.map_filter found wanted)"

text \<open>\<open>while\<close> the identity is \<open>MERGED\<close>, go to the one it was merged into.\<close>

partial_function (option) follow_merges :: "identity list \<Rightarrow> identity option \<Rightarrow> identity option option" where
  "follow_merges t x =
     (case x of None \<Rightarrow> Some None
      | Some i \<Rightarrow>
          if i_state i = I_MERGED
          then follow_merges t (case i_merged_into i of None \<Rightarrow> None | Some j \<Rightarrow> tab_get i_id t j)
          else Some (Some i))"

fun resolve_each :: "identity list \<Rightarrow> uuid list \<Rightarrow> uuid set \<Rightarrow> identity list option" where
  "resolve_each t [] seen = Some []"
| "resolve_each t (c # cs) seen =
     (case follow_merges t (tab_get i_id t c) of
        None \<Rightarrow> None
      | Some None \<Rightarrow> resolve_each t cs seen
      | Some (Some x) \<Rightarrow>
          if i_state x \<noteq> I_ACTIVE \<or> i_id x \<in> seen then resolve_each t cs seen
          else map_option ((#) x) (resolve_each t cs (insert (i_id x) seen)))"

definition resolve_recognition_candidates :: "uuid list \<Rightarrow> db \<Rightarrow> identity list option" where
  "resolve_recognition_candidates cs d = resolve_each (identities d) cs {}"

end
