(* ===== verification/IdentityLife.thy ===== *)
theory IdentityLife
  imports Identities
begin

text \<open>
  What the Identity Manager keeps true, and what its operations do. The invariant \<open>memory_ok\<close> says
  that what is ACTIVE (a representation with an owner, an occurrence, a person link) is owned by an
  ACTIVE identity, that merges form no cycle, that keys and pending index changes are unique. Every
  operation preserves it, in lemmas by kind of write.
\<close>

section \<open>The invariant\<close>

definition merge_edges :: "identity list \<Rightarrow> (uuid \<times> uuid) set" where
  "merge_edges t = {(i, j). \<exists>x\<in>set t. i_id x = i \<and> i_merged_into x = Some j}"

definition identities_ok :: "identity list \<Rightarrow> bool" where
  "identities_ok t \<longleftrightarrow> tab_keyed i_id t \<and>
     (\<forall>x\<in>set t. identity_row_ok x \<and> (i_merged_into x \<noteq> None \<longrightarrow> i_state x = I_MERGED)) \<and>
     acyclic (merge_edges t)"

definition active_id :: "identity list \<Rightarrow> uuid \<Rightarrow> bool" where
  "active_id t i \<longleftrightarrow> (\<exists>x. tab_get i_id t i = Some x \<and> i_state x = I_ACTIVE)"

definition owned_ok :: "identity list \<Rightarrow> rep list \<Rightarrow> occurrence list \<Rightarrow> association list \<Rightarrow> bool" where
  "owned_ok t rs ocs as \<longleftrightarrow>
     (\<forall>r\<in>set rs. \<forall>i. r_state r = R_ACTIVE \<and> r_identity r = Some i \<longrightarrow> active_id t i) \<and>
     (\<forall>oc\<in>set ocs. oc_state oc = OC_ACTIVE \<longrightarrow> active_id t (oc_identity oc)) \<and>
     (\<forall>a\<in>set as. a_state a = AS_ACTIVE \<longrightarrow> active_id t (a_identity a))"

definition associations_ok :: "association list \<Rightarrow> bool" where
  "associations_ok t \<longleftrightarrow> tab_keyed a_id t \<and> (\<forall>a\<in>set t. association_row_ok a) \<and>
     unique_where (\<lambda>a. a_state a = AS_ACTIVE) a_identity t"

definition memory_ok :: "db \<Rightarrow> bool" where
  "memory_ok d \<longleftrightarrow> identities_ok (identities d) \<and> reps_ok (reps d) \<and>
     keys_below (reps d) (ann_sequences d) \<and> queue_inv (index_ops d) \<and>
     owned_ok (identities d) (reps d) (occurrences d) (associations d) \<and>
     associations_ok (associations d) \<and> tab_keyed oc_id (occurrences d)"

lemma memory_ok_empty: "memory_ok empty_db"
proof -
  have "merge_edges [] = {}" by (simp add: merge_edges_def)
  then show ?thesis
    by (simp add: memory_ok_def empty_db_def identities_ok_def reps_ok_def keys_below_def queue_inv_def
        owned_ok_def associations_ok_def tab_keyed_def next_key_def acyclic_def)
qed

section \<open>Writes that keep it\<close>

text \<open>The invariant does not look at evidence, lineage, people or occurrence members.\<close>

lemma memory_ok_cong [simp]:
  "memory_ok (d\<lparr>evidences := es, ev_reps := ls, ev_candidates := cs\<rparr>) = memory_ok d"
  "memory_ok (d\<lparr>lineages := xs\<rparr>) = memory_ok d"
  "memory_ok (d\<lparr>people := hs\<rparr>) = memory_ok d"
  "memory_ok (d\<lparr>evidences := es\<rparr>) = memory_ok d"
  "memory_ok (d\<lparr>occ_obs := os\<rparr>) = memory_ok d"
  by (simp_all add: memory_ok_def)

lemma evidence_append_Inr:
  assumes "evidence_append e ls cs d = Inr d'"
  obtains es rs ks where "d' = d\<lparr>evidences := es, ev_reps := rs, ev_candidates := ks\<rparr>"
    "es = evidences d @ [e]" "rs = ev_reps d @ link_rows (e_id e) ls"
    "ks = ev_candidates d @ candidate_rows (e_id e) cs"
  using assms by (auto simp: evidence_append_def Let_def split: if_splits)

lemma lineage_add_Inr: "lineage_add l t = Inr t' \<Longrightarrow> t' = t @ [l] \<and> lineage_row_ok t l"
  by (auto simp: lineage_add_def split: if_splits)

text \<open>A write of identities that keeps each row's id, state and merge target.\<close>

definition same_standing :: "(identity \<Rightarrow> identity) \<Rightarrow> bool" where
  "same_standing f \<longleftrightarrow> (\<forall>x. i_id (f x) = i_id x \<and> i_state (f x) = i_state x \<and>
     i_merged_into (f x) = i_merged_into x \<and> i_rev x \<le> i_rev (f x))"

lemma merge_edges_Cons [simp]:
  "merge_edges (x # t) = (case i_merged_into x of None \<Rightarrow> {} | Some j \<Rightarrow> {(i_id x, j)}) \<union> merge_edges t"
  by (auto simp: merge_edges_def split: option.splits)

lemma merge_edges_Nil [simp]: "merge_edges [] = {}"
  by (simp add: merge_edges_def)

lemma merge_edges_keep:
  "(\<And>x. x \<in> set t \<Longrightarrow> p x \<Longrightarrow> i_id (f x) = i_id x \<and> i_merged_into (f x) = i_merged_into x) \<Longrightarrow>
     merge_edges (tab_update p f t) = merge_edges t"
proof (induction t)
  case (Cons x t)
  then show ?case using Cons.prems [of x] by (cases "p x") (simp_all split: option.split)
qed simp

lemma merge_edges_update: "same_standing f \<Longrightarrow> merge_edges (tab_update p f t) = merge_edges t"
  by (rule merge_edges_keep) (simp add: same_standing_def)

lemma active_id_tab_update:
  assumes "\<And>x. i_id (f x) = i_id x"
  shows "active_id (tab_update p f t) i \<longleftrightarrow>
    (\<exists>x. tab_get i_id t i = Some x \<and> i_state (if p x then f x else x) = I_ACTIVE)"
  using assms by (cases "tab_get i_id t i") (simp_all add: active_id_def tab_get_update)

lemma active_id_update: "same_standing f \<Longrightarrow> active_id (tab_update p f t) = active_id t"
  by (rule ext, subst active_id_tab_update) (auto simp: same_standing_def active_id_def)

lemma identities_ok_update: "same_standing f \<Longrightarrow> identities_ok t \<Longrightarrow> identities_ok (tab_update p f t)"
  by (auto simp: identities_ok_def merge_edges_update tab_keyed_update same_standing_def set_tab_update
      identity_row_ok_def intro: order_trans)

lemma memory_ok_standing:
  assumes "memory_ok d" and "same_standing f"
  shows "memory_ok (d\<lparr>identities := tab_update p f (identities d)\<rparr>)"
  using assms by (simp add: memory_ok_def identities_ok_update owned_ok_def active_id_update)

lemma touch_identity_standing:
  assumes "touch_identity i now expected d = Inr d'"
  shows "\<exists>p f. same_standing f \<and> (\<forall>x. i_face (f x) = i_face x) \<and> d' = d\<lparr>identities := tab_update p f (identities d)\<rparr>"
proof (cases expected)
  case None
  then show ?thesis using assms
    by (intro exI [of _ "\<lambda>x. i_id x = i"] exI [of _ "\<lambda>x. x\<lparr>i_rev := i_rev x + 1, i_updated := now\<rparr>"])
      (simp add: touch_identity_def same_standing_def)
next
  case (Some e)
  then show ?thesis using assms
    by (intro exI [of _ "opt_where i_id i_rev i e (\<lambda>_. True)"]
          exI [of _ "\<lambda>x. bump_identity (x\<lparr>i_updated := now\<rparr>)"])
      (auto simp: touch_identity_def same_standing_def identity_update_def optimistic_locked_update_def
        bump_identity_def split: if_splits)
qed

lemma touch_identity_ok: "memory_ok d \<Longrightarrow> touch_identity i now e d = Inr d' \<Longrightarrow> memory_ok d'"
  by (auto dest!: touch_identity_standing intro: memory_ok_standing)

lemma set_face_ok: "memory_ok d \<Longrightarrow> memory_ok (set_face i f d)"
  unfolding set_face_def by (rule memory_ok_standing) (simp_all add: same_standing_def)

lemma refresh_representative_ok: "memory_ok d \<Longrightarrow> memory_ok (refresh_representative i m now d)"
  by (auto simp: refresh_representative_def same_standing_def split: option.splits intro!: memory_ok_standing)

text \<open>A new identity that has not merged.\<close>

lemma acyclic_merge_edges_append:
  assumes "i_merged_into x = None"
  shows "merge_edges (t @ [x]) = merge_edges t"
  using assms by (auto simp: merge_edges_def)

lemma active_id_append: "active_id t i \<Longrightarrow> active_id (t @ [x]) i"
  by (auto simp: active_id_def tab_get_append)

lemma owned_ok_mono:
  assumes "owned_ok t rs ocs as" and "\<And>i. active_id t i \<Longrightarrow> active_id t' i"
  shows "owned_ok t' rs ocs as"
  using assms by (auto simp: owned_ok_def)

lemma identity_add_ok:
  assumes "memory_ok d" and "identity_add x (identities d) = Inr t" and "i_merged_into x = None"
  shows "memory_ok (d\<lparr>identities := t\<rparr>)" and "t = identities d @ [x]" and "tab_get i_id (identities d) (i_id x) = None"
proof -
  show t: "t = identities d @ [x]" and new: "tab_get i_id (identities d) (i_id x) = None"
    using assms(2) by (auto simp: identity_add_def split: if_splits)
  have "identity_row_ok x" using assms(2) by (simp add: identity_add_def split: if_splits)
  then have "identities_ok (identities d @ [x])"
    using assms(1,3) new by (auto simp: memory_ok_def identities_ok_def acyclic_merge_edges_append
        tab_keyed_append1 tab_get_None_iff)
  with assms(1) show "memory_ok (d\<lparr>identities := t\<rparr>)"
    by (auto simp: memory_ok_def t intro: owned_ok_mono active_id_append)
qed

lemma new_identity_ok [simp]: "i_merged_into (new_identity i st run f c a u) = None"
  "i_id (new_identity i st run f c a u) = i" "i_state (new_identity i st run f c a u) = st"
  "i_face (new_identity i st run f c a u) = f" "i_rev (new_identity i st run f c a u) = 1"
  by (simp_all add: new_identity_def)

lemma create_pending_identity_ok:
  assumes "memory_ok d" and "create_pending_identity run face i c u d = Inr (x, d')"
  shows "memory_ok d'"
  using assms by (auto simp: create_pending_identity_def Let_def bindE_Inr_iff intro: identity_add_ok)

lemma activate_identity_ok:
  assumes "memory_ok d" and "activate_identity i e now d = Inr (x, d')"
  shows "memory_ok d'"
proof -
  let ?p = "opt_where i_id i_rev i e (\<lambda>x. i_state x = I_PENDING)"
  let ?f = "\<lambda>x. bump_identity (x\<lparr>i_state := I_ACTIVE, i_activated := Some now, i_updated := now\<rparr>)"
  let ?t = "tab_update ?p ?f (identities d)"
  have d': "d' = d\<lparr>identities := ?t\<rparr>"
    using assms(2) by (auto simp: activate_identity_def identity_update_def optimistic_locked_update_def split: if_splits)
  have row: "i_merged_into x = None" if "x \<in> set (identities d)" "?p x" for x
    using assms(1) that by (cases "i_merged_into x") (auto simp: memory_ok_def identities_ok_def opt_where_def)
  have "merge_edges ?t = merge_edges (identities d)"
    by (rule merge_edges_keep) (simp add: bump_identity_def)
  then have "identities_ok ?t"
    using assms(1) row by (fastforce simp: memory_ok_def identities_ok_def tab_keyed_update bump_identity_def
        set_tab_update identity_row_ok_def)
  moreover have "active_id ?t j" if "active_id (identities d) j" for j
    using that by (subst active_id_tab_update) (auto simp: active_id_def bump_identity_def)
  ultimately show ?thesis using assms(1) by (auto simp: memory_ok_def d' intro: owned_ok_mono)
qed

section \<open>Moving what is owned\<close>

lemma keys_below_update:
  assumes "keys_below t qs" and "\<And>r. r_space (f r) = r_space r"
    and "\<And>r. r \<in> set t \<Longrightarrow> p r \<Longrightarrow> case r_key (f r) of None \<Rightarrow> True | Some k \<Rightarrow> k < next_key qs (r_space r)"
  shows "keys_below (tab_update p f t) qs"
  unfolding keys_below_def
proof (intro conjI ballI allI)
  fix r assume "r \<in> set (tab_update p f t)"
  then obtain r0 where "r0 \<in> set t" "r = (if p r0 then f r0 else r0)" by (rule in_tab_updateE)
  with assms(1,2) assms(3) [of r0] show "case r_key r of None \<Rightarrow> True | Some k \<Rightarrow> k < next_key qs (r_space r)"
    by (auto simp: keys_below_def split: option.splits)
qed (use assms(1) in \<open>simp add: keys_below_def\<close>)

lemma move_reps_ok:
  assumes "memory_ok d" and "active_id (identities d) to"
  shows "memory_ok (move_reps p to d)"
proof -
  let ?f = "\<lambda>r. r\<lparr>r_identity := Some to\<rparr>"
  have "reps_ok (tab_update p ?f (reps d))"
    using assms(1) by (intro reps_ok_update) (auto simp: memory_ok_def reps_ok_def rep_row_ok_def)
  moreover have "keys_below (tab_update p ?f (reps d)) (ann_sequences d)"
    using assms(1) by (intro keys_below_update) (auto simp: memory_ok_def keys_below_def)
  ultimately show ?thesis
    using assms by (auto simp: memory_ok_def move_reps_def owned_ok_def set_tab_update)
qed

lemma move_occurrences_ok:
  assumes "memory_ok d" and "active_id (identities d) to"
  shows "memory_ok (move_occurrences p to d)"
  using assms by (auto simp: memory_ok_def move_occurrences_def owned_ok_def set_tab_update tab_keyed_update)

lemma move_simps [simp]:
  "identities (move_reps p to d) = identities d" "occurrences (move_reps p to d) = occurrences d"
  "associations (move_reps p to d) = associations d" "index_ops (move_reps p to d) = index_ops d"
  "identities (move_occurrences q to d) = identities d" "reps (move_occurrences q to d) = reps d"
  "associations (move_occurrences q to d) = associations d" "index_ops (move_occurrences q to d) = index_ops d"
  "reps (set_face i f d) = reps d" "occurrences (set_face i f d) = occurrences d"
  "associations (set_face i f d) = associations d" "index_ops (set_face i f d) = index_ops d"
  by (simp_all add: move_reps_def move_occurrences_def set_face_def)

lemma active_association_None:
  "active_association i d = None \<longleftrightarrow> (\<forall>a\<in>set (associations d). a_state a = AS_ACTIVE \<longrightarrow> a_identity a \<noteq> i)"
  by (auto simp: active_association_def find_None_iff)

lemma active_association_Some:
  "active_association i d = Some a \<Longrightarrow> a \<in> set (associations d) \<and> a_identity a = i \<and> a_state a = AS_ACTIVE"
  by (auto simp: active_association_def find_Some_iff)

lemma end_association_ok:
  assumes "memory_ok d" and "st \<noteq> AS_ACTIVE"
  shows "memory_ok (end_association i st now d)"
proof -
  let ?t = "tab_update (\<lambda>a. a_id a = i) (\<lambda>a. a\<lparr>a_state := st, a_ended := Some now, a_rev := a_rev a + 1\<rparr>) (associations d)"
  have "unique_where (\<lambda>a. a_state a = AS_ACTIVE) a_identity ?t"
    using assms by (intro unique_where_update) (simp_all add: memory_ok_def associations_ok_def)
  moreover have "tab_keyed a_id ?t" using assms by (simp add: memory_ok_def associations_ok_def tab_keyed_update)
  moreover have "association_row_ok a" if "a \<in> set ?t" for a
    using that assms by (auto simp: set_tab_update association_row_ok_def memory_ok_def associations_ok_def)
  moreover have "owned_ok (identities d) (reps d) (occurrences d) ?t"
    using assms by (auto simp: owned_ok_def set_tab_update memory_ok_def)
  ultimately show ?thesis using assms(1) by (simp add: memory_ok_def end_association_def associations_ok_def)
qed

lemma association_add_ok:
  assumes "memory_ok d" and "association_add (new_association i ident p e now) d = Inr d'"
    and "active_id (identities d) ident"
  shows "memory_ok d'"
proof -
  let ?a = "new_association i ident p e now"
  have new: "tab_get a_id (associations d) i = None" "active_association ident d = None"
    and d': "d' = d\<lparr>associations := associations d @ [?a]\<rparr>"
    using assms(2) by (auto simp: association_add_def new_association_def split: if_splits)
  have "associations_ok (associations d @ [?a])"
    using assms(1) new unfolding active_association_None
    by (auto simp: memory_ok_def associations_ok_def tab_keyed_append1 tab_get_None_iff unique_where_append1
        new_association_def association_row_ok_def simp del: not_None_eq)
  moreover have "owned_ok (identities d) (reps d) (occurrences d) (associations d @ [?a])"
    using assms(1,3) by (simp add: memory_ok_def owned_ok_def new_association_def)
  ultimately show ?thesis using assms(1) by (simp add: memory_ok_def d')
qed

text \<open>Closing an identity that no longer owns anything active.\<close>

definition owns_nothing :: "uuid \<Rightarrow> db \<Rightarrow> bool" where
  "owns_nothing i d \<longleftrightarrow> owned_reps i d = [] \<and> owned_occurrences i d = [] \<and> active_association i d = None"

lemma acyclic_merge_edges_close:
  assumes "acyclic E" and "l \<noteq> s" and "\<And>j. (s, j) \<notin> E"
  shows "acyclic (insert (l, s) E)"
proof -
  have "(s, l) \<notin> E\<^sup>*" using assms(2,3) by (metis converse_rtranclE)
  with assms(1) show ?thesis by (simp add: acyclic_insert)
qed

lemma merge_close_ok:
  assumes ok: "memory_ok d" and run: "merge_close l s e now d = Inr d'" and "l \<noteq> s"
    and act: "active_id (identities d) s" and own: "owns_nothing l d"
  shows "memory_ok d'" and "\<exists>x. tab_get i_id (identities d') l = Some x \<and> i_state x = I_MERGED \<and> i_merged_into x = Some s"
proof -
  let ?p = "opt_where i_id i_rev l e (\<lambda>x. i_state x = I_ACTIVE)"
  let ?f = "\<lambda>x. bump_identity (x\<lparr>i_state := I_MERGED, i_merged_into := Some s, i_updated := now\<rparr>)"
  let ?t = "tab_update ?p ?f (identities d)"
  have d': "d' = d\<lparr>identities := ?t\<rparr>" and n: "fst (identity_rev.upd l e (\<lambda>x. x\<lparr>i_state := I_MERGED, i_merged_into := Some s, i_updated := now\<rparr>) (\<lambda>x. i_state x = I_ACTIVE) (identities d)) \<noteq> 0"
    using run by (auto simp: merge_close_def identity_update_def optimistic_locked_update_def split: if_splits)
  have keyed: "tab_keyed i_id (identities d)" using ok by (simp add: memory_ok_def identities_ok_def)
  have loser: "\<exists>x. tab_get i_id (identities d) l = Some x \<and> ?p x"
    using n by (auto simp: identity_rev.rowcount_iff [OF keyed] opt_where_def dest: tab_get_SomeD split: option.splits if_splits)
  have key_f: "i_id (?f x) = i_id x" for x by (simp add: bump_identity_def)
  from loser show "\<exists>x. tab_get i_id (identities d') l = Some x \<and> i_state x = I_MERGED \<and> i_merged_into x = Some s"
    unfolding d' by (auto simp: tab_get_update key_f bump_identity_def)
  obtain x where x: "tab_get i_id (identities d) l = Some x" "?p x" using loser by blast
  have only: "y = x" if "y \<in> set (identities d)" "?p y" for y
    using that x tab_keyed_inj [OF keyed, of y x] by (auto simp: opt_where_def dest: tab_get_SomeD)
  have xin: "x \<in> set (identities d)" "i_id x = l" using x(1) by (auto dest: tab_get_SomeD)
  have xm: "i_merged_into x = None"
    using ok xin x(2) by (cases "i_merged_into x") (auto simp: memory_ok_def identities_ok_def opt_where_def)
  have edges: "merge_edges ?t = insert (l, s) (merge_edges (identities d))"
  proof -
    obtain u v where uv: "identities d = u @ x # v" using xin(1) by (auto dest: split_list)
    have app: "merge_edges (u @ w) = merge_edges u \<union> merge_edges w" for u w
      by (induction u) auto
    have out: "x \<notin> set u \<union> set v" using keyed uv by (auto simp: tab_keyed_def)
    have "\<not> ?p y" if y: "y \<in> set u \<union> set v" for y
    proof
      assume "?p y"
      with y have "y = x" by (intro only) (auto simp: uv)
      with out y show False by simp
    qed
    then have keep: "tab_update ?p ?f u = u" "tab_update ?p ?f v = v"
      by (simp_all add: tab_update_none)
    have "merge_edges ?t = merge_edges u \<union> (merge_edges [?f x] \<union> merge_edges v)"
      unfolding uv tab_update_append tab_update_Cons keep if_P [OF x(2)] app merge_edges_Cons merge_edges_Nil Un_empty_right ..
    moreover have "merge_edges [?f x] = {(l, s)}" using xin(2) by (simp add: bump_identity_def)
    moreover have "merge_edges (identities d) = merge_edges u \<union> merge_edges v"
      using xm by (simp add: uv app)
    ultimately show ?thesis by blast
  qed
  have no_edge: "(s, j) \<notin> merge_edges (identities d)" for j
  proof
    assume "(s, j) \<in> merge_edges (identities d)"
    then obtain y where y: "y \<in> set (identities d)" "i_id y = s" "i_merged_into y = Some j"
      by (auto simp: merge_edges_def)
    then have "i_state y = I_MERGED" using ok by (auto simp: memory_ok_def identities_ok_def)
    with y act tab_get_in [OF keyed y(1)] show False by (auto simp: active_id_def)
  qed
  have "acyclic (merge_edges ?t)"
    unfolding edges using ok no_edge \<open>l \<noteq> s\<close>
    by (intro acyclic_merge_edges_close) (auto simp: memory_ok_def identities_ok_def)
  moreover have "identity_row_ok y \<and> (i_merged_into y \<noteq> None \<longrightarrow> i_state y = I_MERGED)" if "y \<in> set ?t" for y
  proof -
    obtain z where z: "z \<in> set (identities d)" "y = (if ?p z then ?f z else z)"
      using \<open>y \<in> set ?t\<close> by (rule in_tab_updateE)
    then have "identity_row_ok z \<and> (i_merged_into z \<noteq> None \<longrightarrow> i_state z = I_MERGED)"
      using ok by (simp add: memory_ok_def identities_ok_def)
    with z(2) \<open>l \<noteq> s\<close> show ?thesis
      by (cases "?p z") (simp_all add: bump_identity_def identity_row_ok_def opt_where_def)
  qed
  ultimately have "identities_ok ?t" using keyed by (simp add: identities_ok_def tab_keyed_update key_f)
  moreover have "active_id ?t i" if "active_id (identities d) i" "i \<noteq> l" for i
    using that by (subst active_id_tab_update) (auto simp: active_id_def key_f opt_where_def dest: tab_get_SomeD)
  then have "owned_ok ?t (reps d) (occurrences d) (associations d)"
    using ok own unfolding memory_ok_def owned_ok_def owns_nothing_def owned_reps_def owned_occurrences_def
      filter_empty_conv active_association_None by blast
  ultimately show "memory_ok d'" using ok by (simp add: memory_ok_def d')
qed

section \<open>Merge\<close>

lemma active_association_unique:
  assumes "associations_ok (associations d)" and "a \<in> set (associations d)" and "a_state a = AS_ACTIVE"
  shows "active_association (a_identity a) d = Some a"
  unfolding active_association_def
  using assms by (intro unique_where_find) (auto simp: associations_ok_def)

lemma active_association_end:
  assumes "associations_ok (associations d)" and "active_association i d = Some a" and "st \<noteq> AS_ACTIVE"
  shows "active_association j (end_association (a_id a) st now d) =
    (if j = i then None else active_association j d)"
proof -
  let ?t = "associations d"
  let ?f = "\<lambda>b. b\<lparr>a_state := st, a_ended := Some now, a_rev := a_rev b + 1\<rparr>"
  have a: "a \<in> set ?t" "a_identity a = i" "a_state a = AS_ACTIVE"
    using active_association_Some [OF assms(2)] by auto
  have keyed: "tab_keyed a_id ?t" using assms(1) by (simp add: associations_ok_def)
  have same: "b = a" if "b \<in> set ?t" "a_id b = a_id a" for b
    using that a tab_keyed_inj [OF keyed] by blast
  have find: "find P (tab_update p f u) = find P u"
    if "\<And>b. b \<in> set u \<Longrightarrow> p b \<Longrightarrow> \<not> P (f b) \<and> \<not> P b" for P p and f :: "association \<Rightarrow> association" and u
    using that by (induction u) auto
  show ?thesis
  proof (cases "j = i")
    case True
    have "\<not> (a_identity b = i \<and> a_state b = AS_ACTIVE)" if b: "b \<in> set (tab_update (\<lambda>b. a_id b = a_id a) ?f ?t)" for b
    proof
      assume act: "a_identity b = i \<and> a_state b = AS_ACTIVE"
      obtain c where c: "c \<in> set ?t" "b = (if a_id c = a_id a then ?f c else c)" using b by (rule in_tab_updateE)
      have "a_id c \<noteq> a_id a" using act c assms(3) by auto
      then have "b = c" "active_association i d = Some c"
        using act c active_association_unique [OF assms(1) c(1)] by auto
      with assms(2) \<open>a_id c \<noteq> a_id a\<close> show False by simp
    qed
    with True show ?thesis by (simp add: active_association_def end_association_def find_None_iff)
  next
    case False
    have "find (\<lambda>b. a_identity b = j \<and> a_state b = AS_ACTIVE) (tab_update (\<lambda>b. a_id b = a_id a) ?f ?t)
        = find (\<lambda>b. a_identity b = j \<and> a_state b = AS_ACTIVE) ?t"
      using False same a assms(3) by (intro find) auto
    with False show ?thesis by (simp add: active_association_def end_association_def)
  qed
qed

lemma find_append: "find P (xs @ ys) = (case find P xs of None \<Rightarrow> find P ys | Some x \<Rightarrow> Some x)"
  by (induction xs) auto

lemma association_add_eq:
  "association_add a d = Inr d' \<Longrightarrow> d' = d\<lparr>associations := associations d @ [a]\<rparr>"
  by (auto simp: association_add_def split: if_splits)

lemma association_add_active:
  assumes "association_add (new_association i ident p e now) d = Inr d'"
  shows "active_association j d' = (if j = ident then Some (new_association i ident p e now) else active_association j d)"
  using assms
  by (auto simp: association_add_def active_association_def new_association_def find_append
      split: if_splits option.splits)

text \<open>Only people links and evidence change.\<close>

definition same_memory :: "db \<Rightarrow> db \<Rightarrow> bool" where
  "same_memory d d' \<longleftrightarrow> reps d' = reps d \<and> occurrences d' = occurrences d \<and> index_ops d' = index_ops d \<and>
     ann_sequences d' = ann_sequences d \<and> occ_obs d' = occ_obs d"

lemma same_memory_refl [simp]: "same_memory d d" by (simp add: same_memory_def)

lemma same_memory_trans: "same_memory d d' \<Longrightarrow> same_memory d' d'' \<Longrightarrow> same_memory d d''"
  by (simp add: same_memory_def)

lemma reconcile_person_on_merge_ok:
  assumes ok: "memory_ok d" and run: "reconcile_person_on_merge l s ids now d = Inr (n, d')"
    and "l \<noteq> s" and act: "active_id (identities d) s"
  shows "memory_ok d'" and "same_memory d d'" and "identities d' = identities d"
    and "active_association l d' = None"
    and "map_option a_person (active_association s d') =
      (case active_association s d of Some a \<Rightarrow> Some (a_person a) | None \<Rightarrow> map_option a_person (active_association l d))"
proof -
  have "memory_ok d' \<and> same_memory d d' \<and> identities d' = identities d \<and> active_association l d' = None \<and>
    map_option a_person (active_association s d') =
      (case active_association s d of Some a \<Rightarrow> Some (a_person a) | None \<Rightarrow> map_option a_person (active_association l d))"
  proof (cases "active_association l d")
    case None
    then show ?thesis using run ok
      by (auto simp: reconcile_person_on_merge_def split: option.splits)
  next
    case (Some a)
    let ?step = "if active_association s d = None
                 then carry_person_over l s (a_person a) ids now d else Inr (0, d)"
    obtain m d1 where d1: "?step = Inr (m, d1)" and d': "d' = end_association (a_id a) AS_SUPERSEDED now d1"
      using run Some by (cases ?step) (auto simp: reconcile_person_on_merge_def)
    have mid: "memory_ok d1 \<and> same_memory d d1 \<and> identities d1 = identities d \<and> active_association l d1 = Some a \<and>
      map_option a_person (active_association s d1) =
        (case active_association s d of Some b \<Rightarrow> Some (a_person b) | None \<Rightarrow> Some (a_person a))"
    proof (cases "active_association s d = None")
      case True
      then obtain e d0 where d0: "evidence_append e [] [] d = Inr d0"
        "association_add (new_association (ids 1) s (a_person a) (ids 0) now) d0 = Inr d1"
        using d1 by (auto simp: carry_person_over_def Let_def bindE_Inr_iff)
      obtain es rs ks where eq: "d0 = d\<lparr>evidences := es, ev_reps := rs, ev_candidates := ks\<rparr>"
        using d0(1) by (rule evidence_append_Inr)
      have "memory_ok d0" "active_id (identities d0) s" using ok act by (simp_all add: eq)
      then have "memory_ok d1" by (rule association_add_ok [OF _ d0(2)])
      moreover have "active_association l d0 = Some a" using Some by (simp add: eq active_association_def)
      moreover have "active_association l d1 = Some a" "active_association s d1 = Some (new_association (ids 1) s (a_person a) (ids 0) now)"
        using \<open>l \<noteq> s\<close> calculation(2) by (simp_all only: association_add_active [OF d0(2)] if_False if_True simp_thms)
      moreover have "same_memory d d1 \<and> identities d1 = identities d"
        using association_add_eq [OF d0(2)] by (simp add: eq same_memory_def)
      ultimately show ?thesis using True by (simp add: new_association_def)
    next
      case False
      then show ?thesis using d1 ok Some by auto
    qed
    then have as: "associations_ok (associations d1)" by (simp add: memory_ok_def)
    have "active_association j d' = (if j = l then None else active_association j d1)" for j
      unfolding d' using mid by (intro active_association_end [OF as]) auto
    moreover have "memory_ok d'" unfolding d' using mid by (intro end_association_ok) auto
    moreover have "same_memory d d' \<and> identities d' = identities d"
      using mid by (simp add: d' end_association_def same_memory_def)
    ultimately show ?thesis using mid Some \<open>l \<noteq> s\<close> by (auto split: option.splits)
  qed
  then show "memory_ok d'" "same_memory d d'" "identities d' = identities d" "active_association l d' = None"
    "map_option a_person (active_association s d') =
      (case active_association s d of Some a \<Rightarrow> Some (a_person a) | None \<Rightarrow> map_option a_person (active_association l d))"
    by blast+
qed

lemma eligible_iff: "memory_ok d \<Longrightarrow> r \<in> set (reps d) \<Longrightarrow> eligible d r \<longleftrightarrow> r_state r = R_ACTIVE"
  unfolding memory_ok_def owned_ok_def active_id_def eligible_def
  by (auto split: option.splits)

lemma merge_move_ok:
  assumes "memory_ok d" and "active_id (identities d) s" and "l \<noteq> s"
  shows "memory_ok (merge_move l s lf sf d)" and "active_id (identities (merge_move l s lf sf d)) = active_id (identities d)"
    and "reps (merge_move l s lf sf d) =
      tab_update (\<lambda>r. r_identity r = Some l \<and> r_state r = R_ACTIVE) (\<lambda>r. r\<lparr>r_identity := Some s\<rparr>) (reps d)"
    and "occurrences (merge_move l s lf sf d) =
      tab_update (\<lambda>oc. oc_identity oc = l \<and> oc_state oc = OC_ACTIVE) (\<lambda>oc. oc\<lparr>oc_identity := s\<rparr>) (occurrences d)"
    and "index_ops (merge_move l s lf sf d) = index_ops d" and "associations (merge_move l s lf sf d) = associations d"
proof -
  have keyed: "tab_keyed oc_id (occurrences d)" using assms(1) by (simp add: memory_ok_def)
  have sel: "oc_id oc \<in> set (map oc_id (owned_occurrences l d)) \<longleftrightarrow> oc_identity oc = l \<and> oc_state oc = OC_ACTIVE"
    if "oc \<in> set (occurrences d)" for oc
    using that tab_keyed_inj [OF keyed] by (auto simp: owned_occurrences_def)
  show "memory_ok (merge_move l s lf sf d)"
    using assms by (auto simp: merge_move_def Let_def intro!: set_face_ok move_occurrences_ok move_reps_ok)
  show "active_id (identities (merge_move l s lf sf d)) = active_id (identities d)"
    by (auto simp: merge_move_def Let_def set_face_def same_standing_def intro!: active_id_update)
  show "occurrences (merge_move l s lf sf d) =
      tab_update (\<lambda>oc. oc_identity oc = l \<and> oc_state oc = OC_ACTIVE) (\<lambda>oc. oc\<lparr>oc_identity := s\<rparr>) (occurrences d)"
    using sel by (auto simp: merge_move_def Let_def move_occurrences_def set_face_def move_reps_def tab_update_def)
qed (auto simp: merge_move_def Let_def move_reps_def)

lemma merge_move_empties:
  assumes "memory_ok d" and "active_id (identities d) s" and "l \<noteq> s" and "active_association l d = None"
  shows "owns_nothing l (merge_move l s lf sf d)"
  using assms
  by (auto simp: owns_nothing_def owned_reps_def owned_occurrences_def merge_move_ok filter_empty_conv set_tab_update
      active_association_def)

lemma record_Inr:
  assumes "bindE (refused (evidence_append e ls cs d)) (\<lambda>d1. bindE (refused (lineage_add l (lineages d1)))
             (\<lambda>xs. Inr (d1\<lparr>lineages := xs\<rparr>))) = Inr d'"
  shows "d' = d\<lparr>evidences := evidences d @ [e], ev_reps := ev_reps d @ link_rows (e_id e) ls,
                ev_candidates := ev_candidates d @ candidate_rows (e_id e) cs, lineages := lineages d @ [l]\<rparr>"
  using assms by (auto simp: bindE_Inr_iff evidence_append_def lineage_add_def Let_def split: if_splits)

lemma merge_record_frame:
  assumes "merge_record l s rs os v ids now d = Inr d'"
  shows "same_memory d d' \<and> identities d' = identities d \<and> associations d' = associations d \<and> (memory_ok d \<longrightarrow> memory_ok d')"
  using record_Inr [OF assms [unfolded merge_record_def Let_def]] by (simp add: same_memory_def memory_ok_def)

lemma merge_close_active:
  assumes "merge_close l s e now d = Inr d'" and "i \<noteq> l"
  shows "active_id (identities d') i = active_id (identities d) i"
proof -
  have "identities d' = tab_update (opt_where i_id i_rev l e (\<lambda>x. i_state x = I_ACTIVE))
      (\<lambda>x. bump_identity (x\<lparr>i_state := I_MERGED, i_merged_into := Some s, i_updated := now\<rparr>)) (identities d)"
    using assms(1)
    by (auto simp: merge_close_def identity_update_def optimistic_locked_update_def split: if_splits)
  then show ?thesis using assms(2)
    by (simp only:, subst active_id_tab_update)
      (auto simp: bump_identity_def active_id_def opt_where_def dest: tab_get_SomeD)
qed

lemma merge_identities_stages:
  assumes "merge_identities l s e es v ids now0 now d = Inr (x, d')"
  obtains n d1 d2 d3 xl xs where "l \<noteq> s" "tab_get i_id (identities d) s = Some xs" "i_state xs = I_ACTIVE"
    "tab_get i_id (identities d) l = Some xl" "i_state xl = I_ACTIVE"
    "reconcile_person_on_merge l s ids now0 d = Inr (n, d1)" "touch_identity s now es d1 = Inr d2"
    "merge_record l s (map r_id (owned_reps l d2)) (map oc_id (owned_occurrences l d2)) v (\<lambda>k. ids (n + k)) now
       (merge_move l s (i_face xl) (i_face xs) d2) = Inr d3"
    "merge_close l s e now d3 = Inr d'"
  using assms
  by (auto simp: merge_identities_def bindE_Inr_iff split: if_splits option.splits)

text \<open>
  C28. A merge moves everything active and loses nothing. When it returns: the losing identity is
  \<open>MERGED\<close> into the survivor and owns no active representation, occurrence or person link; the
  survivor is still ACTIVE and owns what both owned; a person link of the loser carries over exactly
  when the survivor had none; and memory itself is untouched: every representation keeps its state,
  key and vector, nothing is queued for the index, and the invariant holds.
\<close>

theorem merge_moves_everything_active:
  assumes "memory_ok d" and "merge_identities l s e es v ids now0 now d = Inr (x, d')"
  shows "memory_ok d' \<and> owns_nothing l d' \<and> active_id (identities d') s \<and>
    (\<exists>y. tab_get i_id (identities d') l = Some y \<and> i_state y = I_MERGED \<and> i_merged_into y = Some s) \<and>
    reps d' = tab_update (\<lambda>r. r_identity r = Some l \<and> r_state r = R_ACTIVE) (\<lambda>r. r\<lparr>r_identity := Some s\<rparr>) (reps d) \<and>
    occurrences d' = tab_update (\<lambda>oc. oc_identity oc = l \<and> oc_state oc = OC_ACTIVE) (\<lambda>oc. oc\<lparr>oc_identity := s\<rparr>) (occurrences d) \<and>
    index_ops d' = index_ops d \<and>
    map_option a_person (active_association s d') =
      (case active_association s d of Some a \<Rightarrow> Some (a_person a) | None \<Rightarrow> map_option a_person (active_association l d))"
proof -
  obtain n d1 d2 d3 xs and xl :: identity where st: "l \<noteq> s" "tab_get i_id (identities d) s = Some xs" "i_state xs = I_ACTIVE"
    "reconcile_person_on_merge l s ids now0 d = Inr (n, d1)" "touch_identity s now es d1 = Inr d2"
    "merge_record l s (map r_id (owned_reps l d2)) (map oc_id (owned_occurrences l d2)) v (\<lambda>k. ids (n + k)) now
       (merge_move l s (i_face xl) (i_face xs) d2) = Inr d3"
    "merge_close l s e now d3 = Inr d'"
    using assms(2) by (rule merge_identities_stages) blast
  let ?m = "merge_move l s (i_face xl) (i_face xs) d2"
  have act: "active_id (identities d) s" using st(2,3) by (simp add: active_id_def)
  note rec = reconcile_person_on_merge_ok [OF assms(1) st(4) st(1) act]
  obtain p f where f: "same_standing f" and d2: "d2 = d1\<lparr>identities := tab_update p f (identities d1)\<rparr>"
    using touch_identity_standing [OF st(5)] by blast
  have ok2: "memory_ok d2" using touch_identity_ok [OF rec(1) st(5)] .
  have act2: "active_id (identities d2) s" using act rec(3) f by (simp add: d2 active_id_update)
  have none2: "active_association l d2 = None" using rec(4) by (simp add: d2 active_association_def)
  note mv = merge_move_ok [OF ok2 act2 st(1), of "i_face xl" "i_face xs"]
  have own: "owns_nothing l ?m" by (rule merge_move_empties [OF ok2 act2 st(1) none2])
  have fr: "same_memory ?m d3" "identities d3 = identities ?m" "associations d3 = associations ?m" "memory_ok d3"
    using merge_record_frame [OF st(6)] mv(1) by auto
  have own3: "owns_nothing l d3" and act3: "active_id (identities d3) s"
    using own fr act2 by (simp_all add: owns_nothing_def owned_reps_def owned_occurrences_def same_memory_def
        active_association_def mv(2))
  note cl = merge_close_ok [OF fr(4) st(7) st(1) act3 own3]
  have d': "reps d' = reps d3" "occurrences d' = occurrences d3" "index_ops d' = index_ops d3" "associations d' = associations d3"
    using st(7) by (auto simp: merge_close_def split: if_splits prod.splits)
  have acts: "active_id (identities d') s"
  proof -
    have "active_id (identities d') s = active_id (identities d3) s"
      using merge_close_active [OF st(7)] \<open>l \<noteq> s\<close> by simp
    with act3 show ?thesis by simp
  qed
  have "owns_nothing l d'" using own3 d'
    by (simp add: owns_nothing_def owned_reps_def owned_occurrences_def active_association_def)
  moreover have "reps d' = tab_update (\<lambda>r. r_identity r = Some l \<and> r_state r = R_ACTIVE) (\<lambda>r. r\<lparr>r_identity := Some s\<rparr>) (reps d)"
    "occurrences d' = tab_update (\<lambda>oc. oc_identity oc = l \<and> oc_state oc = OC_ACTIVE) (\<lambda>oc. oc\<lparr>oc_identity := s\<rparr>) (occurrences d)"
    "index_ops d' = index_ops d"
    using d' fr(1) mv rec(2) by (simp_all add: same_memory_def d2)
  moreover have "active_association s d' = active_association s d1"
    using d'(4) fr(3) mv(6) by (simp add: active_association_def d2)
  ultimately show ?thesis using cl acts rec(5) by simp
qed

text \<open>A small database: two active identities, the first with a face and a person.\<close>

definition sample_rep :: "uuid \<Rightarrow> uuid \<Rightarrow> uuid option \<Rightarrow> rep_state \<Rightarrow> int option \<Rightarrow> rep" where
  "sample_rep i ob owner st k = \<lparr>r_id = i, r_obs = ob, r_identity = owner, r_run = 3, r_segment = 4,
     r_space = 5, r_state = st, r_key = k, r_vector = Some [0, 0, 0, 0], r_dim = 1, r_created = 0,
     r_activated = None, r_erased = None,
        r_quality = JNull, r_variant = None\<rparr>"

definition sample_db :: db where
  "sample_db = empty_db\<lparr>
     identities := [new_identity 1 I_ACTIVE None (Some 11) 0 (Some 0) 0, new_identity 2 I_ACTIVE None None 0 (Some 0) 0],
     spaces := [\<lparr>s_id = 5, s_state = SP_ACTIVE, s_dim = 1, s_metric = COSINE, s_normalization = ''L2_NORMALIZED'', s_key = ''s'', s_component = 6,
       s_contract_version = 1, s_contract = JNull\<rparr>],
     reps := [sample_rep 21 11 (Some 1) R_ACTIVE (Some 1), sample_rep 22 12 None R_PENDING None],
     ann_sequences := [\<lparr>q_space = 5, q_next = 2\<rparr>],
     occurrences := [\<lparr>oc_id = 31, oc_source = 1, oc_identity = 1, oc_run = 3, oc_face = Some 11, oc_kind = OC_IMAGE,
        oc_state = OC_ACTIVE, oc_created = 0, oc_activated = Some 0\<rparr>],
     occ_obs := [\<lparr>oo_occurrence = 31, oo_observation = 11, oo_ordinal = 0\<rparr>],
     people := [\<lparr>h_id = 41, h_state = H_ACTIVE, h_name = ''Ada'', h_normalized = None, h_rev = 1,
        h_created = 0, h_updated = 0, h_recycled = None\<rparr>],
     associations := [new_association 51 1 41 61 0]\<rparr>"

lemma sample_db_ok: "memory_ok sample_db"
proof -
  have "identities_ok (identities sample_db)"
  proof -
    have "merge_edges (identities sample_db) = {}" by (simp add: sample_db_def)
    moreover have "list_all identity_row_ok (identities sample_db) \<and> tab_keyed i_id (identities sample_db)
        \<and> list_all (\<lambda>x. i_merged_into x = None) (identities sample_db)"
      by code_simp
    ultimately show ?thesis by (simp add: identities_ok_def acyclic_def list_all_iff)
  qed
  moreover have "reps_ok (reps sample_db)" by code_simp
  moreover have "keys_below (reps sample_db) (ann_sequences sample_db)"
    by (simp add: keys_below_def sample_db_def sample_rep_def next_key_def tab_get_Cons)
  moreover have "queue_inv (index_ops sample_db)" by code_simp
  moreover have "associations_ok (associations sample_db)" by code_simp
  moreover have "tab_keyed oc_id (occurrences sample_db)" by code_simp
  moreover have "owned_ok (identities sample_db) (reps sample_db) (occurrences sample_db) (associations sample_db)"
    by (simp add: owned_ok_def sample_db_def sample_rep_def new_association_def active_id_def tab_get_Cons)
  ultimately show ?thesis by (simp add: memory_ok_def)
qed

definition sample_ids :: id_supply where
  "sample_ids n = 100 + n"

lemma merge_moves_everything_active_witness:
  "\<exists>x d'. merge_identities 1 2 1 (Some 1) 1 sample_ids 7 7 sample_db = Inr (x, d') \<and>
     owns_nothing 1 d' \<and> map r_identity (reps d') = [Some 2, None] \<and>
     map_option a_person (active_association 2 d') = Some 41"
proof -
  have fine: "\<not> isl (merge_identities 1 2 1 (Some 1) 1 sample_ids 7 7 sample_db)" by code_simp
  then obtain x d' where run: "merge_identities 1 2 1 (Some 1) 1 sample_ids 7 7 sample_db = Inr (x, d')"
    by (cases "merge_identities 1 2 1 (Some 1) 1 sample_ids 7 7 sample_db") auto
  have "active_association 2 sample_db = None" "map_option a_person (active_association 1 sample_db) = Some 41"
    by code_simp+
  moreover have "map r_identity (tab_update (\<lambda>r. r_identity r = Some 1 \<and> r_state r = R_ACTIVE)
      (\<lambda>r. r\<lparr>r_identity := Some 2\<rparr>) (reps sample_db)) = [Some 2, None]" by code_simp
  ultimately show ?thesis
    using merge_moves_everything_active [OF sample_db_ok run] run by auto
qed

section \<open>Revalidation\<close>

lemma map_filter_lookup:
  assumes "\<And>k. k \<in> set ks \<Longrightarrow> F k = map_option val (look k)"
  shows "List.map_filter F ks = map (\<lambda>k. val (the (look k))) (filter (\<lambda>k. look k \<noteq> None) ks)"
  using assms by (induction ks) (auto simp: map_filter_simps)

lemma only_live_candidates:
  assumes "reps_ok (reps d)"
  shows "resolve_ann_candidates s keys d =
    map (\<lambda>k. let r = the (rep_at s k (reps d)) in \<lparr>ac_key = k, ac_rep = r_id r, ac_identity = r_identity r\<rparr>)
      (filter (\<lambda>k. case rep_at s k (reps d) of None \<Rightarrow> False | Some r \<Rightarrow> eligible d r) (dedup keys))"
proof -
  let ?t = "reps d"
  let ?val = "\<lambda>r. \<lparr>ac_key = the (r_key r), ac_rep = r_id r, ac_identity = r_identity r\<rparr>"
  let ?sel = "\<lambda>c. filter (\<lambda>r. r_space r = s \<and> r_key r \<in> Some ` set c \<and> eligible d r) ?t"
  let ?look = "\<lambda>k. case rep_at s k ?t of None \<Rightarrow> None | Some r \<Rightarrow> if eligible d r then Some r else None"
  let ?found = "fold (\<lambda>c m. fold (\<lambda>r m. m(the (r_key r) \<mapsto> ?val r)) (?sel c) m) (chunks keys_per_query (dedup keys)) Map.empty"
  have sel: "?sel c = filter (eligible d) (filter (\<lambda>r. r_space r = s \<and> r_key r \<in> Some ` set c) ?t)" for c
    by (auto intro: filter_cong)
  have distinct: "distinct (map (\<lambda>r. the (r_key r)) (?sel c))" for c
    unfolding sel using keyed_by_key [OF assms, of s c] by (rule distinct_map_filter)
  have look: "tab_get (\<lambda>r. the (r_key r)) (?sel c) k = Some r \<longleftrightarrow> k \<in> set c \<and> ?look k = Some r" for c k r
  proof
    assume "tab_get (\<lambda>r. the (r_key r)) (?sel c) k = Some r"
    then have "r \<in> set ?t" "r_space r = s" "eligible d r" "k \<in> set c" "r_key r = Some k"
      by (auto dest!: tab_get_SomeD)
    then have "rep_at s k ?t = Some r" by (simp add: rep_at_iff [OF assms])
    with \<open>eligible d r\<close> \<open>k \<in> set c\<close> show "k \<in> set c \<and> ?look k = Some r" by simp
  next
    assume r: "k \<in> set c \<and> ?look k = Some r"
    then have "rep_at s k ?t = Some r" "eligible d r" by (auto split: option.splits if_splits)
    then have "r \<in> set (?sel c)" "the (r_key r) = k" using r by (auto simp: rep_at_iff [OF assms])
    with tab_get_in [of "\<lambda>r. the (r_key r)" "?sel c" r] distinct [of c]
    show "tab_get (\<lambda>r. the (r_key r)) (?sel c) k = Some r" by (simp add: tab_keyed_def)
  qed
  have "?found k = (if k \<in> set (concat (chunks keys_per_query (dedup keys))) \<and> ?look k \<noteq> None
      then map_option ?val (?look k) else Map.empty k)" for k
    by (rule fold_stores [where look = ?look]) (simp_all only: distinct look)
  then have found: "?found k = (if k \<in> set keys then map_option ?val (?look k) else None)" for k
    by (simp add: concat_chunks keys_per_query_def)
  have "resolve_ann_candidates s keys d = List.map_filter ?found (dedup keys)"
    by (simp only: resolve_ann_candidates_def Let_def)
  also have "\<dots> = map (\<lambda>k. ?val (the (?look k))) (filter (\<lambda>k. ?look k \<noteq> None) (dedup keys))"
    by (rule map_filter_lookup) (simp only: found set_dedup if_True)
  also have "\<dots> = map (\<lambda>k. let r = the (rep_at s k ?t) in \<lparr>ac_key = k, ac_rep = r_id r, ac_identity = r_identity r\<rparr>)
      (filter (\<lambda>k. case rep_at s k ?t of None \<Rightarrow> False | Some r \<Rightarrow> eligible d r) (dedup keys))"
  proof -
    have "r_key r = Some k" if "rep_at s k ?t = Some r" for k r
      using that by (simp add: rep_at_iff [OF assms])
    then show ?thesis
      by (intro map_cong filter_cong) (auto simp: Let_def split: option.splits if_splits)
  qed
  finally show ?thesis .
qed

text \<open>
  \<open>resolve_ann_candidates\<close> answers for exactly those keys, in the order given and each once,
  that an ACTIVE representation of that space holds whose owner, if it has one, is an ACTIVE
  identity; whatever else an index returns (an unknown key, another space's, one being erased or
  erased, one whose identity was merged away or forgotten) is dropped.
\<close>

theorem only_live_candidates_survive:
  assumes "reps_ok (reps d)"
  shows "resolve_ann_candidates s keys d =
    map (\<lambda>k. let r = the (rep_at s k (reps d)) in \<lparr>ac_key = k, ac_rep = r_id r, ac_identity = r_identity r\<rparr>)
      (filter (\<lambda>k. case rep_at s k (reps d) of None \<Rightarrow> False | Some r \<Rightarrow> eligible d r) (dedup keys))"
  by (rule only_live_candidates [OF assms])

lemma only_live_candidates_survive_witness:
  "resolve_ann_candidates 5 [9, 1, 1] sample_db = [\<lparr>ac_key = 1, ac_rep = 21, ac_identity = Some 1\<rparr>]"
proof -
  have "reps_ok (reps sample_db)" by code_simp
  moreover have "rep_at 5 9 (reps sample_db) = None"
    "rep_at 5 1 (reps sample_db) = Some (sample_rep 21 11 (Some 1) R_ACTIVE (Some 1))"
    "eligible sample_db (sample_rep 21 11 (Some 1) R_ACTIVE (Some 1))" by code_simp+
  ultimately show ?thesis
    by (simp add: only_live_candidates_survive) (simp add: sample_rep_def)
qed

text \<open>Following merges: it ends, because merges form no cycle, and it ends where the edges lead.\<close>

lemma finite_merge_edges: "finite (merge_edges t)"
  by (induction t) (auto split: option.splits)

lemma follow_merged:
  assumes "tab_get i_id t i = Some x" and "i_state x = I_MERGED" and "i_merged_into x = Some j"
  shows "follow_merges t (tab_get i_id t i) = follow_merges t (tab_get i_id t j)"
  using assms by (subst follow_merges.simps) simp

lemma follow_merges_returns:
  assumes "identities_ok t"
  shows "\<exists>y. follow_merges t (tab_get i_id t i) = Some y \<and>
    (case y of None \<Rightarrow> True | Some z \<Rightarrow> z \<in> set t \<and> i_state z \<noteq> I_MERGED \<and> (i, i_id z) \<in> (merge_edges t)\<^sup>*)"
proof (induction i rule: wf_induct [of "(merge_edges t)\<inverse>"])
  case 1
  show ?case using assms finite_merge_edges
    by (auto simp: identities_ok_def intro: finite_acyclic_wf_converse)
next
  case (2 i)
  show ?case
  proof (cases "tab_get i_id t i")
    case None
    then show ?thesis by (simp add: follow_merges.simps)
  next
    case (Some x)
    then have x: "x \<in> set t" "i_id x = i" by (auto dest: tab_get_SomeD)
    show ?thesis
    proof (cases "i_state x = I_MERGED")
      case False
      with Some x show ?thesis by (auto simp: follow_merges.simps)
    next
      case True
      with assms x(1) obtain j where j: "i_merged_into x = Some j"
        by (auto simp: identities_ok_def identity_row_ok_def)
      with x have edge: "(i, j) \<in> merge_edges t" by (auto simp: merge_edges_def)
      with 2 obtain y where "follow_merges t (tab_get i_id t j) = Some y"
        "case y of None \<Rightarrow> True | Some z \<Rightarrow> z \<in> set t \<and> i_state z \<noteq> I_MERGED \<and> (j, i_id z) \<in> (merge_edges t)\<^sup>*"
        by auto
      with edge follow_merged [OF Some True j] show ?thesis
        by (auto split: option.splits intro: converse_rtrancl_into_rtrancl)
    qed
  qed
qed

lemma follow_merges_reaches:
  assumes ok: "identities_ok t" and x: "x \<in> set t" "i_state x \<noteq> I_MERGED" and "(i, i_id x) \<in> (merge_edges t)\<^sup>*"
  shows "follow_merges t (tab_get i_id t i) = Some (Some x)"
  using assms(4)
proof (induction rule: converse_rtrancl_induct)
  case base
  have "tab_get i_id t (i_id x) = Some x" using ok x(1) by (auto simp: identities_ok_def intro: tab_get_in)
  with x(2) show ?case by (simp add: follow_merges.simps)
next
  case (step i j)
  then obtain y where y: "y \<in> set t" "i_id y = i" "i_merged_into y = Some j"
    by (auto simp: merge_edges_def)
  then have "tab_get i_id t i = Some y" "i_state y = I_MERGED"
    using ok by (auto simp: identities_ok_def intro: tab_get_in)
  from follow_merged [OF this y(3)] step.IH show ?case by (rule trans)
qed

definition resolves_to :: "identity list \<Rightarrow> uuid \<Rightarrow> identity \<Rightarrow> bool" where
  "resolves_to t c x \<longleftrightarrow> x \<in> set t \<and> i_state x = I_ACTIVE \<and> (c, i_id x) \<in> (merge_edges t)\<^sup>*"

lemma follow_merges_cases:
  assumes "identities_ok t"
  obtains (gone) y where "follow_merges t (tab_get i_id t c) = Some y" "\<And>x. \<not> resolves_to t c x"
      "case y of None \<Rightarrow> True | Some z \<Rightarrow> i_state z \<noteq> I_ACTIVE"
    | (live) x where "follow_merges t (tab_get i_id t c) = Some (Some x)" "resolves_to t c x"
        "\<And>x'. resolves_to t c x' \<Longrightarrow> x' = x"
proof -
  obtain y where y: "follow_merges t (tab_get i_id t c) = Some y"
    "case y of None \<Rightarrow> True | Some z \<Rightarrow> z \<in> set t \<and> i_state z \<noteq> I_MERGED \<and> (c, i_id z) \<in> (merge_edges t)\<^sup>*"
    using follow_merges_returns [OF assms] by blast
  have reach: "y = Some x" if "resolves_to t c x" for x
    using follow_merges_reaches [OF assms, of x c] that y(1) by (auto simp: resolves_to_def)
  show ?thesis
  proof (cases "\<exists>x. resolves_to t c x")
    case True
    then obtain x where x: "resolves_to t c x" ..
    then have "y = Some x" by (rule reach)
    show ?thesis
    proof (rule live)
      show "follow_merges t (tab_get i_id t c) = Some (Some x)" using y(1) \<open>y = Some x\<close> by simp
      show "x' = x" if "resolves_to t c x'" for x' using reach [OF that] \<open>y = Some x\<close> by simp
    qed (rule x)
  next
    case False
    show ?thesis
    proof (rule gone)
      show "follow_merges t (tab_get i_id t c) = Some y" by (rule y(1))
      show "\<not> resolves_to t c x" for x using False by blast
      show "case y of None \<Rightarrow> True | Some z \<Rightarrow> i_state z \<noteq> I_ACTIVE"
      proof (cases y)
        case (Some z)
        with y(2) False have "i_state z \<noteq> I_ACTIVE" by (auto simp: resolves_to_def)
        with Some show ?thesis by simp
      qed simp
    qed
  qed
qed

lemma resolve_each_spec:
  assumes ok: "identities_ok t"
  shows "\<exists>xs. resolve_each t cs seen = Some xs \<and> distinct (map i_id xs) \<and> i_id ` set xs \<inter> seen = {} \<and>
    (\<forall>x. x \<in> set xs \<longleftrightarrow> i_id x \<notin> seen \<and> (\<exists>c\<in>set cs. resolves_to t c x))"
proof (induction cs arbitrary: seen)
  case (Cons c cs)
  from ok show ?case
  proof (cases rule: follow_merges_cases [where c = c])
    case (gone y)
    then have "resolve_each t (c # cs) seen = resolve_each t cs seen" by (auto split: option.splits)
    moreover have "(\<exists>c\<in>set (c # cs). resolves_to t c x) \<longleftrightarrow> (\<exists>c\<in>set cs. resolves_to t c x)" for x
      using gone(2) [of x] by simp
    ultimately show ?thesis using Cons.IH [of seen] by (simp only:)
  next
    case (live x)
    from live(2) have act: "i_state x = I_ACTIVE" "x \<in> set t" by (simp_all add: resolves_to_def)
    have same: "x' = x" if "resolves_to t c' x'" "i_id x' = i_id x" for c' x'
      using that(2) tab_keyed_inj [of i_id t x' x] act that(1) ok by (simp add: resolves_to_def identities_ok_def)
    show ?thesis
    proof (cases "i_id x \<in> seen")
      case True
      have "i_id x' \<notin> seen \<and> (\<exists>c\<in>set (c # cs). resolves_to t c x') \<longleftrightarrow> i_id x' \<notin> seen \<and> (\<exists>c\<in>set cs. resolves_to t c x')" for x'
        using live(3) [of x'] True by auto
      moreover have "resolve_each t (c # cs) seen = resolve_each t cs seen" using live(1) True by simp
      ultimately show ?thesis using Cons.IH [of seen] by (simp only:)
    next
      case False
      obtain xs where xs: "resolve_each t cs (insert (i_id x) seen) = Some xs" "distinct (map i_id xs)"
        "i_id ` set xs \<inter> insert (i_id x) seen = {}"
        "\<And>x'. x' \<in> set xs \<longleftrightarrow> i_id x' \<notin> insert (i_id x) seen \<and> (\<exists>c\<in>set cs. resolves_to t c x')"
        using Cons.IH [of "insert (i_id x) seen"] by blast
      have "x' \<in> set (x # xs) \<longleftrightarrow> i_id x' \<notin> seen \<and> (\<exists>c\<in>set (c # cs). resolves_to t c x')" for x'
      proof (cases "x' = x")
        case True
        with live(2) False show ?thesis by simp
      next
        case other: False
        then have "\<not> resolves_to t c x'" using live(3) by blast
        then have "(\<exists>c\<in>set (c # cs). resolves_to t c x') \<longleftrightarrow> (\<exists>c\<in>set cs. resolves_to t c x')" by simp
        moreover have "i_id x' \<noteq> i_id x" if "\<exists>c\<in>set cs. resolves_to t c x'" using that same other by blast
        ultimately show ?thesis using xs(4) [of x'] other by auto
      qed
      moreover have "resolve_each t (c # cs) seen = Some (x # xs)" using live(1) act False xs(1) by simp
      moreover have "distinct (map i_id (x # xs))" "i_id ` set (x # xs) \<inter> seen = {}"
        using xs(2,3) False by auto
      ultimately show ?thesis by blast
    qed
  qed
qed simp

text \<open>
  C29. Resolving candidate identities for a face query always returns, however long the chains of
  merges: it answers, each once, exactly the ACTIVE identities that some candidate is or was merged
  into (directly or through others), and no other.
\<close>

theorem candidates_resolve_to_live_identities:
  assumes "identities_ok (identities d)"
  shows "\<exists>xs. resolve_recognition_candidates cs d = Some xs \<and> distinct (map i_id xs) \<and>
    (\<forall>x. x \<in> set xs \<longleftrightarrow> x \<in> set (identities d) \<and> i_state x = I_ACTIVE \<and>
       (\<exists>c\<in>set cs. (c, i_id x) \<in> (merge_edges (identities d))\<^sup>*))"
  using resolve_each_spec [OF assms, of cs "{}"]
  by (auto simp: resolve_recognition_candidates_def resolves_to_def)

lemma candidates_resolve_to_live_identities_witness:
  "\<exists>d xs. identities_ok (identities d) \<and> resolve_recognition_candidates [1, 2, 1] d = Some xs \<and> map i_id xs = [2]"
proof -
  let ?x = "(new_identity 1 I_MERGED None None 0 None 0)\<lparr>i_merged_into := Some 2\<rparr>"
  let ?y = "new_identity 2 I_ACTIVE None None 0 None 0"
  let ?d = "empty_db\<lparr>identities := [?x, ?y]\<rparr>"
  have edges: "merge_edges (identities ?d) = {(1, 2)}" by simp
  have "acyclic ({} :: (nat \<times> nat) set)" by (simp add: acyclic_def)
  then have "acyclic {(1::nat, 2)}" by (simp add: acyclic_insert)
  then have ok: "identities_ok (identities ?d)"
    unfolding identities_ok_def edges
    by (auto simp: tab_keyed_def identity_row_ok_def new_identity_def)
  obtain xs where xs: "resolve_recognition_candidates [1, 2, 1] ?d = Some xs" "distinct (map i_id xs)"
    "\<And>x. x \<in> set xs \<longleftrightarrow> x \<in> set (identities ?d) \<and> i_state x = I_ACTIVE \<and>
       (\<exists>c\<in>set [1, 2, 1]. (c, i_id x) \<in> (merge_edges (identities ?d))\<^sup>*)"
    using candidates_resolve_to_live_identities [OF ok, of "[1, 2, 1]"] by blast
  have "x \<in> set xs \<longleftrightarrow> x = ?y" for x unfolding xs(3) by auto
  then have "set xs = {?y}" by blast
  moreover have "length xs = 1"
    using xs(2) calculation distinct_card [of xs] by (simp add: distinct_map)
  ultimately have "xs = [?y]" by (cases xs) auto
  with ok xs(1) show ?thesis by (intro exI [of _ ?d] exI [of _ xs]) simp
qed

section \<open>Assign\<close>

lemma reps_ok_rekey:
  assumes "reps_ok (u @ r # v)" and "rep_row_ok r'"
    and "r_id r' = r_id r" "r_obs r' = r_obs r" "r_space r' = r_space r" "r_key r' = Some k"
    and "\<And>x. x \<in> set u \<union> set v \<Longrightarrow> r_space x = r_space r \<Longrightarrow> r_key x \<noteq> Some k"
  shows "reps_ok (u @ r' # v)"
proof -
  let ?P = "\<lambda>r. r_key r \<noteq> None" and ?K = "\<lambda>r. (r_space r, r_key r)"
  have "distinct (map ?K (filter ?P (u @ v)))"
    using assms(1) by (cases "r_key r") (auto simp: reps_ok_def unique_where_def)
  moreover have "?K r' \<notin> ?K ` set (filter ?P (u @ v))"
    using assms(5-7) by auto
  ultimately have "unique_where ?P ?K (u @ r' # v)"
    using assms(6) by (auto simp: unique_where_def)
  moreover have "tab_keyed r_id (u @ r' # v)" "distinct (map (\<lambda>r. (r_obs r, r_space r)) (u @ r' # v))"
    using assms(1,3-5) by (auto simp: reps_ok_def tab_keyed_def)
  ultimately show ?thesis using assms(1,2) by (simp add: reps_ok_def)
qed

lemma queue_add_ok:
  assumes "memory_ok d" and "queue_add r i now d = Inr d'"
  shows "memory_ok d'" and "ADD \<in> desired (index_ops d') (r_id r)"
    and "\<exists>t. d' = d\<lparr>index_ops := t\<rparr>"
proof -
  let ?x = "fresh_op \<lparr>w_rep = r_id r, w_space = r_space r, w_kind = ADD\<rparr> now i"
  have d': "d' = d\<lparr>index_ops := index_ops d @ [?x]\<rparr>"
    and new: "tab_get x_id (index_ops d) i = None" "\<not> list_ex (pending_op (r_id r) ADD) (index_ops d)"
    using assms(2) by (auto simp: queue_add_def split: if_splits)
  have "queue_inv (index_ops d @ [?x])"
    using assms(1) new by (intro queue_inv_append)
      (auto simp: memory_ok_def fresh_op_def index_op_row_ok_def tab_get_None_iff)
  with assms(1) show "memory_ok d'" by (simp add: memory_ok_def d')
  show "ADD \<in> desired (index_ops d') (r_id r)" by (simp add: d' desired_def pending_op_def fresh_op_def)
  show "\<exists>t. d' = d\<lparr>index_ops := t\<rparr>" unfolding d' by blast
qed

definition activated :: "uuid \<Rightarrow> int \<Rightarrow> time \<Rightarrow> rep \<Rightarrow> rep" where
  "activated ident k now r =
     r\<lparr>r_state := R_ACTIVE, r_identity := Some ident, r_key := Some k, r_activated := Some now\<rparr>"

definition activated_as :: "uuid option \<Rightarrow> int \<Rightarrow> time \<Rightarrow> rep \<Rightarrow> rep" where
  "activated_as oi k now r = r\<lparr>r_state := R_ACTIVE, r_identity := oi, r_key := Some k, r_activated := Some now\<rparr>"

lemma activate_rep_as_ok:
  assumes ok: "memory_ok d" and r: "tab_get r_id (reps d) i = Some r" "r_state r = R_PENDING"
    and act: "\<And>ident. oi = Some ident \<Longrightarrow> active_id (identities d) ident" and k: "allocate_ann_key (r_space r) (ann_sequences d) = (k, qs)"
  shows "memory_ok (d\<lparr>ann_sequences := qs, reps := tab_update (\<lambda>s. r_id s = i) (activated_as oi k now) (reps d)\<rparr>)"
proof -
  have parts: "reps_ok (reps d)" "keys_below (reps d) (ann_sequences d)" using ok by (simp_all add: memory_ok_def)
  have keyed: "tab_keyed r_id (reps d)" using parts(1) by (simp add: reps_ok_def)
  have rid: "r_id r = i" using tab_get_SomeD [OF r(1)] by simp
  have "\<exists>u v. reps d = u @ r # v \<and> tab_update (\<lambda>s. r_id s = i) (activated_as oi k now) (reps d) = u @ activated_as oi k now r # v"
    by (rule tab_update_one [OF keyed r(1), of "\<lambda>s. r_id s = i" "activated_as oi k now"]) (rule rid, assumption, intro exI conjI)
  then obtain u v where uv: "reps d = u @ r # v"
    "tab_update (\<lambda>s. r_id s = i) (activated_as oi k now) (reps d) = u @ activated_as oi k now r # v" by (elim exE conjE)
  have qs: "qs = snd (allocate_ann_key (r_space r) (ann_sequences d))" "k = next_key (ann_sequences d) (r_space r)"
    using k allocate_ann_key_result(1) [of "r_space r" "ann_sequences d"] by simp_all
  have pos: "0 < k" using parts(2) by (simp add: qs keys_below_def)
  have "rep_row_ok r" using parts(1) by (simp add: reps_ok_def uv(1))
  then have row: "rep_row_ok (activated_as oi k now r)"
    using r(2) pos by (auto simp: rep_row_ok_def activated_as_def)
  have other: "r_key x \<noteq> Some k" if "x \<in> set u \<union> set v" "r_space x = r_space r" for x
    using allocated_key_new(1) [OF parts(2), of x "r_space r"] that k uv(1) by auto
  have "reps_ok (u @ activated_as oi k now r # v)"
  proof (rule reps_ok_rekey)
    show "reps_ok (u @ r # v)" using parts(1) by (simp add: uv(1))
    show "r_key x \<noteq> Some k" if "x \<in> set u \<union> set v" "r_space x = r_space r" for x using that by (rule other)
  qed (use row in \<open>simp_all add: activated_as_def\<close>)
  moreover have "keys_below (u @ activated_as oi k now r # v) qs"
  proof -
    have "keys_below (u @ r # v) qs" using keys_below_allocate [OF parts(2)] by (simp add: qs uv(1))
    moreover have "k < next_key qs (r_space r)" by (simp add: qs allocate_ann_key_result)
    ultimately show ?thesis by (auto simp: keys_below_def activated_as_def)
  qed
  moreover have "owned_ok (identities d) (u @ activated_as oi k now r # v) (occurrences d) (associations d)"
    using ok act by (auto simp: memory_ok_def owned_ok_def uv(1) activated_as_def)
  ultimately show ?thesis using ok by (simp add: memory_ok_def uv(2))
qed

lemma activate_rep_ok:
  assumes "memory_ok d" and "tab_get r_id (reps d) i = Some r" "r_state r = R_PENDING"
    and "active_id (identities d) ident" and "allocate_ann_key (r_space r) (ann_sequences d) = (k, qs)"
  shows "memory_ok (d\<lparr>ann_sequences := qs, reps := tab_update (\<lambda>s. r_id s = i) (activated ident k now) (reps d)\<rparr>)"
  using activate_rep_as_ok [of d i r "Some ident" k qs now] assms by (simp add: activated_def [abs_def] activated_as_def [abs_def])

lemma assign_stages:
  assumes "assign_representation_to_identity i ident kind v source payload cands ids now d = Inr (r', d')"
  obtains r x k qs d2 d3 e where "tab_get r_id (reps d) i = Some r" "r_state r = R_PENDING"
    "tab_get i_id (identities d) ident = Some x" "i_state x = I_ACTIVE"
    "kind = IDENTITY_CREATED \<longrightarrow> \<not> has_creation_evidence ident d" "kind \<in> {IDENTITY_CREATED, IDENTITY_MATCHED}"
    "allocate_ann_key (r_space r) (ann_sequences d) = (k, qs)" "r' = activated ident k now r"
    "touch_identity ident now None (d\<lparr>ann_sequences := qs,
       reps := tab_update (\<lambda>s. r_id s = i) (activated ident k now) (reps d)\<rparr>) = Inr d2"
    "evidence_append e [(i, ROLE_SUBJECT)] cands d2 = Inr d3" "e_identity e = Some ident" "e_kind e = kind"
    "queue_add r' (ids 1) now d3 = Inr d'"
  using assms
  by (auto simp: assign_representation_to_identity_def bindE_Inr_iff Let_def activated_def [abs_def] new_evidence_def
      split: if_splits option.splits prod.splits)

text \<open>
  C30. Assigning a representation makes it retrievable, once and for good: the representation was
  PENDING and is ACTIVE under the identity, with a key no representation of its space ever held,
  which resolves to it and its identity; the index is owed its \<open>ADD\<close>; the evidence of the decision is
  recorded, the founding evidence of an identity at most once; every other representation is
  unchanged; and the invariant holds.
\<close>

theorem assigned_face_is_retrievable:
  assumes "memory_ok d" and "assign_representation_to_identity i ident kind v source payload cands ids now d = Inr (r', d')"
  shows "memory_ok d' \<and> r_id r' = i \<and> r_state r' = R_ACTIVE \<and> r_identity r' = Some ident \<and>
    (\<exists>k. r_key r' = Some k \<and> (\<forall>r\<in>set (reps d). r_space r = r_space r' \<longrightarrow> r_key r \<noteq> Some k) \<and>
       resolve_ann_candidates (r_space r') [k] d' = [\<lparr>ac_key = k, ac_rep = i, ac_identity = Some ident\<rparr>]) \<and>
    ADD \<in> desired (index_ops d') i \<and>
    has_creation_evidence ident d' = (has_creation_evidence ident d \<or> kind = IDENTITY_CREATED) \<and>
    (kind = IDENTITY_CREATED \<longrightarrow> \<not> has_creation_evidence ident d) \<and>
    (\<forall>j. j \<noteq> i \<longrightarrow> tab_get r_id (reps d') j = tab_get r_id (reps d) j)"
proof -
  obtain r x k qs d2 d3 e where st: "tab_get r_id (reps d) i = Some r" "r_state r = R_PENDING"
    "tab_get i_id (identities d) ident = Some x" "i_state x = I_ACTIVE"
    "kind = IDENTITY_CREATED \<longrightarrow> \<not> has_creation_evidence ident d" "kind \<in> {IDENTITY_CREATED, IDENTITY_MATCHED}"
    "allocate_ann_key (r_space r) (ann_sequences d) = (k, qs)" "r' = activated ident k now r"
    "touch_identity ident now None (d\<lparr>ann_sequences := qs,
       reps := tab_update (\<lambda>s. r_id s = i) (activated ident k now) (reps d)\<rparr>) = Inr d2"
    "evidence_append e [(i, ROLE_SUBJECT)] cands d2 = Inr d3" "e_identity e = Some ident" "e_kind e = kind"
    "queue_add r' (ids 1) now d3 = Inr d'"
    using assms(2) by (rule assign_stages)
  let ?d1 = "d\<lparr>ann_sequences := qs, reps := tab_update (\<lambda>s. r_id s = i) (activated ident k now) (reps d)\<rparr>"
  have rid: "r_id r = i" "r \<in> set (reps d)" using tab_get_SomeD [OF st(1)] by auto
  have act: "active_id (identities d) ident" using st(3,4) by (simp add: active_id_def)
  have ok2: "memory_ok d2"
    using activate_rep_ok [OF assms(1) st(1,2) act st(7)] st(9) by (rule touch_identity_ok)
  obtain es rs ks where d3: "d3 = d2\<lparr>evidences := es, ev_reps := rs, ev_candidates := ks\<rparr>" "es = evidences d2 @ [e]"
    using st(10) by (rule evidence_append_Inr) simp
  have "memory_ok d3" using ok2 by (simp add: d3)
  note q = queue_add_ok [OF this st(13)]
  have ok': "memory_ok d'" and owed: "ADD \<in> desired (index_ops d') (r_id r')" using q by simp_all
  obtain p f where f: "same_standing f" "d2 = ?d1\<lparr>identities := tab_update p f (identities ?d1)\<rparr>"
    using touch_identity_standing [OF st(9)] by blast
  obtain t where d': "d' = d3\<lparr>index_ops := t\<rparr>" using q(3) by blast
  have reps': "reps d' = tab_update (\<lambda>s. r_id s = i) (activated ident k now) (reps d)"
    and ev': "evidences d' = evidences d @ [e]"
    by (simp_all add: d' d3 f(2))
  have get': "tab_get r_id (reps d') j = (if j = i then Some r' else tab_get r_id (reps d) j)" for j
  proof -
    have "tab_get r_id (reps d') j = map_option (\<lambda>s. if r_id s = i then activated ident k now s else s) (tab_get r_id (reps d) j)"
      unfolding reps' by (rule tab_get_update) (simp add: activated_def)
    then show ?thesis using st(1,8) by (cases "tab_get r_id (reps d) j") (auto dest: tab_get_SomeD)
  qed
  have r': "r_id r' = i" "r_state r' = R_ACTIVE" "r_identity r' = Some ident" "r_key r' = Some k" "r_space r' = r_space r"
    using rid st(8) by (simp_all add: activated_def)
  have in': "r' \<in> set (reps d')" using get' [of i] by (auto dest: tab_get_SomeD)
  have ok_reps: "reps_ok (reps d')" using ok' by (simp add: memory_ok_def)
  have at: "rep_at (r_space r') k (reps d') = Some r'" using in' r' by (simp add: rep_at_iff [OF ok_reps])
  have "eligible d' r'" using eligible_iff [OF ok' in'] r'(2) by simp
  with at have res: "resolve_ann_candidates (r_space r') [k] d' = [\<lparr>ac_key = k, ac_rep = i, ac_identity = Some ident\<rparr>]"
    unfolding only_live_candidates [OF ok_reps] using r' by simp
  have fresh: "\<forall>s\<in>set (reps d). r_space s = r_space r' \<longrightarrow> r_key s \<noteq> Some k"
    using allocated_key_new(1) [of "reps d" "ann_sequences d" _ "r_space r"] assms(1) st(7) r'(5)
    by (simp add: memory_ok_def)
  have "has_creation_evidence ident d' = (has_creation_evidence ident d \<or> kind = IDENTITY_CREATED)"
    using st(11,12) by (auto simp: has_creation_evidence_def ev')
  with ok' r' owed res fresh get' st(5) show ?thesis by auto
qed

lemma assigned_face_is_retrievable_witness:
  "\<exists>r' d'. assign_representation_to_identity 22 2 IDENTITY_CREATED 1 None None [] sample_ids 7 sample_db = Inr (r', d') \<and>
     r_key r' = Some 2 \<and> resolve_ann_candidates 5 [2] d' = [\<lparr>ac_key = 2, ac_rep = 22, ac_identity = Some 2\<rparr>]"
proof -
  have "\<not> isl (assign_representation_to_identity 22 2 IDENTITY_CREATED 1 None None [] sample_ids 7 sample_db)"
    by code_simp
  then obtain r' d' where run: "assign_representation_to_identity 22 2 IDENTITY_CREATED 1 None None [] sample_ids 7 sample_db = Inr (r', d')"
    by (cases "assign_representation_to_identity 22 2 IDENTITY_CREATED 1 None None [] sample_ids 7 sample_db") auto
  have "(case assign_representation_to_identity 22 2 IDENTITY_CREATED 1 None None [] sample_ids 7 sample_db of
      Inl _ \<Rightarrow> False | Inr (r, _) \<Rightarrow> r_key r = Some 2 \<and> r_space r = 5)" by code_simp
  then have "r_key r' = Some 2" "r_space r' = 5" by (simp_all add: run)
  with assigned_face_is_retrievable [OF sample_db_ok run] run show ?thesis by auto
qed

section \<open>Split\<close>

text \<open>Writes of one identity's cosmetic columns: its face, its times, its revision.\<close>

definition cosmetic :: "db \<Rightarrow> db \<Rightarrow> bool" where
  "cosmetic d d' \<longleftrightarrow> (\<exists>p f. same_standing f \<and> d' = d\<lparr>identities := tab_update p f (identities d)\<rparr>)"

lemma cosmetic_touch: "touch_identity i now e d = Inr d' \<Longrightarrow> cosmetic d d'"
  unfolding cosmetic_def using touch_identity_standing by blast

lemma cosmetic_face: "cosmetic d (set_face i f d)"
  unfolding cosmetic_def set_face_def
  by (rule exI [of _ "\<lambda>x. i_id x = i"], rule exI [of _ "\<lambda>x. x\<lparr>i_face := f\<rparr>"]) (simp add: same_standing_def)

lemma cosmetic_refl: "cosmetic d d"
  unfolding cosmetic_def
  by (rule exI [of _ "\<lambda>_. False"], rule exI [of _ "\<lambda>x. x"]) (simp add: same_standing_def tab_update_none)

lemma cosmetic_refresh: "cosmetic d (refresh_representative i m now d)"
proof (cases "tab_get i_id (identities d) i")
  case (Some x)
  have "cosmetic d (d\<lparr>identities := tab_update (\<lambda>y. i_id y = i)
      (\<lambda>y. y\<lparr>i_face := face_of_identity i d, i_updated := now\<rparr>) (identities d)\<rparr>)"
    unfolding cosmetic_def
    by (rule exI [of _ "\<lambda>y. i_id y = i"], rule exI [of _ "\<lambda>y. y\<lparr>i_face := face_of_identity i d, i_updated := now\<rparr>"])
      (simp add: same_standing_def)
  with Some cosmetic_refl show ?thesis by (simp add: refresh_representative_def)
qed (simp add: refresh_representative_def cosmetic_refl)

lemma cosmetic_frame:
  assumes "cosmetic d d'"
  shows "same_memory d d'" and "associations d' = associations d" and "active_id (identities d') = active_id (identities d)"
    and "memory_ok d \<Longrightarrow> memory_ok d'"
  using assms by (auto simp: cosmetic_def same_memory_def active_id_update intro: memory_ok_standing)

lemma split_record_frame:
  assumes "split_record s i rs os v ids now d = Inr d'"
  shows "same_memory d d' \<and> identities d' = identities d \<and> associations d' = associations d \<and> (memory_ok d \<longrightarrow> memory_ok d')"
  using record_Inr [OF assms [unfolded split_record_def Let_def]] by (simp add: same_memory_def memory_ok_def)

lemma split_stages:
  assumes "split_identity src sel e v ids now d = Inr (i, d')"
  obtains s d1 t d2 where "tab_get i_id (identities d) src = Some s" "i_state s = I_ACTIVE" "sel \<noteq> []"
    "list_all (splittable src d) sel" "split_conflicts sel (occurrence_support src d) = []" "i = ids 0"
    "touch_identity src now e d = Inr d1"
    "identity_add (new_identity (ids 0) I_ACTIVE None None now (Some now) now) (identities d1) = Inr t"
    "split_record src (ids 0) sel (map oc_id (split_moving sel (occurrence_support src d))) v (\<lambda>k. ids (Suc k)) now
       (d1\<lparr>identities := t\<rparr>) = Inr d2"
    "d' = refresh_representative src
       (concat (map (\<lambda>oc. occurrence_observations oc d) (split_moving sel (occurrence_support src d)))) now
       (set_face (ids 0) (first_face (split_moving sel (occurrence_support src d)))
         (move_occurrences (\<lambda>oc. oc_id oc \<in> oc_id ` set (split_moving sel (occurrence_support src d))) (ids 0)
           (move_reps (\<lambda>r. r_id r \<in> set sel) (ids 0) d2)))"
  using assms
  by (auto simp: split_identity_def bindE_Inr_iff Let_def split: if_splits option.splits)

text \<open>
  A split never cuts a face in two. When it returns: the selected representations, all of them
  ACTIVE ones of the source, belong to a new ACTIVE identity whose id no identity had, and no other
  representation moved; of every occurrence of the source either all of the representations it rests
  on were selected (at least one) and it moved with them, or none was and it stayed; the source is
  still ACTIVE; keys, states, vectors and the index queue are untouched; and the invariant holds.
\<close>

theorem split_never_cuts_a_face:
  assumes "memory_ok d" and "split_identity src sel e v ids now d = Inr (i, d')"
  shows "memory_ok d' \<and> tab_get i_id (identities d) i = None \<and> active_id (identities d') i \<and> active_id (identities d') src \<and>
    (\<forall>j\<in>set sel. \<exists>r\<in>set (reps d). r_id r = j \<and> r_identity r = Some src \<and> r_state r = R_ACTIVE) \<and>
    reps d' = tab_update (\<lambda>r. r_id r \<in> set sel) (\<lambda>r. r\<lparr>r_identity := Some i\<rparr>) (reps d) \<and>
    index_ops d' = index_ops d \<and>
    (\<forall>(oc, rs)\<in>set (occurrence_support src d).
       (rs \<noteq> [] \<and> set rs \<subseteq> set sel \<and> oc\<lparr>oc_identity := i\<rparr> \<in> set (occurrences d')) \<or>
       (set rs \<inter> set sel = {} \<and> oc \<in> set (occurrences d')))"
proof -
  obtain s d1 t d2 where st: "tab_get i_id (identities d) src = Some s" "i_state s = I_ACTIVE" "sel \<noteq> []"
    "list_all (splittable src d) sel" "split_conflicts sel (occurrence_support src d) = []" "i = ids 0"
    "touch_identity src now e d = Inr d1"
    "identity_add (new_identity (ids 0) I_ACTIVE None None now (Some now) now) (identities d1) = Inr t"
    "split_record src (ids 0) sel (map oc_id (split_moving sel (occurrence_support src d))) v (\<lambda>k. ids (Suc k)) now
       (d1\<lparr>identities := t\<rparr>) = Inr d2"
    "d' = refresh_representative src
       (concat (map (\<lambda>oc. occurrence_observations oc d) (split_moving sel (occurrence_support src d)))) now
       (set_face (ids 0) (first_face (split_moving sel (occurrence_support src d)))
         (move_occurrences (\<lambda>oc. oc_id oc \<in> oc_id ` set (split_moving sel (occurrence_support src d))) (ids 0)
           (move_reps (\<lambda>r. r_id r \<in> set sel) (ids 0) d2)))"
    using assms(2) by (rule split_stages)
  let ?mv = "split_moving sel (occurrence_support src d)"
  let ?d3 = "move_occurrences (\<lambda>oc. oc_id oc \<in> oc_id ` set ?mv) i (move_reps (\<lambda>r. r_id r \<in> set sel) i d2)"
  have c1: "cosmetic d d1" using st(7) by (rule cosmetic_touch)
  note f1 = cosmetic_frame [OF c1]
  have act0: "active_id (identities d1) src" using st(1,2) f1(3) by (simp add: active_id_def)
  note add = identity_add_ok [OF f1(4) [OF assms(1)] st(8)]
  have new: "tab_get i_id (identities d1) i = None" using add(3) st(6) by simp
  have none: "tab_get i_id (identities d) i = None"
  proof -
    obtain p f where "same_standing f" "identities d1 = tab_update p f (identities d)"
      using c1 by (auto simp: cosmetic_def)
    with new show ?thesis by (simp add: tab_get_update same_standing_def)
  qed
  have f2: "same_memory (d1\<lparr>identities := t\<rparr>) d2" "identities d2 = t" "associations d2 = associations d1" "memory_ok d2"
    using split_record_frame [OF st(9)] add(1) by auto
  have t: "t = identities d1 @ [new_identity i I_ACTIVE None None now (Some now) now]" using add(2) st(6) by simp
  have act: "active_id t i" "active_id t src"
    using new act0 by (auto simp: t active_id_def tab_get_append tab_get_Cons)
  have ok3: "memory_ok ?d3"
    using f2 act by (intro move_occurrences_ok move_reps_ok) simp_all
  have d': "d' = refresh_representative src (concat (map (\<lambda>oc. occurrence_observations oc d) ?mv)) now
      (set_face i (first_face ?mv) ?d3)" using st(10) st(6) by simp
  note f3 = cosmetic_frame [OF cosmetic_face [of ?d3 i "first_face ?mv"]]
  note f4 = cosmetic_frame [OF cosmetic_refresh [of "set_face i (first_face ?mv) ?d3" src
      "concat (map (\<lambda>oc. occurrence_observations oc d) ?mv)" now], folded d']
  have "memory_ok d'" using ok3 f3(4) f4(4) by blast
  moreover have "active_id (identities d') i" "active_id (identities d') src" using act f2(2) f3(3) f4(3) by simp_all
  moreover have "reps d' = tab_update (\<lambda>r. r_id r \<in> set sel) (\<lambda>r. r\<lparr>r_identity := Some i\<rparr>) (reps d)"
    and idx: "index_ops d' = index_ops d"
    and occ: "occurrences d' = tab_update (\<lambda>oc. oc_id oc \<in> oc_id ` set ?mv) (\<lambda>oc. oc\<lparr>oc_identity := i\<rparr>) (occurrences d)"
    using f1(1) f2(1) f3(1) f4(1) by (simp_all add: same_memory_def move_reps_def move_occurrences_def)
  moreover have "\<forall>j\<in>set sel. \<exists>r\<in>set (reps d). r_id r = j \<and> r_identity r = Some src \<and> r_state r = R_ACTIVE"
    using st(4) by (fastforce simp: list_all_iff splittable_def split: option.splits dest: tab_get_SomeD)
  moreover have "(rs \<noteq> [] \<and> set rs \<subseteq> set sel \<and> oc\<lparr>oc_identity := i\<rparr> \<in> set (occurrences d')) \<or>
       (set rs \<inter> set sel = {} \<and> oc \<in> set (occurrences d'))" if m: "(oc, rs) \<in> set (occurrence_support src d)" for oc rs
  proof -
    have ocin: "oc' \<in> set (occurrences d)" if "(oc', rs') \<in> set (occurrence_support src d)" for oc' rs'
      using that by (auto simp: occurrence_support_def owned_occurrences_def)
    have keyed: "tab_keyed oc_id (occurrences d)" using assms(1) by (simp add: memory_ok_def)
    have func: "rs' = rs" if "(oc, rs') \<in> set (occurrence_support src d)" for rs'
      using that m by (auto simp: occurrence_support_def)
    have sel_iff: "oc_id oc \<in> oc_id ` set ?mv \<longleftrightarrow> set rs \<inter> set sel \<noteq> {}"
    proof
      assume "oc_id oc \<in> oc_id ` set ?mv"
      then obtain oc' rs' where oc': "(oc', rs') \<in> set (occurrence_support src d)" "set rs' \<inter> set sel \<noteq> {}" "oc_id oc' = oc_id oc"
        unfolding split_moving_def by fastforce
      then have "oc' = oc" using tab_keyed_inj [OF keyed ocin ocin] m by blast
      with oc' func show "set rs \<inter> set sel \<noteq> {}" by blast
    qed (use m in \<open>force simp: split_moving_def\<close>)
    have "set rs \<inter> set sel \<noteq> {} \<Longrightarrow> set rs \<subseteq> set sel"
      using st(5) m by (auto simp: split_conflicts_def filter_empty_conv)
    then show ?thesis
      using sel_iff ocin [OF m] by (cases "set rs \<inter> set sel = {}") (auto simp: occ set_tab_update)
  qed
  ultimately show ?thesis using none by blast
qed

lemma split_never_cuts_a_face_witness:
  "\<exists>i d'. split_identity 1 [21] (Some 1) 1 sample_ids 7 sample_db = Inr (i, d') \<and> i = 100 \<and>
     map r_identity (reps d') = [Some 100, None] \<and> active_id (identities d') 1"
proof -
  have "\<not> isl (split_identity 1 [21] (Some 1) 1 sample_ids 7 sample_db)" by code_simp
  then obtain i d' where run: "split_identity 1 [21] (Some 1) 1 sample_ids 7 sample_db = Inr (i, d')"
    by (cases "split_identity 1 [21] (Some 1) 1 sample_ids 7 sample_db") auto
  have "(case split_identity 1 [21] (Some 1) 1 sample_ids 7 sample_db of Inl _ \<Rightarrow> False | Inr (i, _) \<Rightarrow> i = 100)" by code_simp
  then have i: "i = 100" unfolding run by simp
  have "map r_identity (tab_update (\<lambda>r. r_id r \<in> set [21]) (\<lambda>r. r\<lparr>r_identity := Some 100\<rparr>) (reps sample_db)) = [Some 100, None]"
    by code_simp
  then have "map r_identity (reps d') = [Some 100, None]" "active_id (identities d') 1"
    using split_never_cuts_a_face [OF sample_db_ok run] i by simp_all
  with run i show ?thesis by (intro exI conjI)
qed

end
