(* ===== verification/People.thy ===== *)
theory People
  imports IdentityLife
begin

text \<open>
  People and their links to identities (\<open>backend/app/people/use_cases.py\<close>): link, correct and end a
  link, name an unnamed identity, rename a person. The current link of an identity is its one ACTIVE
  association; history is kept as ended rows and evidence. \<open>str.casefold\<close> is an argument of the
  operations that use it; \<open>str.strip\<close> is defined on the 8-bit characters of \<open>string\<close>.
\<close>

section \<open>Operations\<close>

definition python_space :: "char \<Rightarrow> bool" where
  "python_space c \<longleftrightarrow> (let n = of_char c :: nat in (9 \<le> n \<and> n \<le> 13) \<or> (28 \<le> n \<and> n \<le> 32) \<or> n = 133 \<or> n = 160)"

definition strip :: "string \<Rightarrow> string" where
  "strip s = rev (dropWhile python_space (rev (dropWhile python_space s)))"

definition bump_person :: "person \<Rightarrow> person" where
  "bump_person h = h\<lparr>h_rev := h_rev h + 1\<rparr>"

interpretation person_rev: revisioned h_id h_rev bump_person
  by unfold_locales (simp_all add: bump_person_def)

definition person_update ::
  "uuid \<Rightarrow> int \<Rightarrow> (person \<Rightarrow> person) \<Rightarrow> (person \<Rightarrow> bool) \<Rightarrow> person list \<Rightarrow> nat \<times> person list" where
  "person_update = optimistic_locked_update h_id h_rev bump_person"

definition end_current :: "association option \<Rightarrow> association_state \<Rightarrow> time \<Rightarrow> db \<Rightarrow> db" where
  "end_current current st now d =
     (case current of None \<Rightarrow> d | Some a \<Rightarrow> end_association (a_id a) st now d)"

definition assign_identity_to_person ::
  "uuid \<Rightarrow> uuid \<Rightarrow> int \<Rightarrow> id_supply \<Rightarrow> time \<Rightarrow> db \<Rightarrow> (association \<times> db) outcome_of" where
  "assign_identity_to_person ident person_id version ids now d =
     (case tab_get i_id (identities d) ident of
        None \<Rightarrow> Inl IdentityManagerError
      | Some x \<Rightarrow>
          if i_state x \<noteq> I_ACTIVE then Inl IdentityManagerError
          else case tab_get h_id (people d) person_id of
            None \<Rightarrow> Inl IdentityManagerError
          | Some h \<Rightarrow>
              if h_state h \<noteq> H_ACTIVE then Inl IdentityManagerError
              else let current = active_association ident d in
                if map_option a_person current = Some person_id then Inl IdentityManagerError
                else
                  let d1 = end_current current AS_SUPERSEDED now d;
                      e = new_evidence (ids 0) IDENTITY_ASSIGNED_TO_PERSON None None (Some ident) (Some person_id)
                            version (JObj [(''previous_person_id'', json_uuid_opt (map_option a_person current))]) now;
                      a = new_association (ids 1) ident person_id (ids 0) now
                  in bindE (refused (evidence_append e [] [] d1)) (\<lambda>d2.
                     bindE (association_add a d2) (\<lambda>d3.
                     bindE (touch_identity ident now None d3) (\<lambda>d4. Inr (a, d4)))))"

definition remove_identity_from_person ::
  "uuid \<Rightarrow> int \<Rightarrow> id_supply \<Rightarrow> time \<Rightarrow> db \<Rightarrow> (association \<times> db) outcome_of" where
  "remove_identity_from_person ident version ids now d =
     (case active_association ident d of
        None \<Rightarrow> Inl IdentityManagerError
      | Some a \<Rightarrow>
          let e = new_evidence (ids 0) IDENTITY_REMOVED_FROM_PERSON None None (Some ident) (Some (a_person a))
                    version (JObj [(''association_id'', JUuid (a_id a))]) now
          in bindE (refused (evidence_append e [] [] d)) (\<lambda>d1.
             bindE (touch_identity ident now None (end_association (a_id a) AS_REMOVED now d1))
               (\<lambda>d2. Inr (a\<lparr>a_state := AS_REMOVED, a_ended := Some now, a_rev := a_rev a + 1\<rparr>, d2))))"

definition new_person :: "(string \<Rightarrow> string) \<Rightarrow> uuid \<Rightarrow> string \<Rightarrow> time \<Rightarrow> person" where
  "new_person casefold i name now =
     \<lparr>h_id = i, h_state = H_ACTIVE, h_name = name, h_normalized = Some (casefold name), h_rev = 1,
      h_created = now, h_updated = now, h_recycled = None\<rparr>"

definition name_identity ::
  "(string \<Rightarrow> string) \<Rightarrow> uuid \<Rightarrow> string \<Rightarrow> id_supply \<Rightarrow> time \<Rightarrow> time \<Rightarrow> db \<Rightarrow> (person \<times> association \<times> db) outcome_of" where
  "name_identity casefold ident display_name ids now0 now d =
     (let name = strip display_name in
      if name = '''' then Inl IdentityManagerError
      else case tab_get i_id (identities d) ident of
        None \<Rightarrow> Inl IdentityManagerError
      | Some x \<Rightarrow>
          if i_state x \<noteq> I_ACTIVE \<or> active_association ident d \<noteq> None then Inl IdentityManagerError
          else if tab_get h_id (people d) (ids 0) \<noteq> None then Inl DatabaseRefused
          else let h = new_person casefold (ids 0) name now0 in
            bindE (assign_identity_to_person ident (ids 0) 1 (\<lambda>n. ids (Suc n)) now (d\<lparr>people := people d @ [h]\<rparr>))
              (\<lambda>(a, d'). Inr (h, a, d')))"

definition rename_conflict :: "uuid \<Rightarrow> db \<Rightarrow> identity_error" where
  "rename_conflict person_id d =
     (case tab_get h_id (people d) person_id of None \<Rightarrow> IdentityManagerError | Some h \<Rightarrow> StaleRevisionError)"

definition rename_person ::
  "(string \<Rightarrow> string) \<Rightarrow> uuid \<Rightarrow> string \<Rightarrow> int \<Rightarrow> id_supply \<Rightarrow> time \<Rightarrow> db \<Rightarrow> (person \<times> db) outcome_of" where
  "rename_person casefold person_id display_name expected ids now d =
     (let name = strip display_name in
      if name = '''' then Inl IdentityManagerError
      else let (n, t) = person_update person_id expected
                (\<lambda>h. h\<lparr>h_name := name, h_normalized := Some (casefold name), h_updated := now\<rparr>) (\<lambda>_. True) (people d)
        in if n = 0 then Inl (rename_conflict person_id d)
           else let h = the (tab_get h_id t person_id);
                    e = new_evidence (ids 0) PERSON_RENAMED None None None (Some person_id) 1
                          (JObj [(''previous_revision'', JInt expected), (''revision'', JInt (h_rev h))]) (h_updated h)
             in bindE (refused (evidence_append e [] [] (d\<lparr>people := t\<rparr>))) (\<lambda>d'. Inr (h, d')))"

section \<open>Laws\<close>

lemma end_current_ok: "memory_ok d \<Longrightarrow> st \<noteq> AS_ACTIVE \<Longrightarrow> memory_ok (end_current c st now d)"
  by (cases c) (auto simp: end_current_def intro: end_association_ok)

lemma end_current_frame [simp]:
  "same_memory d (end_current c st now d)" "identities (end_current c st now d) = identities d"
  "people (end_current c st now d) = people d" "evidences (end_current c st now d) = evidences d"
  by (cases c; simp add: end_current_def end_association_def same_memory_def)+

lemma evidence_append_frame:
  assumes "evidence_append e ls cs d = Inr d'"
  shows "same_memory d d'" and "identities d' = identities d" and "associations d' = associations d"
    and "people d' = people d" and "evidences d' = evidences d @ [e]" and "memory_ok d \<Longrightarrow> memory_ok d'"
    and "lineages d' = lineages d" and "occ_obs d' = occ_obs d" and "artifacts d' = artifacts d"
  using assms by (auto simp: same_memory_def elim!: evidence_append_Inr)

lemma association_add_frame:
  assumes "association_add a d = Inr d'"
  shows "same_memory d d'" and "identities d' = identities d" and "people d' = people d" and "evidences d' = evidences d"
  using association_add_eq [OF assms] by (simp_all add: same_memory_def)

lemma assign_identity_to_person_stages:
  assumes "assign_identity_to_person ident p v ids now d = Inr (a, d')"
  obtains x h d2 d3 where "tab_get i_id (identities d) ident = Some x" "i_state x = I_ACTIVE"
    "tab_get h_id (people d) p = Some h" "h_state h = H_ACTIVE"
    "map_option a_person (active_association ident d) \<noteq> Some p" "a = new_association (ids 1) ident p (ids 0) now"
    "evidence_append (new_evidence (ids 0) IDENTITY_ASSIGNED_TO_PERSON None None (Some ident) (Some p) v
       (JObj [(''previous_person_id'', json_uuid_opt (map_option a_person (active_association ident d)))]) now) [] []
       (end_current (active_association ident d) AS_SUPERSEDED now d) = Inr d2"
    "association_add (new_association (ids 1) ident p (ids 0) now) d2 = Inr d3" "touch_identity ident now None d3 = Inr d'"
  using assms
  by (auto simp: assign_identity_to_person_def bindE_Inr_iff Let_def split: if_splits option.splits)

text \<open>The rows of a table after a write, each still at its place.\<close>

definition ended_row :: "association \<Rightarrow> association \<Rightarrow> bool" where
  "ended_row a b \<longleftrightarrow> b = a \<or> (a_state a = AS_ACTIVE \<and> a_state b \<noteq> AS_ACTIVE \<and> a_ended b \<noteq> None \<and>
     a_id b = a_id a \<and> a_identity b = a_identity a \<and> a_person b = a_person a \<and> a_evidence b = a_evidence a \<and>
     a_created b = a_created a)"

lemma end_association_rows:
  assumes "memory_ok d" and "active_association i d = Some a" and "st \<noteq> AS_ACTIVE" and "n < length (associations d)"
  shows "length (associations (end_association (a_id a) st now d)) = length (associations d)"
    and "ended_row (associations d ! n) (associations (end_association (a_id a) st now d) ! n)"
proof -
  have a: "a \<in> set (associations d)" "a_state a = AS_ACTIVE" using active_association_Some [OF assms(2)] by auto
  have keyed: "tab_keyed a_id (associations d)" using assms(1) by (simp add: memory_ok_def associations_ok_def)
  have "associations d ! n = a" if "a_id (associations d ! n) = a_id a"
    using that a(1) assms(4) tab_keyed_inj [OF keyed] by (meson nth_mem)
  with a assms(3,4) show "ended_row (associations d ! n) (associations (end_association (a_id a) st now d) ! n)"
    by (auto simp: end_association_def tab_update_def ended_row_def)
qed (simp add: end_association_def)

text \<open>
  Linking an identity to a person replaces its current link and rewrites nothing else: the
  identity was ACTIVE and so was the person, the identity's one ACTIVE association is now the new one,
  the link it had (to another person) is ended and kept, every other association is unchanged, one
  evidence row naming the previous person is added, the identity's revision rises, and nothing of
  what the identity owns moves.
\<close>

theorem linking_replaces_the_current_link:
  assumes "memory_ok d" and "assign_identity_to_person ident p v ids now d = Inr (a, d')"
  shows "memory_ok d' \<and> active_id (identities d) ident \<and> (\<exists>h. tab_get h_id (people d) p = Some h \<and> h_state h = H_ACTIVE) \<and>
    active_association ident d' = Some a \<and> a_person a = p \<and>
    (\<forall>j. j \<noteq> ident \<longrightarrow> active_association j d' = active_association j d) \<and>
    (\<exists>t. associations d' = t @ [a] \<and> length t = length (associations d) \<and>
       (\<forall>n<length t. ended_row (associations d ! n) (t ! n))) \<and>
    (\<exists>e. evidences d' = evidences d @ [e] \<and> e_identity e = Some ident \<and> e_person e = Some p \<and>
       e_payload e = JObj [(''previous_person_id'', json_uuid_opt (map_option a_person (active_association ident d)))]) \<and>
    same_memory d d' \<and> people d' = people d"
proof -
  obtain x h d2 d3 where st: "tab_get i_id (identities d) ident = Some x" "i_state x = I_ACTIVE"
    "tab_get h_id (people d) p = Some h" "h_state h = H_ACTIVE"
    "map_option a_person (active_association ident d) \<noteq> Some p" "a = new_association (ids 1) ident p (ids 0) now"
    "evidence_append (new_evidence (ids 0) IDENTITY_ASSIGNED_TO_PERSON None None (Some ident) (Some p) v
       (JObj [(''previous_person_id'', json_uuid_opt (map_option a_person (active_association ident d)))]) now) [] []
       (end_current (active_association ident d) AS_SUPERSEDED now d) = Inr d2"
    "association_add (new_association (ids 1) ident p (ids 0) now) d2 = Inr d3" "touch_identity ident now None d3 = Inr d'"
    using assms(2) by (rule assign_identity_to_person_stages)
  let ?d1 = "end_current (active_association ident d) AS_SUPERSEDED now d"
  have act: "active_id (identities d) ident" using st(1,2) by (simp add: active_id_def)
  have ok1: "memory_ok ?d1" using assms(1) by (simp add: end_current_ok)
  note f2 = evidence_append_frame [OF st(7)]
  note f3 = association_add_frame [OF st(8)]
  have act2: "active_id (identities d2) ident" using act f2(2) by simp
  have ok3: "memory_ok d3" by (rule association_add_ok [OF f2(6) [OF ok1] st(8) act2])
  note f4 = cosmetic_frame [OF cosmetic_touch [OF st(9)]]
  have tail: "people d' = people d3 \<and> evidences d' = evidences d3"
    using cosmetic_touch [OF st(9)] by (auto simp: cosmetic_def)
  have as1: "active_association j ?d1 = (if j = ident then None else active_association j d)" for j
  proof (cases "active_association ident d")
    case (Some b)
    then show ?thesis using active_association_end [of d ident b AS_SUPERSEDED j now] assms(1)
      by (simp add: end_current_def memory_ok_def)
  qed (simp add: end_current_def)
  have as2: "active_association j d2 = active_association j ?d1" for j using f2(3) by (simp add: active_association_def)
  have as: "active_association j d' = (if j = ident then Some a else active_association j d)" for j
  proof -
    have "active_association j d' = active_association j d3" using f4(2) by (simp add: active_association_def)
    also have "\<dots> = (if j = ident then Some a else active_association j d2)"
      using association_add_active [OF st(8), of j] st(6) by simp
    finally show ?thesis by (simp add: as2 as1)
  qed
  have rows: "associations d' = associations ?d1 @ [a]"
    using f4(2) association_add_eq [OF st(8)] f2(3) st(6) by simp
  have len: "length (associations ?d1) = length (associations d)"
    by (cases "active_association ident d") (simp_all add: end_current_def end_association_def)
  have row: "ended_row (associations d ! n) (associations ?d1 ! n)" if "n < length (associations d)" for n
  proof (cases "active_association ident d")
    case (Some b)
    then show ?thesis using end_association_rows(2) [OF assms(1) Some _ that] by (simp add: end_current_def)
  qed (simp add: end_current_def ended_row_def)
  have "same_memory d d'"
    using end_current_frame(1) f2(1) f3(1) f4(1) by (blast intro: same_memory_trans)
  moreover have "memory_ok d'" using f4(4) ok3 by blast
  moreover have "\<exists>t. associations d' = t @ [a] \<and> length t = length (associations d) \<and>
       (\<forall>n<length t. ended_row (associations d ! n) (t ! n))"
    using rows len row by (intro exI [of _ "associations ?d1"]) simp
  moreover have "\<exists>e. evidences d' = evidences d @ [e] \<and> e_identity e = Some ident \<and> e_person e = Some p \<and>
       e_payload e = JObj [(''previous_person_id'', json_uuid_opt (map_option a_person (active_association ident d)))]"
    using tail f3(4) f2(5) by (simp add: new_evidence_def)
  moreover have "people d' = people d" "a_person a = p" using tail f3(3) f2(4) st(6) by (simp_all add: new_association_def)
  ultimately show ?thesis using act st(3,4) as by simp
qed

lemma linking_replaces_the_current_link_witness:
  "\<exists>a d'. assign_identity_to_person 2 41 1 sample_ids 7 sample_db = Inr (a, d') \<and>
     active_association 2 d' = Some a \<and> a_person a = 41 \<and> active_association 1 d' = active_association 1 sample_db"
proof -
  have "\<not> isl (assign_identity_to_person 2 41 1 sample_ids 7 sample_db)" by code_simp
  then obtain a d' where run: "assign_identity_to_person 2 41 1 sample_ids 7 sample_db = Inr (a, d')"
    by (cases "assign_identity_to_person 2 41 1 sample_ids 7 sample_db") auto
  from linking_replaces_the_current_link [OF sample_db_ok run]
  have "active_association 2 d' = Some a" "a_person a = 41" "active_association 1 d' = active_association 1 sample_db"
    by simp_all
  with run show ?thesis by (intro exI conjI)
qed

lemma assign_identity_to_person_ok:
  "memory_ok d \<Longrightarrow> assign_identity_to_person ident p v ids now d = Inr (a, d') \<Longrightarrow> memory_ok d'"
proof -
  assume ok: "memory_ok d" and run: "assign_identity_to_person ident p v ids now d = Inr (a, d')"
  obtain x h d2 d3 where st: "tab_get i_id (identities d) ident = Some x" "i_state x = I_ACTIVE"
    "tab_get h_id (people d) p = Some h" "h_state h = H_ACTIVE"
    "map_option a_person (active_association ident d) \<noteq> Some p" "a = new_association (ids 1) ident p (ids 0) now"
    "evidence_append (new_evidence (ids 0) IDENTITY_ASSIGNED_TO_PERSON None None (Some ident) (Some p) v
       (JObj [(''previous_person_id'', json_uuid_opt (map_option a_person (active_association ident d)))]) now) [] []
       (end_current (active_association ident d) AS_SUPERSEDED now d) = Inr d2"
    "association_add (new_association (ids 1) ident p (ids 0) now) d2 = Inr d3" "touch_identity ident now None d3 = Inr d'"
    using run by (rule assign_identity_to_person_stages)
  have "memory_ok d2" using evidence_append_frame(6) [OF st(7)] ok by (simp add: end_current_ok)
  moreover have "active_id (identities d2) ident"
    using st(1,2) evidence_append_frame(2) [OF st(7)] by (simp add: active_id_def)
  ultimately have "memory_ok d3" by (rule association_add_ok [OF _ st(8)])
  then show ?thesis by (rule touch_identity_ok [OF _ st(9)])
qed

lemma name_identity_ok:
  assumes "memory_ok d" and "name_identity cf ident s ids now0 now d = Inr (h, a, d')"
  shows "memory_ok d' \<and> h_name h \<noteq> '''' \<and> h_name h = strip s \<and> active_association ident d = None"
proof -
  let ?d = "d\<lparr>people := people d @ [new_person cf (ids 0) (strip s) now0]\<rparr>"
  have ok: "memory_ok ?d" using assms(1) by simp
  have "assign_identity_to_person ident (ids 0) 1 (\<lambda>n. ids (Suc n)) now ?d = Inr (a, d')"
    and rest: "h = new_person cf (ids 0) (strip s) now0" "strip s \<noteq> []" "active_association ident d = None"
    using assms(2) by (auto simp: name_identity_def Let_def bindE_Inr_iff split: if_splits option.splits)
  then have "memory_ok d'" using assign_identity_to_person_ok [OF ok] by blast
  with rest show ?thesis by (simp add: new_person_def)
qed

lemma remove_identity_from_person_frame:
  assumes "memory_ok d" and "remove_identity_from_person ident v ids now d = Inr (a, d')"
  shows "memory_ok d'" and "same_memory d d'" and "active_id (identities d') = active_id (identities d)"
    and "active_association j d' = (if j = ident then None else active_association j d)"
    and "tab_get i_id (identities d') = map_option (\<lambda>x. if i_id x = ident then x\<lparr>i_rev := i_rev x + 1, i_updated := now\<rparr> else x) \<circ> tab_get i_id (identities d)"
proof -
  obtain b e d1 where b: "active_association ident d = Some b"
    and e: "evidence_append e [] [] d = Inr d1"
    and t: "touch_identity ident now None (end_association (a_id b) AS_REMOVED now d1) = Inr d'"
    using assms(2) by (auto simp: remove_identity_from_person_def bindE_Inr_iff Let_def split: option.splits)
  note f1 = evidence_append_frame [OF e]
  note f2 = cosmetic_frame [OF cosmetic_touch [OF t]]
  have ok1: "memory_ok d1" using f1(6) assms(1) by blast
  have b1: "active_association ident d1 = Some b" using b f1(3) by (simp add: active_association_def)
  have "memory_ok (end_association (a_id b) AS_REMOVED now d1)" using ok1 by (rule end_association_ok) simp
  then show "memory_ok d'" by (rule f2(4))
  show "same_memory d d'" using f1(1) f2(1) by (simp add: same_memory_def end_association_def)
  show "active_id (identities d') = active_id (identities d)" using f1(2) f2(3) by (simp add: end_association_def)
  have "active_association j d' = active_association j (end_association (a_id b) AS_REMOVED now d1)"
    using f2(2) by (simp add: active_association_def)
  also have "\<dots> = (if j = ident then None else active_association j d1)"
    using ok1 by (intro active_association_end [OF _ b1]) (simp_all add: memory_ok_def)
  finally show "active_association j d' = (if j = ident then None else active_association j d)"
    using f1(3) by (simp add: active_association_def)
  have "identities d' = tab_update (\<lambda>x. i_id x = ident) (\<lambda>x. x\<lparr>i_rev := i_rev x + 1, i_updated := now\<rparr>) (identities d)"
    using t f1(2) by (auto simp: touch_identity_def end_association_def)
  then show "tab_get i_id (identities d') = map_option (\<lambda>x. if i_id x = ident then x\<lparr>i_rev := i_rev x + 1, i_updated := now\<rparr> else x) \<circ> tab_get i_id (identities d)"
    by (simp add: tab_get_update fun_eq_iff)
qed

text \<open>
  Renaming a person changes that one row and remembers no name: the row was at the revision the
  caller read and is now one further, under the stripped name; no other person, no link, no identity
  and no memory changes; the evidence added holds the two revisions and nothing else; and whoever
  read the old revision can no longer rename.
\<close>

theorem renaming_touches_only_the_name:
  assumes "tab_keyed h_id (people d)" and "rename_person cf p s expected ids now d = Inr (h', d')"
  shows "(\<exists>h. tab_get h_id (people d) p = Some h \<and> h_rev h = expected \<and>
       h' = h\<lparr>h_name := strip s, h_normalized := Some (cf (strip s)), h_updated := now, h_rev := expected + 1\<rparr>) \<and>
    strip s \<noteq> '''' \<and> tab_get h_id (people d') = (tab_get h_id (people d))(p \<mapsto> h') \<and>
    same_memory d d' \<and> identities d' = identities d \<and> associations d' = associations d \<and>
    (\<exists>e. evidences d' = evidences d @ [e] \<and> e_kind e = PERSON_RENAMED \<and>
       e_payload e = JObj [(''previous_revision'', JInt expected), (''revision'', JInt (expected + 1))]) \<and>
    (\<forall>s' cf' ids' now'. strip s' \<noteq> '''' \<longrightarrow> rename_person cf' p s' expected ids' now' d' = Inl StaleRevisionError)"
proof -
  let ?v = "\<lambda>h. h\<lparr>h_name := strip s, h_normalized := Some (cf (strip s)), h_updated := now\<rparr>"
  let ?u = "person_update p expected ?v (\<lambda>_. True) (people d)"
  have keeps: "person_rev.keeps ?v" by (simp add: person_rev.keeps_def)
  have name: "strip s \<noteq> ''''" and n: "fst ?u \<noteq> 0"
    and run: "bindE (refused (evidence_append (new_evidence (ids 0) PERSON_RENAMED None None None (Some p) 1
        (JObj [(''previous_revision'', JInt expected), (''revision'', JInt (h_rev (the (tab_get h_id (snd ?u) p))))])
        (h_updated (the (tab_get h_id (snd ?u) p)))) [] [] (d\<lparr>people := snd ?u\<rparr>)))
        (\<lambda>d'. Inr (the (tab_get h_id (snd ?u) p), d')) = Inr (h', d')"
    using assms(2) by (auto simp: rename_person_def Let_def case_prod_beta split: if_splits)
  obtain h where h: "tab_get h_id (people d) p = Some h" "h_rev h = expected"
    using n by (auto simp: person_update_def person_rev.rowcount_iff [OF assms(1)] split: option.splits if_splits)
  have won: "fst ?u = 1" using h by (simp add: person_update_def person_rev.rowcount_iff [OF assms(1)])
  let ?h = "h\<lparr>h_name := strip s, h_normalized := Some (cf (strip s)), h_updated := now, h_rev := expected + 1\<rparr>"
  have get: "tab_get h_id (snd ?u) = (tab_get h_id (people d))(p \<mapsto> ?h)"
  proof
    fix k
    have "tab_get h_id (snd ?u) k = map_option (\<lambda>r. if opt_where h_id h_rev p expected (\<lambda>_. True) r then bump_person (?v r) else r) (tab_get h_id (people d) k)"
      unfolding person_update_def by (rule person_rev.get_after [OF keeps])
    then show "tab_get h_id (snd ?u) k = ((tab_get h_id (people d))(p \<mapsto> ?h)) k"
      using h by (cases "tab_get h_id (people d) k") (auto simp: opt_where_def bump_person_def dest: tab_get_SomeD)
  qed
  have keyed': "tab_keyed h_id (snd ?u)" using assms(1) keeps by (simp add: person_update_def person_rev.keeps_keys)
  obtain e where e: "evidence_append e [] [] (d\<lparr>people := snd ?u\<rparr>) = Inr d'" "h' = ?h" "e_kind e = PERSON_RENAMED"
    "e_payload e = JObj [(''previous_revision'', JInt expected), (''revision'', JInt (expected + 1))]"
    using run by (auto simp: bindE_Inr_iff get new_evidence_def)
  note f = evidence_append_frame [OF e(1)]
  have stale: "rename_person cf' p s' expected ids' now' d' = Inl StaleRevisionError" if "strip s' \<noteq> ''''" for s' cf' ids' now'
  proof -
    have "fst (person_update p expected w y (snd ?u)) = 0" for w y
      using person_rev.second_writer_refused [OF assms(1) keeps] won by (simp add: person_update_def)
    moreover have "tab_get h_id (snd ?u) p \<noteq> None" by (simp add: get)
    ultimately show ?thesis using that f(4)
      by (simp add: rename_person_def Let_def case_prod_beta rename_conflict_def split: option.splits)
  qed
  have "same_memory d d'" using f(1) by (simp add: same_memory_def)
  with h name e f get stale show ?thesis by simp
qed

lemma renaming_touches_only_the_name_witness:
  "\<exists>h' d'. rename_person id 41 ''  Grace '' 1 sample_ids 7 sample_db = Inr (h', d') \<and> h_name h' = ''Grace'' \<and>
     rename_person id 41 ''Mary'' 1 sample_ids 8 d' = Inl StaleRevisionError"
proof -
  have "\<not> isl (rename_person id 41 ''  Grace '' 1 sample_ids 7 sample_db)" by code_simp
  then obtain h' d' where run: "rename_person id 41 ''  Grace '' 1 sample_ids 7 sample_db = Inr (h', d')"
    by (cases "rename_person id 41 ''  Grace '' 1 sample_ids 7 sample_db") auto
  have keyed: "tab_keyed h_id (people sample_db)" by code_simp
  have strips: "strip ''  Grace '' = ''Grace''" "strip ''Mary'' \<noteq> ''''" by code_simp+
  from renaming_touches_only_the_name [OF keyed run]
  have "h_name h' = ''Grace''" "rename_person id 41 ''Mary'' 1 sample_ids 8 d' = Inl StaleRevisionError"
    using strips by auto
  with run show ?thesis by blast
qed

end
