(* ===== verification/Corrections.thy ===== *)
theory Corrections
  imports People
begin

text \<open>
  User corrections of a recognised face (\<open>backend/app/identities/corrections.py\<close>): confirm it, move
  it to another identity or separate it into a new one, and say who an unresolved face is. What
  moves is ownership only. Shown: one face moves and nothing else, keys and the index queue are
  never touched, a correction based on a stale view is refused, and an unresolved face is resolved
  at most once.
\<close>

section \<open>Operations\<close>

definition shown_occurrence :: "uuid \<Rightarrow> uuid \<Rightarrow> db \<Rightarrow> occurrence outcome_of" where
  "shown_occurrence i expected d =
     (case occurrence_get (occurrences d) i of
        None \<Rightarrow> Inl IdentityManagerError
      | Some oc \<Rightarrow>
          if oc_state oc \<noteq> OC_ACTIVE then Inl IdentityManagerError
          else if oc_identity oc \<noteq> expected then Inl StaleRevisionError else Inr oc)"

definition live_identity :: "uuid \<Rightarrow> db \<Rightarrow> identity outcome_of" where
  "live_identity i d =
     (case identity_get (identities d) i of
        None \<Rightarrow> Inl IdentityManagerError
      | Some x \<Rightarrow> if i_state x \<noteq> I_ACTIVE then Inl IdentityManagerError else Inr x)"

definition occurrence_reps :: "occurrence \<Rightarrow> db \<Rightarrow> rep list" where
  "occurrence_reps oc d =
     sort_key r_id (filter (\<lambda>r. r_obs r \<in> set (occurrence_observations oc d) \<and> r_state r = R_ACTIVE \<and>
                               r_identity r = Some (oc_identity oc)) (reps d))"

definition correction_evidence ::
  "occurrence \<Rightarrow> uuid \<Rightarrow> rep list \<Rightarrow> (string \<times> json) list \<Rightarrow> uuid \<Rightarrow> time \<Rightarrow> evidence" where
  "correction_evidence oc subject rs payload i now =
     new_evidence i USER_CORRECTION None (Some (oc_source oc)) (Some subject) None 1
       (JObj (json_merge [(''occurrence_id'', JUuid (oc_id oc)), (''representation_ids'', uuid_list (map r_id rs))] payload))
       now"

definition correction ::
  "occurrence \<Rightarrow> uuid \<Rightarrow> rep list \<Rightarrow> (string \<times> json) list \<Rightarrow> uuid \<Rightarrow> time \<Rightarrow> db \<Rightarrow> (evidence \<times> db) outcome_of" where
  "correction oc subject rs payload i now d =
     (let e = correction_evidence oc subject rs payload i now
      in bindE (refused (evidence_append e (map (\<lambda>r. (r_id r, ROLE_SUBJECT)) rs) [] d)) (\<lambda>d'. Inr (e, d')))"

definition confirm_occurrence ::
  "uuid \<Rightarrow> uuid \<Rightarrow> id_supply \<Rightarrow> time \<Rightarrow> db \<Rightarrow> (evidence \<times> db) outcome_of" where
  "confirm_occurrence i expected ids now d =
     bindE (shown_occurrence i expected d) (\<lambda>oc.
     bindE (live_identity (oc_identity oc) d) (\<lambda>_.
       correction oc (oc_identity oc) (occurrence_reps oc d) [(''action'', JStr ''CONFIRM'')] (ids 0) now d))"

text \<open>The target of a correction: the identity given, or a new ACTIVE one. With it, the ids drawn.\<close>

definition correction_target :: "uuid option \<Rightarrow> uuid \<Rightarrow> time \<Rightarrow> db \<Rightarrow> (identity \<times> nat \<times> db) outcome_of" where
  "correction_target to i now d =
     (case to of
        Some j \<Rightarrow> bindE (live_identity j d) (\<lambda>x. Inr (x, 0, d))
      | None \<Rightarrow>
          let x = new_identity i I_ACTIVE None None now (Some now) now
          in bindE (refused (identity_add x (identities d))) (\<lambda>t. Inr (x, 1, d\<lparr>identities := t\<rparr>)))"

text \<open>A target without a representative face takes this one.\<close>

definition adopt_face :: "identity \<Rightarrow> uuid option \<Rightarrow> time \<Rightarrow> db \<Rightarrow> db" where
  "adopt_face target face now d =
     (if i_face target \<noteq> None then d
      else d\<lparr>identities := tab_update (\<lambda>x. i_id x = i_id target) (\<lambda>x. x\<lparr>i_face := face, i_updated := now\<rparr>) (identities d)\<rparr>)"

definition reassign_lineage :: "bool \<Rightarrow> uuid \<Rightarrow> uuid \<Rightarrow> uuid \<Rightarrow> uuid \<Rightarrow> time \<Rightarrow> db \<Rightarrow> db outcome_of" where
  "reassign_lineage created src target ev i now d =
     (if created
      then bindE (refused (lineage_add \<lparr>l_id = i, l_from = src, l_to = target, l_kind = SPLIT_FROM,
                     l_evidence = ev, l_created = now\<rparr> (lineages d))) (\<lambda>ls. Inr (d\<lparr>lineages := ls\<rparr>))
      else Inr d)"

definition reassign_occurrence ::
  "uuid \<Rightarrow> uuid option \<Rightarrow> uuid \<Rightarrow> id_supply \<Rightarrow> time \<Rightarrow> db \<Rightarrow> (uuid \<times> db) outcome_of" where
  "reassign_occurrence i to expected ids now d =
     bindE (shown_occurrence i expected d) (\<lambda>oc.
     bindE (live_identity expected d) (\<lambda>src.
       if to = Some expected then Inl IdentityManagerError
       else bindE (correction_target to (ids 0) now d) (\<lambda>(target, n, d1).
         let moved = occurrence_reps oc d;
             j = i_id target;
             payload = [(''action'', JStr (if to = None then ''SEPARATE'' else ''REASSIGN'')),
                        (''from_identity_id'', JUuid expected), (''to_identity_id'', JUuid j)]
         in bindE (correction oc j moved payload (ids n) now d1) (\<lambda>(e, d2).
            bindE (reassign_lineage (to = None) expected j (e_id e) (ids (Suc n)) now
                     (move_occurrences (\<lambda>oc'. oc_id oc' = i) j
                        (move_reps (\<lambda>r. r_id r \<in> r_id ` set moved) j d2))) (\<lambda>d3.
            bindE (touch_identity expected now None
                     (refresh_representative expected (occurrence_observations oc d) now d3)) (\<lambda>d4.
            bindE (if to = None then Inr d4 else touch_identity j now None d4) (\<lambda>d5.
              Inr (j, adopt_face target (oc_face oc) now d5))))))))"

definition abstentions_of :: "uuid \<Rightarrow> db \<Rightarrow> uuid list" where
  "abstentions_of rep_id d =
     map e_id (sort_key (\<lambda>e. (e_created e, e_id e))
       (filter (\<lambda>e. e_kind e = RECOGNITION_ABSTAINED \<and>
            list_ex (\<lambda>l. er_evidence l = e_id e \<and> er_rep l = rep_id \<and> er_role l = ROLE_SUBJECT) (ev_reps d))
          (evidences d)))"

definition has_live_occurrence :: "uuid \<Rightarrow> db \<Rightarrow> bool" where
  "has_live_occurrence ob d \<longleftrightarrow>
     list_ex (\<lambda>oc. oc_state oc = OC_ACTIVE \<and>
        (oc_face oc = Some ob \<or>
         list_ex (\<lambda>m. oo_occurrence m = oc_id oc \<and> oo_observation m = ob) (occ_obs d))) (occurrences d)"

definition resolve_representation ::
  "uuid \<Rightarrow> uuid option \<Rightarrow> id_supply \<Rightarrow> time \<Rightarrow> db \<Rightarrow> (occurrence \<times> db) outcome_of" where
  "resolve_representation rep_id to ids now d =
     (case tab_get r_id (reps d) rep_id of
        None \<Rightarrow> Inl IdentityManagerError
      | Some r \<Rightarrow>
          if r_state r \<noteq> R_ACTIVE \<or> r_identity r \<noteq> None then Inl IdentityManagerError
          else case tab_get o_id (observations d) (r_obs r) of
            None \<Rightarrow> Inl IdentityManagerError   \<comment> \<open>not reached: a foreign key\<close>
          | Some ob \<Rightarrow>
              if o_state ob \<noteq> O_ACTIVE \<or> has_live_occurrence (o_id ob) d \<or> length (abstentions_of rep_id d) \<noteq> 1
              then Inl IdentityManagerError
              else bindE (correction_target to (ids 0) now d) (\<lambda>(target, n, d1).
                let j = i_id target;
                    oc = \<lparr>oc_id = ids n, oc_source = o_source ob, oc_identity = j, oc_run = r_run r,
                          oc_face = Some (o_id ob), oc_kind = OC_IMAGE, oc_state = OC_ACTIVE,
                          oc_created = now, oc_activated = Some now\<rparr>;
                    e = new_evidence (ids (Suc n)) USER_CORRECTION None (Some (o_source ob)) (Some j) None 1
                          (JObj [(''action'', JStr (if to = None then ''RESOLVE_NEW'' else ''RESOLVE'')),
                                 (''occurrence_id'', JUuid (ids n)),
                                 (''representation_ids'', uuid_list [rep_id]),
                                 (''to_identity_id'', JUuid j),
                                 (''resolves_evidence_id'', JUuid (hd (abstentions_of rep_id d)))]) now
                in bindE (refused (evidence_append e [(rep_id, ROLE_SUBJECT)] [] d1)) (\<lambda>d2.
                   bindE (refused (occurrence_add oc [o_id ob] d2)) (\<lambda>d3.
                   bindE (if to = None then Inr (move_reps (\<lambda>s. r_id s = rep_id) j d3)
                          else touch_identity j now None (move_reps (\<lambda>s. r_id s = rep_id) j d3)) (\<lambda>d4.
                     Inr (oc, adopt_face target (Some (o_id ob)) now d4))))))"

section \<open>Laws\<close>

lemma live_identity_Inr: "live_identity i d = Inr x \<Longrightarrow> tab_get i_id (identities d) i = Some x \<and> i_state x = I_ACTIVE \<and> i_id x = i"
  by (auto simp: live_identity_def identity_get_def split: option.splits if_splits dest: tab_get_SomeD)

lemma shown_occurrence_Inr:
  "shown_occurrence i j d = Inr oc \<Longrightarrow>
     tab_get oc_id (occurrences d) i = Some oc \<and> oc_state oc = OC_ACTIVE \<and> oc_identity oc = j \<and> oc_id oc = i"
  by (auto simp: shown_occurrence_def occurrence_get_def split: option.splits if_splits dest: tab_get_SomeD)

lemma correction_target_Inr:
  assumes "memory_ok d" and "correction_target to i now d = Inr (x, n, d')"
  shows "memory_ok d'" and "same_memory d d'" and "associations d' = associations d"
    and "active_id (identities d') (i_id x)" and "\<And>j. active_id (identities d) j \<Longrightarrow> active_id (identities d') j"
    and "case to of None \<Rightarrow> tab_get i_id (identities d) (i_id x) = None \<and> i_id x = i | Some j \<Rightarrow> i_id x = j \<and> d' = d"
    and "occ_obs d' = occ_obs d" and "evidences d' = evidences d" and "ev_reps d' = ev_reps d" and "observations d' = observations d"
proof -
  have "memory_ok d' \<and> same_memory d d' \<and> associations d' = associations d \<and> active_id (identities d') (i_id x) \<and>
    (\<forall>j. active_id (identities d) j \<longrightarrow> active_id (identities d') j) \<and>
    (case to of None \<Rightarrow> tab_get i_id (identities d) (i_id x) = None \<and> i_id x = i | Some j \<Rightarrow> i_id x = j \<and> d' = d) \<and>
    occ_obs d' = occ_obs d \<and> evidences d' = evidences d \<and> ev_reps d' = ev_reps d \<and> observations d' = observations d"
  proof (cases to)
    case None
    then obtain t where t: "identity_add x (identities d) = Inr t" "x = new_identity i I_ACTIVE None None now (Some now) now"
      "d' = d\<lparr>identities := t\<rparr>"
      using assms(2) by (auto simp: correction_target_def bindE_Inr_iff Let_def)
    note a = identity_add_ok [OF assms(1) t(1)]
    have "active_id t i" using a(2,3) t(2) by (simp add: active_id_def tab_get_append tab_get_Cons)
    with a t None show ?thesis by (auto simp: same_memory_def active_id_append)
  next
    case (Some j)
    then show ?thesis using assms live_identity_Inr [of j d x]
      by (auto simp: correction_target_def bindE_Inr_iff active_id_def)
  qed
  then show "memory_ok d'" "same_memory d d'" "associations d' = associations d" "active_id (identities d') (i_id x)"
    "\<And>j. active_id (identities d) j \<Longrightarrow> active_id (identities d') j"
    "case to of None \<Rightarrow> tab_get i_id (identities d) (i_id x) = None \<and> i_id x = i | Some j \<Rightarrow> i_id x = j \<and> d' = d"
    "occ_obs d' = occ_obs d" "evidences d' = evidences d" "ev_reps d' = ev_reps d" "observations d' = observations d"
    by blast+
qed

lemma cosmetic_trans_touch: "cosmetic d d' \<Longrightarrow> same_memory d d' \<and> associations d' = associations d"
  using cosmetic_frame(1,2) by blast

lemma cosmetic_adopt: "cosmetic d (adopt_face x f now d)"
proof (cases "i_face x")
  case None
  then show ?thesis unfolding cosmetic_def adopt_face_def
    by (intro exI [of _ "\<lambda>y. i_id y = i_id x"] exI [of _ "\<lambda>y. y\<lparr>i_face := f, i_updated := now\<rparr>"])
      (simp add: same_standing_def)
qed (simp add: adopt_face_def cosmetic_refl)

lemma cosmetic_evidence: "cosmetic d d' \<Longrightarrow> evidences d' = evidences d \<and> ev_reps d' = ev_reps d \<and> lineages d' = lineages d"
  by (auto simp: cosmetic_def)

lemma correction_frame:
  assumes "correction oc j rs payload i now d = Inr (e, d')"
  shows "same_memory d d'" and "identities d' = identities d" and "associations d' = associations d"
    and "evidences d' = evidences d @ [e]" and "memory_ok d \<Longrightarrow> memory_ok d'" and "e_kind e = USER_CORRECTION"
    and "e = correction_evidence oc j rs payload i now"
proof -
  have run: "evidence_append e (map (\<lambda>r. (r_id r, ROLE_SUBJECT)) rs) [] d = Inr d'"
    and e: "e = correction_evidence oc j rs payload i now"
    using assms by (auto simp: correction_def bindE_Inr_iff Let_def)
  note f = evidence_append_frame [OF run]
  show "same_memory d d'" "identities d' = identities d" "associations d' = associations d"
    "evidences d' = evidences d @ [e]" "memory_ok d \<Longrightarrow> memory_ok d'" using f by blast+
  show "e_kind e = USER_CORRECTION" by (simp add: e correction_evidence_def new_evidence_def)
  show "e = correction_evidence oc j rs payload i now" by (rule e)
qed

lemma reassign_lineage_frame:
  assumes "reassign_lineage c s t ev i now d = Inr d'"
  shows "same_memory d d' \<and> identities d' = identities d \<and> associations d' = associations d \<and> evidences d' = evidences d \<and>
    (memory_ok d \<longrightarrow> memory_ok d')"
  using assms by (auto simp: reassign_lineage_def same_memory_def bindE_Inr_iff split: if_splits)

lemma reassign_stages:
  assumes "reassign_occurrence i to expected ids now d = Inr (j, d')"
  obtains oc src target n d1 e d2 d3 d4 d5 payload where "shown_occurrence i expected d = Inr oc"
    "live_identity expected d = Inr src" "to \<noteq> Some expected" "correction_target to (ids 0) now d = Inr (target, n, d1)"
    "j = i_id target" "correction oc j (occurrence_reps oc d) payload (ids n) now d1 = Inr (e, d2)"
    "reassign_lineage (to = None) expected j (e_id e) (ids (Suc n)) now
       (move_occurrences (\<lambda>oc'. oc_id oc' = i) j (move_reps (\<lambda>r. r_id r \<in> r_id ` set (occurrence_reps oc d)) j d2)) = Inr d3"
    "touch_identity expected now None (refresh_representative expected (occurrence_observations oc d) now d3) = Inr d4"
    "(if to = None then Inr d4 else touch_identity j now None d4) = Inr d5" "d' = adopt_face target (oc_face oc) now d5"
  using assms by (auto simp: reassign_occurrence_def bindE_Inr_iff Let_def split: if_split_asm)

lemma refresh_evidence [simp]: "evidences (refresh_representative i m now d) = evidences d"
  using cosmetic_evidence [OF cosmetic_refresh] by blast

text \<open>
  A reassignment moves one face and nothing else. When it returns: the occurrence was ACTIVE and
  still under the identity the user saw; it, and exactly the ACTIVE representations of that identity
  that rest on its observations, now belong to another ACTIVE identity (the one asked for, or a new
  one); the first identity is still ACTIVE; no key, vector, state, person link or index change is
  touched; one correction is added to the evidence; and the invariant holds.
\<close>

theorem reassigning_moves_one_face:
  assumes "memory_ok d" and "reassign_occurrence i to expected ids now d = Inr (j, d')"
  shows "\<exists>oc. tab_get oc_id (occurrences d) i = Some oc \<and> oc_state oc = OC_ACTIVE \<and> oc_identity oc = expected \<and>
    j \<noteq> expected \<and> (case to of None \<Rightarrow> tab_get i_id (identities d) j = None | Some t \<Rightarrow> j = t) \<and>
    active_id (identities d') j \<and> active_id (identities d') expected \<and> memory_ok d' \<and>
    occurrences d' = tab_update (\<lambda>oc'. oc_id oc' = i) (\<lambda>oc'. oc'\<lparr>oc_identity := j\<rparr>) (occurrences d) \<and>
    reps d' = tab_update (\<lambda>r. r_obs r \<in> set (occurrence_observations oc d) \<and> r_state r = R_ACTIVE \<and> r_identity r = Some expected)
      (\<lambda>r. r\<lparr>r_identity := Some j\<rparr>) (reps d) \<and>
    index_ops d' = index_ops d \<and> ann_sequences d' = ann_sequences d \<and> associations d' = associations d \<and>
    (\<exists>e. evidences d' = evidences d @ [e] \<and> e_kind e = USER_CORRECTION)"
proof -
  obtain oc src target n d1 e d2 d3 d4 d5 payload where st: "shown_occurrence i expected d = Inr oc"
    "live_identity expected d = Inr src" "to \<noteq> Some expected" "correction_target to (ids 0) now d = Inr (target, n, d1)"
    "j = i_id target" "correction oc j (occurrence_reps oc d) payload (ids n) now d1 = Inr (e, d2)"
    "reassign_lineage (to = None) expected j (e_id e) (ids (Suc n)) now
       (move_occurrences (\<lambda>oc'. oc_id oc' = i) j (move_reps (\<lambda>r. r_id r \<in> r_id ` set (occurrence_reps oc d)) j d2)) = Inr d3"
    "touch_identity expected now None (refresh_representative expected (occurrence_observations oc d) now d3) = Inr d4"
    "(if to = None then Inr d4 else touch_identity j now None d4) = Inr d5" "d' = adopt_face target (oc_face oc) now d5"
    using assms(2) by (rule reassign_stages)
  note oc = shown_occurrence_Inr [OF st(1)]
  note src = live_identity_Inr [OF st(2)]
  note tg = correction_target_Inr [OF assms(1) st(4)]
  note co = correction_frame [OF st(6)]
  have act: "active_id (identities d) expected" using src by (simp add: active_id_def)
  have act2: "active_id (identities d2) j" "active_id (identities d2) expected"
    using tg(4,5) act co(2) st(5) by simp_all
  let ?m = "move_occurrences (\<lambda>oc'. oc_id oc' = i) j (move_reps (\<lambda>r. r_id r \<in> r_id ` set (occurrence_reps oc d)) j d2)"
  have okm: "memory_ok ?m" using co(5) tg(1) act2 by (intro move_occurrences_ok move_reps_ok) simp_all
  note li = reassign_lineage_frame [OF st(7)]
  have c4: "cosmetic (refresh_representative expected (occurrence_observations oc d) now d3) d4" using st(8) by (rule cosmetic_touch)
  have c5: "cosmetic d4 d5" using st(9) by (auto simp: cosmetic_refl split: if_splits intro: cosmetic_touch)
  have c6: "cosmetic d5 d'" unfolding st(10) by (rule cosmetic_adopt)
  note f3 = cosmetic_frame [OF cosmetic_refresh [of d3 expected "occurrence_observations oc d" now]]
  note f4 = cosmetic_frame [OF c4] and f5 = cosmetic_frame [OF c5] and f6 = cosmetic_frame [OF c6]
  have "memory_ok d'" using okm li f3(4) f4(4) f5(4) f6(4) by blast
  moreover have "same_memory d3 d'" using f3(1) f4(1) f5(1) f6(1) by (blast intro: same_memory_trans)
  then have frame: "reps d' = reps ?m" "occurrences d' = occurrences ?m" "index_ops d' = index_ops d2" "ann_sequences d' = ann_sequences d2"
    using li by (simp_all add: same_memory_def move_occurrences_def move_reps_def)
  have base: "reps d2 = reps d" "occurrences d2 = occurrences d" "index_ops d2 = index_ops d" "ann_sequences d2 = ann_sequences d"
    using co(1) tg(2) by (simp_all add: same_memory_def)
  have "occurrences d' = tab_update (\<lambda>oc'. oc_id oc' = i) (\<lambda>oc'. oc'\<lparr>oc_identity := j\<rparr>) (occurrences d)"
    using frame(2) base(2) by (simp add: move_occurrences_def move_reps_def)
  moreover have "reps d' = tab_update (\<lambda>r. r_obs r \<in> set (occurrence_observations oc d) \<and> r_state r = R_ACTIVE \<and> r_identity r = Some expected)
      (\<lambda>r. r\<lparr>r_identity := Some j\<rparr>) (reps d)"
  proof -
    have keyed: "tab_keyed r_id (reps d)" using assms(1) by (simp add: memory_ok_def reps_ok_def)
    have "r_id r \<in> r_id ` set (occurrence_reps oc d) \<longleftrightarrow>
        r_obs r \<in> set (occurrence_observations oc d) \<and> r_state r = R_ACTIVE \<and> r_identity r = Some expected"
      if "r \<in> set (reps d)" for r
      using that tab_keyed_inj [OF keyed that] oc by (auto simp: occurrence_reps_def)
    then show ?thesis using frame(1) base(1)
      by (auto simp: move_reps_def tab_update_def)
  qed
  moreover have "active_id (identities d') j" "active_id (identities d') expected"
    using act2 li f3(3) f4(3) f5(3) f6(3) by simp_all
  moreover have "associations d' = associations d"
    using f3(2) f4(2) f5(2) f6(2) li co(3) tg(3) by simp
  moreover have "evidences d' = evidences d @ [e]"
    using cosmetic_evidence [OF c4] cosmetic_evidence [OF c5] cosmetic_evidence [OF c6] li co(4) tg(8)
    by (simp add: move_occurrences_def move_reps_def)
  then have "\<exists>e. evidences d' = evidences d @ [e] \<and> e_kind e = USER_CORRECTION" using co(6) by blast
  moreover have "j \<noteq> expected \<and> (case to of None \<Rightarrow> tab_get i_id (identities d) j = None | Some t \<Rightarrow> j = t)"
    using tg(6) st(3,5) src by (auto split: option.splits)
  moreover have "index_ops d' = index_ops d" "ann_sequences d' = ann_sequences d" using frame(3,4) base(3,4) by simp_all
  ultimately show ?thesis
    using oc by (intro exI [of _ oc] conjI) (assumption | (elim conjE, assumption))+
qed

lemma reassigning_moves_one_face_witness:
  "\<exists>j d'. reassign_occurrence 31 (Some 2) 1 sample_ids 7 sample_db = Inr (j, d') \<and>
     map r_identity (reps d') = [Some 2, None] \<and> map oc_identity (occurrences d') = [2]"
proof -
  have "\<not> isl (reassign_occurrence 31 (Some 2) 1 sample_ids 7 sample_db)" by code_simp
  then obtain j d' where run: "reassign_occurrence 31 (Some 2) 1 sample_ids 7 sample_db = Inr (j, d')"
    by (cases "reassign_occurrence 31 (Some 2) 1 sample_ids 7 sample_db") auto
  obtain oc where oc: "tab_get oc_id (occurrences sample_db) 31 = Some oc" "j = 2"
    "occurrences d' = tab_update (\<lambda>oc'. oc_id oc' = 31) (\<lambda>oc'. oc'\<lparr>oc_identity := j\<rparr>) (occurrences sample_db)"
    "reps d' = tab_update (\<lambda>r. r_obs r \<in> set (occurrence_observations oc sample_db) \<and> r_state r = R_ACTIVE \<and> r_identity r = Some 1)
      (\<lambda>r. r\<lparr>r_identity := Some j\<rparr>) (reps sample_db)"
    using reassigning_moves_one_face [OF sample_db_ok run] by auto
  have "tab_get oc_id (occurrences sample_db) 31 = Some (hd (occurrences sample_db))" by code_simp
  then have "oc = hd (occurrences sample_db)" using oc(1) by simp
  moreover have "set (occurrence_observations (hd (occurrences sample_db)) sample_db) = set [11]" by code_simp
  ultimately have "reps d' = tab_update (\<lambda>r. r_obs r \<in> set [11] \<and> r_state r = R_ACTIVE \<and> r_identity r = Some 1)
      (\<lambda>r. r\<lparr>r_identity := Some 2\<rparr>) (reps sample_db)" using oc(2,4) by simp
  then have "map r_identity (reps d') = [Some 2, None]" by (simp add: sample_db_def sample_rep_def)
  moreover have "map oc_identity (occurrences d') = [2]" using oc(2,3) by (simp add: sample_db_def)
  ultimately show ?thesis using run by (intro exI conjI)
qed

section \<open>Unresolved faces\<close>

lemma occurrence_add_frame:
  assumes "occurrence_add oc obs d = Inr d'"
  shows "reps d' = reps d" and "identities d' = identities d" and "associations d' = associations d"
    and "index_ops d' = index_ops d" and "ann_sequences d' = ann_sequences d" and "evidences d' = evidences d"
    and "occurrences d' = occurrences d @ [oc]" and "tab_get oc_id (occurrences d) (oc_id oc) = None"
  using assms by (auto simp: occurrence_add_def split: if_splits)

lemma occurrence_add_ok:
  assumes "memory_ok d" and "occurrence_add oc obs d = Inr d'" and "active_id (identities d) (oc_identity oc)"
  shows "memory_ok d'"
  using assms(1,3) occurrence_add_frame [OF assms(2)]
  by (auto simp: memory_ok_def owned_ok_def tab_keyed_append1 tab_get_None_iff)

lemma resolve_stages:
  assumes "resolve_representation i to ids now d = Inr (oc, d')"
  obtains r ob target n d1 e d2 d3 d4 where "tab_get r_id (reps d) i = Some r" "r_state r = R_ACTIVE" "r_identity r = None"
    "tab_get o_id (observations d) (r_obs r) = Some ob" "o_state ob = O_ACTIVE" "\<not> has_live_occurrence (o_id ob) d"
    "length (abstentions_of i d) = 1" "correction_target to (ids 0) now d = Inr (target, n, d1)"
    "oc_identity oc = i_id target" "oc_state oc = OC_ACTIVE" "oc_face oc = Some (o_id ob)"
    "evidence_append e [(i, ROLE_SUBJECT)] [] d1 = Inr d2" "occurrence_add oc [o_id ob] d2 = Inr d3"
    "(if to = None then Inr (move_reps (\<lambda>s. r_id s = i) (i_id target) d3)
      else touch_identity (i_id target) now None (move_reps (\<lambda>s. r_id s = i) (i_id target) d3)) = Inr d4"
    "d' = adopt_face target (Some (o_id ob)) now d4"
  using assms
  by (auto simp: resolve_representation_def bindE_Inr_iff Let_def split: option.splits if_split_asm)

text \<open>
  Saying who an unresolved face is happens at most once. When it returns: the representation was
  ACTIVE without an owner and now belongs to an ACTIVE identity (the one asked for, or a new one), as
  does the one occurrence added for its face; no other representation changes, nothing is queued for
  the index, the invariant holds; and resolving the same representation again is refused, whoever it
  is said to be.
\<close>

theorem a_face_is_resolved_once:
  assumes "memory_ok d" and "resolve_representation i to ids now d = Inr (oc, d')"
  shows "\<exists>r j. tab_get r_id (reps d) i = Some r \<and> r_state r = R_ACTIVE \<and> r_identity r = None \<and>
    (case to of None \<Rightarrow> tab_get i_id (identities d) j = None | Some t \<Rightarrow> j = t) \<and>
    active_id (identities d') j \<and> reps d' = tab_update (\<lambda>s. r_id s = i) (\<lambda>s. s\<lparr>r_identity := Some j\<rparr>) (reps d) \<and>
    occurrences d' = occurrences d @ [oc] \<and> oc_identity oc = j \<and> oc_face oc = Some (r_obs r) \<and>
    index_ops d' = index_ops d \<and> memory_ok d' \<and>
    (\<forall>to' ids' now'. resolve_representation i to' ids' now' d' = Inl IdentityManagerError)"
proof -
  obtain r ob target n d1 e d2 d3 d4 where st: "tab_get r_id (reps d) i = Some r" "r_state r = R_ACTIVE" "r_identity r = None"
    "tab_get o_id (observations d) (r_obs r) = Some ob" "o_state ob = O_ACTIVE" "\<not> has_live_occurrence (o_id ob) d"
    "length (abstentions_of i d) = 1" "correction_target to (ids 0) now d = Inr (target, n, d1)"
    "oc_identity oc = i_id target" "oc_state oc = OC_ACTIVE" "oc_face oc = Some (o_id ob)"
    "evidence_append e [(i, ROLE_SUBJECT)] [] d1 = Inr d2" "occurrence_add oc [o_id ob] d2 = Inr d3"
    "(if to = None then Inr (move_reps (\<lambda>s. r_id s = i) (i_id target) d3)
      else touch_identity (i_id target) now None (move_reps (\<lambda>s. r_id s = i) (i_id target) d3)) = Inr d4"
    "d' = adopt_face target (Some (o_id ob)) now d4"
    using assms(2) by (rule resolve_stages)
  let ?j = "i_id target" and ?m = "move_reps (\<lambda>s. r_id s = i) (i_id target) d3"
  note tg = correction_target_Inr [OF assms(1) st(8)]
  note ev = evidence_append_frame [OF st(12)]
  note oa = occurrence_add_frame [OF st(13)]
  have act2: "active_id (identities d2) ?j" using tg(4) ev(2) by simp
  have "memory_ok d3" using occurrence_add_ok [OF ev(6) [OF tg(1)] st(13)] act2 st(9) by simp
  then have okm: "memory_ok ?m" using act2 oa(2) by (intro move_reps_ok) simp_all
  have c4: "cosmetic ?m d4" using st(14) by (auto simp: cosmetic_refl split: if_splits intro: cosmetic_touch)
  have c5: "cosmetic d4 d'" unfolding st(15) by (rule cosmetic_adopt)
  note f4 = cosmetic_frame [OF c4] and f5 = cosmetic_frame [OF c5]
  have mem: "same_memory ?m d'" using f4(1) f5(1) by (rule same_memory_trans)
  have base: "reps d3 = reps d" "occurrences d3 = occurrences d @ [oc]" "index_ops d3 = index_ops d"
    using oa ev(1) tg(2) by (simp_all add: same_memory_def)
  have reps': "reps d' = tab_update (\<lambda>s. r_id s = i) (\<lambda>s. s\<lparr>r_identity := Some ?j\<rparr>) (reps d)"
    using mem base(1) by (simp add: same_memory_def move_reps_def)
  have "tab_get r_id (reps d') i = Some (r\<lparr>r_identity := Some ?j\<rparr>)"
    unfolding reps' using st(1) tab_get_SomeD [OF st(1)] by (simp add: tab_get_update)
  then have "\<forall>to' ids' now'. resolve_representation i to' ids' now' d' = Inl IdentityManagerError"
    by (simp add: resolve_representation_def)
  moreover have "o_id ob = r_obs r" using tab_get_SomeD [OF st(4)] by simp
  moreover have "memory_ok d'" using okm f4(4) f5(4) by blast
  moreover have "active_id (identities d') ?j" using act2 oa(2) f4(3) f5(3) by simp
  moreover have "occurrences d' = occurrences d @ [oc]" "index_ops d' = index_ops d"
    using mem base by (simp_all add: same_memory_def)
  moreover have "case to of None \<Rightarrow> tab_get i_id (identities d) ?j = None | Some t \<Rightarrow> ?j = t"
    using tg(6) by (auto split: option.splits)
  ultimately show ?thesis
    using st(1-3,9,11) reps' by (intro exI [of _ r] exI [of _ ?j] conjI) (assumption | simp)+
qed

definition unresolved_db :: db where
  "unresolved_db = empty_db\<lparr>
     identities := [new_identity 2 I_ACTIVE None None 0 (Some 0) 0],
     observations := [\<lparr>o_id = 12, o_source = 1, o_run = 3, o_segment = 4, o_crop = None, o_state = O_ACTIVE,
        o_sequence = 0, o_created = 0, o_superseded_by = None,
        o_box = (0, 0, 1, 1), o_landmarks = JNull, o_quality = JNull, o_component = 6, o_variant = None\<rparr>],
     reps := [sample_rep 22 12 None R_ACTIVE (Some 1)],
     ann_sequences := [\<lparr>q_space = 5, q_next = 2\<rparr>],
     evidences := [new_evidence 61 RECOGNITION_ABSTAINED None None None None 1 JNull 0],
     ev_reps := [\<lparr>er_evidence = 61, er_rep = 22, er_role = ROLE_SUBJECT\<rparr>]\<rparr>"

lemma unresolved_db_ok: "memory_ok unresolved_db"
proof -
  have "merge_edges (identities unresolved_db) = {}" by (simp add: unresolved_db_def)
  moreover have "list_all identity_row_ok (identities unresolved_db) \<and> tab_keyed i_id (identities unresolved_db)
      \<and> list_all (\<lambda>x. i_merged_into x = None) (identities unresolved_db)"
    by code_simp
  ultimately have "identities_ok (identities unresolved_db)" by (simp add: identities_ok_def acyclic_def list_all_iff)
  moreover have "reps_ok (reps unresolved_db)" by code_simp
  moreover have "keys_below (reps unresolved_db) (ann_sequences unresolved_db)"
    by (simp add: keys_below_def unresolved_db_def sample_rep_def next_key_def tab_get_Cons)
  moreover have "queue_inv (index_ops unresolved_db)" by code_simp
  moreover have "associations_ok (associations unresolved_db)" by code_simp
  moreover have "tab_keyed oc_id (occurrences unresolved_db)" by code_simp
  moreover have "owned_ok (identities unresolved_db) (reps unresolved_db) (occurrences unresolved_db) (associations unresolved_db)"
    by (simp add: owned_ok_def unresolved_db_def sample_rep_def empty_db_def)
  ultimately show ?thesis by (simp add: memory_ok_def)
qed

lemma a_face_is_resolved_once_witness:
  "\<exists>oc d'. resolve_representation 22 (Some 2) sample_ids 7 unresolved_db = Inr (oc, d') \<and> oc_face oc = Some 12 \<and>
     resolve_representation 22 None sample_ids 8 d' = Inl IdentityManagerError"
proof -
  have "\<not> isl (resolve_representation 22 (Some 2) sample_ids 7 unresolved_db)" by code_simp
  then obtain oc d' where run: "resolve_representation 22 (Some 2) sample_ids 7 unresolved_db = Inr (oc, d')"
    by (cases "resolve_representation 22 (Some 2) sample_ids 7 unresolved_db") auto
  obtain r where r: "tab_get r_id (reps unresolved_db) 22 = Some r" "oc_face oc = Some (r_obs r)"
    "resolve_representation 22 None sample_ids 8 d' = Inl IdentityManagerError"
    using a_face_is_resolved_once [OF unresolved_db_ok run] by auto
  have "map_option r_obs (tab_get r_id (reps unresolved_db) 22) = Some 12" by code_simp
  with r(1) have "r_obs r = 12" by simp
  with run r(2,3) show ?thesis by auto
qed

end
