(* ===== verification/Folders.thy ===== *)
theory Folders
  imports Schema
begin

text \<open>
  Directories as the vector index and the managed storage see them: a listing of names, each a plain
  file, a folder or something that is neither (a link, a mount point;
  \<open>backend/infrastructure/storage/plain.py\<close>), the steps that change a listing, and the names the
  code gives its files (\<open>uuid.hex\<close>, decimal numbers).
\<close>

section \<open>Names\<close>

definition hex_digit :: "nat \<Rightarrow> char" where
  "hex_digit n = ''0123456789abcdef'' ! (n mod 16)"

definition is_hex :: "char \<Rightarrow> bool" where
  "is_hex c \<longleftrightarrow> c \<in> set ''0123456789abcdef''"

fun hex_digits :: "nat \<Rightarrow> nat \<Rightarrow> string" where
  "hex_digits 0 n = []"
| "hex_digits (Suc k) n = hex_digits k (n div 16) @ [hex_digit n]"

definition uuid_hex :: "uuid \<Rightarrow> string" where
  "uuid_hex u = hex_digits 32 u"

lemma length_hex_digits [simp]: "length (hex_digits k n) = k"
  by (induction k arbitrary: n) auto

lemma hex_digits_hex: "list_all is_hex (hex_digits k n)"
proof (induction k arbitrary: n)
  case (Suc k)
  have "n mod 16 < length ''0123456789abcdef''" by simp
  then have "is_hex (hex_digit n)" unfolding is_hex_def hex_digit_def by (rule nth_mem)
  with Suc show ?case by simp
qed simp

lemma hex_digit_inj: "hex_digit m = hex_digit n \<longleftrightarrow> m mod 16 = n mod 16"
proof -
  have "distinct ''0123456789abcdef''" "m mod 16 < length ''0123456789abcdef''"
    "n mod 16 < length ''0123456789abcdef''" by simp_all
  then show ?thesis unfolding hex_digit_def by (rule nth_eq_iff_index_eq)
qed

lemma hex_digits_inj: "hex_digits k m = hex_digits k n \<longleftrightarrow> m mod 16 ^ k = n mod 16 ^ k"
proof (induction k arbitrary: m n)
  case (Suc k)
  have "x mod 16 ^ Suc k = 16 * (x div 16 mod 16 ^ k) + x mod 16" for x :: nat
    using mod_mult2_eq [of x 16 "16 ^ k"] by simp
  moreover have "16 * a + r = 16 * b + s \<longleftrightarrow> a = b \<and> r = s" if "r < 16" "s < 16" for a b r s :: nat
    using that by arith
  ultimately have "m mod 16 ^ Suc k = n mod 16 ^ Suc k \<longleftrightarrow> m div 16 mod 16 ^ k = n div 16 mod 16 ^ k \<and> m mod 16 = n mod 16"
    by (metis mod_less_divisor zero_less_numeral)
  then show ?case by (simp add: Suc.IH hex_digit_inj del: power_Suc)
qed simp

lemma uuid_hex_inj: "u < 2 ^ 128 \<Longrightarrow> v < 2 ^ 128 \<Longrightarrow> uuid_hex u = uuid_hex v \<longleftrightarrow> u = v"
  by (simp add: uuid_hex_def hex_digits_inj)

definition digit_char :: "nat \<Rightarrow> char" where
  "digit_char n = ''0123456789'' ! (n mod 10)"

function decimal :: "nat \<Rightarrow> string" where
  "decimal n = (if n < 10 then [digit_char n] else decimal (n div 10) @ [digit_char n])"
  by pat_completeness auto
termination by (relation "measure id") auto

declare decimal.simps [simp del]

definition digit_value :: "char \<Rightarrow> nat option" where
  "digit_value c = (let n = of_char c :: nat in if 48 \<le> n \<and> n \<le> 57 then Some (n - 48) else None)"

definition is_decimal :: "string \<Rightarrow> bool" where
  "is_decimal s \<longleftrightarrow> s \<noteq> [] \<and> list_all (\<lambda>c. digit_value c \<noteq> None) s"

definition number_of :: "string \<Rightarrow> nat" where
  "number_of s = foldl (\<lambda>n c. 10 * n + the (digit_value c)) 0 s"

lemma digit_value_char: "digit_value (digit_char n) = Some (n mod 10)"
proof -
  have "\<forall>m<10. digit_value (''0123456789'' ! m) = Some m" by code_simp
  then show ?thesis by (simp add: digit_char_def)
qed

lemma number_of_decimal: "is_decimal (decimal n) \<and> number_of (decimal n) = n"
proof (induction n rule: decimal.induct)
  case (1 n)
  show ?case
  proof (cases "n < 10")
    case True
    then show ?thesis by (subst (1 2) decimal.simps) (simp add: is_decimal_def number_of_def digit_value_char)
  next
    case False
    with 1 have IH: "is_decimal (decimal (n div 10))" "number_of (decimal (n div 10)) = n div 10" by auto
    have "number_of (decimal (n div 10) @ [digit_char n]) = 10 * number_of (decimal (n div 10)) + n mod 10"
      by (simp add: number_of_def digit_value_char)
    with False IH show ?thesis
      by (subst (1 2) decimal.simps) (simp add: is_decimal_def digit_value_char)
  qed
qed

lemma decimal_inj: "decimal m = decimal n \<longleftrightarrow> m = n"
  using number_of_decimal by metis

section \<open>Entries\<close>

text \<open>
  A plain file holds bytes, a JSON document or text that does not parse. \<open>Other\<close> is what
  \<open>is_plain_file\<close> and \<open>is_plain_directory\<close> both refuse.
\<close>

datatype content = Binary "byte list" | Json json | Garbled

datatype node = Plain content | Folder "(string \<times> node) list" | Other

type_synonym folder = "(string \<times> node) list"

fun is_plain_file :: "node \<Rightarrow> bool" where
  "is_plain_file (Plain _) = True"
| "is_plain_file _ = False"

fun is_plain_directory :: "node \<Rightarrow> bool" where
  "is_plain_directory (Folder _) = True"
| "is_plain_directory _ = False"

definition entry :: "folder \<Rightarrow> string \<Rightarrow> node option" where
  "entry f n = map_of f n"

definition put :: "string \<Rightarrow> node \<Rightarrow> folder \<Rightarrow> folder" where
  "put n v f = (n, v) # filter (\<lambda>e. fst e \<noteq> n) f"

definition unlink :: "string \<Rightarrow> folder \<Rightarrow> folder" where
  "unlink n f = filter (\<lambda>e. fst e \<noteq> n) f"

definition rename :: "string \<Rightarrow> string \<Rightarrow> folder \<Rightarrow> folder" where
  "rename a b f = (case entry f a of None \<Rightarrow> f | Some v \<Rightarrow> put b v (unlink a f))"

lemma entry_put [simp]: "entry (put n v f) m = (if m = n then Some v else entry f m)"
proof -
  have "map_of (filter (\<lambda>e. fst e \<noteq> n) f) m = map_of f m" if "m \<noteq> n"
    using that by (induction f) auto
  then show ?thesis by (simp add: entry_def put_def)
qed

lemma entry_unlink [simp]: "entry (unlink n f) m = (if m = n then None else entry f m)"
  by (induction f) (auto simp: entry_def unlink_def)

lemma entry_rename [simp]:
  "a \<noteq> b \<Longrightarrow> entry (rename a b f) m =
     (case entry f a of None \<Rightarrow> entry f m
      | Some v \<Rightarrow> if m = b then Some v else if m = a then None else entry f m)"
  by (simp add: rename_def split: option.split)

text \<open>A listing names each entry once.\<close>

definition listing_ok :: "folder \<Rightarrow> bool" where
  "listing_ok f \<longleftrightarrow> distinct (map fst f)"

lemma listing_ok_put [intro]: "listing_ok f \<Longrightarrow> listing_ok (put n v f)"
  by (auto simp: listing_ok_def put_def distinct_map_filter)

lemma listing_ok_unlink [intro]: "listing_ok f \<Longrightarrow> listing_ok (unlink n f)"
  by (simp add: listing_ok_def unlink_def distinct_map_filter)

lemma listing_ok_rename [intro]: "listing_ok f \<Longrightarrow> listing_ok (rename a b f)"
  by (auto simp: rename_def split: option.split)

lemma listed_iff: "listing_ok f \<Longrightarrow> (n, v) \<in> set f \<longleftrightarrow> entry f n = Some v"
  by (auto simp: listing_ok_def entry_def)

text \<open>What \<open>iterdir\<close> and a test on each entry give.\<close>

definition listed :: "(string \<Rightarrow> node \<Rightarrow> bool) \<Rightarrow> folder \<Rightarrow> string list" where
  "listed p f = map fst (filter (\<lambda>(n, v). p n v) f)"

lemma set_listed: "listing_ok f \<Longrightarrow> set (listed p f) = {n. \<exists>v. entry f n = Some v \<and> p n v}"
  by (force simp: listed_def simp flip: listed_iff)

end
