(* ===== verification/VectorIndex.thy ===== *)
theory VectorIndex
  imports Folders "HOL-Library.List_Lexorder" "HOL-Library.Char_ord"
begin

unbundle bit_operations_syntax

text \<open>
  The vector index of one representation space
  (\<open>backend/infrastructure/indexing/representation_index.py\<close>): its files, the manifest that names the
  live one, and the steps that replace one generation by the next. USearch is not under \<open>src/\<close>: what
  the module calls of it, and \<open>hashlib.sha256\<close>, are the fields of an \<open>index_env\<close>; the laws
  \<open>index_env_ok\<close> say that an index holds a key once and that a saved index loads as it was saved. A uuid or time in a manifest that is
  spelled in any other way than the module writes it counts as unreadable.
\<close>

section \<open>Vectors, manifests and the library\<close>

type_synonym vec = "32 word list"   \<comment> \<open>IEEE single precision, by their bits\<close>

type_synonym vec_entries = "(int \<times> vec) list"

definition finite32 :: "32 word \<Rightarrow> bool" where
  "finite32 w \<longleftrightarrow> w AND 0x7F800000 \<noteq> 0x7F800000"

record index_env =
  us_save :: "nat \<Rightarrow> string \<Rightarrow> vec_entries \<Rightarrow> byte list"
  us_header :: "byte list \<Rightarrow> (nat \<times> string) option"   \<comment> \<open>\<open>Index.metadata\<close>; \<open>None\<close> where it raises\<close>
  us_load :: "byte list \<Rightarrow> vec_entries option"
  us_search :: "vec_entries \<Rightarrow> vec \<Rightarrow> nat \<Rightarrow> (int \<times> real) list"
  sha256 :: "byte list \<Rightarrow> string"

definition is_sha256 :: "string \<Rightarrow> bool" where
  "is_sha256 s \<longleftrightarrow> length s = 64 \<and> list_all is_hex s"

definition index_env_ok :: "index_env \<Rightarrow> bool" where
  "index_env_ok env \<longleftrightarrow> (\<forall>b. is_sha256 (sha256 env b)) \<and>
     (\<forall>b es. us_load env b = Some es \<longrightarrow> distinct (map fst es)) \<and>
     (\<forall>ndim metric es. distinct (map fst es) \<longrightarrow>
        us_header env (us_save env ndim metric es) = Some (ndim, metric) \<and>
        us_load env (us_save env ndim metric es) = Some es)"

record manifest =
  m_version :: int
  m_space :: uuid
  m_generation :: uuid
  m_built :: time
  m_ndim :: int
  m_metric :: string
  m_file :: string
  m_size :: int
  m_sha :: string
  m_count :: int

definition manifest_to_json :: "manifest \<Rightarrow> json" where
  "manifest_to_json m = JObj
     [(''index_format_version'', JInt (m_version m)), (''representation_space_id'', JUuid (m_space m)),
      (''generation_id'', JUuid (m_generation m)), (''built_at'', JTime (m_built m)),
      (''ndim'', JInt (m_ndim m)), (''metric'', JStr (m_metric m)), (''index_file'', JStr (m_file m)),
      (''size_bytes'', JInt (m_size m)), (''sha256'', JStr (m_sha m)), (''count'', JInt (m_count m))]"

fun json_integer :: "json option \<Rightarrow> int option" where
  "json_integer (Some (JInt n)) = Some n"
| "json_integer _ = None"

fun json_string :: "json option \<Rightarrow> string option" where
  "json_string (Some (JStr s)) = Some s"
| "json_string _ = None"

fun json_uuid :: "json option \<Rightarrow> uuid option" where
  "json_uuid (Some (JUuid u)) = Some u"
| "json_uuid _ = None"

fun json_time :: "json option \<Rightarrow> time option" where
  "json_time (Some (JTime t)) = Some t"
| "json_time _ = None"

fun json_field :: "json \<Rightarrow> string \<Rightarrow> json option" where
  "json_field (JObj kvs) k = map_of kvs k"
| "json_field _ k = None"

definition manifest_from_json :: "json \<Rightarrow> manifest option" where
  "manifest_from_json j =
     Option.bind (json_string (json_field j ''sha256'')) (\<lambda>sha.
     if \<not> is_sha256 sha then None else
     Option.bind (json_integer (json_field j ''index_format_version'')) (\<lambda>version.
     Option.bind (json_uuid (json_field j ''representation_space_id'')) (\<lambda>space.
     Option.bind (json_uuid (json_field j ''generation_id'')) (\<lambda>generation.
     Option.bind (json_time (json_field j ''built_at'')) (\<lambda>built.
     Option.bind (json_integer (json_field j ''ndim'')) (\<lambda>ndim.
     Option.bind (json_string (json_field j ''metric'')) (\<lambda>metric.
     Option.bind (json_string (json_field j ''index_file'')) (\<lambda>file.
     Option.bind (json_integer (json_field j ''size_bytes'')) (\<lambda>bytes.
     Option.bind (json_integer (json_field j ''count'')) (\<lambda>count.
       Some \<lparr>m_version = version, m_space = space, m_generation = generation, m_built = built, m_ndim = ndim,
             m_metric = metric, m_file = file, m_size = bytes, m_sha = sha, m_count = count\<rparr>))))))))))"

lemma manifest_round_trip: "is_sha256 (m_sha m) \<Longrightarrow> manifest_from_json (manifest_to_json m) = Some m"
  by (simp add: manifest_from_json_def manifest_to_json_def)

lemma manifest_from_json_sha: "manifest_from_json j = Some m \<Longrightarrow> is_sha256 (m_sha m)"
  by (auto simp: manifest_from_json_def Option.bind_eq_Some_conv split: if_splits)

section \<open>Files\<close>

definition index_format_version :: int where
  "index_format_version = 1"

definition manifest_name :: string where
  "manifest_name = ''manifest.json''"

definition staged_name :: string where
  "staged_name = ''manifest.json.tmp''"

definition quarantine_directory :: string where
  "quarantine_directory = ''quarantine''"

definition index_name :: "uuid \<Rightarrow> string" where
  "index_name g = ''index.'' @ uuid_hex g @ ''.usearch''"

text \<open>\<open>_INDEX_FILE.fullmatch\<close>\<close>

definition is_index_name :: "string \<Rightarrow> bool" where
  "is_index_name s \<longleftrightarrow> length s = 46 \<and> take 6 s = ''index.'' \<and> list_all is_hex (take 32 (drop 6 s)) \<and>
     drop 38 s = ''.usearch''"

definition is_own_name :: "string \<Rightarrow> bool" where
  "is_own_name n \<longleftrightarrow> n = manifest_name \<or> is_index_name n"

lemma is_index_name_index_name [simp]: "is_index_name (index_name g)"
  by (simp add: is_index_name_def index_name_def uuid_hex_def hex_digits_hex)

lemma index_name_other [simp]:
  "index_name g \<noteq> manifest_name" "index_name g \<noteq> staged_name" "index_name g \<noteq> quarantine_directory"
  "manifest_name \<noteq> staged_name" "manifest_name \<noteq> quarantine_directory" "staged_name \<noteq> quarantine_directory"
  "\<not> is_index_name manifest_name" "\<not> is_index_name staged_name" "\<not> is_index_name quarantine_directory"
  by (simp_all add: index_name_def manifest_name_def staged_name_def quarantine_directory_def is_index_name_def)

lemma index_name_other' [simp]:
  "manifest_name \<noteq> index_name g" "staged_name \<noteq> index_name g" "staged_name \<noteq> manifest_name"
  using index_name_other by metis+

text \<open>\<open>_unnamed_files\<close>, given the live file's name\<close>

definition unnamed_files :: "string option \<Rightarrow> folder \<Rightarrow> string list" where
  "unnamed_files live f =
     listed (\<lambda>n v. ((is_index_name n \<and> Some n \<noteq> live) \<or> n = staged_name) \<and> is_plain_file v) f"

section \<open>The index in memory\<close>

record vindex =
  vi_space :: uuid
  vi_ndim :: nat
  vi_metric :: string
  vi_entries :: vec_entries
  vi_manifest :: "manifest option"

datatype index_fault =
    NotPlainDirectory | WrongShape nat nat | NotFinite | WrongLength nat nat | BadKey int | KeyTwice int
  | DifferentSpaces | LeftBehind string | Raised string

definition empty_index :: "uuid \<Rightarrow> nat \<Rightarrow> string \<Rightarrow> vindex" where
  "empty_index space ndim metric =
     \<lparr>vi_space = space, vi_ndim = ndim, vi_metric = metric, vi_entries = [], vi_manifest = None\<rparr>"

definition checked_key :: "int \<Rightarrow> index_fault + int" where
  "checked_key k = (if 0 \<le> k \<and> k < 2 ^ 64 then Inr k else Inl (BadKey k))"

definition checked_vector :: "nat \<Rightarrow> vec \<Rightarrow> index_fault + vec" where
  "checked_vector ndim v =
     (if length v \<noteq> ndim then Inl (WrongShape ndim (length v))
      else if list_all finite32 v then Inr v else Inl NotFinite)"

definition vi_contains :: "vindex \<Rightarrow> int \<Rightarrow> bool" where
  "vi_contains ix k \<longleftrightarrow> k \<in> fst ` set (vi_entries ix)"

definition index_add :: "int \<Rightarrow> vec \<Rightarrow> vindex \<Rightarrow> index_fault + bool \<times> vindex" where
  "index_add k v ix =
     bindE (checked_key k) (\<lambda>_. bindE (checked_vector (vi_ndim ix) v) (\<lambda>v.
       if vi_contains ix k then Inr (False, ix)
       else Inr (True, ix\<lparr>vi_entries := vi_entries ix @ [(k, v)]\<rparr>)))"

definition index_remove :: "int \<Rightarrow> vindex \<Rightarrow> index_fault + bool \<times> vindex" where
  "index_remove k ix =
     bindE (checked_key k) (\<lambda>_.
       Inr (vi_contains ix k, ix\<lparr>vi_entries := filter (\<lambda>e. fst e \<noteq> k) (vi_entries ix)\<rparr>))"

definition index_contains :: "int \<Rightarrow> vindex \<Rightarrow> index_fault + bool" where
  "index_contains k ix = bindE (checked_key k) (\<lambda>_. Inr (vi_contains ix k))"

definition index_search :: "index_env \<Rightarrow> vec \<Rightarrow> nat \<Rightarrow> vindex \<Rightarrow> index_fault + (int \<times> real) list" where
  "index_search env v k ix =
     (if k < 1 then Inl (Raised ''k must be at least 1'')
      else bindE (checked_vector (vi_ndim ix) v) (\<lambda>v. Inr (us_search env (vi_entries ix) v k)))"

definition index_ok :: "vindex \<Rightarrow> bool" where
  "index_ok ix \<longleftrightarrow> distinct (map fst (vi_entries ix))"

section \<open>Opening\<close>

datatype unusable =
    NotPlainFolder | ManifestNotPlain | NoManifest | ManifestUnreadable | UnsupportedFormat | OtherSpace
  | OtherShape | OtherFile | FileMissing | SizeDiffers | DigestDiffers | NotLoadable | HeaderShape
  | HeaderMetric | CountDiffers

definition open_file ::
  "index_env \<Rightarrow> manifest \<Rightarrow> uuid \<Rightarrow> nat \<Rightarrow> string \<Rightarrow> byte list \<Rightarrow> unusable + vindex" where
  "open_file env m space ndim metric b =
     (if int (length b) \<noteq> m_size m then Inl SizeDiffers
      else if sha256 env b \<noteq> m_sha m then Inl DigestDiffers
      else case (us_header env b, us_load env b) of
        (Some (hdim, hmetric), Some es) \<Rightarrow>
          if hdim \<noteq> ndim then Inl HeaderShape
          else if hmetric \<noteq> metric then Inl HeaderMetric
          else if int (length es) \<noteq> m_count m then Inl CountDiffers
          else Inr \<lparr>vi_space = space, vi_ndim = ndim, vi_metric = metric, vi_entries = es, vi_manifest = Some m\<rparr>
      | _ \<Rightarrow> Inl NotLoadable)"

definition open_generation ::
  "index_env \<Rightarrow> manifest \<Rightarrow> node option \<Rightarrow> uuid \<Rightarrow> nat \<Rightarrow> string \<Rightarrow> unusable + vindex" where
  "open_generation env m file space ndim metric =
     (if m_version m \<noteq> index_format_version then Inl UnsupportedFormat
      else if m_space m \<noteq> space then Inl OtherSpace
      else if m_ndim m \<noteq> int ndim \<or> m_metric m \<noteq> metric then Inl OtherShape
      else if m_file m \<noteq> index_name (m_generation m) then Inl OtherFile
      else case file of
        Some (Plain (Binary b)) \<Rightarrow> open_file env m space ndim metric b
      | Some (Plain _) \<Rightarrow> Inl DigestDiffers
      | _ \<Rightarrow> Inl FileMissing)"

definition manifest_in :: "folder \<Rightarrow> unusable + manifest" where
  "manifest_in f =
     (case entry f manifest_name of
        None \<Rightarrow> Inl NoManifest
      | Some (Plain (Json j)) \<Rightarrow>
          (case manifest_from_json j of None \<Rightarrow> Inl ManifestUnreadable | Some m \<Rightarrow> Inr m)
      | Some (Plain _) \<Rightarrow> Inl ManifestUnreadable
      | Some _ \<Rightarrow> Inl ManifestNotPlain)"

definition open_folder :: "index_env \<Rightarrow> folder \<Rightarrow> uuid \<Rightarrow> nat \<Rightarrow> string \<Rightarrow> unusable + vindex" where
  "open_folder env f space ndim metric =
     bindE (manifest_in f) (\<lambda>m. open_generation env m (entry f (m_file m)) space ndim metric)"

definition open_index :: "index_env \<Rightarrow> node option \<Rightarrow> uuid \<Rightarrow> nat \<Rightarrow> string \<Rightarrow> unusable + vindex" where
  "open_index env dir space ndim metric =
     (case dir of
        None \<Rightarrow> Inl NoManifest
      | Some (Folder f) \<Rightarrow> open_folder env f space ndim metric
      | Some _ \<Rightarrow> Inl NotPlainFolder)"

section \<open>Persisting a generation\<close>

definition manifest_of :: "index_env \<Rightarrow> uuid \<Rightarrow> time \<Rightarrow> vindex \<Rightarrow> manifest" where
  "manifest_of env g now ix =
     (let b = us_save env (vi_ndim ix) (vi_metric ix) (vi_entries ix) in
      \<lparr>m_version = index_format_version, m_space = vi_space ix, m_generation = g, m_built = now,
       m_ndim = int (vi_ndim ix), m_metric = vi_metric ix, m_file = index_name g, m_size = int (length b),
       m_sha = sha256 env b, m_count = int (length (vi_entries ix))\<rparr>)"

text \<open>
  The writes of \<open>persist\<close>, each of which a crash or an \<open>OSError\<close> may be the first not to happen. A
  file that is being written holds \<open>torn\<close> bytes, or text that does not parse, before it is whole.
\<close>

definition publish_steps :: "index_env \<Rightarrow> uuid \<Rightarrow> time \<Rightarrow> byte list \<Rightarrow> vindex \<Rightarrow> (folder \<Rightarrow> folder) list" where
  "publish_steps env g now torn ix =
     [put (index_name g) (Plain (Binary torn)),
      put (index_name g) (Plain (Binary (us_save env (vi_ndim ix) (vi_metric ix) (vi_entries ix)))),
      put staged_name (Plain Garbled),
      put staged_name (Plain (Json (manifest_to_json (manifest_of env g now ix)))),
      rename staged_name manifest_name]"

definition run_steps :: "(folder \<Rightarrow> folder) list \<Rightarrow> folder \<Rightarrow> folder" where
  "run_steps ss f = fold (\<lambda>s. s) ss f"

text \<open>\<open>remove_leftovers\<close>: a file whose \<open>unlink\<close> fails (\<open>locked\<close>) is skipped.\<close>

definition removal_steps :: "(string \<Rightarrow> bool) \<Rightarrow> string option \<Rightarrow> folder \<Rightarrow> (folder \<Rightarrow> folder) list" where
  "removal_steps locked live f = map unlink (filter (\<lambda>n. \<not> locked n) (unnamed_files live f))"

definition remove_leftovers :: "(string \<Rightarrow> bool) \<Rightarrow> string option \<Rightarrow> folder \<Rightarrow> folder" where
  "remove_leftovers locked live f = run_steps (removal_steps locked live f) f"

definition live_name :: "vindex \<Rightarrow> string option" where
  "live_name ix = map_option m_file (vi_manifest ix)"

definition stale_files :: "vindex \<Rightarrow> node option \<Rightarrow> string list" where
  "stale_files ix dir = (case dir of Some (Folder f) \<Rightarrow> unnamed_files (live_name ix) f | _ \<Rightarrow> [])"

definition persist_steps ::
  "index_env \<Rightarrow> uuid \<Rightarrow> time \<Rightarrow> byte list \<Rightarrow> (string \<Rightarrow> bool) \<Rightarrow> vindex \<Rightarrow> folder \<Rightarrow> (folder \<Rightarrow> folder) list" where
  "persist_steps env g now torn locked ix f =
     (let publish = publish_steps env g now torn ix
      in publish @ removal_steps locked (Some (index_name g)) (run_steps publish f))"

text \<open>
  What the outside decides in one call: the generation id, the clock, the first write that raises
  (if any) with what it left behind, and the files that are locked.
\<close>

record disk =
  dk_generation :: uuid
  dk_now :: time
  dk_fault :: "nat option"
  dk_torn :: "byte list"
  dk_locked :: "string \<Rightarrow> bool"

definition persist :: "index_env \<Rightarrow> disk \<Rightarrow> vindex \<Rightarrow> node option \<Rightarrow> (index_fault + vindex) \<times> node option" where
  "persist env k ix dir =
     (let run = (\<lambda>f. let steps = persist_steps env (dk_generation k) (dk_now k) (dk_torn k) (dk_locked k) ix f in
        case dk_fault k of
          Some n \<Rightarrow> (Inl (Raised ''OSError''), Some (Folder (run_steps (take n steps) f)))
        | None \<Rightarrow> (Inr (ix\<lparr>vi_manifest := Some (manifest_of env (dk_generation k) (dk_now k) ix)\<rparr>),
                   Some (Folder (run_steps steps f))))
      in case dir of
        None \<Rightarrow> run []
      | Some (Folder f) \<Rightarrow> run f
      | Some _ \<Rightarrow> (Inl NotPlainDirectory, dir))"

section \<open>Building, quarantine, opening for the writer\<close>

fun add_all :: "vec_entries \<Rightarrow> vindex \<Rightarrow> index_fault + vindex" where
  "add_all [] ix = Inr ix"
| "add_all ((k, v) # es) ix =
     bindE (index_add k v ix) (\<lambda>(added, ix'). if added then add_all es ix' else Inl (KeyTwice k))"

definition build_index ::
  "index_env \<Rightarrow> disk \<Rightarrow> uuid \<Rightarrow> nat \<Rightarrow> string \<Rightarrow> vec_entries \<Rightarrow> node option \<Rightarrow> (index_fault + vindex) \<times> node option" where
  "build_index env k space ndim metric es dir =
     (case add_all es (empty_index space ndim metric) of
        Inl e \<Rightarrow> (Inl e, dir)
      | Inr ix \<Rightarrow> persist env k ix dir)"

text \<open>\<open>quarantine\<close>: the index's own plain files move to a new numbered folder. A locked one stays.\<close>

definition next_number :: "folder \<Rightarrow> nat" where
  "next_number q = 1 + fold max (map number_of (listed (\<lambda>n v. is_decimal n \<and> is_plain_directory v) q)) 0"

definition move_own :: "(string \<Rightarrow> bool) \<Rightarrow> folder \<Rightarrow> folder" where
  "move_own locked f = filter (\<lambda>(n, v). is_own_name n \<and> is_plain_file v \<and> \<not> locked n) f"

definition quarantine :: "(string \<Rightarrow> bool) \<Rightarrow> node option \<Rightarrow> (index_fault + bool) \<times> node option" where
  "quarantine locked dir =
     (case dir of
        Some (Folder f) \<Rightarrow>
          if listed (\<lambda>n v. is_own_name n \<and> is_plain_file v) f = [] then (Inr False, dir)
          else
            let into = (\<lambda>q. let moved = move_own locked f;
                  rest = filter (\<lambda>(n, v). n \<notin> fst ` set moved) f
                in if entry q (decimal (next_number q)) \<noteq> None then (Inl (Raised ''FileExistsError''), dir)
                   else (Inr (moved \<noteq> []),
                    Some (Folder (put quarantine_directory
                       (Folder (put (decimal (next_number q)) (Folder moved) q)) rest))))
            in (case entry f quarantine_directory of
                  None \<Rightarrow> into []
                | Some (Folder q) \<Rightarrow> into q
                | Some _ \<Rightarrow> (Inr False, dir))
      | _ \<Rightarrow> (Inr False, dir))"

text \<open>With the index: whether it was rebuilt. \<open>entries\<close> is read only then.\<close>

definition open_or_rebuild ::
  "index_env \<Rightarrow> disk \<Rightarrow> uuid \<Rightarrow> nat \<Rightarrow> string \<Rightarrow> vec_entries \<Rightarrow> node option \<Rightarrow> (index_fault + vindex \<times> bool) \<times> node option" where
  "open_or_rebuild env k space ndim metric es dir =
     (case open_index env dir space ndim metric of
        Inl _ \<Rightarrow>
          (case quarantine (dk_locked k) dir of
             (Inl e, dir') \<Rightarrow> (Inl e, dir')
           | (Inr _, dir') \<Rightarrow>
               (case build_index env k space ndim metric es dir' of
                  (Inl e, dir'') \<Rightarrow> (Inl e, dir'')
                | (Inr ix, dir'') \<Rightarrow> (Inr (ix, True), dir'')))
      | Inr ix \<Rightarrow>
          (Inr (ix, False),
           case dir of Some (Folder f) \<Rightarrow> Some (Folder (remove_leftovers (dk_locked k) (live_name ix) f)) | _ \<Rightarrow> dir))"

section \<open>What erasure asks of the files\<close>

text \<open>\<open>superseded_files\<close>: by the manifest as it is on disk now\<close>

definition superseded_files :: "node option \<Rightarrow> string list" where
  "superseded_files dir =
     (case dir of
        Some (Folder f) \<Rightarrow>
          sort (unnamed_files (case manifest_in f of Inr m \<Rightarrow> Some (m_file m) | Inl _ \<Rightarrow> None) f)
      | _ \<Rightarrow> [])"

definition quarantined :: "folder \<Rightarrow> string list" where
  "quarantined q =
     concat (map (\<lambda>(b, v). case v of Folder xs \<Rightarrow> sort (listed (\<lambda>n _. is_own_name n) xs) | _ \<Rightarrow> [b]) (sort_key fst q))"

definition retire_batch :: "(string list \<Rightarrow> bool) \<Rightarrow> string \<times> node \<Rightarrow> folder" where
  "retire_batch locked bv =
     (case bv of
        (b, Folder xs) \<Rightarrow>
          (let left = filter (\<lambda>(n, v). \<not> (is_own_name n \<and> is_plain_file v \<and> \<not> locked [b, n])) xs
           in if left = [] \<and> \<not> locked [b] then [] else [(b, Folder left)])
      | _ \<Rightarrow> [bv])"

definition retire_quarantine :: "(string list \<Rightarrow> bool) \<Rightarrow> node option \<Rightarrow> string list \<times> node option" where
  "retire_quarantine locked dir =
     (case dir of
        Some (Folder f) \<Rightarrow>
          (case entry f quarantine_directory of
             None \<Rightarrow> ([], dir)
           | Some (Folder q) \<Rightarrow>
               (let left = concat (map (retire_batch locked) q)
                in if left = [] \<and> \<not> locked [] then ([], Some (Folder (unlink quarantine_directory f)))
                   else (quarantined left, Some (Folder (put quarantine_directory (Folder left) f))))
           | Some _ \<Rightarrow> ([quarantine_directory], dir))
      | _ \<Rightarrow> ([], dir))"

section \<open>Crashes\<close>

lemma run_steps_append [simp]: "run_steps (xs @ ys) f = run_steps ys (run_steps xs f)"
  by (simp add: run_steps_def)

lemma run_steps_Nil [simp]: "run_steps [] f = f"
  by (simp add: run_steps_def)

lemma run_steps_Cons [simp]: "run_steps (s # ss) f = run_steps ss (s f)"
  by (simp add: run_steps_def)

lemma run_unlinks:
  "entry (run_steps (map unlink ns) f) n = (if n \<in> set ns then None else entry f n)"
  by (induction ns arbitrary: f) auto

lemma open_folder_cong:
  assumes "entry f manifest_name = entry f' manifest_name"
    and "\<And>m. manifest_in f = Inr m \<Longrightarrow> entry f (m_file m) = entry f' (m_file m)"
  shows "open_folder env f space ndim metric = open_folder env f' space ndim metric"
proof -
  have "manifest_in f' = manifest_in f" using assms(1) by (simp add: manifest_in_def)
  with assms(2) show ?thesis by (cases "manifest_in f") (auto simp: open_folder_def)
qed

lemma manifest_of_simps [simp]:
  "m_file (manifest_of env g now ix) = index_name g" "m_generation (manifest_of env g now ix) = g"
  "m_sha (manifest_of env g now ix) = sha256 env (us_save env (vi_ndim ix) (vi_metric ix) (vi_entries ix))"
  "m_version (manifest_of env g now ix) = index_format_version" "m_space (manifest_of env g now ix) = vi_space ix"
  "m_ndim (manifest_of env g now ix) = int (vi_ndim ix)" "m_metric (manifest_of env g now ix) = vi_metric ix"
  "m_size (manifest_of env g now ix) = int (length (us_save env (vi_ndim ix) (vi_metric ix) (vi_entries ix)))"
  "m_count (manifest_of env g now ix) = int (length (vi_entries ix))"
  by (simp_all add: manifest_of_def Let_def)

text \<open>A folder that holds a generation and its manifest opens as the index that was saved.\<close>

lemma open_published:
  assumes "index_env_ok env" and "index_ok ix"
    and "entry f manifest_name = Some (Plain (Json (manifest_to_json (manifest_of env g now ix))))"
    and "entry f (index_name g) = Some (Plain (Binary (us_save env (vi_ndim ix) (vi_metric ix) (vi_entries ix))))"
  shows "open_folder env f (vi_space ix) (vi_ndim ix) (vi_metric ix) =
    Inr (ix\<lparr>vi_manifest := Some (manifest_of env g now ix)\<rparr>)"
proof -
  let ?m = "manifest_of env g now ix"
  have "manifest_in f = Inr ?m"
    using assms(1,3) by (simp add: manifest_in_def manifest_round_trip index_env_ok_def)
  then show ?thesis
    using assms(1,2,4)
    by (simp add: open_folder_def open_generation_def open_file_def index_env_ok_def index_ok_def)
qed

text \<open>A generation id nothing in the folder names.\<close>

definition fresh_generation :: "uuid \<Rightarrow> folder \<Rightarrow> bool" where
  "fresh_generation g f \<longleftrightarrow>
     (case manifest_in f of Inl _ \<Rightarrow> True | Inr m \<Rightarrow> m_file m \<noteq> index_name g \<and> m_file m \<noteq> staged_name)"

lemma take_publish:
  assumes "k < 5" and "fresh_generation g f"
  shows "open_folder env (run_steps (take k (publish_steps env' g now torn ix)) f) space ndim metric =
    open_folder env f space ndim metric"
proof (rule open_folder_cong)
  let ?f = "run_steps (take k (publish_steps env' g now torn ix)) f"
  have e: "entry ?f n = entry f n" if "n \<noteq> index_name g" "n \<noteq> staged_name" for n
    using assms(1) that
    by (cases k rule: nat.exhaust; simp add: publish_steps_def; simp add: take_Cons' split: if_splits)
  then show "entry ?f manifest_name = entry f manifest_name" by simp
  fix m
  assume "manifest_in ?f = Inr m"
  then have "manifest_in f = Inr m" using e [of manifest_name] by (simp add: manifest_in_def)
  then show "entry ?f (m_file m) = entry f (m_file m)"
    using assms(2) e [of "m_file m"] by (simp add: fresh_generation_def)
qed

lemma publish_entries:
  "entry (run_steps (publish_steps env g now torn ix) f) n =
    (if n = index_name g then Some (Plain (Binary (us_save env (vi_ndim ix) (vi_metric ix) (vi_entries ix))))
     else if n = manifest_name then Some (Plain (Json (manifest_to_json (manifest_of env g now ix))))
     else if n = staged_name then None else entry f n)"
  by (simp add: publish_steps_def)

lemma publish_listing: "listing_ok f \<Longrightarrow> listing_ok (run_steps (publish_steps env g now torn ix) f)"
  by (simp add: publish_steps_def) (intro listing_ok_put listing_ok_rename)

lemma removal_entries:
  assumes "listing_ok f"
  shows "entry (run_steps (removal_steps locked live f) f) n =
    (if n \<in> set (unnamed_files live f) \<and> \<not> locked n then None else entry f n)"
  using assms by (auto simp: removal_steps_def run_unlinks)

lemma removal_prefix_keeps:
  assumes "n \<notin> set (unnamed_files live f)"
  shows "entry (run_steps (take k (removal_steps locked live f)) f) n = entry f n"
proof -
  have "take k (removal_steps locked live f) = map unlink (take k (filter (\<lambda>n. \<not> locked n) (unnamed_files live f)))"
    by (simp add: removal_steps_def take_map)
  with assms show ?thesis by (auto simp: run_unlinks dest: in_set_takeD)
qed

lemma unnamed_iff:
  "listing_ok f \<Longrightarrow> n \<in> set (unnamed_files live f) \<longleftrightarrow>
     (is_index_name n \<and> Some n \<noteq> live \<or> n = staged_name) \<and> (\<exists>v. entry f n = Some v \<and> is_plain_file v)"
  by (auto simp: unnamed_files_def set_listed)

lemma listing_ok_unlinks: "listing_ok f \<Longrightarrow> listing_ok (run_steps (map unlink ns) f)"
  by (induction ns arbitrary: f) (auto simp: listing_ok_unlink)

lemma removal_listing: "listing_ok f \<Longrightarrow> listing_ok (run_steps (removal_steps locked live f) f)"
  by (simp add: removal_steps_def listing_ok_unlinks)

lemma persist_steps_done:
  assumes "index_env_ok env" and "index_ok ix" and "listing_ok f" and "5 \<le> k"
  shows "open_folder env (run_steps (take k (persist_steps env g now torn locked ix f)) f)
      (vi_space ix) (vi_ndim ix) (vi_metric ix) = Inr (ix\<lparr>vi_manifest := Some (manifest_of env g now ix)\<rparr>)"
proof -
  let ?p = "run_steps (publish_steps env g now torn ix) f"
  have len: "length (publish_steps env g now torn ix) = 5" by (simp add: publish_steps_def)
  have "take k (persist_steps env g now torn locked ix f) =
      publish_steps env g now torn ix @ take (k - 5) (removal_steps locked (Some (index_name g)) ?p)"
    using assms(4) len by (simp add: persist_steps_def Let_def)
  then have "run_steps (take k (persist_steps env g now torn locked ix f)) f =
      run_steps (take (k - 5) (removal_steps locked (Some (index_name g)) ?p)) ?p" by simp
  moreover have "n \<notin> set (unnamed_files (Some (index_name g)) ?p)" if "n = manifest_name \<or> n = index_name g" for n
    using that assms(3) by (auto simp: unnamed_iff publish_listing)
  ultimately show ?thesis
    by (intro open_published [OF assms(1,2)]) (simp_all add: removal_prefix_keeps publish_entries)
qed

lemma persist_steps_files:
  assumes "listing_ok f" and "n \<in> set (unnamed_files (Some (index_name g)) (run_steps (persist_steps env g now torn locked ix f) f))"
  shows "locked n"
proof -
  let ?p = "run_steps (publish_steps env g now torn ix) f"
  have p: "listing_ok ?p" using assms(1) by (rule publish_listing)
  have "run_steps (persist_steps env g now torn locked ix f) f =
      run_steps (removal_steps locked (Some (index_name g)) ?p) ?p"
    by (simp add: persist_steps_def Let_def)
  with assms(2) show ?thesis
    using p by (auto simp: unnamed_iff removal_listing removal_entries split: if_splits)
qed

text \<open>
  C31. Replacing an index generation is atomic. Stop \<open>persist\<close> after any number of its writes, in the
  middle of a file as well: opening the directory gives exactly what it gave before, or the new
  index, entry for entry, with its manifest; never a refusal that was not there and never a mixture.
  Once all writes are done it is the new index, and every index file or staged manifest the new
  manifest does not name is gone, except one whose deletion the system refused.
\<close>

theorem persisting_is_atomic:
  assumes "index_env_ok env" and "index_ok ix" and "listing_ok f" and "fresh_generation g f"
  shows "(\<forall>k. let f' = run_steps (take k (persist_steps env g now torn locked ix f)) f;
               opened = open_folder env f' (vi_space ix) (vi_ndim ix) (vi_metric ix)
           in opened = open_folder env f (vi_space ix) (vi_ndim ix) (vi_metric ix) \<or>
              opened = Inr (ix\<lparr>vi_manifest := Some (manifest_of env g now ix)\<rparr>)) \<and>
    (let f' = run_steps (persist_steps env g now torn locked ix f) f
     in open_folder env f' (vi_space ix) (vi_ndim ix) (vi_metric ix) =
          Inr (ix\<lparr>vi_manifest := Some (manifest_of env g now ix)\<rparr>) \<and>
        list_all locked (unnamed_files (Some (index_name g)) f'))"
proof -
  let ?s = "persist_steps env g now torn locked ix f"
  let ?new = "Inr (ix\<lparr>vi_manifest := Some (manifest_of env g now ix)\<rparr>) :: unusable + vindex"
  have len: "length (publish_steps env g now torn ix) = 5" by (simp add: publish_steps_def)
  have before: "run_steps (take k ?s) f = run_steps (take k (publish_steps env g now torn ix)) f" if "k < 5" for k
    using that len by (simp add: persist_steps_def Let_def)
  have any: "open_folder env (run_steps (take k ?s) f) (vi_space ix) (vi_ndim ix) (vi_metric ix) =
      open_folder env f (vi_space ix) (vi_ndim ix) (vi_metric ix) \<or>
      open_folder env (run_steps (take k ?s) f) (vi_space ix) (vi_ndim ix) (vi_metric ix) = ?new" for k
    using before [of k] take_publish [OF _ assms(4)] persist_steps_done [OF assms(1-3)]
    by (cases "k < 5") auto
  have "length ?s \<ge> 5" using len by (simp add: persist_steps_def Let_def)
  then have "open_folder env (run_steps ?s f) (vi_space ix) (vi_ndim ix) (vi_metric ix) = ?new"
    using persist_steps_done [OF assms(1-3), where k = "length ?s" and g = g and now = now and torn = torn
        and locked = locked] by simp
  moreover have "list_all locked (unnamed_files (Some (index_name g)) (run_steps ?s f))"
    unfolding list_all_iff by (intro ballI persist_steps_files [OF assms(3)])
  ultimately show ?thesis using any by (simp add: Let_def)
qed

text \<open>An index library that keeps the laws: it writes numbers in unary.\<close>

definition unary :: "nat \<Rightarrow> byte list" where
  "unary n = replicate n 1 @ [0]"

fun numbers :: "nat \<Rightarrow> byte list \<Rightarrow> nat list" where
  "numbers n [] = []"
| "numbers n (b # bs) = (if b = 0 then n # numbers 0 bs else numbers (Suc n) bs)"

lemma numbers_unary: "numbers a (unary n @ bs) = (a + n) # numbers 0 bs"
  by (induction n arbitrary: a) (simp_all add: unary_def)

lemma numbers_unaries: "numbers 0 (concat (map unary ns)) = ns"
  by (induction ns) (simp_all add: numbers_unary)

definition entry_numbers :: "int \<times> vec \<Rightarrow> nat list" where
  "entry_numbers e = (if fst e < 0 then 1 else 0) # nat \<bar>fst e\<bar> # length (snd e) # map unat (snd e)"

fun entries_of :: "nat \<Rightarrow> nat list \<Rightarrow> vec_entries" where
  "entries_of (Suc c) (s # k # l # ns) =
     ((if s = 0 then int k else - int k), map word_of_nat (take l ns)) # entries_of c (drop l ns)"
| "entries_of _ _ = []"

lemma entries_of_numbers: "entries_of (length es) (concat (map entry_numbers es)) = es"
  by (induction es) (auto simp: entry_numbers_def comp_def split_beta prod_eq_iff)

definition unary_env :: index_env where
  "unary_env =
     \<lparr>us_save = (\<lambda>ndim metric es. concat (map unary
          ([ndim, length metric] @ map of_char metric @ [length es] @ concat (map entry_numbers es)))),
      us_header = (\<lambda>b. case numbers 0 b of
          ndim # l # ns \<Rightarrow> Some (ndim, map char_of (take l ns)) | _ \<Rightarrow> None),
      us_load = (\<lambda>b. case numbers 0 b of
          _ # l # ns \<Rightarrow> (case drop l ns of
              c # ns' \<Rightarrow> let es = entries_of c ns' in if distinct (map fst es) then Some es else None
            | [] \<Rightarrow> None)
        | _ \<Rightarrow> None),
      us_search = (\<lambda>es v k. take k (map (\<lambda>e. (fst e, 0)) es)),
      sha256 = (\<lambda>b. replicate 64 (CHR ''0''))\<rparr>"

lemma unary_env_ok: "index_env_ok unary_env"
proof -
  have "map (char_of :: nat \<Rightarrow> char) (map of_char s) = s" for s :: string
    by (induction s) auto
  moreover have "us_load unary_env b = Some es \<Longrightarrow> distinct (map fst es)" for b es
    by (auto simp: unary_env_def Let_def split: list.split_asm if_split_asm)
  ultimately show ?thesis unfolding index_env_ok_def
    by (simp add: unary_env_def numbers_unary numbers_unaries entries_of_numbers is_sha256_def
        is_hex_def list_all_iff set_replicate_conv_if del: map_map map_append concat_append)
qed

definition sample_index :: vindex where
  "sample_index = \<lparr>vi_space = 5, vi_ndim = 1, vi_metric = ''cos'', vi_entries = [(1, [2])], vi_manifest = None\<rparr>"

text \<open>The sample saved as generation 7: its folder, with a leftover of an earlier generation.\<close>

definition sample_folder :: folder where
  "sample_folder =
     (index_name 3, Plain (Binary [])) #
     run_steps (publish_steps unary_env 7 4 [] sample_index) []"

lemma persisting_is_atomic_witness:
  "let ix = sample_index\<lparr>vi_entries := [(1, [2]), (2, [3])]\<rparr>;
       f = run_steps (persist_steps unary_env 8 9 [1] (\<lambda>n. n = index_name 3) ix sample_folder) sample_folder
   in open_folder unary_env sample_folder 5 1 ''cos'' \<noteq> open_folder unary_env f 5 1 ''cos'' \<and>
      open_folder unary_env f 5 1 ''cos'' = Inr (ix\<lparr>vi_manifest := Some (manifest_of unary_env 8 9 ix)\<rparr>) \<and>
      unnamed_files (Some (index_name 8)) f = [index_name 3]"
proof -
  let ?ix = "sample_index\<lparr>vi_entries := [(1, [2]), (2, [3])]\<rparr>"
  let ?f = "run_steps (persist_steps unary_env 8 9 [1] (\<lambda>n. n = index_name 3) ?ix sample_folder) sample_folder"
  have "index_ok ?ix" "listing_ok sample_folder" "fresh_generation 8 sample_folder" by code_simp+
  note new = persisting_is_atomic [OF unary_env_ok this, of 9 "[1]" "\<lambda>n. n = index_name 3"]
  have "vi_space ?ix = 5" "vi_ndim ?ix = 1" "vi_metric ?ix = ''cos''" by (simp_all add: sample_index_def)
  with new have "open_folder unary_env ?f 5 1 ''cos'' = Inr (?ix\<lparr>vi_manifest := Some (manifest_of unary_env 8 9 ?ix)\<rparr>)"
    by (simp add: Let_def)
  moreover have "open_folder unary_env sample_folder 5 1 ''cos'' \<noteq>
      Inr (?ix\<lparr>vi_manifest := Some (manifest_of unary_env 8 9 ?ix)\<rparr>)" by code_simp
  moreover have "unnamed_files (Some (index_name 8)) ?f = [index_name 3]" by code_simp
  ultimately show ?thesis by (simp add: Let_def)
qed

section \<open>What each call leaves behind\<close>

definition dir_ok :: "node option \<Rightarrow> bool" where
  "dir_ok dir \<longleftrightarrow> (case dir of Some (Folder f) \<Rightarrow> listing_ok f | _ \<Rightarrow> True)"

lemma dir_ok_simps [simp]: "dir_ok None" "dir_ok (Some (Folder f)) = listing_ok f"
  by (simp_all add: dir_ok_def)

text \<open>The index on disk: what opening it gives.\<close>

definition holds :: "index_env \<Rightarrow> node option \<Rightarrow> vindex \<Rightarrow> bool" where
  "holds env dir ix \<longleftrightarrow> open_index env dir (vi_space ix) (vi_ndim ix) (vi_metric ix) = Inr ix"

lemma open_file_Inr:
  "open_file env m space ndim metric b = Inr ix \<Longrightarrow>
     vi_space ix = space \<and> vi_ndim ix = ndim \<and> vi_metric ix = metric \<and> vi_manifest ix = Some m"
  by (auto simp: open_file_def split: if_split_asm option.split_asm prod.split_asm)

lemma open_generation_Inr:
  assumes "open_generation env m file space ndim metric = Inr ix"
  shows "vi_space ix = space \<and> vi_ndim ix = ndim \<and> vi_metric ix = metric \<and> vi_manifest ix = Some m \<and> is_index_name (m_file m)"
proof -
  have "m_file m = index_name (m_generation m)" and "\<exists>b. open_file env m space ndim metric b = Inr ix"
    using assms by (auto simp: open_generation_def split: if_split_asm option.split_asm node.split_asm content.split_asm)
  then show ?thesis using open_file_Inr by fastforce
qed

lemma open_index_frame:
  assumes "open_index env dir space ndim metric = Inr ix"
  shows "vi_space ix = space" "vi_ndim ix = ndim" "vi_metric ix = metric" "holds env dir ix"
    and "\<exists>f m. dir = Some (Folder f) \<and> manifest_in f = Inr m \<and> vi_manifest ix = Some m \<and> is_index_name (m_file m)"
proof -
  obtain f m where f: "dir = Some (Folder f)" "manifest_in f = Inr m"
      "open_generation env m (entry f (m_file m)) space ndim metric = Inr ix"
    using assms by (auto simp: open_index_def open_folder_def bindE_Inr_iff split: option.split_asm node.split_asm)
  note g = open_generation_Inr [OF f(3)]
  from g show "vi_space ix = space" "vi_ndim ix = ndim" "vi_metric ix = metric" by simp_all
  then show "holds env dir ix" using assms by (simp add: holds_def)
  show "\<exists>f m. dir = Some (Folder f) \<and> manifest_in f = Inr m \<and> vi_manifest ix = Some m \<and> is_index_name (m_file m)"
    using f g by blast
qed

lemma superseded_files_of_opened:
  "holds env dir ix \<Longrightarrow> superseded_files dir = sort (stale_files ix dir)"
  using open_index_frame(5) by (fastforce simp: holds_def superseded_files_def stale_files_def live_name_def)

lemma manifest_in_keep: "entry f manifest_name = entry f' manifest_name \<Longrightarrow> manifest_in f = manifest_in f'"
  by (simp add: manifest_in_def)

lemma remove_leftovers_keeps:
  assumes "holds env (Some (Folder f)) ix" and "listing_ok f"
  shows "holds env (Some (Folder (remove_leftovers locked (live_name ix) f))) ix"
    and "listing_ok (remove_leftovers locked (live_name ix) f)"
proof -
  obtain m where m: "manifest_in f = Inr m" "vi_manifest ix = Some m" "is_index_name (m_file m)"
    using open_index_frame(5) assms(1) by (fastforce simp: holds_def)
  have "entry (remove_leftovers locked (live_name ix) f) n = entry f n" if "n = manifest_name \<or> n = m_file m" for n
    using that m(2,3) assms(2)
    by (auto simp: remove_leftovers_def removal_entries unnamed_iff live_name_def)
  with m(1) show "holds env (Some (Folder (remove_leftovers locked (live_name ix) f))) ix"
    using assms(1) unfolding holds_def open_index_def option.case node.case
    by (subst open_folder_cong [of _ f]) (simp_all cong: manifest_in_keep)
  show "listing_ok (remove_leftovers locked (live_name ix) f)"
    using assms(2) by (simp add: remove_leftovers_def removal_listing)
qed

lemma persist_Inr:
  assumes "index_env_ok env" and "index_ok ix" and "dir_ok dir" and "persist env k ix dir = (Inr ix', dir')"
  shows "ix' = ix\<lparr>vi_manifest := vi_manifest ix'\<rparr>" and "holds env dir' ix'" and "dir_ok dir'"
proof -
  obtain f where f: "listing_ok f" "dir = None \<and> f = [] \<or> dir = Some (Folder f)"
    using assms(3,4) by (cases dir) (auto simp: persist_def listing_ok_def split: node.splits)
  let ?s = "persist_steps env (dk_generation k) (dk_now k) (dk_torn k) (dk_locked k) ix f"
  have r: "ix' = ix\<lparr>vi_manifest := Some (manifest_of env (dk_generation k) (dk_now k) ix)\<rparr>"
      "dir' = Some (Folder (run_steps ?s f))"
    using assms(4) f(2) by (auto simp: persist_def Let_def split: option.splits)
  have "5 \<le> length ?s" by (simp add: persist_steps_def publish_steps_def Let_def)
  from persist_steps_done [OF assms(1,2) f(1) this, where g = "dk_generation k" and now = "dk_now k"
      and torn = "dk_torn k" and locked = "dk_locked k"]
  show "holds env dir' ix'" by (simp add: r holds_def open_index_def)
  show "dir_ok dir'"
    using f(1) by (simp add: r persist_steps_def Let_def removal_listing publish_listing)
  show "ix' = ix\<lparr>vi_manifest := vi_manifest ix'\<rparr>" by (simp add: r)
qed

lemma manifest_frame:
  "ix' = ix\<lparr>vi_manifest := m\<rparr> \<Longrightarrow> vi_space ix' = vi_space ix \<and> vi_ndim ix' = vi_ndim ix \<and>
     vi_metric ix' = vi_metric ix \<and> vi_entries ix' = vi_entries ix"
  by simp

lemma index_add_Inr:
  assumes "index_add k v ix = Inr (b, ix')"
  shows "ix' = (if b then ix\<lparr>vi_entries := vi_entries ix @ [(k, v)]\<rparr> else ix)" and "b \<longleftrightarrow> \<not> vi_contains ix k"
    and "index_ok ix \<Longrightarrow> index_ok ix'"
  using assms
  by (auto simp: index_add_def bindE_Inr_iff checked_key_def checked_vector_def index_ok_def vi_contains_def
      split: if_splits)

lemma index_remove_Inr:
  assumes "index_remove k ix = Inr (b, ix')"
  shows "ix' = ix\<lparr>vi_entries := filter (\<lambda>e. fst e \<noteq> k) (vi_entries ix)\<rparr>" and "b \<longleftrightarrow> vi_contains ix k"
    and "index_ok ix \<Longrightarrow> index_ok ix'" and "\<not> b \<Longrightarrow> ix' = ix"
proof -
  show r: "ix' = ix\<lparr>vi_entries := filter (\<lambda>e. fst e \<noteq> k) (vi_entries ix)\<rparr>" "b \<longleftrightarrow> vi_contains ix k"
    using assms by (auto simp: index_remove_def bindE_Inr_iff checked_key_def split: if_splits)
  show "index_ok ix \<Longrightarrow> index_ok ix'" by (auto simp: r index_ok_def distinct_map_filter)
  show "ix' = ix" if "\<not> b"
  proof -
    have "filter (\<lambda>e. fst e \<noteq> k) (vi_entries ix) = vi_entries ix"
      using that r(2) by (force simp: vi_contains_def filter_id_conv)
    then show ?thesis by (simp add: r(1))
  qed
qed

lemma add_all_Inr:
  assumes "add_all es ix = Inr ix'" and "index_ok ix"
  shows "ix' = ix\<lparr>vi_entries := vi_entries ix @ es\<rparr>" and "index_ok ix'"
proof -
  have "ix' = ix\<lparr>vi_entries := vi_entries ix @ es\<rparr> \<and> index_ok ix'"
    using assms
  proof (induction es arbitrary: ix)
    case (Cons e es)
    obtain k v where e: "e = (k, v)" by fastforce
    obtain b ix1 where 1: "index_add k v ix = Inr (b, ix1)" "b" "add_all es ix1 = Inr ix'"
      using Cons.prems(1) by (auto simp: e bindE_Inr_iff split: if_splits)
    note add = index_add_Inr [OF 1(1)]
    from Cons.IH [OF 1(3) add(3) [OF Cons.prems(2)]] add(1) 1(2) show ?case by (auto simp: e)
  qed simp
  then show "ix' = ix\<lparr>vi_entries := vi_entries ix @ es\<rparr>" and "index_ok ix'" by blast+
qed

lemma build_index_Inr:
  assumes "index_env_ok env" and "dir_ok dir" and "build_index env k space ndim metric es dir = (Inr ix, dir')"
  shows "vi_entries ix = es" "vi_space ix = space" "vi_ndim ix = ndim" "vi_metric ix = metric"
    and "index_ok ix" and "holds env dir' ix" and "dir_ok dir'"
proof -
  have empty: "index_ok (empty_index space ndim metric)" by (simp add: index_ok_def empty_index_def)
  obtain ix0 where ix0: "add_all es (empty_index space ndim metric) = Inr ix0" "persist env k ix0 dir = (Inr ix, dir')"
    using assms(3) by (auto simp: build_index_def split: sum.splits)
  note a = add_all_Inr [OF ix0(1) empty]
  note p = persist_Inr [OF assms(1) a(2) assms(2) ix0(2)]
  show "vi_entries ix = es" "vi_space ix = space" "vi_ndim ix = ndim" "vi_metric ix = metric" "index_ok ix"
    using a manifest_frame [OF p(1)] by (simp_all add: empty_index_def index_ok_def)
  show "holds env dir' ix" "dir_ok dir'" by (fact p)+
qed

lemma open_file_load: "open_file env m space ndim metric b = Inr ix \<Longrightarrow> us_load env b = Some (vi_entries ix)"
  by (auto simp: open_file_def split: if_split_asm option.split_asm prod.split_asm)

lemma open_index_ok:
  assumes "index_env_ok env" and "open_index env dir space ndim metric = Inr ix"
  shows "index_ok ix"
proof -
  obtain f m where "open_generation env m (entry f (m_file m)) space ndim metric = Inr ix"
    using assms(2) by (auto simp: open_index_def open_folder_def bindE_Inr_iff split: option.split_asm node.split_asm)
  then obtain b where "open_file env m space ndim metric b = Inr ix"
    by (auto simp: open_generation_def split: if_split_asm option.split_asm node.split_asm content.split_asm)
  with assms(1) show ?thesis by (auto simp: index_env_ok_def index_ok_def dest: open_file_load)
qed

lemma listing_ok_filter: "listing_ok f \<Longrightarrow> listing_ok (filter p f)"
  by (simp add: listing_ok_def distinct_map_filter)

lemma quarantine_dir_ok: "dir_ok dir \<Longrightarrow> quarantine locked dir = (r, dir') \<Longrightarrow> dir_ok dir'"
  by (auto simp: quarantine_def Let_def split: option.split_asm node.split_asm if_split_asm
      intro!: listing_ok_put listing_ok_filter)

text \<open>Opening for the writer gives a sound index, and what is on disk is that index.\<close>

lemma open_or_rebuild_Inr:
  assumes "index_env_ok env" and "dir_ok dir"
    and "open_or_rebuild env k space ndim metric es dir = (Inr (ix, rebuilt), dir')"
  shows "vi_space ix = space" "vi_ndim ix = ndim" "vi_metric ix = metric" "index_ok ix" "holds env dir' ix" "dir_ok dir'"
    and "rebuilt \<Longrightarrow> vi_entries ix = es" and "\<not> rebuilt \<Longrightarrow> holds env dir ix"
proof -
  have "vi_space ix = space \<and> vi_ndim ix = ndim \<and> vi_metric ix = metric \<and> index_ok ix \<and> holds env dir' ix \<and> dir_ok dir' \<and>
      (rebuilt \<longrightarrow> vi_entries ix = es) \<and> (\<not> rebuilt \<longrightarrow> holds env dir ix)"
  proof (cases "open_index env dir space ndim metric")
    case (Inl e)
    obtain q dir1 where q: "quarantine (dk_locked k) dir = (q, dir1)" by fastforce
    then have b: "build_index env k space ndim metric es dir1 = (Inr ix, dir')" "rebuilt"
      using assms(3) Inl by (auto simp: open_or_rebuild_def split: sum.split_asm prod.split_asm)
    from build_index_Inr [OF assms(1) quarantine_dir_ok [OF assms(2) q] b(1)] b(2) show ?thesis by simp
  next
    case (Inr ix0)
    note o = open_index_frame [OF Inr]
    obtain f m where f: "dir = Some (Folder f)" using o(5) by blast
    have r: "ix0 = ix" "\<not> rebuilt" "dir' = Some (Folder (remove_leftovers (dk_locked k) (live_name ix) f))"
      using assms(3) Inr f by (auto simp: open_or_rebuild_def)
    show ?thesis
      using remove_leftovers_keeps [of env f ix] o assms(2) open_index_ok [OF assms(1) Inr] r f by simp
  qed
  then show "vi_space ix = space" "vi_ndim ix = ndim" "vi_metric ix = metric" "index_ok ix" "holds env dir' ix" "dir_ok dir'"
    and "rebuilt \<Longrightarrow> vi_entries ix = es" and "\<not> rebuilt \<Longrightarrow> holds env dir ix" by simp_all
qed

end
