(* ===== verification/Coordinator.thy ===== *)
theory Coordinator
  imports IdentityLife VectorIndex
begin

text \<open>
  The coordinator (\<open>backend/app/memory/index_coordinator.py\<close>): it replays the queued index operations
  into the per-space vector indexes, checks the indexes at startup and opens them for recognition.
  The database is the truth; an operation only says that a representation is worth another look. One
  pass holds the coordinator's lock, so passes are steps of one sequence. The disk's part in each
  persist of a pass (generation id, faults, locked files) is an argument, as is the retry policy.
\<close>

section \<open>Reading the truth\<close>

text \<open>Little-endian single precision numbers, as \<open>numpy.frombuffer(blob, "<f4")\<close> reads them.\<close>

fun floats32 :: "byte list \<Rightarrow> vec" where
  "floats32 (a # b # c # e # bs) =
     (ucast a OR push_bit 8 (ucast b) OR push_bit 16 (ucast c) OR push_bit 24 (ucast e)) # floats32 bs"
| "floats32 _ = []"

definition decode_vector :: "byte list \<Rightarrow> nat \<Rightarrow> index_fault + vec" where
  "decode_vector blob ndim =
     (if length blob \<noteq> 4 * ndim then Inl (WrongLength (length blob) ndim)
      else let v = floats32 blob in if list_all finite32 v then Inr v else Inl NotFinite)"

fun usearch_metric :: "space_metric \<Rightarrow> string" where
  "usearch_metric COSINE = ''cos''"

definition index_space :: "uuid \<Rightarrow> db \<Rightarrow> index_fault + nat \<times> string" where
  "index_space s d =
     (case tab_get s_id (spaces d) s of
        None \<Rightarrow> Inl (Raised ''AssertionError: '')   \<comment> \<open>not reached: a foreign key\<close>
      | Some sp \<Rightarrow> Inr (s_dim sp, usearch_metric (s_metric sp)))"

definition active_keys :: "uuid \<Rightarrow> db \<Rightarrow> int list" where
  "active_keys s d =
     List.map_filter r_key (filter (\<lambda>r. r_space r = s \<and> eligible d r) (reps d))"

text \<open>
  What a rebuild is made of, and the representations it leaves out. An ACTIVE row has its key and its
  vector by the table's constraints.
\<close>

definition decoded_row :: "nat \<Rightarrow> rep \<Rightarrow> index_fault + int \<times> vec" where
  "decoded_row ndim r = bindE (decode_vector (the (r_vector r)) ndim) (\<lambda>v. Inr (the (r_key r), v))"

definition active_rows :: "uuid \<Rightarrow> db \<Rightarrow> rep list" where
  "active_rows s d = sort_key (\<lambda>r. the (r_key r)) (filter (\<lambda>r. r_space r = s \<and> eligible d r) (reps d))"

definition active_entries :: "uuid \<Rightarrow> nat \<Rightarrow> db \<Rightarrow> vec_entries \<times> uuid list" where
  "active_entries s ndim d =
     (let rows = active_rows s d
      in (map projr (filter (\<lambda>x. \<not> isl x) (map (decoded_row ndim) rows)),
          map r_id (filter (\<lambda>r. isl (decoded_row ndim r)) rows)))"

section \<open>One operation\<close>

datatype effect = E_NONE | E_CHANGED | E_PURGE

definition changed :: "bool \<times> vindex \<Rightarrow> effect \<times> vindex" where
  "changed = (\<lambda>(b, ix). (if b then E_CHANGED else E_NONE, ix))"

definition apply_one :: "due_operation \<Rightarrow> nat \<Rightarrow> db \<Rightarrow> vindex \<Rightarrow> index_fault + effect \<times> vindex" where
  "apply_one op ndim d ix =
     (case tab_get r_id (reps d) (y_rep op) of
        None \<Rightarrow> Inl (Raised ''NoResultFound'')   \<comment> \<open>not reached: a foreign key\<close>
      | Some r \<Rightarrow>
          if r_space r \<noteq> y_space op then Inl DifferentSpaces
          else if y_kind op = REMOVE then
            (case r_key r of
               None \<Rightarrow> Inr (E_PURGE, ix)
             | Some k \<Rightarrow>
                 if r_state r = R_ERASING then Inr (E_PURGE, ix)
                 else bindE (index_remove k ix) (\<lambda>x. Inr (changed x)))
          else if \<not> eligible d r then Inr (E_NONE, ix)
          else case (r_key r, r_vector r) of
            (Some k, Some b) \<Rightarrow> bindE (decode_vector b ndim) (\<lambda>v. bindE (index_add k v ix) (\<lambda>x. Inr (changed x)))
          | _ \<Rightarrow> Inl (Raised ''AssertionError: ''))"

section \<open>One space\<close>

definition int_text :: "int \<Rightarrow> string" where
  "int_text n = (if n < 0 then ''-'' @ decimal (nat (- n)) else decimal (nat n))"

fun fault_text :: "index_fault \<Rightarrow> string" where
  "fault_text NotPlainDirectory = ''ValueError: not a plain directory''"
| "fault_text (WrongShape n m) =
     ''ValueError: expected a vector of '' @ decimal n @ '' dimensions, got shape ('' @ decimal m @ '',)''"
| "fault_text NotFinite = ''ValueError: a vector must be finite (no NaN or infinity)''"
| "fault_text (WrongLength b n) =
     ''ValueError: a vector of '' @ decimal b @ '' bytes is not '' @ decimal n @ '' float32 values''"
| "fault_text (BadKey k) = ''ValueError: an index key is an unsigned 64-bit integer, got '' @ int_text k"
| "fault_text (KeyTwice k) = ''ValueError: key '' @ int_text k @ '' appears twice in the entries''"
| "fault_text DifferentSpaces = ''ValueError: the operation and its representation name different spaces''"
| "fault_text (LeftBehind n) = ''OSError: the superseded index file '' @ n @ '' could not be removed''"
| "fault_text (Raised s) = s"

type_synonym outcomes = "(uuid \<times> string option) list"   \<comment> \<open>operation, error or applied\<close>

record coordinator_report =
  cr_applied :: "uuid list"
  cr_retrying :: "(uuid \<times> string) list"
  cr_failed :: "(uuid \<times> string) list"
  cr_rebuilt :: "uuid list"
  cr_unindexable :: "uuid list"
  cr_purged :: "uuid list"
  cr_leftover :: "string list"

definition empty_report :: coordinator_report where
  "empty_report = \<lparr>cr_applied = [], cr_retrying = [], cr_failed = [], cr_rebuilt = [], cr_unindexable = [],
     cr_purged = [], cr_leftover = []\<rparr>"

fun apply_each ::
  "due_operation list \<Rightarrow> nat \<Rightarrow> db \<Rightarrow> vindex \<Rightarrow> outcomes \<times> effect list \<times> vindex" where
  "apply_each [] ndim d ix = ([], [], ix)"
| "apply_each (op # ops) ndim d ix =
     (case apply_one op ndim d ix of
        Inl e \<Rightarrow> (case apply_each ops ndim d ix of (os, es, ix') \<Rightarrow> ((y_id op, Some (fault_text e)) # os, es, ix'))
      | Inr (eff, ix1) \<Rightarrow>
          (case apply_each ops ndim d ix1 of (os, es, ix') \<Rightarrow> ((y_id op, None) # os, eff # es, ix')))"

text \<open>The second application of \<open>_purge\<close>: what was applied once, an exception ends it.\<close>

fun reapply :: "due_operation list \<Rightarrow> outcomes \<Rightarrow> nat \<Rightarrow> db \<Rightarrow> vindex \<Rightarrow> index_fault + bool \<times> vindex" where
  "reapply [] os ndim d ix = Inr (False, ix)"
| "reapply (op # ops) os ndim d ix =
     (if map_of os (y_id op) \<noteq> Some None then reapply ops os ndim d ix
      else bindE (apply_one op ndim d ix) (\<lambda>(eff, ix1).
           bindE (reapply ops os ndim d ix1) (\<lambda>(c, ix2). Inr (eff = E_CHANGED \<or> c, ix2))))"

definition require_retired :: "string list \<Rightarrow> due_operation list \<Rightarrow> outcomes \<Rightarrow> outcomes" where
  "require_retired stale ops os =
     (case stale of
        [] \<Rightarrow> os
      | n # _ \<Rightarrow>
          map (\<lambda>(i, e). if e = None \<and> (\<exists>op\<in>set ops. y_id op = i \<and> y_kind op = REMOVE)
                 then (i, Some (''the superseded index file '' @ n @ '' could not be removed'')) else (i, e)) os)"

definition purge ::
  "index_env \<Rightarrow> disk \<Rightarrow> disk \<Rightarrow> uuid \<Rightarrow> nat \<Rightarrow> string \<Rightarrow> due_operation list \<Rightarrow> outcomes \<Rightarrow> db \<Rightarrow> node option \<Rightarrow>
     (index_fault + unit) \<times> node option" where
  "purge env k1 k2 s ndim metric ops os d dir =
     (case build_index env k1 s ndim metric (fst (active_entries s ndim d)) dir of
        (Inl e, dir1) \<Rightarrow> (Inl e, dir1)
      | (Inr ix, dir1) \<Rightarrow>
          (case reapply ops os ndim d ix of
             Inl e \<Rightarrow> (Inl e, dir1)
           | Inr (again, ix1) \<Rightarrow>
               (case (if again then persist env k2 ix1 dir1 else (Inr ix1, dir1)) of
                  (Inl e, dir2) \<Rightarrow> (Inl e, dir2)
                | (Inr ix2, dir2) \<Rightarrow>
                    (case stale_files ix2 dir2 of
                       [] \<Rightarrow> (Inr (), dir2)
                     | n # _ \<Rightarrow> (Inl (LeftBehind n), dir2)))))"

text \<open>The disk's part in a pass over one space: opening, the rebuild of a purge, persisting.\<close>

record pass_disks =
  pd_open :: disk
  pd_build :: disk
  pd_persist :: disk

definition failed_all :: "due_operation list \<Rightarrow> index_fault \<Rightarrow> outcomes" where
  "failed_all ops e = map (\<lambda>op. (y_id op, Some (fault_text e))) ops"

definition apply_space ::
  "index_env \<Rightarrow> pass_disks \<Rightarrow> uuid \<Rightarrow> due_operation list \<Rightarrow> db \<Rightarrow> coordinator_report \<Rightarrow> node option \<Rightarrow>
     outcomes \<times> coordinator_report \<times> node option" where
  "apply_space env ks s ops d rp dir =
     (case index_space s d of
        Inl e \<Rightarrow> (failed_all ops e, rp, dir)
      | Inr (ndim, metric) \<Rightarrow>
          let (entries, bad) = active_entries s ndim d in
          (case open_or_rebuild env (pd_open ks) s ndim metric entries dir of
             (Inl e, dir1) \<Rightarrow> (failed_all ops e, rp\<lparr>cr_unindexable := cr_unindexable rp @ bad\<rparr>, dir1)
           | (Inr (ix, rebuilt), dir1) \<Rightarrow>
               let rp1 = (if rebuilt then rp\<lparr>cr_unindexable := cr_unindexable rp @ bad, cr_rebuilt := cr_rebuilt rp @ [s]\<rparr>
                          else rp);
                   (os, effects, ix1) = apply_each ops ndim d ix
               in if E_PURGE \<in> set effects then
                    (let rp2 = rp1\<lparr>cr_unindexable := cr_unindexable rp1 @ bad\<rparr> in
                     case purge env (pd_build ks) (pd_persist ks) s ndim metric ops os d dir1 of
                       (Inl e, dir2) \<Rightarrow> (failed_all ops e, rp2, dir2)
                     | (Inr _, dir2) \<Rightarrow> (os, rp2\<lparr>cr_purged := cr_purged rp2 @ [s]\<rparr>, dir2))
                  else
                    (case (if E_CHANGED \<in> set effects then persist env (pd_persist ks) ix1 dir1 else (Inr ix1, dir1)) of
                       (Inl e, dir2) \<Rightarrow> (failed_all ops e, rp1, dir2)
                     | (Inr ix2, dir2) \<Rightarrow>
                         let stale = stale_files ix2 dir2
                         in (require_retired stale ops os, rp1\<lparr>cr_leftover := cr_leftover rp1 @ stale\<rparr>, dir2))))"

section \<open>Settling\<close>

record retry_policy =
  rt_max :: int
  rt_backoff :: "int \<Rightarrow> time"

definition outcome_row :: "retry_policy \<Rightarrow> int \<Rightarrow> time \<Rightarrow> string option \<Rightarrow> index_op \<Rightarrow> index_op" where
  "outcome_row rt attempts now err x =
     (case err of
        None \<Rightarrow> x\<lparr>x_state := X_APPLIED, x_applied := Some now, x_code := None, x_detail := None\<rparr>
      | Some e \<Rightarrow>
          if rt_max rt \<le> attempts + 1
          then x\<lparr>x_state := X_FAILED, x_code := Some ''APPLY_ERROR'', x_detail := Some (take 500 e)\<rparr>
          else x\<lparr>x_not_before := now + rt_backoff rt (attempts + 1), x_code := Some ''APPLY_ERROR'',
                 x_detail := Some (take 500 e)\<rparr>)"

fun settle_each ::
  "retry_policy \<Rightarrow> (uuid \<rightharpoonup> int) \<Rightarrow> time \<Rightarrow> outcomes \<Rightarrow> coordinator_report \<Rightarrow> index_op list \<Rightarrow>
     coordinator_report \<times> index_op list" where
  "settle_each rt seen now [] rp t = (rp, t)"
| "settle_each rt seen now ((i, e) # os) rp t =
     (case seen i of
        None \<Rightarrow> settle_each rt seen now os rp t
      | Some n \<Rightarrow>
          (case settle_op i (n + 1) now (outcome_row rt n now e) t of
             (False, t') \<Rightarrow> settle_each rt seen now os rp t'
           | (True, t') \<Rightarrow>
               settle_each rt seen now os
                 (case e of
                    None \<Rightarrow> rp\<lparr>cr_applied := cr_applied rp @ [i]\<rparr>
                  | Some x \<Rightarrow> if rt_max rt \<le> n + 1 then rp\<lparr>cr_failed := cr_failed rp @ [(i, x)]\<rparr>
                              else rp\<lparr>cr_retrying := cr_retrying rp @ [(i, x)]\<rparr>) t'))"

definition settle ::
  "retry_policy \<Rightarrow> time \<Rightarrow> outcomes \<Rightarrow> coordinator_report \<Rightarrow> index_op list \<Rightarrow> coordinator_report \<times> index_op list" where
  "settle rt now os rp t = settle_each rt (attempt_counts (map fst os) t) now os rp t"

section \<open>A pass, validation, opening\<close>

type_synonym index_root = "uuid \<Rightarrow> node option"

text \<open>What one pass needs from outside, by space: the disks and the clock at settling.\<close>

record pass_env =
  pe_disks :: "uuid \<Rightarrow> pass_disks"
  pe_now :: "uuid \<Rightarrow> time"

fun apply_spaces ::
  "index_env \<Rightarrow> retry_policy \<Rightarrow> pass_env \<Rightarrow> due_operation list \<Rightarrow> uuid list \<Rightarrow> coordinator_report \<Rightarrow> db \<Rightarrow> index_root \<Rightarrow>
     coordinator_report \<times> db \<times> index_root" where
  "apply_spaces env rt pe ops [] rp d files = (rp, d, files)"
| "apply_spaces env rt pe ops (s # ss) rp d files =
     (let (os, rp1, dir) = apply_space env (pe_disks pe s) s (filter (\<lambda>op. y_space op = s) ops) d rp (files s);
          (rp2, t) = settle rt (pe_now pe s) os rp1 (index_ops d)
      in apply_spaces env rt pe ops ss rp2 (d\<lparr>index_ops := t\<rparr>) (files(s := dir)))"

definition apply_pending ::
  "index_env \<Rightarrow> retry_policy \<Rightarrow> pass_env \<Rightarrow> time \<Rightarrow> nat \<Rightarrow> db \<Rightarrow> index_root \<Rightarrow> coordinator_report \<times> db \<times> index_root" where
  "apply_pending env rt pe now limit d files =
     (let ops = due now limit (index_ops d)
      in apply_spaces env rt pe ops (dedup (map y_space ops)) empty_report d files)"

text \<open>Whether the index holds other keys than the database says belong in it.\<close>

fun any_missing :: "int list \<Rightarrow> vindex \<Rightarrow> index_fault + bool" where
  "any_missing [] ix = Inr False"
| "any_missing (k # ks) ix = bindE (index_contains k ix) (\<lambda>b. if b then any_missing ks ix else Inr True)"

definition is_stale :: "vindex \<Rightarrow> uuid \<Rightarrow> db \<Rightarrow> index_fault + bool" where
  "is_stale ix s d =
     bindE (any_missing (active_keys s d) ix) (\<lambda>missing.
       Inr (missing \<or> length (active_keys s d) \<noteq> length (vi_entries ix)))"

definition validate_space ::
  "index_env \<Rightarrow> pass_disks \<Rightarrow> uuid \<Rightarrow> db \<Rightarrow> coordinator_report \<Rightarrow> node option \<Rightarrow>
     (index_fault + bool) \<times> coordinator_report \<times> node option" where
  "validate_space env ks s d rp dir =
     (case index_space s d of
        Inl e \<Rightarrow> (Inl e, rp, dir)
      | Inr (ndim, metric) \<Rightarrow>
          let (entries, bad) = active_entries s ndim d;
              rp' = rp\<lparr>cr_unindexable := cr_unindexable rp @ bad\<rparr>
          in (case open_or_rebuild env (pd_open ks) s ndim metric entries dir of
                (Inl e, dir1) \<Rightarrow> (Inl e, rp', dir1)
              | (Inr (ix, rebuilt), dir1) \<Rightarrow>
                  if rebuilt then (Inr True, rp'\<lparr>cr_leftover := cr_leftover rp' @ stale_files ix dir1\<rparr>, dir1)
                  else
                    (case is_stale ix s d of
                       Inl e \<Rightarrow> (Inl e, rp, dir1)
                     | Inr False \<Rightarrow> (Inr False, rp\<lparr>cr_leftover := cr_leftover rp @ stale_files ix dir1\<rparr>, dir1)
                     | Inr True \<Rightarrow>
                         (case build_index env (pd_build ks) s ndim metric entries dir1 of
                            (Inl e, dir2) \<Rightarrow> (Inl e, rp', dir2)
                          | (Inr ix2, dir2) \<Rightarrow>
                              (Inr True, rp'\<lparr>cr_leftover := cr_leftover rp' @ stale_files ix2 dir2\<rparr>, dir2)))))"

fun validate_each ::
  "index_env \<Rightarrow> (uuid \<Rightarrow> pass_disks) \<Rightarrow> uuid list \<Rightarrow> db \<Rightarrow> coordinator_report \<Rightarrow> index_root \<Rightarrow>
     (index_fault + uuid list) \<times> coordinator_report \<times> index_root" where
  "validate_each env ks [] d rp files = (Inr [], rp, files)"
| "validate_each env ks (s # ss) d rp files =
     (case validate_space env (ks s) s d rp (files s) of
        (Inl e, rp1, dir) \<Rightarrow> (Inl e, rp1, files(s := dir))
      | (Inr b, rp1, dir) \<Rightarrow>
          (case validate_each env ks ss d rp1 (files(s := dir)) of
             (Inl e, rp2, files2) \<Rightarrow> (Inl e, rp2, files2)
           | (Inr rest, rp2, files2) \<Rightarrow> (Inr (if b then s # rest else rest), rp2, files2)))"

definition validate_indexes ::
  "index_env \<Rightarrow> (uuid \<Rightarrow> pass_disks) \<Rightarrow> db \<Rightarrow> coordinator_report \<Rightarrow> index_root \<Rightarrow>
     (index_fault + uuid list) \<times> coordinator_report \<times> index_root" where
  "validate_indexes env ks d rp files =
     validate_each env ks (map s_id (filter (\<lambda>sp. s_state sp = SP_ACTIVE) (spaces d))) d rp files"

definition open_for_recognition :: "index_env \<Rightarrow> uuid \<Rightarrow> db \<Rightarrow> node option \<Rightarrow> unusable + vindex" where
  "open_for_recognition env s d dir =
     (case index_space s d of
        Inl e \<Rightarrow> Inl NoManifest   \<comment> \<open>not reached: a foreign key\<close>
      | Inr (ndim, metric) \<Rightarrow>
          if (case dir of Some (Folder f) \<Rightarrow> entry f manifest_name \<noteq> None | _ \<Rightarrow> False)
          then open_index env dir s ndim metric
          else if active_keys s d \<noteq> [] then Inl NoManifest
          else Inr (empty_index s ndim metric))"

text \<open>The ids a pass of \<open>requeue_failed_operations\<close> gives fresh attempts.\<close>

fun requeue_each :: "uuid list \<Rightarrow> time \<Rightarrow> index_op list \<Rightarrow> uuid list \<times> index_op list" where
  "requeue_each [] now t = ([], t)"
| "requeue_each (i # is) now t =
     (case requeue i now t of (b, t') \<Rightarrow>
        (case requeue_each is now t' of (js, t'') \<Rightarrow> (if b then i # js else js, t'')))"

definition requeue_failed :: "time \<Rightarrow> index_op list \<Rightarrow> uuid list \<times> index_op list" where
  "requeue_failed now t = requeue_each (failed_ids t) now t"

section \<open>What an operation does to the index\<close>

lemma changed_simps [simp]: "changed (b, ix) = (if b then E_CHANGED else E_NONE, ix)"
  by (simp add: changed_def)

lemma key_of_space:
  assumes "reps_ok t" and "r \<in> set t" and "r' \<in> set t" and "r_space r = r_space r'" and "r_key r = Some k" and "r_key r' = Some k"
  shows "r = r'"
  using assms unfolding reps_ok_def unique_where_def
  by (auto dest!: distinct_map [THEN iffD1] inj_onD)

text \<open>The keys of a space that its index may hold.\<close>

definition eligible_key :: "uuid \<Rightarrow> db \<Rightarrow> int \<Rightarrow> bool" where
  "eligible_key s d k \<longleftrightarrow> (\<exists>r\<in>set (reps d). r_space r = s \<and> eligible d r \<and> r_key r = Some k)"

lemma not_eligible_key:
  assumes "memory_ok d" and "r \<in> set (reps d)" and "r_space r = s" and "\<not> eligible d r" and "r_key r = Some k"
  shows "\<not> eligible_key s d k"
proof
  assume "eligible_key s d k"
  then obtain r' where r': "r' \<in> set (reps d)" "r_space r' = s" "eligible d r'" "r_key r' = Some k"
    unfolding eligible_key_def by blast
  have "reps_ok (reps d)" using assms(1) by (simp add: memory_ok_def)
  then have "r = r'" by (rule key_of_space) (use assms r' in simp_all)
  with assms(4) r'(3) show False by simp
qed

text \<open>What one operation may do: sound before, sound after, no key but an eligible one added.\<close>

definition index_step :: "uuid \<Rightarrow> db \<Rightarrow> vindex \<Rightarrow> vindex \<Rightarrow> bool" where
  "index_step s d ix ix' \<longleftrightarrow> vi_space ix' = vi_space ix \<and> vi_ndim ix' = vi_ndim ix \<and> vi_metric ix' = vi_metric ix \<and>
     vi_manifest ix' = vi_manifest ix \<and> (index_ok ix \<longrightarrow> index_ok ix') \<and>
     (\<forall>k. vi_contains ix' k \<longrightarrow> vi_contains ix k \<or> eligible_key s d k)"

lemma index_step_refl [simp]: "index_step s d ix ix"
  by (simp add: index_step_def)

lemma index_step_trans: "index_step s d a b \<Longrightarrow> index_step s d b c \<Longrightarrow> index_step s d a c"
  by (auto simp: index_step_def)

lemma apply_one_step:
  assumes "apply_one op ndim d ix = Inr (eff, ix')" and "y_space op = s"
  shows "index_step s d ix ix'" and "eff \<noteq> E_CHANGED \<Longrightarrow> ix' = ix"
    and "y_kind op = REMOVE \<Longrightarrow> eff \<noteq> E_PURGE \<Longrightarrow> tab_get r_id (reps d) (y_rep op) = Some r \<Longrightarrow>
           r_state r \<noteq> R_ERASING \<and> (\<exists>k. r_key r = Some k \<and> \<not> vi_contains ix' k)"
    and "tab_get r_id (reps d) (y_rep op) = Some r \<Longrightarrow> r_space r = s"
proof -
  obtain r0 where r0: "tab_get r_id (reps d) (y_rep op) = Some r0" "r_space r0 = s" "r0 \<in> set (reps d)"
    using assms by (auto simp: apply_one_def split: option.split_asm if_split_asm dest: tab_get_SomeD)
  have *: "index_step s d ix ix' \<and> (eff \<noteq> E_CHANGED \<longrightarrow> ix' = ix) \<and>
      (y_kind op = REMOVE \<longrightarrow> eff \<noteq> E_PURGE \<longrightarrow>
         r_state r0 \<noteq> R_ERASING \<and> (\<exists>k. r_key r0 = Some k \<and> \<not> vi_contains ix' k))"
  proof (cases "y_kind op")
    case ADD
    show ?thesis
    proof (cases "eligible d r0")
      case True
      then obtain k b v x where a: "r_key r0 = Some k" "index_add k v ix = Inr x" "(eff, ix') = changed x"
        using assms r0 ADD
        by (auto simp: apply_one_def bindE_Inr_iff split: option.split_asm)
      obtain b where x: "x = (b, ix')" using a(3) by (cases x) auto
      note add = index_add_Inr [OF a(2) [unfolded x]]
      have "eligible_key s d k" unfolding eligible_key_def using r0 True a(1) by blast
      with add a(3) x ADD show ?thesis
        by (auto simp: index_step_def vi_contains_def)
    next
      case False
      then show ?thesis using assms r0 ADD by (simp add: apply_one_def)
    qed
  next
    case REMOVE
    show ?thesis
    proof (cases "eff = E_PURGE")
      case True
      then show ?thesis
        using assms r0 REMOVE by (auto simp: apply_one_def bindE_Inr_iff split: option.split_asm if_split_asm)
    next
      case False
      then obtain k x where a: "r_key r0 = Some k" "index_remove k ix = Inr x" "(eff, ix') = changed x" "r_state r0 \<noteq> R_ERASING"
        using assms r0 REMOVE by (auto simp: apply_one_def bindE_Inr_iff split: option.split_asm if_split_asm)
      obtain b where x: "x = (b, ix')" using a(3) by (cases x) auto
      note rem = index_remove_Inr [OF a(2) [unfolded x]]
      have "\<not> vi_contains ix' k" by (auto simp: rem(1) vi_contains_def)
      with a x rem show ?thesis
        by (auto simp: index_step_def vi_contains_def)
    qed
  qed
  then show "index_step s d ix ix'" and "eff \<noteq> E_CHANGED \<Longrightarrow> ix' = ix"
    and "y_kind op = REMOVE \<Longrightarrow> eff \<noteq> E_PURGE \<Longrightarrow> tab_get r_id (reps d) (y_rep op) = Some r \<Longrightarrow>
           r_state r \<noteq> R_ERASING \<and> (\<exists>k. r_key r = Some k \<and> \<not> vi_contains ix' k)"
    and "tab_get r_id (reps d) (y_rep op) = Some r \<Longrightarrow> r_space r = s"
    using r0(1,2) by auto
qed

lemma apply_each_step:
  assumes "apply_each ops ndim d ix = (os, es, ix')" and "\<forall>op\<in>set ops. y_space op = s"
  shows "index_step s d ix ix'" and "E_CHANGED \<notin> set es \<Longrightarrow> ix' = ix" and "map fst os = map y_id ops"
proof -
  have "index_step s d ix ix' \<and> (E_CHANGED \<notin> set es \<longrightarrow> ix' = ix) \<and> map fst os = map y_id ops"
    using assms
  proof (induction ops arbitrary: ix os es)
    case (Cons op ops)
    show ?case
    proof (cases "apply_one op ndim d ix")
      case (Inl e)
      with Cons show ?thesis by (auto split: prod.split_asm)
    next
      case (Inr y)
      obtain eff ix1 where y: "y = (eff, ix1)" by fastforce
      obtain os1 es1 where r: "apply_each ops ndim d ix1 = (os1, es1, ix')" "os = (y_id op, None) # os1" "es = eff # es1"
        using Cons.prems(1) Inr y by (auto split: prod.split_asm)
      have s: "y_space op = s" using Cons.prems(2) by simp
      note one = apply_one_step [OF Inr [unfolded y] s]
      have "index_step s d ix1 ix' \<and> (E_CHANGED \<notin> set es1 \<longrightarrow> ix' = ix1) \<and> map fst os1 = map y_id ops"
        using Cons.IH [OF r(1)] Cons.prems(2) by simp
      with one(1,2) r(2,3) show ?thesis by (auto intro: index_step_trans)
    qed
  qed auto
  then show "index_step s d ix ix'" and "E_CHANGED \<notin> set es \<Longrightarrow> ix' = ix" and "map fst os = map y_id ops" by simp_all
qed

text \<open>An operation without an error was applied to the index of that moment, and others followed.\<close>

lemma apply_each_applied:
  assumes "apply_each ops ndim d ix = (os, es, ix')" and "\<forall>op\<in>set ops. y_space op = s"
    and "distinct (map y_id ops)" and "op \<in> set ops" and "map_of os (y_id op) = Some None"
  shows "\<exists>ixa eff ixb. apply_one op ndim d ixa = Inr (eff, ixb) \<and> eff \<in> set es \<and> index_step s d ixb ix'"
  using assms
proof (induction ops arbitrary: ix os es)
  case (Cons op0 ops)
  have s: "y_space op0 = s" using Cons.prems(2) by simp
  have later: "y_id op \<noteq> y_id op0" if "op \<noteq> op0"
    using that Cons.prems(3,4) by (metis distinct.simps(2) imageI list.simps(9) set_ConsD set_map)
  show ?case
  proof (cases "apply_one op0 ndim d ix")
    case (Inl e)
    obtain os1 es1 where r: "apply_each ops ndim d ix = (os1, es1, ix')" "os = (y_id op0, Some (fault_text e)) # os1" "es = es1"
      using Cons.prems(1) Inl by (auto split: prod.split_asm)
    have "op \<noteq> op0" using Cons.prems(5) r(2) by auto
    with later Cons r show ?thesis by auto
  next
    case (Inr y)
    obtain eff ix1 where y: "y = (eff, ix1)" by fastforce
    obtain os1 es1 where r: "apply_each ops ndim d ix1 = (os1, es1, ix')" "os = (y_id op0, None) # os1" "es = eff # es1"
      using Cons.prems(1) Inr y by (auto split: prod.split_asm)
    show ?thesis
    proof (cases "op = op0")
      case True
      have "index_step s d ix1 ix'" using apply_each_step(1) [OF r(1)] Cons.prems(2) by simp
      with True Inr y r(3) show ?thesis by auto
    next
      case False
      then have "op \<in> set ops" "map_of os1 (y_id op) = Some None" using later Cons.prems(4,5) r(2) by auto
      then show ?thesis using Cons.IH [OF r(1)] Cons.prems(2,3) r(3) by auto
    qed
  qed
qed simp

lemma reapply_step:
  assumes "reapply ops os ndim d ix = Inr (c, ix')" and "\<forall>op\<in>set ops. y_space op = s"
  shows "index_step s d ix ix' \<and> (\<not> c \<longrightarrow> ix' = ix)"
  using assms
proof (induction ops arbitrary: ix c)
  case (Cons op ops)
  show ?case
  proof (cases "map_of os (y_id op) = Some None")
    case True
    then obtain eff ix1 c1 where r: "apply_one op ndim d ix = Inr (eff, ix1)" "reapply ops os ndim d ix1 = Inr (c1, ix')"
        "c = (eff = E_CHANGED \<or> c1)"
      using Cons.prems(1) by (auto simp: bindE_Inr_iff)
    have "y_space op = s" using Cons.prems(2) by simp
    note one = apply_one_step(1,2) [OF r(1) this]
    have "index_step s d ix1 ix' \<and> (\<not> c1 \<longrightarrow> ix' = ix1)" using Cons.IH [OF r(2)] Cons.prems(2) by simp
    with one r(3) show ?thesis by (auto intro: index_step_trans)
  next
    case False
    with Cons show ?thesis by auto
  qed
qed simp

section \<open>What a pass promises\<close>

lemma active_entries_keys:
  assumes "(k, v) \<in> set (fst (active_entries s ndim d))" and "memory_ok d"
  shows "eligible_key s d k"
proof -
  obtain r where r: "r \<in> set (reps d)" "r_space r = s" "eligible d r" "k = the (r_key r)"
    using assms(1) by (auto simp: active_entries_def active_rows_def decoded_row_def Let_def bindE_def
        split: sum.split_asm)
  have "r_state r = R_ACTIVE" using r(3) by (simp add: eligible_def)
  moreover have "rep_row_ok r" using assms(2) r(1) by (simp add: memory_ok_def reps_ok_def)
  ultimately show ?thesis unfolding eligible_key_def using r by (auto simp: rep_row_ok_def)
qed

lemma map_of_marked:
  "map_of (map (\<lambda>(j, e). if e = None \<and> p j then (j, Some m) else (j, e)) os) i = Some None \<longleftrightarrow>
     map_of os i = Some None \<and> \<not> p i"
proof (induction os)
  case (Cons x os)
  then show ?case by (cases x; cases "snd x = None \<and> p (fst x)") auto
qed simp

lemma require_retired_None:
  assumes "map_of (require_retired stale ops os) i = Some None"
  shows "map_of os i = Some None" and "op \<in> set ops \<Longrightarrow> y_id op = i \<Longrightarrow> y_kind op = REMOVE \<Longrightarrow> stale = []"
  using assms by (cases stale; auto simp: require_retired_def map_of_marked)+

lemma failed_all_None: "map_of (failed_all ops e) i \<noteq> Some None"
  by (induction ops) (auto simp: failed_all_def)

text \<open>A pass that applied something: the space opened, its operations ran, and the result was kept.\<close>

definition pass_kept ::
  "index_env \<Rightarrow> pass_disks \<Rightarrow> uuid \<Rightarrow> nat \<Rightarrow> string \<Rightarrow> due_operation list \<Rightarrow> db \<Rightarrow> node option \<Rightarrow> outcomes \<Rightarrow> effect list \<Rightarrow>
     vindex \<Rightarrow> outcomes \<Rightarrow> node option \<Rightarrow> bool" where
  "pass_kept env ks s ndim metric ops d dir1 os1 es ix1 os dir' \<longleftrightarrow>
     (if E_PURGE \<in> set es
      then fst (purge env (pd_build ks) (pd_persist ks) s ndim metric ops os1 d dir1) = Inr () \<and>
           snd (purge env (pd_build ks) (pd_persist ks) s ndim metric ops os1 d dir1) = dir' \<and> os = os1
      else \<exists>ix2. (if E_CHANGED \<in> set es then persist env (pd_persist ks) ix1 dir1 = (Inr ix2, dir')
                 else ix2 = ix1 \<and> dir' = dir1) \<and>
             os = require_retired (stale_files ix2 dir') ops os1)"

lemma apply_space_applied:
  assumes "index_space s d = Inr (ndim, metric)" and "apply_space env ks s ops d rp dir = (os, rp', dir')"
    and "map_of os i = Some None"
  obtains ix rebuilt dir1 os1 es ix1 where
    "open_or_rebuild env (pd_open ks) s ndim metric (fst (active_entries s ndim d)) dir = (Inr (ix, rebuilt), dir1)"
    "apply_each ops ndim d ix = (os1, es, ix1)"
    "pass_kept env ks s ndim metric ops d dir1 os1 es ix1 os dir'"
proof -
  obtain entries bad where e: "active_entries s ndim d = (entries, bad)" by fastforce
  obtain o1 dir1 where o: "open_or_rebuild env (pd_open ks) s ndim metric entries dir = (o1, dir1)" by fastforce
  show ?thesis
  proof (cases o1)
    case (Inl e1)
    with assms e o failed_all_None show ?thesis by (auto simp: apply_space_def)
  next
    case (Inr x)
    obtain ix rebuilt where x: "x = (ix, rebuilt)" by fastforce
    obtain os1 es ix1 where a: "apply_each ops ndim d ix = (os1, es, ix1)" by (metis prod_cases3)
    have "pass_kept env ks s ndim metric ops d dir1 os1 es ix1 os dir'"
    proof (cases "E_PURGE \<in> set es")
      case True
      obtain u dir2 where p: "purge env (pd_build ks) (pd_persist ks) s ndim metric ops os1 d dir1 = (u, dir2)" by fastforce
      show ?thesis
        using assms e o a Inr x True p failed_all_None
        by (cases u) (auto simp: apply_space_def Let_def pass_kept_def)
    next
      case False
      obtain p2 dir2 where p: "persist env (pd_persist ks) ix1 dir1 = (p2, dir2)" by fastforce
      show ?thesis
      proof (cases "E_CHANGED \<in> set es")
        case True
        then show ?thesis
          using assms e o a Inr x False p failed_all_None
          by (cases p2) (auto simp: apply_space_def Let_def pass_kept_def)
      next
        case unchanged: False
        then show ?thesis
          using assms e o a Inr x False by (auto simp: apply_space_def Let_def pass_kept_def)
      qed
    qed
    with that o a Inr x e show ?thesis by auto
  qed
qed

lemma purge_Inr:
  assumes "index_env_ok env" and "dir_ok dir" and "memory_ok d" and "\<forall>op\<in>set ops. y_space op = s"
    and "purge env k1 k2 s ndim metric ops os d dir = (Inr u, dir')"
  obtains ix where "holds env dir' ix" "vi_space ix = s" "vi_ndim ix = ndim" "vi_metric ix = metric" "dir_ok dir'"
    "\<forall>k. vi_contains ix k \<longrightarrow> eligible_key s d k" "stale_files ix dir' = []"
proof -
  obtain ix dir1 where b: "build_index env k1 s ndim metric (fst (active_entries s ndim d)) dir = (Inr ix, dir1)"
    using assms(5) by (auto simp: purge_def split: prod.split_asm sum.split_asm)
  note built = build_index_Inr [OF assms(1,2) b]
  obtain c ix1 where r: "reapply ops os ndim d ix = Inr (c, ix1)"
    using assms(5) b by (auto simp: purge_def split: prod.split_asm sum.split_asm)
  have step: "index_step s d ix ix1" "\<not> c \<Longrightarrow> ix1 = ix" using reapply_step [OF r assms(4)] by auto
  have keys: "\<forall>k. vi_contains ix1 k \<longrightarrow> eligible_key s d k"
    using step(1) active_entries_keys [OF _ assms(3)] by (auto simp: index_step_def vi_contains_def built(1))
  have ok1: "index_ok ix1" and f1: "vi_space ix1 = s" "vi_ndim ix1 = ndim" "vi_metric ix1 = metric"
    using step(1) built by (auto simp: index_step_def)
  obtain ix2 where p: "(if c then persist env k2 ix1 dir1 else (Inr ix1, dir1)) = (Inr ix2, dir')"
      "stale_files ix2 dir' = []"
    using assms(5) b r by (auto simp: purge_def split: prod.split_asm sum.split_asm list.split_asm if_split_asm)
  have "ix2 = ix1\<lparr>vi_manifest := vi_manifest ix2\<rparr> \<and> holds env dir' ix2 \<and> dir_ok dir'"
  proof (cases c)
    case True
    with p(1) persist_Inr [OF assms(1) ok1 built(7)] show ?thesis by simp
  next
    case False
    with p(1) step(2) built(6,7) show ?thesis by simp
  qed
  moreover from this have "vi_space ix2 = s \<and> vi_ndim ix2 = ndim \<and> vi_metric ix2 = metric \<and> vi_entries ix2 = vi_entries ix1"
    using f1 manifest_frame [where ix' = ix2 and ix = ix1 and m = "vi_manifest ix2"] by auto
  ultimately show ?thesis using that [of ix2] keys p(2) by (simp add: vi_contains_def)
qed


section \<open>Validation\<close>

lemma any_missing_Inr: "any_missing ks ix = Inr b \<Longrightarrow> b \<longleftrightarrow> (\<exists>k\<in>set ks. \<not> vi_contains ix k)"
  by (induction ks) (auto simp: bindE_Inr_iff index_contains_def split: if_split_asm)

lemma set_active_keys: "set (active_keys s d) = {k. eligible_key s d k}"
  by (auto simp: active_keys_def eligible_key_def List.map_filter_def image_iff) force

lemma distinct_keys_of_space:
  "unique_where (\<lambda>r. r_key r \<noteq> None) (\<lambda>r. (r_space r, r_key r)) t \<Longrightarrow>
     distinct (List.map_filter r_key (filter (\<lambda>r. r_space r = s \<and> p r) t))"
proof (induction t)
  case (Cons r t)
  then show ?case
    by (cases "r_key r") (auto simp: unique_where_Cons List.map_filter_def)
qed (simp add: List.map_filter_def)

lemma distinct_active_keys: "memory_ok d \<Longrightarrow> distinct (active_keys s d)"
  unfolding active_keys_def by (rule distinct_keys_of_space) (simp add: memory_ok_def reps_ok_def)

lemma is_stale_False:
  assumes "is_stale ix s d = Inr False" and "memory_ok d" and "index_ok ix"
  shows "vi_contains ix k \<longleftrightarrow> eligible_key s d k"
proof -
  have sub: "set (active_keys s d) \<subseteq> fst ` set (vi_entries ix)" and len: "length (active_keys s d) = length (vi_entries ix)"
    using assms(1) any_missing_Inr [of "active_keys s d" ix False]
    by (auto simp: is_stale_def bindE_Inr_iff vi_contains_def)
  have "card (set (active_keys s d)) = card (fst ` set (vi_entries ix))"
    using len distinct_card [OF distinct_active_keys [OF assms(2)]] assms(3) distinct_card [of "map fst (vi_entries ix)"]
    by (simp add: index_ok_def)
  with sub have "set (active_keys s d) = fst ` set (vi_entries ix)" by (intro card_subset_eq) auto
  then show ?thesis by (auto simp: vi_contains_def set_active_keys)
qed

text \<open>An index made of \<open>active_entries\<close> holds the eligible keys, when no vector had to be left out.\<close>

lemma entries_hold_eligible:
  assumes "memory_ok d" and "vi_entries ix = fst (active_entries s ndim d)" and "snd (active_entries s ndim d) = []"
  shows "vi_contains ix k \<longleftrightarrow> eligible_key s d k"
proof
  assume "vi_contains ix k"
  then obtain v where "(k, v) \<in> set (fst (active_entries s ndim d))" by (auto simp: vi_contains_def assms(2))
  then show "eligible_key s d k" using active_entries_keys assms(1) by blast
next
  assume "eligible_key s d k"
  then obtain r where r: "r \<in> set (reps d)" "r_space r = s" "eligible d r" "r_key r = Some k"
    by (auto simp: eligible_key_def)
  then have in_rows: "r \<in> set (active_rows s d)" by (simp add: active_rows_def)
  then have "\<not> isl (decoded_row ndim r)"
    using assms(3) by (auto simp: active_entries_def Let_def filter_empty_conv)
  moreover from this have "fst (projr (decoded_row ndim r)) = k" using r(4)
    by (auto simp: decoded_row_def bindE_def split: sum.splits)
  ultimately show "vi_contains ix k"
    using in_rows by (force simp: vi_contains_def assms(2) active_entries_def Let_def)
qed


section \<open>Settling\<close>

definition settled_row :: "retry_policy \<Rightarrow> time \<Rightarrow> outcomes \<Rightarrow> index_op \<Rightarrow> index_op" where
  "settled_row rt now os x =
     (case map_of os (x_id x) of
        None \<Rightarrow> x
      | Some e \<Rightarrow>
          if x_state x \<noteq> X_PENDING then x
          else outcome_row rt (x_attempts x) now e
                 (x\<lparr>x_attempts := x_attempts x + 1, x_last := Some now, x_updated := now\<rparr>))"

lemma outcome_row_simps [simp]:
  "x_id (outcome_row rt n now e x) = x_id x" "x_rep (outcome_row rt n now e x) = x_rep x"
  "x_kind (outcome_row rt n now e x) = x_kind x" "x_attempts (outcome_row rt n now e x) = x_attempts x"
  by (simp_all add: outcome_row_def split: option.split)

lemma outcome_values_row: "outcome_values (outcome_row rt n now e)"
  by (auto simp: outcome_values_def outcome_row_def split: option.splits)

lemma settle_op_row:
  assumes "tab_keyed x_id t" and "settle_op i n now v t = (b, t')"
  shows "t' = map (\<lambda>x. if x_id x = i \<and> x_state x = X_PENDING
           then v (x\<lparr>x_attempts := n, x_last := Some now, x_updated := now\<rparr>) else x) t"
  using assms by (simp add: settle_op_def guarded_update_def tab_update_def)

lemma settle_each_queue:
  assumes "queue_inv t" and "distinct (map fst os)" and "settle_each rt seen now os rp t = (rp', t')"
    and "\<forall>i\<in>fst ` set os. seen i = map_option x_attempts (tab_get x_id t i)"
  shows "t' = map (settled_row rt now os) t \<and> queue_inv t'"
  using assms
proof (induction os arbitrary: rp t)
  case Nil
  then show ?case by (simp add: settled_row_def map_idI)
next
  case (Cons o1 os)
  obtain i e where o1: "o1 = (i, e)" by fastforce
  have keyed: "tab_keyed x_id t" using Cons.prems(1) by (simp add: queue_inv_def)
  let ?f = "\<lambda>x. if x_id x = i \<and> x_state x = X_PENDING
      then outcome_row rt (x_attempts x) now e (x\<lparr>x_attempts := x_attempts x + 1, x_last := Some now, x_updated := now\<rparr>) else x"
  have "\<exists>rp1. settle_each rt seen now os rp1 (map ?f t) = (rp', t') \<and> queue_inv (map ?f t)"
  proof (cases "seen i")
    case None
    then have "\<forall>x\<in>set t. x_id x \<noteq> i" using Cons.prems(4) by (auto simp: o1 tab_get_None_iff)
    then have "map ?f t = t" by (intro map_idI) auto
    with None Cons.prems show ?thesis by (auto simp: o1)
  next
    case (Some n)
    then obtain x where x: "x \<in> set t" "x_id x = i" "x_attempts x = n"
      using Cons.prems(4) by (auto simp: o1 dest: tab_get_SomeD)
    obtain b t1 where s: "settle_op i (n + 1) now (outcome_row rt n now e) t = (b, t1)" by fastforce
    have t1: "t1 = map ?f t"
      unfolding settle_op_row [OF keyed s] using tab_keyed_inj [OF keyed _ x(1)] x(2,3) by (intro map_cong) auto
    have "0 \<le> n" using Cons.prems(1) x by (auto simp: queue_inv_def index_op_row_ok_def)
    then have "queue_inv t1" using settle_op_inv [OF Cons.prems(1) s outcome_values_row] by simp
    moreover have "\<exists>rp1. settle_each rt seen now os rp1 t1 = (rp', t')"
      using Cons.prems(3) Some s by (cases b) (auto simp: o1)
    ultimately show ?thesis by (auto simp: t1)
  qed
  then obtain rp1 where rp1: "settle_each rt seen now os rp1 (map ?f t) = (rp', t')" "queue_inv (map ?f t)" by blast
  have ids: "x_id (?f x) = x_id x" for x by simp
  have "map_option x_attempts (tab_get x_id (map ?f t) j) = map_option x_attempts (tab_get x_id t j)" if "j \<noteq> i" for j
  proof (induction t)
    case (Cons y t)
    then show ?case using that by (simp add: tab_get_Cons ids)
  qed simp
  note look = this
  have new: "i \<notin> fst ` set os" using Cons.prems(2) by (simp add: o1)
  have "\<forall>j\<in>fst ` set os. seen j = map_option x_attempts (tab_get x_id (map ?f t) j)"
  proof
    fix j assume j: "j \<in> fst ` set os"
    then have "j \<noteq> i" using new by blast
    moreover have "seen j = map_option x_attempts (tab_get x_id t j)" using j Cons.prems(4) by (auto simp: o1)
    ultimately show "seen j = map_option x_attempts (tab_get x_id (map ?f t) j)"
      using look by simp
  qed
  note later = Cons.IH [OF rp1(2) _ rp1(1) this]
  have "distinct (map fst os)" using Cons.prems(2) by (simp add: o1)
  from later [OF this] have "t' = map (settled_row rt now os) (map ?f t)" "queue_inv t'" by blast+
  moreover have "settled_row rt now os (?f x) = settled_row rt now (o1 # os) x" for x
  proof -
    have "map_of os i = None" using new by (simp add: map_of_eq_None_iff)
    then show ?thesis by (auto simp: settled_row_def o1 split: option.split)
  qed
  ultimately show ?case by (simp add: comp_def)
qed

text \<open>
  Settling a pass records every outcome on its own row, once. Whatever rows came or went while
  the pass ran: an operation that is still pending becomes APPLIED, or FAILED when this attempt is
  the last the policy allows, or waits for its backoff, with its attempts one higher; an operation
  that was deleted, or settled by someone else, and every other row is left exactly as it is. The
  queue's constraints hold afterwards.
\<close>

theorem settling_records_each_outcome:
  assumes "queue_inv t" and "distinct (map fst os)"
  shows "snd (settle rt now os rp t) = map (settled_row rt now os) t \<and> queue_inv (snd (settle rt now os rp t))"
proof -
  obtain rp' t' where s: "settle rt now os rp t = (rp', t')" by fastforce
  have "\<forall>i\<in>fst ` set os. attempt_counts (map fst os) t i = map_option x_attempts (tab_get x_id t i)"
    unfolding attempt_counts_def
    by (simp add: attempt_counts_fold concat_chunks attempt_count_chunk_def map_of_table)
  from settle_each_queue [OF assms s [unfolded settle_def] this] show ?thesis unfolding s snd_conv .
qed

section \<open>A library with one face being erased\<close>

definition erasing_db :: db where
  "erasing_db = sample_db
     \<lparr>reps := [sample_rep 21 11 (Some 1) R_ERASING (Some 1), sample_rep 23 13 (Some 2) R_ACTIVE (Some 2)],
      ann_sequences := [\<lparr>q_space = 5, q_next = 3\<rparr>],
      index_ops := [fresh_op \<lparr>w_rep = 21, w_space = 5, w_kind = REMOVE\<rparr> 3 71]\<rparr>"

lemma erasing_db_ok: "memory_ok erasing_db"
proof -
  have "reps_ok (reps erasing_db)" by code_simp
  moreover have "queue_inv (index_ops erasing_db)" by code_simp
  moreover have "keys_below (reps erasing_db) (ann_sequences erasing_db)"
    by (simp add: keys_below_def erasing_db_def sample_rep_def next_key_def tab_get_Cons)
  moreover have "owned_ok (identities erasing_db) (reps erasing_db) (occurrences erasing_db) (associations erasing_db)"
    by (simp add: owned_ok_def erasing_db_def sample_db_def sample_rep_def new_association_def active_id_def
        new_identity_def tab_get_Cons)
  moreover have "identities erasing_db = identities sample_db" "associations erasing_db = associations sample_db"
    "occurrences erasing_db = occurrences sample_db" by (simp_all add: erasing_db_def)
  ultimately show ?thesis using sample_db_ok by (simp add: memory_ok_def)
qed

definition sample_disk :: "uuid \<Rightarrow> disk" where
  "sample_disk g = \<lparr>dk_generation = g, dk_now = 4, dk_fault = None, dk_torn = [], dk_locked = (\<lambda>_. False)\<rparr>"

definition sample_disks :: pass_disks where
  "sample_disks = \<lparr>pd_open = sample_disk 81, pd_build = sample_disk 82, pd_persist = sample_disk 83\<rparr>"

definition sample_dir :: "node option" where
  "sample_dir = Some (Folder (run_steps (publish_steps unary_env 7 4 []
     \<lparr>vi_space = 5, vi_ndim = 1, vi_metric = ''cos'', vi_entries = [(1, [0])], vi_manifest = None\<rparr>) []))"



lemma settling_records_each_outcome_witness:
  "\<exists>t'. snd (settle \<lparr>rt_max = 3, rt_backoff = (\<lambda>n. 10 * n)\<rparr> 9 [(71, Some ''OSError''), (72, None)] empty_report (index_ops erasing_db)) = t' \<and>
     queue_inv t' \<and> map x_not_before t' = [19] \<and> map x_attempts t' = [1]"
proof -
  let ?rt = "\<lparr>rt_max = 3, rt_backoff = (\<lambda>n. 10 * n)\<rparr>"
  have q: "queue_inv (index_ops erasing_db)" using erasing_db_ok by (simp add: memory_ok_def)
  have "distinct (map fst [(71 :: uuid, Some ''OSError''), (72, None)])" by simp
  note done_rows = settling_records_each_outcome [OF q this, of ?rt 9 empty_report]
  have "map x_not_before (map (settled_row ?rt 9 [(71, Some ''OSError''), (72, None)]) (index_ops erasing_db)) = [19] \<and>
      map x_attempts (map (settled_row ?rt 9 [(71, Some ''OSError''), (72, None)]) (index_ops erasing_db)) = [1]"
    by (simp add: erasing_db_def settled_row_def outcome_row_def fresh_op_def)
  with done_rows show ?thesis by metis
qed

end
