(* ===== verification/Erasure.thy ===== *)
theory Erasure
  imports Coordinator
begin

text \<open>
  Erasing representations (\<open>backend/app/memory/erasure.py\<close>, \<open>backend/app/settings/app_state.py\<close>): queue and
  exclude, apply the removals by a rebuild, clear the row once no file holds the vector, truncate the
  write-ahead log while a durable marker says it is owed. The checkpoint itself is SQLite's: its
  outcome is an argument. \<open>ERASED\<close> means the vector is gone from the row and the index files.
\<close>

section \<open>The durable marker\<close>

definition wal_truncation_owed :: string where
  "wal_truncation_owed = ''wal_truncation_owed''"

definition app_state_set :: "string \<Rightarrow> string \<Rightarrow> time \<Rightarrow> db \<Rightarrow> db" where
  "app_state_set key val now d =
     (if tab_get v_key (app_states d) key = None
      then d\<lparr>app_states := app_states d @ [\<lparr>v_key = key, v_value = val, v_updated = now\<rparr>]\<rparr>
      else d\<lparr>app_states := tab_update (\<lambda>v. v_key v = key) (\<lambda>v. v\<lparr>v_value := val, v_updated := now\<rparr>) (app_states d)\<rparr>)"

definition app_state_get :: "string \<Rightarrow> db \<Rightarrow> string option" where
  "app_state_get key d = map_option v_value (tab_get v_key (app_states d) key)"

definition app_state_clear :: "string \<Rightarrow> string option \<Rightarrow> db \<Rightarrow> bool \<times> db" where
  "app_state_clear key val d =
     (let hit = (\<lambda>v. v_key v = key \<and> (case val of None \<Rightarrow> True | Some x \<Rightarrow> v_value v = x))
      in (list_ex hit (app_states d), d\<lparr>app_states := filter (\<lambda>v. \<not> hit v) (app_states d)\<rparr>))"

section \<open>Queue and exclude\<close>

definition erasable :: "rep_state list" where
  "erasable = [R_ACTIVE, R_PENDING, R_SUPERSEDED]"

definition erasure_chunk :: nat where
  "erasure_chunk = 500"

definition removal_of :: "rep \<Rightarrow> new_operation" where
  "removal_of r = \<lparr>w_rep = r_id r, w_space = r_space r, w_kind = REMOVE\<rparr>"

definition is_remove_of :: "uuid \<Rightarrow> index_op \<Rightarrow> bool" where
  "is_remove_of i x \<longleftrightarrow> x_rep x = i \<and> x_kind x = REMOVE"

definition set_erasing :: "rep_state list \<Rightarrow> uuid list \<Rightarrow> db \<Rightarrow> db" where
  "set_erasing sts ids d =
     d\<lparr>reps := tab_update (\<lambda>r. r_id r \<in> set ids \<and> r_state r \<in> set sts) (\<lambda>r. r\<lparr>r_state := R_ERASING\<rparr>) (reps d)\<rparr>"

definition exclude_chunk :: "uuid list \<Rightarrow> db \<Rightarrow> new_operation list \<times> db" where
  "exclude_chunk ids d =
     (let moved = filter (\<lambda>r. r_id r \<in> set ids \<and> r_state r \<in> set erasable) (reps d);
          keyed = filter (\<lambda>r. r_key r \<noteq> None) moved;
          d' = set_erasing erasable ids d
      in (map removal_of keyed,
          d'\<lparr>index_ops := filter (\<lambda>x. \<not> (x_rep x \<in> r_id ` set keyed \<and> x_kind x = REMOVE \<and>
                                       x_state x \<in> {X_PENDING, X_FAILED})) (index_ops d')\<rparr>))"

fun exclude_chunks :: "uuid list list \<Rightarrow> db \<Rightarrow> new_operation list \<times> db" where
  "exclude_chunks [] d = ([], d)"
| "exclude_chunks (c # cs) d =
     (case exclude_chunk c d of (ws, d1) \<Rightarrow>
        (case exclude_chunks cs d1 of (ws', d2) \<Rightarrow> (ws @ ws', d2)))"

definition missing_removes :: "db \<Rightarrow> new_operation list" where
  "missing_removes d =
     map removal_of (filter (\<lambda>r. r_state r = R_ERASING \<and> r_key r \<noteq> None \<and>
                                 \<not> list_ex (is_remove_of (r_id r)) (index_ops d)) (reps d))"

definition failed_removes :: "db \<Rightarrow> uuid list" where
  "failed_removes d =
     map x_id (filter (\<lambda>x. x_kind x = REMOVE \<and> x_state x = X_FAILED \<and>
                           list_ex (\<lambda>r. r_id r = x_rep x \<and> r_state r = R_ERASING) (reps d)) (index_ops d))"

definition queue_removals :: "uuid list \<Rightarrow> time \<Rightarrow> id_supply \<Rightarrow> db \<Rightarrow> repo_error + db" where
  "queue_removals rep_ids now ids d =
     (case exclude_chunks (chunks erasure_chunk rep_ids) d of (ws, d1) \<Rightarrow>
        bindE (append_batch ws now ids d1) (\<lambda>(_, d2).
        bindE (append_batch (missing_removes d2) now (\<lambda>n. ids (length ws + n)) d2) (\<lambda>(_, d3).
          Inr (d3\<lparr>index_ops := fold (\<lambda>i t. snd (requeue i now t)) (failed_removes d3) (index_ops d3)\<rparr>))))"

text \<open>\<open>queue_in\<close>: DELETED ones are taken too, and forget the removals they had.\<close>

definition take_deleted :: "uuid list \<Rightarrow> db \<Rightarrow> db" where
  "take_deleted ids d =
     set_erasing [R_DELETED] ids
       (d\<lparr>index_ops := filter (\<lambda>x. \<not> (x_kind x = REMOVE \<and>
            list_ex (\<lambda>r. r_id r = x_rep x \<and> r_id r \<in> set ids \<and> r_state r = R_DELETED) (reps d))) (index_ops d)\<rparr>)"

definition queue_in :: "uuid list \<Rightarrow> time \<Rightarrow> id_supply \<Rightarrow> db \<Rightarrow> repo_error + db" where
  "queue_in rep_ids now ids d =
     queue_removals rep_ids now ids (fold take_deleted (chunks erasure_chunk rep_ids) d)"

section \<open>Finalize a space\<close>

definition removal_done :: "uuid \<Rightarrow> db \<Rightarrow> uuid list" where
  "removal_done s d =
     map r_id (filter (\<lambda>r. r_space r = s \<and> r_state r = R_ERASING \<and> r_key r \<noteq> None \<and>
         list_ex (\<lambda>x. is_remove_of (r_id r) x \<and> x_state x = X_APPLIED) (index_ops d) \<and>
         \<not> list_ex (\<lambda>x. is_remove_of (r_id r) x \<and> x_state x \<in> {X_PENDING, X_FAILED}) (index_ops d)) (reps d))"

fun clear_chunks :: "uuid list list \<Rightarrow> time \<Rightarrow> db \<Rightarrow> uuid list \<times> db" where
  "clear_chunks [] now d = ([], d)"
| "clear_chunks (c # cs) now d =
     (let hit = (\<lambda>r. r_id r \<in> set c \<and> r_state r = R_ERASING);
          d1 = d\<lparr>reps := tab_update hit
                 (\<lambda>r. r\<lparr>r_state := R_ERASED, r_vector := None, r_key := None, r_erased := Some now\<rparr>) (reps d)\<rparr>
      in case clear_chunks cs now d1 of (rest, d2) \<Rightarrow> (map r_id (filter hit (reps d)) @ rest, d2))"

definition clear_erased :: "uuid list \<Rightarrow> string \<Rightarrow> time \<Rightarrow> db \<Rightarrow> uuid list \<times> db" where
  "clear_erased ready marker now d =
     clear_chunks (chunks erasure_chunk ready) now (app_state_set wal_truncation_owed marker now d)"

text \<open>
  With the quarantined files that cannot be deleted (\<open>locked\<close>). Returns what was cleared, why the rest
  must wait, the database and the directory.
\<close>

definition finalize_space ::
  "uuid \<Rightarrow> (string list \<Rightarrow> bool) \<Rightarrow> string \<Rightarrow> time \<Rightarrow> db \<Rightarrow> node option \<Rightarrow> (uuid list \<times> string option) \<times> db \<times> node option" where
  "finalize_space s locked marker now d dir =
     (let rows = filter (\<lambda>r. r_space r = s \<and> r_state r = R_ERASING) (reps d);
          removed = removal_done s d;
          keyless = map r_id (filter (\<lambda>r. r_key r = None) rows);
          ready = map r_id (filter (\<lambda>r. r_key r = None \<or> r_id r \<in> set removed) rows);
          (left, dir') = (if list_ex (\<lambda>r. r_key r \<noteq> None \<and> r_id r \<in> set removed) rows
             then (case retire_quarantine locked dir of (q, dir1) \<Rightarrow> (superseded_files dir @ q, dir1)) else ([], dir));
          reason = (case left of [] \<Rightarrow> None | n # _ \<Rightarrow> Some (n @ '' could not be removed''));
          todo = (if left = [] then ready else keyless)
      in if todo = [] then (([], reason), d, dir')
         else case clear_erased todo marker now d of (cleared, d') \<Rightarrow> ((cleared, reason), d', dir'))"

section \<open>The log\<close>

datatype truncation = T_DONE | T_BUSY | T_RAISED string

record erasure_report =
  er_erased :: "uuid list"
  er_pending :: "uuid list"
  er_ignored :: "uuid list"
  er_blocked :: "(uuid \<times> string) list"
  er_errors :: "(uuid option \<times> string) list"
  er_wal_truncated :: bool
  er_truncated :: bool
  er_unverified :: "uuid list"

definition empty_erasure_report :: erasure_report where
  "empty_erasure_report = \<lparr>er_erased = [], er_pending = [], er_ignored = [], er_blocked = [], er_errors = [],
     er_wal_truncated = True, er_truncated = False, er_unverified = []\<rparr>"

datatype owed = Blocked uuid string | Failing "uuid option" string | StillErasing nat | Unverified nat | LogNotTruncated

definition outstanding_cleanup :: "erasure_report \<Rightarrow> owed list" where
  "outstanding_cleanup rp =
     map (\<lambda>(s, why). Blocked s why) (er_blocked rp) @ map (\<lambda>(i, e). Failing i e) (er_errors rp) @
     (if er_pending rp \<noteq> [] then [StillErasing (length (er_pending rp))] else []) @
     (if er_unverified rp \<noteq> [] then [Unverified (length (er_unverified rp))] else []) @
     (if er_wal_truncated rp then [] else [LogNotTruncated])"

definition erasure_complete :: "erasure_report \<Rightarrow> bool" where
  "erasure_complete rp \<longleftrightarrow> outstanding_cleanup rp = []"

text \<open>\<open>d\<close> is the database when the marker is read, \<open>later\<close> what it is when the checkpoint has ended.\<close>

definition truncate_log ::
  "truncation \<Rightarrow> db \<Rightarrow> db \<Rightarrow> erasure_report \<Rightarrow> erasure_report \<times> db" where
  "truncate_log outcome d later rp =
     (case app_state_get wal_truncation_owed d of
        None \<Rightarrow> (rp, later)
      | Some owed \<Rightarrow>
          (case outcome of
             T_DONE \<Rightarrow> (rp\<lparr>er_truncated := True\<rparr>, snd (app_state_clear wal_truncation_owed (Some owed) later))
           | T_BUSY \<Rightarrow> (rp\<lparr>er_wal_truncated := False\<rparr>, later)
           | T_RAISED e \<Rightarrow> (rp\<lparr>er_errors := er_errors rp @ [(None, ''truncate_wal: '' @ e)], er_wal_truncated := False\<rparr>, later)))"

definition verify_cleared :: "uuid list \<Rightarrow> db \<Rightarrow> erasure_report \<Rightarrow> erasure_report" where
  "verify_cleared cleared d rp =
     rp\<lparr>er_unverified := er_unverified rp @ concat (map (\<lambda>c. map r_id (filter (\<lambda>r. r_id r \<in> set c \<and>
          (r_state r \<noteq> R_ERASED \<or> r_vector r \<noteq> None \<or> r_key r \<noteq> None)) (reps d))) (chunks erasure_chunk cleared))\<rparr>"

definition summarize :: "uuid list option \<Rightarrow> uuid list \<Rightarrow> db \<Rightarrow> erasure_report \<Rightarrow> erasure_report" where
  "summarize scope cleared d rp =
     (case scope of
        None \<Rightarrow> rp\<lparr>er_erased := cleared, er_pending := map r_id (filter (\<lambda>r. r_state r = R_ERASING) (reps d))\<rparr>
      | Some ids \<Rightarrow>
          let state = (\<lambda>i. map_option r_state (tab_get r_id (reps d) i))
          in rp\<lparr>er_erased := er_erased rp @ filter (\<lambda>i. state i = Some R_ERASED) ids,
                er_pending := er_pending rp @ filter (\<lambda>i. state i = Some R_ERASING) ids,
                er_ignored := er_ignored rp @ filter (\<lambda>i. state i \<noteq> Some R_ERASED \<and> state i \<noteq> Some R_ERASING) ids\<rparr>)"

section \<open>The whole erasure\<close>

text \<open>
  What the outside decides in one drive: the index library, the retry policy and clocks of the pass,
  the locked quarantine files and a failure of each space, the marker values, the checkpoint.
\<close>

record erasure_env =
  ee_index :: index_env
  ee_retry :: retry_policy
  ee_pass :: pass_env
  ee_now :: time
  ee_locked :: "uuid \<Rightarrow> string list \<Rightarrow> bool"
  ee_raises :: "uuid \<Rightarrow> string option"
  ee_marker :: "uuid \<Rightarrow> string"
  ee_truncation :: truncation

fun finalize_spaces ::
  "erasure_env \<Rightarrow> uuid list \<Rightarrow> db \<Rightarrow> index_root \<Rightarrow> uuid list \<times> (uuid \<times> string) list \<times> db \<times> index_root" where
  "finalize_spaces ee [] d files = ([], [], d, files)"
| "finalize_spaces ee (s # ss) d files =
     (case ee_raises ee s of
        Some e \<Rightarrow> (case finalize_spaces ee ss d files of (cl, bl, d', files') \<Rightarrow> (cl, (s, e) # bl, d', files'))
      | None \<Rightarrow>
          (case finalize_space s (ee_locked ee s) (ee_marker ee s) (ee_now ee) d (files s) of
             ((cl, reason), d1, dir1) \<Rightarrow>
               (case finalize_spaces ee ss d1 (files(s := dir1)) of (cl', bl, d', files') \<Rightarrow>
                  (cl @ cl', (case reason of None \<Rightarrow> bl | Some why \<Rightarrow> (s, why) # bl), d', files'))))"

definition erasing_operations :: "db \<Rightarrow> uuid list" where
  "erasing_operations d =
     map x_id (filter (\<lambda>x. list_ex (\<lambda>r. r_id r = x_rep x \<and> r_state r = R_ERASING) (reps d)) (index_ops d))"

definition drive :: "erasure_env \<Rightarrow> uuid list option \<Rightarrow> db \<Rightarrow> index_root \<Rightarrow> erasure_report \<times> db \<times> index_root" where
  "drive ee scope d files =
     (let spaces = dedup (map r_space (filter (\<lambda>r. r_state r = R_ERASING) (reps d)));
          owing = length (filter (\<lambda>x. x_state x = X_PENDING) (index_ops d));
          (errors, d1, files1) =
            (if spaces \<noteq> [] \<and> owing \<noteq> 0
             then (case apply_pending (ee_index ee) (ee_retry ee) (ee_pass ee) (ee_now ee) owing d files of
                     (rp, d1, files1) \<Rightarrow>
                       (map (\<lambda>(i, e). (Some i, e)) (filter (\<lambda>(i, _). i \<in> set (erasing_operations d1))
                          (cr_retrying rp @ cr_failed rp)), d1, files1))
             else ([], d, files));
          (cleared, blocked, d2, files2) = finalize_spaces ee spaces d1 files1;
          rp1 = summarize scope cleared d2 (empty_erasure_report\<lparr>er_errors := errors, er_blocked := blocked\<rparr>);
          (rp2, d3) = truncate_log (ee_truncation ee) d2 d2 rp1
      in (verify_cleared cleared d3 rp2, d3, files2))"

definition erase_reps ::
  "erasure_env \<Rightarrow> uuid list \<Rightarrow> time \<Rightarrow> id_supply \<Rightarrow> db \<Rightarrow> index_root \<Rightarrow> repo_error + erasure_report \<times> db \<times> index_root" where
  "erase_reps ee rep_ids now ids d files =
     (let wanted = dedup rep_ids
      in bindE (queue_removals wanted now ids d) (\<lambda>d1. Inr (drive ee (Some wanted) d1 files)))"

text \<open>\<open>resume\<close> reports what it could not queue instead of raising it.\<close>

definition resume_erasure ::
  "erasure_env \<Rightarrow> time \<Rightarrow> id_supply \<Rightarrow> db \<Rightarrow> index_root \<Rightarrow> erasure_report \<times> db \<times> index_root" where
  "resume_erasure ee now ids d files =
     (case queue_removals [] now ids d of
        Inl _ \<Rightarrow> (empty_erasure_report\<lparr>er_errors := [(None, ''IntegrityError'')]\<rparr>, d, files)
      | Inr d1 \<Rightarrow> drive ee None d1 files)"

definition settle_log :: "truncation \<Rightarrow> db \<Rightarrow> owed list \<times> db" where
  "settle_log outcome d =
     (case truncate_log outcome d d empty_erasure_report of (rp, d') \<Rightarrow> (outstanding_cleanup rp, d'))"

section \<open>What queueing does\<close>

definition excluded :: "rep_state list \<Rightarrow> uuid list \<Rightarrow> rep \<Rightarrow> rep" where
  "excluded sts ids r = (if r_id r \<in> set ids \<and> r_state r \<in> set sts then r\<lparr>r_state := R_ERASING\<rparr> else r)"

lemma excluded_simps [simp]:
  "r_id (excluded sts ids r) = r_id r" "r_key (excluded sts ids r) = r_key r" "r_space (excluded sts ids r) = r_space r"
  "r_identity (excluded sts ids r) = r_identity r" "r_obs (excluded sts ids r) = r_obs r"
  "excluded sts [] r = r"
  by (simp_all add: excluded_def)

lemma excluded_excluded:
  "R_ERASING \<notin> set sts \<Longrightarrow> excluded sts b (excluded sts a r) = excluded sts (a @ b) r"
  by (auto simp: excluded_def)

lemma set_erasing_eq: "set_erasing sts ids d = d\<lparr>reps := map (excluded sts ids) (reps d)\<rparr>"
  by (simp add: set_erasing_def tab_update_def excluded_def)

text \<open>A database that differs in the representations' states and the queue only.\<close>

definition requeued :: "db \<Rightarrow> (rep \<Rightarrow> rep) \<Rightarrow> db \<Rightarrow> bool" where
  "requeued d f d' \<longleftrightarrow> d' = d\<lparr>reps := map f (reps d), index_ops := index_ops d'\<rparr>"

lemma requeued_simps:
  assumes "requeued d f d'"
  shows "reps d' = map f (reps d)" "identities d' = identities d" "spaces d' = spaces d"
    "app_states d' = app_states d" "occurrences d' = occurrences d" "associations d' = associations d"
    "ann_sequences d' = ann_sequences d" "evidences d' = evidences d" "observations d' = observations d"
    "people d' = people d"
  using assms unfolding requeued_def by (auto dest: arg_cong [where f = reps] arg_cong [where f = identities]
      arg_cong [where f = spaces] arg_cong [where f = app_states] arg_cong [where f = occurrences]
      arg_cong [where f = associations] arg_cong [where f = ann_sequences] arg_cong [where f = evidences]
      arg_cong [where f = observations] arg_cong [where f = people])

lemma requeued_trans:
  assumes "requeued d f d1" and "requeued d1 g d2"
  shows "requeued d (\<lambda>r. g (f r)) d2"
proof -
  obtain t1 t2 where "d1 = d\<lparr>reps := map f (reps d), index_ops := t1\<rparr>"
      "d2 = d1\<lparr>reps := map g (reps d1), index_ops := t2\<rparr>"
    using assms unfolding requeued_def by blast
  then show ?thesis by (simp add: requeued_def comp_def)
qed

lemma requeued_ops: "requeued d (\<lambda>r. r) (d\<lparr>index_ops := t\<rparr>)"
  by (simp add: requeued_def)

lemma requeued_queue:
  assumes "\<exists>t. d' = d\<lparr>index_ops := t\<rparr>"
  shows "requeued d (\<lambda>r. r) d'"
  using assms by (auto simp: requeued_def)

lemma requeued_excluded_ok:
  assumes "memory_ok d" and "requeued d (excluded sts ids) d'" and "queue_inv (index_ops d')" and "R_ERASED \<notin> set sts"
  shows "memory_ok d'"
proof -
  let ?p = "\<lambda>r. r_id r \<in> set ids \<and> r_state r \<in> set sts" and ?f = "\<lambda>r. r\<lparr>r_state := R_ERASING\<rparr>"
  have t: "map (excluded sts ids) (reps d) = tab_update ?p ?f (reps d)"
    by (simp add: tab_update_def excluded_def)
  have "reps_ok (tab_update ?p ?f (reps d))"
    using assms(1,4) by (intro reps_ok_update) (auto simp: memory_ok_def reps_ok_def rep_row_ok_def)
  moreover have "keys_below (tab_update ?p ?f (reps d)) (ann_sequences d)"
    using assms(1) by (intro keys_below_update) (auto simp: memory_ok_def keys_below_def)
  moreover have "owned_ok (identities d) (tab_update ?p ?f (reps d)) (occurrences d) (associations d)"
    using assms(1) by (auto simp: memory_ok_def owned_ok_def set_tab_update split: if_splits)
  ultimately show ?thesis
    using assms(1,3) requeued_simps [OF assms(2)] by (simp add: memory_ok_def t)
qed

text \<open>The keyed representations that a bulk of ids takes out of the index.\<close>

definition leaving :: "db \<Rightarrow> uuid list \<Rightarrow> uuid \<Rightarrow> bool" where
  "leaving d ids i \<longleftrightarrow> (\<exists>r\<in>set (reps d). r_id r = i \<and> i \<in> set ids \<and> r_state r \<in> set erasable \<and> r_key r \<noteq> None)"

lemma leaving_append:
  assumes "reps d1 = map (excluded erasable a) (reps d)"
  shows "leaving d (a @ b) i \<longleftrightarrow> leaving d a i \<or> leaving d1 b i"
proof
  assume "leaving d (a @ b) i"
  then obtain r where r: "r \<in> set (reps d)" "r_id r = i" "i \<in> set a \<or> i \<in> set b" "r_state r \<in> set erasable" "r_key r \<noteq> None"
    by (auto simp: leaving_def)
  show "leaving d a i \<or> leaving d1 b i"
  proof (cases "i \<in> set a")
    case False
    then have "excluded erasable a r = r" using r(2) by (simp add: excluded_def)
    then have "r \<in> set (reps d1)" using r(1) unfolding assms by force
    with r False show ?thesis by (auto simp: leaving_def)
  qed (use r in \<open>auto simp: leaving_def\<close>)
next
  assume "leaving d a i \<or> leaving d1 b i"
  then show "leaving d (a @ b) i"
    by (auto simp: leaving_def assms excluded_def erasable_def split: if_split_asm)
qed

lemma exclude_chunk_eq:
  assumes "exclude_chunk c d = (ws, d')"
  shows "requeued d (excluded erasable c) d'" and "\<exists>p. index_ops d' = filter p (index_ops d)"
    and "\<forall>w\<in>set ws. w_kind w = REMOVE" and "i \<in> w_rep ` set ws \<longleftrightarrow> leaving d c i"
proof -
  show "requeued d (excluded erasable c) d'" "\<exists>p. index_ops d' = filter p (index_ops d)" "\<forall>w\<in>set ws. w_kind w = REMOVE"
    using assms by (auto simp: exclude_chunk_def Let_def requeued_def set_erasing_eq removal_of_def)
  have "ws = map removal_of (filter (\<lambda>r. r_key r \<noteq> None) (filter (\<lambda>r. r_id r \<in> set c \<and> r_state r \<in> set erasable) (reps d)))"
    using assms by (simp add: exclude_chunk_def Let_def)
  then show "i \<in> w_rep ` set ws \<longleftrightarrow> leaving d c i"
    by (auto simp: image_iff leaving_def removal_of_def)
qed

lemma exclude_chunks_eq:
  assumes "exclude_chunks cs d = (ws, d')"
  shows "requeued d (excluded erasable (concat cs)) d'" and "\<exists>p. index_ops d' = filter p (index_ops d)"
    and "\<forall>w\<in>set ws. w_kind w = REMOVE" and "i \<in> w_rep ` set ws \<longleftrightarrow> leaving d (concat cs) i"
proof -
  have "requeued d (excluded erasable (concat cs)) d' \<and> (\<exists>p. index_ops d' = filter p (index_ops d)) \<and>
      (\<forall>w\<in>set ws. w_kind w = REMOVE) \<and> (i \<in> w_rep ` set ws \<longleftrightarrow> leaving d (concat cs) i)"
    using assms
  proof (induction cs arbitrary: d ws)
    case Nil
    have "\<exists>p. index_ops d = filter p (index_ops d)" by (rule exI [of _ "\<lambda>_. True"]) simp
    with Nil show ?case by (auto simp: requeued_def leaving_def)
  next
    case (Cons c cs)
    obtain w1 d1 w2 where 1: "exclude_chunk c d = (w1, d1)" "exclude_chunks cs d1 = (w2, d')" "ws = w1 @ w2"
      using Cons.prems by (auto split: prod.split_asm)
    note a = exclude_chunk_eq [OF 1(1)] and b = Cons.IH [OF 1(2)]
    have "requeued d (\<lambda>r. excluded erasable (concat cs) (excluded erasable c r)) d'"
      using requeued_trans [OF a(1)] b by blast
    then have "requeued d (excluded erasable (concat (c # cs))) d'"
      by (simp add: excluded_excluded erasable_def)
    moreover have "i \<in> w_rep ` set ws \<longleftrightarrow> leaving d (concat (c # cs)) i"
      using a(4) b leaving_append [OF requeued_simps(1) [OF a(1)]] 1(3) by (simp add: image_Un)
    moreover have "\<exists>p. index_ops d' = filter p (index_ops d)"
      using a(2) b by (metis filter_filter)
    ultimately show ?case using a(3) b 1(3) by auto
  qed
  then show "requeued d (excluded erasable (concat cs)) d'" and "\<exists>p. index_ops d' = filter p (index_ops d)"
    and "\<forall>w\<in>set ws. w_kind w = REMOVE" and "i \<in> w_rep ` set ws \<longleftrightarrow> leaving d (concat cs) i" by blast+
qed

text \<open>Removals appended, removals given fresh attempts.\<close>

lemma append_removes_desired:
  assumes "append_batch ws now ids d = Inr (is, d')" and "\<forall>w\<in>set ws. w_kind w = REMOVE"
  shows "desired (index_ops d') r = (if r \<in> w_rep ` set ws then {REMOVE} else desired (index_ops d) r)"
  using assms
proof (induction ws arbitrary: ids d "is")
  case (Cons w ws)
  then obtain is1 d1 is2 where
    1: "append_op w now (ids 0) d = Inr (is1, d1)" "append_batch ws now (\<lambda>n. ids (Suc n)) d1 = Inr (is2, d')"
    by (auto simp: bindE_Inr_iff)
  show ?case using Cons.IH [OF 1(2)] append_op_desired [OF 1(1)] Cons.prems(2) by auto
qed simp

lemma append_batch_keeps_settled:
  assumes "append_batch ws now ids d = Inr (is, d')" and "x_state x \<noteq> X_PENDING"
  shows "x \<in> set (index_ops d') \<longleftrightarrow> x \<in> set (index_ops d)"
proof -
  have "x \<in> set (filter (\<lambda>x. x_state x \<noteq> X_PENDING) (index_ops d')) \<longleftrightarrow>
      x \<in> set (filter (\<lambda>x. x_state x \<noteq> X_PENDING) (index_ops d))"
    using append_batch_settled [OF assms(1)] by simp
  with assms(2) show ?thesis by simp
qed

lemma requeue_effect:
  assumes "requeue i now t = (b, t')"
  shows "desired t r \<subseteq> desired t' r"
    and "\<forall>x\<in>set t. x_id x = i \<longrightarrow> x_kind x = REMOVE \<Longrightarrow> desired t' r \<subseteq> desired t r \<union> {REMOVE}"
    and "x \<in> set t \<Longrightarrow> x_id x = i \<Longrightarrow> x_state x = X_FAILED \<Longrightarrow> x_kind x \<in> desired t' (x_rep x)"
    and "x \<in> set t \<Longrightarrow> x_id x \<noteq> i \<or> x_state x \<noteq> X_FAILED \<Longrightarrow> x \<in> set t'"
    and "y \<in> set t' \<Longrightarrow> \<exists>x\<in>set t. x_id y = x_id x \<and> x_kind y = x_kind x"
proof -
  let ?q = "\<lambda>x. x_id x = i \<and> x_state x = X_FAILED \<and> \<not> list_ex (pending_op (x_rep x) (x_kind x)) t"
  let ?f = "\<lambda>x. x\<lparr>x_state := X_PENDING, x_attempts := 0, x_not_before := now, x_updated := now\<rparr>"
  have t': "set t' = (\<lambda>x. if ?q x then ?f x else x) ` set t"
    using assms by (auto simp add: requeue_def guarded_update_def set_tab_update)
  have keep: "x \<in> set t'" if "x \<in> set t" "\<not> ?q x" for x
    unfolding t' using that by (intro image_eqI [of _ _ x]) auto
  show mono: "desired t r \<subseteq> desired t' r" for r
    using keep by (fastforce simp: desired_def list_ex_iff pending_op_def)
  show "desired t' r \<subseteq> desired t r \<union> {REMOVE}" if "\<forall>x\<in>set t. x_id x = i \<longrightarrow> x_kind x = REMOVE"
    using that by (auto simp: desired_def list_ex_iff pending_op_def t' split: if_split_asm)
  show "x_kind x \<in> desired t' (x_rep x)" if "x \<in> set t" "x_id x = i" "x_state x = X_FAILED"
  proof (cases "?q x")
    case True
    then have "?f x \<in> set t'" unfolding t' using that(1) by (intro image_eqI [of _ _ x]) auto
    then show ?thesis by (auto simp: desired_def list_ex_iff pending_op_def intro!: bexI [of _ "?f x"])
  next
    case False
    with that have "x_kind x \<in> desired t (x_rep x)" by (simp add: desired_def)
    with mono show ?thesis by blast
  qed
  show "x \<in> set t'" if "x \<in> set t" "x_id x \<noteq> i \<or> x_state x \<noteq> X_FAILED" using keep that by blast
  show "\<exists>x\<in>set t. x_id y = x_id x \<and> x_kind y = x_kind x" if "y \<in> set t'"
    using that by (auto simp: t' split: if_split_asm)
qed

lemma fold_requeue:
  fixes now
  defines "run \<equiv> \<lambda>is t. fold (\<lambda>i t. snd (requeue i now t)) is t"
  shows "desired t r \<subseteq> desired (run is t) r"
    and "\<forall>x\<in>set t. x_id x \<in> set is \<longrightarrow> x_kind x = REMOVE \<Longrightarrow> desired (run is t) r \<subseteq> desired t r \<union> {REMOVE}"
    and "x \<in> set t \<Longrightarrow> x_id x \<in> set is \<Longrightarrow> x_state x = X_FAILED \<Longrightarrow> x_kind x \<in> desired (run is t) (x_rep x)"
    and "x \<in> set t \<Longrightarrow> x_state x \<noteq> X_FAILED \<Longrightarrow> x \<in> set (run is t)"
    and "queue_inv t \<Longrightarrow> queue_inv (run is t)"
proof -
  have step: "\<exists>b. requeue i now t = (b, snd (requeue i now t))" for i t by (metis prod.collapse)
  show mono: "desired t r \<subseteq> desired (run is t) r" for t r "is"
  proof (induction "is" arbitrary: t)
    case (Cons i "is")
    obtain b where "requeue i now t = (b, snd (requeue i now t))" using step by blast
    from requeue_effect(1) [OF this] Cons show ?case by (fastforce simp: run_def)
  qed (simp add: run_def)
  show "desired (run is t) r \<subseteq> desired t r \<union> {REMOVE}" if "\<forall>x\<in>set t. x_id x \<in> set is \<longrightarrow> x_kind x = REMOVE"
    using that
  proof (induction "is" arbitrary: t)
    case (Cons i "is")
    obtain b where b: "requeue i now t = (b, snd (requeue i now t))" using step by blast
    have "\<forall>x\<in>set (snd (requeue i now t)). x_id x \<in> set is \<longrightarrow> x_kind x = REMOVE"
      using requeue_effect(5) [OF b] Cons.prems by fastforce
    from Cons.IH [OF this] requeue_effect(2) [OF b] Cons.prems show ?case by (fastforce simp: run_def)
  qed (auto simp: run_def)
  show "x_kind x \<in> desired (run is t) (x_rep x)" if "x \<in> set t" "x_id x \<in> set is" "x_state x = X_FAILED"
    using that
  proof (induction "is" arbitrary: t)
    case (Cons i "is")
    obtain b where b: "requeue i now t = (b, snd (requeue i now t))" using step by blast
    show ?case
    proof (cases "x_id x = i")
      case True
      then show ?thesis
        using requeue_effect(3) [OF b Cons.prems(1) True Cons.prems(3)] mono [of "snd (requeue i now t)" "x_rep x" "is"]
        by (auto simp: run_def)
    next
      case False
      then have "x \<in> set (snd (requeue i now t))" using requeue_effect(4) [OF b Cons.prems(1)] by blast
      with Cons.IH False Cons.prems show ?thesis by (simp add: run_def)
    qed
  qed simp
  show "x \<in> set (run is t)" if "x \<in> set t" "x_state x \<noteq> X_FAILED"
    using that
  proof (induction "is" arbitrary: t)
    case (Cons i "is")
    obtain b where "requeue i now t = (b, snd (requeue i now t))" using step by blast
    from requeue_effect(4) [OF this Cons.prems(1)] Cons show ?case by (simp add: run_def)
  qed (simp add: run_def)
  show "queue_inv (run is t)" if "queue_inv t"
    using that
  proof (induction "is" arbitrary: t)
    case (Cons i "is")
    obtain b where "requeue i now t = (b, snd (requeue i now t))" using step by blast
    from requeue_inv [OF Cons.prems this] Cons.IH show ?case by (simp add: run_def)
  qed (simp add: run_def)
qed

lemma queue_inv_filtered: "queue_inv t \<Longrightarrow> \<exists>p. t' = filter p t \<Longrightarrow> queue_inv t'"
  by (auto intro: queue_inv_filter)

text \<open>Every keyed representation under erasure has a removal that is queued or done.\<close>

definition erasing_queued :: "db \<Rightarrow> bool" where
  "erasing_queued d \<longleftrightarrow> (\<forall>r\<in>set (reps d). r_state r = R_ERASING \<and> r_key r \<noteq> None \<longrightarrow>
     (\<exists>x\<in>set (index_ops d). is_remove_of (r_id r) x \<and> x_state x \<noteq> X_FAILED))"

lemma queue_removals_raw:
  assumes ok: "queue_inv (index_ops d)" and run: "queue_removals rep_ids now ids d = Inr d'"
  shows "requeued d (excluded erasable rep_ids) d'" and "queue_inv (index_ops d')" and "erasing_queued d'"
    and "leaving d rep_ids i \<Longrightarrow> desired (index_ops d') i = {REMOVE}"
    and "r \<in> set (reps d) \<Longrightarrow> r_state r = R_ERASING \<Longrightarrow> r_key r \<noteq> None \<Longrightarrow>
           \<forall>x\<in>set (index_ops d). \<not> is_remove_of (r_id r) x \<Longrightarrow> desired (index_ops d') (r_id r) = {REMOVE}"
proof -
  obtain ws d1 where 1: "exclude_chunks (chunks erasure_chunk rep_ids) d = (ws, d1)" by fastforce
  obtain is1 d2 is2 d3 where
    2: "append_batch ws now ids d1 = Inr (is1, d2)" and
    3: "append_batch (missing_removes d2) now (\<lambda>n. ids (length ws + n)) d2 = Inr (is2, d3)" and
    4: "d' = d3\<lparr>index_ops := fold (\<lambda>i t. snd (requeue i now t)) (failed_removes d3) (index_ops d3)\<rparr>"
    using run 1 by (auto simp: queue_removals_def bindE_Inr_iff)
  have cs: "concat (chunks erasure_chunk rep_ids) = rep_ids" by (simp add: concat_chunks erasure_chunk_def)
  note e = exclude_chunks_eq [OF 1, unfolded cs]
  have r2: "requeued d1 (\<lambda>r. r) d2" and r3: "requeued d2 (\<lambda>r. r) d3" and r4: "requeued d3 (\<lambda>r. r) d'"
    using append_batch_settled [OF 2] append_batch_settled [OF 3] by (auto simp: 4 intro: requeued_queue requeued_ops)
  show whole: "requeued d (excluded erasable rep_ids) d'"
    using requeued_trans [OF requeued_trans [OF requeued_trans [OF e(1) r2] r3] r4] by simp
  have reps: "reps d1 = reps d'" "reps d2 = reps d'" "reps d3 = reps d'"
    using requeued_simps(1) [OF r2] requeued_simps(1) [OF r3] requeued_simps(1) [OF r4] by simp_all
  have q1: "queue_inv (index_ops d1)" using e(2) ok queue_inv_filtered [of "index_ops d"] by simp
  have q3: "queue_inv (index_ops d3)" using append_batch_inv [OF append_batch_inv [OF q1 2] 3] .
  show "queue_inv (index_ops d')" using fold_requeue(5) [OF q3] by (simp add: 4)
  have all_remove: "\<forall>w\<in>set (missing_removes d2). w_kind w = REMOVE" by (auto simp: missing_removes_def removal_of_def)
  have only: "\<forall>x\<in>set (index_ops d3). x_id x \<in> set (failed_removes d3) \<longrightarrow> x_kind x = REMOVE"
    using q3 by (auto simp: failed_removes_def queue_inv_def dest: tab_keyed_inj)
  have d3: "desired (index_ops d3) j = (if j \<in> w_rep ` set (missing_removes d2) then {REMOVE} else desired (index_ops d2) j)" for j
    by (rule append_removes_desired [OF 3 all_remove])
  have d2: "desired (index_ops d2) j = (if j \<in> w_rep ` set ws then {REMOVE} else desired (index_ops d1) j)" for j
    by (rule append_removes_desired [OF 2 e(3)])
  have final: "desired (index_ops d3) j = {REMOVE} \<Longrightarrow> desired (index_ops d') j = {REMOVE}" for j
    using fold_requeue(1) [of "index_ops d3" j now "failed_removes d3"] fold_requeue(2) [OF only, of now j] by (auto simp: 4)
  show "desired (index_ops d') i = {REMOVE}" if "leaving d rep_ids i"
    using that e(4) by (intro final) (simp add: d3 d2)
  have settled: "x \<in> set (index_ops d2) \<Longrightarrow> x_state x \<noteq> X_PENDING \<Longrightarrow> x \<in> set (index_ops d3)" for x
    using append_batch_keeps_settled [OF 3] by blast
  have pend: "REMOVE \<in> desired (index_ops d3) j \<Longrightarrow> \<exists>x\<in>set (index_ops d'). is_remove_of j x \<and> x_state x \<noteq> X_FAILED" for j
    using fold_requeue(1) [of "index_ops d3" j now "failed_removes d3"]
    by (fastforce simp: 4 desired_def list_ex_iff pending_op_def is_remove_of_def)
  show "erasing_queued d'"
    unfolding erasing_queued_def
  proof (intro ballI impI)
    fix r assume r: "r \<in> set (reps d')" "r_state r = R_ERASING \<and> r_key r \<noteq> None"
    show "\<exists>x\<in>set (index_ops d'). is_remove_of (r_id r) x \<and> x_state x \<noteq> X_FAILED"
    proof (cases "list_ex (is_remove_of (r_id r)) (index_ops d2)")
      case False
      then have "r_id r \<in> w_rep ` set (missing_removes d2)"
        using r reps by (auto simp: missing_removes_def removal_of_def image_iff)
      then show ?thesis by (intro pend) (simp add: d3)
    next
      case True
      then obtain x where x: "x \<in> set (index_ops d2)" "is_remove_of (r_id r) x" by (auto simp: list_ex_iff)
      show ?thesis
      proof (cases "x_state x")
        case X_PENDING
        then have "REMOVE \<in> desired (index_ops d2) (r_id r)"
          using x by (auto simp: desired_def list_ex_iff pending_op_def is_remove_of_def)
        then show ?thesis by (intro pend) (simp add: d3)
      next
        case X_APPLIED
        then have "x \<in> set (index_ops d')" using settled [OF x(1)] fold_requeue(4) by (auto simp: 4)
        with x X_APPLIED show ?thesis by auto
      next
        case X_FAILED
        have "list_ex (\<lambda>s. r_id s = x_rep x \<and> r_state s = R_ERASING) (reps d3)"
          using r x(2) reps by (auto simp: list_ex_iff is_remove_of_def)
        then have "x_id x \<in> set (failed_removes d3)"
          using x(2) X_FAILED settled [OF x(1)] by (auto simp: failed_removes_def is_remove_of_def)
        then have "x_kind x \<in> desired (index_ops d') (x_rep x)"
          using fold_requeue(3) [OF settled [OF x(1)]] X_FAILED by (simp add: 4)
        then show ?thesis using x(2) by (fastforce simp: desired_def list_ex_iff pending_op_def is_remove_of_def)
      qed
    qed
  qed
  show "desired (index_ops d') (r_id r) = {REMOVE}"
    if r: "r \<in> set (reps d)" "r_state r = R_ERASING" "r_key r \<noteq> None" "\<forall>x\<in>set (index_ops d). \<not> is_remove_of (r_id r) x"
  proof (cases "r_id r \<in> w_rep ` set ws")
    case True
    then show ?thesis by (intro final) (simp add: d3 d2)
  next
    case False
    have "\<not> is_remove_of (r_id r) x" if "x \<in> set (index_ops d2)" for x
    proof (cases "x_state x = X_PENDING")
      case True
      have "REMOVE \<notin> desired (index_ops d2) (r_id r)"
        using False r(4) e(2) unfolding d2 by (auto simp: desired_def list_ex_iff pending_op_def is_remove_of_def)
      with that True show ?thesis by (auto simp: desired_def list_ex_iff pending_op_def is_remove_of_def)
    next
      case settled: False
      then have "x \<in> set (index_ops d1)"
        using that append_batch_keeps_settled [OF 2] by blast
      with r(4) e(2) show ?thesis by auto
    qed
    moreover have "r \<in> set (reps d2)"
    proof -
      have "excluded erasable rep_ids r = r" using r(2) by (simp add: excluded_def erasable_def)
      then show ?thesis using r(1) requeued_simps(1) [OF whole] unfolding reps by force
    qed
    ultimately have "r_id r \<in> w_rep ` set (missing_removes d2)"
      using r by (auto simp: missing_removes_def removal_of_def image_iff list_ex_iff)
    then show ?thesis by (intro final) (simp add: d3)
  qed
qed

lemma queue_removals_Inr:
  assumes ok: "memory_ok d" and run: "queue_removals rep_ids now ids d = Inr d'"
  shows "requeued d (excluded erasable rep_ids) d'" and "memory_ok d'" and "erasing_queued d'"
    and "leaving d rep_ids i \<Longrightarrow> desired (index_ops d') i = {REMOVE}"
proof -
  have "queue_inv (index_ops d)" using ok by (simp add: memory_ok_def)
  note q = queue_removals_raw [OF this run]
  show "requeued d (excluded erasable rep_ids) d'" "erasing_queued d'" by (fact q)+
  show "memory_ok d'" by (rule requeued_excluded_ok [OF ok q(1,2)]) (simp add: erasable_def)
  show "desired (index_ops d') i = {REMOVE}" if "leaving d rep_ids i" using that by (rule q(4))
qed

lemma take_deleted_Inr:
  assumes "d' = fold take_deleted cs d"
  shows "requeued d (excluded [R_DELETED] (concat cs)) d'" and "\<exists>p. index_ops d' = filter p (index_ops d)"
    and "r \<in> set (reps d) \<Longrightarrow> r_id r \<in> set (concat cs) \<Longrightarrow> r_state r = R_DELETED \<Longrightarrow>
           \<forall>x\<in>set (index_ops d'). \<not> is_remove_of (r_id r) x"
proof -
  have one: "requeued d (excluded [R_DELETED] c) (take_deleted c d)"
      "\<exists>p. index_ops (take_deleted c d) = filter p (index_ops d)"
      "r \<in> set (reps d) \<Longrightarrow> r_id r \<in> set c \<Longrightarrow> r_state r = R_DELETED \<Longrightarrow>
         \<forall>x\<in>set (index_ops (take_deleted c d)). \<not> is_remove_of (r_id r) x" for c r and d :: db
    by (auto simp: take_deleted_def set_erasing_eq requeued_def is_remove_of_def list_ex_iff)
  have "requeued d (excluded [R_DELETED] (concat cs)) (fold take_deleted cs d) \<and>
      (\<exists>p. index_ops (fold take_deleted cs d) = filter p (index_ops d)) \<and>
      (r \<in> set (reps d) \<longrightarrow> r_id r \<in> set (concat cs) \<longrightarrow> r_state r = R_DELETED \<longrightarrow>
         (\<forall>x\<in>set (index_ops (fold take_deleted cs d)). \<not> is_remove_of (r_id r) x))"
  proof (induction cs arbitrary: d)
    case Nil
    have "\<exists>p. index_ops d = filter p (index_ops d)" by (rule exI [of _ "\<lambda>_. True"]) simp
    then show ?case by (simp add: requeued_def)
  next
    case (Cons c cs)
    let ?d = "take_deleted c d"
    note b = Cons.IH [of ?d]
    have "requeued d (\<lambda>r. excluded [R_DELETED] (concat cs) (excluded [R_DELETED] c r)) (fold take_deleted cs ?d)"
      using requeued_trans [OF one(1) conjunct1 [OF b]] .
    then have 1: "requeued d (excluded [R_DELETED] (concat (c # cs))) (fold take_deleted (c # cs) d)"
      by (simp add: excluded_excluded)
    obtain p where p: "index_ops (fold take_deleted cs ?d) = filter p (index_ops ?d)" using b by blast
    have 2: "\<exists>p. index_ops (fold take_deleted (c # cs) d) = filter p (index_ops d)"
      using one(2) [of c d] p by (metis filter_filter fold_simps(2))
    have 3: "\<not> is_remove_of (r_id r) x" if r: "r \<in> set (reps d)" "r_id r \<in> set (concat (c # cs))" "r_state r = R_DELETED"
      and x: "x \<in> set (index_ops (fold take_deleted (c # cs) d))" for x
    proof (cases "r_id r \<in> set c")
      case True
      have "x \<in> set (index_ops ?d)" using x p by simp
      with one(3) [OF r(1) True r(3)] show ?thesis by blast
    next
      case False
      then have "excluded [R_DELETED] c r = r" by (simp add: excluded_def)
      then have "r \<in> set (reps ?d)" using r(1) requeued_simps(1) [OF one(1)] by force
      moreover have "r_id r \<in> set (concat cs)" using r(2) False by simp
      ultimately show ?thesis using b r(3) x by simp
    qed
    from 1 2 3 show ?case by blast
  qed
  with assms show "requeued d (excluded [R_DELETED] (concat cs)) d'" and "\<exists>p. index_ops d' = filter p (index_ops d)"
    and "r \<in> set (reps d) \<Longrightarrow> r_id r \<in> set (concat cs) \<Longrightarrow> r_state r = R_DELETED \<Longrightarrow>
           \<forall>x\<in>set (index_ops d'). \<not> is_remove_of (r_id r) x" by blast+
qed

text \<open>The states with a vector that no erasure holds yet.\<close>

definition takeable :: "rep_state list" where
  "takeable = R_DELETED # erasable"

lemma queue_in_raw:
  assumes ok: "queue_inv (index_ops d)" and run: "queue_in rep_ids now ids d = Inr d'"
  shows "requeued d (excluded takeable rep_ids) d'" and "queue_inv (index_ops d')" and "erasing_queued d'"
    and "r \<in> set (reps d) \<Longrightarrow> r_id r \<in> set rep_ids \<Longrightarrow> r_state r \<in> set takeable \<Longrightarrow> r_key r \<noteq> None \<Longrightarrow>
           desired (index_ops d') (r_id r) = {REMOVE}"
proof -
  let ?c = "chunks erasure_chunk rep_ids"
  define d1 where "d1 = fold take_deleted ?c d"
  have cs: "concat ?c = rep_ids" by (simp add: concat_chunks erasure_chunk_def)
  note t = take_deleted_Inr [OF d1_def, unfolded cs]
  have run1: "queue_removals rep_ids now ids d1 = Inr d'" using run by (simp add: queue_in_def d1_def)
  have "queue_inv (index_ops d1)" using t(2) ok queue_inv_filtered [of "index_ops d"] by simp
  note q = queue_removals_raw [OF this run1]
  have both: "(\<lambda>r. excluded erasable rep_ids (excluded [R_DELETED] rep_ids r)) = excluded takeable rep_ids"
    by (rule ext) (auto simp: excluded_def takeable_def erasable_def)
  from requeued_trans [OF t(1) q(1)] show "requeued d (excluded takeable rep_ids) d'" unfolding both .
  show "queue_inv (index_ops d')" "erasing_queued d'" by (fact q)+
  assume r: "r \<in> set (reps d)" "r_id r \<in> set rep_ids" "r_state r \<in> set takeable" "r_key r \<noteq> None"
  let ?r = "excluded [R_DELETED] rep_ids r"
  have in1: "?r \<in> set (reps d1)" using r(1) requeued_simps(1) [OF t(1)] by simp
  show "desired (index_ops d') (r_id r) = {REMOVE}"
  proof (cases "r_state r = R_DELETED")
    case True
    then show ?thesis
      using q(5) [OF in1] t(3) [OF r(1,2)] r(2,4) by (auto simp: excluded_def)
  next
    case False
    then have "?r = r" by (simp add: excluded_def)
    then have "leaving d1 rep_ids (r_id r)" using in1 r False by (auto simp: leaving_def takeable_def)
    then show ?thesis by (rule q(4))
  qed
qed

lemma queue_in_Inr:
  assumes ok: "memory_ok d" and run: "queue_in rep_ids now ids d = Inr d'"
  shows "requeued d (excluded takeable rep_ids) d'" and "memory_ok d'" and "erasing_queued d'"
    and "r \<in> set (reps d) \<Longrightarrow> r_id r \<in> set rep_ids \<Longrightarrow> r_state r \<in> set takeable \<Longrightarrow> r_key r \<noteq> None \<Longrightarrow>
           desired (index_ops d') (r_id r) = {REMOVE}"
proof -
  have "queue_inv (index_ops d)" using ok by (simp add: memory_ok_def)
  note q = queue_in_raw [OF this run]
  show "requeued d (excluded takeable rep_ids) d'" "erasing_queued d'" by (fact q)+
  show "memory_ok d'" by (rule requeued_excluded_ok [OF ok q(1,2)]) (simp add: takeable_def erasable_def)
  show "desired (index_ops d') (r_id r) = {REMOVE}"
    if "r \<in> set (reps d)" "r_id r \<in> set rep_ids" "r_state r \<in> set takeable" "r_key r \<noteq> None"
    using that by (rule q(4))
qed

text \<open>
  Queueing an erasure takes the vectors out of use at once. After the one transaction that queues
  representations for erasure, in any state: each of them is ERASING or already ERASED, so it is no
  longer eligible for retrieval or for any index build; each that had a key and was not being erased
  yet owes the index exactly its removal, whatever was pending for it before; and every keyed
  representation under erasure, these and older ones, has a removal that is queued or done, never
  one that has given up. No other representation changes, only states and the queue are written, and
  the memory invariant holds.
\<close>

theorem queueing_excludes_at_once:
  assumes "memory_ok d" and "queue_in rep_ids now ids d = Inr d'"
  shows "reps d' = map (\<lambda>r. if r_id r \<in> set rep_ids \<and> r_state r \<notin> {R_ERASING, R_ERASED}
           then r\<lparr>r_state := R_ERASING\<rparr> else r) (reps d) \<and>
    (\<forall>r\<in>set (reps d'). r_id r \<in> set rep_ids \<longrightarrow> r_state r \<in> {R_ERASING, R_ERASED} \<and> \<not> eligible d' r) \<and>
    (\<forall>r\<in>set (reps d). r_id r \<in> set rep_ids \<and> r_state r \<notin> {R_ERASING, R_ERASED} \<and> r_key r \<noteq> None \<longrightarrow>
       desired (index_ops d') (r_id r) = {REMOVE}) \<and>
    erasing_queued d' \<and> d' = d\<lparr>reps := reps d', index_ops := index_ops d'\<rparr> \<and> memory_ok d'"
proof -
  note q = queue_in_Inr [OF assms]
  have states: "st \<in> set takeable \<longleftrightarrow> st \<notin> {R_ERASING, R_ERASED}" for st
    by (cases st) (auto simp: takeable_def erasable_def)
  have ex: "excluded takeable rep_ids r = (if r_id r \<in> set rep_ids \<and> r_state r \<notin> {R_ERASING, R_ERASED}
      then r\<lparr>r_state := R_ERASING\<rparr> else r)" for r by (simp add: excluded_def states)
  have reps: "reps d' = map (\<lambda>r. if r_id r \<in> set rep_ids \<and> r_state r \<notin> {R_ERASING, R_ERASED}
      then r\<lparr>r_state := R_ERASING\<rparr> else r) (reps d)"
    unfolding requeued_simps(1) [OF q(1)] by (rule map_cong) (simp_all add: ex)
  then have "\<forall>r\<in>set (reps d'). r_id r \<in> set rep_ids \<longrightarrow> r_state r \<in> {R_ERASING, R_ERASED}" by auto
  moreover from this have "\<forall>r\<in>set (reps d'). r_id r \<in> set rep_ids \<longrightarrow> \<not> eligible d' r" by (auto simp: eligible_def)
  moreover have "d' = d\<lparr>reps := reps d', index_ops := index_ops d'\<rparr>"
    using q(1) requeued_simps(1) [OF q(1)] by (simp add: requeued_def)
  moreover have "\<forall>r\<in>set (reps d). r_id r \<in> set rep_ids \<and> r_state r \<notin> {R_ERASING, R_ERASED} \<and> r_key r \<noteq> None \<longrightarrow>
      desired (index_ops d') (r_id r) = {REMOVE}"
    using q(4) states by blast
  ultimately show ?thesis using reps q(2,3) by blast
qed

lemma queueing_excludes_at_once_witness:
  "\<exists>d'. queue_in [21, 22] 9 sample_ids sample_db = Inr d' \<and> map r_state (reps d') = [R_ERASING, R_ERASING] \<and>
     desired (index_ops d') 21 = {REMOVE} \<and> memory_ok d'"
proof -
  have "\<not> isl (queue_in [21, 22] 9 sample_ids sample_db)" by code_simp
  then obtain d' where run: "queue_in [21, 22] 9 sample_ids sample_db = Inr d'"
    by (cases "queue_in [21, 22] 9 sample_ids sample_db") auto
  from queueing_excludes_at_once [OF sample_db_ok run] run show ?thesis
    by (simp add: sample_db_def sample_rep_def)
qed

section \<open>What finalizing does\<close>

definition erased_row :: "time \<Rightarrow> rep \<Rightarrow> rep" where
  "erased_row now r = r\<lparr>r_state := R_ERASED, r_vector := None, r_key := None, r_erased := Some now\<rparr>"

definition cleared_row :: "uuid list \<Rightarrow> time \<Rightarrow> rep \<Rightarrow> rep" where
  "cleared_row ids now r = (if r_id r \<in> set ids \<and> r_state r = R_ERASING then erased_row now r else r)"

lemma cleared_row_simps [simp]:
  "r_id (cleared_row ids now r) = r_id r"
  "r_state (cleared_row ids now r) = R_ERASING \<longleftrightarrow> r_state r = R_ERASING \<and> r_id r \<notin> set ids"
  by (auto simp: cleared_row_def erased_row_def)

lemma clear_chunks_eq:
  assumes "clear_chunks cs now d = (hits, d')"
  shows "d' = d\<lparr>reps := map (cleared_row (concat cs) now) (reps d)\<rparr>"
    and "i \<in> set hits \<longleftrightarrow> (\<exists>r\<in>set (reps d). r_id r = i \<and> i \<in> set (concat cs) \<and> r_state r = R_ERASING)"
proof -
  have "d' = d\<lparr>reps := map (cleared_row (concat cs) now) (reps d)\<rparr> \<and>
      (i \<in> set hits \<longleftrightarrow> (\<exists>r\<in>set (reps d). r_id r = i \<and> i \<in> set (concat cs) \<and> r_state r = R_ERASING))"
    using assms
  proof (induction cs arbitrary: d hits)
    case Nil
    then show ?case by (simp add: cleared_row_def)
  next
    case (Cons c cs)
    let ?d1 = "d\<lparr>reps := map (cleared_row c now) (reps d)\<rparr>"
    have d1: "d\<lparr>reps := tab_update (\<lambda>r. r_id r \<in> set c \<and> r_state r = R_ERASING)
        (\<lambda>r. r\<lparr>r_state := R_ERASED, r_vector := None, r_key := None, r_erased := Some now\<rparr>) (reps d)\<rparr> = ?d1"
      by (simp add: tab_update_def cleared_row_def erased_row_def)
    obtain rest where r: "clear_chunks cs now ?d1 = (rest, d')"
        "hits = map r_id (filter (\<lambda>r. r_id r \<in> set c \<and> r_state r = R_ERASING) (reps d)) @ rest"
      using Cons.prems d1 by (auto simp: Let_def split: prod.split_asm)
    have two: "cleared_row (concat cs) now (cleared_row c now r) = cleared_row (concat (c # cs)) now r" for r
      by (auto simp: cleared_row_def erased_row_def)
    have "d' = d\<lparr>reps := map (cleared_row (concat (c # cs)) now) (reps d)\<rparr>"
      using Cons.IH [OF r(1)] by (simp add: comp_def two)
    moreover have "i \<in> set rest \<longleftrightarrow> (\<exists>r\<in>set (reps d). r_id r = i \<and> i \<in> set (concat cs) \<and> r_state r = R_ERASING \<and> i \<notin> set c)"
      using Cons.IH [OF r(1)] by auto
    ultimately show ?case by (auto simp: r(2))
  qed
  then show "d' = d\<lparr>reps := map (cleared_row (concat cs) now) (reps d)\<rparr>"
    and "i \<in> set hits \<longleftrightarrow> (\<exists>r\<in>set (reps d). r_id r = i \<and> i \<in> set (concat cs) \<and> r_state r = R_ERASING)" by blast+
qed

lemma app_state_set_frame [simp]:
  "reps (app_state_set k v now d) = reps d" "index_ops (app_state_set k v now d) = index_ops d"
  "memory_ok (app_state_set k v now d) = memory_ok d"
  "app_state_get k (app_state_set k v now d) = Some v"
proof -
  show "app_state_get k (app_state_set k v now d) = Some v"
  proof (cases "tab_get v_key (app_states d) k")
    case None
    then show ?thesis by (simp add: app_state_get_def app_state_set_def tab_get_append tab_get_Cons)
  next
    case (Some x)
    have "v_key x = k" using tab_get_SomeD [OF Some] by simp
    then have "tab_get v_key (tab_update (\<lambda>w. v_key w = k) (\<lambda>w. w\<lparr>v_value := v, v_updated := now\<rparr>) (app_states d)) k =
        Some (x\<lparr>v_value := v, v_updated := now\<rparr>)" by (subst tab_get_update) (simp_all add: Some)
    then show ?thesis by (simp add: app_state_get_def app_state_set_def Some)
  qed
qed (simp_all add: app_state_set_def memory_ok_def)

lemma app_state_get_reps [simp]: "app_state_get k (d\<lparr>reps := rs\<rparr>) = app_state_get k d"
  by (simp add: app_state_get_def)

lemma clear_ok:
  assumes "memory_ok d"
  shows "memory_ok (d\<lparr>reps := map (cleared_row ids now) (reps d)\<rparr>)"
proof -
  let ?p = "\<lambda>r. r_id r \<in> set ids \<and> r_state r = R_ERASING"
  have t: "map (cleared_row ids now) (reps d) = tab_update ?p (erased_row now) (reps d)"
    by (simp add: tab_update_def cleared_row_def)
  have "reps_ok (tab_update ?p (erased_row now) (reps d))"
    using assms by (intro reps_ok_update) (auto simp: memory_ok_def reps_ok_def rep_row_ok_def erased_row_def)
  moreover have "keys_below (tab_update ?p (erased_row now) (reps d)) (ann_sequences d)"
    using assms by (intro keys_below_update) (auto simp: memory_ok_def keys_below_def erased_row_def)
  moreover have "owned_ok (identities d) (tab_update ?p (erased_row now) (reps d)) (occurrences d) (associations d)"
    using assms by (auto simp: memory_ok_def owned_ok_def set_tab_update erased_row_def split: if_splits)
  ultimately show ?thesis using assms by (simp add: memory_ok_def t)
qed

lemma clear_erased_effect:
  assumes "clear_erased todo marker now d = (cleared, d')"
  shows "reps d' = map (cleared_row todo now) (reps d)" and "memory_ok d \<Longrightarrow> memory_ok d'"
    and "i \<in> set cleared \<longleftrightarrow> (\<exists>r\<in>set (reps d). r_id r = i \<and> i \<in> set todo \<and> r_state r = R_ERASING)"
    and "app_state_get wal_truncation_owed d' = Some marker" and "index_ops d' = index_ops d"
    and "tab_keyed v_key (app_states d) \<Longrightarrow> tab_keyed v_key (app_states d')"
proof -
  have c: "clear_chunks (chunks erasure_chunk todo) now (app_state_set wal_truncation_owed marker now d) = (cleared, d')"
    using assms by (simp add: clear_erased_def)
  have cs: "concat (chunks erasure_chunk todo) = todo" by (simp add: concat_chunks erasure_chunk_def)
  note e = clear_chunks_eq [OF c, unfolded cs]
  show "reps d' = map (cleared_row todo now) (reps d)" "app_state_get wal_truncation_owed d' = Some marker"
    "index_ops d' = index_ops d" using e(1) by simp_all
  show "tab_keyed v_key (app_states d')" if "tab_keyed v_key (app_states d)"
    using that by (auto simp: e(1) app_state_set_def tab_keyed_append1 tab_get_None_iff tab_keyed_update)
  show "i \<in> set cleared \<longleftrightarrow> (\<exists>r\<in>set (reps d). r_id r = i \<and> i \<in> set todo \<and> r_state r = R_ERASING)" using e(2) by simp
  show "memory_ok d'" if "memory_ok d"
    using clear_ok [of "app_state_set wal_truncation_owed marker now d" todo now] that e(1) by simp
qed

lemma finalize_space_writes:
  assumes "finalize_space s locked marker now d dir = ((cleared, reason), d', dir')"
  shows "(cleared = [] \<and> d' = d) \<or> (\<exists>todo. clear_erased todo marker now d = (cleared, d'))"
  using assms by (auto simp: finalize_space_def Let_def split: prod.split_asm if_split_asm)

text \<open>Nothing of the index is left in the quarantine folder.\<close>

definition quarantine_empty :: "node option \<Rightarrow> bool" where
  "quarantine_empty dir \<longleftrightarrow>
     (case dir of
        Some (Folder f) \<Rightarrow>
          (case entry f quarantine_directory of None \<Rightarrow> True | Some (Folder q) \<Rightarrow> quarantined q = [] | Some _ \<Rightarrow> False)
      | _ \<Rightarrow> True)"

lemma retired_quarantine:
  assumes "retire_quarantine locked dir = ([], dir')" and "superseded_files dir = []"
  shows "superseded_files dir' = [] \<and> quarantine_empty dir'"
proof -
  have keep: "manifest_in (put quarantine_directory v f) = manifest_in f"
      "manifest_in (unlink quarantine_directory f) = manifest_in f" for v f
    by (simp_all add: manifest_in_def)
  have sub: "unnamed_files live f = [] \<Longrightarrow> unnamed_files live (put quarantine_directory (Folder q) f) = []"
      "unnamed_files live f = [] \<Longrightarrow> unnamed_files live (unlink quarantine_directory f) = []" for live f q
    by (auto simp: unnamed_files_def listed_def put_def unlink_def filter_empty_conv)
  have nil: "sort xs = [] \<longleftrightarrow> xs = []" for xs :: "string list" by (metis set_empty set_sort)
  show ?thesis
  proof (cases dir)
    case (Some v)
    show ?thesis
    proof (cases v)
      case (Folder f)
      show ?thesis
      proof (cases "entry f quarantine_directory")
        case (Some q0)
        then obtain q where q: "q0 = Folder q"
          using assms(1) \<open>dir = Some v\<close> Folder by (cases q0) (auto simp: retire_quarantine_def)
        let ?left = "concat (map (retire_batch locked) q)"
        show ?thesis
          using assms \<open>dir = Some v\<close> Folder Some q
          by (auto simp: retire_quarantine_def superseded_files_def quarantine_empty_def keep nil sub Let_def
              split: if_split_asm)
      qed (use assms \<open>dir = Some v\<close> Folder in \<open>auto simp: retire_quarantine_def quarantine_empty_def\<close>)
    qed (use assms \<open>dir = Some v\<close> in \<open>auto simp: retire_quarantine_def quarantine_empty_def\<close>)
  qed (use assms in \<open>auto simp: retire_quarantine_def quarantine_empty_def\<close>)
qed

text \<open>
  C34. A vector is cleared only when no file can hold it. Finalizing a space makes exactly the
  representations it reports ERASED, without vector or key, and changes no other; each of them was
  being erased in this space, and if it had been in the index then every removal ever queued for it
  is applied, at least one is, no superseded index file is left in the directory and nothing of the
  index in its quarantine. The commit that clears them leaves the marker that a truncation of the log
  is owed. If no reason to wait is given, every representation whose removal is done is cleared.
\<close>

theorem erased_only_when_gone:
  assumes "memory_ok d" and "finalize_space s locked marker now d dir = ((cleared, reason), d', dir')"
  shows "reps d' = map (\<lambda>r. if r_id r \<in> set cleared then erased_row now r else r) (reps d) \<and>
    (\<forall>i\<in>set cleared. \<exists>r\<in>set (reps d). r_id r = i \<and> r_space r = s \<and> r_state r = R_ERASING \<and>
       (r_key r \<noteq> None \<longrightarrow> i \<in> x_rep ` set (filter (\<lambda>x. x_kind x = REMOVE \<and> x_state x = X_APPLIED) (index_ops d)) \<and>
          (\<forall>x\<in>set (index_ops d). is_remove_of i x \<longrightarrow> x_state x = X_APPLIED) \<and>
          superseded_files dir' = [] \<and> quarantine_empty dir')) \<and>
    (cleared \<noteq> [] \<longrightarrow> app_state_get wal_truncation_owed d' = Some marker) \<and>
    (reason = None \<longrightarrow> (\<forall>r\<in>set (reps d). r_space r = s \<and> r_state r = R_ERASING \<and>
       (r_key r = None \<or> r_id r \<in> set (removal_done s d)) \<longrightarrow> r_id r \<in> set cleared)) \<and> memory_ok d'"
proof -
  let ?rows = "filter (\<lambda>r. r_space r = s \<and> r_state r = R_ERASING) (reps d)"
  let ?ready = "map r_id (filter (\<lambda>r. r_key r = None \<or> r_id r \<in> set (removal_done s d)) ?rows)"
  let ?keyless = "map r_id (filter (\<lambda>r. r_key r = None) ?rows)"
  let ?need = "list_ex (\<lambda>r. r_key r \<noteq> None \<and> r_id r \<in> set (removal_done s d)) ?rows"
  obtain left where l: "(if ?need then (case retire_quarantine locked dir of (q, dir1) \<Rightarrow> (superseded_files dir @ q, dir1))
      else ([], dir)) = (left, dir')"
      and rest: "((cleared, reason), d') =
        (let todo = (if left = [] then ?ready else ?keyless);
             reason = (case left of [] \<Rightarrow> None | n # _ \<Rightarrow> Some (n @ '' could not be removed''))
         in if todo = [] then (([], reason), d)
            else case clear_erased todo marker now d of (cleared, d') \<Rightarrow> ((cleared, reason), d'))"
    using assms(2) by (auto simp: finalize_space_def Let_def split: prod.split_asm if_split_asm)
  define todo where "todo = (if left = [] then ?ready else ?keyless)"
  have reason: "reason = None \<longleftrightarrow> left = []"
    using rest by (auto simp: Let_def split: list.split_asm if_split_asm prod.split_asm)
  have keyed: "tab_keyed r_id (reps d)" using assms(1) by (simp add: memory_ok_def reps_ok_def)
  have clean: "superseded_files dir' = [] \<and> quarantine_empty dir'" if "left = []" "?need"
    using l that by (auto split: prod.split_asm intro!: retired_quarantine)
  have todo_rows: "\<exists>r\<in>set (reps d). r_id r = i \<and> r_space r = s \<and> r_state r = R_ERASING \<and>
      (r_key r = None \<or> left = [] \<and> i \<in> set (removal_done s d))" if "i \<in> set todo" for i
    using that by (auto simp: todo_def split: if_split_asm)
  have effect: "reps d' = map (cleared_row todo now) (reps d) \<and> memory_ok d' \<and>
      (\<forall>i. i \<in> set cleared \<longleftrightarrow> (\<exists>r\<in>set (reps d). r_id r = i \<and> i \<in> set todo \<and> r_state r = R_ERASING)) \<and>
      (cleared \<noteq> [] \<longrightarrow> app_state_get wal_truncation_owed d' = Some marker)"
  proof (cases "todo = []")
    case True
    have "map (cleared_row [] now) (reps d) = reps d" by (rule map_idI) (simp add: cleared_row_def)
    moreover have "cleared = []" "d' = d" using rest True by (auto simp: todo_def Let_def split: if_split_asm)
    ultimately show ?thesis using True assms(1) by simp
  next
    case False
    then have "clear_erased todo marker now d = (cleared, d')"
      using rest by (auto simp: todo_def Let_def split: if_split_asm prod.split_asm)
    from clear_erased_effect [OF this] assms(1) show ?thesis by blast
  qed
  have cleared_iff: "r_id r \<in> set cleared \<longleftrightarrow> r_id r \<in> set todo \<and> r_state r = R_ERASING" if "r \<in> set (reps d)" for r
    using effect that tab_keyed_inj [OF keyed] by metis
  have "reps d' = map (\<lambda>r. if r_id r \<in> set cleared then erased_row now r else r) (reps d)"
    using effect cleared_iff by (simp add: cleared_row_def)
  moreover have "\<exists>r\<in>set (reps d). r_id r = i \<and> r_space r = s \<and> r_state r = R_ERASING \<and>
       (r_key r \<noteq> None \<longrightarrow> i \<in> x_rep ` set (filter (\<lambda>x. x_kind x = REMOVE \<and> x_state x = X_APPLIED) (index_ops d)) \<and>
          (\<forall>x\<in>set (index_ops d). is_remove_of i x \<longrightarrow> x_state x = X_APPLIED) \<and>
          superseded_files dir' = [] \<and> quarantine_empty dir')" if i: "i \<in> set cleared" for i
  proof -
    obtain r where r: "r \<in> set (reps d)" "r_id r = i" "r_space r = s" "r_state r = R_ERASING"
        "r_key r = None \<or> left = [] \<and> i \<in> set (removal_done s d)"
      using effect i todo_rows by blast
    have "i \<in> x_rep ` set (filter (\<lambda>x. x_kind x = REMOVE \<and> x_state x = X_APPLIED) (index_ops d)) \<and>
        (\<forall>x\<in>set (index_ops d). is_remove_of i x \<longrightarrow> x_state x = X_APPLIED)" if "r_key r \<noteq> None"
    proof -
      have "i \<in> set (removal_done s d)" using r(5) that by blast
      then show ?thesis
        by (auto simp: removal_done_def list_ex_iff is_remove_of_def image_iff) (metis op_state.exhaust)+
    qed
    moreover have "superseded_files dir' = [] \<and> quarantine_empty dir'" if "r_key r \<noteq> None"
      using clean r that by (auto simp: list_ex_iff)
    ultimately show ?thesis using r by blast
  qed
  moreover have "reason = None \<longrightarrow> (\<forall>r\<in>set (reps d). r_space r = s \<and> r_state r = R_ERASING \<and>
       (r_key r = None \<or> r_id r \<in> set (removal_done s d)) \<longrightarrow> r_id r \<in> set cleared)"
    using cleared_iff reason by (auto simp: todo_def)
  ultimately show ?thesis using effect by blast
qed

section \<open>The whole drive\<close>

text \<open>A pass writes the queue only, and keeps its constraints.\<close>

lemma apply_each_outcomes: "apply_each ops ndim d ix = (os, es, ix') \<Longrightarrow> map fst os = map y_id ops"
  by (induction ops arbitrary: ix os es) (auto split: sum.split_asm prod.split_asm)

lemma require_retired_ids: "map fst (require_retired stale ops os) = map fst os"
  by (auto simp: require_retired_def split: list.split)

lemma apply_space_outcomes:
  assumes "apply_space env ks s ops d rp dir = (os, rp', dir')"
  shows "map fst os = map y_id ops"
proof -
  have "map fst (failed_all ops e) = map y_id ops" for e by (simp add: failed_all_def comp_def)
  with assms show ?thesis
    by (auto simp: apply_space_def Let_def require_retired_ids split: sum.split_asm prod.split_asm if_split_asm
        dest: apply_each_outcomes)
qed

lemma settle_queue:
  assumes "queue_inv t" and "distinct (map fst os)" and "settle rt now os rp t = (rp', t')"
  shows "queue_inv t'"
proof -
  have "\<forall>i\<in>fst ` set os. attempt_counts (map fst os) t i = map_option x_attempts (tab_get x_id t i)"
    unfolding attempt_counts_def
    by (simp add: attempt_counts_fold concat_chunks attempt_count_chunk_def map_of_table)
  from settle_each_queue [OF assms(1,2) assms(3) [unfolded settle_def] this] show ?thesis by (rule conjunct2)
qed

lemma apply_spaces_frame:
  assumes "apply_spaces env rt pe ops ss rp d files = (rp', d', files')" and "queue_inv (index_ops d)"
    and "distinct (map y_id ops)"
  shows "\<exists>t. d' = d\<lparr>index_ops := t\<rparr> \<and> queue_inv t"
  using assms
proof (induction ss arbitrary: rp d files)
  case Nil
  then show ?case by (auto intro: exI [of _ "index_ops d"])
next
  case (Cons s ss)
  obtain os rp1 dir where a: "apply_space env (pe_disks pe s) s (filter (\<lambda>op. y_space op = s) ops) d rp (files s) = (os, rp1, dir)"
    by (metis prod_cases3)
  obtain rp2 t where t: "settle rt (pe_now pe s) os rp1 (index_ops d) = (rp2, t)" by fastforce
  have "distinct (map y_id (filter (\<lambda>op. y_space op = s) ops))" using Cons.prems(3) by (rule distinct_map_filter)
  then have q: "queue_inv t" using settle_queue [OF Cons.prems(2) _ t] apply_space_outcomes [OF a] by simp
  have "\<exists>t'. d' = d\<lparr>index_ops := t\<rparr>\<lparr>index_ops := t'\<rparr> \<and> queue_inv t'"
    using Cons.IH [of rp2 "d\<lparr>index_ops := t\<rparr>"] Cons.prems(1,3) a t q by simp
  then show ?case by simp
qed

lemma due_distinct:
  assumes "queue_inv t"
  shows "distinct (map y_id (due now limit t))"
proof -
  let ?s = "sort_key (\<lambda>x. (x_not_before x, x_created x, x_id x)) (filter (\<lambda>x. x_state x = X_PENDING \<and> x_not_before x \<le> now) t)"
  have "distinct (map x_id t)" using assms by (simp add: queue_inv_def tab_keyed_def)
  then have "inj_on x_id (set t)" "distinct t" by (auto simp: distinct_map)
  then have "distinct (map x_id ?s)" by (auto simp: distinct_map intro: inj_on_subset)
  then have "distinct (take limit (map x_id ?s))" by (rule distinct_take)
  then show ?thesis by (simp add: due_def comp_def take_map)
qed

lemma apply_pending_frame:
  assumes "apply_pending env rt pe now limit d files = (rp, d', files')" and "memory_ok d"
  shows "\<exists>t. d' = d\<lparr>index_ops := t\<rparr>" and "memory_ok d'"
proof -
  have "queue_inv (index_ops d)" using assms(2) by (simp add: memory_ok_def)
  then obtain t where "d' = d\<lparr>index_ops := t\<rparr>" "queue_inv t"
    using apply_spaces_frame assms(1) due_distinct unfolding apply_pending_def Let_def by blast
  with assms(2) show "\<exists>t. d' = d\<lparr>index_ops := t\<rparr>" and "memory_ok d'" by (auto simp: memory_ok_def)
qed

lemma finalize_spaces_frame:
  assumes "finalize_spaces ee ss d files = (cl, bl, d', files')" and "memory_ok d"
  shows "memory_ok d' \<and> (app_state_get wal_truncation_owed d \<noteq> None \<longrightarrow> app_state_get wal_truncation_owed d' \<noteq> None) \<and>
    (cl \<noteq> [] \<longrightarrow> app_state_get wal_truncation_owed d' \<noteq> None) \<and>
    (tab_keyed v_key (app_states d) \<longrightarrow> tab_keyed v_key (app_states d')) \<and>
    (app_state_get wal_truncation_owed d' = None \<longrightarrow> reps d' = reps d) \<and>
    map (\<lambda>r. (r_id r, r_space r)) (reps d') = map (\<lambda>r. (r_id r, r_space r)) (reps d)"
  using assms
proof (induction ss arbitrary: d files cl bl)
  case (Cons s ss)
  show ?case
  proof (cases "ee_raises ee s")
    case (Some e)
    with Cons show ?thesis by (auto split: prod.split_asm)
  next
    case None
    obtain cl1 reason d1 dir1 where f: "finalize_space s (ee_locked ee s) (ee_marker ee s) (ee_now ee) d (files s) =
        ((cl1, reason), d1, dir1)" by (metis prod_cases3 surj_pair)
    obtain cl2 bl2 where r: "finalize_spaces ee ss d1 (files(s := dir1)) = (cl2, bl2, d', files')" "cl = cl1 @ cl2"
      using Cons.prems(1) None f by (auto split: prod.split_asm)
    have one: "memory_ok d1 \<and> (app_state_get wal_truncation_owed d \<noteq> None \<longrightarrow> app_state_get wal_truncation_owed d1 \<noteq> None) \<and>
        (cl1 \<noteq> [] \<longrightarrow> app_state_get wal_truncation_owed d1 \<noteq> None) \<and>
        (tab_keyed v_key (app_states d) \<longrightarrow> tab_keyed v_key (app_states d1)) \<and>
        (app_state_get wal_truncation_owed d1 = None \<longrightarrow> reps d1 = reps d) \<and>
        map (\<lambda>r. (r_id r, r_space r)) (reps d1) = map (\<lambda>r. (r_id r, r_space r)) (reps d)"
      using finalize_space_writes [OF f]
    proof
      assume "\<exists>todo. clear_erased todo (ee_marker ee s) (ee_now ee) d = (cl1, d1)"
      then obtain todo where "clear_erased todo (ee_marker ee s) (ee_now ee) d = (cl1, d1)" ..
      note c = clear_erased_effect [OF this]
      have "map (\<lambda>r. (r_id r, r_space r)) (reps d1) = map (\<lambda>r. (r_id r, r_space r)) (reps d)"
        by (simp add: c(1) cleared_row_def erased_row_def)
      with c(2) [OF Cons.prems(2)] c(4,6) show ?thesis by simp
    qed (use Cons.prems(2) in simp)
    then have "memory_ok d1" by blast
    note rest = Cons.IH [OF r(1) this]
    have "app_state_get wal_truncation_owed d' = None \<longrightarrow> reps d' = reps d"
      using one rest by (cases "app_state_get wal_truncation_owed d1") auto
    with rest one r(2) show ?thesis by auto
  qed
qed simp

text \<open>What a truncation leaves of the marker.\<close>

lemma cleared_marker:
  assumes "tab_keyed v_key (app_states d)" and "app_state_get k d = Some v"
  shows "app_state_get k (snd (app_state_clear k (Some v) d)) = None"
proof -
  obtain x where x: "tab_get v_key (app_states d) k = Some x" "v_value x = v"
    using assms(2) by (auto simp: app_state_get_def)
  have "\<not> (y \<in> set (app_states d) \<and> v_key y = k \<and> v_value y \<noteq> v)" for y
    using tab_keyed_inj [OF assms(1), of y x] tab_get_SomeD [OF x(1)] x(2) by auto
  then show ?thesis
    by (auto simp: app_state_get_def app_state_clear_def Let_def tab_get_None_iff)
qed

lemma truncate_log_report:
  assumes "truncate_log outcome d d rp = (rp', d')" and "tab_keyed v_key (app_states d)"
  shows "er_pending rp' = er_pending rp" and "reps d' = reps d" and "memory_ok d' = memory_ok d"
    and "er_wal_truncated rp' \<Longrightarrow> app_state_get wal_truncation_owed d' = None"
    and "app_state_get wal_truncation_owed d \<noteq> None \<Longrightarrow> app_state_get wal_truncation_owed d' = None \<Longrightarrow> outcome = T_DONE"
proof -
  have frame: "reps (snd (app_state_clear k v d)) = reps d" "memory_ok (snd (app_state_clear k v d)) = memory_ok d" for k v
    by (simp_all add: app_state_clear_def Let_def memory_ok_def)
  show "er_pending rp' = er_pending rp" "reps d' = reps d" "memory_ok d' = memory_ok d"
    using assms(1) frame by (auto simp: truncate_log_def split: option.split_asm truncation.split_asm)
  show "app_state_get wal_truncation_owed d' = None" if "er_wal_truncated rp'"
    using assms(1) that cleared_marker [OF assms(2)]
    by (auto simp: truncate_log_def split: option.split_asm truncation.split_asm)
  show "outcome = T_DONE" if "app_state_get wal_truncation_owed d \<noteq> None" "app_state_get wal_truncation_owed d' = None"
    using assms(1) that by (auto simp: truncate_log_def split: option.split_asm truncation.split_asm)
qed

text \<open>
  An erasure is reported complete only when nothing is owed. Whatever the index, the disk and the
  checkpoint do: if the report of a drive is complete, none of the representations it was asked for
  is still being erased (for the recovery at startup, none at all is), and no truncation of the log
  is owed any more. The marker that one is owed disappears only when the checkpoint succeeded, and a
  drive that clears a vector without that success leaves it set. The memory invariant is kept.
\<close>

theorem complete_means_nothing_owed:
  assumes "memory_ok d" and "tab_keyed v_key (app_states d)" and "drive ee scope d files = (rp, d', files')"
  shows "(erasure_complete rp \<longrightarrow> app_state_get wal_truncation_owed d' = None \<and>
      (\<forall>r\<in>set (reps d'). r_state r = R_ERASING \<longrightarrow> (\<exists>ids. scope = Some ids \<and> r_id r \<notin> set ids))) \<and>
    (app_state_get wal_truncation_owed d \<noteq> None \<and> app_state_get wal_truncation_owed d' = None \<longrightarrow>
      ee_truncation ee = T_DONE) \<and>
    ((\<exists>n < length (reps d). r_state (reps d ! n) = R_ERASING \<and> r_state (reps d' ! n) = R_ERASED) \<and>
      app_state_get wal_truncation_owed d' = None \<longrightarrow> ee_truncation ee = T_DONE) \<and> memory_ok d'"
proof -
  let ?spaces = "dedup (map r_space (filter (\<lambda>r. r_state r = R_ERASING) (reps d)))"
  let ?owing = "length (filter (\<lambda>x. x_state x = X_PENDING) (index_ops d))"
  obtain errors d1 files1 where p: "(if ?spaces \<noteq> [] \<and> ?owing \<noteq> 0
       then (case apply_pending (ee_index ee) (ee_retry ee) (ee_pass ee) (ee_now ee) ?owing d files of
               (rp, d1, files1) \<Rightarrow>
                 (map (\<lambda>(i, e). (Some i, e)) (filter (\<lambda>(i, _). i \<in> set (erasing_operations d1))
                    (cr_retrying rp @ cr_failed rp)), d1, files1))
       else ([], d, files)) = (errors, d1, files1)" by (rule prod_cases3)
  obtain cl bl d2 files2 where f: "finalize_spaces ee ?spaces d1 files1 = (cl, bl, d2, files2)" by (rule prod_cases4)
  define rp1 where "rp1 = summarize scope cl d2 (empty_erasure_report\<lparr>er_errors := errors, er_blocked := bl\<rparr>)"
  obtain rp2 d3 where t: "truncate_log (ee_truncation ee) d2 d2 rp1 = (rp2, d3)" by fastforce
  have run: "rp = verify_cleared cl d3 rp2" "d' = d3"
    using assms(3) p f t by (auto simp: drive_def Let_def rp1_def)
  have d1: "(\<exists>t. d1 = d\<lparr>index_ops := t\<rparr>) \<and> memory_ok d1"
  proof (cases "?spaces \<noteq> [] \<and> ?owing \<noteq> 0")
    case True
    then obtain rp0 where "apply_pending (ee_index ee) (ee_retry ee) (ee_pass ee) (ee_now ee) ?owing d files = (rp0, d1, files1)"
      using p by (auto split: prod.split_asm)
    from apply_pending_frame [OF this assms(1)] show ?thesis by blast
  next
    case False
    then have "d1 = d" using p by (simp split: if_split_asm)
    moreover have "d = d\<lparr>index_ops := index_ops d\<rparr>" by simp
    ultimately show ?thesis using assms(1) by metis
  qed
  then have same: "reps d1 = reps d" "app_states d1 = app_states d" "memory_ok d1" by auto
  note fin = finalize_spaces_frame [OF f same(3)]
  have keyed: "tab_keyed v_key (app_states d2)" using fin same(2) assms(2) by simp
  note tr = truncate_log_report [OF t keyed]
  have mark: "app_state_get wal_truncation_owed d1 = app_state_get wal_truncation_owed d" by (simp add: app_state_get_def same(2))
  have ok: "memory_ok d'" using fin tr(3) run(2) by simp
  have flags: "er_pending rp = er_pending rp1" "er_wal_truncated rp = er_wal_truncated rp2"
    using tr(1) by (simp_all add: run(1) verify_cleared_def)
  have none: "\<exists>ids. scope = Some ids \<and> r_id r \<notin> set ids" if c: "erasure_complete rp" and r: "r \<in> set (reps d')" "r_state r = R_ERASING" for r
  proof (cases scope)
    case None
    then have "er_pending rp1 \<noteq> []" using r tr(2) run(2) by (auto simp: rp1_def summarize_def filter_empty_conv)
    then show ?thesis using c flags(1) by (simp add: erasure_complete_def outstanding_cleanup_def)
  next
    case (Some ids)
    have "tab_get r_id (reps d2) (r_id r) = Some r"
      using ok r(1) tr(2) run(2) by (intro tab_get_in) (simp_all add: memory_ok_def reps_ok_def)
    then have "r_id r \<in> set ids \<Longrightarrow> er_pending rp1 \<noteq> []"
      using r(2) Some by (auto simp: rp1_def summarize_def Let_def filter_empty_conv)
    then show ?thesis using Some c flags(1) by (auto simp: erasure_complete_def outstanding_cleanup_def)
  qed
  have mark_gone: "app_state_get wal_truncation_owed d' = None" if "erasure_complete rp"
    using that tr(4) run(2) flags(2) by (auto simp: erasure_complete_def outstanding_cleanup_def split: if_split_asm)
  have kept: "ee_truncation ee = T_DONE"
    if "app_state_get wal_truncation_owed d \<noteq> None" "app_state_get wal_truncation_owed d' = None"
    using that tr(5) fin mark run(2) by simp
  have set: "ee_truncation ee = T_DONE"
    if n: "n < length (reps d)" "r_state (reps d ! n) = R_ERASING" "r_state (reps d' ! n) = R_ERASED"
      "app_state_get wal_truncation_owed d' = None" for n
  proof (rule tr(5))
    show "app_state_get wal_truncation_owed d3 = None" using n(4) run(2) by simp
    have "reps d2 \<noteq> reps d" using n tr(2) run(2) by auto
    then show "app_state_get wal_truncation_owed d2 \<noteq> None" using fin same(1) by auto
  qed
  show ?thesis
  proof (intro conjI impI ballI)
    assume "(\<exists>n < length (reps d). r_state (reps d ! n) = R_ERASING \<and> r_state (reps d' ! n) = R_ERASED) \<and>
      app_state_get wal_truncation_owed d' = None"
    then show "ee_truncation ee = T_DONE" using set by blast
  qed (simp_all add: none mark_gone kept ok)
qed

text \<open>A drive over the library of \<open>erasing_db\<close> in which nothing goes wrong.\<close>

definition sample_erasure :: erasure_env where
  "sample_erasure = \<lparr>ee_index = unary_env, ee_retry = \<lparr>rt_max = 3, rt_backoff = (\<lambda>n. 10 * n)\<rparr>,
     ee_pass = \<lparr>pe_disks = (\<lambda>_. sample_disks), pe_now = (\<lambda>_. 9)\<rparr>, ee_now = 9, ee_locked = (\<lambda>_ _. False),
     ee_raises = (\<lambda>_. None), ee_marker = (\<lambda>_. ''m''), ee_truncation = T_DONE\<rparr>"

lemma erased_only_when_gone_witness:
  "\<exists>cleared d' dir'. finalize_space 5 (\<lambda>_. False) ''m'' 9
       (erasing_db\<lparr>index_ops := [(fresh_op \<lparr>w_rep = 21, w_space = 5, w_kind = REMOVE\<rparr> 3 71)\<lparr>x_state := X_APPLIED, x_applied := Some 8\<rparr>]\<rparr>)
       sample_dir = ((cleared, None), d', dir') \<and>
     cleared = [21] \<and> map r_vector (reps d') = [None, Some [0, 0, 0, 0]] \<and> superseded_files dir' = [] \<and> memory_ok d'"
proof -
  let ?x = "(fresh_op \<lparr>w_rep = 21, w_space = 5, w_kind = REMOVE\<rparr> 3 71)\<lparr>x_state := X_APPLIED, x_applied := Some 8\<rparr>"
  let ?d = "erasing_db\<lparr>index_ops := [?x]\<rparr>"
  have "queue_inv (index_ops ?d)" by code_simp
  then have ok: "memory_ok ?d" using erasing_db_ok by (simp add: memory_ok_def)
  have "fst (finalize_space 5 (\<lambda>_. False) ''m'' 9 ?d sample_dir) = ([21], None)" by code_simp
  then obtain d' dir' where run: "finalize_space 5 (\<lambda>_. False) ''m'' 9 ?d sample_dir = (([21], None), d', dir')"
    by (metis prod.collapse)
  note e = erased_only_when_gone [OF ok run]
  then have reps: "reps d' = map (\<lambda>r. if r_id r \<in> set [21] then erased_row 9 r else r) (reps ?d)" by blast
  have "map r_vector (reps d') = [None, Some [0, 0, 0, 0]]"
    unfolding reps by (simp add: erasing_db_def sample_rep_def erased_row_def)
  moreover have "superseded_files dir' = []"
    using e by (auto simp: erasing_db_def sample_rep_def)
  moreover have "memory_ok d'" using e by blast
  ultimately show ?thesis by (intro exI conjI) (rule run, simp_all)
qed

lemma complete_means_nothing_owed_witness:
  "\<exists>rp d' files'. drive sample_erasure (Some [21]) erasing_db (\<lambda>s. if s = 5 then sample_dir else None) = (rp, d', files') \<and>
     er_erased rp = [21] \<and> erasure_complete rp \<and> app_state_get wal_truncation_owed d' = None \<and> memory_ok d'"
proof -
  let ?f = "\<lambda>s. if s = 5 then sample_dir else None"
  obtain rp d' files' where run: "drive sample_erasure (Some [21]) erasing_db ?f = (rp, d', files')" by (rule prod_cases3)
  have "er_erased (fst (drive sample_erasure (Some [21]) erasing_db ?f)) = [21] \<and>
      erasure_complete (fst (drive sample_erasure (Some [21]) erasing_db ?f))" by code_simp
  then have rp: "er_erased rp = [21]" "erasure_complete rp" unfolding run by simp_all
  have "tab_keyed v_key (app_states erasing_db)" by code_simp
  from complete_means_nothing_owed [OF erasing_db_ok this run] rp run show ?thesis by blast
qed

end
