(* ===== verification/Artifacts.thy ===== *)
theory Artifacts
  imports Folders IndexQueue "HOL-Library.List_Lexorder" "HOL-Library.Char_ord"
begin

text \<open>
  Managed bytes and the rows that own them (\<open>backend/app/sources/artifact_storage.py\<close>,
  \<open>backend/infrastructure/storage/files.py\<close>, \<open>layout.py\<close>, \<open>backend/app/sources/storage_cleanup.py\<close>,
  \<open>artifact_references.py\<close>). Creation commits a PENDING row, writes and renames, commits AVAILABLE;
  deletion commits the intent, removes the bytes, finalizes. Each protocol is cut at any point by a
  crash, and recovery settles what it left. What the system does (locked or unreadable files, a
  directory that leads elsewhere) is an argument, and so is SHA-256.
\<close>

section \<open>Keys and files\<close>

definition managed_directories :: "string list" where
  "managed_directories = [''crops'', ''models'', ''originals'', ''thumbnails'']"

datatype storage_error =
    UnsafeStorageKey | OsError string | ExistingContent | ArtifactState | RuntimeNotStored | RootUnavailable

fun kind_directory :: "artifact_kind \<Rightarrow> string option" where
  "kind_directory SOURCE_ORIGINAL = Some ''originals''"
| "kind_directory FACE_CROP = Some ''crops''"
| "kind_directory THUMBNAIL = Some ''thumbnails''"
| "kind_directory MODEL_EXPORT = Some ''models''"
| "kind_directory RUNTIME_PACKAGE = None"

definition storage_key_for :: "artifact_kind \<Rightarrow> uuid \<Rightarrow> storage_error + string" where
  "storage_key_for kind i =
     (case kind_directory kind of None \<Rightarrow> Inl RuntimeNotStored | Some dir \<Rightarrow> Inr (dir @ ''/'' @ uuid_hex i))"

text \<open>\<open>_KEY.fullmatch\<close>: a managed directory, a slash, 32 lower-case hexadecimal digits\<close>

definition key_name :: "string \<Rightarrow> string" where
  "key_name key = drop (length key - 32) key"

definition is_storage_key :: "string \<Rightarrow> bool" where
  "is_storage_key key \<longleftrightarrow> 32 \<le> length key \<and> list_all is_hex (key_name key) \<and>
     take (length key - 32) key \<in> (\<lambda>dir. dir @ ''/'') ` set managed_directories"

text \<open>The final files by storage key, the staging files by name.\<close>

datatype managed_entry = File "byte list" | NotAFile

record managed_files =
  mf_root :: bool
  mf_final :: "(string \<times> managed_entry) list"
  mf_staging :: "(string \<times> byte list) list"

record store_env =
  se_digest :: "byte list \<Rightarrow> byte list"
  se_escapes :: "string \<Rightarrow> bool"
  se_unreadable :: "string \<Rightarrow> bool"
  se_undeletable :: "string \<Rightarrow> bool"
  se_locked :: "string \<Rightarrow> bool"   \<comment> \<open>a staging file that cannot be removed\<close>
  se_uuid :: "string \<Rightarrow> uuid option"   \<comment> \<open>\<open>uuid.UUID(hex=...)\<close>, which reads several spellings\<close>

type_synonym stored = "byte list \<times> int"

definition final_entry :: "managed_files \<Rightarrow> string \<Rightarrow> managed_entry option" where
  "final_entry fs key = map_of (mf_final fs) key"

definition put_final :: "string \<Rightarrow> managed_entry \<Rightarrow> managed_files \<Rightarrow> managed_files" where
  "put_final key e fs = fs\<lparr>mf_final := (key, e) # filter (\<lambda>x. fst x \<noteq> key) (mf_final fs)\<rparr>"

definition remove_final :: "string \<Rightarrow> managed_files \<Rightarrow> managed_files" where
  "remove_final key fs = fs\<lparr>mf_final := filter (\<lambda>x. fst x \<noteq> key) (mf_final fs)\<rparr>"

definition put_staged :: "string \<Rightarrow> byte list \<Rightarrow> managed_files \<Rightarrow> managed_files" where
  "put_staged n b fs = fs\<lparr>mf_staging := (n, b) # filter (\<lambda>x. fst x \<noteq> n) (mf_staging fs)\<rparr>"

definition remove_staged :: "string \<Rightarrow> managed_files \<Rightarrow> managed_files" where
  "remove_staged n fs = fs\<lparr>mf_staging := filter (\<lambda>x. fst x \<noteq> n) (mf_staging fs)\<rparr>"

definition path_for :: "store_env \<Rightarrow> string \<Rightarrow> storage_error + string" where
  "path_for se key = (if is_storage_key key \<and> \<not> se_escapes se key then Inr key else Inl UnsafeStorageKey)"

definition staging_suffix :: string where
  "staging_suffix = ''.part''"

text \<open>\<open>PurePosixPath(key).name\<close> with the suffix\<close>

definition staging_name :: "string \<Rightarrow> string" where
  "staging_name key = rev (takeWhile (\<lambda>c. c \<noteq> CHR ''/'') (rev key)) @ staging_suffix"

definition stored_bytes :: "store_env \<Rightarrow> byte list \<Rightarrow> stored" where
  "stored_bytes se b = (se_digest se b, int (length b))"

definition digest :: "store_env \<Rightarrow> string \<Rightarrow> managed_files \<Rightarrow> storage_error + stored option" where
  "digest se key fs =
     bindE (path_for se key) (\<lambda>k.
       case final_entry fs k of
         Some (File b) \<Rightarrow> if se_unreadable se k then Inl (OsError ''PermissionError'') else Inr (Some (stored_bytes se b))
       | _ \<Rightarrow> Inr None)"

definition delete_bytes :: "store_env \<Rightarrow> string \<Rightarrow> managed_files \<Rightarrow> storage_error + managed_files" where
  "delete_bytes se key fs =
     bindE (path_for se key) (\<lambda>k.
       case final_entry fs k of
         None \<Rightarrow> Inr fs
       | Some NotAFile \<Rightarrow> Inl (OsError ''PermissionError'')
       | Some (File _) \<Rightarrow> if se_undeletable se k then Inl (OsError ''PermissionError'') else Inr (remove_final k fs))"

text \<open>
  \<open>ManagedFileStore.store\<close>. \<open>fault\<close> is a write that raises, with the bytes it had written. The staging
  file is removed in any case, unless it is locked.
\<close>

definition drop_staging :: "store_env \<Rightarrow> string \<Rightarrow> managed_files \<Rightarrow> managed_files" where
  "drop_staging se n fs = (if se_locked se n then fs else remove_staged n fs)"

definition store_file ::
  "store_env \<Rightarrow> byte list option \<Rightarrow> string \<Rightarrow> byte list \<Rightarrow> managed_files \<Rightarrow> (storage_error + stored) \<times> managed_files" where
  "store_file se fault key b fs =
     (case path_for se key of
        Inl e \<Rightarrow> (Inl e, fs)
      | Inr k \<Rightarrow>
          let n = staging_name k in
          case fault of
            Some torn \<Rightarrow> (Inl (OsError ''OSError''), drop_staging se n (put_staged n torn fs))
          | None \<Rightarrow>
              let fs1 = put_staged n b fs in
              case final_entry fs1 k of
                None \<Rightarrow> (Inr (stored_bytes se b), put_final k (File b) (remove_staged n fs1))
              | Some _ \<Rightarrow>
                  (case digest se k fs1 of
                     Inl e \<Rightarrow> (Inl e, drop_staging se n fs1)
                   | Inr found \<Rightarrow>
                       if found = Some (stored_bytes se b) then (Inr (stored_bytes se b), drop_staging se n fs1)
                       else (Inl ExistingContent, drop_staging se n fs1)))"

section \<open>Transitions of the rows\<close>

definition transition_artifact ::
  "uuid \<Rightarrow> artifact_state list \<Rightarrow> storage_mode \<Rightarrow> (artifact \<Rightarrow> bool) \<Rightarrow> (artifact \<Rightarrow> artifact) \<Rightarrow> db \<Rightarrow> storage_error + db" where
  "transition_artifact i from mode extra values d =
     (case guarded_update (\<lambda>f. f_id f = i \<and> f_mode f = mode \<and> f_state f \<in> set from \<and> extra f) values (artifacts d) of
        (True, t) \<Rightarrow> Inr (d\<lparr>artifacts := t\<rparr>)
      | (False, _) \<Rightarrow> Inl ArtifactState)"

text \<open>\<open>meta\<close> is the MIME type and the original file name.\<close>

definition reserve_managed_artifact :: "artifact_kind \<Rightarrow> string option \<times> string option \<Rightarrow> uuid \<Rightarrow> time \<Rightarrow> db \<Rightarrow> storage_error + artifact \<times> db" where
  "reserve_managed_artifact kind meta i now d =
     bindE (storage_key_for kind i) (\<lambda>key.
       let f = \<lparr>f_id = i, f_kind = kind, f_mode = MANAGED, f_state = A_PENDING, f_key = Some key, f_path = None,
                f_sha = None, f_size = None, f_created = now, f_available = None, f_delete_requested = None,
                f_deleted = None, f_code = None, f_detail = None, f_mime = fst meta, f_filename = snd meta\<rparr>
       in if tab_get f_id (artifacts d) i \<noteq> None \<or> (\<exists>g\<in>set (artifacts d). f_key g = Some key)
          then Inl (OsError ''IntegrityError'')
          else Inr (f, d\<lparr>artifacts := artifacts d @ [f]\<rparr>))"

definition mark_artifact_available :: "uuid \<Rightarrow> stored \<Rightarrow> time \<Rightarrow> db \<Rightarrow> storage_error + db" where
  "mark_artifact_available i b now d =
     transition_artifact i [A_PENDING] MANAGED (\<lambda>_. True)
       (\<lambda>f. f\<lparr>f_state := A_AVAILABLE, f_sha := Some (fst b), f_size := Some (snd b), f_available := Some now,
              f_code := None, f_detail := None\<rparr>) d"

definition mark_write_not_completed :: "uuid \<Rightarrow> string \<Rightarrow> db \<Rightarrow> storage_error + db" where
  "mark_write_not_completed i detail d =
     transition_artifact i [A_PENDING] MANAGED (\<lambda>_. True)
       (\<lambda>f. f\<lparr>f_state := A_MISSING, f_code := Some ''WRITE_NOT_COMPLETED'', f_detail := Some (take 500 detail)\<rparr>) d"

definition deletable_states :: "artifact_state list" where
  "deletable_states = [A_AVAILABLE, A_MISSING, A_DELETE_FAILED]"

text \<open>No row points at the artifact; \<open>others\<close> stands for the columns of the runtime's tables.\<close>

definition referenced_artifact :: "(uuid \<Rightarrow> bool) \<Rightarrow> db \<Rightarrow> uuid \<Rightarrow> bool" where
  "referenced_artifact others d i \<longleftrightarrow> others i \<or>
     list_ex (\<lambda>c. c_original c = i \<or> c_thumbnail c = Some i) (sources d) \<or>
     list_ex (\<lambda>ob. o_crop ob = Some i) (observations d)"

definition request_artifact_deletion ::
  "(uuid \<Rightarrow> bool) option \<Rightarrow> uuid \<Rightarrow> time \<Rightarrow> db \<Rightarrow> storage_error + db" where
  "request_artifact_deletion unreferenced i now d =
     transition_artifact i deletable_states MANAGED
       (\<lambda>f. case unreferenced of None \<Rightarrow> True | Some others \<Rightarrow> \<not> referenced_artifact others d (f_id f))
       (\<lambda>f. f\<lparr>f_state := A_DELETING, f_delete_requested := Some now\<rparr>) d"

definition finalize_artifact_deletion :: "uuid \<Rightarrow> time \<Rightarrow> db \<Rightarrow> storage_error + db" where
  "finalize_artifact_deletion i now d =
     transition_artifact i [A_DELETING, A_DELETE_FAILED] MANAGED (\<lambda>_. True)
       (\<lambda>f. f\<lparr>f_state := A_DELETED, f_deleted := Some now, f_code := None, f_detail := None\<rparr>) d"

definition record_delete_failure :: "uuid \<Rightarrow> string \<Rightarrow> db \<Rightarrow> storage_error + db" where
  "record_delete_failure i detail d =
     transition_artifact i [A_DELETING, A_DELETE_FAILED] MANAGED (\<lambda>_. True)
       (\<lambda>f. f\<lparr>f_state := A_DELETE_FAILED, f_code := Some ''DELETE_ERROR'', f_detail := Some (take 500 detail)\<rparr>) d"

text \<open>Forgetting and permanent deletion turn a write that never finished into a deletion (\<open>forget.py\<close>).\<close>

definition abandon_artifact :: "uuid \<Rightarrow> time \<Rightarrow> db \<Rightarrow> storage_error + db" where
  "abandon_artifact i now d =
     transition_artifact i [A_PENDING] MANAGED (\<lambda>_. True)
       (\<lambda>f. f\<lparr>f_state := A_DELETING, f_delete_requested := Some now\<rparr>) d"

section \<open>The protocols, cut anywhere\<close>

text \<open>
  Each protocol commits between its steps. \<open>crash = Some n\<close> is a crash after \<open>n\<close> of them; a crash in the
  middle of a write leaves \<open>torn\<close> bytes in staging. \<open>None\<close> as the answer: the process died.
\<close>

definition keep :: "'e + 'a \<Rightarrow> 'a \<Rightarrow> 'a" where
  "keep r x = (case r of Inl _ \<Rightarrow> x | Inr y \<Rightarrow> y)"

definition create_managed_artifact ::
  "store_env \<Rightarrow> nat option \<Rightarrow> byte list \<Rightarrow> byte list option \<Rightarrow> artifact_kind \<Rightarrow> string option \<times> string option \<Rightarrow> byte list \<Rightarrow> uuid \<Rightarrow> time \<Rightarrow> time \<Rightarrow>
     db \<Rightarrow> managed_files \<Rightarrow> (storage_error + uuid) option \<times> db \<times> managed_files" where
  "create_managed_artifact se crash torn fault kind meta b i now1 now2 d fs =
     (case reserve_managed_artifact kind meta i now1 d of
        Inl e \<Rightarrow> (Some (Inl e), d, fs)
      | Inr (f, d1) \<Rightarrow>
          let key = the (f_key f) in
          if crash = Some 0 then (None, d, fs)
          else if crash = Some 1 then (None, d1, fs)
          else if crash = Some 2 then (None, d1, put_staged (staging_name key) torn fs)
          else (case store_file se fault key b fs of
             (Inl e, fs1) \<Rightarrow>
               if crash = Some 3 then (None, d1, fs1)
               else (Some (Inl e), keep (mark_write_not_completed i ''error'' d1) d1, fs1)
           | (Inr stored, fs1) \<Rightarrow>
               if crash = Some 3 then (None, d1, fs1)
               else (case mark_artifact_available i stored now2 d1 of
                       Inl e \<Rightarrow> (Some (Inl e), d1, fs1)
                     | Inr d2 \<Rightarrow> (Some (Inr i), d2, fs1))))"

definition key_of_artifact :: "uuid \<Rightarrow> db \<Rightarrow> string" where
  "key_of_artifact i d = (case tab_get f_id (artifacts d) i of Some f \<Rightarrow> the (f_key f) | None \<Rightarrow> [])"

text \<open>Steps two and three of a deletion whose intent is committed.\<close>

definition finish_deletion ::
  "store_env \<Rightarrow> nat option \<Rightarrow> uuid \<Rightarrow> string \<Rightarrow> time \<Rightarrow> db \<Rightarrow> managed_files \<Rightarrow>
     (storage_error + unit) option \<times> db \<times> managed_files" where
  "finish_deletion se crash i key now d fs =
     (if crash = Some 1 then (None, d, fs)
      else case delete_bytes se key fs of
        Inl (OsError e) \<Rightarrow>
          if crash = Some 2 then (None, d, fs) else (Some (Inl (OsError e)), keep (record_delete_failure i e d) d, fs)
      | Inl e \<Rightarrow> (Some (Inl e), d, fs)
      | Inr fs1 \<Rightarrow>
          if crash = Some 2 then (None, d, fs1)
          else (case finalize_artifact_deletion i now d of
                  Inl e \<Rightarrow> (Some (Inl e), d, fs1) | Inr d2 \<Rightarrow> (Some (Inr ()), d2, fs1)))"

definition delete_managed_artifact ::
  "store_env \<Rightarrow> nat option \<Rightarrow> (uuid \<Rightarrow> bool) option \<Rightarrow> uuid \<Rightarrow> time \<Rightarrow> time \<Rightarrow> db \<Rightarrow> managed_files \<Rightarrow>
     (storage_error + unit) option \<times> db \<times> managed_files" where
  "delete_managed_artifact se crash unreferenced i now1 now2 d fs =
     (case bindE (request_artifact_deletion unreferenced i now1 d)
             (\<lambda>d1. bindE (path_for se (key_of_artifact i d1)) (\<lambda>_. Inr d1)) of
        Inl e \<Rightarrow> (Some (Inl e), d, fs)
      | Inr d1 \<Rightarrow>
          if crash = Some 0 then (None, d, fs)
          else finish_deletion se crash i (key_of_artifact i d1) now2 d1 fs)"

text \<open>\<open>complete_artifact_deletion\<close>: \<open>d\<close> when it reads, \<open>later\<close> when it settles.\<close>

definition deletion_intent :: "uuid \<Rightarrow> db \<Rightarrow> storage_error + string option" where
  "deletion_intent i d =
     (case tab_get f_id (artifacts d) i of
        None \<Rightarrow> Inl ArtifactState
      | Some f \<Rightarrow>
          if f_state f = A_DELETED then Inr None
          else if f_mode f \<noteq> MANAGED \<or> f_state f \<notin> {A_DELETING, A_DELETE_FAILED} \<or> f_key f = None
          then Inl ArtifactState else Inr (f_key f))"

definition settle_deletion :: "uuid \<Rightarrow> string option \<Rightarrow> time \<Rightarrow> db \<Rightarrow> storage_error + bool \<times> db" where
  "settle_deletion i failure now d =
     (case tab_get f_id (artifacts d) i of
        None \<Rightarrow> Inr (False, d)
      | Some f \<Rightarrow>
          if f_state f = A_DELETED then Inr (False, d)
          else bindE (case failure of None \<Rightarrow> finalize_artifact_deletion i now d
                                   | Some e \<Rightarrow> record_delete_failure i e d) (\<lambda>d'. Inr (True, d')))"

definition complete_artifact_deletion ::
  "store_env \<Rightarrow> uuid \<Rightarrow> time \<Rightarrow> db \<Rightarrow> managed_files \<Rightarrow> (db \<Rightarrow> db) \<Rightarrow> (storage_error + unit) \<times> db \<times> managed_files" where
  "complete_artifact_deletion se i now d fs meanwhile =
     (case deletion_intent i d of
        Inl e \<Rightarrow> (Inl e, d, fs)
      | Inr None \<Rightarrow> (Inr (), d, fs)
      | Inr (Some key) \<Rightarrow>
          let later = meanwhile d in
          (case delete_bytes se key fs of
             Inl (OsError e) \<Rightarrow>
               (case settle_deletion i (Some e) now later of
                  Inl e' \<Rightarrow> (Inl e', later, fs)
                | Inr (True, d') \<Rightarrow> (Inl (OsError e), d', fs)
                | Inr (False, d') \<Rightarrow> (Inr (), d', fs))
           | Inl e \<Rightarrow> (Inl e, later, fs)
           | Inr fs' \<Rightarrow>
               (case settle_deletion i None now later of
                  Inl e' \<Rightarrow> (Inl e', later, fs') | Inr (_, d') \<Rightarrow> (Inr (), d', fs'))))"

section \<open>Integrity and recovery\<close>

definition managed_in :: "artifact_state list \<Rightarrow> db \<Rightarrow> (uuid \<times> string) list" where
  "managed_in states d =
     map (\<lambda>f. (f_id f, the (f_key f))) (sort_key (\<lambda>f. (f_created f, f_id f))
       (filter (\<lambda>f. f_mode f = MANAGED \<and> f_state f \<in> set states) (artifacts d)))"

text \<open>\<open>store.digest(key) == StoredBytes(sha256, size_bytes)\<close>; a row without them is equal to nothing\<close>

definition as_recorded :: "artifact \<Rightarrow> stored option \<Rightarrow> bool" where
  "as_recorded f found \<longleftrightarrow>
     (case found of None \<Rightarrow> False | Some st \<Rightarrow> f_sha f = Some (fst st) \<and> f_size f = Some (snd st))"

lemma as_recorded_iff [simp]: "as_recorded f found \<longleftrightarrow> (\<exists>h n. f_sha f = Some h \<and> f_size f = Some n \<and> found = Some (h, n))"
  by (auto simp: as_recorded_def split: option.split)

definition verify_artifact :: "store_env \<Rightarrow> artifact \<Rightarrow> managed_files \<Rightarrow> storage_error + bool" where
  "verify_artifact se f fs =
     (case f_key f of
        Some key \<Rightarrow>
          if f_mode f \<noteq> MANAGED \<or> f_state f \<noteq> A_AVAILABLE then Inl ArtifactState
          else bindE (digest se key fs) (\<lambda>found. Inr (as_recorded f found))
      | None \<Rightarrow> Inl ArtifactState)"

record recovery_report =
  rr_finalized :: "uuid list"
  rr_not_completed :: "uuid list"
  rr_deleted :: "uuid list"
  rr_failed :: "uuid list"
  rr_removed :: "string list"
  rr_skipped :: "uuid list"
  rr_left :: "string list"

definition empty_recovery :: recovery_report where
  "empty_recovery = \<lparr>rr_finalized = [], rr_not_completed = [], rr_deleted = [], rr_failed = [], rr_removed = [],
     rr_skipped = [], rr_left = []\<rparr>"

fun recover_pending ::
  "store_env \<Rightarrow> time \<Rightarrow> (uuid \<times> string) list \<Rightarrow> recovery_report \<Rightarrow> db \<Rightarrow> managed_files \<Rightarrow> recovery_report \<times> db" where
  "recover_pending se now [] rr d fs = (rr, d)"
| "recover_pending se now ((i, key) # xs) rr d fs =
     (case digest se key fs of
        Inl _ \<Rightarrow> recover_pending se now xs (rr\<lparr>rr_skipped := rr_skipped rr @ [i]\<rparr>) d fs
      | Inr (Some stored) \<Rightarrow>
          recover_pending se now xs (rr\<lparr>rr_finalized := rr_finalized rr @ [i]\<rparr>) (keep (mark_artifact_available i stored now d) d) fs
      | Inr None \<Rightarrow>
          recover_pending se now xs (rr\<lparr>rr_not_completed := rr_not_completed rr @ [i]\<rparr>)
            (keep (mark_write_not_completed i ''interrupted before finalization'' d) d) fs)"

fun recover_deleting ::
  "store_env \<Rightarrow> time \<Rightarrow> (uuid \<times> string) list \<Rightarrow> recovery_report \<Rightarrow> db \<Rightarrow> managed_files \<Rightarrow>
     recovery_report \<times> db \<times> managed_files" where
  "recover_deleting se now [] rr d fs = (rr, d, fs)"
| "recover_deleting se now ((i, key) # xs) rr d fs =
     (case delete_bytes se key fs of
        Inl (OsError e) \<Rightarrow>
          recover_deleting se now xs (rr\<lparr>rr_failed := rr_failed rr @ [i]\<rparr>) (keep (record_delete_failure i e d) d) fs
      | Inl _ \<Rightarrow> recover_deleting se now xs (rr\<lparr>rr_skipped := rr_skipped rr @ [i]\<rparr>) d fs
      | Inr fs1 \<Rightarrow>
          recover_deleting se now xs (rr\<lparr>rr_deleted := rr_deleted rr @ [i]\<rparr>) (keep (finalize_artifact_deletion i now d) d) fs1)"

definition staging_files :: "managed_files \<Rightarrow> string list" where
  "staging_files fs = sort (filter (\<lambda>n. drop (length n - length staging_suffix) n = staging_suffix) (map fst (mf_staging fs)))"

text \<open>\<open>Path.stem\<close>: a name that is nothing but the suffix has no suffix\<close>

definition staging_stem :: "string \<Rightarrow> string" where
  "staging_stem n = (if n = staging_suffix then n else take (length n - length staging_suffix) n)"

text \<open>
  A staging file is the application's when its name reads as the id of a managed artifact (of two such
  names the later one, as the dictionary keeps it), and settled when that artifact is not PENDING.
\<close>

definition settled_staging :: "store_env \<Rightarrow> db \<Rightarrow> string list \<Rightarrow> string list" where
  "settled_staging se d ns =
     (let by_id = map_of (rev (concat (map (\<lambda>n. case se_uuid se (staging_stem n) of None \<Rightarrow> [] | Some i \<Rightarrow> [(i, n)]) ns)))
      in concat (map (\<lambda>f. if f_mode f = MANAGED \<and> f_state f \<noteq> A_PENDING
                          then (case by_id (f_id f) of None \<Rightarrow> [] | Some n \<Rightarrow> [n]) else []) (artifacts d)))"

fun clear_staging ::
  "store_env \<Rightarrow> string list \<Rightarrow> string list \<Rightarrow> recovery_report \<Rightarrow> managed_files \<Rightarrow> recovery_report \<times> managed_files" where
  "clear_staging se settled [] rr fs = (rr, fs)"
| "clear_staging se settled (n # ns) rr fs =
     (if n \<notin> set settled \<or> se_locked se n
      then clear_staging se settled ns (rr\<lparr>rr_left := rr_left rr @ [n]\<rparr>) fs
      else clear_staging se settled ns (rr\<lparr>rr_removed := rr_removed rr @ [n]\<rparr>) (remove_staged n fs))"

definition recover_artifacts ::
  "store_env \<Rightarrow> time \<Rightarrow> db \<Rightarrow> managed_files \<Rightarrow> recovery_report \<times> db \<times> managed_files" where
  "recover_artifacts se now d fs =
     (case recover_pending se now (managed_in [A_PENDING] d) empty_recovery d fs of
        (rr1, d1) \<Rightarrow>
          (case recover_deleting se now (managed_in [A_DELETING, A_DELETE_FAILED] d) rr1 d1 fs of
             (rr2, d2, fs2) \<Rightarrow>
               (case clear_staging se (settled_staging se d2 (staging_files fs2)) (staging_files fs2) rr2 fs2 of
                  (rr3, fs3) \<Rightarrow> (rr3, d2, fs3))))"

definition reverify_managed_artifact ::
  "store_env \<Rightarrow> uuid \<Rightarrow> db \<Rightarrow> managed_files \<Rightarrow> storage_error + artifact_state \<times> db" where
  "reverify_managed_artifact se i d fs =
     (case tab_get f_id (artifacts d) i of
        None \<Rightarrow> Inl ArtifactState
      | Some f \<Rightarrow>
          (case f_key f of
             Some key \<Rightarrow>
               if f_mode f \<noteq> MANAGED \<or> f_state f \<noteq> A_MISSING then Inl ArtifactState
               else bindE (digest se key fs) (\<lambda>found.
                 if as_recorded f found
                 then bindE (transition_artifact i [A_MISSING] MANAGED (\<lambda>_. True)
                        (\<lambda>f. f\<lparr>f_state := A_AVAILABLE, f_code := None, f_detail := None\<rparr>) d)
                        (\<lambda>d'. Inr (A_AVAILABLE, d'))
                 else Inr (A_MISSING, d))
           | None \<Rightarrow> Inl ArtifactState))"

fun mark_each_missing :: "string \<Rightarrow> storage_mode \<Rightarrow> uuid list \<Rightarrow> db \<Rightarrow> uuid list \<times> db" where
  "mark_each_missing code mode [] d = ([], d)"
| "mark_each_missing code mode (i # is) d =
     (case transition_artifact i [A_AVAILABLE] mode (\<lambda>_. True)
             (\<lambda>f. f\<lparr>f_state := A_MISSING, f_code := Some code, f_detail := None\<rparr>) d of
        Inl _ \<Rightarrow> mark_each_missing code mode is d
      | Inr d' \<Rightarrow> (case mark_each_missing code mode is d' of (js, d'') \<Rightarrow> (i # js, d'')))"

definition mark_missing_managed_files ::
  "store_env \<Rightarrow> db \<Rightarrow> managed_files \<Rightarrow> storage_error + uuid list \<times> db" where
  "mark_missing_managed_files se d fs =
     (if \<not> mf_root fs then Inl RootUnavailable
      else Inr (mark_each_missing ''MANAGED_FILE_MISSING'' MANAGED
        (map fst (filter (\<lambda>(i, key). case path_for se key of
             Inl _ \<Rightarrow> False
           | Inr k \<Rightarrow> (case final_entry fs k of
               None \<Rightarrow> True | Some NotAFile \<Rightarrow> True | Some (File _) \<Rightarrow> False)) (managed_in [A_AVAILABLE] d))) d))"

record storage_scan =
  sc_missing :: "uuid list"
  sc_orphans :: "string list"
  sc_staging :: "string list"
  sc_unsafe :: "uuid list"

definition managed_file_keys :: "managed_files \<Rightarrow> string list" where
  "managed_file_keys fs = sort (map fst (filter (\<lambda>(_, e). e \<noteq> NotAFile) (mf_final fs)))"

definition scan_storage :: "store_env \<Rightarrow> db \<Rightarrow> managed_files \<Rightarrow> storage_scan" where
  "scan_storage se d fs =
     (let rows = filter (\<lambda>f. f_mode f = MANAGED \<and> f_state f \<noteq> A_DELETED) (artifacts d);
          safe = (\<lambda>f. \<not> isl (path_for se (the (f_key f))))
      in \<lparr>sc_missing = sort (map f_id (filter (\<lambda>f. safe f \<and> f_state f = A_AVAILABLE \<and>
             (case final_entry fs (the (f_key f)) of Some (File _) \<Rightarrow> False | _ \<Rightarrow> True)) rows)),
          sc_orphans = filter (\<lambda>key. Some key \<notin> f_key ` set rows) (managed_file_keys fs),
          sc_staging = staging_files fs,
          sc_unsafe = sort (map f_id (filter (\<lambda>f. \<not> safe f) rows))\<rparr>)"

section \<open>Cleanup\<close>

definition find_unreferenced_artifacts :: "(uuid \<Rightarrow> bool) \<Rightarrow> time \<Rightarrow> db \<Rightarrow> uuid list" where
  "find_unreferenced_artifacts others older_than d =
     map f_id (sort_key (\<lambda>f. (the (f_available f), f_id f))
       (filter (\<lambda>f. f_mode f = MANAGED \<and> f_state f = A_AVAILABLE \<and>
            (case f_available f of None \<Rightarrow> False | Some t \<Rightarrow> t < older_than) \<and> \<not> referenced_artifact others d (f_id f))
          (artifacts d)))"

record cleanup_report =
  cl_deleted :: "uuid list"
  cl_skipped :: "uuid list"
  cl_failed :: "uuid list"

fun cleanup_each ::
  "store_env \<Rightarrow> (uuid \<Rightarrow> bool) \<Rightarrow> time \<Rightarrow> uuid list \<Rightarrow> cleanup_report \<Rightarrow> db \<Rightarrow> managed_files \<Rightarrow>
     cleanup_report \<times> db \<times> managed_files" where
  "cleanup_each se others now [] cl d fs = (cl, d, fs)"
| "cleanup_each se others now (i # is) cl d fs =
     (case delete_managed_artifact se None (Some others) i now now d fs of
        (Some (Inr _), d', fs') \<Rightarrow> cleanup_each se others now is (cl\<lparr>cl_deleted := cl_deleted cl @ [i]\<rparr>) d' fs'
      | (Some (Inl (OsError _)), d', fs') \<Rightarrow> cleanup_each se others now is (cl\<lparr>cl_failed := cl_failed cl @ [i]\<rparr>) d' fs'
      | (_, d', fs') \<Rightarrow> cleanup_each se others now is (cl\<lparr>cl_skipped := cl_skipped cl @ [i]\<rparr>) d' fs')"

definition cleanup_unreferenced_artifacts ::
  "store_env \<Rightarrow> (uuid \<Rightarrow> bool) \<Rightarrow> time \<Rightarrow> time \<Rightarrow> db \<Rightarrow> managed_files \<Rightarrow> cleanup_report \<times> db \<times> managed_files" where
  "cleanup_unreferenced_artifacts se others older_than now d fs =
     cleanup_each se others now (find_unreferenced_artifacts others older_than d)
       \<lparr>cl_deleted = [], cl_skipped = [], cl_failed = []\<rparr> d fs"

section \<open>Keys and entries\<close>

lemma uuid_hex_no_slash: "CHR ''/'' \<notin> set (uuid_hex i)"
  using hex_digits_hex [of 32 i] by (auto simp: uuid_hex_def list_all_iff is_hex_def)

lemma storage_key_for_Inr:
  "storage_key_for kind i = Inr key \<longleftrightarrow> (\<exists>dir. kind_directory kind = Some dir \<and> key = dir @ ''/'' @ uuid_hex i)"
  by (auto simp: storage_key_for_def split: option.splits)

lemma kind_directory_managed: "kind_directory kind = Some dir \<Longrightarrow> dir \<in> set managed_directories \<and> CHR ''/'' \<notin> set dir"
  by (cases kind) (auto simp: managed_directories_def)

text \<open>Every generated key is one the store accepts, names its staging file after the artifact, and is its own.\<close>

lemma storage_key_safe:
  assumes "storage_key_for kind i = Inr key"
  shows "is_storage_key key" and "staging_name key = uuid_hex i @ staging_suffix"
proof -
  obtain dir where dir: "kind_directory kind = Some dir" and key: "key = dir @ ''/'' @ uuid_hex i"
    using assms by (auto simp: storage_key_for_Inr)
  have len: "length (uuid_hex i) = 32" by (simp add: uuid_hex_def)
  have "take (length key - 32) key = dir @ ''/''" "key_name key = uuid_hex i"
    by (simp_all add: key len key_name_def)
  with dir show "is_storage_key key"
    using kind_directory_managed [OF dir] hex_digits_hex [of 32 i] by (simp add: is_storage_key_def key len uuid_hex_def)
  have "\<forall>x\<in>set (uuid_hex i). x \<noteq> CHR ''/''" using uuid_hex_no_slash [of i] by metis
  then have "takeWhile (\<lambda>c. c \<noteq> CHR ''/'') (rev key) = rev (uuid_hex i)"
    by (simp add: key takeWhile_tail)
  then show "staging_name key = uuid_hex i @ staging_suffix" by (simp add: staging_name_def)
qed

lemma storage_key_own:
  assumes "storage_key_for kind i = Inr key" "storage_key_for kind' j = Inr key" "i < 2 ^ 128" "j < 2 ^ 128"
  shows "i = j"
proof -
  have "uuid_hex i = uuid_hex j"
    using storage_key_safe(2) [OF assms(1)] storage_key_safe(2) [OF assms(2)] by simp
  then show ?thesis using uuid_hex_inj [OF assms(3,4)] by simp
qed

lemma map_of_unlisted: "map_of (filter (\<lambda>x. fst x \<noteq> k) xs) k' = (if k' = k then None else map_of xs k')"
  by (induction xs) auto

lemma final_entry_simps [simp]:
  "final_entry (put_final k e fs) k' = (if k' = k then Some e else final_entry fs k')"
  "final_entry (remove_final k fs) k' = (if k' = k then None else final_entry fs k')"
  "final_entry (put_staged n b fs) k' = final_entry fs k'"
  "final_entry (remove_staged n fs) k' = final_entry fs k'"
  "final_entry (drop_staging se n fs) k' = final_entry fs k'"
  by (simp_all add: final_entry_def put_final_def remove_final_def put_staged_def remove_staged_def
      drop_staging_def map_of_unlisted)

lemma path_for_Inr [simp]: "path_for se key = Inr k \<longleftrightarrow> k = key \<and> is_storage_key key \<and> \<not> se_escapes se key"
  by (auto simp: path_for_def)

lemma digest_Inr:
  "digest se key fs = Inr found \<Longrightarrow>
     (case found of Some st \<Rightarrow> \<exists>b. final_entry fs key = Some (File b) \<and> st = stored_bytes se b
      | None \<Rightarrow> \<not> (\<exists>b. final_entry fs key = Some (File b)))"
  by (auto simp: digest_def bindE_Inr_iff split: option.splits managed_entry.splits if_splits)

lemma delete_bytes_Inr:
  assumes "delete_bytes se key fs = Inr fs'"
  shows "fs' = remove_final key fs"
proof -
  have "remove_final key fs = fs" if "final_entry fs key = None"
  proof -
    have "filter (\<lambda>x. fst x \<noteq> key) (mf_final fs) = mf_final fs"
      by (rule filter_True) (use that in \<open>auto simp: final_entry_def map_of_eq_None_iff\<close>)
    then show ?thesis by (simp add: remove_final_def)
  qed
  with assms show ?thesis
    by (auto simp: delete_bytes_def bindE_Inr_iff split: option.splits managed_entry.splits if_splits)
qed

lemma delete_bytes_same:
  "final_entry fs key = final_entry fs0 key \<Longrightarrow>
     map_sum id (\<lambda>_. ()) (delete_bytes se key fs) = map_sum id (\<lambda>_. ()) (delete_bytes se key fs0)"
  by (auto simp: delete_bytes_def path_for_def split: option.splits managed_entry.splits)

lemma digest_same: "final_entry fs key = final_entry fs0 key \<Longrightarrow> digest se key fs = digest se key fs0"
  by (auto simp: digest_def path_for_def)

lemma store_file_final:
  assumes "store_file se fault key b fs = (r, fs1)"
  shows "(\<forall>k. final_entry fs1 k = final_entry fs k) \<or>
      (final_entry fs key = None \<and> (\<forall>k. final_entry fs1 k = (if k = key then Some (File b) else final_entry fs k)))"
    and "r = Inr st \<Longrightarrow> \<exists>b'. final_entry fs1 key = Some (File b') \<and> st = stored_bytes se b'"
proof -
  note d = assms [unfolded store_file_def Let_def]
  show "(\<forall>k. final_entry fs1 k = final_entry fs k) \<or>
      (final_entry fs key = None \<and> (\<forall>k. final_entry fs1 k = (if k = key then Some (File b) else final_entry fs k)))"
    using d by (auto split: sum.splits option.splits if_splits)
  show "\<exists>b'. final_entry fs1 key = Some (File b') \<and> st = stored_bytes se b'" if "r = Inr st"
    using d that by (auto split: sum.split_asm option.split_asm if_split_asm dest!: digest_Inr)
qed

section \<open>Rows and bytes agree\<close>

definition artifacts_ok :: "artifact list \<Rightarrow> bool" where
  "artifacts_ok t \<longleftrightarrow> tab_keyed f_id t \<and>
     (\<forall>f\<in>set t. \<forall>g\<in>set t. f_key f \<noteq> None \<and> f_key f = f_key g \<longrightarrow> f_id f = f_id g) \<and>
     (\<forall>f\<in>set t. f_mode f = MANAGED \<longrightarrow> f_key f \<noteq> None)"

definition same_row :: "artifact \<Rightarrow> artifact \<Rightarrow> bool" where
  "same_row f g \<longleftrightarrow> f_id f = f_id g \<and> f_key f = f_key g \<and> f_mode f = f_mode g"

lemma artifacts_ok_map:
  assumes "artifacts_ok t" and "\<And>f. f \<in> set t \<Longrightarrow> same_row (v f) f"
  shows "artifacts_ok (map v t)"
proof -
  have "map f_id (map v t) = map f_id t" using assms(2) by (simp add: same_row_def)
  then have "tab_keyed f_id (map v t)" using assms(1) unfolding artifacts_ok_def tab_keyed_def by metis
  moreover have "f_id (v f) = f_id g" if "f \<in> set t" "g \<in> set t" "f_key (v f) \<noteq> None" "f_key (v f) = f_key (v g)" for f g
    using that assms unfolding artifacts_ok_def same_row_def by metis
  moreover have "f_key (v f) \<noteq> None" if "f \<in> set t" "f_mode (v f) = MANAGED" for f
    using that assms unfolding artifacts_ok_def same_row_def by metis
  ultimately show ?thesis using assms(2) unfolding artifacts_ok_def set_map same_row_def by force
qed

lemma artifacts_ok_same: "artifacts_ok t \<Longrightarrow> f \<in> set t \<Longrightarrow> g \<in> set t \<Longrightarrow> f_id f = f_id g \<Longrightarrow> f = g"
  by (metis artifacts_ok_def tab_get_in option.inject)

lemma artifacts_ok_key:
  "artifacts_ok t \<Longrightarrow> f \<in> set t \<Longrightarrow> g \<in> set t \<Longrightarrow> f_key f = Some k \<Longrightarrow> f_key g = Some k \<Longrightarrow> f = g"
  by (metis artifacts_ok_def artifacts_ok_same option.distinct(1))

lemma transition_artifact_Inr:
  assumes "transition_artifact i from mode extra v d = Inr d'"
  shows "d' = d\<lparr>artifacts := map (\<lambda>f. if f_id f = i \<and> f_mode f = mode \<and> f_state f \<in> set from \<and> extra f then v f else f) (artifacts d)\<rparr>"
    and "\<exists>f\<in>set (artifacts d). f_id f = i \<and> f_mode f = mode \<and> f_state f \<in> set from \<and> extra f"
  using assms guarded_update_True [of "\<lambda>f. f_id f = i \<and> f_mode f = mode \<and> f_state f \<in> set from \<and> extra f" v "artifacts d"]
  by (auto simp: transition_artifact_def guarded_update_def tab_update_def split: prod.split_asm bool.split_asm)

text \<open>On a row that allows it, a transition answers and changes that row alone.\<close>

lemma transition_artifact_at:
  assumes "f \<in> set (artifacts d)" and "artifacts_ok (artifacts d)" and "f_mode f = mode" and "f_state f \<in> set from"
  shows "transition_artifact (f_id f) from mode (\<lambda>_. True) v d =
    Inr (d\<lparr>artifacts := map (\<lambda>g. if f_id g = f_id f then v g else g) (artifacts d)\<rparr>)"
proof -
  let ?p = "\<lambda>g. f_id g = f_id f \<and> f_mode g = mode \<and> f_state g \<in> set from"
  have p: "?p g \<longleftrightarrow> f_id g = f_id f" if "g \<in> set (artifacts d)" for g
    using artifacts_ok_same [OF assms(2) that assms(1)] assms(3,4) by auto
  have "map (\<lambda>g. if ?p g then v g else g) (artifacts d) = map (\<lambda>g. if f_id g = f_id f then v g else g) (artifacts d)"
    by (rule map_cong) (simp_all add: p)
  moreover have "0 < tab_count ?p (artifacts d)"
    using assms(1,3,4) by (auto simp: tab_count_def filter_empty_conv)
  ultimately show ?thesis
    by (simp add: transition_artifact_def guarded_update_def tab_update_def)
qed

lemma transition_artifact_row:
  assumes "f \<in> set (artifacts d)" and "artifacts_ok (artifacts d)" and "f_mode f = mode" and "f_state f \<in> set from"
  shows "keep (transition_artifact (f_id f) from mode (\<lambda>_. True) v d) d =
    d\<lparr>artifacts := map (\<lambda>g. if f_id g = f_id f then v g else g) (artifacts d)\<rparr>"
  by (simp add: transition_artifact_at [OF assms] keep_def)

text \<open>
  A loop over rows of the table whose body settles the row it is given, as the body finds it: together
  they are one update of exactly those rows.
\<close>

fun each_artifact :: "(artifact \<Rightarrow> db \<Rightarrow> storage_error + db) \<Rightarrow> artifact list \<Rightarrow> db \<Rightarrow> storage_error + db" where
  "each_artifact body [] d = Inr d"
| "each_artifact body (f # fs) d = bindE (body f d) (each_artifact body fs)"

lemma each_artifact_frame:
  assumes body: "\<And>f d d1. body f d = Inr d1 \<Longrightarrow> \<exists>t. d1 = d\<lparr>artifacts := t\<rparr>"
    and run: "each_artifact body fs d = Inr d'"
  shows "\<exists>t. d' = d\<lparr>artifacts := t\<rparr>"
  using run
proof (induction fs arbitrary: d)
  case Nil
  then show ?case by (auto intro: exI [of _ "artifacts d"])
next
  case (Cons f fs)
  then obtain d1 where 1: "body f d = Inr d1" and 2: "each_artifact body fs d1 = Inr d'"
    by (auto simp: bindE_Inr_iff)
  from Cons.IH [OF 2] body [OF 1] show ?case by auto
qed

lemma each_artifact_rows:
  assumes "artifacts_ok (artifacts d)" and "set fs \<subseteq> set (artifacts d)" and "distinct (map f_id fs)"
    and body: "\<And>f d. f \<in> set fs \<Longrightarrow> f \<in> set (artifacts d) \<Longrightarrow> artifacts_ok (artifacts d) \<Longrightarrow>
      body f d = Inr (d\<lparr>artifacts := map (\<lambda>g. if f_id g = f_id f then v g else g) (artifacts d)\<rparr>)"
    and v: "\<And>g. same_row (v g) g"
  shows "each_artifact body fs d = Inr (d\<lparr>artifacts := map (\<lambda>f. if f_id f \<in> f_id ` set fs then v f else f) (artifacts d)\<rparr>)"
  using assms
proof (induction fs arbitrary: d)
  case Nil
  then show ?case by simp
next
  case (Cons f fs)
  let ?one = "\<lambda>g. if f_id g = f_id f then v g else g"
  define d1 where "d1 = d\<lparr>artifacts := map ?one (artifacts d)\<rparr>"
  have id: "f_id (v g) = f_id g" for g using v [of g] by (simp add: same_row_def)
  have "body f d = Inr d1" unfolding d1_def by (rule Cons.prems(4)) (use Cons.prems(1,2) in simp_all)
  then have run: "each_artifact body (f # fs) d = each_artifact body fs d1" by simp
  have "artifacts_ok (artifacts d1)"
    unfolding d1_def by (simp, rule artifacts_ok_map [OF Cons.prems(1)]) (use v in \<open>simp add: same_row_def\<close>)
  moreover have "set fs \<subseteq> set (artifacts d1)"
  proof
    fix g assume g: "g \<in> set fs"
    have "f_id f \<notin> f_id ` set fs" using Cons.prems(3) by simp
    with g have "f_id g \<noteq> f_id f" by (metis imageI)
    then have "?one g = g" by simp
    moreover have "g \<in> set (artifacts d)" using Cons.prems(2) g by auto
    ultimately show "g \<in> set (artifacts d1)" unfolding d1_def by force
  qed
  ultimately have "each_artifact body fs d1 = Inr (d1\<lparr>artifacts := map (\<lambda>f. if f_id f \<in> f_id ` set fs then v f else f) (artifacts d1)\<rparr>)"
    using Cons.prems(3,4) v by (intro Cons.IH) simp_all
  moreover have "f_id f \<notin> f_id ` set fs" using Cons.prems(3) by simp
  then have "(\<lambda>g. if f_id g \<in> f_id ` set fs then v g else g) \<circ> ?one
      = (\<lambda>g. if f_id g \<in> f_id ` set (f # fs) then v g else g)" by (auto simp: fun_eq_iff id)
  ultimately show ?case unfolding run by (simp add: d1_def)
qed

section \<open>What recovery does to each row\<close>

definition recovered :: "store_env \<Rightarrow> time \<Rightarrow> managed_files \<Rightarrow> artifact \<Rightarrow> artifact" where
  "recovered se now fs f =
     (if f_mode f \<noteq> MANAGED then f
      else if f_state f = A_PENDING then
        (case digest se (the (f_key f)) fs of
           Inl _ \<Rightarrow> f
         | Inr (Some b) \<Rightarrow> f\<lparr>f_state := A_AVAILABLE, f_sha := Some (fst b), f_size := Some (snd b),
             f_available := Some now, f_code := None, f_detail := None\<rparr>
         | Inr None \<Rightarrow> f\<lparr>f_state := A_MISSING, f_code := Some ''WRITE_NOT_COMPLETED'',
             f_detail := Some (take 500 ''interrupted before finalization'')\<rparr>)
      else if f_state f \<in> {A_DELETING, A_DELETE_FAILED} then
        (case delete_bytes se (the (f_key f)) fs of
           Inl (OsError e) \<Rightarrow> f\<lparr>f_state := A_DELETE_FAILED, f_code := Some ''DELETE_ERROR'', f_detail := Some (take 500 e)\<rparr>
         | Inl _ \<Rightarrow> f
         | Inr _ \<Rightarrow> f\<lparr>f_state := A_DELETED, f_deleted := Some now, f_code := None, f_detail := None\<rparr>)
      else f)"

text \<open>The keys whose bytes recovery removes.\<close>

definition recovery_deletes :: "store_env \<Rightarrow> managed_files \<Rightarrow> artifact list \<Rightarrow> string \<Rightarrow> bool" where
  "recovery_deletes se fs t k \<longleftrightarrow> list_ex (\<lambda>f. f_mode f = MANAGED \<and> f_state f \<in> {A_DELETING, A_DELETE_FAILED} \<and>
     f_key f = Some k \<and> \<not> isl (delete_bytes se k fs)) t"

lemma recovered_same [simp]: "same_row (recovered se now fs f) f"
  by (auto simp: recovered_def same_row_def split: sum.split option.split storage_error.split)

lemma recovered_same_simps [simp]:
  "f_id (recovered se now fs f) = f_id f" "f_key (recovered se now fs f) = f_key f" "f_mode (recovered se now fs f) = f_mode f"
  using recovered_same [of se now fs f] by (simp_all add: same_row_def)

text \<open>The rows a listing names, with their keys.\<close>

definition lists_rows :: "(uuid \<times> string) list \<Rightarrow> artifact_state set \<Rightarrow> artifact list \<Rightarrow> bool" where
  "lists_rows xs states t \<longleftrightarrow> distinct (map fst xs) \<and>
     (\<forall>(i, k)\<in>set xs. \<exists>f\<in>set t. f_id f = i \<and> f_key f = Some k \<and> f_mode f = MANAGED \<and> f_state f \<in> states)"

lemma lists_rowsE:
  assumes "lists_rows xs states t" and "(i, k) \<in> set xs"
  obtains f where "f \<in> set t" "f_id f = i" "f_key f = Some k" "f_mode f = MANAGED" "f_state f \<in> states"
  using assms unfolding lists_rows_def by blast

lemma lists_rows_later:
  assumes "lists_rows (x # xs) states t" and "\<And>f. f \<in> set t \<Longrightarrow> f_id f \<noteq> fst x \<Longrightarrow> v f = f"
  shows "lists_rows xs states (map v t)"
proof -
  have "\<exists>f\<in>set (map v t). f_id f = i \<and> f_key f = Some k \<and> f_mode f = MANAGED \<and> f_state f \<in> states" if m: "(i, k) \<in> set xs" for i k
  proof -
    have "(i, k) \<in> set (x # xs)" using m by simp
    then obtain f where f: "f \<in> set t" "f_id f = i" "f_key f = Some k" "f_mode f = MANAGED" "f_state f \<in> states"
      by (rule lists_rowsE [OF assms(1)])
    have "i \<noteq> fst x" using assms(1) m by (force simp: lists_rows_def)
    then have "v f = f" using f assms(2) by simp
    moreover have "v f \<in> set (map v t)" using f(1) by simp
    ultimately show ?thesis using f by (intro bexI [of _ f]) simp_all
  qed
  with assms(1) show ?thesis by (auto simp: lists_rows_def)
qed

lemma managed_in_lists:
  assumes "artifacts_ok (artifacts d)"
  shows "lists_rows (managed_in states d) (set states) (artifacts d)"
    and "fst ` set (managed_in states d) = f_id ` {f \<in> set (artifacts d). f_mode f = MANAGED \<and> f_state f \<in> set states}"
proof -
  let ?rows = "filter (\<lambda>f. f_mode f = MANAGED \<and> f_state f \<in> set states) (artifacts d)"
  have "distinct (map f_id ?rows)"
    using assms tab_keyed_filter [of f_id "artifacts d"] by (simp add: artifacts_ok_def tab_keyed_def)
  then have "inj_on f_id (set ?rows)" "distinct ?rows" by (auto simp: distinct_map)
  then have "distinct (map f_id (sort_key (\<lambda>f. (f_created f, f_id f)) ?rows))" by (simp add: distinct_map)
  moreover have "map fst (managed_in states d) = map f_id (sort_key (\<lambda>f. (f_created f, f_id f)) ?rows)"
    by (simp add: managed_in_def comp_def)
  ultimately have "distinct (map fst (managed_in states d))" by metis
  moreover have "\<exists>f\<in>set (artifacts d). f_id f = i \<and> f_key f = Some k \<and> f_mode f = MANAGED \<and> f_state f \<in> set states"
    if "(i, k) \<in> set (managed_in states d)" for i k
  proof -
    have "(i, k) \<in> (\<lambda>f. (f_id f, the (f_key f))) ` {f \<in> set (artifacts d). f_mode f = MANAGED \<and> f_state f \<in> set states}"
      using that by (simp add: managed_in_def)
    then obtain f where "(i, k) = (f_id f, the (f_key f))"
        "f \<in> {f \<in> set (artifacts d). f_mode f = MANAGED \<and> f_state f \<in> set states}" by (elim imageE)
    then have f: "f \<in> set (artifacts d)" "f_mode f = MANAGED" "f_state f \<in> set states" "i = f_id f" "k = the (f_key f)"
      by simp_all
    then have "f_key f \<noteq> None" using assms unfolding artifacts_ok_def by blast
    with f show ?thesis by (intro bexI [of _ f]) auto
  qed
  ultimately show "lists_rows (managed_in states d) (set states) (artifacts d)"
    by (auto simp: lists_rows_def)
  show "fst ` set (managed_in states d) = f_id ` {f \<in> set (artifacts d). f_mode f = MANAGED \<and> f_state f \<in> set states}"
    by (force simp: managed_in_def)
qed

lemma recover_pending_rows:
  assumes "recover_pending se now xs rr d fs = (rr', d')"
    and "artifacts_ok (artifacts d)" and "lists_rows xs {A_PENDING} (artifacts d)"
  shows "d' = d\<lparr>artifacts := map (\<lambda>f. if f_id f \<in> fst ` set xs then recovered se now fs f else f) (artifacts d)\<rparr>"
  using assms
proof (induction xs arbitrary: rr d)
  case Nil
  then show ?case by simp
next
  case (Cons x xs)
  obtain i key where x: "x = (i, key)" by fastforce
  obtain f where f: "f \<in> set (artifacts d)" "f_id f = i" "f_key f = Some key" "f_mode f = MANAGED" "f_state f = A_PENDING"
    using Cons.prems(3) by (auto simp: x lists_rows_def)
  define d1 where "d1 = d\<lparr>artifacts := map (\<lambda>g. if f_id g = i then recovered se now fs g else g) (artifacts d)\<rparr>"
  have rec: "recovered se now fs f = (case digest se key fs of Inl _ \<Rightarrow> f
      | Inr (Some b) \<Rightarrow> f\<lparr>f_state := A_AVAILABLE, f_sha := Some (fst b), f_size := Some (snd b),
          f_available := Some now, f_code := None, f_detail := None\<rparr>
      | Inr None \<Rightarrow> f\<lparr>f_state := A_MISSING, f_code := Some ''WRITE_NOT_COMPLETED'',
          f_detail := Some (take 500 ''interrupted before finalization'')\<rparr>)"
    by (simp add: recovered_def f)
  have at: "map (\<lambda>g. if f_id g = i then v g else g) (artifacts d) =
      map (\<lambda>g. if f_id g = i then recovered se now fs g else g) (artifacts d)" if "v f = recovered se now fs f" for v
    by (rule map_cong) (use that f artifacts_ok_same [OF Cons.prems(2)] in auto)
  have row: "keep (transition_artifact i [A_PENDING] MANAGED (\<lambda>_. True) v d) d = d1" if "v f = recovered se now fs f" for v
    using transition_artifact_row [OF f(1) Cons.prems(2) f(4), of "[A_PENDING]" v] at [of v, OF that] f(5)
    by (simp add: f(2) d1_def)
  obtain rr1 where run: "recover_pending se now xs rr1 d1 fs = (rr', d')"
  proof (cases "digest se key fs")
    case (Inl e)
    have "d1 = d" using at [of "\<lambda>g. g"] by (simp add: d1_def rec Inl)
    with Inl Cons.prems(1) that show ?thesis by (simp add: x)
  next
    case (Inr found)
    show ?thesis
    proof (cases found)
      case None
      have "keep (mark_write_not_completed i ''interrupted before finalization'' d) d = d1"
        unfolding mark_write_not_completed_def
        by (rule row) (simp add: rec Inr None)
      with Inr None Cons.prems(1) that show ?thesis by (simp add: x)
    next
      case (Some b)
      have "keep (mark_artifact_available i b now d) d = d1"
        unfolding mark_artifact_available_def
        by (rule row) (simp add: rec Inr Some)
      with Inr Some Cons.prems(1) that show ?thesis by (simp add: x)
    qed
  qed
  have ok: "artifacts_ok (artifacts d1)"
    unfolding d1_def by (simp, rule artifacts_ok_map [OF Cons.prems(2)]) (simp add: same_row_def)
  have "lists_rows xs {A_PENDING} (artifacts d1)"
    unfolding d1_def by (simp, rule lists_rows_later [OF Cons.prems(3)]) (simp add: x)
  note d' = Cons.IH [OF run ok this]
  have "i \<notin> fst ` set xs" using Cons.prems(3) by (auto simp: x lists_rows_def)
  then have "(\<lambda>g. if f_id g \<in> fst ` set xs then recovered se now fs g else g) \<circ> (\<lambda>g. if f_id g = i then recovered se now fs g else g)
      = (\<lambda>g. if f_id g \<in> fst ` set (x # xs) then recovered se now fs g else g)" by (auto simp: x fun_eq_iff)
  then show ?case unfolding d' by (simp add: d1_def)
qed

lemma recover_deleting_rows:
  assumes "recover_deleting se now xs rr d fs = (rr', d', fs')"
    and "artifacts_ok (artifacts d)" and "lists_rows xs {A_DELETING, A_DELETE_FAILED} (artifacts d)"
    and "\<forall>(i, k)\<in>set xs. final_entry fs k = final_entry fs0 k"
  shows "d' = d\<lparr>artifacts := map (\<lambda>f. if f_id f \<in> fst ` set xs then recovered se now fs0 f else f) (artifacts d)\<rparr> \<and>
    (\<forall>k. final_entry fs' k = (if k \<in> snd ` set xs \<and> \<not> isl (delete_bytes se k fs0) then None else final_entry fs k)) \<and>
    mf_root fs' = mf_root fs \<and> mf_staging fs' = mf_staging fs"
  using assms
proof (induction xs arbitrary: rr d fs)
  case Nil
  then show ?case by simp
next
  case (Cons x xs)
  obtain i key where x: "x = (i, key)" by fastforce
  obtain f where f: "f \<in> set (artifacts d)" "f_id f = i" "f_key f = Some key" "f_mode f = MANAGED"
      "f_state f \<in> {A_DELETING, A_DELETE_FAILED}"
    using Cons.prems(3) by (auto simp: x lists_rows_def)
  define d1 where "d1 = d\<lparr>artifacts := map (\<lambda>g. if f_id g = i then recovered se now fs0 g else g) (artifacts d)\<rparr>"
  define fs1 where "fs1 = (if isl (delete_bytes se key fs0) then fs else remove_final key fs)"
  have same: "map_sum id (\<lambda>_. ()) (delete_bytes se key fs) = map_sum id (\<lambda>_. ()) (delete_bytes se key fs0)"
    using Cons.prems(4) by (intro delete_bytes_same) (auto simp: x)
  have rec: "recovered se now fs0 f = (case delete_bytes se key fs0 of
        Inl (OsError e) \<Rightarrow> f\<lparr>f_state := A_DELETE_FAILED, f_code := Some ''DELETE_ERROR'', f_detail := Some (take 500 e)\<rparr>
      | Inl _ \<Rightarrow> f
      | Inr _ \<Rightarrow> f\<lparr>f_state := A_DELETED, f_deleted := Some now, f_code := None, f_detail := None\<rparr>)"
    using f(5) by (auto simp: recovered_def f(3,4))
  have at: "map (\<lambda>g. if f_id g = i then v g else g) (artifacts d) =
      map (\<lambda>g. if f_id g = i then recovered se now fs0 g else g) (artifacts d)" if "v f = recovered se now fs0 f" for v
    by (rule map_cong) (use that f artifacts_ok_same [OF Cons.prems(2)] in auto)
  have row: "keep (transition_artifact i [A_DELETING, A_DELETE_FAILED] MANAGED (\<lambda>_. True) v d) d = d1"
    if "v f = recovered se now fs0 f" for v
    using transition_artifact_row [OF f(1) Cons.prems(2) f(4), of "[A_DELETING, A_DELETE_FAILED]" v] at [of v, OF that] f(5)
    by (simp add: f(2) d1_def)
  obtain rr1 where run: "recover_deleting se now xs rr1 d1 fs1 = (rr', d', fs')"
  proof (cases "delete_bytes se key fs")
    case (Inr fs2)
    then obtain u where u: "delete_bytes se key fs0 = Inr u" using same by (cases "delete_bytes se key fs0") auto
    have "keep (finalize_artifact_deletion i now d) d = d1"
      unfolding finalize_artifact_deletion_def by (rule row) (simp add: rec u)
    moreover have "fs2 = fs1" using delete_bytes_Inr [OF Inr] by (simp add: fs1_def u)
    ultimately show ?thesis using Inr Cons.prems(1) that by (simp add: x)
  next
    case (Inl e)
    then have u: "delete_bytes se key fs0 = Inl e" using same by (cases "delete_bytes se key fs0") auto
    have fs: "fs1 = fs" by (simp add: fs1_def u)
    show ?thesis
    proof (cases "\<exists>m. e = OsError m")
      case True
      then obtain m where m: "e = OsError m" by blast
      have "keep (record_delete_failure i m d) d = d1"
        unfolding record_delete_failure_def by (rule row) (simp add: rec u m)
      with Inl m fs Cons.prems(1) that show ?thesis by (simp add: x)
    next
      case False
      have "recovered se now fs0 f = f" using False by (cases e) (auto simp: rec u)
      then have "d1 = d" using at [of "\<lambda>g. g"] by (simp add: d1_def)
      with Inl False fs Cons.prems(1) that show ?thesis by (cases e) (auto simp: x)
    qed
  qed
  have ok: "artifacts_ok (artifacts d1)"
    unfolding d1_def by (simp, rule artifacts_ok_map [OF Cons.prems(2)]) (simp add: same_row_def)
  have other: "i \<notin> fst ` set xs" using Cons.prems(3) by (auto simp: x lists_rows_def)
  have lists: "lists_rows xs {A_DELETING, A_DELETE_FAILED} (artifacts d1)"
    unfolding d1_def by (simp, rule lists_rows_later [OF Cons.prems(3)]) (simp add: x)
  have keys: "k \<noteq> key" if "(j, k) \<in> set xs" for j k
  proof
    assume "k = key"
    have "(j, k) \<in> set (x # xs)" using that by simp
    then obtain g where g: "g \<in> set (artifacts d)" "f_id g = j" "f_key g = Some k"
      by (rule lists_rowsE [OF Cons.prems(3)])
    have "g = f" using artifacts_ok_key [OF Cons.prems(2) g(1) f(1) g(3)] f(3) \<open>k = key\<close> by simp
    with g f other that show False by force
  qed
  have ent: "\<forall>(j, k)\<in>set xs. final_entry fs1 k = final_entry fs0 k"
    using Cons.prems(4) keys by (fastforce simp: x fs1_def)
  note IH = Cons.IH [OF run ok lists ent]
  have "d' = d\<lparr>artifacts := map (\<lambda>f. if f_id f \<in> fst ` set (x # xs) then recovered se now fs0 f else f) (artifacts d)\<rparr>"
  proof -
    have "(\<lambda>g. if f_id g \<in> fst ` set xs then recovered se now fs0 g else g) \<circ> (\<lambda>g. if f_id g = i then recovered se now fs0 g else g)
        = (\<lambda>g. if f_id g \<in> fst ` set (x # xs) then recovered se now fs0 g else g)" using other by (auto simp: x fun_eq_iff)
    then show ?thesis unfolding conjunct1 [OF IH] by (simp add: d1_def)
  qed
  moreover have "final_entry fs' k = (if k \<in> snd ` set (x # xs) \<and> \<not> isl (delete_bytes se k fs0) then None else final_entry fs k)" for k
    using conjunct1 [OF conjunct2 [OF IH]] by (auto simp: x fs1_def)
  moreover have "mf_root fs' = mf_root fs \<and> mf_staging fs' = mf_staging fs"
    using conjunct2 [OF conjunct2 [OF IH]] by (auto simp: fs1_def remove_final_def)
  ultimately show ?case by blast
qed

lemma clear_staging_files:
  assumes "clear_staging se settled ns rr fs = (rr', fs')"
  shows "mf_final fs' = mf_final fs \<and> (\<forall>x\<in>set (mf_staging fs). x \<in> set (mf_staging fs') \<or> fst x \<in> set settled)"
  using assms
proof (induction ns arbitrary: rr fs)
  case Nil
  then show ?case by simp
next
  case (Cons n ns)
  show ?case
  proof (cases "n \<notin> set settled \<or> se_locked se n")
    case True
    with Cons.IH [of "rr\<lparr>rr_left := rr_left rr @ [n]\<rparr>" fs] Cons.prems show ?thesis by simp
  next
    case False
    with Cons.IH [of "rr\<lparr>rr_removed := rr_removed rr @ [n]\<rparr>" "remove_staged n fs"] Cons.prems
    show ?thesis by (fastforce simp: remove_staged_def)
  qed
qed

lemma settled_staging_owned:
  assumes "n \<in> set (settled_staging se d ns)"
  shows "\<exists>f\<in>set (artifacts d). f_mode f = MANAGED \<and> f_state f \<noteq> A_PENDING \<and> se_uuid se (staging_stem n) = Some (f_id f)"
proof -
  let ?xs = "concat (map (\<lambda>n. case se_uuid se (staging_stem n) of None \<Rightarrow> [] | Some i \<Rightarrow> [(i, n)]) ns)"
  have owned: "se_uuid se (staging_stem n) = Some i" if "map_of (rev ?xs) i = Some n" for i
    using map_of_SomeD [OF that] by (auto split: option.split_asm)
  from assms obtain f where "f \<in> set (artifacts d)" "f_mode f = MANAGED" "f_state f \<noteq> A_PENDING"
      "map_of (rev ?xs) (f_id f) = Some n"
    by (auto simp: settled_staging_def Let_def split: if_split_asm option.split_asm)
  with owned show ?thesis by blast
qed

text \<open>Recovery as one change of every row.\<close>

lemma recover_artifacts_rows:
  assumes "recover_artifacts se now d fs = (rr, d', fs')" and "artifacts_ok (artifacts d)"
  shows "d' = d\<lparr>artifacts := map (recovered se now fs) (artifacts d)\<rparr>"
    and "final_entry fs' k = (if recovery_deletes se fs (artifacts d) k then None else final_entry fs k)"
    and "x \<in> set (mf_staging fs) \<Longrightarrow> x \<in> set (mf_staging fs') \<or>
      (\<exists>f\<in>set (artifacts d'). f_mode f = MANAGED \<and> f_state f \<noteq> A_PENDING \<and> se_uuid se (staging_stem (fst x)) = Some (f_id f))"
proof -
  let ?t = "artifacts d" and ?gone = "[A_DELETING, A_DELETE_FAILED]"
  obtain rr1 d1 where p: "recover_pending se now (managed_in [A_PENDING] d) empty_recovery d fs = (rr1, d1)" by fastforce
  obtain rr2 d2 fs2 where q: "recover_deleting se now (managed_in ?gone d) rr1 d1 fs = (rr2, d2, fs2)"
    by (rule prod_cases3)
  obtain rr3 fs3 where c: "clear_staging se (settled_staging se d2 (staging_files fs2)) (staging_files fs2) rr2 fs2 = (rr3, fs3)"
    by fastforce
  have run: "d' = d2" "fs' = fs3" using assms(1) by (simp_all add: recover_artifacts_def p q c)
  define one where "one = (\<lambda>f. if f_id f \<in> fst ` set (managed_in [A_PENDING] d) then recovered se now fs f else f)"
  have "lists_rows (managed_in [A_PENDING] d) {A_PENDING} ?t"
    using managed_in_lists(1) [OF assms(2), of "[A_PENDING]"] by simp
  from recover_pending_rows [OF p assms(2) this]
  have d1: "d1 = d\<lparr>artifacts := map one ?t\<rparr>" by (simp add: one_def)
  have listed: "f_id f \<in> fst ` set (managed_in states d) \<longleftrightarrow> f_mode f = MANAGED \<and> f_state f \<in> set states"
    if "f \<in> set ?t" for f states
    unfolding managed_in_lists(2) [OF assms(2)] using artifacts_ok_same [OF assms(2) that] that by force
  have ok1: "artifacts_ok (artifacts d1)"
    unfolding d1 by (simp, rule artifacts_ok_map [OF assms(2)]) (simp add: one_def same_row_def)
  have "\<exists>g\<in>set (artifacts d1). f_id g = i \<and> f_key g = Some k \<and> f_mode g = MANAGED \<and> f_state g \<in> {A_DELETING, A_DELETE_FAILED}"
    if m: "(i, k) \<in> set (managed_in ?gone d)" for i k
  proof -
    obtain f where f: "f \<in> set ?t" "f_id f = i" "f_key f = Some k" "f_mode f = MANAGED" "f_state f \<in> set ?gone"
      by (rule lists_rowsE [OF managed_in_lists(1) [OF assms(2)] m])
    have "one f = f" using listed [OF f(1), of "[A_PENDING]"] f(5) by (auto simp: one_def)
    moreover have "one f \<in> set (artifacts d1)" using f(1) by (simp add: d1)
    ultimately show ?thesis using f by auto
  qed
  then have lists1: "lists_rows (managed_in ?gone d) {A_DELETING, A_DELETE_FAILED} (artifacts d1)"
    using managed_in_lists(1) [OF assms(2), of ?gone] unfolding lists_rows_def by blast
  have "\<forall>(i, k)\<in>set (managed_in ?gone d). final_entry fs k = final_entry fs k" by auto
  note del = recover_deleting_rows [OF q ok1 lists1 this]
  have row: "(if f_id (one f) \<in> fst ` set (managed_in ?gone d) then recovered se now fs (one f) else one f) = recovered se now fs f"
    if "f \<in> set ?t" for f
  proof -
    have "recovered se now fs f = f" if "\<not> (f_mode f = MANAGED \<and> f_state f \<in> {A_PENDING, A_DELETING, A_DELETE_FAILED})"
      using that by (auto simp: recovered_def)
    then show ?thesis
      using listed [OF that, of "[A_PENDING]"] listed [OF that, of ?gone] by (auto simp: one_def)
  qed
  have d2: "d2 = d\<lparr>artifacts := map (recovered se now fs) ?t\<rparr>"
    unfolding conjunct1 [OF del] using row by (simp add: d1)
  then show "d' = d\<lparr>artifacts := map (recovered se now fs) (artifacts d)\<rparr>" by (simp add: run)
  have keys: "k \<in> snd ` set (managed_in ?gone d) \<longleftrightarrow>
      (\<exists>f\<in>set ?t. f_mode f = MANAGED \<and> f_state f \<in> set ?gone \<and> f_key f = Some k)" for k
  proof
    assume "k \<in> snd ` set (managed_in ?gone d)"
    then obtain i where "(i, k) \<in> set (managed_in ?gone d)" by force
    from lists_rowsE [OF managed_in_lists(1) [OF assms(2)] this]
    show "\<exists>f\<in>set ?t. f_mode f = MANAGED \<and> f_state f \<in> set ?gone \<and> f_key f = Some k" by metis
  next
    assume "\<exists>f\<in>set ?t. f_mode f = MANAGED \<and> f_state f \<in> set ?gone \<and> f_key f = Some k"
    then show "k \<in> snd ` set (managed_in ?gone d)" by (force simp: managed_in_def)
  qed
  have staging: "mf_staging fs2 = mf_staging fs" and final: "mf_final fs3 = mf_final fs2"
    using del clear_staging_files [OF c] by blast+
  have "final_entry fs2 k = (if recovery_deletes se fs ?t k then None else final_entry fs k)"
    using conjunct1 [OF conjunct2 [OF del]] keys [of k] by (auto simp: recovery_deletes_def list_ex_iff)
  then show "final_entry fs' k = (if recovery_deletes se fs (artifacts d) k then None else final_entry fs k)"
    by (simp add: run final_entry_def final)
  show "x \<in> set (mf_staging fs') \<or>
      (\<exists>f\<in>set (artifacts d'). f_mode f = MANAGED \<and> f_state f \<noteq> A_PENDING \<and> se_uuid se (staging_stem (fst x)) = Some (f_id f))"
    if "x \<in> set (mf_staging fs)"
    using that clear_staging_files [OF c] settled_staging_owned [of "fst x" se d2] unfolding run staging by metis
qed

text \<open>A system that refuses nothing: keys in their directories, files readable and deletable.\<close>

definition nothing_refused :: "store_env \<Rightarrow> managed_files \<Rightarrow> artifact list \<Rightarrow> bool" where
  "nothing_refused se fs t \<longleftrightarrow> list_all (\<lambda>f. f_mode f = MANAGED \<longrightarrow>
     (case f_key f of None \<Rightarrow> False
      | Some k \<Rightarrow> is_storage_key k \<and> \<not> se_escapes se k \<and> \<not> se_unreadable se k \<and> \<not> se_undeletable se k \<and>
          final_entry fs k \<noteq> Some NotAFile)) t"

definition unsettled :: "artifact \<Rightarrow> bool" where
  "unsettled f \<longleftrightarrow> f_mode f = MANAGED \<and> f_state f \<in> {A_PENDING, A_DELETING, A_DELETE_FAILED}"

lemma recovered_settles:
  assumes "nothing_refused se fs t" and "f \<in> set t"
  shows "\<not> unsettled (recovered se now fs f)"
proof (cases "unsettled f")
  case True
  then obtain k where k: "f_key f = Some k" "is_storage_key k" "\<not> se_escapes se k" "\<not> se_unreadable se k"
      "\<not> se_undeletable se k" "final_entry fs k \<noteq> Some NotAFile"
    using assms by (auto simp: nothing_refused_def list_all_iff unsettled_def split: option.split_asm)
  have "final_entry fs k = None \<or> (\<exists>b. final_entry fs k = Some (File b))"
    using k(6) by (metis managed_entry.exhaust option.exhaust)
  with k(2-5) obtain found fs' where "digest se k fs = Inr found" "delete_bytes se k fs = Inr fs'"
    by (auto simp: digest_def delete_bytes_def path_for_def)
  with k(1) True show ?thesis by (cases found) (auto simp: recovered_def unsettled_def)
next
  case False
  then have "recovered se now fs f = f" by (auto simp: recovered_def unsettled_def)
  with False show ?thesis by simp
qed

text \<open>
  Startup recovery settles every interrupted write and deletion, each row for itself. Whatever the
  system refuses: a PENDING row becomes AVAILABLE with the digest of the whole file at its key, or
  MISSING when there is none; an intended deletion is finished, with the file gone, or recorded as
  failed; a row whose key or file cannot be examined, and every other row and file, is left as it is;
  a staging file is removed only if its name is the id of a managed artifact that is settled. When
  the system refuses nothing no row is left unsettled, and recovering again changes no row.
\<close>

theorem recovery_settles_each_row:
  assumes "artifacts_ok (artifacts d)" and "recover_artifacts se now d fs = (rr, d', fs')"
  shows "d' = d\<lparr>artifacts := map (recovered se now fs) (artifacts d)\<rparr> \<and>
    (\<forall>k. final_entry fs' k = (if recovery_deletes se fs (artifacts d) k then None else final_entry fs k)) \<and>
    (\<forall>x\<in>set (mf_staging fs) - set (mf_staging fs'). \<exists>f\<in>set (artifacts d').
       f_mode f = MANAGED \<and> f_state f \<noteq> A_PENDING \<and> se_uuid se (staging_stem (fst x)) = Some (f_id f)) \<and>
    (nothing_refused se fs (artifacts d) \<longrightarrow> (\<forall>f\<in>set (artifacts d'). \<not> unsettled f) \<and>
       (\<forall>se2 now2. fst (snd (recover_artifacts se2 now2 d' fs')) = d'))"
proof (intro conjI impI)
  note rows = recover_artifacts_rows [OF assms(2,1)]
  show d': "d' = d\<lparr>artifacts := map (recovered se now fs) (artifacts d)\<rparr>" by (rule rows(1))
  show "\<forall>k. final_entry fs' k = (if recovery_deletes se fs (artifacts d) k then None else final_entry fs k)"
    using rows(2) by blast
  show "\<forall>x\<in>set (mf_staging fs) - set (mf_staging fs'). \<exists>f\<in>set (artifacts d').
       f_mode f = MANAGED \<and> f_state f \<noteq> A_PENDING \<and> se_uuid se (staging_stem (fst x)) = Some (f_id f)"
    using rows(3) by blast
  assume "nothing_refused se fs (artifacts d)"
  then show settled: "\<forall>f\<in>set (artifacts d'). \<not> unsettled f"
    unfolding d' using recovered_settles by fastforce
  have ok: "artifacts_ok (artifacts d')"
    unfolding d' by (simp, rule artifacts_ok_map [OF assms(1)]) simp
  have still: "map (recovered se2 now2 fs') (artifacts d') = artifacts d'" for se2 now2
    by (rule map_idI) (use settled in \<open>auto simp: recovered_def unsettled_def\<close>)
  show "\<forall>se2 now2. fst (snd (recover_artifacts se2 now2 d' fs')) = d'"
  proof (intro allI)
    fix se2 now2
    obtain rr2 d2 fs2 where again: "recover_artifacts se2 now2 d' fs' = (rr2, d2, fs2)" by (rule prod_cases3)
    show "fst (snd (recover_artifacts se2 now2 d' fs')) = d'"
      using recover_artifacts_rows(1) [OF again ok] by (simp add: again still)
  qed
qed

section \<open>Every protocol as steps\<close>

text \<open>
  What any part of the program, or a crash in it, may do to the rows and the files at a time: reserve,
  write, record the outcome, intend, remove, record. \<open>dg\<close> is SHA-256.
\<close>

inductive storage_step :: "(byte list \<Rightarrow> byte list) \<Rightarrow> db \<times> managed_files \<Rightarrow> db \<times> managed_files \<Rightarrow> bool"
  for dg where
  reserving: "reserve_managed_artifact kind meta i now d = Inr (f, d') \<Longrightarrow> storage_step dg (d, fs) (d', fs)"
| storing: "se_digest se = dg \<Longrightarrow> f \<in> set (artifacts d) \<Longrightarrow> f_mode f = MANAGED \<Longrightarrow> f_state f = A_PENDING \<Longrightarrow>
    f_key f = Some key \<Longrightarrow> store_file se fault key b fs = (r, fs') \<Longrightarrow> storage_step dg (d, fs) (d, fs')"
| staging: "mf_final fs' = mf_final fs \<Longrightarrow> storage_step dg (d, fs) (d, fs')"
| finishing: "tab_get f_id (artifacts d) i = Some f \<Longrightarrow> f_key f = Some key \<Longrightarrow> final_entry fs key = Some (File b) \<Longrightarrow>
    mark_artifact_available i (dg b, int (length b)) now d = Inr d' \<Longrightarrow> storage_step dg (d, fs) (d', fs)"
| failing: "mark_write_not_completed i detail d = Inr d' \<Longrightarrow> storage_step dg (d, fs) (d', fs)"
| requesting: "request_artifact_deletion unreferenced i now d = Inr d' \<Longrightarrow> storage_step dg (d, fs) (d', fs)"
| abandoning: "abandon_artifact i now d = Inr d' \<Longrightarrow> storage_step dg (d, fs) (d', fs)"
| removing: "f \<in> set (artifacts d) \<Longrightarrow> f_mode f = MANAGED \<Longrightarrow> f_state f \<in> {A_DELETING, A_DELETE_FAILED, A_DELETED} \<Longrightarrow>
    f_key f = Some key \<Longrightarrow> delete_bytes se key fs = Inr fs' \<Longrightarrow> storage_step dg (d, fs) (d, fs')"
| finalizing: "tab_get f_id (artifacts d) i = Some f \<Longrightarrow> f_key f = Some key \<Longrightarrow> final_entry fs key = None \<Longrightarrow>
    finalize_artifact_deletion i now d = Inr d' \<Longrightarrow> storage_step dg (d, fs) (d', fs)"
| giving_up: "record_delete_failure i e d = Inr d' \<Longrightarrow> storage_step dg (d, fs) (d', fs)"
| losing: "mark_each_missing code mode is d = (js, d') \<Longrightarrow> storage_step dg (d, fs) (d', fs)"
| returning: "se_digest se = dg \<Longrightarrow> reverify_managed_artifact se i d fs = Inr (st, d') \<Longrightarrow> storage_step dg (d, fs) (d', fs)"

text \<open>The rows and the files agree.\<close>

definition row_backed :: "(byte list \<Rightarrow> byte list) \<Rightarrow> managed_files \<Rightarrow> artifact \<Rightarrow> bool" where
  "row_backed dg fs f \<longleftrightarrow> f_mode f = MANAGED \<longrightarrow>
     (f_state f = A_AVAILABLE \<longrightarrow> (\<exists>b. final_entry fs (the (f_key f)) = Some (File b) \<and>
        f_sha f = Some (dg b) \<and> f_size f = Some (int (length b)))) \<and>
     (f_state f = A_DELETED \<longrightarrow> final_entry fs (the (f_key f)) = None)"

definition storage_ok :: "(byte list \<Rightarrow> byte list) \<Rightarrow> db \<times> managed_files \<Rightarrow> bool" where
  "storage_ok dg s \<longleftrightarrow> artifacts_ok (artifacts (fst s)) \<and> (\<forall>f\<in>set (artifacts (fst s)). row_backed dg (snd s) f) \<and>
     (\<forall>k. final_entry (snd s) k \<noteq> None \<longrightarrow> (\<exists>f\<in>set (artifacts (fst s)). f_mode f = MANAGED \<and> f_key f = Some k))"

lemma storage_ok_rows:
  assumes "storage_ok dg (d, fs)" and "artifacts d' = map v (artifacts d)"
    and "\<And>f. f \<in> set (artifacts d) \<Longrightarrow> same_row (v f) f \<and> (row_backed dg fs f \<longrightarrow> row_backed dg fs (v f))"
  shows "storage_ok dg (d', fs)"
proof -
  have "artifacts_ok (artifacts d')" unfolding assms(2)
    by (rule artifacts_ok_map) (use assms(1,3) in \<open>auto simp: storage_ok_def\<close>)
  moreover have "\<exists>f\<in>set (artifacts d'). f_mode f = MANAGED \<and> f_key f = Some k" if k: "final_entry fs k \<noteq> None" for k
  proof -
    obtain f where "f \<in> set (artifacts d)" "f_mode f = MANAGED" "f_key f = Some k"
      using assms(1) k unfolding storage_ok_def by auto
    with assms(3) [of f] show ?thesis by (auto simp: assms(2) same_row_def)
  qed
  ultimately show ?thesis using assms(1,3) by (simp add: storage_ok_def assms(2))
qed

lemma storage_ok_transition:
  assumes "storage_ok dg (d, fs)" and "transition_artifact i from mode extra v d = Inr d'"
    and "\<And>f. f \<in> set (artifacts d) \<Longrightarrow> f_id f = i \<Longrightarrow> same_row (v f) f \<and> row_backed dg fs (v f)"
  shows "storage_ok dg (d', fs)"
proof (rule storage_ok_rows [OF assms(1)])
  let ?v = "\<lambda>f. if f_id f = i \<and> f_mode f = mode \<and> f_state f \<in> set from \<and> extra f then v f else f"
  show "artifacts d' = map ?v (artifacts d)" using transition_artifact_Inr(1) [OF assms(2)] by simp
  show "same_row (?v f) f \<and> (row_backed dg fs f \<longrightarrow> row_backed dg fs (?v f))" if "f \<in> set (artifacts d)" for f
    using assms(3) [OF that] by (simp add: same_row_def)
qed

text \<open>A file that appears at a pending row's key, or goes with a deletion.\<close>

lemma storage_ok_files:
  assumes "storage_ok dg (d, fs)" and "f \<in> set (artifacts d)" "f_mode f = MANAGED" "f_key f = Some key"
    and "\<And>k. k \<noteq> key \<Longrightarrow> final_entry fs' k = final_entry fs k"
    and "f_state f \<noteq> A_AVAILABLE" and "f_state f = A_DELETED \<Longrightarrow> final_entry fs' key = None"
  shows "storage_ok dg (d, fs')"
proof -
  have ok: "artifacts_ok (artifacts d)" using assms(1) by (simp add: storage_ok_def)
  have "row_backed dg fs' g" if g: "g \<in> set (artifacts d)" for g
  proof (cases "g = f")
    case True
    with assms(4,6,7) show ?thesis by (simp add: row_backed_def)
  next
    case False
    have "f_key g \<noteq> Some key" using artifacts_ok_key [OF ok g assms(2) _ assms(4)] False by blast
    moreover have "f_mode g = MANAGED \<Longrightarrow> f_key g \<noteq> None" using ok g unfolding artifacts_ok_def by blast
    moreover have "row_backed dg fs g" using assms(1) g by (simp add: storage_ok_def)
    ultimately show ?thesis using assms(5) [of "the (f_key g)"] by (auto simp: row_backed_def)
  qed
  moreover have "\<exists>f\<in>set (artifacts d). f_mode f = MANAGED \<and> f_key f = Some k" if "final_entry fs' k \<noteq> None" for k
  proof (cases "k = key")
    case True
    with assms(2-4) show ?thesis by blast
  next
    case False
    with that assms(1,5) show ?thesis by (simp add: storage_ok_def)
  qed
  ultimately show ?thesis using ok by (simp add: storage_ok_def)
qed

lemma mark_each_missing_rows:
  "mark_each_missing code mode is d = (js, d') \<Longrightarrow>
     \<exists>v. artifacts d' = map v (artifacts d) \<and>
       (\<forall>f. v f = f \<or> (f_state f = A_AVAILABLE \<and> f_state (v f) = A_MISSING \<and> same_row (v f) f))"
proof (induction "is" arbitrary: d js)
  case Nil
  then show ?case by (intro exI [of _ "\<lambda>f. f"]) simp
next
  case (Cons i "is")
  let ?lost = "\<lambda>f. f\<lparr>f_state := A_MISSING, f_code := Some code, f_detail := None\<rparr>"
  show ?case
  proof (cases "transition_artifact i [A_AVAILABLE] mode (\<lambda>_. True) ?lost d")
    case (Inl e)
    with Cons show ?thesis by simp
  next
    case (Inr d1)
    obtain js1 where "mark_each_missing code mode is d1 = (js1, d')"
      using Cons.prems by (auto simp: Inr split: prod.split_asm)
    from Cons.IH [OF this] obtain v where v: "artifacts d' = map v (artifacts d1)"
        "\<forall>f. v f = f \<or> (f_state f = A_AVAILABLE \<and> f_state (v f) = A_MISSING \<and> same_row (v f) f)" by blast
    let ?w = "\<lambda>f. if f_id f = i \<and> f_mode f = mode \<and> f_state f \<in> set [A_AVAILABLE] then ?lost f else f"
    have "artifacts d' = map (\<lambda>f. v (?w f)) (artifacts d)"
      using v(1) transition_artifact_Inr(1) [OF Inr] by (simp add: comp_def)
    moreover have "v (?w f) = f \<or> (f_state f = A_AVAILABLE \<and> f_state (v (?w f)) = A_MISSING \<and> same_row (v (?w f)) f)" for f
      using v(2) [rule_format, of "?w f"] by (auto simp: same_row_def)
    ultimately show ?thesis by (intro exI [of _ "\<lambda>f. v (?w f)"]) blast
  qed
qed

lemma storage_ok_get: "storage_ok dg (d, fs) \<Longrightarrow> f \<in> set (artifacts d) \<Longrightarrow> tab_get f_id (artifacts d) (f_id f) = Some f"
  by (rule tab_get_in) (simp_all add: storage_ok_def artifacts_ok_def)

lemma reserve_keeps_storage:
  assumes "storage_ok dg (d, fs)" and "reserve_managed_artifact kind meta i now d = Inr (f, d')"
  shows "storage_ok dg (d', fs)"
    and "artifacts d' = artifacts d @ [f]" "f_id f = i" "f_mode f = MANAGED" "f_state f = A_PENDING" "f_key f \<noteq> None"
proof -
  obtain key where k: "storage_key_for kind i = Inr key" "tab_get f_id (artifacts d) i = None"
      "\<forall>g\<in>set (artifacts d). f_key g \<noteq> Some key"
    and f: "f = \<lparr>f_id = i, f_kind = kind, f_mode = MANAGED, f_state = A_PENDING, f_key = Some key, f_path = None,
        f_sha = None, f_size = None, f_created = now, f_available = None, f_delete_requested = None,
        f_deleted = None, f_code = None, f_detail = None, f_mime = fst meta, f_filename = snd meta\<rparr>"
    and d': "d' = d\<lparr>artifacts := artifacts d @ [f]\<rparr>"
    using assms(2) by (auto simp: reserve_managed_artifact_def bindE_Inr_iff Let_def split: if_split_asm)
  show rows: "artifacts d' = artifacts d @ [f]" "f_id f = i" "f_mode f = MANAGED" "f_state f = A_PENDING" "f_key f \<noteq> None"
    by (simp_all add: d' f)
  have "i \<notin> f_id ` set (artifacts d)" using k(2) by (auto simp: tab_get_None_iff)
  then have "tab_keyed f_id (artifacts d @ [f])"
    using assms(1) rows(2) by (simp add: storage_ok_def artifacts_ok_def tab_keyed_append1)
  moreover have "f_id g = f_id h" if "g \<in> set (artifacts d @ [f])" "h \<in> set (artifacts d @ [f])" "f_key g \<noteq> None" "f_key g = f_key h" for g h
  proof (cases "g \<in> set (artifacts d) \<and> h \<in> set (artifacts d)")
    case True
    with that(3,4) assms(1) show ?thesis unfolding storage_ok_def artifacts_ok_def fst_conv by blast
  next
    case False
    have "f_key f = Some key" by (simp add: f)
    with False that k(3) show ?thesis by (metis Un_iff empty_iff list.set(1) list.simps(15) insert_iff set_append)
  qed
  moreover have "f_key g \<noteq> None" if "g \<in> set (artifacts d @ [f])" "f_mode g = MANAGED" for g
    using that assms(1) rows(5) unfolding storage_ok_def artifacts_ok_def fst_conv by auto
  ultimately have "artifacts_ok (artifacts d @ [f])" unfolding artifacts_ok_def by blast
  moreover have "row_backed dg fs f" by (simp add: row_backed_def f)
  ultimately show "storage_ok dg (d', fs)" using assms(1) unfolding storage_ok_def fst_conv snd_conv rows(1) by auto
qed

lemma storage_step_ok:
  assumes "storage_step dg s s'" and "storage_ok dg s"
  shows "storage_ok dg s'"
  using assms
proof (induction rule: storage_step.induct)
  case (reserving kind i now d f d' fs)
  then show ?case using reserve_keeps_storage(1) by blast
next
  case (storing se f d key fault b fs r fs')
  from store_file_final(1) [OF storing.hyps(6)] show ?case
  proof
    assume "\<forall>k. final_entry fs' k = final_entry fs k"
    then show ?thesis using storing.prems by (simp add: storage_ok_def row_backed_def)
  next
    assume "final_entry fs key = None \<and> (\<forall>k. final_entry fs' k = (if k = key then Some (File b) else final_entry fs k))"
    then show ?thesis using storing.hyps by (intro storage_ok_files [OF storing.prems]) auto
  qed
next
  case (staging fs' fs d)
  then show ?case by (simp add: storage_ok_def row_backed_def final_entry_def)
next
  case (finishing d i f key fs b now d')
  have ok: "artifacts_ok (artifacts d)" using finishing.prems by (simp add: storage_ok_def)
  from finishing.hyps(4) [unfolded mark_artifact_available_def] show ?case
  proof (rule storage_ok_transition [OF finishing.prems])
    fix g assume "g \<in> set (artifacts d)" "f_id g = i"
    then have "g = f" using artifacts_ok_same [OF ok] tab_get_SomeD [OF finishing.hyps(1)] by metis
    with finishing.hyps(2,3)
    show "same_row (g\<lparr>f_state := A_AVAILABLE, f_sha := Some (fst (dg b, int (length b))),
        f_size := Some (snd (dg b, int (length b))), f_available := Some now, f_code := None, f_detail := None\<rparr>) g \<and>
      row_backed dg fs (g\<lparr>f_state := A_AVAILABLE, f_sha := Some (fst (dg b, int (length b))),
        f_size := Some (snd (dg b, int (length b))), f_available := Some now, f_code := None, f_detail := None\<rparr>)"
      by (simp add: same_row_def row_backed_def)
  qed
next
  case (failing i detail d d' fs)
  from failing.hyps [unfolded mark_write_not_completed_def] show ?case
    by (rule storage_ok_transition [OF failing.prems]) (simp add: same_row_def row_backed_def)
next
  case (requesting unreferenced i now d d' fs)
  from requesting.hyps [unfolded request_artifact_deletion_def] show ?case
    by (rule storage_ok_transition [OF requesting.prems]) (simp add: same_row_def row_backed_def)
next
  case (abandoning i now d d' fs)
  from abandoning.hyps [unfolded abandon_artifact_def] show ?case
    by (rule storage_ok_transition [OF abandoning.prems]) (simp add: same_row_def row_backed_def)
next
  case (removing f d key se fs fs')
  note fs' = delete_bytes_Inr [OF removing.hyps(5)]
  show ?case
    by (rule storage_ok_files [OF removing.prems removing.hyps(1,2,4)]) (use removing.hyps(3) in \<open>auto simp: fs'\<close>)
next
  case (finalizing d i f key fs now d')
  have ok: "artifacts_ok (artifacts d)" using finalizing.prems by (simp add: storage_ok_def)
  from finalizing.hyps(4) [unfolded finalize_artifact_deletion_def] show ?case
  proof (rule storage_ok_transition [OF finalizing.prems])
    fix g assume "g \<in> set (artifacts d)" "f_id g = i"
    then have "g = f" using artifacts_ok_same [OF ok] tab_get_SomeD [OF finalizing.hyps(1)] by metis
    with finalizing.hyps(2,3)
    show "same_row (g\<lparr>f_state := A_DELETED, f_deleted := Some now, f_code := None, f_detail := None\<rparr>) g \<and>
      row_backed dg fs (g\<lparr>f_state := A_DELETED, f_deleted := Some now, f_code := None, f_detail := None\<rparr>)"
      by (simp add: same_row_def row_backed_def)
  qed
next
  case (giving_up i e d d' fs)
  from giving_up.hyps [unfolded record_delete_failure_def] show ?case
    by (rule storage_ok_transition [OF giving_up.prems]) (simp add: same_row_def row_backed_def)
next
  case (losing code mode "is" d js d' fs)
  from mark_each_missing_rows [OF losing.hyps] obtain v where v: "artifacts d' = map v (artifacts d)"
      "\<forall>f. v f = f \<or> (f_state f = A_AVAILABLE \<and> f_state (v f) = A_MISSING \<and> same_row (v f) f)" by blast
  have "same_row (v f) f \<and> (row_backed dg fs f \<longrightarrow> row_backed dg fs (v f))" for f
    using v(2) [rule_format, of f] by (auto simp: same_row_def row_backed_def)
  then show ?case by (intro storage_ok_rows [OF losing.prems v(1)]) blast
next
  case (returning se i d fs st d')
  have ok: "artifacts_ok (artifacts d)" using returning.prems by (simp add: storage_ok_def)
  obtain f key found where f: "tab_get f_id (artifacts d) i = Some f" "f_key f = Some key" "digest se key fs = Inr found"
    and settle: "if \<exists>h n. f_sha f = Some h \<and> f_size f = Some n \<and> found = Some (h, n)
      then bindE (transition_artifact i [A_MISSING] MANAGED (\<lambda>_. True)
             (\<lambda>f. f\<lparr>f_state := A_AVAILABLE, f_code := None, f_detail := None\<rparr>) d) (\<lambda>d'. Inr (A_AVAILABLE, d')) = Inr (st, d')
      else (st, d') = (A_MISSING, d)"
    using returning.hyps(2) unfolding reverify_managed_artifact_def
    by (auto simp: bindE_Inr_iff split: option.split_asm if_split_asm)
  show ?case
  proof (cases "\<exists>h n. f_sha f = Some h \<and> f_size f = Some n \<and> found = Some (h, n)")
    case False
    with returning.prems settle [unfolded if_not_P [OF False]] show ?thesis by simp
  next
    case True
    then obtain h n where hn: "f_sha f = Some h" "f_size f = Some n" "found = Some (h, n)" by blast
    obtain b where b: "final_entry fs key = Some (File b)" "(h, n) = stored_bytes se b"
      using digest_Inr [OF f(3)] hn(3) by auto
    have "transition_artifact i [A_MISSING] MANAGED (\<lambda>_. True)
        (\<lambda>f. f\<lparr>f_state := A_AVAILABLE, f_code := None, f_detail := None\<rparr>) d = Inr d'"
      using settle True by (simp add: bindE_Inr_iff)
    then show ?thesis
    proof (rule storage_ok_transition [OF returning.prems])
      fix g assume "g \<in> set (artifacts d)" "f_id g = i"
      then have "g = f" using artifacts_ok_same [OF ok] tab_get_SomeD [OF f(1)] by metis
      with f(2) b hn(1,2) returning.hyps(1)
      show "same_row (g\<lparr>f_state := A_AVAILABLE, f_code := None, f_detail := None\<rparr>) g \<and>
          row_backed dg fs (g\<lparr>f_state := A_AVAILABLE, f_code := None, f_detail := None\<rparr>)"
        by (simp add: same_row_def row_backed_def stored_bytes_def)
    qed
  qed
qed

abbreviation storage_steps :: "(byte list \<Rightarrow> byte list) \<Rightarrow> db \<times> managed_files \<Rightarrow> db \<times> managed_files \<Rightarrow> bool" where
  "storage_steps dg \<equiv> (storage_step dg)\<^sup>*\<^sup>*"

lemma storage_steps_ok: "storage_steps dg s s' \<Longrightarrow> storage_ok dg s \<Longrightarrow> storage_ok dg s'"
  by (induction rule: rtranclp_induct) (auto intro: storage_step_ok)

text \<open>A row is never lost or given another key, and an intended deletion stays one.\<close>

definition leaving_states :: "artifact_state set" where
  "leaving_states = {A_DELETING, A_DELETE_FAILED, A_DELETED}"

definition row_stays :: "db \<times> managed_files \<Rightarrow> db \<times> managed_files \<Rightarrow> bool" where
  "row_stays s s' \<longleftrightarrow> (\<forall>f\<in>set (artifacts (fst s)). \<exists>g\<in>set (artifacts (fst s')). same_row g f \<and>
     (f_state f \<in> leaving_states \<longrightarrow> f_state g \<in> leaving_states))"

lemma row_stays_map:
  assumes "artifacts d' = map v (artifacts d)"
    and "\<And>f. same_row (v f) f \<and> (f_state f \<in> leaving_states \<longrightarrow> f_state (v f) \<in> leaving_states)"
  shows "row_stays (d, fs) (d', fs')"
  using assms by (auto simp: row_stays_def)

lemma row_stays_transition:
  assumes "transition_artifact i from mode extra v d = Inr d'"
    and "\<And>f. same_row (v f) f" and "\<And>f. f_state f \<in> set from \<inter> leaving_states \<Longrightarrow> f_state (v f) \<in> leaving_states"
  shows "row_stays (d, fs) (d', fs')"
proof (rule row_stays_map)
  let ?v = "\<lambda>f. if f_id f = i \<and> f_mode f = mode \<and> f_state f \<in> set from \<and> extra f then v f else f"
  show "artifacts d' = map ?v (artifacts d)" using transition_artifact_Inr(1) [OF assms(1)] by simp
  show "same_row (?v f) f \<and> (f_state f \<in> leaving_states \<longrightarrow> f_state (?v f) \<in> leaving_states)" for f
    using assms(2,3) [of f] by (auto simp: same_row_def)
qed

lemma storage_step_stays:
  assumes "storage_step dg s s'" and "storage_ok dg s"
  shows "row_stays s s'"
  using assms
proof (induction rule: storage_step.induct)
  case (reserving kind i now d f d' fs)
  then show ?case using reserve_keeps_storage(2) [OF reserving.prems reserving.hyps]
    by (auto simp: row_stays_def same_row_def)
next
  case (finishing d i f key fs b now d')
  from finishing.hyps(4) [unfolded mark_artifact_available_def] show ?case
    by (rule row_stays_transition) (auto simp: same_row_def leaving_states_def)
next
  case (failing i detail d d' fs)
  from failing.hyps [unfolded mark_write_not_completed_def] show ?case
    by (rule row_stays_transition) (auto simp: same_row_def leaving_states_def)
next
  case (requesting unreferenced i now d d' fs)
  from requesting.hyps [unfolded request_artifact_deletion_def] show ?case
    by (rule row_stays_transition) (auto simp: same_row_def leaving_states_def)
next
  case (abandoning i now d d' fs)
  from abandoning.hyps [unfolded abandon_artifact_def] show ?case
    by (rule row_stays_transition) (auto simp: same_row_def leaving_states_def)
next
  case (finalizing d i f key fs now d')
  from finalizing.hyps(4) [unfolded finalize_artifact_deletion_def] show ?case
    by (rule row_stays_transition) (auto simp: same_row_def leaving_states_def)
next
  case (giving_up i e d d' fs)
  from giving_up.hyps [unfolded record_delete_failure_def] show ?case
    by (rule row_stays_transition) (auto simp: same_row_def leaving_states_def)
next
  case (losing code mode "is" d js d' fs)
  from mark_each_missing_rows [OF losing.hyps] obtain v where v: "artifacts d' = map v (artifacts d)"
      "\<forall>f. v f = f \<or> (f_state f = A_AVAILABLE \<and> f_state (v f) = A_MISSING \<and> same_row (v f) f)" by blast
  have "same_row (v f) f \<and> (f_state f \<in> leaving_states \<longrightarrow> f_state (v f) \<in> leaving_states)" for f
    using v(2) [rule_format, of f] by (auto simp: same_row_def leaving_states_def)
  with v(1) show ?case by (rule row_stays_map)
next
  case (returning se i d fs st d')
  then consider "d' = d" | "transition_artifact i [A_MISSING] MANAGED (\<lambda>_. True)
      (\<lambda>f. f\<lparr>f_state := A_AVAILABLE, f_code := None, f_detail := None\<rparr>) d = Inr d'"
    by (auto simp: reverify_managed_artifact_def bindE_Inr_iff split: option.split_asm if_split_asm)
  then show ?case
  proof cases
    case 1
    then show ?thesis by (auto simp: row_stays_def same_row_def)
  next
    case 2
    then show ?thesis by (rule row_stays_transition) (auto simp: same_row_def leaving_states_def)
  qed
qed (auto simp: row_stays_def same_row_def)

lemma row_stays_trans:
  assumes "row_stays s s'" and "row_stays s' s''"
  shows "row_stays s s''"
  unfolding row_stays_def
proof
  fix f assume "f \<in> set (artifacts (fst s))"
  then obtain g where g: "g \<in> set (artifacts (fst s'))" "same_row g f" "f_state f \<in> leaving_states \<longrightarrow> f_state g \<in> leaving_states"
    using assms(1) unfolding row_stays_def by blast
  then obtain h where "h \<in> set (artifacts (fst s''))" "same_row h g" "f_state g \<in> leaving_states \<longrightarrow> f_state h \<in> leaving_states"
    using assms(2) unfolding row_stays_def by blast
  with g show "\<exists>h\<in>set (artifacts (fst s'')). same_row h f \<and> (f_state f \<in> leaving_states \<longrightarrow> f_state h \<in> leaving_states)"
    by (auto simp: same_row_def)
qed

lemma storage_steps_stay: "storage_steps dg s s' \<Longrightarrow> storage_ok dg s \<Longrightarrow> row_stays s s'"
proof (induction rule: rtranclp_induct)
  case base
  then show ?case by (auto simp: row_stays_def same_row_def)
next
  case (step s' s'')
  then show ?case by (meson row_stays_trans storage_step_stays storage_steps_ok)
qed

text \<open>A listing that stays true while other steps run.\<close>

definition still_listed :: "(uuid \<times> string) list \<Rightarrow> artifact_state set \<Rightarrow> artifact list \<Rightarrow> bool" where
  "still_listed xs states t \<longleftrightarrow>
     (\<forall>(i, k)\<in>set xs. \<exists>f\<in>set t. f_id f = i \<and> f_key f = Some k \<and> f_mode f = MANAGED \<and> f_state f \<in> states)"

lemma still_listedE:
  assumes "still_listed ((i, k) # xs) states t"
  obtains f where "f \<in> set t" "f_id f = i" "f_key f = Some k" "f_mode f = MANAGED" "f_state f \<in> states"
  using assms unfolding still_listed_def by (simp, blast)

lemma still_listed_steps:
  assumes "storage_steps dg (d, fs) (d', fs')" and "storage_ok dg (d, fs)" and "states = UNIV \<or> states = leaving_states"
    and "still_listed xs states (artifacts d)"
  shows "still_listed xs states (artifacts d')"
proof -
  have "\<exists>g\<in>set (artifacts d'). f_id g = f_id f \<and> f_key g = f_key f \<and> f_mode g = f_mode f \<and> (f_state f \<in> states \<longrightarrow> f_state g \<in> states)"
    if "f \<in> set (artifacts d)" for f
    using storage_steps_stay [OF assms(1,2)] that assms(3) unfolding row_stays_def same_row_def fst_conv by blast
  note stays = this
  have "\<exists>g\<in>set (artifacts d'). f_id g = i \<and> f_key g = Some k \<and> f_mode g = MANAGED \<and> f_state g \<in> states"
    if m: "(i, k) \<in> set xs" for i k
  proof -
    obtain f where f: "f \<in> set (artifacts d)" "f_id f = i" "f_key f = Some k" "f_mode f = MANAGED" "f_state f \<in> states"
      using assms(4) m unfolding still_listed_def by blast
    show ?thesis using stays [OF f(1)] f(2-5) by auto
  qed
  then show ?thesis unfolding still_listed_def by blast
qed

section \<open>The protocols take such steps\<close>

lemma keep_step:
  assumes "\<And>d'. r = Inr d' \<Longrightarrow> storage_step dg (d, fs) (d', fs)"
  shows "storage_steps dg (d, fs) (keep r d, fs)"
  using assms by (cases r) (auto simp: keep_def)

lemma create_steps:
  assumes "storage_ok dg (d, fs)" and "se_digest se = dg"
    and "create_managed_artifact se crash torn fault kind meta b i now1 now2 d fs = (r, d', fs')"
  shows "storage_steps dg (d, fs) (d', fs')"
proof (cases "reserve_managed_artifact kind meta i now1 d")
  case (Inl e)
  with assms(3) show ?thesis by (simp add: create_managed_artifact_def)
next
  case (Inr fd)
  obtain f d1 where fd: "fd = (f, d1)" by fastforce
  note res = Inr [unfolded fd]
  note f = reserve_keeps_storage [OF assms(1) res]
  obtain key where key: "f_key f = Some key" using f(6) by auto
  have get: "tab_get f_id (artifacts d1) i = Some f"
    using f(1,2,3) tab_get_in [of f_id "artifacts d1" f] by (simp add: storage_ok_def artifacts_ok_def)
  have one: "storage_steps dg (d, fs) (d1, fs)" using storage_step.reserving [OF res, of dg fs] by (rule r_into_rtranclp)
  obtain out fs1 where st: "store_file se fault key b fs = (out, fs1)" by fastforce
  have "storage_step dg (d1, fs) (d1, fs1)"
    by (rule storage_step.storing [OF assms(2) _ f(4,5) key st]) (simp add: f(2))
  then have two: "storage_steps dg (d, fs) (d1, fs1)" using one by (rule rtranclp.rtrancl_into_rtrancl [rotated])
  note run = assms(3) [unfolded create_managed_artifact_def res sum.case prod.case Let_def key option.sel st]
  show ?thesis
  proof (cases "crash = Some 0 \<or> crash = Some 1 \<or> crash = Some 2")
    case True
    have "storage_step dg (d1, fs) (d1, put_staged (staging_name key) torn fs)"
      by (rule storage_step.staging) (simp add: put_staged_def)
    with True run one show ?thesis by (auto split: if_split_asm intro: rtranclp.rtrancl_into_rtrancl)
  next
    case False
    show ?thesis
    proof (cases out)
      case (Inl e)
      have "storage_steps dg (d1, fs1) (keep (mark_write_not_completed i ''error'' d1) d1, fs1)"
        by (rule keep_step) (rule storage_step.failing)
      with False run two Inl show ?thesis by (auto split: if_split_asm intro: rtranclp_trans)
    next
      case (Inr stored)
      obtain b' where b': "final_entry fs1 key = Some (File b')" "stored = stored_bytes se b'"
        using store_file_final(2) [OF st Inr] by blast
      show ?thesis
      proof (cases "mark_artifact_available i stored now2 d1")
        case (Inl e)
        with False run two Inr show ?thesis by (auto split: if_split_asm)
      next
        case fin: (Inr d2)
        have "mark_artifact_available i (dg b', int (length b')) now2 d1 = Inr d2"
          using fin by (simp add: b'(2) stored_bytes_def assms(2))
        with get key b'(1) have "storage_step dg (d1, fs1) (d2, fs1)" by (rule storage_step.finishing)
        with False run two Inr fin show ?thesis by (auto split: if_split_asm intro: rtranclp.rtrancl_into_rtrancl)
      qed
    qed
  qed
qed

lemma remove_and_finalize:
  assumes "tab_get f_id (artifacts d) i = Some f" "f_mode f = MANAGED" "f_state f \<in> leaving_states" "f_key f = Some key"
    and "delete_bytes se key fs = Inr fs1"
  shows "storage_steps dg (d, fs) (d, fs1)"
    and "storage_steps dg (d, fs) (keep (finalize_artifact_deletion i now d) d, fs1)"
proof -
  have "storage_step dg (d, fs) (d, fs1)"
    by (rule storage_step.removing [OF _ assms(2) _ assms(4,5)])
      (use assms(3) tab_get_SomeD [OF assms(1)] in \<open>auto simp: leaving_states_def\<close>)
  then show one: "storage_steps dg (d, fs) (d, fs1)" by (rule r_into_rtranclp)
  have "final_entry fs1 key = None" using delete_bytes_Inr [OF assms(5)] by simp
  then have "storage_steps dg (d, fs1) (keep (finalize_artifact_deletion i now d) d, fs1)"
    by (intro keep_step storage_step.finalizing [OF assms(1,4)])
  with one show "storage_steps dg (d, fs) (keep (finalize_artifact_deletion i now d) d, fs1)" by (rule rtranclp_trans)
qed

lemma finish_deletion_steps:
  assumes "tab_get f_id (artifacts d) i = Some f" "f_mode f = MANAGED" "f_state f \<in> leaving_states" "f_key f = Some key"
    and "finish_deletion se crash i key now d fs = (r, d', fs')"
  shows "storage_steps dg (d, fs) (d', fs')"
proof (cases "delete_bytes se key fs")
  case (Inr fs1)
  note steps = remove_and_finalize [OF assms(1-4) Inr, of dg]
  show ?thesis using assms(5) steps(1) steps(2) [of now]
    by (auto simp: finish_deletion_def Inr keep_def split: if_split_asm sum.split_asm)
next
  case (Inl e)
  have "storage_steps dg (d, fs) (keep (record_delete_failure i m d) d, fs)" for m
    by (rule keep_step) (rule storage_step.giving_up)
  with assms(5) Inl show ?thesis by (cases e) (auto simp: finish_deletion_def split: if_split_asm)
qed

lemma requested_row:
  assumes "storage_ok dg (d, fs)" and "request_artifact_deletion unreferenced i now d = Inr d1"
  obtains f where "tab_get f_id (artifacts d1) i = Some f" "f_mode f = MANAGED" "f_state f \<in> leaving_states"
    "f_key f = Some (key_of_artifact i d1)"
proof -
  note tr = transition_artifact_Inr [OF assms(2) [unfolded request_artifact_deletion_def]]
  obtain f where f: "f \<in> set (artifacts d)" "f_id f = i" "f_mode f = MANAGED" "f_state f \<in> set deletable_states"
      "case unreferenced of None \<Rightarrow> True | Some others \<Rightarrow> \<not> referenced_artifact others d (f_id f)"
    using tr(2) by blast
  let ?g = "f\<lparr>f_state := A_DELETING, f_delete_requested := Some now\<rparr>"
  have g: "?g \<in> set (artifacts d1)" unfolding tr(1) using f by (auto intro!: image_eqI [of _ _ f])
  have ok: "artifacts_ok (artifacts d1)"
    using storage_step_ok [OF storage_step.requesting [OF assms(2), of dg fs] assms(1)] by (simp add: storage_ok_def)
  then have get: "tab_get f_id (artifacts d1) i = Some ?g"
    using tab_get_in [of f_id "artifacts d1" ?g] g f(2) by (simp add: artifacts_ok_def)
  moreover have "f_key ?g \<noteq> None" using ok g f(3) unfolding artifacts_ok_def by fastforce
  ultimately show ?thesis using f(3) by (intro that [of ?g]) (auto simp: leaving_states_def key_of_artifact_def)
qed

lemma delete_steps:
  assumes "storage_ok dg (d, fs)" and "delete_managed_artifact se crash unreferenced i now1 now2 d fs = (r, d', fs')"
  shows "storage_steps dg (d, fs) (d', fs')"
proof (cases "bindE (request_artifact_deletion unreferenced i now1 d)
    (\<lambda>d1. bindE (path_for se (key_of_artifact i d1)) (\<lambda>_. Inr d1))")
  case (Inl e)
  with assms(2) show ?thesis by (simp add: delete_managed_artifact_def)
next
  case (Inr d1)
  then have req: "request_artifact_deletion unreferenced i now1 d = Inr d1" by (auto simp: bindE_Inr_iff)
  have one: "storage_step dg (d, fs) (d1, fs)" by (rule storage_step.requesting [OF req])
  show ?thesis
  proof (cases "crash = Some 0")
    case True
    with assms(2) Inr show ?thesis by (simp add: delete_managed_artifact_def)
  next
    case False
    with assms(2) Inr have fin: "finish_deletion se crash i (key_of_artifact i d1) now2 d1 fs = (r, d', fs')"
      by (simp add: delete_managed_artifact_def)
    obtain f where "tab_get f_id (artifacts d1) i = Some f" "f_mode f = MANAGED" "f_state f \<in> leaving_states"
        "f_key f = Some (key_of_artifact i d1)" by (rule requested_row [OF assms(1) req])
    from finish_deletion_steps [OF this fin] one show ?thesis by (rule converse_rtranclp_into_rtranclp [rotated])
  qed
qed

lemma complete_steps:
  assumes "storage_ok dg (d, fs0)" and "storage_steps dg (d, fs0) (meanwhile d, fs)"
    and "complete_artifact_deletion se i now d fs meanwhile = (r, d', fs')" and "d' \<noteq> d \<or> fs' \<noteq> fs"
  shows "storage_steps dg (meanwhile d, fs) (d', fs')"
proof -
  have ok: "artifacts_ok (artifacts d)" and later: "storage_ok dg (meanwhile d, fs)"
    using assms(1) storage_steps_ok [OF assms(2,1)] by (simp_all add: storage_ok_def)
  obtain key where intent: "deletion_intent i d = Inr (Some key)"
    using assms(3,4) by (auto simp: complete_artifact_deletion_def split: sum.split_asm option.split_asm)
  then obtain f where f: "tab_get f_id (artifacts d) i = Some f" "f_key f = Some key" "f_mode f = MANAGED"
      "f_state f \<in> leaving_states"
    by (auto simp: deletion_intent_def leaving_states_def split: option.split_asm if_split_asm)
  have "f \<in> set (artifacts d)" using tab_get_SomeD [OF f(1)] by simp
  then obtain g where g: "g \<in> set (artifacts (meanwhile d))" "same_row g f" "f_state g \<in> leaving_states"
    using storage_steps_stay [OF assms(2,1)] f(4) unfolding row_stays_def fst_conv by blast
  have row: "tab_get f_id (artifacts (meanwhile d)) i = Some g" "f_key g = Some key" "f_mode g = MANAGED"
    using g f tab_get_SomeD [OF f(1)] later tab_get_in [of f_id "artifacts (meanwhile d)" g]
    by (auto simp: same_row_def storage_ok_def artifacts_ok_def)
  note run = assms(3) [unfolded complete_artifact_deletion_def intent sum.case option.case Let_def]
  show ?thesis
  proof (cases "delete_bytes se key fs")
    case (Inr fs1)
    note steps = remove_and_finalize [OF row(1,3) g(3) row(2) Inr, of dg]
    show ?thesis using run steps(1) steps(2) [of now]
      by (auto simp: Inr settle_deletion_def row(1) bindE_def keep_def split: if_split_asm sum.split_asm)
  next
    case (Inl e)
    have "storage_steps dg (meanwhile d, fs) (keep (record_delete_failure i m (meanwhile d)) (meanwhile d), fs)" for m
      by (rule keep_step) (rule storage_step.giving_up)
    then have "storage_steps dg (meanwhile d, fs) (d2, fs)"
      if "record_delete_failure i m (meanwhile d) = Inr d2" for m d2
      using that by (metis keep_def sum.simps(6))
    with run Inl show ?thesis
      by (cases e) (auto simp: settle_deletion_def row(1) bindE_def split: if_split_asm sum.split_asm)
  qed
qed

lemma pending_steps:
  assumes "recover_pending se now xs rr d fs = (rr', d')" and "storage_ok dg (d, fs)" and "se_digest se = dg"
    and "still_listed xs UNIV (artifacts d)"
  shows "storage_steps dg (d, fs) (d', fs)"
  using assms
proof (induction xs arbitrary: rr d)
  case Nil
  then show ?case by simp
next
  case (Cons x xs)
  obtain i key where x: "x = (i, key)" by fastforce
  obtain f where f: "f \<in> set (artifacts d)" "f_id f = i" "f_key f = Some key"
    by (rule still_listedE [OF Cons.prems(4) [unfolded x]])
  have get: "tab_get f_id (artifacts d) i = Some f"
    using storage_ok_get [OF Cons.prems(2) f(1)] f(2) by simp
  obtain d1 rr1 where d1: "storage_steps dg (d, fs) (d1, fs)" "recover_pending se now xs rr1 d1 fs = (rr', d')"
  proof (cases "digest se key fs")
    case (Inl e)
    with Cons.prems(1) show ?thesis by (intro that [of d]) (auto simp: x)
  next
    case (Inr found)
    show ?thesis
    proof (cases found)
      case None
      have "storage_steps dg (d, fs) (keep (mark_write_not_completed i ''interrupted before finalization'' d) d, fs)"
        by (rule keep_step) (rule storage_step.failing)
      with Inr None Cons.prems(1) show ?thesis by (intro that) (auto simp: x)
    next
      case (Some stored)
      obtain b where b: "final_entry fs key = Some (File b)" "stored = (dg b, int (length b))"
        using digest_Inr [OF Inr] Some Cons.prems(3) by (auto simp: stored_bytes_def)
      have "storage_steps dg (d, fs) (keep (mark_artifact_available i stored now d) d, fs)"
        unfolding b(2) by (rule keep_step) (rule storage_step.finishing [OF get f(3) b(1)])
      with Inr Some Cons.prems(1) show ?thesis by (intro that) (auto simp: x)
    qed
  qed
  have "still_listed xs UNIV (artifacts d)" using Cons.prems(4) by (simp add: still_listed_def)
  then have "still_listed xs UNIV (artifacts d1)" using still_listed_steps [OF d1(1) Cons.prems(2)] by blast
  from Cons.IH [OF d1(2) storage_steps_ok [OF d1(1) Cons.prems(2)] Cons.prems(3) this] d1(1)
  show ?case by (rule rtranclp_trans [rotated])
qed

lemma deleting_steps:
  assumes "recover_deleting se now xs rr d fs = (rr', d', fs')" and "storage_ok dg (d, fs)"
    and "still_listed xs leaving_states (artifacts d)"
  shows "storage_steps dg (d, fs) (d', fs')"
  using assms
proof (induction xs arbitrary: rr d fs)
  case Nil
  then show ?case by simp
next
  case (Cons x xs)
  obtain i key where x: "x = (i, key)" by fastforce
  obtain f where f: "f \<in> set (artifacts d)" "f_id f = i" "f_key f = Some key" "f_mode f = MANAGED" "f_state f \<in> leaving_states"
    by (rule still_listedE [OF Cons.prems(3) [unfolded x]])
  have get: "tab_get f_id (artifacts d) i = Some f"
    using storage_ok_get [OF Cons.prems(2) f(1)] f(2) by simp
  obtain d1 fs1 rr1 where d1: "storage_steps dg (d, fs) (d1, fs1)" "recover_deleting se now xs rr1 d1 fs1 = (rr', d', fs')"
  proof (cases "delete_bytes se key fs")
    case (Inr fs1)
    from remove_and_finalize(2) [OF get f(4,5,3) Inr] Inr Cons.prems(1) show ?thesis by (intro that) (auto simp: x)
  next
    case (Inl e)
    have "storage_steps dg (d, fs) (keep (record_delete_failure i m d) d, fs)" for m
      by (rule keep_step) (rule storage_step.giving_up)
    with Inl Cons.prems(1) show ?thesis by (cases e) (auto simp: x intro: that)
  qed
  have "still_listed xs leaving_states (artifacts d)" using Cons.prems(3) by (simp add: still_listed_def)
  then have "still_listed xs leaving_states (artifacts d1)" using still_listed_steps [OF d1(1) Cons.prems(2)] by blast
  from Cons.IH [OF d1(2) storage_steps_ok [OF d1(1) Cons.prems(2)] this] d1(1)
  show ?case by (rule rtranclp_trans [rotated])
qed

lemma recover_steps:
  assumes "storage_ok dg (d, fs)" and "se_digest se = dg" and "recover_artifacts se now d fs = (rr, d', fs')"
  shows "storage_steps dg (d, fs) (d', fs')"
proof -
  have ok: "artifacts_ok (artifacts d)" using assms(1) by (simp add: storage_ok_def)
  obtain rr1 d1 where p: "recover_pending se now (managed_in [A_PENDING] d) empty_recovery d fs = (rr1, d1)" by fastforce
  obtain rr2 d2 fs2 where q: "recover_deleting se now (managed_in [A_DELETING, A_DELETE_FAILED] d) rr1 d1 fs = (rr2, d2, fs2)"
    by (rule prod_cases3)
  obtain rr3 fs3 where c: "clear_staging se (settled_staging se d2 (staging_files fs2)) (staging_files fs2) rr2 fs2 = (rr3, fs3)"
    by fastforce
  have run: "d' = d2" "fs' = fs3" using assms(3) by (simp_all add: recover_artifacts_def p q c)
  have "still_listed (managed_in [A_PENDING] d) UNIV (artifacts d)"
    using managed_in_lists(1) [OF ok, of "[A_PENDING]"] unfolding lists_rows_def still_listed_def by blast
  note one = pending_steps [OF p assms(1,2) this]
  have "still_listed (managed_in [A_DELETING, A_DELETE_FAILED] d) leaving_states (artifacts d)"
    using managed_in_lists(1) [OF ok, of "[A_DELETING, A_DELETE_FAILED]"]
    unfolding lists_rows_def still_listed_def leaving_states_def by fastforce
  then have "still_listed (managed_in [A_DELETING, A_DELETE_FAILED] d) leaving_states (artifacts d1)"
    using still_listed_steps [OF one assms(1)] by blast
  note two = deleting_steps [OF q storage_steps_ok [OF one assms(1)] this]
  have "mf_final fs3 = mf_final fs2" using clear_staging_files [OF c] by blast
  then have "storage_step dg (d2, fs2) (d2, fs3)" by (rule storage_step.staging)
  with one two show ?thesis unfolding run by (meson rtranclp.rtrancl_into_rtrancl rtranclp_trans)
qed

lemma cleanup_steps:
  assumes "cleanup_each se others now is cl d fs = (cl', d', fs')" and "storage_ok dg (d, fs)"
  shows "storage_steps dg (d, fs) (d', fs')"
  using assms
proof (induction "is" arbitrary: cl d fs)
  case Nil
  then show ?case by simp
next
  case (Cons i "is")
  obtain r d1 fs1 where del: "delete_managed_artifact se None (Some others) i now now d fs = (r, d1, fs1)"
    by (rule prod_cases3)
  note one = delete_steps [OF Cons.prems(2) del]
  obtain cl1 where "cleanup_each se others now is cl1 d1 fs1 = (cl', d', fs')"
    using Cons.prems(1) by (auto simp: del split: option.split_asm sum.split_asm storage_error.split_asm)
  from Cons.IH [OF this storage_steps_ok [OF one Cons.prems(2)]] one show ?case by (rule rtranclp_trans [rotated])
qed

section \<open>What every run of the storage keeps\<close>

inductive storage_reachable :: "(byte list \<Rightarrow> byte list) \<Rightarrow> db \<times> managed_files \<Rightarrow> bool" for dg where
  fresh: "artifacts d = [] \<Longrightarrow> mf_final fs = [] \<Longrightarrow> storage_reachable dg (d, fs)"
| step: "storage_reachable dg s \<Longrightarrow> storage_step dg s s' \<Longrightarrow> storage_reachable dg s'"

lemma storage_reachable_ok: "storage_reachable dg s \<Longrightarrow> storage_ok dg s"
proof (induction rule: storage_reachable.induct)
  case (fresh d fs)
  then show ?case by (simp add: storage_ok_def artifacts_ok_def tab_keyed_def final_entry_def)
qed (rule storage_step_ok)

lemma storage_reachable_steps: "storage_steps dg s s' \<Longrightarrow> storage_reachable dg s \<Longrightarrow> storage_reachable dg s'"
  by (induction rule: rtranclp_induct) (auto intro: storage_reachable.step)



section \<open>A library with one crop\<close>

text \<open>A digest that is the content itself, and a system that refuses nothing.\<close>

definition plain_store :: store_env where
  "plain_store = \<lparr>se_digest = (\<lambda>b. b), se_escapes = (\<lambda>_. False), se_unreadable = (\<lambda>_. False),
     se_undeletable = (\<lambda>_. False), se_locked = (\<lambda>_. False), se_uuid = (\<lambda>n. if n = uuid_hex 7 then Some 7 else None)\<rparr>"

definition no_files :: managed_files where
  "no_files = \<lparr>mf_root = True, mf_final = [], mf_staging = []\<rparr>"

text \<open>Artifact 7 was stored; the process that wrote artifact 8 died before it could say so.\<close>

definition stored_library :: "db \<times> managed_files" where
  "stored_library =
     (case create_managed_artifact plain_store None [] None FACE_CROP (None, None) [1, 2] 7 3 4 empty_db no_files of (_, d, fs) \<Rightarrow>
        snd (create_managed_artifact plain_store (Some 3) [] None THUMBNAIL (None, None) [5] 8 5 6 d fs))"

lemma stored_library_value:
  "map (\<lambda>f. (f_id f, f_state f, f_size f)) (artifacts (fst stored_library)) = [(7, A_AVAILABLE, Some 2), (8, A_PENDING, None)] \<and>
   map snd (mf_final (snd stored_library)) = [File [5], File [1, 2]]"
  by code_simp

lemma storage_ok_fresh: "storage_ok dg (empty_db, no_files)"
  by (rule storage_reachable_ok, rule storage_reachable.fresh) (simp_all add: empty_db_def no_files_def)



lemma recovery_settles_each_row_witness:
  "\<exists>rr d fs. recover_artifacts plain_store 9 (fst stored_library) (snd stored_library) = (rr, d, fs) \<and>
     map f_state (artifacts d) = [A_AVAILABLE, A_AVAILABLE] \<and> (\<forall>f\<in>set (artifacts d). \<not> unsettled f)"
proof -
  obtain rr d fs where r: "recover_artifacts plain_store 9 (fst stored_library) (snd stored_library) = (rr, d, fs)"
    by (rule prod_cases3)
  have "map f_id (artifacts (fst stored_library)) = [7, 8] \<and> map (\<lambda>f. f_key f = None) (artifacts (fst stored_library)) = [False, False] \<and>
      distinct (map f_key (artifacts (fst stored_library)))" by code_simp
  then have "artifacts_ok (artifacts (fst stored_library))"
    by (auto simp: artifacts_ok_def tab_keyed_def map_eq_Cons_conv)
  note all = recovery_settles_each_row [OF this r]
  have "nothing_refused plain_store (snd stored_library) (artifacts (fst stored_library))" by code_simp
  moreover have "map f_state (artifacts (fst (snd (recover_artifacts plain_store 9 (fst stored_library) (snd stored_library))))) =
      [A_AVAILABLE, A_AVAILABLE]" by code_simp
  ultimately show ?thesis using all r by (intro exI conjI) auto
qed

end
