(* ===== verification/Forget.thy ===== *)
theory Forget
  imports Erasure Artifacts People
begin

text \<open>
  Forgetting (\<open>backend/app/identities/forget.py\<close>): one transaction takes an identity, every identity
  merged into it and every vector and face crop of them out of use; then the crops' bytes and the
  vectors are removed, and a repeat finishes what an earlier try still owes.
\<close>

section \<open>The family\<close>

definition merged_into_any :: "identity list \<Rightarrow> uuid list \<Rightarrow> uuid list" where
  "merged_into_any t chunk = map i_id (filter (\<lambda>x. \<exists>j\<in>set chunk. i_merged_into x = Some j) t)"

text \<open>One round of the search: the ids not seen yet (\<open>seen\<close> is always the set of \<open>family\<close>).\<close>

definition newly_merged :: "identity list \<Rightarrow> uuid list \<Rightarrow> uuid list \<Rightarrow> uuid list" where
  "newly_merged t family frontier =
     filter (\<lambda>i. i \<notin> set family) (concat (map (merged_into_any t) (chunks erasure_chunk frontier)))"

lemma set_newly_merged:
  "set (newly_merged t family frontier) =
     {i_id x | x. x \<in> set t \<and> i_merged_into x \<in> Some ` set frontier \<and> i_id x \<notin> set family}"
proof -
  have "set frontier = \<Union> (set ` set (chunks erasure_chunk frontier))"
    using concat_chunks [of erasure_chunk frontier] by (metis erasure_chunk_def set_concat zero_less_numeral)
  then have "set (concat (map (merged_into_any t) (chunks erasure_chunk frontier))) = {i_id x | x. x \<in> set t \<and> i_merged_into x \<in> Some ` set frontier}"
    unfolding merged_into_any_def by auto
  then show ?thesis unfolding newly_merged_def set_filter by auto
qed

function family_from :: "identity list \<Rightarrow> uuid list \<Rightarrow> uuid list \<Rightarrow> uuid list" where
  "family_from t family frontier =
     (if frontier = [] then family
      else let found = newly_merged t family frontier in family_from t (family @ found) found)"
  by pat_completeness auto
termination
proof (relation "measures [\<lambda>(t, family, frontier). card (i_id ` set t - set family), \<lambda>(t, family, frontier). length frontier]")
  fix t family frontier found
  assume "frontier \<noteq> []" and found: "found = newly_merged t family frontier"
  have new: "set found \<subseteq> i_id ` set t - set family" by (auto simp: found set_newly_merged)
  show "((t, family @ found, found), (t, family, frontier)) \<in>
      measures [\<lambda>(t, family, frontier). card (i_id ` set t - set family), \<lambda>(t, family, frontier). length frontier]"
  proof (cases "found = []")
    case True
    with \<open>frontier \<noteq> []\<close> show ?thesis by simp
  next
    case False
    then have "i_id ` set t - set (family @ found) \<subset> i_id ` set t - set family"
      using new by (cases found) auto
    then have "card (i_id ` set t - set (family @ found)) < card (i_id ` set t - set family)"
      by (intro psubset_card_mono) simp_all
    then show ?thesis by simp
  qed
qed simp

declare family_from.simps [simp del]

definition family :: "db \<Rightarrow> uuid \<Rightarrow> uuid list" where
  "family d i = family_from (identities d) [i] [i]"

section \<open>Face crops\<close>

text \<open>The states in which a vector still has to be removed.\<close>

definition with_vector :: "rep_state list" where
  "with_vector = [R_ACTIVE, R_PENDING, R_SUPERSEDED, R_ERASING, R_DELETED]"

definition unfinished :: "artifact_state list" where
  "unfinished = A_PENDING # deletable_states @ [A_DELETING, A_DELETED]"

text \<open>A face that shows the artifact as its crop, of a representation that satisfies \<open>p\<close>.\<close>

definition crop_of :: "(rep \<Rightarrow> bool) \<Rightarrow> db \<Rightarrow> uuid \<Rightarrow> bool" where
  "crop_of p d a \<longleftrightarrow> list_ex (\<lambda>ob. o_crop ob = Some a \<and> list_ex (\<lambda>r. r_obs r = o_id ob \<and> p r) (reps d)) (observations d)"

definition crop_candidates :: "uuid list \<Rightarrow> db \<Rightarrow> artifact list" where
  "crop_candidates fam d =
     dedup (concat (map (\<lambda>c. filter (\<lambda>f. f_mode f = MANAGED \<and> f_state f \<in> set unfinished \<and>
        crop_of (\<lambda>r. r_identity r \<in> Some ` set c) d (f_id f)) (artifacts d)) (chunks erasure_chunk fam)))"

text \<open>A crop that a face of someone else, or of nobody, still shows.\<close>

definition shared_crop :: "uuid list \<Rightarrow> db \<Rightarrow> uuid \<Rightarrow> bool" where
  "shared_crop fam d a \<longleftrightarrow> crop_of (\<lambda>r. r_state r \<in> set with_vector \<and> r_identity r \<notin> Some ` set fam) d a"

definition retire_one :: "time \<Rightarrow> artifact \<Rightarrow> db \<Rightarrow> storage_error + db" where
  "retire_one now f d =
     (if f_state f = A_PENDING then abandon_artifact (f_id f) now d
      else if f_state f \<in> set deletable_states then request_artifact_deletion None (f_id f) now d
      else Inr d)"

definition retire_each :: "time \<Rightarrow> artifact list \<Rightarrow> db \<Rightarrow> storage_error + db" where
  "retire_each now = each_artifact (retire_one now)"

definition own_crops :: "uuid list \<Rightarrow> db \<Rightarrow> artifact list" where
  "own_crops fam d = filter (\<lambda>f. \<not> shared_crop fam d (f_id f)) (crop_candidates fam d)"

definition retire_crops :: "uuid list \<Rightarrow> time \<Rightarrow> db \<Rightarrow> storage_error + (uuid \<times> string) list \<times> db" where
  "retire_crops fam now d =
     (let crops = own_crops fam d
      in bindE (retire_each now crops d) (\<lambda>d'. Inr (map (\<lambda>f. (f_id f, the (f_key f))) crops, d')))"

section \<open>One identity\<close>

datatype forget_error =
    IdentityNotFoundError | PersonNotFoundError | ChangedSinceRead
  | LinkRefused identity_error | CropRefused storage_error | QueueRefused repo_error

record forget_plan =
  fp_changed :: bool
  fp_identities :: "uuid list"
  fp_vectors :: "uuid list"
  fp_crops :: "(uuid \<times> string) list"

definition no_plan :: forget_plan where
  "no_plan = \<lparr>fp_changed = False, fp_identities = [], fp_vectors = [], fp_crops = []\<rparr>"

definition family_vectors :: "uuid list \<Rightarrow> rep_state list \<Rightarrow> db \<Rightarrow> uuid list" where
  "family_vectors fam sts d =
     concat (map (\<lambda>c. map r_id (filter (\<lambda>r. r_identity r \<in> Some ` set c \<and> r_state r \<in> set sts) (reps d)))
       (chunks erasure_chunk fam))"

definition shown_faces :: "uuid \<Rightarrow> db \<Rightarrow> uuid list" where
  "shown_faces i d = map oc_id (filter (\<lambda>oc. oc_identity oc = i \<and> oc_state oc = OC_ACTIVE) (occurrences d))"

text \<open>The updates that close the identity, a chunk of ids at a time.\<close>

definition hide_faces :: "uuid list \<Rightarrow> db \<Rightarrow> db" where
  "hide_faces faces d =
     d\<lparr>occurrences := fold (\<lambda>c. tab_update (\<lambda>oc. oc_id oc \<in> set c) (\<lambda>oc. oc\<lparr>oc_state := OC_DELETED\<rparr>))
         (chunks erasure_chunk faces) (occurrences d)\<rparr>"

definition clear_faces :: "uuid list \<Rightarrow> db \<Rightarrow> db" where
  "clear_faces fam d =
     d\<lparr>identities := fold (\<lambda>c. tab_update (\<lambda>x. i_id x \<in> set c) (\<lambda>x. x\<lparr>i_face := None\<rparr>))
         (chunks erasure_chunk fam) (identities d)\<rparr>"

definition set_forgotten :: "uuid \<Rightarrow> time \<Rightarrow> db \<Rightarrow> db" where
  "set_forgotten i now d =
     d\<lparr>identities := tab_update (\<lambda>x. i_id x = i)
         (\<lambda>x. x\<lparr>i_state := I_FORGOTTEN, i_forgotten := Some now, i_updated := now, i_rev := i_rev x + 1\<rparr>) (identities d)\<rparr>"

definition end_link :: "uuid \<Rightarrow> time \<Rightarrow> id_supply \<Rightarrow> db \<Rightarrow> forget_error + db" where
  "end_link i now ids d =
     (case active_association i d of
        None \<Rightarrow> Inr d
      | Some _ \<Rightarrow> map_sum LinkRefused id (bindE (remove_identity_from_person i 1 ids now d) (\<lambda>(_, d'). Inr d')))"

definition forgotten_evidence :: "uuid \<Rightarrow> uuid \<Rightarrow> uuid option \<Rightarrow> uuid list \<Rightarrow> uuid list \<Rightarrow> time \<Rightarrow> evidence" where
  "forgotten_evidence e i person vectors faces now =
     new_evidence e IDENTITY_FORGOTTEN None None (Some i) person 1
       (JObj [(''representation_ids'', uuid_list vectors), (''occurrence_ids'', uuid_list faces)]) now"

text \<open>\<open>_one\<close>. \<open>later\<close> is the clock when the person link ends; \<open>ids 0\<close> and \<open>ids 1\<close> name its two rows of evidence.\<close>

definition forget_active ::
  "uuid \<Rightarrow> uuid list \<Rightarrow> time \<Rightarrow> time \<Rightarrow> id_supply \<Rightarrow> db \<Rightarrow> forget_error + (uuid list \<times> (uuid \<times> string) list) \<times> db" where
  "forget_active i fam now later ids d =
     bindE (end_link i later ids d) (\<lambda>d1.
       let vectors = family_vectors fam with_vector d1;
           faces = shown_faces i d1;
           e = forgotten_evidence (ids 1) i (map_option a_person (active_association i d)) vectors faces now
       in bindE (map_sum CropRefused id (retire_crops fam now d1)) (\<lambda>(crops, d2).
          bindE (map_sum LinkRefused id (refused (evidence_append e [] [] d2))) (\<lambda>d3.
            Inr ((vectors, crops), set_forgotten i now (clear_faces fam (hide_faces faces d3))))))"

definition forget_one ::
  "uuid \<Rightarrow> int option \<Rightarrow> time \<Rightarrow> time \<Rightarrow> id_supply \<Rightarrow> forget_plan \<Rightarrow> db \<Rightarrow> forget_error + forget_plan \<times> db" where
  "forget_one i expected now later ids pl d =
     (case tab_get i_id (identities d) i of
        None \<Rightarrow> Inl IdentityNotFoundError
      | Some x \<Rightarrow>
          let fam = family d i; pl1 = pl\<lparr>fp_identities := fp_identities pl @ [i]\<rparr> in
          if i_state x = I_FORGOTTEN then
            bindE (map_sum CropRefused id (retire_crops fam now d)) (\<lambda>(crops, d1).
              Inr (pl1\<lparr>fp_vectors := fp_vectors pl @ family_vectors fam [R_ERASING] d,
                       fp_crops := fp_crops pl @ crops\<rparr>, d1))
          else if i_state x \<noteq> I_ACTIVE then Inl IdentityNotFoundError
          else if (case expected of None \<Rightarrow> False | Some e \<Rightarrow> i_rev x \<noteq> e) then Inl ChangedSinceRead
          else bindE (forget_active i fam now later ids d) (\<lambda>((vectors, crops), d1).
            Inr (pl1\<lparr>fp_changed := True, fp_vectors := fp_vectors pl @ vectors, fp_crops := fp_crops pl @ crops\<rparr>, d1)))"

section \<open>The transactions\<close>

definition queue_vectors :: "time \<Rightarrow> id_supply \<Rightarrow> forget_plan \<times> db \<Rightarrow> forget_error + forget_plan \<times> db" where
  "queue_vectors now ids pd =
     (case pd of (pl, d) \<Rightarrow> map_sum QueueRefused (\<lambda>d'. (pl, d')) (queue_in (fp_vectors pl) now ids d))"

definition plan_forget ::
  "uuid \<Rightarrow> int option \<Rightarrow> time \<Rightarrow> time \<Rightarrow> time \<Rightarrow> id_supply \<Rightarrow> id_supply \<Rightarrow> db \<Rightarrow> forget_error + forget_plan \<times> db" where
  "plan_forget i expected now later queued ids op_ids d =
     bindE (forget_one i expected now later ids no_plan d) (queue_vectors queued op_ids)"

text \<open>An active identity that was moved to someone else since is not this person's any more.\<close>

definition forgettable :: "uuid \<Rightarrow> db \<Rightarrow> uuid \<Rightarrow> bool" where
  "forgettable p d i \<longleftrightarrow>
     (case tab_get i_id (identities d) i of
        None \<Rightarrow> False
      | Some x \<Rightarrow> i_state x = I_FORGOTTEN \<or>
          (i_state x = I_ACTIVE \<and> map_option a_person (active_association i d) = Some p))"

fun forget_each :: "uuid \<Rightarrow> uuid list \<Rightarrow> time \<Rightarrow> time \<Rightarrow> id_supply \<Rightarrow> forget_plan \<Rightarrow> db \<Rightarrow> forget_error + forget_plan \<times> db" where
  "forget_each p [] now later ids pl d = Inr (pl, d)"
| "forget_each p (i # is) now later ids pl d =
     (if forgettable p d i
      then bindE (forget_one i None now later ids pl d) (\<lambda>(pl1, d1). forget_each p is now later (\<lambda>n. ids (n + 2)) pl1 d1)
      else forget_each p is now later ids pl d)"

definition plan_forget_person ::
  "uuid \<Rightarrow> time \<Rightarrow> time \<Rightarrow> time \<Rightarrow> id_supply \<Rightarrow> id_supply \<Rightarrow> db \<Rightarrow> forget_error + forget_plan \<times> db" where
  "plan_forget_person p now later queued ids op_ids d =
     (case tab_get h_id (people d) p of
        None \<Rightarrow> Inl PersonNotFoundError
      | Some h \<Rightarrow>
          if h_state h \<noteq> H_ACTIVE then Inl PersonNotFoundError
          else bindE (forget_each p (dedup (map a_identity (filter (\<lambda>a. a_person a = p) (associations d)))) now later ids no_plan d)
                 (queue_vectors queued op_ids))"

section \<open>The cleanup\<close>

datatype forget_owed = CropOwed uuid | ErasureOwed owed

record forget_report =
  fr_identities :: "uuid list"
  fr_outstanding :: "forget_owed list"
  fr_changed :: bool

definition fr_complete :: "forget_report \<Rightarrow> bool" where
  "fr_complete rp \<longleftrightarrow> fr_outstanding rp = []"

text \<open>A crop's bytes, then a half-written copy; an error that is not the file system's is raised.\<close>

fun finish_crops ::
  "store_env \<Rightarrow> time \<Rightarrow> (uuid \<times> string) list \<Rightarrow> db \<Rightarrow> managed_files \<Rightarrow> forget_error + forget_owed list \<times> db \<times> managed_files" where
  "finish_crops se now [] d fs = Inr ([], d, fs)"
| "finish_crops se now ((i, key) # cs) d fs =
     (case complete_artifact_deletion se i now d fs (\<lambda>d. d) of
        (Inr _, d1, fs1) \<Rightarrow>
          let n = staging_name key; stuck = (se_locked se n \<and> n \<in> fst ` set (mf_staging fs1)) in
          bindE (finish_crops se now cs d1 (if stuck then fs1 else remove_staged n fs1)) (\<lambda>(owed, s).
            Inr ((if stuck then [CropOwed i] else []) @ owed, s))
      | (Inl (OsError _), d1, fs1) \<Rightarrow> bindE (finish_crops se now cs d1 fs1) (\<lambda>(owed, s). Inr (CropOwed i # owed, s))
      | (Inl UnsafeStorageKey, d1, fs1) \<Rightarrow> bindE (finish_crops se now cs d1 fs1) (\<lambda>(owed, s). Inr (CropOwed i # owed, s))
      | (Inl e, _, _) \<Rightarrow> Inl (CropRefused e))"

definition finish_forget ::
  "store_env \<Rightarrow> erasure_env \<Rightarrow> time \<Rightarrow> id_supply \<Rightarrow> forget_plan \<Rightarrow> db \<Rightarrow> managed_files \<Rightarrow> index_root \<Rightarrow>
     forget_error + forget_report \<times> db \<times> managed_files \<times> index_root" where
  "finish_forget se ee now ids pl d fs files =
     bindE (finish_crops se now (fp_crops pl) d fs) (\<lambda>(crops, d1, fs1).
       if fp_vectors pl \<noteq> [] then
         bindE (map_sum QueueRefused id (erase_reps ee (fp_vectors pl) now ids d1 files)) (\<lambda>(rp, d2, files2).
           Inr (\<lparr>fr_identities = fp_identities pl, fr_outstanding = crops @ map ErasureOwed (outstanding_cleanup rp),
                 fr_changed = (fp_changed pl \<or> er_erased rp \<noteq> [])\<rparr>, d2, fs1, files2))
       else (case settle_log (ee_truncation ee) d1 of (owed, d2) \<Rightarrow>
           Inr (\<lparr>fr_identities = fp_identities pl, fr_outstanding = crops @ map ErasureOwed owed,
                 fr_changed = fp_changed pl\<rparr>, d2, fs1, files)))"

definition forget ::
  "store_env \<Rightarrow> erasure_env \<Rightarrow> uuid \<Rightarrow> int option \<Rightarrow> time \<Rightarrow> time \<Rightarrow> time \<Rightarrow> id_supply \<Rightarrow> id_supply \<Rightarrow> id_supply \<Rightarrow>
     db \<Rightarrow> managed_files \<Rightarrow> index_root \<Rightarrow> forget_error + forget_report \<times> db \<times> managed_files \<times> index_root" where
  "forget se ee i expected now later queued ids op_ids more_ids d fs files =
     bindE (plan_forget i expected now later queued ids op_ids d) (\<lambda>(pl, d1). finish_forget se ee queued more_ids pl d1 fs files)"

definition forget_person ::
  "store_env \<Rightarrow> erasure_env \<Rightarrow> uuid \<Rightarrow> time \<Rightarrow> time \<Rightarrow> time \<Rightarrow> id_supply \<Rightarrow> id_supply \<Rightarrow> id_supply \<Rightarrow>
     db \<Rightarrow> managed_files \<Rightarrow> index_root \<Rightarrow> forget_error + forget_report \<times> db \<times> managed_files \<times> index_root" where
  "forget_person se ee p now later queued ids op_ids more_ids d fs files =
     bindE (plan_forget_person p now later queued ids op_ids d) (\<lambda>(pl, d1). finish_forget se ee queued more_ids pl d1 fs files)"

section \<open>What the search finds\<close>

lemma family_from_spec:
  assumes "set frontier \<subseteq> set fam"
    and "\<And>x. x \<in> set t \<Longrightarrow> i_merged_into x \<in> Some ` (set fam - set frontier) \<Longrightarrow> i_id x \<in> set fam"
  shows "set fam \<subseteq> set (family_from t fam frontier) \<and>
    (\<forall>x\<in>set t. i_merged_into x \<in> Some ` set (family_from t fam frontier) \<longrightarrow> i_id x \<in> set (family_from t fam frontier)) \<and>
    (\<forall>k\<in>set (family_from t fam frontier). \<exists>j\<in>set fam. (k, j) \<in> (merge_edges t)\<^sup>*)"
  using assms
proof (induction t fam frontier rule: family_from.induct)
  case (1 t fam frontier)
  show ?case
  proof (cases "frontier = []")
    case True
    have step: "family_from t fam frontier = fam" using True by (simp add: family_from.simps)
    show ?thesis unfolding step using True "1.prems"(2) by auto
  next
    case False
    let ?found = "newly_merged t fam frontier"
    have step: "family_from t fam frontier = family_from t (fam @ ?found) ?found"
      using False by (subst family_from.simps) (simp add: Let_def)
    have "set ?found \<subseteq> set (fam @ ?found)" by simp
    moreover have "i_id x \<in> set (fam @ ?found)"
      if "x \<in> set t" "i_merged_into x \<in> Some ` (set (fam @ ?found) - set ?found)" for x
    proof (cases "i_merged_into x \<in> Some ` set frontier")
      case True
      with that(1) show ?thesis by (auto simp: set_newly_merged)
    next
      case False
      with that "1.prems"(2) [OF that(1)] show ?thesis by auto
    qed
    ultimately have IH: "set (fam @ ?found) \<subseteq> set (family_from t fam frontier)"
        "\<forall>x\<in>set t. i_merged_into x \<in> Some ` set (family_from t fam frontier) \<longrightarrow> i_id x \<in> set (family_from t fam frontier)"
        "\<forall>k\<in>set (family_from t fam frontier). \<exists>j\<in>set (fam @ ?found). (k, j) \<in> (merge_edges t)\<^sup>*"
      using "1.IH" [OF False refl] unfolding step by blast+
    have "\<exists>i\<in>set fam. (k, i) \<in> (merge_edges t)\<^sup>*" if "k \<in> set (family_from t fam frontier)" for k
    proof -
      obtain j where j: "j \<in> set (fam @ ?found)" "(k, j) \<in> (merge_edges t)\<^sup>*" using IH(3) \<open>k \<in> _\<close> by blast
      show ?thesis
      proof (cases "j \<in> set fam")
        case True
        with j show ?thesis by blast
      next
        case False
        then have "j \<in> set ?found" using j(1) by simp
        then obtain x i where "x \<in> set t" "i_id x = j" "i_merged_into x = Some i" "i \<in> set frontier"
          by (auto simp: set_newly_merged)
        then have "(j, i) \<in> merge_edges t" "i \<in> set fam" using "1.prems"(1) by (auto simp: merge_edges_def)
        with j(2) show ?thesis by (meson rtrancl.rtrancl_into_rtrancl)
      qed
    qed
    with IH show ?thesis by auto
  qed
qed

text \<open>The family is the identity with everything that merged into it, directly or through others.\<close>

lemma set_family: "set (family d i) = {k. (k, i) \<in> (merge_edges (identities d))\<^sup>*}"
proof -
  let ?F = "set (family d i)"
  have spec: "i \<in> ?F" "\<forall>x\<in>set (identities d). i_merged_into x \<in> Some ` ?F \<longrightarrow> i_id x \<in> ?F"
      "\<forall>k\<in>?F. (k, i) \<in> (merge_edges (identities d))\<^sup>*"
    using family_from_spec [of "[i]" "[i]" "identities d"] by (auto simp: family_def)
  have "k \<in> ?F" if "(k, i) \<in> (merge_edges (identities d))\<^sup>*" for k
    using that
  proof (induction rule: converse_rtrancl_induct)
    case base
    show ?case by (rule spec(1))
  next
    case (step k j)
    then obtain x where "x \<in> set (identities d)" "i_id x = k" "i_merged_into x = Some j" by (auto simp: merge_edges_def)
    with step.IH spec(2) show ?case by auto
  qed
  with spec(3) show ?thesis by blast
qed

section \<open>The crops that go\<close>

definition retired :: "time \<Rightarrow> artifact \<Rightarrow> artifact" where
  "retired now f = (if f_state f = A_PENDING \<or> f_state f \<in> set deletable_states
     then f\<lparr>f_state := A_DELETING, f_delete_requested := Some now\<rparr> else f)"

lemma retired_same [simp]: "same_row (retired now f) f" "f_id (retired now f) = f_id f"
  by (simp_all add: retired_def same_row_def)

lemma retired_row:
  assumes "f \<in> set (artifacts d)" and "artifacts_ok (artifacts d)" and "f_mode f = MANAGED"
  shows "retire_one now f d = Inr (d\<lparr>artifacts := map (\<lambda>g. if f_id g = f_id f then retired now g else g) (artifacts d)\<rparr>)"
proof -
  have at: "map (\<lambda>g. if f_id g = f_id f then v g else g) (artifacts d) =
      map (\<lambda>g. if f_id g = f_id f then retired now g else g) (artifacts d)" if "v f = retired now f" for v
    by (rule map_cong) (use that artifacts_ok_same [OF assms(2) _ assms(1)] in auto)
  show ?thesis
  proof (cases "f_state f = A_PENDING \<or> f_state f \<in> set deletable_states")
    case True
    then show ?thesis
      using transition_artifact_at [OF assms] at [of "\<lambda>g. g\<lparr>f_state := A_DELETING, f_delete_requested := Some now\<rparr>"]
      by (auto simp: retire_one_def abandon_artifact_def request_artifact_deletion_def retired_def)
  next
    case False
    then show ?thesis using at [of "\<lambda>g. g"] by (auto simp: retire_one_def retired_def)
  qed
qed

lemma retire_each_rows:
  assumes "artifacts_ok (artifacts d)" and "set fs \<subseteq> set (artifacts d)" and "distinct (map f_id fs)" and "\<forall>f\<in>set fs. f_mode f = MANAGED"
  shows "retire_each now fs d = Inr (d\<lparr>artifacts := map (\<lambda>f. if f_id f \<in> f_id ` set fs then retired now f else f) (artifacts d)\<rparr>)"
  unfolding retire_each_def by (rule each_artifact_rows [OF assms(1-3)]) (use assms(4) retired_row in auto)

lemma crop_of_chunks:
  "(\<exists>c\<in>set (chunks erasure_chunk fam). crop_of (\<lambda>r. r_identity r \<in> Some ` set c) d a) \<longleftrightarrow>
     crop_of (\<lambda>r. r_identity r \<in> Some ` set fam) d a"
proof -
  have "set fam = \<Union> (set ` set (chunks erasure_chunk fam))"
    using concat_chunks [of erasure_chunk fam] by (metis erasure_chunk_def set_concat zero_less_numeral)
  then show ?thesis by (auto simp: crop_of_def list_ex_iff)
qed

definition retirable :: "uuid list \<Rightarrow> db \<Rightarrow> artifact \<Rightarrow> bool" where
  "retirable fam d f \<longleftrightarrow> f_mode f = MANAGED \<and> f_state f \<in> set unfinished \<and>
     crop_of (\<lambda>r. r_identity r \<in> Some ` set fam) d (f_id f) \<and> \<not> shared_crop fam d (f_id f)"

lemma set_own_crops: "set (own_crops fam d) = {f \<in> set (artifacts d). retirable fam d f}"
  using crop_of_chunks [of fam d] by (auto simp: own_crops_def crop_candidates_def retirable_def)

text \<open>
  Forgetting removes its own face crops and no one else's. In a library whose artifacts have their
  own ids and keys, the crops of the faces of a family of identities can always be retired; it writes
  exactly the managed crops that some face of the family shows and no face of anyone else, or of
  nobody, with a vector still to be removed: an available, missing or unfinished one becomes DELETING
  in this commit, one already on its way is left as it is. Each is listed once with its storage key.
\<close>

theorem only_own_crops_are_retired:
  assumes "artifacts_ok (artifacts d)"
  shows "\<exists>crops. retire_crops fam now d =
      Inr (crops, d\<lparr>artifacts := map (\<lambda>f. if retirable fam d f then retired now f else f) (artifacts d)\<rparr>) \<and>
    set crops = {(f_id f, the (f_key f)) | f. f \<in> set (artifacts d) \<and> retirable fam d f} \<and> distinct (map fst crops)"
proof -
  let ?cs = "own_crops fam d"
  have cs: "set ?cs \<subseteq> set (artifacts d)" "\<forall>f\<in>set ?cs. f_mode f = MANAGED" by (auto simp: set_own_crops retirable_def)
  have "inj_on f_id (set ?cs)" using artifacts_ok_same [OF assms] cs(1) by (meson inj_onI subsetD)
  moreover have "distinct ?cs" by (simp add: own_crops_def crop_candidates_def)
  ultimately have dist: "distinct (map f_id ?cs)" by (simp add: distinct_map)
  have "f_id f \<in> f_id ` set ?cs \<longleftrightarrow> retirable fam d f" if "f \<in> set (artifacts d)" for f
    using artifacts_ok_same [OF assms that] that by (auto simp: set_own_crops)
  then have "map (\<lambda>f. if f_id f \<in> f_id ` set ?cs then retired now f else f) (artifacts d) =
      map (\<lambda>f. if retirable fam d f then retired now f else f) (artifacts d)" by simp
  then have "retire_crops fam now d = Inr (map (\<lambda>f. (f_id f, the (f_key f))) ?cs,
      d\<lparr>artifacts := map (\<lambda>f. if retirable fam d f then retired now f else f) (artifacts d)\<rparr>)"
    using retire_each_rows [OF assms cs(1) dist cs(2)] by (simp add: retire_crops_def Let_def)
  moreover have "set (map (\<lambda>f. (f_id f, the (f_key f))) ?cs) = {(f_id f, the (f_key f)) | f. f \<in> set (artifacts d) \<and> retirable fam d f}"
    by (auto simp: set_own_crops)
  moreover have "distinct (map fst (map (\<lambda>f. (f_id f, the (f_key f))) ?cs))" using dist by (simp add: comp_def)
  ultimately show ?thesis by blast
qed

section \<open>The transaction keeps the memory's invariant\<close>

text \<open>A statement repeated over chunks of ids is one statement over all of them.\<close>

lemma fold_update_in:
  assumes "\<And>r. key (f r) = key r" and "\<And>r. f (f r) = f r"
  shows "fold (\<lambda>c. tab_update (\<lambda>r. key r \<in> set c) f) cs t = tab_update (\<lambda>r. key r \<in> set (concat cs)) f t"
proof (induction cs arbitrary: t)
  case Nil
  then show ?case by (simp add: tab_update_none)
next
  case (Cons c cs)
  then show ?case by (auto simp: tab_update_def assms comp_def)
qed

lemma chunked_update:
  assumes "\<And>r. key (f r) = key r" and "\<And>r. f (f r) = f r"
  shows "fold (\<lambda>c. tab_update (\<lambda>r. key r \<in> set c) f) (chunks erasure_chunk ids) t = tab_update (\<lambda>r. key r \<in> set ids) f t"
  by (simp add: fold_update_in assms concat_chunks erasure_chunk_def)

lemma set_family_vectors:
  "set (family_vectors fam sts d) = r_id ` {r \<in> set (reps d). r_identity r \<in> Some ` set fam \<and> r_state r \<in> set sts}"
proof -
  have "set fam = \<Union> (set ` set (chunks erasure_chunk fam))"
    using concat_chunks [of erasure_chunk fam] by (metis erasure_chunk_def set_concat zero_less_numeral)
  then show ?thesis by (auto simp: family_vectors_def)
qed

text \<open>The last updates, as tables.\<close>

definition closing :: "uuid \<Rightarrow> uuid list \<Rightarrow> time \<Rightarrow> identity \<Rightarrow> identity" where
  "closing i fam now x =
     (let y = (if i_id x \<in> set fam then x\<lparr>i_face := None\<rparr> else x)
      in if i_id x = i then y\<lparr>i_state := I_FORGOTTEN, i_forgotten := Some now, i_updated := now, i_rev := i_rev x + 1\<rparr> else y)"

definition hidden :: "uuid \<Rightarrow> occurrence \<Rightarrow> occurrence" where
  "hidden i oc = (if oc_identity oc = i \<and> oc_state oc = OC_ACTIVE then oc\<lparr>oc_state := OC_DELETED\<rparr> else oc)"

lemma close_tables:
  assumes "tab_keyed oc_id (occurrences d)"
  shows "set_forgotten i now (clear_faces fam (hide_faces (shown_faces i d) d)) =
    d\<lparr>identities := map (closing i fam now) (identities d), occurrences := map (hidden i) (occurrences d)\<rparr>"
proof -
  have "tab_update (\<lambda>oc. oc_id oc \<in> set (shown_faces i d)) (\<lambda>oc. oc\<lparr>oc_state := OC_DELETED\<rparr>) (occurrences d) = map (hidden i) (occurrences d)"
    unfolding tab_update_def
  proof (rule map_cong [OF refl])
    fix oc assume oc: "oc \<in> set (occurrences d)"
    have "oc_id oc \<in> set (shown_faces i d) \<longleftrightarrow> oc_identity oc = i \<and> oc_state oc = OC_ACTIVE"
      using tab_keyed_inj [OF assms oc] oc by (auto simp: shown_faces_def)
    then show "(if oc_id oc \<in> set (shown_faces i d) then oc\<lparr>oc_state := OC_DELETED\<rparr> else oc) = hidden i oc"
      by (simp add: hidden_def)
  qed
  moreover have "tab_update (\<lambda>x. i_id x = i) (\<lambda>x. x\<lparr>i_state := I_FORGOTTEN, i_forgotten := Some now, i_updated := now, i_rev := i_rev x + 1\<rparr>)
      (tab_update (\<lambda>x. i_id x \<in> set fam) (\<lambda>x. x\<lparr>i_face := None\<rparr>) (identities d)) = map (closing i fam now) (identities d)"
    by (simp add: tab_update_def closing_def Let_def)
  ultimately show ?thesis
    by (simp add: set_forgotten_def clear_faces_def hide_faces_def chunked_update)
qed

lemma closing_simps [simp]:
  "i_id (closing i fam now x) = i_id x" "i_merged_into (closing i fam now x) = i_merged_into x"
  "i_state (closing i fam now x) = (if i_id x = i then I_FORGOTTEN else i_state x)"
  "i_rev (closing i fam now x) = (if i_id x = i then i_rev x + 1 else i_rev x)"
  by (simp_all add: closing_def Let_def)

lemma hidden_simps [simp]:
  "oc_id (hidden i oc) = oc_id oc" "oc_identity (hidden i oc) = oc_identity oc"
  "oc_state (hidden i oc) = OC_ACTIVE \<longleftrightarrow> oc_state oc = OC_ACTIVE \<and> oc_identity oc \<noteq> i"
  by (auto simp: hidden_def)

lemma tab_get_map:
  assumes "\<And>r. key (f r) = key r"
  shows "tab_get key (map f t) i = map_option f (tab_get key t i)"
  using tab_get_update [of key f "\<lambda>_. True" t i] assms by (simp add: tab_update_def)

lemma close_ok:
  assumes "memory_ok d" and "tab_get i_id (identities d) i = Some x" and "i_state x = I_ACTIVE"
    and "\<forall>r\<in>set (reps d). r_state r = R_ACTIVE \<longrightarrow> r_identity r \<noteq> Some i" and "active_association i d = None"
  shows "memory_ok (d\<lparr>identities := map (closing i fam now) (identities d), occurrences := map (hidden i) (occurrences d)\<rparr>)"
proof -
  let ?t = "map (closing i fam now) (identities d)"
  have t: "?t = tab_update (\<lambda>_. True) (closing i fam now) (identities d)" by (simp add: tab_update_def)
  have ids: "identities_ok (identities d)" using assms(1) by (simp add: memory_ok_def)
  have i: "i_merged_into y = None" if "y \<in> set (identities d)" "i_id y = i" for y
    using that assms(2,3) ids tab_get_map_option_state [OF assms(2)] by (auto simp: identities_ok_def)
  have "merge_edges ?t = merge_edges (identities d)" unfolding t by (rule merge_edges_keep) simp
  moreover have "tab_keyed i_id ?t" unfolding t using ids by (simp add: tab_keyed_update identities_ok_def)
  moreover have "identity_row_ok y \<and> (i_merged_into y \<noteq> None \<longrightarrow> i_state y = I_MERGED)" if y: "y \<in> set ?t" for y
  proof -
    obtain z where z: "z \<in> set (identities d)" "y = closing i fam now z" using y by auto
    have row: "identity_row_ok z" "i_merged_into z \<noteq> None \<longrightarrow> i_state z = I_MERGED"
      using ids z(1) by (simp_all add: identities_ok_def)
    show ?thesis
    proof (cases "i_id z = i")
      case True
      then show ?thesis using i [OF z(1) True] row(1) by (simp add: z(2) identity_row_ok_def)
    next
      case False
      then show ?thesis using row by (simp add: z(2) identity_row_ok_def)
    qed
  qed
  moreover have "acyclic (merge_edges (identities d))" using ids by (simp add: identities_ok_def)
  ultimately have iok: "identities_ok ?t" unfolding identities_ok_def by metis
  have act: "active_id ?t j \<longleftrightarrow> active_id (identities d) j \<and> j \<noteq> i" for j
    by (auto simp: active_id_def tab_get_map dest: tab_get_SomeD split: if_split_asm)
  have as: "a_identity a \<noteq> i" if "a \<in> set (associations d)" "a_state a = AS_ACTIVE" for a
    using that assms(5) by (auto simp: active_association_def find_None_iff)
  have "owned_ok (identities d) (reps d) (occurrences d) (associations d)" using assms(1) by (simp add: memory_ok_def)
  then have "owned_ok ?t (reps d) (map (hidden i) (occurrences d)) (associations d)"
    unfolding owned_ok_def act using assms(4) as by auto
  moreover have "tab_keyed oc_id (map (hidden i) (occurrences d))"
    using assms(1) by (simp add: memory_ok_def tab_keyed_def comp_def)
  ultimately show ?thesis using iok assms(1) by (simp add: memory_ok_def)
qed

text \<open>Ending the person link does not look at representations, and changes no memory.\<close>

lemma end_link_reps: "end_link i now ids (d\<lparr>reps := R\<rparr>) = map_sum id (\<lambda>x. x\<lparr>reps := R\<rparr>) (end_link i now ids d)"
  by (simp add: end_link_def remove_identity_from_person_def active_association_def evidence_append_def Let_def
      touch_identity_def end_association_def split: option.split)

lemma end_link_frame:
  assumes "end_link i now ids d = Inr d1"
  shows "same_memory d d1" "artifacts d1 = artifacts d" "observations d1 = observations d" "people d1 = people d"
    "spaces d1 = spaces d" "lineages d1 = lineages d" "app_states d1 = app_states d"
    "\<exists>f. identities d1 = map f (identities d) \<and> same_standing f \<and> (\<forall>x. i_face (f x) = i_face x) \<and> (\<forall>x. i_id x \<noteq> i \<longrightarrow> f x = x)"
proof -
  have f: "\<exists>f. identities d = map f (identities d) \<and> same_standing f \<and> (\<forall>x. i_face (f x) = i_face x) \<and> (\<forall>x. i_id x \<noteq> i \<longrightarrow> f x = x)" for d :: db
    by (rule exI [of _ "\<lambda>x. x"]) (simp add: same_standing_def)
  have g: "\<exists>f. tab_update (\<lambda>x. i_id x = i) (\<lambda>x. x\<lparr>i_rev := i_rev x + 1, i_updated := now\<rparr>) (identities d) = map f (identities d) \<and>
      same_standing f \<and> (\<forall>x. i_face (f x) = i_face x) \<and> (\<forall>x. i_id x \<noteq> i \<longrightarrow> f x = x)"
    by (rule exI [of _ "\<lambda>x. if i_id x = i then x\<lparr>i_rev := i_rev x + 1, i_updated := now\<rparr> else x"])
      (simp add: tab_update_def same_standing_def)
  show "same_memory d d1" "artifacts d1 = artifacts d" "observations d1 = observations d" "people d1 = people d"
    "spaces d1 = spaces d" "lineages d1 = lineages d" "app_states d1 = app_states d"
    using assms by (auto simp: end_link_def remove_identity_from_person_def active_association_def evidence_append_def Let_def
        touch_identity_def end_association_def same_memory_def bindE_Inr_iff split: option.split_asm if_split_asm)
  show "\<exists>f. identities d1 = map f (identities d) \<and> same_standing f \<and> (\<forall>x. i_face (f x) = i_face x) \<and> (\<forall>x. i_id x \<noteq> i \<longrightarrow> f x = x)"
  proof (cases "active_association i d")
    case None
    with assms f show ?thesis by (simp add: end_link_def)
  next
    case (Some a)
    have "identities d1 = tab_update (\<lambda>x. i_id x = i) (\<lambda>x. x\<lparr>i_rev := i_rev x + 1, i_updated := now\<rparr>) (identities d)"
      using assms Some by (auto simp: end_link_def remove_identity_from_person_def evidence_append_def Let_def
        touch_identity_def end_association_def bindE_Inr_iff split: if_split_asm)
    with g show ?thesis by simp
  qed
qed

lemma end_link_ok:
  assumes "memory_ok d" and "end_link i now ids d = Inr d1"
  shows "memory_ok d1" and "active_association j d1 = (if j = i then None else active_association j d)"
proof -
  show "memory_ok d1"
    using assms remove_identity_from_person_frame(1) [OF assms(1)]
    by (auto simp: end_link_def bindE_Inr_iff split: option.split_asm)
  show "active_association j d1 = (if j = i then None else active_association j d)"
    using assms remove_identity_from_person_frame(4) [OF assms(1)]
    by (auto simp: end_link_def bindE_Inr_iff split: option.split_asm)
qed

text \<open>What forgetting an active identity does to the tables, when it answers.\<close>

lemma retire_crops_frame:
  assumes "retire_crops fam now d = Inr (crops, d')"
  shows "\<exists>t. d' = d\<lparr>artifacts := t\<rparr>"
proof -
  have one: "\<exists>t. d1 = d\<lparr>artifacts := t\<rparr>" if "retire_one now f d = Inr d1" for f d d1
    using that
    by (auto simp: retire_one_def abandon_artifact_def request_artifact_deletion_def split: if_split_asm
        dest!: transition_artifact_Inr(1) intro: exI [of _ "artifacts d"])
  have "each_artifact (retire_one now) (own_crops fam d) d = Inr d'"
    using assms by (auto simp: retire_crops_def retire_each_def Let_def bindE_Inr_iff)
  from each_artifact_frame [OF one this] show ?thesis .
qed

lemma refused_Inr: "refused m = Inr x \<longleftrightarrow> m = Inr x"
  by (cases m) simp_all

lemma forget_active_tables:
  assumes "forget_active i fam now later ids d = Inr ((vectors, crops), d')" and "tab_keyed oc_id (occurrences d)"
  obtains d1 as es ers ecs where "end_link i later ids d = Inr d1" "vectors = family_vectors fam with_vector d1"
    "d' = d1\<lparr>artifacts := as, evidences := es, ev_reps := ers, ev_candidates := ecs,
       identities := map (closing i fam now) (identities d1), occurrences := map (hidden i) (occurrences d1)\<rparr>"
    "retire_crops fam now d1 = Inr (crops, d1\<lparr>artifacts := as\<rparr>)"
proof -
  obtain d1 where d1: "end_link i later ids d = Inr d1" using assms(1) by (auto simp: forget_active_def bindE_Inr_iff)
  obtain d2 e d3 where d2: "retire_crops fam now d1 = Inr (crops, d2)" and d3: "evidence_append e [] [] d2 = Inr d3"
    and v: "vectors = family_vectors fam with_vector d1"
    and d': "d' = set_forgotten i now (clear_faces fam (hide_faces (shown_faces i d1) d3))"
    using assms(1) d1
    by (auto simp: forget_active_def bindE_Inr_iff Let_def refused_Inr)
  obtain as where as: "d2 = d1\<lparr>artifacts := as\<rparr>" using retire_crops_frame [OF d2] by blast
  obtain es ers ecs where es: "d3 = d2\<lparr>evidences := es, ev_reps := ers, ev_candidates := ecs\<rparr>"
    using d3 by (rule evidence_append_Inr)
  have oc: "occurrences d1 = occurrences d" using end_link_frame(1) [OF d1] by (simp add: same_memory_def)
  have "tab_keyed oc_id (occurrences d3)" and "shown_faces i d1 = shown_faces i d3"
    using assms(2) by (simp_all add: es as oc shown_faces_def)
  then have "d' = d3\<lparr>identities := map (closing i fam now) (identities d3), occurrences := map (hidden i) (occurrences d3)\<rparr>"
    unfolding d' using close_tables by simp
  then have "d' = d1\<lparr>artifacts := as, evidences := es, ev_reps := ers, ev_candidates := ecs,
       identities := map (closing i fam now) (identities d1), occurrences := map (hidden i) (occurrences d1)\<rparr>"
    by (simp add: es as)
  with d1 v d2 as show ?thesis by (intro that) simp_all
qed

text \<open>
  Between the identities of a batch, the invariant holds but for the vectors that the batch will take
  out of use when it queues them.
\<close>

definition memory_but :: "uuid list \<Rightarrow> db \<Rightarrow> bool" where
  "memory_but vs d \<longleftrightarrow> memory_ok (d\<lparr>reps := map (excluded takeable vs) (reps d)\<rparr>)"

lemma excluded_append: "excluded sts (vs @ ws) r = excluded sts ws (excluded sts vs r)" if "R_ERASING \<notin> set sts"
  using that by (auto simp: excluded_def)

lemma takeable_iff: "st \<in> set takeable \<longleftrightarrow> st \<notin> {R_ERASING, R_ERASED}"
  by (cases st) (auto simp: takeable_def erasable_def)

lemma memory_but_more: "memory_but vs d \<Longrightarrow> memory_but (vs @ ws) d"
  unfolding memory_but_def
proof -
  let ?X = "d\<lparr>reps := map (excluded takeable vs) (reps d)\<rparr>" and ?Y = "d\<lparr>reps := map (excluded takeable (vs @ ws)) (reps d)\<rparr>"
  assume ok: "memory_ok ?X"
  have "excluded takeable (vs @ ws) = (\<lambda>r. excluded takeable ws (excluded takeable vs r))"
    by (rule ext, rule excluded_append) (simp add: takeable_iff)
  then have "requeued ?X (excluded takeable ws) ?Y" by (simp add: requeued_def comp_def)
  then show "memory_ok ?Y"
    by (rule requeued_excluded_ok [OF ok]) (use ok in \<open>simp_all add: memory_ok_def takeable_iff\<close>)
qed

lemma memory_but_Nil: "memory_but [] d = memory_ok d"
proof -
  have "map (excluded takeable []) (reps d) = reps d" by (rule map_idI) simp
  then show ?thesis by (simp add: memory_but_def)
qed

lemma forget_active_ok:
  assumes "memory_but vs d" and "tab_get i_id (identities d) i = Some x" and "i_state x = I_ACTIVE" and "i \<in> set fam"
    and "forget_active i fam now later ids d = Inr ((vectors, crops), d')"
  shows "memory_but (vs @ vectors) d'"
proof -
  have oc: "tab_keyed oc_id (occurrences d)" using assms(1) by (simp add: memory_but_def memory_ok_def)
  obtain d1 as es ers ecs where d1: "end_link i later ids d = Inr d1" and v: "vectors = family_vectors fam with_vector d1"
    and d': "d' = d1\<lparr>artifacts := as, evidences := es, ev_reps := ers, ev_candidates := ecs,
       identities := map (closing i fam now) (identities d1), occurrences := map (hidden i) (occurrences d1)\<rparr>"
    by (rule forget_active_tables [OF assms(5) oc])
  have r1: "reps d1 = reps d" using end_link_frame(1) [OF d1] by (simp add: same_memory_def)
  define R where "R = map (excluded takeable (vs @ vectors)) (reps d)"
  have ok: "memory_ok (d\<lparr>reps := R\<rparr>)" using memory_but_more [OF assms(1)] by (simp add: memory_but_def R_def)
  have run: "end_link i later ids (d\<lparr>reps := R\<rparr>) = Inr (d1\<lparr>reps := R\<rparr>)" by (simp add: end_link_reps d1)
  note l = end_link_ok [OF ok run]
  obtain f where f: "identities d1 = map f (identities d)" "same_standing f" using end_link_frame(8) [OF d1] by blast
  have "tab_get i_id (identities d1) i = Some (f x)" "i_state (f x) = I_ACTIVE"
    using assms(2,3) f(2) by (simp_all add: f(1) tab_get_map same_standing_def)
  moreover have "r_identity r \<noteq> Some i" if R: "r \<in> set R" "r_state r = R_ACTIVE" for r
  proof
    assume own: "r_identity r = Some i"
    obtain r0 where r0: "r0 \<in> set (reps d)" "r = excluded takeable (vs @ vectors) r0" using R(1) by (auto simp: R_def)
    have st: "r_state r0 = R_ACTIVE" "r_id r0 \<notin> set vectors"
      using R(2) by (auto simp: r0(2) excluded_def takeable_iff split: if_split_asm)
    have "r_id r0 \<in> set vectors"
      using own st(1) r0 assms(4) by (auto simp: v set_family_vectors r1 with_vector_def)
    with st show False by blast
  qed
  moreover have "active_association i (d1\<lparr>reps := R\<rparr>) = None" using l(2) [of i] by simp
  ultimately have "memory_ok (d1\<lparr>reps := R, identities := map (closing i fam now) (identities d1), occurrences := map (hidden i) (occurrences d1)\<rparr>)"
    using close_ok [OF l(1), of i "f x" fam now] by simp
  then show ?thesis by (simp add: memory_but_def d' R_def r1 memory_ok_def)
qed

lemma queue_vectors_ok:
  assumes "memory_but (fp_vectors pl) d" and "queue_vectors now ids (pl, d) = Inr (pl', d')"
  shows "memory_ok d'" and "pl' = pl" and "requeued d (excluded takeable (fp_vectors pl)) d'" and "erasing_queued d'"
proof -
  have q: "queue_in (fp_vectors pl) now ids d = Inr d'" and "pl' = pl"
    using assms(2) by (cases "queue_in (fp_vectors pl) now ids d"; simp add: queue_vectors_def)+
  have "queue_inv (index_ops d)" using assms(1) by (simp add: memory_but_def memory_ok_def)
  note raw = queue_in_raw [OF this q]
  show "pl' = pl" by fact
  show "requeued d (excluded takeable (fp_vectors pl)) d'" "erasing_queued d'" by (fact raw)+
  have "d' = d\<lparr>reps := map (excluded takeable (fp_vectors pl)) (reps d), index_ops := index_ops d'\<rparr>"
    using raw(1) by (simp add: requeued_def)
  then obtain ops where "d' = d\<lparr>reps := map (excluded takeable (fp_vectors pl)) (reps d), index_ops := ops\<rparr>" "queue_inv ops"
    using raw(2) by blast
  then show "memory_ok d'" using assms(1) by (simp add: memory_but_def memory_ok_def)
qed

section \<open>Forgetting one, and forgetting a person\<close>

lemma memory_but_owned:
  assumes "memory_but vs d" and "active_association j d = Some a"
  shows "active_id (identities d) j"
proof -
  have "a \<in> set (associations d)" "a_identity a = j" "a_state a = AS_ACTIVE"
    using assms(2) by (auto simp: active_association_def find_Some_iff)
  with assms(1) show ?thesis unfolding memory_but_def memory_ok_def owned_ok_def by auto
qed

lemma family_self: "i \<in> set (family d i)"
  by (simp add: set_family)

lemma active_association_cong: "associations d' = associations d \<Longrightarrow> active_association j d' = active_association j d"
  by (simp add: active_association_def)

lemma forget_one_ok:
  assumes but: "memory_but (fp_vectors pl) d" and run: "forget_one i expected now later ids pl d = Inr (pl', d')"
  shows "memory_but (fp_vectors pl') d'" and "people d' = people d" and "reps d' = reps d"
    and "map_option i_state (tab_get i_id (identities d') j) =
      (if j = i then Some I_FORGOTTEN else map_option i_state (tab_get i_id (identities d) j))"
    and "active_association j d' = (if j = i then None else active_association j d)"
    and "fp_identities pl' = fp_identities pl @ [i]" and "merge_edges (identities d') = merge_edges (identities d)"
proof -
  have oc: "tab_keyed oc_id (occurrences d)" using but by (simp add: memory_but_def memory_ok_def)
  obtain x where x: "tab_get i_id (identities d) i = Some x" using run by (auto simp: forget_one_def split: option.split_asm)
  have "memory_but (fp_vectors pl') d' \<and> people d' = people d \<and> reps d' = reps d \<and>
    (\<forall>j. map_option i_state (tab_get i_id (identities d') j) =
      (if j = i then Some I_FORGOTTEN else map_option i_state (tab_get i_id (identities d) j))) \<and>
    (\<forall>j. active_association j d' = (if j = i then None else active_association j d)) \<and>
    fp_identities pl' = fp_identities pl @ [i] \<and> merge_edges (identities d') = merge_edges (identities d)"
  proof (cases "i_state x = I_FORGOTTEN")
    case True
    have none: "active_association i d = None"
      using memory_but_owned [OF but, of i] x True by (cases "active_association i d") (auto simp: active_id_def)
    obtain crops where c: "retire_crops (family d i) now d = Inr (crops, d')"
      and pl': "pl' = pl\<lparr>fp_identities := fp_identities pl @ [i], fp_vectors := fp_vectors pl @ family_vectors (family d i) [R_ERASING] d,
        fp_crops := fp_crops pl @ crops\<rparr>"
      using run x True by (auto simp: forget_one_def bindE_Inr_iff Let_def)
    obtain t where t: "d' = d\<lparr>artifacts := t\<rparr>" using retire_crops_frame [OF c] by blast
    have "memory_but (fp_vectors pl') d"
      using memory_but_more [OF but, of "family_vectors (family d i) [R_ERASING] d"] by (simp add: pl')
    then have "memory_but (fp_vectors pl') d'" by (simp add: t memory_but_def memory_ok_def)
    then show ?thesis using x True none by (auto simp: t pl' active_association_def)
  next
    case False
    obtain vectors crops where act: "i_state x = I_ACTIVE" and fa: "forget_active i (family d i) now later ids d = Inr ((vectors, crops), d')"
      and pl': "pl' = pl\<lparr>fp_identities := fp_identities pl @ [i], fp_changed := True, fp_vectors := fp_vectors pl @ vectors,
        fp_crops := fp_crops pl @ crops\<rparr>"
      using run x False by (auto simp: forget_one_def bindE_Inr_iff Let_def split: if_split_asm)
    obtain d1 as es ers ecs where d1: "end_link i later ids d = Inr d1"
      and d': "d' = d1\<lparr>artifacts := as, evidences := es, ev_reps := ers, ev_candidates := ecs,
       identities := map (closing i (family d i) now) (identities d1), occurrences := map (hidden i) (occurrences d1)\<rparr>"
      by (rule forget_active_tables [OF fa oc])
    note fr = end_link_frame [OF d1]
    obtain f where f: "identities d1 = map f (identities d)" "same_standing f" using fr(8) by blast
    have t: "map f (identities d) = tab_update (\<lambda>_. True) f (identities d)" "map (closing i (family d i) now) u = tab_update (\<lambda>_. True) (closing i (family d i) now) u" for u
      by (simp_all add: tab_update_def)
    have "memory_but (fp_vectors pl') d'"
      using forget_active_ok [OF but x act family_self fa] by (simp add: pl')
    moreover have "map_option i_state (tab_get i_id (identities d') j) =
      (if j = i then Some I_FORGOTTEN else map_option i_state (tab_get i_id (identities d) j))" for j
      using x f(2) by (cases "tab_get i_id (identities d) j") (auto simp: d' f(1) tab_get_map same_standing_def dest: tab_get_SomeD)
    moreover have "active_association j d' = (if j = i then None else active_association j d)" for j
    proof -
      let ?R = "map (excluded takeable (fp_vectors pl)) (reps d)"
      have "end_link i later ids (d\<lparr>reps := ?R\<rparr>) = Inr (d1\<lparr>reps := ?R\<rparr>)" by (simp add: end_link_reps d1)
      from end_link_ok(2) [OF but [unfolded memory_but_def] this, of j] show ?thesis
        by (simp add: active_association_def d')
    qed
    moreover have "merge_edges (identities d') = merge_edges (identities d)"
    proof -
      have "merge_edges (identities d') = merge_edges (identities d1)" unfolding d' by (simp add: t(2) merge_edges_keep)
      then show ?thesis using merge_edges_update [OF f(2), of "\<lambda>_. True" "identities d"] by (simp add: f(1) t(1))
    qed
    moreover have "people d' = people d" "reps d' = reps d" using fr(1,4) by (simp_all add: d' same_memory_def)
    ultimately show ?thesis by (simp add: pl')
  qed
  then show "memory_but (fp_vectors pl') d'" "people d' = people d" "reps d' = reps d"
    "map_option i_state (tab_get i_id (identities d') j) =
      (if j = i then Some I_FORGOTTEN else map_option i_state (tab_get i_id (identities d) j))"
    "active_association j d' = (if j = i then None else active_association j d)"
    "fp_identities pl' = fp_identities pl @ [i]" "merge_edges (identities d') = merge_edges (identities d)" by blast+
qed

text \<open>What is not active owns nothing, and neither does what merged into it.\<close>

lemma inactive_owns_nothing: "memory_ok d \<Longrightarrow> \<not> active_id (identities d) i \<Longrightarrow> owns_nothing i d"
  unfolding memory_ok_def owned_ok_def owns_nothing_def owned_reps_def owned_occurrences_def active_association_def
  by (auto simp: filter_empty_conv find_None_iff)

lemma family_inactive:
  assumes "memory_ok d" and "\<not> active_id (identities d) i" and "(k, i) \<in> (merge_edges (identities d))\<^sup>*"
  shows "\<not> active_id (identities d) k"
  using assms(3)
proof (cases rule: converse_rtranclE)
  case base
  with assms(2) show ?thesis by simp
next
  case (step j)
  then obtain x where x: "x \<in> set (identities d)" "i_id x = k" "i_merged_into x = Some j" by (auto simp: merge_edges_def)
  have ok: "identities_ok (identities d)" using assms(1) by (simp add: memory_ok_def)
  then have "i_state x = I_MERGED" "tab_get i_id (identities d) k = Some x"
    using x tab_get_in [of i_id "identities d" x] unfolding identities_ok_def by auto
  then show ?thesis by (simp add: active_id_def)
qed

lemma eligible_owner:
  assumes "eligible d r" and "r_identity r = Some k"
  shows "active_id (identities d) k"
  using assms by (auto simp: eligible_def active_id_def split: option.split_asm)

lemma candidate_eligible:
  assumes "memory_ok d" and "c \<in> set (resolve_ann_candidates s keys d)"
  shows "\<exists>r\<in>set (reps d). eligible d r \<and> r_identity r = ac_identity c"
proof -
  have "reps_ok (reps d)" using assms(1) by (simp add: memory_ok_def)
  with assms(2) obtain k where k: "case rep_at s k (reps d) of None \<Rightarrow> False | Some r \<Rightarrow> eligible d r"
      "ac_identity c = r_identity (the (rep_at s k (reps d)))"
    by (auto simp: only_live_candidates Let_def)
  then obtain r where r: "rep_at s k (reps d) = Some r" "eligible d r" by (auto split: option.split_asm)
  then have "r \<in> set (reps d)" by (auto simp: rep_at_def find_Some_iff)
  with k(2) r show ?thesis by auto
qed

text \<open>What forgetting one identity does besides: the vectors it collects and the rows it leaves alone.\<close>

lemma forget_one_rows:
  assumes "tab_keyed oc_id (occurrences d)" and run: "forget_one i expected now later ids pl d = Inr (pl', d')"
  obtains vs where "fp_vectors pl' = fp_vectors pl @ vs"
    and "set vs \<subseteq> r_id ` {r \<in> set (reps d). r_identity r \<in> Some ` set (family d i)}"
    and "active_id (identities d) i \<longrightarrow>
      r_id ` {r \<in> set (reps d). r_identity r \<in> Some ` set (family d i) \<and> r_state r \<in> set with_vector} \<subseteq> set vs"
    and "\<forall>j. j \<notin> set (family d i) \<longrightarrow> tab_get i_id (identities d') j = tab_get i_id (identities d) j"
    and "\<forall>oc. oc \<in> set (occurrences d) \<and> oc_identity oc \<noteq> i \<longrightarrow> oc \<in> set (occurrences d')"
proof -
  obtain x where x: "tab_get i_id (identities d) i = Some x" using run by (auto simp: forget_one_def split: option.split_asm)
  show thesis
  proof (cases "i_state x = I_FORGOTTEN")
    case True
    then obtain crops where c: "retire_crops (family d i) now d = Inr (crops, d')"
      and pl': "fp_vectors pl' = fp_vectors pl @ family_vectors (family d i) [R_ERASING] d"
      using run x by (auto simp: forget_one_def bindE_Inr_iff Let_def)
    obtain t where t: "d' = d\<lparr>artifacts := t\<rparr>" using retire_crops_frame [OF c] by blast
    show thesis by (rule that [OF pl']) (use x True in \<open>auto simp: set_family_vectors t active_id_def\<close>)
  next
    case False
    obtain vectors crops where fa: "forget_active i (family d i) now later ids d = Inr ((vectors, crops), d')"
      and pl': "fp_vectors pl' = fp_vectors pl @ vectors"
      using run x False by (auto simp: forget_one_def bindE_Inr_iff Let_def split: if_split_asm)
    obtain d1 as es ers ecs where d1: "end_link i later ids d = Inr d1" and v: "vectors = family_vectors (family d i) with_vector d1"
      and d': "d' = d1\<lparr>artifacts := as, evidences := es, ev_reps := ers, ev_candidates := ecs,
       identities := map (closing i (family d i) now) (identities d1), occurrences := map (hidden i) (occurrences d1)\<rparr>"
      by (rule forget_active_tables [OF fa assms(1)])
    note fr = end_link_frame [OF d1]
    have sm: "reps d1 = reps d" "occurrences d1 = occurrences d" using fr(1) by (simp_all add: same_memory_def)
    obtain f where f: "identities d1 = map f (identities d)" "same_standing f" "\<And>x. i_id x \<noteq> i \<Longrightarrow> f x = x"
      using fr(8) by blast
    have key: "i_id (f x) = i_id x" for x using f(2) by (simp add: same_standing_def)
    show thesis
    proof (rule that [OF pl'])
      show "\<forall>j. j \<notin> set (family d i) \<longrightarrow> tab_get i_id (identities d') j = tab_get i_id (identities d) j"
      proof (intro allI impI)
        fix j assume j: "j \<notin> set (family d i)"
        then have "j \<noteq> i" using family_self by blast
        then show "tab_get i_id (identities d') j = tab_get i_id (identities d) j" using j
          by (cases "tab_get i_id (identities d) j")
            (auto simp: d' f(1) tab_get_map key f(3) closing_def simp del: map_map dest: tab_get_SomeD)
      qed
      show "\<forall>oc. oc \<in> set (occurrences d) \<and> oc_identity oc \<noteq> i \<longrightarrow> oc \<in> set (occurrences d')"
        by (force simp: d' sm hidden_def)
    qed (auto simp: v set_family_vectors sm)
  qed
qed


lemma forget_each_ok:
  assumes "forget_each p is now later ids pl d = Inr (pl', d')" and "memory_but (fp_vectors pl) d"
    and "\<forall>j. map_option a_person (active_association j d) = Some p \<longrightarrow> j \<in> set is"
    and "\<forall>j\<in>set (fp_identities pl). map_option i_state (tab_get i_id (identities d) j) = Some I_FORGOTTEN"
  shows "memory_but (fp_vectors pl') d' \<and> people d' = people d \<and>
    (\<forall>j\<in>set (fp_identities pl'). map_option i_state (tab_get i_id (identities d') j) = Some I_FORGOTTEN) \<and>
    (\<forall>j. map_option a_person (active_association j d') \<noteq> Some p) \<and>
    (\<forall>j a. active_association j d = Some a \<and> a_person a \<noteq> p \<longrightarrow> active_association j d' = Some a \<and> active_id (identities d') j) \<and>
    set (fp_identities pl') = set (fp_identities pl) \<union> {i \<in> set is. forgettable p d i} \<or> \<not> distinct is"
  using assms
proof (induction p "is" now later ids pl d rule: forget_each.induct)
  case (1 p now later ids pl d)
  then show ?case using memory_but_owned by fastforce
next
  case (2 p i "is" now later ids pl d)
  have active: "active_id (identities d) j" if "active_association j d = Some a" for j a
    by (rule memory_but_owned [OF "2.prems"(2) that])
  show ?case
  proof (cases "forgettable p d i")
    case False
    have "map_option a_person (active_association i d) \<noteq> Some p"
      using False active [of i] by (auto simp: forgettable_def active_id_def)
    then have "\<forall>j. map_option a_person (active_association j d) = Some p \<longrightarrow> j \<in> set is" using "2.prems"(3) by auto
    from "2.IH"(2) [OF False _ "2.prems"(2) this "2.prems"(4)] False "2.prems"(1) show ?thesis by auto
  next
    case True
    obtain pl1 d1 where one: "forget_one i None now later ids pl d = Inr (pl1, d1)"
      and rec: "forget_each p is now later (\<lambda>n. ids (n + 2)) pl1 d1 = Inr (pl', d')"
      using "2.prems"(1) True by (auto simp: bindE_Inr_iff)
    note o = forget_one_ok [OF "2.prems"(2) one]
    have forg: "map_option i_state (tab_get i_id (identities d1) j) = Some I_FORGOTTEN" if "j \<in> set (fp_identities pl1)" for j
      using that o(4,6) "2.prems"(4) by auto
    have links: "map_option a_person (active_association j d1) = Some p \<longrightarrow> j \<in> set is" for j
      using o(5) [of j] "2.prems"(3) by auto
    have keep: "active_association j d1 = Some a" if "active_association j d = Some a" "a_person a \<noteq> p" for j a
    proof -
      have "j \<noteq> i"
      proof
        assume "j = i"
        with True that active [OF that(1)] show False by (auto simp: forgettable_def active_id_def)
      qed
      with o(5) [of j] that(1) show ?thesis by simp
    qed
    have same: "forgettable p d1 j \<longleftrightarrow> forgettable p d j" if "j \<noteq> i" for j
      using o(4) [of j] o(5) [of j] that
      by (cases "tab_get i_id (identities d) j"; cases "tab_get i_id (identities d1) j") (auto simp: forgettable_def)
    from "2.IH"(1) [OF True rec o(1)] forg links
    have IH: "memory_but (fp_vectors pl') d' \<and> people d' = people d1 \<and>
        (\<forall>j\<in>set (fp_identities pl'). map_option i_state (tab_get i_id (identities d') j) = Some I_FORGOTTEN) \<and>
        (\<forall>j. map_option a_person (active_association j d') \<noteq> Some p) \<and>
        (\<forall>j a. active_association j d1 = Some a \<and> a_person a \<noteq> p \<longrightarrow> active_association j d' = Some a \<and> active_id (identities d') j) \<and>
        set (fp_identities pl') = set (fp_identities pl1) \<union> {i \<in> set is. forgettable p d1 i} \<or> \<not> distinct is"
      by blast
    show ?thesis
    proof (cases "distinct (i # is)")
      case True
      then have later: "{j \<in> set is. forgettable p d1 j} = {j \<in> set is. forgettable p d j}"
        using same by (intro Collect_cong) (metis distinct.simps(2))
      have "distinct is" using True by simp
      with IH have H: "memory_but (fp_vectors pl') d'" "people d' = people d1"
          "\<forall>j\<in>set (fp_identities pl'). map_option i_state (tab_get i_id (identities d') j) = Some I_FORGOTTEN"
          "\<forall>j. map_option a_person (active_association j d') \<noteq> Some p"
          "\<forall>j a. active_association j d1 = Some a \<and> a_person a \<noteq> p \<longrightarrow> active_association j d' = Some a \<and> active_id (identities d') j"
          "set (fp_identities pl') = set (fp_identities pl1) \<union> {i \<in> set is. forgettable p d1 i}" by blast+
      have "set (fp_identities pl') = set (fp_identities pl) \<union> {j \<in> set (i # is). forgettable p d j}"
        unfolding H(6) o(6) later using \<open>forgettable p d i\<close> by auto
      moreover have "people d' = people d" using H(2) o(2) by simp
      moreover have "\<forall>j a. active_association j d = Some a \<and> a_person a \<noteq> p \<longrightarrow>
          active_association j d' = Some a \<and> active_id (identities d') j" using H(5) keep by blast
      ultimately show ?thesis using H(1,3,4) by blast
    qed blast
  qed
qed

text \<open>
  Forgetting a person forgets each identity linked to them, and only those. When the transaction
  answers: the plan names every identity that was or once had been linked to the person and is
  FORGOTTEN already or ACTIVE and still theirs, each of them is FORGOTTEN now and owns nothing; no
  identity is linked to the person any more; whoever is linked to someone else keeps that link and
  stays active; no person changes; and the memory invariant holds.
\<close>

theorem forgetting_a_person:
  assumes "memory_ok d" and "plan_forget_person p now later queued ids op_ids d = Inr (pl, d')"
  shows "set (fp_identities pl) = {i. (\<exists>a\<in>set (associations d). a_identity a = i \<and> a_person a = p) \<and> forgettable p d i} \<and>
    (\<forall>i\<in>set (fp_identities pl). map_option i_state (tab_get i_id (identities d') i) = Some I_FORGOTTEN \<and> owns_nothing i d') \<and>
    (\<forall>j. map_option a_person (active_association j d') \<noteq> Some p) \<and>
    (\<forall>j a. active_association j d = Some a \<and> a_person a \<noteq> p \<longrightarrow> active_association j d' = Some a \<and> active_id (identities d') j) \<and>
    people d' = people d \<and> memory_ok d'"
proof -
  let ?linked = "dedup (map a_identity (filter (\<lambda>a. a_person a = p) (associations d)))"
  obtain pl1 d1 where each: "forget_each p ?linked now later ids no_plan d = Inr (pl1, d1)"
    and q: "queue_vectors queued op_ids (pl1, d1) = Inr (pl, d')"
    using assms(2) by (auto simp: plan_forget_person_def bindE_Inr_iff split: option.split_asm if_split_asm)
  have but: "memory_but (fp_vectors no_plan) d" using assms(1) by (simp add: no_plan_def memory_but_Nil)
  have links: "\<forall>j. map_option a_person (active_association j d) = Some p \<longrightarrow> j \<in> set ?linked"
    by (auto simp: active_association_def find_Some_iff intro!: rev_image_eqI)
  have none: "\<forall>j\<in>set (fp_identities no_plan). map_option i_state (tab_get i_id (identities d) j) = Some I_FORGOTTEN"
    by (simp add: no_plan_def)
  have distinct_linked: "distinct ?linked" by simp
  have none_yet: "fp_identities no_plan = []" by (simp add: no_plan_def)
  have "memory_but (fp_vectors pl1) d1 \<and> people d1 = people d \<and>
    (\<forall>j\<in>set (fp_identities pl1). map_option i_state (tab_get i_id (identities d1) j) = Some I_FORGOTTEN) \<and>
    (\<forall>j. map_option a_person (active_association j d1) \<noteq> Some p) \<and>
    (\<forall>j a. active_association j d = Some a \<and> a_person a \<noteq> p \<longrightarrow> active_association j d1 = Some a \<and> active_id (identities d1) j) \<and>
    set (fp_identities pl1) = set (fp_identities no_plan) \<union> {i \<in> set ?linked. forgettable p d i}"
    using forget_each_ok [OF each but links none] distinct_linked by blast
  then have e: "memory_but (fp_vectors pl1) d1" "people d1 = people d"
    "\<forall>j\<in>set (fp_identities pl1). map_option i_state (tab_get i_id (identities d1) j) = Some I_FORGOTTEN"
    "\<forall>j. map_option a_person (active_association j d1) \<noteq> Some p"
    "\<forall>j a. active_association j d = Some a \<and> a_person a \<noteq> p \<longrightarrow> active_association j d1 = Some a \<and> active_id (identities d1) j"
    "set (fp_identities pl1) = {i \<in> set ?linked. forgettable p d i}"
    unfolding none_yet list.set(1) Un_empty_left by blast+
  note qd = queue_vectors_ok [OF e(1) q]
  have same: "identities d' = identities d1" "people d' = people d" "active_association j d' = active_association j d1" for j
    using requeued_simps [OF qd(3)] e(2) by (simp_all add: active_association_def)
  have "owns_nothing i d'" if "i \<in> set (fp_identities pl)" for i
  proof (rule inactive_owns_nothing [OF qd(1)])
    show "\<not> active_id (identities d') i" using e(3) that by (auto simp: qd(2) same active_id_def)
  qed
  moreover have "set (fp_identities pl) = {i. (\<exists>a\<in>set (associations d). a_identity a = i \<and> a_person a = p) \<and> forgettable p d i}"
    unfolding qd(2) e(6) by auto
  moreover have "\<forall>i\<in>set (fp_identities pl). map_option i_state (tab_get i_id (identities d') i) = Some I_FORGOTTEN"
    using e(3) by (simp only: same qd(2))
  moreover have "\<forall>j. map_option a_person (active_association j d') \<noteq> Some p" using e(4) unfolding same .
  moreover have "\<forall>j a. active_association j d = Some a \<and> a_person a \<noteq> p \<longrightarrow>
      active_association j d' = Some a \<and> active_id (identities d') j" using e(5) by (simp only: same)
  ultimately show ?thesis using qd(1) same(2) by blast
qed

section \<open>A family of two\<close>

text \<open>Identity 2 was merged into identity 1; one superseded vector is still on it, and its crop.\<close>

definition family_db :: db where
  "family_db = sample_db\<lparr>
     identities := [new_identity 1 I_ACTIVE None (Some 11) 0 (Some 0) 0,
                    (new_identity 2 I_MERGED None None 0 (Some 0) 0)\<lparr>i_merged_into := Some 1\<rparr>],
     reps := [sample_rep 21 11 (Some 1) R_ACTIVE (Some 1), sample_rep 23 13 (Some 2) R_SUPERSEDED None],
     observations := [\<lparr>o_id = 13, o_source = 1, o_run = 3, o_segment = 4, o_crop = Some 7, o_state = O_ACTIVE,
        o_sequence = 0, o_created = 0, o_superseded_by = None,
        o_box = (0, 0, 1, 1), o_landmarks = JNull, o_quality = JNull, o_component = 6, o_variant = None\<rparr>],
     artifacts := artifacts (fst stored_library)\<rparr>"

lemma family_db_ok: "memory_ok family_db"
proof -
  have edges: "merge_edges (identities family_db) = {(2, 1)}" by (simp add: family_db_def)
  have "identities_ok (identities family_db)"
  proof -
    have "list_all (\<lambda>x. identity_row_ok x \<and> (i_merged_into x \<noteq> None \<longrightarrow> i_state x = I_MERGED)) (identities family_db)
        \<and> tab_keyed i_id (identities family_db)" by code_simp
    then show ?thesis by (simp add: identities_ok_def edges list_all_iff acyclic_insert wf_acyclic)
  qed
  moreover have "reps_ok (reps family_db)" by code_simp
  moreover have "keys_below (reps family_db) (ann_sequences family_db)"
    by (simp add: keys_below_def family_db_def sample_db_def sample_rep_def next_key_def tab_get_Cons)
  moreover have "queue_inv (index_ops family_db)" by code_simp
  moreover have "associations_ok (associations family_db)" by code_simp
  moreover have "tab_keyed oc_id (occurrences family_db)" by code_simp
  moreover have "owned_ok (identities family_db) (reps family_db) (occurrences family_db) (associations family_db)"
    by (simp add: owned_ok_def family_db_def sample_db_def sample_rep_def new_association_def new_identity_def active_id_def tab_get_Cons)
  ultimately show ?thesis by (simp add: memory_ok_def)
qed


lemma forgetting_a_person_witness:
  "\<exists>pl d'. plan_forget_person 41 5 6 7 sample_ids (\<lambda>n. 200 + n) family_db = Inr (pl, d') \<and>
     fp_identities pl = [1] \<and> owns_nothing 1 d' \<and> people d' = people family_db"
proof -
  have run: "(case plan_forget_person 41 5 6 7 sample_ids (\<lambda>n. 200 + n) family_db of
      Inl _ \<Rightarrow> False | Inr (pl, d') \<Rightarrow> fp_identities pl = [1])" by code_simp
  then obtain pl d' where p: "plan_forget_person 41 5 6 7 sample_ids (\<lambda>n. 200 + n) family_db = Inr (pl, d')"
      "fp_identities pl = [1]"
    by (cases "plan_forget_person 41 5 6 7 sample_ids (\<lambda>n. 200 + n) family_db") auto
  then show ?thesis
    using forgetting_a_person [OF family_db_ok p(1)] by (intro exI [of _ pl] exI [of _ d'] conjI) simp_all
qed

lemma only_own_crops_are_retired_witness:
  "artifacts_ok (artifacts family_db) \<and> (case retire_crops [1, 2] 5 family_db of
     Inl _ \<Rightarrow> False | Inr (crops, d') \<Rightarrow> map fst crops = [7] \<and> map f_state (artifacts d') = [A_DELETING, A_PENDING])"
proof -
  have "artifacts_ok (artifacts family_db)"
  proof -
    have "map f_id (artifacts family_db) = [7, 8] \<and> map (\<lambda>f. f_key f = None) (artifacts family_db) = [False, False] \<and>
      distinct (map f_key (artifacts family_db))" by code_simp
    then show ?thesis by (auto simp: artifacts_ok_def tab_keyed_def map_eq_Cons_conv)
  qed
  moreover from only_own_crops_are_retired [OF this, of "[1, 2]" 5]
  obtain crops where "retire_crops [1, 2] 5 family_db =
      Inr (crops, family_db\<lparr>artifacts := map (\<lambda>f. if retirable [1, 2] family_db f then retired 5 f else f) (artifacts family_db)\<rparr>)"
    by blast
  moreover have "(case retire_crops [1, 2] 5 family_db of
     Inl _ \<Rightarrow> False | Inr (crops, d') \<Rightarrow> map fst crops = [7] \<and> map f_state (artifacts d') = [A_DELETING, A_PENDING])" by code_simp
  ultimately show ?thesis by simp
qed

end
