(* ===== verification/Sources.thy ===== *)
theory Sources
  imports Artifacts Paging RunLife
begin

text \<open>
  The Source rows of the library: recycling and restoring (\<open>backend/app/sources/lifecycle.py\<close>), the
  library page and the pointer to the accepted run (\<open>backend/app/sources/repository.py\<close>). Shown: when
  a move is taken and what it writes, that a restore undoes a recycling, that pages read every source
  once, and that a source only ever points to an accepted run of its own.
\<close>

section \<open>Recycle and restore\<close>

definition bump_source :: "source \<Rightarrow> source" where
  "bump_source c = c\<lparr>c_rev := c_rev c + 1\<rparr>"

interpretation source_rev: revisioned c_id c_rev bump_source
  by unfold_locales (simp_all add: bump_source_def)

definition bytes_gone :: "artifact_state list" where
  "bytes_gone = [A_DELETING, A_DELETE_FAILED, A_DELETED]"

definition in_flight :: "run_state list" where
  "in_flight = [P_PENDING, P_RUNNING, P_PAUSING, P_PAUSED, P_CANCELLING, P_FINALIZING]"

text \<open>
  \<open>SourceLifecycleError\<close> with its cause (no such source, its state, its original's state),
  \<open>SourceBusyError\<close>, \<open>StaleSourceRevisionError\<close>; \<open>AssertionError\<close> where the code asserts.
\<close>

datatype source_error =
    SourceMissing | SourceInState source_state | OriginalInState artifact_state
  | SourceBusy | StaleSourceRevision | SourceAssertion

definition original_is_going :: "db \<Rightarrow> source \<Rightarrow> bool" where
  "original_is_going d c \<longleftrightarrow> list_ex (\<lambda>f. f_id f = c_original c \<and> f_state f \<in> set bytes_gone) (artifacts d)"

definition move_refusal :: "uuid \<Rightarrow> source_state \<Rightarrow> int \<Rightarrow> db \<Rightarrow> source_error" where
  "move_refusal i from expected d =
     (case tab_get c_id (sources d) i of
        None \<Rightarrow> SourceMissing
      | Some c \<Rightarrow>
          if c_rev c \<noteq> expected then StaleSourceRevision
          else if c_state c \<noteq> from then SourceInState (c_state c)
          else (case tab_get f_id (artifacts d) (c_original c) of
                  None \<Rightarrow> SourceAssertion | Some f \<Rightarrow> OriginalInState (f_state f)))"

definition move_source ::
  "uuid \<Rightarrow> source_state \<Rightarrow> source_state \<Rightarrow> int \<Rightarrow> (source \<Rightarrow> source) \<Rightarrow> db \<Rightarrow> source_error + source \<times> db" where
  "move_source i from to expected values d =
     (case optimistic_locked_update c_id c_rev bump_source i expected (\<lambda>c. values (c\<lparr>c_state := to\<rparr>))
             (\<lambda>c. c_state c = from \<and> \<not> original_is_going d c) (sources d) of
        (n, t) \<Rightarrow>
          if n = 0 then Inl (move_refusal i from expected d)
          else (case tab_get c_id t i of None \<Rightarrow> Inl SourceAssertion | Some c \<Rightarrow> Inr (c, d\<lparr>sources := t\<rparr>)))"

definition source_busy :: "uuid \<Rightarrow> db \<Rightarrow> bool" where
  "source_busy i d \<longleftrightarrow> list_ex (\<lambda>p. p_source p = i \<and> p_state p \<in> set in_flight) (runs d)"

definition recycle_source :: "uuid \<Rightarrow> int \<Rightarrow> time \<Rightarrow> db \<Rightarrow> source_error + source \<times> db" where
  "recycle_source i expected now d =
     (if source_busy i d then Inl SourceBusy
      else move_source i S_ACTIVE S_RECYCLED expected (\<lambda>c. c\<lparr>c_recycled := Some now, c_updated := now\<rparr>) d)"

definition restore_source :: "uuid \<Rightarrow> int \<Rightarrow> time \<Rightarrow> db \<Rightarrow> source_error + source \<times> db" where
  "restore_source i expected now d =
     move_source i S_RECYCLED S_ACTIVE expected (\<lambda>c. c\<lparr>c_recycled := None, c_updated := now\<rparr>) d"

section \<open>The repository\<close>

definition source_add :: "source \<Rightarrow> db \<Rightarrow> repo_error + source \<times> db" where
  "source_add c d =
     (if tab_get c_id (sources d) (c_id c) \<noteq> None \<or> c_rev c < 1 then Inl IntegrityError
      else Inr (c, d\<lparr>sources := sources d @ [c]\<rparr>))"

definition source_get :: "uuid \<Rightarrow> db \<Rightarrow> source option" where
  "source_get i d = tab_get c_id (sources d) i"

text \<open>Each source in the state, with its original's state: an inner join.\<close>

type_synonym library_entry = "source \<times> artifact_state"

definition library_entries :: "source_state \<Rightarrow> db \<Rightarrow> library_entry list" where
  "library_entries st d =
     List.map_filter (\<lambda>c. map_option (\<lambda>f. (c, f_state f)) (tab_get f_id (artifacts d) (c_original c)))
       (filter (\<lambda>c. c_state c = st) (sources d))"

abbreviation entry_created :: "library_entry \<Rightarrow> time" where "entry_created e \<equiv> c_created (fst e)"

abbreviation entry_id :: "library_entry \<Rightarrow> uuid" where "entry_id e \<equiv> c_id (fst e)"

definition library_page ::
  "source_state \<Rightarrow> int \<Rightarrow> cursor option \<Rightarrow> db \<Rightarrow> repo_error + library_entry list \<times> cursor option" where
  "library_page st limit after d =
     (if limit < 1 then Inl ValueError
      else Inr (keyset_page (newest_first entry_created entry_id) (older_than entry_created entry_id)
             (cursor_at entry_created entry_id) (nat limit) after (library_entries st d)))"

interpretation library: keyset "newest_first entry_created entry_id" "older_than entry_created entry_id"
  "cursor_at entry_created entry_id"
  by (rule keyset_newest)

definition acceptable_run_states :: "run_state list" where
  "acceptable_run_states = [P_FINALIZING, P_COMPLETED]"

definition own_accepted_run :: "uuid \<Rightarrow> uuid \<Rightarrow> db \<Rightarrow> bool" where
  "own_accepted_run i run d \<longleftrightarrow>
     list_ex (\<lambda>p. p_id p = run \<and> p_source p = i \<and> p_state p \<in> set acceptable_run_states) (runs d)"

lemma own_accepted_run_sources: "own_accepted_run i run (d\<lparr>sources := t\<rparr>) = own_accepted_run i run d"
  by (simp add: own_accepted_run_def)

definition set_current_run :: "uuid \<Rightarrow> uuid \<Rightarrow> int \<Rightarrow> time \<Rightarrow> db \<Rightarrow> bool \<times> db" where
  "set_current_run i run expected now d =
     (case optimistic_locked_update c_id c_rev bump_source i expected
             (\<lambda>c. c\<lparr>c_run := Some run, c_updated := now\<rparr>) (\<lambda>_. own_accepted_run i run d) (sources d) of
        (n, t) \<Rightarrow> (0 < n, d\<lparr>sources := t\<rparr>))"

section \<open>When a source moves\<close>

definition moved :: "source_state \<Rightarrow> (source \<Rightarrow> source) \<Rightarrow> source \<Rightarrow> source" where
  "moved to values c = bump_source (values (c\<lparr>c_state := to\<rparr>))"

definition movable :: "uuid \<Rightarrow> source_state \<Rightarrow> int \<Rightarrow> db \<Rightarrow> source \<Rightarrow> bool" where
  "movable i from expected d c \<longleftrightarrow> c_id c = i \<and> c_rev c = expected \<and> c_state c = from \<and> \<not> original_is_going d c"

lemma move_source_cases:
  assumes "tab_keyed c_id (sources d)" and "\<And>c. c_id (values c) = c_id c"
  shows "move_source i from to expected values d =
    (case tab_get c_id (sources d) i of
       None \<Rightarrow> Inl SourceMissing
     | Some c \<Rightarrow>
         if movable i from expected d c
         then Inr (moved to values c, d\<lparr>sources := tab_update (\<lambda>c. c_id c = i) (moved to values) (sources d)\<rparr>)
         else Inl (move_refusal i from expected d))"
proof -
  let ?x = "\<lambda>c. c_state c = from \<and> \<not> original_is_going d c"
  let ?v = "\<lambda>c. values (c\<lparr>c_state := to\<rparr>)"
  let ?w = "opt_where c_id c_rev i expected ?x"
  have key: "c_id (bump_source (?v c)) = c_id c" for c by (simp add: bump_source_def assms(2))
  show ?thesis
  proof (cases "tab_get c_id (sources d) i")
    case None
    then have "tab_count ?w (sources d) = 0"
      by (auto simp: tab_count_zero opt_where_def tab_get_None_iff)
    with None show ?thesis
      by (simp add: move_source_def optimistic_locked_update_def move_refusal_def)
  next
    case (Some c)
    then have c: "c \<in> set (sources d)" "c_id c = i" by (auto dest: tab_get_SomeD)
    have one: "r = c" if "r \<in> set (sources d)" "c_id r = i" for r
      using tab_keyed_inj [OF assms(1) that(1) c(1)] that(2) c(2) by simp
    show ?thesis
    proof (cases "movable i from expected d c")
      case True
      have same: "tab_update ?w (\<lambda>c. bump_source (?v c)) (sources d) = tab_update (\<lambda>c. c_id c = i) (moved to values) (sources d)"
        unfolding tab_update_def using True one
        by (intro map_cong refl) (auto simp: moved_def movable_def opt_where_def)
      have "tab_count ?w (sources d) \<noteq> 0" using True c by (auto simp: tab_count_zero movable_def opt_where_def)
      moreover have "tab_get c_id (tab_update (\<lambda>c. c_id c = i) (moved to values) (sources d)) i = Some (moved to values c)"
        using Some c(2) key by (subst tab_get_update) (simp_all add: moved_def)
      ultimately show ?thesis
        using True Some by (simp add: move_source_def optimistic_locked_update_def same)
    next
      case False
      then have "tab_count ?w (sources d) = 0"
        using one by (auto simp: tab_count_zero movable_def opt_where_def)
      with False Some show ?thesis by (simp add: move_source_def optimistic_locked_update_def)
    qed
  qed
qed

lemma original_is_going_sources [simp]: "original_is_going (d\<lparr>sources := t\<rparr>) c = original_is_going d c"
  by (simp add: original_is_going_def)

text \<open>
  A restore gives back what was recycled. When recycling answers, the source was at the revision
  the caller read, ACTIVE, with no run of it in flight and its original not deleted or being deleted;
  only its row changed. Restoring it from there, at the revision the answer carries, always
  succeeds, and the library is then as it was before the recycling, but for that row's revision and
  update time: no other column, and no other row or table.
\<close>

theorem restore_undoes_recycling:
  assumes "tab_keyed c_id (sources d)" and "recycle_source i expected now d = Inr (c, d1)"
  shows "\<not> source_busy i d \<and> c_state c = S_RECYCLED \<and> c_recycled c = Some now \<and> c_rev c = expected + 1 \<and>
    (\<exists>c0. tab_get c_id (sources d) i = Some c0 \<and> c_rev c0 = expected \<and> c_state c0 = S_ACTIVE \<and> \<not> original_is_going d c0 \<and>
      restore_source i (c_rev c) later d1 =
        Inr (c0\<lparr>c_rev := expected + 2, c_updated := later, c_recycled := None\<rparr>,
          d\<lparr>sources := tab_update (\<lambda>c. c_id c = i)
             (\<lambda>c. c\<lparr>c_rev := expected + 2, c_updated := later, c_recycled := None\<rparr>) (sources d)\<rparr>))"
proof -
  let ?v = "\<lambda>c. c\<lparr>c_recycled := Some now, c_updated := now\<rparr>"
  let ?u = "\<lambda>c. c\<lparr>c_recycled := None, c_updated := later\<rparr>"
  have run: "\<not> source_busy i d" "move_source i S_ACTIVE S_RECYCLED expected ?v d = Inr (c, d1)"
    using assms(2) by (auto simp: recycle_source_def split: if_split_asm)
  obtain c0 where c0: "tab_get c_id (sources d) i = Some c0" "movable i S_ACTIVE expected d c0"
    and c: "c = moved S_RECYCLED ?v c0"
    and d1: "d1 = d\<lparr>sources := tab_update (\<lambda>c. c_id c = i) (moved S_RECYCLED ?v) (sources d)\<rparr>"
    using run(2) by (auto simp: move_source_cases [OF assms(1)] split: option.split_asm if_split_asm)
  have key: "c_id (moved st ?v x) = c_id x" for st x by (simp add: moved_def bump_source_def)
  have c': "c_rev c = expected + 1" "c_id c = i" "c_state c = S_RECYCLED" "c_original c = c_original c0"
    using c0(2) by (simp_all add: c moved_def bump_source_def movable_def)
  have keyed: "tab_keyed c_id (sources d1)" using assms(1) by (simp add: d1 tab_keyed_update key)
  have get: "tab_get c_id (sources d1) i = Some c"
    using c0 by (simp add: d1 c key tab_get_update movable_def)
  have "movable i S_RECYCLED (c_rev c) d1 c"
    using c0(2) c' by (simp add: movable_def d1) (simp add: original_is_going_def)
  then have "restore_source i (c_rev c) later d1 =
      Inr (moved S_ACTIVE ?u c, d1\<lparr>sources := tab_update (\<lambda>c. c_id c = i) (moved S_ACTIVE ?u) (sources d1)\<rparr>)"
    by (simp add: restore_source_def move_source_cases [OF keyed] get)
  moreover have "moved S_ACTIVE ?u c = c0\<lparr>c_rev := expected + 2, c_updated := later, c_recycled := None\<rparr>"
    using c0(2) by (simp add: c moved_def bump_source_def movable_def)
  moreover have only: "moved S_ACTIVE ?u (moved S_RECYCLED ?v x) = x\<lparr>c_rev := expected + 2, c_updated := later, c_recycled := None\<rparr>"
    if "x \<in> set (sources d)" "c_id x = i" for x
  proof -
    have "x = c0" using that c0(1) assms(1) tab_get_in by fastforce
    then show ?thesis using c0(2) by (simp add: moved_def bump_source_def movable_def)
  qed
  moreover have "tab_update (\<lambda>c. c_id c = i) (moved S_ACTIVE ?u) (sources d1) =
      tab_update (\<lambda>c. c_id c = i) (\<lambda>c. c\<lparr>c_rev := expected + 2, c_updated := later, c_recycled := None\<rparr>) (sources d)"
    using only by (auto simp: d1 tab_update_def key)
  ultimately show ?thesis
    using run(1) c0 c' by (auto simp: d1 c moved_def bump_source_def movable_def)
qed

lemma restore_undoes_recycling_witness:
  "\<exists>c d1. recycle_source 1 1 5 sample_library = Inr (c, d1) \<and> \<not> source_busy 1 sample_library \<and>
     (\<exists>c' d2. restore_source 1 (c_rev c) 9 d1 = Inr (c', d2) \<and> c_state c' = S_ACTIVE \<and> c_rev c' = 3)"
proof -
  have "(case recycle_source 1 1 5 sample_library of Inl _ \<Rightarrow> False | Inr _ \<Rightarrow> True)" by code_simp
  then obtain c d1 where run: "recycle_source 1 1 5 sample_library = Inr (c, d1)"
    by (cases "recycle_source 1 1 5 sample_library") auto
  have keyed: "tab_keyed c_id (sources sample_library)" by code_simp
  from restore_undoes_recycling [OF keyed run, of 9] show ?thesis using run by (auto simp: sample_library_def)
qed

section \<open>The library, page by page\<close>

lemma library_entries_row:
  "e \<in> set (library_entries st d) \<longleftrightarrow>
     fst e \<in> set (sources d) \<and> c_state (fst e) = st \<and>
     (\<exists>f. tab_get f_id (artifacts d) (c_original (fst e)) = Some f \<and> snd e = f_state f)"
  by (cases e) (force simp: library_entries_def List.map_filter_def)

lemma joined_rows:
  "map fst (List.map_filter (\<lambda>c. map_option (\<lambda>f. (c, g f)) (h c)) xs) = filter (\<lambda>c. h c \<noteq> None) xs"
  by (induction xs) (auto simp: List.map_filter_def)

lemma library_entries_sublist:
  "map fst (library_entries st d) =
     filter (\<lambda>c. c_state c = st \<and> tab_get f_id (artifacts d) (c_original c) \<noteq> None) (sources d)"
  by (simp add: library_entries_def joined_rows conj_commute)

lemma library_entries_keyed:
  assumes "tab_keyed c_id (sources d)"
  shows "tab_keyed entry_id (library_entries st d)"
proof -
  have "map entry_id (library_entries st d) = map c_id (map fst (library_entries st d))" by (simp add: comp_def)
  then show ?thesis
    using assms unfolding tab_keyed_def library_entries_sublist by (simp add: distinct_map_filter)
qed

text \<open>
  A client that follows the cursors of the library, with pages of any size from one row up, reads
  every source of the state whose original has a row exactly once, newest first, each with the state
  of its original; and whatever is imported, moved or deleted between two requests, the next page
  repeats nothing of the page its cursor came from.
\<close>

theorem library_pages_read_every_source_once:
  assumes "tab_keyed c_id (sources d)" and "1 \<le> limit" and "length (sources d) < pages"
  shows "read_pages pages (\<lambda>c. case library_page st limit c d of Inr page \<Rightarrow> page | Inl _ \<Rightarrow> ([], None)) None =
      sort_key (newest_first entry_created entry_id) (library_entries st d) \<and>
    (\<forall>after rows c d' rows' c' e e'. library_page st limit after d = Inr (rows, Some c) \<and>
       library_page st limit (Some c) d' = Inr (rows', c') \<and> e \<in> set rows \<and> e' \<in> set rows' \<longrightarrow>
       newest_first entry_created entry_id e < newest_first entry_created entry_id e')"
proof
  let ?t = "library_entries st d"
  have keyed: "tab_keyed entry_id ?t" by (rule library_entries_keyed [OF assms(1)])
  have "length ?t = length (map fst ?t)" by simp
  also have "\<dots> \<le> length (sources d)" unfolding library_entries_sublist by simp
  finally have "length ?t \<le> pages * 1" using assms(3) by simp
  also have "\<dots> \<le> pages * nat limit" using assms(2) by (intro mult_le_mono) auto
  finally have len: "length (library.ahead None ?t) \<le> pages * nat limit" by (simp add: library.ahead_def)
  have page: "(case library_page st limit c d of Inr page \<Rightarrow> page | Inl _ \<Rightarrow> ([], None)) = library.page (nat limit) c ?t" for c
    using assms(2) by (simp add: library_page_def)
  show "read_pages pages (\<lambda>c. case library_page st limit c d of Inr page \<Rightarrow> page | Inl _ \<Rightarrow> ([], None)) None =
      sort_key (newest_first entry_created entry_id) ?t"
    unfolding page using library.read_pages_all [OF inj_newest [OF keyed] tab_keyed_distinct [OF keyed] _ _ len] assms(2,3)
    by (simp add: library.ahead_def)
next
  show "\<forall>after rows c d' rows' c' e e'. library_page st limit after d = Inr (rows, Some c) \<and>
       library_page st limit (Some c) d' = Inr (rows', c') \<and> e \<in> set rows \<and> e' \<in> set rows' \<longrightarrow>
       newest_first entry_created entry_id e < newest_first entry_created entry_id e'"
  proof (intro allI impI, elim conjE)
    fix after rows c d' rows' c' and e e' :: library_entry
    assume p: "library_page st limit after d = Inr (rows, Some c)" "library_page st limit (Some c) d' = Inr (rows', c')"
      and e: "e \<in> set rows" "e' \<in> set rows'"
    have one: "library.page (nat limit) after (library_entries st d) = (rows, Some c)"
      and two: "e' \<in> set (fst (library.page (nat limit) (Some c) (library_entries st d')))"
      using p e(2) assms(2) by (simp_all add: library_page_def)
    show "newest_first entry_created entry_id e < newest_first entry_created entry_id e'"
      by (rule library.next_page_repeats_nothing [OF one _ e(1) two]) (use assms(2) in simp)
  qed
qed

lemma library_pages_read_every_source_once_witness:
  "\<exists>c. read_pages 2 (\<lambda>c. case library_page S_ACTIVE 1 c sample_library of Inr page \<Rightarrow> page | Inl _ \<Rightarrow> ([], None)) None
     = [(c, A_AVAILABLE)]"
proof -
  have "tab_keyed c_id (sources sample_library)" by code_simp
  moreover have "length (sources sample_library) < 2" by (simp add: sample_library_def)
  moreover have "library_entries S_ACTIVE sample_library = [(hd (sources sample_library), A_AVAILABLE)]" by code_simp
  ultimately show ?thesis using library_pages_read_every_source_once [of sample_library 1 2 S_ACTIVE] by simp
qed

section \<open>The pointer to the accepted run\<close>

lemma set_current_run_upd:
  "set_current_run i run expected now d =
     (let u = source_rev.upd i expected (\<lambda>c. c\<lparr>c_run := Some run, c_updated := now\<rparr>)
                (\<lambda>_. own_accepted_run i run d) (sources d)
      in (0 < fst u, d\<lparr>sources := snd u\<rparr>))"
  by (simp add: set_current_run_def Let_def split: prod.split)

definition currents_ok :: "db \<Rightarrow> bool" where
  "currents_ok d \<longleftrightarrow> (\<forall>c\<in>set (sources d). \<forall>run. c_run c = Some run \<longrightarrow> own_accepted_run (c_id c) run d)"

text \<open>
  A source only ever points to an accepted run of its own. \<open>set_current_run\<close> answers True exactly
  for a source at the expected revision and a run of that same source that is FINALIZING or COMPLETED;
  then that pointer, the revision and the update time of that one row are all that changed, and a
  second writer that had read the same revision is refused. Otherwise nothing changed. Every source
  keeps pointing to an accepted run of its own either way.
\<close>

theorem current_run_is_own_and_accepted:
  assumes "tab_keyed c_id (sources d)" and "currents_ok d"
  shows "(fst (set_current_run i run expected now d) \<longleftrightarrow>
       (\<exists>c. tab_get c_id (sources d) i = Some c \<and> c_rev c = expected) \<and> own_accepted_run i run d) \<and>
    (\<not> fst (set_current_run i run expected now d) \<longrightarrow> snd (set_current_run i run expected now d) = d) \<and>
    (fst (set_current_run i run expected now d) \<longrightarrow> snd (set_current_run i run expected now d) =
       d\<lparr>sources := tab_update (\<lambda>c. c_id c = i) (\<lambda>c. c\<lparr>c_run := Some run, c_updated := now, c_rev := expected + 1\<rparr>) (sources d)\<rparr> \<and>
       \<not> fst (set_current_run i run' expected later (snd (set_current_run i run expected now d)))) \<and>
    currents_ok (snd (set_current_run i run expected now d))"
proof -
  let ?v = "\<lambda>c. c\<lparr>c_run := Some run, c_updated := now\<rparr>"
  let ?u = "source_rev.upd i expected ?v (\<lambda>_. own_accepted_run i run d) (sources d)"
  have keeps: "source_rev.keeps ?v" by (simp add: source_rev.keeps_def)
  have set: "set_current_run i run expected now d = (0 < fst ?u, d\<lparr>sources := snd ?u\<rparr>)"
    by (simp add: set_current_run_upd Let_def)
  have count: "fst ?u = (case tab_get c_id (sources d) i of None \<Rightarrow> 0
     | Some r \<Rightarrow> if c_rev r = expected \<and> own_accepted_run i run d then 1 else 0)"
    by (rule source_rev.rowcount_iff [OF assms(1)])
  have yes: "fst (set_current_run i run expected now d) \<longleftrightarrow>
      (\<exists>c. tab_get c_id (sources d) i = Some c \<and> c_rev c = expected) \<and> own_accepted_run i run d"
    by (auto simp: set count split: option.split)
  have no: "snd (set_current_run i run expected now d) = d" if "\<not> fst (set_current_run i run expected now d)"
    using source_rev.refused_changes_nothing [of i expected ?v "\<lambda>_. own_accepted_run i run d" "sources d"] that by (simp add: set)
  have wrote: "snd (set_current_run i run expected now d) =
       d\<lparr>sources := tab_update (\<lambda>c. c_id c = i) (\<lambda>c. c\<lparr>c_run := Some run, c_updated := now, c_rev := expected + 1\<rparr>) (sources d)\<rparr>"
    if won: "fst (set_current_run i run expected now d)"
  proof -
    obtain c where c: "tab_get c_id (sources d) i = Some c" "c_rev c = expected" and own: "own_accepted_run i run d"
      using won yes by blast
    have "c_rev x = expected" if "x \<in> set (sources d)" "c_id x = i" for x
      using that c tab_get_in [OF assms(1), of x] by simp
    then have "snd ?u = tab_update (\<lambda>c. c_id c = i) (\<lambda>c. c\<lparr>c_run := Some run, c_updated := now, c_rev := expected + 1\<rparr>) (sources d)"
      using own by (auto simp: optimistic_locked_update_def tab_update_def opt_where_def bump_source_def)
    then show ?thesis by (simp add: set)
  qed
  have second: "\<not> fst (set_current_run i run' expected later (snd (set_current_run i run expected now d)))"
    if "fst (set_current_run i run expected now d)"
  proof -
    have "fst ?u = 1" using that source_rev.rowcount_le_one [OF assms(1), of i expected ?v "\<lambda>_. own_accepted_run i run d"]
      by (simp add: set le_Suc_eq)
    from source_rev.second_writer_refused [OF assms(1) keeps this] show ?thesis
      by (simp add: set set_current_run_upd Let_def)
  qed
  have "currents_ok (snd (set_current_run i run expected now d))"
  proof (cases "fst (set_current_run i run expected now d)")
    case True
    with yes have "own_accepted_run i run d" by blast
    then show ?thesis
      using assms(2) unfolding wrote [OF True] currents_ok_def
      by (auto simp: set_tab_update own_accepted_run_sources)
  qed (simp add: no assms(2))
  with yes no wrote second show ?thesis by blast
qed

definition finalizing_library :: db where
  "finalizing_library = sample_library\<lparr>runs := [\<lparr>p_id = 3, p_source = 1, p_snapshot = 4, p_parent = None, p_state = P_FINALIZING,
     p_requested = 0, p_started = Some 1, p_completed = None, p_failed = None, p_code = None, p_detail = None,
     p_checkpoint = None, p_rev = 1, p_created = 0, p_updated = 0\<rparr>]\<rparr>"

lemma current_run_is_own_and_accepted_witness:
  "fst (set_current_run 1 3 1 7 finalizing_library) \<and> currents_ok (snd (set_current_run 1 3 1 7 finalizing_library))"
proof -
  have "tab_keyed c_id (sources finalizing_library)" by code_simp
  moreover have "currents_ok finalizing_library" by (simp add: currents_ok_def finalizing_library_def sample_library_def)
  moreover have "fst (set_current_run 1 3 1 7 finalizing_library)" by code_simp
  ultimately show ?thesis using current_run_is_own_and_accepted by blast
qed

end
