(* ===== verification/Media.thy ===== *)
theory Media
  imports Schema "HOL-Library.Sublist"
begin

text \<open>
  Decoding still images (\<open>backend/infrastructure/media/image.py\<close>). Pillow is an argument: what it says
  when it opens a file and when it decodes one. Modelled: which of its answers means what, the signature
  test that tells a damaged image from a file that is not one of ours, the guard on the number of
  pixels, and the scaling of 16-bit grey. Shown: the guard comes before any pixel, every refusal is one
  of the three kinds, and the scaling rounds to the nearest level without overflow.
\<close>

section \<open>What a file begins with\<close>

definition bytes_of :: "string \<Rightarrow> byte list" where
  "bytes_of = map of_char"

text \<open>\<open>data[a:b]\<close>\<close>

definition slice :: "nat \<Rightarrow> nat \<Rightarrow> byte list \<Rightarrow> byte list" where
  "slice a b data = take (b - a) (drop a data)"

definition big_endian :: "byte list \<Rightarrow> nat" where
  "big_endian bs = foldl (\<lambda>n b. 256 * n + unat b) 0 bs"

definition avif_brands :: "byte list list" where
  "avif_brands = [bytes_of ''avif'', bytes_of ''avis'']"

definition ftyp_read_limit :: nat where
  "ftyp_read_limit = 4096"

text \<open>\<open>range(16, end - 3, 4)\<close>\<close>

definition brand_offsets :: "nat \<Rightarrow> nat list" where
  "brand_offsets e = filter (\<lambda>n. (n - 16) mod 4 = 0) [16..<e - 3]"

definition names_avif :: "byte list \<Rightarrow> bool" where
  "names_avif data \<longleftrightarrow> slice 4 8 data = bytes_of ''ftyp'' \<and>
     (let e = min (min (big_endian (slice 0 4 data)) (length data)) ftyp_read_limit
      in list_ex (\<lambda>brand. brand \<in> set avif_brands)
           (slice 8 12 data # map (\<lambda>n. slice n (n + 4) data) (brand_offsets e)))"

definition known_signature :: "byte list \<Rightarrow> bool" where
  "known_signature data \<longleftrightarrow>
     prefix [0x89, 0x50, 0x4E, 0x47, 0x0D, 0x0A, 0x1A, 0x0A] data \<or> prefix [0xFF, 0xD8] data \<or>
     prefix (bytes_of ''BM'') data \<or> (prefix (bytes_of ''RIFF'') data \<and> slice 8 12 data = bytes_of ''WEBP'')"

section \<open>Opening and decoding\<close>

datatype image_format = JPEG | PNG | BMP | WEBP | AVIF

fun mime_type :: "image_format \<Rightarrow> string" where
  "mime_type JPEG = ''image/jpeg''"
| "mime_type PNG = ''image/png''"
| "mime_type BMP = ''image/bmp''"
| "mime_type WEBP = ''image/webp''"
| "mime_type AVIF = ''image/avif''"

datatype image_error = UnsupportedImage | CorruptImage | ImageTooLarge

record image_header =
  ih_format :: image_format
  ih_mime :: string
  ih_width :: nat
  ih_height :: nat

text \<open>What \<open>Image.open\<close> answers or raises, and what decoding the opened image does.\<close>

datatype pil_opened = Opened image_format nat nat | DecompressionBomb | Unidentified | DecoderRaised

datatype pil_pixels = Grey16 nat nat "16 word list" | Colour nat nat "byte list" | DecodingRaised

record pillow =
  pil_open :: "byte list \<Rightarrow> pil_opened"
  pil_decode :: "byte list \<Rightarrow> pil_pixels"

record decoded_image =
  di_height :: nat
  di_width :: nat
  di_pixels :: "byte list"
  di_header :: image_header

definition open_image :: "pillow \<Rightarrow> byte list \<Rightarrow> image_error + image_header" where
  "open_image pil data =
     (case pil_open pil data of
        DecompressionBomb \<Rightarrow> Inl ImageTooLarge
      | Unidentified \<Rightarrow> Inl (if known_signature data \<or> names_avif data then CorruptImage else UnsupportedImage)
      | DecoderRaised \<Rightarrow> Inl CorruptImage
      | Opened fmt w h \<Rightarrow> Inr \<lparr>ih_format = fmt, ih_mime = mime_type fmt, ih_width = w, ih_height = h\<rparr>)"

definition read_header :: "pillow \<Rightarrow> byte list \<Rightarrow> image_error + image_header" where
  "read_header pil data = open_image pil data"

text \<open>\<open>((grey * 255 + 32767) // 65535).astype(np.uint8)\<close>, in unsigned 32-bit arithmetic\<close>

definition scale_grey :: "16 word \<Rightarrow> byte" where
  "scale_grey g = ucast ((ucast g * 255 + 32767) div (65535 :: 32 word))"

definition to_rgb :: "pil_pixels \<Rightarrow> image_error + nat \<times> nat \<times> byte list" where
  "to_rgb px =
     (case px of
        Grey16 h w gs \<Rightarrow> Inr (h, w, concat (map (\<lambda>g. replicate 3 (scale_grey g)) gs))
      | Colour h w bs \<Rightarrow> Inr (h, w, bs)
      | DecodingRaised \<Rightarrow> Inl CorruptImage)"

definition decode_image :: "pillow \<Rightarrow> nat \<Rightarrow> byte list \<Rightarrow> image_error + decoded_image" where
  "decode_image pil max_pixels data =
     bindE (open_image pil data) (\<lambda>header.
       if max_pixels < ih_width header * ih_height header then Inl ImageTooLarge
       else bindE (to_rgb (pil_decode pil data)) (\<lambda>(h, w, px).
         Inr \<lparr>di_height = h, di_width = w, di_pixels = px, di_header = header\<rparr>))"

section \<open>The guards\<close>

lemma nearest_level:
  fixes g q r :: int
  assumes "g * 255 + 32767 = 65535 * q + r" and "r < 65535" and "0 \<le> r"
  shows "\<bar>2 * (65535 * q - 255 * g)\<bar> \<le> (65535 :: int)"
proof -
  have "r \<le> 65534" using assms(2) by simp
  moreover have "65535 * q - 255 * g = 32767 - r" using assms(1) by algebra
  ultimately show ?thesis using assms(3) by simp
qed

lemma scale_grey_value: "unat (scale_grey g) = (unat g * 255 + 32767) div 65535"
proof -
  have g: "unat g < 65536" using unsigned_less [of g] by simp
  have "unat (ucast g * 255 + 32767 :: 32 word) = unat g * 255 + 32767"
    using g by (simp add: unat_word_ariths unsigned_ucast_eq take_bit_eq_mod)
  moreover have "(unat g * 255 + 32767) div 65535 < 256" using g by simp
  ultimately show ?thesis
    by (simp add: scale_grey_def unsigned_ucast_eq unat_div take_bit_eq_mod)
qed

text \<open>
  Sixteen-bit grey is rounded to the nearest eight-bit level, not clipped: the level times 65535 is
  within half a step of the sample times 255, so black stays black, white stays white, no brighter
  sample becomes a darker level, and nothing overflows the 32-bit arithmetic of the code.
\<close>

theorem grey_is_rounded_to_the_nearest_level:
  "\<bar>2 * (65535 * uint (scale_grey g) - 255 * uint g)\<bar> \<le> 65535 \<and>
   scale_grey 0 = 0 \<and> scale_grey (- 1) = - 1 \<and> (g \<le> g' \<longrightarrow> scale_grey g \<le> scale_grey g')"
proof -
  let ?n = "unat g * 255 + 32767"
  define q r where "q = ?n div 65535" and "r = ?n mod 65535"
  have "?n = 65535 * q + r" by (simp add: q_def r_def)
  from arg_cong [OF this, of int] have "int (unat g) * 255 + 32767 = 65535 * int q + int r" by simp
  moreover have "int r < 65535" "0 \<le> int r" by (simp_all add: r_def)
  ultimately have "\<bar>2 * (65535 * int q - 255 * int (unat g))\<bar> \<le> 65535" by (rule nearest_level)
  moreover have "uint (scale_grey g) = int q" "uint g = int (unat g)" by (simp_all add: q_def flip: scale_grey_value)
  ultimately have "\<bar>2 * (65535 * uint (scale_grey g) - 255 * uint g)\<bar> \<le> 65535" by (simp only:)
  moreover have "scale_grey 0 = 0" "scale_grey (- 1) = - 1" by code_simp+
  moreover have "scale_grey g \<le> scale_grey g'" if "g \<le> g'"
    using that by (simp add: word_le_nat_alt scale_grey_value div_le_mono)
  ultimately show ?thesis by simp
qed

lemma grey_is_rounded_to_the_nearest_level_witness:
  "scale_grey 128 \<le> scale_grey 129 \<and> scale_grey 128 = 0 \<and> scale_grey 129 = 1"
proof -
  have "scale_grey 128 \<le> scale_grey 129" using grey_is_rounded_to_the_nearest_level [of 128 129] by simp
  moreover have "scale_grey 128 = 0" "scale_grey 129 = 1" by (simp_all add: scale_grey_def)
  ultimately show ?thesis by simp
qed

text \<open>
  What is decoded is within the limit and what is refused is refused for a reason: the size comes from
  the header, so an image that is too large is refused whatever its pixels are.
\<close>

lemma decode_image_Inr:
  assumes "decode_image pil max_pixels data = Inr img"
  shows "open_image pil data = Inr (di_header img)" and "ih_width (di_header img) * ih_height (di_header img) \<le> max_pixels"
    and "ih_mime (di_header img) = mime_type (ih_format (di_header img))"
  using assms by (auto simp: decode_image_def bindE_Inr_iff open_image_def split: if_split_asm pil_opened.split_asm)

lemma decode_too_large_needs_no_pixels:
  "open_image pil data = Inr header \<Longrightarrow> max_pixels < ih_width header * ih_height header \<Longrightarrow>
     decode_image (pil\<lparr>pil_decode := other\<rparr>) max_pixels data = Inl ImageTooLarge"
  by (simp add: decode_image_def open_image_def)

end
