(* ===== verification/Originals.thy ===== *)
theory Originals
  imports Sources Media People
begin

text \<open>
  How an image becomes a Source and how a lost original comes back: import into the library or by
  reference (\<open>backend/app/sources/import_source.py\<close>), referenced originals
  (\<open>backend/app/sources/referenced_artifacts.py\<close>, \<open>backend/infrastructure/storage/referenced.py\<close>) and
  the recheck of a missing original (\<open>backend/app/sources/recheck.py\<close>). What the user's disk answers is
  an argument; the managed store is the one of \<open>Artifacts\<close>. Shown: an import is all or nothing wherever
  the process dies, and only the recorded bytes ever make an original available again.
\<close>

section \<open>Files of the user\<close>

text \<open>
  An external file as one inspection finds it: \<open>None\<close> where the system refuses (\<open>OSError\<close>, or a loop of
  links while resolving). \<open>xf_read\<close> is the later read of the import, which may find another content.
\<close>

record user_file =
  xf_name :: string
  xf_stem :: string
  xf_absolute :: bool
  xf_resolved :: "string option"
  xf_is_file :: bool
  xf_inside_roots :: bool
  xf_before :: "(int \<times> int) option"    \<comment> \<open>\<open>st_size\<close> and \<open>st_mtime_ns\<close>\<close>
  xf_content :: "byte list option"
  xf_after :: "(int \<times> int) option"
  xf_stat_size :: "int option"
  xf_read :: "byte list option"

datatype import_error =
    EmptyName | ImportFile | ImportFileTooLarge | ImportImage image_error | ReferencedFile
  | ImportStorage storage_error | ImportRefused repo_error

record referenced_file =
  rf_path :: string
  rf_name :: string
  rf_stored :: stored

definition inspect_referenced_file :: "store_env \<Rightarrow> user_file \<Rightarrow> import_error + referenced_file" where
  "inspect_referenced_file se xf =
     (if \<not> xf_absolute xf then Inl ReferencedFile
      else case xf_resolved xf of
        None \<Rightarrow> Inl ReferencedFile
      | Some path \<Rightarrow>
          if \<not> xf_is_file xf \<or> xf_inside_roots xf then Inl ReferencedFile
          else (case (xf_before xf, xf_content xf, xf_after xf) of
             (Some before, Some b, Some after) \<Rightarrow>
               if before \<noteq> after then Inl ReferencedFile
               else Inr \<lparr>rf_path = path, rf_name = xf_name xf, rf_stored = stored_bytes se b\<rparr>
           | _ \<Rightarrow> Inl ReferencedFile))"

section \<open>Import\<close>

definition import_name :: "user_file \<Rightarrow> string option \<Rightarrow> import_error + string" where
  "import_name xf display =
     (let name = strip (case display of None \<Rightarrow> xf_stem xf | Some n \<Rightarrow> n)
      in if name = [] then Inl EmptyName else Inr name)"

definition import_read :: "nat \<Rightarrow> user_file \<Rightarrow> import_error + byte list" where
  "import_read max_bytes xf =
     (case xf_read xf of
        None \<Rightarrow> Inl ImportFile
      | Some content \<Rightarrow>
          let data = take (max_bytes + 1) content
          in if max_bytes < length data then Inl ImportFileTooLarge else Inr data)"

definition add_source :: "uuid \<Rightarrow> uuid \<Rightarrow> string \<Rightarrow> decoded_image \<Rightarrow> time \<Rightarrow> db \<Rightarrow> import_error + uuid \<times> db" where
  "add_source i artifact_id name img now d =
     bindE (map_sum ImportRefused id (source_add
        \<lparr>c_id = i, c_kind = S_IMAGE, c_state = S_ACTIVE, c_name = name, c_original = artifact_id, c_thumbnail = None,
         c_run = None, c_rev = 1, c_created = now, c_updated = now, c_recycled = None, c_captured = None,
         c_duration = None, c_width = Some (int (di_width img)), c_height = Some (int (di_height img)),
         c_rate = (None, None)\<rparr> d))
       (\<lambda>(c, d'). Inr (c_id c, d'))"

definition publish_import ::
  "uuid \<Rightarrow> uuid \<Rightarrow> stored \<Rightarrow> string \<Rightarrow> decoded_image \<Rightarrow> time \<Rightarrow> time \<Rightarrow> db \<Rightarrow> import_error + uuid \<times> db" where
  "publish_import i artifact_id stored name img now later d =
     bindE (map_sum ImportStorage id (mark_artifact_available artifact_id stored now d))
       (add_source i artifact_id name img later)"

text \<open>What happens before anything is written.\<close>

definition prepare_import ::
  "pillow \<Rightarrow> nat \<Rightarrow> nat \<Rightarrow> user_file \<Rightarrow> string option \<Rightarrow> import_error + string \<times> byte list \<times> decoded_image" where
  "prepare_import pil max_pixels max_bytes xf display =
     bindE (import_name xf display) (\<lambda>name.
     bindE (import_read max_bytes xf) (\<lambda>data.
     bindE (map_sum ImportImage id (decode_image pil max_pixels data)) (\<lambda>img. Inr (name, data, img))))"

text \<open>
  \<open>import_managed\<close>, cut by a crash: \<open>Some 0\<close> and \<open>Some 1\<close> before and after the reservation commits,
  \<open>Some 2\<close> in the middle of the write with \<open>torn\<close> bytes staged, \<open>Some 3\<close> after the write, \<open>Some 4\<close>
  after the last commit. A write that fails is settled if it can be, and raised.
\<close>

definition import_managed ::
  "store_env \<Rightarrow> pillow \<Rightarrow> nat \<Rightarrow> nat \<Rightarrow> nat option \<Rightarrow> byte list \<Rightarrow> byte list option \<Rightarrow> user_file \<Rightarrow> string option \<Rightarrow>
     id_supply \<Rightarrow> (nat \<Rightarrow> time) \<Rightarrow> db \<Rightarrow> managed_files \<Rightarrow> (import_error + uuid \<times> uuid) option \<times> db \<times> managed_files" where
  "import_managed se pil max_pixels max_bytes crash torn fault xf display ids now d fs =
     (case prepare_import pil max_pixels max_bytes xf display of
        Inl e \<Rightarrow> (Some (Inl e), d, fs)
      | Inr (name, data, img) \<Rightarrow>
          (case reserve_managed_artifact SOURCE_ORIGINAL (Some (ih_mime (di_header img)), Some (xf_name xf)) (ids 0) (now 0) d of
             Inl e \<Rightarrow> (Some (Inl (ImportStorage e)), d, fs)
           | Inr (f, d1) \<Rightarrow>
               let key = the (f_key f) in
               if crash = Some 0 then (None, d, fs)
               else if crash = Some 1 then (None, d1, fs)
               else if crash = Some 2 then (None, d1, put_staged (staging_name key) torn fs)
               else (case store_file se fault key data fs of
                  (Inl e, fs1) \<Rightarrow>
                    if crash = Some 3 then (None, d1, fs1)
                    else (Some (Inl (ImportStorage e)), keep (mark_write_not_completed (f_id f) ''error'' d1) d1, fs1)
                | (Inr stored, fs1) \<Rightarrow>
                    if crash = Some 3 then (None, d1, fs1)
                    else (case publish_import (ids 1) (f_id f) stored name img (now 1) (now 2) d1 of
                       Inl e \<Rightarrow> (Some (Inl e), d1, fs1)
                     | Inr (i, d2) \<Rightarrow> (if crash = Some 4 then None else Some (Inr (i, f_id f)), d2, fs1)))))"

definition add_referenced_artifact :: "referenced_file \<Rightarrow> string option \<Rightarrow> uuid \<Rightarrow> time \<Rightarrow> db \<Rightarrow> import_error + artifact \<times> db" where
  "add_referenced_artifact rf mime i now d =
     (let f = \<lparr>f_id = i, f_kind = SOURCE_ORIGINAL, f_mode = REFERENCED, f_state = A_AVAILABLE, f_key = None,
               f_path = Some (rf_path rf), f_sha = Some (fst (rf_stored rf)), f_size = Some (snd (rf_stored rf)),
               f_created = now, f_available = Some now, f_delete_requested = None, f_deleted = None,
               f_code = None, f_detail = None, f_mime = mime, f_filename = Some (rf_name rf)\<rparr>
      in if tab_get f_id (artifacts d) i \<noteq> None then Inl (ImportRefused IntegrityError)
         else Inr (f, d\<lparr>artifacts := artifacts d @ [f]\<rparr>))"

definition import_referenced ::
  "store_env \<Rightarrow> pillow \<Rightarrow> nat \<Rightarrow> nat \<Rightarrow> user_file \<Rightarrow> string option \<Rightarrow> id_supply \<Rightarrow> (nat \<Rightarrow> time) \<Rightarrow> db \<Rightarrow>
     import_error + (uuid \<times> uuid) \<times> db" where
  "import_referenced se pil max_pixels max_bytes xf display ids now d =
     bindE (import_name xf display) (\<lambda>name.
       case xf_stat_size xf of
         None \<Rightarrow> Inl ImportFile
       | Some bytes \<Rightarrow>
           if int max_bytes < bytes then Inl ImportFileTooLarge
           else bindE (inspect_referenced_file se xf) (\<lambda>rf.
             bindE (import_read max_bytes xf) (\<lambda>data.
               if se_digest se data \<noteq> fst (rf_stored rf) then Inl ReferencedFile
               else bindE (map_sum ImportImage id (decode_image pil max_pixels data)) (\<lambda>img.
                 bindE (add_referenced_artifact rf (Some (ih_mime (di_header img))) (ids 0) (now 0) d) (\<lambda>(f, d1).
                   bindE (add_source (ids 1) (f_id f) name img (now 1) d1) (\<lambda>(i, d2). Inr ((i, f_id f), d2)))))))"

section \<open>Referenced originals\<close>

datatype read_outcome = Content "byte list" | Vanished | Unreadable

datatype on_disk = Absent | Unexaminable | NotRegular | Regular int read_outcome

definition referenced_missing :: string where "referenced_missing = ''REFERENCED_FILE_MISSING''"

definition referenced_changed :: string where "referenced_changed = ''REFERENCED_CONTENT_CHANGED''"

definition gone_from_disk :: "on_disk \<Rightarrow> bool" where
  "gone_from_disk od \<longleftrightarrow> od = Absent \<or> od = NotRegular"

text \<open>\<open>d\<close> is read, the disk is asked, \<open>later\<close> is written.\<close>

definition mark_missing_referenced_originals :: "(string \<Rightarrow> on_disk) \<Rightarrow> db \<Rightarrow> db \<Rightarrow> uuid list \<times> db" where
  "mark_missing_referenced_originals disk d later =
     mark_each_missing referenced_missing REFERENCED
       (map f_id (filter (\<lambda>f. gone_from_disk (disk (the (f_path f))))
          (sort_key (\<lambda>f. (f_created f, f_id f))
             (filter (\<lambda>f. f_mode f = REFERENCED \<and> f_state f = A_AVAILABLE) (artifacts d))))) later"

definition fingerprint :: "artifact \<Rightarrow> stored option" where
  "fingerprint f = (case (f_sha f, f_size f) of (Some h, Some n) \<Rightarrow> Some (h, n) | _ \<Rightarrow> None)"

definition judge :: "store_env \<Rightarrow> on_disk \<Rightarrow> stored option \<Rightarrow> storage_error + artifact_state \<times> string option" where
  "judge se od known =
     (case od of
        Unexaminable \<Rightarrow> Inl (OsError ''OSError'')
      | Regular n content \<Rightarrow>
          (case known of
             None \<Rightarrow> Inr (A_AVAILABLE, None)
           | Some st \<Rightarrow>
               if n \<noteq> snd st then Inr (A_MISSING, Some referenced_changed)
               else (case content of
                  Content b \<Rightarrow> if stored_bytes se b = st then Inr (A_AVAILABLE, None) else Inr (A_MISSING, Some referenced_changed)
                | Vanished \<Rightarrow> Inr (A_MISSING, Some referenced_missing)
                | Unreadable \<Rightarrow> Inl (OsError ''OSError'')))
      | _ \<Rightarrow> Inr (A_MISSING, Some referenced_missing))"

definition referenced_row :: "uuid \<Rightarrow> db \<Rightarrow> storage_error + artifact" where
  "referenced_row i d =
     (case tab_get f_id (artifacts d) i of
        None \<Rightarrow> Inl ArtifactState
      | Some f \<Rightarrow> if f_mode f \<noteq> REFERENCED then Inl ArtifactState else Inr f)"

definition reverify_referenced_artifact ::
  "store_env \<Rightarrow> (string \<Rightarrow> on_disk) \<Rightarrow> uuid \<Rightarrow> db \<Rightarrow> db \<Rightarrow> storage_error + artifact_state \<times> db" where
  "reverify_referenced_artifact se disk i d later =
     bindE (referenced_row i d) (\<lambda>f.
       if f_state f \<notin> {A_AVAILABLE, A_MISSING} then Inl ArtifactState
       else bindE (judge se (disk (the (f_path f))) (fingerprint f)) (\<lambda>(st, code).
         if (st, code) = (f_state f, f_code f) then Inr (st, later)
         else bindE (transition_artifact i [f_state f] REFERENCED (\<lambda>_. True)
                (\<lambda>f. f\<lparr>f_state := st, f_code := code, f_detail := None\<rparr>) later) (\<lambda>d'. Inr (st, d'))))"

datatype relink_error = RelinkStorage storage_error | NoFingerprint | RelinkMismatch | RelinkInspection import_error

definition relink_referenced_artifact ::
  "store_env \<Rightarrow> uuid \<Rightarrow> user_file \<Rightarrow> db \<Rightarrow> db \<Rightarrow> relink_error + db" where
  "relink_referenced_artifact se i xf d later =
     bindE (map_sum RelinkStorage id (referenced_row i d)) (\<lambda>f.
       if f_state f \<noteq> A_MISSING then Inl (RelinkStorage ArtifactState)
       else case fingerprint f of
         None \<Rightarrow> Inl NoFingerprint
       | Some known \<Rightarrow>
           bindE (map_sum RelinkInspection id (inspect_referenced_file se xf)) (\<lambda>rf.
             if rf_stored rf \<noteq> known then Inl RelinkMismatch
             else map_sum RelinkStorage id (transition_artifact i [A_MISSING] REFERENCED (\<lambda>_. True)
                    (\<lambda>f. f\<lparr>f_state := A_AVAILABLE, f_path := Some (rf_path rf), f_code := None, f_detail := None\<rparr>) later)))"

section \<open>Recheck\<close>

datatype recheck_error = NoSuchSource | OriginalUnreadable | OriginalUnverifiable | RecheckRaised storage_error

record recheck =
  rk_state :: artifact_state
  rk_reason :: "string option"
  rk_recovered :: bool

definition original_of :: "uuid \<Rightarrow> db \<Rightarrow> artifact option" where
  "original_of i d =
     (case tab_get c_id (sources d) i of None \<Rightarrow> None | Some c \<Rightarrow> tab_get f_id (artifacts d) (c_original c))"

definition say_why_missing :: "store_env \<Rightarrow> uuid \<Rightarrow> string \<Rightarrow> db \<Rightarrow> managed_files \<Rightarrow> storage_error + db" where
  "say_why_missing se i key d fs =
     bindE (path_for se key) (\<lambda>k.
       let code = (case final_entry fs k of Some (File _) \<Rightarrow> ''MANAGED_CONTENT_CHANGED'' | _ \<Rightarrow> ''MANAGED_FILE_MISSING'')
       in transition_artifact i [A_MISSING] MANAGED (\<lambda>_. True) (\<lambda>f. f\<lparr>f_code := Some code\<rparr>) d)"

definition recheck_missing ::
  "store_env \<Rightarrow> (string \<Rightarrow> on_disk) \<Rightarrow> artifact \<Rightarrow> db \<Rightarrow> managed_files \<Rightarrow> storage_error + db" where
  "recheck_missing se disk f d fs =
     (if f_mode f = MANAGED
      then bindE (reverify_managed_artifact se (f_id f) d fs) (\<lambda>(st, d').
             if st = A_AVAILABLE then Inr d' else say_why_missing se (f_id f) (the (f_key f)) d' fs)
      else bindE (reverify_referenced_artifact se disk (f_id f) d d) (\<lambda>(_, d'). Inr d'))"

definition recheck_report :: "artifact \<Rightarrow> db \<Rightarrow> recheck \<times> db" where
  "recheck_report f d =
     (case tab_get f_id (artifacts d) (f_id f) of
        None \<Rightarrow> (\<lparr>rk_state = A_DELETED, rk_reason = None, rk_recovered = False\<rparr>, d)
      | Some g \<Rightarrow>
          (\<lparr>rk_state = f_state g, rk_reason = (if f_state g = A_AVAILABLE then None else f_code g),
            rk_recovered = (f_state f = A_MISSING \<and> f_state g = A_AVAILABLE)\<rparr>, d))"

definition recheck_original ::
  "store_env \<Rightarrow> (string \<Rightarrow> on_disk) \<Rightarrow> uuid \<Rightarrow> db \<Rightarrow> managed_files \<Rightarrow> recheck_error + recheck \<times> db" where
  "recheck_original se disk i d fs =
     (case original_of i d of
        None \<Rightarrow> Inl NoSuchSource
      | Some f \<Rightarrow>
          if f_state f \<noteq> A_MISSING then Inr (recheck_report f d)
          else if fingerprint f = None then Inl OriginalUnverifiable
          else (case recheck_missing se disk f d fs of
             Inl ArtifactState \<Rightarrow> Inr (recheck_report f d)
           | Inl (OsError _) \<Rightarrow> Inl OriginalUnreadable
           | Inl e \<Rightarrow> Inl (RecheckRaised e)
           | Inr d' \<Rightarrow> Inr (recheck_report f d')))"

section \<open>An import is all or nothing\<close>

lemma storage_ok_cong: "artifacts d' = artifacts d \<Longrightarrow> storage_ok dg (d', fs) = storage_ok dg (d, fs)"
  by (simp add: storage_ok_def)

lemma store_file_new:
  assumes "store_file se fault key b fs = (Inr st, fs1)" and "final_entry fs key = None"
  shows "final_entry fs1 key = Some (File b)" and "st = stored_bytes se b"
  using assms by (auto simp: store_file_def Let_def split: sum.split_asm option.split_asm)

lemma reserved_key_unused:
  assumes "storage_ok dg (d, fs)" and "reserve_managed_artifact kind meta i now d = Inr (f, d1)"
  shows "final_entry fs (the (f_key f)) = None"
proof (rule ccontr)
  assume "final_entry fs (the (f_key f)) \<noteq> None"
  then obtain g where g: "g \<in> set (artifacts d)" "f_key g = Some (the (f_key f))"
    using assms(1) by (auto simp: storage_ok_def)
  with assms(2) show False
    by (auto simp: reserve_managed_artifact_def bindE_Inr_iff Let_def split: if_split_asm)
qed

lemma reserve_frame:
  assumes "reserve_managed_artifact kind meta i now d = Inr (f, d1)"
  shows "d1 = d\<lparr>artifacts := artifacts d @ [f]\<rparr>"
  using assms by (auto simp: reserve_managed_artifact_def bindE_Inr_iff Let_def split: if_split_asm)

lemma publish_import_Inr:
  assumes "publish_import i a st name img now later d = Inr (s, d')"
  obtains c d1 where "mark_artifact_available a st now d = Inr d1" "d' = d1\<lparr>sources := sources d1 @ [c]\<rparr>"
    "c_id c = i" "s = i" "c_state c = S_ACTIVE" "c_name c = name" "c_original c = a"
  using assms that
  by (fastforce simp: publish_import_def add_source_def source_add_def bindE_Inr_iff split: if_split_asm)

lemma mark_available_row:
  assumes "storage_ok dg (d, fs)" and "f \<in> set (artifacts d)" and "mark_artifact_available (f_id f) st now d = Inr d1"
  shows "sources d1 = sources d" and "\<exists>g\<in>set (artifacts d1). f_id g = f_id f \<and> f_key g = f_key f \<and> f_mode g = MANAGED \<and>
    f_state g = A_AVAILABLE \<and> f_sha g = Some (fst st) \<and> f_size g = Some (snd st)"
proof -
  note t = transition_artifact_Inr [OF assms(3) [unfolded mark_artifact_available_def]]
  show "sources d1 = sources d" by (simp add: t(1))
  obtain g where g: "g \<in> set (artifacts d)" "f_id g = f_id f" "f_mode g = MANAGED" "f_state g = A_PENDING"
    using t(2) by auto
  have "g = f" using artifacts_ok_same [of "artifacts d" g f] assms(1,2) g(1,2) by (simp add: storage_ok_def)
  let ?v = "\<lambda>f. f\<lparr>f_state := A_AVAILABLE, f_sha := Some (fst st), f_size := Some (snd st), f_available := Some now,
      f_code := None, f_detail := None\<rparr>"
  have "?v f \<in> set (artifacts d1)" using g \<open>g = f\<close> by (force simp: t(1))
  then show "\<exists>g\<in>set (artifacts d1). f_id g = f_id f \<and> f_key g = f_key f \<and> f_mode g = MANAGED \<and>
    f_state g = A_AVAILABLE \<and> f_sha g = Some (fst st) \<and> f_size g = Some (snd st)"
    using g(3) \<open>g = f\<close> by (intro bexI [of _ "?v f"]) simp_all
qed

text \<open>What a published import is: the new source, its original, and the file's own bytes under its key.\<close>

definition imported :: "(byte list \<Rightarrow> byte list) \<Rightarrow> string \<Rightarrow> byte list \<Rightarrow> db \<Rightarrow> db \<Rightarrow> managed_files \<Rightarrow> bool" where
  "imported dg name data d d' fs' \<longleftrightarrow>
     (\<exists>c. sources d' = sources d @ [c] \<and> c_state c = S_ACTIVE \<and> c_name c = name \<and>
       (\<exists>f\<in>set (artifacts d'). f_id f = c_original c \<and> f_mode f = MANAGED \<and> f_state f = A_AVAILABLE \<and>
          f_sha f = Some (dg data) \<and> f_size f = Some (int (length data)) \<and>
          final_entry fs' (the (f_key f)) = Some (File data)))"


text \<open>A small picture of the user's, and a library to import it into.\<close>

definition sample_pillow :: pillow where
  "sample_pillow = \<lparr>pil_open = (\<lambda>_. Opened PNG 1 2), pil_decode = (\<lambda>_. Colour 1 2 [1, 2, 3, 4, 5, 6])\<rparr>"

definition sample_file :: user_file where
  "sample_file = \<lparr>xf_name = ''a.png'', xf_stem = ''a'', xf_absolute = True, xf_resolved = Some ''/u/a.png'',
     xf_is_file = True, xf_inside_roots = False, xf_before = Some (3, 0), xf_content = Some [7, 8, 9],
     xf_after = Some (3, 0), xf_stat_size = Some 3, xf_read = Some [7, 8, 9]\<rparr>"

definition imported_library :: "(import_error + uuid \<times> uuid) option \<times> db \<times> managed_files" where
  "imported_library = import_managed plain_store sample_pillow 100 3 None [] None sample_file None (\<lambda>n. 20 + n) int empty_db no_files"


section \<open>Only the recorded media comes back\<close>

lemma fingerprint_Some: "fingerprint f = Some st \<longleftrightarrow> f_sha f = Some (fst st) \<and> f_size f = Some (snd st)"
  by (cases st) (auto simp: fingerprint_def split: option.split)

lemma judge_available:
  assumes "judge se od (Some st) = Inr (A_AVAILABLE, code)"
  shows "code = None \<and> (\<exists>n b. od = Regular n (Content b) \<and> st = stored_bytes se b)"
  using assms by (auto simp: judge_def split: on_disk.split_asm read_outcome.split_asm if_split_asm)

text \<open>A settled transition changes its one row and no other table.\<close>

definition only_row :: "uuid \<Rightarrow> db \<Rightarrow> db \<Rightarrow> bool" where
  "only_row i d d' \<longleftrightarrow> (\<exists>v. d' = d\<lparr>artifacts := map (\<lambda>f. if f_id f = i then v f else f) (artifacts d)\<rparr> \<and>
     (\<forall>f. f_id (v f) = f_id f \<and> f_mode (v f) = f_mode f \<and> f_sha (v f) = f_sha f \<and> f_size (v f) = f_size f))"

lemma only_row_refl: "only_row i d d"
  unfolding only_row_def by (rule exI [of _ "\<lambda>f. f"]) simp

lemma only_row_transition:
  assumes "transition_artifact i from mode extra v d = Inr d'"
    and "\<And>f. f_id (v f) = f_id f \<and> f_mode (v f) = f_mode f \<and> f_sha (v f) = f_sha f \<and> f_size (v f) = f_size f"
  shows "only_row i d d'"
  unfolding only_row_def transition_artifact_Inr(1) [OF assms(1)]
  by (rule exI [of _ "\<lambda>f. if f_mode f = mode \<and> f_state f \<in> set from \<and> extra f then v f else f"]) (use assms(2) in auto)

lemma only_row_trans: "only_row i d d1 \<Longrightarrow> only_row i d1 d2 \<Longrightarrow> only_row i d d2"
proof -
  assume "only_row i d d1" "only_row i d1 d2"
  then obtain v w where v: "d1 = d\<lparr>artifacts := map (\<lambda>f. if f_id f = i then v f else f) (artifacts d)\<rparr>"
      "\<forall>f. f_id (v f) = f_id f \<and> f_mode (v f) = f_mode f \<and> f_sha (v f) = f_sha f \<and> f_size (v f) = f_size f"
    and w: "d2 = d1\<lparr>artifacts := map (\<lambda>f. if f_id f = i then w f else f) (artifacts d1)\<rparr>"
      "\<forall>f. f_id (w f) = f_id f \<and> f_mode (w f) = f_mode f \<and> f_sha (w f) = f_sha f \<and> f_size (w f) = f_size f"
    unfolding only_row_def by blast
  have "map (\<lambda>f. if f_id f = i then w f else f) (map (\<lambda>f. if f_id f = i then v f else f) t) =
      map (\<lambda>f. if f_id f = i then w (v f) else f) t" for t using v(2) by simp
  then have "d2 = d\<lparr>artifacts := map (\<lambda>f. if f_id f = i then w (v f) else f) (artifacts d)\<rparr>"
    by (simp add: w(1) v(1) del: map_map)
  then show "only_row i d d2" unfolding only_row_def using v(2) w(2) by (intro exI [of _ "\<lambda>f. w (v f)"]) simp
qed

lemma reverify_managed_row:
  assumes "reverify_managed_artifact se i d fs = Inr (st, d')" and "tab_get f_id (artifacts d) i = Some f"
  shows "only_row i d d'" and "st = A_MISSING \<Longrightarrow> d' = d"
    and "st = A_AVAILABLE \<Longrightarrow> \<exists>b. final_entry fs (the (f_key f)) = Some (File b) \<and> fingerprint f = Some (stored_bytes se b)"
    and "st = A_AVAILABLE \<or> st = A_MISSING"
proof -
  note d = assms(1) [unfolded reverify_managed_artifact_def assms(2) option.case]
  show "only_row i d d'"
    using d by (auto simp: bindE_Inr_iff only_row_refl split: option.split_asm if_split_asm intro: only_row_transition)
  show "st = A_MISSING \<Longrightarrow> d' = d" "st = A_AVAILABLE \<or> st = A_MISSING"
    using d by (auto simp: bindE_Inr_iff split: option.split_asm if_split_asm)
  show "\<exists>b. final_entry fs (the (f_key f)) = Some (File b) \<and> fingerprint f = Some (stored_bytes se b)" if "st = A_AVAILABLE"
    using d that by (auto simp: bindE_Inr_iff fingerprint_def split: option.split_asm if_split_asm dest!: digest_Inr)
qed

lemma reverify_referenced_row:
  assumes "reverify_referenced_artifact se disk i d later = Inr (st, d')" and "tab_get f_id (artifacts d) i = Some f"
    and "fingerprint f \<noteq> None"
  shows "only_row i later d'" and "st \<in> {A_AVAILABLE, A_MISSING}"
    and "st = A_AVAILABLE \<Longrightarrow> \<exists>n b. disk (the (f_path f)) = Regular n (Content b) \<and> fingerprint f = Some (stored_bytes se b)"
proof -
  obtain known where known: "fingerprint f = Some known" using assms(3) by auto
  obtain code where j: "judge se (disk (the (f_path f))) (Some known) = Inr (st, code)"
    and rest: "(if (st, code) = (f_state f, f_code f) then Inr (st, later)
         else bindE (transition_artifact i [f_state f] REFERENCED (\<lambda>_. True)
                (\<lambda>f. f\<lparr>f_state := st, f_code := code, f_detail := None\<rparr>) later) (\<lambda>d'. Inr (st, d'))) = Inr (st, d')"
    using assms(1,2) known
    by (auto simp: reverify_referenced_artifact_def referenced_row_def bindE_Inr_iff split: if_split_asm)
  show "only_row i later d'"
    using rest by (auto simp: bindE_Inr_iff only_row_refl split: if_split_asm intro: only_row_transition)
  show "st \<in> {A_AVAILABLE, A_MISSING}"
    using j by (auto simp: judge_def split: on_disk.split_asm read_outcome.split_asm if_split_asm)
  show "\<exists>n b. disk (the (f_path f)) = Regular n (Content b) \<and> fingerprint f = Some (stored_bytes se b)" if "st = A_AVAILABLE"
    using judge_available [OF j [unfolded that]] known by auto
qed

lemma tab_get_map_keep:
  "(\<And>f. f_id (v f) = f_id f) \<Longrightarrow> tab_get f_id (map v t) i = map_option v (tab_get f_id t i)"
  by (induction t) (auto simp: tab_get_Cons)

lemma reverify_referenced_state:
  assumes "reverify_referenced_artifact se disk i d d = Inr (st, d')" and "tab_get f_id (artifacts d) i = Some f"
  shows "map_option f_state (tab_get f_id (artifacts d') i) = Some st"
proof -
  have f: "f_id f = i" using assms(2) by (auto dest: tab_get_SomeD)
  have mode: "f_mode f = REFERENCED"
    using assms by (auto simp: reverify_referenced_artifact_def referenced_row_def bindE_Inr_iff split: if_split_asm)
  obtain code where "(st, code) = (f_state f, f_code f) \<and> d' = d \<or>
      transition_artifact i [f_state f] REFERENCED (\<lambda>_. True) (\<lambda>f. f\<lparr>f_state := st, f_code := code, f_detail := None\<rparr>) d = Inr d'"
    using assms by (auto simp: reverify_referenced_artifact_def referenced_row_def bindE_Inr_iff split: if_split_asm)
  then show ?thesis using f mode assms(2) by (auto simp: tab_get_map_keep dest!: transition_artifact_Inr(1))
qed

lemma recheck_missing_row:
  assumes "recheck_missing se disk f d fs = Inr d'" and "tab_get f_id (artifacts d) (f_id f) = Some f"
    and "f_state f = A_MISSING" and "fingerprint f \<noteq> None"
  shows "only_row (f_id f) d d'"
    and "map_option f_state (tab_get f_id (artifacts d') (f_id f)) = Some A_AVAILABLE \<Longrightarrow>
      \<exists>b. (if f_mode f = MANAGED then final_entry fs (the (f_key f)) = Some (File b)
           else \<exists>n. disk (the (f_path f)) = Regular n (Content b)) \<and> fingerprint f = Some (stored_bytes se b)"
proof -
  have "only_row (f_id f) d d' \<and>
    (map_option f_state (tab_get f_id (artifacts d') (f_id f)) = Some A_AVAILABLE \<longrightarrow>
      (\<exists>b. (if f_mode f = MANAGED then final_entry fs (the (f_key f)) = Some (File b)
           else \<exists>n. disk (the (f_path f)) = Regular n (Content b)) \<and> fingerprint f = Some (stored_bytes se b)))"
  proof (cases "f_mode f = MANAGED")
    case True
    then obtain st d1 where one: "reverify_managed_artifact se (f_id f) d fs = Inr (st, d1)"
      and rest: "(if st = A_AVAILABLE then Inr d1 else say_why_missing se (f_id f) (the (f_key f)) d1 fs) = Inr d'"
      using assms(1) by (auto simp: recheck_missing_def bindE_Inr_iff)
    note m = reverify_managed_row [OF one assms(2)]
    show ?thesis
    proof (cases "st = A_AVAILABLE")
      case avail: True
      with rest m True show ?thesis by simp
    next
      case False
      then have d1: "d1 = d" and why: "say_why_missing se (f_id f) (the (f_key f)) d fs = Inr d'" using rest m(2,4) by auto
      then obtain code where t: "transition_artifact (f_id f) [A_MISSING] MANAGED (\<lambda>_. True) (\<lambda>f. f\<lparr>f_code := Some code\<rparr>) d = Inr d'"
        by (auto simp: say_why_missing_def bindE_Inr_iff Let_def)
      have "map_option f_state (tab_get f_id (artifacts d') (f_id f)) = Some A_MISSING"
        using assms(2,3) transition_artifact_Inr(1) [OF t] by (auto simp: tab_get_map_keep)
      moreover have "only_row (f_id f) d d'" by (rule only_row_transition [OF t]) simp
      ultimately show ?thesis by auto
    qed
  next
    case False
    then obtain st where "reverify_referenced_artifact se disk (f_id f) d d = Inr (st, d')"
      using assms(1) by (auto simp: recheck_missing_def bindE_Inr_iff)
    note r = reverify_referenced_row [OF this assms(2,4)]
    show ?thesis
    proof (cases "st = A_AVAILABLE")
      case True
      with r False show ?thesis by auto
    next
      case no: False
      have "map_option f_state (tab_get f_id (artifacts d') (f_id f)) = Some st"
        by (rule reverify_referenced_state [OF \<open>reverify_referenced_artifact se disk (f_id f) d d = Inr (st, d')\<close> assms(2)])
      with r(1) no show ?thesis by auto
    qed
  qed
  then show "only_row (f_id f) d d'"
    and "map_option f_state (tab_get f_id (artifacts d') (f_id f)) = Some A_AVAILABLE \<Longrightarrow>
      \<exists>b. (if f_mode f = MANAGED then final_entry fs (the (f_key f)) = Some (File b)
           else \<exists>n. disk (the (f_path f)) = Regular n (Content b)) \<and> fingerprint f = Some (stored_bytes se b)" by blast+
qed

text \<open>The file in the original's place, when it can be read.\<close>

definition bytes_in_place :: "(string \<Rightarrow> on_disk) \<Rightarrow> managed_files \<Rightarrow> artifact \<Rightarrow> byte list \<Rightarrow> bool" where
  "bytes_in_place disk fs f b \<longleftrightarrow>
     (if f_mode f = MANAGED then final_entry fs (the (f_key f)) = Some (File b)
      else \<exists>n. disk (the (f_path f)) = Regular n (Content b))"

text \<open>
  Only the recorded media comes back. Rechecking an original that is not missing changes nothing.
  Rechecking a missing one writes its artifact's row alone, never the source, and leaves its recorded
  size and digest; the report says it is recovered exactly when it was missing and is available now,
  and then the file in its place has exactly the recorded size and SHA-256. Relinking a referenced
  original likewise succeeds only for a file with the recorded size and digest, outside the
  application's own folders, and writes its row alone.
\<close>

theorem only_the_recorded_media_comes_back:
  "(recheck_original se disk i d fs = Inr (rk, d') \<longrightarrow>
     (\<exists>f. original_of i d = Some f \<and> only_row (f_id f) d d' \<and> (f_state f \<noteq> A_MISSING \<longrightarrow> d' = d) \<and>
       (rk_recovered rk \<longleftrightarrow> f_state f = A_MISSING \<and> rk_state rk = A_AVAILABLE) \<and>
       (rk_recovered rk \<longrightarrow> (\<exists>b. bytes_in_place disk fs f b \<and> fingerprint f = Some (stored_bytes se b))))) \<and>
   (relink_referenced_artifact se a xf d later = Inr d' \<longrightarrow>
     (\<exists>f rf. tab_get f_id (artifacts d) a = Some f \<and> f_mode f = REFERENCED \<and> f_state f = A_MISSING \<and>
       inspect_referenced_file se xf = Inr rf \<and> fingerprint f = Some (rf_stored rf) \<and> \<not> xf_inside_roots xf \<and>
       only_row a later d'))"
proof (intro conjI impI)
  assume run: "recheck_original se disk i d fs = Inr (rk, d')"
  then obtain f where f: "original_of i d = Some f" by (auto simp: recheck_original_def split: option.split_asm)
  have get: "tab_get f_id (artifacts d) (f_id f) = Some f"
    using f by (auto simp: original_of_def split: option.split_asm) (metis tab_get_SomeD)
  have same: "snd (recheck_report f x) = x" "rk_recovered (fst (recheck_report f x)) \<longleftrightarrow>
      f_state f = A_MISSING \<and> map_option f_state (tab_get f_id (artifacts x) (f_id f)) = Some A_AVAILABLE"
    "rk_state (fst (recheck_report f x)) = A_AVAILABLE \<longleftrightarrow> map_option f_state (tab_get f_id (artifacts x) (f_id f)) = Some A_AVAILABLE"
    for x by (auto simp: recheck_report_def split: option.split)
  have refl: "only_row (f_id f) d d" by (rule only_row_refl)
  consider (still) "f_state f \<noteq> A_MISSING" "recheck_report f d = (rk, d')"
    | (settled) "f_state f = A_MISSING" "recheck_report f d = (rk, d')"
    | (checked) d1 where "f_state f = A_MISSING" "fingerprint f \<noteq> None" "recheck_missing se disk f d fs = Inr d1" "recheck_report f d1 = (rk, d')"
    using run f by (auto simp: recheck_original_def split: if_split_asm sum.split_asm storage_error.split_asm)
  then have "only_row (f_id f) d d' \<and> (f_state f \<noteq> A_MISSING \<longrightarrow> d' = d) \<and>
       (rk_recovered rk \<longleftrightarrow> f_state f = A_MISSING \<and> rk_state rk = A_AVAILABLE) \<and>
       (rk_recovered rk \<longrightarrow> (\<exists>b. bytes_in_place disk fs f b \<and> fingerprint f = Some (stored_bytes se b)))"
  proof cases
    case still
    with same [of d] refl show ?thesis by simp
  next
    case settled
    with same [of d] refl get show ?thesis by simp
  next
    case checked
    from recheck_missing_row [OF checked(3) get checked(1,2)] same [of d1] checked(1,4)
    show ?thesis unfolding bytes_in_place_def by simp
  qed
  with f show "\<exists>f. original_of i d = Some f \<and> only_row (f_id f) d d' \<and> (f_state f \<noteq> A_MISSING \<longrightarrow> d' = d) \<and>
       (rk_recovered rk \<longleftrightarrow> f_state f = A_MISSING \<and> rk_state rk = A_AVAILABLE) \<and>
       (rk_recovered rk \<longrightarrow> (\<exists>b. bytes_in_place disk fs f b \<and> fingerprint f = Some (stored_bytes se b)))" by blast
next
  assume run: "relink_referenced_artifact se a xf d later = Inr d'"
  obtain f known rf where f: "tab_get f_id (artifacts d) a = Some f" "f_mode f = REFERENCED" "f_state f = A_MISSING"
      "fingerprint f = Some known" and rf: "inspect_referenced_file se xf = Inr rf" "rf_stored rf = known"
    and t: "transition_artifact a [A_MISSING] REFERENCED (\<lambda>_. True)
      (\<lambda>f. f\<lparr>f_state := A_AVAILABLE, f_path := Some (rf_path rf), f_code := None, f_detail := None\<rparr>) later = Inr d'"
    using run by (auto simp: relink_referenced_artifact_def referenced_row_def bindE_Inr_iff split: option.split_asm if_split_asm)
  have "\<not> xf_inside_roots xf" using rf(1) by (auto simp: inspect_referenced_file_def split: option.split_asm if_split_asm)
  with f rf only_row_transition [OF t] show "\<exists>f rf. tab_get f_id (artifacts d) a = Some f \<and> f_mode f = REFERENCED \<and> f_state f = A_MISSING \<and>
       inspect_referenced_file se xf = Inr rf \<and> fingerprint f = Some (rf_stored rf) \<and> \<not> xf_inside_roots xf \<and> only_row a later d'"
    by auto
qed

text \<open>The imported picture is lost, and then put back.\<close>

definition lost_library :: "db \<times> managed_files" where
  "lost_library = (case imported_library of (_, d, fs) \<Rightarrow>
     (snd (mark_each_missing ''MANAGED_FILE_MISSING'' MANAGED [20] d), fs))"

lemma only_the_recorded_media_comes_back_witness:
  "\<exists>rk d'. recheck_original plain_store (\<lambda>_. Absent) 21 (fst lost_library) (snd lost_library) = Inr (rk, d') \<and> rk_recovered rk \<and>
     (\<exists>f b. original_of 21 (fst lost_library) = Some f \<and> bytes_in_place (\<lambda>_. Absent) (snd lost_library) f b \<and>
        fingerprint f = Some (stored_bytes plain_store b))"
proof -
  have ran: "(case recheck_original plain_store (\<lambda>_. Absent) 21 (fst lost_library) (snd lost_library) of
      Inl _ \<Rightarrow> False | Inr (rk, _) \<Rightarrow> rk_recovered rk)" by code_simp
  then obtain rk d' where run: "recheck_original plain_store (\<lambda>_. Absent) 21 (fst lost_library) (snd lost_library) = Inr (rk, d')"
      "rk_recovered rk"
    by (cases "recheck_original plain_store (\<lambda>_. Absent) 21 (fst lost_library) (snd lost_library)") auto
  then show ?thesis using only_the_recorded_media_comes_back by blast
qed

end
