(* ===== verification/Deletion.thy ===== *)
theory Deletion
  imports Sources Forget
begin

text \<open>
  Permanent deletion of a Source (\<open>backend/app/sources/permanent_delete.py\<close>): the intent in one
  transaction, then the bytes and the vectors, then one transaction that deletes every row that is left
  and turns the Source into a tombstone. \<open>ON DELETE\<close> actions of the schema are written out; a row that a
  RESTRICT foreign key would keep is left to the database. Every step can be repeated.
\<close>

section \<open>What a source owns\<close>

definition deleted_display_name :: string where
  "deleted_display_name = ''Deleted image''"

definition holds_vector :: "rep_state list" where
  "holds_vector = [R_DELETED, R_ACTIVE, R_PENDING, R_SUPERSEDED, R_ERASING]"

datatype deletion_error =
    DeletionSourceMissing | SourceNotRecycled source_state | DeletionBusy | NotDeleting source_state | ErasureIncomplete
  | DeletionStorage storage_error | DeletionQueue repo_error

definition owned_artifact_ids :: "uuid \<Rightarrow> db \<Rightarrow> uuid list" where
  "owned_artifact_ids i d =
     dedup (concat (map (\<lambda>c. c_original c # (case c_thumbnail c of None \<Rightarrow> [] | Some t \<Rightarrow> [t]))
                      (filter (\<lambda>c. c_id c = i) (sources d))) @
            concat (map (\<lambda>ob. case o_crop ob of None \<Rightarrow> [] | Some a \<Rightarrow> [a]) (filter (\<lambda>ob. o_source ob = i) (observations d))))"

definition of_source :: "uuid \<Rightarrow> db \<Rightarrow> rep \<Rightarrow> bool" where
  "of_source i d r \<longleftrightarrow> list_ex (\<lambda>ob. o_source ob = i \<and> o_id ob = r_obs r) (observations d)"

definition source_rep_ids :: "uuid \<Rightarrow> db \<Rightarrow> uuid list" where
  "source_rep_ids i d = map r_id (filter (of_source i d) (reps d))"

section \<open>Step one: intent\<close>

definition all_artifact_states :: "artifact_state list" where
  "all_artifact_states = [A_PENDING, A_AVAILABLE, A_MISSING, A_DELETING, A_DELETE_FAILED, A_DELETED]"

definition forget_reference :: "uuid \<Rightarrow> time \<Rightarrow> db \<Rightarrow> storage_error + db" where
  "forget_reference a now d =
     transition_artifact a all_artifact_states REFERENCED (\<lambda>_. True)
       (\<lambda>f. f\<lparr>f_state := A_DELETED, f_deleted := Some now, f_path := None\<rparr>) d"

definition begin_artifact :: "time \<Rightarrow> artifact \<Rightarrow> db \<Rightarrow> storage_error + db" where
  "begin_artifact now f d =
     (if f_mode f = REFERENCED then forget_reference (f_id f) now d
      else if f_state f = A_PENDING then abandon_artifact (f_id f) now d
      else if f_state f \<in> set deletable_states then request_artifact_deletion None (f_id f) now d
      else Inr d)"

definition begin_artifacts :: "time \<Rightarrow> artifact list \<Rightarrow> db \<Rightarrow> storage_error + db" where
  "begin_artifacts now = each_artifact (begin_artifact now)"

definition owned_artifacts :: "uuid \<Rightarrow> db \<Rightarrow> artifact list" where
  "owned_artifacts i d = filter (\<lambda>f. f_id f \<in> set (owned_artifact_ids i d)) (artifacts d)"

text \<open>The identities shown in the source change, and its occurrences and observations leave every reader.\<close>

definition touch_shown :: "uuid \<Rightarrow> time \<Rightarrow> db \<Rightarrow> db" where
  "touch_shown i now d =
     d\<lparr>identities := tab_update (\<lambda>x. i_state x = I_ACTIVE \<and> list_ex (\<lambda>oc. oc_source oc = i \<and> oc_identity oc = i_id x) (occurrences d))
          (\<lambda>x. x\<lparr>i_rev := i_rev x + 1, i_updated := now\<rparr>) (identities d)\<rparr>"

definition hide_source :: "uuid \<Rightarrow> db \<Rightarrow> db" where
  "hide_source i d =
     d\<lparr>occurrences := tab_update (\<lambda>oc. oc_source oc = i) (\<lambda>oc. oc\<lparr>oc_state := OC_DELETED\<rparr>) (occurrences d),
       observations := tab_update (\<lambda>ob. o_source ob = i) (\<lambda>ob. ob\<lparr>o_state := O_DELETED\<rparr>) (observations d)\<rparr>"

definition source_update :: "uuid \<Rightarrow> int \<Rightarrow> (source \<Rightarrow> source) \<Rightarrow> db \<Rightarrow> db" where
  "source_update i expected values d =
     d\<lparr>sources := snd (optimistic_locked_update c_id c_rev bump_source i expected values (\<lambda>_. True) (sources d))\<rparr>"

text \<open>\<open>_begin\<close>; \<open>queued\<close> is the eraser's own clock.\<close>

definition begin_deletion :: "uuid \<Rightarrow> time \<Rightarrow> time \<Rightarrow> id_supply \<Rightarrow> db \<Rightarrow> deletion_error + source_state \<times> db" where
  "begin_deletion i now queued ids d =
     (case tab_get c_id (sources d) i of
        None \<Rightarrow> Inl DeletionSourceMissing
      | Some c \<Rightarrow>
          if c_state c \<in> {S_DELETING, S_DELETED} then Inr (c_state c, d)
          else if c_state c \<noteq> S_RECYCLED then Inl (SourceNotRecycled (c_state c))
          else if source_busy i d then Inl DeletionBusy
          else
            let d1 = source_update i (c_rev c) (\<lambda>c. c\<lparr>c_state := S_DELETING, c_updated := now\<rparr>) d
            in bindE (map_sum DeletionStorage id (begin_artifacts now (owned_artifacts i d1) d1)) (\<lambda>d2.
               bindE (map_sum DeletionQueue id (queue_in (source_rep_ids i d2) queued ids d2)) (\<lambda>d3.
                 Inr (S_RECYCLED, hide_source i (touch_shown i now d3)))))"

section \<open>Step four: finalization\<close>

definition affected_identities :: "uuid \<Rightarrow> db \<Rightarrow> uuid list" where
  "affected_identities i d =
     dedup (map oc_identity (filter (\<lambda>oc. oc_source oc = i) (occurrences d)) @
            concat (map (\<lambda>r. case r_identity r of None \<Rightarrow> [] | Some x \<Rightarrow> [x]) (filter (of_source i d) (reps d))))"

text \<open>Evidence stays; what it pointed at goes. Then the queue, the occurrences with their members, the faces.\<close>

definition unlink_evidence :: "uuid list \<Rightarrow> db \<Rightarrow> db" where
  "unlink_evidence rs d =
     d\<lparr>ev_reps := filter (\<lambda>l. er_rep l \<notin> set rs) (ev_reps d),
       ev_candidates := tab_update (\<lambda>c. ec_rep c \<in> Some ` set rs) (\<lambda>c. c\<lparr>ec_rep := None\<rparr>) (ev_candidates d),
       index_ops := filter (\<lambda>x. x_rep x \<notin> set rs) (index_ops d)\<rparr>"

definition delete_occurrences :: "uuid \<Rightarrow> db \<Rightarrow> db" where
  "delete_occurrences i d =
     (let gone = map oc_id (filter (\<lambda>oc. oc_source oc = i) (occurrences d))
      in d\<lparr>occurrences := filter (\<lambda>oc. oc_source oc \<noteq> i) (occurrences d),
           occ_obs := filter (\<lambda>m. oo_occurrence m \<notin> set gone) (occ_obs d)\<rparr>)"

definition clear_face :: "uuid list \<Rightarrow> uuid option \<Rightarrow> uuid option" where
  "clear_face gone face = (if face \<in> Some ` set gone then None else face)"

definition delete_observations :: "uuid \<Rightarrow> db \<Rightarrow> db" where
  "delete_observations i d =
     (let gone = map o_id (filter (\<lambda>ob. o_source ob = i) (observations d))
      in d\<lparr>observations := filter (\<lambda>ob. o_source ob \<noteq> i) (observations d),
           reps := filter (\<lambda>r. r_obs r \<notin> set gone) (reps d),
           identities := map (\<lambda>x. x\<lparr>i_face := clear_face gone (i_face x)\<rparr>) (identities d),
           occurrences := map (\<lambda>oc. oc\<lparr>oc_face := clear_face gone (oc_face oc)\<rparr>) (occurrences d)\<rparr>)"

definition delete_runs :: "uuid \<Rightarrow> db \<Rightarrow> db" where
  "delete_runs i d =
     (let rs = map p_id (filter (\<lambda>p. p_source p = i) (runs d));
          ns = map p_snapshot (filter (\<lambda>p. p_source p = i) (runs d));
          mine = (\<lambda>x. x \<in> Some ` set rs)
      in d\<lparr>evidences := tab_update (\<lambda>e. mine (e_run e)) (\<lambda>e. e\<lparr>e_run := None\<rparr>) (evidences d),
           identities := tab_update (\<lambda>x. mine (i_run x)) (\<lambda>x. x\<lparr>i_run := None\<rparr>) (identities d),
           checkpoints := filter (\<lambda>k. k_run k \<notin> set rs) (checkpoints d),
           segments := filter (\<lambda>g. g_run g \<notin> set rs) (segments d),
           jobs := filter (\<lambda>j. \<not> mine (j_run j)) (tab_update (\<lambda>j. mine (j_run j)) (\<lambda>j. j\<lparr>j_previous := None\<rparr>) (jobs d)),
           sources := tab_update (\<lambda>c. c_id c = i) (\<lambda>c. c\<lparr>c_run := None\<rparr>) (sources d),
           runs := filter (\<lambda>p. p_source p \<noteq> i) (tab_update (\<lambda>p. p_source p = i) (\<lambda>p. p\<lparr>p_parent := None\<rparr>) (runs d)),
           snapshots := fold (\<lambda>c. filter (\<lambda>n. n_id n \<notin> set c)) (chunks erasure_chunk ns) (snapshots d)\<rparr>)"

definition strip_artifacts :: "uuid list \<Rightarrow> db \<Rightarrow> db" where
  "strip_artifacts owned d =
     d\<lparr>artifacts := fold (\<lambda>c. tab_update (\<lambda>f. f_id f \<in> set c)
          (\<lambda>f. f\<lparr>f_filename := None, f_mime := None, f_sha := None, f_size := None\<rparr>))
        (chunks erasure_chunk owned) (artifacts d)\<rparr>"

text \<open>An identity that keeps other faces gets one to show; an unnamed one with nothing left goes.\<close>

definition survivor :: "db \<Rightarrow> uuid \<Rightarrow> uuid option" where
  "survivor d x =
     (case first_by (\<lambda>oc. (oc_created oc, int (oc_id oc)))
             (filter (\<lambda>oc. oc_identity oc = x \<and> oc_state oc = OC_ACTIVE \<and> oc_face oc \<noteq> None) (occurrences d)) of
        None \<Rightarrow> None | Some oc \<Rightarrow> oc_face oc)"

definition show_survivors :: "uuid list \<Rightarrow> time \<Rightarrow> db \<Rightarrow> db" where
  "show_survivors affected now d =
     d\<lparr>identities := fold (\<lambda>c. tab_update
          (\<lambda>x. i_id x \<in> set c \<and> i_state x = I_ACTIVE \<and> i_face x = None \<and> survivor d (i_id x) \<noteq> None)
          (\<lambda>x. x\<lparr>i_face := survivor d (i_id x), i_rev := i_rev x + 1, i_updated := now\<rparr>))
        (chunks erasure_chunk affected) (identities d)\<rparr>"

definition abandoned :: "db \<Rightarrow> uuid \<Rightarrow> bool" where
  "abandoned d x \<longleftrightarrow>
     \<not> list_ex (\<lambda>oc. oc_identity oc = x \<and> oc_state oc \<in> {OC_ACTIVE, OC_PENDING}) (occurrences d) \<and>
     \<not> list_ex (\<lambda>a. a_identity a = x \<and> a_state a = AS_ACTIVE) (associations d)"

definition drop_abandoned :: "uuid list \<Rightarrow> time \<Rightarrow> db \<Rightarrow> db" where
  "drop_abandoned affected now d =
     d\<lparr>identities := fold (\<lambda>c. tab_update (\<lambda>x. i_id x \<in> set c \<and> i_state x = I_ACTIVE \<and> abandoned d (i_id x))
          (\<lambda>x. x\<lparr>i_state := I_DELETED, i_rev := i_rev x + 1, i_updated := now\<rparr>))
        (chunks erasure_chunk affected) (identities d)\<rparr>"

definition deletion_evidence :: "uuid \<Rightarrow> uuid \<Rightarrow> uuid list \<Rightarrow> time \<Rightarrow> evidence" where
  "deletion_evidence e i affected now =
     new_evidence e SOURCE_PERMANENTLY_DELETED None (Some i) None None 1
       (JObj [(''affected_identity_ids'', uuid_list (sort affected))]) now"

definition tombstone :: "time \<Rightarrow> source \<Rightarrow> source" where
  "tombstone now c = c\<lparr>c_state := S_DELETED, c_name := deleted_display_name, c_thumbnail := None, c_captured := None,
     c_duration := None, c_width := None, c_height := None, c_rate := (None, None), c_updated := now\<rparr>"

definition delete_rows :: "uuid \<Rightarrow> string \<Rightarrow> time \<Rightarrow> db \<Rightarrow> db" where
  "delete_rows i marker now d =
     (let affected = affected_identities i d
      in drop_abandoned affected now (show_survivors affected now (strip_artifacts (owned_artifact_ids i d)
           (delete_runs i (delete_observations i (delete_occurrences i (unlink_evidence (source_rep_ids i d)
             (app_state_set wal_truncation_owed marker now d))))))))"

definition finalize_deletion :: "uuid \<Rightarrow> string \<Rightarrow> uuid \<Rightarrow> time \<Rightarrow> db \<Rightarrow> deletion_error + bool \<times> db" where
  "finalize_deletion i marker e now d =
     (case tab_get c_id (sources d) i of
        None \<Rightarrow> Inl DeletionSourceMissing
      | Some c \<Rightarrow>
          if c_state c = S_DELETED then Inr (False, d)
          else if c_state c \<noteq> S_DELETING then Inl (NotDeleting (c_state c))
          else if list_ex (\<lambda>r. of_source i d r \<and> r_state r \<in> set holds_vector) (reps d) then Inl ErasureIncomplete
          else bindE (map_sum DeletionQueue id
                  (evidence_append (deletion_evidence e i (affected_identities i d) now) [] [] (delete_rows i marker now d)))
                (\<lambda>d'. Inr (True, source_update i (c_rev c) (tombstone now) d')))"

section \<open>Steps two to four\<close>

datatype deletion_owed = ArtifactOwed uuid | StagedOwed string | NotDeleted uuid | VectorsOwed owed | DeletionFailed deletion_error

record deletion_report =
  dr_source :: uuid
  dr_outstanding :: "deletion_owed list"
  dr_changed :: bool

definition dr_complete :: "deletion_report \<Rightarrow> bool" where
  "dr_complete rp \<longleftrightarrow> dr_outstanding rp = []"

definition owed_bytes :: "uuid \<Rightarrow> db \<Rightarrow> uuid list" where
  "owed_bytes i d =
     map f_id (filter (\<lambda>f. f_mode f = MANAGED \<and> f_state f \<in> {A_DELETING, A_DELETE_FAILED}) (owned_artifacts i d))"

definition staged_keys :: "uuid \<Rightarrow> db \<Rightarrow> string list" where
  "staged_keys i d =
     concat (map (\<lambda>f. case f_key f of None \<Rightarrow> [] | Some k \<Rightarrow> [k]) (filter (\<lambda>f. f_mode f = MANAGED) (owned_artifacts i d)))"

definition unfinished_artifacts :: "uuid \<Rightarrow> db \<Rightarrow> uuid list" where
  "unfinished_artifacts i d = map f_id (filter (\<lambda>f. f_state f \<noteq> A_DELETED) (owned_artifacts i d))"

fun is_os_error :: "storage_error \<Rightarrow> bool" where
  "is_os_error (OsError _) = True"
| "is_os_error _ = False"

text \<open>
  A refused removal of bytes is kept as owed; any other error of the protocol is raised, and what was
  written before it stays written.
\<close>

fun delete_each ::
  "store_env \<Rightarrow> time \<Rightarrow> uuid list \<Rightarrow> db \<Rightarrow> managed_files \<Rightarrow> (deletion_error + deletion_owed list) \<times> db \<times> managed_files" where
  "delete_each se now [] d fs = (Inr [], d, fs)"
| "delete_each se now (a # as) d fs =
     (case complete_artifact_deletion se a now d fs (\<lambda>d. d) of
        (Inr _, d1, fs1) \<Rightarrow> delete_each se now as d1 fs1
      | (Inl e, d1, fs1) \<Rightarrow>
          if is_os_error e \<or> e = UnsafeStorageKey
          then (case delete_each se now as d1 fs1 of (r, s) \<Rightarrow> (map_sum id (\<lambda>owed. ArtifactOwed a # owed) r, s))
          else (Inl (DeletionStorage e), d1, fs1))"

fun unlink_each :: "store_env \<Rightarrow> string list \<Rightarrow> managed_files \<Rightarrow> deletion_owed list \<times> managed_files" where
  "unlink_each se [] fs = ([], fs)"
| "unlink_each se (key # ks) fs =
     (let n = staging_name key in
      if se_locked se n \<and> n \<in> fst ` set (mf_staging fs)
      then (case unlink_each se ks fs of (owed, fs') \<Rightarrow> (StagedOwed key # owed, fs'))
      else unlink_each se ks (remove_staged n fs))"

text \<open>What the outside decides: the clocks, the ids and the two markers of the truncation.\<close>

record deletion_env =
  de_store :: store_env
  de_erasure :: erasure_env
  de_now :: time
  de_queued :: time
  de_ids :: "nat \<Rightarrow> id_supply"
  de_marker :: string
  de_truncation :: truncation   \<comment> \<open>of the log after finalization\<close>

definition erase_owed ::
  "deletion_env \<Rightarrow> uuid list \<Rightarrow> db \<Rightarrow> index_root \<Rightarrow> (deletion_error + deletion_owed list) \<times> db \<times> index_root" where
  "erase_owed de vectors d files =
     (if vectors = [] then (Inr [], d, files)
      else (case erase_reps (de_erasure de) vectors (de_queued de) (de_ids de 1) d files of
              Inl e \<Rightarrow> (Inl (DeletionQueue e), d, files)
            | Inr (rp, d', files') \<Rightarrow> (Inr (map VectorsOwed (outstanding_cleanup rp)), d', files')))"

definition settle_owed :: "deletion_env \<Rightarrow> uuid \<Rightarrow> bool \<Rightarrow> db \<Rightarrow> deletion_report \<times> db" where
  "settle_owed de i news d =
     (case settle_log (de_truncation de) d of
        (owed, d') \<Rightarrow> (\<lparr>dr_source = i, dr_outstanding = map VectorsOwed owed, dr_changed = news\<rparr>, d'))"

text \<open>The state is the database, the managed files and the index files; an error leaves what was committed.\<close>

type_synonym library = "db \<times> managed_files \<times> index_root"

definition carry_on :: "deletion_env \<Rightarrow> uuid \<Rightarrow> library \<Rightarrow> (deletion_error + deletion_report) \<times> library" where
  "carry_on de i lib =
     (case lib of (d, fs, files) \<Rightarrow>
     (case tab_get c_id (sources d) i of
        None \<Rightarrow> (Inl DeletionSourceMissing, lib)
      | Some c \<Rightarrow>
          if c_state c = S_DELETED then (case settle_owed de i False d of (rp, d') \<Rightarrow> (Inr rp, d', fs, files))
          else if c_state c \<noteq> S_DELETING then (Inl (SourceNotRecycled (c_state c)), lib)
          else (case delete_each (de_store de) (de_now de) (owed_bytes i d) d fs of
             (Inl e, d1, fs1) \<Rightarrow> (Inl e, d1, fs1, files)
           | (Inr bytes, d1, fs1) \<Rightarrow>
               (case unlink_each (de_store de) (staged_keys i d) fs1 of (staged, fs2) \<Rightarrow>
               let stuck = map NotDeleted (filter (\<lambda>a. a \<notin> set (owed_bytes i d)) (unfinished_artifacts i d))
               in (case erase_owed de (source_rep_ids i d) d1 files of
                  (Inl e, d2, files') \<Rightarrow> (Inl e, d2, fs2, files')
                | (Inr vectors, d2, files') \<Rightarrow>
                    if bytes @ staged @ stuck @ vectors \<noteq> []
                    then (Inr \<lparr>dr_source = i, dr_outstanding = bytes @ staged @ stuck @ vectors, dr_changed = False\<rparr>,
                          d2, fs2, files')
                    else (case finalize_deletion i (de_marker de) (de_ids de 2 0) (de_now de) d2 of
                       Inl e \<Rightarrow> (Inl e, d2, fs2, files')
                     | Inr (finalized, d3) \<Rightarrow>
                         (case settle_owed de i finalized d3 of (rp, d4) \<Rightarrow> (Inr rp, d4, fs2, files'))))))))"

definition delete_source :: "deletion_env \<Rightarrow> uuid \<Rightarrow> library \<Rightarrow> (deletion_error + deletion_report) \<times> library" where
  "delete_source de i lib =
     (case lib of (d, fs, files) \<Rightarrow>
     (case begin_deletion i (de_now de) (de_queued de) (de_ids de 0) d of
        Inl e \<Rightarrow> (Inl e, lib)
      | Inr (before, d1) \<Rightarrow>
          (case carry_on de i (d1, fs, files) of (r, s) \<Rightarrow>
             (map_sum id (\<lambda>rp. rp\<lparr>dr_changed := dr_changed rp \<or> before = S_RECYCLED\<rparr>) r, s))))"

text \<open>\<open>resume\<close>: one source that raises is reported and does not stop the rest.\<close>

fun resume_each :: "deletion_env \<Rightarrow> uuid list \<Rightarrow> library \<Rightarrow> deletion_report list \<times> library" where
  "resume_each de [] lib = ([], lib)"
| "resume_each de (i # is) lib =
     (case carry_on de i lib of (r, lib1) \<Rightarrow>
      (case resume_each de is lib1 of (rps, lib2) \<Rightarrow>
         ((case r of Inl e \<Rightarrow> \<lparr>dr_source = i, dr_outstanding = [DeletionFailed e], dr_changed = False\<rparr> | Inr rp \<Rightarrow> rp) # rps, lib2)))"

definition resume_deletions :: "deletion_env \<Rightarrow> library \<Rightarrow> deletion_report list \<times> library" where
  "resume_deletions de lib = resume_each de (map c_id (filter (\<lambda>c. c_state c = S_DELETING) (sources (fst lib)))) lib"

section \<open>What the intent does to the tables\<close>

definition begun :: "time \<Rightarrow> artifact \<Rightarrow> artifact" where
  "begun now f =
     (if f_mode f = REFERENCED then f\<lparr>f_state := A_DELETED, f_deleted := Some now, f_path := None\<rparr>
      else if f_state f = A_PENDING \<or> f_state f \<in> set deletable_states then f\<lparr>f_state := A_DELETING, f_delete_requested := Some now\<rparr>
      else f)"

lemma begun_same [simp]: "same_row (begun now f) f" "f_id (begun now f) = f_id f" "f_mode (begun now f) = f_mode f"
  by (simp_all add: begun_def same_row_def)

lemma begun_state:
  "f_mode f = MANAGED \<Longrightarrow> f_state (begun now f) \<in> {A_DELETING, A_DELETED}"
  "f_mode f = REFERENCED \<Longrightarrow> f_state (begun now f) = A_DELETED \<and> f_path (begun now f) = None"
  by (cases "f_state f"; simp add: begun_def deletable_states_def) (simp add: begun_def)

lemma all_artifact_states [simp]: "st \<in> set all_artifact_states"
  by (cases st) (simp_all add: all_artifact_states_def)

lemma begin_artifact_row:
  assumes "f \<in> set (artifacts d)" and "artifacts_ok (artifacts d)"
  shows "begin_artifact now f d = Inr (d\<lparr>artifacts := map (\<lambda>g. if f_id g = f_id f then begun now g else g) (artifacts d)\<rparr>)"
proof -
  have at: "map (\<lambda>g. if f_id g = f_id f then v g else g) (artifacts d) =
      map (\<lambda>g. if f_id g = f_id f then begun now g else g) (artifacts d)" if "v f = begun now f" for v
    by (rule map_cong) (use that artifacts_ok_same [OF assms(2) _ assms(1)] in auto)
  show ?thesis
  proof (cases "f_mode f")
    case REFERENCED
    then show ?thesis
      using transition_artifact_at [OF assms REFERENCED, of all_artifact_states]
        at [of "\<lambda>g. g\<lparr>f_state := A_DELETED, f_deleted := Some now, f_path := None\<rparr>"]
      by (auto simp: begin_artifact_def forget_reference_def begun_def)
  next
    case MANAGED
    show ?thesis
    proof (cases "f_state f = A_PENDING \<or> f_state f \<in> set deletable_states")
      case True
      then show ?thesis
        using MANAGED transition_artifact_at [OF assms MANAGED] at [of "\<lambda>g. g\<lparr>f_state := A_DELETING, f_delete_requested := Some now\<rparr>"]
        by (auto simp: begin_artifact_def abandon_artifact_def request_artifact_deletion_def begun_def)
    next
      case False
      then show ?thesis using MANAGED at [of "\<lambda>g. g"] by (auto simp: begin_artifact_def begun_def)
    qed
  qed
qed

lemma distinct_rows: "artifacts_ok t \<Longrightarrow> distinct (map f_id (filter p t))"
  using tab_keyed_filter [of f_id t p] by (simp add: artifacts_ok_def tab_keyed_def)

lemma begin_artifacts_rows:
  assumes "artifacts_ok (artifacts d)"
  shows "begin_artifacts now (owned_artifacts i d) d =
    Inr (d\<lparr>artifacts := map (\<lambda>f. if f_id f \<in> set (owned_artifact_ids i d) then begun now f else f) (artifacts d)\<rparr>)"
proof -
  let ?t = "owned_artifacts i d"
  have "begin_artifacts now ?t d = Inr (d\<lparr>artifacts := map (\<lambda>f. if f_id f \<in> f_id ` set ?t then begun now f else f) (artifacts d)\<rparr>)"
    unfolding begin_artifacts_def
    by (rule each_artifact_rows [OF assms])
      (use begin_artifact_row assms in \<open>auto simp: owned_artifacts_def distinct_rows\<close>)
  moreover have "map (\<lambda>f. if f_id f \<in> f_id ` set ?t then begun now f else f) (artifacts d) =
      map (\<lambda>f. if f_id f \<in> set (owned_artifact_ids i d) then begun now f else f) (artifacts d)"
    by (rule map_cong) (auto simp: owned_artifacts_def)
  ultimately show ?thesis by simp
qed

text \<open>What belongs to a source is read off the columns that the intent leaves alone.\<close>

lemma set_owned_artifact_ids:
  "set (owned_artifact_ids i d) =
     {a. (\<exists>c\<in>set (sources d). c_id c = i \<and> (c_original c = a \<or> c_thumbnail c = Some a)) \<or>
         (\<exists>ob\<in>set (observations d). o_source ob = i \<and> o_crop ob = Some a)}"
  by (auto simp: owned_artifact_ids_def split: option.splits)

lemma owned_artifact_ids_cong:
  assumes "map (\<lambda>c. (c_id c, c_original c, c_thumbnail c)) (sources d') = map (\<lambda>c. (c_id c, c_original c, c_thumbnail c)) (sources d)"
    and "map (\<lambda>ob. (o_source ob, o_crop ob)) (observations d') = map (\<lambda>ob. (o_source ob, o_crop ob)) (observations d)"
  shows "set (owned_artifact_ids i d') = set (owned_artifact_ids i d)"
proof -
  have s: "(\<lambda>c. (c_id c, c_original c, c_thumbnail c)) ` set (sources d') = (\<lambda>c. (c_id c, c_original c, c_thumbnail c)) ` set (sources d)"
    by (simp only: list.set_map [symmetric] assms(1))
  have o: "(\<lambda>ob. (o_source ob, o_crop ob)) ` set (observations d') = (\<lambda>ob. (o_source ob, o_crop ob)) ` set (observations d)"
    by (simp only: list.set_map [symmetric] assms(2))
  have by_images: "set (owned_artifact_ids i d) =
     {a. (\<exists>(s, og, th) \<in> (\<lambda>c. (c_id c, c_original c, c_thumbnail c)) ` set (sources d). s = i \<and> (og = a \<or> th = Some a)) \<or>
         (\<exists>(s, cr) \<in> (\<lambda>ob. (o_source ob, o_crop ob)) ` set (observations d). s = i \<and> cr = Some a)}" for d :: db
    by (simp add: set_owned_artifact_ids)
  show ?thesis unfolding by_images s o ..
qed

lemma of_source_iff: "of_source i d r \<longleftrightarrow> (i, r_obs r) \<in> (\<lambda>ob. (o_source ob, o_id ob)) ` set (observations d)"
  by (auto simp: of_source_def list_ex_iff image_iff)

lemma of_source_cong:
  assumes "map (\<lambda>ob. (o_source ob, o_id ob)) (observations d') = map (\<lambda>ob. (o_source ob, o_id ob)) (observations d)"
    and "r_obs r' = r_obs r"
  shows "of_source i d' r' = of_source i d r"
proof -
  have "(\<lambda>ob. (o_source ob, o_id ob)) ` set (observations d') = (\<lambda>ob. (o_source ob, o_id ob)) ` set (observations d)"
    by (simp only: list.set_map [symmetric] assms(1))
  then show ?thesis by (simp add: of_source_iff assms(2))
qed

definition deleting :: "uuid \<Rightarrow> time \<Rightarrow> source \<Rightarrow> source" where
  "deleting i now c = (if c_id c = i then c\<lparr>c_state := S_DELETING, c_updated := now, c_rev := c_rev c + 1\<rparr> else c)"

lemma begin_tables:
  assumes "queue_inv (index_ops d)" and "artifacts_ok (artifacts d)" and "tab_keyed c_id (sources d)"
    and run: "begin_deletion i now queued ids d = Inr (S_RECYCLED, d')"
  obtains c d3 where "tab_get c_id (sources d) i = Some c" "c_state c = S_RECYCLED"
    "queue_in (source_rep_ids i d) queued ids
       (d\<lparr>sources := map (deleting i now) (sources d),
          artifacts := map (\<lambda>f. if f_id f \<in> set (owned_artifact_ids i d) then begun now f else f) (artifacts d)\<rparr>) = Inr d3"
    "d' = hide_source i (touch_shown i now d3)"
proof -
  obtain c where c: "tab_get c_id (sources d) i = Some c" using run by (auto simp: begin_deletion_def split: option.split_asm)
  have st: "c_state c = S_RECYCLED"
    using run c by (auto simp: begin_deletion_def Let_def split: if_split_asm)
  define d1 where "d1 = source_update i (c_rev c) (\<lambda>c. c\<lparr>c_state := S_DELETING, c_updated := now\<rparr>) d"
  have "snd (optimistic_locked_update c_id c_rev bump_source i (c_rev c) (\<lambda>c. c\<lparr>c_state := S_DELETING, c_updated := now\<rparr>) (\<lambda>_. True) (sources d))
      = map (deleting i now) (sources d)"
    using tab_get_map_option_state [OF c assms(3)]
    by (auto simp: optimistic_locked_update_def opt_where_def tab_update_def deleting_def bump_source_def intro!: map_cong)
  then have d1: "d1 = d\<lparr>sources := map (deleting i now) (sources d)\<rparr>" by (simp add: d1_def source_update_def)
  have own: "set (owned_artifact_ids i d1) = set (owned_artifact_ids i d)"
    by (rule owned_artifact_ids_cong) (simp_all add: d1 deleting_def)
  have arts: "begin_artifacts now (owned_artifacts i d1) d1 =
      Inr (d1\<lparr>artifacts := map (\<lambda>f. if f_id f \<in> set (owned_artifact_ids i d) then begun now f else f) (artifacts d)\<rparr>)"
    using begin_artifacts_rows [of d1 now i] assms(2) own by (simp add: d1)
  have "source_rep_ids i (d1\<lparr>artifacts := t\<rparr>) = source_rep_ids i d" for t
    by (simp add: d1 source_rep_ids_def of_source_def [abs_def])
  with run c st arts obtain d3 where "queue_in (source_rep_ids i d) queued ids
      (d1\<lparr>artifacts := map (\<lambda>f. if f_id f \<in> set (owned_artifact_ids i d) then begun now f else f) (artifacts d)\<rparr>) = Inr d3"
    "d' = hide_source i (touch_shown i now d3)"
    by (auto simp: begin_deletion_def bindE_Inr_iff Let_def d1_def split: if_split_asm)
  with c st show thesis by (intro that) (simp_all add: d1)
qed

lemma candidate_row:
  assumes "reps_ok (reps d)" and "c \<in> set (resolve_ann_candidates s keys d)"
  shows "\<exists>r\<in>set (reps d). eligible d r \<and> r_id r = ac_rep c"
proof -
  from assms obtain k where k: "case rep_at s k (reps d) of None \<Rightarrow> False | Some r \<Rightarrow> eligible d r"
      "ac_rep c = r_id (the (rep_at s k (reps d)))"
    by (auto simp: only_live_candidates Let_def)
  then obtain r where r: "rep_at s k (reps d) = Some r" "eligible d r" by (auto split: option.split_asm)
  then have "r \<in> set (reps d)" by (auto simp: rep_at_def find_Some_iff)
  with k(2) r show ?thesis by auto
qed


section \<open>What finalization leaves\<close>

lemma fold_update_chunks:
  assumes "\<And>x. key (f x) = key x" and "\<And>x. P x \<Longrightarrow> P (f x) \<Longrightarrow> f (f x) = f x"
  shows "fold (\<lambda>c. tab_update (\<lambda>x. key x \<in> set c \<and> P x) f) cs t = tab_update (\<lambda>x. key x \<in> set (concat cs) \<and> P x) f t"
proof (induction cs arbitrary: t)
  case Nil
  then show ?case by (simp add: tab_update_none)
next
  case (Cons c cs)
  show ?case unfolding fold_simps o_apply Cons.IH
    using assms by (auto simp: tab_update_def intro!: map_cong)
qed

lemma fold_filter_chunks: "fold (\<lambda>c. filter (\<lambda>n. key n \<notin> set c)) cs t = filter (\<lambda>n. key n \<notin> set (concat cs)) t"
proof (induction cs arbitrary: t)
  case (Cons c cs)
  show ?case unfolding fold_simps o_apply Cons.IH by (auto intro: filter_cong)
qed simp

definition stripped :: "artifact \<Rightarrow> artifact" where
  "stripped f = f\<lparr>f_filename := None, f_mime := None, f_sha := None, f_size := None\<rparr>"

lemma strip_artifacts_eq:
  "strip_artifacts owned d = d\<lparr>artifacts := tab_update (\<lambda>f. f_id f \<in> set owned) stripped (artifacts d)\<rparr>"
  using fold_update_chunks [of f_id stripped "\<lambda>_. True" "chunks erasure_chunk owned" "artifacts d"]
  by (simp add: strip_artifacts_def stripped_def [abs_def] concat_chunks erasure_chunk_def)

lemma show_survivors_eq:
  "show_survivors affected now d = d\<lparr>identities := tab_update
     (\<lambda>x. i_id x \<in> set affected \<and> i_state x = I_ACTIVE \<and> i_face x = None \<and> survivor d (i_id x) \<noteq> None)
     (\<lambda>x. x\<lparr>i_face := survivor d (i_id x), i_rev := i_rev x + 1, i_updated := now\<rparr>) (identities d)\<rparr>"
  unfolding show_survivors_def
  by (subst fold_update_chunks) (auto simp: concat_chunks erasure_chunk_def)

lemma drop_abandoned_eq:
  "drop_abandoned affected now d = d\<lparr>identities := tab_update
     (\<lambda>x. i_id x \<in> set affected \<and> i_state x = I_ACTIVE \<and> abandoned d (i_id x))
     (\<lambda>x. x\<lparr>i_state := I_DELETED, i_rev := i_rev x + 1, i_updated := now\<rparr>) (identities d)\<rparr>"
  unfolding drop_abandoned_def
  by (subst fold_update_chunks) (auto simp: concat_chunks erasure_chunk_def)

lemma settled_identities: "\<exists>t. drop_abandoned a now (show_survivors a now d) = d\<lparr>identities := t\<rparr>"
  by (rule exI [of _ "identities (drop_abandoned a now (show_survivors a now d))"]) (simp add: drop_abandoned_eq show_survivors_eq)

lemma delete_runs_jobs:
  "filter (\<lambda>j. \<not> p (j_run j)) (tab_update (\<lambda>j. p (j_run j)) (\<lambda>j. j\<lparr>j_previous := None\<rparr>) t) = filter (\<lambda>j. \<not> p (j_run j)) t"
  by (induction t) auto

lemma delete_runs_runs:
  "filter (\<lambda>p. p_source p \<noteq> i) (tab_update (\<lambda>p. p_source p = i) (\<lambda>p. p\<lparr>p_parent := None\<rparr>) t) = filter (\<lambda>p. p_source p \<noteq> i) t"
  by (induction t) auto

definition source_runs :: "uuid \<Rightarrow> db \<Rightarrow> uuid list" where
  "source_runs i d = map p_id (filter (\<lambda>p. p_source p = i) (runs d))"

definition source_snapshots :: "uuid \<Rightarrow> db \<Rightarrow> uuid list" where
  "source_snapshots i d = map p_snapshot (filter (\<lambda>p. p_source p = i) (runs d))"

lemma app_state_set_table: "\<exists>t. app_state_set k v now d = d\<lparr>app_states := t\<rparr>"
  by (auto simp: app_state_set_def)

lemma not_of_source: "r_obs r \<notin> set (map o_id (filter (\<lambda>ob. o_source ob = i) (observations d))) \<longleftrightarrow> \<not> of_source i d r"
  by (auto simp: of_source_def list_ex_iff image_iff)

lemma delete_rows_tables:
  fixes i :: uuid and d :: db and marker :: string and now :: time
  defines "d' \<equiv> delete_rows i marker now d" and "gone \<equiv> set (source_rep_ids i d)"
  shows "observations d' = filter (\<lambda>ob. o_source ob \<noteq> i) (observations d)"
    and "reps d' = filter (\<lambda>r. \<not> of_source i d r) (reps d)"
    and "index_ops d' = filter (\<lambda>x. x_rep x \<notin> gone) (index_ops d)"
    and "ev_reps d' = filter (\<lambda>l. er_rep l \<notin> gone) (ev_reps d)"
    and "ev_candidates d' = tab_update (\<lambda>c. ec_rep c \<in> Some ` gone) (\<lambda>c. c\<lparr>ec_rep := None\<rparr>) (ev_candidates d)"
    and "runs d' = filter (\<lambda>p. p_source p \<noteq> i) (runs d)"
    and "jobs d' = filter (\<lambda>j. j_run j \<notin> Some ` set (source_runs i d)) (jobs d)"
    and "segments d' = filter (\<lambda>g. g_run g \<notin> set (source_runs i d)) (segments d)"
    and "checkpoints d' = filter (\<lambda>k. k_run k \<notin> set (source_runs i d)) (checkpoints d)"
    and "snapshots d' = filter (\<lambda>n. n_id n \<notin> set (source_snapshots i d)) (snapshots d)"
    and "sources d' = tab_update (\<lambda>c. c_id c = i) (\<lambda>c. c\<lparr>c_run := None\<rparr>) (sources d)"
    and "evidences d' = tab_update (\<lambda>e. e_run e \<in> Some ` set (source_runs i d)) (\<lambda>e. e\<lparr>e_run := None\<rparr>) (evidences d)"
    and "artifacts d' = tab_update (\<lambda>f. f_id f \<in> set (owned_artifact_ids i d)) stripped (artifacts d)"
    and "people d' = people d" "associations d' = associations d" "lineages d' = lineages d"
      "ann_sequences d' = ann_sequences d" "spaces d' = spaces d"
    and "app_states d' = app_states (app_state_set wal_truncation_owed marker now d)"
    and "\<exists>G. occurrences d' = map (\<lambda>oc. oc\<lparr>oc_face := clear_face G (oc_face oc)\<rparr>) (filter (\<lambda>oc. oc_source oc \<noteq> i) (occurrences d))"
    and "\<exists>gone. occ_obs d' = filter (\<lambda>m. oo_occurrence m \<notin> gone) (occ_obs d) \<and>
      gone = oc_id ` {oc \<in> set (occurrences d). oc_source oc = i}"
proof -
  obtain t where t: "app_state_set wal_truncation_owed marker now d = d\<lparr>app_states := t\<rparr>" using app_state_set_table by blast
  obtain ids where T: "d' = (strip_artifacts (owned_artifact_ids i d) (delete_runs i (delete_observations i (delete_occurrences i
        (unlink_evidence (source_rep_ids i d) (d\<lparr>app_states := t\<rparr>))))))\<lparr>identities := ids\<rparr>"
    using settled_identities unfolding d'_def delete_rows_def Let_def t by blast
  note defs = T gone_def Let_def strip_artifacts_eq delete_runs_def delete_observations_def delete_occurrences_def unlink_evidence_def t
  show "observations d' = filter (\<lambda>ob. o_source ob \<noteq> i) (observations d)" by (simp add: defs)
  show "reps d' = filter (\<lambda>r. \<not> of_source i d r) (reps d)"
    by (simp add: defs) (rule filter_cong, simp, use not_of_source [of _ i d] in simp)
  show "index_ops d' = filter (\<lambda>x. x_rep x \<notin> gone) (index_ops d)"
    "ev_reps d' = filter (\<lambda>l. er_rep l \<notin> gone) (ev_reps d)"
    "ev_candidates d' = tab_update (\<lambda>c. ec_rep c \<in> Some ` gone) (\<lambda>c. c\<lparr>ec_rep := None\<rparr>) (ev_candidates d)"
    by (simp_all add: defs source_rep_ids_def of_source_def [abs_def])
  show "runs d' = filter (\<lambda>p. p_source p \<noteq> i) (runs d)" by (simp add: defs delete_runs_runs)
  show "jobs d' = filter (\<lambda>j. j_run j \<notin> Some ` set (source_runs i d)) (jobs d)"
    using delete_runs_jobs [of "\<lambda>x. x \<in> Some ` set (source_runs i d)"] by (simp add: defs source_runs_def)
  show "segments d' = filter (\<lambda>g. g_run g \<notin> set (source_runs i d)) (segments d)"
    "checkpoints d' = filter (\<lambda>k. k_run k \<notin> set (source_runs i d)) (checkpoints d)"
    "evidences d' = tab_update (\<lambda>e. e_run e \<in> Some ` set (source_runs i d)) (\<lambda>e. e\<lparr>e_run := None\<rparr>) (evidences d)"
    by (simp_all add: defs source_runs_def)
  show "snapshots d' = filter (\<lambda>n. n_id n \<notin> set (source_snapshots i d)) (snapshots d)"
    by (simp add: defs fold_filter_chunks concat_chunks erasure_chunk_def source_snapshots_def)
  show "sources d' = tab_update (\<lambda>c. c_id c = i) (\<lambda>c. c\<lparr>c_run := None\<rparr>) (sources d)" by (simp add: defs)
  show "artifacts d' = tab_update (\<lambda>f. f_id f \<in> set (owned_artifact_ids i d)) stripped (artifacts d)" by (simp add: defs)
  show "people d' = people d" "associations d' = associations d" "lineages d' = lineages d"
      "ann_sequences d' = ann_sequences d" "spaces d' = spaces d"
      "app_states d' = app_states (app_state_set wal_truncation_owed marker now d)"
    by (simp_all add: defs)
  show "\<exists>G. occurrences d' = map (\<lambda>oc. oc\<lparr>oc_face := clear_face G (oc_face oc)\<rparr>) (filter (\<lambda>oc. oc_source oc \<noteq> i) (occurrences d))"
    by (rule exI [of _ "map o_id (filter (\<lambda>ob. o_source ob = i) (observations d))"]) (simp add: defs)
  show "\<exists>gone. occ_obs d' = filter (\<lambda>m. oo_occurrence m \<notin> gone) (occ_obs d) \<and>
      gone = oc_id ` {oc \<in> set (occurrences d). oc_source oc = i}"
    by (rule exI [of _ "oc_id ` {oc \<in> set (occurrences d). oc_source oc = i}"]) (simp add: defs)
qed

text \<open>An identity is dropped when it lost something and nothing of another source, and no person, keeps it.\<close>

definition dropped :: "uuid \<Rightarrow> db \<Rightarrow> uuid \<Rightarrow> bool" where
  "dropped i d x \<longleftrightarrow> x \<in> set (affected_identities i d) \<and> abandoned (delete_occurrences i d) x"

definition after_deletion :: "uuid \<Rightarrow> db \<Rightarrow> (identity \<Rightarrow> identity) \<Rightarrow> bool" where
  "after_deletion i d g \<longleftrightarrow> (\<forall>x. i_id (g x) = i_id x \<and> i_merged_into (g x) = i_merged_into x \<and> i_rev x \<le> i_rev (g x) \<and>
     i_state (g x) = (if i_state x = I_ACTIVE \<and> dropped i d (i_id x) then I_DELETED else i_state x))"

lemma abandoned_cong:
  assumes "map (\<lambda>oc. (oc_identity oc, oc_state oc)) (occurrences d') = map (\<lambda>oc. (oc_identity oc, oc_state oc)) (occurrences d)"
    and "associations d' = associations d"
  shows "abandoned d' x = abandoned d x"
proof -
  have s: "(\<lambda>oc. (oc_identity oc, oc_state oc)) ` set (occurrences d') = (\<lambda>oc. (oc_identity oc, oc_state oc)) ` set (occurrences d)"
    by (simp only: list.set_map [symmetric] assms(1))
  have by_image: "abandoned d x \<longleftrightarrow> (x, OC_ACTIVE) \<notin> (\<lambda>oc. (oc_identity oc, oc_state oc)) ` set (occurrences d) \<and>
      (x, OC_PENDING) \<notin> (\<lambda>oc. (oc_identity oc, oc_state oc)) ` set (occurrences d) \<and>
      \<not> list_ex (\<lambda>a. a_identity a = x \<and> a_state a = AS_ACTIVE) (associations d)" for d
    by (auto simp: abandoned_def list_ex_iff image_iff)
  show ?thesis unfolding by_image s assms(2) ..
qed

lemma delete_rows_identities:
  obtains g where "identities (delete_rows i marker now d) = map g (identities d)" "after_deletion i d g"
proof -
  obtain t where t: "app_state_set wal_truncation_owed marker now d = d\<lparr>app_states := t\<rparr>" using app_state_set_table by blast
  define d1 where "d1 = strip_artifacts (owned_artifact_ids i d) (delete_runs i (delete_observations i (delete_occurrences i
        (unlink_evidence (source_rep_ids i d) (d\<lparr>app_states := t\<rparr>)))))"
  define f where "f x = (let y = x\<lparr>i_face := clear_face (map o_id (filter (\<lambda>ob. o_source ob = i) (observations d))) (i_face x)\<rparr>
      in if i_run x \<in> Some ` set (source_runs i d) then y\<lparr>i_run := None\<rparr> else y)" for x :: identity
  have f: "identities d1 = map f (identities d)"
    by (simp add: d1_def strip_artifacts_eq delete_runs_def Let_def delete_observations_def delete_occurrences_def unlink_evidence_def
        f_def tab_update_def source_runs_def)
  have "occurrences d1 = map (\<lambda>oc. oc\<lparr>oc_face := clear_face (map o_id (filter (\<lambda>ob. o_source ob = i) (observations d))) (oc_face oc)\<rparr>)
      (filter (\<lambda>oc. oc_source oc \<noteq> i) (occurrences d))" "associations d1 = associations d"
    by (simp_all add: d1_def strip_artifacts_eq delete_runs_def Let_def delete_observations_def delete_occurrences_def unlink_evidence_def)
  then have ab: "abandoned (d1\<lparr>identities := u\<rparr>) x = abandoned (delete_occurrences i d) x" for u x
    by (intro abandoned_cong) (simp_all add: delete_occurrences_def Let_def)
  define s where "s x = (if i_id x \<in> set (affected_identities i d) \<and> i_state x = I_ACTIVE \<and> i_face x = None \<and> survivor d1 (i_id x) \<noteq> None
      then x\<lparr>i_face := survivor d1 (i_id x), i_rev := i_rev x + 1, i_updated := now\<rparr> else x)" for x :: identity
  define g where "g x = (if i_id x \<in> set (affected_identities i d) \<and> i_state x = I_ACTIVE \<and> abandoned (delete_occurrences i d) (i_id x)
      then x\<lparr>i_state := I_DELETED, i_rev := i_rev x + 1, i_updated := now\<rparr> else x)" for x :: identity
  have "delete_rows i marker now d = drop_abandoned (affected_identities i d) now (show_survivors (affected_identities i d) now d1)"
    by (simp add: delete_rows_def Let_def t d1_def)
  also have "identities \<dots> = map (\<lambda>x. g (s (f x))) (identities d)"
    by (simp add: drop_abandoned_eq show_survivors_eq ab f tab_update_def comp_def g_def s_def)
  finally show thesis
    by (rule that) (simp add: after_deletion_def dropped_def g_def s_def f_def Let_def)
qed

lemma delete_rows_active:
  assumes "identities d' = map g (identities d)" and "after_deletion i d g"
  shows "active_id (identities d') x \<longleftrightarrow> active_id (identities d) x \<and> \<not> dropped i d x"
  using assms by (cases "tab_get i_id (identities d) x") (auto simp: active_id_def tab_get_map after_deletion_def dest: tab_get_SomeD)

lemma delete_rows_memory_ok:
  assumes ok: "memory_ok d"
    and shown: "\<forall>r\<in>set (reps d). r_state r = R_ACTIVE \<and> \<not> of_source i d r \<longrightarrow> (\<forall>x. r_identity r = Some x \<longrightarrow> \<not> dropped i d x)"
  shows "memory_ok (delete_rows i marker now d)"
proof -
  let ?d = "delete_rows i marker now d"
  note T = delete_rows_tables [of i marker now d]
  obtain g where g: "identities ?d = map g (identities d)" "after_deletion i d g" by (rule delete_rows_identities)
  obtain G where occ: "occurrences ?d = map (\<lambda>oc. oc\<lparr>oc_face := clear_face G (oc_face oc)\<rparr>) (filter (\<lambda>oc. oc_source oc \<noteq> i) (occurrences d))"
    using T(20) by blast
  note act = delete_rows_active [OF g]
  have "identities_ok (identities ?d)"
  proof -
    have gx: "i_id (g x) = i_id x" "i_merged_into (g x) = i_merged_into x" for x using g(2) unfolding after_deletion_def by blast+
    have edges: "merge_edges (map g t) = merge_edges t" for t by (induction t) (simp_all add: gx split: option.split)
    have keys: "map i_id (map g t) = map i_id t" for t by (simp add: gx)
    have "identity_row_ok (g x) \<and> (i_merged_into (g x) \<noteq> None \<longrightarrow> i_state (g x) = I_MERGED)"
      if "identity_row_ok x \<and> (i_merged_into x \<noteq> None \<longrightarrow> i_state x = I_MERGED)" for x
      using that g(2) by (auto simp: identity_row_ok_def after_deletion_def intro: order_trans)
    then show ?thesis using ok unfolding g(1) memory_ok_def identities_ok_def by (simp add: edges tab_keyed_def keys del: map_map)
  qed
  moreover have "reps_ok (reps ?d)"
    using ok by (auto simp: T(2) memory_ok_def reps_ok_def tab_keyed_filter unique_where_filter distinct_map_filter)
  moreover have "keys_below (reps ?d) (ann_sequences ?d)" using ok by (auto simp: T(2,17) memory_ok_def keys_below_def)
  moreover have "queue_inv (index_ops ?d)" using ok by (simp add: T(3) memory_ok_def queue_inv_filter)
  moreover have "associations_ok (associations ?d)" using ok by (simp add: T(15) memory_ok_def)
  moreover have "tab_keyed oc_id (occurrences ?d)"
    using ok tab_keyed_filter [of oc_id "occurrences d" "\<lambda>oc. oc_source oc \<noteq> i"] by (simp add: occ memory_ok_def tab_keyed_def comp_def)
  moreover have "owned_ok (identities ?d) (reps ?d) (occurrences ?d) (associations ?d)"
    unfolding owned_ok_def act
  proof (intro conjI ballI allI impI)
    have owned: "owned_ok (identities d) (reps d) (occurrences d) (associations d)" using ok by (simp add: memory_ok_def)
    fix r x assume "r \<in> set (reps ?d)" and "r_state r = R_ACTIVE \<and> r_identity r = Some x"
    then show "active_id (identities d) x" "\<not> dropped i d x" using owned shown by (auto simp: T(2) owned_ok_def)
  next
    fix oc assume oc: "oc \<in> set (occurrences ?d)" "oc_state oc = OC_ACTIVE"
    then obtain oc0 where 0: "oc0 \<in> set (occurrences d)" "oc_source oc0 \<noteq> i" "oc_state oc0 = OC_ACTIVE" "oc_identity oc0 = oc_identity oc"
      by (auto simp: occ)
    with ok show "active_id (identities d) (oc_identity oc)" by (auto simp: memory_ok_def owned_ok_def)
    show "\<not> dropped i d (oc_identity oc)"
      using 0 by (auto simp: dropped_def abandoned_def delete_occurrences_def Let_def list_ex_iff)
  next
    fix a assume a: "a \<in> set (associations ?d)" "a_state a = AS_ACTIVE"
    then have "a \<in> set (associations d)" by (simp add: T(15))
    with a ok show "active_id (identities d) (a_identity a)" by (auto simp: memory_ok_def owned_ok_def)
    show "\<not> dropped i d (a_identity a)"
      using a by (auto simp: T(15) dropped_def abandoned_def delete_occurrences_def Let_def list_ex_iff)
  qed
  ultimately show ?thesis unfolding memory_ok_def by blast
qed

text \<open>
  Finalization leaves a tombstone. When it answers that it finished a source: the source's row is
  DELETED without name, thumbnail, media facts or current run, one revision on; its observations,
  occurrences, representations with their index operations and evidence links, runs, segments,
  checkpoints, snapshots and jobs are gone, and of the artifacts it owned only the bare rows remain.
  Nothing else is deleted: the rows of other sources, every piece of evidence (with one more, that says
  so), every person and person link, and every identity, of which exactly those that lost something
  here and are kept by no face and no person become DELETED. The log is owed a truncation. If no face
  elsewhere speaks for an identity that goes, the memory invariant holds.
\<close>

theorem finalizing_leaves_a_tombstone:
  assumes "tab_keyed c_id (sources d)" and "finalize_deletion i marker e now d = Inr (True, d')"
  shows "(\<exists>c. tab_get c_id (sources d) i = Some c \<and> c_state c = S_DELETING \<and>
       tab_get c_id (sources d') i = Some ((tombstone now c)\<lparr>c_run := None, c_rev := c_rev c + 1\<rparr>)) \<and>
    (\<forall>j. j \<noteq> i \<longrightarrow> tab_get c_id (sources d') j = tab_get c_id (sources d) j) \<and>
    (\<forall>r\<in>set (reps d). of_source i d r \<longrightarrow> r_state r = R_ERASED) \<and>
    observations d' = filter (\<lambda>ob. o_source ob \<noteq> i) (observations d) \<and>
    reps d' = filter (\<lambda>r. \<not> of_source i d r) (reps d) \<and>
    map oc_id (occurrences d') = map oc_id (filter (\<lambda>oc. oc_source oc \<noteq> i) (occurrences d)) \<and>
    index_ops d' = filter (\<lambda>x. x_rep x \<notin> set (source_rep_ids i d)) (index_ops d) \<and>
    ev_reps d' = filter (\<lambda>l. er_rep l \<notin> set (source_rep_ids i d)) (ev_reps d) \<and>
    (\<forall>c\<in>set (ev_candidates d'). ec_rep c \<notin> Some ` set (source_rep_ids i d)) \<and>
    runs d' = filter (\<lambda>p. p_source p \<noteq> i) (runs d) \<and>
    jobs d' = filter (\<lambda>j. j_run j \<notin> Some ` set (source_runs i d)) (jobs d) \<and>
    segments d' = filter (\<lambda>g. g_run g \<notin> set (source_runs i d)) (segments d) \<and>
    checkpoints d' = filter (\<lambda>k. k_run k \<notin> set (source_runs i d)) (checkpoints d) \<and>
    snapshots d' = filter (\<lambda>n. n_id n \<notin> set (source_snapshots i d)) (snapshots d) \<and>
    (\<forall>f\<in>set (artifacts d'). f_id f \<in> set (owned_artifact_ids i d) \<longrightarrow> f_filename f = None \<and> f_mime f = None \<and> f_sha f = None \<and> f_size f = None) \<and>
    map e_id (evidences d') = map e_id (evidences d) @ [e] \<and>
    people d' = people d \<and> associations d' = associations d \<and>
    map (\<lambda>x. (i_id x, i_state x)) (identities d') =
      map (\<lambda>x. (i_id x, if i_state x = I_ACTIVE \<and> dropped i d (i_id x) then I_DELETED else i_state x)) (identities d) \<and>
    app_state_get wal_truncation_owed d' = Some marker \<and>
    (memory_ok d \<and> (\<forall>r\<in>set (reps d). r_state r = R_ACTIVE \<and> \<not> of_source i d r \<longrightarrow> (\<forall>x. r_identity r = Some x \<longrightarrow> \<not> dropped i d x)) \<longrightarrow>
       memory_ok d')"
proof -
  let ?d = "delete_rows i marker now d"
  obtain c d2 where c: "tab_get c_id (sources d) i = Some c" "c_state c = S_DELETING"
    and clean: "\<not> list_ex (\<lambda>r. of_source i d r \<and> r_state r \<in> set holds_vector) (reps d)"
    and ev: "evidence_append (deletion_evidence e i (affected_identities i d) now) [] [] ?d = Inr d2"
    and d': "d' = source_update i (c_rev c) (tombstone now) d2"
    using assms(2) by (auto simp: finalize_deletion_def bindE_Inr_iff split: option.split_asm if_split_asm)
  obtain es ers ecs where d2: "d2 = ?d\<lparr>evidences := es, ev_reps := ers, ev_candidates := ecs\<rparr>"
    and es: "es = evidences ?d @ [deletion_evidence e i (affected_identities i d) now]" and ers: "ers = ev_reps ?d" and ecs: "ecs = ev_candidates ?d"
    using evidence_append_Inr [OF ev] by (auto simp: link_rows_def candidate_rows_def)
  note T = delete_rows_tables [of i marker now d]
  obtain G where occ: "occurrences ?d = map (\<lambda>oc. oc\<lparr>oc_face := clear_face G (oc_face oc)\<rparr>) (filter (\<lambda>oc. oc_source oc \<noteq> i) (occurrences d))"
    using T(20) by blast
  obtain g where g: "identities ?d = map g (identities d)" "after_deletion i d g" by (rule delete_rows_identities)
  define u where "u x = (if c_id x = i \<and> c_rev x = c_rev c then bump_source (tombstone now x) else x)" for x
  have src: "sources d' = map u (tab_update (\<lambda>c. c_id c = i) (\<lambda>c. c\<lparr>c_run := None\<rparr>) (sources d))"
    by (simp add: d' source_update_def optimistic_locked_update_def opt_where_def d2 T(11) u_def tab_update_def)
  have uid: "c_id (u x) = c_id x" for x by (simp add: u_def bump_source_def tombstone_def)
  have at: "tab_get c_id (sources d') j = map_option (\<lambda>x. u (if c_id x = i then x\<lparr>c_run := None\<rparr> else x)) (tab_get c_id (sources d) j)" for j
    by (simp add: src tab_get_map uid tab_get_update option.map_comp comp_def)
  have K1: "tab_get c_id (sources d') i = Some ((tombstone now c)\<lparr>c_run := None, c_rev := c_rev c + 1\<rparr>)"
    using c(1) by (auto simp: at u_def bump_source_def tombstone_def dest: tab_get_SomeD)
  have K2: "\<forall>j. j \<noteq> i \<longrightarrow> tab_get c_id (sources d') j = tab_get c_id (sources d) j"
  proof (intro allI impI)
    fix j assume "j \<noteq> i"
    then show "tab_get c_id (sources d') j = tab_get c_id (sources d) j"
      by (cases "tab_get c_id (sources d) j") (auto simp: at u_def dest: tab_get_SomeD)
  qed
  have K3: "\<forall>r\<in>set (reps d). of_source i d r \<longrightarrow> r_state r = R_ERASED"
  proof (intro ballI impI)
    fix r assume "r \<in> set (reps d)" "of_source i d r"
    with clean show "r_state r = R_ERASED" by (cases "r_state r") (auto simp: list_ex_iff holds_vector_def)
  qed
  note fr = d' source_update_def d2
  have K4: "observations d' = filter (\<lambda>ob. o_source ob \<noteq> i) (observations d)" "reps d' = filter (\<lambda>r. \<not> of_source i d r) (reps d)"
      "map oc_id (occurrences d') = map oc_id (filter (\<lambda>oc. oc_source oc \<noteq> i) (occurrences d))"
      "index_ops d' = filter (\<lambda>x. x_rep x \<notin> set (source_rep_ids i d)) (index_ops d)"
      "ev_reps d' = filter (\<lambda>l. er_rep l \<notin> set (source_rep_ids i d)) (ev_reps d)"
    by (simp_all add: fr T(1-4) occ ers comp_def)
  have K5: "\<forall>c\<in>set (ev_candidates d'). ec_rep c \<notin> Some ` set (source_rep_ids i d)"
    by (auto simp: fr ecs T(5) set_tab_update)
  have K6: "runs d' = filter (\<lambda>p. p_source p \<noteq> i) (runs d)" "jobs d' = filter (\<lambda>j. j_run j \<notin> Some ` set (source_runs i d)) (jobs d)"
      "segments d' = filter (\<lambda>g. g_run g \<notin> set (source_runs i d)) (segments d)"
      "checkpoints d' = filter (\<lambda>k. k_run k \<notin> set (source_runs i d)) (checkpoints d)"
      "snapshots d' = filter (\<lambda>n. n_id n \<notin> set (source_snapshots i d)) (snapshots d)"
    by (simp_all add: fr T(6-10))
  have K7: "\<forall>f\<in>set (artifacts d'). f_id f \<in> set (owned_artifact_ids i d) \<longrightarrow> f_filename f = None \<and> f_mime f = None \<and> f_sha f = None \<and> f_size f = None"
    by (auto simp: fr T(13) set_tab_update stripped_def)
  have K8: "map e_id (evidences d') = map e_id (evidences d) @ [e]"
    by (simp add: fr es T(12) map_key_tab_update deletion_evidence_def new_evidence_def)
  have K9: "people d' = people d" "associations d' = associations d" by (simp_all add: fr T(14,15))
  have K10: "map (\<lambda>x. (i_id x, i_state x)) (identities d') =
      map (\<lambda>x. (i_id x, if i_state x = I_ACTIVE \<and> dropped i d (i_id x) then I_DELETED else i_state x)) (identities d)"
    using g(2) by (simp add: fr g(1) after_deletion_def)
  have "app_state_get wal_truncation_owed d' = app_state_get wal_truncation_owed (app_state_set wal_truncation_owed marker now d)"
    unfolding app_state_get_def fr by (simp add: T(19))
  then have K11: "app_state_get wal_truncation_owed d' = Some marker" by simp
  have K12: "memory_ok d'" if "memory_ok ?d"
    using that by (simp add: fr memory_ok_def)
  show ?thesis
    by (intro conjI K2 K3 K4 K5 K6 K7 K8 K9 K10 K11 exI [of _ c] c K1) (use delete_rows_memory_ok K12 in blast)
qed

section \<open>The bytes go before the rows\<close>

lemma complete_deletion_effect:
  assumes "complete_artifact_deletion se a now d fs (\<lambda>d. d) = (r, d1, fs1)"
  shows "final_entry fs k = None \<Longrightarrow> final_entry fs1 k = None" and "mf_staging fs1 = mf_staging fs"
    and "\<exists>t. d1 = d\<lparr>artifacts := t\<rparr>"
    and "j \<noteq> a \<Longrightarrow> tab_get f_id (artifacts d1) j = tab_get f_id (artifacts d) j"
    and "r = Inr () \<Longrightarrow> tab_get f_id (artifacts d) a = Some f \<Longrightarrow> f_state f \<noteq> A_DELETED \<Longrightarrow> f_key f = Some k \<Longrightarrow> final_entry fs1 k = None"
proof -
  have step: "(\<exists>t. d2 = d\<lparr>artifacts := t\<rparr>) \<and> (j \<noteq> a \<longrightarrow> tab_get f_id (artifacts d2) j = tab_get f_id (artifacts d) j)"
    if "settle_deletion a e now d = Inr (b, d2)" for e b d2 j
  proof (cases "d2 = d")
    case True
    then show ?thesis by (auto intro: exI [of _ "artifacts d"])
  next
    case False
    with that obtain sts v where t: "transition_artifact a sts MANAGED (\<lambda>_. True) v d = Inr d2" and v: "\<And>f. f_id (v f) = f_id f"
      by (auto simp: settle_deletion_def finalize_artifact_deletion_def record_delete_failure_def bindE_Inr_iff
          split: option.split_asm if_split_asm)
    have "tab_get f_id (map (\<lambda>f. if f_id f = a \<and> f_mode f = MANAGED \<and> f_state f \<in> set sts \<and> True then v f else f) t) j = tab_get f_id t j" if "j \<noteq> a" for t
      using that v by (induction t) (auto simp: tab_get_Cons)
    with transition_artifact_Inr(1) [OF t] show ?thesis by auto
  qed
  note defs = complete_artifact_deletion_def Let_def
  note splits = sum.split_asm option.split_asm storage_error.split_asm prod.split_asm bool.split_asm
  have files: "fs1 = fs \<or> (\<exists>key. deletion_intent a d = Inr (Some key) \<and> fs1 = remove_final key fs)"
    using assms by (auto simp: defs dest: delete_bytes_Inr split: splits)
  then show "final_entry fs k = None \<Longrightarrow> final_entry fs1 k = None" "mf_staging fs1 = mf_staging fs"
    by (auto simp: remove_final_def [of _ fs] final_entry_simps(2) [unfolded remove_final_def])
  have rows: "d1 = d \<or> (\<exists>e b. settle_deletion a e now d = Inr (b, d1))"
    using assms by (auto simp: defs split: splits)
  then show "\<exists>t. d1 = d\<lparr>artifacts := t\<rparr>"
    using step by (metis (no_types) db.surjective db.update_convs(7))
  show "tab_get f_id (artifacts d1) j = tab_get f_id (artifacts d) j" if "j \<noteq> a" using rows step that by blast
  show "final_entry fs1 k = None"
    if "r = Inr ()" "tab_get f_id (artifacts d) a = Some f" "f_state f \<noteq> A_DELETED" "f_key f = Some k"
  proof -
    have intent: "deletion_intent a d = Inr (Some k)"
      using assms that by (auto simp: defs deletion_intent_def split: if_split_asm)
    show ?thesis
      using assms that(1,2,3) unfolding defs intent
      by (auto simp: settle_deletion_def bindE_Inr_iff dest: delete_bytes_Inr split: sum.split_asm storage_error.split_asm if_split_asm
          prod.split_asm bool.split_asm)
  qed
qed

lemma delete_each_effect:
  assumes "delete_each se now as d fs = (r, d', fs')"
  shows "(\<forall>k. final_entry fs k = None \<longrightarrow> final_entry fs' k = None) \<and> (\<exists>t. d' = d\<lparr>artifacts := t\<rparr>) \<and>
    (r = Inr [] \<longrightarrow> (\<forall>a\<in>set as. \<forall>f k. tab_get f_id (artifacts d) a = Some f \<and> f_state f \<noteq> A_DELETED \<and> f_key f = Some k \<longrightarrow>
       final_entry fs' k = None))"
  using assms
proof (induction as arbitrary: d fs r d' fs')
  case Nil
  then show ?case by (auto intro: exI [of _ "artifacts d"])
next
  case (Cons a as)
  obtain r1 d1 fs1 where run: "complete_artifact_deletion se a now d fs (\<lambda>d. d) = (r1, d1, fs1)" by (rule prod_cases3)
  note eff = complete_deletion_effect [OF run]
  obtain r2 d2 fs2 where rest: "delete_each se now as d1 fs1 = (r2, d2, fs2)" by (rule prod_cases3)
  from Cons.IH [OF rest] have IH: "\<forall>k. final_entry fs1 k = None \<longrightarrow> final_entry fs2 k = None" "\<exists>t. d2 = d1\<lparr>artifacts := t\<rparr>"
    "r2 = Inr [] \<longrightarrow> (\<forall>a\<in>set as. \<forall>f k. tab_get f_id (artifacts d1) a = Some f \<and> f_state f \<noteq> A_DELETED \<and> f_key f = Some k \<longrightarrow>
       final_entry fs2 k = None)" by blast+
  obtain t where t: "d1 = d\<lparr>artifacts := t\<rparr>" using eff(3) by blast
  have carried: "(d' = d2 \<and> fs' = fs2 \<and> (r = Inr [] \<longrightarrow> r1 = Inr () \<and> r2 = Inr [])) \<or> (d' = d1 \<and> fs' = fs1 \<and> r \<noteq> Inr [])"
    using Cons.prems by (auto simp: run rest split: sum.split_asm if_split_asm)
  then show ?case
  proof (elim disjE conjE)
    assume eq: "d' = d2" "fs' = fs2" and good: "r = Inr [] \<longrightarrow> r1 = Inr () \<and> r2 = Inr []"
    have "final_entry fs' k = None"
      if "r = Inr []" "b \<in> set (a # as)" "tab_get f_id (artifacts d) b = Some f" "f_state f \<noteq> A_DELETED" "f_key f = Some k" for b f k
    proof (cases "b = a")
      case True
      have "r1 = Inr ()" using good that(1) by blast
      moreover have "tab_get f_id (artifacts d) a = Some f" using that(3) unfolding True .
      ultimately have "final_entry fs1 k = None" using that(4,5) by (rule eff(5))
      with IH(1) show ?thesis unfolding eq by blast
    next
      case False
      then have "tab_get f_id (artifacts d1) b = Some f" "b \<in> set as" using eff(4) [OF False] that(2,3) by simp_all
      moreover have "r2 = Inr []" using good that(1) by blast
      ultimately show ?thesis using IH(3) that(4,5) unfolding eq by blast
    qed
    moreover have "\<exists>t. d' = d\<lparr>artifacts := t\<rparr>" using IH(2) by (auto simp: eq t)
    moreover have "\<forall>k. final_entry fs k = None \<longrightarrow> final_entry fs' k = None" using IH(1) eff(1) by (simp add: eq)
    ultimately show ?thesis by blast
  next
    assume eq: "d' = d1" "fs' = fs1" and bad: "r \<noteq> Inr []"
    have "\<forall>k. final_entry fs k = None \<longrightarrow> final_entry fs' k = None" using eff(1) by (simp add: eq)
    with bad eff(3) show ?thesis by (simp add: eq)
  qed
qed

lemma unlink_each_effect:
  assumes "unlink_each se ks fs = (owed, fs')"
  shows "(\<forall>k. final_entry fs' k = final_entry fs k) \<and> set (mf_staging fs') \<subseteq> set (mf_staging fs) \<and>
    (owed = [] \<longrightarrow> (\<forall>k\<in>set ks. staging_name k \<notin> fst ` set (mf_staging fs')))"
  using assms
proof (induction ks arbitrary: fs owed fs')
  case Nil
  then show ?case by simp
next
  case (Cons key ks)
  let ?n = "staging_name key"
  show ?case
  proof (cases "se_locked se ?n \<and> ?n \<in> fst ` set (mf_staging fs)")
    case True
    obtain o2 fs2 where rest: "unlink_each se ks fs = (o2, fs2)" by fastforce
    with Cons.prems True have "owed \<noteq> []" "fs' = fs2" by auto
    with Cons.IH [OF rest] show ?thesis by simp
  next
    case False
    then have rest: "unlink_each se ks (remove_staged ?n fs) = (owed, fs')" using Cons.prems by (auto simp: Let_def)
    have "mf_staging (remove_staged ?n fs) = filter (\<lambda>x. fst x \<noteq> ?n) (mf_staging fs)" by (simp add: remove_staged_def)
    moreover from Cons.IH [OF rest] have "set (mf_staging fs') \<subseteq> set (mf_staging (remove_staged ?n fs))"
      "\<forall>k. final_entry fs' k = final_entry fs k" "owed = [] \<longrightarrow> (\<forall>k\<in>set ks. staging_name k \<notin> fst ` set (mf_staging fs'))" by simp_all
    ultimately show ?thesis by auto
  qed
qed

lemma finalize_deleted:
  assumes "finalize_deletion i marker e now d = Inr (b, d')"
  shows "map_option c_state (tab_get c_id (sources d') i) = Some S_DELETED"
proof -
  obtain c where c: "tab_get c_id (sources d) i = Some c" using assms by (auto simp: finalize_deletion_def split: option.split_asm)
  show ?thesis
  proof (cases "c_state c = S_DELETED")
    case True
    with assms c show ?thesis by (simp add: finalize_deletion_def)
  next
    case False
    then obtain d2 where ev: "evidence_append (deletion_evidence e i (affected_identities i d) now) [] [] (delete_rows i marker now d) = Inr d2"
      and d': "d' = source_update i (c_rev c) (tombstone now) d2"
      using assms c by (auto simp: finalize_deletion_def bindE_Inr_iff split: if_split_asm)
    have "sources d2 = tab_update (\<lambda>c. c_id c = i) (\<lambda>c. c\<lparr>c_run := None\<rparr>) (sources d)"
      by (rule evidence_append_Inr [OF ev]) (simp add: delete_rows_tables(11))
    then have "tab_get c_id (sources d2) i = Some (c\<lparr>c_run := None\<rparr>)" using c by (auto simp: tab_get_update dest: tab_get_SomeD)
    then have "tab_get c_id (sources d') i = Some (bump_source (tombstone now (c\<lparr>c_run := None\<rparr>)))"
      using tab_get_SomeD [OF c]
      by (simp add: d' source_update_def optimistic_locked_update_def opt_where_def tab_get_update bump_source_def tombstone_def)
    then show ?thesis by (simp add: bump_source_def tombstone_def)
  qed
qed

lemma settle_log_frame: "settle_log outcome d = (owed, d') \<Longrightarrow> \<exists>t. d' = d\<lparr>app_states := t\<rparr>"
  by (rule exI [of _ "app_states d'"])
    (auto simp: settle_log_def truncate_log_def app_state_clear_def split: option.split_asm truncation.split_asm prod.split_asm)

lemma carry_on_complete:
  assumes run: "carry_on de i (d, fs, files) = (Inr rp, d', fs', files')" and "dr_outstanding rp = []"
    and keyed: "tab_keyed f_id (artifacts d)"
  shows "map_option c_state (tab_get c_id (sources d') i) = Some S_DELETED"
    and "map_option c_state (tab_get c_id (sources d) i) = Some S_DELETED \<or>
      (\<forall>f\<in>set (owned_artifacts i d). \<forall>k. f_mode f = MANAGED \<and> f_state f \<noteq> A_DELETED \<and> f_key f = Some k \<longrightarrow>
         final_entry fs' k = None \<and> staging_name k \<notin> fst ` set (mf_staging fs'))"
proof -
  obtain c where c: "tab_get c_id (sources d) i = Some c" using run by (auto simp: carry_on_def split: option.split_asm)
  have settled: "sources dy = sources dx" if "settle_owed de i b dx = (rp', dy)" for b dx dy rp'
    using that settle_log_frame [of "de_truncation de" dx] by (auto simp: settle_owed_def split: prod.split_asm)
  have "map_option c_state (tab_get c_id (sources d') i) = Some S_DELETED \<and> (c_state c = S_DELETED \<or>
      (\<forall>f\<in>set (owned_artifacts i d). \<forall>k. f_mode f = MANAGED \<and> f_state f \<noteq> A_DELETED \<and> f_key f = Some k \<longrightarrow>
         final_entry fs' k = None \<and> staging_name k \<notin> fst ` set (mf_staging fs')))"
  proof (cases "c_state c = S_DELETED")
    case True
    then have "settle_owed de i False d = (rp, d')"
      using run c by (auto simp: carry_on_def split: prod.split_asm)
    from settled [OF this] show ?thesis using c True by simp
  next
    case False
    then have st: "c_state c = S_DELETING" using run c by (auto simp: carry_on_def split: if_split_asm)
    obtain r d1 fs1 where del: "delete_each (de_store de) (de_now de) (owed_bytes i d) d fs = (r, d1, fs1)" by (rule prod_cases3)
    obtain staged fs2 where un: "unlink_each (de_store de) (staged_keys i d) fs1 = (staged, fs2)" by fastforce
    obtain v d2 files2 where er: "erase_owed de (source_rep_ids i d) d1 files = (v, d2, files2)" by (rule prod_cases3)
    define stuck where "stuck = map NotDeleted (filter (\<lambda>a. a \<notin> set (owed_bytes i d)) (unfinished_artifacts i d))"
    obtain bytes vectors where parts: "r = Inr bytes" "v = Inr vectors"
      using run c st by (cases r; cases v) (auto simp: carry_on_def del un er Let_def)
    have body: "(if bytes @ staged @ stuck @ vectors \<noteq> []
        then (Inr \<lparr>dr_source = i, dr_outstanding = bytes @ staged @ stuck @ vectors, dr_changed = False\<rparr>, d2, fs2, files2)
        else case finalize_deletion i (de_marker de) (de_ids de 2 0) (de_now de) d2 of
            Inl e \<Rightarrow> (Inl e, d2, fs2, files2)
          | Inr (finalized, d3) \<Rightarrow> (case settle_owed de i finalized d3 of (rp, d4) \<Rightarrow> (Inr rp, d4, fs2, files2)))
        = (Inr rp, d', fs', files')"
      using run unfolding carry_on_def prod.case c option.case by (simp only: st del un er parts Let_def stuck_def prod.case sum.case source_state.distinct simp_thms if_True if_False)
    have "bytes @ staged @ stuck @ vectors = []"
    proof (rule ccontr)
      assume "bytes @ staged @ stuck @ vectors \<noteq> []"
      moreover from this have "dr_outstanding rp = bytes @ staged @ stuck @ vectors" using body by (metis deletion_report.select_convs(2) fst_conv sum.inject(2))
      ultimately show False using assms(2) by simp
    qed
    then have none: "bytes = []" "staged = []" "stuck = []" "vectors = []" by simp_all
    then obtain b d3 where fin: "finalize_deletion i (de_marker de) (de_ids de 2 0) (de_now de) d2 = Inr (b, d3)"
      and rest: "settle_owed de i b d3 = (rp, d')" and fs': "fs' = fs2"
      using body by (auto simp: none split: sum.split_asm prod.split_asm)
    have "map_option c_state (tab_get c_id (sources d') i) = Some S_DELETED"
      using finalize_deleted [OF fin] settled [OF rest] by simp
    moreover have "final_entry fs' k = None \<and> staging_name k \<notin> fst ` set (mf_staging fs')"
      if f: "f \<in> set (owned_artifacts i d)" "f_mode f = MANAGED" "f_state f \<noteq> A_DELETED" "f_key f = Some k" for f k
    proof
      have "f_id f \<in> set (unfinished_artifacts i d)" using f by (auto simp: unfinished_artifacts_def)
      then have owed: "f_id f \<in> set (owed_bytes i d)" using none(3) by (auto simp: stuck_def filter_empty_conv)
      have "tab_get f_id (artifacts d) (f_id f) = Some f" using f(1) tab_get_in [OF keyed] by (simp add: owned_artifacts_def)
      with delete_each_effect [OF del] owed f(3,4) parts(1) none(1) have "final_entry fs1 k = None" by blast
      then show "final_entry fs' k = None" using unlink_each_effect [OF un] fs' by simp
      have "k \<in> set (staged_keys i d)" using f by (force simp: staged_keys_def)
      then show "staging_name k \<notin> fst ` set (mf_staging fs')" using unlink_each_effect [OF un] none(2) fs' by simp
    qed
    ultimately show ?thesis by blast
  qed
  then show "map_option c_state (tab_get c_id (sources d') i) = Some S_DELETED"
    "map_option c_state (tab_get c_id (sources d) i) = Some S_DELETED \<or>
      (\<forall>f\<in>set (owned_artifacts i d). \<forall>k. f_mode f = MANAGED \<and> f_state f \<noteq> A_DELETED \<and> f_key f = Some k \<longrightarrow>
         final_entry fs' k = None \<and> staging_name k \<notin> fst ` set (mf_staging fs'))"
    using c by auto
qed

lemma requeued_library:
  assumes "requeued d f d'"
  shows "sources d' = sources d" "observations d' = observations d" "artifacts d' = artifacts d"
proof -
  obtain t where "d' = d\<lparr>reps := map f (reps d), index_ops := t\<rparr>" using assms unfolding requeued_def by blast
  then show "sources d' = sources d" "observations d' = observations d" "artifacts d' = artifacts d" by simp_all
qed


section \<open>A source in the bin\<close>

text \<open>Its original was never finished, a crop was; its face is superseded, and its identity is named.\<close>

definition recycled_db :: db where
  "recycled_db = family_db\<lparr>sources := [(hd (sources sample_library))\<lparr>c_state := S_RECYCLED, c_original := 8\<rparr>]\<rparr>"

lemma recycled_db_ok: "memory_ok recycled_db" "artifacts_ok (artifacts recycled_db)" "tab_keyed c_id (sources recycled_db)"
proof -
  show "memory_ok recycled_db" using family_db_ok by (simp add: recycled_db_def memory_ok_def)
  have "map f_id (artifacts recycled_db) = [7, 8] \<and> map (\<lambda>f. f_key f = None) (artifacts recycled_db) = [False, False] \<and>
    distinct (map f_key (artifacts recycled_db))" by code_simp
  then show "artifacts_ok (artifacts recycled_db)" by (auto simp: artifacts_ok_def tab_keyed_def map_eq_Cons_conv)
  show "tab_keyed c_id (sources recycled_db)" by code_simp
qed


definition erased_db :: db where
  "erased_db = recycled_db\<lparr>sources := map (\<lambda>c. c\<lparr>c_state := S_DELETING\<rparr>) (sources recycled_db),
     reps := map (\<lambda>r. if r_id r = 23 then erased_row 9 r else r) (reps recycled_db)\<rparr>"

lemma finalizing_leaves_a_tombstone_witness:
  "\<exists>d'. finalize_deletion 1 ''m'' 77 9 erased_db = Inr (True, d') \<and> observations d' = [] \<and> map r_id (reps d') = [21] \<and>
     map e_id (evidences d') = [77] \<and> map (\<lambda>x. (i_id x, i_state x)) (identities d') = [(1, I_ACTIVE), (2, I_MERGED)]"
proof -
  have "(case finalize_deletion 1 ''m'' 77 9 erased_db of Inl _ \<Rightarrow> False | Inr (b, d') \<Rightarrow> b)" by code_simp
  then obtain d' where d': "finalize_deletion 1 ''m'' 77 9 erased_db = Inr (True, d')"
    by (cases "finalize_deletion 1 ''m'' 77 9 erased_db") auto
  have "tab_keyed c_id (sources erased_db)" by code_simp
  note t = finalizing_leaves_a_tombstone [OF this d']
  have "map r_id (filter (\<lambda>r. \<not> of_source 1 erased_db r) (reps erased_db)) = [21] \<and> evidences erased_db = [] \<and>
      filter (\<lambda>ob. o_source ob \<noteq> 1) (observations erased_db) = []" by code_simp
  moreover have "map (\<lambda>x. (i_id x, if i_state x = I_ACTIVE \<and> dropped 1 erased_db (i_id x) then I_DELETED else i_state x)) (identities erased_db)
      = [(1, I_ACTIVE), (2, I_MERGED)]" by code_simp
  ultimately show ?thesis using d' t by simp
qed


end
