(* ===== verification/Json_Values.thy ===== *)
theory Json_Values
  imports Schema
begin

text \<open>
  Python's view of a decoded JSON value, shared by every reader of a document: numbers compare across
  \<open>bool\<close>, \<open>int\<close> and \<open>float\<close>, a \<open>bool\<close> is an \<open>int\<close>, a decoded float is finite.
\<close>

fun number_of :: "json \<Rightarrow> real option" where
  "number_of (JInt n) = Some (of_int n)"
| "number_of (JFloat x) = Some x"
| "number_of (JBool b) = Some (if b then 1 else 0)"
| "number_of _ = None"

text \<open>\<open>_number\<close>: an \<open>int\<close> or a \<open>float\<close>, not a \<open>bool\<close>.\<close>

fun is_number :: "json \<Rightarrow> bool" where
  "is_number (JInt n) = True"
| "is_number (JFloat x) = True"
| "is_number _ = False"

text \<open>\<open>isinstance(value, int)\<close>, which a \<open>bool\<close> is.\<close>

fun int_of :: "json \<Rightarrow> int option" where
  "int_of (JInt n) = Some n"
| "int_of (JBool b) = Some (if b then 1 else 0)"
| "int_of _ = None"

fun is_bool :: "json \<Rightarrow> bool" where
  "is_bool (JBool b) = True"
| "is_bool _ = False"

fun is_text :: "json \<Rightarrow> bool" where
  "is_text (JStr s) = True"
| "is_text _ = False"

fun is_object :: "json \<Rightarrow> bool" where
  "is_object (JObj fs) = True"
| "is_object _ = False"

fun hashable :: "json \<Rightarrow> bool" where
  "hashable (JList xs) = False"
| "hashable (JObj fs) = False"
| "hashable _ = True"

abbreviation the_number :: "json \<Rightarrow> real" where
  "the_number v \<equiv> the (number_of v)"

text \<open>\<open>==\<close> of two decoded values: members in any order, numbers by their value.\<close>

fun json_eq :: "json \<Rightarrow> json \<Rightarrow> bool" where
  "json_eq (JList xs) (JList ys) = list_all2 json_eq xs ys"
| "json_eq (JObj fs) (JObj gs) \<longleftrightarrow>
     set (map fst fs) = set (map fst gs) \<and>
     list_all (\<lambda>p. case map_of gs (fst p) of None \<Rightarrow> False | Some v \<Rightarrow> json_eq (snd p) v) fs"
| "json_eq v w \<longleftrightarrow> v = w \<or> (number_of v \<noteq> None \<and> number_of v = number_of w)"

text \<open>\<open>value.get(key)\<close>, and \<open>value[key]\<close> once the keys are known.\<close>

fun json_field :: "string \<Rightarrow> json \<Rightarrow> json" where
  "json_field k (JObj fs) = (case map_of fs k of None \<Rightarrow> JNull | Some v \<Rightarrow> v)"
| "json_field k _ = JNull"

fun has_keys :: "json \<Rightarrow> string list \<Rightarrow> bool" where
  "has_keys (JObj fs) ks \<longleftrightarrow> set (map fst fs) = set ks"
| "has_keys _ ks = False"

fun json_items :: "json \<Rightarrow> json list" where
  "json_items (JList xs) = xs"
| "json_items _ = []"

fun is_list :: "json \<Rightarrow> bool" where
  "is_list (JList xs) = True"
| "is_list _ = False"

fun text_of :: "json \<Rightarrow> string" where
  "text_of (JStr s) = s"
| "text_of _ = []"

definition natural :: "json \<Rightarrow> bool" where
  "natural v \<longleftrightarrow> (case int_of v of None \<Rightarrow> False | Some n \<Rightarrow> 0 \<le> n)"

end
