(* ===== verification/Final.thy ===== *)
theory Final
  imports Recognition Identities RunLife Json_Values
begin

text \<open>
  Reading the FINAL checkpoint of a run (\<open>backend/app/processing/accept_run.py\<close>: \<open>_decision\<close>,
  \<open>_evidence\<close>, \<open>_candidates\<close> and what they check), from the JSON column to the decisions that
  acceptance works on. \<open>uuid.UUID(text)\<close> of a string that is not the canonical spelling is the argument \<open>spelt\<close>.
  The last section shows that what the executor writes is read back as it was meant.
\<close>

section \<open>Errors and ids\<close>

datatype accept_error =
    Refused string | PythonTypeError | IdentityRefused identity_error | WriteRefused repo_error | RunRefused run_error

abbreviation require :: "bool \<Rightarrow> string \<Rightarrow> accept_error + unit" where
  "require p message \<equiv> (if p then Inr () else Inl (Refused message))"

fun read_uuid :: "(string \<Rightarrow> uuid option) \<Rightarrow> json \<Rightarrow> accept_error + uuid" where
  "read_uuid spelt (JUuid i) = Inr i"
| "read_uuid spelt (JStr s) = (case spelt s of Some i \<Rightarrow> Inr i | None \<Rightarrow> Inl (Refused ''FINAL checkpoint id is invalid''))"
| "read_uuid spelt _ = Inl (Refused ''FINAL checkpoint id is not a string'')"

fun read_uuid_opt :: "(string \<Rightarrow> uuid option) \<Rightarrow> json \<Rightarrow> accept_error + uuid option" where
  "read_uuid_opt spelt JNull = Inr None"
| "read_uuid_opt spelt v = map_sum id Some (read_uuid spelt v)"

fun read_all :: "('a \<Rightarrow> accept_error + 'b) \<Rightarrow> 'a list \<Rightarrow> accept_error + 'b list" where
  "read_all f [] = Inr []"
| "read_all f (x # xs) = bindE (f x) (\<lambda>y. bindE (read_all f xs) (\<lambda>ys. Inr (y # ys)))"

text \<open>
  \<open>math.isclose\<close> with its relative tolerance of \<open>1e-9\<close>: \<open>relative\<close> and \<open>absolute\<close> are the doubles
  nearest to the decimal constants, and the products are rounded.
\<close>

definition isclose :: "real \<Rightarrow> real \<Rightarrow> real \<Rightarrow> bool" where
  "isclose absolute a b \<longleftrightarrow> a = b \<or>
     (let relative = fl (1 / 10 ^ 9); gap = \<bar>fsub b a\<bar>
      in gap \<le> \<bar>fl (relative * b)\<bar> \<or> gap \<le> \<bar>fl (relative * a)\<bar> \<or> gap \<le> absolute)"

section \<open>The candidates of a decision\<close>

definition evidence_keys :: "string list" where
  "evidence_keys = [''schema_version'', ''outcome'', ''reason'', ''identity_id'', ''assessment_version'', ''interpretation'',
     ''representation_space_id'', ''quality'', ''retrieval'', ''candidates'', ''margin'', ''policy'']"

definition candidate_keys :: "string list" where
  "candidate_keys = [''rank'', ''identity_id'', ''similarity'', ''members'']"

definition candidate_member_keys :: "string list" where
  "candidate_member_keys = [''representation_id'', ''pool'', ''similarity'']"

fun reasons_by_outcome :: "outcome \<Rightarrow> reason list" where
  "reasons_by_outcome MATCH_EXISTING = [MATCHED]"
| "reasons_by_outcome CREATE_NEW = [NO_CANDIDATE, NOT_SIMILAR]"
| "reasons_by_outcome ABSTAIN =
     [LOW_QUALITY, RETRIEVAL_INCOMPLETE, AMBIGUOUS_CANDIDATES, UNRESOLVED_NEIGHBOUR, UNCERTAIN_SIMILARITY]"

definition is_similarity :: "json \<Rightarrow> bool" where
  "is_similarity v \<longleftrightarrow> is_number v \<and> -1 \<le> the_number v \<and> the_number v \<le> 1"

text \<open>The members of one candidate; \<open>seen\<close> are the representations named so far.\<close>

fun read_members ::
  "(string \<Rightarrow> uuid option) \<Rightarrow> json list \<Rightarrow> uuid list \<Rightarrow> accept_error + (uuid \<times> real) list \<times> uuid list" where
  "read_members spelt [] seen = Inr ([], seen)"
| "read_members spelt (m # ms) seen =
     bindE (require (has_keys m candidate_member_keys) ''decision candidate member is malformed'') (\<lambda>_.
     bindE (if hashable (json_field ''pool'' m) then Inr () else Inl PythonTypeError) (\<lambda>_.
     bindE (require (json_field ''pool'' m \<in> {JStr ''GLOBAL'', JStr ''RUN_LOCAL''} \<and> is_similarity (json_field ''similarity'' m))
              ''decision candidate member is malformed'') (\<lambda>_.
     bindE (read_uuid spelt (json_field ''representation_id'' m)) (\<lambda>i.
     bindE (require (i \<notin> set seen) ''decision candidate evidence repeats a representation'') (\<lambda>_.
     bindE (read_members spelt ms (seen @ [i])) (\<lambda>(rest, seen').
       Inr ((i, the_number (json_field ''similarity'' m)) # rest, seen')))))))"

fun read_candidates ::
  "(string \<Rightarrow> uuid option) \<Rightarrow> int \<Rightarrow> json list \<Rightarrow> uuid list \<Rightarrow> uuid list \<Rightarrow> accept_error + evidence_candidate list" where
  "read_candidates spelt rank [] seen named = Inr []"
| "read_candidates spelt rank (c # cs) seen named =
     bindE (require (has_keys c candidate_keys \<and> json_field ''rank'' c = JInt rank \<and> is_similarity (json_field ''similarity'' c))
              ''decision candidate evidence is malformed'') (\<lambda>_.
     let members = json_field ''members'' c in
     bindE (require (json_items members \<noteq> []) ''decision candidate evidence is malformed'') (\<lambda>_.
     bindE (read_members spelt (json_items members) seen) (\<lambda>(ms, seen').
     bindE (require (the_number (json_field ''similarity'' c) = list_max (map snd ms))
              ''decision candidate evidence has an inconsistent similarity'') (\<lambda>_.
     bindE (read_uuid_opt spelt (json_field ''identity_id'' c)) (\<lambda>ident.
     bindE (require (case ident of None \<Rightarrow> True | Some i \<Rightarrow> i \<notin> set named)
              ''decision candidate evidence repeats an identity'') (\<lambda>_.
     bindE (read_candidates spelt (rank + 1) cs seen' (case ident of None \<Rightarrow> named | Some i \<Rightarrow> named @ [i])) (\<lambda>rest.
       Inr (\<lparr>ec_evidence = 0, ec_rank = rank, ec_rep = Some (fst (hd ms)), ec_identity = ident,
              ec_similarity = the_number (json_field ''similarity'' c), ec_decision = ''CONSIDERED'', ec_details = c\<rparr> # rest))))))))"

definition candidates_of :: "(string \<Rightarrow> uuid option) \<Rightarrow> json \<Rightarrow> accept_error + evidence_candidate list" where
  "candidates_of spelt evidence =
     bindE (require (is_list (json_field ''candidates'' evidence)) ''decision candidate evidence is not a list'') (\<lambda>_.
       read_candidates spelt 1 (json_items (json_field ''candidates'' evidence)) [] [])"

section \<open>The evidence of a decision\<close>

definition policy_of :: "json \<Rightarrow> string \<Rightarrow> policy" where
  "policy_of p version = \<lparr>po_version = version, po_gate = the_number (json_field ''min_detection_score'' p),
     po_match = the_number (json_field ''match_threshold'' p), po_margin = the_number (json_field ''margin'' p),
     po_ceiling = the_number (json_field ''new_identity_ceiling'' p)\<rparr>"

definition semantic_fields_ok :: "json \<Rightarrow> bool" where
  "semantic_fields_ok v \<longleftrightarrow>
     (let quality = json_field ''quality'' v; retrieval = json_field ''retrieval'' v; policy = json_field ''policy'' v;
          margin = json_field ''margin'' v
      in has_keys quality [''detection_score''] \<and> is_number (json_field ''detection_score'' quality) \<and>
         0 \<le> the_number (json_field ''detection_score'' quality) \<and> the_number (json_field ''detection_score'' quality) \<le> 1 \<and>
         has_keys retrieval [''requested_k'', ''returned'', ''dropped'', ''converged''] \<and>
         natural (json_field ''requested_k'' retrieval) \<and> natural (json_field ''returned'' retrieval) \<and>
         natural (json_field ''dropped'' retrieval) \<and> is_bool (json_field ''converged'' retrieval) \<and>
         (margin = JNull \<or> is_number margin) \<and>
         has_keys policy [''version'', ''min_detection_score'', ''match_threshold'', ''margin'', ''new_identity_ceiling''] \<and>
         is_text (json_field ''version'' policy) \<and> is_number (json_field ''min_detection_score'' policy) \<and>
         is_number (json_field ''match_threshold'' policy) \<and> is_number (json_field ''margin'' policy) \<and>
         is_number (json_field ''new_identity_ceiling'' policy))"

definition retrieval_ok :: "json \<Rightarrow> nat \<Rightarrow> bool" where
  "retrieval_ok v groups \<longleftrightarrow>
     (let retrieval = json_field ''retrieval'' v; k = the (int_of (json_field ''requested_k'' retrieval));
          returned = the (int_of (json_field ''returned'' retrieval))
      in 2 \<le> k \<and> returned \<le> k \<and> int groups \<le> returned \<and>
         int (sum_list (map (\<lambda>c. length (json_items (json_field ''members'' c))) (json_items (json_field ''candidates'' v)))) = returned)"

definition margin_error :: "json \<Rightarrow> nat \<Rightarrow> accept_error option" where
  "margin_error v groups =
     (let margin = json_field ''margin'' v; cs = json_items (json_field ''candidates'' v)
      in if groups < 2 then (if margin = JNull then None else Some (Refused ''FINAL checkpoint decision evidence has an impossible margin''))
         else if margin = JNull then Some PythonTypeError
         else if isclose (fl (1 / 10 ^ 12)) (the_number margin)
                   (fsub (the_number (json_field ''similarity'' (cs ! 0))) (the_number (json_field ''similarity'' (cs ! 1))))
         then None else Some (Refused ''FINAL checkpoint decision evidence has an inconsistent margin''))"

definition read_evidence ::
  "(string \<Rightarrow> uuid option) \<Rightarrow> json \<Rightarrow> outcome \<Rightarrow> reason \<Rightarrow> uuid option \<Rightarrow> accept_error + json" where
  "read_evidence spelt v outcome reason ident =
     bindE (require (is_object v) ''FINAL checkpoint decision evidence is not an object'') (\<lambda>_.
     bindE (require (has_keys v evidence_keys \<and> json_eq (json_field ''schema_version'' v) (JInt 1))
              ''FINAL checkpoint decision has an unsupported evidence schema'') (\<lambda>_.
     bindE (require (json_field ''outcome'' v = JStr (outcome_value outcome) \<and> json_field ''reason'' v = JStr (reason_value reason) \<and>
                json_field ''identity_id'' v = json_uuid_opt ident)
              ''FINAL checkpoint decision evidence contradicts its decision'') (\<lambda>_.
     bindE (require (json_field ''assessment_version'' v = JStr ''recognition-assessment-v2'' \<and>
                json_field ''interpretation'' v = JStr ''COSINE_UNCALIBRATED'')
              ''FINAL checkpoint decision evidence has invalid assessment metadata'') (\<lambda>_.
     bindE (read_uuid spelt (json_field ''representation_space_id'' v)) (\<lambda>_.
     bindE (require (semantic_fields_ok v) ''FINAL checkpoint decision evidence has invalid semantic fields'') (\<lambda>_.
     bindE (require (policy_ok (policy_of (json_field ''policy'' v) (text_of (json_field ''version'' (json_field ''policy'' v)))))
              ''FINAL checkpoint decision evidence has incoherent policy'') (\<lambda>_.
     bindE (candidates_of spelt v) (\<lambda>cs.
     bindE (require (retrieval_ok v (length cs)) ''FINAL checkpoint decision evidence has inconsistent retrieval'') (\<lambda>_.
       case margin_error v (length cs) of None \<Rightarrow> Inr v | Some e \<Rightarrow> Inl e)))))))))"

section \<open>The decisions of the checkpoint\<close>

record final_decision =
  fd_observation :: uuid
  fd_rep :: uuid
  fd_outcome :: outcome
  fd_reason :: reason
  fd_identity :: "uuid option"
  fd_evidence :: json

definition outcome_named :: "string \<Rightarrow> outcome option" where
  "outcome_named s = find (\<lambda>x. outcome_value x = s) [MATCH_EXISTING, CREATE_NEW, ABSTAIN]"

definition reason_named :: "string \<Rightarrow> reason option" where
  "reason_named s = find (\<lambda>x. reason_value x = s)
     [MATCHED, NO_CANDIDATE, NOT_SIMILAR, LOW_QUALITY, RETRIEVAL_INCOMPLETE, AMBIGUOUS_CANDIDATES, UNRESOLVED_NEIGHBOUR,
      UNCERTAIN_SIMILARITY]"

definition decision_keys :: "string list" where
  "decision_keys = [''observation_id'', ''representation_id'', ''outcome'', ''reason'', ''identity_id'', ''evidence'']"

definition read_decision :: "(string \<Rightarrow> uuid option) \<Rightarrow> json \<Rightarrow> accept_error + final_decision" where
  "read_decision spelt v =
     bindE (require (has_keys v decision_keys) ''FINAL checkpoint decision has an unknown or missing field'') (\<lambda>_.
     case outcome_named (text_of (json_field ''outcome'' v)) of
       None \<Rightarrow> Inl (Refused ''FINAL checkpoint decision has an invalid outcome'')
     | Some outcome \<Rightarrow>
     case reason_named (text_of (json_field ''reason'' v)) of
       None \<Rightarrow> Inl (Refused ''FINAL checkpoint decision has an invalid reason'')
     | Some reason \<Rightarrow>
     bindE (require (reason \<in> set (reasons_by_outcome outcome)) ''FINAL checkpoint decision reason does not support its outcome'') (\<lambda>_.
     bindE (read_uuid_opt spelt (json_field ''identity_id'' v)) (\<lambda>ident.
     bindE (read_evidence spelt (json_field ''evidence'' v) outcome reason ident) (\<lambda>evidence.
     bindE (read_uuid spelt (json_field ''observation_id'' v)) (\<lambda>ob.
     bindE (read_uuid spelt (json_field ''representation_id'' v)) (\<lambda>r.
       Inr \<lparr>fd_observation = ob, fd_rep = r, fd_outcome = outcome, fd_reason = reason, fd_identity = ident, fd_evidence = evidence\<rparr>))))))"

definition read_final_payload :: "(string \<Rightarrow> uuid option) \<Rightarrow> json \<Rightarrow> accept_error + uuid list \<times> final_decision list" where
  "read_final_payload spelt p =
     bindE (require (has_keys p [''schema_version'', ''observations'', ''decisions'']) ''FINAL checkpoint has an unknown or missing field'') (\<lambda>_.
     bindE (require (json_eq (json_field ''schema_version'' p) (JInt 1)) ''FINAL checkpoint has an unsupported payload schema'') (\<lambda>_.
     bindE (require (is_list (json_field ''observations'' p) \<and> is_list (json_field ''decisions'' p))
              ''FINAL checkpoint observations and decisions must be lists'') (\<lambda>_.
     bindE (read_all (read_decision spelt) (json_items (json_field ''decisions'' p))) (\<lambda>ds.
     bindE (read_all (read_uuid spelt) (json_items (json_field ''observations'' p))) (\<lambda>obs.
     bindE (require (distinct obs) ''FINAL checkpoint repeats an observation'') (\<lambda>_.
     bindE (require (set (map fd_observation ds) = set obs) ''FINAL checkpoint decisions do not cover its observations'') (\<lambda>_.
     bindE (require (distinct (map fd_rep ds)) ''FINAL checkpoint repeats a representation'') (\<lambda>_.
       Inr (obs, ds)))))))))"

text \<open>\<open>_final\<close>\<close>

definition read_final :: "(string \<Rightarrow> uuid option) \<Rightarrow> run \<Rightarrow> db \<Rightarrow> accept_error + uuid list \<times> final_decision list" where
  "read_final spelt p d =
     (case final_valid (p_id p) (checkpoints d) of
        None \<Rightarrow> Inl (Refused ''processing run has no current supported FINAL checkpoint'')
      | Some k \<Rightarrow>
          bindE (require (Some (k_id k) = p_checkpoint p \<and> k_kind k = K_FINAL \<and> k_state k = K_VALID \<and> k_version k = 1)
                   ''processing run has no current supported FINAL checkpoint'') (\<lambda>_.
            read_final_payload spelt (k_payload k)))"

section \<open>What the executor writes is read back\<close>

definition entry_evidence :: "decision \<Rightarrow> uuid option \<Rightarrow> json" where
  "entry_evidence dec ident =
     (case evidence_payload dec of JObj fs \<Rightarrow> JObj (json_merge fs [(''identity_id'', json_uuid_opt ident)]) | v \<Rightarrow> v)"

text \<open>One entry of \<open>payload["decisions"]\<close> in \<open>_finalize\<close> (\<open>execute_job.py\<close>).\<close>

definition decision_entry :: "uuid \<Rightarrow> uuid \<Rightarrow> decision \<Rightarrow> uuid option \<Rightarrow> json" where
  "decision_entry ob r dec ident =
     JObj [(''observation_id'', JUuid ob), (''representation_id'', JUuid r),
           (''outcome'', JStr (outcome_value (d_outcome dec))), (''reason'', JStr (reason_value (d_reason dec))),
           (''identity_id'', json_uuid_opt ident),
           (''evidence'', entry_evidence dec ident)]"

lemma read_uuid_opt_json [simp]: "read_uuid_opt spelt (json_uuid_opt ident) = Inr ident"
  by (cases ident) simp_all

lemma outcome_named_value [simp]: "outcome_named (outcome_value x) = Some x"
  by (cases x) (simp_all add: outcome_named_def)

lemma reason_named_value [simp]: "reason_named (reason_value x) = Some x"
  by (cases x) (simp_all add: reason_named_def)

lemma read_members_json:
  assumes "\<forall>m\<in>set ms. -1 \<le> m_similarity m \<and> m_similarity m \<le> 1" and "distinct (map m_rep ms)"
    and "set (map m_rep ms) \<inter> set seen = {}"
  shows "read_members spelt (map member_json ms) seen =
    Inr (map (\<lambda>m. (m_rep m, m_similarity m)) ms, seen @ map m_rep ms)"
  using assms
proof (induction ms arbitrary: seen)
  case (Cons m ms)
  have "read_members spelt (map member_json ms) (seen @ [m_rep m]) =
      Inr (map (\<lambda>m. (m_rep m, m_similarity m)) ms, (seen @ [m_rep m]) @ map m_rep ms)"
    using Cons.prems by (intro Cons.IH) auto
  moreover have "has_keys (member_json m) candidate_member_keys" "json_field ''similarity'' (member_json m) = JFloat (m_similarity m)"
      "json_field ''representation_id'' (member_json m) = JUuid (m_rep m)"
      "json_field ''pool'' (member_json m) \<in> {JStr ''GLOBAL'', JStr ''RUN_LOCAL''}" "hashable (json_field ''pool'' (member_json m))"
    by (cases "m_pool m"; auto simp: member_json_def candidate_member_keys_def)+
  ultimately show ?case
    using Cons.prems by (simp add: is_similarity_def)
qed simp

text \<open>A ranking of groups as the assessment makes it: members with a similarity, none named twice, no identity twice.\<close>

definition ranking_ok :: "uuid list \<Rightarrow> uuid list \<Rightarrow> grp list \<Rightarrow> bool" where
  "ranking_ok seen named gs \<longleftrightarrow>
     (\<forall>g\<in>set gs. gr_members g \<noteq> [] \<and> (\<forall>m\<in>set (gr_members g). -1 \<le> m_similarity m \<and> m_similarity m \<le> 1)) \<and>
     distinct (seen @ concat (map (\<lambda>g. map m_rep (gr_members g)) gs)) \<and>
     distinct (named @ concat (map (\<lambda>g. case gr_identity g of None \<Rightarrow> [] | Some i \<Rightarrow> [i]) gs))"

definition candidate_row :: "nat \<Rightarrow> grp \<Rightarrow> evidence_candidate" where
  "candidate_row rank g = \<lparr>ec_evidence = 0, ec_rank = int rank, ec_rep = Some (m_rep (hd (gr_members g))),
     ec_identity = gr_identity g, ec_similarity = best_similarity g, ec_decision = ''CONSIDERED'', ec_details = group_json rank g\<rparr>"

lemma best_similarity_range:
  assumes "gr_members g \<noteq> []" and "\<forall>m\<in>set (gr_members g). -1 \<le> m_similarity m \<and> m_similarity m \<le> 1"
  shows "-1 \<le> best_similarity g" "best_similarity g \<le> 1"
proof -
  have "best_similarity g \<in> m_similarity ` set (gr_members g)"
    using list_max_in [of "map m_similarity (gr_members g)"] assms(1) by (simp add: best_similarity_def)
  with assms(2) show "-1 \<le> best_similarity g" "best_similarity g \<le> 1" by auto
qed

lemma read_candidates_json:
  assumes "ranking_ok seen named gs"
  shows "read_candidates spelt (int n) (map (\<lambda>(rank, g). group_json rank g) (zip [n..<n + length gs] gs)) seen named =
    Inr (map (\<lambda>(rank, g). candidate_row rank g) (zip [n..<n + length gs] gs))"
  using assms
proof (induction gs arbitrary: n seen named)
  case (Cons g gs)
  let ?named = "case gr_identity g of None \<Rightarrow> named | Some i \<Rightarrow> named @ [i]"
  have "ranking_ok (seen @ map m_rep (gr_members g)) ?named gs"
    using Cons.prems by (auto simp: ranking_ok_def split: option.splits)
  from Cons.IH [OF this, of "Suc n"]
  have rest: "read_candidates spelt (int n + 1) (map (\<lambda>(rank, g). group_json rank g) (zip [Suc n..<Suc n + length gs] gs))
      (seen @ map m_rep (gr_members g)) ?named =
    Inr (map (\<lambda>(rank, g). candidate_row rank g) (zip [Suc n..<Suc n + length gs] gs))" by (simp add: add.commute)
  have g: "gr_members g \<noteq> []" "\<forall>m\<in>set (gr_members g). -1 \<le> m_similarity m \<and> m_similarity m \<le> 1"
    using Cons.prems by (simp_all add: ranking_ok_def)
  have ms: "read_members spelt (map member_json (gr_members g)) seen =
      Inr (map (\<lambda>m. (m_rep m, m_similarity m)) (gr_members g), seen @ map m_rep (gr_members g))"
    using Cons.prems by (intro read_members_json) (auto simp: ranking_ok_def)
  have row: "has_keys (group_json n g) candidate_keys" "json_field ''rank'' (group_json n g) = JInt (int n)"
      "json_field ''similarity'' (group_json n g) = JFloat (best_similarity g)"
      "json_field ''members'' (group_json n g) = JList (map member_json (gr_members g))"
      "json_field ''identity_id'' (group_json n g) = json_uuid_opt (gr_identity g)"
    by (auto simp: group_json_def candidate_keys_def)
  have new: "case gr_identity g of None \<Rightarrow> True | Some i \<Rightarrow> i \<notin> set named"
    using Cons.prems by (auto simp: ranking_ok_def split: option.splits)
  have max: "list_max (map (snd \<circ> (\<lambda>m. (m_rep m, m_similarity m))) (gr_members g)) = best_similarity g"
    by (simp add: best_similarity_def comp_def)
  have hd: "fst (hd (map (\<lambda>m. (m_rep m, m_similarity m)) (gr_members g))) = m_rep (hd (gr_members g))"
    using g(1) by (simp add: hd_map)
  have rest': "read_candidates spelt (int n + 1) (map (\<lambda>a. group_json (fst a) (snd a)) (zip [Suc n..<Suc (n + length gs)] gs))
      (seen @ map m_rep (gr_members g)) ?named =
    Inr (map (\<lambda>a. candidate_row (fst a) (snd a)) (zip [Suc n..<Suc (n + length gs)] gs))"
    using rest by (simp add: case_prod_beta' del: upt_Suc)
  have up: "[n..<n + length (g # gs)] = n # [Suc n..<Suc n + length gs]" by (simp add: upt_rec)
  show ?case
    unfolding up by (simp add: case_prod_beta' row ms g new max hd rest' is_similarity_def best_similarity_range [OF g] candidate_row_def del: upt_Suc)
qed simp

lemma read_all_candidates:
  assumes "ranking_ok [] [] (as_groups a)" and "json_field ''candidates'' v = field_candidates"
    and "field_candidates = JList (map (\<lambda>(rank, g). group_json rank g) (zip [1..<Suc (length (as_groups a))] (as_groups a)))"
  shows "candidates_of spelt v = Inr (map (\<lambda>(rank, g). candidate_row rank g) (zip [1..<Suc (length (as_groups a))] (as_groups a)))"
  using read_candidates_json [OF assms(1), of spelt 1] assms(2,3) by (simp add: candidates_of_def del: upt_Suc)

lemma count_list_identities:
  "count_list (concat (map (\<lambda>g. case gr_identity g of None \<Rightarrow> [] | Some i \<Rightarrow> [i]) gs)) i =
     length (filter (\<lambda>g. gr_identity g = Some i) gs)"
  by (induction gs) (auto split: option.splits)

lemma distinct_if_count_le: "(\<And>x. count_list xs x \<le> 1) \<Longrightarrow> distinct xs"
proof (induction xs)
  case (Cons x xs)
  have "x \<notin> set xs"
    using Cons.prems [of x] by (simp add: count_list_0_iff)
  moreover have "distinct xs"
  proof (rule Cons.IH)
    show "count_list xs y \<le> 1" for y using Cons.prems [of y] by (simp split: if_splits)
  qed
  ultimately show ?case by simp
qed simp

lemma ranking_ok_assess:
  assumes "distinct (map cd_rep (rv_candidates rv))"
  shows "ranking_ok [] [] (as_groups (assess rv q))"
proof -
  let ?gs = "as_groups (assess rv q)" and ?cs = "rv_candidates rv"
  note parts = assess_partitions_the_candidates [of rv q]
  have reps: "concat (map (\<lambda>g. map m_rep (gr_members g)) ?gs) = map m_rep (concat (map gr_members ?gs))"
    by (simp add: map_concat comp_def)
  have "mset (map m_rep (concat (map gr_members ?gs))) = image_mset m_rep (image_mset member_of (mset ?cs))"
    using parts by simp
  also have "\<dots> = mset (map cd_rep ?cs)" by (simp add: multiset.map_comp comp_def member_of_def)
  finally have "distinct (map m_rep (concat (map gr_members ?gs)))"
    using assms by (metis mset_eq_imp_distinct_iff)
  moreover have "distinct (concat (map (\<lambda>g. case gr_identity g of None \<Rightarrow> [] | Some i \<Rightarrow> [i]) ?gs))"
    using parts by (intro distinct_if_count_le) (simp add: count_list_identities)
  moreover have "gr_members g \<noteq> [] \<and> (\<forall>m\<in>set (gr_members g). -1 \<le> m_similarity m \<and> m_similarity m \<le> 1)"
    if "g \<in> set ?gs" for g
    using that group_of_nonempty [of _ ?cs] unfolding set_groups
    by (auto simp: set_members member_of_def similarity_ge similarity_le_one)
  ultimately show ?thesis by (simp add: ranking_ok_def reps)
qed

lemma length_members_assess:
  "sum_list (map (\<lambda>g. length (gr_members g)) (as_groups (assess rv q))) = length (rv_candidates rv)"
proof -
  have "length (concat (map gr_members (as_groups (assess rv q)))) = length (rv_candidates rv)"
    using assess_partitions_the_candidates [of rv q] by (metis size_mset size_image_mset)
  then show ?thesis by (simp add: length_concat comp_def)
qed

lemma groups_at_most_members:
  "(\<forall>g\<in>set gs. gr_members g \<noteq> []) \<Longrightarrow> length gs \<le> sum_list (map (\<lambda>g. length (gr_members g)) gs)"
  by (induction gs) (auto simp: Suc_le_eq add_strict_increasing)

lemma entry_evidence_fields:
  "has_keys (entry_evidence dec ident) evidence_keys"
  "is_object (entry_evidence dec ident)"
  "json_field ''schema_version'' (entry_evidence dec ident) = JInt 1"
  "json_field ''outcome'' (entry_evidence dec ident) = JStr (outcome_value (d_outcome dec))"
  "json_field ''reason'' (entry_evidence dec ident) = JStr (reason_value (d_reason dec))"
  "json_field ''identity_id'' (entry_evidence dec ident) = json_uuid_opt ident"
  "json_field ''assessment_version'' (entry_evidence dec ident) = JStr (as_version (d_assessment dec))"
  "json_field ''interpretation'' (entry_evidence dec ident) = JStr (as_interpretation (d_assessment dec))"
  "json_field ''representation_space_id'' (entry_evidence dec ident) = JUuid (as_space (d_assessment dec))"
  "json_field ''quality'' (entry_evidence dec ident) = JObj [(''detection_score'', JFloat (as_quality (d_assessment dec)))]"
  "json_field ''retrieval'' (entry_evidence dec ident) =
     JObj [(''requested_k'', JInt (int (as_k (d_assessment dec)))), (''returned'', JInt (int (as_returned (d_assessment dec)))),
       (''dropped'', JInt (as_dropped (d_assessment dec))), (''converged'', JBool (as_converged (d_assessment dec)))]"
  "json_field ''candidates'' (entry_evidence dec ident) =
     JList (map (\<lambda>(rank, g). group_json rank g) (zip [1..<Suc (length (as_groups (d_assessment dec)))] (as_groups (d_assessment dec))))"
  "json_field ''margin'' (entry_evidence dec ident) = (case margin (d_assessment dec) of None \<Rightarrow> JNull | Some m \<Rightarrow> JFloat m)"
  "json_field ''policy'' (entry_evidence dec ident) = policy_json (d_policy dec)"
  by (auto simp: entry_evidence_def evidence_payload_def json_merge_def Let_def evidence_keys_def simp del: upt_Suc)

lemma decide_keeps: "d_assessment (decide p a) = a" "d_policy (decide p a) = p"
  by (simp_all add: decide_def abstain_def create_def split: list.splits option.splits)

lemma decide_reason: "d_reason (decide p a) \<in> set (reasons_by_outcome (d_outcome (decide p a)))"
  by (simp add: decide_def abstain_def create_def split: list.splits option.splits)

lemma margin_error_assess:
  assumes "json_field ''candidates'' v = JList (map (\<lambda>(rank, g). group_json rank g) (zip [1..<Suc (length (as_groups a))] (as_groups a)))"
    and "json_field ''margin'' v = (case margin a of None \<Rightarrow> JNull | Some m \<Rightarrow> JFloat m)"
  shows "margin_error v (length (as_groups a)) = None"
proof (cases "as_groups a")
  case (Cons g gs)
  show ?thesis
  proof (cases gs)
    case (Cons h rest)
    with \<open>as_groups a = g # gs\<close> have gs: "as_groups a = g # h # rest" by simp
    have "[1..<Suc (length (as_groups a))] = 1 # 2 # [3..<Suc (length (as_groups a))]"
      using gs by (simp add: upt_rec numeral_eq_Suc del: upt_Suc)
    then show ?thesis
      using assms gs by (simp add: margin_error_def margin_def Let_def isclose_def group_json_def del: upt_Suc)
  qed (use assms \<open>as_groups a = g # gs\<close> in \<open>simp add: margin_error_def margin_def\<close>)
qed (use assms in \<open>simp add: margin_error_def margin_def\<close>)

lemma group_members_json [simp]: "json_field ''members'' (group_json n g) = JList (map member_json (gr_members g))"
  by (simp add: group_json_def)

lemma read_evidence_entry:
  assumes "policy_ok p" and "0 \<le> q" and "q \<le> 1" and "2 \<le> rv_k rv" and "0 \<le> rv_dropped rv"
    and few: "length (rv_candidates rv) \<le> rv_k rv" and once: "distinct (map cd_rep (rv_candidates rv))"
    and dec: "dec = decide p (assess rv q)"
  shows "read_evidence spelt (entry_evidence dec ident) (d_outcome dec) (d_reason dec) ident = Inr (entry_evidence dec ident)"
proof -
  let ?v = "entry_evidence dec ident" and ?a = "assess rv q"
  have keeps: "d_assessment dec = ?a" "d_policy dec = p" by (simp_all add: dec decide_keeps)
  note fields = entry_evidence_fields [of dec ident, unfolded keeps]
  have "policy_of (json_field ''policy'' ?v) (text_of (json_field ''version'' (json_field ''policy'' ?v))) = p"
    by (simp add: fields policy_json_def policy_of_def)
  moreover have "semantic_fields_ok ?v"
    using assms(2-5) by (auto simp: semantic_fields_ok_def fields policy_json_def natural_def assess_def split: option.splits)
  moreover have cs: "candidates_of spelt ?v =
      Inr (map (\<lambda>(rank, g). candidate_row rank g) (zip [1..<Suc (length (as_groups ?a))] (as_groups ?a)))"
    by (rule read_all_candidates [OF ranking_ok_assess [OF once] fields(12) refl])
  moreover have "margin_error ?v (length (as_groups ?a)) = None"
    by (rule margin_error_assess [OF fields(12,13)])
  moreover have "retrieval_ok ?v (length (as_groups ?a))"
  proof -
    have "length (as_groups ?a) \<le> length (rv_candidates rv)"
      using groups_at_most_members [of "as_groups ?a"] ranking_ok_assess [OF once, of q] length_members_assess [of rv q]
      by (simp add: ranking_ok_def)
    moreover have "map (\<lambda>c. length (json_items (json_field ''members'' c))) (map (\<lambda>(rank, g). group_json rank g)
        (zip [1..<Suc (length (as_groups ?a))] (as_groups ?a))) = map (\<lambda>g. length (gr_members g)) (as_groups ?a)"
      by (rule nth_equalityI) (simp_all del: upt_Suc)
    ultimately show ?thesis
      using assms(4) few length_members_assess [of rv q] by (simp add: retrieval_ok_def fields assess_def Let_def)
  qed
  moreover have "as_version ?a = ''recognition-assessment-v2''" "as_interpretation ?a = ''COSINE_UNCALIBRATED''"
    by (simp_all add: assess_def)
  ultimately show ?thesis
    using assms(1) by (simp add: read_evidence_def fields(1-9) del: upt_Suc)
qed

text \<open>
  C16. What the executor writes for a face is what acceptance reads: for a coherent policy, a quality
  and a shortlist within their ranges, the entry of a decision is accepted by the reader of the FINAL
  checkpoint and gives back its face, its outcome, its reason, the identity proposed and its evidence.
\<close>

theorem decision_entry_reads_back:
  assumes "policy_ok p" and "0 \<le> q" and "q \<le> 1" and "2 \<le> rv_k rv" and "0 \<le> rv_dropped rv"
    and "length (rv_candidates rv) \<le> rv_k rv" and "distinct (map cd_rep (rv_candidates rv))"
  shows "read_decision spelt (decision_entry ob r (decide p (assess rv q)) ident) =
    Inr \<lparr>fd_observation = ob, fd_rep = r, fd_outcome = d_outcome (decide p (assess rv q)),
         fd_reason = d_reason (decide p (assess rv q)), fd_identity = ident,
         fd_evidence = entry_evidence (decide p (assess rv q)) ident\<rparr>"
proof -
  have "has_keys (decision_entry ob r d ident) decision_keys" for d
    by (auto simp: decision_entry_def decision_keys_def)
  then show ?thesis
    using decide_reason [of p "assess rv q"] read_evidence_entry [OF assms refl, of spelt ident]
    by (simp add: read_decision_def) (simp add: decision_entry_def)
qed

lemma decision_entry_reads_back_witness:
  "read_decision (\<lambda>_. None) (decision_entry 1 2 (decide sample_policy (assess sample_retrieval 1)) (Some 7)) =
   Inr \<lparr>fd_observation = 1, fd_rep = 2, fd_outcome = MATCH_EXISTING, fd_reason = MATCHED, fd_identity = Some 7,
        fd_evidence = entry_evidence (decide sample_policy (assess sample_retrieval 1)) (Some 7)\<rparr>"
  using decision_entry_reads_back [of sample_policy 1 sample_retrieval "\<lambda>_. None" 1 2 "Some 7"] sample_policy_ok
  by (simp add: sample_match) (simp add: sample_retrieval_def)

end
