(* ===== verification/Acceptance.thy ===== *)
theory Acceptance
  imports Final IdentityLife Sources
begin

text \<open>
  The one boundary at which a processed source becomes authoritative
  (\<open>backend/app/processing/accept_run.py\<close>). Acceptance reads
  the FINAL checkpoint (theory \<open>Final\<close>), checks it against the private output and the live memory,
  recomputes every decision from its evidence, and then commits all of it: identities are activated,
  representations become retrievable, occurrences and evidence are written, the observations become
  ACTIVE, the source points to the run, the run and its job are COMPLETED. The whole is one write
  transaction: an error is \<open>Inl\<close> and nothing is written. \<open>ids\<close> and \<open>clock\<close> are the successive results of
  \<open>new_id()\<close> and \<open>clock()\<close>.
\<close>

section \<open>What the run was configured with, and what it belongs to\<close>

definition configuration_snapshot :: "run \<Rightarrow> db \<Rightarrow> accept_error + snapshot" where
  "configuration_snapshot p d =
     (case snapshot_get (snapshots d) (p_snapshot p) of
        None \<Rightarrow> Inl (Refused ''processing run has an unsupported configuration snapshot'')
      | Some n \<Rightarrow>
          bindE (require (n_version n = 1 \<and> is_object (n_json n) \<and> json_eq (json_field ''schema_version'' (n_json n)) (JInt 1))
                   ''processing run has an unsupported configuration snapshot'') (\<lambda>_. Inr n))"

definition acceptance_context :: "run \<Rightarrow> db \<Rightarrow> accept_error + source \<times> job" where
  "acceptance_context p d =
     (case (tab_get c_id (sources d) (p_source p),
            filter (\<lambda>j. j_run j = Some (p_id p) \<and> j_type j = PROCESS_SOURCE) (jobs d)) of
        (Some c, [j]) \<Rightarrow> Inr (c, j)
      | _ \<Rightarrow> Inl (Refused ''processing source or job is no longer valid''))"

definition source_acceptable :: "source \<Rightarrow> db \<Rightarrow> accept_error + unit" where
  "source_acceptable c d =
     require (c_kind c = S_IMAGE \<and> c_state c = S_ACTIVE \<and>
         (case tab_get f_id (artifacts d) (c_original c) of None \<Rightarrow> False | Some f \<Rightarrow> f_state f = A_AVAILABLE))
       ''processing source or original is no longer valid''"

section \<open>Does the decision follow from its evidence?\<close>

fun fields_of :: "json \<Rightarrow> (string \<times> json) list" where
  "fields_of (JObj fs) = fs"
| "fields_of _ = []"

definition identity_decision_ok :: "run \<Rightarrow> final_decision \<Rightarrow> rep \<Rightarrow> db \<Rightarrow> accept_error + unit" where
  "identity_decision_ok p x r d =
     (if fd_outcome x = ABSTAIN
      then require (fd_identity x = None \<and> r_identity r = None) ''ABSTAIN must not name an identity''
      else bindE (require (fd_identity x \<noteq> None \<and> r_identity r = fd_identity x)
                    ''identity decision does not agree with its representation'') (\<lambda>_.
           case tab_get i_id (identities d) (the (fd_identity x)) of
             None \<Rightarrow> Inl (Refused ''decision identity does not exist'')
           | Some y \<Rightarrow>
               if fd_outcome x = CREATE_NEW
               then require (i_state y = I_PENDING \<and> i_run y = Some (p_id p)) ''CREATE_NEW must name this run's pending identity''
               else require (i_state y = I_ACTIVE) ''MATCH_EXISTING must name an ACTIVE identity''))"

text \<open>A member of the evidence is still what the evidence says it is.\<close>

definition global_identity_ok :: "uuid option \<Rightarrow> db \<Rightarrow> bool" where
  "global_identity_ok ident d \<longleftrightarrow>
     (case ident of None \<Rightarrow> True | Some i \<Rightarrow>
        (case tab_get i_id (identities d) i of None \<Rightarrow> False | Some y \<Rightarrow> i_state y = I_ACTIVE))"

definition local_identity_ok :: "run \<Rightarrow> uuid option \<Rightarrow> db \<Rightarrow> bool" where
  "local_identity_ok p ident d \<longleftrightarrow>
     (case ident of None \<Rightarrow> True | Some i \<Rightarrow>
        (case tab_get i_id (identities d) i of None \<Rightarrow> False
         | Some y \<Rightarrow> i_state y = I_ACTIVE \<or> (i_state y = I_PENDING \<and> i_run y = Some (p_id p))))"

definition authoritative :: "run \<Rightarrow> rep \<Rightarrow> uuid option \<Rightarrow> db \<Rightarrow> member \<Rightarrow> bool" where
  "authoritative p r ident d m \<longleftrightarrow>
     (case tab_get r_id (reps d) (m_rep m) of None \<Rightarrow> False
      | Some s \<Rightarrow> r_id s \<noteq> r_id r \<and> r_space s = r_space r \<and> r_identity s = ident \<and>
          (m_pool m = GLOBAL \<longrightarrow> r_state s = R_ACTIVE \<and> global_identity_ok ident d) \<and>
          (m_pool m = RUN_LOCAL \<longrightarrow> r_state s = R_PENDING \<and> r_run s = p_id p \<and> local_identity_ok p ident d))"

definition read_member :: "(string \<Rightarrow> uuid option) \<Rightarrow> json \<Rightarrow> accept_error + member" where
  "read_member spelt v =
     bindE (read_uuid spelt (json_field ''representation_id'' v)) (\<lambda>i.
       Inr \<lparr>m_rep = i, m_pool = (if json_field ''pool'' v = JStr ''GLOBAL'' then GLOBAL else RUN_LOCAL),
            m_similarity = the_number (json_field ''similarity'' v)\<rparr>)"

definition read_group :: "(string \<Rightarrow> uuid option) \<Rightarrow> run \<Rightarrow> rep \<Rightarrow> db \<Rightarrow> json \<Rightarrow> accept_error + grp" where
  "read_group spelt p r d v =
     bindE (read_uuid_opt spelt (json_field ''identity_id'' v)) (\<lambda>ident.
     bindE (read_all (\<lambda>m. bindE (read_member spelt m) (\<lambda>m.
               bindE (require (authoritative p r ident d m) ''FINAL checkpoint candidate member is not authoritative'')
                 (\<lambda>_. Inr m))) (json_items (json_field ''members'' v))) (\<lambda>ms.
     bindE (require (sort_key member_order ms = ms) ''FINAL checkpoint candidate members are not best-first'') (\<lambda>_.
       Inr \<lparr>gr_identity = ident, gr_members = ms\<rparr>)))"

definition read_groups :: "(string \<Rightarrow> uuid option) \<Rightarrow> run \<Rightarrow> rep \<Rightarrow> db \<Rightarrow> json \<Rightarrow> accept_error + grp list" where
  "read_groups spelt p r d v =
     bindE (read_all (read_group spelt p r d) (json_items (json_field ''candidates'' v))) (\<lambda>gs.
     bindE (require (sort_key group_order gs = gs) ''FINAL checkpoint candidates are not best-first'') (\<lambda>_. Inr gs))"

definition evidence_policy :: "json \<Rightarrow> policy" where
  "evidence_policy v = (let q = json_field ''policy'' v in policy_of q (text_of (json_field ''version'' q)))"

definition evidence_assessment :: "uuid \<Rightarrow> json \<Rightarrow> json \<Rightarrow> grp list \<Rightarrow> assessment" where
  "evidence_assessment space quality v gs =
     (let retrieval = json_field ''retrieval'' v in
      \<lparr>as_version = text_of (json_field ''assessment_version'' v), as_interpretation = text_of (json_field ''interpretation'' v),
       as_space = space, as_quality = the_number (json_field ''detection_score'' quality),
       as_k = nat (the (int_of (json_field ''requested_k'' retrieval))),
       as_returned = nat (the (int_of (json_field ''returned'' retrieval))),
       as_dropped = the (int_of (json_field ''dropped'' retrieval)),
       as_converged = (json_field ''converged'' retrieval = JBool True), as_groups = gs\<rparr>)"

definition reasoned_decision_ok ::
  "(string \<Rightarrow> uuid option) \<Rightarrow> run \<Rightarrow> final_decision \<Rightarrow> rep \<Rightarrow> db \<Rightarrow> accept_error + unit" where
  "reasoned_decision_ok spelt p x r d =
     (let v = fd_evidence x; policy = evidence_policy v in
     bindE (configuration_snapshot p d) (\<lambda>n.
     bindE (require (json_eq (json_field ''decision_policy'' (n_json n))
                (JObj (json_merge [(''schema_version'', JInt 1)] (fields_of (json_field ''policy'' v)))))
              ''FINAL checkpoint policy does not match the frozen run configuration'') (\<lambda>_.
     let quality = (case tab_get o_id (observations d) (fd_observation x) of None \<Rightarrow> JNull | Some o' \<Rightarrow> o_quality o') in
     bindE (require (is_object quality \<and> json_eq (json_field ''schema_version'' quality) (JInt 1) \<and>
                json_eq (json_field ''detection_score'' quality) (json_field ''detection_score'' (json_field ''quality'' v)))
              ''FINAL checkpoint quality does not match its private observation'') (\<lambda>_.
     bindE (read_groups spelt p r d v) (\<lambda>gs.
     bindE (read_uuid spelt (json_field ''representation_space_id'' v)) (\<lambda>space.
     let expected = decide policy (evidence_assessment space quality v gs) in
       require (d_outcome expected = fd_outcome x \<and> d_reason expected = fd_reason x \<and>
          (fd_outcome x = MATCH_EXISTING \<longrightarrow> d_identity expected = fd_identity x))
         ''FINAL checkpoint decision does not follow its evidence''))))))"

section \<open>Is the private output what FINAL describes?\<close>

definition decision_ok :: "(string \<Rightarrow> uuid option) \<Rightarrow> run \<Rightarrow> db \<Rightarrow> final_decision \<Rightarrow> accept_error + unit" where
  "decision_ok spelt p d x =
     (case find (\<lambda>r. r_id r = fd_rep x \<and> r_run r = p_id p) (reps d) of
        None \<Rightarrow> Inl (Refused ''FINAL checkpoint does not name exactly the private representations'')
      | Some r \<Rightarrow>
          bindE (require (r_state r = R_PENDING \<and> r_obs r = fd_observation x \<and> r_vector r \<noteq> None \<and>
                    json_field ''representation_space_id'' (fd_evidence x) = JUuid (r_space r))
                   ''a representation is not the private output described by FINAL'') (\<lambda>_.
          bindE (identity_decision_ok p x r d) (\<lambda>_. reasoned_decision_ok spelt p x r d)))"

definition private_output_ok :: "(string \<Rightarrow> uuid option) \<Rightarrow> run \<Rightarrow> final_decision list \<Rightarrow> db \<Rightarrow> accept_error + unit" where
  "private_output_ok spelt p ds d =
     bindE (require (set (map o_id (filter (\<lambda>o'. o_run o' = p_id p \<and> o_source o' = p_source p \<and> o_state o' = O_PENDING) (observations d)))
                       = set (map fd_observation ds))
              ''FINAL checkpoint does not name exactly the private observations'') (\<lambda>_.
     bindE (require (set (map r_id (filter (\<lambda>r. r_run r = p_id p) (reps d))) = set (map fd_rep ds))
              ''FINAL checkpoint does not name exactly the private representations'') (\<lambda>_.
     bindE (read_all (decision_ok spelt p d) ds) (\<lambda>_. Inr ())))"

section \<open>Making one decision authoritative\<close>

definition write_refused :: "repo_error + 'a \<Rightarrow> accept_error + 'a" where
  "write_refused = map_sum WriteRefused id"

definition identity_refused :: "'a outcome_of \<Rightarrow> accept_error + 'a" where
  "identity_refused = map_sum IdentityRefused id"

definition accepted_occurrence :: "uuid \<Rightarrow> run \<Rightarrow> source \<Rightarrow> uuid \<Rightarrow> uuid \<Rightarrow> time \<Rightarrow> occurrence" where
  "accepted_occurrence i p c ident ob now =
     \<lparr>oc_id = i, oc_source = c_id c, oc_identity = ident, oc_run = p_id p, oc_face = Some ob, oc_kind = OC_IMAGE,
      oc_state = OC_ACTIVE, oc_created = now, oc_activated = Some now\<rparr>"

definition add_accepted_occurrence :: "uuid \<Rightarrow> run \<Rightarrow> source \<Rightarrow> uuid \<Rightarrow> uuid \<Rightarrow> time \<Rightarrow> db \<Rightarrow> accept_error + db" where
  "add_accepted_occurrence i p c ident ob now d =
     write_refused (occurrence_add (accepted_occurrence i p c ident ob now) [ob] d)"

text \<open>
  An abstention: the representation becomes ACTIVE without an identity, with its evidence and the \<open>ADD\<close>
  the index is owed.
\<close>

definition unresolved :: "int \<Rightarrow> time \<Rightarrow> rep \<Rightarrow> rep" where
  "unresolved k now r = r\<lparr>r_state := R_ACTIVE, r_key := Some k, r_activated := Some now\<rparr>"

definition accept_abstention ::
  "run \<Rightarrow> source \<Rightarrow> final_decision \<Rightarrow> evidence_candidate list \<Rightarrow> time \<Rightarrow> id_supply \<Rightarrow> db \<Rightarrow> accept_error + db" where
  "accept_abstention p c x cands now ids d =
     (case tab_get r_id (reps d) (fd_rep x) of
        None \<Rightarrow> Inl PythonTypeError   \<comment> \<open>the \<open>assert\<close>\<close>
      | Some r \<Rightarrow>
          let (k, qs) = allocate_ann_key (r_space r) (ann_sequences d);
              d1 = d\<lparr>ann_sequences := qs, reps := tab_update (\<lambda>s. r_id s = fd_rep x) (unresolved k now) (reps d)\<rparr>;
              body = json_merge [(''representation_id'', JUuid (r_id r)), (''ann_key'', JInt k)] (fields_of (fd_evidence x));
              e = new_evidence (ids 0) RECOGNITION_ABSTAINED (Some (p_id p)) (Some (c_id c)) None None 1 (JObj body) now
          in bindE (write_refused (evidence_append e [(r_id r, ROLE_SUBJECT)] cands d1)) (\<lambda>d2.
             bindE (write_refused (append_batch [\<lparr>w_rep = r_id r, w_space = r_space r, w_kind = ADD\<rparr>] now (\<lambda>n. ids (Suc n)) d2))
               (\<lambda>(_, d3). Inr d3)))"

definition accept_decision ::
  "(string \<Rightarrow> uuid option) \<Rightarrow> run \<Rightarrow> source \<Rightarrow> time \<Rightarrow> (nat \<Rightarrow> time) \<Rightarrow> id_supply \<Rightarrow> final_decision \<Rightarrow> db \<Rightarrow> accept_error + db"
where
  "accept_decision spelt p c now clock ids x d =
     bindE (candidates_of spelt (fd_evidence x)) (\<lambda>cands.
     let payload = Some (fields_of (fd_evidence x)) in
     case fd_outcome x of
       CREATE_NEW \<Rightarrow>
         (case Option.bind (fd_identity x) (tab_get i_id (identities d)) of
            None \<Rightarrow> Inl PythonTypeError   \<comment> \<open>the two \<open>assert\<close>s\<close>
          | Some y \<Rightarrow>
              bindE (identity_refused (activate_identity (i_id y) (i_rev y) (clock 0) d)) (\<lambda>(_, d1).
              bindE (identity_refused (assign_representation_to_identity (fd_rep x) (i_id y) IDENTITY_CREATED 1 (Some (c_id c))
                       payload cands ids (clock 1) d1)) (\<lambda>(_, d2).
              add_accepted_occurrence (ids 2) p c (i_id y) (fd_observation x) now d2)))
     | MATCH_EXISTING \<Rightarrow>
         (case fd_identity x of
            None \<Rightarrow> Inl PythonTypeError
          | Some i \<Rightarrow>
              bindE (identity_refused (assign_representation_to_identity (fd_rep x) i IDENTITY_MATCHED 1 (Some (c_id c))
                       payload cands ids (clock 0) d)) (\<lambda>(_, d1).
              add_accepted_occurrence (ids 2) p c i (fd_observation x) now d1))
     | ABSTAIN \<Rightarrow> accept_abstention p c x cands now ids d)"

text \<open>How many ids, and how many readings of the clock, one decision draws.\<close>

fun ids_drawn :: "outcome \<Rightarrow> nat" where
  "ids_drawn ABSTAIN = 2"
| "ids_drawn _ = 3"

fun readings :: "outcome \<Rightarrow> nat" where
  "readings CREATE_NEW = 2"
| "readings MATCH_EXISTING = 1"
| "readings ABSTAIN = 0"

fun accept_decisions ::
  "(string \<Rightarrow> uuid option) \<Rightarrow> run \<Rightarrow> source \<Rightarrow> time \<Rightarrow> (nat \<Rightarrow> time) \<Rightarrow> id_supply \<Rightarrow> final_decision list \<Rightarrow> db \<Rightarrow> accept_error + db"
where
  "accept_decisions spelt p c now clock ids [] d = Inr d"
| "accept_decisions spelt p c now clock ids (x # xs) d =
     bindE (accept_decision spelt p c now clock ids x d)
       (accept_decisions spelt p c now (\<lambda>n. clock (n + readings (fd_outcome x))) (\<lambda>n. ids (n + ids_drawn (fd_outcome x))) xs)"

fun activate_observations :: "uuid list \<Rightarrow> db \<Rightarrow> accept_error + db" where
  "activate_observations [] d = Inr d"
| "activate_observations (i # is) d =
     (case observation_transition i [O_PENDING] O_ACTIVE None (observations d) of
        (changed, t) \<Rightarrow>
          bindE (require changed ''an observation changed while accepting'') (\<lambda>_.
            activate_observations is (d\<lparr>observations := t\<rparr>)))"

section \<open>A run that was accepted before\<close>

definition evidence_kind_of :: "outcome \<Rightarrow> evidence_kind" where
  "evidence_kind_of x = (case x of CREATE_NEW \<Rightarrow> IDENTITY_CREATED | MATCH_EXISTING \<Rightarrow> IDENTITY_MATCHED
     | ABSTAIN \<Rightarrow> RECOGNITION_ABSTAINED)"

definition same_candidate :: "evidence_candidate \<Rightarrow> evidence_candidate \<Rightarrow> bool" where
  "same_candidate x y \<longleftrightarrow> ec_rank x = ec_rank y \<and> ec_rep x = ec_rep y \<and> ec_identity x = ec_identity y \<and>
     ec_similarity x = ec_similarity y \<and> ec_decision x = ec_decision y \<and> json_eq (ec_details x) (ec_details y)"

definition decision_evidence :: "run \<Rightarrow> source \<Rightarrow> final_decision \<Rightarrow> rep \<Rightarrow> db \<Rightarrow> evidence list" where
  "decision_evidence p c x r d =
     filter (\<lambda>e. e_run e = Some (p_id p) \<and> e_source e = Some (c_id c) \<and> e_kind e = evidence_kind_of (fd_outcome x) \<and>
        json_eq (e_payload e)
          (JObj (json_merge [(''representation_id'', JUuid (r_id r)), (''ann_key'', case r_key r of None \<Rightarrow> JNull | Some k \<Rightarrow> JInt k)]
                   (fields_of (fd_evidence x)))) \<and>
        e_identity e = fd_identity x) (evidences d)"

definition accepted_artifacts_ok ::
  "(string \<Rightarrow> uuid option) \<Rightarrow> run \<Rightarrow> source \<Rightarrow> final_decision \<Rightarrow> rep \<Rightarrow> db \<Rightarrow> accept_error + unit" where
  "accepted_artifacts_ok spelt p c x r d =
     (case decision_evidence p c x r d of
        [e] \<Rightarrow>
          bindE (require (e_version e = 1) ''completed processing run has incompatible decision evidence'') (\<lambda>_.
          bindE (require (evidence_links (e_id e) (ev_reps d) = [(r_id r, ROLE_SUBJECT)])
                   ''completed processing run has inconsistent decision evidence links'') (\<lambda>_.
          bindE (candidates_of spelt (fd_evidence x)) (\<lambda>expected.
          bindE (require (list_all2 same_candidate (evidence_candidates (e_id e) (ev_candidates d)) expected)
                   ''completed processing run has inconsistent candidate evidence'') (\<lambda>_.
          let ocs = filter (\<lambda>oc. oc_run oc = p_id p \<and> oc_source oc = c_id c \<and>
                list_ex (\<lambda>m. oo_occurrence m = oc_id oc \<and> oo_observation m = fd_observation x) (occ_obs d)) (occurrences d) in
          bindE (if fd_outcome x = ABSTAIN then require (ocs = []) ''accepted ABSTAIN acquired an occurrence''
                 else require (case ocs of [oc] \<Rightarrow> Some (oc_identity oc) = fd_identity x \<and> oc_state oc = OC_ACTIVE \<and> oc_kind oc = OC_IMAGE \<and>
                                    observation_ids (oc_id oc) (occ_obs d) = [fd_observation x] | _ \<Rightarrow> False)
                        ''completed processing run is missing its accepted occurrence'') (\<lambda>_.
          require (length (filter (\<lambda>op. x_rep op = r_id r \<and> x_space op = r_space r \<and> x_kind op = ADD) (index_ops d)) = 1)
            ''completed processing run is missing its ADD operation'')))))
      | _ \<Rightarrow> Inl (Refused ''completed processing run is missing its decision evidence''))"

definition accepted_decision_ok ::
  "(string \<Rightarrow> uuid option) \<Rightarrow> run \<Rightarrow> source \<Rightarrow> db \<Rightarrow> final_decision \<Rightarrow> accept_error + unit" where
  "accepted_decision_ok spelt p c d x =
     (case (tab_get r_id (reps d) (fd_rep x), tab_get o_id (observations d) (fd_observation x)) of
        (Some r, Some o') \<Rightarrow>
          bindE (require (r_state r = R_ACTIVE \<and> o_state o' = O_ACTIVE \<and> r_key r \<noteq> None)
                   ''completed processing run has inconsistent accepted output'') (\<lambda>_.
          bindE (if fd_outcome x = ABSTAIN then require (r_identity r = None) ''accepted ABSTAIN acquired an identity''
                 else require (r_identity r = fd_identity x) ''accepted representation changed identity'') (\<lambda>_.
            accepted_artifacts_ok spelt p c x r d))
      | _ \<Rightarrow> Inl (Refused ''completed processing run has inconsistent accepted output''))"

definition completed_run_ok ::
  "(string \<Rightarrow> uuid option) \<Rightarrow> run \<Rightarrow> source \<Rightarrow> job \<Rightarrow> final_decision list \<Rightarrow> db \<Rightarrow> accept_error + unit" where
  "completed_run_ok spelt p c j ds d =
     bindE (require (c_run c = Some (p_id p) \<and> j_state j = J_COMPLETED) ''completed processing run is missing its accepted owners'') (\<lambda>_.
     bindE (read_all (accepted_decision_ok spelt p c d) ds) (\<lambda>_. Inr ()))"

section \<open>Acceptance\<close>

definition commit_final ::
  "(string \<Rightarrow> uuid option) \<Rightarrow> run \<Rightarrow> source \<Rightarrow> job \<Rightarrow> uuid list \<Rightarrow> final_decision list \<Rightarrow> (nat \<Rightarrow> time) \<Rightarrow> id_supply \<Rightarrow> db \<Rightarrow> accept_error + db"
where
  "commit_final spelt p c j obs ds clock ids d =
     (let now = clock 0 in
      bindE (accept_decisions spelt p c now (\<lambda>n. clock (Suc n)) ids ds d) (\<lambda>d1.
      bindE (activate_observations obs d1) (\<lambda>d2.
      case set_current_run (c_id c) (p_id p) (c_rev c) now d2 of (pointed, d3) \<Rightarrow>
      bindE (require pointed ''source changed while accepting'') (\<lambda>_.
      map_sum RunRefused id (accept_settle p j now d3)))))"

text \<open>\<open>_accept\<close>: True when the run had been accepted before. \<open>run_lock\<close> takes the write lock and reads the row.\<close>

definition accept_run ::
  "(string \<Rightarrow> uuid option) \<Rightarrow> (nat \<Rightarrow> time) \<Rightarrow> id_supply \<Rightarrow> uuid \<Rightarrow> db \<Rightarrow> accept_error + bool \<times> db" where
  "accept_run spelt clock ids i d =
     (case fst (run_lock (runs d) i) of
        None \<Rightarrow> Inl (Refused ''processing run does not exist'')
      | Some p \<Rightarrow>
          bindE (read_final spelt p d) (\<lambda>(obs, ds).
          bindE (configuration_snapshot p d) (\<lambda>_.
          bindE (acceptance_context p d) (\<lambda>(c, j).
          if p_state p = P_COMPLETED then bindE (completed_run_ok spelt p c j ds d) (\<lambda>_. Inr (True, d))
          else
            bindE (require (p_state p = P_FINALIZING) ''processing run is not FINALIZING'') (\<lambda>_.
            bindE (require (j_state j = J_RUNNING) ''processing job is not RUNNING'') (\<lambda>_.
            bindE (source_acceptable c d) (\<lambda>_.
            bindE (private_output_ok spelt p ds d) (\<lambda>_.
            bindE (commit_final spelt p c j obs ds clock ids d) (\<lambda>d'. Inr (False, d'))))))))))"

section \<open>What one decision writes\<close>

text \<open>The tables that no decision touches.\<close>

definition same_work :: "db \<Rightarrow> db \<Rightarrow> bool" where
  "same_work d d' \<longleftrightarrow> jobs d' = jobs d \<and> runs d' = runs d \<and> snapshots d' = snapshots d \<and> segments d' = segments d \<and>
     checkpoints d' = checkpoints d \<and> sources d' = sources d \<and> artifacts d' = artifacts d \<and> spaces d' = spaces d \<and>
     observations d' = observations d"

lemma same_work_refl [simp]: "same_work d d"
  by (simp add: same_work_def)

lemma same_work_trans: "same_work d d' \<Longrightarrow> same_work d' d'' \<Longrightarrow> same_work d d''"
  by (simp add: same_work_def)

lemma write_refused_Inr [simp]: "write_refused m = Inr y \<longleftrightarrow> m = Inr y"
  by (cases m) (auto simp: write_refused_def)

lemma identity_refused_Inr [simp]: "identity_refused m = Inr y \<longleftrightarrow> m = Inr y"
  by (cases m) (auto simp: identity_refused_def)

text \<open>
  What a decision leaves: its representation is ACTIVE under the identity it names, with a key and an
  \<open>ADD\<close> owed; one evidence row of its kind; one occurrence of its face if it names an identity; nothing of
  any other representation.
\<close>

definition done_rep :: "final_decision \<Rightarrow> rep \<Rightarrow> rep \<Rightarrow> bool" where
  "done_rep x r r' \<longleftrightarrow> (\<exists>k t. r' = r\<lparr>r_state := R_ACTIVE, r_identity := fd_identity x, r_key := Some k, r_activated := Some t\<rparr>)"

definition done_evidence :: "run \<Rightarrow> source \<Rightarrow> final_decision \<Rightarrow> rep \<Rightarrow> evidence \<Rightarrow> bool" where
  "done_evidence p c x r' e \<longleftrightarrow> (\<exists>t. e = new_evidence (e_id e) (evidence_kind_of (fd_outcome x)) (Some (p_id p)) (Some (c_id c))
     (fd_identity x) None 1
     (JObj (json_merge [(''representation_id'', JUuid (r_id r')), (''ann_key'', case r_key r' of None \<Rightarrow> JNull | Some k \<Rightarrow> JInt k)]
        (fields_of (fd_evidence x)))) t)"

definition done_occurrences :: "run \<Rightarrow> source \<Rightarrow> final_decision \<Rightarrow> time \<Rightarrow> occurrence list \<Rightarrow> bool" where
  "done_occurrences p c x now ocs \<longleftrightarrow>
     (if fd_outcome x = ABSTAIN then ocs = []
      else \<exists>i ident. fd_identity x = Some ident \<and> ocs = [accepted_occurrence i p c ident (fd_observation x) now])"

definition queued_add :: "uuid \<Rightarrow> uuid \<Rightarrow> index_op list \<Rightarrow> index_op list \<Rightarrow> bool" where
  "queued_add i space t t' \<longleftrightarrow>
     ADD \<in> desired t' i \<and> (\<forall>j. j \<noteq> i \<longrightarrow> filter (\<lambda>y. x_rep y = j) t' = filter (\<lambda>y. x_rep y = j) t) \<and>
     (filter (\<lambda>y. x_rep y = i) t = [] \<longrightarrow>
        (\<exists>y. filter (\<lambda>y. x_rep y = i) t' = [y] \<and> x_space y = space \<and> x_kind y = ADD))"

definition decision_done ::
  "(string \<Rightarrow> uuid option) \<Rightarrow> run \<Rightarrow> source \<Rightarrow> time \<Rightarrow> final_decision \<Rightarrow> evidence \<Rightarrow> occurrence list \<Rightarrow> db \<Rightarrow> db \<Rightarrow> bool" where
  "decision_done spelt p c now x e ocs d d' \<longleftrightarrow>
     memory_ok d' \<and> same_work d d' \<and>
     (\<exists>r r' cands. tab_get r_id (reps d) (fd_rep x) = Some r \<and> done_rep x r r' \<and> done_evidence p c x r' e \<and>
        candidates_of spelt (fd_evidence x) = Inr cands \<and>
        reps d' = tab_update (\<lambda>s. r_id s = fd_rep x) (\<lambda>_. r') (reps d) \<and>
        tab_get e_id (evidences d) (e_id e) = None \<and> evidences d' = evidences d @ [e] \<and>
        \<not> list_ex (\<lambda>l. er_evidence l = e_id e) (ev_reps d) \<and> ev_reps d' = ev_reps d @ link_rows (e_id e) [(fd_rep x, ROLE_SUBJECT)] \<and>
        \<not> list_ex (\<lambda>y. ec_evidence y = e_id e) (ev_candidates d) \<and>
        ev_candidates d' = ev_candidates d @ candidate_rows (e_id e) cands \<and>
        queued_add (fd_rep x) (r_space r) (index_ops d) (index_ops d')) \<and>
     done_occurrences p c x now ocs \<and> occurrences d' = occurrences d @ ocs \<and>
     \<not> list_ex (\<lambda>m. oo_occurrence m \<in> oc_id ` set ocs) (occ_obs d) \<and>
     occ_obs d' = occ_obs d @ concat (map (\<lambda>oc. members_of (oc_id oc) [fd_observation x]) ocs)"

lemma tab_update_const_key:
  assumes "tab_keyed key t" and "tab_get key t i = Some r"
  shows "tab_update (\<lambda>s. key s = i) f t = tab_update (\<lambda>s. key s = i) (\<lambda>_. f r) t"
  unfolding tab_update_def
  by (rule map_cong [OF refl]) (use assms in \<open>auto dest: tab_get_SomeD tab_get_in\<close>)

lemma tab_update_only:
  assumes "tab_keyed key t" and "tab_get key t i = Some r" and "P r" and "\<And>s. P s \<Longrightarrow> key s = i"
  shows "tab_update P f t = tab_update (\<lambda>s. key s = i) (\<lambda>_. f r) t"
  unfolding tab_update_def
proof (rule map_cong [OF refl])
  fix s assume s: "s \<in> set t"
  show "(if P s then f s else s) = (if key s = i then f r else s)"
  proof (cases "key s = i")
    case True
    then have "s = r" using tab_get_in [OF assms(1) s] assms(2) by simp
    with assms(3) True show ?thesis by simp
  qed (use assms(4) in auto)
qed

lemma assign_effect:
  assumes ok: "memory_ok d"
    and run: "assign_representation_to_identity i ident kind 1 source (Some fs) cands ids now d = Inr (r', d')"
  obtains r k qs p f where "tab_get r_id (reps d) i = Some r" "r_state r = R_PENDING" "active_id (identities d) ident"
    "r' = activated ident k now r" "memory_ok d'" "same_standing f"
    "\<not> list_ex (\<lambda>l. er_evidence l = ids 0) (ev_reps d)" "\<not> list_ex (\<lambda>y. ec_evidence y = ids 0) (ev_candidates d)"
    "tab_get e_id (evidences d) (ids 0) = None"
    "d' = d\<lparr>ann_sequences := qs, reps := tab_update (\<lambda>s. r_id s = i) (\<lambda>_. r') (reps d), identities := tab_update p f (identities d),
       evidences := evidences d @ [new_evidence (ids 0) kind (Some (r_run r)) source (Some ident) None 1
          (JObj (json_merge [(''representation_id'', JUuid i), (''ann_key'', JInt k)] fs)) now],
       ev_reps := ev_reps d @ link_rows (ids 0) [(i, ROLE_SUBJECT)], ev_candidates := ev_candidates d @ candidate_rows (ids 0) cands,
       index_ops := index_ops d @ [fresh_op \<lparr>w_rep = r_id r', w_space = r_space r', w_kind = ADD\<rparr> now (ids 1)]\<rparr>"
proof -
  from run obtain r x k qs d2 d3 where st: "tab_get r_id (reps d) i = Some r" "r_state r = R_PENDING"
    "tab_get i_id (identities d) ident = Some x" "i_state x = I_ACTIVE"
    "allocate_ann_key (r_space r) (ann_sequences d) = (k, qs)" and r': "r' = activated ident k now r"
    and touch: "touch_identity ident now None (d\<lparr>ann_sequences := qs,
       reps := tab_update (\<lambda>s. r_id s = i) (activated ident k now) (reps d)\<rparr>) = Inr d2"
    and app: "evidence_append (new_evidence (ids 0) kind (Some (r_run r)) source (Some ident) None 1
          (JObj (json_merge [(''representation_id'', JUuid i), (''ann_key'', JInt k)] fs)) now)
         [(i, ROLE_SUBJECT)] cands d2 = Inr d3"
    and add: "queue_add r' (ids 1) now d3 = Inr d'"
    by (auto simp: assign_representation_to_identity_def bindE_Inr_iff Let_def activated_def [abs_def]
        split: if_splits option.splits prod.splits)
  let ?d1 = "d\<lparr>ann_sequences := qs, reps := tab_update (\<lambda>s. r_id s = i) (activated ident k now) (reps d)\<rparr>"
  have act: "active_id (identities d) ident" using st(3,4) by (simp add: active_id_def)
  obtain p f where f: "same_standing f" "d2 = ?d1\<lparr>identities := tab_update p f (identities ?d1)\<rparr>"
    using touch_identity_standing [OF touch] by blast
  have ok2: "memory_ok d2"
    using activate_rep_ok [OF ok st(1,2) act st(5)] touch by (rule touch_identity_ok)
  have d3: "d3 = d2\<lparr>evidences := evidences d2 @ [new_evidence (ids 0) kind (Some (r_run r)) source (Some ident) None 1
          (JObj (json_merge [(''representation_id'', JUuid i), (''ann_key'', JInt k)] fs)) now],
      ev_reps := ev_reps d2 @ link_rows (ids 0) [(i, ROLE_SUBJECT)], ev_candidates := ev_candidates d2 @ candidate_rows (ids 0) cands\<rparr>"
    and new: "\<not> list_ex (\<lambda>l. er_evidence l = ids 0) (ev_reps d2)" "\<not> list_ex (\<lambda>y. ec_evidence y = ids 0) (ev_candidates d2)"
      "tab_get e_id (evidences d2) (ids 0) = None"
    using app by (auto simp: evidence_append_def Let_def new_evidence_def split: if_splits)
  have "memory_ok d3" using ok2 by (simp add: d3)
  then have ok': "memory_ok d'" by (rule queue_add_ok(1) [OF _ add])
  have d': "d' = d3\<lparr>index_ops := index_ops d3 @ [fresh_op \<lparr>w_rep = r_id r', w_space = r_space r', w_kind = ADD\<rparr> now (ids 1)]\<rparr>"
    using add by (auto simp: queue_add_def split: if_splits)
  have keyed: "tab_keyed r_id (reps d)" using ok by (simp add: memory_ok_def reps_ok_def)
  have upd: "tab_update (\<lambda>s. r_id s = i) (activated ident k now) (reps d) = tab_update (\<lambda>s. r_id s = i) (\<lambda>_. r') (reps d)"
    unfolding r' by (rule tab_update_const_key [OF keyed st(1)])
  show thesis
    using new by (intro that [OF st(1,2) act r' ok' f(1)]) (simp_all add: d' d3 f(2) upd)
qed

lemma queued_add_append:
  "x_rep y = i \<Longrightarrow> x_space y = space \<Longrightarrow> x_kind y = ADD \<Longrightarrow> x_state y = X_PENDING \<Longrightarrow> queued_add i space t (t @ [y])"
  by (auto simp: queued_add_def desired_def pending_op_def)

lemma queued_add_batch:
  assumes "append_batch [\<lparr>w_rep = i, w_space = space, w_kind = ADD\<rparr>] now ids d = Inr (js, d')"
  shows "queued_add i space (index_ops d) (index_ops d')" "\<exists>t. d' = d\<lparr>index_ops := t\<rparr>" "queue_inv (index_ops d) \<Longrightarrow> queue_inv (index_ops d')"
proof -
  let ?w = "\<lparr>w_rep = i, w_space = space, w_kind = ADD\<rparr>"
  have op: "append_op ?w now (ids 0) d = Inr (js, d')"
    using assms by (auto simp: bindE_Inr_iff)
  show "\<exists>t. d' = d\<lparr>index_ops := t\<rparr>"
    using op by (auto simp: append_op_def Let_def split: if_splits)
  show "queue_inv (index_ops d')" if "queue_inv (index_ops d)" using that op by (rule append_op_inv)
  have "ADD \<in> desired (index_ops d') i" using append_op_desired [OF op] by simp
  moreover have "filter (\<lambda>y. x_rep y = j) (index_ops d') = filter (\<lambda>y. x_rep y = j) (index_ops d)" if "j \<noteq> i" for j
  proof -
    have "filter (\<lambda>y. x_rep y = j) (filter (\<lambda>x. \<not> pending_op i REMOVE x) (index_ops d)) = filter (\<lambda>y. x_rep y = j) (index_ops d)"
      using that by (auto simp: pending_op_def intro!: filter_cong)
    with that op show ?thesis by (auto simp: append_op_def Let_def fresh_op_def split: if_splits)
  qed
  moreover have "\<exists>y. filter (\<lambda>y. x_rep y = i) (index_ops d') = [y] \<and> x_space y = space \<and> x_kind y = ADD"
    if none: "filter (\<lambda>y. x_rep y = i) (index_ops d) = []"
  proof -
    have "filter (\<lambda>x. \<not> pending_op i REMOVE x) (index_ops d) = index_ops d"
      using none by (auto simp: filter_id_conv filter_empty_conv pending_op_def)
    moreover have "\<not> list_ex (pending_op i ADD) (index_ops d)"
      using none by (auto simp: list_ex_iff filter_empty_conv pending_op_def)
    ultimately show ?thesis using op none by (auto simp: append_op_def Let_def fresh_op_def split: if_splits)
  qed
  ultimately show "queued_add i space (index_ops d) (index_ops d')" by (auto simp: queued_add_def)
qed

lemma add_occurrence_effect:
  assumes ok: "memory_ok d" and act: "active_id (identities d) ident"
    and run: "add_accepted_occurrence i p c ident ob now d = Inr d'"
  shows "memory_ok d'" and "\<not> list_ex (\<lambda>m. oo_occurrence m = i) (occ_obs d)"
    and "d' = d\<lparr>occurrences := occurrences d @ [accepted_occurrence i p c ident ob now], occ_obs := occ_obs d @ members_of i [ob]\<rparr>"
proof -
  show d': "d' = d\<lparr>occurrences := occurrences d @ [accepted_occurrence i p c ident ob now], occ_obs := occ_obs d @ members_of i [ob]\<rparr>"
    and "\<not> list_ex (\<lambda>m. oo_occurrence m = i) (occ_obs d)"
    using run by (auto simp: add_accepted_occurrence_def occurrence_add_def accepted_occurrence_def split: if_splits)
  have "tab_get oc_id (occurrences d) i = None"
    using run by (auto simp: add_accepted_occurrence_def occurrence_add_def accepted_occurrence_def split: if_splits)
  with ok act show "memory_ok d'"
    by (auto simp: d' memory_ok_def owned_ok_def tab_keyed_append1 tab_get_None_iff accepted_occurrence_def)
qed

lemma activated_obs [simp]: "r_id (activated i k now r) = r_id r" "r_space (activated i k now r) = r_space r"
  by (simp_all add: activated_def)

text \<open>The two outcomes that name an identity.\<close>

lemma assign_done:
  assumes ok: "memory_ok d" and work: "same_work d0 d" "reps d = reps d0" "evidences d = evidences d0" "ev_reps d = ev_reps d0"
      "ev_candidates d = ev_candidates d0" "index_ops d = index_ops d0" "occurrences d = occurrences d0" "occ_obs d = occ_obs d0"
    and ident: "fd_identity x = Some ident" and kind: "evidence_kind_of (fd_outcome x) = kind" "fd_outcome x \<noteq> ABSTAIN"
    and cands: "candidates_of spelt (fd_evidence x) = Inr cands"
    and mine: "\<And>r. tab_get r_id (reps d) (fd_rep x) = Some r \<Longrightarrow> r_run r = p_id p"
    and assign: "assign_representation_to_identity (fd_rep x) ident kind 1 (Some (c_id c)) (Some (fields_of (fd_evidence x))) cands ids t d = Inr (r', d1)"
    and add: "add_accepted_occurrence i p c ident (fd_observation x) now d1 = Inr d'"
  shows "\<exists>e ocs. decision_done spelt p c now x e ocs d0 d'"
proof -
  let ?e = "\<lambda>r k. new_evidence (ids 0) kind (Some (r_run r)) (Some (c_id c)) (Some ident) None 1
      (JObj (json_merge [(''representation_id'', JUuid (fd_rep x)), (''ann_key'', JInt k)] (fields_of (fd_evidence x)))) t"
  obtain r k qs q f where r: "tab_get r_id (reps d) (fd_rep x) = Some r" "r_state r = R_PENDING" "active_id (identities d) ident"
    "r' = activated ident k t r" "memory_ok d1" "same_standing f"
    "\<not> list_ex (\<lambda>l. er_evidence l = ids 0) (ev_reps d)" "\<not> list_ex (\<lambda>y. ec_evidence y = ids 0) (ev_candidates d)"
    "tab_get e_id (evidences d) (ids 0) = None"
    and d1: "d1 = d\<lparr>ann_sequences := qs, reps := tab_update (\<lambda>s. r_id s = fd_rep x) (\<lambda>_. r') (reps d), identities := tab_update q f (identities d),
       evidences := evidences d @ [?e r k], ev_reps := ev_reps d @ link_rows (ids 0) [(fd_rep x, ROLE_SUBJECT)],
       ev_candidates := ev_candidates d @ candidate_rows (ids 0) cands,
       index_ops := index_ops d @ [fresh_op \<lparr>w_rep = r_id r', w_space = r_space r', w_kind = ADD\<rparr> t (ids 1)]\<rparr>"
    by (rule assign_effect [OF ok assign])
  have rid: "r_id r = fd_rep x" using tab_get_SomeD [OF r(1)] by simp
  have act: "active_id (identities d1) ident" using r(3,6) by (simp add: d1 active_id_update)
  note oc = add_occurrence_effect [OF r(5) act add]
  let ?oc = "accepted_occurrence i p c ident (fd_observation x) now"
  have rows: "done_rep x r r'" "done_evidence p c x r' (?e r k)"
    using rid mine [OF r(1)] by (auto simp: done_rep_def done_evidence_def r(4) activated_def ident kind new_evidence_def)
  have ops: "queued_add (fd_rep x) (r_space r) (index_ops d0) (index_ops d')"
    unfolding oc(3) using rid by (simp add: d1 work queued_add_append fresh_op_def r(4))
  have "decision_done spelt p c now x (?e r k) [?oc] d0 d'"
    unfolding decision_done_def
  proof (intro conjI exI)
    show "memory_ok d'" by (rule oc(1))
    show "same_work d0 d'" using work(1) by (simp add: oc(3) d1 same_work_def)
    show "tab_get r_id (reps d0) (fd_rep x) = Some r" using r(1) work(2) by simp
    show "done_rep x r r'" "done_evidence p c x r' (?e r k)" by (rule rows)+
    show "candidates_of spelt (fd_evidence x) = Inr cands" by (rule cands)
    show "queued_add (fd_rep x) (r_space r) (index_ops d0) (index_ops d')" by (rule ops)
    show "done_occurrences p c x now [?oc]" using kind ident by (auto simp: done_occurrences_def)
  qed (use r(7-9) oc(2) in \<open>simp_all add: oc(3) d1 work new_evidence_def accepted_occurrence_def list_ex_iff\<close>)
  then show ?thesis by blast
qed

text \<open>An abstention, and the case distinction.\<close>

lemma abstention_done:
  assumes ok: "memory_ok d" and ident: "fd_identity x = None" and abstains: "fd_outcome x = ABSTAIN"
    and cands: "candidates_of spelt (fd_evidence x) = Inr cands"
    and r: "tab_get r_id (reps d) (fd_rep x) = Some r" "r_state r = R_PENDING" "r_identity r = None"
    and run: "accept_abstention p c x cands now ids d = Inr d'"
  shows "\<exists>e ocs. decision_done spelt p c now x e ocs d d'"
proof -
  obtain k qs where alloc: "allocate_ann_key (r_space r) (ann_sequences d) = (k, qs)" by (cases "allocate_ann_key (r_space r) (ann_sequences d)")
  have rid: "r_id r = fd_rep x" using tab_get_SomeD [OF r(1)] by simp
  let ?d1 = "d\<lparr>ann_sequences := qs, reps := tab_update (\<lambda>s. r_id s = fd_rep x) (unresolved k now) (reps d)\<rparr>"
  let ?e = "new_evidence (ids 0) RECOGNITION_ABSTAINED (Some (p_id p)) (Some (c_id c)) None None 1
     (JObj (json_merge [(''representation_id'', JUuid (r_id r)), (''ann_key'', JInt k)] (fields_of (fd_evidence x)))) now"
  obtain d2 js where app: "evidence_append ?e [(r_id r, ROLE_SUBJECT)] cands ?d1 = Inr d2"
    and add: "append_batch [\<lparr>w_rep = r_id r, w_space = r_space r, w_kind = ADD\<rparr>] now (\<lambda>n. ids (Suc n)) d2 = Inr (js, d')"
    using run by (auto simp: accept_abstention_def r(1) alloc bindE_Inr_iff Let_def)
  have keyed: "tab_keyed r_id (reps d)" using ok by (simp add: memory_ok_def reps_ok_def)
  let ?r' = "activated_as None k now r"
  have same: "unresolved k now r = ?r'" using r(3) by (simp add: unresolved_def activated_as_def)
  have upd: "tab_update (\<lambda>s. r_id s = fd_rep x) (unresolved k now) (reps d) = tab_update (\<lambda>s. r_id s = fd_rep x) (\<lambda>_. ?r') (reps d)"
    using tab_update_const_key [OF keyed r(1), of "unresolved k now"] by (simp add: same)
  have "memory_ok (d\<lparr>ann_sequences := qs, reps := tab_update (\<lambda>s. r_id s = fd_rep x) (activated_as None k now) (reps d)\<rparr>)"
    by (rule activate_rep_as_ok [OF ok r(1,2) _ alloc]) simp
  then have ok1: "memory_ok ?d1"
    using tab_update_const_key [OF keyed r(1), of "activated_as None k now"] by (simp add: upd)
  have d2: "d2 = ?d1\<lparr>evidences := evidences d @ [?e], ev_reps := ev_reps d @ link_rows (ids 0) [(r_id r, ROLE_SUBJECT)],
      ev_candidates := ev_candidates d @ candidate_rows (ids 0) cands\<rparr>"
    and new: "\<not> list_ex (\<lambda>l. er_evidence l = ids 0) (ev_reps d)" "\<not> list_ex (\<lambda>y. ec_evidence y = ids 0) (ev_candidates d)"
      "tab_get e_id (evidences d) (ids 0) = None"
    using app by (auto simp: evidence_append_def Let_def new_evidence_def split: if_splits)
  have ok2: "memory_ok d2" using ok1 by (simp add: d2)
  note q = queued_add_batch [OF add]
  obtain t where d': "d' = d2\<lparr>index_ops := t\<rparr>" using q(2) by blast
  have "memory_ok d'" using ok2 q(3) by (simp add: d' memory_ok_def)
  have rows: "done_rep x r ?r'" "done_evidence p c x ?r' ?e"
    by (auto simp: done_rep_def done_evidence_def activated_as_def ident abstains evidence_kind_of_def new_evidence_def)
  have "decision_done spelt p c now x ?e [] d d'"
    unfolding decision_done_def
  proof (intro conjI exI)
    show "memory_ok d'" by fact
    show "same_work d d'" by (simp add: d' d2 same_work_def)
    show "done_rep x r ?r'" "done_evidence p c x ?r' ?e" by (rule rows)+
    show "queued_add (fd_rep x) (r_space r) (index_ops d) (index_ops d')" using q(1) by (simp add: d2 rid)
    show "done_occurrences p c x now []" using abstains by (simp add: done_occurrences_def)
  qed (use r cands new in \<open>simp_all add: d' d2 upd rid new_evidence_def list_ex_iff\<close>)
  then show ?thesis by blast
qed

lemma activate_identity_frame:
  assumes "activate_identity i e now d = Inr (x, d')"
  shows "\<exists>t. d' = d\<lparr>identities := t\<rparr>"
  using assms by (auto simp: activate_identity_def split: prod.splits if_splits)

lemma accept_decision_done:
  assumes ok: "memory_ok d" and r: "tab_get r_id (reps d) (fd_rep x) = Some r" "r_state r = R_PENDING" "r_run r = p_id p"
    and abstains: "fd_outcome x = ABSTAIN \<Longrightarrow> fd_identity x = None \<and> r_identity r = None"
    and run: "accept_decision spelt p c now clock ids x d = Inr d'"
  shows "\<exists>e ocs. decision_done spelt p c now x e ocs d d'"
proof -
  obtain cands where cands: "candidates_of spelt (fd_evidence x) = Inr cands"
    using run by (auto simp: accept_decision_def bindE_Inr_iff)
  note run = run [unfolded accept_decision_def cands bindE_simps Let_def]
  have mine: "r_run s = p_id p" if "tab_get r_id (reps d) (fd_rep x) = Some s" for s using that r by simp
  show ?thesis
  proof (cases "fd_outcome x")
    case MATCH_EXISTING
    with run obtain i r' d1 where "fd_identity x = Some i"
      "assign_representation_to_identity (fd_rep x) i IDENTITY_MATCHED 1 (Some (c_id c)) (Some (fields_of (fd_evidence x))) cands ids (clock 0) d = Inr (r', d1)"
      "add_accepted_occurrence (ids 2) p c i (fd_observation x) now d1 = Inr d'"
      by (auto simp: bindE_Inr_iff split: option.splits)
    from assign_done [OF ok same_work_refl refl refl refl refl refl refl refl this(1) _ _ cands mine this(2,3)] MATCH_EXISTING
    show ?thesis by (simp add: evidence_kind_of_def)
  next
    case CREATE_NEW
    with run obtain i y z r' d1 d2 where i: "fd_identity x = Some i" "tab_get i_id (identities d) i = Some y"
      and act: "activate_identity (i_id y) (i_rev y) (clock 0) d = Inr (z, d1)"
      and rest: "assign_representation_to_identity (fd_rep x) (i_id y) IDENTITY_CREATED 1 (Some (c_id c)) (Some (fields_of (fd_evidence x))) cands ids (clock 1) d1 = Inr (r', d2)"
      "add_accepted_occurrence (ids 2) p c (i_id y) (fd_observation x) now d2 = Inr d'"
      by (auto simp: bindE_Inr_iff bind_eq_Some_conv split: option.splits)
    have iy: "i_id y = i" using tab_get_SomeD [OF i(2)] by simp
    have ok1: "memory_ok d1" by (rule activate_identity_ok [OF ok act])
    obtain t where d1: "d1 = d\<lparr>identities := t\<rparr>" using activate_identity_frame [OF act] by blast
    have "same_work d d1" by (simp add: d1 same_work_def)
    from assign_done [OF ok1 this _ _ _ _ _ _ _ i(1) _ _ cands _ rest [unfolded iy]] mine CREATE_NEW
    show ?thesis by (simp add: d1 evidence_kind_of_def)
  next
    case ABSTAIN
    with run abstention_done [OF ok _ ABSTAIN cands r(1,2)] abstains show ?thesis by simp
  qed
qed

section \<open>What all the decisions write\<close>

fun decisions_done ::
  "(string \<Rightarrow> uuid option) \<Rightarrow> run \<Rightarrow> source \<Rightarrow> time \<Rightarrow> final_decision list \<Rightarrow> evidence list \<Rightarrow> occurrence list list \<Rightarrow> db \<Rightarrow> db \<Rightarrow> bool"
where
  "decisions_done spelt p c now [] es ocs d d' \<longleftrightarrow> es = [] \<and> ocs = [] \<and> d' = d"
| "decisions_done spelt p c now (x # xs) es ocs d d' \<longleftrightarrow>
     (\<exists>e es' oc ocs' d1. es = e # es' \<and> ocs = oc # ocs' \<and> decision_done spelt p c now x e oc d d1 \<and>
        decisions_done spelt p c now xs es' ocs' d1 d')"

text \<open>What a decision needs: its representation is private output of the run, and an abstention names nobody.\<close>

definition decision_ready :: "run \<Rightarrow> db \<Rightarrow> final_decision \<Rightarrow> bool" where
  "decision_ready p d x \<longleftrightarrow> (\<exists>r. tab_get r_id (reps d) (fd_rep x) = Some r \<and> r_state r = R_PENDING \<and> r_run r = p_id p \<and>
     r_identity r = fd_identity x \<and> (fd_identity x = None \<longleftrightarrow> fd_outcome x = ABSTAIN))"

lemma decision_done_rep:
  assumes "decision_done spelt p c now x e ocs d d'"
  shows "j \<noteq> fd_rep x \<Longrightarrow> tab_get r_id (reps d') j = tab_get r_id (reps d) j"
    and "\<exists>r r'. tab_get r_id (reps d) (fd_rep x) = Some r \<and> tab_get r_id (reps d') (fd_rep x) = Some r' \<and> done_rep x r r' \<and>
      done_evidence p c x r' e"
proof -
  obtain r r' where r: "tab_get r_id (reps d) (fd_rep x) = Some r" "done_rep x r r'" "done_evidence p c x r' e"
    "reps d' = tab_update (\<lambda>s. r_id s = fd_rep x) (\<lambda>_. r') (reps d)"
    using assms unfolding decision_done_def by blast
  have id: "r_id r' = fd_rep x" using r(1,2) by (auto simp: done_rep_def dest: tab_get_SomeD)
  have get: "tab_get r_id (reps d') j = map_option (\<lambda>s. if r_id s = fd_rep x then r' else s) (tab_get r_id (reps d) j)" for j
  proof -
    have "tab_update (\<lambda>s. r_id s = fd_rep x) (\<lambda>_. r') (reps d) = tab_update (\<lambda>s. r_id s = fd_rep x) (\<lambda>s. if r_id s = fd_rep x then r' else s) (reps d)"
      by (simp add: tab_update_def)
    moreover have "tab_get r_id (tab_update (\<lambda>s. r_id s = fd_rep x) (\<lambda>s. if r_id s = fd_rep x then r' else s) (reps d)) j =
        map_option (\<lambda>s. if r_id s = fd_rep x then (if r_id s = fd_rep x then r' else s) else s) (tab_get r_id (reps d) j)"
      by (rule tab_get_update) (simp add: id)
    ultimately show ?thesis unfolding r(4) by (simp cong: if_cong)
  qed
  show "tab_get r_id (reps d') j = tab_get r_id (reps d) j" if "j \<noteq> fd_rep x"
    using get [of j] that by (cases "tab_get r_id (reps d) j") (auto dest: tab_get_SomeD)
  show "\<exists>r r'. tab_get r_id (reps d) (fd_rep x) = Some r \<and> tab_get r_id (reps d') (fd_rep x) = Some r' \<and> done_rep x r r' \<and>
      done_evidence p c x r' e"
    using get [of "fd_rep x"] r tab_get_SomeD [OF r(1)] by auto
qed

lemma accept_decisions_done:
  assumes "memory_ok d" and "distinct (map fd_rep xs)" and "\<forall>x\<in>set xs. decision_ready p d x"
    and "accept_decisions spelt p c now clock ids xs d = Inr d'"
  shows "\<exists>es ocs. decisions_done spelt p c now xs es ocs d d'"
  using assms
proof (induction xs arbitrary: d clock ids)
  case (Cons x xs)
  from Cons.prems(4) obtain d1 where d1: "accept_decision spelt p c now clock ids x d = Inr d1"
    "accept_decisions spelt p c now (\<lambda>n. clock (n + readings (fd_outcome x))) (\<lambda>n. ids (n + ids_drawn (fd_outcome x))) xs d1 = Inr d'"
    by (auto simp: bindE_Inr_iff)
  have "decision_ready p d x" using Cons.prems(3) by simp
  then obtain r where "tab_get r_id (reps d) (fd_rep x) = Some r" "r_state r = R_PENDING" "r_run r = p_id p"
    "fd_outcome x = ABSTAIN \<Longrightarrow> fd_identity x = None \<and> r_identity r = None"
    unfolding decision_ready_def by metis
  from accept_decision_done [OF Cons.prems(1) this d1(1)] obtain e oc where
    did: "decision_done spelt p c now x e oc d d1" by blast
  have "memory_ok d1" using did by (simp add: decision_done_def)
  moreover have "\<forall>y\<in>set xs. decision_ready p d1 y"
  proof
    fix y assume "y \<in> set xs"
    then have "fd_rep y \<in> fd_rep ` set xs" by (rule imageI)
    with Cons.prems(2,3) \<open>y \<in> set xs\<close> have "fd_rep y \<noteq> fd_rep x" "decision_ready p d y" by (auto simp del: image_eqI)
    then show "decision_ready p d1 y" using decision_done_rep(1) [OF did] by (simp add: decision_ready_def)
  qed
  ultimately obtain es ocs where "decisions_done spelt p c now xs es ocs d1 d'"
    using Cons.IH [OF _ _ _ d1(2)] Cons.prems(2) by auto
  with did have "decisions_done spelt p c now (x # xs) (e # es) (oc # ocs) d d'" by auto
  then show ?case by blast
qed simp

lemma decisions_done_frame:
  "memory_ok d \<Longrightarrow> decisions_done spelt p c now xs es ocs d d' \<Longrightarrow>
     memory_ok d' \<and> same_work d d' \<and> evidences d' = evidences d @ es \<and> occurrences d' = occurrences d @ concat ocs \<and>
     list_all2 (\<lambda>x oc. done_occurrences p c x now oc) xs ocs"
proof (induction xs arbitrary: es ocs d)
  case (Cons x xs)
  then obtain e es' oc ocs' d1 where eq: "es = e # es'" "ocs = oc # ocs'" and did: "decision_done spelt p c now x e oc d d1"
    and rest: "decisions_done spelt p c now xs es' ocs' d1 d'" by auto
  have "memory_ok d1" "same_work d d1" "evidences d1 = evidences d @ [e]" "occurrences d1 = occurrences d @ oc"
    "done_occurrences p c x now oc"
    using did unfolding decision_done_def by blast+
  with Cons.IH [OF _ rest] eq show ?case by (auto intro: same_work_trans)
qed simp

lemma decisions_done_other:
  "decisions_done spelt p c now xs es ocs d d' \<Longrightarrow> j \<notin> fd_rep ` set xs \<Longrightarrow> tab_get r_id (reps d') j = tab_get r_id (reps d) j"
proof (induction xs arbitrary: es ocs d)
  case (Cons x xs)
  then obtain e es' oc ocs' d1 where "decision_done spelt p c now x e oc d d1"
    "decisions_done spelt p c now xs es' ocs' d1 d'" by auto
  with Cons.IH [of es' ocs' d1] Cons.prems(2) show ?case by (simp add: decision_done_rep(1))
qed simp

lemma decision_done_ops:
  "decision_done spelt p c now x e oc d d' \<Longrightarrow>
     \<exists>r. tab_get r_id (reps d) (fd_rep x) = Some r \<and> queued_add (fd_rep x) (r_space r) (index_ops d) (index_ops d')"
  unfolding decision_done_def by blast

lemma decisions_done_ops:
  "decisions_done spelt p c now xs es ocs d d' \<Longrightarrow> j \<notin> fd_rep ` set xs \<Longrightarrow>
     filter (\<lambda>y. x_rep y = j) (index_ops d') = filter (\<lambda>y. x_rep y = j) (index_ops d)"
proof (induction xs arbitrary: es ocs d)
  case (Cons x xs)
  then obtain e es' oc ocs' d1 where did: "decision_done spelt p c now x e oc d d1"
    and rest: "decisions_done spelt p c now xs es' ocs' d1 d'" by auto
  have "filter (\<lambda>y. x_rep y = j) (index_ops d1) = filter (\<lambda>y. x_rep y = j) (index_ops d)"
    using decision_done_ops [OF did] Cons.prems(2) by (auto simp: queued_add_def)
  with Cons.IH [OF rest] Cons.prems(2) show ?case by simp
qed simp

lemma desired_filter: "desired t j = desired (filter (\<lambda>y. x_rep y = j) t) j"
  by (auto simp: desired_def list_ex_iff pending_op_def)

text \<open>Every decision's own representation, at the end.\<close>

lemma decisions_done_rep:
  assumes "distinct (map fd_rep xs)" and "decisions_done spelt p c now xs es ocs d d'" and "(x, e) \<in> set (zip xs es)"
  shows "\<exists>r r'. tab_get r_id (reps d) (fd_rep x) = Some r \<and> tab_get r_id (reps d') (fd_rep x) = Some r' \<and> done_rep x r r' \<and>
    done_evidence p c x r' e \<and> ADD \<in> desired (index_ops d') (fd_rep x) \<and>
    (filter (\<lambda>y. x_rep y = fd_rep x) (index_ops d) = [] \<longrightarrow>
       (\<exists>y. filter (\<lambda>y. x_rep y = fd_rep x) (index_ops d') = [y] \<and> x_space y = r_space r \<and> x_kind y = ADD))"
  using assms
proof (induction xs arbitrary: es ocs d)
  case (Cons z xs)
  then obtain f es' oc ocs' d1 where eq: "es = f # es'" and did: "decision_done spelt p c now z f oc d d1"
    and rest: "decisions_done spelt p c now xs es' ocs' d1 d'" by auto
  show ?case
  proof (cases "(x, e) = (z, f)")
    case True
    then have out: "fd_rep x \<notin> fd_rep ` set xs" using Cons.prems(1) by auto
    note same = decisions_done_other [OF rest out] decisions_done_ops [OF rest out]
    obtain r where "tab_get r_id (reps d) (fd_rep x) = Some r" "queued_add (fd_rep x) (r_space r) (index_ops d) (index_ops d1)"
      using decision_done_ops [OF did] True by auto
    moreover obtain s s' where "tab_get r_id (reps d) (fd_rep x) = Some s" "tab_get r_id (reps d1) (fd_rep x) = Some s'"
      "done_rep x s s'" "done_evidence p c x s' e"
      using decision_done_rep(2) [OF did] True by auto
    moreover have "desired (index_ops d') (fd_rep x) = desired (index_ops d1) (fd_rep x)"
      using same(2) desired_filter by metis
    ultimately show ?thesis using same by (auto simp: queued_add_def)
  next
    case False
    with Cons.prems(3) eq have x: "(x, e) \<in> set (zip xs es')" by auto
    then have "x \<in> set xs" by (auto dest: set_zip_leftD)
    then have "fd_rep x \<in> fd_rep ` set xs" by (rule imageI)
    then have ne: "fd_rep x \<noteq> fd_rep z" using Cons.prems(1) by (auto simp del: image_eqI)
    have "filter (\<lambda>y. x_rep y = fd_rep x) (index_ops d1) = filter (\<lambda>y. x_rep y = fd_rep x) (index_ops d)"
      using decision_done_ops [OF did] ne by (auto simp: queued_add_def)
    with Cons.IH [OF _ rest x] Cons.prems(1) decision_done_rep(1) [OF did ne] show ?thesis by simp
  qed
qed simp

section \<open>What acceptance leaves\<close>

lemma read_all_Inr: "read_all f xs = Inr ys \<Longrightarrow> x \<in> set xs \<Longrightarrow> \<exists>y. f x = Inr y \<and> y \<in> set ys"
  by (induction xs arbitrary: ys) (auto simp: bindE_Inr_iff)

lemma require_Inr [simp]: "require b m = Inr u \<longleftrightarrow> b"
  by simp

lemma activate_observations_effect:
  assumes "tab_keyed o_id (observations d)" and "activate_observations obs d = Inr d'"
  shows "d' = d\<lparr>observations := tab_update (\<lambda>o'. o_id o' \<in> set obs) (\<lambda>o'. o'\<lparr>o_state := O_ACTIVE\<rparr>) (observations d)\<rparr>"
    and "\<forall>i\<in>set obs. \<exists>o'\<in>set (observations d). o_id o' = i \<and> o_state o' = O_PENDING"
    and "distinct obs"
proof -
  have "d' = d\<lparr>observations := tab_update (\<lambda>o'. o_id o' \<in> set obs) (\<lambda>o'. o'\<lparr>o_state := O_ACTIVE\<rparr>) (observations d)\<rparr> \<and>
    (\<forall>i\<in>set obs. \<exists>o'\<in>set (observations d). o_id o' = i \<and> o_state o' = O_PENDING) \<and> distinct obs"
    using assms
  proof (induction obs arbitrary: d)
    case (Cons i obs)
    let ?f = "\<lambda>o'. o'\<lparr>o_state := O_ACTIVE\<rparr>"
    let ?t = "tab_update (\<lambda>o'. o_id o' = i \<and> o_state o' \<in> set [O_PENDING]) ?f (observations d)"
    let ?d = "d\<lparr>observations := ?t\<rparr>"
    have eff: "observation_transition i [O_PENDING] O_ACTIVE None (observations d) =
        (0 < tab_count (\<lambda>o'. o_id o' = i \<and> o_state o' \<in> set [O_PENDING]) (observations d), ?t)"
      by (simp add: observation_transition_def guarded_update_def)
    have pos: "0 < tab_count (\<lambda>o'. o_id o' = i \<and> o_state o' \<in> set [O_PENDING]) (observations d)"
      and rest: "activate_observations obs ?d = Inr d'"
      using Cons.prems(2) by (auto simp: eff bindE_Inr_iff split: if_splits)
    from pos obtain o0 where o0: "o0 \<in> set (observations d)" "o_id o0 = i" "o_state o0 = O_PENDING"
      by (auto simp: tab_count_def filter_empty_conv)
    have only: "o' = o0" if "o' \<in> set (observations d)" "o_id o' = i" for o'
      using tab_keyed_inj [OF Cons.prems(1) that(1) o0(1)] that(2) o0(2) by simp
    have "tab_keyed o_id (observations ?d)" using Cons.prems(1) by (simp add: tab_keyed_update)
    note IH = conjunct1 [OF Cons.IH [OF this rest]] conjunct1 [OF conjunct2 [OF Cons.IH [OF this rest]]]
      conjunct2 [OF conjunct2 [OF Cons.IH [OF this rest]]]
    have "i \<notin> set obs"
    proof
      assume "i \<in> set obs"
      then obtain o' where o': "o' \<in> set ?t" "o_id o' = i" "o_state o' = O_PENDING" using IH(2) by auto
      then obtain o1 where "o1 \<in> set (observations d)" "o' = (if o_id o1 = i \<and> o_state o1 \<in> set [O_PENDING] then ?f o1 else o1)"
        by (elim in_tab_updateE)
      with o' show False by (auto split: if_splits)
    qed
    have "tab_update (\<lambda>o'. o_id o' \<in> set obs) ?f ?t = tab_update (\<lambda>o'. o_id o' \<in> set (i # obs)) ?f (observations d)"
      unfolding tab_update_def map_map
    proof (rule map_cong [OF refl])
      fix o' assume in': "o' \<in> set (observations d)"
      show "((\<lambda>o'. if o_id o' \<in> set obs then ?f o' else o') \<circ> (\<lambda>o'. if o_id o' = i \<and> o_state o' \<in> set [O_PENDING] then ?f o' else o')) o' =
          (if o_id o' \<in> set (i # obs) then ?f o' else o')"
      proof (cases "o_id o' = i")
        case True
        then have "o' = o0" by (rule only [OF in'])
        with o0 True show ?thesis by simp
      qed simp
    qed
    moreover have "\<exists>o'\<in>set (observations d). o_id o' = k \<and> o_state o' = O_PENDING" if k: "k \<in> set obs" for k
    proof -
      obtain o' where o': "o' \<in> set ?t" "o_id o' = k" "o_state o' = O_PENDING" using bspec [OF IH(2) k] by auto
      then obtain o1 where "o1 \<in> set (observations d)" "o' = (if o_id o1 = i \<and> o_state o1 \<in> set [O_PENDING] then ?f o1 else o1)"
        by (elim in_tab_updateE)
      with o' show ?thesis by (intro bexI [of _ o1]) (auto split: if_splits)
    qed
    moreover have "distinct obs" by (rule IH(3))
    moreover have "d' = d\<lparr>observations := tab_update (\<lambda>o'. o_id o' \<in> set obs) ?f ?t\<rparr>" using IH(1) by simp
    ultimately show ?case using o0 \<open>i \<notin> set obs\<close> by (intro conjI) (simp_all only:, auto)
  qed (simp add: tab_update_none)
  then show "d' = d\<lparr>observations := tab_update (\<lambda>o'. o_id o' \<in> set obs) (\<lambda>o'. o'\<lparr>o_state := O_ACTIVE\<rparr>) (observations d)\<rparr>"
    "\<forall>i\<in>set obs. \<exists>o'\<in>set (observations d). o_id o' = i \<and> o_state o' = O_PENDING" "distinct obs" by blast+
qed

lemma decision_ok_ready:
  assumes "reps_ok (reps d)" and "decision_ok spelt p d x = Inr u"
  shows "decision_ready p d x" and "\<exists>r. tab_get r_id (reps d) (fd_rep x) = Some r \<and> r_obs r = fd_observation x \<and> r_run r = p_id p \<and>
      json_field ''representation_space_id'' (fd_evidence x) = JUuid (r_space r) \<and> reasoned_decision_ok spelt p x r d = Inr ()"
proof -
  obtain r where r: "find (\<lambda>r. r_id r = fd_rep x \<and> r_run r = p_id p) (reps d) = Some r"
    and facts: "r_state r = R_PENDING" "r_obs r = fd_observation x" "json_field ''representation_space_id'' (fd_evidence x) = JUuid (r_space r)"
      "identity_decision_ok p x r d = Inr ()" "reasoned_decision_ok spelt p x r d = Inr ()"
    using assms(2) by (auto simp: decision_ok_def bindE_Inr_iff split: option.splits if_splits)
  have "r \<in> set (reps d)" "r_id r = fd_rep x" "r_run r = p_id p"
    using r by (auto simp: find_Some_iff)
  then have get: "tab_get r_id (reps d) (fd_rep x) = Some r" "r_run r = p_id p"
    using assms(1) by (auto simp: reps_ok_def dest: tab_get_in)
  have "r_identity r = fd_identity x \<and> (fd_identity x = None \<longleftrightarrow> fd_outcome x = ABSTAIN)"
    using facts(4) by (auto simp: identity_decision_ok_def bindE_Inr_iff split: if_splits)
  with get facts show "decision_ready p d x" by (simp add: decision_ready_def)
  show "\<exists>r. tab_get r_id (reps d) (fd_rep x) = Some r \<and> r_obs r = fd_observation x \<and> r_run r = p_id p \<and>
      json_field ''representation_space_id'' (fd_evidence x) = JUuid (r_space r) \<and> reasoned_decision_ok spelt p x r d = Inr ()"
    using get facts by blast
qed

lemma read_final_distinct: "read_final spelt p d = Inr (obs, ds) \<Longrightarrow> distinct (map fd_rep ds) \<and> distinct obs \<and> set (map fd_observation ds) = set obs"
  by (auto simp: read_final_def read_final_payload_def bindE_Inr_iff split: option.splits if_splits)

text \<open>The stages of an acceptance that commits.\<close>

lemma accept_run_stages:
  assumes "accept_run spelt clock ids i d = Inr (False, d')"
  obtains p obs ds n c j d1 d2 d3 where "tab_get p_id (runs d) i = Some p" "read_final spelt p d = Inr (obs, ds)"
    "configuration_snapshot p d = Inr n" "tab_get c_id (sources d) (p_source p) = Some c"
    "filter (\<lambda>j. j_run j = Some (p_id p) \<and> j_type j = PROCESS_SOURCE) (jobs d) = [j]"
    "p_state p = P_FINALIZING" "j_state j = J_RUNNING" "source_acceptable c d = Inr ()" "private_output_ok spelt p ds d = Inr ()"
    "accept_decisions spelt p c (clock 0) (\<lambda>n. clock (Suc n)) ids ds d = Inr d1" "activate_observations obs d1 = Inr d2"
    "set_current_run (c_id c) (p_id p) (c_rev c) (clock 0) d2 = (True, d3)" "accept_settle p j (clock 0) d3 = Inr d'"
proof -
  have ctx: "\<And>p c j. acceptance_context p d = Inr (c, j) \<Longrightarrow> tab_get c_id (sources d) (p_source p) = Some c \<and>
      filter (\<lambda>j. j_run j = Some (p_id p) \<and> j_type j = PROCESS_SOURCE) (jobs d) = [j]"
    by (auto simp: acceptance_context_def split: option.splits list.splits)
  have settle: "\<And>m y. map_sum RunRefused id m = Inr y \<longleftrightarrow> m = Inr y" for m :: "run_error + db"
    by (case_tac m) auto
  obtain p where p: "tab_get p_id (runs d) i = Some p"
    using assms by (auto simp: accept_run_def split: option.splits)
  from assms obtain obs ds n c j where st: "read_final spelt p d = Inr (obs, ds)" "configuration_snapshot p d = Inr n"
    "acceptance_context p d = Inr (c, j)" "p_state p = P_FINALIZING" "j_state j = J_RUNNING" "source_acceptable c d = Inr ()"
    "private_output_ok spelt p ds d = Inr ()" "commit_final spelt p c j obs ds clock ids d = Inr d'"
    by (auto simp: accept_run_def p bindE_Inr_iff split: if_splits)
  from st(8) obtain d1 d2 where d12: "accept_decisions spelt p c (clock 0) (\<lambda>n. clock (Suc n)) ids ds d = Inr d1" "activate_observations obs d1 = Inr d2"
    and rest: "(case set_current_run (c_id c) (p_id p) (c_rev c) (clock 0) d2 of (pointed, d3) \<Rightarrow>
      bindE (require pointed ''source changed while accepting'') (\<lambda>_. map_sum RunRefused id (accept_settle p j (clock 0) d3))) = Inr d'"
    by (auto simp: commit_final_def Let_def bindE_Inr_iff)
  obtain b d3 where "set_current_run (c_id c) (p_id p) (c_rev c) (clock 0) d2 = (b, d3)" by force
  with rest have "set_current_run (c_id c) (p_id p) (c_rev c) (clock 0) d2 = (True, d3)" "accept_settle p j (clock 0) d3 = Inr d'"
    by (auto simp: settle bindE_Inr_iff split: if_splits)
  with d12 p st(1,2,4-7) ctx [OF st(3)] that show thesis by blast
qed

lemma attempt_of_cong: "jobs s' = jobs s \<Longrightarrow> runs s' = runs s \<Longrightarrow> segments s' = segments s \<Longrightarrow> coherent s' = coherent s"
  by (simp add: coherent_def attempt_of_def [abs_def])

lemma accept_settle_frame:
  assumes "accept_settle p j now s = Inr s'"
  obtains rs js where "s' = s\<lparr>runs := rs, jobs := js\<rparr>"
    "rs = tab_update (opt_where p_id p_rev (p_id p) (p_rev p) (\<lambda>r. p_state r = P_FINALIZING))
       (\<lambda>r. bump_run (r\<lparr>p_state := P_COMPLETED, p_completed := Some now, p_updated := now\<rparr>)) (runs s)"
    "js = tab_update (\<lambda>k. j_id k = j_id j \<and> j_state k \<in> set [J_RUNNING]) (transition_values J_COMPLETED now None None) (jobs s)"
  using assms
  by (auto simp: accept_settle_def run_update_def optimistic_locked_update_def job_transition_def bindE_Inr_iff
      guarded_update_def Let_def split: prod.splits if_splits)

lemma currents_ok_runs:
  assumes "currents_ok d" and "\<And>r. p_id (f r) = p_id r \<and> p_source (f r) = p_source r \<and> p_state (f r) \<in> set acceptable_run_states"
  shows "currents_ok (d\<lparr>runs := tab_update q f (runs d), jobs := js\<rparr>)"
proof -
  have "own_accepted_run i run (d\<lparr>runs := tab_update q f (runs d), jobs := js\<rparr>)" if "own_accepted_run i run d" for i run
    using that assms(2) by (auto simp: own_accepted_run_def list_ex_iff set_tab_update)
  with assms(1) show ?thesis by (auto simp: currents_ok_def)
qed

lemma memory_ok_work [simp]:
  "memory_ok (d\<lparr>observations := os\<rparr>) = memory_ok d" "memory_ok (d\<lparr>sources := ss\<rparr>) = memory_ok d"
  "memory_ok (d\<lparr>runs := rs\<rparr>) = memory_ok d" "memory_ok (d\<lparr>jobs := js\<rparr>) = memory_ok d"
  "memory_ok (d\<lparr>runs := rs, jobs := js\<rparr>) = memory_ok d"
  by (simp_all add: memory_ok_def)

text \<open>
  The committed database, written over the database \<open>d1\<close> that the decisions left.
\<close>

definition committed :: "run \<Rightarrow> source \<Rightarrow> job \<Rightarrow> uuid list \<Rightarrow> time \<Rightarrow> db \<Rightarrow> db" where
  "committed p c j obs now d = d\<lparr>
     observations := tab_update (\<lambda>o'. o_id o' \<in> set obs) (\<lambda>o'. o'\<lparr>o_state := O_ACTIVE\<rparr>) (observations d),
     sources := tab_update (\<lambda>x. c_id x = c_id c) (\<lambda>x. x\<lparr>c_run := Some (p_id p), c_updated := now, c_rev := c_rev c + 1\<rparr>) (sources d),
     runs := tab_update (\<lambda>q. p_id q = p_id p) (\<lambda>_. bump_run (p\<lparr>p_state := P_COMPLETED, p_completed := Some now, p_updated := now\<rparr>)) (runs d),
     jobs := tab_update (\<lambda>k. j_id k = j_id j) (\<lambda>_. transition_values J_COMPLETED now None None j) (jobs d)\<rparr>"

lemma accept_run_effect:
  assumes ok: "memory_ok d" "coherent d" "currents_ok d" "tab_keyed c_id (sources d)" "tab_keyed o_id (observations d)"
    and run: "accept_run spelt clock ids i d = Inr (False, d')"
  obtains p obs ds c j es ocs d1 n where "tab_get p_id (runs d) i = Some p" "p_state p = P_FINALIZING" "read_final spelt p d = Inr (obs, ds)"
    "configuration_snapshot p d = Inr n"
    "tab_get c_id (sources d) (p_source p) = Some c" "source_acceptable c d = Inr ()" "private_output_ok spelt p ds d = Inr ()"
    "filter (\<lambda>j. j_run j = Some (p_id p) \<and> j_type j = PROCESS_SOURCE) (jobs d) = [j]" "j_state j = J_RUNNING"
    "decisions_done spelt p c (clock 0) ds es ocs d d1" "d' = committed p c j obs (clock 0) d1"
    "\<forall>k\<in>set obs. \<exists>o'\<in>set (observations d). o_id o' = k \<and> o_state o' = O_PENDING"
    "coherent d'" "currents_ok d'"
proof -
  from run obtain p obs ds n c j d1 d2 d3 where p: "tab_get p_id (runs d) i = Some p" and final: "read_final spelt p d = Inr (obs, ds)"
    and n: "configuration_snapshot p d = Inr n"
    and c: "tab_get c_id (sources d) (p_source p) = Some c" and j: "filter (\<lambda>j. j_run j = Some (p_id p) \<and> j_type j = PROCESS_SOURCE) (jobs d) = [j]"
    and states: "p_state p = P_FINALIZING" "j_state j = J_RUNNING" and src: "source_acceptable c d = Inr ()"
    and priv: "private_output_ok spelt p ds d = Inr ()"
    and s1: "accept_decisions spelt p c (clock 0) (\<lambda>n. clock (Suc n)) ids ds d = Inr d1" and s2: "activate_observations obs d1 = Inr d2"
    and s3: "set_current_run (c_id c) (p_id p) (c_rev c) (clock 0) d2 = (True, d3)" and s4: "accept_settle p j (clock 0) d3 = Inr d'"
    by (rule accept_run_stages)
  have rok: "reps_ok (reps d)" using ok(1) by (simp add: memory_ok_def)
  have ready: "\<forall>x\<in>set ds. decision_ready p d x"
    using priv decision_ok_ready(1) [OF rok] by (auto simp: private_output_ok_def bindE_Inr_iff dest!: read_all_Inr)
  have dist: "distinct (map fd_rep ds)" using read_final_distinct [OF final] by simp
  obtain es ocs where dd: "decisions_done spelt p c (clock 0) ds es ocs d d1"
    using accept_decisions_done [OF ok(1) dist ready s1] by blast
  have sw: "same_work d d1" and ok1: "memory_ok d1" using decisions_done_frame [OF ok(1) dd] by blast+
  note sws = sw [unfolded same_work_def]
  have keyed1: "tab_keyed o_id (observations d1)" using sws ok(5) by simp
  note act = activate_observations_effect [OF keyed1 s2]
  have d2s: "sources d2 = sources d" "runs d2 = runs d" "jobs d2 = jobs d" "segments d2 = segments d"
    using sws by (simp_all add: act(1))
  have cur2: "currents_ok d2" using ok(3) by (simp add: currents_ok_def own_accepted_run_def d2s)
  have key2: "tab_keyed c_id (sources d2)" using ok(4) by (simp add: d2s)
  have d3: "d3 = d2\<lparr>sources := tab_update (\<lambda>x. c_id x = c_id c) (\<lambda>x. x\<lparr>c_run := Some (p_id p), c_updated := clock 0, c_rev := c_rev c + 1\<rparr>) (sources d2)\<rparr>"
    and cur3: "currents_ok d3"
    using current_run_is_own_and_accepted [OF key2 cur2, of "c_id c" "p_id p" "c_rev c" "clock 0"] s3 by auto
  have d3s: "runs d3 = runs d" "jobs d3 = jobs d" "segments d3 = segments d" by (simp_all add: d3 d2s)
  have coh3: "coherent d3" using ok(2) attempt_of_cong [OF d3s(2,1,3)] by simp
  have pin: "p_id p = i" using tab_get_SomeD [OF p] by simp
  have jin: "j \<in> set (jobs d)" "j_run j = Some (p_id p)" using filter_singleD [OF j] by auto
  have gets: "tab_get p_id (runs d3) (p_id p) = Some p" "tab_get j_id (jobs d3) (j_id j) = Some j"
    using p pin jin coherent_facts(1) [OF ok(2)] by (auto simp: d3s intro: tab_get_in)
  have coh': "coherent d'" using accept_settle_refines [OF coh3 gets jin(2) s4] by (simp add: refines_def)
  obtain rs js where d': "d' = d3\<lparr>runs := rs, jobs := js\<rparr>"
    and rs: "rs = tab_update (opt_where p_id p_rev (p_id p) (p_rev p) (\<lambda>r. p_state r = P_FINALIZING))
       (\<lambda>r. bump_run (r\<lparr>p_state := P_COMPLETED, p_completed := Some (clock 0), p_updated := clock 0\<rparr>)) (runs d3)"
    and js: "js = tab_update (\<lambda>k. j_id k = j_id j \<and> j_state k \<in> set [J_RUNNING]) (transition_values J_COMPLETED (clock 0) None None) (jobs d3)"
    using s4 by (rule accept_settle_frame)
  have "rs = tab_update (\<lambda>q. p_id q = p_id p) (\<lambda>_. bump_run (p\<lparr>p_state := P_COMPLETED, p_completed := Some (clock 0), p_updated := clock 0\<rparr>)) (runs d)"
    unfolding rs d3s by (rule tab_update_only [OF coherent_facts(3) [OF ok(2)]]) (use p pin states in \<open>simp_all add: opt_where_def\<close>)
  moreover have "js = tab_update (\<lambda>k. j_id k = j_id j) (\<lambda>_. transition_values J_COMPLETED (clock 0) None None j) (jobs d)"
    unfolding js d3s by (rule tab_update_only [OF coherent_facts(1) [OF ok(2)]]) (use gets(2) states in \<open>simp_all add: d3s\<close>)
  ultimately have eq: "d' = committed p c j obs (clock 0) d1"
    using sws by (simp add: d' d3 act(1) committed_def)
  have cur': "currents_ok d'"
    unfolding d' rs by (rule currents_ok_runs [OF cur3]) (simp add: acceptable_run_states_def bump_run_def)
  have pend: "\<forall>k\<in>set obs. \<exists>o'\<in>set (observations d). o_id o' = k \<and> o_state o' = O_PENDING"
    using act(2) sws by simp
  show thesis by (rule that [OF p states(1) final n c src priv j states(2) dd eq pend coh' cur'])
qed

lemma in_zip_left: "x \<in> set xs \<Longrightarrow> length xs = length ys \<Longrightarrow> \<exists>y. (x, y) \<in> set (zip xs ys)"
  by (metis in_set_conv_nth length_zip min.idem nth_mem nth_zip)

lemma decisions_done_lengths: "decisions_done spelt p c now xs es ocs d d' \<Longrightarrow> length es = length xs \<and> length ocs = length xs"
  by (induction xs arbitrary: es ocs d) auto


lemma occurrences_of_decisions:
  "list_all2 (\<lambda>x oc. done_occurrences p c x now oc) xs ocs \<Longrightarrow>
     map (\<lambda>oc. (Some (oc_identity oc), oc_face oc)) (concat ocs) =
       map (\<lambda>x. (fd_identity x, Some (fd_observation x))) (filter (\<lambda>x. fd_outcome x \<noteq> ABSTAIN) xs) \<and>
     (\<forall>oc\<in>set (concat ocs). oc_run oc = p_id p \<and> oc_source oc = c_id c \<and> oc_state oc = OC_ACTIVE)"
proof (induction xs arbitrary: ocs)
  case (Cons x xs)
  then obtain oc rest where ocs: "ocs = oc # rest" "done_occurrences p c x now oc" "list_all2 (\<lambda>x oc. done_occurrences p c x now oc) xs rest"
    by (auto simp: list_all2_Cons1)
  with Cons.IH [OF ocs(3)] show ?case by (auto simp: done_occurrences_def accepted_occurrence_def)
qed simp

text \<open>
  C10. An acceptance that commits makes exactly the private output of its run authoritative, and leaves
  a coherent library. Every representation of the run is decided and is now ACTIVE, under the identity
  its decision names, with a key and an \<open>ADD\<close> the index is owed; no other representation moved. The
  observations of FINAL, all PENDING before, are ACTIVE and no other observation moved. Every decision
  that names an identity has one new ACTIVE occurrence of its face and every decision has one new
  evidence row; older rows are kept. The run and its job are COMPLETED and the source points to the
  run. The invariants of memory, of attempts and of current runs hold.
\<close>

theorem acceptance_commits_exactly_the_private_output:
  assumes "memory_ok d" "coherent d" "currents_ok d" "tab_keyed c_id (sources d)" "tab_keyed o_id (observations d)"
    and "accept_run spelt clock ids i d = Inr (False, d')"
  shows "memory_ok d' \<and> coherent d' \<and> currents_ok d' \<and>
    (\<exists>p obs ds c es ocs. tab_get p_id (runs d) i = Some p \<and> p_state p = P_FINALIZING \<and> read_final spelt p d = Inr (obs, ds) \<and>
       map_option p_state (tab_get p_id (runs d') i) = Some P_COMPLETED \<and>
       (\<forall>j\<in>set (jobs d'). j_run j = Some i \<and> j_type j = PROCESS_SOURCE \<longrightarrow> j_state j = J_COMPLETED) \<and>
       tab_get c_id (sources d') (p_source p) = Some c \<and> c_run c = Some i \<and>
       (\<forall>r\<in>set (reps d). r_run r = i \<longleftrightarrow> r_id r \<in> fd_rep ` set ds) \<and>
       (\<forall>x\<in>set ds. \<exists>r. tab_get r_id (reps d') (fd_rep x) = Some r \<and> r_run r = i \<and> r_obs r = fd_observation x \<and>
          r_state r = R_ACTIVE \<and> r_identity r = fd_identity x \<and> r_key r \<noteq> None \<and> ADD \<in> desired (index_ops d') (fd_rep x)) \<and>
       (\<forall>k. k \<notin> fd_rep ` set ds \<longrightarrow> tab_get r_id (reps d') k = tab_get r_id (reps d) k) \<and>
       (\<forall>k\<in>set obs. map_option o_state (tab_get o_id (observations d) k) = Some O_PENDING \<and>
          map_option o_state (tab_get o_id (observations d') k) = Some O_ACTIVE) \<and>
       (\<forall>k. k \<notin> set obs \<longrightarrow> tab_get o_id (observations d') k = tab_get o_id (observations d) k) \<and>
       occurrences d' = occurrences d @ ocs \<and> (\<forall>oc\<in>set ocs. oc_run oc = i \<and> oc_state oc = OC_ACTIVE) \<and>
       map (\<lambda>oc. (Some (oc_identity oc), oc_face oc)) ocs =
         map (\<lambda>x. (fd_identity x, Some (fd_observation x))) (filter (\<lambda>x. fd_outcome x \<noteq> ABSTAIN) ds) \<and>
       evidences d' = evidences d @ es \<and> length es = length ds)"
proof -
  from assms obtain p obs ds c j es ocs d1 n where p: "tab_get p_id (runs d) i = Some p" "p_state p = P_FINALIZING"
    and final: "read_final spelt p d = Inr (obs, ds)" and n: "configuration_snapshot p d = Inr n"
    and c: "tab_get c_id (sources d) (p_source p) = Some c" and src: "source_acceptable c d = Inr ()"
    and priv: "private_output_ok spelt p ds d = Inr ()"
    and j: "filter (\<lambda>j. j_run j = Some (p_id p) \<and> j_type j = PROCESS_SOURCE) (jobs d) = [j]" "j_state j = J_RUNNING"
    and dd: "decisions_done spelt p c (clock 0) ds es ocs d d1" and d': "d' = committed p c j obs (clock 0) d1"
    and pend: "\<forall>k\<in>set obs. \<exists>o'\<in>set (observations d). o_id o' = k \<and> o_state o' = O_PENDING"
    and coh: "coherent d'" and cur: "currents_ok d'"
    by (rule accept_run_effect)
  have pin: "p_id p = i" and cin: "c_id c = p_source p" using tab_get_SomeD [OF p(1)] tab_get_SomeD [OF c] by auto
  have "memory_ok d1" and sw: "same_work d d1" and ev: "evidences d1 = evidences d @ es" and oc: "occurrences d1 = occurrences d @ concat ocs"
    and ocs: "list_all2 (\<lambda>x oc. done_occurrences p c x (clock 0) oc) ds ocs"
    using decisions_done_frame [OF assms(1) dd] by blast+
  note same = sw [unfolded same_work_def]
  have K1: "memory_ok d'" using \<open>memory_ok d1\<close> by (simp add: d' committed_def memory_ok_def)
  have K2: "map_option p_state (tab_get p_id (runs d') i) = Some P_COMPLETED"
  proof -
    let ?p = "bump_run (p\<lparr>p_state := P_COMPLETED, p_completed := Some (clock 0), p_updated := clock 0\<rparr>)"
    have "runs d' = tab_update (\<lambda>q. p_id q = i) (\<lambda>q. if p_id q = i then ?p else q) (runs d)"
      using same pin by (simp add: d' committed_def tab_update_def)
    moreover have "tab_get p_id (tab_update (\<lambda>q. p_id q = i) (\<lambda>q. if p_id q = i then ?p else q) (runs d)) i =
        map_option (\<lambda>q. if p_id q = i then if p_id q = i then ?p else q else q) (tab_get p_id (runs d) i)"
      by (rule tab_get_update) (simp add: pin bump_run_def)
    ultimately show ?thesis using p pin by (simp add: bump_run_def)
  qed
  have K3: "j_state k = J_COMPLETED" if k: "k \<in> set (jobs d')" "j_run k = Some i" "j_type k = PROCESS_SOURCE" for k
  proof -
    obtain k0 where k0: "k0 \<in> set (jobs d)" "k = (if j_id k0 = j_id j then transition_values J_COMPLETED (clock 0) None None j else k0)"
      using k(1) same by (auto simp: d' committed_def elim: in_tab_updateE)
    show ?thesis
    proof (cases "j_id k0 = j_id j")
      case False
      then have "k0 \<in> set (filter (\<lambda>j. j_run j = Some (p_id p) \<and> j_type j = PROCESS_SOURCE) (jobs d))"
        using k0 k(2,3) pin by simp
      with False show ?thesis unfolding j by simp
    qed (simp add: k0(2))
  qed
  have K4: "\<exists>c'. tab_get c_id (sources d') (p_source p) = Some c' \<and> c_run c' = Some i"
  proof -
    have "tab_get c_id (sources d') (p_source p) = map_option (\<lambda>x. if c_id x = c_id c then x\<lparr>c_run := Some (p_id p), c_updated := clock 0, c_rev := c_rev c + 1\<rparr> else x)
        (tab_get c_id (sources d) (p_source p))"
      unfolding d' committed_def using same by (simp add: tab_get_update)
    then show ?thesis using c pin by simp
  qed
  have K5: "r_run r = i \<longleftrightarrow> r_id r \<in> fd_rep ` set ds" if r: "r \<in> set (reps d)" for r
  proof
    have names: "set (map r_id (filter (\<lambda>r. r_run r = p_id p) (reps d))) = set (map fd_rep ds)"
      using priv by (auto simp: private_output_ok_def bindE_Inr_iff split: if_splits)
    show "r_id r \<in> fd_rep ` set ds" if "r_run r = i" using r that names pin by auto
    assume "r_id r \<in> fd_rep ` set ds"
    then have "r_id r \<in> set (map r_id (filter (\<lambda>r. r_run r = p_id p) (reps d)))" unfolding names by simp
    then obtain s where s: "s \<in> set (reps d)" "r_id s = r_id r" "r_run s = i" using pin by auto
    have "tab_keyed r_id (reps d)" using assms(1) by (simp add: memory_ok_def reps_ok_def)
    with s r show "r_run r = i" by (metis tab_keyed_inj)
  qed
  have rok: "reps_ok (reps d)" using assms(1) by (simp add: memory_ok_def)
  have K6: "\<exists>r. tab_get r_id (reps d') (fd_rep x) = Some r \<and> r_run r = i \<and> r_obs r = fd_observation x \<and>
      r_state r = R_ACTIVE \<and> r_identity r = fd_identity x \<and> r_key r \<noteq> None \<and> ADD \<in> desired (index_ops d') (fd_rep x)"
    if x: "x \<in> set ds" for x
  proof -
    obtain e where e: "(x, e) \<in> set (zip ds es)" using in_zip_left [OF x] decisions_done_lengths [OF dd] by metis
    have dist: "distinct (map fd_rep ds)" using read_final_distinct [OF final] by simp
    obtain r r' where r: "tab_get r_id (reps d) (fd_rep x) = Some r" "tab_get r_id (reps d1) (fd_rep x) = Some r'" "done_rep x r r'"
      "ADD \<in> desired (index_ops d1) (fd_rep x)"
      using decisions_done_rep [OF dist dd e] by blast
    have "\<exists>u. decision_ok spelt p d x = Inr u"
      using priv x by (auto simp: private_output_ok_def bindE_Inr_iff dest!: read_all_Inr)
    then have "r_obs r = fd_observation x" "r_run r = i"
      using decision_ok_ready(2) [OF rok, of spelt p x] r(1) pin by auto
    with r(2-4) show ?thesis by (auto simp: d' committed_def done_rep_def)
  qed
  have K7: "tab_get r_id (reps d') k = tab_get r_id (reps d) k" if "k \<notin> fd_rep ` set ds" for k
    using decisions_done_other [OF dd that] by (simp add: d' committed_def)
  have obs': "tab_get o_id (observations d') k = map_option (\<lambda>o'. if o_id o' \<in> set obs then o'\<lparr>o_state := O_ACTIVE\<rparr> else o') (tab_get o_id (observations d) k)" for k
    unfolding d' committed_def using same by (simp add: tab_get_update)
  have K8: "map_option o_state (tab_get o_id (observations d) k) = Some O_PENDING \<and>
      map_option o_state (tab_get o_id (observations d') k) = Some O_ACTIVE" if k: "k \<in> set obs" for k
  proof -
    obtain o' where "o' \<in> set (observations d)" "o_id o' = k" "o_state o' = O_PENDING" using bspec [OF pend k] by blast
    then have "tab_get o_id (observations d) k = Some o'" using tab_get_in [OF assms(5)] by blast
    with \<open>o_id o' = k\<close> \<open>o_state o' = O_PENDING\<close> k show ?thesis by (simp add: obs')
  qed
  have K9: "tab_get o_id (observations d') k = tab_get o_id (observations d) k" if "k \<notin> set obs" for k
    using that by (cases "tab_get o_id (observations d) k") (auto simp: obs' dest: tab_get_SomeD)
  have K10: "occurrences d' = occurrences d @ concat ocs" "evidences d' = evidences d @ es" "length es = length ds"
    using oc ev decisions_done_lengths [OF dd] by (simp_all add: d' committed_def)
  note K11 = conjunct1 [OF occurrences_of_decisions [OF ocs]]
  have K12: "oc_run x = i \<and> oc_state x = OC_ACTIVE" if "x \<in> set (concat ocs)" for x
    using conjunct2 [OF occurrences_of_decisions [OF ocs]] that pin by blast
  obtain c' where K13: "tab_get c_id (sources d') (p_source p) = Some c'" "c_run c' = Some i" using K4 by blast
  have Q3: "\<forall>j\<in>set (jobs d'). j_run j = Some i \<and> j_type j = PROCESS_SOURCE \<longrightarrow> j_state j = J_COMPLETED" using K3 by blast
  have Q5: "\<forall>r\<in>set (reps d). r_run r = i \<longleftrightarrow> r_id r \<in> fd_rep ` set ds" using K5 by blast
  note Q6 = ballI [of "set ds", OF K6] and Q8 = ballI [of "set obs", OF K8] and Q12 = ballI [of "set (concat ocs)", OF K12]
  have Q7: "\<forall>k. k \<notin> fd_rep ` set ds \<longrightarrow> tab_get r_id (reps d') k = tab_get r_id (reps d) k" using K7 by blast
  have Q9: "\<forall>k. k \<notin> set obs \<longrightarrow> tab_get o_id (observations d') k = tab_get o_id (observations d) k" using K9 by blast
  show ?thesis
    by (intro conjI exI [of _ p] exI [of _ obs] exI [of _ ds] exI [of _ c'] exI [of _ es] exI [of _ "concat ocs"]
        K1 K2 coh cur p final K13 K10 K11 Q3 Q5 Q6 Q7 Q8 Q9 Q12)
qed

section \<open>Accepted decisions follow from live evidence\<close>

lemma read_final_decisions:
  assumes "read_final spelt p d = Inr (obs, ds)" and "x \<in> set ds"
  shows "read_evidence spelt (fd_evidence x) (fd_outcome x) (fd_reason x) (fd_identity x) = Inr (fd_evidence x)"
proof -
  obtain vs where "read_all (read_decision spelt) vs = Inr ds"
    using assms(1) by (auto simp: read_final_def read_final_payload_def bindE_Inr_iff split: option.splits if_splits)
  then have "\<exists>v. read_decision spelt v = Inr x"
    using assms(2) by (induction vs arbitrary: ds) (auto simp: bindE_Inr_iff)
  then obtain v where v: "read_decision spelt v = Inr x" by blast
  have keeps: "read_evidence spelt w o' re ident = Inr w' \<Longrightarrow> w' = w" for w o' re ident w'
    by (auto simp: read_evidence_def bindE_Inr_iff split: option.splits if_splits)
  from v obtain o' re ident w where "read_evidence spelt (json_field ''evidence'' v) o' re ident = Inr w"
    "fd_outcome x = o'" "fd_reason x = re" "fd_identity x = ident" "fd_evidence x = w"
    by (auto simp: read_decision_def bindE_Inr_iff split: option.splits if_splits)
  with keeps show ?thesis by metis
qed

lemma read_evidence_facts:
  assumes "read_evidence spelt v out re ident = Inr w"
  shows "policy_ok (evidence_policy v)" and "\<exists>cs. candidates_of spelt v = Inr cs"
  using assms by (auto simp: read_evidence_def evidence_policy_def bindE_Inr_iff Let_def split: if_splits)

lemma read_candidates_members:
  "read_candidates spelt k cs seen named = Inr rows \<Longrightarrow> c \<in> set cs \<Longrightarrow> json_items (json_field ''members'' c) \<noteq> []"
proof (induction cs arbitrary: k seen named rows)
  case (Cons b cs)
  from Cons.prems(1) obtain k' seen' named' rows' where first: "json_items (json_field ''members'' b) \<noteq> []"
    and rest: "read_candidates spelt k' cs seen' named' = Inr rows'"
    by (auto simp: bindE_Inr_iff Let_def split: if_splits)
  show ?case using Cons.prems(2) first Cons.IH [OF rest] by auto
qed simp

lemma read_all_list_all2: "read_all f xs = Inr ys \<longleftrightarrow> list_all2 (\<lambda>x y. f x = Inr y) xs ys"
  by (induction xs arbitrary: ys) (auto simp: bindE_Inr_iff list_all2_Cons1)

lemma read_group_facts:
  assumes "read_group spelt p r d v = Inr g"
  shows "\<forall>m\<in>set (gr_members g). authoritative p r (gr_identity g) d m"
    and "json_items (json_field ''members'' v) \<noteq> [] \<Longrightarrow> gr_members g \<noteq> []"
proof -
  obtain ident ms where g: "g = \<lparr>gr_identity = ident, gr_members = ms\<rparr>"
    and ms: "list_all2 (\<lambda>v m. bindE (read_member spelt v) (\<lambda>m. bindE (require (authoritative p r ident d m) ''FINAL checkpoint candidate member is not authoritative'')
                 (\<lambda>_. Inr m)) = Inr m) (json_items (json_field ''members'' v)) ms"
    using assms by (auto simp: read_group_def bindE_Inr_iff read_all_list_all2 split: if_splits)
  have "authoritative p r ident d m" if m: "m \<in> set ms" for m
  proof -
    obtain k where "k < length ms" "m = ms ! k" using m by (metis in_set_conv_nth)
    with list_all2_nthD2 [OF ms] show ?thesis by (auto simp: bindE_Inr_iff split: if_splits)
  qed
  then show "\<forall>m\<in>set (gr_members g). authoritative p r (gr_identity g) d m" by (simp add: g)
  show "gr_members g \<noteq> []" if "json_items (json_field ''members'' v) \<noteq> []"
    using that ms by (auto simp: g)
qed

lemma reasoned_decision_facts:
  assumes ok: "reasoned_decision_ok spelt p x r d = Inr ()"
    and read: "read_evidence spelt (fd_evidence x) (fd_outcome x) (fd_reason x) (fd_identity x) = Inr (fd_evidence x)"
  obtains a n where "configuration_snapshot p d = Inr n"
    "json_eq (json_field ''decision_policy'' (n_json n)) (JObj (json_merge [(''schema_version'', JInt 1)] (fields_of (json_field ''policy'' (fd_evidence x)))))"
    "policy_ok (evidence_policy (fd_evidence x))" "sort_key group_order (as_groups a) = as_groups a"
    "\<forall>g\<in>set (as_groups a). gr_members g \<noteq> [] \<and> (\<forall>m\<in>set (gr_members g). authoritative p r (gr_identity g) d m)"
    "d_outcome (decide (evidence_policy (fd_evidence x)) a) = fd_outcome x" "d_reason (decide (evidence_policy (fd_evidence x)) a) = fd_reason x"
    "fd_outcome x = MATCH_EXISTING \<longrightarrow> d_identity (decide (evidence_policy (fd_evidence x)) a) = fd_identity x"
proof -
  let ?v = "fd_evidence x" and ?pol = "evidence_policy (fd_evidence x)"
  from ok obtain n gs space quality where n: "configuration_snapshot p d = Inr n"
      "json_eq (json_field ''decision_policy'' (n_json n)) (JObj (json_merge [(''schema_version'', JInt 1)] (fields_of (json_field ''policy'' ?v))))"
    and gs: "read_groups spelt p r d ?v = Inr gs"
    and dec: "d_outcome (decide ?pol (evidence_assessment space quality ?v gs)) = fd_outcome x"
      "d_reason (decide ?pol (evidence_assessment space quality ?v gs)) = fd_reason x"
      "fd_outcome x = MATCH_EXISTING \<longrightarrow> d_identity (decide ?pol (evidence_assessment space quality ?v gs)) = fd_identity x"
    by (auto simp: reasoned_decision_ok_def bindE_Inr_iff Let_def split: if_splits)
  have groups: "as_groups (evidence_assessment space quality ?v gs) = gs" by (simp add: evidence_assessment_def Let_def)
  from gs have read_gs: "list_all2 (\<lambda>v g. read_group spelt p r d v = Inr g) (json_items (json_field ''candidates'' ?v)) gs"
    and sorted: "sort_key group_order gs = gs"
    by (auto simp: read_groups_def bindE_Inr_iff read_all_list_all2 split: if_splits)
  obtain rows where rows: "read_candidates spelt 1 (json_items (json_field ''candidates'' ?v)) [] [] = Inr rows"
    using read_evidence_facts(2) [OF read] by (auto simp: candidates_of_def bindE_Inr_iff split: if_splits)
  have live: "gr_members g \<noteq> [] \<and> (\<forall>m\<in>set (gr_members g). authoritative p r (gr_identity g) d m)" if g: "g \<in> set gs" for g
  proof -
    obtain k where k: "k < length gs" "g = gs ! k" using g by (metis in_set_conv_nth)
    let ?c = "json_items (json_field ''candidates'' ?v) ! k"
    have "read_group spelt p r d ?c = Inr g" using list_all2_nthD2 [OF read_gs k(1)] k(2) by simp
    moreover have "json_items (json_field ''members'' ?c) \<noteq> []"
      using k(1) list_all2_lengthD [OF read_gs] by (intro read_candidates_members [OF rows] nth_mem) simp
    ultimately show ?thesis using read_group_facts by blast
  qed
  have "\<forall>g\<in>set (as_groups (evidence_assessment space quality ?v gs)). gr_members g \<noteq> [] \<and> (\<forall>m\<in>set (gr_members g). authoritative p r (gr_identity g) d m)"
    unfolding groups using live by blast
  from that [OF n read_evidence_facts(1) [OF read] _ this dec] sorted groups show thesis by simp
qed


section \<open>A run ready to be accepted\<close>

text \<open>
  Run 3 of source 1: the face 12 looks like representation 21 of identity 1 (similarity 3/4 over a
  threshold of 1/2), the face 13 is not good enough to be recognised.
\<close>

definition sample_quality :: "real \<Rightarrow> json" where
  "sample_quality q = JObj [(''schema_version'', JInt 1), (''detection_score'', JFloat q)]"

definition sample_policy_json :: json where
  "sample_policy_json = JObj [(''version'', JStr ''v1''), (''min_detection_score'', JFloat (1/2)), (''match_threshold'', JFloat (1/2)),
     (''margin'', JFloat (1/4)), (''new_identity_ceiling'', JFloat (1/4))]"

definition sample_evidence_json :: "string \<Rightarrow> string \<Rightarrow> json \<Rightarrow> real \<Rightarrow> int \<Rightarrow> json list \<Rightarrow> json" where
  "sample_evidence_json out why ident q returned cs = JObj [(''schema_version'', JInt 1), (''outcome'', JStr out), (''reason'', JStr why),
     (''identity_id'', ident), (''assessment_version'', JStr ''recognition-assessment-v2''), (''interpretation'', JStr ''COSINE_UNCALIBRATED''),
     (''representation_space_id'', JUuid 5), (''quality'', JObj [(''detection_score'', JFloat q)]),
     (''retrieval'', JObj [(''requested_k'', JInt 5), (''returned'', JInt returned), (''dropped'', JInt 0), (''converged'', JBool True)]),
     (''candidates'', JList cs), (''margin'', JNull), (''policy'', sample_policy_json)]"

definition sample_candidates :: "json list" where
  "sample_candidates = [JObj [(''rank'', JInt 1), (''identity_id'', JUuid 1), (''similarity'', JFloat (3/4)),
     (''members'', JList [JObj [(''representation_id'', JUuid 21), (''pool'', JStr ''GLOBAL''), (''similarity'', JFloat (3/4))]])]]"

definition sample_final :: json where
  "sample_final = JObj [(''schema_version'', JInt 1), (''observations'', JList [JUuid 12, JUuid 13]), (''decisions'', JList
     [JObj [(''observation_id'', JUuid 12), (''representation_id'', JUuid 22), (''outcome'', JStr ''MATCH_EXISTING''), (''reason'', JStr ''MATCHED''),
        (''identity_id'', JUuid 1), (''evidence'', sample_evidence_json ''MATCH_EXISTING'' ''MATCHED'' (JUuid 1) 1 1 sample_candidates)],
      JObj [(''observation_id'', JUuid 13), (''representation_id'', JUuid 23), (''outcome'', JStr ''ABSTAIN''), (''reason'', JStr ''LOW_QUALITY''),
        (''identity_id'', JNull), (''evidence'', sample_evidence_json ''ABSTAIN'' ''LOW_QUALITY'' JNull (1/4) 0 [])]])]"

definition sample_face :: "uuid \<Rightarrow> uuid \<Rightarrow> real \<Rightarrow> observation" where
  "sample_face i run q = \<lparr>o_id = i, o_source = 1, o_run = run, o_segment = 4, o_crop = None, o_state = O_PENDING, o_sequence = int i, o_created = 0,
     o_superseded_by = None, o_box = (0, 0, 1, 1), o_landmarks = JNull, o_quality = sample_quality q, o_component = 6, o_variant = None\<rparr>"

definition finalizing_db :: db where
  "finalizing_db = empty_db\<lparr>
     jobs := [sample_job\<lparr>j_run := Some 3, j_state := J_RUNNING\<rparr>],
     runs := [\<lparr>p_id = 3, p_source = 1, p_snapshot = 4, p_parent = None, p_state = P_FINALIZING, p_requested = 0, p_started = Some 1,
        p_completed = None, p_failed = None, p_code = None, p_detail = None, p_checkpoint = Some 8, p_rev = 1, p_created = 0, p_updated = 0\<rparr>],
     snapshots := [\<lparr>n_id = 4, n_version = 1, n_json = JObj [(''schema_version'', JInt 1), (''decision_policy'',
        JObj ((''schema_version'', JInt 1) # fields_of sample_policy_json))], n_created = 0, n_action = None\<rparr>],
     checkpoints := [\<lparr>k_id = 8, k_run = 3, k_segment = Some 4, k_ordinal = 1, k_kind = K_FINAL, k_state = K_VALID, k_version = 1,
        k_payload = sample_final, k_created = 2, k_invalidated = None, k_reason = None\<rparr>],
     sources := [\<lparr>c_id = 1, c_kind = S_IMAGE, c_state = S_ACTIVE, c_name = ''a'', c_original = 2, c_thumbnail = None, c_run = None, c_rev = 1,
        c_created = 0, c_updated = 0, c_recycled = None, c_captured = None, c_duration = None, c_width = None, c_height = None, c_rate = (None, None)\<rparr>],
     artifacts := [\<lparr>f_id = 2, f_kind = SOURCE_ORIGINAL, f_mode = MANAGED, f_state = A_AVAILABLE, f_key = Some ''k'', f_path = None, f_sha = None,
        f_size = None, f_created = 0, f_available = None, f_delete_requested = None, f_deleted = None, f_code = None, f_detail = None,
        f_mime = None, f_filename = None\<rparr>],
     spaces := spaces sample_db, ann_sequences := ann_sequences sample_db,
     observations := [sample_face 12 3 1, sample_face 13 3 (1/4)],
     identities := [new_identity 1 I_ACTIVE None (Some 11) 0 (Some 0) 0],
     reps := [(sample_rep 21 11 (Some 1) R_ACTIVE (Some 1))\<lparr>r_run := 2\<rparr>, sample_rep 22 12 (Some 1) R_PENDING None, sample_rep 23 13 None R_PENDING None]\<rparr>"

lemma finalizing_db_ok:
  "memory_ok finalizing_db" "coherent finalizing_db" "currents_ok finalizing_db"
  "tab_keyed c_id (sources finalizing_db)" "tab_keyed o_id (observations finalizing_db)"
proof -
  have "identities_ok (identities finalizing_db)"
  proof -
    have "merge_edges (identities finalizing_db) = {}" by (simp add: finalizing_db_def)
    moreover have "list_all identity_row_ok (identities finalizing_db) \<and> tab_keyed i_id (identities finalizing_db)
        \<and> list_all (\<lambda>x. i_merged_into x = None) (identities finalizing_db)"
      by code_simp
    ultimately show ?thesis by (simp add: identities_ok_def acyclic_def list_all_iff)
  qed
  moreover have "reps_ok (reps finalizing_db)" by code_simp
  moreover have "keys_below (reps finalizing_db) (ann_sequences finalizing_db)"
    by (simp add: keys_below_def finalizing_db_def sample_db_def sample_rep_def next_key_def tab_get_Cons)
  moreover have "queue_inv (index_ops finalizing_db)" by code_simp
  moreover have "associations_ok (associations finalizing_db)" by code_simp
  moreover have "tab_keyed oc_id (occurrences finalizing_db)" by code_simp
  moreover have "owned_ok (identities finalizing_db) (reps finalizing_db) (occurrences finalizing_db) (associations finalizing_db)"
    by (simp add: owned_ok_def finalizing_db_def empty_db_def sample_rep_def active_id_def tab_get_Cons)
  ultimately show "memory_ok finalizing_db" by (simp add: memory_ok_def)
  have "attempt_of finalizing_db r = (if r = 3 then att J_RUNNING P_FINALIZING False else no_attempt)" for r
    by (simp add: attempt_of_def finalizing_db_def empty_db_def job_of_def tab_get_Cons sample_job_def running_segment_def)
  then have "range (attempt_of finalizing_db) \<subseteq> lawful_attempts" by (auto simp: lawful_attempts_def)
  moreover have "segments_inv (segments finalizing_db)"
    by (simp add: segments_inv_def finalizing_db_def empty_db_def tab_keyed_def unique_where_def ordinals_dense_def)
  ultimately show "coherent finalizing_db"
    by (simp add: coherent_def finalizing_db_def empty_db_def tab_keyed_def unique_where_def)
  show "currents_ok finalizing_db" by (simp add: currents_ok_def finalizing_db_def)
  show "tab_keyed c_id (sources finalizing_db)" "tab_keyed o_id (observations finalizing_db)" by code_simp+
qed

text \<open>The logarithm in \<open>fl\<close> is not computed: no sample needs it.\<close>

declare fl_exp_def [code del]

lemma finalizing_db_accepts:
  obtains d' where "accept_run (\<lambda>_. None) (\<lambda>_. 9) (\<lambda>n. 100 + n) 3 finalizing_db = Inr (False, d')"
    "map r_identity (reps d') = [Some 1, Some 1, None]" "map r_key (reps d') = [Some 1, Some 2, Some 3]"
proof -
  let ?a = "accept_run (\<lambda>_. None) (\<lambda>_. 9) (\<lambda>n. 100 + n) 3 finalizing_db"
  have "case ?a of Inr (b, d) \<Rightarrow> \<not> b \<and> map r_identity (reps d) = [Some 1, Some 1, None] \<and> map r_key (reps d) = [Some 1, Some 2, Some 3]
     | Inl e \<Rightarrow> False"
    by code_simp
  then show thesis using that by (cases ?a) auto
qed

lemma acceptance_commits_exactly_the_private_output_witness:
  "\<exists>d'. accept_run (\<lambda>_. None) (\<lambda>_. 9) (\<lambda>n. 100 + n) 3 finalizing_db = Inr (False, d') \<and> memory_ok d' \<and> coherent d' \<and>
     map r_key (reps d') = [Some 1, Some 2, Some 3]"
proof -
  obtain d' where d': "accept_run (\<lambda>_. None) (\<lambda>_. 9) (\<lambda>n. 100 + n) 3 finalizing_db = Inr (False, d')"
    "map r_key (reps d') = [Some 1, Some 2, Some 3]"
    by (rule finalizing_db_accepts)
  note ok = acceptance_commits_exactly_the_private_output [OF finalizing_db_ok d'(1)]
  show ?thesis by (intro exI [of _ d'] conjI d' conjunct1 [OF ok] conjunct1 [OF conjunct2 [OF ok]])
qed


text \<open>
  What a run that was accepted before answers: it is only checked, never written again.
\<close>

lemma accept_run_again:
  assumes "tab_get p_id (runs d) i = Some p" and "p_state p = P_COMPLETED" and "accept_run spelt clock ids i d = Inr (b, d')"
  shows "b \<and> d' = d"
  using assms by (auto simp: accept_run_def bindE_Inr_iff split: if_splits)

end
