(* ===== verification/Runner.thy ===== *)
theory Runner
  imports Acceptance
begin

text \<open>
  Around acceptance: the use case with its wake of the index, one round of the scheduler loop
  (\<open>backend/app/processing/runner.py\<close>), and what startup recovery does with the runs it finds
  FINALIZING (\<open>backend/app/recovery/startup.py: accept_finalizing_runs\<close>). The executor is the injected
  argument \<open>execute\<close>; \<open>wake\<close> is the injected callback, which answers with the class name of the exception
  it raised, if any.
\<close>

section \<open>The use case\<close>

datatype accepting =
    Accepted bool               \<comment> \<open>committed; was it accepted before?\<close>
  | WakeFailed string           \<comment> \<open>committed, then the wake raised\<close>
  | RefusedFinal string         \<comment> \<open>\<open>AcceptanceError\<close>\<close>
  | AcceptRaised accept_error   \<comment> \<open>any other exception before the commit\<close>

fun refusal :: "accept_error \<Rightarrow> string option" where
  "refusal (Refused m) = Some m"
| "refusal (RunRefused (Acceptance m)) = Some m"
| "refusal _ = None"

definition accept_processing_run ::
  "(string \<Rightarrow> uuid option) \<Rightarrow> (nat \<Rightarrow> time) \<Rightarrow> id_supply \<Rightarrow> (db \<Rightarrow> string option) \<Rightarrow> uuid \<Rightarrow> db \<Rightarrow> accepting \<times> db" where
  "accept_processing_run spelt clock ids wake i d =
     (case accept_run spelt clock ids i d of
        Inl e \<Rightarrow> (case refusal e of Some m \<Rightarrow> RefusedFinal m | None \<Rightarrow> AcceptRaised e, d)
      | Inr (already, d') \<Rightarrow> (case wake d' of None \<Rightarrow> Accepted already | Some error \<Rightarrow> WakeFailed error, d'))"

definition run_state_of :: "uuid \<Rightarrow> db \<Rightarrow> run_state option" where
  "run_state_of i d = map_option p_state (tab_get p_id (runs d) i)"

section \<open>One round of the runner\<close>

datatype executed = Executed | WasCancelled | SettledFailure string | Defect string

datatype outcome_kind = IDLE | ACCEPTED | RUN_CANCELLED | FAILED | NOT_ACCEPTABLE

record run_outcome =
  ro_kind :: outcome_kind
  ro_run :: "uuid option"
  ro_error :: "string option"
  ro_wake :: "string option"

datatype runner_error = ClaimFailed run_error | Unexpected string | AcceptFailed accept_error | RefuseFailed run_error

definition outcome_is :: "outcome_kind \<Rightarrow> uuid \<Rightarrow> string option \<Rightarrow> string option \<Rightarrow> run_outcome" where
  "outcome_is k i e w = \<lparr>ro_kind = k, ro_run = Some i, ro_error = e, ro_wake = w\<rparr>"

definition settle_accepting :: "started \<Rightarrow> uuid \<Rightarrow> time \<Rightarrow> accepting \<times> db \<Rightarrow> (runner_error + run_outcome) \<times> db" where
  "settle_accepting st i now result =
     (case result of
        (RefusedFinal m, d) \<Rightarrow>
          (case runner_refuse_final i (cj_id (st_job st)) m now d of
             Inl e \<Rightarrow> (Inl (RefuseFailed e), d)
           | Inr d' \<Rightarrow> (Inr (outcome_is NOT_ACCEPTABLE i (Some ''AcceptanceError'') None), d'))
      | (AcceptRaised e, d) \<Rightarrow>
          (if run_state_of i d \<noteq> Some P_COMPLETED then (Inl (AcceptFailed e), d)
           else (Inr (outcome_is ACCEPTED i None (Some ''Exception'')), d))
      | (WakeFailed e, d) \<Rightarrow>
          (if run_state_of i d \<noteq> Some P_COMPLETED then (Inl (Unexpected e), d)
           else (Inr (outcome_is ACCEPTED i None (Some e)), d))
      | (Accepted _, d) \<Rightarrow> (Inr (outcome_is ACCEPTED i None None), d))"

text \<open>
  \<open>run_once\<close>. The notification \<open>on_started\<close> touches nothing here. The claim of a job without a run is
  failed by the scheduler and never returned, so a started job has one.
\<close>

definition run_once ::
  "string \<Rightarrow> time \<Rightarrow> time \<Rightarrow> uuid \<Rightarrow> (started \<Rightarrow> db \<Rightarrow> executed \<times> db) \<Rightarrow> (db \<Rightarrow> uuid \<Rightarrow> accepting \<times> db) \<Rightarrow> time \<Rightarrow> time \<Rightarrow> db
   \<Rightarrow> (runner_error + run_outcome) \<times> db" where
  "run_once owner now lease_for segment_id execute accept failed_at refused_at d =
     (case claim_source_job owner now lease_for segment_id d of
        Inl e \<Rightarrow> (Inl (ClaimFailed e), d)
      | Inr (None, d1) \<Rightarrow> (Inr \<lparr>ro_kind = IDLE, ro_run = None, ro_error = None, ro_wake = None\<rparr>, d1)
      | Inr (Some st, d1) \<Rightarrow>
          (case cj_run (st_job st) of
             None \<Rightarrow> (Inl (Unexpected ''AssertionError''), d1)
           | Some i \<Rightarrow>
               (case execute st d1 of
                  (WasCancelled, d2) \<Rightarrow> (Inr (outcome_is RUN_CANCELLED i None None), d2)
                | (SettledFailure e, d2) \<Rightarrow> (Inr (outcome_is FAILED i (Some e) None), d2)
                | (Defect e, d2) \<Rightarrow> (Inl (Unexpected e), executor_fail st ''UNEXPECTED_ERROR'' failed_at d2)
                | (Executed, d2) \<Rightarrow> settle_accepting st i refused_at (accept d2 i))))"

section \<open>Startup: the runs found FINALIZING\<close>

record finalizing_work =
  fw_accepted :: "uuid list"
  fw_wake_failures :: "uuid list"
  fw_not_resumable :: "uuid list"

fun accept_each ::
  "(db \<Rightarrow> uuid \<Rightarrow> accepting \<times> db) \<Rightarrow> (nat \<Rightarrow> time) \<Rightarrow> uuid list \<Rightarrow> finalizing_work \<Rightarrow> db \<Rightarrow> (accept_error + finalizing_work) \<times> db"
where
  "accept_each accept clock [] w d = (Inr w, d)"
| "accept_each accept clock (i # is) w d =
     (case accept d i of
        (Accepted _, d') \<Rightarrow> accept_each accept clock is (w\<lparr>fw_accepted := fw_accepted w @ [i]\<rparr>) d'
      | (RefusedFinal m, d') \<Rightarrow>
          accept_each accept (\<lambda>n. clock (Suc n)) is (w\<lparr>fw_not_resumable := fw_not_resumable w @ [i]\<rparr>)
            (mark_run_not_resumable i m (clock 0) d')
      | (WakeFailed e, d') \<Rightarrow>
          (if run_state_of i d' \<noteq> Some P_COMPLETED then (Inl PythonTypeError, d')
           else accept_each accept clock is
                  (w\<lparr>fw_accepted := fw_accepted w @ [i], fw_wake_failures := fw_wake_failures w @ [i]\<rparr>) d')
      | (AcceptRaised e, d') \<Rightarrow>
          (if run_state_of i d' \<noteq> Some P_COMPLETED then (Inl e, d')
           else accept_each accept clock is
                  (w\<lparr>fw_accepted := fw_accepted w @ [i], fw_wake_failures := fw_wake_failures w @ [i]\<rparr>) d'))"

definition accept_finalizing_runs ::
  "(db \<Rightarrow> uuid \<Rightarrow> accepting \<times> db) \<Rightarrow> (nat \<Rightarrow> time) \<Rightarrow> db \<Rightarrow> (accept_error + finalizing_work) \<times> db" where
  "accept_finalizing_runs accept clock d =
     accept_each accept clock (finalizing_run_ids (runs d)) \<lparr>fw_accepted = [], fw_wake_failures = [], fw_not_resumable = []\<rparr> d"

section \<open>What acceptance does to the runs\<close>

text \<open>The invariants an open library has; the current run of a source is COMPLETED.\<close>

definition currents_completed :: "db \<Rightarrow> bool" where
  "currents_completed d \<longleftrightarrow> (\<forall>c\<in>set (sources d). \<forall>i. c_run c = Some i \<longrightarrow>
     (\<exists>p\<in>set (runs d). p_id p = i \<and> p_source p = c_id c \<and> p_state p = P_COMPLETED))"

definition open_library :: "db \<Rightarrow> bool" where
  "open_library d \<longleftrightarrow> memory_ok d \<and> coherent d \<and> currents_completed d \<and> tab_keyed c_id (sources d) \<and> tab_keyed o_id (observations d)"

lemma currents_completed_ok: "currents_completed d \<Longrightarrow> currents_ok d"
  by (fastforce simp: currents_completed_def currents_ok_def own_accepted_run_def acceptable_run_states_def list_ex_iff)

lemma accept_run_open:
  assumes ok: "open_library d" and run: "accept_run spelt clock ids i d = Inr (b, d')"
  shows "open_library d'" and "run_state_of i d' = Some P_COMPLETED"
    and "\<And>k. k \<noteq> i \<Longrightarrow> tab_get p_id (runs d') k = tab_get p_id (runs d) k"
proof -
  have all: "open_library d' \<and> run_state_of i d' = Some P_COMPLETED \<and> (\<forall>k. k \<noteq> i \<longrightarrow> tab_get p_id (runs d') k = tab_get p_id (runs d) k)"
  proof (cases b)
    case True
    then obtain p where "tab_get p_id (runs d) i = Some p" "p_state p = P_COMPLETED" "d' = d"
      using run by (auto simp: accept_run_def bindE_Inr_iff split: option.splits if_splits)
    with ok show ?thesis by (simp add: run_state_of_def)
  next
    case False
    note inv = ok [unfolded open_library_def]
    have cur: "currents_ok d" using inv currents_completed_ok by blast
    have run': "accept_run spelt clock ids i d = Inr (False, d')" using run False by simp
    obtain p obs ds c j es ocs d1 n where p: "tab_get p_id (runs d) i = Some p" and c: "tab_get c_id (sources d) (p_source p) = Some c"
      and dd: "decisions_done spelt p c (clock 0) ds es ocs d d1" and d': "d' = committed p c j obs (clock 0) d1" and coh: "coherent d'"
      by (rule accept_run_effect [OF _ _ cur _ _ run']) (use inv in blast)+
    have pin: "p_id p = i" and cin: "c_id c = p_source p" using tab_get_SomeD [OF p] tab_get_SomeD [OF c] by auto
    have "memory_ok d1" and "same_work d d1" using decisions_done_frame [OF _ dd] inv by blast+
    note same = \<open>same_work d d1\<close> [unfolded same_work_def]
    let ?p = "bump_run (p\<lparr>p_state := P_COMPLETED, p_completed := Some (clock 0), p_updated := clock 0\<rparr>)"
    have runs': "runs d' = tab_update (\<lambda>q. p_id q = i) (\<lambda>q. if p_id q = i then ?p else q) (runs d)"
      using same pin by (simp add: d' committed_def tab_update_def)
    have get: "tab_get p_id (runs d') k = map_option (\<lambda>q. if p_id q = i then ?p else q) (tab_get p_id (runs d) k)" for k
    proof -
      have "tab_get p_id (tab_update (\<lambda>q. p_id q = i) (\<lambda>q. if p_id q = i then ?p else q) (runs d)) k =
          map_option (\<lambda>q. if p_id q = i then if p_id q = i then ?p else q else q) (tab_get p_id (runs d) k)"
        by (rule tab_get_update) (simp add: pin bump_run_def)
      then show ?thesis unfolding runs' by (simp cong: if_cong)
    qed
    have other: "tab_get p_id (runs d') k = tab_get p_id (runs d) k" if "k \<noteq> i" for k
      using that by (cases "tab_get p_id (runs d) k") (auto simp: get dest: tab_get_SomeD)
    have "currents_completed d'"
      unfolding currents_completed_def
    proof (intro ballI allI impI)
      fix x k assume x: "x \<in> set (sources d')" "c_run x = Some k"
      then obtain y where y: "y \<in> set (sources d)"
        "x = (if c_id y = c_id c then y\<lparr>c_run := Some (p_id p), c_updated := clock 0, c_rev := c_rev c + 1\<rparr> else y)"
        using same by (auto simp: d' committed_def elim: in_tab_updateE)
      have pm: "?p \<in> set (runs d')" using get [of i] p pin by (auto dest: tab_get_SomeD)
      have "\<exists>q\<in>set (runs d'). p_id q = k \<and> p_source q = c_id y \<and> p_state q = P_COMPLETED" if was: "c_run y = Some k"
      proof -
        obtain q where q: "q \<in> set (runs d)" "p_id q = k" "p_source q = c_id y" "p_state q = P_COMPLETED"
          using inv y(1) was by (auto simp: currents_completed_def)
        have "tab_get p_id (runs d) k = Some q" using tab_get_in [OF coherent_facts(3) q(1)] inv q(2) by blast
        show ?thesis
        proof (cases "k = i")
          case True
          with p q \<open>tab_get p_id (runs d) k = Some q\<close> pin pm show ?thesis by (intro bexI [of _ ?p]) (auto simp: bump_run_def)
        next
          case False
          then have "q \<in> set (runs d')" using other [of k] \<open>tab_get p_id (runs d) k = Some q\<close> by (auto dest: tab_get_SomeD)
          with q show ?thesis by blast
        qed
      qed
      with pm show "\<exists>q\<in>set (runs d'). p_id q = k \<and> p_source q = c_id x \<and> p_state q = P_COMPLETED"
        using x(2) y(2) pin cin by (cases "c_id y = c_id c") (auto simp: bump_run_def intro!: bexI [of _ ?p])
    qed
    moreover have "memory_ok d'" using \<open>memory_ok d1\<close> by (simp add: d' committed_def memory_ok_def)
    moreover have "tab_keyed c_id (sources d')" "tab_keyed o_id (observations d')"
      using inv same by (simp_all add: d' committed_def tab_keyed_update)
    ultimately show ?thesis
      using coh other get [of i] p pin by (simp add: open_library_def run_state_of_def bump_run_def)
  qed
  then show "open_library d'" "run_state_of i d' = Some P_COMPLETED"
    "\<And>k. k \<noteq> i \<Longrightarrow> tab_get p_id (runs d') k = tab_get p_id (runs d) k" by blast+
qed

lemma mark_run_not_resumable_get:
  "tab_get p_id (runs (mark_run_not_resumable i m now d)) k =
     map_option (\<lambda>p. if p_id p = i \<and> p_state p = P_FINALIZING
        then p\<lparr>p_state := P_NOT_RESUMABLE, p_rev := p_rev p + 1, p_code := Some ''FINAL_NOT_ACCEPTABLE'', p_detail := Some m, p_updated := now\<rparr>
        else p) (tab_get p_id (runs d) k)"
  by (simp add: mark_run_not_resumable_def tab_get_update)

lemma mark_run_not_resumable_open:
  assumes "open_library d"
  shows "open_library (mark_run_not_resumable i m now d)"
proof -
  have "coherent (mark_run_not_resumable i m now d)"
    using mark_run_not_resumable_refines assms by (simp add: open_library_def refines_def)
  moreover have "currents_completed (mark_run_not_resumable i m now d)"
    unfolding currents_completed_def
  proof (intro ballI allI impI)
    fix c k assume "c \<in> set (sources (mark_run_not_resumable i m now d))" "c_run c = Some k"
    then obtain p where "p \<in> set (runs d)" "p_id p = k" "p_source p = c_id c" "p_state p = P_COMPLETED"
      using assms by (auto simp: open_library_def currents_completed_def mark_run_not_resumable_def)
    then show "\<exists>p\<in>set (runs (mark_run_not_resumable i m now d)). p_id p = k \<and> p_source p = c_id c \<and> p_state p = P_COMPLETED"
      by (intro bexI [of _ p]) (auto simp: mark_run_not_resumable_def set_tab_update image_iff intro!: bexI [of _ p])
  qed
  ultimately show ?thesis using assms by (simp add: open_library_def mark_run_not_resumable_def memory_ok_def)
qed

text \<open>Any sequence of calls of the use case: each call has its own ids, times and wake.\<close>

definition is_acceptance :: "(string \<Rightarrow> uuid option) \<Rightarrow> (db \<Rightarrow> uuid \<Rightarrow> accepting \<times> db) \<Rightarrow> bool" where
  "is_acceptance spelt accept \<longleftrightarrow> (\<forall>d i. \<exists>clock ids wake. accept d i = accept_processing_run spelt clock ids wake i d)"

lemma acceptance_cases:
  assumes acc: "is_acceptance spelt accept" and opened: "open_library d" and res: "accept d i = (res, d')"
  obtains (ok) "open_library d'" "run_state_of i d' = Some P_COMPLETED" "\<And>k. k \<noteq> i \<Longrightarrow> tab_get p_id (runs d') k = tab_get p_id (runs d) k"
      "(\<exists>b. res = Accepted b) \<or> (\<exists>e. res = WakeFailed e)"
  | (refused) m where "res = RefusedFinal m" "d' = d"
  | (raised) e where "res = AcceptRaised e" "d' = d"
proof -
  obtain clock ids wake where call: "accept d i = accept_processing_run spelt clock ids wake i d"
    using acc unfolding is_acceptance_def by blast
  show thesis
  proof (cases "accept_run spelt clock ids i d")
    case (Inl e)
    with res call refused raised show thesis by (cases "refusal e") (auto simp: accept_processing_run_def)
  next
    case (Inr bd)
    obtain b d1 where bd: "bd = (b, d1)" by (cases bd)
    have d1: "d' = d1" "(\<exists>b. res = Accepted b) \<or> (\<exists>e. res = WakeFailed e)"
      using res call by (auto simp: accept_processing_run_def Inr bd split: option.splits)
    show thesis
      using ok accept_run_open [OF opened Inr [unfolded bd]] d1 by blast
  qed
qed

lemma run_state_of_mark:
  "run_state_of k (mark_run_not_resumable i m now d) =
     (if k = i \<and> run_state_of k d = Some P_FINALIZING then Some P_NOT_RESUMABLE else run_state_of k d)"
  by (cases "tab_get p_id (runs d) k") (auto simp: run_state_of_def mark_run_not_resumable_get dest: tab_get_SomeD)

lemma run_state_of_cong: "tab_get p_id (runs d') k = tab_get p_id (runs d) k \<Longrightarrow> run_state_of k d' = run_state_of k d"
  by (simp add: run_state_of_def)

lemma accept_each_settles:
  assumes "is_acceptance spelt accept" and "open_library d" and "distinct is"
    and "\<forall>i\<in>set is. run_state_of i d = Some P_FINALIZING" and "accept_each accept clock is w d = (r, d')"
  shows "open_library d' \<and> (\<forall>k. k \<notin> set is \<longrightarrow> run_state_of k d' = run_state_of k d) \<and>
    (\<forall>w'. r = Inr w' \<longrightarrow>
       (\<exists>as ns. fw_accepted w' = fw_accepted w @ as \<and> fw_not_resumable w' = fw_not_resumable w @ ns \<and> set as \<union> set ns = set is \<and>
          (\<forall>k\<in>set as. run_state_of k d' = Some P_COMPLETED) \<and> (\<forall>k\<in>set ns. run_state_of k d' = Some P_NOT_RESUMABLE)))"
  using assms(2-)
proof (induction "is" arbitrary: d w clock)
  case (Cons i "is")
  obtain res d1 where res: "accept d i = (res, d1)" by force
  have tail: "\<forall>k\<in>set is. run_state_of k d2 = Some P_FINALIZING" if "\<And>k. k \<noteq> i \<Longrightarrow> run_state_of k d2 = run_state_of k d" for d2
    using that Cons.prems(2,3) by (metis distinct.simps(2) list.set_intros(2))
  show ?case
  proof (cases rule: acceptance_cases [OF assms(1) Cons.prems(1) res])
    case 1
    then have rest: "\<And>k. k \<noteq> i \<Longrightarrow> run_state_of k d1 = run_state_of k d" by (auto intro: run_state_of_cong)
    obtain w1 where w1: "accept_each accept clock is w1 d1 = (r, d')" "fw_accepted w1 = fw_accepted w @ [i]" "fw_not_resumable w1 = fw_not_resumable w"
      using Cons.prems(4) 1(2,4) by (fastforce simp: res)
    have IH: "open_library d'" "\<forall>k. k \<notin> set is \<longrightarrow> run_state_of k d' = run_state_of k d1"
      "\<forall>w'. r = Inr w' \<longrightarrow> (\<exists>as ns. fw_accepted w' = fw_accepted w1 @ as \<and> fw_not_resumable w' = fw_not_resumable w1 @ ns \<and> set as \<union> set ns = set is \<and>
          (\<forall>k\<in>set as. run_state_of k d' = Some P_COMPLETED) \<and> (\<forall>k\<in>set ns. run_state_of k d' = Some P_NOT_RESUMABLE))"
      using Cons.IH [OF 1(1) _ tail [OF rest] w1(1)] Cons.prems(2) by simp_all
    have own: "run_state_of i d' = Some P_COMPLETED" using IH(2) 1(2) Cons.prems(2) by simp
    have "\<exists>as ns. fw_accepted w' = fw_accepted w @ as \<and> fw_not_resumable w' = fw_not_resumable w @ ns \<and> set as \<union> set ns = set (i # is) \<and>
          (\<forall>k\<in>set as. run_state_of k d' = Some P_COMPLETED) \<and> (\<forall>k\<in>set ns. run_state_of k d' = Some P_NOT_RESUMABLE)" if w': "r = Inr w'" for w'
    proof -
      obtain as ns where "fw_accepted w' = fw_accepted w1 @ as" "fw_not_resumable w' = fw_not_resumable w1 @ ns" "set as \<union> set ns = set is"
          "\<forall>k\<in>set as. run_state_of k d' = Some P_COMPLETED" "\<forall>k\<in>set ns. run_state_of k d' = Some P_NOT_RESUMABLE"
        using IH(3) w' by blast
      with own w1(2,3) show ?thesis by (intro exI [of _ "i # as"] exI [of _ ns]) auto
    qed
    with IH(1,2) rest show ?thesis by auto
  next
    case (2 m)
    let ?d = "mark_run_not_resumable i m (clock 0) d"
    have rest: "\<And>k. k \<noteq> i \<Longrightarrow> run_state_of k ?d = run_state_of k d" by (simp add: run_state_of_mark)
    let ?w = "w\<lparr>fw_not_resumable := fw_not_resumable w @ [i]\<rparr>"
    have run: "accept_each accept (\<lambda>n. clock (Suc n)) is ?w ?d = (r, d')" using Cons.prems(4) 2 by (simp add: res)
    have IH: "open_library d'" "\<forall>k. k \<notin> set is \<longrightarrow> run_state_of k d' = run_state_of k ?d"
      "\<forall>w'. r = Inr w' \<longrightarrow> (\<exists>as ns. fw_accepted w' = fw_accepted ?w @ as \<and> fw_not_resumable w' = fw_not_resumable ?w @ ns \<and> set as \<union> set ns = set is \<and>
          (\<forall>k\<in>set as. run_state_of k d' = Some P_COMPLETED) \<and> (\<forall>k\<in>set ns. run_state_of k d' = Some P_NOT_RESUMABLE))"
      using Cons.IH [OF mark_run_not_resumable_open [OF Cons.prems(1)] _ tail [OF rest] run] Cons.prems(2) by simp_all
    have own: "run_state_of i d' = Some P_NOT_RESUMABLE" using IH(2) Cons.prems(2,3) by (simp add: run_state_of_mark)
    have "\<exists>as ns. fw_accepted w' = fw_accepted w @ as \<and> fw_not_resumable w' = fw_not_resumable w @ ns \<and> set as \<union> set ns = set (i # is) \<and>
          (\<forall>k\<in>set as. run_state_of k d' = Some P_COMPLETED) \<and> (\<forall>k\<in>set ns. run_state_of k d' = Some P_NOT_RESUMABLE)" if w': "r = Inr w'" for w'
    proof -
      obtain as ns where "fw_accepted w' = fw_accepted ?w @ as" "fw_not_resumable w' = fw_not_resumable ?w @ ns" "set as \<union> set ns = set is"
          "\<forall>k\<in>set as. run_state_of k d' = Some P_COMPLETED" "\<forall>k\<in>set ns. run_state_of k d' = Some P_NOT_RESUMABLE"
        using IH(3) w' by blast
      with own show ?thesis by (intro exI [of _ as] exI [of _ "i # ns"]) auto
    qed
    with IH(1,2) rest show ?thesis by auto
  next
    case (3 e)
    then have "r = Inl e \<and> d' = d" using Cons.prems(3,4) by (simp add: res split: if_splits)
    with Cons.prems(1) show ?thesis by simp
  qed
qed (auto intro!: exI [of _ "[]"])

text \<open>
  C14. Startup leaves no run half finished. Whatever the clock, the ids and the wakes of the index do,
  the library stays open (its invariants hold) even where recovery is aborted by an error; and when it
  is not aborted no run is FINALIZING any more: each run found FINALIZING is either COMPLETED and reported
  accepted, or NOT_RESUMABLE and reported so, and no other run moved.
\<close>

theorem startup_settles_finalizing_runs:
  assumes "is_acceptance spelt accept" and "open_library d" and "accept_finalizing_runs accept clock d = (r, d')"
  shows "open_library d' \<and>
    (\<forall>w. r = Inr w \<longrightarrow>
       (\<forall>k. run_state_of k d' \<noteq> Some P_FINALIZING) \<and>
       (\<forall>k. run_state_of k d = Some P_FINALIZING \<longrightarrow>
          (k \<in> set (fw_accepted w) \<and> run_state_of k d' = Some P_COMPLETED) \<or>
          (k \<in> set (fw_not_resumable w) \<and> run_state_of k d' = Some P_NOT_RESUMABLE)) \<and>
       (\<forall>k. run_state_of k d \<noteq> Some P_FINALIZING \<longrightarrow> run_state_of k d' = run_state_of k d))"
proof -
  let ?ids = "finalizing_run_ids (runs d)"
  have keyed: "tab_keyed p_id (runs d)" using assms(2) coherent_facts(3) by (simp add: open_library_def)
  have ids: "k \<in> set ?ids \<longleftrightarrow> run_state_of k d = Some P_FINALIZING" for k
    unfolding finalizing_run_ids_iff [OF keyed] by (auto simp: run_state_of_def)
  have dist: "distinct ?ids" using keyed by (simp add: finalizing_run_ids_def tab_keyed_def distinct_map_filter)
  have "\<forall>i\<in>set ?ids. run_state_of i d = Some P_FINALIZING" using ids by blast
  note settled = accept_each_settles [OF assms(1,2) dist this assms(3) [unfolded accept_finalizing_runs_def]]
  have opened: "open_library d'" and frame: "\<forall>k. k \<notin> set ?ids \<longrightarrow> run_state_of k d' = run_state_of k d"
    using settled by blast+
  have "(\<forall>k. run_state_of k d' \<noteq> Some P_FINALIZING) \<and>
       (\<forall>k. run_state_of k d = Some P_FINALIZING \<longrightarrow>
          (k \<in> set (fw_accepted w) \<and> run_state_of k d' = Some P_COMPLETED) \<or>
          (k \<in> set (fw_not_resumable w) \<and> run_state_of k d' = Some P_NOT_RESUMABLE))" if w: "r = Inr w" for w
  proof -
    obtain as ns where parts: "fw_accepted w = as" "fw_not_resumable w = ns" "set as \<union> set ns = set ?ids"
      "\<forall>k\<in>set as. run_state_of k d' = Some P_COMPLETED" "\<forall>k\<in>set ns. run_state_of k d' = Some P_NOT_RESUMABLE"
      using settled w by auto
    have own: "(k \<in> set as \<and> run_state_of k d' = Some P_COMPLETED) \<or> (k \<in> set ns \<and> run_state_of k d' = Some P_NOT_RESUMABLE)"
      if "run_state_of k d = Some P_FINALIZING" for k
    proof -
      have "k \<in> set as \<union> set ns" using that ids parts(3) by blast
      with parts(4,5) show ?thesis by blast
    qed
    moreover have "run_state_of k d' \<noteq> Some P_FINALIZING" for k
      using own [of k] frame ids by (cases "run_state_of k d = Some P_FINALIZING") auto
    ultimately show ?thesis by (simp add: parts(1,2))
  qed
  with opened frame ids show ?thesis by auto
qed

definition sample_accept :: "db \<Rightarrow> uuid \<Rightarrow> accepting \<times> db" where
  "sample_accept d i = accept_processing_run (\<lambda>_. None) (\<lambda>_. 9) (\<lambda>n. 100 + n) (\<lambda>_. Some ''OSError'') i d"

lemma finalizing_db_open: "open_library finalizing_db"
  using finalizing_db_ok by (simp add: open_library_def currents_completed_def finalizing_db_def)

lemma startup_settles_finalizing_runs_witness:
  "\<exists>w d'. accept_finalizing_runs sample_accept (\<lambda>_. 9) finalizing_db = (Inr w, d') \<and> fw_accepted w = [3] \<and> fw_wake_failures w = [3] \<and>
     open_library d' \<and> run_state_of 3 d' = Some P_COMPLETED"
proof -
  obtain r d' where run: "accept_finalizing_runs sample_accept (\<lambda>_. 9) finalizing_db = (r, d')" by force
  have "case fst (accept_finalizing_runs sample_accept (\<lambda>_. 9) finalizing_db) of
      Inr w \<Rightarrow> fw_accepted w = [3] \<and> fw_wake_failures w = [3] \<and> fw_not_resumable w = [] | Inl e \<Rightarrow> False"
    by code_simp
  then obtain w where w: "r = Inr w" "fw_accepted w = [3]" "fw_wake_failures w = [3]" "fw_not_resumable w = []"
    by (auto simp: run split: sum.splits)
  have "is_acceptance (\<lambda>_. None) sample_accept" by (auto simp: is_acceptance_def sample_accept_def)
  note settled = startup_settles_finalizing_runs [OF this finalizing_db_open run]
  have "run_state_of 3 finalizing_db = Some P_FINALIZING" by code_simp
  with mp [OF spec [OF conjunct2 [OF settled], of w] w(1)] have "run_state_of 3 d' = Some P_COMPLETED"
    unfolding w(4) by simp
  then show ?thesis using run [unfolded w(1)] w(2,3) conjunct1 [OF settled] by blast
qed

section \<open>A FINAL that is refused\<close>


text \<open>The library of the sample before run 3 was claimed, and an execution that ends in its FINAL.\<close>

definition queued_db :: db where
  "queued_db = finalizing_db\<lparr>jobs := [sample_job\<lparr>j_run := Some 3\<rparr>],
     runs := map (\<lambda>p. p\<lparr>p_state := P_PENDING, p_checkpoint := None\<rparr>) (runs finalizing_db), checkpoints := []\<rparr>"

definition sample_execution :: "started \<Rightarrow> db \<Rightarrow> executed \<times> db" where
  "sample_execution st d = (Executed, finalizing_db)"


section \<open>An error that acceptance does not name\<close>

text \<open>
  Evidence with two or more candidates and no margin is not refused: comparing \<open>None\<close> with a number
  raises a \<open>TypeError\<close>, which is no refusal, so the round raises instead of marking the run NOT_RESUMABLE
  and the run stays FINALIZING.
\<close>

theorem missing_margin_is_no_refusal:
  assumes "2 \<le> groups" and "json_field ''margin'' v = JNull"
  shows "margin_error v groups = Some PythonTypeError \<and> refusal PythonTypeError = None \<and>
    (run_state_of i d \<noteq> Some P_COMPLETED \<longrightarrow>
       fst (settle_accepting st i now (AcceptRaised PythonTypeError, d)) = Inl (AcceptFailed PythonTypeError) \<and>
       snd (settle_accepting st i now (AcceptRaised PythonTypeError, d)) = d)"
  using assms by (simp add: margin_error_def Let_def settle_accepting_def)

lemma missing_margin_is_no_refusal_witness:
  "margin_error (JObj [(''margin'', JNull), (''candidates'', JList [JNull, JNull])]) 2 = Some PythonTypeError"
  using missing_margin_is_no_refusal [of 2 "JObj [(''margin'', JNull), (''candidates'', JList [JNull, JNull])]" 1 empty_db] by simp

end
