(* ===== verification/Messages.thy ===== *)
theory Messages
  imports Floats Json_Values
begin

text \<open>
  The contract between the backend and the ML worker: the strict readers of \<open>ml/contracts/wire.py\<close>, the
  shared-memory descriptor (\<open>ml/contracts/shared_memory.py\<close>) and the requests and responses of
  \<open>ml/contracts/messages.py\<close>, each as a record with the check its constructor makes (\<open>..._valid\<close>), what
  it is on the wire (\<open>..._to_wire\<close>) and how it is read (\<open>..._from_wire\<close>). A contract error is its code;
  the text of the message is left out. Numbers are finite: a NaN or an infinity, which every reader
  refuses, is not a value here. A score, a box and a timing are held by their value, whether they came as
  \<open>int\<close> or \<open>float\<close>. The theorems say that a message which was built survives the wire, and that
  what is accepted from the wire is a message that could have been built.
\<close>

section \<open>The vocabulary\<close>

datatype ml_operation = DETECT_FACES | GENERATE_REPRESENTATIONS

datatype ml_status = SUCCESS | ERROR

datatype ml_error_code =
    INVALID_REQUEST | UNSUPPORTED_PROTOCOL_VERSION | COMPONENT_NOT_AVAILABLE | COMPONENT_LOAD_FAILED
  | RUNTIME_VARIANT_NOT_AVAILABLE | RUNTIME_INITIALIZATION_FAILED | INVALID_INPUT | INFERENCE_FAILED
  | OUT_OF_MEMORY | SHARED_MEMORY_UNAVAILABLE | SHARED_MEMORY_INVALID | INTERNAL_WORKER_ERROR

fun operation_value :: "ml_operation \<Rightarrow> string" where
  "operation_value DETECT_FACES = ''DETECT_FACES''"
| "operation_value GENERATE_REPRESENTATIONS = ''GENERATE_REPRESENTATIONS''"

fun status_value :: "ml_status \<Rightarrow> string" where
  "status_value SUCCESS = ''SUCCESS''"
| "status_value ERROR = ''ERROR''"

fun code_value :: "ml_error_code \<Rightarrow> string" where
  "code_value INVALID_REQUEST = ''INVALID_REQUEST''"
| "code_value UNSUPPORTED_PROTOCOL_VERSION = ''UNSUPPORTED_PROTOCOL_VERSION''"
| "code_value COMPONENT_NOT_AVAILABLE = ''COMPONENT_NOT_AVAILABLE''"
| "code_value COMPONENT_LOAD_FAILED = ''COMPONENT_LOAD_FAILED''"
| "code_value RUNTIME_VARIANT_NOT_AVAILABLE = ''RUNTIME_VARIANT_NOT_AVAILABLE''"
| "code_value RUNTIME_INITIALIZATION_FAILED = ''RUNTIME_INITIALIZATION_FAILED''"
| "code_value INVALID_INPUT = ''INVALID_INPUT''"
| "code_value INFERENCE_FAILED = ''INFERENCE_FAILED''"
| "code_value OUT_OF_MEMORY = ''OUT_OF_MEMORY''"
| "code_value SHARED_MEMORY_UNAVAILABLE = ''SHARED_MEMORY_UNAVAILABLE''"
| "code_value SHARED_MEMORY_INVALID = ''SHARED_MEMORY_INVALID''"
| "code_value INTERNAL_WORKER_ERROR = ''INTERNAL_WORKER_ERROR''"

definition all_codes :: "ml_error_code list" where
  "all_codes = [INVALID_REQUEST, UNSUPPORTED_PROTOCOL_VERSION, COMPONENT_NOT_AVAILABLE, COMPONENT_LOAD_FAILED,
     RUNTIME_VARIANT_NOT_AVAILABLE, RUNTIME_INITIALIZATION_FAILED, INVALID_INPUT, INFERENCE_FAILED,
     OUT_OF_MEMORY, SHARED_MEMORY_UNAVAILABLE, SHARED_MEMORY_INVALID, INTERNAL_WORKER_ERROR]"

section \<open>Strict readers\<close>

abbreviation invalid :: "ml_error_code + 'a" where
  "invalid \<equiv> Inl INVALID_REQUEST"

abbreviation check_that :: "bool \<Rightarrow> ml_error_code + unit" where
  "check_that p \<equiv> (if p then Inr () else invalid)"

text \<open>\<open>exact_keys\<close> of a mapping, after \<open>as_mapping\<close>.\<close>

definition mapping_with :: "json \<Rightarrow> string list \<Rightarrow> string list \<Rightarrow> ml_error_code + unit" where
  "mapping_with v required optional =
     (case v of
        JObj fs \<Rightarrow> check_that (set required \<subseteq> set (map fst fs) \<and> set (map fst fs) \<subseteq> set required \<union> set optional)
      | _ \<Rightarrow> invalid)"

fun wire_string :: "json \<Rightarrow> ml_error_code + string" where
  "wire_string (JStr s) = (if s = [] then invalid else Inr s)"
| "wire_string _ = invalid"

fun wire_integer :: "json \<Rightarrow> ml_error_code + int" where
  "wire_integer (JInt n) = Inr n"
| "wire_integer _ = invalid"

definition at_least :: "int \<Rightarrow> int \<Rightarrow> ml_error_code + int" where
  "at_least minimum n = (if n < minimum then invalid else Inr n)"

text \<open>\<open>number\<close>: \<open>float(value)\<close> of an \<open>int\<close> beyond the doubles raises.\<close>

fun wire_number :: "json \<Rightarrow> ml_error_code + real" where
  "wire_number (JInt n) = (if 2 ^ 1024 \<le> \<bar>fl (of_int n)\<bar> then invalid else Inr (fl (of_int n)))"
| "wire_number (JFloat x) = Inr x"
| "wire_number _ = invalid"

fun wire_boolean :: "json \<Rightarrow> ml_error_code + bool" where
  "wire_boolean (JBool b) = Inr b"
| "wire_boolean _ = invalid"

fun wire_sequence :: "json \<Rightarrow> ml_error_code + json list" where
  "wire_sequence (JList xs) = Inr xs"
| "wire_sequence _ = invalid"

fun wire_optional :: "(json \<Rightarrow> ml_error_code + 'a) \<Rightarrow> json \<Rightarrow> ml_error_code + 'a option" where
  "wire_optional f JNull = Inr None"
| "wire_optional f v = map_sum id Some (f v)"

fun wire_all :: "('a \<Rightarrow> ml_error_code + 'b) \<Rightarrow> 'a list \<Rightarrow> ml_error_code + 'b list" where
  "wire_all f [] = Inr []"
| "wire_all f (x # xs) = bindE (f x) (\<lambda>y. bindE (wire_all f xs) (\<lambda>ys. Inr (y # ys)))"

definition wire_error_code :: "json \<Rightarrow> ml_error_code + ml_error_code" where
  "wire_error_code v = bindE (wire_string v) (\<lambda>s.
     case find (\<lambda>c. code_value c = s) all_codes of None \<Rightarrow> invalid | Some c \<Rightarrow> Inr c)"

section \<open>The shared-memory descriptor\<close>

record descriptor =
  sd_name :: string
  sd_size :: int
  sd_dtype :: string
  sd_shape :: "int list"
  sd_strides :: "int list"
  sd_layout :: string
  sd_readonly :: bool

definition item_size :: "string \<Rightarrow> int option" where
  "item_size dtype = map_of [(''uint8'', 1), (''float32'', 4), (''float64'', 8), (''int32'', 4), (''int64'', 8)] dtype"

text \<open>The loop over the reversed dimensions, then reversed back.\<close>

fun strides_loop :: "int \<Rightarrow> int list \<Rightarrow> int list" where
  "strides_loop step [] = []"
| "strides_loop step (n # ns) = step # strides_loop (step * n) ns"

definition contiguous_strides :: "int list \<Rightarrow> int \<Rightarrow> int list" where
  "contiguous_strides shape item = rev (strides_loop item (rev shape))"

definition descriptor_valid :: "descriptor \<Rightarrow> bool" where
  "descriptor_valid x \<longleftrightarrow> sd_name x \<noteq> [] \<and> 1 \<le> sd_size x \<and> sd_dtype x \<noteq> [] \<and> sd_layout x \<noteq> [] \<and>
     (case item_size (sd_dtype x) of
        None \<Rightarrow> False
      | Some item \<Rightarrow> sd_layout x = ''C'' \<and> sd_shape x \<noteq> [] \<and> (\<forall>n\<in>set (sd_shape x). 1 \<le> n) \<and>
          sd_strides x = contiguous_strides (sd_shape x) item \<and> prod_list (sd_shape x) * item \<le> sd_size x)"

definition make_descriptor :: "descriptor \<Rightarrow> ml_error_code + descriptor" where
  "make_descriptor x = (if descriptor_valid x then Inr x else Inl SHARED_MEMORY_INVALID)"

definition descriptor_to_wire :: "descriptor \<Rightarrow> json" where
  "descriptor_to_wire x = JObj [(''name'', JStr (sd_name x)), (''size_bytes'', JInt (sd_size x)),
     (''dtype'', JStr (sd_dtype x)), (''shape'', JList (map JInt (sd_shape x))),
     (''strides'', JList (map JInt (sd_strides x))), (''layout'', JStr (sd_layout x)),
     (''readonly'', JBool (sd_readonly x))]"

definition positive_integer :: "json \<Rightarrow> ml_error_code + int" where
  "positive_integer v = bindE (wire_integer v) (at_least 1)"

text \<open>Every contract error of reading a descriptor becomes a shared-memory error.\<close>

definition descriptor_from_wire :: "json \<Rightarrow> ml_error_code + descriptor" where
  "descriptor_from_wire v =
     map_sum (\<lambda>_. SHARED_MEMORY_INVALID) id
      (bindE (mapping_with v [''name'', ''size_bytes'', ''dtype'', ''shape'', ''strides'', ''layout'', ''readonly''] []) (\<lambda>_.
       bindE (wire_string (json_field ''name'' v)) (\<lambda>name.
       bindE (positive_integer (json_field ''size_bytes'' v)) (\<lambda>n.
       bindE (wire_string (json_field ''dtype'' v)) (\<lambda>dtype.
       bindE (bindE (wire_sequence (json_field ''shape'' v)) (wire_all positive_integer)) (\<lambda>shape.
       bindE (bindE (wire_sequence (json_field ''strides'' v)) (wire_all positive_integer)) (\<lambda>strides.
       bindE (wire_string (json_field ''layout'' v)) (\<lambda>layout.
       bindE (wire_boolean (json_field ''readonly'' v)) (\<lambda>readonly.
       make_descriptor \<lparr>sd_name = name, sd_size = n, sd_dtype = dtype, sd_shape = shape, sd_strides = strides,
         sd_layout = layout, sd_readonly = readonly\<rparr>)))))))))"

text \<open>\<open>describe\<close>: a contiguous array in a segment, of exactly its size where none is given.\<close>

definition describe :: "string \<Rightarrow> string \<Rightarrow> int list \<Rightarrow> bool \<Rightarrow> int option \<Rightarrow> ml_error_code + descriptor" where
  "describe name dtype shape readonly size_bytes =
     (case item_size dtype of
        None \<Rightarrow> Inl SHARED_MEMORY_INVALID
      | Some item \<Rightarrow> make_descriptor
          \<lparr>sd_name = name, sd_size = (case size_bytes of None \<Rightarrow> prod_list shape * item | Some n \<Rightarrow> n),
           sd_dtype = dtype, sd_shape = shape, sd_strides = contiguous_strides shape item, sd_layout = ''C'',
           sd_readonly = readonly\<rparr>)"

section \<open>Boxes, landmarks and the context\<close>

type_synonym point = "real \<times> real"
type_synonym box = "real \<times> real \<times> real \<times> real"   \<comment> \<open>\<open>x0\<close>, \<open>y0\<close>, \<open>x1\<close>, \<open>y1\<close>\<close>

definition box_valid :: "box \<Rightarrow> bool" where
  "box_valid b \<longleftrightarrow> (case b of (x0, y0, x1, y1) \<Rightarrow> 0 \<le> x0 \<and> x0 < x1 \<and> x1 \<le> 1 \<and> 0 \<le> y0 \<and> y0 < y1 \<and> y1 \<le> 1)"

definition landmarks_valid :: "point list option \<Rightarrow> bool" where
  "landmarks_valid ls \<longleftrightarrow>
     (case ls of None \<Rightarrow> True | Some ps \<Rightarrow> \<forall>(x, y)\<in>set ps. 0 \<le> x \<and> x \<le> 1 \<and> 0 \<le> y \<and> y \<le> 1)"

definition box_to_wire :: "box \<Rightarrow> json" where
  "box_to_wire b = (case b of (x0, y0, x1, y1) \<Rightarrow> JList [JFloat x0, JFloat y0, JFloat x1, JFloat y1])"

definition landmarks_to_wire :: "point list option \<Rightarrow> json" where
  "landmarks_to_wire ls = (case ls of None \<Rightarrow> JNull | Some ps \<Rightarrow> JList (map (\<lambda>(x, y). JList [JFloat x, JFloat y]) ps))"

definition read_box :: "json \<Rightarrow> ml_error_code + box" where
  "read_box v = bindE (bindE (wire_sequence v) (wire_all wire_number)) (\<lambda>items.
     case items of
       [x0, y0, x1, y1] \<Rightarrow> if box_valid (x0, y0, x1, y1) then Inr (x0, y0, x1, y1) else invalid
     | _ \<Rightarrow> invalid)"

definition read_point :: "json \<Rightarrow> ml_error_code + real list" where
  "read_point v = bindE (wire_sequence v) (wire_all wire_number)"

fun as_point :: "real list \<Rightarrow> ml_error_code + point" where
  "as_point [x, y] = (if 0 \<le> x \<and> x \<le> 1 \<and> 0 \<le> y \<and> y \<le> 1 then Inr (x, y) else invalid)"
| "as_point _ = invalid"

definition read_landmarks :: "json \<Rightarrow> ml_error_code + point list option" where
  "read_landmarks v = wire_optional (\<lambda>v.
     bindE (bindE (wire_sequence v) (wire_all read_point)) (wire_all as_point)) v"

record execution_context =
  xc_job :: "string option"
  xc_run :: "string option"
  xc_segment :: "string option"

definition no_context :: execution_context where
  "no_context = \<lparr>xc_job = None, xc_run = None, xc_segment = None\<rparr>"

definition context_valid :: "execution_context \<Rightarrow> bool" where
  "context_valid c \<longleftrightarrow> xc_job c \<noteq> Some [] \<and> xc_run c \<noteq> Some [] \<and> xc_segment c \<noteq> Some []"

definition optional_json :: "string option \<Rightarrow> json" where
  "optional_json x = (case x of None \<Rightarrow> JNull | Some s \<Rightarrow> JStr s)"

definition context_to_wire :: "execution_context \<Rightarrow> json" where
  "context_to_wire c = JObj [(''job_id'', optional_json (xc_job c)), (''processing_run_id'', optional_json (xc_run c)),
     (''execution_segment_id'', optional_json (xc_segment c))]"

definition context_from_wire :: "json \<Rightarrow> ml_error_code + execution_context" where
  "context_from_wire v =
     bindE (mapping_with v [] [''job_id'', ''processing_run_id'', ''execution_segment_id'']) (\<lambda>_.
     bindE (wire_optional wire_string (json_field ''job_id'' v)) (\<lambda>j.
     bindE (wire_optional wire_string (json_field ''processing_run_id'' v)) (\<lambda>r.
     bindE (wire_optional wire_string (json_field ''execution_segment_id'' v)) (\<lambda>g.
     Inr \<lparr>xc_job = j, xc_run = r, xc_segment = g\<rparr>))))"

section \<open>Faces, detections and representations\<close>

record face_geometry =
  fg_input :: int
  fg_face :: int
  fg_box :: box
  fg_landmarks :: "point list option"

definition face_valid :: "face_geometry \<Rightarrow> bool" where
  "face_valid f \<longleftrightarrow> 0 \<le> fg_input f \<and> 0 \<le> fg_face f \<and> box_valid (fg_box f) \<and> landmarks_valid (fg_landmarks f)"

definition face_to_wire :: "face_geometry \<Rightarrow> json" where
  "face_to_wire f = JObj [(''input_index'', JInt (fg_input f)), (''face_index'', JInt (fg_face f)),
     (''box'', box_to_wire (fg_box f)), (''landmarks'', landmarks_to_wire (fg_landmarks f))]"

definition index_integer :: "json \<Rightarrow> ml_error_code + int" where
  "index_integer v = bindE (wire_integer v) (at_least 0)"

text \<open>The arguments of the constructor are read first (box, landmarks), then its own checks run.\<close>

definition face_from_wire :: "json \<Rightarrow> ml_error_code + face_geometry" where
  "face_from_wire v =
     bindE (mapping_with v [''input_index'', ''face_index'', ''box''] [''landmarks'']) (\<lambda>_.
     bindE (read_box (json_field ''box'' v)) (\<lambda>b.
     bindE (read_landmarks (json_field ''landmarks'' v)) (\<lambda>ls.
     bindE (index_integer (json_field ''input_index'' v)) (\<lambda>i.
     bindE (index_integer (json_field ''face_index'' v)) (\<lambda>k.
     Inr \<lparr>fg_input = i, fg_face = k, fg_box = b, fg_landmarks = ls\<rparr>)))))"

record detection =
  dn_input :: int
  dn_index :: int        \<comment> \<open>\<open>detection_index\<close>\<close>
  dn_box :: box
  dn_score :: real
  dn_landmarks :: "point list option"

definition detection_valid :: "detection \<Rightarrow> bool" where
  "detection_valid x \<longleftrightarrow> 0 \<le> dn_input x \<and> 0 \<le> dn_index x \<and> box_valid (dn_box x) \<and> landmarks_valid (dn_landmarks x)"

definition detection_to_wire :: "detection \<Rightarrow> json" where
  "detection_to_wire x = JObj [(''input_index'', JInt (dn_input x)), (''detection_index'', JInt (dn_index x)),
     (''box'', box_to_wire (dn_box x)), (''score'', JFloat (dn_score x)),
     (''landmarks'', landmarks_to_wire (dn_landmarks x))]"

definition detection_from_wire :: "json \<Rightarrow> ml_error_code + detection" where
  "detection_from_wire v =
     bindE (mapping_with v [''input_index'', ''detection_index'', ''box'', ''score''] [''landmarks'']) (\<lambda>_.
     bindE (read_box (json_field ''box'' v)) (\<lambda>b.
     bindE (read_landmarks (json_field ''landmarks'' v)) (\<lambda>ls.
     bindE (index_integer (json_field ''input_index'' v)) (\<lambda>i.
     bindE (index_integer (json_field ''detection_index'' v)) (\<lambda>k.
     bindE (wire_number (json_field ''score'' v)) (\<lambda>_.
     Inr \<lparr>dn_input = i, dn_index = k, dn_box = b, dn_score = the_number (json_field ''score'' v), dn_landmarks = ls\<rparr>))))))"

record representation_result =
  rr_input :: int
  rr_face :: int
  rr_dimension :: int
  rr_dtype :: string
  rr_normalization :: string
  rr_embedding :: descriptor

definition result_valid :: "representation_result \<Rightarrow> bool" where
  "result_valid r \<longleftrightarrow> 0 \<le> rr_input r \<and> 0 \<le> rr_face r \<and> 1 \<le> rr_dimension r \<and> rr_dtype r \<noteq> [] \<and>
     rr_normalization r \<noteq> [] \<and> descriptor_valid (rr_embedding r) \<and>
     sd_shape (rr_embedding r) = [rr_dimension r] \<and> sd_dtype (rr_embedding r) = rr_dtype r"

definition result_to_wire :: "representation_result \<Rightarrow> json" where
  "result_to_wire r = JObj [(''input_index'', JInt (rr_input r)), (''face_index'', JInt (rr_face r)),
     (''dimension'', JInt (rr_dimension r)), (''dtype'', JStr (rr_dtype r)),
     (''normalization'', JStr (rr_normalization r)), (''embedding'', descriptor_to_wire (rr_embedding r))]"

definition result_from_wire :: "json \<Rightarrow> ml_error_code + representation_result" where
  "result_from_wire v =
     bindE (mapping_with v [''input_index'', ''face_index'', ''dimension'', ''dtype'', ''normalization'', ''embedding''] []) (\<lambda>_.
     bindE (descriptor_from_wire (json_field ''embedding'' v)) (\<lambda>e.
     bindE (index_integer (json_field ''input_index'' v)) (\<lambda>i.
     bindE (index_integer (json_field ''face_index'' v)) (\<lambda>k.
     bindE (positive_integer (json_field ''dimension'' v)) (\<lambda>n.
     bindE (wire_string (json_field ''dtype'' v)) (\<lambda>dtype.
     bindE (wire_string (json_field ''normalization'' v)) (\<lambda>norm.
     if sd_shape e \<noteq> [n] \<or> sd_dtype e \<noteq> dtype then Inl SHARED_MEMORY_INVALID
     else Inr \<lparr>rr_input = i, rr_face = k, rr_dimension = n, rr_dtype = dtype, rr_normalization = norm,
            rr_embedding = e\<rparr>)))))))"

section \<open>Inputs and outputs\<close>

datatype ml_input = DetectInput "descriptor list" | RepresentInput "descriptor list" "face_geometry list"

datatype ml_output = DetectOutput "detection list" | RepresentOutput "representation_result list"

fun input_images :: "ml_input \<Rightarrow> descriptor list" where
  "input_images (DetectInput images) = images"
| "input_images (RepresentInput images faces) = images"

fun input_faces :: "ml_input \<Rightarrow> face_geometry list" where
  "input_faces (DetectInput images) = []"
| "input_faces (RepresentInput images faces) = faces"

definition is_image :: "descriptor \<Rightarrow> bool" where
  "is_image x \<longleftrightarrow> sd_dtype x = ''uint8'' \<and> length (sd_shape x) = 3 \<and> sd_shape x ! 2 = 3"

definition check_images :: "descriptor list \<Rightarrow> ml_error_code + unit" where
  "check_images images =
     (if images = [] then invalid else if list_all is_image images then Inr () else Inl INVALID_INPUT)"

definition read_images :: "json \<Rightarrow> ml_error_code + descriptor list" where
  "read_images v = bindE (wire_sequence v) (wire_all descriptor_from_wire)"

fun input_to_wire :: "ml_input \<Rightarrow> json" where
  "input_to_wire (DetectInput images) = JObj [(''images'', JList (map descriptor_to_wire images))]"
| "input_to_wire (RepresentInput images faces) =
     JObj [(''images'', JList (map descriptor_to_wire images)), (''faces'', JList (map face_to_wire faces))]"

fun input_from_wire :: "ml_operation \<Rightarrow> json \<Rightarrow> ml_error_code + ml_input" where
  "input_from_wire DETECT_FACES v =
     bindE (mapping_with v [''images''] []) (\<lambda>_.
     bindE (read_images (json_field ''images'' v)) (\<lambda>images.
     bindE (check_images images) (\<lambda>_. Inr (DetectInput images))))"
| "input_from_wire GENERATE_REPRESENTATIONS v =
     bindE (mapping_with v [''images'', ''faces''] []) (\<lambda>_.
     bindE (read_images (json_field ''images'' v)) (\<lambda>images.
     bindE (bindE (wire_sequence (json_field ''faces'' v)) (wire_all face_from_wire)) (\<lambda>faces.
     bindE (check_images images) (\<lambda>_.
     bindE (check_that (list_all (\<lambda>f. fg_input f < int (length images)) faces)) (\<lambda>_.
     Inr (RepresentInput images faces))))))"

fun output_to_wire :: "ml_output \<Rightarrow> json" where
  "output_to_wire (DetectOutput ds) = JObj [(''detections'', JList (map detection_to_wire ds))]"
| "output_to_wire (RepresentOutput rs) = JObj [(''representations'', JList (map result_to_wire rs))]"

fun output_from_wire :: "ml_operation \<Rightarrow> json \<Rightarrow> ml_error_code + ml_output" where
  "output_from_wire DETECT_FACES v =
     bindE (mapping_with v [''detections''] []) (\<lambda>_.
     bindE (bindE (wire_sequence (json_field ''detections'' v)) (wire_all detection_from_wire)) (\<lambda>ds.
     Inr (DetectOutput ds)))"
| "output_from_wire GENERATE_REPRESENTATIONS v =
     bindE (mapping_with v [''representations''] []) (\<lambda>_.
     bindE (bindE (wire_sequence (json_field ''representations'' v)) (wire_all result_from_wire)) (\<lambda>rs.
     Inr (RepresentOutput rs)))"

fun input_operation :: "ml_input \<Rightarrow> ml_operation" where
  "input_operation (DetectInput images) = DETECT_FACES"
| "input_operation (RepresentInput images faces) = GENERATE_REPRESENTATIONS"

fun output_operation :: "ml_output \<Rightarrow> ml_operation" where
  "output_operation (DetectOutput ds) = DETECT_FACES"
| "output_operation (RepresentOutput rs) = GENERATE_REPRESENTATIONS"

definition input_valid :: "ml_input \<Rightarrow> bool" where
  "input_valid i \<longleftrightarrow> input_images i \<noteq> [] \<and> (\<forall>x\<in>set (input_images i). descriptor_valid x \<and> is_image x) \<and>
     (\<forall>f\<in>set (input_faces i). face_valid f \<and> fg_input f < int (length (input_images i)))"

fun output_valid :: "ml_output \<Rightarrow> bool" where
  "output_valid (DetectOutput ds) \<longleftrightarrow> (\<forall>x\<in>set ds. detection_valid x)"
| "output_valid (RepresentOutput rs) \<longleftrightarrow> (\<forall>r\<in>set rs. result_valid r)"

section \<open>The request\<close>

record ml_request =
  mq_id :: string
  mq_operation :: ml_operation
  mq_component :: string
  mq_input :: ml_input
  mq_options :: "(string \<times> json) list"
  mq_context :: execution_context
  mq_version :: int

definition request_valid :: "ml_request \<Rightarrow> bool" where
  "request_valid q \<longleftrightarrow> mq_version q = 1 \<and> mq_id q \<noteq> [] \<and> mq_component q \<noteq> [] \<and>
     input_operation (mq_input q) = mq_operation q \<and> input_valid (mq_input q) \<and> context_valid (mq_context q)"

definition request_to_wire :: "ml_request \<Rightarrow> json" where
  "request_to_wire q = JObj [(''version'', JInt (mq_version q)), (''request_id'', JStr (mq_id q)),
     (''operation'', JStr (operation_value (mq_operation q))), (''component'', JStr (mq_component q)),
     (''input'', input_to_wire (mq_input q)), (''options'', JObj (mq_options q)),
     (''execution_context'', context_to_wire (mq_context q))]"

text \<open>\<open>_check_version\<close> and \<open>_operation\<close>\<close>

definition read_version :: "json \<Rightarrow> ml_error_code + int" where
  "read_version v = bindE (wire_integer v) (\<lambda>n. if n \<noteq> 1 then Inl UNSUPPORTED_PROTOCOL_VERSION else Inr n)"

definition read_operation :: "json \<Rightarrow> ml_error_code + ml_operation" where
  "read_operation v = bindE (wire_string v) (\<lambda>s.
     case find (\<lambda>x. operation_value x = s) [DETECT_FACES, GENERATE_REPRESENTATIONS] of None \<Rightarrow> invalid | Some x \<Rightarrow> Inr x)"

text \<open>\<open>as_mapping(data.get(key, {}), key)\<close>\<close>

definition optional_mapping :: "string \<Rightarrow> json \<Rightarrow> ml_error_code + (string \<times> json) list" where
  "optional_mapping k v =
     (case v of
        JObj fs \<Rightarrow> (case map_of fs k of None \<Rightarrow> Inr [] | Some (JObj gs) \<Rightarrow> Inr gs | Some _ \<Rightarrow> invalid)
      | _ \<Rightarrow> invalid)"

definition request_from_wire :: "json \<Rightarrow> ml_error_code + ml_request" where
  "request_from_wire v =
     bindE (mapping_with v [''version'', ''request_id'', ''operation'', ''component'', ''input'']
              [''options'', ''execution_context'']) (\<lambda>_.
     bindE (read_version (json_field ''version'' v)) (\<lambda>version.
     bindE (read_operation (json_field ''operation'' v)) (\<lambda>operation.
     bindE (input_from_wire operation (json_field ''input'' v)) (\<lambda>input.
     bindE (optional_mapping ''options'' v) (\<lambda>options.
     bindE (bindE (optional_mapping ''execution_context'' v) (\<lambda>gs. context_from_wire (JObj gs))) (\<lambda>context.
     bindE (wire_string (json_field ''request_id'' v)) (\<lambda>i.
     bindE (wire_string (json_field ''component'' v)) (\<lambda>component.
     Inr \<lparr>mq_id = i, mq_operation = operation, mq_component = component, mq_input = input, mq_options = options,
          mq_context = context, mq_version = version\<rparr>))))))))"

section \<open>The response\<close>

record execution_provenance =
  xp_version :: string      \<comment> \<open>\<open>component_version_id\<close>\<close>
  xp_variant :: string      \<comment> \<open>\<open>runtime_variant_id\<close>\<close>
  xp_provider :: string
  xp_device :: string

record ml_error =
  me_code :: ml_error_code
  me_message :: string

record ml_response =
  mr_id :: string
  mr_status :: ml_status
  mr_operation :: ml_operation
  mr_execution :: "execution_provenance option"
  mr_output :: "ml_output option"
  mr_timings :: "(string \<times> real) list"
  mr_error :: "ml_error option"
  mr_version :: int

definition provenance_valid :: "execution_provenance \<Rightarrow> bool" where
  "provenance_valid x \<longleftrightarrow> xp_version x \<noteq> [] \<and> xp_variant x \<noteq> [] \<and> xp_provider x \<noteq> [] \<and> xp_device x \<noteq> []"

definition provenance_to_wire :: "execution_provenance \<Rightarrow> json" where
  "provenance_to_wire x = JObj [(''component_version_id'', JStr (xp_version x)), (''runtime_variant_id'', JStr (xp_variant x)),
     (''provider'', JStr (xp_provider x)), (''device'', JStr (xp_device x))]"

definition provenance_from_wire :: "json \<Rightarrow> ml_error_code + execution_provenance" where
  "provenance_from_wire v =
     bindE (mapping_with v [''component_version_id'', ''runtime_variant_id'', ''provider'', ''device''] []) (\<lambda>_.
     bindE (wire_string (json_field ''component_version_id'' v)) (\<lambda>w.
     bindE (wire_string (json_field ''runtime_variant_id'' v)) (\<lambda>a.
     bindE (wire_string (json_field ''provider'' v)) (\<lambda>p.
     bindE (wire_string (json_field ''device'' v)) (\<lambda>e.
     Inr \<lparr>xp_version = w, xp_variant = a, xp_provider = p, xp_device = e\<rparr>)))))"

definition error_to_wire :: "ml_error \<Rightarrow> json" where
  "error_to_wire e = JObj [(''code'', JStr (code_value (me_code e))), (''message'', JStr (me_message e))]"

definition error_from_wire :: "json \<Rightarrow> ml_error_code + ml_error" where
  "error_from_wire v =
     bindE (mapping_with v [''code'', ''message''] []) (\<lambda>_.
     bindE (wire_error_code (json_field ''code'' v)) (\<lambda>c.
     bindE (wire_string (json_field ''message'' v)) (\<lambda>m. Inr \<lparr>me_code = c, me_message = m\<rparr>)))"

text \<open>Exactly one of the two: a SUCCESS with an output and its execution, or an ERROR with an error.\<close>

definition outcome_valid :: "ml_status \<Rightarrow> ml_operation \<Rightarrow> execution_provenance option \<Rightarrow> ml_output option \<Rightarrow> ml_error option \<Rightarrow> bool"
where
  "outcome_valid status operation execution output error \<longleftrightarrow>
     (case status of
        SUCCESS \<Rightarrow> error = None \<and> execution \<noteq> None \<and>
          (case output of None \<Rightarrow> False | Some x \<Rightarrow> output_operation x = operation)
      | ERROR \<Rightarrow> error \<noteq> None \<and> output = None)"

definition response_valid :: "ml_response \<Rightarrow> bool" where
  "response_valid r \<longleftrightarrow> mr_version r = 1 \<and> mr_id r \<noteq> [] \<and> (\<forall>(name, _)\<in>set (mr_timings r). name \<noteq> []) \<and>
     (case mr_execution r of None \<Rightarrow> True | Some x \<Rightarrow> provenance_valid x) \<and>
     (case mr_output r of None \<Rightarrow> True | Some x \<Rightarrow> output_valid x) \<and>
     (case mr_error r of None \<Rightarrow> True | Some e \<Rightarrow> me_message e \<noteq> []) \<and>
     outcome_valid (mr_status r) (mr_operation r) (mr_execution r) (mr_output r) (mr_error r)"

definition option_to_wire :: "('a \<Rightarrow> json) \<Rightarrow> 'a option \<Rightarrow> json" where
  "option_to_wire f x = (case x of None \<Rightarrow> JNull | Some y \<Rightarrow> f y)"

definition response_to_wire :: "ml_response \<Rightarrow> json" where
  "response_to_wire r = JObj [(''version'', JInt (mr_version r)), (''request_id'', JStr (mr_id r)),
     (''status'', JStr (status_value (mr_status r))), (''output'', option_to_wire output_to_wire (mr_output r)),
     (''execution'', option_to_wire provenance_to_wire (mr_execution r)),
     (''timings'', JObj (map (\<lambda>(name, x). (name, JFloat x)) (mr_timings r))),
     (''error'', option_to_wire error_to_wire (mr_error r))]"

definition read_status :: "json \<Rightarrow> ml_error_code + ml_status" where
  "read_status v = bindE (wire_string v) (\<lambda>s.
     case find (\<lambda>x. status_value x = s) [SUCCESS, ERROR] of None \<Rightarrow> invalid | Some x \<Rightarrow> Inr x)"

definition read_timing :: "string \<times> json \<Rightarrow> ml_error_code + string \<times> real" where
  "read_timing t = bindE (check_that (fst t \<noteq> [])) (\<lambda>_. bindE (wire_number (snd t)) (\<lambda>_. Inr (fst t, the_number (snd t))))"

text \<open>\<open>check_answers\<close>: the response is for this request and refers only to what it contained.\<close>

definition answers :: "ml_response \<Rightarrow> ml_request \<Rightarrow> bool" where
  "answers r q \<longleftrightarrow> mr_id r = mq_id q \<and> mr_operation r = mq_operation q \<and>
     (case mr_output r of
        None \<Rightarrow> True
      | Some (DetectOutput ds) \<Rightarrow> \<forall>x\<in>set ds. dn_input x < int (length (input_images (mq_input q)))
      | Some (RepresentOutput rs) \<Rightarrow>
          \<forall>x\<in>set rs. (rr_input x, rr_face x) \<in> set (map (\<lambda>f. (fg_input f, fg_face f)) (input_faces (mq_input q))))"

definition response_from_wire :: "json \<Rightarrow> ml_request \<Rightarrow> ml_error_code + ml_response" where
  "response_from_wire v q =
     bindE (mapping_with v [''version'', ''request_id'', ''status''] [''output'', ''execution'', ''timings'', ''error'']) (\<lambda>_.
     bindE (read_version (json_field ''version'' v)) (\<lambda>version.
     bindE (read_status (json_field ''status'' v)) (\<lambda>status.
     bindE (wire_optional (output_from_wire (mq_operation q)) (json_field ''output'' v)) (\<lambda>output.
     bindE (wire_optional provenance_from_wire (json_field ''execution'' v)) (\<lambda>execution.
     bindE (optional_mapping ''timings'' v) (\<lambda>timings.
     bindE (wire_optional error_from_wire (json_field ''error'' v)) (\<lambda>error.
     bindE (wire_string (json_field ''request_id'' v)) (\<lambda>i.
     bindE (wire_all read_timing timings) (\<lambda>ts.
     let r = \<lparr>mr_id = i, mr_status = status, mr_operation = mq_operation q, mr_execution = execution, mr_output = output,
              mr_timings = ts, mr_error = error, mr_version = version\<rparr>
     in bindE (check_that (outcome_valid status (mq_operation q) execution output error)) (\<lambda>_.
        bindE (check_that (answers r q)) (\<lambda>_. Inr r)))))))))))"

text \<open>\<open>error_wire\<close>: an answer to a request that may not even have parsed.\<close>

definition error_wire :: "string \<Rightarrow> ml_error_code \<Rightarrow> string \<Rightarrow> ml_error_code + json" where
  "error_wire i code message =
     (if i = [] \<or> message = [] then invalid
      else Inr (JObj [(''version'', JInt 1), (''request_id'', JStr i), (''status'', JStr (status_value ERROR)),
             (''output'', JNull), (''execution'', JNull), (''timings'', JObj []),
             (''error'', error_to_wire \<lparr>me_code = code, me_message = message\<rparr>)]))"

section \<open>What was built survives the wire\<close>

lemma wire_all_map: "(\<And>x. x \<in> set xs \<Longrightarrow> f (g x) = Inr x) \<Longrightarrow> wire_all f (map g xs) = Inr xs"
  by (induction xs) auto

lemma wire_all_Inr: "wire_all f xs = Inr ys \<longleftrightarrow> list_all2 (\<lambda>x y. f x = Inr y) xs ys"
  by (induction xs arbitrary: ys) (auto simp: bindE_Inr_iff list_all2_Cons1)

lemma wire_all_all:
  assumes "wire_all f xs = Inr ys" and "\<And>x y. f x = Inr y \<Longrightarrow> P y"
  shows "\<forall>y\<in>set ys. P y"
  using assms(1) by (induction xs arbitrary: ys) (auto simp: bindE_Inr_iff dest: assms(2))

lemma strides_loop_positive: "1 \<le> step \<Longrightarrow> \<forall>n\<in>set ns. 1 \<le> n \<Longrightarrow> \<forall>n\<in>set (strides_loop step ns). 1 \<le> n"
proof (induction step ns rule: strides_loop.induct)
  case (2 step n ns)
  then have "1 * 1 \<le> step * n" by (intro mult_mono) auto
  with 2 show ?case by simp
qed simp

lemma item_size_positive: "item_size dtype = Some item \<Longrightarrow> 1 \<le> item"
  by (auto simp: item_size_def split: if_splits)

lemma read_positive: "\<forall>n\<in>set ns. 1 \<le> n \<Longrightarrow> wire_all positive_integer (map JInt ns) = Inr ns"
  by (rule wire_all_map) (auto simp: positive_integer_def at_least_def)

lemma descriptor_round_trip:
  assumes "descriptor_valid x"
  shows "descriptor_from_wire (descriptor_to_wire x) = Inr x"
proof -
  obtain item where item: "item_size (sd_dtype x) = Some item"
    using assms by (auto simp: descriptor_valid_def split: option.splits)
  have shape: "\<forall>n\<in>set (sd_shape x). 1 \<le> n" and strides: "sd_strides x = contiguous_strides (sd_shape x) item"
    using assms item by (simp_all add: descriptor_valid_def)
  have "\<forall>n\<in>set (sd_strides x). 1 \<le> n"
    using strides_loop_positive [OF item_size_positive [OF item], of "rev (sd_shape x)"] shape
    by (simp add: strides contiguous_strides_def)
  note R = read_positive [OF this] read_positive [OF shape]
  have P: "sd_name x \<noteq> []" "\<not> sd_size x < 1" "sd_dtype x \<noteq> []" "sd_layout x \<noteq> []"
    using assms by (auto simp: descriptor_valid_def)
  have E: "\<lparr>sd_name = sd_name x, sd_size = sd_size x, sd_dtype = sd_dtype x, sd_shape = sd_shape x, sd_strides = sd_strides x,
      sd_layout = sd_layout x, sd_readonly = sd_readonly x\<rparr> = x" by (cases x) simp
  show ?thesis
    by (simp add: E descriptor_from_wire_def descriptor_to_wire_def mapping_with_def R P insert_commute
        positive_integer_def [of "JInt (sd_size x)"] at_least_def make_descriptor_def assms)
qed

lemma read_box_wire [simp]: "box_valid b \<Longrightarrow> read_box (box_to_wire b) = Inr b"
  by (cases b) (simp add: read_box_def box_to_wire_def)

lemma read_landmarks_wire [simp]:
  assumes "landmarks_valid ls"
  shows "read_landmarks (landmarks_to_wire ls) = Inr ls"
proof (cases ls)
  case (Some ps)
  have A: "wire_all read_point (map (\<lambda>(x, y). JList [JFloat x, JFloat y]) ps) = Inr (map (\<lambda>(x, y). [x, y]) ps)"
    by (induction ps) (auto simp: read_point_def)
  have B: "wire_all as_point (map (\<lambda>(x, y). [x, y]) ps) = Inr ps"
    using assms by (intro wire_all_map) (auto simp: Some landmarks_valid_def)
  show ?thesis by (simp add: Some read_landmarks_def landmarks_to_wire_def A B)
qed (simp add: read_landmarks_def landmarks_to_wire_def)

lemma wire_optional_json [simp]: "x \<noteq> Some [] \<Longrightarrow> wire_optional wire_string (optional_json x) = Inr x"
  by (auto simp: optional_json_def split: option.splits)

lemma context_round_trip: "context_valid c \<Longrightarrow> context_from_wire (context_to_wire c) = Inr c"
  by (simp add: context_from_wire_def context_to_wire_def context_valid_def mapping_with_def)

lemma face_round_trip: "face_valid f \<Longrightarrow> face_from_wire (face_to_wire f) = Inr f"
  by (simp add: face_from_wire_def face_to_wire_def face_valid_def mapping_with_def index_integer_def at_least_def
      insert_commute)

lemma detection_round_trip: "detection_valid x \<Longrightarrow> detection_from_wire (detection_to_wire x) = Inr x"
  by (simp add: detection_from_wire_def detection_to_wire_def detection_valid_def mapping_with_def index_integer_def
      at_least_def insert_commute)

lemma result_round_trip: "result_valid r \<Longrightarrow> result_from_wire (result_to_wire r) = Inr r"
  by (simp add: result_from_wire_def result_to_wire_def result_valid_def mapping_with_def index_integer_def
      positive_integer_def at_least_def descriptor_round_trip insert_commute)

lemma input_round_trip: "input_valid i \<Longrightarrow> input_from_wire (input_operation i) (input_to_wire i) = Inr i"
  by (cases i) (auto simp: input_valid_def mapping_with_def read_images_def check_images_def list_all_iff insert_commute
      wire_all_map descriptor_round_trip face_round_trip)

lemma output_round_trip: "output_valid x \<Longrightarrow> output_from_wire (output_operation x) (output_to_wire x) = Inr x"
  by (cases x) (simp_all add: mapping_with_def wire_all_map detection_round_trip result_round_trip)

lemma read_operation_value [simp]: "read_operation (JStr (operation_value x)) = Inr x"
  by (cases x) (simp_all add: read_operation_def)

lemma read_status_value [simp]: "read_status (JStr (status_value x)) = Inr x"
  by (cases x) (simp_all add: read_status_def)

lemma read_code_value [simp]: "wire_error_code (JStr (code_value c)) = Inr c"
  by (cases c) (simp_all add: wire_error_code_def all_codes_def)

lemma to_wire_object: "\<exists>fs. input_to_wire i = JObj fs" "\<exists>fs. output_to_wire x = JObj fs"
  by (cases i; simp) (cases x; simp)

lemma request_round_trip:
  assumes "request_valid q"
  shows "request_from_wire (request_to_wire q) = Inr q"
proof -
  have q: "mq_version q = 1" "mq_id q \<noteq> []" "mq_component q \<noteq> []" "mq_operation q = input_operation (mq_input q)"
    "input_valid (mq_input q)" "context_valid (mq_context q)"
    using assms by (simp_all add: request_valid_def)
  have c: "context_from_wire (context_to_wire (mq_context q)) = Inr (mq_context q)" by (rule context_round_trip [OF q(6)])
  obtain gs where gs: "context_to_wire (mq_context q) = JObj gs" by (simp add: context_to_wire_def)
  show ?thesis
    by (simp add: request_from_wire_def request_to_wire_def mapping_with_def read_version_def q(1-3) input_round_trip [OF q(5)]
        optional_mapping_def gs c [unfolded gs] insert_commute q(4) [symmetric] flip: q(4))
      (simp add: q(4) input_round_trip [OF q(5)] c [unfolded gs] q(1))
qed

lemma wire_optional_wire:
  assumes "\<And>y. x = Some y \<Longrightarrow> f (g y) = Inr y \<and> (\<exists>fs. g y = JObj fs)"
  shows "wire_optional f (option_to_wire g x) = Inr x"
proof (cases x)
  case (Some y)
  with assms obtain fs where "f (g y) = Inr y" "g y = JObj fs" by blast
  then show ?thesis by (simp add: Some option_to_wire_def)
qed (simp add: option_to_wire_def)

lemma provenance_round_trip: "provenance_valid x \<Longrightarrow> provenance_from_wire (provenance_to_wire x) = Inr x"
  by (simp add: provenance_from_wire_def provenance_to_wire_def provenance_valid_def mapping_with_def)

lemma error_round_trip: "me_message e \<noteq> [] \<Longrightarrow> error_from_wire (error_to_wire e) = Inr e"
  by (simp add: error_from_wire_def error_to_wire_def mapping_with_def)

lemma timings_round_trip:
  "\<forall>(name, _)\<in>set ts. name \<noteq> [] \<Longrightarrow> wire_all read_timing (map (\<lambda>(name, x). (name, JFloat x)) ts) = Inr ts"
  by (rule wire_all_map) (auto simp: read_timing_def)

lemma response_round_trip:
  assumes "response_valid r" and "answers r q"
  shows "response_from_wire (response_to_wire r) q = Inr r"
proof -
  have op: "mr_operation r = mq_operation q" using assms(2) by (simp add: answers_def)
  have 1: "wire_optional (output_from_wire (mq_operation q)) (option_to_wire output_to_wire (mr_output r)) = Inr (mr_output r)"
    using assms(1) op by (intro wire_optional_wire)
      (auto simp: response_valid_def outcome_valid_def to_wire_object dest: output_round_trip split: ml_status.splits option.splits)
  have 2: "wire_optional provenance_from_wire (option_to_wire provenance_to_wire (mr_execution r)) = Inr (mr_execution r)"
    using assms(1) by (intro wire_optional_wire)
      (auto simp: response_valid_def provenance_round_trip provenance_to_wire_def [symmetric], simp add: provenance_to_wire_def)
  have 3: "wire_optional error_from_wire (option_to_wire error_to_wire (mr_error r)) = Inr (mr_error r)"
    using assms(1) by (intro wire_optional_wire) (auto simp: response_valid_def error_round_trip, simp add: error_to_wire_def)
  have 4: "wire_all read_timing (map (\<lambda>(name, x). (name, JFloat x)) (mr_timings r)) = Inr (mr_timings r)"
    using assms(1) by (intro timings_round_trip) (simp add: response_valid_def)
  have 5: "mr_version r = 1" "mr_id r \<noteq> []" "outcome_valid (mr_status r) (mr_operation r) (mr_execution r) (mr_output r) (mr_error r)"
    using assms(1) by (simp_all add: response_valid_def)
  have 6: "\<lparr>mr_id = mr_id r, mr_status = mr_status r, mr_operation = mq_operation q, mr_execution = mr_execution r,
      mr_output = mr_output r, mr_timings = mr_timings r, mr_error = mr_error r, mr_version = 1\<rparr> = r"
    using op 5(1) by (cases r) simp
  show ?thesis
    by (simp add: response_from_wire_def response_to_wire_def mapping_with_def read_version_def optional_mapping_def
        1 2 3 4 5(1,2) 5(3) [unfolded op] 6 assms(2) Let_def insert_commute)
qed

text \<open>
  C22. Every request and every response that can be built survives the wire: reading what \<open>to_wire\<close>
  wrote gives back the same request, and, for a response that answers it, the same response, with its
  images, faces, detections, landmarks, descriptors, timings, provenance and errors.
\<close>

theorem messages_survive_the_wire:
  assumes "request_valid q" and "response_valid r" and "answers r q"
  shows "request_from_wire (request_to_wire q) = Inr q \<and> response_from_wire (response_to_wire r) q = Inr r"
  using request_round_trip [OF assms(1)] response_round_trip [OF assms(2,3)] by blast

section \<open>What is accepted could have been built\<close>

lemma read_box_Inr: "read_box v = Inr b \<Longrightarrow> box_valid b"
proof -
  assume "read_box v = Inr b"
  then obtain items where "(case items of
       [x0, y0, x1, y1] \<Rightarrow> if box_valid (x0, y0, x1, y1) then Inr (x0, y0, x1, y1) else invalid
     | _ \<Rightarrow> invalid) = Inr b"
    unfolding read_box_def bindE_Inr_iff [of "bindE _ _"] by blast
  then show "box_valid b" by (auto split: list.split_asm if_split_asm)
qed

lemma as_point_Inr: "as_point xs = Inr p \<Longrightarrow> 0 \<le> fst p \<and> fst p \<le> 1 \<and> 0 \<le> snd p \<and> snd p \<le> 1"
  by (cases xs rule: as_point.cases) (auto split: if_splits)

lemma wire_optional_Inr: "wire_optional f v = Inr x \<Longrightarrow> x = None \<or> (\<exists>y. x = Some y \<and> f v = Inr y)"
  by (cases v) auto

lemma read_landmarks_Inr:
  assumes "read_landmarks v = Inr ls"
  shows "landmarks_valid ls"
proof -
  from wire_optional_Inr [OF assms [unfolded read_landmarks_def]]
  consider "ls = None" | ps xs where "ls = Some ps" "wire_all as_point xs = Inr ps"
    by (auto simp: bindE_Inr_iff)
  then show ?thesis
  proof cases
    case 2
    have "\<forall>p\<in>set ps. 0 \<le> fst p \<and> fst p \<le> 1 \<and> 0 \<le> snd p \<and> snd p \<le> 1"
      using 2(2) by (rule wire_all_all) (rule as_point_Inr)
    with 2(1) show ?thesis by (auto simp: landmarks_valid_def)
  qed (simp add: landmarks_valid_def)
qed

lemma index_integer_Inr: "index_integer v = Inr n \<Longrightarrow> 0 \<le> n"
  by (auto simp: index_integer_def at_least_def bindE_Inr_iff split: if_splits)

lemma positive_integer_Inr: "positive_integer v = Inr n \<Longrightarrow> 1 \<le> n"
  by (auto simp: positive_integer_def at_least_def bindE_Inr_iff split: if_splits)

lemma wire_string_Inr: "wire_string v = Inr s \<Longrightarrow> s \<noteq> []"
  by (cases v) (auto split: if_splits)

lemma descriptor_from_wire_Inr: "descriptor_from_wire v = Inr x \<Longrightarrow> descriptor_valid x"
  by (auto simp: descriptor_from_wire_def bindE_Inr_iff make_descriptor_def split: if_splits)

lemmas read_Inr = read_box_Inr read_landmarks_Inr index_integer_Inr positive_integer_Inr wire_string_Inr descriptor_from_wire_Inr

lemma face_from_wire_Inr: "face_from_wire v = Inr f \<Longrightarrow> face_valid f"
  by (auto simp: face_from_wire_def bindE_Inr_iff face_valid_def dest: read_Inr)

lemma detection_from_wire_Inr: "detection_from_wire v = Inr x \<Longrightarrow> detection_valid x"
  by (auto simp: detection_from_wire_def bindE_Inr_iff detection_valid_def dest: read_Inr)

lemma result_from_wire_Inr: "result_from_wire v = Inr r \<Longrightarrow> result_valid r"
  by (auto simp: result_from_wire_def bindE_Inr_iff result_valid_def dest: read_Inr split: if_splits)

lemmas all_Inr = wire_all_all [of descriptor_from_wire _ _ descriptor_valid, OF _ descriptor_from_wire_Inr]
  wire_all_all [of face_from_wire _ _ face_valid, OF _ face_from_wire_Inr]
  wire_all_all [of detection_from_wire _ _ detection_valid, OF _ detection_from_wire_Inr]
  wire_all_all [of result_from_wire _ _ result_valid, OF _ result_from_wire_Inr]

lemma context_from_wire_Inr: "context_from_wire v = Inr c \<Longrightarrow> context_valid c"
  by (auto simp: context_from_wire_def bindE_Inr_iff context_valid_def dest!: wire_optional_Inr wire_string_Inr)

lemma input_from_wire_Inr:
  assumes "input_from_wire operation v = Inr i"
  shows "input_operation i = operation \<and> input_valid i"
proof -
  have images: "\<forall>x\<in>set images. descriptor_valid x \<and> is_image x" "images \<noteq> []"
    if "read_images w = Inr images" "check_images images = Inr u" for w images u
    using that all_Inr(1)
    by (auto simp: read_images_def bindE_Inr_iff check_images_def list_all_iff split: if_splits)
  show ?thesis
  proof (cases operation)
    case DETECT_FACES
    with assms obtain images w u where "i = DetectInput images" "read_images w = Inr images" "check_images images = Inr u"
      by (auto simp: bindE_Inr_iff)
    with images [OF this(2,3)] show ?thesis by (simp add: DETECT_FACES input_valid_def)
  next
    case GENERATE_REPRESENTATIONS
    with assms obtain images faces w u fs where i: "i = RepresentInput images faces"
      and r: "read_images w = Inr images" "check_images images = Inr u" "wire_all face_from_wire fs = Inr faces"
        "list_all (\<lambda>f. fg_input f < int (length images)) faces"
      by (auto simp: bindE_Inr_iff split: if_splits)
    with images [OF r(1,2)] all_Inr(2) [OF r(3)] show ?thesis
      by (auto simp: GENERATE_REPRESENTATIONS input_valid_def list_all_iff)
  qed
qed

lemma output_from_wire_Inr:
  assumes "output_from_wire operation v = Inr x"
  shows "output_valid x"
  using assms
proof (cases operation)
  case DETECT_FACES
  with assms obtain ds w where "x = DetectOutput ds" "wire_all detection_from_wire w = Inr ds" by (auto simp: bindE_Inr_iff)
  with all_Inr(3) [OF this(2)] show ?thesis by simp
next
  case GENERATE_REPRESENTATIONS
  with assms obtain rs w where "x = RepresentOutput rs" "wire_all result_from_wire w = Inr rs" by (auto simp: bindE_Inr_iff)
  with all_Inr(4) [OF this(2)] show ?thesis by simp
qed

lemma provenance_from_wire_Inr: "provenance_from_wire v = Inr x \<Longrightarrow> provenance_valid x"
  by (auto simp: provenance_from_wire_def bindE_Inr_iff provenance_valid_def dest: wire_string_Inr)

lemma error_from_wire_Inr: "error_from_wire v = Inr e \<Longrightarrow> me_message e \<noteq> []"
  by (auto simp: error_from_wire_def bindE_Inr_iff dest: wire_string_Inr)

lemma read_version_Inr: "read_version v = Inr n \<Longrightarrow> n = 1"
  by (auto simp: read_version_def bindE_Inr_iff split: if_splits)

lemma accepted_request:
  assumes "request_from_wire v = Inr q"
  shows "request_valid q"
  using assms by (auto simp: request_from_wire_def bindE_Inr_iff request_valid_def
      dest!: read_version_Inr input_from_wire_Inr context_from_wire_Inr wire_string_Inr)

lemma read_timing_Inr: "read_timing t = Inr x \<Longrightarrow> fst x \<noteq> []"
  by (auto simp: read_timing_def bindE_Inr_iff split: if_splits)

lemma accepted_response:
  assumes "response_from_wire v q = Inr r"
  shows "response_valid r \<and> answers r q"
proof -
  from assms obtain version status out execution error i ts a b c e f g where
    v: "read_version a = Inr version" and o': "wire_optional (output_from_wire (mq_operation q)) b = Inr out"
    and x: "wire_optional provenance_from_wire c = Inr execution" and er: "wire_optional error_from_wire e = Inr error"
    and i: "wire_string f = Inr i" and t: "wire_all read_timing g = Inr ts"
    and r: "r = \<lparr>mr_id = i, mr_status = status, mr_operation = mq_operation q, mr_execution = execution, mr_output = out,
              mr_timings = ts, mr_error = error, mr_version = version\<rparr>"
    and ok: "outcome_valid status (mq_operation q) execution out error" and ans: "answers r q"
    by (auto simp: response_from_wire_def bindE_Inr_iff Let_def split: if_splits)
  have 1: "case out of None \<Rightarrow> True | Some x \<Rightarrow> output_valid x"
    using wire_optional_Inr [OF o'] output_from_wire_Inr by (auto split: option.splits)
  have 2: "case execution of None \<Rightarrow> True | Some x \<Rightarrow> provenance_valid x"
    using wire_optional_Inr [OF x] provenance_from_wire_Inr by (auto split: option.splits)
  have 3: "case error of None \<Rightarrow> True | Some e \<Rightarrow> me_message e \<noteq> []"
    using wire_optional_Inr [OF er] error_from_wire_Inr by (auto split: option.splits)
  have "\<forall>x\<in>set ts. fst x \<noteq> []" using t by (rule wire_all_all) (rule read_timing_Inr)
  then have 4: "\<forall>(name, _)\<in>set ts. name \<noteq> []" by auto
  show ?thesis
    using 1 2 3 4 ok ans read_version_Inr [OF v] wire_string_Inr [OF i] by (simp add: response_valid_def r)
qed

text \<open>
  C23. Nothing malformed is accepted from the wire. Whatever value arrives, a request that is read is one
  the constructors would have built, and a response that is read is valid too: it has the protocol's
  version, either an output of the operation with the provenance of its execution or an error, never
  both; and it answers the request it is read for, with the request's own id and operation, referring
  only to images that were sent and faces that were asked about.
\<close>

theorem nothing_malformed_is_accepted:
  assumes "request_from_wire v = Inr q" and "response_from_wire w q = Inr r"
  shows "request_valid q \<and> response_valid r \<and> answers r q"
  using accepted_request [OF assms(1)] accepted_response [OF assms(2)] by blast

section \<open>A sample exchange\<close>

definition sample_image :: descriptor where
  "sample_image = \<lparr>sd_name = ''seg'', sd_size = 18, sd_dtype = ''uint8'', sd_shape = [2, 3, 3], sd_strides = [9, 3, 1],
     sd_layout = ''C'', sd_readonly = True\<rparr>"

definition sample_ask :: ml_request where
  "sample_ask = \<lparr>mq_id = ''r1'', mq_operation = DETECT_FACES, mq_component = ''c'', mq_input = DetectInput [sample_image],
     mq_options = [(''runtime_variant_id'', JStr ''v'')], mq_context = no_context, mq_version = 1\<rparr>"

definition sample_answer :: ml_response where
  "sample_answer = \<lparr>mr_id = ''r1'', mr_status = SUCCESS, mr_operation = DETECT_FACES,
     mr_execution = Some \<lparr>xp_version = ''c'', xp_variant = ''v'', xp_provider = ''CPU'', xp_device = ''cpu''\<rparr>,
     mr_output = Some (DetectOutput [\<lparr>dn_input = 0, dn_index = 0, dn_box = (1/4, 1/4, 1/2, 3/4), dn_score = 3/4,
        dn_landmarks = Some [(1/4, 1/2)]\<rparr>]),
     mr_timings = [(''inference'', 1/2)], mr_error = None, mr_version = 1\<rparr>"

lemma sample_ask_valid: "request_valid sample_ask"
  by code_simp

lemma sample_answer_valid: "response_valid sample_answer \<and> answers sample_answer sample_ask"
  by code_simp

lemma messages_survive_the_wire_witness:
  "request_from_wire (request_to_wire sample_ask) = Inr sample_ask \<and>
   response_from_wire (response_to_wire sample_answer) sample_ask = Inr sample_answer"
  using messages_survive_the_wire [OF sample_ask_valid] sample_answer_valid by blast

lemma nothing_malformed_is_accepted_witness:
  "request_valid sample_ask \<and> response_valid sample_answer \<and> answers sample_answer sample_ask"
  using sample_answer_valid
  by (intro nothing_malformed_is_accepted [OF request_round_trip [OF sample_ask_valid] response_round_trip]) blast+

end
