(* ===== verification/Catalog.thy ===== *)
theory Catalog
  imports Jobs "HOL-Library.List_Lexorder" "HOL-Library.Char_ord"
begin

text \<open>
  The runtime catalog (\<open>backend/app/runtime/models.py\<close>) and its repository
  (\<open>backend/app/runtime/repository.py\<close>): components, their versions and exports, the variants that
  execute an export, the spaces a variant is declared for, packages and installation records. The
  catalog's tables are a record \<open>catalog\<close> beside \<open>db\<close>, in the same database. Catalog rows are only
  ever added; an installation record is the one thing whose state moves.
\<close>

section \<open>The tables\<close>

record component =
  cm_id :: uuid
  cm_key :: string
  cm_kind :: string
  cm_name :: string      \<comment> \<open>\<open>display_name\<close>\<close>
  cm_state :: string

record component_version =
  cv_id :: uuid
  cv_component :: uuid
  cv_semantic :: string
  cv_schema :: int       \<comment> \<open>\<open>contract_schema_version\<close>\<close>
  cv_contract :: json
  cv_created :: time

record model_export =
  ex_id :: uuid
  ex_version :: uuid     \<comment> \<open>\<open>component_version_id\<close>\<close>
  ex_format :: string
  ex_precision :: string
  ex_artifact :: uuid
  ex_sha :: "byte list"
  ex_input :: json       \<comment> \<open>\<open>input_contract_json\<close>\<close>
  ex_created :: time

text \<open>\<open>InstalledModelExport\<close> and \<open>RuntimePackageInstallation\<close> have the same columns: \<open>in_parent\<close> is the
  export or the package they install.\<close>

record installation =
  in_id :: uuid
  in_parent :: uuid
  in_artifact :: uuid
  in_state :: string
  in_installed :: "time option"
  in_verified :: "time option"
  in_detail :: "string option"

record runtime_variant =
  va_id :: uuid
  va_export :: uuid
  va_provider :: string
  va_device :: string
  va_key :: string
  va_requirements :: json
  va_state :: string

record variant_space =
  vs_variant :: uuid
  vs_space :: uuid
  vs_validation :: json
  vs_state :: string

record calibration_profile =
  cp_id :: uuid
  cp_space :: uuid
  cp_version :: string
  cp_state :: string
  cp_parameters :: json
  cp_schema :: int
  cp_created :: time

record runtime_package =
  rp_id :: uuid
  rp_key :: string
  rp_schema :: int
  rp_manifest :: json
  rp_state :: string
  rp_created :: time

record catalog =
  ct_components :: "component list"
  ct_versions :: "component_version list"
  ct_exports :: "model_export list"
  ct_export_installs :: "installation list"
  ct_variants :: "runtime_variant list"
  ct_variant_spaces :: "variant_space list"
  ct_profiles :: "calibration_profile list"
  ct_packages :: "runtime_package list"
  ct_package_installs :: "installation list"

definition empty_catalog :: catalog where
  "empty_catalog = \<lparr>ct_components = [], ct_versions = [], ct_exports = [], ct_export_installs = [],
     ct_variants = [], ct_variant_spaces = [], ct_profiles = [], ct_packages = [], ct_package_installs = []\<rparr>"

text \<open>The constraints of the tables: primary keys, unique columns and pairs, the digest's length.\<close>

definition catalog_ok :: "catalog \<Rightarrow> bool" where
  "catalog_ok c \<longleftrightarrow>
     tab_keyed cm_id (ct_components c) \<and> distinct (map cm_key (ct_components c)) \<and>
     tab_keyed cv_id (ct_versions c) \<and> distinct (map (\<lambda>v. (cv_component v, cv_semantic v)) (ct_versions c)) \<and>
     tab_keyed ex_id (ct_exports c) \<and> (\<forall>e\<in>set (ct_exports c). length (ex_sha e) = 32) \<and>
     tab_keyed in_id (ct_export_installs c) \<and> tab_keyed va_id (ct_variants c) \<and>
     distinct (map (\<lambda>m. (vs_variant m, vs_space m)) (ct_variant_spaces c)) \<and>
     tab_keyed cp_id (ct_profiles c) \<and> distinct (map (\<lambda>p. (cp_space p, cp_version p)) (ct_profiles c)) \<and>
     tab_keyed rp_id (ct_packages c) \<and> distinct (map rp_key (ct_packages c)) \<and>
     tab_keyed in_id (ct_package_installs c)"

section \<open>The repository's reads\<close>

definition component_by_key :: "string \<Rightarrow> catalog \<Rightarrow> component option" where
  "component_by_key key c = tab_get cm_key (ct_components c) key"

definition versions_of :: "uuid \<Rightarrow> catalog \<Rightarrow> component_version list" where
  "versions_of component_id c = sort_key (\<lambda>v. (cv_created v, cv_id v))
     (filter (\<lambda>v. cv_component v = component_id) (ct_versions c))"

definition exports_of :: "uuid \<Rightarrow> catalog \<Rightarrow> model_export list" where
  "exports_of version_id c = sort_key (\<lambda>e. (ex_created e, ex_id e))
     (filter (\<lambda>e. ex_version e = version_id) (ct_exports c))"

text \<open>The join has one row for each mapping of the variant to the space: at most one, by its key.\<close>

definition variants_for_space :: "uuid \<Rightarrow> string list \<Rightarrow> catalog \<Rightarrow> runtime_variant list" where
  "variants_for_space space_id states c = sort_key (\<lambda>v. (va_key v, va_id v))
     (filter (\<lambda>v. list_ex (\<lambda>m. vs_variant m = va_id v \<and> vs_space m = space_id \<and> vs_state m \<in> set states)
        (ct_variant_spaces c)) (ct_variants c))"

definition calibration_profiles :: "uuid \<Rightarrow> catalog \<Rightarrow> calibration_profile list" where
  "calibration_profiles space_id c = rev (sort_key (\<lambda>p. (cp_created p, cp_id p))
     (filter (\<lambda>p. cp_space p = space_id) (ct_profiles c)))"

definition package_by_key :: "string \<Rightarrow> catalog \<Rightarrow> runtime_package option" where
  "package_by_key key c = tab_get rp_key (ct_packages c) key"

definition export_installations :: "uuid \<Rightarrow> catalog \<Rightarrow> installation list" where
  "export_installations export_id c = sort_key in_id
     (filter (\<lambda>i. in_parent i = export_id) (ct_export_installs c))"

definition package_installations :: "uuid \<Rightarrow> catalog \<Rightarrow> installation list" where
  "package_installations package_id c = sort_key in_id
     (filter (\<lambda>i. in_parent i = package_id) (ct_package_installs c))"

section \<open>Installation records\<close>

text \<open>\<open>_transition\<close>: one guarded UPDATE that writes every value as given.\<close>

definition installation_transition ::
  "uuid \<Rightarrow> string list \<Rightarrow> string \<Rightarrow> time option \<Rightarrow> time option \<Rightarrow> string option \<Rightarrow> installation list
   \<Rightarrow> bool \<times> installation list" where
  "installation_transition i from_states to_state installed verified detail t =
     guarded_update (\<lambda>r. in_id r = i \<and> in_state r \<in> set from_states)
       (\<lambda>r. r\<lparr>in_state := to_state, in_installed := installed, in_verified := verified, in_detail := detail\<rparr>) t"

definition transition_export_installation ::
  "uuid \<Rightarrow> string list \<Rightarrow> string \<Rightarrow> time option \<Rightarrow> time option \<Rightarrow> string option \<Rightarrow> catalog \<Rightarrow> bool \<times> catalog" where
  "transition_export_installation i from_states to_state installed verified detail c =
     (case installation_transition i from_states to_state installed verified detail (ct_export_installs c) of
        (changed, t) \<Rightarrow> (changed, c\<lparr>ct_export_installs := t\<rparr>))"

definition transition_package_installation ::
  "uuid \<Rightarrow> string list \<Rightarrow> string \<Rightarrow> time option \<Rightarrow> time option \<Rightarrow> string option \<Rightarrow> catalog \<Rightarrow> bool \<times> catalog" where
  "transition_package_installation i from_states to_state installed verified detail c =
     (case installation_transition i from_states to_state installed verified detail (ct_package_installs c) of
        (changed, t) \<Rightarrow> (changed, c\<lparr>ct_package_installs := t\<rparr>))"

section \<open>Joins the services share\<close>

text \<open>
  A variant's row joined to its export, version and component, as provenance checks read it: at most
  one row, by the primary keys.
\<close>

definition provenance_of :: "uuid \<Rightarrow> catalog \<Rightarrow> (uuid \<times> string) option" where
  "provenance_of variant_id c =
     (case tab_get va_id (ct_variants c) variant_id of None \<Rightarrow> None
      | Some v \<Rightarrow> (case tab_get ex_id (ct_exports c) (va_export v) of None \<Rightarrow> None
      | Some e \<Rightarrow> (case tab_get cv_id (ct_versions c) (ex_version e) of None \<Rightarrow> None
      | Some w \<Rightarrow> (case tab_get cm_id (ct_components c) (cv_component w) of None \<Rightarrow> None
      | Some m \<Rightarrow> Some (ex_version e, cm_kind m)))))"

definition compatibility_state :: "uuid \<Rightarrow> uuid \<Rightarrow> catalog \<Rightarrow> string option" where
  "compatibility_state variant_id space_id c =
     map_option vs_state
       (find (\<lambda>m. vs_variant m = variant_id \<and> vs_space m = space_id) (ct_variant_spaces c))"

abbreviation "kind_detector \<equiv> ''FACE_DETECTOR''"
abbreviation "kind_embedder \<equiv> ''FACE_REPRESENTATION''"
abbreviation "rt_registered \<equiv> ''REGISTERED''"
abbreviation "rt_installed \<equiv> ''INSTALLED''"
abbreviation "rt_missing \<equiv> ''MISSING''"
abbreviation "rt_declared \<equiv> ''DECLARED''"
abbreviation "rt_validated \<equiv> ''VALIDATED''"

end
