(* ===== verification/Perception.thy ===== *)
theory Perception
  imports Messages Catalog Folders VectorIndex
begin

text \<open>
  Running a perception plan against the ML worker (\<open>backend/app/runtime/perception_client.py\<close>, with the
  plan's types of \<open>worker_config.py\<close>): detect the faces of one image, then represent them, trying the
  planned variants in order. The worker is another process: what it answers to a request is the argument
  \<open>worker\<close>, \<open>None\<close> where the supervisor raises \<open>WorkerFailedError\<close>, and \<open>memory\<close> is what a worker's
  segment holds. A request's id is fresh, so one function covers every behaviour in time. The theorems
  say that a variant is passed over only because its provider is unavailable, that nothing is recorded
  under a variant that did not run, and that a run's vectors are those of the faces asked about.
\<close>

section \<open>Plans and results\<close>

record planned_variant =
  pv_version :: uuid      \<comment> \<open>\<open>component_version_id\<close>\<close>
  pv_variant :: uuid      \<comment> \<open>\<open>runtime_variant_id\<close>\<close>
  pv_kind :: string
  pv_contract :: string
  pv_provider :: string
  pv_device :: string
  pv_package :: string
  pv_path :: string
  pv_sha :: "byte list"

record perception_plan =
  pl_space :: uuid
  pl_dimension :: nat
  pl_detector :: "planned_variant list"
  pl_embedder :: "planned_variant list"

record provider_unavailable =
  un_variant :: planned_variant
  un_code :: ml_error_code
  un_message :: string

record provider_fallback =
  fb_failed :: "provider_unavailable list"
  fb_selected :: planned_variant

record detected =
  dt_detections :: "detection list"
  dt_ran :: planned_variant
  dt_fallbacks :: "provider_fallback list"

record face_vector =
  fv_index :: int        \<comment> \<open>\<open>detection_index\<close>\<close>
  fv_vector :: vec
  fv_normalization :: string

record represented =
  rd_vectors :: "face_vector list"
  rd_ran :: "planned_variant option"
  rd_fallbacks :: "provider_fallback list"

datatype client_error =
    PerceptionError ml_error_code string
  | RuntimeUnavailable string "string list"
  | WorkerFailed
  | ClientValueError
  | ClientAssertion

section \<open>Asking the worker\<close>

text \<open>\<open>str(uuid)\<close>\<close>

definition uuid_text :: "uuid \<Rightarrow> string" where
  "uuid_text u = (let h = uuid_hex u in take 8 h @ ''-'' @ take 4 (drop 8 h) @ ''-'' @ take 4 (drop 12 h) @ ''-'' @
     take 4 (drop 16 h) @ ''-'' @ drop 20 h)"

type_synonym worker = "ml_request \<Rightarrow> ml_response option"

type_synonym variant_key = "string \<times> uuid"

definition key_of_variant :: "planned_variant \<Rightarrow> variant_key" where
  "key_of_variant v = (pv_kind v, pv_variant v)"

definition provider_unavailable_codes :: "ml_error_code set" where
  "provider_unavailable_codes = {RUNTIME_VARIANT_NOT_AVAILABLE, RUNTIME_INITIALIZATION_FAILED}"

definition client_request :: "ml_operation \<Rightarrow> ml_input \<Rightarrow> execution_context \<Rightarrow> uuid \<Rightarrow> planned_variant \<Rightarrow> ml_request" where
  "client_request operation body context i v =
     \<lparr>mq_id = uuid_text i, mq_operation = operation, mq_component = uuid_text (pv_version v), mq_input = body,
      mq_options = [(''runtime_variant_id'', JStr (uuid_text (pv_variant v)))], mq_context = context, mq_version = 1\<rparr>"

text \<open>\<open>_check_it_was_that_variant\<close>; a SUCCESS without its execution is an assertion.\<close>

definition ran_as_asked :: "ml_response \<Rightarrow> planned_variant \<Rightarrow> client_error + unit" where
  "ran_as_asked r v =
     (case mr_execution r of
        None \<Rightarrow> Inl ClientAssertion
      | Some x \<Rightarrow>
          if xp_variant x \<noteq> uuid_text (pv_variant v) \<or> xp_version x \<noteq> uuid_text (pv_version v)
          then Inl (PerceptionError INTERNAL_WORKER_ERROR ''the worker ran another variant'')
          else Inr ())"

definition ruled_out_reason :: "planned_variant \<Rightarrow> string \<Rightarrow> string" where
  "ruled_out_reason v message = pv_provider v @ '' ('' @ pv_package v @ ''): '' @ message"

text \<open>
  \<open>_attempt\<close>: \<open>ids n\<close> is the id of the next request, \<open>ruled\<close> the client's record of ruled-out variants,
  \<open>failures\<close> the loop's list, \<open>planned\<close> all the variants of the stage.
\<close>

fun attempt_variants ::
  "worker \<Rightarrow> string \<Rightarrow> (uuid \<Rightarrow> planned_variant \<Rightarrow> ml_request) \<Rightarrow> id_supply \<Rightarrow> planned_variant list \<Rightarrow> nat
   \<Rightarrow> planned_variant list \<Rightarrow> (variant_key \<rightharpoonup> string) \<Rightarrow> provider_unavailable list
   \<Rightarrow> (client_error + ml_request \<times> ml_response \<times> planned_variant \<times> provider_fallback list) \<times> (variant_key \<rightharpoonup> string)"
where
  "attempt_variants worker what build ids planned n [] ruled failures =
     (Inl (RuntimeUnavailable what (map (\<lambda>v. the (ruled (key_of_variant v))) planned)), ruled)"
| "attempt_variants worker what build ids planned n (v # vs) ruled failures =
     (if ruled (key_of_variant v) \<noteq> None then attempt_variants worker what build ids planned n vs ruled failures
      else let q = build (ids n) v in
        case worker q of
          None \<Rightarrow> (Inl WorkerFailed, ruled)
        | Some r \<Rightarrow>
            if mr_status r = SUCCESS then
              (bindE (ran_as_asked r v) (\<lambda>_.
                 Inr (q, r, v, if failures = [] then [] else [\<lparr>fb_failed = failures, fb_selected = v\<rparr>])), ruled)
            else (case mr_error r of
                None \<Rightarrow> (Inl ClientAssertion, ruled)
              | Some e \<Rightarrow>
                  if me_code e \<notin> provider_unavailable_codes
                  then (Inl (PerceptionError (me_code e) (me_message e)), ruled)
                  else attempt_variants worker what build ids planned (Suc n) vs
                         (ruled(key_of_variant v \<mapsto> ruled_out_reason v (me_message e)))
                         (failures @ [\<lparr>un_variant = v, un_code = me_code e, un_message = me_message e\<rparr>])))"

definition attempt_stage ::
  "worker \<Rightarrow> string \<Rightarrow> (uuid \<Rightarrow> planned_variant \<Rightarrow> ml_request) \<Rightarrow> id_supply \<Rightarrow> planned_variant list \<Rightarrow> (variant_key \<rightharpoonup> string)
   \<Rightarrow> (client_error + ml_request \<times> ml_response \<times> planned_variant \<times> provider_fallback list) \<times> (variant_key \<rightharpoonup> string)"
where
  "attempt_stage worker what build ids planned ruled = attempt_variants worker what build ids planned 0 planned ruled []"

text \<open>\<open>detect\<close>, given the descriptor of the image's segment.\<close>

definition client_detect ::
  "worker \<Rightarrow> perception_plan \<Rightarrow> descriptor \<Rightarrow> execution_context \<Rightarrow> id_supply \<Rightarrow> (variant_key \<rightharpoonup> string)
   \<Rightarrow> (client_error + detected) \<times> (variant_key \<rightharpoonup> string)" where
  "client_detect worker plan picture context ids ruled =
     (case attempt_stage worker ''the face detector'' (client_request DETECT_FACES (DetectInput [picture]) context) ids
             (pl_detector plan) ruled of
        (Inl e, ruled') \<Rightarrow> (Inl e, ruled')
      | (Inr (_, r, chosen, fallbacks), ruled') \<Rightarrow>
          (case mr_output r of
             Some (DetectOutput ds) \<Rightarrow> (Inr \<lparr>dt_detections = ds, dt_ran = chosen, dt_fallbacks = fallbacks\<rparr>, ruled')
           | _ \<Rightarrow> (Inl ClientAssertion, ruled')))"

text \<open>\<open>_read\<close>: exactly one result for each face asked about, of the plan's dimension and of float32.\<close>

definition one_vector :: "(descriptor \<Rightarrow> vec) \<Rightarrow> perception_plan \<Rightarrow> (int \<rightharpoonup> representation_result) \<Rightarrow> face_geometry
   \<Rightarrow> client_error + face_vector" where
  "one_vector memory plan results f =
     (let r = the (results (fg_face f))
      in if rr_dimension r \<noteq> int (pl_dimension plan) \<or> rr_dtype r \<noteq> ''float32''
         then Inl (PerceptionError INTERNAL_WORKER_ERROR ''a vector of another shape'')
         else Inr \<lparr>fv_index = fg_face f, fv_vector = memory (rr_embedding r), fv_normalization = rr_normalization r\<rparr>)"

fun read_each :: "('a \<Rightarrow> client_error + 'b) \<Rightarrow> 'a list \<Rightarrow> client_error + 'b list" where
  "read_each f [] = Inr []"
| "read_each f (x # xs) = bindE (f x) (\<lambda>y. bindE (read_each f xs) (\<lambda>ys. Inr (y # ys)))"

definition read_vectors ::
  "(descriptor \<Rightarrow> vec) \<Rightarrow> perception_plan \<Rightarrow> ml_response \<Rightarrow> face_geometry list \<Rightarrow> client_error + face_vector list" where
  "read_vectors memory plan r asked =
     (case mr_output r of
        Some (RepresentOutput rs) \<Rightarrow>
          (let results = map_of (rev (map (\<lambda>x. (rr_face x, x)) rs))
           in if \<not> distinct (map rr_face rs) \<or> set (map rr_face rs) \<noteq> set (map fg_face asked)
              then Inl (PerceptionError INTERNAL_WORKER_ERROR ''the worker did not answer for exactly the faces it was asked about'')
              else read_each (one_vector memory plan results) asked)
      | _ \<Rightarrow> Inl ClientAssertion)"

definition asked_faces :: "detection list \<Rightarrow> face_geometry list" where
  "asked_faces ds = map (\<lambda>x. \<lparr>fg_input = 0, fg_face = dn_index x, fg_box = dn_box x, fg_landmarks = dn_landmarks x\<rparr>) ds"

definition client_represent ::
  "worker \<Rightarrow> (descriptor \<Rightarrow> vec) \<Rightarrow> perception_plan \<Rightarrow> descriptor \<Rightarrow> detection list \<Rightarrow> execution_context \<Rightarrow> id_supply
   \<Rightarrow> (variant_key \<rightharpoonup> string) \<Rightarrow> (client_error + represented) \<times> (variant_key \<rightharpoonup> string)" where
  "client_represent worker memory plan picture ds context ids ruled =
     (if ds = [] then (Inr \<lparr>rd_vectors = [], rd_ran = None, rd_fallbacks = []\<rparr>, ruled)
      else if \<not> distinct (map dn_index ds) then (Inl ClientValueError, ruled)
      else
        (case attempt_stage worker ''the face embedder''
                (client_request GENERATE_REPRESENTATIONS (RepresentInput [picture] (asked_faces ds)) context) ids
                (pl_embedder plan) ruled of
           (Inl e, ruled') \<Rightarrow> (Inl e, ruled')
         | (Inr (_, r, chosen, fallbacks), ruled') \<Rightarrow>
             (bindE (read_vectors memory plan r (asked_faces ds)) (\<lambda>vectors.
                Inr \<lparr>rd_vectors = vectors, rd_ran = Some chosen, rd_fallbacks = fallbacks\<rparr>), ruled')))"

section \<open>Which variant chosen, and why not an earlier one\<close>

text \<open>The worker answered a request for this variant with the error that is recorded.\<close>

definition said_unavailable :: "worker \<Rightarrow> (uuid \<Rightarrow> planned_variant \<Rightarrow> ml_request) \<Rightarrow> provider_unavailable \<Rightarrow> bool" where
  "said_unavailable worker build u \<longleftrightarrow> un_code u \<in> provider_unavailable_codes \<and>
     (\<exists>i r e. worker (build i (un_variant u)) = Some r \<and> mr_status r \<noteq> SUCCESS \<and> mr_error r = Some e \<and>
        me_code e = un_code u \<and> me_message e = un_message u)"

lemma attempt_variants_Inr:
  assumes "attempt_variants worker what build ids planned n vs ruled failures = (Inr (q, r, v, fb), ruled')"
    and "distinct (map key_of_variant vs)"
  shows "\<exists>before rest failed. vs = before @ v # rest \<and> ruled (key_of_variant v) = None \<and>
    map un_variant failed = filter (\<lambda>u. ruled (key_of_variant u) = None) before \<and>
    (\<forall>u\<in>set failed. said_unavailable worker build u) \<and>
    fb = (if failures @ failed = [] then [] else [\<lparr>fb_failed = failures @ failed, fb_selected = v\<rparr>]) \<and>
    (\<exists>i. q = build i v \<and> worker q = Some r) \<and> mr_status r = SUCCESS \<and>
    (\<exists>x. mr_execution r = Some x \<and> xp_variant x = uuid_text (pv_variant v) \<and> xp_version x = uuid_text (pv_version v)) \<and>
    dom ruled' = dom ruled \<union> set (map (key_of_variant \<circ> un_variant) failed)"
  using assms
proof (induction vs arbitrary: n ruled failures)
  case (Cons w vs)
  show ?case
  proof (cases "ruled (key_of_variant w) = None")
    case False
    with Cons.prems(1) have run: "attempt_variants worker what build ids planned n vs ruled failures = (Inr (q, r, v, fb), ruled')"
      by simp
    have "distinct (map key_of_variant vs)" using Cons.prems(2) by simp
    from Cons.IH [OF run this] obtain before rest failed where C: "vs = before @ v # rest" "ruled (key_of_variant v) = None"
      "map un_variant failed = filter (\<lambda>u. ruled (key_of_variant u) = None) before"
      "(\<forall>u\<in>set failed. said_unavailable worker build u) \<and>
       fb = (if failures @ failed = [] then [] else [\<lparr>fb_failed = failures @ failed, fb_selected = v\<rparr>]) \<and>
       (\<exists>i. q = build i v \<and> worker q = Some r) \<and> mr_status r = SUCCESS \<and>
       (\<exists>x. mr_execution r = Some x \<and> xp_variant x = uuid_text (pv_variant v) \<and> xp_version x = uuid_text (pv_version v)) \<and>
       dom ruled' = dom ruled \<union> set (map (key_of_variant \<circ> un_variant) failed)" by blast
    then have "w # vs = (w # before) @ v # rest" "map un_variant failed = filter (\<lambda>u. ruled (key_of_variant u) = None) (w # before)"
      using False by simp_all
    with C show ?thesis by blast
  next
    case True
    let ?q = "build (ids n) w"
    from Cons.prems(1) True obtain a where a: "worker ?q = Some a" by (cases "worker ?q") (auto simp: Let_def)
    show ?thesis
    proof (cases "mr_status a = SUCCESS")
      case S: True
      with Cons.prems(1) True a have "bindE (ran_as_asked a w) (\<lambda>_.
          Inr (?q, a, w, if failures = [] then [] else [\<lparr>fb_failed = failures, fb_selected = w\<rparr>])) = Inr (q, r, v, fb)"
        and same: "ruled' = ruled" by (simp_all add: Let_def)
      then have eq: "q = ?q" "r = a" "v = w" "fb = (if failures = [] then [] else [\<lparr>fb_failed = failures, fb_selected = w\<rparr>])"
        and ran: "ran_as_asked a w = Inr ()" by (auto simp: bindE_Inr_iff)
      have X: "\<exists>x. mr_execution a = Some x \<and> xp_variant x = uuid_text (pv_variant w) \<and> xp_version x = uuid_text (pv_version w)"
        using ran by (auto simp: ran_as_asked_def split: option.splits if_splits)
      show ?thesis
        using True S X same eq a by (intro exI [of _ "[]"] exI [of _ vs] conjI) auto
    next
      case F: False
      with Cons.prems(1) True a obtain e where e: "mr_error a = Some e" by (cases "mr_error a") (auto simp: Let_def)
      with Cons.prems(1) True a F have code: "me_code e \<in> provider_unavailable_codes" by (auto simp: Let_def split: if_splits)
      let ?u = "\<lparr>un_variant = w, un_code = me_code e, un_message = me_message e\<rparr>"
      let ?ruled = "ruled(key_of_variant w \<mapsto> ruled_out_reason w (me_message e))"
      have run: "attempt_variants worker what build ids planned (Suc n) vs ?ruled (failures @ [?u]) = (Inr (q, r, v, fb), ruled')"
        using Cons.prems(1) True a F e code by (simp add: Let_def)
      have "distinct (map key_of_variant vs)" using Cons.prems(2) by simp
      from Cons.IH [OF run this] obtain before rest failed where C: "vs = before @ v # rest" "?ruled (key_of_variant v) = None"
        "map un_variant failed = filter (\<lambda>u. ?ruled (key_of_variant u) = None) before"
        "\<forall>u\<in>set failed. said_unavailable worker build u"
        "fb = (if (failures @ [?u]) @ failed = [] then [] else [\<lparr>fb_failed = (failures @ [?u]) @ failed, fb_selected = v\<rparr>])"
        "(\<exists>i. q = build i v \<and> worker q = Some r) \<and> mr_status r = SUCCESS \<and>
         (\<exists>x. mr_execution r = Some x \<and> xp_variant x = uuid_text (pv_variant v) \<and> xp_version x = uuid_text (pv_version v))"
        "dom ruled' = dom ?ruled \<union> set (map (key_of_variant \<circ> un_variant) failed)" by blast
      have notw: "key_of_variant u \<noteq> key_of_variant w" if "u \<in> set before" for u
        using Cons.prems(2) that C(1) by (metis Cons.prems(2) distinct.simps(2) in_set_conv_decomp list.simps(9) map_append
            Un_iff image_eqI set_append set_map)
      have 1: "w # vs = (w # before) @ v # rest" using C(1) by simp
      have 2: "ruled (key_of_variant v) = None" using C(2) by (simp split: if_splits)
      have 3: "map un_variant (?u # failed) = filter (\<lambda>u. ruled (key_of_variant u) = None) (w # before)"
        using C(3) True notw by (auto intro: filter_cong)
      have 4: "\<forall>u\<in>set (?u # failed). said_unavailable worker build u" using C(4) code a F e by (auto simp: said_unavailable_def)
      have 5: "fb = (if failures @ (?u # failed) = [] then [] else [\<lparr>fb_failed = failures @ (?u # failed), fb_selected = v\<rparr>])"
        using C(5) by simp
      have 6: "dom ruled' = dom ruled \<union> set (map (key_of_variant \<circ> un_variant) (?u # failed))" using C(7) by auto
      from 1 2 3 4 5 6 C(6) show ?thesis by blast
    qed
  qed
qed simp

lemma attempt_stage_Inr:
  assumes "attempt_stage worker what build ids planned ruled = (Inr (q, r, v, fb), ruled')"
    and "distinct (map key_of_variant planned)"
  obtains before rest failed i x where "planned = before @ v # rest" "ruled (key_of_variant v) = None"
    "map un_variant failed = filter (\<lambda>u. ruled (key_of_variant u) = None) before"
    "\<forall>u\<in>set failed. said_unavailable worker build u"
    "fb = (if failed = [] then [] else [\<lparr>fb_failed = failed, fb_selected = v\<rparr>])"
    "q = build i v" "worker q = Some r" "mr_status r = SUCCESS" "mr_execution r = Some x"
    "xp_variant x = uuid_text (pv_variant v)" "xp_version x = uuid_text (pv_version v)"
    "dom ruled' = dom ruled \<union> set (map (key_of_variant \<circ> un_variant) failed)"
  using attempt_variants_Inr [OF assms(1) [unfolded attempt_stage_def] assms(2)] by auto

text \<open>A stage that finds no provider has ruled out every planned variant.\<close>

lemma attempt_variants_RuntimeUnavailable:
  assumes "attempt_variants worker what build ids planned n vs ruled failures = (Inl (RuntimeUnavailable w reasons), ruled')"
  shows "dom ruled' = dom ruled \<union> set (map key_of_variant vs) \<and> w = what \<and>
    reasons = map (\<lambda>v. the (ruled' (key_of_variant v))) planned"
  using assms
proof (induction vs arbitrary: n ruled failures)
  case (Cons v vs)
  show ?case
  proof (cases "ruled (key_of_variant v) = None")
    case False
    then show ?thesis using Cons.IH [of n ruled failures] Cons.prems by auto
  next
    case True
    from Cons.prems True obtain a where a: "worker (build (ids n) v) = Some a"
      by (cases "worker (build (ids n) v)") (auto simp: Let_def)
    have F: "mr_status a \<noteq> SUCCESS"
      using Cons.prems True a by (auto simp: Let_def ran_as_asked_def bindE_def split: option.splits if_splits)
    from Cons.prems True a F obtain e where e: "mr_error a = Some e" by (cases "mr_error a") (auto simp: Let_def)
    from Cons.prems True a F e have code: "me_code e \<in> provider_unavailable_codes" by (auto simp: Let_def split: if_splits)
    show ?thesis using Cons.IH Cons.prems True a F e code by (force simp: Let_def)
  qed
qed simp

section \<open>What a run's vectors are\<close>

lemma read_each_Inr:
  "read_each f xs = Inr ys \<longleftrightarrow> map f xs = map Inr ys"
proof (induction xs arbitrary: ys)
  case (Cons x xs)
  show ?case by (cases ys) (auto simp: bindE_Inr_iff Cons.IH)
qed auto

lemma read_vectors_Inr:
  assumes "read_vectors memory plan r asked = Inr vs"
  obtains rs where "mr_output r = Some (RepresentOutput rs)" "map fv_index vs = map fg_face asked"
    "set (map rr_face rs) = set (map fg_face asked)"
    "\<forall>f\<in>set vs. \<exists>x\<in>set rs. rr_face x = fv_index f \<and> rr_dimension x = int (pl_dimension plan) \<and>
        rr_dtype x = ''float32'' \<and> fv_vector f = memory (rr_embedding x) \<and> fv_normalization f = rr_normalization x"
proof -
  from assms obtain rs where o: "mr_output r = Some (RepresentOutput rs)" and d: "distinct (map rr_face rs)"
    and faces: "set (map rr_face rs) = set (map fg_face asked)"
    and each: "read_each (one_vector memory plan (map_of (rev (map (\<lambda>x. (rr_face x, x)) rs)))) asked = Inr vs"
    unfolding read_vectors_def by (auto simp: Let_def split: option.splits ml_output.splits if_splits)
  define results where "results = map_of (rev (map (\<lambda>x. (rr_face x, x)) rs))"
  from each have m: "map (one_vector memory plan results) asked = map Inr vs" by (simp add: read_each_Inr results_def)
  have one: "fv_index f = fg_face a \<and> rr_dimension (the (results (fg_face a))) = int (pl_dimension plan) \<and>
      rr_dtype (the (results (fg_face a))) = ''float32'' \<and> fv_vector f = memory (rr_embedding (the (results (fg_face a)))) \<and>
      fv_normalization f = rr_normalization (the (results (fg_face a)))"
    if "one_vector memory plan results a = Inr f" for a f
    using that by (auto simp: one_vector_def Let_def split: if_splits)
  have len: "length asked = length vs" using arg_cong [OF m, of length] by simp
  have nth: "one_vector memory plan results (asked ! i) = Inr (vs ! i)" if "i < length vs" for i
    using arg_cong [OF m, of "\<lambda>l. l ! i"] that len by simp
  have found: "\<exists>x\<in>set rs. rr_face x = fg_face a \<and> results (fg_face a) = Some x" if "a \<in> set asked" for a
  proof -
    from that faces obtain x where x: "x \<in> set rs" "rr_face x = fg_face a" by (metis (no_types) imageE image_eqI set_map)
    have "distinct (map fst (rev (map (\<lambda>x. (rr_face x, x)) rs)))" using d by (simp add: rev_map [symmetric] o_def)
    then have "results (fg_face a) = Some x" unfolding results_def using x by (intro map_of_is_SomeI) (auto simp: image_iff)
    then show ?thesis using x by blast
  qed
  have "map fv_index vs = map fg_face asked" using len nth one by (intro nth_equalityI) simp_all
  moreover have "\<forall>f\<in>set vs. \<exists>x\<in>set rs. rr_face x = fv_index f \<and> rr_dimension x = int (pl_dimension plan) \<and>
        rr_dtype x = ''float32'' \<and> fv_vector f = memory (rr_embedding x) \<and> fv_normalization f = rr_normalization x"
  proof
    fix f assume "f \<in> set vs"
    then obtain i where i: "i < length vs" "f = vs ! i" by (auto simp: in_set_conv_nth)
    then have "asked ! i \<in> set asked" using len by simp
    with found obtain x where x: "x \<in> set rs" "rr_face x = fg_face (asked ! i)" "results (fg_face (asked ! i)) = Some x" by blast
    from one [OF nth [OF i(1)]] x i show "\<exists>x\<in>set rs. rr_face x = fv_index f \<and> rr_dimension x = int (pl_dimension plan) \<and>
        rr_dtype x = ''float32'' \<and> fv_vector f = memory (rr_embedding x) \<and> fv_normalization f = rr_normalization x"
      by (intro bexI [OF _ x(1)]) simp
  qed
  ultimately show thesis using that o faces by blast
qed

text \<open>
  C20. A variant is passed over only because its provider is unavailable: the variant that ran is the first
  planned one that was neither ruled out before nor answered, when it was asked, with one of the two codes
  that mean so; each variant passed over in this call is recorded in order with the error it gave; and the
  success recorded is of exactly the variant and the version asked for.
\<close>

theorem only_unavailable_providers_are_passed_over:
  assumes "distinct (map key_of_variant planned)"
    and "attempt_stage worker what build ids planned ruled = (Inr (q, r, v, fb), ruled')"
  shows "\<exists>before rest failed i x. planned = before @ v # rest \<and> ruled (key_of_variant v) = None \<and>
    map un_variant failed = filter (\<lambda>u. ruled (key_of_variant u) = None) before \<and>
    (\<forall>u\<in>set failed. said_unavailable worker build u) \<and>
    fb = (if failed = [] then [] else [\<lparr>fb_failed = failed, fb_selected = v\<rparr>]) \<and>
    q = build i v \<and> worker q = Some r \<and> mr_status r = SUCCESS \<and> mr_execution r = Some x \<and>
    xp_variant x = uuid_text (pv_variant v) \<and> xp_version x = uuid_text (pv_version v) \<and>
    dom ruled' = dom ruled \<union> set (map (key_of_variant \<circ> un_variant) failed)"
  by (rule attempt_stage_Inr [OF assms(2,1)]) blast

text \<open>
  C21. The vectors of a run are those of the faces it asked about: one for each detection, in the detections'
  order, each copied from the segment the worker gave for that very face, of the space's dimension and of
  float32; they carry the provenance of the variant that ran, which is a planned one; and with no detection
  the worker is not asked at all.
\<close>

theorem vectors_are_of_the_faces_asked_about:
  assumes "distinct (map key_of_variant (pl_embedder plan))"
    and "client_represent worker memory plan picture ds context ids ruled = (Inr represented, ruled')"
  shows "map fv_index (rd_vectors represented) = map dn_index ds \<and>
    (if ds = [] then rd_ran represented = None \<and> ruled' = ruled
     else \<exists>v i r x rs. rd_ran represented = Some v \<and> v \<in> set (pl_embedder plan) \<and>
       worker (client_request GENERATE_REPRESENTATIONS (RepresentInput [picture] (asked_faces ds)) context i v) = Some r \<and>
       mr_execution r = Some x \<and> xp_variant x = uuid_text (pv_variant v) \<and> mr_output r = Some (RepresentOutput rs) \<and>
       set (map rr_face rs) = set (map dn_index ds) \<and>
       (\<forall>f\<in>set (rd_vectors represented). \<exists>y\<in>set rs. rr_face y = fv_index f \<and>
          rr_dimension y = int (pl_dimension plan) \<and> rr_dtype y = ''float32'' \<and> fv_vector f = memory (rr_embedding y) \<and>
          fv_normalization f = rr_normalization y))"
proof (cases "ds = []")
  case True
  with assms(2) show ?thesis by (auto simp: client_represent_def)
next
  case False
  let ?build = "client_request GENERATE_REPRESENTATIONS (RepresentInput [picture] (asked_faces ds)) context"
  have faces: "map fg_face (asked_faces ds) = map dn_index ds" by (simp add: asked_faces_def)
  from assms(2) False obtain q r v fb where
    stage: "attempt_stage worker ''the face embedder'' ?build ids (pl_embedder plan) ruled = (Inr (q, r, v, fb), ruled')" and
    read: "read_vectors memory plan r (asked_faces ds) = Inr (rd_vectors represented)" and ran: "rd_ran represented = Some v"
    unfolding client_represent_def by (auto simp: bindE_Inr_iff split: if_splits prod.splits sum.splits)
  from stage assms(1) show ?thesis
  proof (rule attempt_stage_Inr)
    fix before rest failed i x
    assume v: "pl_embedder plan = before @ v # rest" and q: "q = ?build i v" "worker q = Some r"
      and x: "mr_execution r = Some x" "xp_variant x = uuid_text (pv_variant v)"
    from read show ?thesis
    proof (rule read_vectors_Inr)
      fix rs
      assume rs: "mr_output r = Some (RepresentOutput rs)" "map fv_index (rd_vectors represented) = map fg_face (asked_faces ds)"
        "set (map rr_face rs) = set (map fg_face (asked_faces ds))"
        "\<forall>f\<in>set (rd_vectors represented). \<exists>y\<in>set rs. rr_face y = fv_index f \<and>
          rr_dimension y = int (pl_dimension plan) \<and> rr_dtype y = ''float32'' \<and> fv_vector f = memory (rr_embedding y) \<and>
          fv_normalization f = rr_normalization y"
      have "v \<in> set (pl_embedder plan)" using v by simp
      moreover have "worker (?build i v) = Some r" using q by simp
      ultimately show ?thesis using False ran x rs [unfolded faces] by (simp only: if_False) blast
    qed
  qed
qed

section \<open>A sample\<close>

definition planned_detector :: planned_variant where
  "planned_detector = \<lparr>pv_version = 73, pv_variant = 77, pv_kind = kind_detector, pv_contract = ''d1'', pv_provider = ''CPU'',
     pv_device = ''cpu'', pv_package = ''pk'', pv_path = ''det.onnx'', pv_sha = replicate 32 1\<rparr>"

definition planned_embedder :: planned_variant where
  "planned_embedder = \<lparr>pv_version = 6, pv_variant = 78, pv_kind = kind_embedder, pv_contract = ''e1'', pv_provider = ''CPU'',
     pv_device = ''cpu'', pv_package = ''pk'', pv_path = ''emb.onnx'', pv_sha = replicate 32 2\<rparr>"

definition sample_detection :: detection where
  "sample_detection = \<lparr>dn_input = 0, dn_index = 7, dn_box = (1/4, 1/4, 1/2, 3/4), dn_score = 3/4, dn_landmarks = Some [(1/4, 1/2)]\<rparr>"

text \<open>DirectML is not available to this worker, the CPU is.\<close>

definition missing_provider :: planned_variant where
  "missing_provider = planned_embedder\<lparr>pv_variant := 91, pv_provider := ''DML''\<rparr>"

definition sample_plan :: perception_plan where
  "sample_plan = \<lparr>pl_space = 5, pl_dimension = 2, pl_detector = [planned_detector], pl_embedder = [missing_provider, planned_embedder]\<rparr>"

definition sample_worker :: worker where
  "sample_worker q = Some
     (if mq_options q = [(''runtime_variant_id'', JStr (uuid_text 91))]
      then sample_answer\<lparr>mr_status := ERROR, mr_execution := None, mr_output := None,
             mr_error := Some \<lparr>me_code = RUNTIME_VARIANT_NOT_AVAILABLE, me_message = ''no device''\<rparr>\<rparr>
      else sample_answer\<lparr>mr_operation := GENERATE_REPRESENTATIONS,
             mr_execution := Some \<lparr>xp_version = uuid_text 6, xp_variant = uuid_text 78, xp_provider = ''CPU'', xp_device = ''cpu''\<rparr>,
             mr_output := Some (RepresentOutput [\<lparr>rr_input = 0, rr_face = 7, rr_dimension = 2, rr_dtype = ''float32'',
               rr_normalization = ''L2_NORMALIZED'', rr_embedding = sample_image\<rparr>])\<rparr>)"

definition sample_memory :: "descriptor \<Rightarrow> vec" where
  "sample_memory x = [1065353216, 0]"

lemma sample_plan_keys: "distinct (map key_of_variant (pl_embedder sample_plan))"
  by code_simp

lemma sample_represented:
  "case client_represent sample_worker sample_memory sample_plan sample_image [sample_detection] no_context (\<lambda>n. n) Map.empty of
     (Inr r, _) \<Rightarrow> rd_ran r = Some planned_embedder \<and> map fv_index (rd_vectors r) = [7] | _ \<Rightarrow> False"
  by code_simp

lemma vectors_are_of_the_faces_asked_about_witness:
  "\<exists>r ruled. client_represent sample_worker sample_memory sample_plan sample_image [sample_detection] no_context (\<lambda>n. n) Map.empty = (Inr r, ruled) \<and>
     map fv_index (rd_vectors r) = [7]"
proof -
  obtain r ruled where
    r: "client_represent sample_worker sample_memory sample_plan sample_image [sample_detection] no_context (\<lambda>n. n) Map.empty = (Inr r, ruled)"
    using sample_represented by (auto split: prod.splits sum.splits)
  from vectors_are_of_the_faces_asked_about [OF sample_plan_keys r] r show ?thesis by (simp add: sample_detection_def)
qed

lemma sample_attempt:
  "case attempt_stage sample_worker ''the face embedder''
      (client_request GENERATE_REPRESENTATIONS (RepresentInput [sample_image] (asked_faces [sample_detection])) no_context)
      (\<lambda>n. n) (pl_embedder sample_plan) Map.empty of
     (Inr (q, r, v, fb), _) \<Rightarrow> v = planned_embedder \<and> map un_variant (fb_failed (hd fb)) = [missing_provider] | _ \<Rightarrow> False"
  by code_simp

lemma only_unavailable_providers_are_passed_over_witness:
  "\<exists>q r fb ruled failed. attempt_stage sample_worker ''the face embedder''
      (client_request GENERATE_REPRESENTATIONS (RepresentInput [sample_image] (asked_faces [sample_detection])) no_context)
      (\<lambda>n. n) (pl_embedder sample_plan) Map.empty = (Inr (q, r, planned_embedder, fb), ruled) \<and>
     fb = (if failed = [] then [] else [\<lparr>fb_failed = failed, fb_selected = planned_embedder\<rparr>])"
proof -
  obtain q r fb ruled where
    s: "attempt_stage sample_worker ''the face embedder''
      (client_request GENERATE_REPRESENTATIONS (RepresentInput [sample_image] (asked_faces [sample_detection])) no_context)
      (\<lambda>n. n) (pl_embedder sample_plan) Map.empty = (Inr (q, r, planned_embedder, fb), ruled)"
    using sample_attempt by (auto split: prod.splits sum.splits)
  from only_unavailable_providers_are_passed_over [OF sample_plan_keys s] s show ?thesis by blast
qed

end
