(* ===== verification/Configuration.thy ===== *)
theory Configuration
  imports Catalog Final Folders IdentityLife
begin

text \<open>
  What a processing run is configured with: the strict reader of a request
  (\<open>ProcessingRequestV1.parse\<close>), the resolver that freezes the selected catalog rows into the
  snapshot of a run (\<open>resolve\<close>, both in \<open>processing/configuration.py\<close>), and the reader of that snapshot
  in the executor (\<open>_frozen\<close> of \<open>processing/execute_job.py\<close>). Each kind of exception is a value; of an
  error message only the fixed part is kept. In a decoded document a string is a \<open>JStr\<close>, except where
  this program wrote an id; \<open>spelt\<close> is \<open>uuid.UUID(text)\<close> of the others. The theorems say what an
  accepted request guarantees and that the executor reads back exactly what was resolved.
\<close>

section \<open>Reading a request\<close>

datatype config_error = ConfigurationError string | OverflowError

abbreviation refuse :: "bool \<Rightarrow> string \<Rightarrow> config_error + unit" where
  "refuse bad message \<equiv> (if bad then Inl (ConfigurationError message) else Inr ())"

definition read_object :: "json \<Rightarrow> string list \<Rightarrow> config_error + unit" where
  "read_object v ks =
     bindE (refuse (\<not> is_object v) ''must be an object'') (\<lambda>_. refuse (\<not> has_keys v ks) ''keys must be'')"

fun config_uuid :: "(string \<Rightarrow> uuid option) \<Rightarrow> json \<Rightarrow> config_error + uuid" where
  "config_uuid spelt (JUuid i) = Inr i"
| "config_uuid spelt (JStr s) =
     (case spelt s of Some i \<Rightarrow> Inr i | None \<Rightarrow> Inl (ConfigurationError ''must be a UUID string''))"
| "config_uuid spelt _ = Inl (ConfigurationError ''must be a UUID string'')"

fun config_string :: "json \<Rightarrow> config_error + string" where
  "config_string (JStr s) = (if s = [] then Inl (ConfigurationError ''must be a non-empty string'') else Inr s)"
| "config_string _ = Inl (ConfigurationError ''must be a non-empty string'')"

text \<open>\<open>float(value)\<close>: an \<open>int\<close> is rounded to a double, and one beyond the doubles raises.\<close>

definition float_of_int :: "int \<Rightarrow> config_error + real" where
  "float_of_int n = (if 2 ^ 1024 \<le> \<bar>fl (of_int n)\<bar> then Inl OverflowError else Inr (fl (of_int n)))"

fun config_number :: "json \<Rightarrow> config_error + real" where
  "config_number (JInt n) = float_of_int n"
| "config_number (JFloat x) = Inr x"
| "config_number _ = Inl (ConfigurationError ''must be a number'')"

text \<open>\<open>type(value) is int\<close>: neither a \<open>bool\<close> nor a \<open>float\<close> passes.\<close>

definition schema_one :: "json \<Rightarrow> config_error + unit" where
  "schema_one v = refuse (v \<noteq> JInt 1) ''is not supported''"

record export_selection =
  xs_version :: uuid
  xs_export :: uuid

record calibration_selection =
  ca_mode :: string
  ca_interpretation :: string
  ca_profile :: "uuid option"

record processing_request =
  rq_detector :: export_selection
  rq_embedder :: export_selection
  rq_space :: uuid
  rq_calibration :: calibration_selection
  rq_runtime :: json
  rq_crop :: json
  rq_quality :: json
  rq_decision :: json
  rq_options :: json

definition read_selection :: "(string \<Rightarrow> uuid option) \<Rightarrow> json \<Rightarrow> config_error + export_selection" where
  "read_selection spelt v =
     bindE (read_object v [''component_version_id'', ''model_export_id'']) (\<lambda>_.
     bindE (config_uuid spelt (json_field ''component_version_id'' v)) (\<lambda>w.
     bindE (config_uuid spelt (json_field ''model_export_id'' v)) (\<lambda>e.
     Inr \<lparr>xs_version = w, xs_export = e\<rparr>)))"

definition read_calibration :: "json \<Rightarrow> config_error + calibration_selection" where
  "read_calibration v =
     bindE (read_object v [''mode'', ''interpretation'', ''profile_id'']) (\<lambda>_.
     bindE (config_string (json_field ''mode'' v)) (\<lambda>mode.
     bindE (config_string (json_field ''interpretation'' v)) (\<lambda>interpretation.
     if mode = ''UNCALIBRATED'' then
       bindE (refuse (interpretation \<noteq> ''COSINE_UNCALIBRATED'' \<or> json_field ''profile_id'' v \<noteq> JNull)
                ''uncalibrated selection must have no profile'') (\<lambda>_.
       Inr \<lparr>ca_mode = mode, ca_interpretation = interpretation, ca_profile = None\<rparr>)
     else Inl (ConfigurationError ''$.calibration.mode is not supported''))))"

definition named :: "json \<Rightarrow> bool" where
  "named v \<longleftrightarrow> is_text v \<and> text_of v \<noteq> []"

definition read_runtime_policy :: "json \<Rightarrow> config_error + json" where
  "read_runtime_policy v =
     bindE (read_object v [''allow_fallback'', ''providers'', ''schema_version'']) (\<lambda>_.
     bindE (schema_one (json_field ''schema_version'' v)) (\<lambda>_.
     let ps = json_field ''providers'' v in
     bindE (refuse (\<not> is_list ps \<or> json_items ps = [] \<or> \<not> list_all named (json_items ps))
              ''$.runtime_policy.providers must be non-empty strings'') (\<lambda>_.
     bindE (refuse (\<not> is_bool (json_field ''allow_fallback'' v))
              ''$.runtime_policy.allow_fallback must be a boolean'') (\<lambda>_.
     Inr (JObj [(''schema_version'', JInt 1), (''providers'', ps),
                (''allow_fallback'', json_field ''allow_fallback'' v)])))))"

definition read_versioned_policy :: "json \<Rightarrow> config_error + json" where
  "read_versioned_policy v =
     bindE (read_object v [''schema_version'']) (\<lambda>_.
     bindE (schema_one (json_field ''schema_version'' v)) (\<lambda>_. Inr (JObj [(''schema_version'', JInt 1)])))"

definition read_decision_policy :: "json \<Rightarrow> config_error + json" where
  "read_decision_policy v =
     bindE (read_object v [''margin'', ''match_threshold'', ''min_detection_score'', ''new_identity_ceiling'',
              ''schema_version'', ''version'']) (\<lambda>_.
     bindE (schema_one (json_field ''schema_version'' v)) (\<lambda>_.
     bindE (config_number (json_field ''min_detection_score'' v)) (\<lambda>minimum.
     bindE (config_number (json_field ''new_identity_ceiling'' v)) (\<lambda>ceiling.
     bindE (config_number (json_field ''match_threshold'' v)) (\<lambda>threshold.
     bindE (config_number (json_field ''margin'' v)) (\<lambda>margin.
     bindE (refuse (\<not> (0 \<le> minimum \<and> minimum \<le> 1) \<or> \<not> (-1 \<le> ceiling \<and> ceiling \<le> threshold \<and> threshold \<le> 2) \<or>
                    \<not> (0 < margin \<and> margin \<le> 2)) ''$.decision_policy thresholds are invalid'') (\<lambda>_.
     bindE (config_string (json_field ''version'' v)) (\<lambda>version.
     Inr (JObj [(''schema_version'', JInt 1), (''version'', JStr version),
                (''min_detection_score'', JFloat minimum), (''new_identity_ceiling'', JFloat ceiling),
                (''match_threshold'', JFloat threshold), (''margin'', JFloat margin)])))))))))"

definition request_keys :: "string list" where
  "request_keys = [''schema_version'', ''detector'', ''embedder'', ''representation_space_id'', ''calibration'',
     ''runtime_policy'', ''crop_policy'', ''quality_policy'', ''decision_policy'', ''command_options'']"

text \<open>\<open>ProcessingRequestV1.parse\<close>\<close>

definition parse_request :: "(string \<Rightarrow> uuid option) \<Rightarrow> json \<Rightarrow> config_error + processing_request" where
  "parse_request spelt doc =
     bindE (read_object doc request_keys) (\<lambda>_.
     bindE (schema_one (json_field ''schema_version'' doc)) (\<lambda>_.
     bindE (read_selection spelt (json_field ''detector'' doc)) (\<lambda>detector.
     bindE (read_selection spelt (json_field ''embedder'' doc)) (\<lambda>embedder.
     bindE (config_uuid spelt (json_field ''representation_space_id'' doc)) (\<lambda>space.
     bindE (read_calibration (json_field ''calibration'' doc)) (\<lambda>calibration.
     bindE (read_runtime_policy (json_field ''runtime_policy'' doc)) (\<lambda>runtime.
     bindE (read_versioned_policy (json_field ''crop_policy'' doc)) (\<lambda>crop.
     bindE (read_versioned_policy (json_field ''quality_policy'' doc)) (\<lambda>quality.
     bindE (read_decision_policy (json_field ''decision_policy'' doc)) (\<lambda>decision.
     bindE (read_versioned_policy (json_field ''command_options'' doc)) (\<lambda>options.
     Inr \<lparr>rq_detector = detector, rq_embedder = embedder, rq_space = space, rq_calibration = calibration,
          rq_runtime = runtime, rq_crop = crop, rq_quality = quality, rq_decision = decision,
          rq_options = options\<rparr>)))))))))))"

section \<open>Resolving it against the catalog\<close>

definition hex_of_bytes :: "byte list \<Rightarrow> string" where
  "hex_of_bytes bs = concat (map (\<lambda>b. [hex_digit (unat b div 16), hex_digit (unat b mod 16)]) bs)"

definition policy_providers :: "json \<Rightarrow> string list" where
  "policy_providers policy = map text_of (json_items (json_field ''providers'' policy))"

text \<open>\<open>_export\<close>: the join of the three rows, of which the primary keys leave at most one.\<close>

definition resolve_export :: "export_selection \<Rightarrow> string \<Rightarrow> catalog \<Rightarrow> config_error + json" where
  "resolve_export sel kind c =
     (case (tab_get cv_id (ct_versions c) (xs_version sel), tab_get ex_id (ct_exports c) (xs_export sel)) of
        (Some w, Some e) \<Rightarrow>
          (case tab_get cm_id (ct_components c) (cv_component w) of
             Some m \<Rightarrow>
               if ex_version e \<noteq> cv_id w
               then Inl (ConfigurationError ''export does not belong to its component version'')
               else if cm_kind m \<noteq> kind then Inl (ConfigurationError ''component is not of the kind'')
               else Inr (JObj
                 [(''component'', JObj [(''id'', JUuid (cm_id m)), (''key'', JStr (cm_key m)), (''kind'', JStr (cm_kind m))]),
                  (''component_version'', JObj [(''id'', JUuid (cv_id w)), (''semantic_version'', JStr (cv_semantic w)),
                     (''contract_schema_version'', JInt (cv_schema w)), (''contract'', cv_contract w)]),
                  (''export'', JObj [(''id'', JUuid (ex_id e)), (''format'', JStr (ex_format e)),
                     (''precision'', JStr (ex_precision e)), (''sha256'', JStr (hex_of_bytes (ex_sha e))),
                     (''input_contract'', ex_input e)])])
           | None \<Rightarrow> Inl (ConfigurationError ''export does not belong to its component version''))
      | _ \<Rightarrow> Inl (ConfigurationError ''export does not belong to its component version''))"

text \<open>The variants of an export that a run may use: the provider is allowed and the state usable.\<close>

definition usable_variants :: "uuid \<Rightarrow> string list \<Rightarrow> catalog \<Rightarrow> runtime_variant list" where
  "usable_variants export_id providers c =
     filter (\<lambda>v. va_export v = export_id \<and> va_provider v \<in> set providers \<and>
         va_state v \<in> {rt_registered, rt_validated}) (ct_variants c)"

definition space_metric_name :: "space_metric \<Rightarrow> string" where
  "space_metric_name m = (case m of COSINE \<Rightarrow> ''COSINE'')"

definition resolve :: "processing_request \<Rightarrow> catalog \<Rightarrow> db \<Rightarrow> config_error + json" where
  "resolve rq c d =
     bindE (resolve_export (rq_detector rq) kind_detector c) (\<lambda>detector.
     bindE (resolve_export (rq_embedder rq) kind_embedder c) (\<lambda>embedder.
     bindE (refuse (usable_variants (xs_export (rq_detector rq)) (policy_providers (rq_runtime rq)) c = [])
              ''the detector export has no usable variant for the requested runtime policy'') (\<lambda>_.
     case tab_get s_id (spaces d) (rq_space rq) of
       None \<Rightarrow> Inl (ConfigurationError ''the representation space is not ACTIVE'')
     | Some sp \<Rightarrow>
         if s_state sp \<noteq> SP_ACTIVE then Inl (ConfigurationError ''the representation space is not ACTIVE'')
         else bindE (refuse (\<not> list_ex (\<lambda>v. list_ex (\<lambda>m. vs_variant m = va_id v \<and> vs_space m = s_id sp \<and>
                   vs_state m \<in> {rt_declared, rt_validated}) (ct_variant_spaces c))
                (usable_variants (xs_export (rq_embedder rq)) (policy_providers (rq_runtime rq)) c))
              ''the embedder export has no usable variant for the requested space and runtime policy'') (\<lambda>_.
         Inr (JObj
           [(''schema_version'', JInt 1), (''detector'', detector), (''embedder'', embedder),
            (''representation_space'', JObj
              [(''id'', JUuid (s_id sp)), (''semantic_key'', JStr (s_key sp)), (''dimension'', JInt (int (s_dim sp))),
               (''metric'', JStr (space_metric_name (s_metric sp))), (''normalization'', JStr (s_normalization sp)),
               (''origin_component_version_id'', JUuid (s_component sp)),
               (''contract_schema_version'', JInt (s_contract_version sp)), (''contract'', s_contract sp)]),
            (''calibration'', JObj [(''mode'', JStr (ca_mode (rq_calibration rq))),
               (''interpretation'', JStr (ca_interpretation (rq_calibration rq))), (''profile'', JNull)]),
            (''runtime_policy'', rq_runtime rq), (''crop_policy'', rq_crop rq), (''quality_policy'', rq_quality rq),
            (''decision_policy'', rq_decision rq), (''command_options'', rq_options rq)])))))"

section \<open>Reading the snapshot back\<close>

text \<open>
  \<open>_frozen\<close>: the first \<open>KeyError\<close>, \<open>TypeError\<close> or \<open>ValueError\<close> becomes a malformed snapshot; an
  \<open>OverflowError\<close> of \<open>float(value)\<close> is none of them and escapes.
\<close>

datatype frozen_error = Malformed string | FrozenOverflow

record frozen_configuration =
  fz_detector_version :: uuid
  fz_detector_export :: uuid
  fz_embedder_export :: uuid
  fz_space :: uuid
  fz_dimension :: int
  fz_providers :: "string list"
  fz_policy :: policy

abbreviation fail_frozen :: "bool \<Rightarrow> string \<Rightarrow> frozen_error + unit" where
  "fail_frozen bad message \<equiv> (if bad then Inl (Malformed message) else Inr ())"

definition malformed :: string where
  "malformed = ''the frozen processing snapshot is malformed''"

fun item :: "string \<Rightarrow> json \<Rightarrow> frozen_error + json" where
  "item k (JObj fs) = (case map_of fs k of None \<Rightarrow> Inl (Malformed malformed) | Some v \<Rightarrow> Inr v)"
| "item k _ = Inl (Malformed malformed)"

definition object_item :: "string \<Rightarrow> json \<Rightarrow> frozen_error + json" where
  "object_item k v = bindE (item k v) (\<lambda>x. bindE (fail_frozen (\<not> is_object x) ''is not an object'') (\<lambda>_. Inr x))"

fun frozen_uuid :: "(string \<Rightarrow> uuid option) \<Rightarrow> json \<Rightarrow> frozen_error + uuid" where
  "frozen_uuid spelt (JUuid i) = Inr i"
| "frozen_uuid spelt (JStr s) =
     (case spelt s of Some i \<Rightarrow> Inr i | None \<Rightarrow> Inl (Malformed ''a frozen id is not a UUID string''))"
| "frozen_uuid spelt _ = Inl (Malformed ''a frozen id is not a UUID string'')"

fun frozen_int :: "json \<Rightarrow> frozen_error + int" where
  "frozen_int (JInt n) = (if n < 1 then Inl (Malformed ''is not positive'') else Inr n)"
| "frozen_int _ = Inl (Malformed ''is not positive'')"

fun frozen_string :: "json \<Rightarrow> frozen_error + string" where
  "frozen_string (JStr s) = (if s = [] then Inl (Malformed ''a frozen string is blank'') else Inr s)"
| "frozen_string _ = Inl (Malformed ''a frozen string is blank'')"

fun frozen_number :: "json \<Rightarrow> frozen_error + real" where
  "frozen_number (JInt n) = (case float_of_int n of Inl _ \<Rightarrow> Inl FrozenOverflow | Inr x \<Rightarrow> Inr x)"
| "frozen_number (JFloat x) = Inr x"
| "frozen_number _ = Inl (Malformed ''a frozen number is invalid'')"

text \<open>\<open>DecisionPolicy(...)\<close>: \<open>__post_init__\<close> raises a \<open>ValueError\<close> for a policy that is not \<open>policy_ok\<close>.\<close>

definition frozen_policy :: "json \<Rightarrow> frozen_error + policy" where
  "frozen_policy v =
     bindE (bindE (item ''version'' v) frozen_string) (\<lambda>version.
     bindE (bindE (item ''min_detection_score'' v) frozen_number) (\<lambda>gate.
     bindE (bindE (item ''match_threshold'' v) frozen_number) (\<lambda>match.
     bindE (bindE (item ''margin'' v) frozen_number) (\<lambda>margin.
     bindE (bindE (item ''new_identity_ceiling'' v) frozen_number) (\<lambda>ceiling.
     let p = \<lparr>po_version = version, po_gate = gate, po_match = match, po_margin = margin, po_ceiling = ceiling\<rparr>
     in if policy_ok p then Inr p else Inl (Malformed malformed))))))"

definition frozen :: "(string \<Rightarrow> uuid option) \<Rightarrow> json \<Rightarrow> frozen_error + frozen_configuration" where
  "frozen spelt doc =
     bindE (fail_frozen (\<not> is_object doc) ''is not an object'') (\<lambda>_.
     bindE (item ''schema_version'' doc) (\<lambda>version.
     bindE (fail_frozen (Json_Values.number_of version \<noteq> Some 1) ''the snapshot schema is unsupported'') (\<lambda>_.
     bindE (object_item ''detector'' doc) (\<lambda>detector.
     bindE (object_item ''embedder'' doc) (\<lambda>embedder.
     bindE (object_item ''representation_space'' doc) (\<lambda>space.
     bindE (object_item ''runtime_policy'' doc) (\<lambda>policy.
     bindE (object_item ''decision_policy'' doc) (\<lambda>decision.
     bindE (item ''providers'' policy) (\<lambda>providers.
     bindE (fail_frozen (\<not> is_list providers \<or> json_items providers = [] \<or> \<not> list_all is_text (json_items providers))
              ''the snapshot runtime providers are invalid'') (\<lambda>_.
     bindE (bindE (bindE (object_item ''component_version'' detector) (item ''id'')) (frozen_uuid spelt)) (\<lambda>w.
     bindE (bindE (bindE (object_item ''export'' detector) (item ''id'')) (frozen_uuid spelt)) (\<lambda>de.
     bindE (bindE (bindE (object_item ''export'' embedder) (item ''id'')) (frozen_uuid spelt)) (\<lambda>ee.
     bindE (bindE (item ''id'' space) (frozen_uuid spelt)) (\<lambda>sp.
     bindE (bindE (item ''dimension'' space) frozen_int) (\<lambda>n.
     bindE (frozen_policy decision) (\<lambda>p.
     Inr \<lparr>fz_detector_version = w, fz_detector_export = de, fz_embedder_export = ee, fz_space = sp,
          fz_dimension = n, fz_providers = map text_of (json_items providers), fz_policy = p\<rparr>))))))))))))))))"

section \<open>What an accepted request guarantees\<close>

lemma refuse_Inr [simp]: "refuse bad message = Inr x \<longleftrightarrow> \<not> bad"
  by simp

lemma fail_frozen_Inr: "fail_frozen bad message = Inr x \<longleftrightarrow> \<not> bad"
  by simp

definition decision_policy_of :: "processing_request \<Rightarrow> policy" where
  "decision_policy_of rq = policy_of (rq_decision rq) (text_of (json_field ''version'' (rq_decision rq)))"

definition request_ok :: "processing_request \<Rightarrow> bool" where
  "request_ok rq \<longleftrightarrow>
     rq_calibration rq = \<lparr>ca_mode = ''UNCALIBRATED'', ca_interpretation = ''COSINE_UNCALIBRATED'', ca_profile = None\<rparr> \<and>
     (\<exists>ps fallback. ps \<noteq> [] \<and> list_all named ps \<and>
        rq_runtime rq = JObj [(''schema_version'', JInt 1), (''providers'', JList ps), (''allow_fallback'', JBool fallback)]) \<and>
     (\<exists>p. policy_ok p \<and>
        rq_decision rq = JObj [(''schema_version'', JInt 1), (''version'', JStr (po_version p)),
          (''min_detection_score'', JFloat (po_gate p)), (''new_identity_ceiling'', JFloat (po_ceiling p)),
          (''match_threshold'', JFloat (po_match p)), (''margin'', JFloat (po_margin p))]) \<and>
     rq_crop rq = JObj [(''schema_version'', JInt 1)] \<and> rq_quality rq = JObj [(''schema_version'', JInt 1)] \<and>
     rq_options rq = JObj [(''schema_version'', JInt 1)]"

lemma read_calibration_Inr:
  "read_calibration v = Inr ca \<Longrightarrow>
     ca = \<lparr>ca_mode = ''UNCALIBRATED'', ca_interpretation = ''COSINE_UNCALIBRATED'', ca_profile = None\<rparr>"
  by (auto simp: read_calibration_def bindE_Inr_iff split: if_splits)

lemma read_versioned_policy_Inr: "read_versioned_policy v = Inr p \<Longrightarrow> p = JObj [(''schema_version'', JInt 1)]"
  by (auto simp: read_versioned_policy_def bindE_Inr_iff)

lemma is_list_iff: "is_list v \<longleftrightarrow> (\<exists>xs. v = JList xs)"
  by (cases v) auto

lemma is_bool_iff: "is_bool v \<longleftrightarrow> (\<exists>b. v = JBool b)"
  by (cases v) auto

lemma read_runtime_policy_Inr:
  assumes "read_runtime_policy v = Inr p"
  shows "\<exists>ps fallback. ps \<noteq> [] \<and> list_all named ps \<and>
    p = JObj [(''schema_version'', JInt 1), (''providers'', JList ps), (''allow_fallback'', JBool fallback)]"
  using assms by (auto simp: read_runtime_policy_def bindE_Inr_iff Let_def is_list_iff is_bool_iff split: if_splits)

lemma config_string_Inr: "config_string v = Inr s \<longleftrightarrow> v = JStr s \<and> s \<noteq> []"
  by (cases v) auto

lemma read_decision_policy_Inr:
  assumes "read_decision_policy v = Inr q"
  shows "\<exists>p. policy_ok p \<and> q = JObj [(''schema_version'', JInt 1), (''version'', JStr (po_version p)),
      (''min_detection_score'', JFloat (po_gate p)), (''new_identity_ceiling'', JFloat (po_ceiling p)),
      (''match_threshold'', JFloat (po_match p)), (''margin'', JFloat (po_margin p))]"
proof -
  from assms obtain minimum ceiling threshold margin version where
    "0 \<le> minimum \<and> minimum \<le> 1" "-1 \<le> ceiling \<and> ceiling \<le> threshold \<and> threshold \<le> 2" "0 < margin \<and> margin \<le> 2"
    "version \<noteq> []" and q: "q = JObj [(''schema_version'', JInt 1), (''version'', JStr version),
      (''min_detection_score'', JFloat minimum), (''new_identity_ceiling'', JFloat ceiling),
      (''match_threshold'', JFloat threshold), (''margin'', JFloat margin)]"
    by (auto simp: read_decision_policy_def bindE_Inr_iff config_string_Inr split: if_splits)
  then show ?thesis
    by (intro exI [of _ "\<lparr>po_version = version, po_gate = minimum, po_match = threshold, po_margin = margin, po_ceiling = ceiling\<rparr>"])
      (simp add: policy_ok_def)
qed

lemma parsed_request_ok:
  assumes "parse_request spelt doc = Inr rq"
  shows "request_ok rq"
proof -
  from assms have "\<exists>v. read_calibration v = Inr (rq_calibration rq)" "\<exists>v. read_runtime_policy v = Inr (rq_runtime rq)"
    "\<exists>v. read_versioned_policy v = Inr (rq_crop rq)" "\<exists>v. read_versioned_policy v = Inr (rq_quality rq)"
    "\<exists>v. read_decision_policy v = Inr (rq_decision rq)" "\<exists>v. read_versioned_policy v = Inr (rq_options rq)"
    by (auto simp: parse_request_def bindE_Inr_iff)
  then show ?thesis unfolding request_ok_def
    using read_calibration_Inr read_versioned_policy_Inr read_runtime_policy_Inr read_decision_policy_Inr by blast
qed

text \<open>
  Whatever document \<open>ProcessingRequestV1.parse\<close> is given, the request it accepts is a value of the
  type the rest of the program works with: an uncalibrated selection without a profile, a runtime policy
  that names at least one provider, a decision policy whose thresholds are ordered and in range (what
  \<open>DecisionPolicy\<close> itself demands), and empty crop, quality and option policies of version 1.
\<close>

theorem accepted_requests_are_well_formed:
  assumes "parse_request spelt doc = Inr rq"
  shows "request_ok rq"
  by (rule parsed_request_ok [OF assms])

section \<open>What was resolved is what is executed\<close>

lemma resolve_export_Inr:
  assumes "resolve_export sel kind c = Inr v"
  obtains w e m where "tab_get cv_id (ct_versions c) (xs_version sel) = Some w"
    and "tab_get ex_id (ct_exports c) (xs_export sel) = Some e"
    and "tab_get cm_id (ct_components c) (cv_component w) = Some m"
    and "ex_version e = xs_version sel" and "cm_kind m = kind"
    and "\<exists>x y z. v = JObj [(''component'', x),
      (''component_version'', JObj ((''id'', JUuid (xs_version sel)) # y)), (''export'', JObj ((''id'', JUuid (xs_export sel)) # z))]"
  using assms tab_get_SomeD [of cv_id "ct_versions c" "xs_version sel"] tab_get_SomeD [of ex_id "ct_exports c" "xs_export sel"]
  by (auto simp: resolve_export_def split: option.splits if_splits)

lemma frozen_policy_of_ok:
  assumes "policy_ok p"
  shows "frozen_policy (JObj [(''schema_version'', JInt 1), (''version'', JStr (po_version p)),
      (''min_detection_score'', JFloat (po_gate p)), (''new_identity_ceiling'', JFloat (po_ceiling p)),
      (''match_threshold'', JFloat (po_match p)), (''margin'', JFloat (po_margin p))]) = Inr p"
  using assms by (cases p) (simp add: policy_ok_def frozen_policy_def Let_def)

lemma resolve_Inr:
  assumes "resolve rq c d = Inr body"
  obtains detector embedder sp where "resolve_export (rq_detector rq) kind_detector c = Inr detector"
    and "resolve_export (rq_embedder rq) kind_embedder c = Inr embedder"
    and "tab_get s_id (spaces d) (rq_space rq) = Some sp" and "s_state sp = SP_ACTIVE"
    and "\<exists>y z. body = JObj ([(''schema_version'', JInt 1), (''detector'', detector), (''embedder'', embedder),
      (''representation_space'', JObj ([(''id'', JUuid (rq_space rq)), (''semantic_key'', JStr (s_key sp)),
          (''dimension'', JInt (int (s_dim sp)))] @ y)), (''calibration'', z), (''runtime_policy'', rq_runtime rq),
      (''crop_policy'', rq_crop rq), (''quality_policy'', rq_quality rq), (''decision_policy'', rq_decision rq),
      (''command_options'', rq_options rq)])"
  using assms tab_get_SomeD [of s_id "spaces d" "rq_space rq"]
  by (auto simp: resolve_def bindE_Inr_iff split: option.splits if_splits)

definition selection_recorded :: "export_selection \<Rightarrow> string \<Rightarrow> catalog \<Rightarrow> bool" where
  "selection_recorded sel kind c \<longleftrightarrow>
     (\<exists>w e m. tab_get cv_id (ct_versions c) (xs_version sel) = Some w \<and> tab_get ex_id (ct_exports c) (xs_export sel) = Some e \<and>
        ex_version e = xs_version sel \<and> tab_get cm_id (ct_components c) (cv_component w) = Some m \<and> cm_kind m = kind)"

lemma resolve_then_freeze:
  assumes "request_ok rq" and "resolve rq c d = Inr body" and "\<forall>sp\<in>set (spaces d). 1 \<le> s_dim sp"
  shows "\<exists>sp p. tab_get s_id (spaces d) (rq_space rq) = Some sp \<and> s_state sp = SP_ACTIVE \<and> policy_ok p \<and>
    rq_decision rq = JObj [(''schema_version'', JInt 1), (''version'', JStr (po_version p)),
      (''min_detection_score'', JFloat (po_gate p)), (''new_identity_ceiling'', JFloat (po_ceiling p)),
      (''match_threshold'', JFloat (po_match p)), (''margin'', JFloat (po_margin p))] \<and>
    selection_recorded (rq_detector rq) kind_detector c \<and> selection_recorded (rq_embedder rq) kind_embedder c \<and>
    frozen spelt body = Inr \<lparr>fz_detector_version = xs_version (rq_detector rq),
      fz_detector_export = xs_export (rq_detector rq), fz_embedder_export = xs_export (rq_embedder rq),
      fz_space = rq_space rq, fz_dimension = int (s_dim sp), fz_providers = policy_providers (rq_runtime rq), fz_policy = p\<rparr>"
proof -
  from assms(2) obtain detector embedder sp y z where
    de: "resolve_export (rq_detector rq) kind_detector c = Inr detector"
    and em: "resolve_export (rq_embedder rq) kind_embedder c = Inr embedder"
    and sp: "tab_get s_id (spaces d) (rq_space rq) = Some sp" "s_state sp = SP_ACTIVE"
    and body: "body = JObj ([(''schema_version'', JInt 1), (''detector'', detector), (''embedder'', embedder),
      (''representation_space'', JObj ([(''id'', JUuid (rq_space rq)), (''semantic_key'', JStr (s_key sp)),
          (''dimension'', JInt (int (s_dim sp)))] @ y)), (''calibration'', z), (''runtime_policy'', rq_runtime rq),
      (''crop_policy'', rq_crop rq), (''quality_policy'', rq_quality rq), (''decision_policy'', rq_decision rq),
      (''command_options'', rq_options rq)])"
    by (elim resolve_Inr exE)
  from assms(1) obtain p where p: "policy_ok p" "rq_decision rq = JObj [(''schema_version'', JInt 1), (''version'', JStr (po_version p)),
      (''min_detection_score'', JFloat (po_gate p)), (''new_identity_ceiling'', JFloat (po_ceiling p)),
      (''match_threshold'', JFloat (po_match p)), (''margin'', JFloat (po_margin p))]"
    unfolding request_ok_def by blast
  from assms(1) obtain ps fallback where ps: "ps \<noteq> []" "list_all named ps"
    "rq_runtime rq = JObj [(''schema_version'', JInt 1), (''providers'', JList ps), (''allow_fallback'', JBool fallback)]"
    unfolding request_ok_def by blast
  have texts: "list_all is_text ps" using ps(2) by (auto simp: list_all_iff named_def)
  obtain x1 y1 z1 where d1: "detector = JObj [(''component'', x1),
      (''component_version'', JObj ((''id'', JUuid (xs_version (rq_detector rq))) # y1)),
      (''export'', JObj ((''id'', JUuid (xs_export (rq_detector rq))) # z1))]"
    using de by (elim resolve_export_Inr exE)
  obtain x2 y2 z2 where d2: "embedder = JObj [(''component'', x2),
      (''component_version'', JObj ((''id'', JUuid (xs_version (rq_embedder rq))) # y2)),
      (''export'', JObj ((''id'', JUuid (xs_export (rq_embedder rq))) # z2))]"
    using em by (elim resolve_export_Inr exE)
  have dim: "0 < s_dim sp" using assms(3) tab_get_SomeD [OF sp(1)] by fastforce
  have fp: "frozen_policy (rq_decision rq) = Inr p" unfolding p(2) by (rule frozen_policy_of_ok [OF p(1)])
  have obj: "is_object (rq_decision rq)" "is_object (rq_runtime rq)" by (simp_all add: p(2) ps(3))
  have prov: "item ''providers'' (rq_runtime rq) = Inr (JList ps)" "policy_providers (rq_runtime rq) = map text_of ps"
    by (simp_all add: ps(3) policy_providers_def)
  have F: "frozen spelt body = Inr \<lparr>fz_detector_version = xs_version (rq_detector rq),
      fz_detector_export = xs_export (rq_detector rq), fz_embedder_export = xs_export (rq_embedder rq),
      fz_space = rq_space rq, fz_dimension = int (s_dim sp), fz_providers = policy_providers (rq_runtime rq), fz_policy = p\<rparr>"
    by (simp add: frozen_def body d1 d2 object_item_def fp obj prov ps(1) texts dim)
  have S: "selection_recorded (rq_detector rq) kind_detector c"
    using de by (elim resolve_export_Inr) (auto simp: selection_recorded_def)
  have T: "selection_recorded (rq_embedder rq) kind_embedder c"
    using em by (elim resolve_export_Inr) (auto simp: selection_recorded_def)
  show ?thesis using sp p S T F by blast
qed

text \<open>
  C17. A run executes exactly what its request selected. When \<open>resolve\<close> freezes an accepted request, the
  selected exports belong to the selected component versions of a detector and an embedder, the space
  is ACTIVE, and \<open>_frozen\<close> reads from the snapshot the same versions, exports, space, dimension and
  providers, in the same order, and a decision policy with the request's own thresholds: an accepted
  request never yields a snapshot its executor calls malformed.
\<close>

theorem executor_reads_what_was_resolved:
  assumes "parse_request spelt doc = Inr rq" and "resolve rq c d = Inr body" and "\<forall>sp\<in>set (spaces d). 1 \<le> s_dim sp"
  shows "\<exists>sp p. tab_get s_id (spaces d) (rq_space rq) = Some sp \<and> s_state sp = SP_ACTIVE \<and> policy_ok p \<and>
    rq_decision rq = JObj [(''schema_version'', JInt 1), (''version'', JStr (po_version p)),
      (''min_detection_score'', JFloat (po_gate p)), (''new_identity_ceiling'', JFloat (po_ceiling p)),
      (''match_threshold'', JFloat (po_match p)), (''margin'', JFloat (po_margin p))] \<and>
    selection_recorded (rq_detector rq) kind_detector c \<and> selection_recorded (rq_embedder rq) kind_embedder c \<and>
    frozen spelt body = Inr \<lparr>fz_detector_version = xs_version (rq_detector rq),
      fz_detector_export = xs_export (rq_detector rq), fz_embedder_export = xs_export (rq_embedder rq),
      fz_space = rq_space rq, fz_dimension = int (s_dim sp), fz_providers = policy_providers (rq_runtime rq), fz_policy = p\<rparr>"
  by (rule resolve_then_freeze [OF parsed_request_ok [OF assms(1)] assms(2,3)])

section \<open>A sample\<close>

definition sample_catalog :: catalog where
  "sample_catalog = empty_catalog\<lparr>
     ct_components := [\<lparr>cm_id = 71, cm_key = ''det'', cm_kind = kind_detector, cm_name = ''det'', cm_state = ''ACTIVE''\<rparr>,
       \<lparr>cm_id = 72, cm_key = ''emb'', cm_kind = kind_embedder, cm_name = ''emb'', cm_state = ''ACTIVE''\<rparr>],
     ct_versions := [\<lparr>cv_id = 73, cv_component = 71, cv_semantic = ''1'', cv_schema = 1, cv_contract = JObj [], cv_created = 0\<rparr>,
       \<lparr>cv_id = 6, cv_component = 72, cv_semantic = ''1'', cv_schema = 1, cv_contract = JObj [], cv_created = 0\<rparr>],
     ct_exports := [\<lparr>ex_id = 75, ex_version = 73, ex_format = ''onnx'', ex_precision = ''fp32'', ex_artifact = 81,
         ex_sha = replicate 32 1, ex_input = JObj [], ex_created = 0\<rparr>,
       \<lparr>ex_id = 76, ex_version = 6, ex_format = ''onnx'', ex_precision = ''fp32'', ex_artifact = 82,
         ex_sha = replicate 32 2, ex_input = JObj [], ex_created = 0\<rparr>],
     ct_variants := [\<lparr>va_id = 77, va_export = 75, va_provider = ''CPU'', va_device = ''cpu'', va_key = ''det-cpu'',
         va_requirements = JObj [], va_state = rt_registered\<rparr>,
       \<lparr>va_id = 78, va_export = 76, va_provider = ''CPU'', va_device = ''cpu'', va_key = ''emb-cpu'',
         va_requirements = JObj [], va_state = rt_registered\<rparr>],
     ct_variant_spaces := [\<lparr>vs_variant = 78, vs_space = 5, vs_validation = JObj [], vs_state = rt_declared\<rparr>]\<rparr>"

definition sample_request_json :: json where
  "sample_request_json = JObj
     [(''schema_version'', JInt 1),
      (''detector'', JObj [(''component_version_id'', JUuid 73), (''model_export_id'', JUuid 75)]),
      (''embedder'', JObj [(''component_version_id'', JUuid 6), (''model_export_id'', JUuid 76)]),
      (''representation_space_id'', JUuid 5),
      (''calibration'', JObj [(''mode'', JStr ''UNCALIBRATED''), (''interpretation'', JStr ''COSINE_UNCALIBRATED''), (''profile_id'', JNull)]),
      (''runtime_policy'', JObj [(''allow_fallback'', JBool True), (''providers'', JList [JStr ''CPU'']), (''schema_version'', JInt 1)]),
      (''crop_policy'', JObj [(''schema_version'', JInt 1)]), (''quality_policy'', JObj [(''schema_version'', JInt 1)]),
      (''decision_policy'', JObj [(''margin'', JFloat (1/4)), (''match_threshold'', JFloat (1/2)),
         (''min_detection_score'', JFloat (1/2)), (''new_identity_ceiling'', JFloat (1/4)),
         (''schema_version'', JInt 1), (''version'', JStr ''p1'')]),
      (''command_options'', JObj [(''schema_version'', JInt 1)])]"

definition sample_policy_json :: json where
  "sample_policy_json = JObj [(''schema_version'', JInt 1), (''version'', JStr ''p1''), (''min_detection_score'', JFloat (1/2)),
     (''new_identity_ceiling'', JFloat (1/4)), (''match_threshold'', JFloat (1/2)), (''margin'', JFloat (1/4))]"

definition sample_request :: processing_request where
  "sample_request =
     \<lparr>rq_detector = \<lparr>xs_version = 73, xs_export = 75\<rparr>, rq_embedder = \<lparr>xs_version = 6, xs_export = 76\<rparr>, rq_space = 5,
      rq_calibration = \<lparr>ca_mode = ''UNCALIBRATED'', ca_interpretation = ''COSINE_UNCALIBRATED'', ca_profile = None\<rparr>,
      rq_runtime = JObj [(''schema_version'', JInt 1), (''providers'', JList [JStr ''CPU'']), (''allow_fallback'', JBool True)],
      rq_crop = JObj [(''schema_version'', JInt 1)], rq_quality = JObj [(''schema_version'', JInt 1)],
      rq_decision = sample_policy_json, rq_options = JObj [(''schema_version'', JInt 1)]\<rparr>"

lemma sample_request_parsed: "parse_request (\<lambda>_. None) sample_request_json = Inr sample_request"
  by (simp add: parse_request_def sample_request_json_def sample_request_def sample_policy_json_def read_object_def
      request_keys_def schema_one_def read_selection_def read_calibration_def read_runtime_policy_def
      read_versioned_policy_def read_decision_policy_def named_def insert_commute Let_def)

lemma accepted_requests_are_well_formed_witness: "request_ok sample_request"
  by (rule accepted_requests_are_well_formed [OF sample_request_parsed])

lemma executor_reads_what_was_resolved_witness:
  "\<exists>body. resolve sample_request sample_catalog sample_db = Inr body \<and>
     (\<exists>p. policy_ok p \<and> frozen (\<lambda>_. None) body = Inr \<lparr>fz_detector_version = 73, fz_detector_export = 75,
        fz_embedder_export = 76, fz_space = 5, fz_dimension = 1, fz_providers = [''CPU''], fz_policy = p\<rparr>)"
proof -
  have "\<not> isl (resolve sample_request sample_catalog sample_db)" by code_simp
  then obtain body where body: "resolve sample_request sample_catalog sample_db = Inr body"
    by (cases "resolve sample_request sample_catalog sample_db") auto
  have dims: "\<forall>sp\<in>set (spaces sample_db). 1 \<le> s_dim sp" by code_simp
  have space: "map_option s_dim (tab_get s_id (spaces sample_db) (rq_space sample_request)) = Some 1" by code_simp
  show ?thesis
    using executor_reads_what_was_resolved [OF sample_request_parsed body dims] space body
    by (auto simp: sample_request_def policy_providers_def)
qed

end
