(* ===== verification/PendingOutput.thy ===== *)
theory PendingOutput
  imports Perception Configuration Coordinator
begin

text \<open>
  Writing a run's private output (\<open>backend/app/processing/pending_output.py\<close>): an observation when
  detection has settled, its representation when embedding has, each checked against the run, the segment,
  the catalog and the space before anything is stored, each naming the variant that actually produced it.
  \<open>numpy.linalg.norm\<close> is the argument \<open>norm2\<close>. The theorems say what a stored row is known to satisfy, that
  its vector reads back bit by bit, and that the box it stores passes the table's check in double arithmetic.
\<close>

section \<open>The checks\<close>

datatype pending_error =
    PendingRefused string      \<comment> \<open>\<open>PendingOutputError\<close>\<close>
  | PendingDatabase            \<comment> \<open>\<open>IntegrityError\<close> at the flush\<close>

abbreviation check_pending :: "bool \<Rightarrow> string \<Rightarrow> pending_error + unit" where
  "check_pending p message \<equiv> (if p then Inr () else Inl (PendingRefused message))"

definition check_provenance :: "catalog \<Rightarrow> planned_variant \<Rightarrow> string \<Rightarrow> pending_error + uuid" where
  "check_provenance c v kind =
     (if pv_kind v \<noteq> kind then Inl (PendingRefused ''the variant is of another kind'')
      else case provenance_of (pv_variant v) c of
        None \<Rightarrow> Inl (PendingRefused ''the variant is not in the catalog'')
      | Some (version, catalog_kind) \<Rightarrow>
          if catalog_kind \<noteq> kind then Inl (PendingRefused ''the variant's catalog component is of another kind'')
          else if version \<noteq> pv_version v then Inl (PendingRefused ''the variant belongs to another component version'')
          else Inr (pv_variant v))"

text \<open>
  \<open>_check_vector\<close>. A \<open>vec\<close> is already a contiguous little-endian float32 array.
\<close>

definition unit_length_tolerance :: real where
  "unit_length_tolerance = fl (1 / 1000)"

definition check_vector :: "(vec \<Rightarrow> real) \<Rightarrow> face_vector \<Rightarrow> space \<Rightarrow> pending_error + real" where
  "check_vector norm2 f sp =
     (let v = fv_vector f in
      if length v \<noteq> s_dim sp then Inl (PendingRefused ''a vector of another shape'')
      else if \<not> list_all finite32 v then Inl (PendingRefused ''a vector must be finite (no NaN or infinity)'')
      else if fv_normalization f \<noteq> s_normalization sp then Inl (PendingRefused ''a vector of another normalization'')
      else if s_normalization sp = ''L2_NORMALIZED'' \<and> \<not> isclose unit_length_tolerance (norm2 v) 1
      then Inl (PendingRefused ''an L2_NORMALIZED vector of another length'')
      else Inr (norm2 v))"

definition check_context :: "uuid \<Rightarrow> uuid \<Rightarrow> uuid \<Rightarrow> db \<Rightarrow> pending_error + unit" where
  "check_context source_id run_id segment_id d =
     (case tab_get p_id (runs d) run_id of
        None \<Rightarrow> Inl (PendingRefused ''no processing run'')
      | Some p \<Rightarrow>
          if p_source p \<noteq> source_id then Inl (PendingRefused ''the source does not belong to the processing run'')
          else if p_state p \<noteq> P_RUNNING then Inl (PendingRefused ''the processing run is not writable'')
          else case segment_get (segments d) segment_id of
            None \<Rightarrow> Inl (PendingRefused ''no execution segment'')
          | Some g \<Rightarrow>
              if g_run g \<noteq> p_id p then Inl (PendingRefused ''the execution segment does not belong to the processing run'')
              else if g_state g \<noteq> G_RUNNING then Inl (PendingRefused ''the execution segment is not writable'')
              else Inr ())"

section \<open>Observations\<close>

definition landmarks_json :: "detection \<Rightarrow> json" where
  "landmarks_json x =
     (case dn_landmarks x of
        None \<Rightarrow> JNull
      | Some ps \<Rightarrow> JObj [(''schema_version'', JInt 1),
                        (''points'', JList (map (\<lambda>(px, py). JList [JFloat px, JFloat py]) ps))])"

text \<open>\<open>bbox_x\<close>, \<open>bbox_y\<close>, \<open>bbox_width\<close> and \<open>bbox_height\<close>, subtracted in double arithmetic\<close>

definition stored_box :: "box \<Rightarrow> real \<times> real \<times> real \<times> real" where
  "stored_box b = (case b of (x0, y0, x1, y1) \<Rightarrow> (x0, y0, fsub x1 x0, fsub y1 y0))"

text \<open>The check constraint \<open>bbox_normalized\<close> of \<open>observations\<close>, which SQLite evaluates in doubles\<close>

definition box_constraint :: "real \<times> real \<times> real \<times> real \<Rightarrow> bool" where
  "box_constraint b = (case b of (x, y, w, h) \<Rightarrow>
     0 \<le> x \<and> 0 \<le> y \<and> 0 < w \<and> 0 < h \<and> fl (x + w) \<le> 1 \<and> fl (y + h) \<le> 1)"

definition pending_observation ::
  "uuid \<Rightarrow> uuid \<Rightarrow> uuid \<Rightarrow> uuid \<Rightarrow> int \<Rightarrow> detection \<Rightarrow> planned_variant \<Rightarrow> time \<Rightarrow> observation" where
  "pending_observation i source_id run_id segment_id sequence x v now =
     \<lparr>o_id = i, o_source = source_id, o_run = run_id, o_segment = segment_id, o_crop = None, o_state = O_PENDING,
      o_sequence = sequence, o_created = now, o_superseded_by = None, o_box = stored_box (dn_box x),
      o_landmarks = landmarks_json x,
      o_quality = JObj [(''schema_version'', JInt 1), (''detection_score'', JFloat (dn_score x))],
      o_component = pv_version v, o_variant = Some (pv_variant v)\<rparr>"

definition write_observation ::
  "catalog \<Rightarrow> uuid \<Rightarrow> uuid \<Rightarrow> uuid \<Rightarrow> int \<Rightarrow> detection \<Rightarrow> planned_variant \<Rightarrow> uuid \<Rightarrow> time \<Rightarrow> db \<Rightarrow> pending_error + uuid \<times> db" where
  "write_observation c source_id run_id segment_id sequence x v new_id now d =
     bindE (check_context source_id run_id segment_id d) (\<lambda>_.
     bindE (check_provenance c v kind_detector) (\<lambda>_.
       let row = pending_observation new_id source_id run_id segment_id sequence x v now in
       if \<not> box_constraint (o_box row) then Inl PendingDatabase
       else case observation_add_batch [row] (observations d) of
         Inl _ \<Rightarrow> Inl PendingDatabase
       | Inr (_, t) \<Rightarrow> Inr (new_id, d\<lparr>observations := t\<rparr>)))"

section \<open>Representations\<close>

text \<open>\<open>vector.tobytes()\<close>\<close>

definition word_bytes :: "32 word \<Rightarrow> byte list" where
  "word_bytes w = [ucast w, ucast (drop_bit 8 w), ucast (drop_bit 16 w), ucast (drop_bit 24 w)]"

definition bytes32 :: "vec \<Rightarrow> byte list" where
  "bytes32 v = concat (map word_bytes v)"

definition pending_rep ::
  "uuid \<Rightarrow> observation \<Rightarrow> uuid \<Rightarrow> space \<Rightarrow> vec \<Rightarrow> real \<Rightarrow> uuid \<Rightarrow> time \<Rightarrow> rep" where
  "pending_rep i ob segment_id sp v l2 variant now =
     \<lparr>r_id = i, r_obs = o_id ob, r_identity = None, r_run = o_run ob, r_segment = segment_id, r_space = s_id sp,
      r_state = R_PENDING, r_key = None, r_vector = Some (bytes32 v), r_dim = s_dim sp, r_created = now,
      r_activated = None, r_erased = None,
      r_quality = JObj [(''schema_version'', JInt 1), (''l2_norm'', JFloat l2)], r_variant = Some variant\<rparr>"

definition write_representation ::
  "catalog \<Rightarrow> (vec \<Rightarrow> real) \<Rightarrow> uuid \<Rightarrow> uuid \<Rightarrow> int \<Rightarrow> face_vector \<Rightarrow> planned_variant \<Rightarrow> uuid \<Rightarrow> uuid \<Rightarrow> time \<Rightarrow> db
   \<Rightarrow> pending_error + uuid \<times> db" where
  "write_representation c norm2 observation_id segment_id index f v space_id new_id now d =
     (case observation_get (observations d) observation_id of
        None \<Rightarrow> Inl (PendingRefused ''no observation'')
      | Some ob \<Rightarrow>
          bindE (check_pending (o_state ob = O_PENDING) ''the observation is not writable'') (\<lambda>_.
          bindE (check_context (o_source ob) (o_run ob) segment_id d) (\<lambda>_.
          case tab_get s_id (spaces d) space_id of
            None \<Rightarrow> Inl (PendingRefused ''no representation space'')
          | Some sp \<Rightarrow>
              bindE (check_provenance c v kind_embedder) (\<lambda>variant.
              bindE (check_pending (compatibility_state variant (s_id sp) c \<in> {Some rt_declared, Some rt_validated})
                       ''the embedder variant is not declared for the representation space'') (\<lambda>_.
              bindE (check_vector norm2 f sp) (\<lambda>l2.
              bindE (check_pending (fv_index f = index) ''the vector does not belong to this observation'') (\<lambda>_.
              case rep_add_batch [pending_rep new_id ob segment_id sp (fv_vector f) l2 variant now] (reps d) of
                Inl _ \<Rightarrow> Inl PendingDatabase
              | Inr (_, t) \<Rightarrow> Inr (new_id, d\<lparr>reps := t\<rparr>))))))))"

section \<open>What was checked\<close>

text \<open>The catalog names \<open>kind\<close> and the planned version for the variant.\<close>

definition catalog_agrees :: "catalog \<Rightarrow> planned_variant \<Rightarrow> string \<Rightarrow> bool" where
  "catalog_agrees c v kind \<longleftrightarrow> pv_kind v = kind \<and> provenance_of (pv_variant v) c = Some (pv_version v, kind)"

lemma check_provenance_Inr: "check_provenance c v kind = Inr u \<longleftrightarrow> catalog_agrees c v kind \<and> u = pv_variant v"
  by (auto simp: check_provenance_def catalog_agrees_def split: option.splits)

text \<open>The run is running, of the source, and the segment is its running one.\<close>

definition writable_context :: "uuid \<Rightarrow> uuid \<Rightarrow> uuid \<Rightarrow> db \<Rightarrow> bool" where
  "writable_context source_id run_id segment_id d \<longleftrightarrow>
     (\<exists>p g. tab_get p_id (runs d) run_id = Some p \<and> p_source p = source_id \<and> p_state p = P_RUNNING \<and>
        segment_get (segments d) segment_id = Some g \<and> g_run g = run_id \<and> g_state g = G_RUNNING)"

lemma check_context_Inr:
  "check_context source_id run_id segment_id d = Inr u \<longleftrightarrow> writable_context source_id run_id segment_id d"
  by (auto simp: check_context_def writable_context_def dest!: tab_get_SomeD split: option.splits)

definition vector_fits :: "(vec \<Rightarrow> real) \<Rightarrow> face_vector \<Rightarrow> space \<Rightarrow> bool" where
  "vector_fits norm2 f sp \<longleftrightarrow> length (fv_vector f) = s_dim sp \<and> list_all finite32 (fv_vector f) \<and>
     fv_normalization f = s_normalization sp \<and>
     (s_normalization sp = ''L2_NORMALIZED'' \<longrightarrow> isclose unit_length_tolerance (norm2 (fv_vector f)) 1)"

lemma check_vector_Inr: "check_vector norm2 f sp = Inr n \<longleftrightarrow> vector_fits norm2 f sp \<and> n = norm2 (fv_vector f)"
  by (auto simp: check_vector_def vector_fits_def Let_def)

lemma check_pending_Inr: "check_pending p m = Inr u \<longleftrightarrow> p"
  by simp

lemma write_observation_Inr:
  "write_observation c source_id run_id segment_id sequence x v new_id now d = Inr (i, d') \<longleftrightarrow>
     (let row = pending_observation new_id source_id run_id segment_id sequence x v now in
      i = new_id \<and> writable_context source_id run_id segment_id d \<and> catalog_agrees c v kind_detector \<and>
      box_constraint (o_box row) \<and> observations_ok (observations d @ [row]) \<and> d' = d\<lparr>observations := observations d @ [row]\<rparr>)"
  by (auto simp: write_observation_def bindE_Inr_iff check_context_Inr check_provenance_Inr observation_add_batch_def Let_def
      split: if_splits)

lemma write_representation_Inr:
  "write_representation c norm2 observation_id segment_id index f v space_id new_id now d = Inr (i, d') \<longleftrightarrow>
     (\<exists>ob sp. let row = pending_rep new_id ob segment_id sp (fv_vector f) (norm2 (fv_vector f)) (pv_variant v) now in
      i = new_id \<and> observation_get (observations d) observation_id = Some ob \<and> o_state ob = O_PENDING \<and>
      writable_context (o_source ob) (o_run ob) segment_id d \<and> tab_get s_id (spaces d) space_id = Some sp \<and>
      catalog_agrees c v kind_embedder \<and>
      compatibility_state (pv_variant v) (s_id sp) c \<in> {Some rt_declared, Some rt_validated} \<and>
      vector_fits norm2 f sp \<and> fv_index f = index \<and> reps_ok (reps d @ [row]) \<and> d' = d\<lparr>reps := reps d @ [row]\<rparr>)"
  unfolding write_representation_def Let_def
  by (auto simp: bindE_Inr_iff check_context_Inr check_provenance_Inr check_vector_Inr rep_add_batch_def
      split: option.splits if_splits sum.splits)

section \<open>The box in double arithmetic\<close>

lemma round_half_even_between:
  "x \<le> of_int n \<Longrightarrow> round_half_even x \<le> n" "of_int n \<le> x \<Longrightarrow> n \<le> round_half_even x"
proof -
  assume "x \<le> of_int n"
  then have "\<lfloor>x\<rfloor> < n \<or> x = of_int n" by linarith
  then show "round_half_even x \<le> n"
    by (auto simp: round_half_even_def Let_def)
next
  assume "of_int n \<le> x"
  then have "n \<le> \<lfloor>x\<rfloor>" by linarith
  then show "n \<le> round_half_even x" by (auto simp: round_half_even_def Let_def)
qed

lemma round_half_even_error: "\<bar>of_int (round_half_even x) - x\<bar> \<le> 1 / 2"
  unfolding round_half_even_def Let_def by (simp split: if_splits)

lemma fl_exp_bounds:
  assumes "0 < x"
  shows "2 ^ 52 * 2 powi fl_exp x \<le> x" and "x < 2 ^ 53 * 2 powi fl_exp x"
proof -
  define n where "n = \<lfloor>log 2 x\<rfloor>"
  have k: "fl_exp x = n - 52" using assms by (simp add: fl_exp_def n_def)
  have low: "2 powi n \<le> x" and high: "x < 2 powi (n + 1)"
    using assms floor_log_eq_powr_iff [of x 2 n] by (simp_all add: n_def powr_real_of_int' [symmetric] add.commute)
  have shift: "(2::real) powi (n - 52) * 2 ^ 52 = 2 powi n" "(2::real) powi (n - 52) * 2 ^ 53 = 2 powi (n + 1)"
    using powi_shift [of 52 "n - 52"] powi_shift [of 53 "n - 52"] by (simp_all add: add.commute)
  show "2 ^ 52 * 2 powi fl_exp x \<le> x" "x < 2 ^ 53 * 2 powi fl_exp x"
    using low high shift unfolding k by (metis mult.commute)+
qed

lemma fl_pos:
  assumes "0 < x"
  shows "0 < fl x"
proof -
  have "of_int (2 ^ 52) \<le> x / 2 powi fl_exp x"
    using fl_exp_bounds(1) [OF assms] by (simp add: pos_le_divide_eq)
  then have "2 ^ 52 \<le> round_half_even (x / 2 powi fl_exp x)" by (rule round_half_even_between(2))
  then show ?thesis using assms by (simp add: fl_def)
qed

text \<open>The relative error of one rounding is at most \<open>2 ^ -53\<close>.\<close>

lemma fl_upper:
  assumes "0 < x"
  shows "fl x \<le> x + x / 2 ^ 53"
proof -
  let ?u = "(2::real) powi fl_exp x"
  have "fl x - x = (of_int (round_half_even (x / ?u)) - x / ?u) * ?u"
    using assms by (simp add: fl_def left_diff_distrib)
  also have "\<dots> \<le> 1 / 2 * ?u"
    by (intro mult_right_mono abs_le_D1 [OF round_half_even_error]) simp
  also have "\<dots> \<le> x / 2 ^ 53"
    using fl_exp_bounds(1) [OF assms] by simp
  finally show ?thesis by simp
qed

text \<open>What exceeds one by at most half a unit in the last place rounds to one.\<close>

lemma fl_le_one:
  assumes "0 < y" and "y \<le> 1 + 1 / 2 ^ 53"
  shows "fl y \<le> 1"
proof (cases "1 \<le> y")
  case False
  let ?u = "(2::real) powi fl_exp y"
  have e: "\<lfloor>log 2 y\<rfloor> \<le> -1"
    using False assms(1) by (simp add: floor_less_iff flip: zle_add1_eq_le)
  have "y / ?u \<le> of_int (2 ^ 53)" using fl_exp_bounds(2) [OF assms(1)] by (simp add: pos_divide_le_eq)
  then have "round_half_even (y / ?u) \<le> 2 ^ 53" by (rule round_half_even_between(1))
  then have "of_int (round_half_even (y / ?u)) \<le> (2 ^ 53 :: real)"
    by (metis of_int_le_iff of_int_numeral of_int_power)
  then have "fl y \<le> 2 ^ 53 * ?u" using assms(1) by (simp add: fl_def)
  also have "\<dots> = 2 powi (fl_exp y + 53)" using powi_shift [of 53 "fl_exp y"] by (simp add: mult.commute)
  also have "\<dots> \<le> 2 powi 0" using e assms(1) by (intro power_int_increasing) (auto simp: fl_exp_def)
  finally show ?thesis by simp
next
  case True
  have "y < 2" using assms(2) by simp
  then have "log 2 y < log 2 2" using assms(1) by (subst log_less_cancel_iff) simp_all
  then have "log 2 y < 1" by simp
  moreover have "0 \<le> log 2 y" using True by simp
  ultimately have "\<lfloor>log 2 y\<rfloor> = 0" by linarith
  then have k: "fl_exp y = - 52" using assms(1) by (simp add: fl_exp_def)
  have u: "(2::real) powi fl_exp y = inverse (2 ^ 52)" unfolding k by (simp add: power_int_def power_one_over)
  have r: "y * 2 ^ 52 \<le> 2 ^ 52 + 1 / 2" "2 ^ 52 \<le> y * 2 ^ 52" using assms True by (simp_all add: field_simps)
  then have f: "\<lfloor>y * 2 ^ 52\<rfloor> = 2 ^ 52" by (simp add: floor_eq_iff)
  have "round_half_even (y * 2 ^ 52) = 2 ^ 52"
    using r unfolding round_half_even_def Let_def f by auto
  then have "round_half_even (y / inverse (2 ^ 52)) = 2 ^ 52" by (simp only: divide_inverse inverse_inverse_eq)
  then show ?thesis using assms(1) unfolding fl_def u by simp
qed

lemma stored_width:
  assumes "0 \<le> a" and "a < b" and "b \<le> 1"
  shows "0 < fsub b a \<and> fl (a + fsub b a) \<le> 1"
proof -
  have w: "0 < fsub b a" using assms(2) fl_pos [of "b - a"] by (simp add: fsub_def)
  have "fsub b a \<le> (b - a) + (b - a) / 2 ^ 53" using fl_upper [of "b - a"] assms(2) by (simp add: fsub_def)
  then have "a + fsub b a \<le> b + (b - a) / 2 ^ 53" by simp
  also have "\<dots> \<le> 1 + 1 / 2 ^ 53" using assms by (intro add_mono divide_right_mono) auto
  finally show ?thesis using w assms(1) fl_le_one [of "a + fsub b a"] by simp
qed

text \<open>
  C19. The box of an observation always passes the check of its table, whatever the rounding: for a box
  inside the unit square, as the message contract guarantees, the width and the height subtracted in double
  arithmetic are positive, and adding them back in double arithmetic, as SQLite does, does not exceed one.
\<close>

theorem stored_boxes_pass_the_check:
  assumes "box_valid b"
  shows "box_constraint (stored_box b)"
  using assms stored_width by (auto simp: box_valid_def box_constraint_def stored_box_def split: prod.splits)

lemma stored_boxes_pass_the_check_witness: "box_constraint (stored_box (1/10, 1/5, 7/10, 1))"
  by (rule stored_boxes_pass_the_check) (simp add: box_valid_def)

section \<open>The vector, bit by bit\<close>

lemma word_bytes_inverse:
  "ucast (ucast w :: byte) OR push_bit 8 (ucast (ucast (drop_bit 8 w) :: byte))
     OR push_bit 16 (ucast (ucast (drop_bit 16 w) :: byte)) OR push_bit 24 (ucast (ucast (drop_bit 24 w) :: byte)) = (w :: 32 word)"
  (is "?l = w")
proof (rule bit_word_eqI)
  fix n assume "n < LENGTH(32)"
  then have n: "n < 32" by simp
  consider "n < 8" | "8 \<le> n" "n < 16" | "16 \<le> n" "n < 24" | "24 \<le> n" by linarith
  then show "bit ?l n = bit w n"
    using n by cases (auto simp: bit_simps)
qed

lemma floats32_bytes32: "floats32 (bytes32 v) = v"
  by (induction v) (simp_all add: bytes32_def word_bytes_def word_bytes_inverse)

lemma length_bytes32: "length (bytes32 v) = 4 * length v"
  by (induction v) (simp_all add: bytes32_def word_bytes_def)

section \<open>What a private row is known to satisfy\<close>

lemma private_row_decodes:
  assumes "vector_fits norm2 f sp"
  shows "decode_vector (bytes32 (fv_vector f)) (s_dim sp) = Inr (fv_vector f)"
  using assms by (simp add: decode_vector_def vector_fits_def length_bytes32 floats32_bytes32)

text \<open>
  C18. A vector enters a run's private output only after every check, and comes back as it went in: the one
  row added is PENDING, without an index key and without an identity, of the run and the observation it was
  asked for, both still writable; the catalog says that its variant is a face representation of the version
  that was planned and is declared or validated for the space; the vector is the one of the detection asked
  about, finite, of the space's dimension and normalization, and the stored bytes decode to exactly its bits.
\<close>

theorem private_vectors_are_checked_and_read_back:
  assumes "write_representation c norm2 observation_id segment_id index f v space_id new_id now d = Inr (i, d')"
  shows "\<exists>ob sp row. d' = d\<lparr>reps := reps d @ [row]\<rparr> \<and> r_id row = i \<and> r_state row = R_PENDING \<and> r_key row = None \<and>
    r_identity row = None \<and> observation_get (observations d) observation_id = Some ob \<and> r_obs row = o_id ob \<and>
    o_state ob = O_PENDING \<and> r_run row = o_run ob \<and> writable_context (o_source ob) (o_run ob) segment_id d \<and>
    tab_get s_id (spaces d) space_id = Some sp \<and> r_variant row = Some (pv_variant v) \<and>
    provenance_of (pv_variant v) c = Some (pv_version v, kind_embedder) \<and>
    compatibility_state (pv_variant v) (s_id sp) c \<in> {Some rt_declared, Some rt_validated} \<and>
    fv_index f = index \<and> fv_normalization f = s_normalization sp \<and>
    (s_normalization sp = ''L2_NORMALIZED'' \<longrightarrow> isclose unit_length_tolerance (norm2 (fv_vector f)) 1) \<and>
    decode_vector (the (r_vector row)) (s_dim sp) = Inr (fv_vector f)"
proof -
  from assms obtain ob sp where W: "i = new_id" "observation_get (observations d) observation_id = Some ob"
    "o_state ob = O_PENDING" "writable_context (o_source ob) (o_run ob) segment_id d"
    "tab_get s_id (spaces d) space_id = Some sp" "catalog_agrees c v kind_embedder"
    "compatibility_state (pv_variant v) (s_id sp) c \<in> {Some rt_declared, Some rt_validated}"
    "vector_fits norm2 f sp" "fv_index f = index"
    "d' = d\<lparr>reps := reps d @ [pending_rep new_id ob segment_id sp (fv_vector f) (norm2 (fv_vector f)) (pv_variant v) now]\<rparr>"
    unfolding write_representation_Inr Let_def by blast
  from W private_row_decodes [OF W(8)] show ?thesis
    by (intro exI [of _ ob] exI [of _ sp]
          exI [of _ "pending_rep new_id ob segment_id sp (fv_vector f) (norm2 (fv_vector f)) (pv_variant v) now"] conjI)
      (simp_all add: pending_rep_def catalog_agrees_def vector_fits_def)
qed

section \<open>A sample\<close>

text \<open>One in single precision, and zero\<close>

definition sample_vector :: face_vector where
  "sample_vector = \<lparr>fv_index = 7, fv_vector = [1065353216, 0], fv_normalization = ''L2_NORMALIZED''\<rparr>"

definition recording_db :: db where
  "recording_db = sample_started
     \<lparr>spaces := [\<lparr>s_id = 5, s_state = SP_ACTIVE, s_dim = 2, s_metric = COSINE, s_normalization = ''L2_NORMALIZED'', s_key = ''s'',
        s_component = 6, s_contract_version = 1, s_contract = JObj []\<rparr>],
      observations := [(pending_observation 40 1 11 20 0 sample_detection planned_detector 7)\<lparr>o_box := (1/4, 1/4, 1/4, 1/2)\<rparr>]\<rparr>"

definition recording_space :: space where
  "recording_space = hd (spaces recording_db)"

definition recording_face :: observation where
  "recording_face = hd (observations recording_db)"

lemma sample_context: "check_context 1 11 20 recording_db = Inr ()"
proof -
  have "runs recording_db = runs sample_started" "segments recording_db = segments sample_started"
    by (simp_all add: recording_db_def)
  then have "check_context 1 11 20 recording_db = check_context 1 11 20 sample_started"
    by (simp only: check_context_def)
  also have "\<dots> = Inr ()" by code_simp
  finally show ?thesis .
qed

lemma sample_catalog_agrees:
  "catalog_agrees sample_catalog planned_embedder kind_embedder \<and> catalog_agrees sample_catalog planned_detector kind_detector"
  unfolding catalog_agrees_def by code_simp

lemma sample_vector_fits: "vector_fits (\<lambda>v. 1) sample_vector recording_space"
  by (simp add: vector_fits_def recording_space_def recording_db_def sample_vector_def isclose_def finite32_def)

lemma sample_recorded:
  "\<exists>d'. write_representation sample_catalog (\<lambda>v. 1) 40 20 7 sample_vector planned_embedder 5 41 8 recording_db = Inr (41, d')"
proof -
  have ob: "observation_get (observations recording_db) 40 = Some recording_face" "o_state recording_face = O_PENDING"
    "o_source recording_face = 1" "o_run recording_face = 11"
    by (simp_all add: recording_db_def recording_face_def observation_get_def tab_get_def pending_observation_def)
  have sp: "tab_get s_id (spaces recording_db) 5 = Some recording_space" "s_id recording_space = 5"
    by (simp_all add: recording_db_def recording_space_def tab_get_def)
  have compatible: "compatibility_state 78 5 sample_catalog = Some rt_declared" by code_simp
  let ?row = "pending_rep 41 recording_face 20 recording_space (fv_vector sample_vector) 1 78 8"
  have "reps recording_db = []" by (simp add: recording_db_def) code_simp
  then have "reps_ok (reps recording_db @ [?row])"
    by (simp add: reps_ok_def tab_keyed_def rep_row_ok_def pending_rep_def recording_space_def recording_db_def sample_vector_def
        bytes32_def word_bytes_def unique_where_def)
  then show ?thesis
    using ob sp compatible sample_context sample_catalog_agrees sample_vector_fits
    unfolding write_representation_Inr
    by (intro exI [of _ "recording_db\<lparr>reps := reps recording_db @ [?row]\<rparr>"] exI [of _ recording_face] exI [of _ recording_space])
      (simp add: check_context_Inr planned_embedder_def sample_vector_def Let_def)
qed

lemma private_vectors_are_checked_and_read_back_witness:
  "\<exists>row d'. write_representation sample_catalog (\<lambda>v. 1) 40 20 7 sample_vector planned_embedder 5 41 8 recording_db = Inr (41, d') \<and>
     d' = recording_db\<lparr>reps := reps recording_db @ [row]\<rparr> \<and> decode_vector (the (r_vector row)) 2 = Inr [1065353216, 0]"
proof -
  obtain d' where w: "write_representation sample_catalog (\<lambda>v. 1) 40 20 7 sample_vector planned_embedder 5 41 8 recording_db = Inr (41, d')"
    using sample_recorded by blast
  from private_vectors_are_checked_and_read_back [OF w] obtain sp row where
    r: "d' = recording_db\<lparr>reps := reps recording_db @ [row]\<rparr>" "tab_get s_id (spaces recording_db) 5 = Some sp"
      "decode_vector (the (r_vector row)) (s_dim sp) = Inr (fv_vector sample_vector)" by blast
  from r(2) have "s_dim sp = 2" by (auto simp: recording_db_def tab_get_def)
  with w r show ?thesis by (auto simp: sample_vector_def)
qed

end
