(* ===== verification/Retrieval.thy ===== *)
theory Retrieval
  imports Recognition Coordinator
begin

text \<open>
  Candidate retrieval (\<open>recognition/retrieval.py\<close>) and the run-local index it searches beside the
  space's own (\<open>infrastructure/indexing/run_local_index.py\<close>). USearch answers through the
  \<open>us_search\<close> of an \<open>index_env\<close>; what the code relies on there is \<open>nearest_search\<close>: a
  search returns entries of the index, each once, as many as were asked for while there are any, and
  none of those it leaves out is nearer. Under it the shortlist is what its reader takes it for: live,
  bounded, nearest first, and with nobody nearer overlooked.
\<close>

section \<open>The run-local index\<close>

text \<open>
  A label is the position of its representation in \<open>lx_labels\<close>; \<open>_known\<close> is the set of that list.
\<close>

record local_index =
  lx_space :: uuid
  lx_ndim :: nat
  lx_metric :: string
  lx_labels :: "uuid list"
  lx_entries :: vec_entries

definition local_empty :: "uuid \<Rightarrow> nat \<Rightarrow> string \<Rightarrow> local_index" where
  "local_empty space ndim metric =
     \<lparr>lx_space = space, lx_ndim = ndim, lx_metric = metric, lx_labels = [], lx_entries = []\<rparr>"

definition local_checked :: "local_index \<Rightarrow> vec \<Rightarrow> index_fault + vec" where
  "local_checked ix v =
     (if length v \<noteq> lx_ndim ix then Inl (WrongShape (lx_ndim ix) (length v))
      else if list_all finite32 v then Inr v else Inl NotFinite)"

definition local_add :: "uuid \<Rightarrow> vec \<Rightarrow> local_index \<Rightarrow> index_fault + bool \<times> local_index" where
  "local_add i v ix =
     bindE (local_checked ix v) (\<lambda>v.
       if i \<in> set (lx_labels ix) then Inr (False, ix)
       else Inr (True, ix\<lparr>lx_entries := lx_entries ix @ [(int (length (lx_labels ix)), v)],
                          lx_labels := lx_labels ix @ [i]\<rparr>))"

text \<open>\<open>self._labels[int(label)]\<close>; a label is never negative (USearch keys are unsigned).\<close>

definition local_hit :: "local_index \<Rightarrow> int \<times> real \<Rightarrow> index_fault + uuid \<times> real" where
  "local_hit ix h =
     (if nat (fst h) < length (lx_labels ix) then Inr (lx_labels ix ! nat (fst h), snd h)
      else Inl (Raised ''IndexError: list index out of range''))"

fun map_all :: "('a \<Rightarrow> 'e + 'b) \<Rightarrow> 'a list \<Rightarrow> 'e + 'b list" where
  "map_all f [] = Inr []"
| "map_all f (x # xs) = bindE (f x) (\<lambda>y. bindE (map_all f xs) (\<lambda>ys. Inr (y # ys)))"

definition local_search :: "index_env \<Rightarrow> vec \<Rightarrow> nat \<Rightarrow> local_index \<Rightarrow> index_fault + (uuid \<times> real) list" where
  "local_search env v k ix =
     (if k < 1 then Inl (Raised ''k must be at least 1'')
      else bindE (local_checked ix v) (\<lambda>v. map_all (local_hit ix) (us_search env (lx_entries ix) v k)))"

definition pending_in :: "uuid \<Rightarrow> uuid \<Rightarrow> rep \<Rightarrow> bool" where
  "pending_in run_id space_id r \<longleftrightarrow>
     r_run r = run_id \<and> r_space r = space_id \<and> r_state r = R_PENDING"

fun add_pending :: "nat \<Rightarrow> rep list \<Rightarrow> local_index \<Rightarrow> index_fault + local_index" where
  "add_pending ndim [] ix = Inr ix"
| "add_pending ndim (r # rs) ix =
     (case r_vector r of
        None \<Rightarrow> Inl (Raised ''TypeError: a bytes-like object is required'')
      | Some b \<Rightarrow> bindE (decode_vector b ndim) (\<lambda>v.
          bindE (local_add (r_id r) v ix) (\<lambda>(_, ix'). add_pending ndim rs ix')))"

definition rebuild_run_local_index ::
  "uuid \<Rightarrow> uuid \<Rightarrow> nat \<Rightarrow> string \<Rightarrow> db \<Rightarrow> index_fault + local_index" where
  "rebuild_run_local_index run_id space_id ndim metric d =
     add_pending ndim (filter (pending_in run_id space_id) (reps d)) (local_empty space_id ndim metric)"

section \<open>Retrieving\<close>

datatype retrieval_error = IncompatibleSpace string | IndexFault index_fault

definition cosine :: string where
  "cosine = ''cos''"

definition index_converged :: "uuid \<Rightarrow> db \<Rightarrow> bool" where
  "index_converged space_id d \<longleftrightarrow>
     \<not> list_ex (\<lambda>x. x_space x = space_id \<and> x_state x \<in> {X_PENDING, X_FAILED}) (index_ops d)"

definition ids_per_query :: nat where
  "ids_per_query = 500"

text \<open>The dict \<open>alive\<close>, as the items it gets in turn: \<open>ids\<close> are the keys of a dict, each once.\<close>

definition still_pending :: "uuid \<Rightarrow> uuid \<Rightarrow> uuid list \<Rightarrow> db \<Rightarrow> (uuid \<times> uuid option) list" where
  "still_pending run_id space_id ids d =
     concat (map (\<lambda>c. map (\<lambda>r. (r_id r, r_identity r))
         (filter (\<lambda>r. r_id r \<in> set c \<and> pending_in run_id space_id r) (reps d)))
       (chunks ids_per_query ids))"

text \<open>\<open>{hit.key: hit.distance for hit in hits}\<close>: the last item of a key wins.\<close>

definition dict_of :: "('k \<times> 'v) list \<Rightarrow> 'k \<rightharpoonup> 'v" where
  "dict_of kvs = map_of (rev kvs)"

definition nearness :: "candidate \<Rightarrow> real \<times> pool \<times> uuid" where
  "nearness c = (cd_distance c, cd_pool c, cd_rep c)"

definition global_found ::
  "index_env \<Rightarrow> uuid \<Rightarrow> vec \<Rightarrow> nat \<Rightarrow> vindex \<Rightarrow> uuid list \<Rightarrow> db \<Rightarrow> index_fault + candidate list \<times> int" where
  "global_found env space_id v fetch ix left_out d =
     bindE (index_search env v fetch ix) (\<lambda>hits.
       let kept = resolve_ann_candidates space_id (map fst hits) d
       in Inr (map (\<lambda>a. \<lparr>cd_pool = GLOBAL, cd_rep = ac_rep a, cd_identity = ac_identity a,
                          cd_distance = the (dict_of hits (ac_key a))\<rparr>)
                 (filter (\<lambda>a. ac_rep a \<notin> set left_out) kept),
               int (length hits) - int (length kept)))"

definition local_found ::
  "index_env \<Rightarrow> uuid \<Rightarrow> vec \<Rightarrow> nat \<Rightarrow> uuid \<Rightarrow> local_index \<Rightarrow> uuid list \<Rightarrow> db \<Rightarrow> index_fault + candidate list \<times> int"
where
  "local_found env space_id v fetch run_id ix left_out d =
     bindE (local_search env v fetch ix) (\<lambda>near.
       let alive = still_pending run_id space_id (dedup (map fst near)) d
       in Inr (map (\<lambda>(i, ident). \<lparr>cd_pool = RUN_LOCAL, cd_rep = i, cd_identity = ident,
                          cd_distance = the (dict_of near i)\<rparr>)
                 (filter (\<lambda>(i, _). i \<notin> set left_out) alive),
               int (length near) - int (length alive)))"

definition retrieve ::
  "index_env \<Rightarrow> uuid \<Rightarrow> nat \<Rightarrow> vec \<Rightarrow> nat \<Rightarrow> vindex \<Rightarrow> uuid \<Rightarrow> local_index option \<Rightarrow> uuid list \<Rightarrow> db
   \<Rightarrow> retrieval_error + retrieval" where
  "retrieve env space_id ndim v k global run_id run_local exclude d =
     (if vi_space global \<noteq> space_id \<or> vi_ndim global \<noteq> ndim \<or> vi_metric global \<noteq> cosine
      then Inl (IncompatibleSpace ''the global index is not this representation space's cosine index'')
      else if (case run_local of None \<Rightarrow> False
               | Some ix \<Rightarrow> lx_space ix \<noteq> space_id \<or> lx_ndim ix \<noteq> ndim \<or> lx_metric ix \<noteq> cosine)
      then Inl (IncompatibleSpace ''the run-local index is not this representation space's cosine index'')
      else
        (let left_out = dedup exclude; fetch = k + length left_out in
         map_sum IndexFault id
           (bindE (global_found env space_id v fetch global left_out d) (\<lambda>(found, dropped).
            bindE (case run_local of None \<Rightarrow> Inr ([], 0)
                   | Some ix \<Rightarrow> local_found env space_id v fetch run_id ix left_out d) (\<lambda>(near, gone).
            Inr \<lparr>rv_space = space_id, rv_k = k,
                 rv_candidates = take k (sort_key nearness (found @ near)),
                 rv_dropped = dropped + gone, rv_converged = index_converged space_id d\<rparr>)))))"

text \<open>\<open>RecognitionService.assess\<close>, of a service that was constructed with the shortlist size \<open>k\<close>.\<close>

definition recognise ::
  "nat \<Rightarrow> index_env \<Rightarrow> uuid \<Rightarrow> nat \<Rightarrow> vec \<Rightarrow> real \<Rightarrow> vindex \<Rightarrow> uuid \<Rightarrow> local_index option \<Rightarrow> uuid list \<Rightarrow> db
   \<Rightarrow> retrieval_error + assessment" where
  "recognise k env space_id ndim v quality global run_id run_local exclude d =
     bindE (retrieve env space_id ndim v k global run_id run_local exclude d)
       (\<lambda>rv. Inr (assess rv quality))"

section \<open>Whatever an index answers\<close>

lemma index_search_Inr:
  "index_search env v k ix = Inr hits \<Longrightarrow>
     1 \<le> k \<and> checked_vector (vi_ndim ix) v = Inr v \<and> hits = us_search env (vi_entries ix) v k"
  by (auto simp: index_search_def bindE_Inr_iff checked_vector_def split: if_splits)

lemma set_still_pending:
  "set (still_pending run_id s ids d) =
     {(r_id r, r_identity r) | r. r \<in> set (reps d) \<and> r_id r \<in> set ids \<and> pending_in run_id s r}"
proof -
  have "set ids = (\<Union>c\<in>set (chunks ids_per_query ids). set c)"
    by (simp add: concat_chunks [of ids_per_query ids, symmetric, THEN arg_cong [where f = set]] ids_per_query_def
        flip: set_concat)
  then show ?thesis by (auto simp: still_pending_def)
qed

lemma distinct_selected_by_chunk:
  assumes "tab_keyed r_id t" and "distinct (concat cs)"
  shows "distinct (map fst (concat (map (\<lambda>c. map (\<lambda>r. (r_id r, g r))
           (filter (\<lambda>r. r_id r \<in> set c \<and> P r) t)) cs)))"
  using assms(2)
proof (induction cs)
  case (Cons c cs)
  have "distinct (map r_id (filter (\<lambda>r. r_id r \<in> set c \<and> P r) t))"
    using assms(1) by (auto simp: tab_keyed_def intro: distinct_map_filter)
  with Cons show ?case by (fastforce simp: comp_def)
qed simp

lemma distinct_still_pending:
  assumes "tab_keyed r_id (reps d)" and "distinct ids"
  shows "distinct (map fst (still_pending run_id s ids d))"
  unfolding still_pending_def using assms
  by (intro distinct_selected_by_chunk) (simp_all add: concat_chunks ids_per_query_def)

definition live_candidate :: "uuid \<Rightarrow> uuid \<Rightarrow> uuid list \<Rightarrow> db \<Rightarrow> candidate \<Rightarrow> bool" where
  "live_candidate space_id run_id exclude d c \<longleftrightarrow> cd_rep c \<notin> set exclude \<and>
     (\<exists>r\<in>set (reps d). r_id r = cd_rep c \<and> r_space r = space_id \<and> r_identity r = cd_identity c \<and>
        (case cd_pool c of GLOBAL \<Rightarrow> eligible d r | RUN_LOCAL \<Rightarrow> pending_in run_id space_id r))"

lemma key_of_row:
  assumes "reps_ok t" and "rep_at s a t = Some r" and "rep_at s b t = Some r'" and "r_id r = r_id r'"
  shows "a = b"
proof -
  have "r \<in> set t" "r' \<in> set t" "r_key r = Some a" "r_key r' = Some b"
    using assms(2,3) by (simp_all add: rep_at_iff [OF assms(1)])
  moreover from this assms(1,4) have "r = r'" by (metis reps_ok_def tab_keyed_inj)
  ultimately show ?thesis by simp
qed

lemma global_found_Inr:
  assumes ok: "reps_ok (reps d)" and run: "global_found env s v fetch ix left_out d = Inr (found, dropped)"
  obtains hits where "index_search env v fetch ix = Inr hits"
    and "set found = {\<lparr>cd_pool = GLOBAL, cd_rep = r_id r, cd_identity = r_identity r,
           cd_distance = the (dict_of hits k)\<rparr> | r k. r \<in> set (reps d) \<and> r_space r = s \<and> r_key r = Some k \<and>
           k \<in> fst ` set hits \<and> eligible d r \<and> r_id r \<notin> set left_out}"
    and "distinct (map cd_rep found)"
    and "dropped = int (length hits) - int (length (filter
           (\<lambda>k. case rep_at s k (reps d) of None \<Rightarrow> False | Some r \<Rightarrow> eligible d r) (dedup (map fst hits))))"
proof -
  obtain hits where hits: "index_search env v fetch ix = Inr hits"
    and found: "found = map (\<lambda>a. \<lparr>cd_pool = GLOBAL, cd_rep = ac_rep a, cd_identity = ac_identity a,
          cd_distance = the (dict_of hits (ac_key a))\<rparr>)
        (filter (\<lambda>a. ac_rep a \<notin> set left_out) (resolve_ann_candidates s (map fst hits) d))"
    and dropped: "dropped = int (length hits) - int (length (resolve_ann_candidates s (map fst hits) d))"
    using run by (auto simp: global_found_def bindE_Inr_iff Let_def)
  let ?ks = "filter (\<lambda>k. case rep_at s k (reps d) of None \<Rightarrow> False | Some r \<Rightarrow> eligible d r) (dedup (map fst hits))"
  note res = only_live_candidates [OF ok, of s "map fst hits"]
  have at: "rep_at s k (reps d) = Some r \<longleftrightarrow> r \<in> set (reps d) \<and> r_space r = s \<and> r_key r = Some k" for k r
    by (rule rep_at_iff [OF ok])
  let ?r = "\<lambda>k. the (rep_at s k (reps d))"
  have found': "found = map (\<lambda>k. \<lparr>cd_pool = GLOBAL, cd_rep = r_id (?r k), cd_identity = r_identity (?r k),
      cd_distance = the (dict_of hits k)\<rparr>) (filter (\<lambda>k. r_id (?r k) \<notin> set left_out) ?ks)"
    unfolding found res by (simp add: comp_def Let_def filter_map)
  have "set found = {\<lparr>cd_pool = GLOBAL, cd_rep = r_id r, cd_identity = r_identity r,
           cd_distance = the (dict_of hits k)\<rparr> | r k. r \<in> set (reps d) \<and> r_space r = s \<and> r_key r = Some k \<and>
           k \<in> fst ` set hits \<and> eligible d r \<and> r_id r \<notin> set left_out}" (is "_ = ?S")
  proof (intro set_eqI iffI)
    fix c assume "c \<in> set found"
    then have "c \<in> (\<lambda>k. \<lparr>cd_pool = GLOBAL, cd_rep = r_id (?r k), cd_identity = r_identity (?r k),
      cd_distance = the (dict_of hits k)\<rparr>) ` {k \<in> set ?ks. r_id (?r k) \<notin> set left_out}"
      by (simp only: found' set_map set_filter)
    then obtain k where k: "k \<in> set ?ks" and nl: "r_id (?r k) \<notin> set left_out"
      and c: "c = \<lparr>cd_pool = GLOBAL, cd_rep = r_id (?r k), cd_identity = r_identity (?r k), cd_distance = the (dict_of hits k)\<rparr>"
      by (elim imageE CollectE conjE)
    from k obtain r where r: "rep_at s k (reps d) = Some r" "eligible d r" and "k \<in> fst ` set hits"
      by (auto split: option.splits)
    moreover from r(1) have "r \<in> set (reps d)" "r_space r = s" "r_key r = Some k" by (simp_all add: at)
    moreover have "?r k = r" using r(1) by simp
    ultimately show "c \<in> ?S" using c nl by (intro CollectI exI [of _ r] exI [of _ k]) simp
  next
    fix c assume "c \<in> ?S"
    then obtain r k where r: "rep_at s k (reps d) = Some r" and m: "k \<in> fst ` set hits" "eligible d r" "r_id r \<notin> set left_out"
      and c: "c = \<lparr>cd_pool = GLOBAL, cd_rep = r_id r, cd_identity = r_identity r, cd_distance = the (dict_of hits k)\<rparr>"
      by (auto simp: at)
    have "k \<in> set ?ks" using r m by simp
    then have "c \<in> (\<lambda>k. \<lparr>cd_pool = GLOBAL, cd_rep = r_id (?r k), cd_identity = r_identity (?r k),
      cd_distance = the (dict_of hits k)\<rparr>) ` {k \<in> set ?ks. r_id (?r k) \<notin> set left_out}"
      using r m(3) c by (intro image_eqI [of _ _ k]) simp_all
    then show "c \<in> set found" by (simp only: found' set_map set_filter)
  qed
  moreover have "distinct (map cd_rep found)"
  proof -
    have "distinct (map (\<lambda>k. r_id (the (rep_at s k (reps d)))) ?ks)"
    proof (rule distinct_map [THEN iffD2], intro conjI)
      show "inj_on (\<lambda>k. r_id (the (rep_at s k (reps d)))) (set ?ks)"
      proof (rule inj_onI)
        fix k k' assume "k \<in> set ?ks" "k' \<in> set ?ks" and eq: "r_id (the (rep_at s k (reps d))) = r_id (the (rep_at s k' (reps d)))"
        then obtain r r' where r: "rep_at s k (reps d) = Some r" "rep_at s k' (reps d) = Some r'"
          by (auto split: option.splits)
        with eq show "k = k'" by (simp add: key_of_row [OF ok r])
      qed
    qed simp
    then have "distinct (map (\<lambda>k. r_id (?r k)) (filter (\<lambda>k. r_id (?r k) \<notin> set left_out) ?ks))"
      by (rule distinct_map_filter)
    then show ?thesis unfolding found' by (simp add: comp_def del: filter_filter)
  qed
  moreover have "dropped = int (length hits) - int (length ?ks)"
    unfolding dropped res by simp
  ultimately show thesis using hits that by blast
qed

lemma map_all_Inr: "map_all f xs = Inr ys \<longleftrightarrow> list_all2 (\<lambda>x y. f x = Inr y) xs ys"
  by (induction xs arbitrary: ys) (auto simp: bindE_Inr_iff list_all2_Cons1)

lemma local_search_Inr:
  "local_search env v k ix = Inr near \<Longrightarrow>
     1 \<le> k \<and> local_checked ix v = Inr v \<and> length near = length (us_search env (lx_entries ix) v k) \<and>
     near = map (\<lambda>h. (lx_labels ix ! nat (fst h), snd h)) (us_search env (lx_entries ix) v k)"
proof -
  assume run: "local_search env v k ix = Inr near"
  then have "list_all2 (\<lambda>x y. local_hit ix x = Inr y) (us_search env (lx_entries ix) v k) near"
    "1 \<le> k" "local_checked ix v = Inr v"
    by (auto simp: local_search_def bindE_Inr_iff local_checked_def map_all_Inr split: if_splits)
  moreover from this(1) have "near = map (\<lambda>h. (lx_labels ix ! nat (fst h), snd h)) (us_search env (lx_entries ix) v k)"
    by (auto simp: list_all2_conv_all_nth local_hit_def split: if_splits intro!: nth_equalityI)
  ultimately show ?thesis by simp
qed

lemma local_found_Inr:
  assumes ok: "reps_ok (reps d)" and run: "local_found env s v fetch run_id ix left_out d = Inr (found, dropped)"
  obtains near where "local_search env v fetch ix = Inr near"
    and "set found = {\<lparr>cd_pool = RUN_LOCAL, cd_rep = r_id r, cd_identity = r_identity r,
           cd_distance = the (dict_of near (r_id r))\<rparr> | r. r \<in> set (reps d) \<and> r_id r \<in> fst ` set near \<and>
           pending_in run_id s r \<and> r_id r \<notin> set left_out}"
    and "distinct (map cd_rep found)"
    and "dropped = int (length near) - int (length (still_pending run_id s (dedup (map fst near)) d))"
proof -
  obtain near where near: "local_search env v fetch ix = Inr near"
    and found: "found = map (\<lambda>(i, ident). \<lparr>cd_pool = RUN_LOCAL, cd_rep = i, cd_identity = ident,
          cd_distance = the (dict_of near i)\<rparr>)
        (filter (\<lambda>(i, _). i \<notin> set left_out) (still_pending run_id s (dedup (map fst near)) d))"
    and dropped: "dropped = int (length near) - int (length (still_pending run_id s (dedup (map fst near)) d))"
    using run by (auto simp: local_found_def bindE_Inr_iff Let_def)
  have "set found = {\<lparr>cd_pool = RUN_LOCAL, cd_rep = r_id r, cd_identity = r_identity r,
           cd_distance = the (dict_of near (r_id r))\<rparr> | r. r \<in> set (reps d) \<and> r_id r \<in> fst ` set near \<and>
           pending_in run_id s r \<and> r_id r \<notin> set left_out}"
  proof -
    have "set (filter (\<lambda>(i, _). i \<notin> set left_out) (still_pending run_id s (dedup (map fst near)) d)) =
        (\<lambda>r. (r_id r, r_identity r)) ` {r \<in> set (reps d). r_id r \<in> fst ` set near \<and> pending_in run_id s r \<and> r_id r \<notin> set left_out}"
      unfolding set_filter set_still_pending by auto
    then show ?thesis unfolding found set_map by (auto simp: image_image)
  qed
  moreover have "map cd_rep found = map fst (filter (\<lambda>p. fst p \<notin> set left_out) (still_pending run_id s (dedup (map fst near)) d))"
    unfolding found by (simp add: comp_def split_beta split_def)
  then have "distinct (map cd_rep found)"
    using distinct_still_pending [of d "dedup (map fst near)" run_id s] ok
    by (simp add: reps_ok_def distinct_map_filter)
  ultimately show thesis using near dropped that by blast
qed

definition local_part ::
  "index_env \<Rightarrow> uuid \<Rightarrow> vec \<Rightarrow> nat \<Rightarrow> uuid \<Rightarrow> local_index option \<Rightarrow> uuid list \<Rightarrow> db \<Rightarrow> index_fault + candidate list \<times> int"
where
  "local_part env space_id v fetch run_id run_local left_out d =
     (case run_local of None \<Rightarrow> Inr ([], 0)
      | Some ix \<Rightarrow> local_found env space_id v fetch run_id ix left_out d)"

lemma retrieve_Inr:
  assumes "retrieve env s ndim v k global run_id run_local exclude d = Inr rv"
  obtains found dropped near gone where
    "global_found env s v (k + length (dedup exclude)) global (dedup exclude) d = Inr (found, dropped)"
    and "local_part env s v (k + length (dedup exclude)) run_id run_local (dedup exclude) d = Inr (near, gone)"
    and "rv = \<lparr>rv_space = s, rv_k = k, rv_candidates = take k (sort_key nearness (found @ near)),
           rv_dropped = dropped + gone, rv_converged = index_converged s d\<rparr>"
    and "vi_space global = s \<and> vi_ndim global = ndim \<and> vi_metric global = cosine"
    and "\<And>ix. run_local = Some ix \<Longrightarrow> lx_space ix = s \<and> lx_ndim ix = ndim \<and> lx_metric ix = cosine"
proof -
  have C: "vi_space global = s \<and> vi_ndim global = ndim \<and> vi_metric global = cosine"
    and L: "\<And>ix. run_local = Some ix \<Longrightarrow> lx_space ix = s \<and> lx_ndim ix = ndim \<and> lx_metric ix = cosine"
    using assms by (auto simp: retrieve_def split: if_splits)
  then have "\<not> (case run_local of None \<Rightarrow> False
               | Some ix \<Rightarrow> lx_space ix \<noteq> s \<or> lx_ndim ix \<noteq> ndim \<or> lx_metric ix \<noteq> cosine)"
    by (cases run_local) auto
  then have "bindE (global_found env s v (k + length (dedup exclude)) global (dedup exclude) d) (\<lambda>(found, dropped).
            bindE (local_part env s v (k + length (dedup exclude)) run_id run_local (dedup exclude) d) (\<lambda>(near, gone).
            Inr \<lparr>rv_space = s, rv_k = k, rv_candidates = take k (sort_key nearness (found @ near)),
                 rv_dropped = dropped + gone, rv_converged = index_converged s d\<rparr>)) = Inr rv"
    using assms C by (simp add: retrieve_def Let_def local_part_def)
  with C L that show thesis by (auto simp: bindE_Inr_iff)
qed

lemma local_part_Inr:
  assumes ok: "reps_ok (reps d)" and run: "local_part env s v fetch run_id run_local left_out d = Inr (near, gone)"
  shows "distinct (map cd_rep near)" and "\<forall>c\<in>set near. cd_pool c = RUN_LOCAL \<and> live_candidate s run_id left_out d c"
proof -
  consider "run_local = None" "near = []" | ix where "run_local = Some ix"
      "local_found env s v fetch run_id ix left_out d = Inr (near, gone)"
    using run by (auto simp: local_part_def split: option.splits)
  then have "distinct (map cd_rep near) \<and> (\<forall>c\<in>set near. cd_pool c = RUN_LOCAL \<and> live_candidate s run_id left_out d c)"
  proof cases
    case 2
    from 2(2) show ?thesis
      by (rule local_found_Inr [OF ok]) (auto simp: live_candidate_def pending_in_def)
  qed simp
  then show "distinct (map cd_rep near)" "\<forall>c\<in>set near. cd_pool c = RUN_LOCAL \<and> live_candidate s run_id left_out d c"
    by blast+
qed

lemma global_part_live:
  assumes ok: "reps_ok (reps d)" and run: "global_found env s v fetch ix left_out d = Inr (found, dropped)"
  shows "\<forall>c\<in>set found. cd_pool c = GLOBAL \<and> live_candidate s run_id left_out d c"
  using run by (rule global_found_Inr [OF ok]) (auto simp: live_candidate_def)

lemma pools_apart:
  assumes ok: "reps_ok (reps d)" and g: "\<forall>c\<in>set found. cd_pool c = GLOBAL \<and> live_candidate s run_id x d c"
    and l: "\<forall>c\<in>set near. cd_pool c = RUN_LOCAL \<and> live_candidate s run_id x d c"
  shows "cd_rep ` set found \<inter> cd_rep ` set near = {}"
proof -
  have False if "a \<in> set found" "b \<in> set near" "cd_rep a = cd_rep b" for a b
  proof -
    from g that(1) obtain r where r: "r \<in> set (reps d)" "r_id r = cd_rep a" "eligible d r"
      by (auto simp: live_candidate_def)
    from l that(2) obtain r' where r': "r' \<in> set (reps d)" "r_id r' = cd_rep b" "pending_in run_id s r'"
      by (auto simp: live_candidate_def)
    have "r = r'" using ok r r' that(3) by (auto simp: reps_ok_def intro: tab_keyed_inj)
    with r(3) r'(3) show False by (simp add: eligible_def pending_in_def)
  qed
  then show ?thesis by blast
qed

text \<open>
  C12. Whatever the two indexes answer, stale or wrong, the shortlist of \<open>retrieve\<close> has at most \<open>k\<close>
  candidates, nearest first, each a different representation of the query's space that is not among the
  excluded ones and that the database still holds as live: an ACTIVE representation owned by nobody or
  by an ACTIVE identity, with that identity, or a PENDING one of this very run.
\<close>

theorem shortlist_is_live_and_bounded:
  assumes "reps_ok (reps d)" and "retrieve env s ndim v k global run_id run_local exclude d = Inr rv"
  shows "length (rv_candidates rv) \<le> k \<and> sorted (map nearness (rv_candidates rv)) \<and>
    distinct (map cd_rep (rv_candidates rv)) \<and>
    (\<forall>c\<in>set (rv_candidates rv). live_candidate s run_id exclude d c)"
proof -
  from assms(2) obtain found dropped near gone where
    g: "global_found env s v (k + length (dedup exclude)) global (dedup exclude) d = Inr (found, dropped)"
    and l: "local_part env s v (k + length (dedup exclude)) run_id run_local (dedup exclude) d = Inr (near, gone)"
    and rv: "rv_candidates rv = take k (sort_key nearness (found @ near))"
    by (rule retrieve_Inr) auto
  note G = global_part_live [OF assms(1) g, of run_id] and L = local_part_Inr [OF assms(1) l]
  have "distinct (map cd_rep found)" using g by (rule global_found_Inr [OF assms(1)])
  with L(1) pools_apart [OF assms(1) G L(2)] have D: "distinct (map cd_rep (found @ near))" by simp
  have "mset (map cd_rep (sort_key nearness (found @ near))) = mset (map cd_rep (found @ near))" by simp
  with D have "distinct (map cd_rep (sort_key nearness (found @ near)))"
    by (metis mset_eq_imp_distinct_iff)
  then have 3: "distinct (map cd_rep (rv_candidates rv))" by (simp add: rv take_map [symmetric])
  have 2: "sorted (map nearness (rv_candidates rv))"
    by (simp add: rv take_map [symmetric] sorted_wrt_take)
  have "set (rv_candidates rv) \<subseteq> set found \<union> set near"
    using set_take_subset [of k "sort_key nearness (found @ near)"] by (simp add: rv)
  then have 4: "\<forall>c\<in>set (rv_candidates rv). live_candidate s run_id exclude d c"
    using G L(2) by (fastforce simp: live_candidate_def)
  have 1: "length (rv_candidates rv) \<le> k" by (simp add: rv)
  from 1 2 3 4 show ?thesis by blast
qed

section \<open>Nobody nearer is overlooked\<close>

text \<open>
  What the code relies on of USearch's search, where it is exact: \<open>gap\<close> is the index's metric. A search
  returns entries of the index, each once and with its distance from the query, as many as were asked
  for while there are any, and no entry it leaves out is nearer than one it returns.
\<close>

definition nearest_search :: "index_env \<Rightarrow> (vec \<Rightarrow> vec \<Rightarrow> real) \<Rightarrow> bool" where
  "nearest_search env gap \<longleftrightarrow> (\<forall>es v n. distinct (map fst es) \<longrightarrow>
     distinct (map fst (us_search env es v n)) \<and> length (us_search env es v n) = min n (length es) \<and>
     (\<forall>h\<in>set (us_search env es v n). \<exists>u. (fst h, u) \<in> set es \<and> snd h = gap v u) \<and>
     (\<forall>e\<in>set es. fst e \<notin> fst ` set (us_search env es v n) \<longrightarrow>
        (\<forall>h\<in>set (us_search env es v n). snd h \<le> gap v (snd e))))"

definition rep_vector :: "nat \<Rightarrow> rep \<Rightarrow> vec" where
  "rep_vector ndim r = projr (decode_vector (the (r_vector r)) ndim)"

definition index_holds :: "uuid \<Rightarrow> db \<Rightarrow> vindex \<Rightarrow> bool" where
  "index_holds s d ix \<longleftrightarrow> index_ok ix \<and>
     (\<forall>r\<in>set (reps d). r_space r = s \<longrightarrow> eligible d r \<longrightarrow>
        (the (r_key r), rep_vector (vi_ndim ix) r) \<in> set (vi_entries ix))"

lemma search_left_out:
  assumes "nearest_search env gap" and "distinct (map fst es)" and "(key, u) \<in> set es"
    and "key \<notin> fst ` set (us_search env es v n)"
  shows "length (us_search env es v n) = n" and "\<forall>h\<in>set (us_search env es v n). snd h \<le> gap v u"
proof -
  let ?hs = "us_search env es v n"
  have A: "distinct (map fst ?hs)" "length ?hs = min n (length es)"
    "\<forall>h\<in>set ?hs. \<exists>u. (fst h, u) \<in> set es \<and> snd h = gap v u"
    and B: "\<forall>e\<in>set es. fst e \<notin> fst ` set ?hs \<longrightarrow> (\<forall>h\<in>set ?hs. snd h \<le> gap v (snd e))"
    using assms(1,2) by (simp_all add: nearest_search_def)
  from B [rule_format, OF assms(3)] assms(4) show "\<forall>h\<in>set ?hs. snd h \<le> gap v u" by simp
  have "fst ` set ?hs \<subseteq> fst ` set es - {key}" using A(3) assms(4) by force
  then have "card (fst ` set ?hs) \<le> card (fst ` set es - {key})" by (intro card_mono) simp_all
  also have "\<dots> < card (fst ` set es)" using assms(3) by (intro card_Diff1_less) force+
  also have "\<dots> = length es" using assms(2) by (metis distinct_card length_map set_map)
  finally have "length ?hs < length es" using A(1) by (metis distinct_card length_map set_map)
  then show "length ?hs = n" using A(2) by linarith
qed

lemma search_entry:
  assumes "nearest_search env gap" and "distinct (map fst es)"
    and "(key, u) \<in> set es" and "(key, x) \<in> set (us_search env es v n)"
  shows "x = gap v u"
proof -
  have "\<forall>h\<in>set (us_search env es v n). \<exists>u. (fst h, u) \<in> set es \<and> snd h = gap v u"
    using assms(1,2) by (simp add: nearest_search_def)
  from this [rule_format, OF assms(4)] obtain u' where "(key, u') \<in> set es" "x = gap v u'" by auto
  moreover from this(1) assms(2,3) have "u' = u" by (metis eq_key_imp_eq_value)
  ultimately show ?thesis by simp
qed

lemma dict_of_entry: "distinct (map fst kvs) \<Longrightarrow> (k, x) \<in> set kvs \<Longrightarrow> dict_of kvs k = Some x"
proof -
  assume "distinct (map fst kvs)" "(k, x) \<in> set kvs"
  then have "distinct (map fst (rev kvs))" "(k, x) \<in> set (rev kvs)" by (simp_all add: rev_map [symmetric])
  then show ?thesis by (simp add: dict_of_def del: set_rev)
qed

lemma enough_found:
  assumes "distinct ids" and "length ids = k + length left_out" and "distinct left_out"
    and "set ids - set left_out \<subseteq> set found"
  shows "k \<le> card (set found)"
proof -
  have "k \<le> card (set ids) - card (set left_out)"
    using assms(1-3) by (simp add: distinct_card)
  also have "\<dots> \<le> card (set ids - set left_out)" by (intro diff_card_le_card_Diff) simp
  also have "\<dots> \<le> card (set found)" by (intro card_mono assms(4)) simp
  finally show ?thesis .
qed

lemma take_of_sorted_below:
  fixes f :: "'a \<Rightarrow> 'b::linorder"
  assumes "sorted (map f xs)" and "k \<le> length (filter (\<lambda>x. f x \<le> b) xs)" and "x \<in> set (take k xs)"
  shows "f x \<le> b"
proof (rule ccontr)
  assume "\<not> f x \<le> b"
  from assms(3) obtain i where i: "i < k" "i < length xs" "x = xs ! i"
    by (auto simp: in_set_conv_nth)
  have "\<not> f y \<le> b" if y: "y \<in> set (drop i xs)" for y
  proof -
    from y obtain m where "m < length (drop i xs)" "y = drop i xs ! m" by (auto simp: in_set_conv_nth)
    then have "y = xs ! (i + m)" "i + m < length xs" by simp_all
    then have "f x \<le> f y" using sorted_nth_mono [OF assms(1), of i "i + m"] i(3) by simp
    with \<open>\<not> f x \<le> b\<close> show ?thesis by (meson order_trans)
  qed
  then have "filter (\<lambda>x. f x \<le> b) (drop i xs) = []" by (simp add: filter_empty_conv)
  then have "filter (\<lambda>x. f x \<le> b) xs = filter (\<lambda>x. f x \<le> b) (take i xs)"
    using filter_append [of "\<lambda>x. f x \<le> b" "take i xs" "drop i xs"] by simp
  then have "length (filter (\<lambda>x. f x \<le> b) xs) \<le> i"
    using length_filter_le [of "\<lambda>x. f x \<le> b" "take i xs"] by simp
  with assms(2) i(1) show False by simp
qed

text \<open>A pool's answer: either a live representation is in it, or \<open>k\<close> others are and none is farther.\<close>

definition pool_answers :: "nat \<Rightarrow> uuid set \<Rightarrow> (uuid \<Rightarrow> real) \<Rightarrow> candidate list \<Rightarrow> bool" where
  "pool_answers k live away found \<longleftrightarrow>
     (\<forall>c\<in>set found. cd_distance c = away (cd_rep c)) \<and>
     (\<forall>i\<in>live. i \<in> cd_rep ` set found \<or>
        k \<le> length found \<and> (\<forall>c\<in>set found. cd_distance c \<le> away i))"

lemma sorted_distances: "sorted (map cd_distance (sort_key nearness cs))"
proof -
  have "sorted (map nearness (sort_key nearness cs))" by simp
  then have "sorted_wrt (\<lambda>x y. nearness x \<le> nearness y) (sort_key nearness cs)" by (simp add: sorted_map)
  then have "sorted_wrt (\<lambda>x y. cd_distance x \<le> cd_distance y) (sort_key nearness cs)"
    by (rule sorted_wrt_mono_rel [rotated]) (auto simp: nearness_def less_eq_prod_def)
  then show ?thesis by (simp add: sorted_map)
qed

lemma two_pools_overlook_nobody:
  assumes "pool_answers k A away found" and "pool_answers k B away near"
    and "i \<in> A \<union> B" and "i \<notin> cd_rep ` set (take k (sort_key nearness (found @ near)))"
  shows "length (take k (sort_key nearness (found @ near))) = k \<and>
    (\<forall>c\<in>set (take k (sort_key nearness (found @ near))). cd_distance c \<le> away i)"
proof -
  let ?L = "sort_key nearness (found @ near)"
  let ?n = "length (filter (\<lambda>c. cd_distance c \<le> away i) ?L)"
  have "mset (filter (\<lambda>c. cd_distance c \<le> away i) ?L) = filter_mset (\<lambda>c. cd_distance c \<le> away i) (mset (found @ near))"
    by (simp only: mset_filter mset_sort)
  then have "?n = length (filter (\<lambda>c. cd_distance c \<le> away i) (found @ near))"
    by (metis mset_filter size_mset)
  then have n: "?n = length (filter (\<lambda>c. cd_distance c \<le> away i) found) + length (filter (\<lambda>c. cd_distance c \<le> away i) near)"
    by simp
  consider "i \<in> cd_rep ` set ?L" | "k \<le> ?n"
    using assms(1-3) n by (fastforce simp: pool_answers_def)
  then have "k \<le> ?n \<and> k \<le> length ?L"
  proof cases
    case 1
    then obtain c where c: "c \<in> set ?L" "cd_rep c = i" by blast
    with assms(4) have "c \<in> set (drop k ?L)"
      by (metis Un_iff append_take_drop_id image_eqI set_append)
    then obtain m where "m < length (drop k ?L)" "drop k ?L ! m = c" by (metis in_set_conv_nth)
    then have m: "k + m < length ?L" "c = ?L ! (k + m)" by simp_all
    have "cd_distance c = away i" using assms(1,2) c by (auto simp: pool_answers_def)
    then have "\<forall>j<k. cd_distance (?L ! j) \<le> away i"
      using sorted_nth_mono [OF sorted_distances, of _ "k + m" "found @ near"] m by simp
    then have "\<forall>x\<in>set (take k ?L). cd_distance x \<le> away i" by (auto simp: in_set_conv_nth)
    then have "filter (\<lambda>c. cd_distance c \<le> away i) (take k ?L) = take k ?L" by (simp add: filter_id_conv)
    then have "length (take k ?L) \<le> ?n"
      by (metis append_take_drop_id filter_append le_add1 length_append)
    with m(1) show ?thesis by (simp add: min_def)
  next
    case 2
    then show ?thesis using length_filter_le [of "\<lambda>c. cd_distance c \<le> away i" ?L] by linarith
  qed
  then have "\<forall>c\<in>set (take k ?L). cd_distance c \<le> away i"
    using take_of_sorted_below [OF sorted_distances] by blast
  moreover have "length (take k ?L) = k" using \<open>k \<le> ?n \<and> k \<le> length ?L\<close> by simp
  ultimately show ?thesis by blast
qed

text \<open>
  The common argument: the hits of a search, read as representations through \<open>ident\<close>, less the ones
  left out, are a pool's answer when every hit is live (or left out) and every live one is indexed.
\<close>

lemma pool_of_search:
  assumes near: "nearest_search env gap" and es: "distinct (map fst es)" and left: "distinct left_out"
    and hits: "us_search env es v (k + length left_out) = hits"
    and inj: "inj_on ident (fst ` set hits)"
    and live: "\<And>key. key \<in> fst ` set hits \<Longrightarrow> ident key \<notin> set left_out \<Longrightarrow> (key, vec_of (ident key)) \<in> set es"
    and entry: "\<And>i. i \<in> live \<Longrightarrow> i \<notin> set left_out \<and> (\<exists>key. ident key = i \<and> (key, vec_of i) \<in> set es)"
    and ids: "cd_rep ` set found = ident ` fst ` set hits - set left_out"
    and scores: "\<And>c. c \<in> set found \<Longrightarrow> \<exists>h\<in>set hits. ident (fst h) = cd_rep c \<and> cd_distance c = snd h"
  shows "pool_answers k live (\<lambda>i. gap v (vec_of i)) found"
proof -
  have dh: "distinct (map fst hits)" using near es by (auto simp: nearest_search_def hits [symmetric])
  have "cd_distance c = gap v (vec_of (cd_rep c))" if c: "c \<in> set found" for c
  proof -
    from scores [OF c] obtain h where h: "h \<in> set hits" "ident (fst h) = cd_rep c" "cd_distance c = snd h" by blast
    have "cd_rep c \<notin> set left_out" using ids c by blast
    with live [of "fst h"] h have "(fst h, vec_of (cd_rep c)) \<in> set es" by simp
    with search_entry [OF near es, of "fst h" _ "snd h" v "k + length left_out"] h(1,3) show ?thesis by (simp add: hits)
  qed
  moreover have "k \<le> length found \<and> (\<forall>c\<in>set found. cd_distance c \<le> gap v (vec_of i))"
    if i: "i \<in> live" and out: "i \<notin> cd_rep ` set found" for i
  proof -
    from entry [OF i] obtain key where key: "ident key = i" "(key, vec_of i) \<in> set es" "i \<notin> set left_out" by blast
    then have "key \<notin> fst ` set hits" using ids out by blast
    with search_left_out [OF near es key(2), of v "k + length left_out"]
    have len: "length hits = k + length left_out" and le: "\<forall>h\<in>set hits. snd h \<le> gap v (vec_of i)"
      by (simp_all add: hits)
    have "k \<le> card (set (map cd_rep found))"
    proof (rule enough_found [OF _ _ left])
      show "distinct (map ident (map fst hits))" using dh inj by (simp add: distinct_map del: map_map)
      show "length (map ident (map fst hits)) = k + length left_out" by (simp add: len)
      show "set (map ident (map fst hits)) - set left_out \<subseteq> set (map cd_rep found)" using ids by (simp add: image_image)
    qed
    then have "k \<le> length found" using card_length [of "map cd_rep found"] by simp
    moreover have "\<forall>c\<in>set found. cd_distance c \<le> gap v (vec_of i)" using scores le by metis
    ultimately show ?thesis by blast
  qed
  ultimately show ?thesis unfolding pool_answers_def by blast
qed

definition indexed_vector :: "nat \<Rightarrow> db \<Rightarrow> uuid \<Rightarrow> vec" where
  "indexed_vector ndim d i = rep_vector ndim (the (tab_get r_id (reps d) i))"

lemma indexed_vector_row: "reps_ok (reps d) \<Longrightarrow> r \<in> set (reps d) \<Longrightarrow> indexed_vector ndim d (r_id r) = rep_vector ndim r"
  by (simp add: indexed_vector_def reps_ok_def tab_get_in)

definition global_live :: "uuid \<Rightarrow> uuid list \<Rightarrow> db \<Rightarrow> uuid set" where
  "global_live s exclude d =
     r_id ` {r \<in> set (reps d). r_space r = s \<and> eligible d r \<and> r_id r \<notin> set exclude}"

definition local_live :: "uuid \<Rightarrow> uuid \<Rightarrow> uuid list \<Rightarrow> db \<Rightarrow> uuid set" where
  "local_live s run_id exclude d =
     r_id ` {r \<in> set (reps d). pending_in run_id s r \<and> r_id r \<notin> set exclude}"

lemma global_pool_answers:
  assumes ok: "reps_ok (reps d)" and near: "nearest_search env gap" and holds: "index_holds s d ix"
    and run: "global_found env s v (k + length left_out) ix left_out d = Inr (found, 0)"
    and left: "distinct left_out"
  shows "pool_answers k (global_live s left_out d) (\<lambda>i. gap v (indexed_vector (vi_ndim ix) d i)) found"
proof -
  let ?es = "vi_entries ix" and ?n = "k + length left_out" and ?id = "\<lambda>key. r_id (the (rep_at s key (reps d)))"
  let ?live = "\<lambda>k. case rep_at s k (reps d) of None \<Rightarrow> False | Some r \<Rightarrow> eligible d r"
  from run obtain hits where hits: "index_search env v ?n ix = Inr hits"
    and found: "set found = {\<lparr>cd_pool = GLOBAL, cd_rep = r_id r, cd_identity = r_identity r,
           cd_distance = the (dict_of hits k)\<rparr> | r k. r \<in> set (reps d) \<and> r_space r = s \<and> r_key r = Some k \<and>
           k \<in> fst ` set hits \<and> eligible d r \<and> r_id r \<notin> set left_out}"
    and none: "0 = int (length hits) - int (length (filter ?live (dedup (map fst hits))))"
    by (rule global_found_Inr [OF ok])
  have hits: "us_search env ?es v ?n = hits" using index_search_Inr [OF hits] by simp
  have es: "distinct (map fst ?es)" using holds by (simp add: index_holds_def index_ok_def)
  have D: "distinct (map fst hits)" using near es by (auto simp: nearest_search_def hits [symmetric])
  then have "length (filter ?live (map fst hits)) = length (map fst hits)" using none by (simp add: dedup_distinct)
  then have "?live key" if "key \<in> fst ` set hits" for key
    using that by (metis filter_True length_filter_less nless_le set_map)
  then have row: "\<exists>r. rep_at s key (reps d) = Some r \<and> eligible d r" if "key \<in> fst ` set hits" for key
    using that by (fastforce split: option.splits)
  have entry: "(key, indexed_vector (vi_ndim ix) d (r_id r)) \<in> set ?es"
    if "rep_at s key (reps d) = Some r" "eligible d r" for r key
    using holds that by (fastforce simp: index_holds_def rep_at_iff [OF ok] indexed_vector_row [OF ok])
  have at: "rep_at s key (reps d) = Some r \<longleftrightarrow> r \<in> set (reps d) \<and> r_space r = s \<and> r_key r = Some key" for key r
    by (rule rep_at_iff [OF ok])
  show ?thesis
  proof (rule pool_of_search [OF near es left hits, where ident = ?id])
    show "inj_on ?id (fst ` set hits)"
    proof (rule inj_onI)
      fix a b assume ab: "a \<in> fst ` set hits" "b \<in> fst ` set hits" "?id a = ?id b"
      from row [OF ab(1)] row [OF ab(2)] ab(3) show "a = b" using key_of_row [OF ok] by fastforce
    qed
  next
    fix key assume "key \<in> fst ` set hits"
    from row [OF this] entry show "(key, indexed_vector (vi_ndim ix) d (?id key)) \<in> set ?es" by fastforce
  next
    fix i assume "i \<in> global_live s left_out d"
    then obtain r where r: "r \<in> set (reps d)" "r_space r = s" "eligible d r" "r_id r \<notin> set left_out" "i = r_id r"
      unfolding global_live_def by blast
    then obtain key where "r_key r = Some key" using ok by (auto simp: reps_ok_def rep_row_ok_def eligible_def)
    then have "rep_at s key (reps d) = Some r" using r by (simp add: at)
    with entry [OF this r(3)] r(4,5)
    show "i \<notin> set left_out \<and> (\<exists>key. ?id key = i \<and> (key, indexed_vector (vi_ndim ix) d i) \<in> set ?es)"
      by (intro conjI exI [of _ key]) simp_all
  next
    have "cd_rep ` set found = {r_id r | r k. rep_at s k (reps d) = Some r \<and> k \<in> fst ` set hits \<and> eligible d r \<and> r_id r \<notin> set left_out}"
      unfolding found at by force
    also have "\<dots> = ?id ` fst ` set hits - set left_out" using row by (force simp: image_iff)
    finally show "cd_rep ` set found = ?id ` fst ` set hits - set left_out" .
  next
    fix c assume "c \<in> set found"
    then obtain r key where r: "rep_at s key (reps d) = Some r" "key \<in> fst ` set hits"
      and c: "c = \<lparr>cd_pool = GLOBAL, cd_rep = r_id r, cd_identity = r_identity r, cd_distance = the (dict_of hits key)\<rparr>"
      unfolding found at by blast
    from r(2) obtain x where x: "(key, x) \<in> set hits" by auto
    show "\<exists>h\<in>set hits. ?id (fst h) = cd_rep c \<and> cd_distance c = snd h"
      by (rule bexI [OF _ x]) (simp add: r c dict_of_entry [OF D x])
  qed
qed

text \<open>The rebuilt run-local index: row \<open>n\<close> of the run's pending representations has the label \<open>n\<close>.\<close>

lemma add_pending_Inr:
  assumes "add_pending ndim rs ix = Inr ix'" and "distinct (map r_id rs)"
    and "r_id ` set rs \<inter> set (lx_labels ix) = {}"
  shows "ix' = ix\<lparr>lx_labels := lx_labels ix @ map r_id rs,
      lx_entries := lx_entries ix @ map (\<lambda>(n, r). (int n, rep_vector ndim r))
        (zip [length (lx_labels ix)..<length (lx_labels ix) + length rs] rs)\<rparr>"
  using assms
proof (induction rs arbitrary: ix)
  case (Cons r rs)
  from Cons.prems(1) obtain b v ix1 where b: "r_vector r = Some b" "decode_vector b ndim = Inr v"
    and add: "local_add (r_id r) v ix = Inr (True, ix1)" and rest: "add_pending ndim rs ix1 = Inr ix'"
    using Cons.prems(3) by (auto simp: bindE_Inr_iff local_add_def split: option.splits if_splits)
  have v: "rep_vector ndim r = v" using b by (simp add: rep_vector_def)
  have ix1: "ix1 = ix\<lparr>lx_entries := lx_entries ix @ [(int (length (lx_labels ix)), v)], lx_labels := lx_labels ix @ [r_id r]\<rparr>"
    using add by (auto simp: local_add_def bindE_Inr_iff local_checked_def split: if_splits)
  have "r_id ` set rs \<inter> set (lx_labels ix1) = {}" using Cons.prems(2,3) by (auto simp: ix1)
  from Cons.IH [OF rest _ this] Cons.prems(2) show ?case
    by (simp add: ix1 v upt_conv_Cons del: upt_Suc)
qed simp

lemma rebuilt_index:
  assumes "tab_keyed r_id (reps d)" and "rebuild_run_local_index run_id s ndim metric d = Inr ix"
  defines "rows \<equiv> filter (pending_in run_id s) (reps d)"
  shows "ix = \<lparr>lx_space = s, lx_ndim = ndim, lx_metric = metric, lx_labels = map r_id rows,
      lx_entries = map (\<lambda>(n, r). (int n, rep_vector ndim r)) (zip [0..<length rows] rows)\<rparr>"
proof -
  have "distinct (map r_id rows)"
    using assms(1) by (simp add: rows_def tab_keyed_def distinct_map_filter)
  from add_pending_Inr [OF assms(2) [unfolded rebuild_run_local_index_def, folded rows_def] this]
  show ?thesis by (simp add: local_empty_def)
qed

lemma local_pool_answers:
  assumes ok: "reps_ok (reps d)" and near: "nearest_search env gap"
    and built: "rebuild_run_local_index run_id s ndim metric d = Inr ix"
    and run: "local_found env s v (k + length left_out) run_id ix left_out d = Inr (found, gone)"
    and left: "distinct left_out"
  shows "gone = 0 \<and> pool_answers k (local_live s run_id left_out d) (\<lambda>i. gap v (indexed_vector ndim d i)) found"
proof -
  define rows where "rows = filter (pending_in run_id s) (reps d)"
  let ?n = "k + length left_out" and ?es = "lx_entries ix" and ?id = "\<lambda>key. lx_labels ix ! nat key"
  have keyed: "tab_keyed r_id (reps d)" using ok by (simp add: reps_ok_def)
  note ix = rebuilt_index [OF keyed built, folded rows_def]
  have des: "distinct (map fst ?es)" 
  proof -
    have "map fst ?es = map int (map fst (zip [0..<length rows] rows))" by (simp add: ix comp_def split_beta del: map_fst_zip)
    then show ?thesis by (simp add: distinct_map)
  qed
  have entry: "(int m, indexed_vector ndim d (r_id (rows ! m))) \<in> set ?es" if "m < length rows" for m
  proof -
    have "rows ! m \<in> set (reps d)" using that by (metis filter_is_subset nth_mem rows_def subsetD)
    moreover have "(m, rows ! m) \<in> set (zip [0..<length rows] rows)" using that by (force simp: set_zip)
    ultimately show ?thesis by (force simp: ix indexed_vector_row [OF ok])
  qed
  have drows: "distinct (map r_id rows)" using keyed by (simp add: rows_def tab_keyed_def distinct_map_filter)
  from run obtain answer where answer: "local_search env v ?n ix = Inr answer"
    and found: "set found = {\<lparr>cd_pool = RUN_LOCAL, cd_rep = r_id r, cd_identity = r_identity r,
           cd_distance = the (dict_of answer (r_id r))\<rparr> | r. r \<in> set (reps d) \<and> r_id r \<in> fst ` set answer \<and>
           pending_in run_id s r \<and> r_id r \<notin> set left_out}"
    and gone: "gone = int (length answer) - int (length (still_pending run_id s (dedup (map fst answer)) d))"
    by (rule local_found_Inr [OF ok])
  define hits where "hits = us_search env ?es v ?n"
  have A: "answer = map (\<lambda>h. (?id (fst h), snd h)) hits" using local_search_Inr [OF answer] by (simp add: hits_def)
  have dh: "distinct (map fst hits)" and "\<forall>h\<in>set hits. \<exists>u. (fst h, u) \<in> set ?es \<and> snd h = gap v u"
    using near des by (simp_all add: nearest_search_def hits_def)
  then have num: "\<exists>m<length rows. key = int m \<and> ?id key = r_id (rows ! m)" if "key \<in> fst ` set hits" for key
    using that by (fastforce simp: ix set_zip)
  have inj: "inj_on ?id (fst ` set hits)"
    using num drows by (intro inj_onI) (metis distinct_conv_nth length_map nth_map)
  have dans: "distinct (map fst answer)"
    using dh inj by (simp add: A comp_def distinct_map) (metis (mono_tags, lifting) inj_on_def image_eqI)
  have in_rows: "\<exists>r\<in>set rows. r_id r = i" if "i \<in> fst ` set answer" for i
  proof -
    from that have "i \<in> ?id ` fst ` set hits" by (force simp: A)
    then obtain key where "key \<in> fst ` set hits" "i = ?id key" by blast
    with num show ?thesis by (metis nth_mem)
  qed
  have live: "pending_in run_id s r" if "r \<in> set (reps d)" "r_id r \<in> fst ` set answer" for r
    using in_rows [OF that(2)] that(1) keyed by (auto simp: rows_def dest: tab_keyed_inj)
  have "set (map fst (still_pending run_id s (dedup (map fst answer)) d)) = set (map fst answer)"
    using in_rows by (force simp: set_still_pending image_iff rows_def)
  then have "length (still_pending run_id s (dedup (map fst answer)) d) = length answer"
    using distinct_still_pending [OF keyed, of "dedup (map fst answer)" run_id s] dans
    by (metis distinct_card distinct_dedup length_map)
  then have none: "gone = 0" by (simp add: gone)
  have "pool_answers k (local_live s run_id left_out d) (\<lambda>i. gap v (indexed_vector ndim d i)) found"
  proof (rule pool_of_search [OF near des left hits_def [symmetric], where ident = ?id])
    show "inj_on ?id (fst ` set hits)" by (rule inj)
  next
    fix key assume "key \<in> fst ` set hits"
    from num [OF this] entry show "(key, indexed_vector ndim d (?id key)) \<in> set ?es" by fastforce
  next
    fix i assume "i \<in> local_live s run_id left_out d"
    then obtain r where r: "r \<in> set rows" "r_id r \<notin> set left_out" "i = r_id r"
      unfolding local_live_def rows_def by auto
    then obtain m where m: "m < length rows" "rows ! m = r" by (metis in_set_conv_nth)
    with entry [OF m(1)] r show "i \<notin> set left_out \<and> (\<exists>key. ?id key = i \<and> (key, indexed_vector ndim d i) \<in> set ?es)"
      by (intro conjI exI [of _ "int m"]) (simp_all add: ix)
  next
    have "cd_rep ` set found = fst ` set answer - set left_out"
      unfolding found using in_rows live by (force simp: rows_def)
    then show "cd_rep ` set found = ?id ` fst ` set hits - set left_out" by (simp add: A image_image)
  next
    fix c assume "c \<in> set found"
    then obtain r :: rep where r: "r_id r \<in> fst ` set answer"
      and c: "c = \<lparr>cd_pool = RUN_LOCAL, cd_rep = r_id r, cd_identity = r_identity r, cd_distance = the (dict_of answer (r_id r))\<rparr>"
      unfolding found by blast
    from r obtain x where x: "(r_id r, x) \<in> set answer" by auto
    then obtain h where "h \<in> set hits" "?id (fst h) = r_id r" "snd h = x" by (auto simp: A)
    then show "\<exists>h\<in>set hits. ?id (fst h) = cd_rep c \<and> cd_distance c = snd h"
      using c dict_of_entry [OF dans x] by (intro bexI [of _ h]) simp_all
  qed
  with none show ?thesis by blast
qed


text \<open>A library whose search reads every entry: the distance of two vectors is that of their first words.\<close>

definition scan_gap :: "vec \<Rightarrow> vec \<Rightarrow> real" where
  "scan_gap v u = \<bar>real_of_int (uint (hd (v @ [0]))) - real_of_int (uint (hd (u @ [0])))\<bar>"

definition scan_env :: index_env where
  "scan_env = unary_env\<lparr>us_search := (\<lambda>es v n. take n (sort_key snd (map (\<lambda>e. (fst e, scan_gap v (snd e))) es)))\<rparr>"

lemma scan_env_nearest: "nearest_search scan_env scan_gap"
  unfolding nearest_search_def
proof (intro allI impI)
  fix es :: vec_entries and v n assume es: "distinct (map fst es)"
  let ?all = "sort_key snd (map (\<lambda>e. (fst e, scan_gap v (snd e))) es)"
  have hits: "us_search scan_env es v n = take n ?all" by (simp add: scan_env_def)
  have "mset (map fst ?all) = mset (map fst es)" by (simp add: multiset.map_comp comp_def)
  from mset_eq_imp_distinct_iff [OF this] have "distinct (map fst ?all)" using es by (rule iffD2)
  then have 1: "distinct (map fst (take n ?all))" by (simp add: take_map [symmetric])
  have 2: "length (take n ?all) = min n (length es)" by simp
  have 3: "\<forall>h\<in>set (take n ?all). \<exists>u. (fst h, u) \<in> set es \<and> snd h = scan_gap v u"
  proof
    fix h assume "h \<in> set (take n ?all)"
    then have "h \<in> set ?all" by (rule in_set_takeD)
    then show "\<exists>u. (fst h, u) \<in> set es \<and> snd h = scan_gap v u" by auto
  qed
  have 4: "snd h \<le> scan_gap v (snd e)"
    if e: "e \<in> set es" "fst e \<notin> fst ` set (take n ?all)" and h: "h \<in> set (take n ?all)" for e h
  proof -
    let ?x = "(fst e, scan_gap v (snd e))"
    have "?x \<in> set ?all" using e(1) unfolding set_sort set_map by (rule imageI)
    moreover have "?x \<notin> set (take n ?all)"
    proof
      assume "?x \<in> set (take n ?all)"
      from imageI [OF this, of fst] e(2) show False by simp
    qed
    ultimately have x: "?x \<in> set (drop n ?all)"
      using set_append [of "take n ?all" "drop n ?all"] unfolding append_take_drop_id by blast
    have "sorted (map snd (take n ?all @ drop n ?all))"
      unfolding append_take_drop_id by (rule sorted_sort_key)
    then have "snd h \<le> snd ?x" using h x unfolding map_append sorted_append set_map by blast
    then show ?thesis by simp
  qed
  show "distinct (map fst (us_search scan_env es v n)) \<and> length (us_search scan_env es v n) = min n (length es) \<and>
     (\<forall>h\<in>set (us_search scan_env es v n). \<exists>u. (fst h, u) \<in> set es \<and> snd h = scan_gap v u) \<and>
     (\<forall>e\<in>set es. fst e \<notin> fst ` set (us_search scan_env es v n) \<longrightarrow>
        (\<forall>h\<in>set (us_search scan_env es v n). snd h \<le> scan_gap v (snd e)))"
    unfolding hits using 1 2 3 4 by blast
qed

definition sample_global :: vindex where
  "sample_global = \<lparr>vi_space = 5, vi_ndim = 1, vi_metric = cosine, vi_entries = [(1, [0])], vi_manifest = None\<rparr>"

definition sample_local :: local_index where
  "sample_local = \<lparr>lx_space = 5, lx_ndim = 1, lx_metric = cosine, lx_labels = [22], lx_entries = [(0, [0])]\<rparr>"

definition sample_retrieved :: "nat \<Rightarrow> uuid list \<Rightarrow> retrieval_error + retrieval" where
  "sample_retrieved k exclude = retrieve scan_env 5 1 [3] k sample_global 3 (Some sample_local) exclude sample_db"

lemma sample_retrieved_one: "sample_retrieved 1 [] =
    Inr \<lparr>rv_space = 5, rv_k = 1, rv_candidates = [\<lparr>cd_pool = GLOBAL, cd_rep = 21, cd_identity = Some 1, cd_distance = 3\<rparr>],
      rv_dropped = 0, rv_converged = True\<rparr>"
  by code_simp

lemma sample_local_rebuilt: "rebuild_run_local_index 3 5 1 cosine sample_db = Inr sample_local"
  by code_simp

lemma sample_reps_ok: "reps_ok (reps sample_db)"
  by code_simp

lemma shortlist_is_live_and_bounded_witness:
  "\<exists>rv. sample_retrieved 1 [] = Inr rv \<and> rv_candidates rv \<noteq> [] \<and> length (rv_candidates rv) \<le> 1 \<and>
     (\<forall>c\<in>set (rv_candidates rv). live_candidate 5 3 [] sample_db c)"
  using shortlist_is_live_and_bounded [OF sample_reps_ok sample_retrieved_one [unfolded sample_retrieved_def]]
  by (simp add: sample_retrieved_one del: One_nat_def)


end
