(* ===== verification/Execute.thy ===== *)
theory Execute
  imports PendingOutput Retrieval Media
begin

text \<open>
  Executing one claimed image job (\<open>backend/app/processing/execute_job.py\<close>): decoding, perception, the
  private output and the FINAL checkpoint, with everything expensive outside the write transactions. The
  execution is a sequence of short transactions; \<open>xe_others n\<close> is whatever other transactions committed
  before the \<open>n\<close>-th of them, so every interleaving with other writers is covered. What the use case is
  constructed with (the planner, the client, the index, Pillow, the files) is the environment. The
  theorems say that an execution writes nothing but private output and its own attempt, whatever happens
  in between, and what an execution that answers has left.
\<close>

section \<open>The environment and its errors\<close>

datatype execution_error =
    Executing run_error
  | Pending pending_error
  | Frozen frozen_error
  | Client client_error
  | Picture image_error
  | Recognising retrieval_error
  | Creating identity_error
  | BytesMissing
  | OsError string        \<comment> \<open>another \<open>OSError\<close>, by its class\<close>
  | Cancelled             \<comment> \<open>\<open>ProcessingCancelledError\<close>\<close>
  | Unsettled string      \<comment> \<open>any other exception\<close>

text \<open>\<open>SETTLED_FAILURES\<close>, with \<open>type(error).__name__\<close>\<close>

fun settled_failure :: "execution_error \<Rightarrow> string option" where
  "settled_failure (Executing (ExecutionError _)) = Some ''ProcessingExecutionError''"
| "settled_failure (Pending (PendingRefused _)) = Some ''PendingOutputError''"
| "settled_failure (Frozen (Malformed _)) = Some ''ProcessingExecutionError''"
| "settled_failure (Client (PerceptionError _ _)) = Some ''PerceptionError''"
| "settled_failure (Client (RuntimeUnavailable _ _)) = Some ''RuntimeUnavailableError''"
| "settled_failure (Client WorkerFailed) = Some ''WorkerFailedError''"
| "settled_failure (Picture UnsupportedImage) = Some ''UnsupportedImageError''"
| "settled_failure (Picture CorruptImage) = Some ''CorruptImageError''"
| "settled_failure (Picture ImageTooLarge) = Some ''ImageTooLargeError''"
| "settled_failure BytesMissing = Some ''BytesMissingError''"
| "settled_failure (OsError name) = Some name"
| "settled_failure _ = None"

record execution_env =
  xe_others :: "nat \<Rightarrow> db \<Rightarrow> db"
  xe_catalog :: "nat \<Rightarrow> catalog"      \<comment> \<open>as the \<open>n\<close>-th transaction finds it; an execution never writes it\<close>
  xe_ids :: "nat \<Rightarrow> id_supply"         \<comment> \<open>the ids and the clock of the \<open>n\<close>-th transaction\<close>
  xe_clock :: "nat \<Rightarrow> nat \<Rightarrow> time"
  xe_spelt :: "string \<Rightarrow> uuid option"
  xe_planner :: "catalog \<Rightarrow> db \<Rightarrow> frozen_configuration \<Rightarrow> execution_error + perception_plan"
  xe_managed :: "string \<Rightarrow> execution_error + byte list"   \<comment> \<open>\<open>ManagedFileStore.open\<close> and \<open>read\<close>\<close>
  xe_path :: "string \<Rightarrow> execution_error + byte list"      \<comment> \<open>\<open>Path.read_bytes\<close>\<close>
  xe_pillow :: pillow
  xe_max_pixels :: nat
  xe_detect :: "perception_plan \<Rightarrow> decoded_image \<Rightarrow> execution_error + detected"
  xe_represent :: "perception_plan \<Rightarrow> decoded_image \<Rightarrow> detection list \<Rightarrow> execution_error + represented"
  xe_norm :: "vec \<Rightarrow> real"
  xe_index :: index_env
  xe_global :: "uuid \<Rightarrow> execution_error + vindex"
  xe_k :: nat

section \<open>Transactions of an execution\<close>

text \<open>
  The state between two transactions: how many there have been, the database, the claim (its segment
  changes when a provider is replaced), and a log of what each committed write found and left.
\<close>

record exec_state =
  es_no :: nat
  es_db :: db
  es_claim :: started
  es_log :: "(db \<times> db) list"

type_synonym 'a exec = "exec_state \<Rightarrow> (execution_error + 'a) \<times> exec_state"

definition bindX :: "'a exec \<Rightarrow> ('a \<Rightarrow> 'b exec) \<Rightarrow> 'b exec" where
  "bindX m f x = (case m x of (Inl e, x') \<Rightarrow> (Inl e, x') | (Inr a, x') \<Rightarrow> f a x')"

definition answer :: "execution_error + 'a \<Rightarrow> 'a exec" where
  "answer r x = (r, x)"

definition reading :: "execution_env \<Rightarrow> (nat \<Rightarrow> started \<Rightarrow> db \<Rightarrow> execution_error + 'a) \<Rightarrow> 'a exec" where
  "reading env f x =
     (let d = xe_others env (es_no x) (es_db x)
      in (f (es_no x) (es_claim x) d, x\<lparr>es_no := Suc (es_no x), es_db := d\<rparr>))"

definition writing :: "execution_env \<Rightarrow> (nat \<Rightarrow> started \<Rightarrow> db \<Rightarrow> execution_error + 'a \<times> db) \<Rightarrow> 'a exec" where
  "writing env f x =
     (let d = xe_others env (es_no x) (es_db x)
      in case f (es_no x) (es_claim x) d of
           Inl e \<Rightarrow> (Inl e, x\<lparr>es_no := Suc (es_no x), es_db := d\<rparr>)
         | Inr (a, d') \<Rightarrow> (Inr a, x\<lparr>es_no := Suc (es_no x), es_db := d', es_log := es_log x @ [(d, d')]\<rparr>))"

abbreviation executing :: "run_error + 'a \<Rightarrow> execution_error + 'a" where
  "executing \<equiv> map_sum Executing id"

abbreviation writing_pending :: "pending_error + 'a \<Rightarrow> execution_error + 'a" where
  "writing_pending \<equiv> map_sum Pending id"

abbreviation fault :: "string \<Rightarrow> execution_error + 'a" where
  "fault m \<equiv> Inl (Executing (ExecutionError m))"

definition cancel_if_requested :: "execution_env \<Rightarrow> unit exec" where
  "cancel_if_requested env =
     bindX (reading env (\<lambda>_ st d. Inr (cancellation_requested st d))) (\<lambda>requested.
       if requested
       then bindX (writing env (\<lambda>n st d. map_sum Executing (Pair ()) (executor_cancel st (xe_clock env n 0) d)))
              (\<lambda>_. answer (Inl Cancelled))
       else answer (Inr ()))"

section \<open>Input\<close>

record execution_input =
  xi_source :: uuid
  xi_run :: uuid
  xi_snapshot :: json
  xi_mode :: storage_mode
  xi_key :: "string option"
  xi_path :: "string option"

text \<open>\<open>_input\<close>, the columns that are read once its checks have passed.\<close>

definition input_of :: "started \<Rightarrow> db \<Rightarrow> run_error + execution_input" where
  "input_of st d =
     bindE (executor_input st [P_RUNNING] d) (\<lambda>p.
       let n = the (snapshot_get (snapshots d) (p_snapshot p)); c = the (tab_get c_id (sources d) (p_source p));
           f = the (tab_get f_id (artifacts d) (c_original c))
       in Inr \<lparr>xi_source = p_source p, xi_run = p_id p, xi_snapshot = n_json n, xi_mode = f_mode f,
               xi_key = f_key f, xi_path = f_path f\<rparr>)"

definition read_original :: "execution_env \<Rightarrow> execution_input \<Rightarrow> execution_error + byte list" where
  "read_original env i =
     (case xi_mode i of
        MANAGED \<Rightarrow> (case xi_key i of None \<Rightarrow> fault ''a managed original has no storage key'' | Some k \<Rightarrow> xe_managed env k)
      | REFERENCED \<Rightarrow> (case xi_path i of None \<Rightarrow> fault ''a referenced original has no path'' | Some p \<Rightarrow> xe_path env p))"

section \<open>Provider fallbacks\<close>

definition attempt_json :: "provider_unavailable \<Rightarrow> json" where
  "attempt_json u = JObj [(''variant_id'', JUuid (pv_variant (un_variant u))), (''provider'', JStr (pv_provider (un_variant u))),
     (''error_code'', JStr (code_value (un_code u))), (''error_message'', JStr (un_message u))]"

definition fallback_details :: "provider_fallback \<Rightarrow> json" where
  "fallback_details f = JObj [(''schema_version'', JInt 1), (''transition'', JStr ''PROVIDER_FALLBACK''),
     (''failed_attempts'', JList (map attempt_json (fb_failed f))),
     (''selected_variant_id'', JUuid (pv_variant (fb_selected f))), (''selected_provider'', JStr (pv_provider (fb_selected f)))]"

fun advance_segments ::
  "id_supply \<Rightarrow> (nat \<Rightarrow> time) \<Rightarrow> uuid \<Rightarrow> nat \<Rightarrow> provider_fallback list \<Rightarrow> uuid \<Rightarrow> segment list \<Rightarrow> run_error + uuid \<times> segment list"
where
  "advance_segments ids clk run_id n [] current t = Inr (current, t)"
| "advance_segments ids clk run_id n (f # fs) current t =
     bindE (lift_repo (segment_close current G_COMPLETED (Some END_FALLBACK) (clk (2 * n)) t)) (\<lambda>(closed, t1).
       if \<not> closed then Inl (ExecutionError ''the execution segment could not close for fallback'')
       else bindE (lift_repo (segment_append run_id (ids n) (Some (pv_variant (fb_selected f))) (fallback_details f)
                     (clk (2 * n + 1)) t1)) (\<lambda>(g, t2). advance_segments ids clk run_id (Suc n) fs (g_id g) t2))"

definition record_provider_fallbacks ::
  "id_supply \<Rightarrow> (nat \<Rightarrow> time) \<Rightarrow> started \<Rightarrow> provider_fallback list \<Rightarrow> db \<Rightarrow> run_error + uuid \<times> db" where
  "record_provider_fallbacks ids clk st fs d =
     bindE (settlement_context st True d) (\<lambda>(p, g, _).
     bindE (advance_segments ids clk (p_id p) 0 fs (g_id g) (segments d)) (\<lambda>(current, t).
       Inr (current, d\<lparr>segments := t\<rparr>)))"

definition advance_after_fallbacks :: "execution_env \<Rightarrow> provider_fallback list \<Rightarrow> unit exec" where
  "advance_after_fallbacks env fs =
     (if fs = [] then answer (Inr ())
      else bindX (writing env (\<lambda>n st d. executing (record_provider_fallbacks (xe_ids env n) (xe_clock env n) st fs d)))
             (\<lambda>segment_id x. (Inr (), x\<lparr>es_claim := (es_claim x)\<lparr>st_segment := segment_id\<rparr>\<rparr>)))"

section \<open>Settling the private output\<close>

text \<open>The items are numbered from \<open>n\<close>: the sequence in the run, and the calls of the clock and of the ids.\<close>

fun write_observations ::
  "catalog \<Rightarrow> id_supply \<Rightarrow> (nat \<Rightarrow> time) \<Rightarrow> execution_input \<Rightarrow> uuid \<Rightarrow> planned_variant \<Rightarrow> nat \<Rightarrow> detection list \<Rightarrow> db
   \<Rightarrow> pending_error + uuid list \<times> db" where
  "write_observations c ids clk i segment_id v n [] d = Inr ([], d)"
| "write_observations c ids clk i segment_id v n (x # xs) d =
     bindE (write_observation c (xi_source i) (xi_run i) segment_id (int n) x v (ids n) (clk n) d) (\<lambda>(ob, d1).
     bindE (write_observations c ids clk i segment_id v (Suc n) xs d1) (\<lambda>(obs, d2). Inr (ob # obs, d2)))"

definition settle_detections ::
  "catalog \<Rightarrow> id_supply \<Rightarrow> (nat \<Rightarrow> time) \<Rightarrow> execution_input \<Rightarrow> started \<Rightarrow> detected \<Rightarrow> db \<Rightarrow> execution_error + uuid list \<times> db" where
  "settle_detections c ids clk i st found d =
     bindE (executing (settlement_context st False d)) (\<lambda>_.
       writing_pending (write_observations c ids clk i (st_segment st) (dt_ran found) 0 (dt_detections found) d))"

text \<open>The three lists are zipped strictly.\<close>

fun write_representations ::
  "catalog \<Rightarrow> (vec \<Rightarrow> real) \<Rightarrow> id_supply \<Rightarrow> (nat \<Rightarrow> time) \<Rightarrow> uuid \<Rightarrow> planned_variant \<Rightarrow> uuid \<Rightarrow> nat
   \<Rightarrow> detection list \<Rightarrow> uuid list \<Rightarrow> face_vector list \<Rightarrow> db \<Rightarrow> execution_error + uuid list \<times> db" where
  "write_representations c norm2 ids clk segment_id v space_id n [] [] [] d = Inr ([], d)"
| "write_representations c norm2 ids clk segment_id v space_id n (x # xs) (ob # obs) (f # fs) d =
     bindE (writing_pending (write_representation c norm2 ob segment_id (dn_index x) f v space_id (ids n) (clk n) d)) (\<lambda>(r, d1).
     bindE (write_representations c norm2 ids clk segment_id v space_id (Suc n) xs obs fs d1) (\<lambda>(rs, d2). Inr (r # rs, d2)))"
| "write_representations c norm2 ids clk segment_id v space_id n _ _ _ d = Inl (Unsettled ''ValueError'')"

definition settle_representations ::
  "catalog \<Rightarrow> (vec \<Rightarrow> real) \<Rightarrow> id_supply \<Rightarrow> (nat \<Rightarrow> time) \<Rightarrow> started \<Rightarrow> frozen_configuration \<Rightarrow> detected \<Rightarrow> uuid list
   \<Rightarrow> represented \<Rightarrow> db \<Rightarrow> execution_error + uuid list \<times> db" where
  "settle_representations c norm2 ids clk st fz found obs_ids rd d =
     (if dt_detections found = [] then
        (if rd_vectors rd \<noteq> [] \<or> rd_ran rd \<noteq> None then fault ''a no-face result was unexpectedly represented''
         else bindE (executing (settlement_context st False d)) (\<lambda>_. Inr ([], d)))
      else case rd_ran rd of
        None \<Rightarrow> fault ''the embedder did not settle every detected face''
      | Some v \<Rightarrow>
          if length (rd_vectors rd) \<noteq> length obs_ids then fault ''the embedder did not settle every detected face''
          else bindE (executing (settlement_context st False d)) (\<lambda>_.
            write_representations c norm2 ids clk (st_segment st) v (fz_space fz) 0 (dt_detections found) obs_ids (rd_vectors rd) d))"

definition private_payload :: "uuid list \<Rightarrow> uuid list \<Rightarrow> json" where
  "private_payload obs_ids rep_ids = JObj [(''schema_version'', JInt 1), (''observations'', JList (map JUuid obs_ids)),
     (''representations'', JList (map JUuid rep_ids))]"

definition checkpoint_private_output ::
  "started \<Rightarrow> uuid list \<Rightarrow> uuid list \<Rightarrow> uuid \<Rightarrow> (nat \<Rightarrow> time) \<Rightarrow> db \<Rightarrow> run_error + uuid \<times> db" where
  "checkpoint_private_output st obs_ids rep_ids new_id clk d =
     bindE (settlement_context st False d) (\<lambda>(p, g, _).
     bindE (lift_repo (checkpoint_append (p_id p) new_id (Some (g_id g)) K_INTERMEDIATE 1
              (private_payload obs_ids rep_ids) (clk 0) (checkpoints d))) (\<lambda>(k, t).
       case run_update (p_id p) (p_rev p) (\<lambda>r. r\<lparr>p_checkpoint := Some (k_id k), p_updated := clk 1\<rparr>)
              (\<lambda>r. p_state r = P_RUNNING) (runs d) of
         (updated, runs') \<Rightarrow>
           if updated \<noteq> 1 then Inl (ExecutionError ''the processing run changed while checkpointing'')
           else Inr (k_id k, d\<lparr>checkpoints := t, runs := runs'\<rparr>)))"

section \<open>Deciding\<close>

record exec_decision =
  xd_obs :: uuid
  xd_rep :: uuid
  xd_decision :: decision
  xd_identity :: "uuid option"

text \<open>The rows of the settled representations with their observations, in the order of the run's sequence.\<close>

definition decision_rows :: "uuid list \<Rightarrow> db \<Rightarrow> (rep \<times> observation) list" where
  "decision_rows rep_ids d = sort_key (\<lambda>(r, ob). o_sequence ob)
     (concat (map (\<lambda>r. case observation_get (observations d) (r_obs r) of None \<Rightarrow> [] | Some ob \<Rightarrow> [(r, ob)])
        (filter (\<lambda>r. r_id r \<in> set rep_ids) (reps d))))"

text \<open>\<open>numpy.frombuffer\<close> refuses an empty buffer and one that is not of whole numbers.\<close>

definition stored_vector :: "rep \<Rightarrow> execution_error + vec" where
  "stored_vector r =
     (case r_vector r of
        None \<Rightarrow> Inl (Unsettled ''AssertionError'')
      | Some b \<Rightarrow> if b = [] \<or> length b mod 4 \<noteq> 0 then Inl (Unsettled ''ValueError'') else Inr (floats32 b))"

definition detection_score :: "observation \<Rightarrow> execution_error + real" where
  "detection_score ob =
     (case Json_Values.number_of (Json_Values.json_field ''detection_score'' (o_quality ob)) of
        None \<Rightarrow> Inl (Unsettled ''TypeError'') | Some q \<Rightarrow> Inr q)"

definition decide_one ::
  "execution_env \<Rightarrow> frozen_configuration \<Rightarrow> space \<Rightarrow> vindex \<Rightarrow> local_index \<Rightarrow> uuid \<Rightarrow> uuid list \<Rightarrow> db \<Rightarrow> rep \<times> observation
   \<Rightarrow> execution_error + exec_decision" where
  "decide_one env fz sp global near run_id rep_ids d row =
     (case row of (r, ob) \<Rightarrow>
        bindE (stored_vector r) (\<lambda>v.
        bindE (detection_score ob) (\<lambda>q.
        bindE (map_sum Recognising id
                 (recognise (xe_k env) (xe_index env) (s_id sp) (s_dim sp) v q global run_id (Some near) rep_ids d)) (\<lambda>a.
          Inr \<lparr>xd_obs = o_id ob, xd_rep = r_id r, xd_decision = decide (fz_policy fz) a, xd_identity = None\<rparr>))))"

definition decide_all ::
  "execution_env \<Rightarrow> frozen_configuration \<Rightarrow> vindex \<Rightarrow> uuid \<Rightarrow> uuid list \<Rightarrow> db \<Rightarrow> execution_error + exec_decision list" where
  "decide_all env fz global run_id rep_ids d =
     (case tab_get s_id (spaces d) (fz_space fz) of
        None \<Rightarrow> fault ''the frozen representation space is no longer valid''
      | Some sp \<Rightarrow>
          if int (s_dim sp) \<noteq> fz_dimension fz then fault ''the frozen representation space is no longer valid''
          else bindE (map_sum (\<lambda>e. Recognising (IndexFault e)) id (rebuild_run_local_index run_id (s_id sp) (s_dim sp) cosine d))
            (\<lambda>near. if length (decision_rows rep_ids d) \<noteq> length rep_ids
                    then fault ''a settled representation disappeared before recognition''
                    else map_all (decide_one env fz sp global near run_id rep_ids d) (decision_rows rep_ids d)))"

definition decide_private :: "execution_env \<Rightarrow> execution_input \<Rightarrow> frozen_configuration \<Rightarrow> uuid list \<Rightarrow> exec_decision list exec" where
  "decide_private env i fz rep_ids =
     (if rep_ids = [] then answer (Inr [])
      else bindX (answer (xe_global env (fz_space fz))) (\<lambda>global.
        reading env (\<lambda>_ _ d. decide_all env fz global (xi_run i) rep_ids d)))"

text \<open>
  \<open>_persist_decisions\<close>: a new identity is created PENDING, a match is checked again, and the private
  representation names either. The created identity takes the transaction's next id and two readings
  of the clock.
\<close>

definition name_identity_of :: "uuid \<Rightarrow> uuid \<Rightarrow> db \<Rightarrow> db" where
  "name_identity_of rep_id ident d =
     d\<lparr>reps := tab_update (\<lambda>r. r_id r = rep_id) (\<lambda>r. r\<lparr>r_identity := Some ident\<rparr>) (reps d)\<rparr>"

definition persist_decision ::
  "id_supply \<Rightarrow> (nat \<Rightarrow> time) \<Rightarrow> uuid \<Rightarrow> nat \<Rightarrow> exec_decision \<Rightarrow> db \<Rightarrow> execution_error + (exec_decision \<times> nat) \<times> db" where
  "persist_decision ids clk run_id n x d =
     (case rep_get (reps d) (xd_rep x) of
        None \<Rightarrow> fault ''a decision representation is no longer this run's''
      | Some r \<Rightarrow>
          if r_run r \<noteq> run_id then fault ''a decision representation is no longer this run's''
          else if r_state r \<noteq> R_PENDING then fault ''a decision representation is no longer private''
          else (case d_outcome (xd_decision x) of
              CREATE_NEW \<Rightarrow>
                bindE (map_sum Creating id
                         (create_pending_identity run_id (Some (xd_obs x)) (ids n) (clk (2 * n)) (clk (2 * n + 1)) d))
                  (\<lambda>(ident, d1). Inr ((x\<lparr>xd_identity := Some (i_id ident)\<rparr>, Suc n), name_identity_of (xd_rep x) (i_id ident) d1))
            | MATCH_EXISTING \<Rightarrow>
                (case d_identity (xd_decision x) of
                   None \<Rightarrow> fault ''the matched identity is no longer ACTIVE''
                 | Some i \<Rightarrow>
                     (case identity_get (identities d) i of
                        None \<Rightarrow> fault ''the matched identity is no longer ACTIVE''
                      | Some ident \<Rightarrow>
                          if i_state ident \<noteq> I_ACTIVE then fault ''the matched identity is no longer ACTIVE''
                          else Inr ((x\<lparr>xd_identity := Some i\<rparr>, n), name_identity_of (xd_rep x) i d)))
            | ABSTAIN \<Rightarrow> Inr ((x, n), d)))"

fun persist_each ::
  "id_supply \<Rightarrow> (nat \<Rightarrow> time) \<Rightarrow> uuid \<Rightarrow> nat \<Rightarrow> exec_decision list \<Rightarrow> db \<Rightarrow> execution_error + exec_decision list \<times> db" where
  "persist_each ids clk run_id n [] d = Inr ([], d)"
| "persist_each ids clk run_id n (x # xs) d =
     bindE (persist_decision ids clk run_id n x d) (\<lambda>((y, n'), d1).
     bindE (persist_each ids clk run_id n' xs d1) (\<lambda>(ys, d2). Inr (y # ys, d2)))"

definition persist_decisions ::
  "id_supply \<Rightarrow> (nat \<Rightarrow> time) \<Rightarrow> started \<Rightarrow> execution_input \<Rightarrow> exec_decision list \<Rightarrow> db
   \<Rightarrow> execution_error + exec_decision list \<times> db" where
  "persist_decisions ids clk st i xs d =
     bindE (executing (settlement_context st False d)) (\<lambda>_. persist_each ids clk (xi_run i) 0 xs d)"

section \<open>The whole execution\<close>

record executed_job =
  ej_run :: uuid
  ej_checkpoint :: uuid      \<comment> \<open>\<open>final_checkpoint_id\<close>\<close>
  ej_observations :: "uuid list"
  ej_reps :: "uuid list"

definition entry_of :: "exec_decision \<Rightarrow> json" where
  "entry_of x = decision_entry (xd_obs x) (xd_rep x) (xd_decision x) (xd_identity x)"

text \<open>The second half: from the settled output to the FINAL checkpoint.\<close>

definition execute_recognition ::
  "execution_env \<Rightarrow> execution_input \<Rightarrow> frozen_configuration \<Rightarrow> uuid list \<Rightarrow> uuid list \<Rightarrow> executed_job exec" where
  "execute_recognition env i fz obs_ids rep_ids =
     bindX (writing env (\<lambda>n st d. executing (checkpoint_private_output st obs_ids rep_ids (xe_ids env n 0) (xe_clock env n) d))) (\<lambda>_.
     bindX (cancel_if_requested env) (\<lambda>_.
     bindX (decide_private env i fz rep_ids) (\<lambda>proposed.
     bindX (writing env (\<lambda>n st d. persist_decisions (xe_ids env n) (xe_clock env n) st i proposed d)) (\<lambda>decisions.
     bindX (cancel_if_requested env) (\<lambda>_.
     bindX (writing env (\<lambda>n st d. executing (finalize st obs_ids (map entry_of decisions) (xe_ids env n 0) (xe_clock env n) d))) (\<lambda>checkpoint.
       answer (Inr \<lparr>ej_run = xi_run i, ej_checkpoint = checkpoint, ej_observations = obs_ids, ej_reps = map xd_rep decisions\<rparr>)))))))"

text \<open>The first half: input, decoding, detection, embedding, each settled as soon as it is known.\<close>

definition execute_perception ::
  "execution_env \<Rightarrow> execution_input \<Rightarrow> frozen_configuration \<Rightarrow> perception_plan \<Rightarrow> decoded_image \<Rightarrow> executed_job exec" where
  "execute_perception env i fz plan picture =
     bindX (answer (xe_detect env plan picture)) (\<lambda>found.
     bindX (advance_after_fallbacks env (dt_fallbacks found)) (\<lambda>_.
     bindX (cancel_if_requested env) (\<lambda>_.
     bindX (writing env (\<lambda>n st d. settle_detections (xe_catalog env n) (xe_ids env n) (xe_clock env n) i st found d)) (\<lambda>obs_ids.
     bindX (cancel_if_requested env) (\<lambda>_.
     bindX (answer (xe_represent env plan picture (dt_detections found))) (\<lambda>rd.
     bindX (advance_after_fallbacks env (rd_fallbacks rd)) (\<lambda>_.
     bindX (cancel_if_requested env) (\<lambda>_.
     bindX (writing env (\<lambda>n st d.
              settle_representations (xe_catalog env n) (xe_norm env) (xe_ids env n) (xe_clock env n) st fz found obs_ids rd d)) (\<lambda>rep_ids.
       execute_recognition env i fz obs_ids rep_ids)))))))))"

definition execute_body :: "execution_env \<Rightarrow> executed_job exec" where
  "execute_body env =
     bindX (cancel_if_requested env) (\<lambda>_.
     bindX (reading env (\<lambda>_ st d. executing (input_of st d))) (\<lambda>i.
     bindX (cancel_if_requested env) (\<lambda>_.
     bindX (answer (map_sum Frozen id (frozen (xe_spelt env) (xi_snapshot i)))) (\<lambda>fz.
     bindX (reading env (\<lambda>n _ d. xe_planner env (xe_catalog env n) d fz)) (\<lambda>plan.
     bindX (answer (bindE (read_original env i) (\<lambda>data.
              map_sum Picture id (decode_image (xe_pillow env) (xe_max_pixels env) data)))) (\<lambda>picture.
       execute_perception env i fz plan picture))))))"

text \<open>\<open>execute\<close>: a recognised failure is settled under the claim as it is by then, and raised all the same.\<close>

definition execute_job :: "execution_env \<Rightarrow> executed_job exec" where
  "execute_job env x =
     (case execute_body env x of
        (Inr job, x') \<Rightarrow> (Inr job, x')
      | (Inl e, x') \<Rightarrow>
          (case settled_failure e of
             None \<Rightarrow> (Inl e, x')
           | Some code \<Rightarrow>
               (Inl e, snd (writing env (\<lambda>n st d. Inr ((), executor_fail st code (xe_clock env n 0) d)) x'))))"

definition execution_of :: "started \<Rightarrow> db \<Rightarrow> exec_state" where
  "execution_of st d = \<lparr>es_no = 0, es_db = d, es_claim = st, es_log = []\<rparr>"

section \<open>Private writes\<close>

text \<open>
  What one write of an execution of run \<open>i\<close> may do to the library: nothing to the memory that counts
  (the index queue, occurrences, evidence, people, sources, files, spaces), only additions of PENDING rows
  of the run to the observations, the representations and the identities, only the identity column of the
  run's own PENDING representations, and nothing to the attempts of others.
\<close>

definition memory_untouched :: "db \<Rightarrow> db \<Rightarrow> bool" where
  "memory_untouched d d' \<longleftrightarrow>
     snapshots d' = snapshots d \<and> sources d' = sources d \<and> artifacts d' = artifacts d \<and> spaces d' = spaces d \<and>
     ann_sequences d' = ann_sequences d \<and> occurrences d' = occurrences d \<and> occ_obs d' = occ_obs d \<and>
     index_ops d' = index_ops d \<and> lineages d' = lineages d \<and> evidences d' = evidences d \<and> ev_reps d' = ev_reps d \<and>
     ev_candidates d' = ev_candidates d \<and> people d' = people d \<and> associations d' = associations d \<and>
     app_states d' = app_states d"

definition private_change :: "uuid \<Rightarrow> rep \<Rightarrow> rep \<Rightarrow> bool" where
  "private_change i r r' \<longleftrightarrow> r' = r \<or> (r_state r = R_PENDING \<and> r_run r = i \<and> (\<exists>x. r' = r\<lparr>r_identity := x\<rparr>))"

definition others_alone :: "uuid \<Rightarrow> db \<Rightarrow> db \<Rightarrow> bool" where
  "others_alone i d d' \<longleftrightarrow>
     filter (\<lambda>p. p_id p \<noteq> i) (runs d') = filter (\<lambda>p. p_id p \<noteq> i) (runs d) \<and>
     filter (\<lambda>j. j_run j \<noteq> Some i) (jobs d') = filter (\<lambda>j. j_run j \<noteq> Some i) (jobs d) \<and>
     filter (\<lambda>g. g_run g \<noteq> i) (segments d') = filter (\<lambda>g. g_run g \<noteq> i) (segments d) \<and>
     filter (\<lambda>k. k_run k \<noteq> i) (checkpoints d') = filter (\<lambda>k. k_run k \<noteq> i) (checkpoints d)"

definition private_rows :: "uuid \<Rightarrow> db \<Rightarrow> db \<Rightarrow> bool" where
  "private_rows i d d' \<longleftrightarrow>
     (\<exists>new. observations d' = observations d @ new \<and> (\<forall>ob\<in>set new. o_state ob = O_PENDING \<and> o_run ob = i)) \<and>
     (\<exists>kept new. reps d' = kept @ new \<and> list_all2 (private_change i) (reps d) kept \<and>
        (\<forall>r\<in>set new. r_state r = R_PENDING \<and> r_run r = i \<and> r_key r = None)) \<and>
     (\<exists>new. identities d' = identities d @ new \<and> (\<forall>x\<in>set new. i_state x = I_PENDING \<and> i_run x = Some i))"

definition private_write :: "uuid \<Rightarrow> db \<Rightarrow> db \<Rightarrow> bool" where
  "private_write i d d' \<longleftrightarrow> memory_untouched d d' \<and> private_rows i d d' \<and> others_alone i d d'"

text \<open>The primary keys of the tables whose rows are found by id.\<close>

definition keyed_rows :: "db \<Rightarrow> bool" where
  "keyed_rows d \<longleftrightarrow> tab_keyed j_id (jobs d) \<and> tab_keyed g_id (segments d) \<and> tab_keyed r_id (reps d)"

lemma private_change_refl [simp]: "private_change i r r"
  by (simp add: private_change_def)

lemma private_change_trans: "private_change i r s \<Longrightarrow> private_change i s t \<Longrightarrow> private_change i r t"
  by (auto simp: private_change_def)

lemma private_change_new:
  "private_change i r s \<Longrightarrow> r_state r = R_PENDING \<and> r_run r = i \<and> r_key r = None \<Longrightarrow>
     r_state s = R_PENDING \<and> r_run s = i \<and> r_key s = None"
  by (auto simp: private_change_def)

lemma list_all2_private_refl [simp]: "list_all2 (private_change i) t t"
  by (simp add: list_all2_refl)

lemma private_rows_same:
  "observations d' = observations d \<Longrightarrow> reps d' = reps d \<Longrightarrow> identities d' = identities d \<Longrightarrow> private_rows i d d'"
  by (simp add: private_rows_def) (intro exI [of _ "reps d"] exI [of _ "[]"], simp)

lemma private_rows_refl [simp]: "private_rows i d d"
  by (rule private_rows_same) simp_all

lemma list_all2_source: "list_all2 P xs ys \<Longrightarrow> y \<in> set ys \<Longrightarrow> \<exists>x\<in>set xs. P x y"
  by (induction rule: list_all2_induct) auto

lemma private_rows_trans:
  assumes "private_rows i d d1" and "private_rows i d1 d2"
  shows "private_rows i d d2"
proof -
  from assms(1) obtain on kept new xn where A: "observations d1 = observations d @ on" "\<forall>ob\<in>set on. o_state ob = O_PENDING \<and> o_run ob = i"
    "reps d1 = kept @ new" "list_all2 (private_change i) (reps d) kept"
    "\<forall>r\<in>set new. r_state r = R_PENDING \<and> r_run r = i \<and> r_key r = None"
    "identities d1 = identities d @ xn" "\<forall>x\<in>set xn. i_state x = I_PENDING \<and> i_run x = Some i"
    unfolding private_rows_def by blast
  from assms(2) obtain on2 kept2 new2 xn2 where B: "observations d2 = observations d1 @ on2"
    "\<forall>ob\<in>set on2. o_state ob = O_PENDING \<and> o_run ob = i" "reps d2 = kept2 @ new2" "list_all2 (private_change i) (reps d1) kept2"
    "\<forall>r\<in>set new2. r_state r = R_PENDING \<and> r_run r = i \<and> r_key r = None"
    "identities d2 = identities d1 @ xn2" "\<forall>x\<in>set xn2. i_state x = I_PENDING \<and> i_run x = Some i"
    unfolding private_rows_def by blast
  from B(4) A(3) obtain k1 k2 where K: "kept2 = k1 @ k2" "list_all2 (private_change i) kept k1" "list_all2 (private_change i) new k2"
    by (auto simp: list_all2_append1)
  have "list_all2 (private_change i) (reps d) k1"
    by (rule list_all2_trans [OF _ A(4) K(2)]) (rule private_change_trans)
  moreover have "\<forall>r\<in>set k2. r_state r = R_PENDING \<and> r_run r = i \<and> r_key r = None"
  proof
    fix r assume "r \<in> set k2"
    then obtain s where "s \<in> set new" "private_change i s r"
      using list_all2_source [OF K(3)] by blast
    with A(5) show "r_state r = R_PENDING \<and> r_run r = i \<and> r_key r = None" using private_change_new by blast
  qed
  ultimately have "\<exists>kept new. reps d2 = kept @ new \<and> list_all2 (private_change i) (reps d) kept \<and>
      (\<forall>r\<in>set new. r_state r = R_PENDING \<and> r_run r = i \<and> r_key r = None)"
    using B(3,5) K(1) by (intro exI [of _ k1] exI [of _ "k2 @ new2"]) auto
  then show ?thesis
    using A B unfolding private_rows_def by auto
qed

lemma private_write_refl [simp]: "private_write i d d"
  by (simp add: private_write_def memory_untouched_def others_alone_def)

lemma private_write_trans: "private_write i d d1 \<Longrightarrow> private_write i d1 d2 \<Longrightarrow> private_write i d d2"
  using private_rows_trans by (auto simp: private_write_def memory_untouched_def others_alone_def)

text \<open>Writes of the attempt only.\<close>

lemma private_write_attempt:
  assumes "d' = d\<lparr>jobs := js, runs := ps, segments := gs, checkpoints := ks\<rparr>"
    and "filter (\<lambda>p. p_id p \<noteq> i) ps = filter (\<lambda>p. p_id p \<noteq> i) (runs d)"
    and "filter (\<lambda>j. j_run j \<noteq> Some i) js = filter (\<lambda>j. j_run j \<noteq> Some i) (jobs d)"
    and "filter (\<lambda>g. g_run g \<noteq> i) gs = filter (\<lambda>g. g_run g \<noteq> i) (segments d)"
    and "filter (\<lambda>k. k_run k \<noteq> i) ks = filter (\<lambda>k. k_run k \<noteq> i) (checkpoints d)"
  shows "private_write i d d'"
  using assms by (simp add: private_write_def memory_untouched_def others_alone_def private_rows_same)

lemma filter_tab_update_same:
  "(\<And>r. r \<in> set t \<Longrightarrow> p r \<Longrightarrow> \<not> q r \<and> \<not> q (f r)) \<Longrightarrow> filter q (tab_update p f t) = filter q t"
  by (induction t) auto

lemma run_update_others:
  assumes "run_update i e v x t = (n, t')" and "\<And>p. p_id (v p) = p_id p"
  shows "filter (\<lambda>p. p_id p \<noteq> i) t' = filter (\<lambda>p. p_id p \<noteq> i) t"
proof -
  have "t' = tab_update (opt_where p_id p_rev i e x) (\<lambda>p. bump_run (v p)) t"
    using assms(1) by (auto simp: run_update_def optimistic_locked_update_def)
  then show ?thesis
    using assms(2) by (auto intro!: filter_tab_update_same simp: opt_where_def bump_run_def)
qed

lemma segment_close_others:
  assumes "segment_close gid to reason now t = Inr (b, t')" and "tab_keyed g_id t" and "tab_get g_id t gid = Some g" and "g_run g = i"
  shows "filter (\<lambda>g. g_run g \<noteq> i) t' = filter (\<lambda>g. g_run g \<noteq> i) t \<and> map g_id t' = map g_id t"
proof -
  have t': "t' = tab_update (\<lambda>g. g_id g = gid \<and> g_state g = G_RUNNING)
      (\<lambda>g. g\<lparr>g_state := to, g_reason := reason, g_ended := Some now\<rparr>) t"
    using assms(1) by (auto simp: segment_close_def guarded_update_def split: if_splits)
  have "g_run h = i" if "h \<in> set t" "g_id h = gid" for h
    using assms(2-4) that by (metis tab_get_in option.inject)
  then show ?thesis unfolding t' by (auto intro!: filter_tab_update_same map_key_tab_update)
qed

lemma segment_append_others:
  assumes "segment_append i gid v details now t = Inr (g, t')"
  shows "filter (\<lambda>g. g_run g \<noteq> i) t' = filter (\<lambda>g. g_run g \<noteq> i) t \<and> t' = t @ [g] \<and> g_id g = gid \<and> g_run g = i \<and>
    g_state g = G_RUNNING \<and> tab_get g_id t gid = None"
  using assms by (auto simp: segment_append_def Let_def split: if_splits)

lemma checkpoint_append_others:
  assumes "checkpoint_append i kid sg kind v payload now t = Inr (k, t')"
  shows "filter (\<lambda>k. k_run k \<noteq> i) t' = filter (\<lambda>k. k_run k \<noteq> i) t \<and> t' = t @ [k] \<and> k_id k = kid \<and> k_run k = i \<and>
    k_kind k = kind \<and> k_state k = K_VALID \<and> k_payload k = payload \<and> tab_get k_id t kid = None"
  using assms by (auto simp: checkpoint_append_def Let_def split: if_splits)

lemma job_transition_others:
  assumes "job_transition jid from to now c e t = Inr (b, t')" and "tab_keyed j_id t" and "tab_get j_id t jid = Some j"
    and "j_run j = Some i"
  shows "filter (\<lambda>j. j_run j \<noteq> Some i) t' = filter (\<lambda>j. j_run j \<noteq> Some i) t"
proof -
  have t': "t' = tab_update (\<lambda>j. j_id j = jid \<and> j_state j \<in> set from) (transition_values to now c e) t"
    using assms(1) by (auto simp: job_transition_def guarded_update_def split: if_splits)
  have "j_run h = Some i" if "h \<in> set t" "j_id h = jid" for h
    using assms(2-4) that by (metis tab_get_in option.inject)
  moreover have "j_run (transition_values to now c e h) = j_run h" for h
    by (simp add: transition_values_def Let_def)
  ultimately show ?thesis unfolding t' by (auto intro!: filter_tab_update_same)
qed

section \<open>Each write is private\<close>

lemma executor_settled_private:
  assumes "settle_claim st job_from run_from seg_to reason v job_to code detail msg now d = Inr d'"
    and "cj_run (st_job st) = Some i" and "keyed_rows d" and "\<And>p. p_id (v p) = p_id p"
  shows "private_write i d d'"
proof (cases "d' = d")
  case False
  with assms(1,2) obtain p j g b segs n ps where
    p: "tab_get p_id (runs d) i = Some p" and j: "job_get (jobs d) (cj_id (st_job st)) = Some j" "j_run j = Some (p_id p)"
    and g: "segment_get (segments d) (st_segment st) = Some g" "g_run g = p_id p"
    and close: "segment_close (g_id g) seg_to reason now (segments d) = Inr (b, segs)"
    and d': "d' = d\<lparr>segments := segs\<rparr> \<or>
      (run_update (p_id p) (p_rev p) v (\<lambda>r. p_state r \<in> set run_from) (runs d) = (n, ps) \<and>
       (d' = d\<lparr>segments := segs\<rparr> \<or>
        (\<exists>m js. job_transition (cj_id (st_job st)) job_from job_to now code detail (jobs d) = Inr (m, js) \<and>
           d' = d\<lparr>segments := segs, runs := ps, jobs := js\<rparr>)))"
    unfolding settle_claim_def
    by (simp add: Let_def split: option.splits if_splits sum.splits prod.splits)
      (fastforce simp: bindE_def map_sum_def split: option.splits if_splits sum.splits prod.splits)
  have i: "p_id p = i" using p by (auto dest: tab_get_SomeD)
  have gid: "g_id g = st_segment st" using g(1) by (auto simp: segment_get_def dest: tab_get_SomeD)
  have S: "filter (\<lambda>g. g_run g \<noteq> i) segs = filter (\<lambda>g. g_run g \<noteq> i) (segments d)"
    using segment_close_others [OF close _ _ g(2)] g(1) gid i assms(3) by (simp add: keyed_rows_def segment_get_def)
  show ?thesis
    using d'
  proof (elim disjE conjE exE)
    assume "d' = d\<lparr>segments := segs\<rparr>"
    then show ?thesis
      using S by (intro private_write_attempt [where js = "jobs d" and ps = "runs d" and gs = segs and ks = "checkpoints d"]) simp_all
  next
    assume "d' = d\<lparr>segments := segs\<rparr>"
    then show ?thesis
      using S by (intro private_write_attempt [where js = "jobs d" and ps = "runs d" and gs = segs and ks = "checkpoints d"]) simp_all
  next
    fix m js
    assume R: "run_update (p_id p) (p_rev p) v (\<lambda>r. p_state r \<in> set run_from) (runs d) = (n, ps)"
      and J: "job_transition (cj_id (st_job st)) job_from job_to now code detail (jobs d) = Inr (m, js)"
      and d': "d' = d\<lparr>segments := segs, runs := ps, jobs := js\<rparr>"
    have "filter (\<lambda>j. j_run j \<noteq> Some i) js = filter (\<lambda>j. j_run j \<noteq> Some i) (jobs d)"
      using job_transition_others [OF J] assms(3) j i by (simp add: keyed_rows_def job_get_def)
    then show ?thesis
      using S run_update_others [OF R assms(4)] i d'
      by (intro private_write_attempt [where js = js and ps = ps and gs = segs and ks = "checkpoints d"]) simp_all
  qed
qed simp

lemma executor_cancel_private:
  assumes "executor_cancel st now d = Inr d'" and "cj_run (st_job st) = Some i" and "keyed_rows d"
  shows "private_write i d d'"
  using executor_settled_private [OF assms(1) [unfolded executor_cancel_def] assms(2,3)] by simp

lemma executor_fail_private:
  assumes "cj_run (st_job st) = Some i" and "keyed_rows d"
  shows "private_write i d (executor_fail st code now d)"
proof (cases "executor_fail st code now d = d")
  case False
  then obtain d' where "settle_claim st [J_RUNNING] [P_RUNNING] G_FAILED None
        (\<lambda>r. r\<lparr>p_state := P_FAILED, p_failed := Some now, p_updated := now, p_code := Some code,
             p_detail := Some ''source processing failed''\<rparr>)
        J_FAILED (Some code) (Some ''source processing failed'')
        ''the processing job changed while failing'' now d = Inr d'" "executor_fail st code now d = d'"
    by (auto simp: executor_fail_def split: sum.splits)
  then show ?thesis using executor_settled_private [OF _ assms] by simp
qed simp

lemma advance_segments_private:
  assumes "advance_segments ids clk i n fs current t = Inr (c, t')" and "tab_keyed g_id t"
    and "tab_get g_id t current = Some g" and "g_run g = i"
  shows "filter (\<lambda>g. g_run g \<noteq> i) t' = filter (\<lambda>g. g_run g \<noteq> i) t"
  using assms
proof (induction fs arbitrary: n current t g)
  case (Cons f fs)
  from Cons.prems(1) obtain t1 h t2 where
    close: "segment_close current G_COMPLETED (Some END_FALLBACK) (clk (2 * n)) t = Inr (True, t1)" and
    app: "segment_append i (ids n) (Some (pv_variant (fb_selected f))) (fallback_details f) (clk (2 * n + 1)) t1 = Inr (h, t2)" and
    rest: "advance_segments ids clk i (Suc n) fs (g_id h) t2 = Inr (c, t')"
    by (auto simp: bindE_Inr_iff map_sum_Inr split: if_splits)
  have 1: "filter (\<lambda>g. g_run g \<noteq> i) t1 = filter (\<lambda>g. g_run g \<noteq> i) t" "map g_id t1 = map g_id t"
    using segment_close_others [OF close Cons.prems(2,3,4)] by simp_all
  have 2: "filter (\<lambda>g. g_run g \<noteq> i) t2 = filter (\<lambda>g. g_run g \<noteq> i) t1" "t2 = t1 @ [h]" "g_id h = ids n" "g_run h = i"
    "tab_get g_id t1 (ids n) = None" using segment_append_others [OF app] by simp_all
  have "g_id ` set t1 = g_id ` set t" using 1(2) by (metis set_map)
  then have k: "tab_keyed g_id t2"
    using Cons.prems(2) 1(2) 2(2,3,5) unfolding tab_get_None_iff by (simp add: tab_keyed_def)
  have "tab_get g_id t2 (g_id h) = Some h" using 2 by (simp add: tab_get_append tab_get_Cons)
  from Cons.IH [OF rest k this 2(4)] show ?case using 1 2 by simp
qed simp

lemma record_provider_fallbacks_private:
  assumes "record_provider_fallbacks ids clk st fs d = Inr (c, d')" and "cj_run (st_job st) = Some i" and "keyed_rows d"
  shows "private_write i d d'"
proof -
  from assms(1) obtain p g j t where ctx: "settlement_context st True d = Inr (p, g, j)"
    and adv: "advance_segments ids clk (p_id p) 0 fs (g_id g) (segments d) = Inr (c, t)" and d': "d' = d\<lparr>segments := t\<rparr>"
    by (auto simp: record_provider_fallbacks_def bindE_Inr_iff)
  note C = settlement_context_facts [OF ctx]
  have "g_id g = st_segment st" using C(2) by (auto dest: tab_get_SomeD)
  moreover have "p_id p = i" using C(7) assms(2) by simp
  ultimately have "filter (\<lambda>g. g_run g \<noteq> i) t = filter (\<lambda>g. g_run g \<noteq> i) (segments d)"
    using advance_segments_private [OF adv _ _ C(3)] C(2) assms(3) by (simp add: keyed_rows_def)
  then show ?thesis
    using d' by (intro private_write_attempt [where js = "jobs d" and ps = "runs d" and gs = t and ks = "checkpoints d"]) simp_all
qed

lemma write_observations_private:
  assumes "write_observations c ids clk i sg v n xs d = Inr (obs, d')"
  shows "private_write (xi_run i) d d' \<and> length obs = length xs"
  using assms
proof (induction xs arbitrary: n d obs)
  case (Cons x xs)
  from Cons.prems obtain ob d1 rest where
    w: "write_observation c (xi_source i) (xi_run i) sg (int n) x v (ids n) (clk n) d = Inr (ob, d1)" and
    rest: "write_observations c ids clk i sg v (Suc n) xs d1 = Inr (rest, d')" and obs: "obs = ob # rest"
    by (auto simp: bindE_Inr_iff)
  have "d1 = d\<lparr>observations := observations d @ [pending_observation (ids n) (xi_source i) (xi_run i) sg (int n) x v (clk n)]\<rparr>"
    using w by (simp add: write_observation_Inr Let_def)
  then have "private_write (xi_run i) d d1"
    by (simp add: private_write_def memory_untouched_def others_alone_def private_rows_def pending_observation_def)
      (intro exI [of _ "reps d"] exI [of _ "[]"], simp)
  with Cons.IH [OF rest] obs show ?case by (auto intro: private_write_trans)
qed simp

lemma settle_detections_private:
  assumes "settle_detections c ids clk i st found d = Inr (obs, d')"
  shows "private_write (xi_run i) d d' \<and> length obs = length (dt_detections found)"
  using assms write_observations_private by (auto simp: settle_detections_def bindE_Inr_iff)

text \<open>The running segment of the claim decides of which run the observation must be.\<close>

lemma write_representation_private:
  assumes "write_representation c norm2 ob sg n f v sp i now d = Inr (r, d')"
    and "segment_get (segments d) sg = Some g" and "g_run g = j"
  shows "private_write j d d' \<and> segments d' = segments d \<and> observations d' = observations d"
proof -
  from assms(1) obtain o' s where O: "writable_context (o_source o') (o_run o') sg d"
    and d': "d' = d\<lparr>reps := reps d @ [pending_rep i o' sg s (fv_vector f) (norm2 (fv_vector f)) (pv_variant v) now]\<rparr>"
    by (auto simp: write_representation_Inr Let_def)
  have "o_run o' = j" using O assms(2,3) by (auto simp: writable_context_def)
  then show ?thesis
    using d' by (simp add: private_write_def memory_untouched_def others_alone_def private_rows_def pending_rep_def)
      (intro exI [of _ "reps d"] exI [of _ "[_]"] conjI, auto)
qed

lemma write_representations_private:
  assumes "write_representations c norm2 ids clk sg v sp n xs obs fs d = Inr (rs, d')"
    and "segment_get (segments d) sg = Some g" and "g_run g = j"
  shows "private_write j d d' \<and> length rs = length xs \<and> length obs = length xs"
  using assms
proof (induction c norm2 ids clk sg v sp n xs obs fs d arbitrary: rs rule: write_representations.induct)
  case (2 c norm2 ids clk sg v sp n x xs ob obs f fs d)
  from 2(2) obtain r d1 rest where
    w: "write_representation c norm2 ob sg (dn_index x) f v sp (ids n) (clk n) d = Inr (r, d1)" and
    rest: "write_representations c norm2 ids clk sg v sp (Suc n) xs obs fs d1 = Inr (rest, d')" and rs: "rs = r # rest"
    by (auto simp: bindE_Inr_iff)
  have 1: "private_write j d d1" "segments d1 = segments d"
    using write_representation_private [OF w 2(3,4)] by simp_all
  have "private_write j d1 d' \<and> length rest = length xs \<and> length obs = length xs"
    using rest w 1(2) 2 by simp
  then show ?case using 1 rs by (auto intro: private_write_trans)
qed auto

lemma settle_representations_private:
  assumes "settle_representations c norm2 ids clk st fz found obs_ids rd d = Inr (rs, d')" and "cj_run (st_job st) = Some i"
  shows "private_write i d d' \<and> length rs = length (dt_detections found)"
proof (cases "dt_detections found = []")
  case True
  with assms show ?thesis by (auto simp: settle_representations_def bindE_Inr_iff split: if_splits)
next
  case False
  with assms obtain v p g j where ctx: "settlement_context st False d = Inr (p, g, j)"
    and w: "write_representations c norm2 ids clk (st_segment st) v (fz_space fz) 0 (dt_detections found) obs_ids (rd_vectors rd) d = Inr (rs, d')"
    by (auto simp: settle_representations_def bindE_Inr_iff split: if_splits option.splits)
  note C = settlement_context_facts [OF ctx]
  have "segment_get (segments d) (st_segment st) = Some g" "g_run g = i" using C assms(2) by (simp_all add: segment_get_def)
  from write_representations_private [OF w this] show ?thesis by simp
qed

lemma checkpoint_private_output_effect:
  assumes "checkpoint_private_output st obs_ids rep_ids new_id clk d = Inr (k, d')"
  obtains p g j ck runs' where "settlement_context st False d = Inr (p, g, j)"
    "checkpoint_append (p_id p) new_id (Some (g_id g)) K_INTERMEDIATE 1 (private_payload obs_ids rep_ids) (clk 0) (checkpoints d) =
       Inr (ck, checkpoints d')"
    "run_update (p_id p) (p_rev p) (\<lambda>r. r\<lparr>p_checkpoint := Some k, p_updated := clk 1\<rparr>)
       (\<lambda>r. p_state r = P_RUNNING) (runs d) = (1, runs')"
    "d' = d\<lparr>checkpoints := checkpoints d', runs := runs'\<rparr>"
proof -
  from assms obtain p g j ck t where R: "settlement_context st False d = Inr (p, g, j)"
    "checkpoint_append (p_id p) new_id (Some (g_id g)) K_INTERMEDIATE 1 (private_payload obs_ids rep_ids) (clk 0) (checkpoints d) =
       Inr (ck, t)"
    "(case run_update (p_id p) (p_rev p) (\<lambda>r. r\<lparr>p_checkpoint := Some (k_id ck), p_updated := clk 1\<rparr>)
         (\<lambda>r. p_state r = P_RUNNING) (runs d) of
        (updated, runs') \<Rightarrow> if updated \<noteq> 1 then Inl (ExecutionError ''the processing run changed while checkpointing'')
          else Inr (k_id ck, d\<lparr>checkpoints := t, runs := runs'\<rparr>)) = Inr (k, d')"
    by (auto simp: checkpoint_private_output_def bindE_Inr_iff)
  from R(3) obtain runs' where "run_update (p_id p) (p_rev p) (\<lambda>r. r\<lparr>p_checkpoint := Some (k_id ck), p_updated := clk 1\<rparr>)
       (\<lambda>r. p_state r = P_RUNNING) (runs d) = (1, runs')" "k = k_id ck" "d' = d\<lparr>checkpoints := t, runs := runs'\<rparr>"
    by (simp split: prod.split_asm if_split_asm)
  then show thesis using R(1,2) by (intro that) simp_all
qed

lemma checkpoint_private_output_private:
  assumes "checkpoint_private_output st obs_ids rep_ids new_id clk d = Inr (k, d')" and "cj_run (st_job st) = Some i"
  shows "private_write i d d'"
  using assms(1)
proof (rule checkpoint_private_output_effect)
  fix p g j ck runs'
  assume ctx: "settlement_context st False d = Inr (p, g, j)"
    and app: "checkpoint_append (p_id p) new_id (Some (g_id g)) K_INTERMEDIATE 1 (private_payload obs_ids rep_ids) (clk 0)
       (checkpoints d) = Inr (ck, checkpoints d')"
    and upd: "run_update (p_id p) (p_rev p) (\<lambda>r. r\<lparr>p_checkpoint := Some k, p_updated := clk 1\<rparr>)
       (\<lambda>r. p_state r = P_RUNNING) (runs d) = (1, runs')"
    and d': "d' = d\<lparr>checkpoints := checkpoints d', runs := runs'\<rparr>"
  have i: "p_id p = i" using settlement_context_facts(7) [OF ctx] assms(2) by simp
  have ps: "filter (\<lambda>p. p_id p \<noteq> i) runs' = filter (\<lambda>p. p_id p \<noteq> i) (runs d)" using run_update_others [OF upd] i by simp
  have ks: "filter (\<lambda>k. k_run k \<noteq> i) (checkpoints d') = filter (\<lambda>k. k_run k \<noteq> i) (checkpoints d)"
    using checkpoint_append_others [OF app] i by blast
  have "d' = d\<lparr>jobs := jobs d, runs := runs', segments := segments d, checkpoints := checkpoints d'\<rparr>" by (subst d') simp
  then show ?thesis using ps refl refl ks by (rule private_write_attempt)
qed

lemma finalize_facts:
  assumes "finalize st obs_ids entries new_id clk d = Inr (k, d')" and "cj_run (st_job st) = Some i"
  shows "(keyed_rows d \<longrightarrow> private_write i d d') \<and> k = new_id \<and>
    (\<exists>ck. checkpoints d' = checkpoints d @ [ck] \<and> tab_get k_id (checkpoints d) new_id = None \<and> k_id ck = new_id \<and> k_run ck = i \<and>
       k_kind ck = K_FINAL \<and> k_state ck = K_VALID \<and> k_payload ck = final_payload obs_ids entries) \<and>
    (\<exists>p. tab_get p_id (runs d) i = Some p \<and> p_state p = P_RUNNING \<and>
       tab_get p_id (runs d') i = Some (p\<lparr>p_state := P_FINALIZING, p_checkpoint := Some k, p_updated := clk 2, p_rev := p_rev p + 1\<rparr>))"
  using assms(1)
proof (rule finalize_effect)
  fix p g j ck segs runs'
  assume ctx: "settlement_context st False d = Inr (p, g, j)"
    and app: "checkpoint_append (p_id p) new_id (Some (g_id g)) K_FINAL 1 (final_payload obs_ids entries) (clk 0) (checkpoints d) =
       Inr (ck, checkpoints d')" and k: "k_id ck = k"
    and close: "segment_close (g_id g) G_COMPLETED (Some END_NORMAL) (clk 1) (segments d) = Inr (True, segs)"
    and upd: "run_update (p_id p) (p_rev p) (\<lambda>r. r\<lparr>p_state := P_FINALIZING, p_checkpoint := Some k, p_updated := clk 2\<rparr>)
       (\<lambda>r. p_state r = P_RUNNING) (runs d) = (1, runs')"
    and d': "d' = d\<lparr>checkpoints := checkpoints d', segments := segs, runs := runs'\<rparr>"
  note C = settlement_context_facts [OF ctx]
  have i: "p_id p = i" using C(7) assms(2) by simp
  have gid: "g_id g = st_segment st" using C(2) by (auto dest: tab_get_SomeD)
  have gs: "filter (\<lambda>g. g_run g \<noteq> i) segs = filter (\<lambda>g. g_run g \<noteq> i) (segments d)" if "keyed_rows d"
    using segment_close_others [OF close _ _ C(3)] C(2) i gid that by (simp add: keyed_rows_def)
  have ps: "filter (\<lambda>p. p_id p \<noteq> i) runs' = filter (\<lambda>p. p_id p \<noteq> i) (runs d)" using run_update_others [OF upd] i by simp
  have ks: "filter (\<lambda>k. k_run k \<noteq> i) (checkpoints d') = filter (\<lambda>k. k_run k \<noteq> i) (checkpoints d)"
    using checkpoint_append_others [OF app] i by blast
  have "d' = d\<lparr>jobs := jobs d, runs := runs', segments := segs, checkpoints := checkpoints d'\<rparr>" by (subst d') simp
  from private_write_attempt [OF this ps refl gs ks] have 1: "keyed_rows d \<longrightarrow> private_write i d d'" by blast
  have "tab_get p_id (runs d') i = map_option (\<lambda>r. if opt_where p_id p_rev i (p_rev p) (\<lambda>r. p_state r = P_RUNNING) r
      then bump_run (r\<lparr>p_state := P_FINALIZING, p_checkpoint := Some k, p_updated := clk 2\<rparr>) else r) (tab_get p_id (runs d) i)"
  proof -
    have "runs' = tab_update (opt_where p_id p_rev i (p_rev p) (\<lambda>r. p_state r = P_RUNNING))
        (\<lambda>r. bump_run (r\<lparr>p_state := P_FINALIZING, p_checkpoint := Some k, p_updated := clk 2\<rparr>)) (runs d)"
      using upd i by (auto simp: run_update_def optimistic_locked_update_def)
    moreover have "runs d' = runs'" by (subst d') simp
    ultimately show ?thesis by (simp only:) (rule tab_get_update, simp add: bump_run_def)
  qed
  then have "tab_get p_id (runs d') i = Some (p\<lparr>p_state := P_FINALIZING, p_checkpoint := Some k, p_updated := clk 2, p_rev := p_rev p + 1\<rparr>)"
    using C(1,9) i by (simp add: opt_where_def bump_run_def)
  then have 2: "\<exists>p. tab_get p_id (runs d) i = Some p \<and> p_state p = P_RUNNING \<and>
       tab_get p_id (runs d') i = Some (p\<lparr>p_state := P_FINALIZING, p_checkpoint := Some k, p_updated := clk 2, p_rev := p_rev p + 1\<rparr>)"
    using C(1,9) i by (intro exI [of _ p]) simp
  have "\<exists>ck. checkpoints d' = checkpoints d @ [ck] \<and> tab_get k_id (checkpoints d) new_id = None \<and> k_id ck = new_id \<and> k_run ck = i \<and>
       k_kind ck = K_FINAL \<and> k_state ck = K_VALID \<and> k_payload ck = final_payload obs_ids entries"
    using checkpoint_append_others [OF app] i by (intro exI [of _ ck]) simp
  then show ?thesis using 1 2 k checkpoint_append_others [OF app] by simp
qed

lemma name_identity_private:
  assumes "rep_get (reps d) rep_id = Some r" and "r_run r = i" and "r_state r = R_PENDING" and "tab_keyed r_id (reps d)"
  shows "private_write i d (name_identity_of rep_id x d)"
proof -
  have only: "r' = r" if "r' \<in> set (reps d)" "r_id r' = rep_id" for r'
    using assms(1,4) that by (metis rep_get_def tab_get_in option.inject)
  let ?f = "\<lambda>r. if r_id r = rep_id then r\<lparr>r_identity := Some x\<rparr> else r"
  have "private_change i r' (?f r')" if "r' \<in> set (reps d)" for r'
  proof (cases "r_id r' = rep_id")
    case True
    with only that assms(2,3) have "r_state r' = R_PENDING" "r_run r' = i" by simp_all
    with True show ?thesis by (auto simp: private_change_def)
  qed simp
  then have "list_all2 (private_change i) (reps d) (map ?f (reps d))"
    by (simp add: list_all2_conv_all_nth)
  then have "private_rows i d (name_identity_of rep_id x d)"
    by (simp add: private_rows_def name_identity_of_def tab_update_def)
      (intro exI [of _ "map ?f (reps d)"] exI [of _ "[]"], simp)
  then show ?thesis by (simp add: private_write_def memory_untouched_def others_alone_def name_identity_of_def)
qed

lemma created_identity_private:
  assumes "create_pending_identity i face new c u d = Inr (x, d')"
  shows "private_write i d d' \<and> reps d' = reps d \<and> i_id x = new"
proof -
  have "d' = d\<lparr>identities := identities d @ [x]\<rparr>" "i_state x = I_PENDING" "i_run x = Some i" "i_id x = new"
    using assms by (auto simp: create_pending_identity_def bindE_Inr_iff Let_def identity_add_def new_identity_def refused_def
        split: sum.splits if_splits)
  moreover from this have "private_rows i d d'"
    unfolding private_rows_def by (intro conjI exI [of _ "[]"] exI [of _ "[x]"] exI [of _ "reps d"]) simp_all
  ultimately show ?thesis by (simp add: private_write_def memory_untouched_def others_alone_def)
qed

lemma name_identity_keyed: "tab_keyed r_id (reps (name_identity_of rep_id x d)) = tab_keyed r_id (reps d)"
  by (simp add: name_identity_of_def tab_keyed_update)

text \<open>A persisted decision keeps what was decided and names an identity exactly where there is one to name.\<close>

definition decided_as :: "exec_decision \<Rightarrow> exec_decision \<Rightarrow> bool" where
  "decided_as x y \<longleftrightarrow> xd_obs y = xd_obs x \<and> xd_rep y = xd_rep x \<and> xd_decision y = xd_decision x \<and>
     (case d_outcome (xd_decision x) of
        ABSTAIN \<Rightarrow> xd_identity y = xd_identity x
      | MATCH_EXISTING \<Rightarrow> (\<exists>u. d_identity (xd_decision x) = Some u \<and> xd_identity y = Some u)
      | CREATE_NEW \<Rightarrow> xd_identity y \<noteq> None)"

lemma persist_decision_decided:
  assumes "persist_decision ids clk i n x d = Inr ((y, m), d')"
  shows "decided_as x y"
  using assms by (cases "d_outcome (xd_decision x)")
    (auto simp: persist_decision_def decided_as_def bindE_Inr_iff split: option.splits if_splits)

lemma persist_each_decided: "persist_each ids clk i n xs d = Inr (ys, d') \<Longrightarrow> list_all2 decided_as xs ys"
  by (induction xs arbitrary: n d ys) (auto simp: bindE_Inr_iff dest: persist_decision_decided)

lemma persist_decision_private:
  assumes "persist_decision ids clk i n x d = Inr ((y, m), d')" and "tab_keyed r_id (reps d)"
  shows "private_write i d d' \<and> tab_keyed r_id (reps d')"
proof -
  from assms(1) obtain r where r: "rep_get (reps d) (xd_rep x) = Some r" "r_run r = i" "r_state r = R_PENDING"
    by (auto simp: persist_decision_def split: option.splits if_splits)
  show ?thesis
  proof (cases "d_outcome (xd_decision x)")
    case MATCH_EXISTING
    with assms(1) r obtain u where "d_identity (xd_decision x) = Some u" "y = x\<lparr>xd_identity := Some u\<rparr>" "d' = name_identity_of (xd_rep x) u d"
      by (auto simp: persist_decision_def split: option.splits if_splits)
    then show ?thesis
      using name_identity_private [OF r assms(2)] assms(2) by (simp add: name_identity_keyed)
  next
    case CREATE_NEW
    with assms(1) r obtain ident d1 where c: "create_pending_identity i (Some (xd_obs x)) (ids n) (clk (2 * n)) (clk (2 * n + 1)) d = Inr (ident, d1)"
      and y: "y = x\<lparr>xd_identity := Some (i_id ident)\<rparr>" "d' = name_identity_of (xd_rep x) (i_id ident) d1"
      by (auto simp: persist_decision_def bindE_Inr_iff)
    have k: "reps d1 = reps d" "private_write i d d1" using created_identity_private [OF c] by simp_all
    have "private_write i d1 d'" unfolding y(2) by (rule name_identity_private [where r = r]) (use r assms(2) k in simp_all)
    then show ?thesis
      using k y assms(2) by (auto simp: name_identity_keyed intro: private_write_trans)
  next
    case ABSTAIN
    then show ?thesis using assms r by (auto simp: persist_decision_def)
  qed
qed

lemma persist_each_private:
  assumes "persist_each ids clk i n xs d = Inr (ys, d')" and "tab_keyed r_id (reps d)"
  shows "private_write i d d'"
  using assms
proof (induction xs arbitrary: n d ys)
  case (Cons x xs)
  from Cons.prems(1) obtain y m d1 rest where p: "persist_decision ids clk i n x d = Inr ((y, m), d1)"
    and rest: "persist_each ids clk i m xs d1 = Inr (rest, d')" and ys: "ys = y # rest"
    by (auto simp: bindE_Inr_iff)
  from persist_decision_private [OF p Cons.prems(2)] Cons.IH [OF rest] ys show ?case by (auto intro: private_write_trans)
qed simp

lemma persist_decisions_private:
  assumes "persist_decisions ids clk st i xs d = Inr (ys, d')" and "tab_keyed r_id (reps d)"
  shows "private_write (xi_run i) d d'"
  using assms persist_each_private by (auto simp: persist_decisions_def bindE_Inr_iff)

section \<open>Every write of an execution, whatever happens in between\<close>

definition logged_private :: "uuid \<Rightarrow> exec_state \<Rightarrow> bool" where
  "logged_private i x \<longleftrightarrow> cj_run (st_job (es_claim x)) = Some i \<and>
     (\<forall>(d, d')\<in>set (es_log x). keyed_rows d \<longrightarrow> private_write i d d')"

text \<open>A part of an execution that keeps this, with what is known of its answers.\<close>

definition stays_private :: "uuid \<Rightarrow> ('a \<Rightarrow> bool) \<Rightarrow> 'a exec \<Rightarrow> bool" where
  "stays_private i Q m \<longleftrightarrow> (\<forall>x. logged_private i x \<longrightarrow>
     logged_private i (snd (m x)) \<and> (case fst (m x) of Inl e \<Rightarrow> True | Inr a \<Rightarrow> Q a))"

lemma stays_private_bindX:
  assumes "stays_private i P m" and "\<And>a. P a \<Longrightarrow> stays_private i Q (f a)"
  shows "stays_private i Q (bindX m f)"
  unfolding stays_private_def
proof (intro allI impI)
  fix x assume x: "logged_private i x"
  obtain r x' where m: "m x = (r, x')" by (cases "m x")
  then show "logged_private i (snd (bindX m f x)) \<and> (case fst (bindX m f x) of Inl e \<Rightarrow> True | Inr a \<Rightarrow> Q a)"
    using assms x by (cases r) (force simp: stays_private_def bindX_def)+
qed

lemma stays_private_answer: "(\<And>a. r = Inr a \<Longrightarrow> Q a) \<Longrightarrow> stays_private i Q (answer r)"
  by (auto simp: stays_private_def answer_def split: sum.splits)

lemma stays_private_reading:
  assumes "\<And>n st d a. cj_run (st_job st) = Some i \<Longrightarrow> f n st d = Inr a \<Longrightarrow> Q a"
  shows "stays_private i Q (reading env f)"
  using assms by (auto simp: stays_private_def reading_def logged_private_def Let_def split: sum.splits)

lemma stays_private_writing:
  assumes "\<And>n st d a d'. cj_run (st_job st) = Some i \<Longrightarrow> f n st d = Inr (a, d') \<Longrightarrow> keyed_rows d \<Longrightarrow> private_write i d d'"
  shows "stays_private i (\<lambda>_. True) (writing env f)"
  using assms by (auto simp: stays_private_def writing_def logged_private_def Let_def split: sum.splits)

lemma stays_private_weaken: "stays_private i P m \<Longrightarrow> stays_private i (\<lambda>_. True) m"
  by (auto simp: stays_private_def split: sum.splits)

lemma map_sum_Inr_pair: "map_sum Executing (Pair ()) m = Inr (a, d') \<longleftrightarrow> m = Inr d'"
  by (cases m) auto

lemma cancel_if_requested_private: "stays_private i (\<lambda>_. True) (cancel_if_requested env)"
  unfolding cancel_if_requested_def
  by (rule stays_private_bindX [where P = "\<lambda>_. True"])
    (auto simp: map_sum_Inr_pair intro!: stays_private_reading stays_private_answer stays_private_writing
      stays_private_bindX [where P = "\<lambda>_. True"] split: sum.splits dest: executor_cancel_private)

lemma advance_after_fallbacks_private: "stays_private i (\<lambda>_. True) (advance_after_fallbacks env fs)"
proof (cases "fs = []")
  case False
  have "stays_private i (\<lambda>_. True) (\<lambda>x. (Inr (), x\<lparr>es_claim := (es_claim x)\<lparr>st_segment := u\<rparr>\<rparr>))" for u
    by (simp add: stays_private_def logged_private_def)
  with False show ?thesis
    unfolding advance_after_fallbacks_def
    by (auto intro!: stays_private_bindX [where P = "\<lambda>_. True"] stays_private_writing dest: record_provider_fallbacks_private)
qed (auto simp: advance_after_fallbacks_def intro: stays_private_answer)

lemma input_of_run:
  assumes "input_of st d = Inr x" and "cj_run (st_job st) = Some i"
  shows "xi_run x = i"
  using assms by (auto simp: input_of_def bindE_Inr_iff Let_def dest!: executor_input_facts)

lemma execute_recognition_private:
  assumes "xi_run x = i"
  shows "stays_private i (\<lambda>_. True) (execute_recognition env x fz obs_ids rep_ids)"
proof -
  have "stays_private i (\<lambda>_. True) (decide_private env x fz rep_ids)"
    unfolding decide_private_def
    by (auto intro!: stays_private_answer stays_private_bindX [where P = "\<lambda>_. True"] stays_private_reading)
  then show ?thesis
    unfolding execute_recognition_def
    by (intro stays_private_bindX [where P = "\<lambda>_. True"] stays_private_writing cancel_if_requested_private stays_private_answer)
      (use assms in \<open>auto simp: keyed_rows_def dest: checkpoint_private_output_private persist_decisions_private finalize_facts\<close>)
qed

lemma execute_perception_private:
  assumes "xi_run x = i"
  shows "stays_private i (\<lambda>_. True) (execute_perception env x fz plan picture)"
  unfolding execute_perception_def
  by (intro stays_private_bindX [where P = "\<lambda>_. True"] stays_private_writing cancel_if_requested_private stays_private_answer
      advance_after_fallbacks_private execute_recognition_private assms)
    (use assms in \<open>auto dest: settle_detections_private settle_representations_private\<close>)

lemma execute_body_private: "stays_private i (\<lambda>_. True) (execute_body env)"
  unfolding execute_body_def
  by (rule stays_private_bindX [where P = "\<lambda>_. True"], rule cancel_if_requested_private,
      rule stays_private_bindX [where P = "\<lambda>x. xi_run x = i"], rule stays_private_reading, simp add: input_of_run)
    (intro stays_private_bindX [where P = "\<lambda>_. True"] cancel_if_requested_private stays_private_answer stays_private_reading
      execute_perception_private TrueI, simp)

lemma execute_job_private: "stays_private i (\<lambda>_. True) (execute_job env)"
  unfolding stays_private_def
proof (intro allI impI)
  fix x assume x: "logged_private i x"
  obtain r x' where b: "execute_body env x = (r, x')" by (cases "execute_body env x")
  have x': "logged_private i x'"
    using execute_body_private [of i env] x b by (metis snd_conv stays_private_def)
  have "stays_private i (\<lambda>_. True) (writing env (\<lambda>n st d. Inr ((), executor_fail st code (xe_clock env n 0) d)))" for code
    by (rule stays_private_writing) (auto dest: executor_fail_private)
  then have "logged_private i (snd (writing env (\<lambda>n st d. Inr ((), executor_fail st code (xe_clock env n 0) d)) x'))" for code
    using x' by (auto simp: stays_private_def)
  then show "logged_private i (snd (execute_job env x)) \<and> (case fst (execute_job env x) of Inl e \<Rightarrow> True | Inr a \<Rightarrow> True)"
    using x' by (auto simp: execute_job_def b split: sum.splits option.splits)
qed

text \<open>
  C3. Nothing an execution writes before acceptance counts: whatever other transactions commit in between,
  and however the execution ends (with its FINAL, with a cancellation, with a failure or with a defect),
  each of its own writes leaves the memory as it found it (no index operation, occurrence, evidence, person,
  source or artifact changes), adds only PENDING observations, representations without an index key and
  PENDING identities, all of its run, changes of existing rows only the identity of the run's own PENDING
  representations, and touches no other run, job, segment or checkpoint.
\<close>

theorem executions_write_only_private_output:
  assumes "cj_run (st_job st) = Some i" and "execute_job env (execution_of st d) = (r, x)"
    and "(before, after) \<in> set (es_log x)" and "keyed_rows before"
  shows "private_write i before after"
proof -
  have "logged_private i (execution_of st d)" using assms(1) by (simp add: logged_private_def execution_of_def)
  then have "logged_private i x"
    using execute_job_private [of i env] assms(2) by (metis snd_conv stays_private_def)
  then show ?thesis using assms(3,4) by (auto simp: logged_private_def)
qed

section \<open>What an execution that answers has left\<close>

lemma bindX_Inr: "bindX m f x = (Inr b, z) \<longleftrightarrow> (\<exists>a y. m x = (Inr a, y) \<and> f a y = (Inr b, z))"
  by (auto simp: bindX_def split: prod.splits sum.splits)

lemma answer_Inr: "answer r x = (Inr a, y) \<longleftrightarrow> r = Inr a \<and> y = x"
  by (auto simp: answer_def)

lemma reading_Inr:
  "reading env f x = (Inr a, y) \<Longrightarrow> \<exists>d. f (es_no x) (es_claim x) d = Inr a \<and> es_claim y = es_claim x"
  by (auto simp: reading_def Let_def)

lemma writing_Inr:
  "writing env f x = (Inr a, y) \<Longrightarrow> \<exists>d. f (es_no x) (es_claim x) d = Inr (a, es_db y) \<and> es_claim y = es_claim x"
  by (auto simp: writing_def Let_def split: sum.splits)

lemma cancel_if_requested_Inr: "cancel_if_requested env x = (Inr a, y) \<Longrightarrow> es_claim y = es_claim x"
  by (auto simp: cancel_if_requested_def bindX_Inr answer_Inr dest: reading_Inr split: if_splits)

lemma advance_after_fallbacks_Inr:
  "advance_after_fallbacks env fs x = (Inr a, y) \<Longrightarrow> st_job (es_claim y) = st_job (es_claim x)"
  by (auto simp: advance_after_fallbacks_def bindX_Inr answer_Inr dest: writing_Inr split: if_splits)

text \<open>A proposal: the frozen policy's decision on some assessment, before an identity is named.\<close>

definition proposed_by :: "policy \<Rightarrow> exec_decision \<Rightarrow> bool" where
  "proposed_by p x \<longleftrightarrow> (\<exists>a. xd_decision x = decide p a) \<and> xd_identity x = None"

lemma map_all_Inr_length: "map_all f xs = Inr ys \<Longrightarrow> length ys = length xs \<and> (\<forall>y\<in>set ys. \<exists>x. f x = Inr y)"
  by (induction xs arbitrary: ys) (auto simp: bindE_Inr_iff)

lemma decide_all_Inr:
  assumes "decide_all env fz global run rep_ids d = Inr xs"
  shows "length xs = length rep_ids \<and> (\<forall>x\<in>set xs. proposed_by (fz_policy fz) x)"
proof -
  from assms obtain sp near where n: "length (decision_rows rep_ids d) = length rep_ids"
    and m: "map_all (decide_one env fz sp global near run rep_ids d) (decision_rows rep_ids d) = Inr xs"
    by (auto simp: decide_all_def bindE_Inr_iff split: option.splits if_splits)
  have "proposed_by (fz_policy fz) x" if "decide_one env fz sp global near run rep_ids d row = Inr x" for x row
    using that by (auto simp: decide_one_def bindE_Inr_iff proposed_by_def split: prod.splits)
  then show ?thesis using map_all_Inr_length [OF m] n by auto
qed

lemma decide_private_Inr:
  assumes "decide_private env i fz rep_ids x = (Inr xs, y)"
  shows "length xs = length rep_ids \<and> (\<forall>x\<in>set xs. proposed_by (fz_policy fz) x) \<and> es_claim y = es_claim x"
proof (cases "rep_ids = []")
  case True
  with assms show ?thesis by (simp add: decide_private_def answer_Inr)
next
  case False
  with assms show ?thesis
    by (auto simp: decide_private_def bindX_Inr answer_Inr dest!: reading_Inr dest: decide_all_Inr)
qed

text \<open>What the FINAL of run \<open>i\<close> holds.\<close>

definition final_left :: "uuid \<Rightarrow> uuid \<Rightarrow> uuid list \<Rightarrow> exec_decision list \<Rightarrow> db \<Rightarrow> bool" where
  "final_left i k obs_ids decisions d \<longleftrightarrow>
     (\<exists>p ck. tab_get p_id (runs d) i = Some p \<and> p_state p = P_FINALIZING \<and> p_checkpoint p = Some k \<and>
        checkpoint_get (checkpoints d) k = Some ck \<and> k_run ck = i \<and> k_kind ck = K_FINAL \<and> k_state ck = K_VALID \<and>
        k_payload ck = final_payload obs_ids (map entry_of decisions))"

lemma finalize_left:
  assumes "finalize st obs_ids (map entry_of decisions) new_id clk d = Inr (k, d')" and "cj_run (st_job st) = Some i"
  shows "final_left i k obs_ids decisions d'"
  using finalize_facts [OF assms]
  by (auto simp: final_left_def checkpoint_get_def tab_get_append tab_get_Cons)

text \<open>A decision of the FINAL: the frozen policy's own, with an identity exactly where it did not abstain.\<close>

definition settled_by :: "policy \<Rightarrow> exec_decision \<Rightarrow> bool" where
  "settled_by p y \<longleftrightarrow> (\<exists>a. xd_decision y = decide p a) \<and> (xd_identity y = None \<longleftrightarrow> d_outcome (xd_decision y) = ABSTAIN)"

lemma decided_as_settled: "proposed_by p x \<Longrightarrow> decided_as x y \<Longrightarrow> settled_by p y"
  by (auto simp: proposed_by_def decided_as_def settled_by_def split: outcome.splits)

lemma execute_recognition_Inr:
  assumes "execute_recognition env i fz obs_ids rep_ids x = (Inr job, y)" and "cj_run (st_job (es_claim x)) = Some r"
  shows "\<exists>decisions. ej_run job = xi_run i \<and> ej_observations job = obs_ids \<and> ej_reps job = map xd_rep decisions \<and>
    length decisions = length rep_ids \<and> (\<forall>y\<in>set decisions. settled_by (fz_policy fz) y) \<and>
    final_left r (ej_checkpoint job) obs_ids decisions (es_db y)"
proof -
  from assms(1) obtain u1 x1 u2 x2 proposed x3 decisions x4 u5 x5 k where
    1: "writing env (\<lambda>n st d. executing (checkpoint_private_output st obs_ids rep_ids (xe_ids env n 0) (xe_clock env n) d)) x = (Inr u1, x1)"
    and 2: "cancel_if_requested env x1 = (Inr u2, x2)" and 3: "decide_private env i fz rep_ids x2 = (Inr proposed, x3)"
    and 4: "writing env (\<lambda>n st d. persist_decisions (xe_ids env n) (xe_clock env n) st i proposed d) x3 = (Inr decisions, x4)"
    and 5: "cancel_if_requested env x4 = (Inr u5, x5)"
    and 6: "writing env (\<lambda>n st d. executing (finalize st obs_ids (map entry_of decisions) (xe_ids env n 0) (xe_clock env n) d)) x5 = (Inr k, y)"
    and job: "job = \<lparr>ej_run = xi_run i, ej_checkpoint = k, ej_observations = obs_ids, ej_reps = map xd_rep decisions\<rparr>"
    unfolding execute_recognition_def bindX_Inr answer_Inr by blast
  have claim: "es_claim x5 = es_claim x"
    using writing_Inr [OF 1] cancel_if_requested_Inr [OF 2] decide_private_Inr [OF 3] writing_Inr [OF 4] cancel_if_requested_Inr [OF 5]
    by auto
  from writing_Inr [OF 6] claim assms(2) obtain n d where
    "finalize (es_claim x) obs_ids (map entry_of decisions) (xe_ids env n 0) (xe_clock env n) d = Inr (k, es_db y)" by auto
  then have "final_left r k obs_ids decisions (es_db y)" using assms(2) by (rule finalize_left)
  moreover from writing_Inr [OF 4] have D: "list_all2 decided_as proposed decisions"
    by (auto simp: persist_decisions_def bindE_Inr_iff dest: persist_each_decided)
  then have "\<forall>y\<in>set decisions. settled_by (fz_policy fz) y"
    using decide_private_Inr [OF 3] list_all2_source [OF D] decided_as_settled by blast
  ultimately show ?thesis
    using job decide_private_Inr [OF 3] list_all2_lengthD [OF D] by (intro exI [of _ decisions]) simp
qed

lemma execute_perception_Inr:
  assumes "execute_perception env i fz plan picture x = (Inr job, y)" and "cj_run (st_job (es_claim x)) = Some r"
  shows "\<exists>found decisions. xe_detect env plan picture = Inr found \<and> ej_run job = xi_run i \<and>
    length (ej_observations job) = length (dt_detections found) \<and> ej_reps job = map xd_rep decisions \<and>
    length decisions = length (dt_detections found) \<and> (\<forall>y\<in>set decisions. settled_by (fz_policy fz) y) \<and>
    final_left r (ej_checkpoint job) (ej_observations job) decisions (es_db y)"
proof -
  from assms(1) obtain found x1 u2 x2 obs_ids x3 u4 x4 rd x5 u6 x6 u7 x7 rep_ids x8 u9 where
    found: "xe_detect env plan picture = Inr found" and
    1: "advance_after_fallbacks env (dt_fallbacks found) x = (Inr u9, x1)" and 2: "cancel_if_requested env x1 = (Inr u2, x2)"
    and 3: "writing env (\<lambda>n st d. settle_detections (xe_catalog env n) (xe_ids env n) (xe_clock env n) i st found d) x2 = (Inr obs_ids, x3)"
    and 4: "cancel_if_requested env x3 = (Inr u4, x4)" and 5: "advance_after_fallbacks env (rd_fallbacks rd) x4 = (Inr u6, x6)"
    and 6: "cancel_if_requested env x6 = (Inr u7, x7)"
    and 7: "writing env (\<lambda>n st d.
              settle_representations (xe_catalog env n) (xe_norm env) (xe_ids env n) (xe_clock env n) st fz found obs_ids rd d) x7
            = (Inr rep_ids, x8)"
    and rest: "execute_recognition env i fz obs_ids rep_ids x8 = (Inr job, y)"
    unfolding execute_perception_def bindX_Inr answer_Inr by blast
  have claim: "st_job (es_claim x7) = st_job (es_claim x)" "es_claim x8 = es_claim x7"
    using advance_after_fallbacks_Inr [OF 1] cancel_if_requested_Inr [OF 2] writing_Inr [OF 3] cancel_if_requested_Inr [OF 4]
      advance_after_fallbacks_Inr [OF 5] cancel_if_requested_Inr [OF 6] writing_Inr [OF 7] by auto
  from writing_Inr [OF 3] have obs: "length obs_ids = length (dt_detections found)" by (auto dest: settle_detections_private)
  have run: "cj_run (st_job (es_claim x7)) = Some r" using claim assms(2) by simp
  from writing_Inr [OF 7] obtain d where
    w: "settle_representations (xe_catalog env (es_no x7)) (xe_norm env) (xe_ids env (es_no x7)) (xe_clock env (es_no x7))
          (es_claim x7) fz found obs_ids rd d = Inr (rep_ids, es_db x8)" by blast
  have "length rep_ids = length (dt_detections found)" using settle_representations_private [OF w run] by blast
  then show ?thesis
    using execute_recognition_Inr [OF rest, of r] claim run obs found by auto
qed


section \<open>What an execution that raises has left\<close>

definition finals :: "db \<Rightarrow> checkpoint list" where
  "finals d = filter (\<lambda>k. k_kind k = K_FINAL) (checkpoints d)"

definition log_without_final :: "exec_state \<Rightarrow> bool" where
  "log_without_final x \<longleftrightarrow> (\<forall>(d, d')\<in>set (es_log x). finals d' = finals d)"

text \<open>No new FINAL, however the part ends; and no new FINAL where it raises.\<close>

definition no_final :: "'a exec \<Rightarrow> bool" where
  "no_final m \<longleftrightarrow> (\<forall>x. log_without_final x \<longrightarrow> log_without_final (snd (m x)))"

definition no_final_raising :: "'a exec \<Rightarrow> bool" where
  "no_final_raising m \<longleftrightarrow> (\<forall>x e y. log_without_final x \<longrightarrow> m x = (Inl e, y) \<longrightarrow> log_without_final y)"

lemma no_final_bindX: "no_final m \<Longrightarrow> (\<And>a. no_final (f a)) \<Longrightarrow> no_final (bindX m f)"
  unfolding no_final_def bindX_def by (force split: prod.splits sum.splits)

lemma no_final_raising_bindX: "no_final m \<Longrightarrow> (\<And>a. no_final_raising (f a)) \<Longrightarrow> no_final_raising (bindX m f)"
  unfolding no_final_def no_final_raising_def bindX_def by (force split: prod.splits sum.splits)

lemma no_final_raising: "no_final m \<Longrightarrow> no_final_raising m"
  unfolding no_final_def no_final_raising_def by (metis snd_conv)

lemma no_final_answer: "no_final (answer r)"
  by (simp add: no_final_def answer_def)

lemma no_final_reading: "no_final (reading env f)"
  by (simp add: no_final_def reading_def Let_def log_without_final_def)

lemma no_final_writing:
  assumes "\<And>n st d a d'. f n st d = Inr (a, d') \<Longrightarrow> finals d' = finals d"
  shows "no_final (writing env f)"
  using assms by (auto simp: no_final_def writing_def log_without_final_def Let_def split: sum.splits)

lemma settle_claim_finals:
  "settle_claim st job_from run_from seg_to reason v job_to code detail msg now d = Inr d' \<Longrightarrow> checkpoints d' = checkpoints d"
  unfolding settle_claim_def Let_def
  by (auto simp: bindE_Inr_iff split: option.splits if_splits prod.splits)

lemma executor_fail_finals: "finals (executor_fail st code now d) = finals d"
  by (auto simp: executor_fail_def finals_def split: sum.split dest: settle_claim_finals)

lemma cancel_if_requested_no_final: "no_final (cancel_if_requested env)"
  unfolding cancel_if_requested_def
  by (intro no_final_bindX no_final_reading)
    (auto simp: map_sum_Inr_pair executor_cancel_def finals_def
      intro!: no_final_answer no_final_bindX no_final_writing dest!: settle_claim_finals)

lemma advance_after_fallbacks_no_final: "no_final (advance_after_fallbacks env fs)"
proof (cases "fs = []")
  case False
  have "no_final (\<lambda>x. (Inr (), x\<lparr>es_claim := (es_claim x)\<lparr>st_segment := u\<rparr>\<rparr>))" for u
    by (simp add: no_final_def log_without_final_def)
  with False show ?thesis
    unfolding advance_after_fallbacks_def
    by (auto simp: record_provider_fallbacks_def bindE_Inr_iff finals_def intro!: no_final_bindX no_final_writing)
qed (auto simp: advance_after_fallbacks_def intro: no_final_answer)

lemma write_observations_finals: "write_observations c ids clk i sg v n xs d = Inr (obs, d') \<Longrightarrow> checkpoints d' = checkpoints d"
  by (induction xs arbitrary: n d obs) (auto simp: bindE_Inr_iff write_observation_Inr Let_def)

lemma write_representations_finals:
  "write_representations c norm2 ids clk sg v sp n xs obs fs d = Inr (rs, d') \<Longrightarrow> checkpoints d' = checkpoints d"
proof (induction c norm2 ids clk sg v sp n xs obs fs d arbitrary: rs rule: write_representations.induct)
  case (2 c norm2 ids clk sg v sp n x xs ob obs f fs d)
  from 2(2) obtain r d1 rest where
    "write_representation c norm2 ob sg (dn_index x) f v sp (ids n) (clk n) d = Inr (r, d1)" and
    "write_representations c norm2 ids clk sg v sp (Suc n) xs obs fs d1 = Inr (rest, d')"
    by (auto simp: bindE_Inr_iff)
  then show ?case using 2(1) by (auto simp: write_representation_Inr Let_def)
qed auto

lemma persist_each_finals: "persist_each ids clk i n xs d = Inr (ys, d') \<Longrightarrow> checkpoints d' = checkpoints d"
proof (induction xs arbitrary: n d ys)
  case (Cons x xs)
  then obtain y m d1 rest where p: "persist_decision ids clk i n x d = Inr ((y, m), d1)"
    and rest: "persist_each ids clk i m xs d1 = Inr (rest, d')" by (auto simp: bindE_Inr_iff)
  have "checkpoints d1 = checkpoints d"
    using p by (auto simp: persist_decision_def name_identity_of_def bindE_Inr_iff create_pending_identity_def Let_def
        split: option.splits if_splits outcome.splits)
  with Cons.IH [OF rest] show ?case by simp
qed simp

lemma execute_recognition_no_final: "no_final_raising (execute_recognition env i fz obs_ids rep_ids)"
proof -
  have last: "no_final_raising (bindX (writing env f) (\<lambda>k. answer (Inr (g k))))"
    for f :: "nat \<Rightarrow> started \<Rightarrow> db \<Rightarrow> execution_error + uuid \<times> db" and g :: "uuid \<Rightarrow> executed_job"
    by (auto simp: no_final_raising_def bindX_def writing_def answer_def log_without_final_def Let_def split: sum.splits)
  have "no_final (decide_private env i fz rep_ids)"
    unfolding decide_private_def by (auto intro!: no_final_answer no_final_bindX no_final_reading)
  then show ?thesis
    unfolding execute_recognition_def
    by (intro no_final_raising_bindX last no_final_writing cancel_if_requested_no_final)
      (auto simp: persist_decisions_def bindE_Inr_iff finals_def dest!: persist_each_finals
        elim!: checkpoint_private_output_effect dest!: checkpoint_append_others)
qed

lemma execute_perception_no_final: "no_final_raising (execute_perception env i fz plan picture)"
  unfolding execute_perception_def
  by (intro no_final_raising_bindX no_final_writing cancel_if_requested_no_final no_final_answer advance_after_fallbacks_no_final
      execute_recognition_no_final)
    (auto simp: settle_detections_def settle_representations_def bindE_Inr_iff finals_def split: if_splits option.splits
      dest!: write_observations_finals write_representations_finals)

lemma execute_body_no_final: "no_final_raising (execute_body env)"
  unfolding execute_body_def
  by (intro no_final_raising_bindX cancel_if_requested_no_final no_final_answer no_final_reading execute_perception_no_final)


section \<open>Two executions\<close>

definition sample_snapshot :: json where
  "sample_snapshot = JObj [(''schema_version'', JInt 1),
     (''detector'', JObj [(''component_version'', JObj [(''id'', JUuid 73)]), (''export'', JObj [(''id'', JUuid 75)])]),
     (''embedder'', JObj [(''export'', JObj [(''id'', JUuid 76)])]),
     (''representation_space'', JObj [(''id'', JUuid 5), (''dimension'', JInt 2)]),
     (''runtime_policy'', JObj [(''providers'', JList [JStr ''CPU''])]), (''decision_policy'', Configuration.sample_policy_json)]"

definition executing_db :: db where
  "executing_db = sample_started\<lparr>snapshots := map (\<lambda>n. n\<lparr>n_json := sample_snapshot\<rparr>) (snapshots sample_started)\<rparr>"

text \<open>A picture without a face, and nobody else at work.\<close>

definition quiet_env :: execution_env where
  "quiet_env = \<lparr>xe_others = (\<lambda>_ d. d), xe_catalog = (\<lambda>_. sample_catalog), xe_ids = (\<lambda>n k. 100 + n + k), xe_clock = (\<lambda>_ _. 9),
     xe_spelt = (\<lambda>_. None), xe_planner = (\<lambda>_ _ _. Inr sample_plan), xe_managed = (\<lambda>_. Inr []), xe_path = (\<lambda>_. Inr []),
     xe_pillow = \<lparr>pil_open = (\<lambda>_. Opened JPEG 1 1), pil_decode = (\<lambda>_. Colour 1 1 [0, 0, 0])\<rparr>, xe_max_pixels = 100,
     xe_detect = (\<lambda>_ _. Inr \<lparr>dt_detections = [], dt_ran = planned_detector, dt_fallbacks = []\<rparr>),
     xe_represent = (\<lambda>_ _ _. Inr \<lparr>rd_vectors = [], rd_ran = None, rd_fallbacks = []\<rparr>), xe_norm = (\<lambda>_. 1),
     xe_index = scan_env, xe_global = (\<lambda>_. Inr sample_global), xe_k = 2\<rparr>"

text \<open>The same, with the original's bytes gone.\<close>

definition missing_env :: execution_env where
  "missing_env = quiet_env\<lparr>xe_managed := (\<lambda>_. Inl BytesMissing)\<rparr>"

definition sample_input :: execution_input where
  "sample_input = \<lparr>xi_source = 1, xi_run = 11, xi_snapshot = sample_snapshot, xi_mode = MANAGED, xi_key = Some ''k'', xi_path = None\<rparr>"

definition sample_frozen :: frozen_configuration where
  "sample_frozen = \<lparr>fz_detector_version = 73, fz_detector_export = 75, fz_embedder_export = 76, fz_space = 5, fz_dimension = 2,
     fz_providers = [''CPU''],
     fz_policy = \<lparr>po_version = ''p1'', po_gate = 1/2, po_match = 1/2, po_margin = 1/4, po_ceiling = 1/4\<rparr>\<rparr>"

definition marked :: "uuid \<times> db" where
  "marked = projr (checkpoint_private_output sample_claim [] [] 109 (\<lambda>_. 9) executing_db)"

definition finished :: "uuid \<times> db" where
  "finished = projr (finalize sample_claim [] [] 113 (\<lambda>_. 9) (snd marked))"

lemma executing_db_facts:
  "\<not> cancellation_requested sample_claim executing_db" "input_of sample_claim executing_db = Inr sample_input"
  "\<not> isl (settlement_context sample_claim False executing_db)"
  "\<not> isl (checkpoint_private_output sample_claim [] [] 109 (\<lambda>_. 9) executing_db)"
  "\<not> cancellation_requested sample_claim (snd marked)" "\<not> isl (settlement_context sample_claim False (snd marked))"
  "\<not> isl (finalize sample_claim [] [] 113 (\<lambda>_. 9) (snd marked))" "keyed_rows executing_db"
  by code_simp+

lemma sample_frozen_read: "frozen (\<lambda>_. None) sample_snapshot = Inr sample_frozen"
  by (simp add: frozen_def sample_snapshot_def Configuration.sample_policy_json_def sample_frozen_def object_item_def frozen_policy_def
      policy_ok_def Let_def)

lemma not_isl_Inr: "\<not> isl x \<Longrightarrow> x = Inr (projr x)"
  by (cases x) simp_all

lemma executed_facts:
  "settlement_context sample_claim False executing_db = Inr (projr (settlement_context sample_claim False executing_db))"
  "checkpoint_private_output sample_claim [] [] 109 (\<lambda>_. 9) executing_db = Inr marked"
  "settlement_context sample_claim False (snd marked) = Inr (projr (settlement_context sample_claim False (snd marked)))"
  "finalize sample_claim [] [] 113 (\<lambda>_. 9) (snd marked) = Inr finished"
  using executing_db_facts(3,4,6,7) [THEN not_isl_Inr] by (simp_all only: marked_def [symmetric] finished_def [symmetric])

lemmas run_execution = bindX_def answer_def reading_def writing_def cancel_if_requested_def advance_after_fallbacks_def Let_def

lemma quiet_execution:
  "\<exists>job x. execute_job quiet_env (execution_of sample_claim executing_db) = (Inr job, x)"
proof -
  obtain k d1 where m: "marked = (k, d1)" by (rule prod.exhaust)
  obtain f d2 where f: "finished = (f, d2)" by (rule prod.exhaust)
  obtain c where c: "settlement_context sample_claim False executing_db = Inr c" using executed_facts(1) by blast
  obtain c' where c': "settlement_context sample_claim False d1 = Inr c'" using executed_facts(3) unfolding m by simp
  have e: "\<not> cancellation_requested sample_claim d1" "checkpoint_private_output sample_claim [] [] 109 (\<lambda>_. 9) executing_db = Inr (k, d1)"
    "finalize sample_claim [] [] 113 (\<lambda>_. 9) d1 = Inr (f, d2)"
    using executing_db_facts(5) executed_facts(2,4) by (simp_all add: m f)
  show ?thesis
    by (simp add: execute_job_def execute_body_def execute_perception_def execute_recognition_def run_execution quiet_env_def
        execution_of_def executing_db_facts(1,2) sample_frozen_read sample_input_def read_original_def decode_image_def open_image_def
        to_rgb_def settle_detections_def settle_representations_def decide_private_def persist_decisions_def c c' e)
qed

lemma missing_execution:
  "\<exists>x after. execute_job missing_env (execution_of sample_claim executing_db) = (Inl BytesMissing, x) \<and>
     es_log x = [(executing_db, after)]"
  by (simp add: execute_job_def execute_body_def run_execution quiet_env_def missing_env_def
      execution_of_def executing_db_facts(1,2) sample_frozen_read sample_input_def read_original_def)

lemma sample_claim_run: "cj_run (st_job sample_claim) = Some 11"
  by (simp add: sample_claim_def)


lemma executions_write_only_private_output_witness:
  "\<exists>x after. execute_job missing_env (execution_of sample_claim executing_db) = (Inl BytesMissing, x) \<and>
     (executing_db, after) \<in> set (es_log x) \<and> private_write 11 executing_db after"
proof -
  obtain x after where run: "execute_job missing_env (execution_of sample_claim executing_db) = (Inl BytesMissing, x)"
    and log: "es_log x = [(executing_db, after)]" using missing_execution by blast
  have l: "(executing_db, after) \<in> set (es_log x)" using log by simp
  from executions_write_only_private_output [OF sample_claim_run run l executing_db_facts(8)] run l show ?thesis by blast
qed


end
