(* ===== verification/Spec2Isabelle.thy ===== *)
theory Spec2Isabelle
  imports RunLife Floats Recognition Corrections Erasure Artifacts Forget Originals Deletion Runner Execute
begin

text \<open>
  A verification development of the FaceIdentify backend (\<open>backend/\<close>), a local library that finds faces
  in imported images, recognises them against its memory and lets the user correct, name and forget
  them. The state is one SQLite database, directories of managed files and vector indexes, and the
  user's own referenced originals.

  THE STATE. \<open>Schema\<close> has one record per table (\<open>backend/app/*/models.py\<close>) and the database \<open>db\<close>, a record
  of tables; a table is the list of its rows (\<open>Prelude\<close>: \<open>tab_get\<close>, \<open>tab_update\<close>, \<open>tab_count\<close> are
  \<open>session.get\<close>, \<open>UPDATE ... WHERE\<close> and its row count). CHECK constraints and unique indexes are predicates
  on rows and tables. Identifiers are their 128-bit numbers, times are microseconds, JSON is a datatype in which
  the canonical spelling of a UUID is the constructor \<open>JUuid\<close>. Every operation maps the database to the
  new one; an exception is the left side of a sum, with the database unchanged because the
  transaction is rolled back. \<open>ids\<close> and \<open>now\<close> or \<open>clock\<close> are the injected \<open>new_id\<close> and \<open>clock\<close>.

  THE PARTS AND THEIR THEORIES, in the order the program has them.
  \<^item> Writing (\<open>Transactions\<close>): the optimistic update of \<open>db/optimistic.py\<close> and the unit of work of
    \<open>db/unit_of_work.py\<close>, which runs a transaction again while SQLite is busy. Locales \<open>revisioned\<close>,
    \<open>state_column\<close> and \<open>keyset\<close> (\<open>Paging\<close>) are the contracts of a revisioned row, a state column and a
    page of rows; each is interpreted on the tables that use it.
  \<^item> Processing: \<open>Jobs\<close> (\<open>jobs/repository.py\<close>), \<open>RunStore\<close> (\<open>processing/run_repository.py\<close>, \<open>repository.py\<close>),
    \<open>Runs\<close> (\<open>process_source.py\<close>, \<open>scheduler.py\<close>, \<open>cancel.py\<close>, \<open>retry.py\<close>, the settlements of \<open>execute_job.py\<close>, the recovery
    of \<open>recovery/startup.py\<close>), \<open>RunLife\<close> (the abstract machine of an attempt and the proof that every
    transaction refines it), \<open>Final\<close> and \<open>Acceptance\<close> (\<open>accept_run.py\<close>) and \<open>Runner\<close> (\<open>runner.py\<close> and the acceptance at startup).
  \<^item> Recognition: \<open>Recognition\<close> (\<open>recognition/assessment.py\<close>, \<open>reasoner.py\<close>) over the rounded subtraction of \<open>Floats\<close>.
  \<^item> Memory: \<open>Memory\<close> and \<open>IndexQueue\<close> (\<open>memory/repository.py\<close>, \<open>index_operation_repository.py\<close>), \<open>IdentityStore\<close>
    (\<open>identities/repository.py\<close>), \<open>Identities\<close> and \<open>IdentityLife\<close> (\<open>identities/use_cases.py\<close> and its invariant
    \<open>memory_ok\<close>), \<open>People\<close> (\<open>people/use_cases.py\<close>), \<open>Corrections\<close> (\<open>identities/corrections.py\<close>), \<open>Forget\<close>
    (\<open>identities/forget.py\<close>), \<open>Erasure\<close> (\<open>memory/erasure.py\<close>).
  \<^item> Indexes: \<open>Folders\<close> (directories), \<open>VectorIndex\<close> (\<open>infrastructure/indexing/representation_index.py\<close> over a parameter for
    the USearch library and SHA-256) and \<open>Coordinator\<close> (\<open>memory/index_coordinator.py\<close>).
  \<^item> Files: \<open>Artifacts\<close> (\<open>sources/artifact_storage.py\<close>, \<open>infrastructure/storage/files.py\<close>), \<open>Media\<close>
    (\<open>infrastructure/media/image.py\<close> over a parameter for Pillow), \<open>Sources\<close> (\<open>sources/lifecycle.py\<close>, \<open>repository.py\<close>),
    \<open>Originals\<close> (importing, referencing, rechecking and relinking originals) and \<open>Deletion\<close> (\<open>sources/permanent_delete.py\<close>).

  WHAT THE THEOREMS SHOW. An attempt, its run and its segment move together and an attempt that is
  over never changes; startup settles what a crash left; every transaction is all or nothing. A face
  is matched only with quality, a complete shortlist and a lead over the runner-up; the decision does
  not depend on the order of the candidates; what the executor writes as FINAL is read back by
  acceptance, which commits exactly the private output of the run and only on evidence that still
  holds. Keys are never reused, the queue holds the last wish for each representation, an index that
  is opened holds what the database says, erased vectors are in no file. Identities stay consistent
  under merge, split, correction and forgetting. Rows never promise bytes that are missing, whatever
  the point at which a protocol is cut; a deleted source is hidden at once and leaves a tombstone.

  BOUNDS AND FUEL. Loops over tables are structural. \<open>uow_write\<close> retries at most as often as its policy
  says; the chunks of the \<open>IN\<close> queries have the code's sizes; \<open>follow_merges\<close> is a partial function that
  is proved to return on an acyclic merge relation. No definition uses fuel that the code does not have.
\<close>

text \<open>
  NOT MODELLED, and why.
  \<^item> SQLite itself: atomicity of a transaction, RESTRICT foreign keys (the database refuses; the model has
    no such branch), the write-ahead log (the outcome of a checkpoint is an argument), the DDL of \<open>alembic/\<close>.
  \<^item> The disk: which file is locked or unreadable is an argument of the operation, as are the results of
    Pillow, USearch and SHA-256, and \<open>str.casefold\<close>. Strings are 8-bit characters.
  \<^item> Inference: detection, alignment and embedding run in worker processes over ONNX; the executor receives
    their results. Process supervision, shared memory and file locks are calls into the operating system.
  \<^item> HTTP: \<open>backend/api/\<close> translates requests to the use cases modelled here and errors to problem documents.
  \<^item> \<open>evaluation/\<close>, scripts and the frontend are not part of the running backend.
\<close>

end
